(* ===== verification/Prelude.thy ===== *)
theory Prelude
  imports Main "HOL-Library.Word" "HOL-Library.Sublist" "HOL-Library.Char_ord"
    "HOL-Library.List_Lexorder"
begin

text \<open>
  The shared vocabulary of the development: machine integer types, the parts of Rust's
  standard library the modelled crates use (\<open>BTreeMap\<close>, \<open>Vec::sort_unstable\<close> with
  \<open>dedup\<close>, string functions, integer printing), the contract of an ordered map as a locale
  with its interpretation, and generic lemmas on lists, results and relations.

  Characters. A Rust \<open>char\<close> is a Unicode scalar; the model's \<open>char\<close> is a code point below
  256, so every string function here is exact on text of that range (which includes every
  literal of the modelled sources).
\<close>

section \<open>Collections of facts\<close>

named_theorems bt_laws \<open>lookup laws of the ordered map\<close>

section \<open>Machine integers\<close>

type_synonym u32 = "32 word"
type_synonym u64 = "64 word"

text \<open>A session id is a UUID: 128 bits, ordered as a number.\<close>

type_synonym session_id = "128 word"

text \<open>A \<open>u32\<close> counter kept as a natural number, with the wrap-around of a release build.\<close>

definition wrap32 :: "nat \<Rightarrow> nat" where
  "wrap32 n = n mod 2 ^ 32"

lemma wrap32_code [code]: "wrap32 n = nat (int n mod 4294967296)"
  by (simp add: wrap32_def nat_mod_distrib)

lemma wrap32_small [simp]: "n < 2 ^ 32 \<Longrightarrow> wrap32 n = n"
  by (simp add: wrap32_def)

section \<open>Results\<close>

text \<open>\<open>Result<T, E>\<close> is \<open>'e + 'a\<close> with \<open>Inl\<close> for \<open>Err\<close>.\<close>

abbreviation is_ok :: "'e + 'a \<Rightarrow> bool" where
  "is_ok r \<equiv> \<not> isl r"

definition ok_or :: "'e \<Rightarrow> 'a option \<Rightarrow> 'e + 'a" where
  "ok_or e x = (case x of None \<Rightarrow> Inl e | Some a \<Rightarrow> Inr a)"

lemma ok_or_simps [simp]:
  "ok_or e None = Inl e" "ok_or e (Some a) = Inr a"
  by (simp_all add: ok_or_def)

section \<open>Sorting and deduplication\<close>

text \<open>\<open>v.sort_unstable(); v.dedup();\<close>\<close>

definition sort_dedup :: "'a::linorder list \<Rightarrow> 'a list" where
  "sort_dedup xs = remdups_adj (sort xs)"

lemma set_sort_dedup [simp]: "set (sort_dedup xs) = set xs"
  by (simp add: sort_dedup_def)

lemma strict_sorted_remdups_adj: "sorted xs \<Longrightarrow> sorted_wrt (<) (remdups_adj xs)"
  by (induction xs rule: remdups_adj.induct) auto

lemma sorted_sort_dedup: "sorted_wrt (<) (sort_dedup xs)"
  by (simp add: sort_dedup_def strict_sorted_remdups_adj)

lemma sort_dedup_eq_Nil [simp]: "sort_dedup xs = [] \<longleftrightarrow> xs = []"
  by (metis set_empty set_sort_dedup)

section \<open>Ordered maps\<close>

text \<open>
  \<open>BTreeMap<K, V>\<close>: an association list with strictly increasing keys. \<open>bt_modify\<close> is a
  write through \<open>get_mut\<close>; iteration order is key order.
\<close>

type_synonym ('k, 'v) btree_map = "('k \<times> 'v) list"

definition bt_empty :: "('k, 'v) btree_map" where
  "bt_empty = []"

definition bt_get :: "('k, 'v) btree_map \<Rightarrow> 'k \<Rightarrow> 'v option" where
  "bt_get m k = map_of m k"

fun bt_insert :: "'k::linorder \<Rightarrow> 'v \<Rightarrow> ('k, 'v) btree_map \<Rightarrow> ('k, 'v) btree_map" where
  "bt_insert k v [] = [(k, v)]"
| "bt_insert k v ((k', v') # m) =
     (if k < k' then (k, v) # (k', v') # m
      else if k = k' then (k, v) # m
      else (k', v') # bt_insert k v m)"

definition bt_modify :: "'k \<Rightarrow> ('v \<Rightarrow> 'v) \<Rightarrow> ('k, 'v) btree_map \<Rightarrow> ('k, 'v) btree_map" where
  "bt_modify k f m = map (\<lambda>(k', v). (k', if k' = k then f v else v)) m"

definition bt_remove :: "'k \<Rightarrow> ('k, 'v) btree_map \<Rightarrow> ('k, 'v) btree_map" where
  "bt_remove k m = filter (\<lambda>(k', _). k' \<noteq> k) m"

definition bt_keys :: "('k, 'v) btree_map \<Rightarrow> 'k list" where
  "bt_keys m = map fst m"

definition bt_values :: "('k, 'v) btree_map \<Rightarrow> 'v list" where
  "bt_values m = map snd m"

definition bt_inv :: "('k::linorder, 'v) btree_map \<Rightarrow> bool" where
  "bt_inv m \<longleftrightarrow> sorted_wrt (<) (map fst m)"

text \<open>
  What the clients rely on: lookups after an insert or a write, and iteration in key order.
\<close>

locale ordered_map =
  fixes get :: "'m \<Rightarrow> 'k::linorder \<Rightarrow> 'v option"
    and insert :: "'k \<Rightarrow> 'v \<Rightarrow> 'm \<Rightarrow> 'm"
    and modify :: "'k \<Rightarrow> ('v \<Rightarrow> 'v) \<Rightarrow> 'm \<Rightarrow> 'm"
    and keys :: "'m \<Rightarrow> 'k list"
    and vals :: "'m \<Rightarrow> 'v list"
    and inv :: "'m \<Rightarrow> bool"
  assumes get_insert: "inv m \<Longrightarrow> get (insert k v m) = (get m)(k \<mapsto> v)"
    and get_modify: "get (modify k f m) = (get m)(k := map_option f (get m k))"
    and inv_insert: "inv m \<Longrightarrow> inv (insert k v m)"
    and inv_modify: "inv m \<Longrightarrow> inv (modify k f m)"
    and keys_sorted: "inv m \<Longrightarrow> sorted_wrt (<) (keys m)"
    and set_keys: "set (keys m) = dom (get m)"
    and vals_keys: "inv m \<Longrightarrow> vals m = map (\<lambda>k. the (get m k)) (keys m)"
begin

lemma keys_distinct: "inv m \<Longrightarrow> distinct (keys m)"
  using keys_sorted strict_sorted_iff by blast

lemma finite_dom: "finite (dom (get m))"
  by (metis List.finite_set set_keys)

lemma keys_modify: "inv m \<Longrightarrow> keys (modify k f m) = keys m"
proof -
  assume "inv m"
  have "set (keys (modify k f m)) = set (keys m)"
    by (auto simp: set_keys get_modify split: if_splits)
  with \<open>inv m\<close> show ?thesis
    using keys_sorted inv_modify strict_sorted_equal by metis
qed

lemma vals_iff: "inv m \<Longrightarrow> v \<in> set (vals m) \<longleftrightarrow> (\<exists>k. get m k = Some v)"
proof
  assume i: "inv m" and "v \<in> set (vals m)"
  then obtain k where "k \<in> set (keys m)" and "v = the (get m k)"
    by (auto simp: vals_keys)
  then show "\<exists>k. get m k = Some v"
    by (auto simp: set_keys dom_def)
next
  assume i: "inv m" and "\<exists>k. get m k = Some v"
  then show "v \<in> set (vals m)"
    by (force simp: vals_keys set_keys dom_def)
qed

lemma length_vals_modify: "inv m \<Longrightarrow> length (vals (modify k f m)) = length (vals m)"
  using vals_keys [of m] vals_keys [of "modify k f m"] keys_modify inv_modify by simp

lemma length_keys: "inv m \<Longrightarrow> length (keys m) = card (dom (get m))"
  by (metis distinct_card keys_distinct set_keys)

lemma length_filter_vals:
  assumes "inv m"
  shows "length (filter P (vals m)) = card {k. \<exists>v. get m k = Some v \<and> P v}"
proof -
  have "length (filter P (vals m)) = length (filter (P \<circ> (\<lambda>k. the (get m k))) (keys m))"
    using assms by (simp add: vals_keys filter_map)
  also have "\<dots> = card (set (filter (P \<circ> (\<lambda>k. the (get m k))) (keys m)))"
    by (rule distinct_card [symmetric]) (simp add: assms keys_distinct)
  also have "set (filter (P \<circ> (\<lambda>k. the (get m k))) (keys m)) = {k. \<exists>v. get m k = Some v \<and> P v}"
    by (auto simp: set_keys)
  finally show ?thesis .
qed

lemma get_modify_other: "k \<noteq> k' \<Longrightarrow> get (modify k f m) k' = get m k'"
  by (simp add: get_modify)

lemma get_insert_other: "inv m \<Longrightarrow> k \<noteq> k' \<Longrightarrow> get (insert k v m) k' = get m k'"
  by (simp add: get_insert)

end

text \<open>A map its clients also remove from.\<close>

locale removable_map = ordered_map +
  fixes remove
  assumes get_remove: "get (remove k m) = (get m)(k := None)"
    and inv_remove: "inv m \<Longrightarrow> inv (remove k m)"
begin

lemma set_keys_remove: "set (keys (remove k m)) = set (keys m) - {k}"
  by (simp add: set_keys get_remove)

lemma get_remove_insert: "inv m \<Longrightarrow> get (remove k (insert k v m)) = (get m)(k := None)"
  by (simp add: get_remove get_insert)

end

lemma bt_get_insert: "bt_inv m \<Longrightarrow> bt_get (bt_insert k v m) = (bt_get m)(k \<mapsto> v)"
proof (induction k v m rule: bt_insert.induct)
  case (2 k v k' v' m)
  then show ?case
    by (auto simp: bt_inv_def bt_get_def fun_eq_iff)
qed (simp add: bt_get_def fun_eq_iff)

lemma bt_get_modify: "bt_get (bt_modify k f m) = (bt_get m)(k := map_option f (bt_get m k))"
  by (induction m) (auto simp: bt_get_def bt_modify_def fun_eq_iff)

lemma keys_bt_insert: "set (map fst (bt_insert k v m)) = insert k (set (map fst m))"
  by (induction k v m rule: bt_insert.induct) auto

lemma bt_inv_insert: "bt_inv m \<Longrightarrow> bt_inv (bt_insert k v m)"
proof (induction k v m rule: bt_insert.induct)
  case (2 k v k' v' m)
  have "set (map fst (bt_insert k v m)) = insert k (fst ` set m)"
    using keys_bt_insert [of k v m] by simp
  with 2 show ?case
    by (auto simp: bt_inv_def)
qed (simp add: bt_inv_def)

lemma map_fst_bt_modify: "map fst (bt_modify k f m) = map fst m"
  by (induction m) (auto simp: bt_modify_def)

interpretation bt: ordered_map bt_get bt_insert bt_modify bt_keys bt_values bt_inv
proof unfold_locales
  fix m :: "('k::linorder, 'v) btree_map" and k :: 'k and v :: 'v and f
  show "bt_inv m \<Longrightarrow> bt_get (bt_insert k v m) = (bt_get m)(k \<mapsto> v)"
    by (rule bt_get_insert)
  show "bt_get (bt_modify k f m) = (bt_get m)(k := map_option f (bt_get m k))"
    by (rule bt_get_modify)
  show "bt_inv m \<Longrightarrow> bt_inv (bt_insert k v m)"
    by (rule bt_inv_insert)
  show "bt_inv m \<Longrightarrow> bt_inv (bt_modify k f m)"
    unfolding bt_inv_def map_fst_bt_modify .
  show "bt_inv m \<Longrightarrow> sorted_wrt (<) (bt_keys m)"
    by (simp add: bt_inv_def bt_keys_def)
  show "set (bt_keys m) = dom (bt_get m)"
    by (simp add: bt_keys_def bt_get_def [abs_def] dom_map_of_conv_image_fst)
  show "bt_inv m \<Longrightarrow> bt_values m = map (\<lambda>k. the (bt_get m k)) (bt_keys m)"
  proof -
    assume "bt_inv m"
    then have "distinct (map fst m)"
      unfolding bt_inv_def using strict_sorted_iff by blast
    then show ?thesis
      by (auto simp: bt_values_def bt_keys_def bt_get_def)
  qed
qed

lemma bt_get_remove: "bt_get (bt_remove k m) = (bt_get m)(k := None)"
  by (induction m) (auto simp: bt_get_def bt_remove_def fun_eq_iff)

lemma bt_inv_remove: "bt_inv m \<Longrightarrow> bt_inv (bt_remove k m)"
  by (simp add: bt_inv_def bt_remove_def sorted_wrt_map sorted_wrt_filter)

interpretation btr: removable_map bt_get bt_insert bt_modify bt_keys bt_values bt_inv bt_remove
  by unfold_locales (fact bt_get_remove, fact bt_inv_remove)

lemma bt_inv_empty [simp]: "bt_inv bt_empty"
  by (simp add: bt_inv_def bt_empty_def)

lemma bt_get_empty [simp]: "bt_get bt_empty k = None"
  by (simp add: bt_get_def bt_empty_def)

lemma bt_inv_Nil [simp]: "bt_inv []"
  by (simp add: bt_inv_def)

lemma bt_get_Nil [simp]: "bt_get [] k = None"
  by (simp add: bt_get_def)

lemma length_bt_card: "bt_inv m \<Longrightarrow> length m = card (dom (bt_get m))"
  using bt.length_keys [of m] by (simp add: bt_keys_def)

lemma bt_eq_Nil_iff: "(m :: ('k::linorder, 'v) btree_map) = [] \<longleftrightarrow> dom (bt_get m) = {}"
  using bt.set_keys [of m] by (auto simp: bt_keys_def)

lemma length_bt_modify [simp]: "length (bt_modify k f m) = length m"
  by (simp add: bt_modify_def)

lemmas bt_laws_intro [bt_laws] =
  bt.get_insert bt.get_modify bt.inv_insert bt.inv_modify bt.keys_modify
  bt_get_remove bt_inv_remove

end
