(* ===== verification/Rust_Str.thy ===== *)
theory Rust_Str
  imports Prelude
begin

text \<open>
  The functions of Rust's \<open>str\<close> and \<open>format!\<close> that the modelled sources call: trimming,
  ASCII lower-casing, substring tests, splitting, joining and decimal printing.
\<close>

section \<open>Definitions\<close>

definition is_whitespace :: "char \<Rightarrow> bool" where
  "is_whitespace c \<longleftrightarrow>
     (let n = (of_char c :: nat) in (9 \<le> n \<and> n \<le> 13) \<or> n = 32 \<or> n = 133 \<or> n = 160)"

definition is_ascii_digit :: "char \<Rightarrow> bool" where
  "is_ascii_digit c \<longleftrightarrow> (let n = (of_char c :: nat) in 48 \<le> n \<and> n \<le> 57)"

definition is_ascii_upper :: "char \<Rightarrow> bool" where
  "is_ascii_upper c \<longleftrightarrow> (let n = (of_char c :: nat) in 65 \<le> n \<and> n \<le> 90)"

definition is_ascii_lower :: "char \<Rightarrow> bool" where
  "is_ascii_lower c \<longleftrightarrow> (let n = (of_char c :: nat) in 97 \<le> n \<and> n \<le> 122)"

definition is_ascii_alphanumeric :: "char \<Rightarrow> bool" where
  "is_ascii_alphanumeric c \<longleftrightarrow> is_ascii_digit c \<or> is_ascii_upper c \<or> is_ascii_lower c"

text \<open>An upper-case ASCII letter differs from its lower-case form in bit 5 only.\<close>

fun ascii_lower_char :: "char \<Rightarrow> char" where
  "ascii_lower_char (Char b0 b1 b2 b3 b4 b5 b6 b7) =
     (if is_ascii_upper (Char b0 b1 b2 b3 b4 b5 b6 b7)
      then Char b0 b1 b2 b3 b4 True b6 b7 else Char b0 b1 b2 b3 b4 b5 b6 b7)"

definition to_ascii_lowercase :: "string \<Rightarrow> string" where
  "to_ascii_lowercase s = map ascii_lower_char s"

definition trim_matches :: "(char \<Rightarrow> bool) \<Rightarrow> string \<Rightarrow> string" where
  "trim_matches P s = rev (dropWhile P (rev (dropWhile P s)))"

definition trim :: "string \<Rightarrow> string" where
  "trim s = trim_matches is_whitespace s"

fun str_contains :: "string \<Rightarrow> string \<Rightarrow> bool" where
  "str_contains [] n = (n = [])"
| "str_contains (c # s) n = (prefix n (c # s) \<or> str_contains s n)"

definition strip_suffix :: "string \<Rightarrow> string \<Rightarrow> string option" where
  "strip_suffix s suf =
     (if suffix suf s then Some (take (length s - length suf) s) else None)"

text \<open>\<open>split_once(c)\<close>: the parts before and after the first occurrence.\<close>

fun split_once :: "string \<Rightarrow> char \<Rightarrow> (string \<times> string) option" where
  "split_once [] c = None"
| "split_once (x # s) c =
     (if x = c then Some ([], s)
      else map_option (\<lambda>(a, b). (x # a, b)) (split_once s c))"

text \<open>\<open>split(P)\<close>: always at least one piece, empty pieces included.\<close>

fun split_by :: "(char \<Rightarrow> bool) \<Rightarrow> string \<Rightarrow> string list" where
  "split_by P [] = [[]]"
| "split_by P (c # s) =
     (if P c then [] # split_by P s
      else (case split_by P s of [] \<Rightarrow> [[c]] | p # ps \<Rightarrow> (c # p) # ps))"

definition is_nl :: "char \<Rightarrow> bool" where
  "is_nl c \<longleftrightarrow> c = CHR 0x0A"

text \<open>\<open>str::lines\<close>: a carriage return before the line feed goes, a final empty line is not one.\<close>

definition strip_cr :: "string \<Rightarrow> string" where
  "strip_cr l = (if l \<noteq> [] \<and> last l = CHR 0x0D then butlast l else l)"

definition str_lines :: "string \<Rightarrow> string list" where
  "str_lines s =
     (let ps = split_by is_nl s
      in map strip_cr (butlast ps) @ (if last ps = [] then [] else [last ps]))"

text \<open>\<open>to_lowercase\<close> on the model's characters: the Latin-1 letters differ in bit 5 as well.\<close>

fun lower_char :: "char \<Rightarrow> char" where
  "lower_char (Char b0 b1 b2 b3 b4 b5 b6 b7) =
     (let c = Char b0 b1 b2 b3 b4 b5 b6 b7; n = (of_char c :: nat)
      in if is_ascii_upper c \<or> (192 \<le> n \<and> n \<le> 222 \<and> n \<noteq> 215)
         then Char b0 b1 b2 b3 b4 True b6 b7 else c)"

definition to_lowercase :: "string \<Rightarrow> string" where
  "to_lowercase s = map lower_char s"

definition remove_char :: "char \<Rightarrow> string \<Rightarrow> string" where
  "remove_char c s = filter (\<lambda>x. x \<noteq> c) s"

definition replace_char :: "char \<Rightarrow> char \<Rightarrow> string \<Rightarrow> string" where
  "replace_char a b s = map (\<lambda>x. if x = a then b else x) s"

fun join :: "string \<Rightarrow> string list \<Rightarrow> string" where
  "join sep [] = []"
| "join sep [s] = s"
| "join sep (s # t # ss) = s @ sep @ join sep (t # ss)"

definition newline :: string where
  "newline = [CHR 0x0A]"

text \<open>\<open>len\<close> counts bytes of UTF-8, where a character from 128 on takes two.\<close>

definition utf8_len :: "char \<Rightarrow> nat" where
  "utf8_len c = (if (of_char c :: nat) < 128 then 1 else 2)"

definition byte_len :: "string \<Rightarrow> nat" where
  "byte_len s = sum_list (map utf8_len s)"

definition split_whitespace :: "string \<Rightarrow> string list" where
  "split_whitespace s = filter (\<lambda>t. t \<noteq> []) (split_by is_whitespace s)"

definition eq_ignore_ascii_case :: "string \<Rightarrow> string \<Rightarrow> bool" where
  "eq_ignore_ascii_case a b \<longleftrightarrow> to_ascii_lowercase a = to_ascii_lowercase b"

text \<open>Decimal printing of an unsigned integer.\<close>

definition digit_char :: "nat \<Rightarrow> char" where
  "digit_char d = (if d < 10 then ''0123456789'' ! d else CHR ''?'')"

fun show_nat :: "nat \<Rightarrow> string" where
  "show_nat n =
     (if n < 10 then [digit_char n] else show_nat (n div 10) @ [digit_char (n mod 10)])"

declare show_nat.simps [simp del]

section \<open>Lemmas\<close>

definition blank :: "string \<Rightarrow> bool" where
  "blank s \<longleftrightarrow> list_all is_whitespace s"

lemma trim_matches_eq_Nil: "trim_matches P s = [] \<longleftrightarrow> list_all P s"
proof
  assume "trim_matches P s = []"
  then have "\<forall>x \<in> set (dropWhile P s). P x"
    by (simp add: trim_matches_def)
  then have "dropWhile P s = []"
    by (metis dropWhile_eq_Nil_conv hd_dropWhile list.set_sel(1))
  then show "list_all P s"
    by (simp add: list_all_iff)
next
  assume "list_all P s"
  then show "trim_matches P s = []"
    by (auto simp: trim_matches_def list_all_iff dest: set_dropWhileD)
qed

lemma trim_eq_Nil: "trim s = [] \<longleftrightarrow> blank s"
  by (simp add: trim_def trim_matches_eq_Nil blank_def)

lemma blank_Nil [simp]: "blank []"
  by (simp add: blank_def)

lemma ascii_lower_idem [simp]: "ascii_lower_char (ascii_lower_char c) = ascii_lower_char c"
proof (cases c)
  case (Char b0 b1 b2 b3 b4 b5 b6 b7)
  then show ?thesis
    by (cases b0; cases b1; cases b2; cases b3; cases b4; cases b5; cases b6; cases b7;
        simp add: is_ascii_upper_def Let_def)
qed

lemma to_ascii_lowercase_idem [simp]:
  "to_ascii_lowercase (to_ascii_lowercase s) = to_ascii_lowercase s"
  by (simp add: to_ascii_lowercase_def)

lemma str_contains_iff: "str_contains s n \<longleftrightarrow> (\<exists>a b. s = a @ n @ b)"
proof (induction s)
  case (Cons c s)
  show ?case
  proof
    assume "str_contains (c # s) n"
    then consider "prefix n (c # s)" | "str_contains s n"
      by auto
    then show "\<exists>a b. c # s = a @ n @ b"
    proof cases
      case 1
      then show ?thesis
        by (metis append_Nil prefixE)
    next
      case 2
      with Cons.IH show ?thesis
        by (metis append_Cons)
    qed
  next
    assume "\<exists>a b. c # s = a @ n @ b"
    then obtain a b where ab: "c # s = a @ n @ b"
      by blast
    show "str_contains (c # s) n"
    proof (cases a)
      case Nil
      with ab have "prefix n (c # s)"
        by (simp add: prefix_def)
      then show ?thesis
        by simp
    next
      case (Cons x a')
      with ab have "s = a' @ n @ b"
        by simp
      with Cons.IH show ?thesis
        by auto
    qed
  qed
qed simp

lemma str_contains_mid: "str_contains (a @ n @ b) n"
  unfolding str_contains_iff by blast

lemma str_contains_append: "str_contains s n \<Longrightarrow> str_contains (s @ t) n" 
  "str_contains t n \<Longrightarrow> str_contains (s @ t) n"
  unfolding str_contains_iff by (metis append.assoc)+

lemma str_contains_concat: "x \<in> set xs \<Longrightarrow> str_contains x n \<Longrightarrow> str_contains (concat xs) n"
  by (induction xs) (auto intro: str_contains_append)

lemma split_once_Some: "split_once s c = Some (a, b) \<Longrightarrow> s = a @ c # b \<and> c \<notin> set a"
  by (induction s arbitrary: a b) (auto split: if_splits)

lemma split_once_None: "split_once s c = None \<longleftrightarrow> c \<notin> set s"
  by (induction s) auto

lemma split_by_ne [simp]: "split_by P s \<noteq> []"
  by (cases s) (auto split: list.splits)

lemma length_show_nat_pos [simp]: "show_nat n \<noteq> []"
  by (subst show_nat.simps) simp

end
