(* ===== verification/Rust_Path.thy ===== *)
theory Rust_Path
  imports Rust_Str
begin

text \<open>
  \<open>std::path\<close> on a POSIX host, as far as the sandbox crate uses it: splitting a path into
  components, the file name with its stem and extension, the parent, and the component-wise
  prefix test. A path that has been taken apart is the list of its components.
\<close>

section \<open>Definitions\<close>

datatype path_comp = RootDir | CurDir | ParentDir | Normal string

type_synonym path = "path_comp list"

fun seg_comp :: "string \<Rightarrow> path_comp option" where
  "seg_comp s =
     (if s = [] \<or> s = ''.'' then None
      else if s = ''..'' then Some ParentDir
      else Some (Normal s))"

definition has_root :: "string \<Rightarrow> bool" where
  "has_root s = (case s of c # _ \<Rightarrow> c = CHR ''/'' | [] \<Rightarrow> False)"

text \<open>
  \<open>Path::components\<close>: repeated separators and inner dots disappear; a dot that opens a
  relative path stays.
\<close>

definition components :: "string \<Rightarrow> path" where
  "components s =
     (let segs = split_by (\<lambda>c. c = CHR ''/'') s; rest = List.map_filter seg_comp segs
      in if has_root s then RootDir # rest
         else if hd segs = ''.'' then CurDir # rest else rest)"

definition comps_file_name :: "path \<Rightarrow> string option" where
  "comps_file_name cs =
     (if cs = [] then None else (case last cs of Normal n \<Rightarrow> Some n | _ \<Rightarrow> None))"

definition comps_parent :: "path \<Rightarrow> path option" where
  "comps_parent cs = (if cs = [] \<or> last cs = RootDir then None else Some (butlast cs))"

definition file_name :: "string \<Rightarrow> string option" where
  "file_name s = comps_file_name (components s)"

text \<open>The last dot of a file name; a name that only starts with one has no extension.\<close>

definition split_at_dot :: "string \<Rightarrow> string \<times> string option" where
  "split_at_dot n =
     (let after = rev (takeWhile (\<lambda>c. c \<noteq> CHR ''.'') (rev n));
          before = rev (tl (dropWhile (\<lambda>c. c \<noteq> CHR ''.'') (rev n)))
      in if CHR ''.'' \<notin> set n \<or> before = [] then (n, None) else (before, Some after))"

definition file_stem :: "string \<Rightarrow> string option" where
  "file_stem s = map_option (\<lambda>n. fst (split_at_dot n)) (file_name s)"

definition file_extension :: "string \<Rightarrow> string option" where
  "file_extension s = (case file_name s of None \<Rightarrow> None | Some n \<Rightarrow> snd (split_at_dot n))"

definition is_absolute :: "path \<Rightarrow> bool" where
  "is_absolute cs = (case cs of c # _ \<Rightarrow> c = RootDir | [] \<Rightarrow> False)"

text \<open>\<open>Path::starts_with\<close>: whole components, not characters.\<close>

fun path_starts_with :: "path \<Rightarrow> path \<Rightarrow> bool" where
  "path_starts_with _ [] = True"
| "path_starts_with [] (_ # _) = False"
| "path_starts_with (c # cs) (d # ds) = (c = d \<and> path_starts_with cs ds)"

text \<open>\<open>Path::join\<close>: an absolute second path replaces the first.\<close>

definition path_join :: "path \<Rightarrow> path \<Rightarrow> path" where
  "path_join a b = (if is_absolute b then b else a @ filter (\<lambda>c. c \<noteq> CurDir) b)"

section \<open>Lemmas\<close>

lemma path_starts_with_iff: "path_starts_with p r \<longleftrightarrow> (\<exists>t. p = r @ t)"
  by (induction p r rule: path_starts_with.induct) auto

lemma starts_with_refl [simp]: "path_starts_with p p"
  by (simp add: path_starts_with_iff)

lemma starts_with_trans:
  "path_starts_with p q \<Longrightarrow> path_starts_with q r \<Longrightarrow> path_starts_with p r"
  by (auto simp: path_starts_with_iff)

lemma components_root_first:
  "RootDir \<in> set (components s) \<Longrightarrow> is_absolute (components s) \<and> RootDir \<notin> set (tl (components s))"
proof -
  have "RootDir \<notin> set (List.map_filter seg_comp xs)" for xs
    by (induction xs) (auto simp: map_filter_simps split: if_splits)
  then show "RootDir \<in> set (components s) \<Longrightarrow> ?thesis"
    by (auto simp: components_def Let_def is_absolute_def split: if_splits)
qed

lemma seg_comp_Normal:
  "Normal n \<in> set (List.map_filter seg_comp segs) \<Longrightarrow> n \<noteq> [] \<and> n \<noteq> ''.'' \<and> n \<noteq> ''..''"
  by (induction segs) (auto simp: map_filter_simps split: if_splits)

end
