(* ===== verification/Command_Class.thy ===== *)
theory Command_Class
  imports Rust_Path
begin

text \<open>
  \<^verbatim>\<open>crates/localpilot-sandbox/src/command.rs\<close>: the risk class of a program and its arguments.
  Both per-OS classifiers are pure and modelled; a \<open>matches!\<close> over string literals is
  membership in the list of those literals. \<open>program_stem\<close> splits the program's path the way
  a POSIX host does.
\<close>

section \<open>Definitions\<close>

datatype command_class =
    ReadOnly | ProjectWrite | ExternalWrite | Network | Destructive | Privileged | Unknown

definition program_stem :: "string \<Rightarrow> string" where
  "program_stem program =
     to_ascii_lowercase (case file_stem program of Some s \<Rightarrow> s | None \<Rightarrow> program)"

definition args_lower :: "string list \<Rightarrow> string list" where
  "args_lower args = map to_ascii_lowercase args"

definition any_arg :: "string list \<Rightarrow> string list \<Rightarrow> bool" where
  "any_arg args needles = list_ex (\<lambda>a. a \<in> set needles) args"

definition wrapper_stems :: "string list" where
  "wrapper_stems =
     [''bash'', ''sh'', ''zsh'', ''dash'', ''ksh'', ''fish'', ''env'', ''nohup'', ''xargs'',
      ''nice'', ''ionice'', ''stdbuf'', ''timeout'', ''time'', ''wsl'']"

definition interpreter_stems :: "string list" where
  "interpreter_stems =
     [''python'', ''python3'', ''node'', ''deno'', ''bun'', ''perl'', ''ruby'', ''php'']"

definition is_opaque_wrapper :: "string \<Rightarrow> string list \<Rightarrow> bool" where
  "is_opaque_wrapper stem args \<longleftrightarrow>
     stem \<in> set wrapper_stems
     \<or> stem \<in> set interpreter_stems \<and> any_arg args [''-c'', ''-e'', ''--eval'', ''-eval'']"

definition is_network_program :: "string \<Rightarrow> bool" where
  "is_network_program stem \<longleftrightarrow>
     stem \<in> set [''curl'', ''wget'', ''ssh'', ''scp'', ''sftp'', ''rsync'', ''nc'', ''ncat'',
                  ''netcat'', ''telnet'', ''ping'', ''ftp'', ''http'', ''https'']"

definition is_network_package_op :: "string \<Rightarrow> string list \<Rightarrow> bool" where
  "is_network_package_op stem args =
     (if stem \<in> set [''apt'', ''apt-get'', ''yum'', ''dnf'', ''pacman'', ''brew'', ''pip'',
                     ''pip3'', ''npm'', ''pnpm'', ''yarn'', ''bun'', ''deno'', ''gem'', ''go'']
      then any_arg args [''install'', ''add'', ''update'', ''upgrade'', ''publish'', ''fetch'',
                         ''remove'']
      else if stem = ''cargo'' then any_arg args [''install'', ''add'', ''publish'', ''update'']
      else False)"

definition read_only_stems :: "string list" where
  "read_only_stems =
     [''ls'', ''cat'', ''echo'', ''pwd'', ''head'', ''tail'', ''wc'', ''grep'', ''egrep'',
      ''fgrep'', ''rg'', ''stat'', ''file'', ''which'', ''type'', ''basename'', ''dirname'',
      ''true'', ''date'', ''printenv'', ''sort'', ''uniq'', ''cut'', ''tr'', ''less'', ''more'',
      ''tree'', ''du'', ''df'', ''uname'', ''whoami'', ''id'', ''hostname'', ''awk'', ''cmp'',
      ''diff'', ''realpath'', ''readlink'']"

definition is_read_only_program :: "string \<Rightarrow> bool" where
  "is_read_only_program stem \<longleftrightarrow> stem \<in> set read_only_stems"

definition is_project_write_program :: "string \<Rightarrow> bool" where
  "is_project_write_program stem \<longleftrightarrow>
     stem \<in> set [''touch'', ''mkdir'', ''mv'', ''cp'', ''ln'', ''tee'', ''install'', ''make'',
                  ''cargo'', ''npm'', ''pnpm'', ''yarn'', ''bun'', ''deno'', ''cmake'', ''ninja'',
                  ''rustc'', ''go'']"

subsection \<open>git\<close>

definition is_flag :: "string \<Rightarrow> bool" where
  "is_flag a = (case a of c # _ \<Rightarrow> c = CHR ''-'' | [] \<Rightarrow> False)"

definition discards_working_tree :: "string list \<Rightarrow> bool" where
  "discards_working_tree rest \<longleftrightarrow>
     list_ex (\<lambda>a. a = ''--'' \<or> a = ''.'' \<or> take 2 a = ''./'') rest
     \<or> 1 < length (filter (\<lambda>a. \<not> is_flag a) rest)"

definition git_sub :: "string list \<Rightarrow> string" where
  "git_sub args = (case dropWhile is_flag args of [] \<Rightarrow> [] | s # _ \<Rightarrow> s)"

definition git_rest :: "string list \<Rightarrow> string list" where
  "git_rest args = tl (dropWhile is_flag args)"

definition git_read_subs :: "string list" where
  "git_read_subs =
     [''status'', ''log'', ''diff'', ''show'', ''branch'', ''rev-parse'', ''describe'',
      ''blame'', ''tag'', ''ls-files'']"

definition classify_git :: "string list \<Rightarrow> command_class" where
  "classify_git args =
     (let sub = git_sub args; rest = git_rest args
      in if sub \<in> set [''clone'', ''pull'', ''push'', ''fetch'', ''remote'', ''submodule'']
         then Network
         else if sub \<in> set git_read_subs then ReadOnly
         else if sub = ''reset'' \<and> any_arg rest [''--hard'', ''--merge''] then Destructive
         else if sub = ''clean''
                 \<and> list_ex (\<lambda>a. a = ''--force'' \<or> is_flag a \<and> CHR ''f'' \<in> set a) rest
         then Destructive
         else if sub = ''restore'' then Destructive
         else if sub = ''checkout'' \<and> discards_working_tree rest then Destructive
         else if sub \<in> set [''add'', ''commit'', ''checkout'', ''switch'', ''stash'', ''merge'',
                            ''rebase'', ''reset'', ''cherry-pick'', ''apply'', ''mv'', ''rm'']
         then ProjectWrite
         else Unknown)"

subsection \<open>POSIX\<close>

definition destructive_stems :: "string list" where
  "destructive_stems =
     [''rm'', ''rmdir'', ''shred'', ''dd'', ''mkfs'', ''fdisk'', ''parted'', ''wipefs'',
      ''truncate'']"

definition sed_in_place :: "string list \<Rightarrow> bool" where
  "sed_in_place args = any_arg args [''-i'', ''--in-place'']"

definition classify_posix :: "string \<Rightarrow> string list \<Rightarrow> command_class" where
  "classify_posix program args0 =
     (let stem = program_stem program; args = args_lower args0
      in if stem \<in> set [''sudo'', ''doas'', ''su'', ''pkexec''] then Privileged
         else if is_opaque_wrapper stem args then Unknown
         else if stem = ''rm''
                 \<and> any_arg args [''-r'', ''-rf'', ''-fr'', ''-f'', ''--recursive'', ''--force'']
         then Destructive
         else if stem \<in> set destructive_stems then Destructive
         else if is_network_program stem \<or> is_network_package_op stem args then Network
         else if stem = ''git'' then classify_git args
         else if is_read_only_program stem \<or> stem = ''sed'' \<and> \<not> sed_in_place args
         then ReadOnly
         else if is_project_write_program stem \<or> stem = ''sed'' \<and> sed_in_place args
         then ProjectWrite
         else Unknown)"

subsection \<open>Windows\<close>

definition is_switch_prefix :: "string \<Rightarrow> string \<Rightarrow> bool" where
  "is_switch_prefix arg full \<longleftrightarrow>
     2 \<le> length arg \<and> is_flag arg \<and> take (length arg) full = arg"

definition carries_inline_command :: "string \<Rightarrow> string list \<Rightarrow> bool" where
  "carries_inline_command stem args =
     (if stem = ''cmd'' then any_arg args [''/c'', ''/k'']
      else if stem \<in> set [''powershell'', ''pwsh'']
      then list_ex (\<lambda>a. a = ''-c'' \<or> is_switch_prefix a ''-command''
             \<or> is_switch_prefix a ''-encodedcommand'' \<or> is_switch_prefix a ''-file'') args
      else False)"

definition redirection_floor :: "command_class \<Rightarrow> string list \<Rightarrow> command_class" where
  "redirection_floor class args =
     (if class = ReadOnly \<and> list_ex (\<lambda>a. CHR ''>'' \<in> set a) args then ProjectWrite else class)"

definition classify_powershell :: "string list \<Rightarrow> command_class" where
  "classify_powershell args =
     (let j = join '' '' args; has = str_contains j
      in if has ''remove-item'' \<and> (has ''-recurse'' \<or> has ''-force'') then Destructive
         else if has ''remove-item'' \<or> has ''clear-content'' \<or> has ''format-volume''
         then Destructive
         else if has ''hklm:'' \<or> has ''set-itemproperty'' \<or> has ''new-itemproperty''
         then Privileged
         else if has ''invoke-webrequest'' \<or> has ''invoke-restmethod''
                 \<or> has ''start-bitstransfer'' then Network
         else if has ''set-content'' \<or> has ''add-content'' \<or> has ''out-file'' \<or> has ''new-item''
         then ProjectWrite
         else if has ''get-'' \<or> has ''select-'' \<or> has ''write-output'' \<or> has ''write-host''
         then ReadOnly
         else Unknown)"

definition classify_cmd :: "string list \<Rightarrow> command_class" where
  "classify_cmd args =
     (let j = join '' '' args; has = str_contains j
      in if has ''del '' \<or> has ''erase '' \<or> has ''rd '' \<or> has ''rmdir'' \<or> has ''format ''
         then Destructive
         else if has ''reg add'' \<or> has ''reg delete'' then Privileged
         else if has ''copy '' \<or> has ''move '' \<or> has ''md '' \<or> has ''mkdir'' then ProjectWrite
         else if has ''type '' \<or> has ''dir'' \<or> has ''echo'' then ReadOnly
         else Unknown)"

definition classify_windows :: "string \<Rightarrow> string list \<Rightarrow> command_class" where
  "classify_windows program args0 =
     (let stem = program_stem program; args = args_lower args0
      in if stem = ''runas'' then Privileged
         else if stem \<in> set [''reg'', ''regedit''] then Privileged
         else if stem \<in> set [''powershell'', ''pwsh'', ''cmd'']
         then (if carries_inline_command stem args then Unknown
               else redirection_floor
                      (if stem = ''cmd'' then classify_cmd args else classify_powershell args) args)
         else if is_opaque_wrapper stem args then Unknown
         else if stem \<in> set [''del'', ''erase'', ''rd'', ''rmdir'', ''format'', ''diskpart'']
         then Destructive
         else if stem \<in> set [''copy'', ''move'', ''md'', ''mkdir'', ''xcopy'', ''robocopy'']
         then ProjectWrite
         else if stem \<in> set [''type'', ''dir'', ''where'', ''findstr'', ''more''] then ReadOnly
         else if is_network_program stem \<or> is_network_package_op stem args then Network
         else if stem = ''git'' then classify_git args
         else if is_read_only_program stem then ReadOnly
         else if is_project_write_program stem then ProjectWrite
         else Unknown)"

text \<open>The dispatcher \<open>classify\<close>; the target platform is its first argument.\<close>

datatype platform = Windows | Posix

definition classify :: "platform \<Rightarrow> string \<Rightarrow> string list \<Rightarrow> command_class" where
  "classify os = (case os of Windows \<Rightarrow> classify_windows | Posix \<Rightarrow> classify_posix)"

section \<open>Lemmas\<close>

lemma posix_privileged:
  "classify_posix program args = Privileged \<longleftrightarrow>
     program_stem program \<in> {''sudo'', ''doas'', ''su'', ''pkexec''}"
  by (auto simp: classify_posix_def classify_git_def Let_def)

lemma classify_git_ReadOnly:
  "classify_git args = ReadOnly \<Longrightarrow> git_sub args \<in> set git_read_subs"
  by (auto simp: classify_git_def Let_def split: if_splits)

lemma posix_ReadOnly:
  assumes "classify_posix program args = ReadOnly"
  shows "program_stem program \<in> set read_only_stems
    \<or> program_stem program = ''git'' \<and> git_sub (args_lower args) \<in> set git_read_subs
    \<or> program_stem program = ''sed'' \<and> \<not> sed_in_place (args_lower args)"
    and "program_stem program \<notin> set wrapper_stems"
    and "program_stem program \<notin> set destructive_stems"
  using assms
  by (auto simp: classify_posix_def Let_def is_read_only_program_def is_opaque_wrapper_def
      dest: classify_git_ReadOnly split: if_splits)

lemma windows_shell:
  assumes "program_stem program \<in> {''cmd'', ''powershell'', ''pwsh''}"
  shows "classify_windows program args =
    (if carries_inline_command (program_stem program) (args_lower args) then Unknown
     else redirection_floor
            (if program_stem program = ''cmd'' then classify_cmd (args_lower args)
             else classify_powershell (args_lower args)) (args_lower args))"
proof -
  have "program_stem program \<in> set [''powershell'', ''pwsh'', ''cmd'']"
    "program_stem program \<noteq> ''runas''" "program_stem program \<notin> set [''reg'', ''regedit'']"
    using assms by auto
  then show ?thesis
    unfolding classify_windows_def Let_def by presburger
qed

lemma redirection_floor_redirect:
  assumes "\<exists>a \<in> set args. CHR ''>'' \<in> set a"
  shows "redirection_floor class (args_lower args) \<noteq> ReadOnly"
proof -
  have "ascii_lower_char CHR ''>'' = CHR ''>''"
    by code_simp
  then have "CHR ''>'' \<in> set (to_ascii_lowercase a)" if "CHR ''>'' \<in> set a" for a
    using that unfolding to_ascii_lowercase_def by (metis imageI list.set_map)
  with assms have "list_ex (\<lambda>a. CHR ''>'' \<in> set a) (args_lower args)"
    by (auto simp: list_ex_iff args_lower_def)
  then show ?thesis
    by (simp add: redirection_floor_def)
qed

end
