(* ===== verification/Admission.thy ===== *)
theory Admission
  imports Main
begin

text \<open>
  \<^verbatim>\<open>crates/localpilot-core/src/admission.rs\<close>: the gate that every mutation of a session goes
  through. The gate is one shared mutex-protected cell, so its model is the cell's contents;
  holding the guard for a whole mutation is what makes a gated mutation one atomic step.
\<close>

datatype admission =
    Owned
  | Preparing string
  | Released string
  | Lost
  | Closed

definition gate_default :: admission where
  "gate_default = Owned"

definition gate_is_owned :: "admission \<Rightarrow> bool" where
  "gate_is_owned g = (case g of Owned \<Rightarrow> True | _ \<Rightarrow> False)"

definition gate_set :: "admission \<Rightarrow> admission \<Rightarrow> admission" where
  "gate_set g state = state"

text \<open>
  \<open>mutate\<close>: the closure runs, on whatever state it captures, only while the session is owned.
\<close>

definition gate_mutate :: "admission \<Rightarrow> ('s \<Rightarrow> 's \<times> 'a) \<Rightarrow> 's \<Rightarrow> 's \<times> 'a option" where
  "gate_mutate g f s =
     (if gate_is_owned g then (let (s', a) = f s in (s', Some a)) else (s, None))"

text \<open>\<open>admit\<close>: the guard, which holds the owned state, or nothing.\<close>

definition gate_admit :: "admission \<Rightarrow> admission option" where
  "gate_admit g = (if gate_is_owned g then Some g else None)"

lemma gate_is_owned_iff [simp]: "gate_is_owned g \<longleftrightarrow> g = Owned"
  by (cases g) (simp_all add: gate_is_owned_def)

lemma gate_admit_iff: "gate_admit g \<noteq> None \<longleftrightarrow> g = Owned"
  by (simp add: gate_admit_def)

lemma gate_mutate_refused: "g \<noteq> Owned \<Longrightarrow> gate_mutate g f s = (s, None)"
  by (simp add: gate_mutate_def)

end
