(* ===== verification/Permission.thy ===== *)
theory Permission
  imports Command_Class Admission
begin

text \<open>
  \<^verbatim>\<open>crates/localpilot-sandbox/src/permission.rs\<close>: the permission engine. Every tool effect is
  decided here. A lease is any implementation of the \<open>Lease\<close> trait, so what it answers when
  it is read is an argument \<open>cur\<close> of the functions that read it; an engine only holds the
  lease. The approver trait's scripted implementation is modelled with its response queue.
\<close>

section \<open>Data\<close>

datatype decision = Allow | Ask | Deny

datatype profile = Default | ReadOnlyProfile | Relaxed | Bypass | Unrestricted

datatype interactivity = Interactive | NonInteractive

datatype effect =
    ReadPath bool bool \<comment> \<open>\<open>inside_workspace\<close>, \<open>secret_like\<close>\<close>
  | WritePath bool bool bool \<comment> \<open>\<open>inside_workspace\<close>, \<open>overwrite\<close>, \<open>secret_like\<close>\<close>
  | ScratchPath bool bool bool \<comment> \<open>\<open>write\<close>, \<open>overwrite\<close>, \<open>secret_like\<close>\<close>
  | UnscopedCommand
  | RunCommand command_class
  | NetworkEffect

fun is_outside_workspace :: "effect \<Rightarrow> bool" where
  "is_outside_workspace (ReadPath inside _) = (\<not> inside)"
| "is_outside_workspace (WritePath inside _ _) = (\<not> inside)"
| "is_outside_workspace _ = False"

fun may_create_files :: "effect \<Rightarrow> bool" where
  "may_create_files (WritePath _ ow _) = (\<not> ow)"
| "may_create_files (ScratchPath w ow _) = (w \<and> \<not> ow)"
| "may_create_files UnscopedCommand = True"
| "may_create_files (ReadPath _ _) = False"
| "may_create_files NetworkEffect = False"
| "may_create_files (RunCommand class) =
     (class \<in> {ProjectWrite, ExternalWrite, Destructive, Privileged, Unknown, Network})"

fun risk_label :: "effect \<Rightarrow> string" where
  "risk_label (ReadPath inside secret) =
     (if secret then ''read a secret-like path''
      else if \<not> inside then ''read outside the workspace'' else ''read a file'')"
| "risk_label (WritePath inside ow secret) =
     (if secret then ''write a secret-like path''
      else if \<not> inside then ''write outside the workspace''
      else if ow then ''overwrite a file'' else ''write a file'')"
| "risk_label (ScratchPath w _ secret) =
     (if secret \<and> w then ''write a secret-like scratch path''
      else if secret then ''read a secret-like scratch path''
      else if w then ''write a scratch file'' else ''read a scratch file'')"
| "risk_label UnscopedCommand = ''run code with uninspectable file targets''"
| "risk_label (RunCommand _) = ''run a command''"
| "risk_label NetworkEffect = ''make a network request''"

record permission_request =
  tool :: string
  req_effect :: effect
  interactivity_of :: interactivity
  trusted :: bool
  detail :: string

record allowed_command =
  allowed_program :: string
  args_prefix :: "string list"

record exact_command =
  exact_program :: string
  exact_args :: "string list"

definition allowed_matches :: "allowed_command \<Rightarrow> exact_command \<Rightarrow> bool" where
  "allowed_matches e c \<longleftrightarrow>
     exact_program c = allowed_program e
     \<and> take (length (args_prefix e)) (exact_args c) = args_prefix e"

datatype lease_state = LeaseOwner | LeaseDenied string

record 'l permission_engine =
  profile_of :: profile
  allowlist :: "string list"
  allowed_commands :: "allowed_command list"
  incognito :: bool
  lease :: "'l option"
  lease_denial :: "string option"

section \<open>Building and resolving an engine\<close>

definition engine_new :: "profile \<Rightarrow> string list \<Rightarrow> 'l permission_engine" where
  "engine_new pr al =
     \<lparr>profile_of = pr, allowlist = al, allowed_commands = [], incognito = False, lease = None,
      lease_denial = None\<rparr>"

definition with_lease :: "'l permission_engine \<Rightarrow> 'l \<Rightarrow> 'l permission_engine" where
  "with_lease e l = e\<lparr>lease := Some l\<rparr>"

definition resolved :: "('l \<Rightarrow> lease_state) \<Rightarrow> 'l permission_engine \<Rightarrow> 'l permission_engine" where
  "resolved cur e =
     (case lease e of
        None \<Rightarrow> e
      | Some l \<Rightarrow>
          (case cur l of
             LeaseOwner \<Rightarrow> e\<lparr>lease := None\<rparr>
           | LeaseDenied reason \<Rightarrow>
               e\<lparr>lease := None, profile_of := ReadOnlyProfile, lease_denial := Some reason\<rparr>))"

definition with_allowed_commands ::
  "'l permission_engine \<Rightarrow> allowed_command list \<Rightarrow> 'l permission_engine" where
  "with_allowed_commands e cs = e\<lparr>allowed_commands := cs\<rparr>"

definition with_incognito :: "'l permission_engine \<Rightarrow> bool \<Rightarrow> 'l permission_engine" where
  "with_incognito e b = e\<lparr>incognito := b\<rparr>"

definition with_profile ::
  "'l permission_engine \<Rightarrow> profile \<Rightarrow> string list \<Rightarrow> 'l permission_engine" where
  "with_profile e pr al =
     \<lparr>profile_of = pr, allowlist = al, allowed_commands = allowed_commands e,
      incognito = incognito e, lease = lease e, lease_denial = lease_denial e\<rparr>"

text \<open>A resolved engine has no lease, so the recursive calls of the source go one deep.\<close>

definition allows_command ::
  "('l \<Rightarrow> lease_state) \<Rightarrow> 'l permission_engine \<Rightarrow> exact_command \<Rightarrow> bool" where
  "allows_command cur e c =
     (let e' = resolved cur e
      in profile_of e' \<notin> {Bypass, Unrestricted}
         \<and> list_ex (\<lambda>entry. allowed_matches entry c) (allowed_commands e'))"

section \<open>Deciding\<close>

definition ask_or_deny :: "interactivity \<Rightarrow> decision" where
  "ask_or_deny i = (case i of Interactive \<Rightarrow> Ask | NonInteractive \<Rightarrow> Deny)"

definition incognito_floor :: "decision \<Rightarrow> interactivity \<Rightarrow> decision" where
  "incognito_floor d i = (case d of Allow \<Rightarrow> ask_or_deny i | other \<Rightarrow> other)"

definition untrusted_floor :: "decision \<Rightarrow> bool \<Rightarrow> interactivity \<Rightarrow> decision" where
  "untrusted_floor d tr i =
     (if tr then d else (case d of Allow \<Rightarrow> ask_or_deny i | other \<Rightarrow> other))"

definition command_decision :: "command_class \<Rightarrow> interactivity \<Rightarrow> decision" where
  "command_decision class i = (case class of ReadOnly \<Rightarrow> Allow | _ \<Rightarrow> ask_or_deny i)"

definition base_decision :: "permission_request \<Rightarrow> decision" where
  "base_decision r =
     (let i = interactivity_of r
      in case req_effect r of
           ScratchPath _ _ secret \<Rightarrow> if secret then ask_or_deny i else Allow
         | UnscopedCommand \<Rightarrow> ask_or_deny i
         | ReadPath inside secret \<Rightarrow> if inside \<and> \<not> secret then Allow else ask_or_deny i
         | NetworkEffect \<Rightarrow> ask_or_deny i
         | WritePath inside _ secret \<Rightarrow>
             if inside then (if \<not> secret \<and> trusted r then Allow else ask_or_deny i)
             else ask_or_deny i
         | RunCommand class \<Rightarrow> command_decision class i)"

definition read_only_decision :: "permission_request \<Rightarrow> decision" where
  "read_only_decision r =
     (case req_effect r of
        WritePath _ _ _ \<Rightarrow> Deny
      | ScratchPath w _ _ \<Rightarrow> if w then Deny else base_decision r
      | UnscopedCommand \<Rightarrow> Deny
      | RunCommand class \<Rightarrow> if class = ReadOnly then Allow else Deny
      | ReadPath _ _ \<Rightarrow> base_decision r
      | NetworkEffect \<Rightarrow> base_decision r)"

fun allowlist_may_relax :: "effect \<Rightarrow> bool" where
  "allowlist_may_relax (RunCommand class) = (class \<in> {ReadOnly, ProjectWrite, Network})"
| "allowlist_may_relax (ReadPath inside secret) = (inside \<and> \<not> secret)"
| "allowlist_may_relax (WritePath inside _ secret) = (inside \<and> \<not> secret)"
| "allowlist_may_relax NetworkEffect = True"
| "allowlist_may_relax (ScratchPath _ _ secret) = (\<not> secret)"
| "allowlist_may_relax UnscopedCommand = False"

fun bypass_gated :: "effect \<Rightarrow> bool" where
  "bypass_gated UnscopedCommand = True"
| "bypass_gated (ScratchPath _ _ secret) = secret"
| "bypass_gated e = is_outside_workspace e"

definition profile_decision :: "'l permission_engine \<Rightarrow> permission_request \<Rightarrow> decision" where
  "profile_decision e r =
     (let i = interactivity_of r
      in case profile_of e of
           Unrestricted \<Rightarrow> Allow
         | Bypass \<Rightarrow> if bypass_gated (req_effect r) then ask_or_deny i else Allow
         | Relaxed \<Rightarrow>
             untrusted_floor
               (if allowlist_may_relax (req_effect r) \<and> tool r \<in> set (allowlist e) then Allow
                else base_decision r) (trusted r) i
         | Default \<Rightarrow> untrusted_floor (base_decision r) (trusted r) i
         | ReadOnlyProfile \<Rightarrow> untrusted_floor (read_only_decision r) (trusted r) i)"

definition vetted ::
  "('l \<Rightarrow> lease_state) \<Rightarrow> 'l permission_engine \<Rightarrow> effect \<Rightarrow> exact_command option \<Rightarrow> bool" where
  "vetted cur e eff cmd =
     (case cmd of
        None \<Rightarrow> False
      | Some c \<Rightarrow>
          (case eff of
             RunCommand _ \<Rightarrow> allows_command cur e c
           | UnscopedCommand \<Rightarrow> list_ex (\<lambda>entry. allowed_matches entry c) (allowed_commands e)
           | _ \<Rightarrow> False))"

definition decide_command ::
  "('l \<Rightarrow> lease_state) \<Rightarrow> 'l permission_engine \<Rightarrow> permission_request \<Rightarrow> exact_command option
   \<Rightarrow> decision" where
  "decide_command cur e0 r cmd =
     (let e = resolved cur e0;
          d = (if vetted cur e (req_effect r) cmd
               then untrusted_floor Allow (trusted r) (interactivity_of r)
               else profile_decision e r)
      in if incognito e \<and> may_create_files (req_effect r)
         then incognito_floor d (interactivity_of r) else d)"

definition decide ::
  "('l \<Rightarrow> lease_state) \<Rightarrow> 'l permission_engine \<Rightarrow> permission_request \<Rightarrow> decision" where
  "decide cur e r = decide_command cur e r None"

section \<open>The shared handle and the scripted approver\<close>

text \<open>
  The handle: the engine behind the lock, and whether swaps go through a gate. The gate is a
  cell shared with the runtime, so its contents are an argument.
\<close>

record 'l engine_handle =
  handle_engine :: "'l permission_engine"
  handle_gated :: bool

definition handle_new :: "'l permission_engine \<Rightarrow> 'l engine_handle" where
  "handle_new e = \<lparr>handle_engine = e, handle_gated = False\<rparr>"

definition handle_gate :: "'l engine_handle \<Rightarrow> 'l engine_handle" where
  "handle_gate h = h\<lparr>handle_gated := True\<rparr>"

definition handle_snapshot :: "'l engine_handle \<Rightarrow> 'l permission_engine" where
  "handle_snapshot h = handle_engine h"

definition handle_set ::
  "admission \<Rightarrow> 'l engine_handle \<Rightarrow> 'l permission_engine \<Rightarrow> 'l engine_handle \<times> bool" where
  "handle_set g h e =
     (if handle_gated h \<and> gate_admit g = None then (h, False)
      else (h\<lparr>handle_engine := e\<rparr>, True))"

definition handle_profile :: "'l engine_handle \<Rightarrow> profile" where
  "handle_profile h = profile_of (handle_snapshot h)"

record scripted_approver =
  responses :: "bool list"
  exhausted_response :: bool

definition approver_new :: "bool list \<Rightarrow> scripted_approver" where
  "approver_new rs = \<lparr>responses = rs, exhausted_response = False\<rparr>"

definition approver_always :: scripted_approver where
  "approver_always = \<lparr>responses = [], exhausted_response = True\<rparr>"

definition approve :: "scripted_approver \<Rightarrow> permission_request \<Rightarrow> scripted_approver \<times> bool" where
  "approve a r =
     (case responses a of
        [] \<Rightarrow> (a, exhausted_response a)
      | d # ds \<Rightarrow> (a\<lparr>responses := ds\<rparr>, d))"

text \<open>
  How the permission engine's answers compare: decisions ordered from \<open>Deny\<close> to \<open>Allow\<close>, the
  contract of a floor (it only ever tightens), and what each profile can answer at most.
\<close>

section \<open>Decisions in order\<close>

fun permissiveness :: "decision \<Rightarrow> nat" where
  "permissiveness Deny = 0"
| "permissiveness Ask = 1"
| "permissiveness Allow = 2"

lemma permissiveness_inj: "permissiveness a = permissiveness b \<Longrightarrow> a = b"
  by (cases a; cases b) simp_all

instantiation decision :: linorder
begin

definition less_eq_decision :: "decision \<Rightarrow> decision \<Rightarrow> bool" where
  "a \<le> b \<longleftrightarrow> permissiveness a \<le> permissiveness b"

definition less_decision :: "decision \<Rightarrow> decision \<Rightarrow> bool" where
  "a < b \<longleftrightarrow> permissiveness a < permissiveness b"

instance
  by standard
    (auto simp: less_eq_decision_def less_decision_def dest: permissiveness_inj)

end

lemma decision_le_simps [simp]:
  "Deny \<le> d" "d \<le> Allow" "Ask \<le> Ask" "\<not> Allow \<le> Ask" "\<not> Allow \<le> Deny" "\<not> Ask \<le> Deny"
  by (cases d; simp add: less_eq_decision_def)+

lemma decision_le_Deny [simp]: "d \<le> Deny \<longleftrightarrow> d = Deny"
  by (cases d) (simp_all add: less_eq_decision_def)

lemma decision_Allow_le [simp]: "Allow \<le> d \<longleftrightarrow> d = Allow"
  by (cases d) (simp_all add: less_eq_decision_def)

section \<open>Floors\<close>

locale decision_floor =
  fixes fl :: "decision \<Rightarrow> interactivity \<Rightarrow> decision"
  assumes gates: "fl Allow i = ask_or_deny i"
    and keeps: "d \<noteq> Allow \<Longrightarrow> fl d i = d"
begin

lemma never_allows: "fl d i \<noteq> Allow"
  using gates keeps by (cases d; cases i) (simp_all add: ask_or_deny_def)

lemma tightens: "fl d i \<le> d"
  using gates keeps by (cases d) simp_all

lemma idem: "fl (fl d i) i = fl d i"
  using never_allows keeps by simp

lemma no_ask_headless: "d \<noteq> Ask \<Longrightarrow> fl d NonInteractive \<noteq> Ask"
  using gates keeps by (cases d) (simp_all add: ask_or_deny_def)

lemma mono: "d \<le> e \<Longrightarrow> (i = NonInteractive \<longrightarrow> d \<noteq> Ask) \<Longrightarrow> fl d i \<le> fl e i"
  using gates keeps by (cases d; cases e; cases i) (simp_all add: ask_or_deny_def)

end

interpretation inc: decision_floor incognito_floor
  by unfold_locales (simp_all add: incognito_floor_def split: decision.splits)

interpretation unt: decision_floor "\<lambda>d i. untrusted_floor d False i"
  by unfold_locales (simp_all add: untrusted_floor_def split: decision.splits)

lemma untrusted_floor_True [simp]: "untrusted_floor d True i = d"
  by (simp add: untrusted_floor_def)

lemma untrusted_floor_le: "untrusted_floor d t i \<le> d"
  using unt.tightens by (cases t) simp_all

lemma untrusted_floor_mono:
  "d \<le> e \<Longrightarrow> (i = NonInteractive \<longrightarrow> d \<noteq> Ask) \<Longrightarrow> untrusted_floor d t i \<le> untrusted_floor e t i"
  using unt.mono by (cases t) simp_all

lemma untrusted_floor_no_ask:
  "d \<noteq> Ask \<Longrightarrow> untrusted_floor d t NonInteractive \<noteq> Ask"
  using unt.no_ask_headless by (cases t) simp_all

section \<open>Headless runs\<close>

lemma ask_or_deny_simps [simp]:
  "ask_or_deny i \<noteq> Allow" "ask_or_deny NonInteractive = Deny" "ask_or_deny Interactive = Ask"
  by (cases i; simp add: ask_or_deny_def)+

lemma base_decision_headless:
  "interactivity_of r = NonInteractive \<Longrightarrow> base_decision r \<noteq> Ask"
  by (simp add: base_decision_def command_decision_def split: effect.splits command_class.splits)

lemma read_only_decision_headless:
  "interactivity_of r = NonInteractive \<Longrightarrow> read_only_decision r \<noteq> Ask"
  by (simp add: read_only_decision_def base_decision_headless split: effect.splits)

lemma profile_decision_headless:
  "interactivity_of r = NonInteractive \<Longrightarrow> profile_decision e r \<noteq> Ask"
  by (simp add: profile_decision_def Let_def untrusted_floor_no_ask base_decision_headless
      read_only_decision_headless split: profile.splits)

section \<open>The profiles in order\<close>

fun profile_rank :: "profile \<Rightarrow> nat" where
  "profile_rank ReadOnlyProfile = 0"
| "profile_rank Default = 1"
| "profile_rank Relaxed = 2"
| "profile_rank Bypass = 3"
| "profile_rank Unrestricted = 4"

lemma read_only_le_base: "read_only_decision r \<le> base_decision r"
  by (simp add: read_only_decision_def base_decision_def command_decision_def Let_def
      split: effect.splits command_class.splits)

lemma base_gated: "bypass_gated (req_effect r) \<Longrightarrow> base_decision r = ask_or_deny (interactivity_of r)"
  by (cases "req_effect r") (auto simp: base_decision_def)

lemma bypass_gated_not_relaxed: "bypass_gated eff \<Longrightarrow> \<not> allowlist_may_relax eff"
  by (cases eff) auto

lemma untrusted_floor_ask_or_deny [simp]: "untrusted_floor (ask_or_deny i) t i = ask_or_deny i"
  by (cases i; cases t) (simp_all add: untrusted_floor_def)

definition at_profile :: "'l permission_engine \<Rightarrow> profile \<Rightarrow> 'l permission_engine" where
  "at_profile e p = e\<lparr>profile_of := p\<rparr>"

lemma profile_step:
  "profile_decision (at_profile e ReadOnlyProfile) r \<le> profile_decision (at_profile e Default) r"
  "profile_decision (at_profile e Default) r \<le> profile_decision (at_profile e Relaxed) r"
  "profile_decision (at_profile e Relaxed) r \<le> profile_decision (at_profile e Bypass) r"
  "profile_decision (at_profile e Bypass) r \<le> profile_decision (at_profile e Unrestricted) r"
proof -
  show "profile_decision (at_profile e ReadOnlyProfile) r \<le> profile_decision (at_profile e Default) r"
    by (simp add: profile_decision_def at_profile_def Let_def untrusted_floor_mono
        read_only_le_base read_only_decision_headless)
  show "profile_decision (at_profile e Default) r \<le> profile_decision (at_profile e Relaxed) r"
    by (simp add: profile_decision_def at_profile_def Let_def untrusted_floor_mono
        base_decision_headless)
  show "profile_decision (at_profile e Relaxed) r \<le> profile_decision (at_profile e Bypass) r"
    by (simp add: profile_decision_def at_profile_def Let_def base_gated bypass_gated_not_relaxed)
  show "profile_decision (at_profile e Bypass) r \<le> profile_decision (at_profile e Unrestricted) r"
    by (simp add: profile_decision_def at_profile_def Let_def)
qed

lemma profile_mono:
  assumes "profile_rank p \<le> profile_rank q"
  shows "profile_decision (at_profile e p) r \<le> profile_decision (at_profile e q) r"
  using assms profile_step [of e r]
  by (cases p; cases q) (auto intro: order_trans)

section \<open>Resolved engines\<close>

lemma resolved_simps [simp]:
  "lease (resolved cur e) = None" "incognito (resolved cur e) = incognito e"
  "allowed_commands (resolved cur e) = allowed_commands e"
  "allowlist (resolved cur e) = allowlist e"
  by (simp_all add: resolved_def split: option.splits lease_state.splits)

lemma with_profile_simps [simp]:
  "incognito (with_profile e p al) = incognito e" "lease (with_profile e p al) = lease e"
  "allowed_commands (with_profile e p al) = allowed_commands e"
  "profile_of (with_profile e p al) = p" "allowlist (with_profile e p al) = al"
  by (simp_all add: with_profile_def)

lemma resolved_idem [simp]: "resolved cur (resolved cur' e) = resolved cur' e"
  by (simp add: resolved_def split: option.splits lease_state.splits)

lemma decide_command_resolved [simp]:
  "decide_command cur (resolved cur e) r c = decide_command cur e r c"
  by (simp add: decide_command_def)

lemma resolved_denied:
  "lease e = Some l \<Longrightarrow> cur l = LeaseDenied why \<Longrightarrow> profile_of (resolved cur e) = ReadOnlyProfile"
  by (simp add: resolved_def)

lemma resolved_no_lease [simp]: "lease e = None \<Longrightarrow> resolved cur e = e"
  by (simp add: resolved_def)

lemma decide_eq:
  "decide cur e r =
     (if incognito e \<and> may_create_files (req_effect r)
      then incognito_floor (profile_decision (resolved cur e) r) (interactivity_of r)
      else profile_decision (resolved cur e) r)"
  by (simp add: decide_def decide_command_def vetted_def Let_def)

lemma vetted_listed:
  "vetted cur e eff cmd \<Longrightarrow>
     \<exists>c entry. cmd = Some c \<and> entry \<in> set (allowed_commands e) \<and> allowed_matches entry c
       \<and> (eff = UnscopedCommand \<or> (\<exists>class. eff = RunCommand class))"
  by (auto simp: vetted_def allows_command_def Let_def list_ex_iff
      split: option.splits effect.splits)

end
