(* ===== verification/Session_Host.thy ===== *)
theory Session_Host
  imports Prelude Admission "HOL-Library.Sublist" "HOL-Library.Multiset"
begin

text \<open>
  \<^verbatim>\<open>crates/localpilot-server/src/host.rs\<close>: the host of one session, with the queue of soft interrupts
  (\<open>SteerQueue\<close>) of \<^verbatim>\<open>crates/localpilot-harness/src/session.rs\<close>. Clients submit input, cancel, steer and
  reserve the session from any number of tasks; a task started by admission drives turns, and turns
  may be driven from outside admission as well. Every section the code runs under one of its locks is
  a definition, and the tasks interleave between these sections (\<open>host_step\<close>). A turn itself is the
  runtime's: here it takes the queued interrupts and emits events of an arbitrary type.
\<close>

section \<open>Soft interrupts\<close>

datatype interrupt_source = User | System | BackgroundTask

record soft_interrupt =
  si_content :: string
  si_source :: interrupt_source
  si_urgent :: bool

definition user_interrupt :: "string \<Rightarrow> soft_interrupt" where
  "user_interrupt c = \<lparr>si_content = c, si_source = User, si_urgent = False\<rparr>"

record steer_queue =
  sq_queue :: "soft_interrupt list"
  sq_gate :: admission

definition push_interrupt :: "steer_queue \<Rightarrow> soft_interrupt \<Rightarrow> steer_queue \<times> bool" where
  "push_interrupt q i =
     (case gate_admit (sq_gate q) of
        None \<Rightarrow> (q, False)
      | Some _ \<Rightarrow> (q\<lparr>sq_queue := sq_queue q @ [i]\<rparr>, True))"

definition steer_push :: "steer_queue \<Rightarrow> string \<Rightarrow> steer_queue \<times> bool" where
  "steer_push q text = push_interrupt q (user_interrupt text)"

definition steer_is_empty :: "steer_queue \<Rightarrow> bool" where
  "steer_is_empty q \<longleftrightarrow> sq_queue q = []"

definition has_urgent :: "steer_queue \<Rightarrow> bool" where
  "has_urgent q = list_ex si_urgent (sq_queue q)"

definition steer_drain :: "steer_queue \<Rightarrow> steer_queue \<times> soft_interrupt list" where
  "steer_drain q = (q\<lparr>sq_queue := []\<rparr>, sq_queue q)"

section \<open>State\<close>

definition FOLLOW_UP_CAPACITY :: nat where "FOLLOW_UP_CAPACITY = 16"

type_synonym token = nat

record follow_up =
  fu_text :: string
  fu_origin :: "string option"

text \<open>The installed gate is asked for its answer when work starts; the answer is the environment's.\<close>

record admission_state =
  ad_running :: bool
  ad_follow_ups :: "follow_up list"
  ad_gate :: bool
  ad_starting :: "token option"
  ad_closed :: bool
  ad_command :: bool

definition admission_default :: admission_state where
  "admission_default =
     \<lparr>ad_running = False, ad_follow_ups = [], ad_gate = False, ad_starting = None, ad_closed = False,
      ad_command = False\<rparr>"

datatype admit = AdmitStarted | AdmitQueued | AdmitBusy | AdmitQueueFull | AdmitClosed

record cancelled_report =
  can_turn :: bool
  can_dropped :: nat

record intervention =
  iv_action :: string
  iv_detail :: string
  iv_activity :: "string option"
  iv_client :: string

datatype 'e host_event = TurnStarted | Emitted 'e

text \<open>
  How far a turn is in \<open>run_locked\<close>, and how far the task of \<open>spawn_admitted\<close> is with its piece of
  work: about to look at its token, waiting for the runtime, asking the gate, in the turn, about to
  take the next follow-up.
\<close>

datatype stage = Acquired | Published | Turning | Ended

datatype loop_task =
    Checking follow_up token
  | Waiting follow_up token
  | Gating follow_up token
  | Driving follow_up token stage
  | Popping

text \<open>
  The runtime's lock is held by a task at the gate or in a turn, by a turn driven from outside
  (\<open>sh_outside\<close>), or by a command. \<open>sh_cancelled\<close> are the tokens that were cancelled, \<open>sh_firing\<close> those
  a cancel has taken out of the admission state and not cancelled yet.
\<close>

record 'e session_host =
  sh_adm :: admission_state
  sh_turn_cancel :: "token option"
  sh_steer :: steer_queue
  sh_interventions :: "intervention list"
  sh_log :: "intervention list"
  sh_events :: "'e host_event list"
  sh_last_active :: nat
  sh_loops :: "loop_task list"
  sh_outside :: "(token \<times> stage) option"
  sh_command_lock :: bool
  sh_cancelled :: "token set"
  sh_firing :: "token list"
  sh_next :: token

definition session_host_new :: "admission \<Rightarrow> nat \<Rightarrow> 'e session_host" where
  "session_host_new g now =
     \<lparr>sh_adm = admission_default, sh_turn_cancel = None, sh_steer = \<lparr>sq_queue = [], sq_gate = g\<rparr>,
      sh_interventions = [], sh_log = [], sh_events = [], sh_last_active = now, sh_loops = [],
      sh_outside = None, sh_command_lock = False, sh_cancelled = {}, sh_firing = [], sh_next = 0\<rparr>"

fun task_holds :: "loop_task \<Rightarrow> bool" where
  "task_holds (Gating w t) = True"
| "task_holds (Driving w t g) = True"
| "task_holds _ = False"

definition lock_free :: "'e session_host \<Rightarrow> bool" where
  "lock_free s \<longleftrightarrow>
     list_all (\<lambda>l. \<not> task_holds l) (sh_loops s) \<and> sh_outside s = None \<and> \<not> sh_command_lock s"

section \<open>Admission\<close>

definition turn_in_flight :: "'e session_host \<Rightarrow> bool" where
  "turn_in_flight s \<longleftrightarrow> sh_turn_cancel s \<noteq> None"

text \<open>A new task with a fresh token, which the admission state names until the turn has it.\<close>

definition spawn_admitted :: "'e session_host \<Rightarrow> follow_up \<Rightarrow> 'e session_host" where
  "spawn_admitted s w =
     s\<lparr>sh_adm := (sh_adm s)\<lparr>ad_running := True, ad_starting := Some (sh_next s)\<rparr>,
       sh_next := sh_next s + 1, sh_loops := sh_loops s @ [Checking w (sh_next s)]\<rparr>"

definition submit_from ::
  "'e session_host \<Rightarrow> string \<Rightarrow> bool \<Rightarrow> string option \<Rightarrow> 'e session_host \<times> admit" where
  "submit_from s text queue_if_busy origin =
     (let a = sh_adm s; w = \<lparr>fu_text = text, fu_origin = origin\<rparr>
      in if ad_closed a then (s, AdmitClosed)
         else if ad_command a then (s, AdmitBusy)
         else if ad_running a \<or> turn_in_flight s
         then
           if \<not> queue_if_busy then (s, AdmitBusy)
           else if FOLLOW_UP_CAPACITY \<le> length (ad_follow_ups a) then (s, AdmitQueueFull)
           else
             (let q = ad_follow_ups a @ [w]
              in (if ad_running a then s\<lparr>sh_adm := a\<lparr>ad_follow_ups := q\<rparr>\<rparr>
                  else spawn_admitted (s\<lparr>sh_adm := a\<lparr>ad_follow_ups := tl q\<rparr>\<rparr>) (hd q),
                  AdmitQueued))
         else (spawn_admitted s w, AdmitStarted))"

definition submit :: "'e session_host \<Rightarrow> string \<Rightarrow> bool \<Rightarrow> 'e session_host \<times> admit" where
  "submit s text queue_if_busy = submit_from s text queue_if_busy None"

definition set_origin_gate :: "'e session_host \<Rightarrow> 'e session_host" where
  "set_origin_gate s = s\<lparr>sh_adm := (sh_adm s)\<lparr>ad_gate := True\<rparr>\<rparr>"

text \<open>\<open>cancel_all\<close>: the admission state first, then the token taken out of it, then the turn's token.\<close>

definition cancel_take :: "'e session_host \<Rightarrow> 'e session_host" where
  "cancel_take s =
     s\<lparr>sh_adm := (sh_adm s)\<lparr>ad_follow_ups := [], ad_starting := None\<rparr>,
       sh_firing := sh_firing s @ (case ad_starting (sh_adm s) of None \<Rightarrow> [] | Some t \<Rightarrow> [t])\<rparr>"

definition cancel_fire :: "'e session_host \<Rightarrow> token \<Rightarrow> 'e session_host" where
  "cancel_fire s t = s\<lparr>sh_firing := remove1 t (sh_firing s), sh_cancelled := insert t (sh_cancelled s)\<rparr>"

definition cancel_turn :: "'e session_host \<Rightarrow> 'e session_host" where
  "cancel_turn s =
     (case sh_turn_cancel s of None \<Rightarrow> s | Some t \<Rightarrow> s\<lparr>sh_cancelled := insert t (sh_cancelled s)\<rparr>)"

definition cancel_all :: "'e session_host \<Rightarrow> 'e session_host \<times> cancelled_report" where
  "cancel_all s =
     (let s1 = cancel_take s;
          s2 = (case ad_starting (sh_adm s) of None \<Rightarrow> s1 | Some t \<Rightarrow> cancel_fire s1 t)
      in (cancel_turn s2,
          \<lparr>can_turn = (ad_starting (sh_adm s) \<noteq> None \<or> sh_turn_cancel s2 \<noteq> None),
           can_dropped = length (ad_follow_ups (sh_adm s))\<rparr>))"

definition host_cancel :: "'e session_host \<Rightarrow> 'e session_host \<times> bool" where
  "host_cancel s = (let (s', c) = cancel_all s in (s', can_turn c))"

definition queued_follow_ups :: "'e session_host \<Rightarrow> nat" where
  "queued_follow_ups s = length (ad_follow_ups (sh_adm s))"

definition is_busy :: "'e session_host \<Rightarrow> bool" where
  "is_busy s \<longleftrightarrow> ad_running (sh_adm s) \<or> ad_command (sh_adm s) \<or> turn_in_flight s"

definition reserve_command :: "'e session_host \<Rightarrow> 'e session_host \<times> bool" where
  "reserve_command s =
     (let a = sh_adm s
      in if ad_closed a \<or> ad_running a \<or> ad_command a \<or> turn_in_flight s then (s, False)
         else (s\<lparr>sh_adm := a\<lparr>ad_command := True\<rparr>\<rparr>, True))"

definition drop_command :: "'e session_host \<Rightarrow> 'e session_host" where
  "drop_command s = s\<lparr>sh_adm := (sh_adm s)\<lparr>ad_command := False\<rparr>\<rparr>"

definition close_admission :: "'e session_host \<Rightarrow> 'e session_host \<times> bool" where
  "close_admission s =
     (let a = sh_adm s
      in if ad_running a \<or> ad_command a \<or> turn_in_flight s then (s, False)
         else (s\<lparr>sh_adm := a\<lparr>ad_closed := True\<rparr>\<rparr>, True))"

section \<open>Interventions, events and control\<close>

definition flush_interventions :: "'e session_host \<Rightarrow> 'e session_host" where
  "flush_interventions s = s\<lparr>sh_interventions := [], sh_log := sh_log s @ sh_interventions s\<rparr>"

text \<open>The intervention joins the waiting ones, and they are written at once if nobody holds the runtime.\<close>

definition push_intervention ::
  "'e session_host \<Rightarrow> string \<Rightarrow> string \<Rightarrow> string \<Rightarrow> 'e session_host" where
  "push_intervention s action detail client =
     s\<lparr>sh_interventions := sh_interventions s @
         [\<lparr>iv_action = action, iv_detail = detail,
           iv_activity = (if is_busy s then Some ''turn running'' else None), iv_client = client\<rparr>]\<rparr>"

definition try_flush :: "'e session_host \<Rightarrow> 'e session_host" where
  "try_flush s = (if lock_free s then flush_interventions s else s)"

definition record_intervention ::
  "'e session_host \<Rightarrow> string \<Rightarrow> string \<Rightarrow> string \<Rightarrow> 'e session_host" where
  "record_intervention s action detail client = try_flush (push_intervention s action detail client)"

definition publish_event :: "'e session_host \<Rightarrow> 'e host_event \<Rightarrow> 'e session_host" where
  "publish_event s e = s\<lparr>sh_events := sh_events s @ [e]\<rparr>"

definition host_inject :: "'e session_host \<Rightarrow> soft_interrupt \<Rightarrow> 'e session_host" where
  "host_inject s i = s\<lparr>sh_steer := fst (push_interrupt (sh_steer s) i)\<rparr>"

definition steer :: "'e session_host \<Rightarrow> string \<Rightarrow> 'e session_host" where
  "steer s text = s\<lparr>sh_steer := fst (steer_push (sh_steer s) text)\<rparr>"

record host_status =
  hs_id :: session_id
  hs_busy :: bool
  hs_subscribers :: nat

datatype control = ControlCancel | ControlSteer string | ControlStatus

datatype control_outcome = ControlCancelled bool | ControlSteered | ControlStatusIs host_status

definition status_of_host :: "session_id \<Rightarrow> nat \<Rightarrow> 'e session_host \<Rightarrow> host_status" where
  "status_of_host ident subscribers s =
     \<lparr>hs_id = ident, hs_busy = is_busy s, hs_subscribers = subscribers\<rparr>"

fun host_control ::
  "session_id \<Rightarrow> nat \<Rightarrow> 'e session_host \<Rightarrow> control \<Rightarrow> 'e session_host \<times> control_outcome" where
  "host_control ident subscribers s ControlCancel =
     (let (s', b) = host_cancel s in (s', ControlCancelled b))"
| "host_control ident subscribers s (ControlSteer text) = (steer s text, ControlSteered)"
| "host_control ident subscribers s ControlStatus =
     (s, ControlStatusIs (status_of_host ident subscribers s))"

section \<open>A turn\<close>

definition touch :: "'e session_host \<Rightarrow> nat \<Rightarrow> 'e session_host" where
  "touch s now = s\<lparr>sh_last_active := now\<rparr>"

definition set_turn_token :: "'e session_host \<Rightarrow> token option \<Rightarrow> 'e session_host" where
  "set_turn_token s t = s\<lparr>sh_turn_cancel := t\<rparr>"

text \<open>
  \<open>run_locked\<close>, one stage at a time: the token is published; the admission state lets go of the token
  it names and the turn is announced; the turn runs; the slot is cleared and the lock released
  (\<open>None\<close>). \<open>now\<close> is the clock, \<open>emitted\<close> what the turn emits. What the turn admits of the steer queue
  while it runs is \<open>admit_steered\<close> below.
\<close>

fun run_stage ::
  "nat \<Rightarrow> 'e list \<Rightarrow> 'e session_host \<Rightarrow> token \<Rightarrow> stage \<Rightarrow> 'e session_host \<times> stage option" where
  "run_stage now emitted s t Acquired = (set_turn_token (touch s now) (Some t), Some Published)"
| "run_stage now emitted s t Published =
     (publish_event (flush_interventions (s\<lparr>sh_adm := (sh_adm s)\<lparr>ad_starting := None\<rparr>\<rparr>)) TurnStarted,
      Some Turning)"
| "run_stage now emitted s t Turning =
     (flush_interventions (s\<lparr>sh_events := sh_events s @ map Emitted emitted\<rparr>), Some Ended)"
| "run_stage now emitted s t Ended = (set_turn_token s None, None)"

text \<open>
  \<open>admit_soft_interrupts\<close> of \<^verbatim>\<open>session.rs\<close>: at a safe boundary of a running turn, of which it has any number, the whole
  steer queue moves into the conversation. What is steered after the last boundary stays for the next turn.
\<close>

definition turning :: "'e session_host \<Rightarrow> bool" where
  "turning s \<longleftrightarrow>
     (case sh_outside s of Some (_, g) \<Rightarrow> g = Turning | None \<Rightarrow> False) \<or>
     list_ex (\<lambda>l. case l of Driving _ _ g \<Rightarrow> g = Turning | _ \<Rightarrow> False) (sh_loops s)"

definition admit_steered :: "'e session_host \<Rightarrow> 'e session_host" where
  "admit_steered s = (if turning s then s\<lparr>sh_steer := fst (steer_drain (sh_steer s))\<rparr> else s)"

text \<open>
  One section of the task of \<open>spawn_admitted\<close>: the task that remains, if any. \<open>allowed\<close> is the gate's
  answer. A task waiting for the runtime does not move while somebody else holds it.
\<close>

definition gate_refuses :: "'e session_host \<Rightarrow> follow_up \<Rightarrow> bool \<Rightarrow> bool" where
  "gate_refuses s w allowed \<longleftrightarrow> fu_origin w \<noteq> None \<and> ad_gate (sh_adm s) \<and> \<not> allowed"

definition pop_next :: "'e session_host \<Rightarrow> 'e session_host \<times> loop_task option" where
  "pop_next s =
     (let a = (sh_adm s)\<lparr>ad_starting := None\<rparr>
      in case ad_follow_ups a of
           [] \<Rightarrow> (s\<lparr>sh_adm := a\<lparr>ad_running := False\<rparr>\<rparr>, None)
         | w # ws \<Rightarrow>
             (s\<lparr>sh_adm := a\<lparr>ad_follow_ups := ws, ad_starting := Some (sh_next s)\<rparr>,
                sh_next := sh_next s + 1\<rparr>,
              Some (Checking w (sh_next s))))"

fun task_step ::
  "nat \<Rightarrow> 'e list \<Rightarrow> bool \<Rightarrow> 'e session_host \<Rightarrow> loop_task \<Rightarrow> 'e session_host \<times> loop_task option" where
  "task_step now emitted allowed s (Checking w t) =
     (s, Some (if t \<in> sh_cancelled s then Popping else Waiting w t))"
| "task_step now emitted allowed s (Waiting w t) =
     (s, Some (if lock_free s then Gating w t else Waiting w t))"
| "task_step now emitted allowed s (Gating w t) =
     (s, Some (if gate_refuses s w allowed then Popping else Driving w t Acquired))"
| "task_step now emitted allowed s (Driving w t g) =
     (let (s', r) = run_stage now emitted s t g
      in (s', Some (case r of None \<Rightarrow> Popping | Some g' \<Rightarrow> Driving w t g')))"
| "task_step now emitted allowed s Popping = pop_next s"

end
