(* ===== verification/Ownership.thy ===== *)
theory Ownership
  imports Rust_Str
begin

text \<open>
  \<^verbatim>\<open>crates/localpilot-store/src/ownership.rs\<close>, the errors of \<^verbatim>\<open>error.rs\<close>, and the ownership
  methods of \<^verbatim>\<open>Store\<close> in \<^verbatim>\<open>lib.rs\<close>: who may write to a session when several processes share
  one state directory. The operating system's lock on \<^verbatim>\<open><id>.owner.lock\<close>, the record beside it,
  the lease table of every store handle and the mutex of every lease are the state; an agent is
  one thread of control with its place in the code. One definition is one stretch of code
  between two points where another thread or process can get in.
\<close>

section \<open>Data\<close>

type_synonym event_id = "128 word"

datatype holder_kind = Tui | Server | Other_holder

record holder =
  hd_instance :: string
  hd_pid :: u32
  hd_kind :: holder_kind

datatype transfer_state = Transfer_released | Transfer_committed

record transfer_record =
  tr_id :: string
  tr_state :: transfer_state
  tr_tail :: "event_id option"
  tr_digest :: string

record owner_record =
  or_v :: u32
  or_generation :: u64
  or_holder :: holder
  or_transfer :: "transfer_record option"

datatype store_error =
    Store_io
  | Serde
  | InvalidKey string
  | InvalidName string
  | NameTaken string session_id
  | UnsupportedFormat u64 u32
  | NoUserDir
  | SessionBusy session_id "holder option"
  | OwnershipLost session_id

definition OWNER_RECORD_VERSION :: u32 where
  "OWNER_RECORD_VERSION = 1"

text \<open>
  What \<^verbatim>\<open><id>.owner.json\<close> holds: nothing, something that cannot be read, text that is not JSON, or
  a JSON value with its \<open>v\<close> field read as a number and the record it decodes to.
\<close>

datatype owner_file =
    No_file
  | Unreadable
  | Not_json
  | Json_record "u64 option" "owner_record option"

datatype store_backend = Disk | Memory

text \<open>
  A store handle is one lease table, shared by the handle's clones; a lease is an \<open>Arc\<close>, known
  by the handle and session it was armed for and a serial number.
\<close>

type_synonym store_handle = nat
type_synonym agent_id = nat

record lease =
  le_handle :: store_handle
  le_session :: session_id
  le_serial :: nat

record session_claim =
  cl_session :: session_id
  cl_table :: store_handle
  cl_lease :: lease
  cl_previous :: "owner_record option"
  cl_record :: owner_record

text \<open>Where an agent stands in the code.\<close>

datatype agent_stage =
    Elsewhere
  | Claiming store_handle session_id holder
  | Locked store_handle session_id holder
  | Armed session_claim
  | Owning session_claim
  | Releasing session_claim owner_record
  | Unlocking session_claim
  | Dropping session_claim
  | Dropped session_claim
  | Fetched store_handle session_id "lease option"
  | Writing_leased store_handle session_id lease
  | Writing_locked store_handle session_id
  | Holding store_handle session_id

record own_world =
  ow_backend :: "store_handle \<Rightarrow> store_backend"
  ow_process :: "store_handle \<Rightarrow> nat"
  ow_lock :: "session_id \<Rightarrow> agent_id option"
  ow_file :: "session_id \<Rightarrow> owner_file"
  ow_table :: "store_handle \<Rightarrow> session_id \<Rightarrow> lease option"
  ow_live :: "lease \<Rightarrow> bool"
  ow_mutex :: "lease \<Rightarrow> agent_id option"
  ow_serial :: nat
  ow_stage :: "agent_id \<Rightarrow> agent_stage"

text \<open>A directory and handles nobody has used yet; the record files may be there from before.\<close>

definition own_world_new ::
  "(store_handle \<Rightarrow> store_backend) \<Rightarrow> (store_handle \<Rightarrow> nat) \<Rightarrow> (session_id \<Rightarrow> owner_file) \<Rightarrow> own_world" where
  "own_world_new backend process files =
     \<lparr>ow_backend = backend, ow_process = process, ow_lock = (\<lambda>_. None), ow_file = files,
      ow_table = (\<lambda>_ _. None), ow_live = (\<lambda>_. False), ow_mutex = (\<lambda>_. None), ow_serial = 0,
      ow_stage = (\<lambda>_. Elsewhere)\<rparr>"

text \<open>What a call returns or makes durable.\<close>

datatype own_outcome =
    Silent
  | Failed store_error
  | Claimed session_claim
  | No_claim
  | Published session_id owner_record
  | Let_go session_claim
  | Handed_over session_claim
  | Wrote store_handle session_id
  | Held bool
  | Removed session_id

section \<open>The record file\<close>

fun read_record :: "owner_file \<Rightarrow> store_error + owner_record option" where
  "read_record No_file = Inr None"
| "read_record Unreadable = Inl Store_io"
| "read_record Not_json = Inl Serde"
| "read_record (Json_record version decoded) =
     (if version \<noteq> Some (ucast OWNER_RECORD_VERSION)
      then Inl (UnsupportedFormat (case version of None \<Rightarrow> 0 | Some v \<Rightarrow> v) OWNER_RECORD_VERSION)
      else (case decoded of None \<Rightarrow> Inl Serde | Some r \<Rightarrow> Inr (Some r)))"

text \<open>
  \<open>publish\<close> renames a complete new file over the old one, or fails and leaves the old one: the
  result is an argument.
\<close>

definition record_json :: "owner_record \<Rightarrow> owner_file" where
  "record_json r = Json_record (Some (ucast (or_v r))) (Some r)"

definition publish_record :: "session_id \<Rightarrow> owner_record \<Rightarrow> own_world \<Rightarrow> own_world" where
  "publish_record s r w = w\<lparr>ow_file := (ow_file w)(s := record_json r)\<rparr>"

definition known_holder :: "own_world \<Rightarrow> session_id \<Rightarrow> holder option" where
  "known_holder w s =
     (case read_record (ow_file w s) of Inr (Some r) \<Rightarrow> Some (or_holder r) | _ \<Rightarrow> None)"

definition owner_record_of :: "own_world \<Rightarrow> store_handle \<Rightarrow> session_id \<Rightarrow> store_error + owner_record option" where
  "owner_record_of w h s =
     (case ow_backend w h of Memory \<Rightarrow> Inr None | Disk \<Rightarrow> read_record (ow_file w s))"

definition saturating_succ :: "u64 \<Rightarrow> u64" where
  "saturating_succ g = (if g = - 1 then g else g + 1)"

definition next_generation :: "owner_record option \<Rightarrow> u64" where
  "next_generation previous =
     saturating_succ (case previous of None \<Rightarrow> 0 | Some r \<Rightarrow> or_generation r)"

section \<open>Locks, leases and places\<close>

definition at_stage :: "agent_id \<Rightarrow> agent_stage \<Rightarrow> own_world \<Rightarrow> own_world" where
  "at_stage a st w = w\<lparr>ow_stage := (ow_stage w)(a := st)\<rparr>"

definition unlock_session :: "session_id \<Rightarrow> own_world \<Rightarrow> own_world" where
  "unlock_session s w = w\<lparr>ow_lock := (ow_lock w)(s := None)\<rparr>"

text \<open>\<open>HeldLock::try_take\<close>: one attempt; \<open>None\<close> when another holder has the lock.\<close>

definition try_take :: "agent_id \<Rightarrow> session_id \<Rightarrow> bool \<Rightarrow> own_world \<Rightarrow> store_error + own_world option" where
  "try_take a s io_fails w =
     (if io_fails then Inl Store_io
      else case ow_lock w s of
             Some _ \<Rightarrow> Inr None
           | None \<Rightarrow> Inr (Some (w\<lparr>ow_lock := (ow_lock w)(s \<mapsto> a)\<rparr>)))"

definition set_live :: "lease \<Rightarrow> bool \<Rightarrow> own_world \<Rightarrow> own_world" where
  "set_live l b w = w\<lparr>ow_live := (ow_live w)(l := b)\<rparr>"

definition set_mutex :: "lease \<Rightarrow> agent_id option \<Rightarrow> own_world \<Rightarrow> own_world" where
  "set_mutex l m w = w\<lparr>ow_mutex := (ow_mutex w)(l := m)\<rparr>"

definition lease_in :: "own_world \<Rightarrow> store_handle \<Rightarrow> session_id \<Rightarrow> lease option" where
  "lease_in w h s = ow_table w h s"

definition set_lease :: "store_handle \<Rightarrow> session_id \<Rightarrow> lease option \<Rightarrow> own_world \<Rightarrow> own_world" where
  "set_lease h s x w = w\<lparr>ow_table := (ow_table w)(h := (ow_table w h)(s := x))\<rparr>"

section \<open>Taking a claim\<close>

definition claim_session ::
  "agent_id \<Rightarrow> store_handle \<Rightarrow> session_id \<Rightarrow> holder \<Rightarrow> own_world \<Rightarrow> own_world \<times> own_outcome" where
  "claim_session a h s who w =
     (case ow_backend w h of
        Memory \<Rightarrow> (w, No_claim)
      | Disk \<Rightarrow> (at_stage a (Claiming h s who) w, Silent))"

text \<open>One turn of the loop of \<open>take\<close>; \<open>expired\<close> is \<open>Instant::now() >= deadline\<close>.\<close>

definition take_attempt ::
  "agent_id \<Rightarrow> store_handle \<Rightarrow> session_id \<Rightarrow> holder \<Rightarrow> bool \<Rightarrow> bool \<Rightarrow> own_world \<Rightarrow> own_world \<times> own_outcome" where
  "take_attempt a h s who io_fails expired w =
     (case try_take a s io_fails w of
        Inl e \<Rightarrow> (at_stage a Elsewhere w, Failed e)
      | Inr (Some w') \<Rightarrow> (at_stage a (Locked h s who) w', Silent)
      | Inr None \<Rightarrow>
          if expired then (at_stage a Elsewhere w, Failed (SessionBusy s (known_holder w s)))
          else (w, Silent))"

text \<open>The lock is taken: read the last record, publish the next generation, make the lease.\<close>

definition new_claim :: "store_handle \<Rightarrow> session_id \<Rightarrow> holder \<Rightarrow> nat \<Rightarrow> owner_record option \<Rightarrow> session_claim" where
  "new_claim h s who n previous =
     \<lparr>cl_session = s, cl_table = h,
      cl_lease = \<lparr>le_handle = h, le_session = s, le_serial = n\<rparr>,
      cl_previous = previous,
      cl_record = \<lparr>or_v = OWNER_RECORD_VERSION, or_generation = next_generation previous,
                   or_holder = who, or_transfer = None\<rparr>\<rparr>"

definition take_publish ::
  "agent_id \<Rightarrow> store_handle \<Rightarrow> session_id \<Rightarrow> holder \<Rightarrow> bool \<Rightarrow> own_world \<Rightarrow> own_world \<times> own_outcome" where
  "take_publish a h s who io_fails w =
     (case read_record (ow_file w s) of
        Inl e \<Rightarrow> (at_stage a Elsewhere (unlock_session s w), Failed e)
      | Inr previous \<Rightarrow>
          if io_fails then (at_stage a Elsewhere (unlock_session s w), Failed Store_io)
          else let c = new_claim h s who (ow_serial w) previous
               in (at_stage a (Armed c)
                     (set_live (cl_lease c) True
                       (publish_record s (cl_record c) (w\<lparr>ow_serial := Suc (ow_serial w)\<rparr>))),
                   Published s (cl_record c)))"

definition take_arm :: "agent_id \<Rightarrow> session_claim \<Rightarrow> own_world \<Rightarrow> own_world \<times> own_outcome" where
  "take_arm a c w =
     (at_stage a (Owning c) (set_lease (cl_table c) (cl_session c) (Some (cl_lease c)) w), Claimed c)"

section \<open>A claim's own operations\<close>

definition with_transfer :: "transfer_state \<Rightarrow> transfer_record \<Rightarrow> owner_record \<Rightarrow> owner_record" where
  "with_transfer st t r = r\<lparr>or_transfer := Some (t\<lparr>tr_state := st\<rparr>)\<rparr>"

definition commit_transfer ::
  "agent_id \<Rightarrow> session_claim \<Rightarrow> transfer_record \<Rightarrow> bool \<Rightarrow> own_world \<Rightarrow> own_world \<times> own_outcome" where
  "commit_transfer a c t io_fails w =
     (let r = with_transfer Transfer_committed t (cl_record c)
      in if io_fails then (w, Failed Store_io)
         else (at_stage a (Owning (c\<lparr>cl_record := r\<rparr>)) (publish_record (cl_session c) r w),
               Published (cl_session c) r))"

text \<open>
  \<open>release\<close>: first the lease mutex, under which the lease dies and the record is published; the
  mutex blocks while a write runs under it. Then the lock goes.
\<close>

definition release_begin :: "agent_id \<Rightarrow> session_claim \<Rightarrow> transfer_record \<Rightarrow> own_world \<Rightarrow> own_world \<times> own_outcome" where
  "release_begin a c t w =
     (if ow_mutex w (cl_lease c) \<noteq> None then (w, Silent)
      else (at_stage a (Releasing c (with_transfer Transfer_released t (cl_record c)))
              (set_live (cl_lease c) False (set_mutex (cl_lease c) (Some a) w)), Silent))"

definition release_publish ::
  "agent_id \<Rightarrow> session_claim \<Rightarrow> owner_record \<Rightarrow> bool \<Rightarrow> own_world \<Rightarrow> own_world \<times> own_outcome" where
  "release_publish a c r io_fails w =
     (if io_fails
      then (at_stage a (Owning c) (set_mutex (cl_lease c) None (set_live (cl_lease c) True w)),
            Failed Store_io)
      else (at_stage a (Unlocking (c\<lparr>cl_record := r\<rparr>))
              (set_mutex (cl_lease c) None (publish_record (cl_session c) r w)),
            Published (cl_session c) r))"

definition release_unlock :: "agent_id \<Rightarrow> session_claim \<Rightarrow> own_world \<Rightarrow> own_world \<times> own_outcome" where
  "release_unlock a c w =
     (at_stage a Elsewhere (unlock_session (cl_session c) w), Handed_over c)"

text \<open>\<open>Drop\<close> of a claim that was not released: the lease, then its table entry, then the lock.\<close>

definition drop_kill :: "agent_id \<Rightarrow> session_claim \<Rightarrow> own_world \<Rightarrow> own_world \<times> own_outcome" where
  "drop_kill a c w =
     (if ow_mutex w (cl_lease c) \<noteq> None then (w, Silent)
      else (at_stage a (Dropping c) (set_live (cl_lease c) False w), Silent))"

definition drop_forget :: "agent_id \<Rightarrow> session_claim \<Rightarrow> own_world \<Rightarrow> own_world \<times> own_outcome" where
  "drop_forget a c w =
     (at_stage a (Dropped c)
        (if ow_table w (cl_table c) (cl_session c) = Some (cl_lease c)
         then set_lease (cl_table c) (cl_session c) None w else w), Silent)"

definition drop_unlock :: "agent_id \<Rightarrow> session_claim \<Rightarrow> own_world \<Rightarrow> own_world \<times> own_outcome" where
  "drop_unlock a c w =
     (at_stage a Elsewhere (unlock_session (cl_session c) w), Let_go c)"

section \<open>Writing to a session\<close>

text \<open>
  \<open>Store::session_write\<close> looks the lease up first; the write then runs under that lease, or
  under the lock when there was none. A handle on an in-memory store writes straight away, to
  its own map.
\<close>

definition session_write :: "agent_id \<Rightarrow> store_handle \<Rightarrow> session_id \<Rightarrow> own_world \<Rightarrow> own_world \<times> own_outcome" where
  "session_write a h s w =
     (case ow_backend w h of
        Memory \<Rightarrow> (w, Wrote h s)
      | Disk \<Rightarrow> (at_stage a (Fetched h s (lease_in w h s)) w, Silent))"

text \<open>\<open>Lease::guarded\<close> and \<open>with_session_lock\<close>, up to the call of \<open>write\<close>.\<close>

definition guarded_enter ::
  "agent_id \<Rightarrow> store_handle \<Rightarrow> session_id \<Rightarrow> lease \<Rightarrow> own_world \<Rightarrow> own_world \<times> own_outcome" where
  "guarded_enter a h s l w =
     (if ow_mutex w l \<noteq> None then (w, Silent)
      else if \<not> ow_live w l then (at_stage a Elsewhere w, Failed (OwnershipLost s))
      else (at_stage a (Writing_leased h s l) (set_mutex l (Some a) w), Silent))"

definition with_session_lock ::
  "agent_id \<Rightarrow> store_handle \<Rightarrow> session_id \<Rightarrow> bool \<Rightarrow> own_world \<Rightarrow> own_world \<times> own_outcome" where
  "with_session_lock a h s io_fails w =
     (case try_take a s io_fails w of
        Inl e \<Rightarrow> (at_stage a Elsewhere w, Failed e)
      | Inr None \<Rightarrow> (at_stage a Elsewhere w, Failed (SessionBusy s (known_holder w s)))
      | Inr (Some w') \<Rightarrow> (at_stage a (Writing_locked h s) w', Silent))"

text \<open>The end of a write: its result is \<open>write\<close>'s own, and the guard is dropped either way.\<close>

definition write_result :: "store_handle \<Rightarrow> session_id \<Rightarrow> bool \<Rightarrow> own_outcome" where
  "write_result h s io_fails = (if io_fails then Failed Store_io else Wrote h s)"

definition guarded_leave ::
  "agent_id \<Rightarrow> store_handle \<Rightarrow> session_id \<Rightarrow> lease \<Rightarrow> bool \<Rightarrow> own_world \<Rightarrow> own_world \<times> own_outcome" where
  "guarded_leave a h s l io_fails w =
     (at_stage a Elsewhere (set_mutex l None w), write_result h s io_fails)"

definition locked_leave ::
  "agent_id \<Rightarrow> store_handle \<Rightarrow> session_id \<Rightarrow> bool \<Rightarrow> own_world \<Rightarrow> own_world \<times> own_outcome" where
  "locked_leave a h s io_fails w =
     (at_stage a Elsewhere (unlock_session s w), write_result h s io_fails)"

section \<open>Maintenance\<close>

text \<open>
  \<open>hold_session\<close> takes the lock without publishing; \<open>prune\<close> removes the record of a doomed session
  while it holds it, \<open>session_is_held\<close> only looks whether it could take it.
\<close>

definition hold_session :: "agent_id \<Rightarrow> store_handle \<Rightarrow> session_id \<Rightarrow> bool \<Rightarrow> own_world \<Rightarrow> own_world \<times> own_outcome" where
  "hold_session a h s io_fails w =
     (case ow_backend w h of
        Memory \<Rightarrow> (w, Held False)
      | Disk \<Rightarrow>
          (case try_take a s io_fails w of
             Inl e \<Rightarrow> (w, Failed e)
           | Inr None \<Rightarrow> (w, Held True)
           | Inr (Some w') \<Rightarrow> (at_stage a (Holding h s) w', Held False)))"

definition remove_record :: "session_id \<Rightarrow> own_world \<Rightarrow> own_world \<times> own_outcome" where
  "remove_record s w = (w\<lparr>ow_file := (ow_file w)(s := No_file)\<rparr>, Removed s)"

definition unhold_session :: "agent_id \<Rightarrow> session_id \<Rightarrow> own_world \<Rightarrow> own_world \<times> own_outcome" where
  "unhold_session a s w = (at_stage a Elsewhere (unlock_session s w), Silent)"

end
