(* ===== verification/Ownership_Run.thy ===== *)
theory Ownership_Run
  imports Ownership
begin

text \<open>
  Any number of agents on any number of handles and processes, interleaved: a step lets one agent
  go on to the next point of its code, with the results of its calls to the operating system as
  arguments, or ends a process. The invariant ties locks and mutexes to the agents that hold
  them and every live lease to the claim that holds its session's lock.
\<close>

section \<open>Steps\<close>

datatype own_action =
    Claim_session store_handle session_id holder
  | Write_session store_handle session_id
  | Hold_session store_handle session_id
  | Proceed
  | Wait_over
  | Commit transfer_record
  | Release transfer_record
  | Let_go_claim
  | Remove_record

datatype own_event = Act agent_id own_action bool | End_process nat

text \<open>What an agent elsewhere may start.\<close>

fun own_start :: "agent_id \<Rightarrow> own_action \<Rightarrow> bool \<Rightarrow> own_world \<Rightarrow> own_world \<times> own_outcome" where
  "own_start a (Claim_session h s who) f w = claim_session a h s who w"
| "own_start a (Write_session h s) f w = session_write a h s w"
| "own_start a (Hold_session h s) f w = hold_session a h s f w"
| "own_start a _ f w = (w, Silent)"

text \<open>What the owner of a claim may do with it.\<close>

fun own_use :: "agent_id \<Rightarrow> session_claim \<Rightarrow> own_action \<Rightarrow> bool \<Rightarrow> own_world \<Rightarrow> own_world \<times> own_outcome" where
  "own_use a c (Commit t) f w = commit_transfer a c t f w"
| "own_use a c (Release t) f w = release_begin a c t w"
| "own_use a c Let_go_claim f w = drop_kill a c w"
| "own_use a c _ f w = (w, Silent)"

fun fetched_enter ::
  "agent_id \<Rightarrow> store_handle \<Rightarrow> session_id \<Rightarrow> lease option \<Rightarrow> bool \<Rightarrow> own_world \<Rightarrow> own_world \<times> own_outcome" where
  "fetched_enter a h s (Some l) f w = guarded_enter a h s l w"
| "fetched_enter a h s None f w = with_session_lock a h s f w"

text \<open>The code an agent is in; the flag is the result of its call to the operating system.\<close>

fun own_stage_step :: "agent_id \<Rightarrow> agent_stage \<Rightarrow> own_action \<Rightarrow> bool \<Rightarrow> own_world \<Rightarrow> own_world \<times> own_outcome" where
  "own_stage_step a Elsewhere x f w = own_start a x f w"
| "own_stage_step a (Claiming h s who) x f w = take_attempt a h s who f (x = Wait_over) w"
| "own_stage_step a (Locked h s who) x f w = take_publish a h s who f w"
| "own_stage_step a (Armed c) x f w = take_arm a c w"
| "own_stage_step a (Owning c) x f w = own_use a c x f w"
| "own_stage_step a (Releasing c r) x f w = release_publish a c r f w"
| "own_stage_step a (Unlocking c) x f w = release_unlock a c w"
| "own_stage_step a (Dropping c) x f w = drop_forget a c w"
| "own_stage_step a (Dropped c) x f w = drop_unlock a c w"
| "own_stage_step a (Fetched h s l) x f w = fetched_enter a h s l f w"
| "own_stage_step a (Writing_leased h s l) x f w = guarded_leave a h s l f w"
| "own_stage_step a (Writing_locked h s) x f w = locked_leave a h s f w"
| "own_stage_step a (Holding h s) x f w =
     (if x = Remove_record then remove_record s w else unhold_session a s w)"

fun stage_handle :: "agent_stage \<Rightarrow> store_handle option" where
  "stage_handle Elsewhere = None"
| "stage_handle (Claiming h s who) = Some h"
| "stage_handle (Locked h s who) = Some h"
| "stage_handle (Armed c) = Some (cl_table c)"
| "stage_handle (Owning c) = Some (cl_table c)"
| "stage_handle (Releasing c r) = Some (cl_table c)"
| "stage_handle (Unlocking c) = Some (cl_table c)"
| "stage_handle (Dropping c) = Some (cl_table c)"
| "stage_handle (Dropped c) = Some (cl_table c)"
| "stage_handle (Fetched h s l) = Some h"
| "stage_handle (Writing_leased h s l) = Some h"
| "stage_handle (Writing_locked h s) = Some h"
| "stage_handle (Holding h s) = Some h"

definition dies_with :: "nat \<Rightarrow> own_world \<Rightarrow> agent_id \<Rightarrow> bool" where
  "dies_with p w a = (map_option (ow_process w) (stage_handle (ow_stage w a)) = Some p)"

text \<open>The process ends: its threads and leases are gone, the operating system drops its locks.\<close>

definition end_process :: "nat \<Rightarrow> own_world \<Rightarrow> own_world" where
  "end_process p w =
     w\<lparr>ow_stage := (\<lambda>a. if dies_with p w a then Elsewhere else ow_stage w a),
       ow_lock := (\<lambda>s. Option.bind (ow_lock w s) (\<lambda>a. if dies_with p w a then None else Some a)),
       ow_mutex := (\<lambda>l. Option.bind (ow_mutex w l) (\<lambda>a. if dies_with p w a then None else Some a)),
       ow_table := (\<lambda>h. if ow_process w h = p then (\<lambda>_. None) else ow_table w h),
       ow_live := (\<lambda>l. ow_live w l \<and> ow_process w (le_handle l) \<noteq> p)\<rparr>"

fun own_step :: "own_event \<Rightarrow> own_world \<Rightarrow> own_world \<times> own_outcome" where
  "own_step (Act a x f) w = own_stage_step a (ow_stage w a) x f w"
| "own_step (End_process p) w = (end_process p w, Silent)"

fun own_run :: "own_event list \<Rightarrow> own_world \<Rightarrow> own_world \<times> own_outcome list" where
  "own_run [] w = (w, [])"
| "own_run (e # es) w =
     (let (w', o1) = own_step e w; (w'', os) = own_run es w' in (w'', o1 # os))"

section \<open>What a place in the code holds\<close>

fun stage_lock :: "agent_stage \<Rightarrow> session_id option" where
  "stage_lock Elsewhere = None"
| "stage_lock (Claiming h s who) = None"
| "stage_lock (Locked h s who) = Some s"
| "stage_lock (Armed c) = Some (cl_session c)"
| "stage_lock (Owning c) = Some (cl_session c)"
| "stage_lock (Releasing c r) = Some (cl_session c)"
| "stage_lock (Unlocking c) = Some (cl_session c)"
| "stage_lock (Dropping c) = Some (cl_session c)"
| "stage_lock (Dropped c) = Some (cl_session c)"
| "stage_lock (Fetched h s l) = None"
| "stage_lock (Writing_leased h s l) = None"
| "stage_lock (Writing_locked h s) = Some s"
| "stage_lock (Holding h s) = Some s"

fun stage_mutex :: "agent_stage \<Rightarrow> lease option" where
  "stage_mutex (Releasing c r) = Some (cl_lease c)"
| "stage_mutex (Writing_leased h s l) = Some l"
| "stage_mutex _ = None"

text \<open>The claim a stage carries, and whether its lease is in force.\<close>

fun stage_claim :: "agent_stage \<Rightarrow> session_claim option" where
  "stage_claim (Armed c) = Some c"
| "stage_claim (Owning c) = Some c"
| "stage_claim (Releasing c r) = Some c"
| "stage_claim (Unlocking c) = Some c"
| "stage_claim (Dropping c) = Some c"
| "stage_claim (Dropped c) = Some c"
| "stage_claim _ = None"

fun stage_active :: "agent_stage \<Rightarrow> session_claim option" where
  "stage_active (Armed c) = Some c"
| "stage_active (Owning c) = Some c"
| "stage_active _ = None"

text \<open>The lease a stage refers to with the handle and session it uses it for.\<close>

fun stage_lease :: "agent_stage \<Rightarrow> (store_handle \<times> session_id \<times> lease) option" where
  "stage_lease (Fetched h s (Some l)) = Some (h, s, l)"
| "stage_lease (Writing_leased h s l) = Some (h, s, l)"
| "stage_lease st = map_option (\<lambda>c. (cl_table c, cl_session c, cl_lease c)) (stage_claim st)"

definition lease_fits :: "nat \<Rightarrow> store_handle \<Rightarrow> session_id \<Rightarrow> lease \<Rightarrow> bool" where
  "lease_fits n h s l \<longleftrightarrow> le_handle l = h \<and> le_session l = s \<and> le_serial l < n"

definition active_lease :: "agent_stage \<Rightarrow> lease option" where
  "active_lease st = map_option cl_lease (stage_active st)"

definition own_ok :: "own_world \<Rightarrow> bool" where
  "own_ok w \<longleftrightarrow>
     (\<forall>s a. ow_lock w s = Some a \<longleftrightarrow> stage_lock (ow_stage w a) = Some s) \<and>
     (\<forall>l a. ow_mutex w l = Some a \<longleftrightarrow> stage_mutex (ow_stage w a) = Some l) \<and>
     (\<forall>a h s l. stage_lease (ow_stage w a) = Some (h, s, l) \<longrightarrow> lease_fits (ow_serial w) h s l) \<and>
     (\<forall>h s l. ow_table w h s = Some l \<longrightarrow> lease_fits (ow_serial w) h s l) \<and>
     (\<forall>l. ow_live w l \<longleftrightarrow> (\<exists>a. active_lease (ow_stage w a) = Some l)) \<and>
     (\<forall>a h s l. ow_stage w a = Writing_leased h s l \<longrightarrow> ow_live w l)"

section \<open>The invariant is kept\<close>

lemmas own_prims = at_stage_def unlock_session_def try_take_def set_live_def set_mutex_def
  lease_in_def set_lease_def publish_record_def

lemma active_lease_simps [simp]:
  "active_lease Elsewhere = None" "active_lease (Claiming h s who) = None"
  "active_lease (Locked h s who) = None" "active_lease (Armed c) = Some (cl_lease c)"
  "active_lease (Owning c) = Some (cl_lease c)" "active_lease (Releasing c r) = None"
  "active_lease (Unlocking c) = None" "active_lease (Dropping c) = None"
  "active_lease (Dropped c) = None" "active_lease (Fetched h s x) = None"
  "active_lease (Writing_leased h s l) = None" "active_lease (Writing_locked h s) = None"
  "active_lease (Holding h s) = None"
  by (simp_all add: active_lease_def)

lemma own_ok_new: "own_ok (own_world_new backend process files)"
  by (simp add: own_ok_def own_world_new_def)

lemma own_okD:
  assumes "own_ok w"
  shows "ow_lock w s = Some a \<longleftrightarrow> stage_lock (ow_stage w a) = Some s"
    and "ow_mutex w l = Some a \<longleftrightarrow> stage_mutex (ow_stage w a) = Some l"
    and "stage_lease (ow_stage w a) = Some (h, s, l) \<Longrightarrow> lease_fits (ow_serial w) h s l"
    and "ow_table w h s = Some l \<Longrightarrow> lease_fits (ow_serial w) h s l"
    and "ow_live w l \<longleftrightarrow> (\<exists>a. active_lease (ow_stage w a) = Some l)"
    and "ow_stage w a = Writing_leased h s l \<Longrightarrow> ow_live w l"
  using assms unfolding own_ok_def by blast+

lemma own_okI:
  assumes "\<And>s a. ow_lock w s = Some a \<longleftrightarrow> stage_lock (ow_stage w a) = Some s"
    and "\<And>l a. ow_mutex w l = Some a \<longleftrightarrow> stage_mutex (ow_stage w a) = Some l"
    and "\<And>a h s l. stage_lease (ow_stage w a) = Some (h, s, l) \<Longrightarrow> lease_fits (ow_serial w) h s l"
    and "\<And>h s l. ow_table w h s = Some l \<Longrightarrow> lease_fits (ow_serial w) h s l"
    and "\<And>l. ow_live w l \<longleftrightarrow> (\<exists>a. active_lease (ow_stage w a) = Some l)"
    and "\<And>a h s l. ow_stage w a = Writing_leased h s l \<Longrightarrow> ow_live w l"
  shows "own_ok w"
  using assms unfolding own_ok_def by blast

lemma active_holds_lock:
  assumes "own_ok w" and "active_lease (ow_stage w a) = Some l"
  shows "ow_lock w (le_session l) = Some a"
proof -
  from assms(2) obtain c where "ow_stage w a = Armed c \<or> ow_stage w a = Owning c" "l = cl_lease c"
    by (cases "ow_stage w a") auto
  moreover have "stage_lease (ow_stage w a) = Some (cl_table c, cl_session c, cl_lease c)"
    using calculation by auto
  ultimately show ?thesis
    using own_okD(1,3) [OF assms(1)] by (auto simp: lease_fits_def)
qed

lemma active_unique:
  assumes "own_ok w" and "active_lease (ow_stage w a) = Some l" and "active_lease (ow_stage w b) = Some l"
  shows "a = b"
  using active_holds_lock [OF assms(1,2)] active_holds_lock [OF assms(1,3)] by simp

lemma lease_fits_mono: "lease_fits n h s l \<Longrightarrow> n \<le> m \<Longrightarrow> lease_fits m h s l"
  by (simp add: lease_fits_def)

text \<open>One agent moves on: what has to be seen to.\<close>

lemma own_ok_update:
  assumes ok: "own_ok w"
    and stage: "ow_stage w' = (ow_stage w)(a := st)"
    and serial: "ow_serial w \<le> ow_serial w'"
    and lock: "\<And>s. ow_lock w' s =
      (if stage_lock st = Some s then Some a else if ow_lock w s = Some a then None else ow_lock w s)"
    and lock_free: "\<And>s. stage_lock st = Some s \<Longrightarrow> ow_lock w s = None \<or> ow_lock w s = Some a"
    and mutex: "\<And>l. ow_mutex w' l =
      (if stage_mutex st = Some l then Some a else if ow_mutex w l = Some a then None else ow_mutex w l)"
    and mutex_free: "\<And>l. stage_mutex st = Some l \<Longrightarrow> ow_mutex w l = None \<or> ow_mutex w l = Some a"
    and lease: "\<And>h s l. stage_lease st = Some (h, s, l) \<Longrightarrow> lease_fits (ow_serial w') h s l"
    and table: "\<And>h s l. ow_table w' h s = Some l \<Longrightarrow>
      ow_table w h s = Some l \<or> lease_fits (ow_serial w') h s l"
    and live: "\<And>l. ow_live w' l \<longleftrightarrow>
      active_lease st = Some l \<or> active_lease (ow_stage w a) \<noteq> Some l \<and> ow_live w l"
    and writes: "\<And>h s l. st = Writing_leased h s l \<Longrightarrow> ow_live w l \<and> active_lease (ow_stage w a) = None"
    and ends: "\<And>l. active_lease (ow_stage w a) = Some l \<Longrightarrow> active_lease st = Some l \<or> ow_mutex w l = None"
  shows "own_ok w'"
proof (rule own_okI, goal_cases)
  case (1 s b)
  show ?case
    using own_okD(1) [OF ok, of s b] lock_free [of s] by (cases "b = a") (auto simp: stage lock)
next
  case (2 l b)
  show ?case
    using own_okD(2) [OF ok, of l b] mutex_free [of l] by (cases "b = a") (auto simp: stage mutex)
next
  case (3 b h s l)
  then show ?case
    using own_okD(3) [OF ok, of b h s l] lease lease_fits_mono [OF _ serial] by (cases "b = a") (auto simp: stage)
next
  case (4 h s l)
  then show ?case
    using table [OF 4] own_okD(4) [OF ok, of h s l] lease_fits_mono [OF _ serial] by blast
next
  case (5 l)
  show ?case
    using own_okD(5) [OF ok, of l] active_unique [OF ok, of a l] by (auto simp: stage live)
next
  case (6 b h s l)
  show ?case
  proof (cases "b = a")
    case True
    with 6 writes [of h s l] show ?thesis by (auto simp: stage live)
  next
    case False
    with 6 have b: "ow_stage w b = Writing_leased h s l" by (simp add: stage)
    with own_okD(2) [OF ok, of l b] have "ow_mutex w l = Some b" by simp
    with ends [of l] own_okD(6) [OF ok b] show ?thesis by (auto simp: live)
  qed
qed

lemma own_at:
  assumes "own_ok w" and "ow_stage w a = st"
  shows "ow_lock w s = Some a \<longleftrightarrow> stage_lock st = Some s"
    and "ow_mutex w l = Some a \<longleftrightarrow> stage_mutex st = Some l"
    and "stage_lease st = Some (h, s, l) \<Longrightarrow> lease_fits (ow_serial w) h s l"
    and "active_lease st = Some l \<Longrightarrow> ow_live w l"
  using own_okD [OF assms(1)] assms(2) by blast+

lemma claim_session_ok:
  assumes "own_ok w" and "ow_stage w a = Elsewhere"
  shows "own_ok (fst (claim_session a h s who w))"
  using assms own_at(1,2) [OF assms]
  by (auto simp: claim_session_def own_prims split: store_backend.splits intro!: own_ok_update [OF assms(1), where a = a])

lemma take_attempt_ok:
  assumes "own_ok w" and "ow_stage w a = Claiming h s who"
  shows "own_ok (fst (take_attempt a h s who f x w))"
  using assms own_at(1,2) [OF assms]
  by (auto simp: take_attempt_def own_prims split: option.splits intro!: own_ok_update [OF assms(1), where a = a])

lemma take_publish_ok:
  assumes "own_ok w" and "ow_stage w a = Locked h s who"
  shows "own_ok (fst (take_publish a h s who f w))"
  using assms own_at(1,2) [OF assms]
  by (auto simp: take_publish_def own_prims Let_def new_claim_def lease_fits_def
      split: sum.splits intro!: own_ok_update [OF assms(1), where a = a])

lemma take_arm_ok:
  assumes "own_ok w" and "ow_stage w a = Armed c"
  shows "own_ok (fst (take_arm a c w))"
  using assms own_at [OF assms]
  by (auto simp: take_arm_def own_prims split: if_splits intro!: own_ok_update [OF assms(1), where a = a])

lemma commit_transfer_ok:
  assumes "own_ok w" and "ow_stage w a = Owning c"
  shows "own_ok (fst (commit_transfer a c t f w))"
  using assms own_at [OF assms]
  by (auto simp: commit_transfer_def own_prims Let_def intro!: own_ok_update [OF assms(1), where a = a])

lemma release_begin_ok:
  assumes "own_ok w" and "ow_stage w a = Owning c"
  shows "own_ok (fst (release_begin a c t w))"
  using assms own_at [OF assms]
  by (auto simp: release_begin_def own_prims split: if_splits intro!: own_ok_update [OF assms(1), where a = a])

lemma release_publish_ok:
  assumes "own_ok w" and "ow_stage w a = Releasing c r"
  shows "own_ok (fst (release_publish a c r f w))"
  using assms own_at [OF assms]
  by (auto simp: release_publish_def own_prims intro!: own_ok_update [OF assms(1), where a = a])

lemma release_unlock_ok:
  assumes "own_ok w" and "ow_stage w a = Unlocking c"
  shows "own_ok (fst (release_unlock a c w))"
  using assms own_at [OF assms]
  by (auto simp: release_unlock_def own_prims intro!: own_ok_update [OF assms(1), where a = a])

lemma drop_kill_ok:
  assumes "own_ok w" and "ow_stage w a = Owning c"
  shows "own_ok (fst (drop_kill a c w))"
  using assms own_at [OF assms]
  by (auto simp: drop_kill_def own_prims split: if_splits intro!: own_ok_update [OF assms(1), where a = a])

lemma drop_forget_ok:
  assumes "own_ok w" and "ow_stage w a = Dropping c"
  shows "own_ok (fst (drop_forget a c w))"
  using assms own_at [OF assms]
  by (auto simp: drop_forget_def own_prims split: if_splits intro!: own_ok_update [OF assms(1), where a = a])

lemma drop_unlock_ok:
  assumes "own_ok w" and "ow_stage w a = Dropped c"
  shows "own_ok (fst (drop_unlock a c w))"
  using assms own_at [OF assms]
  by (auto simp: drop_unlock_def own_prims intro!: own_ok_update [OF assms(1), where a = a])

lemma session_write_ok:
  assumes "own_ok w" and "ow_stage w a = Elsewhere"
  shows "own_ok (fst (session_write a h s w))"
  using assms own_at [OF assms] own_okD(4) [OF assms(1), of h s]
  by (cases "ow_table w h s")
    (auto simp: session_write_def own_prims split: store_backend.splits intro!: own_ok_update [OF assms(1), where a = a])

lemma guarded_enter_ok:
  assumes "own_ok w" and "ow_stage w a = Fetched h s (Some l)"
  shows "own_ok (fst (guarded_enter a h s l w))"
  using assms own_at [OF assms]
  by (auto simp: guarded_enter_def own_prims split: if_splits intro!: own_ok_update [OF assms(1), where a = a])

lemma with_session_lock_ok:
  assumes "own_ok w" and "ow_stage w a = Fetched h s None"
  shows "own_ok (fst (with_session_lock a h s f w))"
  using assms own_at [OF assms]
  by (auto simp: with_session_lock_def own_prims split: if_splits option.splits intro!: own_ok_update [OF assms(1), where a = a])

lemma guarded_leave_ok:
  assumes "own_ok w" and "ow_stage w a = Writing_leased h s l"
  shows "own_ok (fst (guarded_leave a h s l f w))"
  using assms own_at [OF assms]
  by (auto simp: guarded_leave_def own_prims split: if_splits intro!: own_ok_update [OF assms(1), where a = a])

lemma locked_leave_ok:
  assumes "own_ok w" and "ow_stage w a = Writing_locked h s"
  shows "own_ok (fst (locked_leave a h s f w))"
  using assms own_at [OF assms]
  by (auto simp: locked_leave_def own_prims split: if_splits intro!: own_ok_update [OF assms(1), where a = a])

lemma hold_session_ok:
  assumes "own_ok w" and "ow_stage w a = Elsewhere"
  shows "own_ok (fst (hold_session a h s f w))"
  using assms own_at [OF assms]
  by (auto simp: hold_session_def own_prims split: store_backend.splits option.splits intro!: own_ok_update [OF assms(1), where a = a])

lemma remove_record_ok: "own_ok w \<Longrightarrow> own_ok (fst (remove_record s w))"
  by (simp add: own_ok_def remove_record_def) blast

lemma unhold_session_ok:
  assumes "own_ok w" and "ow_stage w a = Holding h s"
  shows "own_ok (fst (unhold_session a s w))"
  using assms own_at [OF assms]
  by (auto simp: unhold_session_def own_prims split: if_splits intro!: own_ok_update [OF assms(1), where a = a])

lemma own_start_ok:
  assumes "own_ok w" and "ow_stage w a = Elsewhere"
  shows "own_ok (fst (own_start a x f w))"
  using claim_session_ok [OF assms] session_write_ok [OF assms] hold_session_ok [OF assms] assms(1)
  by (cases x) simp_all

lemma own_use_ok:
  assumes "own_ok w" and "ow_stage w a = Owning c"
  shows "own_ok (fst (own_use a c x f w))"
  using commit_transfer_ok [OF assms] release_begin_ok [OF assms] drop_kill_ok [OF assms] assms(1)
  by (cases x) simp_all

lemma act_ok:
  assumes "own_ok w"
  shows "own_ok (fst (own_stage_step a (ow_stage w a) x f w))"
proof (cases "ow_stage w a")
  case (Fetched h s l)
  with guarded_enter_ok [OF assms] with_session_lock_ok [OF assms] show ?thesis
    by (cases l) simp_all
qed (simp_all add: assms own_start_ok own_use_ok take_attempt_ok take_publish_ok take_arm_ok
    release_publish_ok release_unlock_ok drop_forget_ok drop_unlock_ok guarded_leave_ok
    locked_leave_ok remove_record_ok unhold_session_ok)

text \<open>Whatever an agent holds belongs to a handle of its process.\<close>

lemma active_handle:
  assumes "own_ok w" and "active_lease (ow_stage w a) = Some l"
  shows "stage_handle (ow_stage w a) = Some (le_handle l)"
proof (cases "ow_stage w a")
  case (Armed c)
  with own_okD(3) [OF assms(1), of a] assms(2) show ?thesis by (simp add: lease_fits_def)
next
  case (Owning c)
  with own_okD(3) [OF assms(1), of a] assms(2) show ?thesis by (simp add: lease_fits_def)
qed (use assms(2) in simp_all)

lemma end_process_ok:
  assumes ok: "own_ok w"
  shows "own_ok (end_process p w)"
proof (rule own_okI, goal_cases)
  case (1 s a)
  then show ?case using own_okD(1) [OF ok, of s a] by (auto simp: end_process_def bind_eq_Some_conv)
next
  case (2 l a)
  then show ?case using own_okD(2) [OF ok, of l a] by (auto simp: end_process_def bind_eq_Some_conv)
next
  case (3 a h s l)
  then show ?case using own_okD(3) [OF ok] by (auto simp: end_process_def split: if_splits)
next
  case (4 h s l)
  then show ?case using own_okD(4) [OF ok] by (auto simp: end_process_def split: if_splits)
next
  case (5 l)
  then show ?case
    using own_okD(5) [OF ok, of l] active_handle [OF ok, of _ l]
    by (auto simp: end_process_def dies_with_def split: if_splits) (metis option.inject)
next
  case (6 a h s l)
  then have a: "ow_stage w a = Writing_leased h s l" "\<not> dies_with p w a"
    by (auto simp: end_process_def split: if_splits)
  have "lease_fits (ow_serial w) h s l" by (rule own_okD(3) [OF ok, of a]) (simp add: a)
  with a own_okD(6) [OF ok a(1)] show ?case
    by (simp add: end_process_def dies_with_def lease_fits_def)
qed

lemma own_step_ok: "own_ok w \<Longrightarrow> own_ok (fst (own_step e w))"
  by (cases e) (simp_all add: act_ok end_process_ok)

lemma own_run_ok: "own_ok w \<Longrightarrow> own_ok (fst (own_run es w))"
proof (induction es arbitrary: w)
  case (Cons e es)
  from Cons.IH [OF own_step_ok [OF Cons.prems, of e]] show ?case
    by (simp add: case_prod_beta)
qed simp

end
