(* ===== verification/Ownership_Inv.thy ===== *)
theory Ownership_Inv
  imports Ownership_Run
begin

text \<open>
  More of what the runs of \<open>Ownership_Run\<close> keep: the table entry and the record of a claim, the record
  file between two publications, and the fence around a handle that handed a session over.
\<close>

section \<open>Writers\<close>

fun stage_writes :: "agent_stage \<Rightarrow> session_id option" where
  "stage_writes (Writing_leased h s l) = Some s"
| "stage_writes (Writing_locked h s) = Some s"
| "stage_writes _ = None"

lemma live_holds_lock:
  assumes "own_ok w" and "ow_live w l"
  obtains a c where "stage_active (ow_stage w a) = Some c" "cl_lease c = l"
    "ow_lock w (le_session l) = Some a"
proof -
  from own_okD(5) [OF assms(1)] assms(2) obtain a where a: "active_lease (ow_stage w a) = Some l"
    by blast
  from active_holds_lock [OF assms(1) a] a that show ?thesis
    by (auto simp: active_lease_def)
qed

text \<open>A writer is under the session's lock: its own, or the one of the claim its lease belongs to.\<close>

lemma writer_cases:
  assumes ok: "own_ok w" and wr: "stage_writes (ow_stage w a) = Some s"
  obtains (locked) h where "ow_stage w a = Writing_locked h s" "ow_lock w s = Some a"
  | (leased) h l b c where "ow_stage w a = Writing_leased h s l" "ow_mutex w l = Some a"
      "stage_active (ow_stage w b) = Some c" "cl_lease c = l" "ow_lock w s = Some b"
      "le_handle l = h" "le_session l = s"
proof (cases "ow_stage w a")
  case (Writing_locked h s')
  with wr own_okD(1) [OF ok, of s a] show ?thesis by (auto intro: locked)
next
  case (Writing_leased h s' l)
  with wr have s: "s' = s" by simp
  from own_okD(3) [OF ok, of a h s l] Writing_leased s have f: "le_handle l = h" "le_session l = s"
    by (auto simp: lease_fits_def)
  from own_okD(6) [OF ok Writing_leased] obtain b c where
    "stage_active (ow_stage w b) = Some c" "cl_lease c = l" "ow_lock w (le_session l) = Some b"
    by (rule live_holds_lock [OF ok])
  with f s Writing_leased own_okD(2) [OF ok, of l a] show ?thesis by (auto intro: leased)
qed (use wr in simp_all)

lemma writers_unique:
  assumes ok: "own_ok w"
    and a: "stage_writes (ow_stage w a) = Some s" and b: "stage_writes (ow_stage w b) = Some s"
  shows "a = b"
  using ok a
proof (cases rule: writer_cases)
  case (locked h)
  then show ?thesis by - (rule writer_cases [OF ok b], auto)
next
  case (leased h l d c)
  then show ?thesis by - (rule writer_cases [OF ok b], auto)
qed

lemma owner_is_writer:
  assumes ok: "own_ok w"
    and a: "stage_writes (ow_stage w a) = Some s"
    and b: "stage_claim (ow_stage w b) = Some c" "cl_session c = s"
  shows "stage_handle (ow_stage w a) = Some (cl_table c)"
proof -
  have lock: "ow_lock w s = Some b"
    using own_okD(1) [OF ok, of s b] b by (cases "ow_stage w b") auto
  from ok a show ?thesis
  proof (cases rule: writer_cases)
    case (locked h)
    with lock b show ?thesis by auto
  next
    case (leased h l d e)
    with lock have "d = b" by simp
    with leased b have "e = c" by (cases "ow_stage w b") auto
    moreover have "stage_lease (ow_stage w b) = Some (cl_table c, cl_session c, cl_lease c)"
      using b by (cases "ow_stage w b") auto
    ultimately show ?thesis
      using own_okD(3) [OF ok] leased by (fastforce simp: lease_fits_def)
  qed
qed

section \<open>The table entry and the record of a claim\<close>

fun stage_entry :: "agent_stage \<Rightarrow> session_claim option" where
  "stage_entry (Owning c) = Some c"
| "stage_entry (Releasing c r) = Some c"
| "stage_entry (Unlocking c) = Some c"
| "stage_entry (Dropping c) = Some c"
| "stage_entry _ = None"

fun stage_record :: "agent_stage \<Rightarrow> session_claim option" where
  "stage_record (Armed c) = Some c"
| "stage_record (Owning c) = Some c"
| "stage_record (Releasing c r) = Some c"
| "stage_record _ = None"

definition claim_fits :: "own_world \<Rightarrow> agent_stage \<Rightarrow> bool" where
  "claim_fits w st \<longleftrightarrow>
     (\<forall>c. stage_entry st = Some c \<longrightarrow>
          ow_table w (cl_table c) (cl_session c) = Some (cl_lease c)) \<and>
     (\<forall>c. stage_record st = Some c \<longrightarrow>
          ow_file w (cl_session c) = record_json (cl_record c) \<and>
          or_v (cl_record c) = OWNER_RECORD_VERSION) \<and>
     (\<forall>c r. st = Releasing c r \<longrightarrow>
          (\<exists>t. r = with_transfer Transfer_released t (cl_record c)))"

definition own_claims :: "own_world \<Rightarrow> bool" where
  "own_claims w \<longleftrightarrow> (\<forall>a. claim_fits w (ow_stage w a))"

text \<open>Only the holder of a session's lock changes its entries and its record.\<close>

lemma entry_lock:
  "stage_entry st = Some c \<Longrightarrow> stage_lock st = Some (cl_session c)"
  "stage_record st = Some c \<Longrightarrow> stage_lock st = Some (cl_session c)"
  by (cases st; auto)+

lemma own_claims_update:
  assumes ok: "own_ok w" and cl: "own_claims w"
    and stage: "ow_stage w' = (ow_stage w)(a := st)"
    and new: "claim_fits w' st"
    and table: "\<And>h s. ow_lock w s \<noteq> Some a \<Longrightarrow> ow_table w' h s = ow_table w h s"
    and filed: "\<And>s. ow_lock w s \<noteq> Some a \<Longrightarrow> ow_file w' s = ow_file w s"
  shows "own_claims w'"
  unfolding own_claims_def
proof
  fix b
  show "claim_fits w' (ow_stage w' b)"
  proof (cases "b = a")
    case True
    with new show ?thesis by (simp add: stage)
  next
    case False
    have "ow_lock w (cl_session c) \<noteq> Some a"
      if "stage_entry (ow_stage w b) = Some c \<or> stage_record (ow_stage w b) = Some c" for c
      using own_okD(1) [OF ok, of "cl_session c" b] entry_lock that False by auto
    moreover have "claim_fits w (ow_stage w b)" using cl by (simp add: own_claims_def)
    ultimately show ?thesis
      using False by (auto simp: stage claim_fits_def table filed)
  qed
qed

lemma own_claims_move:
  assumes "own_ok w" and "own_claims w" and "ow_stage w' = (ow_stage w)(a := st)"
    and "ow_table w' = ow_table w" and "ow_file w' = ow_file w"
    and "stage_entry st = None" and "stage_record st = None"
  shows "own_claims w'"
proof (rule own_claims_update [OF assms(1-3)])
  show "claim_fits w' st" using assms(6,7) by (auto simp: claim_fits_def)
qed (simp_all add: assms(4,5))

lemmas own_ops = claim_session_def take_attempt_def take_publish_def take_arm_def commit_transfer_def
  release_begin_def release_publish_def release_unlock_def drop_kill_def drop_forget_def
  drop_unlock_def session_write_def guarded_enter_def with_session_lock_def guarded_leave_def
  locked_leave_def hold_session_def remove_record_def unhold_session_def

lemma start_claims:
  assumes "own_ok w" and "own_claims w"
  shows "own_claims (fst (own_start a x f w))"
  using assms(2) own_claims_move [OF assms, where a = a]
  by (cases x) (simp_all add: own_ops own_prims split: store_backend.splits option.splits)

lemma claiming_claims:
  assumes "own_ok w" and "own_claims w"
  shows "own_claims (fst (take_attempt a h s who f e w))"
  using assms(2) own_claims_move [OF assms, where a = a]
  by (simp_all add: own_ops own_prims Let_def split: option.splits sum.splits)

lemma publishing_claims:
  assumes "own_ok w" and "own_claims w" and "ow_stage w a = Locked h s who"
  shows "own_claims (fst (take_publish a h s who f w))"
  using assms(2) own_claims_move [OF assms(1,2), where a = a] own_at(1) [OF assms(1,3), of s]
  by (auto simp: own_ops own_prims Let_def new_claim_def claim_fits_def split: sum.splits
      intro!: own_claims_update [OF assms(1,2), where a = a])

lemma enter_claims:
  assumes "own_ok w" and "own_claims w"
  shows "own_claims (fst (fetched_enter a h s l f w))"
  using assms(2) own_claims_move [OF assms, where a = a]
  by (cases l) (simp_all add: own_ops own_prims split: option.splits)

lemma leave_claims:
  assumes "own_ok w" and "own_claims w"
  shows "own_claims (fst (guarded_leave a h s l f w))"
    and "own_claims (fst (locked_leave a h s f w))"
    and "own_claims (fst (unhold_session a s w))"
    and "own_claims (fst (release_unlock a c w))"
    and "own_claims (fst (drop_unlock a c w))"
  using assms(2) own_claims_move [OF assms, where a = a]
  by (simp_all add: own_ops own_prims)

lemma remove_claims:
  assumes "own_ok w" and "own_claims w" and "ow_stage w a = Holding h s"
  shows "own_claims (fst (remove_record s w))"
  using own_at(1) [OF assms(1,3), of s]
  by (intro own_claims_update [OF assms(1,2), where a = a and st = "Holding h s"])
    (auto simp: own_ops claim_fits_def fun_upd_idem [where f = "ow_stage w" and x = a, OF assms(3)])

lemma fits_at: "own_claims w \<Longrightarrow> ow_stage w a = st \<Longrightarrow> claim_fits w st"
  by (auto simp: own_claims_def)

lemma arm_claims:
  assumes "own_ok w" and "own_claims w" and "ow_stage w a = Armed c"
  shows "own_claims (fst (take_arm a c w))"
  using own_at(1) [OF assms(1,3), of "cl_session c"] fits_at [OF assms(2,3)]
  by (intro own_claims_update [OF assms(1,2), where a = a and st = "Owning c"])
    (auto simp: own_ops own_prims claim_fits_def)

lemma use_claims:
  assumes "own_ok w" and "own_claims w" and "ow_stage w a = Owning c"
  shows "own_claims (fst (commit_transfer a c t f w))"
    and "own_claims (fst (release_begin a c t w))"
    and "own_claims (fst (drop_kill a c w))"
  using own_at(1) [OF assms(1,3), of "cl_session c"] fits_at [OF assms(2,3)] assms(2)
  by (auto simp: own_ops own_prims Let_def claim_fits_def with_transfer_def
      intro!: own_claims_update [OF assms(1,2), where a = a])

lemma publish_claims:
  assumes "own_ok w" and "own_claims w" and "ow_stage w a = Releasing c r"
  shows "own_claims (fst (release_publish a c r f w))"
  using own_at(1) [OF assms(1,3), of "cl_session c"] fits_at [OF assms(2,3)]
  by (auto simp: own_ops own_prims claim_fits_def
      intro!: own_claims_update [OF assms(1,2), where a = a])

lemma forget_claims:
  assumes "own_ok w" and "own_claims w" and "ow_stage w a = Dropping c"
  shows "own_claims (fst (drop_forget a c w))"
  using own_at(1) [OF assms(1,3), of "cl_session c"]
  by (intro own_claims_update [OF assms(1,2), where a = a and st = "Dropped c"])
    (auto simp: own_ops own_prims claim_fits_def)

lemma own_use_claims:
  assumes "own_ok w" and "own_claims w" and "ow_stage w a = Owning c"
  shows "own_claims (fst (own_use a c x f w))"
  using use_claims [OF assms] assms(2) by (cases x) simp_all

lemma act_claims:
  assumes "own_ok w" and "own_claims w"
  shows "own_claims (fst (own_stage_step a (ow_stage w a) x f w))"
proof (cases "ow_stage w a")
  case (Holding h s)
  then show ?thesis
    using remove_claims [OF assms] leave_claims [OF assms] by simp
qed (simp_all add: start_claims [OF assms] claiming_claims [OF assms] publishing_claims [OF assms]
    enter_claims [OF assms] leave_claims [OF assms] arm_claims [OF assms]
    own_use_claims [OF assms] publish_claims [OF assms] forget_claims [OF assms])

lemma entry_handle: "stage_entry st = Some c \<Longrightarrow> stage_handle st = Some (cl_table c)"
  by (cases st) auto

lemma end_process_claims:
  assumes "own_claims w"
  shows "own_claims (end_process p w)"
  unfolding own_claims_def
proof
  fix a
  have "claim_fits w (ow_stage w a)" using assms by (simp add: own_claims_def)
  then show "claim_fits (end_process p w) (ow_stage (end_process p w) a)"
    by (auto simp: claim_fits_def end_process_def dies_with_def dest: entry_handle)
qed

lemma own_step_claims: "own_ok w \<Longrightarrow> own_claims w \<Longrightarrow> own_claims (fst (own_step e w))"
  by (cases e) (simp_all add: act_claims end_process_claims)

lemma own_run_inv: "own_ok w \<Longrightarrow> own_claims w \<Longrightarrow> own_ok (fst (own_run es w)) \<and> own_claims (fst (own_run es w))"
proof (induction es arbitrary: w)
  case (Cons e es)
  from Cons.IH [OF own_step_ok [OF Cons.prems(1), of e] own_step_claims [OF Cons.prems, of e]]
  show ?case by (simp add: case_prod_beta)
qed simp

lemma own_claims_new: "own_claims (own_world_new backend process files)"
  by (simp add: own_claims_def own_world_new_def claim_fits_def)

lemmas own_reach =
  own_run_inv [OF own_ok_new own_claims_new, THEN conjunct1]
  own_run_inv [OF own_ok_new own_claims_new, THEN conjunct2]

section \<open>The record file between two publications\<close>

definition touches_record :: "session_id \<Rightarrow> own_outcome \<Rightarrow> bool" where
  "touches_record s x \<longleftrightarrow> (\<exists>r. x = Published s r) \<or> x = Removed s"

lemma touches_record_simps [simp]:
  "touches_record s (Published s' r) \<longleftrightarrow> s' = s"
  "touches_record s (Removed s') \<longleftrightarrow> s' = s"
  "\<not> touches_record s Silent" "\<not> touches_record s (Failed e)" "\<not> touches_record s (Claimed c)"
  "\<not> touches_record s No_claim" "\<not> touches_record s (Let_go c)" "\<not> touches_record s (Handed_over c)"
  "\<not> touches_record s (Wrote h s')" "\<not> touches_record s (Held b)"
  by (auto simp: touches_record_def)

lemma start_file: "ow_file (fst (own_start a x f w)) = ow_file w"
  by (cases x) (simp_all add: own_ops own_prims split: store_backend.splits option.splits)

lemma use_file:
  "\<not> touches_record s (snd (own_use a c x f w)) \<Longrightarrow> ow_file (fst (own_use a c x f w)) s = ow_file w s"
  by (cases x) (auto simp: own_ops own_prims Let_def split: if_splits)

lemma enter_file: "ow_file (fst (fetched_enter a h s l f w)) = ow_file w"
  by (cases l) (simp_all add: own_ops own_prims split: option.splits)

lemma act_file:
  "\<not> touches_record s (snd (own_stage_step a st x f w)) \<Longrightarrow>
   ow_file (fst (own_stage_step a st x f w)) s = ow_file w s"
proof (cases st)
  case (Locked h s' who)
  then show "\<not> touches_record s (snd (own_stage_step a st x f w)) \<Longrightarrow>
   ow_file (fst (own_stage_step a st x f w)) s = ow_file w s"
    by (auto simp: own_ops own_prims Let_def split: if_splits sum.splits)
next
  case (Claiming h s' who)
  then show "\<not> touches_record s (snd (own_stage_step a st x f w)) \<Longrightarrow>
   ow_file (fst (own_stage_step a st x f w)) s = ow_file w s"
    by (auto simp: own_ops own_prims Let_def split: if_splits option.splits)
qed (auto simp: own_ops own_prims start_file use_file enter_file split: if_splits)

lemma step_file: "\<not> touches_record s (snd (own_step e w)) \<Longrightarrow> ow_file (fst (own_step e w)) s = ow_file w s"
  by (cases e) (simp_all add: act_file end_process_def)

lemma run_file:
  "\<forall>x \<in> set (snd (own_run es w)). \<not> touches_record s x \<Longrightarrow> ow_file (fst (own_run es w)) s = ow_file w s"
  by (induction es arbitrary: w) (auto simp: case_prod_beta step_file)

text \<open>A publication is a new claim's, or one of the claim that published last.\<close>

lemma published_cases:
  assumes ok: "own_ok w" and cl: "own_claims w" and pub: "snd (own_step e w) = Published s r"
  obtains (claim) a h who previous where
      "ow_stage w a = Locked h s who" "read_record (ow_file w s) = Inr previous"
      "ow_stage (fst (own_step e w)) a = Armed (new_claim h s who (ow_serial w) previous)"
      "r = cl_record (new_claim h s who (ow_serial w) previous)"
      "ow_file (fst (own_step e w)) s = record_json r"
  | (transfer) c :: session_claim and t st where "ow_file w s = record_json (cl_record c)"
      "or_v (cl_record c) = OWNER_RECORD_VERSION"
      "r = with_transfer st t (cl_record c)" "ow_file (fst (own_step e w)) s = record_json r"
proof (cases e)
  case (Act a x f)
  have fits: "claim_fits w (ow_stage w a)" using cl by (simp add: own_claims_def)
  show ?thesis
  proof (cases "ow_stage w a")
    case (Locked h s' who)
    with pub Act that(1) show ?thesis
      by (auto simp: own_ops own_prims Let_def split: sum.splits if_splits)
  next
    case (Owning c)
    with pub Act fits that(2) [of c] show ?thesis
      by (cases x) (auto simp: own_ops own_prims Let_def claim_fits_def split: if_splits)
  next
    case (Releasing c r')
    with pub Act fits that(2) show ?thesis
      by (auto simp: own_ops own_prims claim_fits_def split: if_splits)
  next
    case Elsewhere
    with pub Act show ?thesis
      by (cases x) (auto simp: own_ops split: store_backend.splits sum.splits option.splits)
  next
    case (Fetched h s' l)
    with pub Act show ?thesis
      by (cases l) (auto simp: own_ops split: if_splits sum.splits option.splits)
  next
    case (Claiming h s' who)
    with pub Act show ?thesis
      by (auto simp: own_ops split: if_splits sum.splits option.splits)
  qed (use pub Act in \<open>auto simp: own_ops write_result_def split: if_splits\<close>)
qed (use pub in simp)

section \<open>Generations\<close>

lemma read_record_json [simp]:
  "or_v r = OWNER_RECORD_VERSION \<Longrightarrow> read_record (record_json r) = Inr (Some r)"
  by (simp add: record_json_def)

definition file_generation :: "own_world \<Rightarrow> session_id \<Rightarrow> u64" where
  "file_generation w s =
     (case read_record (ow_file w s) of Inr (Some r) \<Rightarrow> or_generation r | _ \<Rightarrow> 0)"

text \<open>The generations under which a run's claims of a session were published.\<close>

fun claim_generations :: "session_id \<Rightarrow> own_outcome list \<Rightarrow> u64 list" where
  "claim_generations s [] = []"
| "claim_generations s (Published s' r # os) =
     (if s' = s \<and> or_transfer r = None then or_generation r # claim_generations s os
      else claim_generations s os)"
| "claim_generations s (_ # os) = claim_generations s os"

definition claims_in :: "session_id \<Rightarrow> own_outcome \<Rightarrow> u64 list" where
  "claims_in s x = claim_generations s [x]"

lemma claim_generations_Cons:
  "claim_generations s (x # os) = claims_in s x @ claim_generations s os"
  by (cases x) (simp_all add: claims_in_def)

lemma saturating_succ_less:
  "unat g < unat (- 1 :: u64) \<Longrightarrow> g < saturating_succ g \<and> unat (saturating_succ g) = Suc (unat g)"
proof -
  assume "unat g < unat (- 1 :: u64)"
  then have g: "g \<noteq> - 1" by auto
  then have "1 + g \<noteq> 0" by (metis add.commute add_eq_0_iff2)
  with g show ?thesis
    using unatSuc [of g] by (simp add: saturating_succ_def word_less_nat_alt add.commute)
qed

lemma step_generation:
  assumes ok: "own_ok w" and cl: "own_claims w"
    and gone: "snd (own_step e w) \<noteq> Removed s"
    and room: "unat (file_generation w s) < unat (- 1 :: u64)"
  shows "(claims_in s (snd (own_step e w)) = [] \<and>
           file_generation (fst (own_step e w)) s = file_generation w s) \<or>
         (claims_in s (snd (own_step e w)) = [file_generation (fst (own_step e w)) s] \<and>
           file_generation w s < file_generation (fst (own_step e w)) s \<and>
           unat (file_generation (fst (own_step e w)) s) = Suc (unat (file_generation w s)))"
proof (cases "touches_record s (snd (own_step e w))")
  case False
  then show ?thesis
    using step_file [OF False]
    by (cases "snd (own_step e w)") (auto simp: claims_in_def file_generation_def)
next
  case True
  with gone obtain r where pub: "snd (own_step e w) = Published s r"
    by (auto simp: touches_record_def)
  from ok cl pub show ?thesis
  proof (cases rule: published_cases)
    case (claim a h who previous)
    have "or_generation r = saturating_succ (file_generation w s)"
      using claim(2,4) by (simp add: new_claim_def next_generation_def file_generation_def split: option.splits)
    moreover have "or_transfer r = None" "or_v r = OWNER_RECORD_VERSION"
      using claim(4) by (simp_all add: new_claim_def)
    ultimately show ?thesis
      using claim(5) pub saturating_succ_less [OF room]
      by (simp add: claims_in_def file_generation_def)
  next
    case (transfer c t st)
    then show ?thesis
      using pub by (simp add: claims_in_def file_generation_def with_transfer_def)
  qed
qed

lemma run_generations:
  assumes "own_ok w" and "own_claims w" and "Removed s \<notin> set (snd (own_run es w))"
    and "unat (file_generation w s) + length es \<le> unat (- 1 :: u64)"
  shows "sorted_wrt (<) (claim_generations s (snd (own_run es w))) \<and>
         (\<forall>g \<in> set (claim_generations s (snd (own_run es w))). file_generation w s < g)"
  using assms
proof (induction es arbitrary: w)
  case (Cons e es)
  let ?w = "fst (own_step e w)"
  from Cons.prems(3) have gone: "snd (own_step e w) \<noteq> Removed s" "Removed s \<notin> set (snd (own_run es ?w))"
    by (auto simp: case_prod_beta)
  from Cons.prems(4) have room: "unat (file_generation w s) < unat (- 1 :: u64)" by simp
  note st = step_generation [OF Cons.prems(1,2) gone(1) room]
  then have "unat (file_generation ?w s) + length es \<le> unat (- 1 :: u64)"
    using Cons.prems(4) by auto
  note IH = Cons.IH [OF own_step_ok [OF Cons.prems(1)] own_step_claims [OF Cons.prems(1,2)] gone(2) this]
  have run: "snd (own_run (e # es) w) = snd (own_step e w) # snd (own_run es ?w)"
    by (simp add: case_prod_beta)
  from st IH show ?case
    unfolding run claim_generations_Cons by (auto intro: order_less_trans)
qed simp

section \<open>The fence around a handle that handed a session over\<close>

text \<open>The places from which a handle could still come to write without claiming anew.\<close>

fun stage_threatens :: "store_handle \<Rightarrow> session_id \<Rightarrow> agent_stage \<Rightarrow> bool" where
  "stage_threatens h s (Claiming h' s' who) \<longleftrightarrow> h' = h \<and> s' = s"
| "stage_threatens h s (Locked h' s' who) \<longleftrightarrow> h' = h \<and> s' = s"
| "stage_threatens h s (Fetched h' s' l) \<longleftrightarrow> h' = h \<and> s' = s \<and> l = None"
| "stage_threatens h s (Writing_leased h' s' l) \<longleftrightarrow> h' = h \<and> s' = s"
| "stage_threatens h s (Writing_locked h' s') \<longleftrightarrow> h' = h \<and> s' = s"
| "stage_threatens h s st \<longleftrightarrow>
     (case stage_claim st of None \<Rightarrow> False | Some c \<Rightarrow> cl_table c = h \<and> cl_session c = s)"

definition fenced :: "nat \<Rightarrow> store_handle \<Rightarrow> session_id \<Rightarrow> own_world \<Rightarrow> bool" where
  "fenced p h s w \<longleftrightarrow>
     ow_process w h = p \<and> ow_backend w h = Disk \<and> ow_table w h s \<noteq> None \<and> (\<forall>a. \<not> stage_threatens h s (ow_stage w a))"

text \<open>Claiming the session again, or ending the process, takes the fence away.\<close>

fun keeps_fence :: "nat \<Rightarrow> store_handle \<Rightarrow> session_id \<Rightarrow> own_event \<Rightarrow> bool" where
  "keeps_fence p h s (Act a (Claim_session h' s' who) f) \<longleftrightarrow> \<not> (h' = h \<and> s' = s)"
| "keeps_fence p h s (Act a x f) \<longleftrightarrow> True"
| "keeps_fence p h s (End_process q) \<longleftrightarrow> q \<noteq> p"

lemma fenced_dead:
  assumes ok: "own_ok w" and fe: "fenced p h s w" and l: "le_handle l = h" "le_session l = s"
  shows "\<not> ow_live w l"
proof
  assume "ow_live w l"
  then obtain a c where a: "stage_active (ow_stage w a) = Some c" "cl_lease c = l"
    by (rule live_holds_lock [OF ok])
  then have "stage_lease (ow_stage w a) = Some (cl_table c, cl_session c, cl_lease c)"
    by (cases "ow_stage w a") auto
  from own_okD(3) [OF ok this] a l have "stage_threatens h s (ow_stage w a)"
    by (cases "ow_stage w a") (auto simp: lease_fits_def)
  with fe show False by (simp add: fenced_def)
qed

lemma fencedI:
  assumes "fenced p h s w" and "ow_stage w' = (ow_stage w)(a := st)" and "\<not> stage_threatens h s st"
    and "ow_backend w' = ow_backend w" and "ow_process w' = ow_process w" and "ow_table w' h s = ow_table w h s"
  shows "fenced p h s w'"
  using assms by (simp add: fenced_def)

lemma start_fenced:
  assumes "fenced p h s w" and "keeps_fence p h s (Act a x f)"
  shows "fenced p h s (fst (own_start a x f w)) \<and> snd (own_start a x f w) \<noteq> Wrote h s"
  using assms fencedI [OF assms(1), where a = a]
  by (cases x) (auto simp: own_ops own_prims fenced_def split: store_backend.splits option.splits)

lemma take_fenced:
  assumes "fenced p h s w" and "\<not> (h' = h \<and> s' = s)"
  shows "fenced p h s (fst (take_attempt a h' s' who f e w)) \<and> snd (take_attempt a h' s' who f e w) \<noteq> Wrote h s"
    and "fenced p h s (fst (take_publish a h' s' who f w)) \<and> snd (take_publish a h' s' who f w) \<noteq> Wrote h s"
  using assms fencedI [OF assms(1), where a = a]
  by (auto simp: own_ops own_prims Let_def new_claim_def split: option.splits sum.splits)

lemma claim_fenced:
  assumes "fenced p h s w" and "\<not> (cl_table c = h \<and> cl_session c = s)"
  shows "fenced p h s (fst (take_arm a c w))" and "fenced p h s (fst (own_use a c x f w))"
    and "fenced p h s (fst (release_publish a c r f w))" and "fenced p h s (fst (release_unlock a c w))"
    and "fenced p h s (fst (drop_forget a c w))" and "fenced p h s (fst (drop_unlock a c w))"
proof -
  note i = assms fencedI [OF assms(1), where a = a]
  show "fenced p h s (fst (take_arm a c w))"
    and "fenced p h s (fst (release_publish a c r f w))" and "fenced p h s (fst (release_unlock a c w))"
    and "fenced p h s (fst (drop_forget a c w))" and "fenced p h s (fst (drop_unlock a c w))"
    using i by (auto simp: own_ops own_prims Let_def)
  show "fenced p h s (fst (own_use a c x f w))"
    using i by (cases x; auto simp: own_ops own_prims Let_def)
qed

lemma claim_writes_nothing:
  "snd (take_arm a c w) \<noteq> Wrote h s" "snd (own_use a c x f w) \<noteq> Wrote h s"
  "snd (release_publish a c r f w) \<noteq> Wrote h s" "snd (release_unlock a c w) \<noteq> Wrote h s"
  "snd (drop_forget a c w) \<noteq> Wrote h s" "snd (drop_unlock a c w) \<noteq> Wrote h s"
  by (cases x; auto simp: own_ops Let_def)+

lemma enter_fenced:
  assumes ok: "own_ok w" and fe: "fenced p h s w" and st: "ow_stage w a = Fetched h' s' l"
  shows "fenced p h s (fst (fetched_enter a h' s' l f w)) \<and> snd (fetched_enter a h' s' l f w) \<noteq> Wrote h s"
proof (cases l)
  case None
  have "\<not> stage_threatens h s (ow_stage w a)" using fe by (simp add: fenced_def)
  with None st have "\<not> (h' = h \<and> s' = s)" by auto
  with None fe fencedI [OF fe, where a = a] show ?thesis
    by (auto simp: own_ops own_prims split: option.splits)
next
  case (Some k)
  with own_okD(3) [OF ok, of a h' s' k] st have "le_handle k = h'" "le_session k = s'"
    by (auto simp: lease_fits_def)
  with fenced_dead [OF ok fe] have "ow_live w k \<Longrightarrow> \<not> (h' = h \<and> s' = s)" by auto
  with Some fe fencedI [OF fe, where a = a] show ?thesis
    by (auto simp: own_ops own_prims)
qed

lemma leave_fenced:
  assumes "fenced p h s w"
  shows "fenced p h s (fst (guarded_leave a h' s' l f w))" "fenced p h s (fst (locked_leave a h' s' f w))"
    "fenced p h s (fst (unhold_session a s' w))" "fenced p h s (fst (remove_record s' w))"
  using assms fencedI [OF assms(1), where a = a] by (auto simp: own_ops own_prims fenced_def)

lemma own_step_fenced:
  assumes ok: "own_ok w" and fe: "fenced p h s w" and ke: "keeps_fence p h s e"
  shows "fenced p h s (fst (own_step e w)) \<and> snd (own_step e w) \<noteq> Wrote h s"
proof (cases e)
  case (Act a x f)
  have nt: "\<not> stage_threatens h s (ow_stage w a)" using fe by (simp add: fenced_def)
  show ?thesis
  proof (cases "ow_stage w a")
    case Elsewhere
    with start_fenced [OF fe] ke Act show ?thesis by simp
  next
    case (Fetched h' s' l)
    with enter_fenced [OF ok fe] Act show ?thesis by simp
  qed (use nt Act take_fenced [OF fe] claim_fenced [OF fe] leave_fenced [OF fe] claim_writes_nothing in
      \<open>auto simp: guarded_leave_def locked_leave_def unhold_session_def remove_record_def write_result_def\<close>)
next
  case (End_process q)
  with fe ke show ?thesis by (auto simp: fenced_def end_process_def)
qed

lemma own_run_fenced:
  assumes "own_ok w" and "fenced p h s w" and "\<forall>e \<in> set es. keeps_fence p h s e"
  shows "fenced p h s (fst (own_run es w)) \<and> Wrote h s \<notin> set (snd (own_run es w))"
  using assms
proof (induction es arbitrary: w)
  case (Cons e es)
  then have st: "fenced p h s (fst (own_step e w)) \<and> snd (own_step e w) \<noteq> Wrote h s"
    by (intro own_step_fenced) auto
  with Cons.IH [OF own_step_ok [OF Cons.prems(1)], of e] Cons.prems(3) show ?case
    by (auto simp: case_prod_beta)
qed simp

text \<open>A handle behind the fence is told so.\<close>

lemma fenced_write_is_refused:
  assumes ok: "own_ok w" and fe: "fenced p h s w" and idle: "ow_stage w b = Elsewhere"
  shows "snd (own_run [Act b (Write_session h s) f, Act b x g] w) = [Silent, Failed (OwnershipLost s)]"
proof -
  from fe obtain l where l: "ow_table w h s = Some l" "ow_backend w h = Disk"
    by (auto simp: fenced_def)
  with own_okD(4) [OF ok] have fits: "le_handle l = h" "le_session l = s"
    by (auto simp: lease_fits_def)
  have dead: "\<not> ow_live w l" by (rule fenced_dead [OF ok fe fits])
  have "ow_mutex w l = None"
  proof (rule ccontr)
    assume "ow_mutex w l \<noteq> None"
    then obtain a where a: "stage_mutex (ow_stage w a) = Some l"
      using own_okD(2) [OF ok] by auto
    have nt: "\<not> stage_threatens h s (ow_stage w a)" using fe by (simp add: fenced_def)
    from a show False
      by (cases "ow_stage w a")
        (use nt dead fits own_okD(3) [OF ok, of a] own_okD(6) [OF ok, of a] in
          \<open>auto simp: lease_fits_def\<close>)
  qed
  with l idle dead show ?thesis
    by (simp add: own_ops own_prims case_prod_beta)
qed

text \<open>Handing a session over puts the fence up, unless a thread of the handle got past it before.\<close>

lemma release_fences:
  assumes ok: "own_ok w" and cl: "own_claims w" and st: "ow_stage w a = Unlocking c"
    and disk: "ow_backend w (cl_table c) = Disk"
    and early: "\<And>b. ow_stage w b \<noteq> Fetched (cl_table c) (cl_session c) None"
    and other: "\<And>b who. ow_stage w b \<noteq> Claiming (cl_table c) (cl_session c) who"
  shows "fenced (ow_process w (cl_table c)) (cl_table c) (cl_session c) (fst (own_step (Act a x f) w))"
proof -
  have lock: "ow_lock w (cl_session c) = Some a" using own_at(1) [OF ok st] by simp
  have "\<not> stage_threatens (cl_table c) (cl_session c) (ow_stage w b)" if "b \<noteq> a" for b
  proof
    assume t: "stage_threatens (cl_table c) (cl_session c) (ow_stage w b)"
    have "stage_lock (ow_stage w b) = Some (cl_session c) \<or>
          stage_writes (ow_stage w b) = Some (cl_session c)"
      using t early [of b] other [of b] by (cases "ow_stage w b") auto
    with own_okD(1) [OF ok, of "cl_session c" b] lock that
    have "stage_writes (ow_stage w b) = Some (cl_session c)" by auto
    from ok this show False
      by (cases rule: writer_cases) (use lock st that in auto)
  qed
  with fits_at [OF cl st] st disk show ?thesis
    by (auto simp: fenced_def own_ops own_prims claim_fits_def)
qed

section \<open>What never changes\<close>

lemma own_step_const:
  "ow_backend (fst (own_step e w)) = ow_backend w \<and> ow_process (fst (own_step e w)) = ow_process w"
proof (cases e)
  case (Act a x f)
  show ?thesis
  proof (cases "ow_stage w a")
    case (Fetched h s l)
    with Act show ?thesis by (cases l) (auto simp: own_ops own_prims split: option.splits)
  next
    case (Claiming h s who)
    with Act show ?thesis by (auto simp: own_ops own_prims split: option.splits)
  next
    case (Locked h s who)
    with Act show ?thesis by (auto simp: own_ops own_prims Let_def split: sum.splits)
  qed (use Act in \<open>cases x; auto simp: own_ops own_prims Let_def split: store_backend.splits option.splits\<close>)+
qed (simp add: end_process_def)

lemma own_run_const:
  "ow_backend (fst (own_run es w)) = ow_backend w \<and> ow_process (fst (own_run es w)) = ow_process w"
  by (induction es arbitrary: w) (simp_all add: case_prod_beta own_step_const)

end
