(* ===== verification/Core_Message.thy ===== *)
theory Core_Message
  imports Rust_Str
begin

text \<open>
  \<^verbatim>\<open>crates/localpilot-core/src/message.rs\<close>, \<^verbatim>\<open>tool.rs\<close> and \<^verbatim>\<open>summary.rs\<close>: the messages of a conversation,
  the tool calls and results inside them, and the bounded digests that stand for trimmed history.
  A JSON value is \<open>serde_json\<close>'s, its objects ordered by key.
\<close>

section \<open>JSON values\<close>

datatype json_number = PosInt u64 | NegInt int | Float string

datatype json =
    JNull
  | JBool bool
  | JNumber json_number
  | JString string
  | JArray "json list"
  | JObject "(string \<times> json) list"

fun json_get :: "string \<Rightarrow> json \<Rightarrow> json option" where
  "json_get k (JObject fields) = map_of fields k"
| "json_get k _ = None"

fun as_u64 :: "json \<Rightarrow> u64 option" where
  "as_u64 (JNumber (PosInt n)) = Some n"
| "as_u64 _ = None"

fun as_str :: "json \<Rightarrow> string option" where
  "as_str (JString s) = Some s"
| "as_str _ = None"

section \<open>Tools\<close>

type_synonym tool_use_id = string

record tool_call =
  tc_id :: tool_use_id
  tc_name :: string
  tc_input :: json
  tc_metadata :: "json option"

datatype tool_outcome = Ok | ReportedFailure | Unusable

definition outcome_is_error :: "tool_outcome \<Rightarrow> bool" where
  "outcome_is_error x \<longleftrightarrow> x \<noteq> Ok"

definition is_malfunction :: "tool_outcome \<Rightarrow> bool" where
  "is_malfunction x \<longleftrightarrow> x = Unusable"

definition outcome_label :: "tool_outcome \<Rightarrow> string" where
  "outcome_label x = (if outcome_is_error x then ''error'' else ''success'')"

record tool_image =
  ti_media_type :: string
  ti_data :: string

record tool_result =
  tr_use_id :: tool_use_id
  tr_output :: string
  tr_outcome :: tool_outcome
  tr_image :: "tool_image option"

text \<open>The wire shape keeps the older flag beside the newer outcome.\<close>

record tool_result_wire =
  tw_id :: tool_use_id
  tw_output :: string
  tw_is_error :: bool
  tw_outcome :: "tool_outcome option"
  tw_image :: "tool_image option"

definition result_of_wire :: "tool_result_wire \<Rightarrow> tool_result" where
  "result_of_wire w =
     \<lparr>tr_use_id = tw_id w, tr_output = tw_output w,
      tr_outcome = (case tw_outcome w of
                      Some x \<Rightarrow> x | None \<Rightarrow> if tw_is_error w then Unusable else Ok),
      tr_image = tw_image w\<rparr>"

definition wire_of_result :: "tool_result \<Rightarrow> tool_result_wire" where
  "wire_of_result r =
     \<lparr>tw_id = tr_use_id r, tw_output = tr_output r, tw_is_error = outcome_is_error (tr_outcome r),
      tw_outcome = Some (tr_outcome r), tw_image = tr_image r\<rparr>"

definition result_is_error :: "tool_result \<Rightarrow> bool" where
  "result_is_error r = outcome_is_error (tr_outcome r)"

section \<open>Messages\<close>

datatype role = System | User | Assistant | Tool | UserShell

datatype content_block =
    Text string
  | Reasoning string "string option" "json option"
  | ToolUse tool_call
  | ToolResult tool_result
  | Image string string

record message_metadata =
  mm_id :: "string option"
  mm_provider :: "string option"
  mm_synthetic :: "string option"

record message =
  msg_role :: role
  msg_content :: "content_block list"
  msg_metadata :: message_metadata

definition empty_metadata :: message_metadata where
  "empty_metadata = \<lparr>mm_id = None, mm_provider = None, mm_synthetic = None\<rparr>"

definition message_new :: "role \<Rightarrow> content_block list \<Rightarrow> message" where
  "message_new r bs = \<lparr>msg_role = r, msg_content = bs, msg_metadata = empty_metadata\<rparr>"

definition message_text :: "role \<Rightarrow> string \<Rightarrow> message" where
  "message_text r s = message_new r [Text s]"

definition into_synthetic :: "string \<Rightarrow> message \<Rightarrow> message" where
  "into_synthetic why m = m\<lparr>msg_metadata := (msg_metadata m)\<lparr>mm_synthetic := Some why\<rparr>\<rparr>"

definition is_synthetic :: "message \<Rightarrow> bool" where
  "is_synthetic m \<longleftrightarrow> mm_synthetic (msg_metadata m) \<noteq> None"

section \<open>Summaries\<close>

datatype section_kind =
    Goal | Constraints | Progress | Decisions | NextSteps | CriticalContext
  | RelevantFiles | CommandOutcomes | Risks | StaleOrSuperseded

fun section_label :: "section_kind \<Rightarrow> string" where
  "section_label Goal = ''goal''"
| "section_label Constraints = ''constraints/preferences''"
| "section_label Progress = ''progress''"
| "section_label Decisions = ''decisions''"
| "section_label NextSteps = ''next steps''"
| "section_label CriticalContext = ''critical context''"
| "section_label RelevantFiles = ''relevant files''"
| "section_label CommandOutcomes = ''commands/failures''"
| "section_label Risks = ''unresolved risks''"
| "section_label StaleOrSuperseded = ''stale/superseded''"

record summary_section =
  ss_kind :: section_kind
  ss_items :: "string list"

datatype summary_source_kind =
    MessageRange | ToolCallSource | ToolResultSource | FilePath | Command | PreviousSummary
  | IngestChunk | AcceptedMemory | GraphFact

record summary_source =
  so_kind :: summary_source_kind
  so_id :: string
  so_range :: "string option"
  so_path :: "string option"
  so_redacted :: bool

definition source_new :: "summary_source_kind \<Rightarrow> string \<Rightarrow> summary_source" where
  "source_new k i = \<lparr>so_kind = k, so_id = i, so_range = None, so_path = None, so_redacted = True\<rparr>"

record summary_budget =
  sb_estimated_tokens :: nat
  sb_original_messages :: nat
  sb_kept_messages :: nat
  sb_dropped_messages :: nat
  sb_truncated_tool_results :: nat
  sb_truncation_reason :: "string option"

definition budget_default :: summary_budget where
  "budget_default =
     \<lparr>sb_estimated_tokens = 0, sb_original_messages = 0, sb_kept_messages = 0,
      sb_dropped_messages = 0, sb_truncated_tool_results = 0, sb_truncation_reason = None\<rparr>"

record structured_summary =
  su_version :: u32
  su_title :: string
  su_entries :: "string list"
  su_sections :: "summary_section list"
  su_sources :: "summary_source list"
  su_budget :: summary_budget

definition STRUCTURED_SUMMARY_SCHEMA_VERSION :: u32 where
  "STRUCTURED_SUMMARY_SCHEMA_VERSION = 2"

definition summary_new :: "string \<Rightarrow> string list \<Rightarrow> structured_summary" where
  "summary_new title entries =
     \<lparr>su_version = STRUCTURED_SUMMARY_SCHEMA_VERSION, su_title = title, su_entries = entries,
      su_sections = [], su_sources = [], su_budget = budget_default\<rparr>"

definition section_lines :: "summary_section \<Rightarrow> string list" where
  "section_lines x = map (\<lambda>item. section_label (ss_kind x) @ '': '' @ item) (ss_items x)"

definition render_entries :: "structured_summary \<Rightarrow> string list" where
  "render_entries su =
     (if su_entries su = [] \<and> su_sections su \<noteq> []
      then concat (map section_lines (filter (\<lambda>x. ss_items x \<noteq> []) (su_sections su)))
      else su_entries su)"

definition render_summary :: "structured_summary \<Rightarrow> string" where
  "render_summary su = su_title su @ concat (map (\<lambda>e. newline @ ''- '' @ e) (render_entries su))"

section \<open>Lemmas\<close>

lemma wire_round_trip: "result_of_wire (wire_of_result r) = r"
  by (simp add: result_of_wire_def wire_of_result_def)

text \<open>A line written before the outcome existed keeps its meaning as an error or not.\<close>

lemma old_wire_keeps_the_flag:
  "tw_outcome w = None \<Longrightarrow> result_is_error (result_of_wire w) = tw_is_error w"
  by (simp add: result_is_error_def outcome_is_error_def result_of_wire_def)

end
