(* ===== verification/Store_Log.thy ===== *)
theory Store_Log
  imports Ownership Core_Message
begin

text \<open>
  \<^verbatim>\<open>crates/localpilot-store/src/events.rs\<close>, the appends of \<^verbatim>\<open>atomic.rs\<close> and the log readers of \<^verbatim>\<open>lib.rs\<close>:
  the durable event log of a session. A file is its bytes; \<open>String\<close> is what decodes as UTF-8, so
  reading, splitting into lines and skipping blank ones are done on bytes. \<open>serde_json\<close> is
  \<open>parse\<close> (text to value), \<open>decode\<close> (value to event) and \<open>to_line\<close> (event to redacted text).
\<close>

section \<open>Bytes as text\<close>

type_synonym byte = "8 word"
type_synonym bytes = "8 word list"

definition NL :: byte where "NL = 10"
definition CR :: byte where "CR = 13"

definition utf8_cont :: "byte \<Rightarrow> bool" where
  "utf8_cont b \<longleftrightarrow> 0x80 \<le> b \<and> b \<le> 0xBF"

text \<open>The second byte of a three- or four-byte character.\<close>

definition utf8_second :: "byte \<Rightarrow> byte \<Rightarrow> bool" where
  "utf8_second b c \<longleftrightarrow>
     (if b = 0xE0 then 0xA0 \<le> c \<and> c \<le> 0xBF
      else if b = 0xED then 0x80 \<le> c \<and> c \<le> 0x9F
      else if b = 0xF0 then 0x90 \<le> c \<and> c \<le> 0xBF
      else if b = 0xF4 then 0x80 \<le> c \<and> c \<le> 0x8F
      else utf8_cont c)"

definition low6 :: "byte \<Rightarrow> nat" where
  "low6 b = unat b mod 64"

text \<open>The first character and how many more bytes it takes.\<close>

fun utf8_step :: "bytes \<Rightarrow> (nat \<times> nat) option" where
  "utf8_step [] = None"
| "utf8_step (b # bs) =
     (if b < 0x80 then Some (unat b, 0)
      else if 0xC2 \<le> b \<and> b \<le> 0xDF then
        (case bs of
           c # _ \<Rightarrow> if utf8_cont c then Some (unat b mod 32 * 64 + low6 c, 1) else None
         | _ \<Rightarrow> None)
      else if 0xE0 \<le> b \<and> b \<le> 0xEF then
        (case bs of
           c # d # _ \<Rightarrow>
             if utf8_second b c \<and> utf8_cont d
             then Some ((unat b mod 16 * 64 + low6 c) * 64 + low6 d, 2) else None
         | _ \<Rightarrow> None)
      else if 0xF0 \<le> b \<and> b \<le> 0xF4 then
        (case bs of
           c # d # e # _ \<Rightarrow>
             if utf8_second b c \<and> utf8_cont d \<and> utf8_cont e
             then Some (((unat b mod 8 * 64 + low6 c) * 64 + low6 d) * 64 + low6 e, 3) else None
         | _ \<Rightarrow> None)
      else None)"

text \<open>\<open>String::from_utf8\<close>: the characters, or nothing when the bytes are not UTF-8.\<close>

function from_utf8 :: "bytes \<Rightarrow> nat list option" where
  "from_utf8 [] = Some []"
| "from_utf8 (b # bs) =
     (case utf8_step (b # bs) of
        None \<Rightarrow> None
      | Some (c, n) \<Rightarrow> map_option ((#) c) (from_utf8 (drop n bs)))"
  by pat_completeness auto
termination by (relation "measure length") auto

text \<open>How many bytes one replacement character of \<open>from_utf8_lossy\<close> stands for.\<close>

fun utf8_bad_len :: "bytes \<Rightarrow> nat" where
  "utf8_bad_len (b # c # d # bs) =
     (if 0xE0 \<le> b \<and> b \<le> 0xEF \<and> utf8_second b c then 2
      else if 0xF0 \<le> b \<and> b \<le> 0xF4 \<and> utf8_second b c then (if utf8_cont d then 3 else 2)
      else 1)"
| "utf8_bad_len [b, c] = (if 0xE0 \<le> b \<and> b \<le> 0xF4 \<and> utf8_second b c then 2 else 1)"
| "utf8_bad_len _ = 1"

function from_utf8_lossy :: "bytes \<Rightarrow> bytes" where
  "from_utf8_lossy [] = []"
| "from_utf8_lossy (b # bs) =
     (case utf8_step (b # bs) of
        None \<Rightarrow> [0xEF, 0xBF, 0xBD] @ from_utf8_lossy (drop (utf8_bad_len (b # bs) - 1) bs)
      | Some (c, n) \<Rightarrow> b # take n bs @ from_utf8_lossy (drop n bs))"
  by pat_completeness auto
termination by (relation "measure length") auto

definition is_str :: "bytes \<Rightarrow> bool" where
  "is_str bs \<longleftrightarrow> from_utf8 bs \<noteq> None"

definition white_space :: "nat \<Rightarrow> bool" where
  "white_space c \<longleftrightarrow>
     (9 \<le> c \<and> c \<le> 13) \<or> c = 32 \<or> c = 0x85 \<or> c = 0xA0 \<or> c = 0x1680 \<or> (0x2000 \<le> c \<and> c \<le> 0x200A) \<or>
     c = 0x2028 \<or> c = 0x2029 \<or> c = 0x202F \<or> c = 0x205F \<or> c = 0x3000"

text \<open>\<open>line.trim().is_empty()\<close>\<close>

definition blank_line :: "bytes \<Rightarrow> bool" where
  "blank_line l = (case from_utf8 l of None \<Rightarrow> False | Some cs \<Rightarrow> list_all white_space cs)"

fun split_nl :: "bytes \<Rightarrow> bytes list" where
  "split_nl [] = [[]]"
| "split_nl (c # s) =
     (if c = NL then [] # split_nl s
      else (case split_nl s of [] \<Rightarrow> [[c]] | p # ps \<Rightarrow> (c # p) # ps))"

definition drop_cr :: "bytes \<Rightarrow> bytes" where
  "drop_cr l = (if l \<noteq> [] \<and> last l = CR then butlast l else l)"

definition byte_lines :: "bytes \<Rightarrow> bytes list" where
  "byte_lines s =
     (let ps = split_nl s
      in map drop_cr (butlast ps) @ (if last ps = [] then [] else [last ps]))"

section \<open>Appending a record\<close>

text \<open>
  What the operating system does during one append: \<open>written = Some k\<close> is a write that stopped after
  \<open>k\<close> bytes, by an error or because the process or the machine did.
\<close>

record append_io =
  ap_dir_fails :: bool
  ap_meta_fails :: bool
  ap_probe_fails :: bool
  ap_open_fails :: bool
  ap_written :: "nat option"

definition append_ok :: append_io where
  "append_ok = \<lparr>ap_dir_fails = False, ap_meta_fails = False, ap_probe_fails = False,
                ap_open_fails = False, ap_written = None\<rparr>"

definition ends_with_newline :: "bytes \<Rightarrow> bool" where
  "ends_with_newline f \<longleftrightarrow> last f = NL"

definition append_buffer :: "bool \<Rightarrow> bytes \<Rightarrow> bytes" where
  "append_buffer seal_torn_tail line = (if seal_torn_tail then [NL] else []) @ line @ [NL]"

definition append_disk :: "append_io \<Rightarrow> bytes \<Rightarrow> bytes option \<Rightarrow> bytes option \<times> (store_error + unit)" where
  "append_disk io line f =
     (let old = (case f of None \<Rightarrow> [] | Some bs \<Rightarrow> bs);
          probes = (\<not> ap_meta_fails io \<and> old \<noteq> []);
          buf = append_buffer (probes \<and> \<not> ends_with_newline old) line
      in if ap_dir_fails io \<or> (probes \<and> ap_probe_fails io) \<or> ap_open_fails io then (f, Inl Store_io)
         else case ap_written io of
                None \<Rightarrow> (Some (old @ buf), Inr ())
              | Some k \<Rightarrow> (Some (old @ take k buf), Inl Store_io))"

definition append_memory :: "bytes \<Rightarrow> bytes option \<Rightarrow> bytes option" where
  "append_memory line f =
     (let old = (case f of None \<Rightarrow> [] | Some bs \<Rightarrow> bs)
      in Some (old @ append_buffer (old \<noteq> [] \<and> last old \<noteq> NL) line))"

definition append_record ::
  "store_backend \<Rightarrow> append_io \<Rightarrow> bytes \<Rightarrow> bytes option \<Rightarrow> bytes option \<times> (store_error + unit)" where
  "append_record b io line f =
     (case b of Disk \<Rightarrow> append_disk io line f | Memory \<Rightarrow> (append_memory line f, Inr ()))"

text \<open>\<open>read_string\<close>: a file on disk has to be UTF-8, the memory backend replaces what is not.\<close>

definition read_string :: "store_backend \<Rightarrow> bool \<Rightarrow> bytes option \<Rightarrow> store_error + bytes option" where
  "read_string b io_fails f =
     (case b of
        Disk \<Rightarrow>
          (case f of
             None \<Rightarrow> Inr None
           | Some bs \<Rightarrow> if io_fails \<or> \<not> is_str bs then Inl Store_io else Inr (Some bs))
      | Memory \<Rightarrow> Inr (map_option from_utf8_lossy f))"

section \<open>Events\<close>

definition SESSION_EVENT_FORMAT_VERSION :: u32 where
  "SESSION_EVENT_FORMAT_VERSION = 9"

datatype open_reason = New | Resumed | Forked

datatype message_origin =
    UserInput | AssistantOrigin | ToolResultOrigin | SystemOrigin | Synthetic string | Shell

record memory_used =
  mu_id :: string
  mu_score :: int
  mu_layer :: string

record binary_material =
  bm_bytes :: u64
  bm_sha256 :: string

record binary_change =
  bc_path :: string
  bc_before :: "binary_material option"
  bc_after :: "binary_material option"

datatype session_event_kind =
    SessionOpened open_reason
  | SessionClosed
  | MessageEvent message message_origin
  | TurnStarted string
  | TurnEnded string "string option"
  | UsageReported u64 u64 u64 u64
  | PermissionDecided string string string
  | ToolStarted string string
  | ToolFinished string string bool "tool_outcome option"
  | RecoveryDiagnostic string string
  | QuotaPaused string
  | QuotaResumed
  | Compacted structured_summary
  | CompactionAttempt string string string nat nat nat nat "string option" nat
  | StepStarted nat string
  | WorkUnitInspected "string list" "binary_change list" u64 "string option"
  | StepCompleted nat "string option" u32
  | BranchClosed structured_summary
  | BranchForked event_id
  | Cancelled
  | CheckRan string string string string string
  | ToolVerified string string
  | MemoriesUsed "memory_used list"
  | ToolInputValid string string string
  | ToolInputInvalid string string string string "string list" string
  | ToolInputRetryMessageSent string string string
  | ToolInputRepaired string string string string "string list"
  | ToolRepairRejectedHighRisk string string string string
  | ToolResolution string "string option" u32 string
  | DriverIntervention string string "string option" string
  | SoftInterruptInjected string string

record session_event =
  se_v :: u32
  se_id :: event_id
  se_parent :: "event_id option"
  se_at :: u64
  se_kind :: session_event_kind

text \<open>Each arm of \<open>migrate\<close> stamps the next version; no arm changes anything else.\<close>

fun stamp_version :: "nat \<Rightarrow> json \<Rightarrow> json" where
  "stamp_version n (JObject kvs) = JObject (bt_insert ''v'' (JNumber (PosInt (of_nat n))) kvs)"
| "stamp_version n v = v"

function migrate :: "json \<Rightarrow> nat \<Rightarrow> store_error + json" where
  "migrate v version =
     (if version < unat SESSION_EVENT_FORMAT_VERSION
      then (if version \<le> 8 then migrate (stamp_version (Suc version) v) (Suc version)
            else Inl (UnsupportedFormat (of_nat version) SESSION_EVENT_FORMAT_VERSION))
      else Inr v)"
  by pat_completeness auto
termination by (relation "measure (\<lambda>(v, n). unat SESSION_EVENT_FORMAT_VERSION - n)") auto

declare migrate.simps [simp del]

definition event_version :: "json \<Rightarrow> u64" where
  "event_version v = (case Option.bind (json_get ''v'' v) as_u64 of None \<Rightarrow> 0 | Some n \<Rightarrow> n)"

definition from_line ::
  "(bytes \<Rightarrow> json option) \<Rightarrow> (json \<Rightarrow> 'e option) \<Rightarrow> bytes \<Rightarrow> store_error + 'e" where
  "from_line parse decode line =
     (case parse line of
        None \<Rightarrow> Inl Serde
      | Some v \<Rightarrow>
          let version = event_version v
          in if version < 2 ^ 32 \<and> version \<le> ucast SESSION_EVENT_FORMAT_VERSION
             then (case migrate v (unat version) of
                     Inl e \<Rightarrow> Inl e
                   | Inr m \<Rightarrow> (case decode m of None \<Rightarrow> Inl Serde | Some e \<Rightarrow> Inr e))
             else Inl (UnsupportedFormat version SESSION_EVENT_FORMAT_VERSION))"

text \<open>\<open>transcript_from_events\<close> and \<open>origin_for\<close>.\<close>

fun event_message :: "session_event_kind \<Rightarrow> message option" where
  "event_message (MessageEvent m _) = Some m"
| "event_message _ = None"

definition transcript_from_events :: "session_event list \<Rightarrow> message list" where
  "transcript_from_events events = List.map_filter (\<lambda>e. event_message (se_kind e)) events"

definition origin_for :: "message \<Rightarrow> message_origin" where
  "origin_for m =
     (case mm_synthetic (msg_metadata m) of
        Some why \<Rightarrow> Synthetic why
      | None \<Rightarrow>
          (case msg_role m of
             User \<Rightarrow> UserInput
           | Assistant \<Rightarrow> AssistantOrigin
           | Tool \<Rightarrow> ToolResultOrigin
           | System \<Rightarrow> SystemOrigin
           | UserShell \<Rightarrow> Shell))"

section \<open>Reading a log back\<close>

fun recover_lines :: "(bytes \<Rightarrow> store_error + 'e) \<Rightarrow> bytes list \<Rightarrow> store_error + 'e list \<times> nat" where
  "recover_lines rd [] = Inr ([], 0)"
| "recover_lines rd (l # ls) =
     (case rd l of
        Inr e \<Rightarrow> map_sum id (\<lambda>(es, n). (e # es, n)) (recover_lines rd ls)
      | Inl (UnsupportedFormat v k) \<Rightarrow> Inl (UnsupportedFormat v k)
      | Inl _ \<Rightarrow> map_sum id (\<lambda>(es, n). (es, Suc n)) (recover_lines rd ls))"

definition read_events_recovering ::
  "(bytes \<Rightarrow> store_error + 'e) \<Rightarrow> store_backend \<Rightarrow> bool \<Rightarrow> bytes option \<Rightarrow> store_error + 'e list \<times> nat" where
  "read_events_recovering rd b io_fails f =
     (case read_string b io_fails f of
        Inl e \<Rightarrow> Inl e
      | Inr None \<Rightarrow> Inr ([], 0)
      | Inr (Some content) \<Rightarrow>
          recover_lines rd (filter (\<lambda>l. \<not> blank_line l) (byte_lines content)))"

definition read_events ::
  "(bytes \<Rightarrow> store_error + 'e) \<Rightarrow> store_backend \<Rightarrow> bool \<Rightarrow> bytes option \<Rightarrow> store_error + 'e list" where
  "read_events rd b io_fails f = map_sum id fst (read_events_recovering rd b io_fails f)"

text \<open>A transcript skips every line it cannot read.\<close>

definition read_transcript ::
  "(bytes \<Rightarrow> 'm option) \<Rightarrow> store_backend \<Rightarrow> bool \<Rightarrow> bytes option \<Rightarrow> store_error + 'm list" where
  "read_transcript parse_message b io_fails f =
     (case read_string b io_fails f of
        Inl e \<Rightarrow> Inl e
      | Inr None \<Rightarrow> Inr []
      | Inr (Some content) \<Rightarrow>
          Inr (List.map_filter parse_message (filter (\<lambda>l. \<not> blank_line l) (byte_lines content))))"

text \<open>The write of \<open>append_event\<close>, run inside \<open>session_write\<close>.\<close>

definition new_event :: "event_id \<Rightarrow> event_id option \<Rightarrow> u64 \<Rightarrow> session_event_kind \<Rightarrow> session_event" where
  "new_event i parent now kind =
     \<lparr>se_v = SESSION_EVENT_FORMAT_VERSION, se_id = i, se_parent = parent, se_at = now, se_kind = kind\<rparr>"

definition append_event ::
  "(session_event \<Rightarrow> bytes) \<Rightarrow> store_backend \<Rightarrow> append_io \<Rightarrow> session_event \<Rightarrow> bytes option
   \<Rightarrow> bytes option \<times> (store_error + event_id)" where
  "append_event to_line b io event f =
     (let (f', r) = append_record b io (to_line event) f
      in (f', map_sum id (\<lambda>_. se_id event) r))"

text \<open>
  \<^verbatim>\<open>crates/localpilot-store/src/atomic.rs\<close>, whole-file writes: a temporary file of a name of its own beside
  the target, flushed, then renamed over it. A directory is a map from names to contents; the
  results of the system calls are arguments, and the states the directory goes through are kept, since
  the process may die in any of them.
\<close>

section \<open>Definitions\<close>

type_synonym dir = "string \<Rightarrow> bytes option"

datatype rename_result = Renamed | Permission_denied | Sharing_violation | Rename_fails

record atomic_io =
  at_windows :: bool
  at_pid :: nat
  at_dir_fails :: bool
  at_create_fails :: "nat \<Rightarrow> bool"
  at_written :: "nat option"
  at_rename :: "nat \<Rightarrow> rename_result"
  at_may_publish :: "nat \<Rightarrow> bool"
  at_remove_fails :: bool

definition TEMP_ATTEMPTS :: nat where "TEMP_ATTEMPTS = 100"
definition RENAME_ATTEMPTS :: nat where "RENAME_ATTEMPTS = 40"

definition temp_name :: "string \<Rightarrow> nat \<Rightarrow> nat \<Rightarrow> string" where
  "temp_name base pid n = ''.'' @ base @ ''.'' @ show_nat pid @ ''.'' @ show_nat n @ ''.tmp''"

text \<open>\<open>create_temp_sibling\<close>: a name in use is skipped, never overwritten; the counter moves on.\<close>

fun create_temp_sibling :: "atomic_io \<Rightarrow> string \<Rightarrow> dir \<Rightarrow> nat \<Rightarrow> nat \<Rightarrow> (store_error + string) \<times> nat" where
  "create_temp_sibling io base d 0 n = (Inl Store_io, n)"
| "create_temp_sibling io base d (Suc tries) n =
     (let tmp = temp_name base (at_pid io) n
      in if d tmp \<noteq> None then create_temp_sibling io base d tries (Suc n)
         else if at_create_fails io n then (Inl Store_io, Suc n)
         else (Inr tmp, Suc n))"

definition is_transient_rename_error :: "atomic_io \<Rightarrow> rename_result \<Rightarrow> bool" where
  "is_transient_rename_error io r \<longleftrightarrow> at_windows io \<and> (r = Permission_denied \<or> r = Sharing_violation)"

text \<open>\<open>rename_retrying\<close>: \<open>may_publish\<close> is asked before every attempt.\<close>

function rename_retrying :: "atomic_io \<Rightarrow> nat \<Rightarrow> store_error + bool" where
  "rename_retrying io attempt =
     (if \<not> at_may_publish io attempt then Inr False
      else if is_transient_rename_error io (at_rename io attempt) \<and> attempt < RENAME_ATTEMPTS
      then rename_retrying io (Suc attempt)
      else if at_rename io attempt = Renamed then Inr True
      else Inl Store_io)"
  by pat_completeness auto
termination by (relation "measure (\<lambda>(io, k). RENAME_ATTEMPTS - k)") auto

declare rename_retrying.simps [simp del]

definition drop_temp :: "atomic_io \<Rightarrow> string \<Rightarrow> dir \<Rightarrow> dir" where
  "drop_temp io tmp d = (if at_remove_fails io then d else d(tmp := None))"

text \<open>
  \<open>atomic_write_if\<close>: the states of the directory, the last one first, with the result and the counter.
\<close>

definition atomic_write_if ::
  "atomic_io \<Rightarrow> string \<Rightarrow> bytes \<Rightarrow> nat \<Rightarrow> dir \<Rightarrow> dir list \<times> (store_error + bool) \<times> nat" where
  "atomic_write_if io base bs n d =
     (if at_dir_fails io then ([d], Inl Store_io, n)
      else case create_temp_sibling io base d TEMP_ATTEMPTS n of
             (Inl e, n') \<Rightarrow> ([d], Inl e, n')
           | (Inr tmp, n') \<Rightarrow>
               let d1 = d(tmp \<mapsto> []); d2 = d(tmp \<mapsto> bs)
               in case at_written io of
                    Some k \<Rightarrow>
                      let dk = d(tmp \<mapsto> take k bs)
                      in ([drop_temp io tmp dk, dk, d1, d], Inl Store_io, n')
                  | None \<Rightarrow>
                      (case rename_retrying io 1 of
                         Inr True \<Rightarrow> ([d2(tmp := None, base \<mapsto> bs), d2, d1, d], Inr True, n')
                       | r \<Rightarrow> ([drop_temp io tmp d2, d2, d1, d], r, n')))"

definition atomic_write :: "atomic_io \<Rightarrow> string \<Rightarrow> bytes \<Rightarrow> nat \<Rightarrow> dir \<Rightarrow> dir list \<times> (store_error + unit) \<times> nat" where
  "atomic_write io base bs n d =
     (case atomic_write_if (io\<lparr>at_may_publish := \<lambda>_. True\<rparr>) base bs n d of
        (ds, r, n') \<Rightarrow> (ds, map_sum id (\<lambda>_. ()) r, n'))"

section \<open>Lemmas\<close>

lemma temp_name_other: "temp_name base pid n \<noteq> base"
  by (auto simp: temp_name_def dest: arg_cong [where f = length])

lemma create_temp_sibling_fresh:
  "create_temp_sibling io base d tries n = (Inr tmp, n') \<Longrightarrow> d tmp = None \<and> tmp \<noteq> base \<and> n < n'"
proof (induction io base d tries n rule: create_temp_sibling.induct)
  case (2 io base d tries n)
  then show ?case
    using temp_name_other [of base "at_pid io" n] by (auto simp: Let_def split: if_splits)
qed simp

text \<open>The loop over names gives up only when all of them are taken or the directory refuses.\<close>

lemma create_temp_sibling_finds:
  "tries > 0 \<Longrightarrow> d (temp_name base (at_pid io) n) = None \<Longrightarrow> \<not> at_create_fails io n \<Longrightarrow>
   create_temp_sibling io base d tries n = (Inr (temp_name base (at_pid io) n), Suc n)"
  by (cases tries) simp_all

text \<open>A rename is tried at most \<open>RENAME_ATTEMPTS\<close> times, and succeeds at the first attempt that can.\<close>

lemma rename_retrying_succeeds:
  assumes "k \<le> RENAME_ATTEMPTS" and "attempt \<le> k"
    and "\<And>i. attempt \<le> i \<Longrightarrow> i < k \<Longrightarrow> is_transient_rename_error io (at_rename io i)"
    and "\<And>i. at_may_publish io i" and "at_rename io k = Renamed"
  shows "rename_retrying io attempt = Inr True"
  using assms
proof (induction "k - attempt" arbitrary: attempt)
  case 0
  then show ?case by (simp add: rename_retrying.simps [of io attempt] is_transient_rename_error_def)
next
  case (Suc m)
  then have "is_transient_rename_error io (at_rename io attempt)" "attempt < RENAME_ATTEMPTS" by simp_all
  moreover have "rename_retrying io (Suc attempt) = Inr True" using Suc by simp
  ultimately show ?case using Suc.prems(4) by (simp add: rename_retrying.simps [of io attempt])
qed

text \<open>Refused publication changes nothing, at whatever attempt it comes.\<close>

lemma rename_retrying_refused: "rename_retrying io attempt = Inr False \<Longrightarrow> \<exists>i \<ge> attempt. \<not> at_may_publish io i"
proof (induction io attempt rule: rename_retrying.induct)
  case (1 io attempt)
  show ?case
  proof (cases "at_may_publish io attempt \<and> is_transient_rename_error io (at_rename io attempt) \<and> attempt < RENAME_ATTEMPTS")
    case True
    with 1 have "\<exists>i \<ge> Suc attempt. \<not> at_may_publish io i" by (simp add: rename_retrying.simps [of io attempt])
    then show ?thesis using Suc_leD by blast
  next
    case False
    with 1(2) show ?thesis by (auto simp: rename_retrying.simps [of io attempt] split: if_splits)
  qed
qed

end
