(* ===== verification/Session_Runtime.thy ===== *)
theory Session_Runtime
  imports Permission Session_Host Ownership_Inv Store_Log
begin

text \<open>
  A runtime's hold on its session: \<^verbatim>\<open>crates/localpilot-harness/src/session/transfer.rs\<close> and the operations of
  \<^verbatim>\<open>session.rs\<close> that open, resume, fork, close, freeze and hand over a session or change what moves with it.
  The record has the fields these operations read or write; the conversation, the work-unit bookkeeping and
  the scratch directory are not among them. The store's claims are called through \<open>claim_api\<close>, and what the
  store answers to a read or an append is an argument.
\<close>

section \<open>The manifest\<close>

definition TRANSFER_MANIFEST_VERSION :: u32 where
  "TRANSFER_MANIFEST_VERSION = 1"

definition TRANSFER_MANIFEST_MAX_BYTES :: nat where
  "TRANSFER_MANIFEST_MAX_BYTES = 16 * 1024"

datatype reasoning_effort = Effort_minimal | Effort_low | Effort_medium | Effort_high

record transfer_manifest =
  tm_v :: u32
  tm_session :: session_id
  tm_provider :: string
  tm_model :: string
  tm_effort :: "reasoning_effort option"
  tm_profile :: string
  tm_allowlist :: "string list"
  tm_trusted :: bool
  tm_envelope :: bool
  tm_image :: "bool option"
  tm_name :: "string option"

datatype transfer_refusal =
    TurnRunning
  | SteerQueued
  | BackgroundJobs
  | Incognito_refusal
  | NotOwned
  | Unclaimed
  | Changed
  | WrongTransfer string
  | UnsupportedManifest u64
  | ManifestTooLarge
  | Transfer_store store_error
  | Transfer_serde

text \<open>
  The JSON library as arguments: \<open>to_vec\<close> encodes a manifest, \<open>from_slice\<close> reads a value with its \<open>v\<close> as a
  number and the manifest it decodes to; \<open>sha256\<close> is the digest's hash.
\<close>

record manifest_codec =
  mc_to_vec :: "transfer_manifest \<Rightarrow> bytes option"
  mc_from_slice :: "bytes \<Rightarrow> (u64 option \<times> transfer_manifest option) option"
  mc_sha256 :: "bytes \<Rightarrow> bytes"

definition hex_digit :: "nat \<Rightarrow> char" where
  "hex_digit n = (''0123456789abcdef'') ! n"

definition hex_byte :: "8 word \<Rightarrow> string" where
  "hex_byte b = [hex_digit (unat b div 16), hex_digit (unat b mod 16)]"

definition manifest_digest :: "manifest_codec \<Rightarrow> transfer_manifest \<Rightarrow> string" where
  "manifest_digest mc m =
     concat (map hex_byte (mc_sha256 mc (case mc_to_vec mc m of None \<Rightarrow> [] | Some b \<Rightarrow> b)))"

definition manifest_encode :: "manifest_codec \<Rightarrow> transfer_manifest \<Rightarrow> transfer_refusal + bytes" where
  "manifest_encode mc m =
     (case mc_to_vec mc m of
        None \<Rightarrow> Inl Transfer_serde
      | Some b \<Rightarrow> if length b > TRANSFER_MANIFEST_MAX_BYTES then Inl ManifestTooLarge else Inr b)"

definition manifest_decode :: "manifest_codec \<Rightarrow> bytes \<Rightarrow> transfer_refusal + transfer_manifest" where
  "manifest_decode mc b =
     (if length b > TRANSFER_MANIFEST_MAX_BYTES then Inl ManifestTooLarge
      else case mc_from_slice mc b of
             None \<Rightarrow> Inl Transfer_serde
           | Some (v, m) \<Rightarrow>
               let version = (case v of None \<Rightarrow> 0 | Some n \<Rightarrow> n)
               in if version \<noteq> ucast TRANSFER_MANIFEST_VERSION then Inl (UnsupportedManifest version)
                  else (case m of None \<Rightarrow> Inl Transfer_serde | Some x \<Rightarrow> Inr x))"

fun profile_name :: "profile \<Rightarrow> string" where
  "profile_name Default = ''default''"
| "profile_name ReadOnlyProfile = ''read-only''"
| "profile_name Relaxed = ''relaxed''"
| "profile_name Bypass = ''bypass''"
| "profile_name Unrestricted = ''unrestricted''"

record frozen_transfer =
  fz_transfer :: string
  fz_tail :: "event_id option"
  fz_manifest :: transfer_manifest
  fz_digest :: string

section \<open>The runtime\<close>

datatype work_limit_mode = Automatic | Wide | VeryWide | Off_mode

record 'l session_runtime =
  rt_process :: nat
  rt_session :: session_id
  rt_store :: store_handle
  rt_claim :: "(agent_id \<times> session_claim) option"
  rt_admission :: admission
  rt_ownership_error :: "store_error option"
  rt_holder :: holder
  rt_turn_cancel :: "bool option"
  rt_turn_in_flight :: bool
  rt_incognito :: bool
  rt_engine :: "'l permission_engine"
  rt_effort :: "reasoning_effort option"
  rt_provider :: string
  rt_model :: string
  rt_registry :: "(string \<times> string option) list option"
  rt_trusted :: bool
  rt_envelope_off :: bool
  rt_granularity :: "work_limit_mode option"
  rt_suspended_granularity :: "work_limit_mode option"
  rt_image :: "bool option"
  rt_steer :: "soft_interrupt list"
  rt_background :: "bool list"
  rt_last_event :: "event_id option"

text \<open>
  The store's claims. A claim belongs to the agent that took it; dropping the value in the source is
  \<open>ca_drop\<close>. \<open>ca_idle\<close> is an agent that has nothing of the store's in hand.
\<close>

record 'w claim_api =
  ca_memory :: "'w \<Rightarrow> store_handle \<Rightarrow> bool"
  ca_process :: "'w \<Rightarrow> store_handle \<Rightarrow> nat"
  ca_idle :: "'w \<Rightarrow> agent_id \<Rightarrow> bool"
  ca_claim :: "agent_id \<Rightarrow> store_handle \<Rightarrow> session_id \<Rightarrow> holder \<Rightarrow> bool \<times> bool \<Rightarrow> 'w \<Rightarrow> 'w \<times> (store_error + session_claim option)"
  ca_release :: "agent_id \<Rightarrow> session_claim \<Rightarrow> transfer_record \<Rightarrow> bool \<Rightarrow> 'w \<Rightarrow> 'w \<times> store_error option"
  ca_drop :: "agent_id \<Rightarrow> session_claim \<Rightarrow> 'w \<Rightarrow> 'w"
  ca_end :: "nat \<Rightarrow> 'w \<Rightarrow> 'w"

definition is_owned :: "'l session_runtime \<Rightarrow> bool" where
  "is_owned rt = gate_is_owned (rt_admission rt)"

text \<open>One attempt at a claim: the agent that makes it, and which of its system calls fail.\<close>

type_synonym attempt = "agent_id \<times> bool \<times> bool"

definition claim_for ::
  "'w claim_api \<Rightarrow> attempt \<Rightarrow> session_id \<Rightarrow> 'l session_runtime \<Rightarrow> 'w \<Rightarrow> 'w \<times> (store_error + (agent_id \<times> session_claim) option)" where
  "claim_for api k s rt w =
     (case k of (a, f) \<Rightarrow>
        (case ca_claim api a (rt_store rt) s (rt_holder rt) f w of
           (w', r) \<Rightarrow> (w', map_sum id (map_option (Pair a)) r)))"

definition set_claim ::
  "'w claim_api \<Rightarrow> (agent_id \<times> session_claim) option \<Rightarrow> 'w \<times> 'l session_runtime \<Rightarrow> 'w \<times> 'l session_runtime" where
  "set_claim api c x =
     (case x of (w, rt) \<Rightarrow>
        ((case rt_claim rt of None \<Rightarrow> w | Some (a, old) \<Rightarrow> ca_drop api a old w), rt\<lparr>rt_claim := c\<rparr>))"

definition claim_fresh :: "'w claim_api \<Rightarrow> attempt \<Rightarrow> 'w \<times> 'l session_runtime \<Rightarrow> 'w \<times> 'l session_runtime" where
  "claim_fresh api k x =
     (case x of (w, rt) \<Rightarrow>
        (case claim_for api k (rt_session rt) rt w of
           (w', Inr c) \<Rightarrow>
             (case set_claim api c (w', rt) of
                (w'', rt') \<Rightarrow> (w'', rt'\<lparr>rt_ownership_error := None, rt_admission := Owned\<rparr>))
         | (w', Inl e) \<Rightarrow>
             (case set_claim api None (w', rt) of
                (w'', rt') \<Rightarrow> (w'', rt'\<lparr>rt_ownership_error := Some e, rt_admission := Lost\<rparr>))))"

definition lose_ownership :: "'l session_runtime \<Rightarrow> 'l session_runtime" where
  "lose_ownership rt =
     (let rt' = (case rt_admission rt of Released _ \<Rightarrow> rt | _ \<Rightarrow> rt\<lparr>rt_admission := Lost\<rparr>)
      in rt'\<lparr>rt_turn_cancel := map_option (\<lambda>_. True) (rt_turn_cancel rt')\<rparr>)"

fun owned_elsewhere :: "store_error \<Rightarrow> bool" where
  "owned_elsewhere (OwnershipLost _) = True"
| "owned_elsewhere (SessionBusy _ _) = True"
| "owned_elsewhere _ = False"

definition record_event :: "store_error + event_id \<Rightarrow> 'l session_runtime \<Rightarrow> 'l session_runtime" where
  "record_event r rt =
     (if \<not> is_owned rt then rt
      else case r of
             Inr i \<Rightarrow> rt\<lparr>rt_last_event := Some i\<rparr>
           | Inl e \<Rightarrow> if owned_elsewhere e then lose_ownership rt else rt)"

definition refuse_unless_owned :: "'l session_runtime \<Rightarrow> bool" where
  "refuse_unless_owned rt \<longleftrightarrow> \<not> is_owned rt"

definition kill_all :: "'l session_runtime \<Rightarrow> 'l session_runtime" where
  "kill_all rt = rt\<lparr>rt_background := []\<rparr>"

text \<open>A runtime as it is built: it claims its fresh session, and says that it opened it.\<close>

definition runtime_new ::
  "'w claim_api \<Rightarrow> attempt \<Rightarrow> store_error + event_id \<Rightarrow> 'w \<times> 'l session_runtime \<Rightarrow> 'w \<times> 'l session_runtime" where
  "runtime_new api k opened x = map_prod id (record_event opened) (claim_fresh api k x)"

definition close_session ::
  "'w claim_api \<Rightarrow> store_error + event_id \<Rightarrow> 'w \<times> 'l session_runtime \<Rightarrow> 'w \<times> 'l session_runtime" where
  "close_session api closed x =
     (case x of (w, rt) \<Rightarrow>
        (case rt_admission rt of
           Owned \<Rightarrow> set_claim api None (w, (record_event closed (kill_all rt))\<lparr>rt_admission := Closed\<rparr>)
         | Preparing _ \<Rightarrow> (w, rt)
         | _ \<Rightarrow> set_claim api None (w, rt)))"

definition start_new_session ::
  "'w claim_api \<Rightarrow> attempt \<Rightarrow> session_id \<Rightarrow> store_error + event_id \<Rightarrow> 'w \<times> 'l session_runtime \<Rightarrow> ('w \<times> 'l session_runtime) \<times> bool" where
  "start_new_session api k next opened x =
     (case x of (w, rt) \<Rightarrow>
        if rt_admission rt \<noteq> Closed \<and> refuse_unless_owned rt then (x, False)
        else (case claim_for api k next rt w of
                (w', Inl e) \<Rightarrow> ((w', rt), False)
              | (w', Inr c) \<Rightarrow>
                  (case set_claim api c (w', (kill_all (rt\<lparr>rt_admission := Owned\<rparr>))\<lparr>rt_session := next\<rparr>) of
                     (w'', rt') \<Rightarrow> ((w'', record_event opened (rt'\<lparr>rt_last_event := None\<rparr>)), True))))"

definition engine_set :: "'l permission_engine \<Rightarrow> 'l session_runtime \<Rightarrow> 'l session_runtime \<times> bool" where
  "engine_set e rt =
     (case gate_admit (rt_admission rt) of None \<Rightarrow> (rt, False) | Some _ \<Rightarrow> (rt\<lparr>rt_engine := e\<rparr>, True))"

definition enter_incognito ::
  "'w claim_api \<Rightarrow> store_handle \<Rightarrow> attempt \<Rightarrow> session_id \<Rightarrow> store_error + event_id \<Rightarrow> 'w \<times> 'l session_runtime \<Rightarrow> ('w \<times> 'l session_runtime) \<times> bool" where
  "enter_incognito api ephemeral k next opened x =
     (case x of (w, rt) \<Rightarrow>
        if refuse_unless_owned rt \<or> rt_incognito rt then (x, False)
        else (case set_claim api None (w, rt\<lparr>rt_incognito := True\<rparr>) of
                (w', rt') \<Rightarrow>
                  let rt2 = rt'\<lparr>rt_store := ephemeral\<rparr>
                  in start_new_session api k next opened (w', fst (engine_set (with_incognito (rt_engine rt2) True) rt2))))"

definition exit_incognito ::
  "'w claim_api \<Rightarrow> store_handle \<Rightarrow> attempt \<Rightarrow> session_id \<Rightarrow> store_error + event_id \<Rightarrow> 'w \<times> 'l session_runtime \<Rightarrow> ('w \<times> 'l session_runtime) \<times> bool" where
  "exit_incognito api opened_store k next opened x =
     (case x of (w, rt) \<Rightarrow>
        if refuse_unless_owned rt \<or> \<not> rt_incognito rt then (x, False)
        else
          let rt1 = rt\<lparr>rt_incognito := False, rt_store := opened_store\<rparr>
          in start_new_session api k next opened (w, fst (engine_set (with_incognito (rt_engine rt1) False) rt1)))"

text \<open>
  \<open>load_session\<close>: the claim comes first and the log second, so a log that cannot be read drops the claim
  and leaves the runtime as it was. \<open>events\<close> is the read's answer, down to the last event.
\<close>

fun is_preparing :: "admission \<Rightarrow> bool" where
  "is_preparing (Preparing _) = True"
| "is_preparing _ = False"

definition owned_already :: "session_id \<Rightarrow> 'l session_runtime \<Rightarrow> bool" where
  "owned_already s rt \<longleftrightarrow>
     is_owned rt \<and> (case rt_claim rt of None \<Rightarrow> False | Some (a, c) \<Rightarrow> cl_session c = s)"

definition settle_loaded :: "session_id \<Rightarrow> event_id option \<Rightarrow> store_error + event_id \<Rightarrow> 'l session_runtime \<Rightarrow> 'l session_runtime" where
  "settle_loaded s i opened rt = record_event opened ((kill_all (rt\<lparr>rt_session := s\<rparr>))\<lparr>rt_last_event := i\<rparr>)"

definition load_session ::
  "'w claim_api \<Rightarrow> attempt \<Rightarrow> session_id \<Rightarrow> store_error + event_id option \<Rightarrow> store_error + event_id \<Rightarrow>
   'w \<times> 'l session_runtime \<Rightarrow> ('w \<times> 'l session_runtime) \<times> store_error option" where
  "load_session api k s events opened x =
     (case x of (w, rt) \<Rightarrow>
        if is_preparing (rt_admission rt) then (x, Some (OwnershipLost (rt_session rt)))
        else if owned_already s rt
        then (case events of Inl e \<Rightarrow> (x, Some e) | Inr i \<Rightarrow> ((w, settle_loaded s i opened rt), None))
        else
          (case claim_for api k s rt w of
             (w', Inl e) \<Rightarrow> ((w', rt), Some e)
           | (w', Inr c) \<Rightarrow>
               (case events of
                  Inl e \<Rightarrow> (((case c of None \<Rightarrow> w' | Some (a, c') \<Rightarrow> ca_drop api a c' w'), rt), Some e)
                | Inr i \<Rightarrow>
                    (case set_claim api c (w', rt) of
                       (w'', rt') \<Rightarrow>
                         ((w'', settle_loaded s i opened (rt'\<lparr>rt_admission := Owned, rt_ownership_error := None\<rparr>)), None)))))"

text \<open>
  The history a fork writes again: a message that cannot be written ends it with that error, in the new session.
\<close>

fun fork_history :: "(store_error option \<times> (store_error + event_id)) list \<Rightarrow> 'l session_runtime \<Rightarrow> 'l session_runtime \<times> store_error option" where
  "fork_history [] rt = (rt, None)"
| "fork_history ((Some e, _) # ms) rt = (rt, Some e)"
| "fork_history ((None, r) # ms) rt = fork_history ms (record_event r rt)"

definition fork_session ::
  "'w claim_api \<Rightarrow> attempt \<Rightarrow> session_id \<Rightarrow> bool \<Rightarrow> store_error + event_id \<Rightarrow> store_error + event_id \<Rightarrow>
   (store_error option \<times> (store_error + event_id)) list \<Rightarrow> 'w \<times> 'l session_runtime \<Rightarrow> ('w \<times> 'l session_runtime) \<times> (store_error + session_id)" where
  "fork_session api k next mark_fork opened forked history x =
     (case x of (w, rt) \<Rightarrow>
        if \<not> is_owned rt then (x, Inl (OwnershipLost (rt_session rt)))
        else (case claim_for api k next rt w of
                (w', Inl e) \<Rightarrow> ((w', rt), Inl e)
              | (w', Inr c) \<Rightarrow>
                  (case set_claim api c (w', rt\<lparr>rt_session := next\<rparr>) of
                     (w'', rt1) \<Rightarrow>
                       let fork_point = rt_last_event rt;
                           rt2 = record_event opened ((kill_all rt1)\<lparr>rt_last_event := None\<rparr>);
                           rt3 = (if mark_fork \<and> fork_point \<noteq> None then record_event forked rt2 else rt2)
                       in (case fork_history history rt3 of
                             (rt4, Some e) \<Rightarrow> ((w'', rt4), Inl e)
                           | (rt4, None) \<Rightarrow> ((w'', rt4), Inr (rt_session rt4))))))"

section \<open>Freezing and handing over\<close>

definition envelope_enabled :: "'l session_runtime \<Rightarrow> bool" where
  "envelope_enabled rt \<longleftrightarrow>
     \<not> rt_envelope_off rt \<and> (case rt_granularity rt of None \<Rightarrow> True | Some m \<Rightarrow> m \<noteq> Off_mode)"

definition idle_refusal :: "'w claim_api \<Rightarrow> 'w \<Rightarrow> 'l session_runtime \<Rightarrow> transfer_refusal option" where
  "idle_refusal api w rt =
     (if rt_turn_in_flight rt then Some TurnRunning
      else if rt_incognito rt \<or> ca_memory api w (rt_store rt) then Some Incognito_refusal
      else if rt_steer rt \<noteq> [] then Some SteerQueued
      else if list_ex id (rt_background rt) then Some BackgroundJobs
      else None)"

text \<open>\<open>name\<close> is what the session list says of this session.\<close>

definition transfer_manifest_of :: "string option \<Rightarrow> 'l session_runtime \<Rightarrow> transfer_manifest" where
  "transfer_manifest_of name rt =
     \<lparr>tm_v = TRANSFER_MANIFEST_VERSION, tm_session = rt_session rt, tm_provider = rt_provider rt,
      tm_model = rt_model rt, tm_effort = rt_effort rt, tm_profile = profile_name (profile_of (rt_engine rt)),
      tm_allowlist = allowlist (rt_engine rt), tm_trusted = rt_trusted rt, tm_envelope = envelope_enabled rt,
      tm_image = rt_image rt, tm_name = name\<rparr>"

definition prepare_transfer ::
  "'w claim_api \<Rightarrow> manifest_codec \<Rightarrow> string option \<Rightarrow> string \<Rightarrow> 'w \<times> 'l session_runtime \<Rightarrow> 'l session_runtime \<times> (transfer_refusal + frozen_transfer)" where
  "prepare_transfer api mc name transfer x =
     (case x of (w, rt) \<Rightarrow>
        if rt_admission rt \<noteq> Owned then (rt, Inl NotOwned)
        else if rt_claim rt = None then (rt, Inl Unclaimed)
        else case idle_refusal api w rt of
               Some r \<Rightarrow> (rt, Inl r)
             | None \<Rightarrow>
                 let m = transfer_manifest_of name rt
                 in (case manifest_encode mc m of
                       Inl r \<Rightarrow> (rt, Inl r)
                     | Inr _ \<Rightarrow>
                         (rt\<lparr>rt_admission := Preparing transfer\<rparr>,
                          Inr \<lparr>fz_transfer = transfer, fz_tail = rt_last_event rt, fz_manifest = m,
                               fz_digest = manifest_digest mc m\<rparr>)))"

definition abort_transfer :: "string \<Rightarrow> 'l session_runtime \<Rightarrow> 'l session_runtime \<times> bool" where
  "abort_transfer transfer rt =
     (if rt_admission rt = Preparing transfer then (rt\<lparr>rt_admission := Owned\<rparr>, True) else (rt, False))"

definition transfer_record_of :: "frozen_transfer \<Rightarrow> transfer_record" where
  "transfer_record_of fz =
     \<lparr>tr_id = fz_transfer fz, tr_state = Transfer_released, tr_tail = fz_tail fz, tr_digest = fz_digest fz\<rparr>"

definition unchanged_since :: "'w claim_api \<Rightarrow> manifest_codec \<Rightarrow> string option \<Rightarrow> frozen_transfer \<Rightarrow> 'w \<Rightarrow> 'l session_runtime \<Rightarrow> bool" where
  "unchanged_since api mc name fz w rt \<longleftrightarrow>
     idle_refusal api w rt = None \<and> rt_last_event rt = fz_tail fz \<and>
     manifest_digest mc (transfer_manifest_of name rt) = fz_digest fz"

definition release_transfer ::
  "'w claim_api \<Rightarrow> manifest_codec \<Rightarrow> string option \<Rightarrow> bool \<Rightarrow> frozen_transfer \<Rightarrow> 'w \<times> 'l session_runtime \<Rightarrow>
   ('w \<times> 'l session_runtime) \<times> transfer_refusal option" where
  "release_transfer api mc name io_fails fz x =
     (case x of (w, rt) \<Rightarrow>
        if rt_admission rt \<noteq> Preparing (fz_transfer fz) then (x, Some (WrongTransfer (fz_transfer fz)))
        else if \<not> unchanged_since api mc name fz w rt then ((w, rt\<lparr>rt_admission := Owned\<rparr>), Some Changed)
        else case rt_claim rt of
               None \<Rightarrow> ((w, rt\<lparr>rt_admission := Owned\<rparr>), Some Unclaimed)
             | Some (a, c) \<Rightarrow>
                 (case ca_release api a c (transfer_record_of fz) io_fails w of
                    (w', None) \<Rightarrow> ((w', rt\<lparr>rt_claim := None, rt_admission := Released (fz_transfer fz)\<rparr>), None)
                  | (w', Some e) \<Rightarrow> ((w', rt\<lparr>rt_admission := Owned\<rparr>), Some (Transfer_store e))))"

section \<open>What moves with the session\<close>

definition set_permission_profile :: "profile \<Rightarrow> string list \<Rightarrow> 'l session_runtime \<Rightarrow> 'l session_runtime" where
  "set_permission_profile p al rt =
     (if \<not> is_owned rt then rt else fst (engine_set (with_profile (rt_engine rt) p al) rt))"

definition effort_set :: "reasoning_effort option \<Rightarrow> 'l session_runtime \<Rightarrow> 'l session_runtime \<times> bool" where
  "effort_set e rt =
     (case gate_admit (rt_admission rt) of None \<Rightarrow> (rt, False) | Some _ \<Rightarrow> (rt\<lparr>rt_effort := e\<rparr>, True))"

text \<open>The steering queue shares the runtime's gate.\<close>

definition rt_push_interrupt :: "soft_interrupt \<Rightarrow> 'l session_runtime \<Rightarrow> 'l session_runtime \<times> bool" where
  "rt_push_interrupt i rt =
     (case push_interrupt \<lparr>sq_queue = rt_steer rt, sq_gate = rt_admission rt\<rparr> i of
        (q, admitted) \<Rightarrow> (rt\<lparr>rt_steer := sq_queue q\<rparr>, admitted))"

datatype switch_error = TurnInFlight | UnknownProvider string | Switch_not_owner

definition set_active_provider :: "string \<Rightarrow> 'l session_runtime \<Rightarrow> 'l session_runtime \<times> (switch_error + string \<times> string \<times> string option)" where
  "set_active_provider i rt =
     (if \<not> is_owned rt then (rt, Inl Switch_not_owner)
      else if rt_turn_in_flight rt then (rt, Inl TurnInFlight)
      else case rt_registry rt of
             None \<Rightarrow> (rt, Inl (UnknownProvider i))
           | Some reg \<Rightarrow>
               (case map_of reg i of
                  None \<Rightarrow> (rt, Inl (UnknownProvider i))
                | Some d \<Rightarrow>
                    let (model, warning) =
                          (case d of
                             Some m \<Rightarrow> (m, None)
                           | None \<Rightarrow>
                               (rt_model rt,
                                Some (''provider '' @ [CHR 39] @ i @ [CHR 39] @
                                      '' has no configured default model; keeping '' @ [CHR 39] @ rt_model rt @ [CHR 39])))
                    in (rt\<lparr>rt_provider := i, rt_model := model\<rparr>, Inr (i, model, warning))))"

definition set_active_model :: "string \<Rightarrow> 'l session_runtime \<Rightarrow> 'l session_runtime \<times> switch_error option" where
  "set_active_model m rt =
     (if \<not> is_owned rt then (rt, Some Switch_not_owner)
      else if rt_turn_in_flight rt then (rt, Some TurnInFlight)
      else (rt\<lparr>rt_model := m\<rparr>, None))"

definition set_registry :: "(string \<times> string option) list \<Rightarrow> 'l session_runtime \<Rightarrow> 'l session_runtime" where
  "set_registry reg rt = (if refuse_unless_owned rt then rt else rt\<lparr>rt_registry := Some reg\<rparr>)"

definition replace_registry :: "(string \<times> string option) list \<Rightarrow> 'l session_runtime \<Rightarrow> 'l session_runtime \<times> switch_error option" where
  "replace_registry reg rt =
     (if \<not> is_owned rt then (rt, Some Switch_not_owner)
      else if rt_turn_in_flight rt then (rt, Some TurnInFlight)
      else (rt\<lparr>rt_registry := Some reg\<rparr>, None))"

definition set_image_support_override :: "bool option \<Rightarrow> 'l session_runtime \<Rightarrow> 'l session_runtime" where
  "set_image_support_override b rt = (if \<not> is_owned rt then rt else rt\<lparr>rt_image := b\<rparr>)"

text \<open>The kind of host that the next claim names; nothing gates it.\<close>

definition set_owner_kind :: "holder_kind \<Rightarrow> 'l session_runtime \<Rightarrow> 'l session_runtime" where
  "set_owner_kind k rt = rt\<lparr>rt_holder := (rt_holder rt)\<lparr>hd_kind := k\<rparr>\<rparr>"

definition set_trusted :: "bool \<Rightarrow> 'l session_runtime \<Rightarrow> 'l session_runtime" where
  "set_trusted b rt = (if \<not> is_owned rt then rt else rt\<lparr>rt_trusted := b\<rparr>)"

definition set_envelope_enabled :: "bool \<Rightarrow> 'l session_runtime \<Rightarrow> 'l session_runtime" where
  "set_envelope_enabled enabled rt =
     (if \<not> is_owned rt then rt
      else if enabled \<noteq> rt_envelope_off rt then rt
      else
        let rt1 = rt\<lparr>rt_envelope_off := \<not> enabled\<rparr>
        in if enabled
           then (case rt_suspended_granularity rt1 of
                   None \<Rightarrow> rt1
                 | Some caps \<Rightarrow> rt1\<lparr>rt_suspended_granularity := None, rt_granularity := Some caps\<rparr>)
           else rt1\<lparr>rt_suspended_granularity := rt_granularity rt1, rt_granularity := None\<rparr>)"

text \<open>A turn's outer frame; what runs inside it is the turn loop's, which is not modelled.\<close>

definition turn_begin :: "'l session_runtime \<Rightarrow> 'l session_runtime \<times> bool" where
  "turn_begin rt =
     (if \<not> is_owned rt then (rt, False)
      else (rt\<lparr>rt_turn_cancel := Some False, rt_turn_in_flight := True\<rparr>, True))"

definition turn_end :: "'l session_runtime \<Rightarrow> 'l session_runtime \<times> bool" where
  "turn_end rt =
     (let rt' = rt\<lparr>rt_turn_in_flight := False, rt_turn_cancel := None\<rparr>
      in (rt', rt_admission rt' = Lost))"

end
