(* ===== verification/Session_System.thy ===== *)
theory Session_System
  imports Session_Runtime
begin

text \<open>
  Any number of runtimes in any number of processes over one store: a step lets one runtime run one of its
  operations, builds or drops a runtime, or ends a process. What the store's claims promise is the locale
  \<open>claim_store\<close>; the lemmas on the runtimes are proved from it alone, and the store's own model is an instance.
\<close>

section \<open>Operations and steps\<close>

datatype rt_op =
    Op_record "store_error + event_id"
  | Op_close "store_error + event_id"
  | Op_start_new attempt session_id "store_error + event_id"
  | Op_enter_incognito store_handle attempt session_id "store_error + event_id"
  | Op_exit_incognito store_handle attempt session_id "store_error + event_id"
  | Op_load attempt session_id "store_error + event_id option" "store_error + event_id"
  | Op_fork attempt session_id bool "store_error + event_id" "store_error + event_id"
      "(store_error option \<times> (store_error + event_id)) list"
  | Op_prepare "string option" string
  | Op_abort string
  | Op_release "string option" bool frozen_transfer
  | Op_profile profile "string list"
  | Op_effort "reasoning_effort option"
  | Op_steer soft_interrupt
  | Op_provider string
  | Op_model string
  | Op_set_registry "(string \<times> string option) list"
  | Op_replace_registry "(string \<times> string option) list"
  | Op_image "bool option"
  | Op_trusted bool
  | Op_envelope bool
  | Op_turn_begin
  | Op_turn_end
  | Op_reap nat

fun run_op :: "'w claim_api \<Rightarrow> manifest_codec \<Rightarrow> rt_op \<Rightarrow> 'w \<times> 'l session_runtime \<Rightarrow> 'w \<times> 'l session_runtime" where
  "run_op api mc (Op_record r) x = map_prod id (record_event r) x"
| "run_op api mc (Op_close r) x = close_session api r x"
| "run_op api mc (Op_start_new k s r) x = fst (start_new_session api k s r x)"
| "run_op api mc (Op_enter_incognito h k s r) x = fst (enter_incognito api h k s r x)"
| "run_op api mc (Op_exit_incognito h k s r) x = fst (exit_incognito api h k s r x)"
| "run_op api mc (Op_load k s ev r) x = fst (load_session api k s ev r x)"
| "run_op api mc (Op_fork k s m r r' hs) x = fst (fork_session api k s m r r' hs x)"
| "run_op api mc (Op_prepare nm t) x = (fst x, fst (prepare_transfer api mc nm t x))"
| "run_op api mc (Op_abort t) x = map_prod id (\<lambda>rt. fst (abort_transfer t rt)) x"
| "run_op api mc (Op_release nm f fz) x = fst (release_transfer api mc nm f fz x)"
| "run_op api mc (Op_profile p al) x = map_prod id (set_permission_profile p al) x"
| "run_op api mc (Op_effort e) x = map_prod id (\<lambda>rt. fst (effort_set e rt)) x"
| "run_op api mc (Op_steer i) x = map_prod id (\<lambda>rt. fst (rt_push_interrupt i rt)) x"
| "run_op api mc (Op_provider i) x = map_prod id (\<lambda>rt. fst (set_active_provider i rt)) x"
| "run_op api mc (Op_model m) x = map_prod id (\<lambda>rt. fst (set_active_model m rt)) x"
| "run_op api mc (Op_set_registry g) x = map_prod id (set_registry g) x"
| "run_op api mc (Op_replace_registry g) x = map_prod id (\<lambda>rt. fst (replace_registry g rt)) x"
| "run_op api mc (Op_image b) x = map_prod id (set_image_support_override b) x"
| "run_op api mc (Op_trusted b) x = map_prod id (set_trusted b) x"
| "run_op api mc (Op_envelope b) x = map_prod id (set_envelope_enabled b) x"
| "run_op api mc Op_turn_begin x = map_prod id (\<lambda>rt. fst (turn_begin rt)) x"
| "run_op api mc Op_turn_end x = map_prod id (\<lambda>rt. if rt_turn_in_flight rt then fst (turn_end rt) else rt) x"
| "run_op api mc (Op_reap i) x = map_prod id (\<lambda>rt. rt\<lparr>rt_background := (rt_background rt)[i := False]\<rparr>) x"

text \<open>The agents an operation claims with, and the stores it opens: those are new.\<close>

fun op_agents :: "rt_op \<Rightarrow> agent_id set" where
  "op_agents (Op_start_new k s r) = {fst k}"
| "op_agents (Op_enter_incognito h k s r) = {fst k}"
| "op_agents (Op_exit_incognito h k s r) = {fst k}"
| "op_agents (Op_load k s ev r) = {fst k}"
| "op_agents (Op_fork k s m r r' hs) = {fst k}"
| "op_agents _ = {}"

fun opens_store :: "'w claim_api \<Rightarrow> 'w \<Rightarrow> 'l session_runtime \<Rightarrow> rt_op \<Rightarrow> bool" where
  "opens_store api w rt (Op_enter_incognito h k s r) = (ca_memory api w h \<and> ca_process api w h = rt_process rt)"
| "opens_store api w rt (Op_exit_incognito h k s r) = (\<not> ca_memory api w h \<and> ca_process api w h = rt_process rt)"
| "opens_store api w rt _ = True"

definition op_allowed :: "'w claim_api \<Rightarrow> 'w \<Rightarrow> 'l session_runtime \<Rightarrow> rt_op \<Rightarrow> bool" where
  "op_allowed api w rt p \<longleftrightarrow> (\<forall>a \<in> op_agents p. ca_idle api w a) \<and> opens_store api w rt p"

text \<open>An exit from incognito that could not claim its new session.\<close>

fun exit_fails :: "'w claim_api \<Rightarrow> 'w \<times> 'l session_runtime \<Rightarrow> rt_op \<Rightarrow> bool" where
  "exit_fails api x (Op_exit_incognito h k s r) =
     (is_owned (snd x) \<and> rt_incognito (snd x) \<and> \<not> snd (exit_incognito api h k s r x))"
| "exit_fails api x _ = False"

record ('w, 'l) rt_system =
  sy_world :: 'w
  sy_rts :: "nat \<Rightarrow> 'l session_runtime option"

datatype 'l sys_event =
    Build nat attempt "store_error + event_id" "'l session_runtime"
  | Run nat rt_op
  | Drop_runtime nat
  | End nat

definition put_rt :: "nat \<Rightarrow> 'w \<times> 'l session_runtime \<Rightarrow> ('w, 'l) rt_system \<Rightarrow> ('w, 'l) rt_system" where
  "put_rt i x s = s\<lparr>sy_world := fst x, sy_rts := (sy_rts s)(i \<mapsto> snd x)\<rparr>"

fun sys_step :: "'w claim_api \<Rightarrow> manifest_codec \<Rightarrow> 'l sys_event \<Rightarrow> ('w, 'l) rt_system \<Rightarrow> ('w, 'l) rt_system" where
  "sys_step api mc (Build i k opened rt) s =
     (if sy_rts s i = None \<and> rt_claim rt = None \<and> ca_idle api (sy_world s) (fst k) \<and>
         ca_process api (sy_world s) (rt_store rt) = rt_process rt
      then put_rt i (runtime_new api k opened (sy_world s, rt)) s else s)"
| "sys_step api mc (Run i p) s =
     (case sy_rts s i of
        None \<Rightarrow> s
      | Some rt \<Rightarrow>
          if op_allowed api (sy_world s) rt p then put_rt i (run_op api mc p (sy_world s, rt)) s else s)"
| "sys_step api mc (Drop_runtime i) s =
     (case sy_rts s i of
        None \<Rightarrow> s
      | Some rt \<Rightarrow> s\<lparr>sy_world := fst (set_claim api None (sy_world s, rt)), sy_rts := (sy_rts s)(i := None)\<rparr>)"
| "sys_step api mc (End p) s =
     s\<lparr>sy_world := ca_end api p (sy_world s),
       sy_rts := (\<lambda>i. Option.bind (sy_rts s i) (\<lambda>rt. if rt_process rt = p then None else Some rt))\<rparr>"

text \<open>A step in which an exit from incognito fails.\<close>

fun step_strands :: "'w claim_api \<Rightarrow> 'l sys_event \<Rightarrow> ('w, 'l) rt_system \<Rightarrow> bool" where
  "step_strands api (Run i p) s = (\<exists>rt. sy_rts s i = Some rt \<and> exit_fails api (sy_world s, rt) p)"
| "step_strands api _ s = False"

fun sys_run :: "'w claim_api \<Rightarrow> manifest_codec \<Rightarrow> 'l sys_event list \<Rightarrow> ('w, 'l) rt_system \<Rightarrow> ('w, 'l) rt_system" where
  "sys_run api mc [] s = s"
| "sys_run api mc (e # es) s = sys_run api mc es (sys_step api mc e s)"

fun never_strands :: "'w claim_api \<Rightarrow> manifest_codec \<Rightarrow> 'l sys_event list \<Rightarrow> ('w, 'l) rt_system \<Rightarrow> bool" where
  "never_strands api mc [] s = True"
| "never_strands api mc (e # es) s = (\<not> step_strands api e s \<and> never_strands api mc es (sys_step api mc e s))"

definition admitted :: "'l session_runtime \<Rightarrow> bool" where
  "admitted rt \<longleftrightarrow> rt_admission rt = Owned \<or> (\<exists>t. rt_admission rt = Preparing t)"

text \<open>An operation that leaves claim, store and session alone and admits nothing new.\<close>

definition same_hold :: "'l session_runtime \<Rightarrow> 'l session_runtime \<Rightarrow> bool" where
  "same_hold rt rt' \<longleftrightarrow>
     rt_claim rt' = rt_claim rt \<and> rt_store rt' = rt_store rt \<and> rt_session rt' = rt_session rt \<and>
     rt_process rt' = rt_process rt \<and> (admitted rt' \<longrightarrow> admitted rt)"

lemma same_hold_refl [simp]: "same_hold rt rt"
  by (simp add: same_hold_def)

lemma same_hold_trans: "same_hold a b \<Longrightarrow> same_hold b c \<Longrightarrow> same_hold a c"
  by (simp add: same_hold_def)

lemma record_event_same [simp]: "same_hold rt (record_event r rt)"
  by (cases r) (auto simp: record_event_def lose_ownership_def Let_def same_hold_def admitted_def is_owned_def split: admission.splits)

lemma fork_history_same: "same_hold rt (fst (fork_history ms rt))"
  by (induction ms rt rule: fork_history.induct) (auto intro: same_hold_trans [OF record_event_same])

lemma setters_same [simp]:
  "same_hold rt (set_permission_profile p al rt)" "same_hold rt (fst (effort_set e rt))"
  "same_hold rt (fst (rt_push_interrupt i rt))" "same_hold rt (fst (set_active_provider n rt))"
  "same_hold rt (fst (set_active_model m rt))" "same_hold rt (set_registry g rt)"
  "same_hold rt (fst (replace_registry g rt))" "same_hold rt (set_image_support_override b rt)"
  "same_hold rt (set_trusted t rt)" "same_hold rt (set_envelope_enabled t rt)"
  "same_hold rt (fst (turn_begin rt))" "same_hold rt (fst (turn_end rt))" "same_hold rt (fst (engine_set en rt))"
  "same_hold rt (rt\<lparr>rt_background := bs\<rparr>)" "same_hold rt (fst (abort_transfer x rt))" "same_hold rt (fst (prepare_transfer api mc nm x (w, rt)))"
  by (auto simp: same_hold_def admitted_def set_permission_profile_def engine_set_def effort_set_def rt_push_interrupt_def
      set_active_provider_def set_active_model_def set_registry_def replace_registry_def set_image_support_override_def
      set_trusted_def set_envelope_enabled_def turn_begin_def turn_end_def abort_transfer_def prepare_transfer_def Let_def
      split: option.splits sum.splits prod.splits)

section \<open>A frozen session\<close>

text \<open>The operations that end a freeze; nothing else a runtime does has any effect on it.\<close>

fun ends_freeze :: "rt_op \<Rightarrow> bool" where
  "ends_freeze (Op_abort t) = True"
| "ends_freeze (Op_release nm f fz) = True"
| "ends_freeze _ = False"

fun spares :: "nat \<Rightarrow> nat \<Rightarrow> 'l sys_event \<Rightarrow> bool" where
  "spares i p (Run j q) \<longleftrightarrow> (j = i \<longrightarrow> \<not> ends_freeze q)"
| "spares i p (Drop_runtime j) \<longleftrightarrow> j \<noteq> i"
| "spares i p (End q) \<longleftrightarrow> q \<noteq> p"
| "spares i p (Build j k r rt) \<longleftrightarrow> True"

definition frozen :: "'l session_runtime \<Rightarrow> bool" where
  "frozen rt \<longleftrightarrow>
     is_preparing (rt_admission rt) \<and> \<not> rt_turn_in_flight rt \<and> \<not> list_ex id (rt_background rt)"

lemma list_update_False: "\<not> list_ex id bs \<Longrightarrow> bs[i := False] = bs"
  by (induction bs arbitrary: i) (auto split: nat.split)

lemma frozen_op:
  assumes "frozen rt" "\<not> ends_freeze p"
  shows "run_op api mc p (w, rt) = (w, rt)"
proof -
  from assms(1) obtain t where t: "rt_admission rt = Preparing t"
    by (cases "rt_admission rt") (auto simp: frozen_def)
  then have not_owned: "\<not> is_owned rt" by (simp add: is_owned_def)
  have bg: "(rt_background rt)[i := False] = rt_background rt" for i
    using assms(1) by (simp add: frozen_def list_update_False)
  have turn: "\<not> rt_turn_in_flight rt" using assms(1) by (simp add: frozen_def)
  show ?thesis
    using assms(2) t not_owned turn bg
    by (cases p) (simp_all add: record_event_def close_session_def start_new_session_def enter_incognito_def
        exit_incognito_def load_session_def fork_session_def prepare_transfer_def set_permission_profile_def effort_set_def
        rt_push_interrupt_def push_interrupt_def gate_admit_def set_active_provider_def set_active_model_def set_registry_def
        replace_registry_def set_image_support_override_def set_trusted_def set_envelope_enabled_def turn_begin_def
        refuse_unless_owned_def)
qed

lemma frozen_step:
  assumes "frozen rt" "sy_rts s i = Some rt" "spares i (rt_process rt) e"
  shows "sy_rts (sys_step api mc e s) i = Some rt"
proof (cases e)
  case (Run j q)
  with assms frozen_op [OF assms(1), of q api mc "sy_world s"] show ?thesis
    by (cases "j = i") (auto simp: put_rt_def split: option.splits)
qed (use assms in \<open>auto simp: put_rt_def split: option.splits\<close>)

lemma frozen_run:
  "frozen rt \<Longrightarrow> sy_rts s i = Some rt \<Longrightarrow> \<forall>e \<in> set es. spares i (rt_process rt) e \<Longrightarrow> sy_rts (sys_run api mc es s) i = Some rt"
  by (induction es arbitrary: s) (simp_all add: frozen_step)

section \<open>What the claims promise\<close>

locale claim_store =
  fixes api :: "'w claim_api"
    and ok :: "'w \<Rightarrow> bool"
    and holds :: "'w \<Rightarrow> agent_id \<Rightarrow> session_claim \<Rightarrow> bool"
  assumes claim_law: "ok w \<Longrightarrow> ca_idle api w a \<Longrightarrow> ca_claim api a h s who f w = (w', r) \<Longrightarrow>
      ok w' \<and> (\<forall>b c. b \<noteq> a \<longrightarrow> holds w' b c = holds w b c) \<and>
      (case r of
         Inr (Some c) \<Rightarrow> \<not> ca_memory api w h \<and> holds w' a c \<and> cl_session c = s \<and> cl_table c = h
       | Inr None \<Rightarrow> ca_memory api w h
       | Inl _ \<Rightarrow> True) \<and>
      ca_memory api w' = ca_memory api w \<and> ca_process api w' = ca_process api w"
    and release_law: "ok w \<Longrightarrow> holds w a c \<Longrightarrow> ca_release api a c t g w = (w', e) \<Longrightarrow>
      ok w' \<and> (\<forall>b c. b \<noteq> a \<longrightarrow> holds w' b c = holds w b c) \<and> (e \<noteq> None \<longrightarrow> holds w' a c) \<and>
      ca_memory api w' = ca_memory api w \<and> ca_process api w' = ca_process api w"
    and drop_law: "ok w \<Longrightarrow> holds w a c \<Longrightarrow> ca_drop api a c w = w' \<Longrightarrow>
      ok w' \<and> (\<forall>b c. b \<noteq> a \<longrightarrow> holds w' b c = holds w b c) \<and> (\<forall>b. ca_idle api w b \<longrightarrow> ca_idle api w' b) \<and>
      ca_memory api w' = ca_memory api w \<and> ca_process api w' = ca_process api w"
    and end_law: "ok w \<Longrightarrow> ca_end api p w = w' \<Longrightarrow>
      ok w' \<and> (\<forall>a c. holds w a c \<longrightarrow> ca_process api w (cl_table c) \<noteq> p \<longrightarrow> holds w' a c) \<and>
      ca_memory api w' = ca_memory api w \<and> ca_process api w' = ca_process api w"
    and exclusive: "ok w \<Longrightarrow> holds w a c \<Longrightarrow> holds w b c' \<Longrightarrow> cl_session c = cl_session c' \<Longrightarrow> a = b"
    and idle_holds_not: "ca_idle api w a \<Longrightarrow> \<not> holds w a c"
begin

definition rt_tied :: "'w \<Rightarrow> 'l session_runtime \<Rightarrow> bool" where
  "rt_tied w rt \<longleftrightarrow>
     ca_process api w (rt_store rt) = rt_process rt \<and>
     (\<forall>a c. rt_claim rt = Some (a, c) \<longrightarrow> holds w a c \<and> ca_process api w (cl_table c) = rt_process rt)"

definition rt_ok :: "'w \<Rightarrow> 'l session_runtime \<Rightarrow> bool" where
  "rt_ok w rt \<longleftrightarrow>
     rt_tied w rt \<and>
     (admitted rt \<longrightarrow> ca_memory api w (rt_store rt) \<or> (\<exists>a c. rt_claim rt = Some (a, c) \<and> cl_session c = rt_session rt))"

definition rt_agents :: "'l session_runtime \<Rightarrow> agent_id set" where
  "rt_agents rt = fst ` set_option (rt_claim rt)"

text \<open>What one operation may do to the store besides what it does to its own claim.\<close>

definition keeps :: "agent_id set \<Rightarrow> 'w \<Rightarrow> 'w \<Rightarrow> bool" where
  "keeps A w w' \<longleftrightarrow>
     ok w' \<and> (\<forall>b c. b \<notin> A \<longrightarrow> holds w' b c = holds w b c) \<and>
     ca_memory api w' = ca_memory api w \<and> ca_process api w' = ca_process api w"

definition goes :: "agent_id set \<Rightarrow> 'w \<times> 'l session_runtime \<Rightarrow> 'w \<times> 'l session_runtime \<Rightarrow> bool" where
  "goes A x y \<longleftrightarrow>
     keeps (A \<union> rt_agents (snd x)) (fst x) (fst y) \<and> rt_ok (fst y) (snd y) \<and>
     rt_process (snd y) = rt_process (snd x) \<and> rt_agents (snd y) \<subseteq> A \<union> rt_agents (snd x)"

lemma keeps_refl [simp]: "keeps A w w \<longleftrightarrow> ok w"
  by (simp add: keeps_def)

lemma keeps_trans: "keeps A w w1 \<Longrightarrow> keeps A w1 w2 \<Longrightarrow> keeps A w w2"
  by (auto simp: keeps_def)

lemma keeps_mono: "keeps A w w' \<Longrightarrow> A \<subseteq> B \<Longrightarrow> keeps B w w'"
  by (auto simp: keeps_def)

lemma goes_then_same: "goes A x (w, rt) \<Longrightarrow> same_hold rt rt' \<Longrightarrow> goes A x (w, rt')"
  by (auto simp: goes_def rt_ok_def rt_tied_def rt_agents_def same_hold_def)

lemma goes_refl: "ok w \<Longrightarrow> rt_ok w rt \<Longrightarrow> goes A (w, rt) (w, rt)"
  by (simp add: goes_def)

lemmas goes_same = goes_then_same [OF goes_refl]

lemma claim_for_keeps:
  assumes "ok w" "ca_idle api w (fst k)" "claim_for api k s rt w = (w', r)"
  shows "keeps {fst k} w w'"
    and "r = Inr None \<Longrightarrow> ca_memory api w (rt_store rt)"
    and "r = Inr (Some (a, c)) \<Longrightarrow> a = fst k \<and> holds w' a c \<and> cl_session c = s \<and> cl_table c = rt_store rt"
proof -
  obtain b f where k: "k = (b, f)" by (cases k)
  obtain w1 r1 where c1: "ca_claim api b (rt_store rt) s (rt_holder rt) f w = (w1, r1)" by fastforce
  with assms(3) k have eq: "w' = w1" "r = map_sum id (map_option (Pair b)) r1" by (simp_all add: claim_for_def)
  note law = claim_law [OF assms(1) assms(2) [unfolded k fst_conv] c1]
  show "keeps {fst k} w w'" using law by (simp add: keeps_def eq k)
  show "ca_memory api w (rt_store rt)" if "r = Inr None"
    using that law by (cases r1) (auto simp: eq split: option.splits)
  show "a = fst k \<and> holds w' a c \<and> cl_session c = s \<and> cl_table c = rt_store rt" if "r = Inr (Some (a, c))"
    using that law by (cases r1) (auto simp: eq k split: option.splits)
qed

lemma set_claim_keeps:
  assumes "ok w" "\<And>a c. rt_claim rt = Some (a, c) \<Longrightarrow> holds w a c" "set_claim api x (w, rt) = (w', rt')"
  shows "keeps (rt_agents rt) w w'" "rt' = rt\<lparr>rt_claim := x\<rparr>"
  using assms drop_law [OF assms(1)]
  by (auto simp: set_claim_def keeps_def rt_agents_def split: option.splits)

text \<open>A claim is taken and put in place of the old one.\<close>

lemma fresh_agent: "rt_tied w rt \<Longrightarrow> ca_idle api w a \<Longrightarrow> a \<notin> rt_agents rt"
  using idle_holds_not by (auto simp: rt_tied_def rt_agents_def)

lemma tied_keeps: "rt_tied w rt \<Longrightarrow> keeps A w w' \<Longrightarrow> A \<inter> rt_agents rt = {} \<Longrightarrow> rt_tied w' rt"
  by (cases "rt_claim rt") (auto simp: rt_tied_def keeps_def rt_agents_def)

lemma ok_keeps: "rt_ok w rt \<Longrightarrow> keeps A w w' \<Longrightarrow> A \<inter> rt_agents rt = {} \<Longrightarrow> rt_ok w' rt"
  by (auto simp: rt_ok_def keeps_def intro: tied_keeps [unfolded keeps_def])

lemma claim_replaces:
  fixes rt rt1 :: "'l session_runtime"
  assumes ok: "ok w" "rt_tied w rt" and idle: "ca_idle api w (fst k)"
    and c: "claim_for api k s rt w = (w1, Inr c)"
    and st: "set_claim api c (w1, rt1) = (w2, rt2)" "rt_claim rt1 = rt_claim rt"
    and rt3: "rt_claim rt3 = c" "rt_store rt3 = rt_store rt" "rt_process rt3 = rt_process rt" "rt_session rt3 = s"
  shows "goes {fst k} (w, rt) (w2, rt3)"
proof -
  note k1 = claim_for_keeps [OF ok(1) idle c]
  have fresh: "fst k \<notin> rt_agents rt" by (rule fresh_agent [OF ok(2) idle])
  have tied: "rt_tied w1 rt" by (rule tied_keeps [OF ok(2) k1(1)]) (simp add: fresh)
  have ok1: "ok w1" using k1(1) by (simp add: keeps_def)
  have k2: "keeps (rt_agents rt) w1 w2"
    using set_claim_keeps(1) [OF ok1 _ st(1)] tied st(2) by (simp add: rt_tied_def rt_agents_def)
  have keep: "keeps ({fst k} \<union> rt_agents rt) w w2"
    using keeps_trans [OF keeps_mono [OF k1(1)] keeps_mono [OF k2]] by blast
  have "rt_ok w2 rt3"
  proof (cases c)
    case None
    then show ?thesis using k1(2) keep ok(2) rt3 by (simp add: rt_ok_def rt_tied_def keeps_def)
  next
    case (Some p)
    then obtain a d where p: "c = Some (a, d)" by (cases p) simp
    have d: "a = fst k" "holds w1 a d" "cl_session d = s" "cl_table d = rt_store rt" using k1(3) [of a d] p by blast+
    have "holds w2 a d" using k2 d fresh by (simp add: keeps_def)
    with d p keep ok(2) rt3 show ?thesis by (simp add: rt_ok_def rt_tied_def keeps_def)
  qed
  moreover have "rt_agents rt3 \<subseteq> {fst k}" using k1(3) rt3(1) by (cases c) (auto simp: rt_agents_def)
  ultimately show ?thesis using keep rt3 by (auto simp: goes_def)
qed

text \<open>A claim that was taken and let go again, or never taken.\<close>

lemma claim_fails_goes:
  assumes "ok w" "rt_ok w rt" "ca_idle api w (fst k)" "claim_for api k s rt w = (w1, r)"
  shows "goes {fst k} (w, rt) (w1, rt)"
proof -
  note k1 = claim_for_keeps(1) [OF assms(1,3,4)]
  have "fst k \<notin> rt_agents rt" using assms(2) by (intro fresh_agent [OF _ assms(3)]) (simp add: rt_ok_def)
  then have "rt_ok w1 rt" by (intro ok_keeps [OF assms(2) k1]) simp
  then show ?thesis using keeps_mono [OF k1] by (auto simp: goes_def)
qed

lemma claim_dropped_goes:
  assumes "ok w" "rt_ok w rt" "ca_idle api w (fst k)" "claim_for api k s rt w = (w1, Inr (Some (a, c)))"
  shows "goes {fst k} (w, rt) (ca_drop api a c w1, rt)"
proof -
  note k1 = claim_for_keeps [OF assms(1,3,4)]
  have a: "a = fst k" "holds w1 a c" using k1(3) by blast+
  have "keeps {fst k} w1 (ca_drop api a c w1)"
    using drop_law [OF _ a(2) refl] k1(1) a(1) by (simp add: keeps_def)
  then have k: "keeps {fst k} w (ca_drop api a c w1)" by (rule keeps_trans [OF k1(1)])
  have "fst k \<notin> rt_agents rt" using assms(2) by (intro fresh_agent [OF _ assms(3)]) (simp add: rt_ok_def)
  then have "rt_ok (ca_drop api a c w1) rt" by (intro ok_keeps [OF assms(2) k]) simp
  then show ?thesis using keeps_mono [OF k] by (auto simp: goes_def)
qed

lemma unclaim_goes:
  assumes "ok w" "rt_tied w rt" "set_claim api None (w, rt) = (w1, rt1)"
    and "rt_claim rt2 = None" "ca_process api w (rt_store rt2) = rt_process rt2" "rt_process rt2 = rt_process rt"
    and "admitted rt2 \<Longrightarrow> ca_memory api w (rt_store rt2)"
  shows "goes A (w, rt) (w1, rt2)"
proof -
  have "keeps (rt_agents rt) w w1" by (rule set_claim_keeps [OF assms(1) _ assms(3)]) (use assms(2) in \<open>auto simp: rt_tied_def\<close>)
  then show ?thesis using assms keeps_mono [of "rt_agents rt" w w1] by (auto simp: goes_def rt_ok_def rt_tied_def rt_agents_def keeps_def)
qed

lemma goes_trans:
  assumes "goes A x y" "goes A y z"
  shows "goes A x z"
proof -
  have "keeps (A \<union> rt_agents (snd x)) (fst y) (fst z)"
    by (rule keeps_mono [of "A \<union> rt_agents (snd y)"]) (use assms in \<open>auto simp: goes_def\<close>)
  with assms show ?thesis unfolding goes_def using keeps_trans by (metis Un_least Un_upper1 subset_trans)
qed

section \<open>Every operation keeps to its own claim\<close>

lemma start_new_goes:
  assumes "ok w" "rt_tied w rt" "ca_idle api w (fst k)" "start_new_session api k s r (w, rt) = (y, b)"
    and "b \<or> rt_ok w rt"
  shows "goes {fst k} (w, rt) y"
proof (cases "rt_admission rt \<noteq> Closed \<and> refuse_unless_owned rt")
  case True
  with assms show ?thesis by (auto simp: start_new_session_def intro: goes_refl)
next
  case False
  obtain w1 c1 where c1: "claim_for api k s rt w = (w1, c1)" by fastforce
  show ?thesis
  proof (cases c1)
    case (Inl e)
    with c1 False assms(4) have "y = (w1, rt)" "\<not> b" by (auto simp: start_new_session_def)
    with claim_fails_goes [OF assms(1) _ assms(3) c1] assms(5) show ?thesis by simp
  next
    case (Inr c)
    let ?rt = "(kill_all (rt\<lparr>rt_admission := Owned\<rparr>))\<lparr>rt_session := s\<rparr>"
    obtain w2 rt2 where st: "set_claim api c (w1, ?rt) = (w2, rt2)" by fastforce
    with c1 Inr False assms(4) have y: "y = (w2, record_event r (rt2\<lparr>rt_last_event := None\<rparr>))"
      by (auto simp: start_new_session_def)
    have rt2: "rt2 = ?rt\<lparr>rt_claim := c\<rparr>" using st by (simp add: set_claim_def)
    have "goes {fst k} (w, rt) (w2, rt2\<lparr>rt_last_event := None\<rparr>)"
      by (rule claim_replaces [OF assms(1-3) c1 [unfolded Inr] st]) (simp_all add: kill_all_def rt2)
    then show ?thesis unfolding y by (rule goes_then_same) simp
  qed
qed

lemma goes_from: "goes A (w, rt1) y \<Longrightarrow> rt_agents rt1 = rt_agents rt \<Longrightarrow> rt_process rt1 = rt_process rt \<Longrightarrow> goes A (w, rt) y"
  by (simp add: goes_def)

lemma close_goes:
  assumes "ok w" "rt_ok w rt"
  shows "goes A (w, rt) (close_session api r (w, rt))"
proof -
  have tied: "rt_tied w rt" using assms(2) by (simp add: rt_ok_def)
  have away: "goes A (w, rt) (set_claim api None (w, rt))" if "\<not> admitted rt"
  proof -
    obtain w1 rt1 where st: "set_claim api None (w, rt) = (w1, rt1)" by fastforce
    then have "rt1 = rt\<lparr>rt_claim := None\<rparr>" by (simp add: set_claim_def)
    with tied that show ?thesis unfolding st
      by (intro unclaim_goes [OF assms(1) tied st]) (simp_all add: admitted_def rt_tied_def)
  qed
  show ?thesis
  proof (cases "rt_admission rt")
    case Owned
    let ?rt = "(record_event r (kill_all rt))\<lparr>rt_admission := Closed\<rparr>"
    have same: "rt_claim ?rt = rt_claim rt \<and> rt_store ?rt = rt_store rt \<and> rt_process ?rt = rt_process rt"
      using record_event_same [of "kill_all rt" r] by (simp add: same_hold_def kill_all_def)
    then have tied': "rt_tied w ?rt" using tied by (simp add: rt_tied_def)
    obtain w1 rt1 where st: "set_claim api None (w, ?rt) = (w1, rt1)" by fastforce
    then have "rt1 = ?rt\<lparr>rt_claim := None\<rparr>" by (simp add: set_claim_def)
    with tied' have "goes A (w, ?rt) (set_claim api None (w, ?rt))" unfolding st
      by (intro unclaim_goes [OF assms(1) tied' st]) (simp_all add: admitted_def rt_tied_def)
    then have "goes A (w, rt) (set_claim api None (w, ?rt))"
      by (rule goes_from) (use same in \<open>simp_all add: rt_agents_def\<close>)
    then show ?thesis using Owned by (simp add: close_session_def)
  qed (use away goes_refl [OF assms] in \<open>auto simp: close_session_def admitted_def\<close>)
qed

lemma enter_goes:
  assumes "ok w" "rt_ok w rt" "ca_idle api w (fst k)" "ca_memory api w h" "ca_process api w h = rt_process rt"
  shows "goes {fst k} (w, rt) (fst (enter_incognito api h k s r (w, rt)))"
proof (cases "refuse_unless_owned rt \<or> rt_incognito rt")
  case True
  then show ?thesis using goes_refl [OF assms(1,2)] by (simp add: enter_incognito_def)
next
  case False
  obtain w1 rt1 where st: "set_claim api None (w, rt\<lparr>rt_incognito := True\<rparr>) = (w1, rt1)" by fastforce
  then have rt1: "rt1 = rt\<lparr>rt_incognito := True, rt_claim := None\<rparr>" by (simp add: set_claim_def)
  define rt2 where "rt2 = fst (engine_set (with_incognito (rt_engine rt) True) (rt1\<lparr>rt_store := h\<rparr>))"
  have f2: "rt_claim rt2 = None" "rt_store rt2 = h" "rt_process rt2 = rt_process rt"
    using rt1 by (simp_all add: rt2_def engine_set_def split: option.splits)
  have t: "rt_tied w (rt\<lparr>rt_incognito := True\<rparr>)" using assms(2) by (simp add: rt_ok_def rt_tied_def)
  have "goes {fst k} (w, rt\<lparr>rt_incognito := True\<rparr>) (w1, rt2)"
    by (rule unclaim_goes [OF assms(1) t st]) (use f2 assms(4,5) in simp_all)
  then have g: "goes {fst k} (w, rt) (w1, rt2)" by (rule goes_from) (simp_all add: rt_agents_def)
  have idle: "ca_idle api w1 (fst k)"
    using st assms(1-3) drop_law [OF assms(1)] by (auto simp: set_claim_def rt_ok_def rt_tied_def split: option.splits)
  obtain y b where y: "start_new_session api k s r (w1, rt2) = (y, b)" by fastforce
  have g1: "ok w1" "rt_ok w1 rt2" using g by (simp_all add: goes_def keeps_def)
  have "goes {fst k} (w1, rt2) y"
    by (rule start_new_goes [OF g1(1) _ idle y]) (use g1(2) in \<open>simp_all add: rt_ok_def\<close>)
  from goes_trans [OF g this] show ?thesis using False st y
    by (simp add: enter_incognito_def Let_def rt2_def rt1)
qed

lemma exit_goes:
  assumes "ok w" "rt_ok w rt" "ca_idle api w (fst k)" "ca_process api w h = rt_process rt"
    and "\<not> exit_fails api (w, rt) (Op_exit_incognito h k s r)"
  shows "goes {fst k} (w, rt) (fst (exit_incognito api h k s r (w, rt)))"
proof (cases "refuse_unless_owned rt \<or> \<not> rt_incognito rt")
  case True
  then show ?thesis using goes_refl [OF assms(1,2)] by (simp add: exit_incognito_def)
next
  case False
  define rt1 where "rt1 = fst (engine_set (with_incognito (rt_engine rt) False) (rt\<lparr>rt_incognito := False, rt_store := h\<rparr>))"
  have f: "rt_claim rt1 = rt_claim rt" "rt_store rt1 = h" "rt_process rt1 = rt_process rt"
    by (simp_all add: rt1_def engine_set_def split: option.splits)
  obtain y b where y: "start_new_session api k s r (w, rt1) = (y, b)" by fastforce
  have ex: "exit_incognito api h k s r (w, rt) = (y, b)" using False y by (simp add: exit_incognito_def Let_def rt1_def)
  with assms(5) False have b by (simp add: refuse_unless_owned_def)
  have "goes {fst k} (w, rt1) y"
    by (rule start_new_goes [OF assms(1) _ assms(3) y])
      (use \<open>b\<close> f assms(2,4) in \<open>simp_all add: rt_ok_def rt_tied_def\<close>)
  then show ?thesis unfolding ex fst_conv by (rule goes_from) (use f in \<open>simp_all add: rt_agents_def\<close>)
qed

lemma load_goes:
  fixes rt :: "'l session_runtime"
  assumes "ok w" "rt_ok w rt" "ca_idle api w (fst k)"
  shows "goes {fst k} (w, rt) (fst (load_session api k s ev r (w, rt)))"
proof (cases "is_preparing (rt_admission rt)")
  case True
  then show ?thesis using goes_refl [OF assms(1,2)] by (simp add: load_session_def)
next
  case False
  show ?thesis
  proof (cases "owned_already s rt")
    case True
    have "goes {fst k} (w, rt) (w, (kill_all (rt\<lparr>rt_session := s\<rparr>))\<lparr>rt_last_event := i\<rparr>)" for i
      using True assms(1,2) by (auto simp: owned_already_def goes_def rt_ok_def rt_tied_def rt_agents_def kill_all_def split: option.splits)
    then have "goes {fst k} (w, rt) (w, settle_loaded s i r rt)" for i
      unfolding settle_loaded_def by (rule goes_then_same) (rule record_event_same)
    then show ?thesis using True False goes_refl [OF assms(1,2)] by (cases ev) (simp_all add: load_session_def)
  next
    case not_owned: False
    obtain w1 c1 where c1: "claim_for api k s rt w = (w1, c1)" by fastforce
    note fails = claim_fails_goes [OF assms c1]
    show ?thesis
    proof (cases c1)
      case (Inr c)
      have drops: "goes {fst k} (w, rt) (case c of None \<Rightarrow> w1 | Some (a, c') \<Rightarrow> ca_drop api a c' w1, rt)"
        using fails claim_dropped_goes [OF assms] c1 Inr by (auto split: option.splits)
      obtain w2 rt2 where st: "set_claim api c (w1, rt) = (w2, rt2)" by fastforce
      then have rt2: "rt2 = rt\<lparr>rt_claim := c\<rparr>" by (simp add: set_claim_def)
      have tied: "rt_tied w rt" using assms(2) by (simp add: rt_ok_def)
      have "goes {fst k} (w, rt) (w2, (kill_all (rt2\<lparr>rt_admission := Owned, rt_ownership_error := None, rt_session := s\<rparr>))\<lparr>rt_last_event := i\<rparr>)" for i
        by (rule claim_replaces [OF assms(1) tied assms(3) c1 [unfolded Inr] st]) (simp_all add: rt2 kill_all_def)
      then have "goes {fst k} (w, rt) (w2, settle_loaded s i r (rt2\<lparr>rt_admission := Owned, rt_ownership_error := None\<rparr>))" for i
        unfolding settle_loaded_def by (rule goes_then_same) (rule record_event_same)
      with drops st not_owned False c1 Inr show ?thesis by (cases ev) (simp_all add: load_session_def)
    qed (use fails c1 not_owned False in \<open>simp add: load_session_def\<close>)
  qed
qed

lemma fork_goes:
  assumes "ok w" "rt_ok w rt" "ca_idle api w (fst k)"
  shows "goes {fst k} (w, rt) (fst (fork_session api k s m r r' hs (w, rt)))"
proof (cases "is_owned rt")
  case False
  then show ?thesis using goes_refl [OF assms(1,2)] by (simp add: fork_session_def)
next
  case True
  obtain w1 c1 where c1: "claim_for api k s rt w = (w1, c1)" by fastforce
  note fails = claim_fails_goes [OF assms c1]
  show ?thesis
  proof (cases c1)
    case (Inr c)
    obtain w2 rt2 where st: "set_claim api c (w1, rt\<lparr>rt_session := s\<rparr>) = (w2, rt2)" by fastforce
    then have rt2: "rt2 = rt\<lparr>rt_session := s, rt_claim := c\<rparr>" by (simp add: set_claim_def)
    have tied: "rt_tied w rt" using assms(2) by (simp add: rt_ok_def)
    let ?a = "(kill_all rt2)\<lparr>rt_last_event := None\<rparr>"
    let ?b = "if m \<and> rt_last_event rt \<noteq> None then record_event r' (record_event r ?a) else record_event r ?a"
    have "goes {fst k} (w, rt) (w2, ?a)"
      by (rule claim_replaces [OF assms(1) tied assms(3) c1 [unfolded Inr] st]) (simp_all add: rt2 kill_all_def)
    moreover have "same_hold ?a (fst (fork_history hs ?b))"
      by (intro same_hold_trans [OF _ fork_history_same]) (auto intro: same_hold_trans [OF record_event_same record_event_same])
    ultimately have g: "goes {fst k} (w, rt) (w2, fst (fork_history hs ?b))" by (rule goes_then_same)
    have "fst (fork_session api k s m r r' hs (w, rt)) = (w2, fst (fork_history hs ?b))"
      using True c1 Inr st by (simp add: fork_session_def Let_def split: prod.splits option.splits)
    with g show ?thesis by simp
  qed (use fails c1 True in \<open>simp add: fork_session_def\<close>)
qed

lemma release_goes:
  assumes "ok w" "rt_ok w rt"
  shows "goes A (w, rt) (fst (release_transfer api mc nm f fz (w, rt)))"
proof -
  consider "rt_admission rt \<noteq> Preparing (fz_transfer fz)"
    | "rt_admission rt = Preparing (fz_transfer fz)" "\<not> unchanged_since api mc nm fz w rt \<or> rt_claim rt = None"
    | a c where "rt_admission rt = Preparing (fz_transfer fz)" "unchanged_since api mc nm fz w rt" "rt_claim rt = Some (a, c)"
    by fastforce
  then show ?thesis
  proof cases
    case 1
    then show ?thesis using goes_refl [OF assms] by (simp add: release_transfer_def)
  next
    case 2
    then have "goes A (w, rt) (w, rt\<lparr>rt_admission := Owned\<rparr>)"
      by (intro goes_same [OF assms]) (auto simp: same_hold_def admitted_def)
    with 2 show ?thesis by (auto simp: release_transfer_def)
  next
    case 3
    obtain w1 e where rel: "ca_release api a c (transfer_record_of fz) f w = (w1, e)" by fastforce
    have "holds w a c" using assms(2) 3(3) by (simp add: rt_ok_def rt_tied_def)
    note law = release_law [OF assms(1) this rel]
    have "goes A (w, rt) (w1, rt\<lparr>rt_claim := None, rt_admission := Released (fz_transfer fz)\<rparr>)"
      using law assms(2) 3 by (auto simp: goes_def keeps_def rt_ok_def rt_tied_def rt_agents_def admitted_def)
    moreover have "goes A (w, rt) (w1, rt\<lparr>rt_admission := Owned\<rparr>)" if "e \<noteq> None"
      using that law assms(2) 3 by (auto simp: goes_def keeps_def rt_ok_def rt_tied_def rt_agents_def admitted_def)
    ultimately show ?thesis using 3 rel by (cases e) (simp_all add: release_transfer_def)
  qed
qed

lemma run_op_goes:
  assumes "ok w" "rt_ok w rt" "op_allowed api w rt p" "\<not> exit_fails api (w, rt) p"
  shows "goes (op_agents p) (w, rt) (run_op api mc p (w, rt))"
proof (cases p)
  case (Op_start_new k s r)
  obtain y b where "start_new_session api k s r (w, rt) = (y, b)" by fastforce
  with start_new_goes [OF assms(1) _ _ this] assms Op_start_new show ?thesis
    by (simp add: op_allowed_def rt_ok_def)
qed (use assms close_goes [OF assms(1,2)] enter_goes [OF assms(1,2)] exit_goes [OF assms(1,2)] load_goes [OF assms(1,2)]
    fork_goes [OF assms(1,2)] release_goes [OF assms(1,2)]
    in \<open>auto simp: op_allowed_def intro: goes_same\<close>)

section \<open>All runtimes together\<close>

definition sys_ok :: "('w, 'l) rt_system \<Rightarrow> bool" where
  "sys_ok s \<longleftrightarrow>
     ok (sy_world s) \<and> (\<forall>i rt. sy_rts s i = Some rt \<longrightarrow> rt_ok (sy_world s) rt) \<and>
     (\<forall>i j rt rt'. sy_rts s i = Some rt \<longrightarrow> sy_rts s j = Some rt' \<longrightarrow> i \<noteq> j \<longrightarrow> rt_agents rt \<inter> rt_agents rt' = {})"

text \<open>One runtime moves, with new agents \<open>A\<close>: nobody else's claim is touched.\<close>

lemma others_apart:
  assumes "sys_ok s" "sy_rts s j = Some rt'" "\<forall>a \<in> A. ca_idle api (sy_world s) a"
  shows "A \<inter> rt_agents rt' = {}"
  using assms fresh_agent [of "sy_world s" rt'] by (auto simp: sys_ok_def rt_ok_def)

lemma sys_ok_put:
  fixes rt :: "'l session_runtime"
  assumes s: "sys_ok s" and A: "\<forall>a \<in> A. ca_idle api (sy_world s) a"
    and g: "goes A (sy_world s, rt) x"
    and r: "sy_rts s i = Some rt \<or> sy_rts s i = None \<and> rt_claim rt = None"
  shows "sys_ok (put_rt i x s)"
proof -
  have ag: "rt_agents rt \<inter> rt_agents rt' = {}" if "sy_rts s j = Some rt'" "j \<noteq> i" for j rt'
    using r
  proof
    assume "sy_rts s i = Some rt"
    with s that show ?thesis unfolding sys_ok_def by metis
  qed (simp add: rt_agents_def)
  have apart: "(A \<union> rt_agents rt) \<inter> rt_agents rt' = {}" if "sy_rts s j = Some rt'" "j \<noteq> i" for j rt'
    by (simp only: Int_Un_distrib2 others_apart [OF s that(1) A] ag [OF that] Un_empty)
  have ok: "rt_ok (fst x) rt'" if "sy_rts s j = Some rt'" "j \<noteq> i" for j rt'
  proof (rule ok_keeps [OF _ _ apart [OF that]])
    show "rt_ok (sy_world s) rt'" using s that(1) by (simp add: sys_ok_def)
    show "keeps (A \<union> rt_agents rt) (sy_world s) (fst x)" using g by (simp add: goes_def)
  qed
  have "rt_agents (snd x) \<subseteq> A \<union> rt_agents rt" using g by (simp add: goes_def)
  then have new: "rt_agents (snd x) \<inter> rt_agents rt' = {}" if "sy_rts s j = Some rt'" "j \<noteq> i" for j rt'
    using apart [OF that] by auto
  with ok g s show ?thesis
    unfolding sys_ok_def put_rt_def by (auto simp: goes_def keeps_def) (use new in blast)
qed

lemma build_goes:
  fixes rt :: "'l session_runtime"
  assumes "ok w" "ca_idle api w (fst k)" "rt_claim rt = None" "ca_process api w (rt_store rt) = rt_process rt"
  shows "goes {fst k} (w, rt) (runtime_new api k r (w, rt))"
proof -
  have tied: "rt_tied w rt" using assms by (simp add: rt_tied_def)
  obtain w1 c1 where c1: "claim_for api k (rt_session rt) rt w = (w1, c1)" by fastforce
  have "goes {fst k} (w, rt) (claim_fresh api k (w, rt))"
  proof (cases c1)
    case (Inl e)
    have "keeps {fst k} w w1" by (rule claim_for_keeps(1) [OF assms(1,2) c1])
    with assms(3,4) have "goes {fst k} (w, rt) (w1, rt\<lparr>rt_claim := None, rt_ownership_error := Some e, rt_admission := Lost\<rparr>)"
      by (simp add: goes_def rt_ok_def rt_tied_def rt_agents_def admitted_def keeps_def)
    then show ?thesis using c1 Inl assms(3) by (simp add: claim_fresh_def set_claim_def)
  next
    case (Inr c)
    obtain w2 rt2 where st: "set_claim api c (w1, rt) = (w2, rt2)" by fastforce
    then have rt2: "rt2 = rt\<lparr>rt_claim := c\<rparr>" by (simp add: set_claim_def)
    have "goes {fst k} (w, rt) (w2, rt2\<lparr>rt_ownership_error := None, rt_admission := Owned\<rparr>)"
      by (rule claim_replaces [OF assms(1) tied assms(2) c1 [unfolded Inr] st]) (simp_all add: rt2)
    with c1 Inr st show ?thesis by (simp add: claim_fresh_def)
  qed
  then show ?thesis
    by (cases "claim_fresh api k (w, rt)") (auto simp: runtime_new_def intro: goes_then_same record_event_same)
qed

lemma sys_end_ok:
  assumes "sys_ok s"
  shows "sys_ok (sys_step api mc (End p) s)"
proof -
  have okw: "ok (sy_world s)" using assms by (simp add: sys_ok_def)
  note law = end_law [OF okw refl, of p]
  have "rt_ok (ca_end api p (sy_world s)) rt" if "rt_ok (sy_world s) rt" "rt_process rt \<noteq> p" for rt :: "'c session_runtime"
    using that law unfolding rt_ok_def rt_tied_def by auto
  with assms law show ?thesis
    unfolding sys_ok_def by (auto split: bind_splits if_splits)
qed

lemma sys_drop_ok:
  assumes s: "sys_ok s"
  shows "sys_ok (sys_step api mc (Drop_runtime i) s)"
proof (cases "sy_rts s i")
  case (Some rt)
  obtain w1 rt1 where st: "set_claim api None (sy_world s, rt) = (w1, rt1)" by fastforce
  have k: "keeps (rt_agents rt) (sy_world s) w1"
    by (rule set_claim_keeps [OF _ _ st]) (use s Some in \<open>auto simp: sys_ok_def rt_ok_def rt_tied_def\<close>)
  have "rt_ok w1 rt'" if "sy_rts s j = Some rt'" "j \<noteq> i" for j rt'
  proof (rule ok_keeps [OF _ k])
    show "rt_ok (sy_world s) rt'" using s that by (simp add: sys_ok_def)
    show "rt_agents rt \<inter> rt_agents rt' = {}" using s that Some unfolding sys_ok_def by metis
  qed
  with s k Some st show ?thesis unfolding sys_ok_def by (auto simp: keeps_def)
qed (use s in simp)

lemma sys_step_ok:
  assumes s: "sys_ok s" and "\<not> step_strands api e s"
  shows "sys_ok (sys_step api mc e s)"
proof (cases e)
  case (Build i k r rt)
  then show ?thesis using s sys_ok_put [OF s _ build_goes [of "sy_world s" k rt r], of i]
    by (auto simp: sys_ok_def)
next
  case (Run i p)
  show ?thesis
  proof (cases "\<exists>rt. sy_rts s i = Some rt \<and> op_allowed api (sy_world s) rt p")
    case True
    then obtain rt where rt: "sy_rts s i = Some rt" "op_allowed api (sy_world s) rt p" by auto
    have "goes (op_agents p) (sy_world s, rt) (run_op api mc p (sy_world s, rt))"
      by (rule run_op_goes) (use s rt assms(2) Run in \<open>auto simp: sys_ok_def\<close>)
    from sys_ok_put [OF s _ this] rt Run show ?thesis by (simp add: op_allowed_def)
  qed (use s Run in \<open>auto split: option.splits\<close>)
qed (use sys_end_ok [OF s] sys_drop_ok [OF s] in \<open>simp_all del: sys_step.simps\<close>)

lemma sys_step_memory:
  assumes s: "sys_ok s" and "\<not> step_strands api e s"
  shows "ca_memory api (sy_world (sys_step api mc e s)) = ca_memory api (sy_world s)"
proof (cases e)
  case (Build i k r rt)
  then show ?thesis using build_goes [of "sy_world s" k rt r] s by (auto simp: sys_ok_def put_rt_def goes_def keeps_def)
next
  case (Run i p)
  then show ?thesis using run_op_goes [of "sy_world s" _ p mc] s assms(2)
    by (auto simp: sys_ok_def put_rt_def goes_def keeps_def split: option.splits)
next
  case (Drop_runtime i)
  show ?thesis
  proof (cases "sy_rts s i")
    case (Some rt)
    obtain w1 rt1 where st: "set_claim api None (sy_world s, rt) = (w1, rt1)" by fastforce
    have "keeps (rt_agents rt) (sy_world s) w1"
      by (rule set_claim_keeps [OF _ _ st]) (use s Some in \<open>auto simp: sys_ok_def rt_ok_def rt_tied_def\<close>)
    with Some Drop_runtime st show ?thesis by (simp add: keeps_def)
  qed (use Drop_runtime in simp)
next
  case (End p)
  then show ?thesis using s end_law [of "sy_world s" p] by (simp add: sys_ok_def)
qed

lemma sys_run_memory:
  "sys_ok s \<Longrightarrow> never_strands api mc es s \<Longrightarrow> ca_memory api (sy_world (sys_run api mc es s)) = ca_memory api (sy_world s)"
  by (induction es arbitrary: s) (simp_all add: sys_step_ok sys_step_memory)

lemma sys_run_ok: "sys_ok s \<Longrightarrow> never_strands api mc es s \<Longrightarrow> sys_ok (sys_run api mc es s)"
  by (induction es arbitrary: s) (simp_all add: sys_step_ok)

lemma sys_exclusive:
  assumes s: "sys_ok s" and "sy_rts s i = Some rt" "sy_rts s j = Some rt'" "admitted rt" "admitted rt'"
    "\<not> ca_memory api (sy_world s) (rt_store rt)" "\<not> ca_memory api (sy_world s) (rt_store rt')" "rt_session rt = rt_session rt'"
  shows "i = j"
proof (rule ccontr)
  assume "i \<noteq> j"
  then have apart: "rt_agents rt \<inter> rt_agents rt' = {}" using s assms(2,3) unfolding sys_ok_def by metis
  from s assms obtain a c b d where "rt_claim rt = Some (a, c)" "rt_claim rt' = Some (b, d)" "cl_session c = cl_session d"
    "holds (sy_world s) a c" "holds (sy_world s) b d" "ok (sy_world s)"
    unfolding sys_ok_def rt_ok_def rt_tied_def by metis
  with exclusive [of "sy_world s" a c b d] apart show False by (auto simp: rt_agents_def)
qed

end

end
