(* ===== verification/Session_Spec.thy ===== *)
theory Session_Spec
  imports Session_System
begin

text \<open>
  The store's claims as the runtimes call them, which is an instance of \<open>claim_store\<close>, and the properties of
  runtimes over it: one runtime at a time is admitted to a session, and a frozen session is handed over as it
  was frozen.
\<close>

section \<open>Whole calls of the store\<close>

definition first_failure :: "own_outcome list \<Rightarrow> store_error option" where
  "first_failure os = List.find (\<lambda>_. True) (List.map_filter (\<lambda>x. case x of Failed e \<Rightarrow> Some e | _ \<Rightarrow> None) os)"

text \<open>\<open>f\<close> says whether taking the lock and publishing the record fail.\<close>

definition store_claim ::
  "agent_id \<Rightarrow> store_handle \<Rightarrow> session_id \<Rightarrow> holder \<Rightarrow> bool \<times> bool \<Rightarrow> own_world \<Rightarrow> own_world \<times> (store_error + session_claim option)" where
  "store_claim a h s who f w =
     (case own_run [Act a (Claim_session h s who) False, Act a Wait_over (fst f), Act a Proceed (snd f), Act a Proceed False] w of
        (w', os) \<Rightarrow>
          (w', case ow_stage w' a of
                 Owning c \<Rightarrow> Inr (Some c)
               | _ \<Rightarrow> (case first_failure os of Some e \<Rightarrow> Inl e | None \<Rightarrow> Inr None)))"

definition store_release ::
  "agent_id \<Rightarrow> session_claim \<Rightarrow> transfer_record \<Rightarrow> bool \<Rightarrow> own_world \<Rightarrow> own_world \<times> store_error option" where
  "store_release a c t f w =
     (case own_run [Act a (Release t) False, Act a Proceed f, Act a Proceed False] w of
        (w', os) \<Rightarrow> (w', first_failure os))"

definition store_drop :: "agent_id \<Rightarrow> session_claim \<Rightarrow> own_world \<Rightarrow> own_world" where
  "store_drop a c w = fst (own_run [Act a Let_go_claim False, Act a Proceed False, Act a Proceed False] w)"

definition store_api :: "own_world claim_api" where
  "store_api =
     \<lparr>ca_memory = (\<lambda>w h. ow_backend w h = Memory), ca_process = ow_process, ca_idle = (\<lambda>w a. ow_stage w a = Elsewhere),
      ca_claim = store_claim, ca_release = store_release, ca_drop = store_drop, ca_end = end_process\<rparr>"

lemma store_api_env:
  "ca_memory store_api = (\<lambda>w h. ow_backend w h = Memory)" "ca_release store_api = store_release"
  by (simp_all add: store_api_def)

text \<open>Between whole calls an agent has a claim or nothing, so no lease's mutex is taken.\<close>

definition store_quiet :: "own_world \<Rightarrow> bool" where
  "store_quiet w \<longleftrightarrow> own_ok w \<and> (\<forall>a. ow_stage w a = Elsewhere \<or> (\<exists>c. ow_stage w a = Owning c))"

lemma quiet_mutex: "store_quiet w \<Longrightarrow> ow_mutex w l = None"
proof (rule ccontr)
  assume q: "store_quiet w" and "ow_mutex w l \<noteq> None"
  then obtain a where "stage_mutex (ow_stage w a) = Some l" using own_okD(2) [of w l] by (auto simp: store_quiet_def)
  moreover from q have "stage_mutex (ow_stage w a) = None" by (auto simp: store_quiet_def) (metis stage_mutex.simps)
  ultimately show False by simp
qed

lemma claim_result:
  assumes "ow_stage w a = Elsewhere" "store_claim a h s who f w = (w', r)"
  shows "case r of
     Inr (Some c) \<Rightarrow> ow_backend w h = Disk \<and> ow_stage w' = (ow_stage w)(a := Owning c) \<and> cl_session c = s \<and> cl_table c = h
   | Inr None \<Rightarrow> ow_backend w h = Memory \<and> w' = w
   | Inl e \<Rightarrow> ow_backend w h = Disk \<and> ow_stage w' = ow_stage w"
  using assms
  by (auto simp: store_claim_def own_ops own_prims new_claim_def first_failure_def List.map_filter_simps Let_def fun_upd_idem
      split: store_backend.splits if_splits option.splits sum.splits)

lemma release_result:
  assumes "ow_stage w a = Owning c" "ow_mutex w (cl_lease c) = None" "store_release a c t f w = (w', r)"
  shows "if f then r = Some Store_io \<and> ow_stage w' = ow_stage w \<and> ow_file w' = ow_file w
    else r = None \<and> ow_stage w' = (ow_stage w)(a := Elsewhere) \<and> ow_lock w' = (ow_lock w)(cl_session c := None) \<and>
      ow_file w' = (ow_file w)(cl_session c := record_json (with_transfer Transfer_released t (cl_record c)))"
  using assms
  by (auto simp: store_release_def own_ops own_prims first_failure_def List.map_filter_simps fun_upd_idem split: if_splits)

lemma drop_result:
  assumes "ow_stage w a = Owning c" "ow_mutex w (cl_lease c) = None"
  shows "ow_stage (store_drop a c w) = (ow_stage w)(a := Elsewhere)"
  using assms by (simp add: store_drop_def own_ops own_prims)

lemma quiet_of_stage:
  assumes "store_quiet w" "own_ok w'" "ow_stage w' = (ow_stage w)(a := st)" "st = Elsewhere \<or> (\<exists>c. st = Owning c)"
  shows "store_quiet w'"
  using assms by (auto simp: store_quiet_def)

lemma store_claim_run: "fst (store_claim a h s who f w) = fst (own_run
    [Act a (Claim_session h s who) False, Act a Wait_over (fst f), Act a Proceed (snd f), Act a Proceed False] w)"
  by (simp only: store_claim_def case_prod_beta fst_conv)

lemma store_release_run: "fst (store_release a c t f w) = fst (own_run [Act a (Release t) False, Act a Proceed f, Act a Proceed False] w)"
  by (simp only: store_release_def case_prod_beta fst_conv)

lemma store_calls_const:
  "ow_backend (fst (store_claim a h s who f w)) = ow_backend w" "ow_process (fst (store_claim a h s who f w)) = ow_process w"
  "ow_backend (fst (store_release a c t g w)) = ow_backend w" "ow_process (fst (store_release a c t g w)) = ow_process w"
  "ow_backend (store_drop a c w) = ow_backend w" "ow_process (store_drop a c w) = ow_process w"
  unfolding store_claim_run store_release_run store_drop_def using own_run_const by blast+

lemma store_calls_ok:
  assumes "own_ok w"
  shows "own_ok (fst (store_claim a h s who f w))" "own_ok (fst (store_release a c t g w))" "own_ok (store_drop a c w)"
  unfolding store_claim_run store_release_run store_drop_def using own_run_ok [OF assms] by blast+

interpretation claims: claim_store store_api store_quiet "\<lambda>w a c. ow_stage w a = Owning c"
proof (unfold_locales, goal_cases)
  case (1 w a h s who f w' r)
  then have st: "ow_stage w a = Elsewhere" and w': "store_claim a h s who f w = (w', r)" and q: "store_quiet w"
    by (simp_all add: store_api_def)
  have ok: "own_ok w'" "ow_backend w' = ow_backend w" "ow_process w' = ow_process w"
    using store_calls_ok(1) [of w a h s who f] store_calls_const(1,2) [of a h s who f w] q w' by (simp_all add: store_quiet_def)
  note res = claim_result [OF st w']
  have "store_quiet w'"
  proof (cases r)
    case (Inl e)
    then have "ow_stage w' = (ow_stage w)(a := Elsewhere)" using res st by (simp add: fun_upd_idem)
    then show ?thesis by (rule quiet_of_stage [OF q ok(1)]) simp
  next
    case (Inr c)
    show ?thesis
    proof (cases c)
      case (Some d)
      then have "ow_stage w' = (ow_stage w)(a := Owning d)" using res Inr by simp
      then show ?thesis by (rule quiet_of_stage [OF q ok(1)]) simp
    qed (use res Inr q in simp)
  qed
  with res ok show ?case by (auto simp: store_api_def split: sum.splits option.splits)
next
  case (2 w a c t g w' e)
  then have st: "ow_stage w a = Owning c" and w': "store_release a c t g w = (w', e)" and q: "store_quiet w"
    by (simp_all add: store_api_def)
  have ok: "own_ok w'" "ow_backend w' = ow_backend w" "ow_process w' = ow_process w"
    using store_calls_ok(2) [of w a c t g] store_calls_const(3,4) [of a c t g w] q w' by (simp_all add: store_quiet_def)
  note res = release_result [OF st quiet_mutex [OF q] w']
  have "store_quiet w'"
  proof (cases g)
    case True
    then have "ow_stage w' = (ow_stage w)(a := Owning c)" using res st by (simp add: fun_upd_idem)
    then show ?thesis by (rule quiet_of_stage [OF q ok(1)]) simp
  next
    case False
    then have "ow_stage w' = (ow_stage w)(a := Elsewhere)" using res by simp
    then show ?thesis by (rule quiet_of_stage [OF q ok(1)]) simp
  qed
  with res ok st show ?case by (auto simp: store_api_def split: if_splits)
next
  case (3 w a c w')
  then have st: "ow_stage w a = Owning c" and w': "w' = store_drop a c w" and q: "store_quiet w"
    by (simp_all add: store_api_def)
  note res = drop_result [OF st quiet_mutex [OF q]]
  have "store_quiet w'" unfolding w'
    by (rule quiet_of_stage [OF q store_calls_ok(3) res]) (use q in \<open>simp_all add: store_quiet_def\<close>)
  with res w' store_calls_const(5,6) [of a c w] show ?case by (auto simp: store_api_def)
next
  case (4 w p w')
  then have w': "w' = end_process p w" and q: "store_quiet w" by (simp_all add: store_api_def)
  have "own_ok w'" using end_process_ok q w' by (simp add: store_quiet_def)
  then show ?case using q unfolding w' by (auto simp: store_api_def store_quiet_def end_process_def dies_with_def)
next
  case (5 w a c b c')
  then have "ow_lock w (cl_session c) = Some a" "ow_lock w (cl_session c') = Some b"
    using own_okD(1) [of w] by (simp_all add: store_quiet_def)
  with 5(4) show ?case by simp
qed (simp add: store_api_def)

section \<open>Runtimes over the store\<close>

definition sys_init :: "(store_handle \<Rightarrow> store_backend) \<Rightarrow> (store_handle \<Rightarrow> nat) \<Rightarrow> (session_id \<Rightarrow> owner_file) \<Rightarrow> (own_world, 'l) rt_system" where
  "sys_init backend process files = \<lparr>sy_world = own_world_new backend process files, sy_rts = (\<lambda>_. None)\<rparr>"

lemma sys_init_ok: "claims.sys_ok (sys_init backend process files)"
  by (simp add: claims.sys_ok_def sys_init_def store_quiet_def own_ok_new) (simp add: own_world_new_def)

text \<open>Two processes start a runtime on the same session.\<close>

definition demo_holder :: holder where
  "demo_holder = \<lparr>hd_instance = ''x'', hd_pid = 7, hd_kind = Tui\<rparr>"

definition demo_rt :: "nat \<Rightarrow> unit session_runtime" where
  "demo_rt p =
     \<lparr>rt_process = p, rt_session = 9, rt_store = p, rt_claim = None, rt_admission = Owned, rt_ownership_error = None,
      rt_holder = demo_holder, rt_turn_cancel = None, rt_turn_in_flight = False, rt_incognito = False,
      rt_engine = engine_new Default [], rt_effort = None, rt_provider = ''p'', rt_model = ''m'', rt_registry = None,
      rt_trusted = True, rt_envelope_off = False, rt_granularity = None, rt_suspended_granularity = None, rt_image = None,
      rt_steer = [], rt_background = [], rt_last_event = None\<rparr>"

definition demo_events :: "unit sys_event list" where
  "demo_events = [Build 0 (1, False, False) (Inr 5) (demo_rt 0), Build 1 (2, False, False) (Inr 6) (demo_rt 1)]"

definition demo_start :: "(own_world, unit) rt_system" where
  "demo_start = sys_init (\<lambda>_. Disk) (\<lambda>h. h) (\<lambda>_. No_file)"

definition demo_codec :: manifest_codec where
  "demo_codec = \<lparr>mc_to_vec = (\<lambda>m. Some [1]), mc_from_slice = (\<lambda>b. None), mc_sha256 = (\<lambda>b. b)\<rparr>"

lemmas demo_eval = demo_events_def demo_start_def sys_init_def own_world_new_def store_api_def store_claim_def own_ops own_prims
  runtime_new_def claim_fresh_def claim_for_def set_claim_def record_event_def is_owned_def put_rt_def new_claim_def
  first_failure_def List.map_filter_simps demo_rt_def

lemma demo_claims:
  "sy_rts (sys_run store_api demo_codec demo_events demo_start) 0 =
     Some ((demo_rt 0)\<lparr>rt_claim := Some (1, new_claim 0 9 demo_holder 0 None), rt_last_event := Some 5\<rparr>)"
  "map_option rt_admission (sy_rts (sys_run store_api demo_codec demo_events demo_start) 1) = Some Lost"
  "ow_backend (sy_world (sys_run store_api demo_codec demo_events demo_start)) = (\<lambda>_. Disk)"
  by (simp_all add: demo_eval)



lemma prepare_freezes:
  assumes "prepare_transfer api mc nm t (w, rt) = (rt1, Inr fz)"
  shows "rt_admission rt = Owned" "idle_refusal api w rt = None" "rt1 = rt\<lparr>rt_admission := Preparing t\<rparr>"
    "fz_transfer fz = t" "fz_tail fz = rt_last_event rt" "fz_digest fz = manifest_digest mc (transfer_manifest_of nm rt)"
    "frozen rt1"
  using assms by (auto simp: prepare_transfer_def Let_def idle_refusal_def frozen_def split: if_splits option.splits sum.splits)

lemma idle_gate: "idle_refusal api w (rt\<lparr>rt_admission := g\<rparr>) = idle_refusal api w rt"
  by (simp add: idle_refusal_def)

lemma idle_env: "ca_memory api w' = ca_memory api w \<Longrightarrow> idle_refusal api w' rt = idle_refusal api w rt"
  by (simp add: idle_refusal_def)

lemma idle_on_disk: "idle_refusal api w rt = None \<Longrightarrow> \<not> ca_memory api w (rt_store rt)"
  by (auto simp: idle_refusal_def split: if_splits)

lemma manifest_gate: "transfer_manifest_of nm (rt\<lparr>rt_admission := g\<rparr>) = transfer_manifest_of nm rt"
  by (simp add: transfer_manifest_of_def envelope_enabled_def)

lemma frozen_release:
  fixes rt :: "'l session_runtime"
  assumes q: "store_quiet w" and ok: "claims.rt_ok w rt1" and idle: "idle_refusal store_api w rt = None"
    and rt1: "rt1 = rt\<lparr>rt_admission := Preparing t\<rparr>"
    and fz: "fz_transfer fz = t" "fz_tail fz = rt_last_event rt" "fz_digest fz = manifest_digest mc (transfer_manifest_of nm rt)"
  obtains a c w' where "rt_claim rt1 = Some (a, c)" "cl_session c = rt_session rt"
    "release_transfer store_api mc nm io fz (w, rt1) =
      ((w', if io then rt1\<lparr>rt_admission := Owned\<rparr> else rt1\<lparr>rt_claim := None, rt_admission := Released t\<rparr>),
       if io then Some (Transfer_store Store_io) else None)"
    "if io then ow_stage w' a = Owning c \<and> ow_file w' = ow_file w
     else ow_lock w' = (ow_lock w)(cl_session c := None) \<and>
       ow_file w' = (ow_file w)(cl_session c := record_json (with_transfer Transfer_released (transfer_record_of fz) (cl_record c)))"
proof -
  have unchanged: "unchanged_since store_api mc nm fz w rt1"
    using idle fz by (simp add: unchanged_since_def rt1 idle_gate manifest_gate)
  have "\<not> ca_memory store_api w (rt_store rt1)" using idle_on_disk [OF idle] by (simp add: rt1)
  with ok obtain a c where c: "rt_claim rt1 = Some (a, c)" "ow_stage w a = Owning c" "cl_session c = rt_session rt1"
    by (auto simp: claims.rt_ok_def claims.rt_tied_def admitted_def rt1)
  obtain w' r where rel: "store_release a c (transfer_record_of fz) io w = (w', r)" by fastforce
  note res = release_result [OF c(2) quiet_mutex [OF q] rel]
  show thesis
  proof (rule that [of a c w'])
    show "release_transfer store_api mc nm io fz (w, rt1) =
        ((w', if io then rt1\<lparr>rt_admission := Owned\<rparr> else rt1\<lparr>rt_claim := None, rt_admission := Released t\<rparr>),
         if io then Some (Transfer_store Store_io) else None)"
      using unchanged c(1) rel res fz(1) rt1 by (cases io) (simp_all add: release_transfer_def store_api_env)
  qed (use c res rt1 in \<open>auto split: if_splits\<close>)
qed

text \<open>
  Once a session is frozen, nothing that happens in any runtime of any process short of its release, its
  abort or the end of its own process changes the frozen runtime, so that its release finds nothing
  changed: it publishes the tail and the digest the freeze recorded and lets the lock go, or, when the record
  cannot be published, the runtime owns its session again and still holds it.
\<close>
theorem frozen_session_is_handed_over:
  assumes run: "s = sys_run store_api mc es (sys_init backend process files)"
    and clean: "never_strands store_api mc es (sys_init backend process files)"
    and rt: "sy_rts s i = Some rt" "prepare_transfer store_api mc nm t (sy_world s, rt) = (rt1, Inr fz)"
    and after: "s1 = sys_run store_api mc es1 (put_rt i (sy_world s, rt1) s)"
      "never_strands store_api mc es1 (put_rt i (sy_world s, rt1) s)"
      "\<forall>e \<in> set es1. spares i (rt_process rt) e"
  shows "sy_rts s1 i = Some rt1 \<and>
    (\<exists>a c w' rt2. rt_claim rt1 = Some (a, c) \<and>
       release_transfer store_api mc nm io fz (sy_world s1, rt1) =
         ((w', rt2), if io then Some (Transfer_store Store_io) else None) \<and>
       (if io then rt2 = rt1\<lparr>rt_admission := Owned\<rparr> \<and> ow_stage w' a = Owning c \<and> ow_file w' = ow_file (sy_world s1)
        else rt_admission rt2 = Released t \<and> rt_claim rt2 = None \<and> ow_lock w' (rt_session rt) = None \<and>
          ow_file w' (rt_session rt) = record_json (with_transfer Transfer_released
            \<lparr>tr_id = t, tr_state = Transfer_released, tr_tail = rt_last_event rt, tr_digest = fz_digest fz\<rparr> (cl_record c))))"
proof -
  let ?s = "put_rt i (sy_world s, rt1) s"
  note p = prepare_freezes [OF rt(2)]
  have ok: "claims.sys_ok s" unfolding run by (rule claims.sys_run_ok [OF sys_init_ok clean])
  have "claims.goes {} (sy_world s, rt) (sy_world s, rt1)"
    using ok rt(1) p(1,3) by (intro claims.goes_same) (auto simp: claims.sys_ok_def same_hold_def admitted_def)
  then have ok0: "claims.sys_ok ?s" by (intro claims.sys_ok_put [OF ok _ _ disjI1 [OF rt(1)]]) auto
  have ok1: "claims.sys_ok s1" unfolding after(1) by (rule claims.sys_run_ok [OF ok0 after(2)])
  have s1: "sy_rts s1 i = Some rt1"
    unfolding after(1) using after(3) p(3) by (intro frozen_run p(7)) (simp_all add: put_rt_def)
  have mem: "ca_memory store_api (sy_world s1) = ca_memory store_api (sy_world s)"
    unfolding after(1) using claims.sys_run_memory [OF ok0 after(2)] by (simp add: put_rt_def)
  have idle: "idle_refusal store_api (sy_world s1) rt = None" using p(2) by (simp only: idle_env [OF mem])
  have q: "store_quiet (sy_world s1)" and rt_ok: "claims.rt_ok (sy_world s1) rt1"
    using ok1 s1 by (simp_all add: claims.sys_ok_def)
  obtain a c w' where r: "rt_claim rt1 = Some (a, c)" "cl_session c = rt_session rt"
    "release_transfer store_api mc nm io fz (sy_world s1, rt1) =
      ((w', if io then rt1\<lparr>rt_admission := Owned\<rparr> else rt1\<lparr>rt_claim := None, rt_admission := Released t\<rparr>),
       if io then Some (Transfer_store Store_io) else None)"
    "if io then ow_stage w' a = Owning c \<and> ow_file w' = ow_file (sy_world s1)
     else ow_lock w' = (ow_lock (sy_world s1))(cl_session c := None) \<and>
       ow_file w' = (ow_file (sy_world s1))(cl_session c := record_json (with_transfer Transfer_released (transfer_record_of fz) (cl_record c)))"
    by (rule frozen_release [OF q rt_ok idle p(3-6)])
  have rec: "transfer_record_of fz = \<lparr>tr_id = t, tr_state = Transfer_released, tr_tail = rt_last_event rt, tr_digest = fz_digest fz\<rparr>"
    by (simp add: transfer_record_of_def p(4,5))
  show ?thesis using s1 r by (cases io) (simp_all add: rec)
qed

theorem frozen_session_is_handed_over_witness:
  "let s = sys_run store_api demo_codec demo_events demo_start; rt = the (sy_rts s 0);
       (rt1, fz) = prepare_transfer store_api demo_codec None ''t'' (sy_world s, rt);
       s1 = sys_run store_api demo_codec [Run 0 (Op_model ''other''), Run 0 (Op_close (Inr 8))] (put_rt 0 (sy_world s, rt1) s)
   in sy_rts s1 0 = Some rt1 \<and>
      (\<exists>f w' rt2. fz = Inr f \<and> release_transfer store_api demo_codec None False f (sy_world s1, rt1) = ((w', rt2), None) \<and>
         rt_admission rt2 = Released ''t'' \<and> ow_lock w' 9 = None)"
proof -
  let ?s = "sys_run store_api demo_codec demo_events demo_start"
  let ?rt = "(demo_rt 0)\<lparr>rt_claim := Some (1, new_claim 0 9 demo_holder 0 None), rt_last_event := Some 5\<rparr>"
  let ?es = "[Run 0 (Op_model ''other''), Run 0 (Op_close (Inr 8))]"
  have clean: "never_strands store_api demo_codec demo_events demo_start" by (simp add: demo_events_def)
  obtain rt1 fz where p: "prepare_transfer store_api demo_codec None ''t'' (sy_world ?s, ?rt) = (rt1, Inr fz)"
    using demo_claims(3) by (simp add: prepare_transfer_def demo_rt_def idle_refusal_def store_api_env manifest_encode_def
        demo_codec_def TRANSFER_MANIFEST_MAX_BYTES_def Let_def)
  have n: "never_strands store_api demo_codec ?es (put_rt 0 (sy_world ?s, rt1) ?s)" by simp
  have sp: "\<forall>e \<in> set ?es. spares 0 (rt_process ?rt) e" by simp
  have "rt_session ?rt = 9" by (simp add: demo_rt_def)
  with frozen_session_is_handed_over [OF refl clean [unfolded demo_start_def] demo_claims(1) [unfolded demo_start_def]
      p [unfolded demo_start_def] refl n [unfolded demo_start_def] sp, of False]
  show ?thesis using p demo_claims(1) by (auto simp: demo_start_def Let_def)
qed

text \<open>
  An exit from incognito that cannot claim its new session reports failure and leaves a runtime that still
  counts as the owner: of the old session, on the on-disk store, without a claim and without the floor.
\<close>

lemma failed_exit_strands:
  fixes rt :: "'l session_runtime"
  assumes "is_owned rt" "rt_incognito rt" "claim_for api k next (rt\<lparr>rt_store := h\<rparr>) w = (w', Inl e)"
  shows "\<exists>rt'. exit_incognito api h k next r (w, rt) = ((w', rt'), False) \<and> is_owned rt' \<and> rt_session rt' = rt_session rt \<and>
    rt_store rt' = h \<and> rt_claim rt' = rt_claim rt \<and> \<not> rt_incognito rt' \<and> \<not> incognito (rt_engine rt')"
proof -
  have "claim_for api k next x w = (w', Inl e)"
    if "rt_store x = h" "rt_holder x = rt_holder rt" for x :: "'l session_runtime"
    using assms(3) that by (simp add: claim_for_def)
  with assms(1,2) show ?thesis
    by (auto simp: exit_incognito_def start_new_session_def refuse_unless_owned_def is_owned_def engine_set_def
        gate_admit_def with_incognito_def Let_def)
qed

end
