(* ===== verification/Agent_Definition.thy ===== *)
theory Agent_Definition
  imports Rust_Str "HOL-Library.Sublist" "HOL-Library.List_Lexorder" "HOL-Library.Char_ord"
begin

text \<open>
  \<^verbatim>\<open>crates/localpilot-agents/src\<close>: the format of a subagent definition (\<^verbatim>\<open>definition.rs\<close>), its prompt
  template (\<^verbatim>\<open>template.rs\<close>), what it is granted (\<^verbatim>\<open>grants.rs\<close>) and which of several definitions counts
  (\<^verbatim>\<open>loader.rs\<close>). YAML is read by the argument \<open>parse\<close>, the directories by \<open>list_dir\<close>. An error names its
  reason instead of its text.
\<close>

section \<open>Errors\<close>

datatype invalid_reason =
    Bad_version u32 | Name_length string | Name_start string | Name_char string char | Name_reserved string
  | Empty_description | Empty_prompt | Unknown_placeholder string
  | Entry_empty | Entry_shape string | Entry_whitespace string

datatype agent_error = Agent_io | Agent_parse | Agent_invalid invalid_reason | Unknown_tool string

section \<open>The template\<close>

text \<open>\<open>str::find\<close> with the text on both sides of the match.\<close>

fun split_str :: "string \<Rightarrow> string \<Rightarrow> (string \<times> string) option" where
  "split_str p [] = (if p = [] then Some ([], []) else None)"
| "split_str p (c # s) =
     (if prefix p (c # s) then Some ([], drop (length p) (c # s))
      else map_option (apfst ((#) c)) (split_str p s))"

lemma split_str_Some: "split_str p s = Some (a, b) \<Longrightarrow> s = a @ p @ b"
proof (induction s arbitrary: a)
  case Nil
  then show ?case by (simp split: if_splits)
next
  case (Cons c s)
  then show ?case by (auto simp: prefix_def split: if_splits)
qed

lemma split_str_shrinks: "split_str p s = Some (a, b) \<Longrightarrow> p \<noteq> [] \<Longrightarrow> length b < length s"
  using split_str_Some [of p s a b] by (cases p) auto

definition VOCABULARY :: "string list" where
  "VOCABULARY = [''agent_name'', ''workspace'', ''tools'']"

type_synonym bindings = "(string, string) btree_map"

definition bindings_with :: "string \<Rightarrow> string \<Rightarrow> bindings \<Rightarrow> bindings" where
  "bindings_with key value b = (if key \<in> set VOCABULARY then bt_insert key value b else b)"

function render_template :: "bindings \<Rightarrow> string \<Rightarrow> string" where
  "render_template b rest =
     (case split_str ''{{'' rest of
        None \<Rightarrow> rest
      | Some (pre, after) \<Rightarrow>
          (case split_str ''}}'' after of
             None \<Rightarrow> rest
           | Some (key, rest') \<Rightarrow>
               pre @ (case bt_get b (trim key) of None \<Rightarrow> [] | Some v \<Rightarrow> v) @ render_template b rest'))"
  by pat_completeness auto
termination
  by (relation "measure (length \<circ> snd)") (auto dest!: split_str_shrinks)

declare render_template.simps [simp del]

function placeholders :: "string \<Rightarrow> string list" where
  "placeholders rest =
     (case split_str ''{{'' rest of
        None \<Rightarrow> []
      | Some (pre, after) \<Rightarrow>
          (case split_str ''}}'' after of None \<Rightarrow> [] | Some (key, rest') \<Rightarrow> trim key # placeholders rest'))"
  by pat_completeness auto
termination
  by (relation "measure length") (auto dest!: split_str_shrinks)

declare placeholders.simps [simp del]

definition template_validate :: "string \<Rightarrow> agent_error + unit" where
  "template_validate t =
     (case List.find (\<lambda>k. k \<notin> set VOCABULARY) (placeholders t) of
        None \<Rightarrow> Inr ()
      | Some k \<Rightarrow> Inl (Agent_invalid (Unknown_placeholder k)))"

section \<open>The definition\<close>

definition FORMAT_VERSION :: u32 where
  "FORMAT_VERSION = 1"

datatype effort = Low | Medium | High

fun effort_str :: "effort \<Rightarrow> string" where
  "effort_str Low = ''low''"
| "effort_str Medium = ''medium''"
| "effort_str High = ''high''"

record prompt_parts =
  include_base :: bool
  include_editing_guidance :: bool
  include_safety :: bool
  include_tool_instructions :: bool
  include_look_before_launch :: bool
  include_ask_user :: bool

definition parts_default :: prompt_parts where
  "parts_default =
     \<lparr>include_base = True, include_editing_guidance = True, include_safety = True,
      include_tool_instructions = True, include_look_before_launch = True, include_ask_user = True\<rparr>"

record agent_definition =
  ag_format_version :: u32
  ag_name :: string
  ag_display_name :: "string option"
  ag_description :: string
  ag_model :: "string option"
  ag_effort :: "effort option"
  ag_tools :: "string list"
  ag_prompt_parts :: prompt_parts
  ag_prompt :: string

definition agent_display :: "agent_definition \<Rightarrow> string" where
  "agent_display d = (case ag_display_name d of None \<Rightarrow> ag_name d | Some n \<Rightarrow> n)"

definition wants_all_tools :: "agent_definition \<Rightarrow> bool" where
  "wants_all_tools d \<longleftrightarrow> ''*'' \<in> set (ag_tools d)"

definition RESERVED_NAMES :: "string list" where
  "RESERVED_NAMES = [''all'', ''none'', ''self'', ''parent'', ''default'', ''list'', ''show'']"

definition name_char :: "char \<Rightarrow> bool" where
  "name_char c \<longleftrightarrow> is_ascii_lower c \<or> is_ascii_digit c \<or> c = CHR ''-'' \<or> c = CHR ''_''"

definition validate_name :: "string \<Rightarrow> agent_error + unit" where
  "validate_name name =
     (if name = [] \<or> byte_len name > 48 then Inl (Agent_invalid (Name_length name))
      else if \<not> is_ascii_lower (hd name) then Inl (Agent_invalid (Name_start name))
      else
        case List.find (\<lambda>c. \<not> name_char c) name of
          Some bad \<Rightarrow> Inl (Agent_invalid (Name_char name bad))
        | None \<Rightarrow>
            if name \<in> set RESERVED_NAMES then Inl (Agent_invalid (Name_reserved name)) else Inr ())"

definition validate_tool_entry :: "string \<Rightarrow> agent_error + unit" where
  "validate_tool_entry entry =
     (if entry = ''*'' then Inr ()
      else if trim entry = [] then Inl (Agent_invalid Entry_empty)
      else
        let segments = split_by (\<lambda>c. c = CHR ''/'') entry
        in if length segments > 2 \<or> [] \<in> set segments then Inl (Agent_invalid (Entry_shape entry))
           else if list_ex is_whitespace entry then Inl (Agent_invalid (Entry_whitespace entry))
           else Inr ())"

fun validate_entries :: "string list \<Rightarrow> agent_error + unit" where
  "validate_entries [] = Inr ()"
| "validate_entries (e # es) = (case validate_tool_entry e of Inl x \<Rightarrow> Inl x | Inr _ \<Rightarrow> validate_entries es)"

definition validate_definition :: "agent_definition \<Rightarrow> agent_error + unit" where
  "validate_definition d =
     (if ag_format_version d \<noteq> FORMAT_VERSION then Inl (Agent_invalid (Bad_version (ag_format_version d)))
      else case validate_name (ag_name d) of Inl x \<Rightarrow> Inl x | Inr _ \<Rightarrow>
        if trim (ag_description d) = [] then Inl (Agent_invalid Empty_description)
        else if trim (ag_prompt d) = [] then Inl (Agent_invalid Empty_prompt)
        else case template_validate (ag_prompt d) of Inl x \<Rightarrow> Inl x | Inr _ \<Rightarrow>
          validate_entries (ag_tools d))"

definition from_yaml :: "(string \<Rightarrow> agent_definition option) \<Rightarrow> string \<Rightarrow> agent_error + agent_definition" where
  "from_yaml parse t =
     (case parse t of
        None \<Rightarrow> Inl Agent_parse
      | Some d \<Rightarrow> (case validate_definition d of Inl x \<Rightarrow> Inl x | Inr _ \<Rightarrow> Inr d))"

section \<open>Grants\<close>

record grants =
  gr_tools :: "string list"
  gr_narrowed :: "string list"

definition grants_empty :: "grants \<Rightarrow> bool" where
  "grants_empty g \<longleftrightarrow> gr_tools g = []"

text \<open>The loop over the entries, with the tools and the narrowed entries met so far.\<close>

fun grant_entries ::
  "string list \<Rightarrow> string list \<Rightarrow> string list \<Rightarrow> string list \<Rightarrow> string list \<Rightarrow> agent_error + grants" where
  "grant_entries registered parent [] ts ns = Inr \<lparr>gr_tools = sort_dedup ts, gr_narrowed = sort_dedup ns\<rparr>"
| "grant_entries registered parent (e # es) ts ns =
     (if e = ''*'' then grant_entries registered parent es ts ns
      else if e \<notin> set registered then Inl (Unknown_tool e)
      else if e \<in> set parent then grant_entries registered parent es (ts @ [e]) ns
      else grant_entries registered parent es ts (ns @ [e]))"

definition resolve_grants :: "agent_definition \<Rightarrow> string list \<Rightarrow> string list \<Rightarrow> agent_error + grants" where
  "resolve_grants d registered parent =
     (if wants_all_tools d then Inr \<lparr>gr_tools = sort_dedup parent, gr_narrowed = []\<rparr>
      else grant_entries registered parent (ag_tools d) [] [])"

section \<open>Discovery\<close>

datatype agent_scope = ProjectLocalPilot | ProjectAgents | GlobalLocalPilot | GlobalAgents

fun precedence :: "agent_scope \<Rightarrow> nat" where
  "precedence ProjectLocalPilot = 3"
| "precedence ProjectAgents = 2"
| "precedence GlobalLocalPilot = 1"
| "precedence GlobalAgents = 0"

definition is_global :: "agent_scope \<Rightarrow> bool" where
  "is_global s \<longleftrightarrow> s = GlobalLocalPilot \<or> s = GlobalAgents"

record discovered_agent =
  da_definition :: agent_definition
  da_scope :: agent_scope
  da_path :: "string \<times> string"

record agent_set =
  as_effective :: "(string, discovered_agent) btree_map"
  as_shadowed :: "discovered_agent list"
  as_errors :: "((string \<times> string) \<times> agent_error) list"

definition agent_set_default :: agent_set where
  "agent_set_default = \<lparr>as_effective = bt_empty, as_shadowed = [], as_errors = []\<rparr>"

definition agent_insert :: "discovered_agent \<Rightarrow> agent_set \<Rightarrow> agent_set" where
  "agent_insert c s =
     (case bt_get (as_effective s) (ag_name (da_definition c)) of
        Some existing \<Rightarrow>
          if precedence (da_scope existing) \<ge> precedence (da_scope c)
          then s\<lparr>as_shadowed := as_shadowed s @ [c]\<rparr>
          else s\<lparr>as_effective := bt_insert (ag_name (da_definition c)) c (as_effective s),
                 as_shadowed := as_shadowed s @ [existing]\<rparr>
      | None \<Rightarrow> s\<lparr>as_effective := bt_insert (ag_name (da_definition c)) c (as_effective s)\<rparr>)"

text \<open>A directory lists its entries: the name, whether it is a file, and its text unless it cannot be read.\<close>

record dir_entry =
  de_name :: string
  de_is_file :: bool
  de_text :: "string option"

definition AGENT_SUFFIX :: string where
  "AGENT_SUFFIX = ''.agent.yaml''"

definition load_file ::
  "(string \<Rightarrow> agent_definition option) \<Rightarrow> string \<Rightarrow> agent_scope \<Rightarrow> dir_entry \<Rightarrow> agent_set \<Rightarrow> agent_set" where
  "load_file parse dir scope f s =
     (case (case de_text f of None \<Rightarrow> Inl Agent_io | Some t \<Rightarrow> from_yaml parse t) of
        Inr d \<Rightarrow> agent_insert \<lparr>da_definition = d, da_scope = scope, da_path = (dir, de_name f)\<rparr> s
      | Inl e \<Rightarrow> s\<lparr>as_errors := as_errors s @ [((dir, de_name f), e)]\<rparr>)"

definition load_root ::
  "(string \<Rightarrow> agent_definition option) \<Rightarrow> (string \<Rightarrow> dir_entry list option) \<Rightarrow> string \<times> agent_scope
   \<Rightarrow> agent_set \<Rightarrow> agent_set" where
  "load_root parse list_dir rt s =
     (case list_dir (fst rt) of
        None \<Rightarrow> s
      | Some entries \<Rightarrow>
          fold (load_file parse (fst rt) (snd rt))
            (sort_key de_name (filter (\<lambda>f. de_is_file f \<and> suffix AGENT_SUFFIX (de_name f)) entries)) s)"

definition agent_set_resolve ::
  "(string \<Rightarrow> agent_definition option) \<Rightarrow> (string \<Rightarrow> dir_entry list option) \<Rightarrow> (string \<times> agent_scope) list
   \<Rightarrow> agent_set" where
  "agent_set_resolve parse list_dir roots = fold (load_root parse list_dir) roots agent_set_default"

definition agents_of :: "agent_set \<Rightarrow> discovered_agent list" where
  "agents_of s = bt_values (as_effective s)"

definition agent_get :: "agent_set \<Rightarrow> string \<Rightarrow> discovered_agent option" where
  "agent_get s name = bt_get (as_effective s) name"

definition standard_roots :: "string \<Rightarrow> string option \<Rightarrow> (string \<times> agent_scope) list" where
  "standard_roots project home =
     [(project @ ''/.localpilot/agents'', ProjectLocalPilot), (project @ ''/.agents/agents'', ProjectAgents)] @
     (case home of
        None \<Rightarrow> []
      | Some h \<Rightarrow> [(h @ ''/.localpilot/agents'', GlobalLocalPilot), (h @ ''/.agents/agents'', GlobalAgents)])"

section \<open>Grants are an intersection\<close>

lemma grant_entries_ok:
  "grant_entries registered parent es ts ns = Inr g \<Longrightarrow>
   gr_tools g = sort_dedup (ts @ filter (\<lambda>e. e \<noteq> ''*'' \<and> e \<in> set parent) es) \<and>
   gr_narrowed g = sort_dedup (ns @ filter (\<lambda>e. e \<noteq> ''*'' \<and> e \<notin> set parent) es) \<and>
   (\<forall>e \<in> set es. e \<noteq> ''*'' \<longrightarrow> e \<in> set registered)"
proof (induction es arbitrary: ts ns)
  case (Cons e es)
  consider "e = ''*''" | "e \<noteq> ''*''" "e \<in> set registered" "e \<in> set parent"
    | "e \<noteq> ''*''" "e \<in> set registered" "e \<notin> set parent" | "e \<noteq> ''*''" "e \<notin> set registered"
    by blast
  then show ?case
    using Cons.prems Cons.IH [of ts ns] Cons.IH [of "ts @ [e]" ns] Cons.IH [of ts "ns @ [e]"] by cases simp_all
qed auto

lemma grant_entries_fails:
  "(\<exists>x. grant_entries registered parent es ts ns = Inl x) \<longleftrightarrow> (\<exists>e \<in> set es. e \<noteq> ''*'' \<and> e \<notin> set registered)"
  by (induction es arbitrary: ts ns) simp_all

lemma resolve_grants_ok:
  assumes "resolve_grants d registered parent = Inr g"
  shows "set (gr_tools g) = (if wants_all_tools d then set parent else set (ag_tools d) \<inter> set parent)"
    and "set (gr_narrowed g) = (if wants_all_tools d then {} else set (ag_tools d) - set parent)"
    and "sorted_wrt (<) (gr_tools g)" and "sorted_wrt (<) (gr_narrowed g)"
proof -
  have "gr_tools g = sort_dedup (if wants_all_tools d then parent else filter (\<lambda>e. e \<noteq> ''*'' \<and> e \<in> set parent) (ag_tools d)) \<and>
    gr_narrowed g = sort_dedup (if wants_all_tools d then [] else filter (\<lambda>e. e \<noteq> ''*'' \<and> e \<notin> set parent) (ag_tools d))"
    using assms grant_entries_ok [of registered parent "ag_tools d" "[]" "[]" g]
    by (cases "wants_all_tools d") (auto simp: resolve_grants_def sort_dedup_def)
  moreover have "e \<noteq> ''*''" if "e \<in> set (ag_tools d)" "\<not> wants_all_tools d" for e
    using that by (auto simp: wants_all_tools_def)
  ultimately show "set (gr_tools g) = (if wants_all_tools d then set parent else set (ag_tools d) \<inter> set parent)"
    "set (gr_narrowed g) = (if wants_all_tools d then {} else set (ag_tools d) - set parent)"
    "sorted_wrt (<) (gr_tools g)" "sorted_wrt (<) (gr_narrowed g)"
    by (simp_all add: sorted_sort_dedup) blast+
qed

text \<open>Who resolves against a registry that is the parent's own never narrows: a tool it lacks is unknown.\<close>

lemma own_registry_never_narrows:
  "resolve_grants d parent parent = Inr g \<Longrightarrow> gr_narrowed g = []"
  using grant_entries_ok [of parent parent "ag_tools d" "[]" "[]" g]
  by (auto simp: resolve_grants_def filter_empty_conv split: if_splits)

text \<open>A wildcard hides an entry that names no tool at all.\<close>

lemma wildcard_hides_a_typo:
  "wants_all_tools d \<Longrightarrow> is_ok (resolve_grants d registered parent)"
  by (simp add: resolve_grants_def)

section \<open>One effective definition per name\<close>

text \<open>The candidates in the order they are inserted, and the one that counts: the first of the highest precedence.\<close>

definition outranks :: "discovered_agent \<Rightarrow> discovered_agent option \<Rightarrow> bool" where
  "outranks c x \<longleftrightarrow> (case x of None \<Rightarrow> True | Some y \<Rightarrow> precedence (da_scope y) < precedence (da_scope c))"

fun winner :: "string \<Rightarrow> discovered_agent list \<Rightarrow> discovered_agent option \<Rightarrow> discovered_agent option" where
  "winner n [] acc = acc"
| "winner n (c # cs) acc =
     winner n cs (if ag_name (da_definition c) = n \<and> outranks c acc then Some c else acc)"

lemma agent_insert_effective:
  assumes "bt_inv (as_effective s)"
  shows "bt_inv (as_effective (agent_insert c s))"
    and "bt_get (as_effective (agent_insert c s)) n = winner n [c] (bt_get (as_effective s) n)"
  using assms
  by (auto simp: agent_insert_def outranks_def bt_inv_insert bt_get_insert split: option.splits)

lemma agents_insert_effective:
  assumes "bt_inv (as_effective s)"
  shows "bt_inv (as_effective (fold agent_insert cs s))"
    and "bt_get (as_effective (fold agent_insert cs s)) n = winner n cs (bt_get (as_effective s) n)"
proof -
  have "bt_inv (as_effective (fold agent_insert cs s)) \<and>
    bt_get (as_effective (fold agent_insert cs s)) n = winner n cs (bt_get (as_effective s) n)"
    using assms
  proof (induction cs arbitrary: s)
    case (Cons c cs)
    from Cons.IH [OF agent_insert_effective(1) [OF Cons.prems]] agent_insert_effective(2) [OF Cons.prems, of c n]
    show ?case by simp
  qed simp
  then show "bt_inv (as_effective (fold agent_insert cs s))"
    "bt_get (as_effective (fold agent_insert cs s)) n = winner n cs (bt_get (as_effective s) n)" by simp_all
qed

end
