(* ===== verification/F32.thy ===== *)
theory F32
  imports Complex_Main Rust_Str
begin

text \<open>
  Rust's \<open>f32\<close>, as far as the task-graph crate uses it: parsing a decimal, division,
  comparison, clamping and printing with two decimals. A finite value is the rational it
  denotes; \<open>round_f32\<close> is IEEE round-to-nearest-even at 24 bits of precision with gradual
  underflow, so every operation is the exact result rounded once. The sign of a zero is not
  distinguished.
\<close>

section \<open>Definitions\<close>

datatype f32 = F32_NaN | F32_Inf bool \<comment> \<open>the sign: True for negative\<close> | F32_Fin rat

definition pow2 :: "int \<Rightarrow> rat" where
  "pow2 e = (if 0 \<le> e then 2 ^ nat e else 1 / 2 ^ nat (- e))"

definition round_half_even :: "rat \<Rightarrow> int" where
  "round_half_even x =
     (let f = \<lfloor>x\<rfloor>; r = x - of_int f
      in if r < 1 / 2 then f else if 1 / 2 < r then f + 1
         else if even f then f else f + 1)"

text \<open>
  The spacing of the floats around \<open>q \<ge> 0\<close>: the least exponent, from that of the
  subnormals up, whose 24-bit significands reach past \<open>q\<close>.
\<close>

definition ulp_exponent :: "rat \<Rightarrow> int option" where
  "ulp_exponent q = find (\<lambda>e. q < pow2 (24 + e)) [-149..104]"

definition round_f32_nonneg :: "rat \<Rightarrow> rat option" where
  "round_f32_nonneg q =
     (case ulp_exponent q of
        None \<Rightarrow> None
      | Some e \<Rightarrow>
          (let v = of_int (round_half_even (q / pow2 e)) * pow2 e
           in if v < pow2 128 then Some v else None))"

definition round_f32 :: "rat \<Rightarrow> f32" where
  "round_f32 q =
     (if q < 0
      then (case round_f32_nonneg (- q) of None \<Rightarrow> F32_Inf True | Some v \<Rightarrow> F32_Fin (- v))
      else (case round_f32_nonneg q of None \<Rightarrow> F32_Inf False | Some v \<Rightarrow> F32_Fin v))"

definition f32_neg :: "f32 \<Rightarrow> bool" where
  "f32_neg x = (case x of F32_NaN \<Rightarrow> False | F32_Inf s \<Rightarrow> s | F32_Fin q \<Rightarrow> q < 0)"

fun f32_div :: "f32 \<Rightarrow> f32 \<Rightarrow> f32" where
  "f32_div F32_NaN _ = F32_NaN"
| "f32_div _ F32_NaN = F32_NaN"
| "f32_div (F32_Inf _) (F32_Inf _) = F32_NaN"
| "f32_div (F32_Inf s) (F32_Fin q) = F32_Inf (s \<noteq> (q < 0))"
| "f32_div (F32_Fin _) (F32_Inf _) = F32_Fin 0"
| "f32_div (F32_Fin a) (F32_Fin b) =
     (if b = 0 then (if a = 0 then F32_NaN else F32_Inf (a < 0)) else round_f32 (a / b))"

text \<open>Comparison with a finite constant; every comparison with NaN is false.\<close>

fun f32_le :: "f32 \<Rightarrow> f32 \<Rightarrow> bool" where
  "f32_le F32_NaN _ = False"
| "f32_le _ F32_NaN = False"
| "f32_le (F32_Inf s) (F32_Inf t) = (s \<or> \<not> t)"
| "f32_le (F32_Inf s) (F32_Fin _) = s"
| "f32_le (F32_Fin _) (F32_Inf t) = (\<not> t)"
| "f32_le (F32_Fin a) (F32_Fin b) = (a \<le> b)"

text \<open>\<open>f32::clamp(0.0, 1.0)\<close>: NaN passes through.\<close>

fun f32_clamp01 :: "f32 \<Rightarrow> f32" where
  "f32_clamp01 F32_NaN = F32_NaN"
| "f32_clamp01 (F32_Inf s) = F32_Fin (if s then 0 else 1)"
| "f32_clamp01 (F32_Fin q) = F32_Fin (if q < 0 then 0 else if 1 < q then 1 else q)"

subsection \<open>\<open>str::parse::<f32>\<close>\<close>

definition digits_val :: "string \<Rightarrow> nat" where
  "digits_val s = foldl (\<lambda>a c. 10 * a + (of_char c - 48)) 0 s"

text \<open>The optional exponent part: \<open>e\<close> or \<open>E\<close>, a sign, at least one digit, nothing after.\<close>

definition parse_exponent :: "string \<Rightarrow> int option" where
  "parse_exponent s =
     (case s of
        [] \<Rightarrow> Some 0
      | c # t \<Rightarrow>
          if c = CHR ''e'' \<or> c = CHR ''E'' then
            (let sg = (case t of x # _ \<Rightarrow> x = CHR ''-'' | [] \<Rightarrow> False);
                 ds = (case t of x # u \<Rightarrow> if x = CHR ''-'' \<or> x = CHR ''+'' then u else t
                       | [] \<Rightarrow> t)
             in if ds \<noteq> [] \<and> list_all is_ascii_digit ds
                then Some (if sg then - int (digits_val ds) else int (digits_val ds))
                else None)
          else None)"

definition pow10 :: "int \<Rightarrow> rat" where
  "pow10 e = (if 0 \<le> e then 10 ^ nat e else 1 / 10 ^ nat (- e))"

definition parse_decimal :: "string \<Rightarrow> rat option" where
  "parse_decimal s =
     (let ip = takeWhile is_ascii_digit s; r1 = dropWhile is_ascii_digit s;
          fp = (case r1 of c # t \<Rightarrow> if c = CHR ''.'' then takeWhile is_ascii_digit t else []
                | [] \<Rightarrow> []);
          r2 = (case r1 of c # t \<Rightarrow> if c = CHR ''.'' then dropWhile is_ascii_digit t else r1
                | [] \<Rightarrow> [])
      in if ip = [] \<and> fp = [] then None
         else map_option
                (\<lambda>e. of_nat (digits_val (ip @ fp)) / 10 ^ length fp * pow10 e)
                (parse_exponent r2))"

definition parse_unsigned_f32 :: "bool \<Rightarrow> string \<Rightarrow> f32 option" where
  "parse_unsigned_f32 sg s =
     (if to_ascii_lowercase s = ''inf'' \<or> to_ascii_lowercase s = ''infinity''
      then Some (F32_Inf sg)
      else if to_ascii_lowercase s = ''nan'' then Some F32_NaN
      else map_option (\<lambda>q. if sg \<and> round_f32 q = F32_Inf False then F32_Inf True
                           else round_f32 (if sg then - q else q))
             (parse_decimal s))"

definition parse_f32 :: "string \<Rightarrow> f32 option" where
  "parse_f32 s =
     (case s of
        [] \<Rightarrow> None
      | c # t \<Rightarrow>
          if c = CHR ''-'' then parse_unsigned_f32 True t
          else if c = CHR ''+'' then parse_unsigned_f32 False t
          else parse_unsigned_f32 False s)"

subsection \<open>\<open>{:.2}\<close>\<close>

definition show_fixed2 :: "rat \<Rightarrow> string" where
  "show_fixed2 q =
     (let n = nat (round_half_even (\<bar>q\<bar> * 100))
      in (if q < 0 then ''-'' else []) @ show_nat (n div 100) @ ''.''
         @ [digit_char (n mod 100 div 10), digit_char (n mod 10)])"

definition show_f32_2 :: "f32 \<Rightarrow> string" where
  "show_f32_2 x =
     (case x of F32_NaN \<Rightarrow> ''NaN'' | F32_Inf s \<Rightarrow> (if s then ''-inf'' else ''inf'')
      | F32_Fin q \<Rightarrow> show_fixed2 q)"

section \<open>Lemmas\<close>

lemma pow2_pos [simp]: "0 < pow2 e"
  by (simp add: pow2_def)

lemma pow2_mono: "a \<le> b \<Longrightarrow> pow2 a \<le> pow2 b"
proof -
  assume ab: "a \<le> b"
  have inv: "(1::rat) / 2 ^ n \<le> 1" for n :: nat
    by simp
  show "pow2 a \<le> pow2 b"
  proof (cases "0 \<le> a")
    case True
    with ab show ?thesis
      by (simp add: pow2_def power_increasing)
  next
    case a: False
    show ?thesis
    proof (cases "0 \<le> b")
      case True
      with a inv [of "nat (- a)"] show ?thesis
        by (simp add: pow2_def) (meson inv one_le_numeral one_le_power order_trans)
    next
      case False
      with a ab have "(2::rat) ^ nat (- b) \<le> 2 ^ nat (- a)"
        by (intro power_increasing) auto
      with a False show ?thesis
        by (simp add: pow2_def frac_le)
    qed
  qed
qed

lemma ulp_exponent_overflow: "pow2 128 \<le> q \<Longrightarrow> ulp_exponent q = None"
proof -
  assume q: "pow2 128 \<le> q"
  have "\<not> q < pow2 (24 + e)" if "e \<in> set [-149..104]" for e
  proof -
    from that have "e \<le> 104"
      unfolding set_upto by simp
    then have "pow2 (24 + e) \<le> pow2 128"
      by (intro pow2_mono) simp
    with q show ?thesis
      by linarith
  qed
  then show ?thesis
    unfolding ulp_exponent_def find_None_iff by blast
qed

lemma round_f32_overflow: "pow2 128 \<le> q \<Longrightarrow> round_f32 q = F32_Inf False"
proof -
  assume q: "pow2 128 \<le> q"
  then have "0 \<le> q"
    using pow2_pos [of 128] by linarith
  with q show ?thesis
    by (simp add: round_f32_def round_f32_nonneg_def ulp_exponent_overflow)
qed

lemma round_half_even_mono_nonneg: "0 \<le> x \<Longrightarrow> 0 \<le> round_half_even x"
  by (auto simp: round_half_even_def Let_def)

lemma round_half_even_of_int [simp]: "round_half_even (of_int n) = n"
  by (simp add: round_half_even_def)

definition in_unit :: "f32 \<Rightarrow> bool" where
  "in_unit x = (case x of F32_Fin q \<Rightarrow> 0 \<le> q \<and> q \<le> 1 | _ \<Rightarrow> False)"

lemma clamp01_cases: "x = F32_NaN \<and> f32_clamp01 x = F32_NaN \<or> in_unit (f32_clamp01 x)"
  by (cases x) (auto simp: in_unit_def)

end
