(* ===== verification/Artifact.thy ===== *)
theory Artifact
  imports F32
begin

text \<open>
  \<^verbatim>\<open>crates/localpilot-taskgraph/src/artifact.rs\<close>: the confidence report with its lenient
  parser, and the handoff artifact a completed task hands on, with its rendering.
\<close>

section \<open>Confidence\<close>

text \<open>\<open>struct Confidence(f32)\<close>, built only through \<open>Confidence::new\<close>.\<close>

datatype confidence = Confidence f32

definition confidence_NONE :: confidence where
  "confidence_NONE = Confidence (F32_Fin 0)"

definition confidence_FULL :: confidence where
  "confidence_FULL = Confidence (F32_Fin 1)"

definition confidence_new :: "f32 \<Rightarrow> confidence" where
  "confidence_new v = Confidence (f32_clamp01 v)"

fun confidence_value :: "confidence \<Rightarrow> f32" where
  "confidence_value (Confidence v) = v"

definition confidence_at_least :: "confidence \<Rightarrow> confidence \<Rightarrow> bool" where
  "confidence_at_least c lo = f32_le (confidence_value lo) (confidence_value c)"

definition show_confidence :: "confidence \<Rightarrow> string" where
  "show_confidence c = show_f32_2 (confidence_value c)"

datatype confidence_error = Missing | Unreadable string

text \<open>The word scale, longest qualifier first.\<close>

definition WORD_SCALE :: "(string \<times> f32) list" where
  "WORD_SCALE =
     [(''very low'', round_f32 (1 / 10)), (''very high'', round_f32 (95 / 100)),
      (''certain'', round_f32 1), (''none'', round_f32 0), (''low'', round_f32 (1 / 4)),
      (''moderate'', round_f32 (1 / 2)), (''medium'', round_f32 (1 / 2)),
      (''high'', round_f32 (8 / 10))]"

definition read_numeric_trim :: "char \<Rightarrow> bool" where
  "read_numeric_trim c \<longleftrightarrow>
     \<not> is_ascii_digit c \<and> c \<noteq> CHR ''.'' \<and> c \<noteq> CHR ''/'' \<and> c \<noteq> CHR ''%''"

definition read_bare :: "f32 \<Rightarrow> f32" where
  "read_bare v =
     (if f32_le v (F32_Fin 1) then v
      else if f32_le v (F32_Fin 10) then f32_div v (F32_Fin 10)
      else f32_div v (F32_Fin 100))"

definition read_numeric :: "string \<Rightarrow> confidence option" where
  "read_numeric raw =
     (let token = trim_matches read_numeric_trim raw
      in if token = [] then None
         else (case split_once token CHR ''/'' of
             Some (num, den) \<Rightarrow>
               (case (parse_f32 (trim num), parse_f32 (trim den)) of
                  (Some n, Some d) \<Rightarrow>
                    if f32_le d (F32_Fin 0) then None
                    else Some (confidence_new (f32_div n d))
                | _ \<Rightarrow> None)
           | None \<Rightarrow>
               (case strip_suffix token ''%'' of
                  Some percent \<Rightarrow>
                    map_option (\<lambda>v. confidence_new (f32_div v (F32_Fin 100)))
                      (parse_f32 (trim percent))
                | None \<Rightarrow> map_option (\<lambda>v. confidence_new (read_bare v)) (parse_f32 token))))"

text \<open>The first readable token wins.\<close>

fun first_numeric :: "string list \<Rightarrow> confidence option" where
  "first_numeric [] = None"
| "first_numeric (t # ts) =
     (case read_numeric t of Some c \<Rightarrow> Some c | None \<Rightarrow> first_numeric ts)"

definition parse_confidence :: "string \<Rightarrow> confidence_error + confidence" where
  "parse_confidence raw =
     (let trimmed = trim raw
      in if trimmed = [] then Inl Missing
         else
           (let lower = to_ascii_lowercase trimmed
            in case find (\<lambda>(needle, _). str_contains lower needle) WORD_SCALE of
                 Some (_, v) \<Rightarrow> Inr (confidence_new v)
               | None \<Rightarrow>
                   (case (if CHR ''/'' \<in> set lower
                          then read_numeric (remove_char CHR '' '' lower) else None) of
                      Some found \<Rightarrow> Inr found
                    | None \<Rightarrow>
                        (case first_numeric
                                (split_by (\<lambda>c. is_whitespace c \<or> c = CHR '','' \<or> c = CHR '';'')
                                   lower) of
                           Some found \<Rightarrow> Inr found
                         | None \<Rightarrow> Inl (Unreadable trimmed)))))"

text \<open>
  \<open>Deserialize for Confidence\<close>: a JSON number goes through \<open>Confidence::new\<close>, a string
  through the parser; any other JSON value is an error.
\<close>

datatype raw_confidence = RawNumber f32 | RawText string

fun deserialize_confidence :: "raw_confidence \<Rightarrow> confidence_error + confidence" where
  "deserialize_confidence (RawNumber v) = Inr (confidence_new v)"
| "deserialize_confidence (RawText t) = parse_confidence t"

section \<open>The handoff artifact\<close>

record handoff_artifact =
  findings :: string
  evidence :: "string list"
  edge_cases :: "string list"
  validation :: string
  open_questions :: "string list"
  confidence_of :: confidence
  what_i_did_not_check :: string

definition artifact_new :: "string \<Rightarrow> confidence \<Rightarrow> handoff_artifact" where
  "artifact_new f c =
     \<lparr>findings = f, evidence = [], edge_cases = [], validation = [], open_questions = [],
      confidence_of = c, what_i_did_not_check = []\<rparr>"

definition with_gap :: "handoff_artifact \<Rightarrow> string \<Rightarrow> handoff_artifact" where
  "with_gap a gap = a\<lparr>what_i_did_not_check := gap\<rparr>"

definition with_evidence :: "handoff_artifact \<Rightarrow> string \<Rightarrow> handoff_artifact" where
  "with_evidence a e = a\<lparr>evidence := evidence a @ [e]\<rparr>"

definition with_validation :: "handoff_artifact \<Rightarrow> string \<Rightarrow> handoff_artifact" where
  "with_validation a v = a\<lparr>validation := v\<rparr>"

definition push_list :: "string \<Rightarrow> string \<Rightarrow> string list \<Rightarrow> string" where
  "push_list out heading items =
     (let items' = filter (\<lambda>i. trim i \<noteq> []) items
      in if items' = [] then out
         else out @ heading @ '':'' @ newline
              @ concat (map (\<lambda>i. ''- '' @ trim i @ newline) items'))"

definition render :: "handoff_artifact \<Rightarrow> string \<Rightarrow> string" where
  "render a label =
     (let out = ''### '' @ label @ newline @ trim (findings a) @ newline;
          out = push_list out ''Evidence'' (evidence a);
          out = push_list out ''Edge cases'' (edge_cases a);
          out = (if trim (validation a) \<noteq> []
                 then out @ ''Validation: '' @ trim (validation a) @ newline else out);
          out = push_list out ''Open questions'' (open_questions a);
          out = (if trim (what_i_did_not_check a) \<noteq> []
                 then out @ ''Not checked: '' @ trim (what_i_did_not_check a) @ newline else out)
      in out @ ''Confidence: '' @ show_confidence (confidence_of a) @ newline)"

section \<open>Lemmas\<close>

definition normalised :: "confidence \<Rightarrow> bool" where
  "normalised c \<longleftrightarrow> confidence_value c = F32_NaN \<or> in_unit (confidence_value c)"

lemma normalised_new [simp]: "normalised (confidence_new v)"
  using clamp01_cases [of v] by (auto simp: normalised_def confidence_new_def)

lemma read_numeric_normalised: "read_numeric t = Some c \<Longrightarrow> normalised c"
  by (auto simp: read_numeric_def Let_def split: if_splits option.splits prod.splits)

lemma first_numeric_normalised: "first_numeric ts = Some c \<Longrightarrow> normalised c"
  by (induction ts) (auto dest: read_numeric_normalised split: option.splits)

lemma parse_confidence_normalised: "parse_confidence raw = Inr c \<Longrightarrow> normalised c"
  by (auto simp: parse_confidence_def Let_def
      dest: read_numeric_normalised first_numeric_normalised
      split: if_splits option.splits prod.splits)

lemma parse_confidence_error:
  "parse_confidence raw = Inl e \<Longrightarrow>
     (if blank raw then e = Missing else e = Unreadable (trim raw))"
  by (auto simp: parse_confidence_def Let_def trim_eq_Nil
      split: if_splits option.splits prod.splits)

lemma parse_confidence_Missing_iff: "parse_confidence raw = Inl Missing \<longleftrightarrow> blank raw"
  by (auto simp: parse_confidence_def Let_def trim_eq_Nil
      split: if_splits option.splits prod.splits)

text \<open>A rendering is its heading and findings followed by the sections that are not empty.\<close>

definition render_tail :: "handoff_artifact \<Rightarrow> string" where
  "render_tail a =
     push_list [] ''Evidence'' (evidence a) @ push_list [] ''Edge cases'' (edge_cases a)
     @ (if blank (validation a) then [] else ''Validation: '' @ trim (validation a) @ newline)
     @ push_list [] ''Open questions'' (open_questions a)
     @ (if blank (what_i_did_not_check a) then []
        else ''Not checked: '' @ trim (what_i_did_not_check a) @ newline)
     @ ''Confidence: '' @ show_confidence (confidence_of a) @ newline"

lemma push_list_append: "push_list out h items = out @ push_list [] h items"
  by (simp add: push_list_def Let_def)

lemma render_eq:
  "render a label = ''### '' @ label @ newline @ trim (findings a) @ newline @ render_tail a"
proof -
  define p where "p = ''### '' @ label @ newline @ trim (findings a) @ newline"
  define e where "e = push_list [] ''Evidence'' (evidence a)"
  define c where "c = push_list [] ''Edge cases'' (edge_cases a)"
  define q where "q = push_list [] ''Open questions'' (open_questions a)"
  have "push_list p ''Evidence'' (evidence a) = p @ e"
    and "push_list x ''Edge cases'' (edge_cases a) = x @ c"
    and "push_list x ''Open questions'' (open_questions a) = x @ q" for x
    unfolding e_def c_def q_def by (rule push_list_append)+
  then have "render a label = p @ render_tail a"
    unfolding render_def Let_def render_tail_def trim_eq_Nil p_def [symmetric]
      e_def [symmetric] c_def [symmetric] q_def [symmetric] by simp
  then show ?thesis
    by (simp add: p_def)
qed

end
