(* ===== verification/Graph.thy ===== *)
theory Graph
  imports Main
begin

text \<open>
  Lemmas on acyclic relations, shared by the batch check and the plan invariant: adding
  edges out of one node, and stacking a new layer of nodes on an old graph.
\<close>

lemma acyclicE_self: "acyclic r \<Longrightarrow> (x, x) \<notin> r\<^sup>+"
  by (simp add: acyclic_def)

lemma trancl_add_from:
  "(x, y) \<in> (E \<union> {i} \<times> U)\<^sup>+ \<Longrightarrow>
     (x, y) \<in> E\<^sup>+ \<or> ((x, i) \<in> E\<^sup>* \<and> (\<exists>u \<in> U. (u, y) \<in> (E \<union> {i} \<times> U)\<^sup>*))"
proof (induction rule: trancl_induct)
  case (base y)
  then show ?case
    by auto
next
  case (step y z)
  show ?case
  proof (cases "(x, y) \<in> E\<^sup>+")
    case True
    from step.hyps(2) show ?thesis
    proof
      assume "(y, z) \<in> E"
      with True show ?thesis
        by (auto intro: trancl_into_trancl)
    next
      assume "(y, z) \<in> {i} \<times> U"
      with True show ?thesis
        by (auto intro: trancl_into_rtrancl)
    qed
  next
    case False
    with step.IH obtain u where "(x, i) \<in> E\<^sup>*" "u \<in> U" "(u, y) \<in> (E \<union> {i} \<times> U)\<^sup>*"
      by blast
    with step.hyps(2) show ?thesis
      by (meson rtrancl.rtrancl_into_rtrancl)
  qed
qed

lemma rtrancl_add_from_avoid:
  assumes avoid: "\<And>u. u \<in> U \<Longrightarrow> (u, i) \<notin> E\<^sup>*"
  shows "(u, y) \<in> (E \<union> {i} \<times> U)\<^sup>* \<Longrightarrow> u \<in> U \<Longrightarrow> (u, y) \<in> E\<^sup>*"
proof (induction rule: rtrancl_induct)
  case (step y z)
  then have uy: "(u, y) \<in> E\<^sup>*"
    by blast
  with avoid [OF step.prems] have "y \<noteq> i"
    by blast
  with step.hyps(2) uy show ?case
    by (auto intro: rtrancl_into_rtrancl)
qed simp

text \<open>New edges out of \<open>i\<close> close no cycle when none of their targets reaches \<open>i\<close>.\<close>

lemma acyclic_add_from:
  assumes "acyclic E" and avoid: "\<And>u. u \<in> U \<Longrightarrow> (u, i) \<notin> E\<^sup>*"
  shows "acyclic (E \<union> {i} \<times> U)"
proof (rule acyclicI, rule allI, rule notI)
  fix x assume cyc: "(x, x) \<in> (E \<union> {i} \<times> U)\<^sup>+"
  from trancl_add_from [OF this] assms(1) obtain u
    where xi: "(x, i) \<in> E\<^sup>*" and u: "u \<in> U" and ux: "(u, x) \<in> (E \<union> {i} \<times> U)\<^sup>*"
    by (auto simp: acyclic_def)
  from rtrancl_add_from_avoid [OF avoid ux u] have "(u, x) \<in> E\<^sup>*"
    by blast
  with xi avoid [OF u] show False
    by (meson rtrancl_trans)
qed

text \<open>
  A layer of new nodes: old edges stay among the old nodes, every other edge starts at a
  new node.
\<close>

definition layered ::
  "'a set \<Rightarrow> ('a \<times> 'a) set \<Rightarrow> ('a \<times> 'a) set \<Rightarrow> ('a \<times> 'a) set \<Rightarrow> bool" where
  "layered old A B N \<longleftrightarrow>
     A \<subseteq> old \<times> old \<and> B \<subseteq> (- old) \<times> old \<and> N \<subseteq> (- old) \<times> (- old)"

lemma layered_from_old:
  assumes "layered old A B N"
  shows "(x, y) \<in> (A \<union> B \<union> N)\<^sup>+ \<Longrightarrow> x \<in> old \<Longrightarrow> (x, y) \<in> A\<^sup>+ \<and> y \<in> old"
proof (induction rule: trancl_induct)
  case (base y)
  with assms show ?case
    by (auto simp: layered_def)
next
  case (step y z)
  then have "y \<in> old" "(x, y) \<in> A\<^sup>+"
    by auto
  moreover from \<open>y \<in> old\<close> step.hyps(2) assms have "(y, z) \<in> A" "z \<in> old"
    by (auto simp: layered_def)
  ultimately show ?case
    by (auto intro: trancl_into_trancl)
qed

lemma layered_to_new:
  assumes "layered old A B N"
  shows "(x, y) \<in> (A \<union> B \<union> N)\<^sup>+ \<Longrightarrow> y \<notin> old \<Longrightarrow> (x, y) \<in> N\<^sup>+ \<and> x \<notin> old"
proof (induction rule: trancl_induct)
  case (base y)
  with assms show ?case
    by (auto simp: layered_def)
next
  case (step y z)
  from \<open>z \<notin> old\<close> step.hyps(2) assms have "(y, z) \<in> N" "y \<notin> old"
    by (auto simp: layered_def)
  with step.IH show ?case
    by (auto intro: trancl_into_trancl)
qed

lemma acyclic_layers:
  "layered old A B N \<Longrightarrow> acyclic A \<Longrightarrow> acyclic N \<Longrightarrow> acyclic (A \<union> B \<union> N)"
  unfolding acyclic_def using layered_from_old layered_to_new by metis

text \<open>A relation that maps into an acyclic one is acyclic.\<close>

lemma acyclic_image:
  assumes "acyclic S" and map: "\<And>x y. (x, y) \<in> R \<Longrightarrow> (f x, f y) \<in> S"
  shows "acyclic R"
proof (rule acyclicI, rule allI, rule notI)
  fix x assume "(x, x) \<in> R\<^sup>+"
  moreover have "(x, y) \<in> R\<^sup>+ \<Longrightarrow> (f x, f y) \<in> S\<^sup>+" for y
    by (induction rule: trancl_induct) (auto intro: map trancl_into_trancl)
  ultimately show False
    using assms(1) by (auto simp: acyclic_def)
qed

text \<open>A non-empty finite set of nodes has one with no edge inside the set.\<close>

lemma acyclic_has_sink:
  assumes "acyclic E" "finite E" "S \<noteq> {}"
  obtains x where "x \<in> S" "\<And>y. (x, y) \<in> E \<Longrightarrow> y \<notin> S"
proof -
  have "wf (E\<inverse>)"
    using assms(1,2) by (rule finite_acyclic_wf_converse [rotated])
  with assms(3) obtain x where "x \<in> S" "\<And>y. (y, x) \<in> E\<inverse> \<Longrightarrow> y \<notin> S"
    using wfE_min by (metis all_not_in_conv)
  then show thesis
    using that by blast
qed

end
