(* ===== verification/Plan.thy ===== *)
theory Plan
  imports Artifact Graph
begin

text \<open>
  \<^verbatim>\<open>crates/localpilot-taskgraph/src/plan.rs\<close> and \<^verbatim>\<open>error.rs\<close>: tasks, the edges between
  them, the plan that owns both, and the refusals. The graph search
  \<open>depends_transitively_on\<close> is shown equal to the transitive closure of the edge relation,
  and \<open>wf_plan\<close> is the structural invariant the operations of theory \<open>Ops\<close> keep.
\<close>

section \<open>Data\<close>

type_synonym actor_id = string
type_synonym node_id = nat \<comment> \<open>a \<open>u32\<close>, minted by \<open>next_id\<close>\<close>

definition show_node_id :: "node_id \<Rightarrow> string" where
  "show_node_id i = ''#'' @ show_nat i"

datatype node_kind = Task | Gate

datatype task_status =
    Pending
  | Assigned actor_id
  | Complete
  | Failed string
  | Abandoned string

fun is_terminal :: "task_status \<Rightarrow> bool" where
  "is_terminal Complete = True"
| "is_terminal (Failed _) = True"
| "is_terminal (Abandoned _) = True"
| "is_terminal _ = False"

fun status_label :: "task_status \<Rightarrow> string" where
  "status_label Pending = ''pending''"
| "status_label (Assigned _) = ''assigned''"
| "status_label Complete = ''complete''"
| "status_label (Failed _) = ''failed''"
| "status_label (Abandoned _) = ''abandoned''"

record task_node =
  nid :: node_id
  title :: string
  prompt :: string
  kind :: node_kind
  owner :: actor_id
  status :: task_status
  upstream :: "node_id list"
  artifact :: "handoff_artifact option"
  reclaims :: u32
  model :: "string option"

definition node_is_terminal :: "task_node \<Rightarrow> bool" where
  "node_is_terminal n = is_terminal (status n)"

definition assignee :: "task_node \<Rightarrow> actor_id option" where
  "assignee n = (case status n of Assigned a \<Rightarrow> Some a | _ \<Rightarrow> None)"

datatype plan_mode = Light | Deep

fun is_deep :: "plan_mode \<Rightarrow> bool" where
  "is_deep Deep = True"
| "is_deep Light = False"

record node_spec =
  spec_title :: string
  spec_prompt :: string
  spec_kind :: node_kind
  depends_on_batch :: "nat list"
  spec_model :: "string option"

definition spec_task :: "string \<Rightarrow> string \<Rightarrow> node_spec" where
  "spec_task t p =
     \<lparr>spec_title = t, spec_prompt = p, spec_kind = Task, depends_on_batch = [],
      spec_model = None\<rparr>"

definition spec_gate :: "string \<Rightarrow> string \<Rightarrow> node_spec" where
  "spec_gate t p = (spec_task t p)\<lparr>spec_kind := Gate\<rparr>"

definition spec_after :: "node_spec \<Rightarrow> nat \<Rightarrow> node_spec" where
  "spec_after s i = s\<lparr>depends_on_batch := depends_on_batch s @ [i]\<rparr>"

definition spec_on_model :: "node_spec \<Rightarrow> string \<Rightarrow> node_spec" where
  "spec_on_model s m = s\<lparr>spec_model := Some m\<rparr>"

record task_plan =
  objective :: string
  mode :: plan_mode
  coordinator :: actor_id
  version :: u64
  nodes :: "(node_id, task_node) btree_map"
  next_id :: nat
  applied_seeds :: "(string, node_id list) btree_map"

datatype plan_error =
    UnknownNode node_id
  | NotOwner node_id actor_id actor_id
  | WrongAssignee node_id actor_id actor_id
  | NotAssigned node_id
  | AlreadyTerminal node_id string
  | WouldCycle node_id node_id
  | BatchIndexOutOfRange nat nat
  | BatchCycle nat
  | EmptyBatch string
  | IncompleteArtifact node_id string
  | RubberStampGate node_id
  | NotAGate node_id
  | NotReady node_id "node_id list"
  | AlreadyAssigned node_id actor_id
  | BlockedBy node_id "node_id list"
  | ReclaimBudgetExhausted node_id u32 u32

section \<open>Operations of the plan\<close>

definition plan_new :: "string \<Rightarrow> plan_mode \<Rightarrow> actor_id \<Rightarrow> task_plan" where
  "plan_new obj m c =
     \<lparr>objective = obj, mode = m, coordinator = c, version = 0, nodes = bt_empty, next_id = 1,
      applied_seeds = bt_empty\<rparr>"

definition bump_version :: "task_plan \<Rightarrow> task_plan" where
  "bump_version p = p\<lparr>version := version p + 1\<rparr>"

definition set_coordinator :: "task_plan \<Rightarrow> actor_id \<Rightarrow> task_plan" where
  "set_coordinator p c =
     (if coordinator p \<noteq> c then p\<lparr>coordinator := c, version := version p + 1\<rparr> else p)"

definition node :: "task_plan \<Rightarrow> node_id \<Rightarrow> task_node option" where
  "node p i = bt_get (nodes p) i"

definition plan_nodes :: "task_plan \<Rightarrow> task_node list" where
  "plan_nodes p = bt_values (nodes p)"

definition plan_len :: "task_plan \<Rightarrow> nat" where
  "plan_len p = length (nodes p)"

definition plan_is_empty :: "task_plan \<Rightarrow> bool" where
  "plan_is_empty p \<longleftrightarrow> nodes p = []"

definition is_settled :: "task_plan \<Rightarrow> bool" where
  "is_settled p = list_all node_is_terminal (plan_nodes p)"

definition dependents :: "task_plan \<Rightarrow> node_id \<Rightarrow> node_id list" where
  "dependents p i = map nid (filter (\<lambda>n. i \<in> set (upstream n)) (plan_nodes p))"

definition plan_keys :: "task_plan \<Rightarrow> node_id set" where
  "plan_keys p = set (bt_keys (nodes p))"

text \<open>
  The worklist of \<open>depends_transitively_on\<close>: the head of the list is the top of the stack,
  so pushing a node's dependencies in order puts the last of them on top. An id the plan
  does not hold has no edges.
\<close>

function dto_loop ::
  "task_plan \<Rightarrow> node_id \<Rightarrow> node_id \<Rightarrow> node_id list \<Rightarrow> node_id list \<Rightarrow> bool" where
  "dto_loop p src dst seen [] = False"
| "dto_loop p src dst seen (c # stack) =
     (if c = dst \<and> c \<noteq> src then True
      else if c \<in> set seen then dto_loop p src dst seen stack
      else (case node p c of
              None \<Rightarrow> dto_loop p src dst (c # seen) stack
            | Some n \<Rightarrow>
                if dst \<in> set (upstream n) then True
                else dto_loop p src dst (c # seen) (rev (upstream n) @ stack)))"
  by pat_completeness auto
termination
proof (relation "measures [\<lambda>(p, src, dst, seen, stack). card (plan_keys p - set seen),
                           \<lambda>(p, src, dst, seen, stack). length stack]", goal_cases)
  case (3 p src dst seen c stack)
  have "card (plan_keys p - set (c # seen)) \<le> card (plan_keys p - set seen)"
    by (rule card_mono) (auto simp: plan_keys_def)
  then show ?case
    by auto
next
  case (4 p src dst seen c stack n)
  then have "c \<in> plan_keys p"
    by (auto simp: plan_keys_def node_def bt.set_keys)
  with 4 have "plan_keys p - set (c # seen) \<subset> plan_keys p - set seen"
    by auto
  then have "card (plan_keys p - set (c # seen)) < card (plan_keys p - set seen)"
    by (rule psubset_card_mono [rotated]) (simp add: plan_keys_def)
  then show ?case
    by simp
qed simp_all

definition depends_transitively_on :: "task_plan \<Rightarrow> node_id \<Rightarrow> node_id \<Rightarrow> bool" where
  "depends_transitively_on p src dst = dto_loop p src dst [] [src]"

definition plan_insert ::
  "task_plan \<Rightarrow> node_spec \<Rightarrow> actor_id \<Rightarrow> node_id list \<Rightarrow> task_plan \<times> node_id" where
  "plan_insert p spec own ups =
     (let i = next_id p
      in (p\<lparr>next_id := wrap32 (next_id p + 1),
            nodes := bt_insert i
              \<lparr>nid = i, title = spec_title spec, prompt = spec_prompt spec,
               kind = spec_kind spec, owner = own, status = Pending,
               upstream = sort_dedup ups, artifact = None, reclaims = 0,
               model = spec_model spec\<rparr> (nodes p)\<rparr>, i))"

text \<open>A write through \<open>node_mut\<close>; nothing happens when the plan does not hold the id.\<close>

definition node_mut :: "task_plan \<Rightarrow> node_id \<Rightarrow> (task_node \<Rightarrow> task_node) \<Rightarrow> task_plan" where
  "node_mut p i f = p\<lparr>nodes := bt_modify i f (nodes p)\<rparr>"

definition replayed_seed :: "task_plan \<Rightarrow> string \<Rightarrow> node_id list option" where
  "replayed_seed p key = bt_get (applied_seeds p) key"

definition record_seed :: "task_plan \<Rightarrow> string \<Rightarrow> node_id list \<Rightarrow> task_plan" where
  "record_seed p key produced = p\<lparr>applied_seeds := bt_insert key produced (applied_seeds p)\<rparr>"

section \<open>The dependency relation and the structural invariant\<close>

text \<open>\<open>(a, b)\<close> when \<open>a\<close> waits on \<open>b\<close>.\<close>

definition edges :: "task_plan \<Rightarrow> (node_id \<times> node_id) set" where
  "edges p = {(a, b). \<exists>n. node p a = Some n \<and> b \<in> set (upstream n)}"

definition wf_node :: "task_plan \<Rightarrow> node_id \<Rightarrow> task_node \<Rightarrow> bool" where
  "wf_node p i n \<longleftrightarrow>
     nid n = i \<and> 0 < i \<and> i < next_id p \<and> sorted_wrt (<) (upstream n)
     \<and> (\<forall>u \<in> set (upstream n). node p u \<noteq> None)
     \<and> (artifact n \<noteq> None \<longleftrightarrow> status n = Complete)"

definition wf_plan :: "task_plan \<Rightarrow> bool" where
  "wf_plan p \<longleftrightarrow>
     bt_inv (nodes p) \<and> bt_inv (applied_seeds p) \<and> 0 < next_id p \<and> next_id p < 2 ^ 32
     \<and> (\<forall>i n. node p i = Some n \<longrightarrow> wf_node p i n)
     \<and> acyclic (edges p)
     \<and> (\<forall>key ids. replayed_seed p key = Some ids \<longrightarrow> (\<forall>i \<in> set ids. node p i \<noteq> None))"

section \<open>Lemmas\<close>

named_theorems plan_simps \<open>how the plan's fields change under its operations\<close>

lemma node_node_mut [plan_simps]:
  "node (node_mut p i f) j = (if j = i then map_option f (node p i) else node p j)"
  by (simp add: node_def node_mut_def bt.get_modify)

lemma node_bump_version [plan_simps]: "node (bump_version p) i = node p i"
  by (simp add: node_def bump_version_def)

lemma node_record_seed [plan_simps]: "node (record_seed p key ids) i = node p i"
  by (simp add: node_def record_seed_def)

lemma node_plan_insert:
  assumes "bt_inv (nodes p)"
  shows "node (fst (plan_insert p spec own ups)) j =
    (if j = next_id p
     then Some \<lparr>nid = next_id p, title = spec_title spec, prompt = spec_prompt spec,
                kind = spec_kind spec, owner = own, status = Pending,
                upstream = sort_dedup ups, artifact = None, reclaims = 0,
                model = spec_model spec\<rparr>
     else node p j)"
  using assms by (simp add: node_def plan_insert_def Let_def bt.get_insert)

lemma snd_plan_insert [plan_simps]: "snd (plan_insert p spec own ups) = next_id p"
  by (simp add: plan_insert_def Let_def)

lemma next_id_simps [plan_simps]:
  "next_id (node_mut p i f) = next_id p"
  "next_id (bump_version p) = next_id p"
  "next_id (record_seed p key ids) = next_id p"
  "next_id (fst (plan_insert p spec own ups)) = wrap32 (next_id p + 1)"
  by (simp_all add: node_mut_def bump_version_def record_seed_def plan_insert_def Let_def)

lemma mode_simps [plan_simps]:
  "mode (node_mut p i f) = mode p"
  "mode (bump_version p) = mode p"
  "mode (record_seed p key ids) = mode p"
  "mode (fst (plan_insert p spec own ups)) = mode p"
  by (simp_all add: node_mut_def bump_version_def record_seed_def plan_insert_def Let_def)

lemma version_simps [plan_simps]:
  "version (node_mut p i f) = version p"
  "version (bump_version p) = version p + 1"
  "version (record_seed p key ids) = version p"
  "version (fst (plan_insert p spec own ups)) = version p"
  by (simp_all add: node_mut_def bump_version_def record_seed_def plan_insert_def Let_def)

lemma replayed_seed_simps [plan_simps]:
  "replayed_seed (node_mut p i f) key = replayed_seed p key"
  "replayed_seed (bump_version p) key = replayed_seed p key"
  "replayed_seed (fst (plan_insert p spec own ups)) key = replayed_seed p key"
  by (simp_all add: replayed_seed_def node_mut_def bump_version_def plan_insert_def Let_def)

lemma replayed_record_seed:
  "bt_inv (applied_seeds p) \<Longrightarrow>
     replayed_seed (record_seed p key ids) = (replayed_seed p)(key \<mapsto> ids)"
  by (simp add: replayed_seed_def record_seed_def bt.get_insert fun_eq_iff)

lemma bt_inv_nodes_simps [plan_simps]:
  "bt_inv (nodes p) \<Longrightarrow> bt_inv (nodes (node_mut p i f))"
  "bt_inv (nodes (bump_version p)) = bt_inv (nodes p)"
  "bt_inv (nodes (record_seed p key ids)) = bt_inv (nodes p)"
  "bt_inv (nodes p) \<Longrightarrow> bt_inv (nodes (fst (plan_insert p spec own ups)))"
  by (simp_all add: node_mut_def bump_version_def record_seed_def plan_insert_def Let_def
      bt_laws)

lemma bt_inv_seeds_simps [plan_simps]:
  "bt_inv (applied_seeds (node_mut p i f)) = bt_inv (applied_seeds p)"
  "bt_inv (applied_seeds (bump_version p)) = bt_inv (applied_seeds p)"
  "bt_inv (applied_seeds p) \<Longrightarrow> bt_inv (applied_seeds (record_seed p key ids))"
  "bt_inv (applied_seeds (fst (plan_insert p spec own ups))) = bt_inv (applied_seeds p)"
  by (simp_all add: node_mut_def bump_version_def record_seed_def plan_insert_def Let_def
      bt_laws)

subsection \<open>Consequences of well-formedness\<close>

lemma wf_planD:
  assumes "wf_plan p"
  shows "bt_inv (nodes p)" "bt_inv (applied_seeds p)" "0 < next_id p" "next_id p < 2 ^ 32"
    "acyclic (edges p)"
    "node p i = Some n \<Longrightarrow> wf_node p i n"
    "replayed_seed p key = Some ids \<Longrightarrow> j \<in> set ids \<Longrightarrow> node p j \<noteq> None"
  using assms by (auto simp: wf_plan_def)

lemma wf_node_fresh: "wf_plan p \<Longrightarrow> next_id p \<le> i \<Longrightarrow> node p i = None"
  using wf_planD(6) [of p i] by (cases "node p i") (auto simp: wf_node_def)

lemma plan_nodes_iff:
  "wf_plan p \<Longrightarrow> n \<in> set (plan_nodes p) \<longleftrightarrow> node p (nid n) = Some n"
proof -
  assume wf: "wf_plan p"
  then have "n \<in> set (plan_nodes p) \<longleftrightarrow> (\<exists>k. node p k = Some n)"
    by (simp add: plan_nodes_def node_def bt.vals_iff wf_planD)
  also have "\<dots> \<longleftrightarrow> node p (nid n) = Some n"
    using wf_planD(6) [OF wf] by (auto simp: wf_node_def)
  finally show ?thesis .
qed

lemma map_nid_plan_nodes: "wf_plan p \<Longrightarrow> map nid (plan_nodes p) = bt_keys (nodes p)"
proof -
  assume wf: "wf_plan p"
  have "map nid (plan_nodes p) = map (\<lambda>k. nid (the (bt_get (nodes p) k))) (bt_keys (nodes p))"
    using wf by (simp add: plan_nodes_def bt.vals_keys wf_planD)
  also have "\<dots> = map (\<lambda>k. k) (bt_keys (nodes p))"
    using wf_planD(6) [OF wf] by (intro map_cong) (auto simp: bt.set_keys wf_node_def node_def)
  finally show ?thesis
    by simp
qed

lemma sorted_filter_nids:
  "wf_plan p \<Longrightarrow> sorted_wrt (<) (map nid (filter P (plan_nodes p)))"
proof -
  assume wf: "wf_plan p"
  then have "sorted_wrt (<) (map nid (plan_nodes p))"
    by (simp add: map_nid_plan_nodes bt.keys_sorted wf_planD)
  then show ?thesis
    by (simp add: sorted_wrt_map sorted_wrt_filter)
qed

lemma edges_dom: "wf_plan p \<Longrightarrow> edges p \<subseteq> dom (node p) \<times> dom (node p)"
  using wf_planD(6) by (fastforce simp: edges_def wf_node_def)

lemma finite_edges: "wf_plan p \<Longrightarrow> finite (edges p)"
proof -
  assume "wf_plan p"
  moreover have "finite (dom (node p))"
    unfolding node_def by (rule bt.finite_dom)
  ultimately show ?thesis
    using edges_dom finite_subset finite_cartesian_product by metis
qed

lemma wf_plan_new: "wf_plan (plan_new obj m c)"
  by (simp add: wf_plan_def plan_new_def node_def edges_def replayed_seed_def acyclic_def)

text \<open>
  The plan's primitive mutations against the structural invariant \<open>wf_plan\<close>, and the
  correctness of the graph search \<open>depends_transitively_on\<close>.
\<close>

section \<open>The graph search\<close>

text \<open>
  What holds at every turn of the worklist: everything visited or queued is reachable,
  visited nodes have their dependencies visited or queued and do not wait on the target.
\<close>

definition dto_inv :: "task_plan \<Rightarrow> node_id \<Rightarrow> node_id \<Rightarrow> node_id list \<Rightarrow> node_id list \<Rightarrow> bool" where
  "dto_inv p src dst seen stack \<longleftrightarrow>
     (\<forall>x \<in> set seen \<union> set stack. (src, x) \<in> (edges p)\<^sup>*)
     \<and> (\<forall>x y. x \<in> set seen \<and> (x, y) \<in> edges p \<longrightarrow> y \<noteq> dst \<and> y \<in> set seen \<union> set stack)
     \<and> src \<in> set seen \<union> set stack"

lemma dto_inv_closed:
  assumes "dto_inv p src dst seen []" and "(src, y) \<in> (edges p)\<^sup>+"
  shows "y \<noteq> dst \<and> y \<in> set seen"
  using assms(2) by (induction rule: trancl_induct) (use assms(1) in \<open>auto simp: dto_inv_def\<close>)

lemma edges_Some: "node p c = Some n \<Longrightarrow> (c, y) \<in> edges p \<longleftrightarrow> y \<in> set (upstream n)"
  by (simp add: edges_def)

lemma edges_None: "node p c = None \<Longrightarrow> (c, y) \<notin> edges p"
  by (simp add: edges_def)

lemma dto_loop_correct:
  "dto_inv p src dst seen stack \<Longrightarrow>
     dto_loop p src dst seen stack \<longleftrightarrow> (src, dst) \<in> (edges p)\<^sup>+"
proof (induction p src dst seen stack rule: dto_loop.induct)
  case (1 p src dst seen)
  then have "(src, dst) \<notin> (edges p)\<^sup>+"
    using dto_inv_closed by blast
  then show ?case
    by simp
next
  case (2 p src dst seen c stack)
  from "2.prems" have c: "(src, c) \<in> (edges p)\<^sup>*"
    by (simp add: dto_inv_def)
  consider "c = dst" "c \<noteq> src" | "\<not> (c = dst \<and> c \<noteq> src)" "c \<in> set seen"
    | "\<not> (c = dst \<and> c \<noteq> src)" "c \<notin> set seen" "node p c = None"
    | n where "\<not> (c = dst \<and> c \<noteq> src)" "c \<notin> set seen" "node p c = Some n"
    by (cases "node p c") auto
  then show ?case
  proof cases
    case 1
    with c show ?thesis
      by (auto simp: rtrancl_eq_or_trancl)
  next
    case 2
    with "2.prems" have "dto_inv p src dst seen stack"
      by (auto simp: dto_inv_def)
    with "2.IH"(1) 2 show ?thesis
      by auto
  next
    case 3
    with "2.prems" have "dto_inv p src dst (c # seen) stack"
      by (auto simp: dto_inv_def edges_None)
    with "2.IH"(2) 3 show ?thesis
      by auto
  next
    case 4
    show ?thesis
    proof (cases "dst \<in> set (upstream n)")
      case True
      with 4 have "(c, dst) \<in> edges p"
        by (simp add: edges_Some)
      with c have "(src, dst) \<in> (edges p)\<^sup>+"
        by (rule rtrancl_into_trancl1)
      with 4 True show ?thesis
        by auto
    next
      case False
      have "(src, x) \<in> (edges p)\<^sup>*" if "x \<in> set (upstream n)" for x
        using c that 4 edges_Some by (metis rtrancl.rtrancl_into_rtrancl)
      with "2.prems" 4 False have "dto_inv p src dst (c # seen) (rev (upstream n) @ stack)"
        by (auto simp: dto_inv_def edges_Some)
      with "2.IH"(3) 4 False show ?thesis
        by auto
    qed
  qed
qed

lemma depends_transitively_on_iff:
  "depends_transitively_on p src dst \<longleftrightarrow> (src, dst) \<in> (edges p)\<^sup>+"
  unfolding depends_transitively_on_def
  by (rule dto_loop_correct) (simp add: dto_inv_def)

section \<open>Mutations\<close>

lemma edges_simps [plan_simps]:
  "edges (bump_version p) = edges p"
  "edges (record_seed p key ids) = edges p"
  by (simp_all add: edges_def plan_simps)

lemma wf_node_cong:
  "dom (node p) \<subseteq> dom (node q) \<Longrightarrow> next_id p \<le> next_id q \<Longrightarrow> wf_node p i n \<Longrightarrow> wf_node q i n"
  by (fastforce simp: wf_node_def)

lemma wf_bump_version [simp]: "wf_plan (bump_version p) \<longleftrightarrow> wf_plan p"
  by (simp add: wf_plan_def wf_node_def plan_simps)

lemma wf_set_coordinator: "wf_plan p \<Longrightarrow> wf_plan (set_coordinator p c)"
  by (auto simp: set_coordinator_def wf_plan_def wf_node_def node_def edges_def replayed_seed_def)

lemma wf_record_seed:
  assumes "wf_plan p" "\<forall>i \<in> set ids. node p i \<noteq> None"
  shows "wf_plan (record_seed p key ids)"
proof -
  have "wf_node (record_seed p key ids) i n" if "node p i = Some n" for i n
    using wf_planD(6) [OF assms(1) that] by (simp add: wf_node_def plan_simps)
  moreover have "\<forall>j \<in> set js. node p j \<noteq> None" if "replayed_seed (record_seed p key ids) k = Some js" for k js
    using that assms wf_planD(7) [OF assms(1)]
    by (simp add: replayed_record_seed [OF wf_planD(2) [OF assms(1)]] split: if_splits)
  ultimately show ?thesis
    unfolding wf_plan_def using wf_planD(1-5) [OF assms(1)] by (simp add: plan_simps)
qed

text \<open>A write that keeps identity, edges and the pairing of status and artifact.\<close>

definition keeps_shape :: "(task_node \<Rightarrow> task_node) \<Rightarrow> bool" where
  "keeps_shape f \<longleftrightarrow>
     (\<forall>n. nid (f n) = nid n \<and> upstream (f n) = upstream n)"

lemma edges_node_mut_shape: "keeps_shape f \<Longrightarrow> edges (node_mut p i f) = edges p"
  by (auto simp: edges_def plan_simps keeps_shape_def split: if_splits)

lemma dom_node_mut [simp]: "dom (node (node_mut p i f)) = dom (node p)"
  by (auto simp: plan_simps split: if_splits)

lemma wf_node_mut_shape:
  assumes wf: "wf_plan p" and f: "keeps_shape f"
    and art: "\<And>n. node p i = Some n \<Longrightarrow> artifact (f n) \<noteq> None \<longleftrightarrow> status (f n) = Complete"
  shows "wf_plan (node_mut p i f)"
proof -
  have "wf_node (node_mut p i f) j m" if m: "node (node_mut p i f) j = Some m" for j m
  proof (cases "j = i")
    case True
    with m obtain n where n: "node p i = Some n" "m = f n"
      by (auto simp: plan_simps)
    with wf have "wf_node p i n"
      by (simp add: wf_planD)
    with n f art True show ?thesis
      by (auto simp: wf_node_def keeps_shape_def plan_simps)
  next
    case False
    with m wf have "wf_node p j m"
      by (simp add: plan_simps wf_planD)
    then show ?thesis
      by (auto simp: wf_node_def plan_simps)
  qed
  then show ?thesis
    using wf by (auto simp: wf_plan_def plan_simps edges_node_mut_shape [OF f])
qed

text \<open>
  A write that replaces one node's dependencies: the new ones exist, are stored in order,
  and none of them already waits on the node.
\<close>

lemma wf_node_mut_upstream:
  assumes wf: "wf_plan p" and n: "node p i = Some n"
    and f: "nid (f n) = nid n" "upstream (f n) = ups"
    and art: "artifact (f n) \<noteq> None \<longleftrightarrow> status (f n) = Complete"
    and ups: "sorted_wrt (<) ups" "\<forall>u \<in> set ups. node p u \<noteq> None"
    and acyc: "\<And>u. u \<in> set ups \<Longrightarrow> (u, i) \<notin> (edges p)\<^sup>*"
  shows "wf_plan (node_mut p i f)"
proof -
  let ?q = "node_mut p i f"
  have sub: "edges ?q \<subseteq> edges p \<union> {i} \<times> set ups"
    using n f by (auto simp: edges_def plan_simps split: if_splits)
  have "acyclic (edges p \<union> {i} \<times> set ups)"
    using wf acyc by (intro acyclic_add_from) (auto simp: wf_planD)
  then have ac: "acyclic (edges ?q)"
    by (rule acyclic_subset [OF _ sub])
  have "wf_node ?q j m" if m: "node ?q j = Some m" for j m
  proof (cases "j = i")
    case True
    with m n have "m = f n"
      by (simp add: plan_simps)
    moreover from wf n have "wf_node p i n"
      by (simp add: wf_planD)
    ultimately show ?thesis
      using True f art ups by (auto simp: wf_node_def plan_simps)
  next
    case False
    with m wf have "wf_node p j m"
      by (simp add: plan_simps wf_planD)
    then show ?thesis
      by (auto simp: wf_node_def plan_simps)
  qed
  with wf ac show ?thesis
    by (auto simp: wf_plan_def plan_simps)
qed

text \<open>Minting a node over existing dependencies.\<close>

lemma wf_plan_insert:
  assumes wf: "wf_plan p" and room: "next_id p + 1 < 2 ^ 32"
    and ups: "\<forall>u \<in> set ups. node p u \<noteq> None"
  shows "wf_plan (fst (plan_insert p spec own ups))"
proof -
  let ?q = "fst (plan_insert p spec own ups)" and ?i = "next_id p"
  have fresh: "node p ?i = None"
    using wf by (simp add: wf_node_fresh)
  have inv: "bt_inv (nodes p)"
    using wf by (simp add: wf_planD)
  have nq: "next_id ?q = ?i + 1"
    using room by (simp add: plan_simps)
  have dom: "dom (node ?q) = insert ?i (dom (node p))"
    using inv by (auto simp: node_plan_insert split: if_splits)
  have e: "edges ?q = edges p \<union> {?i} \<times> set ups"
    using inv fresh by (auto simp: edges_def node_plan_insert split: if_splits)
  have "(u, ?i) \<notin> (edges p)\<^sup>*" if "u \<in> set ups" for u
  proof
    assume "(u, ?i) \<in> (edges p)\<^sup>*"
    with that ups fresh have "(u, ?i) \<in> (edges p)\<^sup>+"
      by (auto simp: rtrancl_eq_or_trancl)
    then obtain v where "(v, ?i) \<in> edges p"
      by (meson tranclE)
    with edges_dom [OF wf] fresh show False
      by auto
  qed
  then have ac: "acyclic (edges ?q)"
    unfolding e using wf by (intro acyclic_add_from) (auto simp: wf_planD)
  have "wf_node ?q j m" if m: "node ?q j = Some m" for j m
  proof (cases "j = ?i")
    case True
    with m inv ups wf dom nq show ?thesis
      by (auto simp: node_plan_insert wf_node_def sorted_sort_dedup wf_planD)
  next
    case False
    with m inv wf have "wf_node p j m"
      by (simp add: node_plan_insert wf_planD)
    then show ?thesis
      by (rule wf_node_cong [rotated 2]) (use dom nq in auto)
  qed
  then show ?thesis
    using wf room ac nq dom by (auto simp: wf_plan_def plan_simps)
qed

end
