(* ===== verification/Swarm_Registry.thy ===== *)
theory Swarm_Registry
  imports Plan
begin

text \<open>
  \<^verbatim>\<open>crates/localpilot-server/src/swarm/registry.rs\<close>: who belongs to which swarm, who reports to
  whom, and how many there may be. Every operation takes the registry under its write lock and
  is one function from registries to registries. The hash maps are kept in key order; every
  list the code reads off one is sorted or counted before it is used. A \<open>usize\<close> is a natural
  number with the checked additions written out, a reservation id is a \<open>u64\<close>, an \<open>Instant\<close>
  counts nanoseconds from an arbitrary origin.
\<close>

section \<open>Data\<close>

type_synonym swarm_id = string
type_synonym instant = nat

record swarm_limits =
  max_members :: nat
  max_active :: nat

definition limits_default :: swarm_limits where
  "limits_default = \<lparr>max_members = 32, max_active = 4\<rparr>"

datatype member_role = Coordinator | Worker | Peer

datatype member_status = Active | Finished | Departed

definition is_active :: "member_status \<Rightarrow> bool" where
  "is_active s \<longleftrightarrow> s = Active"

record swarm_member =
  mem_session :: session_id
  mem_name :: string
  mem_role :: member_role
  mem_status :: member_status
  report_back_to :: "session_id option"
  completion :: "string option"

definition member_worker :: "session_id \<Rightarrow> string \<Rightarrow> session_id \<Rightarrow> swarm_member" where
  "member_worker s nm parent =
     \<lparr>mem_session = s, mem_name = nm, mem_role = Worker, mem_status = Active,
      report_back_to = Some parent, completion = None\<rparr>"

record reservation =
  res_id :: u64
  res_swarm :: swarm_id

datatype swarm_admission =
    Reserved reservation
  | InFlight
  | Existing session_id

datatype swarm_error =
    MemberCapReached nat
  | ConcurrencyReached nat
  | UnknownSwarm swarm_id
  | UnknownMember session_id
  | UnknownName string
  | AmbiguousName string nat
  | StaleReservation
  | MixedTopology
  | AlreadyInSwarm session_id swarm_id
  | DuplicatePairSessions
  | EmptyPairName
  | DuplicatePairNames
  | PairMismatch

datatype swarm_topology = Hierarchical | PairShape

record swarm =
  topology :: "swarm_topology option"
  sw_members :: "(session_id, swarm_member) btree_map"
  reservations :: "(u64, string option) btree_map"
  settled_keys :: "(string, session_id) btree_map"
  admitted :: nat
  sw_coordinator :: "session_id option"
  sw_plan :: "task_plan option"
  heartbeats :: "(session_id, instant) btree_map"

definition swarm_default :: swarm where
  "swarm_default =
     \<lparr>topology = None, sw_members = bt_empty, reservations = bt_empty, settled_keys = bt_empty,
      admitted = 0, sw_coordinator = None, sw_plan = None, heartbeats = bt_empty\<rparr>"

record registry =
  reg_swarms :: "(swarm_id, swarm) btree_map"
  by_session :: "(session_id, swarm_id) btree_map"
  reg_limits :: swarm_limits
  next_reservation :: u64

definition registry_new :: registry where
  "registry_new =
     \<lparr>reg_swarms = bt_empty, by_session = bt_empty, reg_limits = limits_default,
      next_reservation = 0\<rparr>"

definition with_limits :: "swarm_limits \<Rightarrow> registry" where
  "with_limits l = registry_new\<lparr>reg_limits := l\<rparr>"

section \<open>Capacity\<close>

definition active_members :: "swarm \<Rightarrow> swarm_member list" where
  "active_members e = filter (\<lambda>m. is_active (mem_status m)) (bt_values (sw_members e))"

definition in_use :: "swarm \<Rightarrow> nat" where
  "in_use e = length (active_members e) + length (reservations e)"

definition is_unassigned :: "swarm \<Rightarrow> bool" where
  "is_unassigned e \<longleftrightarrow>
     topology e = None \<and> sw_members e = [] \<and> reservations e = [] \<and> settled_keys e = []
     \<and> admitted e = 0 \<and> sw_coordinator e = None \<and> sw_plan e = None \<and> heartbeats e = []"

definition usize_max :: nat where "usize_max = 2 ^ 64 - 1"

definition checked_add :: "nat \<Rightarrow> nat \<Rightarrow> nat option" where
  "checked_add a b = (if a + b \<le> usize_max then Some (a + b) else None)"

definition exceeds :: "nat option \<Rightarrow> nat \<Rightarrow> bool" where
  "exceeds needed cap = (case needed of None \<Rightarrow> True | Some n \<Rightarrow> cap < n)"

definition check_caps :: "swarm \<Rightarrow> swarm_limits \<Rightarrow> nat \<Rightarrow> swarm_error + unit" where
  "check_caps e l addition =
     (let lifetime = checked_add (admitted e) (length (reservations e))
      in if exceeds (Option.bind lifetime (\<lambda>used. checked_add used addition)) (max_members l)
         then Inl (MemberCapReached (max_members l))
         else if exceeds (checked_add (in_use e) addition) (max_active l)
         then Inl (ConcurrencyReached (max_active l))
         else Inr ())"

text \<open>\<open>admitted += 1\<close>, in a release build.\<close>

definition usize_succ :: "nat \<Rightarrow> nat" where
  "usize_succ n = (n + 1) mod 2 ^ 64"

section \<open>Admission\<close>

text \<open>\<open>guard.swarms.entry(swarm.clone()).or_default()\<close>: the entry stays even if the call is refused.\<close>

definition entry_of :: "registry \<Rightarrow> swarm_id \<Rightarrow> swarm" where
  "entry_of g sw = (case bt_get (reg_swarms g) sw of None \<Rightarrow> swarm_default | Some e \<Rightarrow> e)"

definition put_swarm :: "registry \<Rightarrow> swarm_id \<Rightarrow> swarm \<Rightarrow> registry" where
  "put_swarm g sw e = g\<lparr>reg_swarms := bt_insert sw e (reg_swarms g)\<rparr>"

definition map_session :: "registry \<Rightarrow> session_id \<Rightarrow> swarm_id \<Rightarrow> registry" where
  "map_session g s sw = g\<lparr>by_session := bt_insert s sw (by_session g)\<rparr>"

definition elsewhere :: "registry \<Rightarrow> swarm_id \<Rightarrow> session_id \<Rightarrow> swarm_id option" where
  "elsewhere g sw s =
     (case bt_get (by_session g) s of
        None \<Rightarrow> None
      | Some other \<Rightarrow> if other \<noteq> sw then Some other else None)"

definition join_as_root ::
  "registry \<Rightarrow> swarm_id \<Rightarrow> session_id \<Rightarrow> string \<Rightarrow> registry \<times> (swarm_error + member_role)" where
  "join_as_root g sw s nm =
     (case elsewhere g sw s of
        Some other \<Rightarrow> (g, Inl (AlreadyInSwarm s other))
      | None \<Rightarrow>
          let e = entry_of g sw; g1 = put_swarm g sw e
          in if topology e = Some PairShape then (g1, Inl MixedTopology)
             else
               (case bt_get (sw_members e) s of
                  Some m \<Rightarrow> (g1, Inr (mem_role m))
                | None \<Rightarrow>
                    (case check_caps e (reg_limits g) 1 of
                       Inl err \<Rightarrow> (g1, Inl err)
                     | Inr _ \<Rightarrow>
                         let role = (if sw_coordinator e = None then Coordinator else Worker);
                             m = \<lparr>mem_session = s, mem_name = nm, mem_role = role,
                                  mem_status = Active, report_back_to = None, completion = None\<rparr>;
                             e' = e\<lparr>topology := Some Hierarchical,
                                    sw_coordinator :=
                                      (if sw_coordinator e = None then Some s
                                       else sw_coordinator e),
                                    admitted := usize_succ (admitted e),
                                    sw_members := bt_insert s m (sw_members e)\<rparr>
                         in (map_session (put_swarm g1 sw e') s sw, Inr role))))"

text \<open>\<open>str::eq_ignore_ascii_case\<close>.\<close>

definition pair_member_matches :: "swarm \<Rightarrow> session_id \<Rightarrow> string \<Rightarrow> bool" where
  "pair_member_matches e s nm =
     (case bt_get (sw_members e) s of
        None \<Rightarrow> False
      | Some m \<Rightarrow>
          mem_name m = nm \<and> mem_role m = Peer \<and> mem_status m = Active
          \<and> report_back_to m = None \<and> completion m = None)"

definition peer_member :: "session_id \<Rightarrow> string \<Rightarrow> swarm_member" where
  "peer_member s nm =
     \<lparr>mem_session = s, mem_name = nm, mem_role = Peer, mem_status = Active,
      report_back_to = None, completion = None\<rparr>"

text \<open>
  The guard of \<open>join_as_pair\<close> over the stored entry: \<open>Some\<close> result when the call ends there,
  \<open>None\<close> when the pair is to be admitted.
\<close>

definition pair_guard ::
  "registry \<Rightarrow> swarm_id \<Rightarrow> session_id \<times> string \<Rightarrow> session_id \<times> string \<Rightarrow> bool
   \<Rightarrow> (swarm_error + unit) option" where
  "pair_guard g sw a b mapped_to_target =
     (case bt_get (reg_swarms g) sw of
        None \<Rightarrow> if mapped_to_target then Some (Inl PairMismatch) else None
      | Some e \<Rightarrow>
          (case topology e of
             Some Hierarchical \<Rightarrow> Some (Inl MixedTopology)
           | Some PairShape \<Rightarrow>
               if length (sw_members e) = 2 \<and> admitted e = 2 \<and> reservations e = []
                  \<and> settled_keys e = [] \<and> sw_coordinator e = None \<and> sw_plan e = None
                  \<and> pair_member_matches e (fst a) (snd a)
                  \<and> pair_member_matches e (fst b) (snd b)
                  \<and> bt_get (by_session g) (fst a) = Some sw
                  \<and> bt_get (by_session g) (fst b) = Some sw
               then Some (Inr ()) else Some (Inl PairMismatch)
           | None \<Rightarrow>
               if mapped_to_target \<or> \<not> is_unassigned e then Some (Inl PairMismatch) else None))"

definition admit_pair ::
  "registry \<Rightarrow> swarm_id \<Rightarrow> session_id \<times> string \<Rightarrow> session_id \<times> string \<Rightarrow> registry" where
  "admit_pair g sw a b =
     (let e = (entry_of g sw)
            \<lparr>topology := Some PairShape, admitted := 2,
             sw_members :=
               bt_insert (fst b) (peer_member (fst b) (snd b))
                 (bt_insert (fst a) (peer_member (fst a) (snd a)) (sw_members (entry_of g sw)))\<rparr>
      in map_session (map_session (put_swarm g sw e) (fst a) sw) (fst b) sw)"

definition join_as_pair ::
  "registry \<Rightarrow> swarm_id \<Rightarrow> session_id \<times> string \<Rightarrow> session_id \<times> string
   \<Rightarrow> registry \<times> (swarm_error + unit)" where
  "join_as_pair g sw x y =
     (let a = (fst x, trim (snd x)); b = (fst y, trim (snd y))
      in if fst a = fst b then (g, Inl DuplicatePairSessions)
         else if snd a = [] \<or> snd b = [] then (g, Inl EmptyPairName)
         else if eq_ignore_ascii_case (snd a) (snd b) then (g, Inl DuplicatePairNames)
         else
           (case elsewhere g sw (fst a) of
              Some other \<Rightarrow> (g, Inl (AlreadyInSwarm (fst a) other))
            | None \<Rightarrow>
                (case elsewhere g sw (fst b) of
                   Some other \<Rightarrow> (g, Inl (AlreadyInSwarm (fst b) other))
                 | None \<Rightarrow>
                     (case pair_guard g sw a b
                             (bt_get (by_session g) (fst a) \<noteq> None
                              \<or> bt_get (by_session g) (fst b) \<noteq> None) of
                        Some r \<Rightarrow> (g, r)
                      | None \<Rightarrow>
                          (case check_caps (entry_of g sw) (reg_limits g) 2 of
                             Inl err \<Rightarrow> (g, Inl err)
                           | Inr _ \<Rightarrow> (admit_pair g sw a b, Inr ()))))))"

definition reserve ::
  "registry \<Rightarrow> swarm_id \<Rightarrow> string option \<Rightarrow> registry \<times> (swarm_error + swarm_admission)" where
  "reserve g sw key =
     (let i = next_reservation g; e = entry_of g sw; g1 = put_swarm g sw e
      in if topology e = Some PairShape then (g1, Inl MixedTopology)
         else
           (case (case key of None \<Rightarrow> None | Some k \<Rightarrow> bt_get (settled_keys e) k) of
              Some s \<Rightarrow> (g1, Inr (Existing s))
            | None \<Rightarrow>
                if key \<noteq> None \<and> key \<in> set (bt_values (reservations e)) then (g1, Inr InFlight)
                else
                  (case check_caps e (reg_limits g) 1 of
                     Inl err \<Rightarrow> (g1, Inl err)
                   | Inr _ \<Rightarrow>
                       ((put_swarm g1 sw
                           (e\<lparr>topology := Some Hierarchical,
                              reservations := bt_insert i key (reservations e)\<rparr>))
                          \<lparr>next_reservation := i + 1\<rparr>,
                        Inr (Reserved \<lparr>res_id = i, res_swarm = sw\<rparr>)))))"

definition confirm ::
  "registry \<Rightarrow> reservation \<Rightarrow> swarm_member \<Rightarrow> registry \<times> (swarm_error + unit)" where
  "confirm g r m =
     (if mem_role m = Peer then (g, Inl MixedTopology)
      else
        (case bt_get (by_session g) (mem_session m) of
           Some other \<Rightarrow> (g, Inl (AlreadyInSwarm (mem_session m) other))
         | None \<Rightarrow>
             (case bt_get (reg_swarms g) (res_swarm r) of
                None \<Rightarrow> (g, Inl StaleReservation)
              | Some e \<Rightarrow>
                  if topology e \<noteq> Some Hierarchical then (g, Inl MixedTopology)
                  else
                    (case bt_get (reservations e) (res_id r) of
                       None \<Rightarrow> (g, Inl StaleReservation)
                     | Some key \<Rightarrow>
                         let e' = e\<lparr>reservations := bt_remove (res_id r) (reservations e),
                                    settled_keys :=
                                      (case key of
                                         None \<Rightarrow> settled_keys e
                                       | Some k \<Rightarrow> bt_insert k (mem_session m) (settled_keys e)),
                                    admitted := usize_succ (admitted e),
                                    sw_members := bt_insert (mem_session m) m (sw_members e)\<rparr>
                         in (map_session (put_swarm g (res_swarm r) e')
                               (mem_session m) (res_swarm r), Inr ())))))"

definition release :: "registry \<Rightarrow> reservation \<Rightarrow> registry \<times> bool" where
  "release g r =
     (case bt_get (reg_swarms g) (res_swarm r) of
        None \<Rightarrow> (g, False)
      | Some e \<Rightarrow>
          (put_swarm g (res_swarm r)
             (e\<lparr>reservations := bt_remove (res_id r) (reservations e)\<rparr>),
           bt_get (reservations e) (res_id r) \<noteq> None))"

section \<open>Lookups\<close>

definition swarm_of :: "registry \<Rightarrow> session_id \<Rightarrow> swarm_id option" where
  "swarm_of g s = bt_get (by_session g) s"

definition member_of :: "registry \<Rightarrow> swarm_id \<Rightarrow> session_id \<Rightarrow> swarm_member option" where
  "member_of g sw s = Option.bind (bt_get (reg_swarms g) sw) (\<lambda>e. bt_get (sw_members e) s)"

definition members_in :: "registry \<Rightarrow> swarm_id \<Rightarrow> swarm_member list" where
  "members_in g sw =
     (case bt_get (reg_swarms g) sw of
        None \<Rightarrow> []
      | Some e \<Rightarrow> sort_key mem_session (bt_values (sw_members e)))"

definition swarm_coordinator :: "registry \<Rightarrow> swarm_id \<Rightarrow> session_id option" where
  "swarm_coordinator g sw = Option.bind (bt_get (reg_swarms g) sw) sw_coordinator"

definition is_coordinator :: "registry \<Rightarrow> swarm_id \<Rightarrow> session_id \<Rightarrow> bool" where
  "is_coordinator g sw s \<longleftrightarrow> swarm_coordinator g sw = Some s"

text \<open>The sessions of the members that pass a test, in id order.\<close>

definition sessions_where :: "(swarm_member \<Rightarrow> bool) \<Rightarrow> swarm \<Rightarrow> session_id list" where
  "sessions_where P e = sort (map mem_session (filter P (bt_values (sw_members e))))"

definition select_sessions ::
  "registry \<Rightarrow> swarm_id \<Rightarrow> (swarm \<Rightarrow> swarm_member \<Rightarrow> bool) \<Rightarrow> session_id list" where
  "select_sessions g sw P =
     (case bt_get (reg_swarms g) sw of None \<Rightarrow> [] | Some e \<Rightarrow> sessions_where (P e) e)"

text \<open>A write through \<open>get_mut\<close>; nothing happens when the swarm is not registered.\<close>

definition modify_swarm :: "registry \<Rightarrow> swarm_id \<Rightarrow> (swarm \<Rightarrow> swarm) \<Rightarrow> registry" where
  "modify_swarm g sw f = g\<lparr>reg_swarms := bt_modify sw f (reg_swarms g)\<rparr>"

definition modify_member :: "session_id \<Rightarrow> (swarm_member \<Rightarrow> swarm_member) \<Rightarrow> swarm \<Rightarrow> swarm" where
  "modify_member s f e = e\<lparr>sw_members := bt_modify s f (sw_members e)\<rparr>"

definition heartbeat_at :: "registry \<Rightarrow> swarm_id \<Rightarrow> session_id \<Rightarrow> instant \<Rightarrow> registry" where
  "heartbeat_at g sw s t =
     modify_swarm g sw (\<lambda>e. e\<lparr>heartbeats := bt_insert s t (heartbeats e)\<rparr>)"

text \<open>\<open>Instant::duration_since\<close> saturates at zero, as subtraction on naturals does.\<close>

definition is_stale :: "instant \<Rightarrow> instant \<Rightarrow> swarm \<Rightarrow> swarm_member \<Rightarrow> bool" where
  "is_stale limit now e m \<longleftrightarrow>
     is_active (mem_status m)
     \<and> (case bt_get (heartbeats e) (mem_session m) of
          None \<Rightarrow> False
        | Some seen \<Rightarrow> limit < now - seen)"

definition stale_members ::
  "registry \<Rightarrow> swarm_id \<Rightarrow> instant \<Rightarrow> instant \<Rightarrow> session_id list" where
  "stale_members g sw limit now = select_sessions g sw (is_stale limit now)"

definition terminal_members :: "registry \<Rightarrow> swarm_id \<Rightarrow> session_id list" where
  "terminal_members g sw = select_sessions g sw (\<lambda>_ m. \<not> is_active (mem_status m))"

definition children_of :: "registry \<Rightarrow> swarm_id \<Rightarrow> session_id \<Rightarrow> session_id list" where
  "children_of g sw s = select_sessions g sw (\<lambda>_ m. report_back_to m = Some s)"

definition resolve_name ::
  "registry \<Rightarrow> swarm_id \<Rightarrow> string \<Rightarrow> swarm_error + session_id" where
  "resolve_name g sw nm =
     (case bt_get (reg_swarms g) sw of
        None \<Rightarrow> Inl (UnknownName nm)
      | Some e \<Rightarrow>
          (case map mem_session
                  (filter (\<lambda>m. eq_ignore_ascii_case (mem_name m) nm) (bt_values (sw_members e))) of
             [] \<Rightarrow> Inl (UnknownName nm)
           | [s] \<Rightarrow> Inr s
           | ms \<Rightarrow> Inl (AmbiguousName nm (length ms))))"

definition swarm_list :: "registry \<Rightarrow> swarm_id list" where
  "swarm_list g = sort (bt_keys (reg_swarms g))"

section \<open>The spawn tree\<close>

definition parent_of :: "swarm \<Rightarrow> session_id \<Rightarrow> session_id option" where
  "parent_of e s = Option.bind (bt_get (sw_members e) s) report_back_to"

definition parents :: "swarm \<Rightarrow> session_id set" where
  "parents e = {p. \<exists>s. parent_of e s = Some p}"

lemma finite_parents [simp]: "finite (parents e)"
proof -
  have "parents e \<subseteq> (\<lambda>s. the (parent_of e s)) ` dom (bt_get (sw_members e))"
    by (force simp: parents_def parent_of_def bind_eq_Some_conv dom_def)
  then show ?thesis
    using bt.finite_dom finite_subset by blast
qed

function anc_loop :: "swarm \<Rightarrow> session_id set \<Rightarrow> session_id option \<Rightarrow> session_id list" where
  "anc_loop e seen None = []"
| "anc_loop e seen (Some s) =
     (if s \<in> seen then [] else s # anc_loop e (insert s seen) (parent_of e s))"
  by pat_completeness auto
termination
proof (relation "measure (\<lambda>(e, seen, cur). card ((parents e \<union> set_option cur) - seen))", goal_cases)
  case (2 e seen s)
  have "(parents e \<union> set_option (parent_of e s)) - insert s seen
        \<subset> (parents e \<union> set_option (Some s)) - seen"
    using 2 by (auto simp: parents_def)
  then show ?case
    by (simp add: psubset_card_mono)
qed simp

definition ancestors :: "registry \<Rightarrow> swarm_id \<Rightarrow> session_id \<Rightarrow> session_id list" where
  "ancestors g sw s =
     (case bt_get (reg_swarms g) sw of None \<Rightarrow> [] | Some e \<Rightarrow> anc_loop e {} (parent_of e s))"

text \<open>The direct reports of a session, in the order the map iterates them.\<close>

definition reports_of :: "swarm \<Rightarrow> session_id \<Rightarrow> session_id list" where
  "reports_of e s =
     map mem_session (filter (\<lambda>m. report_back_to m = Some s) (bt_values (sw_members e)))"

definition all_sessions :: "swarm \<Rightarrow> session_id set" where
  "all_sessions e = mem_session ` set (bt_values (sw_members e))"

text \<open>The head of the list is the top of the stack, so an \<open>extend\<close> goes on it reversed.\<close>

function sub_loop ::
  "swarm \<Rightarrow> session_id set \<Rightarrow> session_id list \<Rightarrow> session_id list" where
  "sub_loop e seen [] = []"
| "sub_loop e seen (s # stack) =
     (if s \<in> seen then sub_loop e seen stack
      else (if bt_get (sw_members e) s \<noteq> None then [s] else [])
           @ sub_loop e (insert s seen) (rev (reports_of e s) @ stack))"
  by pat_completeness auto
termination
proof (relation "measures [\<lambda>(e, seen, stack). card ((all_sessions e \<union> set stack) - seen),
                           \<lambda>(e, seen, stack). length stack]", goal_cases)
  case (2 e seen s stack)
  then have "(all_sessions e \<union> set (s # stack)) - seen = (all_sessions e \<union> set stack) - seen"
    by auto
  then show ?case
    by simp
next
  case (3 e seen s stack)
  have "(all_sessions e \<union> set (rev (reports_of e s) @ stack)) - insert s seen
        \<subset> (all_sessions e \<union> set (s # stack)) - seen"
    using 3 by (auto simp: all_sessions_def reports_of_def)
  then have "card ((all_sessions e \<union> set (rev (reports_of e s) @ stack)) - insert s seen)
             < card ((all_sessions e \<union> set (s # stack)) - seen)"
    by (rule psubset_card_mono [rotated]) (simp add: all_sessions_def)
  then show ?case
    by simp
qed simp

definition subtree :: "registry \<Rightarrow> swarm_id \<Rightarrow> session_id \<Rightarrow> session_id list" where
  "subtree g sw s =
     (case bt_get (reg_swarms g) sw of None \<Rightarrow> [] | Some e \<Rightarrow> sort (sub_loop e {} [s]))"

section \<open>Changing members and plans\<close>

definition seat_filled :: "swarm \<Rightarrow> bool" where
  "seat_filled e =
     (case Option.bind (sw_coordinator e) (bt_get (sw_members e)) of
        None \<Rightarrow> False
      | Some m \<Rightarrow> is_active (mem_status m))"

definition elect_coordinator :: "registry \<Rightarrow> swarm_id \<Rightarrow> registry \<times> session_id option" where
  "elect_coordinator g sw =
     (case bt_get (reg_swarms g) sw of
        None \<Rightarrow> (g, None)
      | Some e \<Rightarrow>
          if topology e = Some PairShape then (g, None)
          else if seat_filled e then (g, None)
          else
            (case sort (map mem_session (active_members e)) of
               [] \<Rightarrow> (g, None)
             | s # _ \<Rightarrow>
                 (put_swarm g sw
                    (modify_member s (\<lambda>m. m\<lparr>mem_role := Coordinator\<rparr>)
                       (e\<lparr>sw_coordinator := Some s\<rparr>)), Some s)))"

definition option_filter :: "('a \<Rightarrow> bool) \<Rightarrow> 'a option \<Rightarrow> 'a option" where
  "option_filter P x = (case x of None \<Rightarrow> None | Some a \<Rightarrow> if P a then Some a else None)"

definition or_else :: "'a option \<Rightarrow> 'a option \<Rightarrow> 'a option" where
  "or_else x y = (case x of None \<Rightarrow> y | Some a \<Rightarrow> Some a)"

definition new_parent :: "swarm \<Rightarrow> session_id \<Rightarrow> session_id option" where
  "new_parent e departed =
     or_else
       (option_filter
          (\<lambda>p. case bt_get (sw_members e) p of
                  None \<Rightarrow> False
                | Some m \<Rightarrow> is_active (mem_status m) \<and> mem_session m \<noteq> departed)
          (parent_of e departed))
       (option_filter (\<lambda>c. c \<noteq> departed \<and> bt_get (sw_members e) c \<noteq> None) (sw_coordinator e))"

definition reparent_one :: "session_id option \<Rightarrow> session_id \<Rightarrow> swarm \<Rightarrow> swarm" where
  "reparent_one np s e =
     modify_member s (\<lambda>m. m\<lparr>report_back_to := option_filter (\<lambda>p. p \<noteq> s) np\<rparr>) e"

definition reparent_children ::
  "registry \<Rightarrow> swarm_id \<Rightarrow> session_id \<Rightarrow> registry \<times> session_id list" where
  "reparent_children g sw departed =
     (case bt_get (reg_swarms g) sw of
        None \<Rightarrow> (g, [])
      | Some e \<Rightarrow>
          let moved = reports_of e departed
          in (put_swarm g sw (fold (reparent_one (new_parent e departed)) moved e), sort moved))"

definition restore_conflict ::
  "registry \<Rightarrow> swarm_id \<Rightarrow> swarm_member list \<Rightarrow> (session_id \<times> swarm_id) option" where
  "restore_conflict g sw ms =
     (case filter (\<lambda>m. elsewhere g sw (mem_session m) \<noteq> None) ms of
        [] \<Rightarrow> None
      | m # _ \<Rightarrow> Some (mem_session m, the (elsewhere g sw (mem_session m))))"

definition restored_map :: "swarm_member list \<Rightarrow> (session_id, swarm_member) btree_map" where
  "restored_map ms = fold (\<lambda>m. bt_insert (mem_session m) m) ms bt_empty"

definition forget_session :: "swarm_id \<Rightarrow> session_id \<Rightarrow> registry \<Rightarrow> registry" where
  "forget_session sw s g =
     (if bt_get (by_session g) s = Some sw then g\<lparr>by_session := bt_remove s (by_session g)\<rparr>
      else g)"

definition restore ::
  "registry \<Rightarrow> swarm_id \<Rightarrow> swarm_member list \<Rightarrow> session_id option \<Rightarrow> task_plan option
   \<Rightarrow> registry \<times> (swarm_error + unit)" where
  "restore g sw ms coord p =
     (if (case bt_get (reg_swarms g) sw of
            None \<Rightarrow> False | Some e \<Rightarrow> topology e = Some PairShape)
         \<or> list_ex (\<lambda>m. mem_role m = Peer) ms
      then (g, Inl MixedTopology)
      else
        (case restore_conflict g sw ms of
           Some (s, other) \<Rightarrow> (g, Inl (AlreadyInSwarm s other))
         | None \<Rightarrow>
             let mp = restored_map ms;
                 g1 = fold (forget_session sw) (bt_keys (sw_members (entry_of g sw))) g;
                 g2 = fold (\<lambda>s g. map_session g s sw) (bt_keys mp) g1;
                 e = entry_of g2 sw
             in (put_swarm g2 sw
                   (e\<lparr>topology := Some Hierarchical, sw_members := mp, sw_coordinator := coord,
                      sw_plan := p, admitted := max (admitted e) (length ms)\<rparr>), Inr ())))"

definition with_member ::
  "registry \<Rightarrow> swarm_id \<Rightarrow> session_id \<Rightarrow> (swarm_member \<Rightarrow> swarm_member)
   \<Rightarrow> registry \<times> (swarm_error + swarm_member)" where
  "with_member g sw s f =
     (case bt_get (reg_swarms g) sw of
        None \<Rightarrow> (g, Inl (UnknownSwarm sw))
      | Some e \<Rightarrow>
          (case bt_get (sw_members e) s of
             None \<Rightarrow> (g, Inl (UnknownMember s))
           | Some m \<Rightarrow> (put_swarm g sw (modify_member s f e), Inr (f m))))"

definition set_status ::
  "registry \<Rightarrow> swarm_id \<Rightarrow> session_id \<Rightarrow> member_status \<Rightarrow> registry \<times> (swarm_error + unit)" where
  "set_status g sw s st =
     map_prod id (map_sum id (\<lambda>_. ())) (with_member g sw s (\<lambda>m. m\<lparr>mem_status := st\<rparr>))"

definition record_completion ::
  "registry \<Rightarrow> swarm_id \<Rightarrow> session_id \<Rightarrow> string
   \<Rightarrow> registry \<times> (swarm_error + session_id option)" where
  "record_completion g sw s report =
     map_prod id (map_sum id report_back_to)
       (with_member g sw s (\<lambda>m. m\<lparr>completion := Some report, mem_status := Finished\<rparr>))"

definition set_plan ::
  "registry \<Rightarrow> swarm_id \<Rightarrow> task_plan \<Rightarrow> registry \<times> (swarm_error + unit)" where
  "set_plan g sw p =
     (let e = entry_of g sw; g1 = put_swarm g sw e
      in if topology e = Some PairShape then (g1, Inl MixedTopology)
         else (put_swarm g1 sw (e\<lparr>topology := Some Hierarchical, sw_plan := Some p\<rparr>), Inr ()))"

definition plan_of :: "registry \<Rightarrow> swarm_id \<Rightarrow> task_plan option" where
  "plan_of g sw = Option.bind (bt_get (reg_swarms g) sw) sw_plan"

definition with_plan ::
  "registry \<Rightarrow> swarm_id \<Rightarrow> (task_plan \<Rightarrow> task_plan \<times> 'a) \<Rightarrow> registry \<times> (swarm_error + 'a)" where
  "with_plan g sw mutate =
     (case bt_get (reg_swarms g) sw of
        None \<Rightarrow> (g, Inl (UnknownSwarm sw))
      | Some e \<Rightarrow>
          if topology e = Some PairShape then (g, Inl MixedTopology)
          else
            (case sw_plan e of
               None \<Rightarrow> (g, Inl (UnknownSwarm sw))
             | Some p \<Rightarrow>
                 let (p', x) = mutate p in (put_swarm g sw (e\<lparr>sw_plan := Some p'\<rparr>), Inr x)))"

definition remove_member :: "registry \<Rightarrow> swarm_id \<Rightarrow> session_id \<Rightarrow> registry \<times> swarm_member option" where
  "remove_member g sw s =
     (case bt_get (reg_swarms g) sw of
        None \<Rightarrow> (g, None)
      | Some e \<Rightarrow>
          (case bt_get (sw_members e) s of
             None \<Rightarrow> (g, None)
           | Some m \<Rightarrow>
               let e' = e\<lparr>sw_members := bt_remove s (sw_members e),
                          sw_coordinator :=
                            (if sw_coordinator e = Some s then None else sw_coordinator e)\<rparr>
               in ((put_swarm g sw e')\<lparr>by_session := bt_remove s (by_session g)\<rparr>, Some m)))"

end
