(* ===== verification/Touches.thy ===== *)
theory Touches
  imports Rust_Str Swarm_Registry
begin

text \<open>
  \<^verbatim>\<open>crates/localpilot-tools/src/touch.rs\<close>: what a tool reports having touched, when two touches
  are in each other's way, and the lines in which two versions of a file differ. A path is its
  lossy text. Whether the platform folds case is an argument (\<open>cfg!(windows)\<close> or macOS).
\<close>

section \<open>Touches\<close>

datatype touch_op = TouchRead | TouchModified | TouchWrote | TouchDeleted

definition is_mutation :: "touch_op \<Rightarrow> bool" where
  "is_mutation t \<longleftrightarrow> t \<noteq> TouchRead"

fun op_word :: "touch_op \<Rightarrow> string" where
  "op_word TouchRead = ''read''"
| "op_word TouchModified = ''changed''"
| "op_word TouchWrote = ''rewrote''"
| "op_word TouchDeleted = ''deleted''"

record line_range =
  lr_start :: u32
  lr_end :: u32

definition line_range_new :: "u32 \<Rightarrow> u32 \<Rightarrow> line_range" where
  "line_range_new a b = \<lparr>lr_start = min a b, lr_end = max a b\<rparr>"

definition line_range_line :: "u32 \<Rightarrow> line_range" where
  "line_range_line a = \<lparr>lr_start = a, lr_end = a\<rparr>"

definition overlaps :: "line_range \<Rightarrow> line_range \<Rightarrow> bool" where
  "overlaps a b \<longleftrightarrow> lr_start a \<le> lr_end b \<and> lr_start b \<le> lr_end a"

definition show_line_range :: "line_range \<Rightarrow> string" where
  "show_line_range r =
     (if lr_start r = lr_end r then ''line '' @ show_nat (unat (lr_start r))
      else ''lines '' @ show_nat (unat (lr_start r)) @ ''-'' @ show_nat (unat (lr_end r)))"

record file_touch =
  ft_path :: string
  ft_op :: touch_op
  ft_lines :: "line_range option"

definition touch_whole :: "string \<Rightarrow> touch_op \<Rightarrow> file_touch" where
  "touch_whole p t = \<lparr>ft_path = p, ft_op = t, ft_lines = None\<rparr>"

definition touch_ranged :: "string \<Rightarrow> touch_op \<Rightarrow> line_range \<Rightarrow> file_touch" where
  "touch_ranged p t r = \<lparr>ft_path = p, ft_op = t, ft_lines = Some r\<rparr>"

section \<open>The same file\<close>

definition is_sep :: "char \<Rightarrow> bool" where
  "is_sep c \<longleftrightarrow> c = CHR ''/'' \<or> c = CHR 0x5C"

definition normalise_step :: "string list \<Rightarrow> string \<Rightarrow> string list" where
  "normalise_step parts part =
     (if part = [] \<or> part = ''.'' then parts
      else if part = ''..'' then butlast parts
      else parts @ [part])"

definition normalise :: "bool \<Rightarrow> string \<Rightarrow> string" where
  "normalise folds p =
     (let joined = join ''/'' (foldl normalise_step [] (split_by is_sep p))
      in if folds then to_lowercase joined else joined)"

definition same_file :: "bool \<Rightarrow> string \<Rightarrow> string \<Rightarrow> bool" where
  "same_file folds a b \<longleftrightarrow> normalise folds a = normalise folds b"

definition share_lines :: "line_range option \<Rightarrow> line_range option \<Rightarrow> bool" where
  "share_lines a b =
     (case (a, b) of (Some x, Some y) \<Rightarrow> overlaps x y | _ \<Rightarrow> True)"

definition collides_with :: "bool \<Rightarrow> file_touch \<Rightarrow> file_touch \<Rightarrow> bool" where
  "collides_with folds a b \<longleftrightarrow>
     same_file folds (ft_path a) (ft_path b) \<and> share_lines (ft_lines a) (ft_lines b)"

section \<open>The lines that changed\<close>

text \<open>The two loops of \<open>changed_range\<close> walk in from either end while the lines agree.\<close>

fun agreeing :: "string list \<Rightarrow> string list \<Rightarrow> nat" where
  "agreeing (x # xs) (y # ys) = (if x = y then Suc (agreeing xs ys) else 0)"
| "agreeing _ _ = 0"

definition to_u32 :: "nat \<Rightarrow> u32" where
  "to_u32 n = (if n < 2 ^ 32 then of_nat n else - 1)"

definition changed_range :: "string \<Rightarrow> string \<Rightarrow> line_range option" where
  "changed_range before after =
     (if before = after then None
      else
        (let old = str_lines before; new = str_lines after;
             first = agreeing old new;
             tail = agreeing (rev (drop first old)) (rev (drop first new));
             start = first + 1;
             last_line = max (length new - tail) first
         in Some (line_range_new (to_u32 start) (to_u32 (max last_line start)))))"

section \<open>Lemmas\<close>

lemma overlaps_sym: "overlaps a b = overlaps b a"
  by (auto simp: overlaps_def)

lemma collides_sym: "collides_with f a b = collides_with f b a"
  by (auto simp: collides_with_def same_file_def share_lines_def overlaps_sym split: option.splits)

text \<open>Two ranges overlap exactly when a line lies in both.\<close>

definition line_in :: "u32 \<Rightarrow> line_range \<Rightarrow> bool" where
  "line_in n r \<longleftrightarrow> lr_start r \<le> n \<and> n \<le> lr_end r"

lemma overlaps_shared_line:
  assumes "lr_start a \<le> lr_end a" "lr_start b \<le> lr_end b"
  shows "overlaps a b \<longleftrightarrow> (\<exists>n. line_in n a \<and> line_in n b)"
proof
  assume "overlaps a b"
  then have "line_in (max (lr_start a) (lr_start b)) a \<and> line_in (max (lr_start a) (lr_start b)) b"
    using assms by (auto simp: overlaps_def line_in_def max_def)
  then show "\<exists>n. line_in n a \<and> line_in n b"
    by blast
qed (auto simp: overlaps_def line_in_def)

lemma line_range_new_ordered: "lr_start (line_range_new a b) \<le> lr_end (line_range_new a b)"
  by (auto simp: line_range_new_def min_def max_def)

lemma agreeing_take: "take (agreeing xs ys) xs = take (agreeing xs ys) ys"
  by (induction xs ys rule: agreeing.induct) auto

lemma agreeing_le: "agreeing xs ys \<le> length xs" "agreeing xs ys \<le> length ys"
  by (induction xs ys rule: agreeing.induct) auto

lemma agreeing_suffix:
  assumes "k \<le> agreeing (rev xs) (rev ys)"
  shows "drop (length xs - k) xs = drop (length ys - k) ys"
proof -
  have "take k (rev xs) = take k (rev ys)"
    using assms agreeing_take [of "rev xs" "rev ys"] by (metis min_absorb1 take_take)
  then have "rev (take k (rev xs)) = rev (take k (rev ys))"
    by simp
  then show ?thesis
    by (simp add: take_rev)
qed

lemma unat_to_u32: "n < 2 ^ 32 \<Longrightarrow> unat (to_u32 n) = n"
  by (simp add: to_u32_def unat_of_nat)

lemma to_u32_mono: "a \<le> b \<Longrightarrow> b < 2 ^ 32 \<Longrightarrow> to_u32 a \<le> to_u32 b"
  by (simp add: word_le_nat_alt unat_to_u32)

lemma changed_range_lines:
  assumes "changed_range before after = Some r" "length (str_lines after) + 1 < 2 ^ 32"
  shows "unat (lr_start r) = agreeing (str_lines before) (str_lines after) + 1"
    "unat (lr_end r) = max (max (length (str_lines after)
        - agreeing (rev (drop (agreeing (str_lines before) (str_lines after)) (str_lines before)))
            (rev (drop (agreeing (str_lines before) (str_lines after)) (str_lines after))))
        (agreeing (str_lines before) (str_lines after)))
        (agreeing (str_lines before) (str_lines after) + 1)"
proof -
  let ?first = "agreeing (str_lines before) (str_lines after)"
  let ?t = "agreeing (rev (drop ?first (str_lines before))) (rev (drop ?first (str_lines after)))"
  let ?e = "max (max (length (str_lines after) - ?t) ?first) (?first + 1)"
  have "?first \<le> length (str_lines after)"
    by (rule agreeing_le)
  then have b: "?first + 1 \<le> ?e" "?e < 2 ^ 32"
    using assms(2) by auto
  have "r = line_range_new (to_u32 (?first + 1)) (to_u32 ?e)"
    using assms(1) by (simp add: changed_range_def Let_def split: if_splits)
  then have "lr_start r = to_u32 (?first + 1)" "lr_end r = to_u32 ?e"
    using to_u32_mono [OF b] by (simp_all add: line_range_new_def min_def max_def [of "to_u32 _" "to_u32 _"])
  then show "unat (lr_start r) = ?first + 1" "unat (lr_end r) = ?e"
    using b by (simp_all add: unat_to_u32)
qed

text \<open>What lies after the reported range is the end of the old text, and apart from its start.\<close>

lemma changed_range_tail:
  assumes "changed_range before after = Some r" "length (str_lines after) + 1 < 2 ^ 32"
  obtains m where "unat (lr_start r) \<le> m + 1" "m \<le> length (str_lines before)"
    "drop m (str_lines before) = drop (unat (lr_end r)) (str_lines after)"
proof -
  let ?old = "str_lines before" and ?new = "str_lines after"
  let ?first = "agreeing ?old ?new"
  let ?t = "agreeing (rev (drop ?first ?old)) (rev (drop ?first ?new))"
  define k where "k = length ?new - unat (lr_end r)"
  note lr = changed_range_lines [OF assms]
  have f: "?first \<le> length ?old" "?first \<le> length ?new"
    by (rule agreeing_le)+
  have t: "?t \<le> length ?old - ?first" "?t \<le> length ?new - ?first"
    using agreeing_le [of "rev (drop ?first ?old)" "rev (drop ?first ?new)"] by simp_all
  have kt: "k \<le> ?t"
    using lr(2) f t by (auto simp: k_def)
  have "drop (length (drop ?first ?old) - k) (drop ?first ?old)
      = drop (length (drop ?first ?new) - k) (drop ?first ?new)"
    using kt by (rule agreeing_suffix)
  then have eq: "drop (length ?old - k) ?old = drop (length ?new - k) ?new"
    using kt t f by (simp add: le_add_diff_inverse2 add.commute)
  have "drop (length ?new - k) ?new = drop (unat (lr_end r)) ?new"
    by (cases "unat (lr_end r) \<le> length ?new") (auto simp: k_def)
  with eq show ?thesis
    using lr(1) kt t f by (intro that [of "length ?old - k"]) auto
qed

text \<open>
  \<^verbatim>\<open>crates/localpilot-server/src/swarm/touches.rs\<close>: the index of recent file accesses. The index
  buckets accesses by normalised path and drops expired ones as it goes; it refines a plain log
  of every access, searched whole, as long as the clock does not run backwards.
\<close>

section \<open>The index\<close>

definition DEFAULT_TTL :: nat where "DEFAULT_TTL = 15 * 60 * 10 ^ 9"

record access =
  acc_session :: session_id
  acc_touch :: file_touch
  acc_at :: instant

record collision =
  peer :: session_id
  their_touch :: file_touch
  overlapping :: bool

record touch_index =
  by_path :: "(string, access list) btree_map"
  ttl :: nat

definition index_new :: "nat \<Rightarrow> touch_index" where
  "index_new t = \<lparr>by_path = bt_empty, ttl = t\<rparr>"

definition live :: "nat \<Rightarrow> instant \<Rightarrow> access \<Rightarrow> bool" where
  "live t now a \<longleftrightarrow> now - acc_at a < t"

text \<open>\<open>overlapping\<close>: two touches share lines, as opposed to merely sharing a file.\<close>

definition overlapping_touches :: "file_touch \<Rightarrow> file_touch \<Rightarrow> bool" where
  "overlapping_touches a b = share_lines (ft_lines a) (ft_lines b)"

text \<open>One turn of the loop of \<open>record\<close>, with its three \<open>continue\<close>s.\<close>

definition collide_step ::
  "bool \<Rightarrow> session_id \<Rightarrow> file_touch \<Rightarrow> collision list \<Rightarrow> access \<Rightarrow> collision list" where
  "collide_step folds s t seen a =
     (if acc_session a = s then seen
      else if \<not> collides_with folds (acc_touch a) t then seen
      else if list_ex (\<lambda>c. peer c = acc_session a) seen then seen
      else seen @ [\<lparr>peer = acc_session a, their_touch = acc_touch a,
                    overlapping = overlapping_touches (acc_touch a) t\<rparr>])"

definition collisions_in ::
  "bool \<Rightarrow> session_id \<Rightarrow> file_touch \<Rightarrow> access list \<Rightarrow> collision list" where
  "collisions_in folds s t accs =
     (if is_mutation (ft_op t) then foldl (collide_step folds s t) [] (rev accs) else [])"

definition bucket :: "touch_index \<Rightarrow> string \<Rightarrow> access list" where
  "bucket ix k = (case bt_get (by_path ix) k of None \<Rightarrow> [] | Some as \<Rightarrow> as)"

definition record_touch ::
  "bool \<Rightarrow> touch_index \<Rightarrow> session_id \<Rightarrow> file_touch \<Rightarrow> instant \<Rightarrow> touch_index \<times> collision list" where
  "record_touch folds ix s t now =
     (let k = normalise folds (ft_path t);
          accs = filter (live (ttl ix) now) (bucket ix k)
      in (ix\<lparr>by_path := bt_insert k (accs @ [\<lparr>acc_session = s, acc_touch = t, acc_at = now\<rparr>])
                (by_path ix)\<rparr>,
          collisions_in folds s t accs))"

definition forget :: "touch_index \<Rightarrow> session_id \<Rightarrow> touch_index" where
  "forget ix s =
     ix\<lparr>by_path :=
       filter (\<lambda>(_, as). as \<noteq> [])
         (map (\<lambda>(k, as). (k, filter (\<lambda>a. acc_session a \<noteq> s) as)) (by_path ix))\<rparr>"

definition paths_touched_by :: "touch_index \<Rightarrow> session_id \<Rightarrow> instant \<Rightarrow> string list" where
  "paths_touched_by ix s now =
     sort (map fst (filter (\<lambda>(_, as). list_ex (\<lambda>a. acc_session a = s \<and> live (ttl ix) now a) as)
             (by_path ix)))"

definition index_len :: "touch_index \<Rightarrow> instant \<Rightarrow> nat" where
  "index_len ix now = length (filter (live (ttl ix) now) (concat (bt_values (by_path ix))))"

definition index_is_empty :: "touch_index \<Rightarrow> instant \<Rightarrow> bool" where
  "index_is_empty ix now \<longleftrightarrow> index_len ix now = 0"

section \<open>The alert\<close>

text \<open>The dash of the source text is no character of the model; a plain one stands for it.\<close>

definition alert :: "string \<Rightarrow> file_touch \<Rightarrow> touch_op \<Rightarrow> bool \<Rightarrow> string" where
  "alert who t theirs overlap =
     (let place = (case ft_lines t of None \<Rightarrow> ''the whole file'' | Some r \<Rightarrow> show_line_range r);
          scope = (if overlap then ''overlapping the part you were working on''
                   else ''elsewhere in a file you have open'');
          opening = who @ '' just '' @ op_word (ft_op t) @ '' '' @ ft_path t @ '' ('' @ place @ ''), ''
                    @ scope @ ''. ''
      in if is_mutation theirs
         then opening @ ''Nothing was locked or rolled back - you both wrote. Re-read the file before ''
              @ ''your next edit to it, and message '' @ who
              @ '' if you are both changing the same thing.''
         else opening @ ''What you read from that file may be out of date; re-read it before ''
              @ ''relying on it.'')"

section \<open>The log the index stands for\<close>

text \<open>Every access in the order it was recorded, less those of forgotten sessions.\<close>

datatype touch_event =
    Touched session_id file_touch instant
  | Forgot session_id

fun log_step :: "access list \<Rightarrow> touch_event \<Rightarrow> access list" where
  "log_step l (Touched s t now) = l @ [\<lparr>acc_session = s, acc_touch = t, acc_at = now\<rparr>]"
| "log_step l (Forgot s) = filter (\<lambda>a. acc_session a \<noteq> s) l"

fun index_step :: "bool \<Rightarrow> touch_index \<Rightarrow> touch_event \<Rightarrow> touch_index" where
  "index_step folds ix (Touched s t now) = fst (record_touch folds ix s t now)"
| "index_step folds ix (Forgot s) = forget ix s"

text \<open>What a change should report: the whole log searched for live touches in its way.\<close>

definition spec_collisions ::
  "bool \<Rightarrow> nat \<Rightarrow> access list \<Rightarrow> session_id \<Rightarrow> file_touch \<Rightarrow> instant \<Rightarrow> collision list" where
  "spec_collisions folds window l s t now = collisions_in folds s t (filter (live window now) l)"

text \<open>The clock: no recorded instant is earlier than one before it.\<close>

fun clock_ok :: "instant \<Rightarrow> touch_event list \<Rightarrow> bool" where
  "clock_ok prev [] = True"
| "clock_ok prev (Touched s t now # es) = (prev \<le> now \<and> clock_ok now es)"
| "clock_ok prev (Forgot s # es) = clock_ok prev es"

fun clock_after :: "instant \<Rightarrow> touch_event list \<Rightarrow> instant" where
  "clock_after prev [] = prev"
| "clock_after prev (Touched s t now # es) = clock_after now es"
| "clock_after prev (Forgot s # es) = clock_after prev es"

section \<open>Refinement\<close>

definition file_of :: "bool \<Rightarrow> access \<Rightarrow> string" where
  "file_of folds a = normalise folds (ft_path (acc_touch a))"

definition represents :: "bool \<Rightarrow> touch_index \<Rightarrow> access list \<Rightarrow> instant \<Rightarrow> bool" where
  "represents folds ix l prev \<longleftrightarrow>
     bt_inv (by_path ix)
     \<and> (\<forall>now \<ge> prev. \<forall>k. filter (live (ttl ix) now) (bucket ix k)
                        = filter (live (ttl ix) now) (filter (\<lambda>a. file_of folds a = k) l))"

lemma live_later: "live t now' a \<Longrightarrow> now \<le> now' \<Longrightarrow> live t now a"
  by (simp add: live_def)

lemma filter_live_live:
  "now \<le> now' \<Longrightarrow> filter (live t now') (filter (live t now) l) = filter (live t now') l"
  by (simp add: live_later conj_absorb filter_filter cong: conj_cong)
    (rule filter_cong, auto dest: live_later)

lemma bucket_insert:
  "bt_inv (by_path ix) \<Longrightarrow>
     bucket (ix\<lparr>by_path := bt_insert k as (by_path ix)\<rparr>) k' = (if k' = k then as else bucket ix k')"
  by (simp add: bucket_def bt_laws)

lemma represents_record:
  assumes "represents folds ix l prev" "prev \<le> now"
  shows "represents folds (fst (record_touch folds ix s t now))
    (l @ [\<lparr>acc_session = s, acc_touch = t, acc_at = now\<rparr>]) now"
proof -
  have inv: "bt_inv (by_path ix)"
    using assms(1) by (simp add: represents_def)
  have old: "filter (live (ttl ix) now') (bucket ix k)
      = filter (live (ttl ix) now') (filter (\<lambda>a. file_of folds a = k) l)" if "now \<le> now'" for now' k
    using assms that by (auto simp: represents_def)
  show ?thesis
    unfolding represents_def record_touch_def Let_def
    using inv old
    by (auto simp: bucket_insert bt_laws filter_live_live file_of_def
        intro!: filter_cong dest: live_later)
qed

lemma map_of_forget:
  "map_of (map (\<lambda>(k, as). (k, f as)) m) k = map_option f (map_of m k)"
  by (induction m) auto

lemma bt_get_filter_values:
  assumes "bt_inv m"
  shows "bt_get (filter (\<lambda>(_, v). P v) m) k = (case bt_get m k of None \<Rightarrow> None | Some v \<Rightarrow> if P v then Some v else None)"
  using assms
proof (induction m)
  case (Cons x m)
  have "bt_get m k = None" if "fst x = k"
    using Cons.prems that by (force simp: bt_inv_def bt_get_def map_of_eq_None_iff)
  with Cons show ?case
    by (cases x) (auto simp: bt_get_def bt_inv_def split: option.splits)
qed simp

lemma bucket_forget:
  assumes "bt_inv (by_path ix)"
  shows "bt_inv (by_path (forget ix s))"
    "bucket (forget ix s) k = filter (\<lambda>a. acc_session a \<noteq> s) (bucket ix k)"
proof -
  let ?m = "map (\<lambda>(k, as). (k, filter (\<lambda>a. acc_session a \<noteq> s) as)) (by_path ix)"
  have "map fst ?m = map fst (by_path ix)"
    by (induction "by_path ix") auto
  then have inv: "bt_inv ?m"
    using assms by (metis bt_inv_def)
  then show "bt_inv (by_path (forget ix s))"
    by (simp add: forget_def bt_inv_def sorted_wrt_map sorted_wrt_filter)
  show "bucket (forget ix s) k = filter (\<lambda>a. acc_session a \<noteq> s) (bucket ix k)"
    using bt_get_filter_values [OF inv, of "\<lambda>as. as \<noteq> []" k]
    by (auto simp: bucket_def forget_def bt_get_def map_of_forget split: option.splits)
qed

lemma represents_forget:
  assumes "represents folds ix l prev"
  shows "represents folds (forget ix s) (filter (\<lambda>a. acc_session a \<noteq> s) l) prev"
proof -
  have inv: "bt_inv (by_path ix)"
    using assms by (simp add: represents_def)
  have swap: "filter P (filter Q xs) = filter Q (filter P xs)" for P Q and xs :: "access list"
    by (simp add: filter_filter conj_commute)
  show ?thesis
    unfolding represents_def
  proof (intro conjI allI impI)
    show "bt_inv (by_path (forget ix s))"
      using inv by (rule bucket_forget)
    fix now k
    assume "prev \<le> now"
    then have "filter (live (ttl ix) now) (bucket ix k)
        = filter (live (ttl ix) now) (filter (\<lambda>a. file_of folds a = k) l)"
      using assms by (simp add: represents_def)
    then show "filter (live (ttl (forget ix s)) now) (bucket (forget ix s) k)
        = filter (live (ttl (forget ix s)) now)
            (filter (\<lambda>a. file_of folds a = k) (filter (\<lambda>a. acc_session a \<noteq> s) l))"
      using bucket_forget(2) [OF inv, of s k] by (metis (no_types, lifting) swap forget_def
          touch_index.select_convs(2) touch_index.surjective touch_index.update_convs(1))
  qed
qed

lemma ttl_index_step [simp]: "ttl (index_step folds ix ev) = ttl ix"
  by (cases ev) (simp_all add: record_touch_def Let_def forget_def)

lemma ttl_index_run [simp]: "ttl (foldl (index_step folds) ix es) = ttl ix"
  by (induction es arbitrary: ix) simp_all

lemma represents_run:
  assumes "represents folds ix l prev" "clock_ok prev es"
  shows "represents folds (foldl (index_step folds) ix es) (foldl log_step l es) (clock_after prev es)"
  using assms
proof (induction es arbitrary: ix l prev)
  case (Cons ev es)
  then show ?case
    by (cases ev) (auto intro: represents_record represents_forget)
qed simp

lemma represents_new: "represents folds (index_new t) [] 0"
  by (simp add: represents_def index_new_def bucket_def)

text \<open>Only touches of the same file are in the way, so the other buckets do not matter.\<close>

lemma collide_filter:
  "foldl (collide_step folds s t) seen xs =
     foldl (collide_step folds s t) seen
       (filter (\<lambda>a. file_of folds a = normalise folds (ft_path t)) xs)"
  by (induction xs arbitrary: seen)
    (auto simp: collide_step_def collides_with_def same_file_def file_of_def)

lemma collisions_represented:
  assumes "represents folds ix l prev" "prev \<le> now"
  shows "snd (record_touch folds ix s t now) = spec_collisions folds (ttl ix) l s t now"
proof -
  let ?k = "normalise folds (ft_path t)"
  have "filter (live (ttl ix) now) (bucket ix ?k)
      = filter (live (ttl ix) now) (filter (\<lambda>a. file_of folds a = ?k) l)"
    using assms by (simp add: represents_def)
  also have "\<dots> = filter (\<lambda>a. file_of folds a = ?k) (filter (live (ttl ix) now) l)"
    by (simp add: filter_filter conj_commute)
  finally show ?thesis
    using collide_filter [of folds s t "[]" "rev (filter (live (ttl ix) now) l)"]
    by (simp add: record_touch_def Let_def spec_collisions_def collisions_in_def rev_filter)
qed

section \<open>What a change reports\<close>

text \<open>The most recent touch of a peer that is in the way.\<close>

definition last_in_way ::
  "bool \<Rightarrow> file_touch \<Rightarrow> session_id \<Rightarrow> access list \<Rightarrow> access option" where
  "last_in_way folds t p l =
     (case filter (\<lambda>a. acc_session a = p \<and> collides_with folds (acc_touch a) t) (rev l) of
        [] \<Rightarrow> None
      | a # _ \<Rightarrow> Some a)"

definition collision_for :: "file_touch \<Rightarrow> access \<Rightarrow> collision" where
  "collision_for t a =
     \<lparr>peer = acc_session a, their_touch = acc_touch a,
      overlapping = overlapping_touches (acc_touch a) t\<rparr>"

lemma collide_run:
  "distinct (map peer seen) \<Longrightarrow>
   distinct (map peer (foldl (collide_step folds s t) seen xs))
   \<and> (\<forall>c. c \<in> set (foldl (collide_step folds s t) seen xs) \<longleftrightarrow>
        c \<in> set seen \<or>
        (peer c \<noteq> s \<and> peer c \<notin> peer ` set seen \<and>
         (\<exists>a. last_in_way folds t (peer c) (rev xs) = Some a \<and> c = collision_for t a)))"
proof (induction xs arbitrary: seen)
  case Nil
  then show ?case
    by (simp add: last_in_way_def)
next
  case (Cons a xs)
  have lw: "last_in_way folds t p (rev (a # xs)) =
      (if acc_session a = p \<and> collides_with folds (acc_touch a) t then Some a
       else last_in_way folds t p (rev xs))" for p
    by (simp add: last_in_way_def)
  have d: "distinct (map peer (collide_step folds s t seen a))"
    using Cons.prems by (auto simp: collide_step_def list_ex_iff)
  note IH = Cons.IH [OF d]
  show ?case
  proof (cases "acc_session a = s \<or> \<not> collides_with folds (acc_touch a) t
      \<or> acc_session a \<in> peer ` set seen")
    case True
    then have "collide_step folds s t seen a = seen"
      by (auto simp: collide_step_def list_ex_iff)
    with IH True show ?thesis
      unfolding lw by (auto simp: image_iff)
  next
    case False
    then have step: "collide_step folds s t seen a = seen @ [collision_for t a]"
      by (auto simp: collide_step_def collision_for_def list_ex_iff image_iff)
    have "peer (collision_for t a) = acc_session a"
      by (simp add: collision_for_def)
    with IH False show ?thesis
      unfolding lw by (auto simp: step)
  qed
qed

end
