(* ===== verification/Batch.thy ===== *)
theory Batch
  imports Plan
begin

text \<open>
  \<open>validate_batch\<close> of \<^verbatim>\<open>crates/localpilot-taskgraph/src/ops.rs\<close>: the range check and the
  depth-first loop check on the edges a batch of new tasks names among itself. The check
  accepts exactly the batches whose positions exist and whose dependency relation is acyclic.
\<close>

section \<open>Definitions\<close>

definition deps :: "node_spec list \<Rightarrow> nat \<Rightarrow> nat list" where
  "deps specs i = (if i < length specs then depends_on_batch (specs ! i) else [])"

text \<open>The first position outside the batch, in reading order.\<close>

definition first_out_of_range :: "node_spec list \<Rightarrow> nat option" where
  "first_out_of_range specs =
     find (\<lambda>i. length specs \<le> i) (concat (map depends_on_batch specs))"

text \<open>
  The explicit-stack search. The two \<open>vec![false; n]\<close> are the sets of their true positions;
  the head of the list is the top of the stack. A position outside the batch, where the
  source would panic, is cut off together with a position on the current path; after the
  range check it does not occur (\<open>deps_in_range\<close>).
\<close>

definition unmarked :: "node_spec list \<Rightarrow> nat set \<Rightarrow> nat set \<Rightarrow> nat" where
  "unmarked specs settled visiting = card {i. i < length specs \<and> i \<notin> settled \<union> visiting}"

lemma unmarked_mono: "S \<union> V \<subseteq> S' \<union> V' \<Longrightarrow> unmarked specs S' V' \<le> unmarked specs S V"
  unfolding unmarked_def by (rule card_mono) auto

lemma unmarked_less:
  "i < length specs \<Longrightarrow> i \<notin> S \<union> V \<Longrightarrow> unmarked specs S (insert i V) < unmarked specs S V"
  unfolding unmarked_def by (rule psubset_card_mono) auto

function dfs_loop ::
  "node_spec list \<Rightarrow> nat set \<Rightarrow> nat set \<Rightarrow> (nat \<times> nat) list
   \<Rightarrow> plan_error + nat set \<times> nat set" where
  "dfs_loop specs settled visiting [] = Inr (settled, visiting)"
| "dfs_loop specs settled visiting ((v, edge) # stack) =
     (if length (deps specs v) \<le> edge
      then dfs_loop specs (insert v settled) (visiting - {v}) stack
      else
        (let nxt = deps specs v ! edge
         in if nxt \<in> visiting \<or> length specs \<le> nxt then Inl (BatchCycle nxt)
            else if nxt \<notin> settled
            then dfs_loop specs settled (insert nxt visiting) ((nxt, 0) # (v, edge + 1) # stack)
            else dfs_loop specs settled visiting ((v, edge + 1) # stack)))"
  by pat_completeness auto
termination
proof (relation "measures
    [\<lambda>(specs, settled, visiting, stack). unmarked specs settled visiting,
     \<lambda>(specs, settled, visiting, stack).
       sum_list (map (\<lambda>(v, e). length (deps specs v) - e + 1) stack)]", goal_cases)
  case (2 specs settled visiting v edge stack)
  have "unmarked specs (insert v settled) (visiting - {v}) \<le> unmarked specs settled visiting"
    by (rule unmarked_mono) auto
  then show ?case
    by auto
next
  case (3 specs settled visiting v edge stack nxt)
  then have "unmarked specs settled (insert nxt visiting) < unmarked specs settled visiting"
    by (intro unmarked_less) auto
  then show ?case
    by simp
qed auto

declare dfs_loop.simps(2) [simp del]

fun dfs_all :: "node_spec list \<Rightarrow> nat list \<Rightarrow> nat set \<Rightarrow> nat set \<Rightarrow> plan_error + unit" where
  "dfs_all specs [] settled visiting = Inr ()"
| "dfs_all specs (start # starts) settled visiting =
     (if start \<in> settled then dfs_all specs starts settled visiting
      else (case dfs_loop specs settled (insert start visiting) [(start, 0)] of
              Inl e \<Rightarrow> Inl e
            | Inr (settled', visiting') \<Rightarrow> dfs_all specs starts settled' visiting'))"

definition validate_batch :: "node_spec list \<Rightarrow> plan_error + unit" where
  "validate_batch specs =
     (case first_out_of_range specs of
        Some i \<Rightarrow> Inl (BatchIndexOutOfRange i (length specs))
      | None \<Rightarrow> dfs_all specs [0..<length specs] {} {})"

section \<open>Lemmas\<close>

text \<open>The relation a batch describes: \<open>(i, j)\<close> when position \<open>i\<close> waits on position \<open>j\<close>.\<close>

definition batch_rel :: "node_spec list \<Rightarrow> (nat \<times> nat) set" where
  "batch_rel specs = {(i, j). j \<in> set (deps specs i)}"

definition deps_in_range :: "node_spec list \<Rightarrow> bool" where
  "deps_in_range specs \<longleftrightarrow> (\<forall>i. \<forall>j \<in> set (deps specs i). j < length specs)"

lemma first_out_of_range_None: "first_out_of_range specs = None \<longleftrightarrow> deps_in_range specs"
proof -
  have "first_out_of_range specs = None
        \<longleftrightarrow> (\<forall>s \<in> set specs. \<forall>j \<in> set (depends_on_batch s). j < length specs)"
    by (auto simp: first_out_of_range_def find_None_iff not_le)
  also have "\<dots> \<longleftrightarrow> deps_in_range specs"
    by (fastforce simp: deps_in_range_def deps_def in_set_conv_nth [of _ specs])
  finally show ?thesis .
qed

lemma first_out_of_range_Some:
  "first_out_of_range specs = Some i \<Longrightarrow>
     length specs \<le> i \<and> (\<exists>s \<in> set specs. i \<in> set (depends_on_batch s))"
proof -
  assume "first_out_of_range specs = Some i"
  then have "length specs \<le> i \<and> i \<in> set (concat (map depends_on_batch specs))"
    unfolding first_out_of_range_def find_Some_iff by (metis nth_mem)
  then show ?thesis
    by simp
qed

lemma deps_in_range_nth:
  "deps_in_range specs \<Longrightarrow> e < length (deps specs v) \<Longrightarrow> deps specs v ! e < length specs"
  by (meson deps_in_range_def nth_mem)

subsection \<open>The search invariant\<close>

text \<open>
  From the top down: every entry's examined dependencies are settled, except the one whose
  entry is right above it.
\<close>

fun stack_ok :: "node_spec list \<Rightarrow> nat set \<Rightarrow> nat option \<Rightarrow> (nat \<times> nat) list \<Rightarrow> bool" where
  "stack_ok specs settled ab [] = True"
| "stack_ok specs settled ab ((v, e) # st) =
     ((\<forall>j < min e (length (deps specs v)).
         deps specs v ! j \<in> settled \<or> Some (deps specs v ! j) = ab)
      \<and> (\<forall>a. ab = Some a \<longrightarrow> a \<in> set (deps specs v))
      \<and> stack_ok specs settled (Some v) st)"

definition dfs_inv ::
  "node_spec list \<Rightarrow> nat set \<Rightarrow> nat set \<Rightarrow> (nat \<times> nat) list \<Rightarrow> bool" where
  "dfs_inv specs settled visiting stack \<longleftrightarrow>
     visiting = fst ` set stack \<and> distinct (map fst stack) \<and> visiting \<inter> settled = {}
     \<and> batch_rel specs `` settled \<subseteq> settled
     \<and> acyclic (batch_rel specs \<inter> settled \<times> UNIV)
     \<and> stack_ok specs settled None stack"

lemma stack_ok_mono:
  "stack_ok specs S ab st \<Longrightarrow> S \<subseteq> S' \<Longrightarrow> stack_ok specs S' ab st"
  by (induction specs S ab st rule: stack_ok.induct) auto

text \<open>Popping: what the removed entry stood for is settled now.\<close>

lemma stack_ok_pop:
  "stack_ok specs S (Some v) st \<Longrightarrow> stack_ok specs (insert v S) None st"
proof (cases st)
  case (Cons a st')
  assume ok: "stack_ok specs S (Some v) st"
  obtain w e where a: "a = (w, e)"
    by (cases a)
  from ok Cons a have "stack_ok specs (insert v S) (Some w) st'"
    by (auto intro: stack_ok_mono)
  with ok Cons a show ?thesis
    by auto
qed simp

lemma stack_path:
  "stack_ok specs S (Some a) st \<Longrightarrow> x \<in> fst ` set st \<Longrightarrow> (x, a) \<in> (batch_rel specs)\<^sup>+"
proof (induction st arbitrary: a)
  case (Cons ve st)
  obtain v e where ve: "ve = (v, e)"
    by (cases ve)
  with Cons.prems have va: "(v, a) \<in> batch_rel specs"
    by (simp add: batch_rel_def)
  show ?case
  proof (cases "x = v")
    case True
    with va show ?thesis
      by auto
  next
    case False
    with Cons ve have "(x, v) \<in> (batch_rel specs)\<^sup>+"
      by auto
    from this va show ?thesis
      by (rule trancl_into_trancl)
  qed
qed simp

text \<open>A dependency on the current path closes a loop.\<close>

lemma back_edge_cycle:
  assumes "stack_ok specs S None ((v, e) # st)" and "y \<in> fst ` set ((v, e) # st)"
    and "(v, y) \<in> batch_rel specs"
  shows "(y, y) \<in> (batch_rel specs)\<^sup>+"
proof (cases "y = v")
  case True
  with assms(3) show ?thesis
    by auto
next
  case False
  with assms(1,2) have "(y, v) \<in> (batch_rel specs)\<^sup>+"
    by (auto intro: stack_path)
  from this assms(3) show ?thesis
    by (rule trancl_into_trancl)
qed

lemma dfs_inv_pop:
  assumes inv: "dfs_inv specs S V ((v, e) # st)" and e: "length (deps specs v) \<le> e"
  shows "dfs_inv specs (insert v S) (V - {v}) st"
proof -
  let ?R = "batch_rel specs"
  from inv have V: "V = insert v (fst ` set st)" "v \<notin> fst ` set st" "distinct (map fst st)"
    and dis: "v \<notin> S" "fst ` set st \<inter> S = {}"
    and closed: "?R `` S \<subseteq> S" and ac: "acyclic (?R \<inter> S \<times> UNIV)"
    and ok: "stack_ok specs S None ((v, e) # st)"
    by (auto simp: dfs_inv_def)
  from ok e have succ: "?R `` {v} \<subseteq> S"
    by (auto simp: batch_rel_def in_set_conv_nth)
  have stay: "(u, w) \<in> (?R \<inter> S \<times> UNIV)\<^sup>* \<Longrightarrow> u \<in> S \<Longrightarrow> w \<in> S" for u w
    by (induction rule: rtrancl_induct) (use closed in auto)
  have "acyclic (?R \<inter> S \<times> UNIV \<union> {v} \<times> ?R `` {v})"
    using ac stay succ dis(1) by (intro acyclic_add_from) auto
  moreover have "?R \<inter> insert v S \<times> UNIV = ?R \<inter> S \<times> UNIV \<union> {v} \<times> ?R `` {v}"
    by auto
  ultimately have "acyclic (?R \<inter> insert v S \<times> UNIV)"
    by simp
  moreover from ok have "stack_ok specs (insert v S) None st"
    by (auto intro: stack_ok_pop)
  ultimately show ?thesis
    using V dis closed succ by (auto simp: dfs_inv_def)
qed

lemma dfs_inv_push:
  assumes inv: "dfs_inv specs S V ((v, e) # st)" and e: "e < length (deps specs v)"
    and y: "y = deps specs v ! e" "y \<notin> V" "y \<notin> S"
  shows "dfs_inv specs S (insert y V) ((y, 0) # (v, e + 1) # st)"
  using assms by (auto simp: dfs_inv_def less_Suc_eq)

lemma dfs_inv_advance:
  assumes inv: "dfs_inv specs S V ((v, e) # st)" and e: "e < length (deps specs v)"
    and y: "deps specs v ! e \<in> S"
  shows "dfs_inv specs S V ((v, e + 1) # st)"
  using assms by (auto simp: dfs_inv_def less_Suc_eq)

text \<open>
  The inner loop: an error names a position on a loop; otherwise the path is empty again and
  everything it settled is settled for good.
\<close>

lemma dfs_loop_correct:
  assumes "deps_in_range specs" and "dfs_inv specs S V st"
  shows "case dfs_loop specs S V st of
      Inl err \<Rightarrow> \<exists>y. err = BatchCycle y \<and> (y, y) \<in> (batch_rel specs)\<^sup>+
    | Inr (S', V') \<Rightarrow> dfs_inv specs S' V' [] \<and> S \<subseteq> S' \<and> fst ` set st \<subseteq> S'"
  using assms
proof (induction specs S V st rule: dfs_loop.induct)
  case (1 specs S V)
  then show ?case
    by simp
next
  case (2 specs S V v e st)
  let ?y = "deps specs v ! e"
  note inv = \<open>dfs_inv specs S V ((v, e) # st)\<close>
  consider "length (deps specs v) \<le> e" | "e < length (deps specs v)" "?y \<in> V"
    | "e < length (deps specs v)" "?y \<notin> V" "?y \<notin> S"
    | "e < length (deps specs v)" "?y \<notin> V" "?y \<in> S"
    by linarith
  then show ?case
  proof cases
    case 1
    then have eq: "dfs_loop specs S V ((v, e) # st) = dfs_loop specs (insert v S) (V - {v}) st"
      by (simp add: dfs_loop.simps(2))
    from "2.IH"(1) [OF 1 "2.prems"(1) dfs_inv_pop [OF inv 1]] show ?thesis
      unfolding eq by (auto split: sum.splits)
  next
    case 2
    with inv have "(?y, ?y) \<in> (batch_rel specs)\<^sup>+"
      by (intro back_edge_cycle [of specs S v e st]) (auto simp: dfs_inv_def batch_rel_def)
    with 2 show ?thesis
      by (simp add: dfs_loop.simps(2) Let_def)
  next
    case 3
    with "2.prems"(1) have y: "?y < length specs"
      by (simp add: deps_in_range_nth)
    with 3 have eq: "dfs_loop specs S V ((v, e) # st)
        = dfs_loop specs S (insert ?y V) ((?y, 0) # (v, e + 1) # st)"
      by (simp add: dfs_loop.simps(2) [of specs S V v e st] Let_def)
    have "\<not> length (deps specs v) \<le> e" "\<not> (?y \<in> V \<or> length specs \<le> ?y)"
      using 3 y by auto
    from "2.IH"(2) [OF this(1) refl this(2) 3(3) "2.prems"(1)
        dfs_inv_push [OF inv 3(1) refl 3(2,3)]]
    show ?thesis
      unfolding eq by (auto split: sum.splits)
  next
    case 4
    with "2.prems"(1) have y: "?y < length specs"
      by (simp add: deps_in_range_nth)
    with 4 have eq: "dfs_loop specs S V ((v, e) # st) = dfs_loop specs S V ((v, e + 1) # st)"
      by (simp add: dfs_loop.simps(2) [of specs S V v e st] Let_def)
    have "\<not> length (deps specs v) \<le> e" "\<not> (?y \<in> V \<or> length specs \<le> ?y)" "\<not> ?y \<notin> S"
      using 4 y by auto
    from "2.IH"(3) [OF this(1) refl this(2,3) "2.prems"(1) dfs_inv_advance [OF inv 4(1,3)]]
    show ?thesis
      unfolding eq by (auto split: sum.splits)
  qed
qed

text \<open>The outer loop, entered with an empty path.\<close>

lemma dfs_inv_start:
  "dfs_inv specs S V [] \<Longrightarrow> x \<notin> S \<Longrightarrow> dfs_inv specs S (insert x V) [(x, 0)]"
  by (auto simp: dfs_inv_def)

lemma dfs_all_correct:
  assumes "deps_in_range specs" and "dfs_inv specs S V []"
    and "{..<length specs} \<subseteq> S \<union> set starts"
  shows "case dfs_all specs starts S V of
      Inl err \<Rightarrow> \<exists>y. err = BatchCycle y \<and> (y, y) \<in> (batch_rel specs)\<^sup>+
    | Inr _ \<Rightarrow> acyclic (batch_rel specs)"
  using assms
proof (induction specs starts S V rule: dfs_all.induct)
  case (1 specs S V)
  have "batch_rel specs \<inter> S \<times> UNIV = batch_rel specs"
    using "1.prems"(3) by (auto simp: batch_rel_def deps_def split: if_splits)
  with "1.prems"(2) show ?case
    by (simp add: dfs_inv_def)
next
  case (2 specs x starts S V)
  show ?case
  proof (cases "x \<in> S")
    case True
    with 2 show ?thesis
      by auto
  next
    case False
    from dfs_loop_correct [OF "2.prems"(1) dfs_inv_start [OF "2.prems"(2) False]]
    consider (err) y where "dfs_loop specs S (insert x V) [(x, 0)] = Inl (BatchCycle y)"
        "(y, y) \<in> (batch_rel specs)\<^sup>+"
      | (ok) S' V' where "dfs_loop specs S (insert x V) [(x, 0)] = Inr (S', V')"
        "dfs_inv specs S' V' []" "S \<subseteq> S'" "x \<in> S'"
      by (auto split: sum.splits)
    then show ?thesis
    proof cases
      case err
      with False show ?thesis
        by auto
    next
      case ok
      with "2.prems"(3) have "{..<length specs} \<subseteq> S' \<union> set starts"
        by auto
      with "2.IH"(2) [OF False ok(1) refl "2.prems"(1) ok(2)] ok False show ?thesis
        by simp
    qed
  qed
qed

lemma dfs_all_start:
  assumes "deps_in_range specs"
  shows "case dfs_all specs [0..<length specs] {} {} of
      Inl err \<Rightarrow> \<exists>y. err = BatchCycle y \<and> (y, y) \<in> (batch_rel specs)\<^sup>+
    | Inr _ \<Rightarrow> acyclic (batch_rel specs)"
  by (rule dfs_all_correct [OF assms]) (auto simp: dfs_inv_def acyclic_def)

lemma validate_batch_cases:
  obtains (range) i where "validate_batch specs = Inl (BatchIndexOutOfRange i (length specs))"
      "length specs \<le> i" "\<exists>s \<in> set specs. i \<in> set (depends_on_batch s)"
      "\<not> deps_in_range specs"
  | (cycle) y where "validate_batch specs = Inl (BatchCycle y)" "deps_in_range specs"
      "(y, y) \<in> (batch_rel specs)\<^sup>+"
  | (ok) "validate_batch specs = Inr ()" "deps_in_range specs" "acyclic (batch_rel specs)"
proof (cases "first_out_of_range specs")
  case None
  then have r: "deps_in_range specs"
    by (simp add: first_out_of_range_None)
  from dfs_all_start [OF r] None r cycle ok show thesis
    by (cases "dfs_all specs [0..<length specs] {} {}") (auto simp: validate_batch_def)
next
  case (Some i)
  with first_out_of_range_Some [OF Some] first_out_of_range_None [of specs] range
  show thesis
    by (auto simp: validate_batch_def)
qed

lemma validate_batch_iff:
  "validate_batch specs = Inr () \<longleftrightarrow> deps_in_range specs \<and> acyclic (batch_rel specs)"
  by (rule validate_batch_cases [of specs]) (auto simp: acyclic_def)

end
