(* ===== verification/Ops.thy ===== *)
theory Ops
  imports Plan Batch
begin

text \<open>
  \<^verbatim>\<open>crates/localpilot-taskgraph/src/ops.rs\<close>: every way a plan may change. An operation takes
  the plan and returns the plan it leaves behind together with its \<open>Result\<close>, so what a
  refused call leaves behind is part of the model.
\<close>

section \<open>Results\<close>

record seeded =
  seeded_nodes :: "node_id list"
  seeded_gate :: "node_id option"
  replayed :: bool

record expanded =
  children :: "node_id list"
  expanded_gate :: "node_id option"

datatype salvage = Requeued u32 | Exhausted u32 u32

section \<open>Shared checks\<close>

definition require_mutable :: "task_plan \<Rightarrow> node_id \<Rightarrow> actor_id \<Rightarrow> plan_error + task_node" where
  "require_mutable p i actor =
     (case node p i of
        None \<Rightarrow> Inl (UnknownNode i)
      | Some target \<Rightarrow>
          if node_is_terminal target then Inl (AlreadyTerminal i (status_label (status target)))
          else if owner target = actor \<or> assignee target = Some actor then Inr target
          else Inl (NotOwner i actor (owner target)))"

definition ensure_no_cycle :: "task_plan \<Rightarrow> node_id \<Rightarrow> node_id \<Rightarrow> plan_error + unit" where
  "ensure_no_cycle p waiter dependency =
     (if dependency = waiter \<or> depends_transitively_on p dependency waiter
      then Inl (WouldCycle waiter dependency) else Inr ())"

text \<open>The checking loops of \<open>expand_node\<close> and \<open>inject_from_gate\<close>.\<close>

fun ensure_no_cycles :: "task_plan \<Rightarrow> node_id \<Rightarrow> node_id list \<Rightarrow> plan_error + unit" where
  "ensure_no_cycles p waiter [] = Inr ()"
| "ensure_no_cycles p waiter (up # ups) =
     (case ensure_no_cycle p waiter up of
        Inl e \<Rightarrow> Inl e
      | Inr _ \<Rightarrow> ensure_no_cycles p waiter ups)"

fun insert_all ::
  "task_plan \<Rightarrow> actor_id \<Rightarrow> node_id list \<Rightarrow> node_spec list \<Rightarrow> task_plan \<times> node_id list" where
  "insert_all p own inherited [] = (p, [])"
| "insert_all p own inherited (spec # specs) =
     (let (p1, i) = plan_insert p spec own inherited;
          (p2, ids) = insert_all p1 own inherited specs
      in (p2, i # ids))"

definition batch_extra :: "node_id list \<Rightarrow> node_spec \<Rightarrow> node_id \<Rightarrow> node_id list" where
  "batch_extra created spec i =
     filter (\<lambda>dep. dep \<noteq> i)
       (map (\<lambda>k. created ! k) (filter (\<lambda>k. k < length created) (depends_on_batch spec)))"

fun wire_all ::
  "task_plan \<Rightarrow> node_id list \<Rightarrow> (node_spec \<times> node_id) list \<Rightarrow> task_plan" where
  "wire_all p created [] = p"
| "wire_all p created ((spec, i) # rest) =
     (let extra = batch_extra created spec i
      in wire_all
           (if extra = [] then p
            else node_mut p i (\<lambda>n. n\<lparr>upstream := sort_dedup (upstream n @ extra)\<rparr>))
           created rest)"

definition insert_batch ::
  "task_plan \<Rightarrow> actor_id \<Rightarrow> node_spec list \<Rightarrow> node_id list \<Rightarrow> task_plan \<times> node_id list" where
  "insert_batch p own specs inherited =
     (let (p1, created) = insert_all p own inherited specs
      in (wire_all p1 created (zip specs created), created))"

definition append_gate ::
  "task_plan \<Rightarrow> actor_id \<Rightarrow> string \<Rightarrow> string \<Rightarrow> node_id list \<Rightarrow> task_plan \<times> node_id" where
  "append_gate p own t pr over = plan_insert p (spec_gate t pr) own over"

definition validate_artifact ::
  "node_id \<Rightarrow> node_kind \<Rightarrow> bool \<Rightarrow> handoff_artifact \<Rightarrow> plan_error + unit" where
  "validate_artifact i k deep a =
     (if trim (findings a) = []
      then Inl (IncompleteArtifact i ''it records no findings at all'')
      else if deep \<and> trim (what_i_did_not_check a) = []
      then Inl (IncompleteArtifact i
                  ''it does not say what was left unchecked, which this plan requires'')
      else if k = Gate
              \<and> (trim (validation a) = [] \<or> \<not> list_ex (\<lambda>e. trim e \<noteq> []) (evidence a))
      then Inl (RubberStampGate i)
      else Inr ())"

section \<open>The operations\<close>

definition seed_gate_prompt :: string where
  "seed_gate_prompt =
     ''Review every finished task this gate waits on. Say how you checked them and cite '' @
     ''what you looked at. If anything is unfinished, wrong, or unverified, raise it and '' @
     ''inject follow-up work instead of passing.''"

definition expand_gate_prompt :: string where
  "expand_gate_prompt =
     ''Review the tasks this gate waits on before their results are combined. Say how you '' @
     ''checked them and cite what you looked at. Raise gaps and inject follow-up work '' @
     ''rather than passing them along.''"

text \<open>The gate a deep plan puts over a batch.\<close>

definition gate_over ::
  "task_plan \<Rightarrow> actor_id \<Rightarrow> string \<Rightarrow> string \<Rightarrow> node_id list \<Rightarrow> task_plan \<times> node_id option" where
  "gate_over p actor t pr over =
     (if is_deep (mode p)
      then (let (p1, g) = append_gate p actor t pr over in (p1, Some g))
      else (p, None))"

definition is_gate_node :: "task_plan \<Rightarrow> node_id \<Rightarrow> bool" where
  "is_gate_node p i = (case node p i of None \<Rightarrow> False | Some n \<Rightarrow> kind n = Gate)"

definition seed ::
  "task_plan \<Rightarrow> actor_id \<Rightarrow> string \<Rightarrow> node_spec list \<Rightarrow> task_plan \<times> (plan_error + seeded)" where
  "seed p actor key specs =
     (case replayed_seed p key of
        Some existing \<Rightarrow>
          (p, Inr \<lparr>seeded_nodes = filter (\<lambda>i. \<not> is_gate_node p i) existing,
                   seeded_gate = (case filter (is_gate_node p) existing of
                                    [] \<Rightarrow> None | g # _ \<Rightarrow> Some g),
                   replayed = True\<rparr>)
      | None \<Rightarrow>
          if specs = [] then (p, Inl (EmptyBatch ''seeding a plan''))
          else (case validate_batch specs of
              Inl e \<Rightarrow> (p, Inl e)
            | Inr _ \<Rightarrow>
                (let (p1, created) = insert_batch p actor specs [];
                     (p2, gate) = gate_over p1 actor ''Plan review'' seed_gate_prompt created;
                     produced = created @ (case gate of None \<Rightarrow> [] | Some g \<Rightarrow> [g])
                 in (bump_version (record_seed p2 key produced),
                     Inr \<lparr>seeded_nodes = created, seeded_gate = gate, replayed = False\<rparr>))))"

definition expand_node ::
  "task_plan \<Rightarrow> node_id \<Rightarrow> actor_id \<Rightarrow> node_spec list
   \<Rightarrow> task_plan \<times> (plan_error + expanded)" where
  "expand_node p i actor specs =
     (case require_mutable p i actor of
        Inl e \<Rightarrow> (p, Inl e)
      | Inr target \<Rightarrow>
          if specs = [] then (p, Inl (EmptyBatch ''expanding a task''))
          else (case validate_batch specs of
              Inl e \<Rightarrow> (p, Inl e)
            | Inr _ \<Rightarrow>
                (let (p1, created) = insert_batch p actor specs (upstream target);
                     (p2, gate) =
                       gate_over p1 actor ''Sub-plan review'' expand_gate_prompt created;
                     waits_on = (case gate of None \<Rightarrow> created | Some g \<Rightarrow> [g])
                 in case ensure_no_cycles p2 i waits_on of
                      Inl e \<Rightarrow> (p2, Inl e)
                    | Inr _ \<Rightarrow>
                        (bump_version
                           (node_mut p2 i (\<lambda>n. n\<lparr>upstream := sort_dedup waits_on,
                                                 status := Pending\<rparr>)),
                         Inr \<lparr>children = created, expanded_gate = gate\<rparr>))))"

definition complete_node ::
  "task_plan \<Rightarrow> node_id \<Rightarrow> actor_id \<Rightarrow> handoff_artifact \<Rightarrow> task_plan \<times> (plan_error + unit)" where
  "complete_node p i actor art =
     (case node p i of
        None \<Rightarrow> (p, Inl (UnknownNode i))
      | Some target \<Rightarrow>
          if node_is_terminal target
          then (p, Inl (AlreadyTerminal i (status_label (status target))))
          else (case assignee target of
              None \<Rightarrow> (p, Inl (NotAssigned i))
            | Some a \<Rightarrow>
                if a \<noteq> actor then (p, Inl (WrongAssignee i actor a))
                else (case validate_artifact i (kind target) (is_deep (mode p)) art of
                    Inl e \<Rightarrow> (p, Inl e)
                  | Inr _ \<Rightarrow>
                      (bump_version
                         (node_mut p i (\<lambda>n. n\<lparr>status := Complete, artifact := Some art\<rparr>)),
                       Inr ()))))"

definition inject_from_gate ::
  "task_plan \<Rightarrow> node_id \<Rightarrow> actor_id \<Rightarrow> node_spec list
   \<Rightarrow> task_plan \<times> (plan_error + node_id list)" where
  "inject_from_gate p g actor specs =
     (case require_mutable p g actor of
        Inl e \<Rightarrow> (p, Inl e)
      | Inr target \<Rightarrow>
          if kind target \<noteq> Gate then (p, Inl (NotAGate g))
          else if specs = [] then (p, Inl (EmptyBatch ''a gate raising findings''))
          else (case validate_batch specs of
              Inl e \<Rightarrow> (p, Inl e)
            | Inr _ \<Rightarrow>
                (let (p1, injected) = insert_batch p actor specs (upstream target)
                 in case ensure_no_cycles p1 g injected of
                      Inl e \<Rightarrow> (p1, Inl e)
                    | Inr _ \<Rightarrow>
                        (bump_version
                           (node_mut p1 g
                              (\<lambda>n. n\<lparr>upstream := sort_dedup (upstream n @ injected),
                                      status := Pending\<rparr>)),
                         Inr injected))))"

definition fail_node ::
  "task_plan \<Rightarrow> node_id \<Rightarrow> actor_id \<Rightarrow> string \<Rightarrow> task_plan \<times> (plan_error + unit)" where
  "fail_node p i actor reason =
     (case require_mutable p i actor of
        Inl e \<Rightarrow> (p, Inl e)
      | Inr _ \<Rightarrow>
          (bump_version (node_mut p i (\<lambda>n. n\<lparr>status := Failed reason\<rparr>)), Inr ()))"

definition abandon_node ::
  "task_plan \<Rightarrow> node_id \<Rightarrow> actor_id \<Rightarrow> string \<Rightarrow> task_plan \<times> (plan_error + unit)" where
  "abandon_node p i actor reason =
     (case node p i of
        None \<Rightarrow> (p, Inl (UnknownNode i))
      | Some target \<Rightarrow>
          if node_is_terminal target
          then (p, Inl (AlreadyTerminal i (status_label (status target))))
          else if owner target \<noteq> actor then (p, Inl (NotOwner i actor (owner target)))
          else (bump_version (node_mut p i (\<lambda>n. n\<lparr>status := Abandoned reason\<rparr>)), Inr ()))"

definition exhausted_reason :: "u32 \<Rightarrow> u32 \<Rightarrow> string" where
  "exhausted_reason r limit =
     ''reclaimed '' @ show_nat (unat r) @ '' times (limit '' @ show_nat (unat limit) @
     '') after its workers stopped reporting; the task is failing, not unlucky''"

definition salvage_assignment ::
  "task_plan \<Rightarrow> node_id \<Rightarrow> u32 \<Rightarrow> task_plan \<times> (plan_error + salvage)" where
  "salvage_assignment p i limit =
     (case node p i of
        None \<Rightarrow> (p, Inl (UnknownNode i))
      | Some target \<Rightarrow>
          if node_is_terminal target
          then (p, Inl (AlreadyTerminal i (status_label (status target))))
          else
            (let outcome = (if limit \<le> reclaims target
                            then Exhausted (reclaims target) limit
                            else Requeued (reclaims target + 1));
                 upd = (case outcome of
                     Requeued r \<Rightarrow> (\<lambda>n. n\<lparr>reclaims := r, status := Pending\<rparr>)
                   | Exhausted r l \<Rightarrow> (\<lambda>n. n\<lparr>status := Failed (exhausted_reason r l)\<rparr>))
             in (bump_version (node_mut p i upd), Inr outcome)))"

fun salvage_all ::
  "task_plan \<Rightarrow> u32 \<Rightarrow> node_id list \<Rightarrow> task_plan \<times> (node_id \<times> salvage) list" where
  "salvage_all p limit [] = (p, [])"
| "salvage_all p limit (i # ids) =
     (let (p1, r) = salvage_assignment p i limit;
          (p2, rest) = salvage_all p1 limit ids
      in (p2, (case r of Inl _ \<Rightarrow> rest | Inr outcome \<Rightarrow> (i, outcome) # rest)))"

definition stranded :: "task_plan \<Rightarrow> actor_id \<Rightarrow> node_id list" where
  "stranded p actor =
     map nid (filter (\<lambda>n. \<not> node_is_terminal n \<and> assignee n = Some actor) (plan_nodes p))"

definition salvage_actor ::
  "task_plan \<Rightarrow> actor_id \<Rightarrow> u32 \<Rightarrow> task_plan \<times> (node_id \<times> salvage) list" where
  "salvage_actor p actor limit = salvage_all p limit (stranded p actor)"

end
