(* ===== verification/Schedule.thy ===== *)
theory Schedule
  imports Ops
begin

text \<open>
  \<^verbatim>\<open>crates/localpilot-taskgraph/src/schedule.rs\<close>: readiness derived from the edges, the
  sweep over tasks that can never start, dispatch, the text handed to a worker, and the
  progress count.
\<close>

section \<open>Readiness\<close>

datatype readiness = Ready | WaitingOn "node_id list" | Blocked "node_id list" | NotPending

definition up_blocks :: "task_plan \<Rightarrow> node_id \<Rightarrow> bool" where
  "up_blocks p u =
     (case node p u of
        None \<Rightarrow> True
      | Some n \<Rightarrow> status n \<noteq> Complete \<and> is_terminal (status n))"

definition up_waits :: "task_plan \<Rightarrow> node_id \<Rightarrow> bool" where
  "up_waits p u = (case node p u of None \<Rightarrow> False | Some n \<Rightarrow> \<not> is_terminal (status n))"

definition readiness_of :: "task_plan \<Rightarrow> node_id \<Rightarrow> plan_error + readiness" where
  "readiness_of p i =
     (case node p i of
        None \<Rightarrow> Inl (UnknownNode i)
      | Some target \<Rightarrow>
          if status target \<noteq> Pending then Inr NotPending
          else
            (let blocked = filter (up_blocks p) (upstream target);
                 waiting = filter (up_waits p) (upstream target)
             in if blocked \<noteq> [] then Inr (Blocked blocked)
                else if waiting \<noteq> [] then Inr (WaitingOn waiting)
                else Inr Ready))"

definition ready_nodes :: "task_plan \<Rightarrow> node_id list" where
  "ready_nodes p = map nid (filter (\<lambda>n. readiness_of p (nid n) = Inr Ready) (plan_nodes p))"

definition is_blocked :: "plan_error + readiness \<Rightarrow> bool" where
  "is_blocked r = (case r of Inr (Blocked _) \<Rightarrow> True | _ \<Rightarrow> False)"

definition blocked_nodes :: "task_plan \<Rightarrow> node_id list" where
  "blocked_nodes p = map nid (filter (\<lambda>n. is_blocked (readiness_of p (nid n))) (plan_nodes p))"

section \<open>Abandoning what can never start\<close>

definition blocked_reason :: "node_id list \<Rightarrow> string" where
  "blocked_reason by =
     ''cannot start: '' @ join '', '' (map show_node_id by) @ '' did not complete''"

fun cascade_wave :: "task_plan \<Rightarrow> node_id list \<Rightarrow> task_plan \<times> node_id list" where
  "cascade_wave p [] = (p, [])"
| "cascade_wave p (i # ids) =
     (case readiness_of p i of
        Inr (Blocked by) \<Rightarrow>
          (let p1 = node_mut p i (\<lambda>n. n\<lparr>status := Abandoned (blocked_reason by)\<rparr>);
               (p2, rest) = cascade_wave p1 ids
           in (p2, i # rest))
      | _ \<Rightarrow> cascade_wave p ids)"

text \<open>How many tasks are pending: what every wave of the sweep lowers.\<close>

definition pending_count :: "task_plan \<Rightarrow> nat" where
  "pending_count p = length (filter (\<lambda>n. status n = Pending) (plan_nodes p))"

definition pending_in :: "(node_id, task_node) btree_map \<Rightarrow> nat" where
  "pending_in m = length (filter (\<lambda>n. status n = Pending) (bt_values m))"

lemma pending_in_Cons:
  "pending_in (a # m) = (if status (snd a) = Pending then Suc (pending_in m) else pending_in m)"
  by (simp add: pending_in_def bt_values_def)

lemma bt_modify_Cons:
  "bt_modify i f (a # m) = (fst a, if fst a = i then f (snd a) else snd a) # bt_modify i f m"
  by (simp add: bt_modify_def split_beta)

lemma pending_in_abandon_le:
  "pending_in (bt_modify i (\<lambda>n. n\<lparr>status := Abandoned r\<rparr>) m) \<le> pending_in m"
  by (induction m) (auto simp: pending_in_Cons bt_modify_Cons, simp add: bt_modify_def)

lemma pending_in_abandon_less:
  "map_of m i = Some n \<Longrightarrow> status n = Pending \<Longrightarrow>
     pending_in (bt_modify i (\<lambda>n. n\<lparr>status := Abandoned r\<rparr>) m) < pending_in m"
  by (induction m)
    (auto simp: pending_in_Cons bt_modify_Cons less_Suc_eq_le pending_in_abandon_le
      split: if_splits)

lemma nodes_node_mut: "nodes (node_mut p i f) = bt_modify i f (nodes p)"
  by (simp add: node_mut_def)

lemma pending_count_eq: "pending_count p = pending_in (nodes p)"
  by (simp add: pending_count_def pending_in_def plan_nodes_def)

lemma pending_abandon_le:
  "pending_count (node_mut p i (\<lambda>n. n\<lparr>status := Abandoned r\<rparr>)) \<le> pending_count p"
  unfolding pending_count_eq nodes_node_mut by (rule pending_in_abandon_le)

lemma pending_abandon_less:
  "node p i = Some n \<Longrightarrow> status n = Pending \<Longrightarrow>
     pending_count (node_mut p i (\<lambda>n. n\<lparr>status := Abandoned r\<rparr>)) < pending_count p"
  unfolding pending_count_eq nodes_node_mut node_def bt_get_def
  by (rule pending_in_abandon_less)

lemma pending_wave_le: "pending_count (fst (cascade_wave p ids)) \<le> pending_count p"
  by (induction p ids rule: cascade_wave.induct)
    (force simp: Let_def split_beta split: sum.splits readiness.splits
      intro: order_trans [OF _ pending_abandon_le])+

lemma is_blocked_iff: "is_blocked r \<longleftrightarrow> (\<exists>b. r = Inr (Blocked b))"
  by (auto simp: is_blocked_def split: sum.splits readiness.splits)

lemma readiness_of_BlockedD:
  "readiness_of p i = Inr (Blocked by) \<Longrightarrow>
     \<exists>n. node p i = Some n \<and> status n = Pending \<and> by = filter (up_blocks p) (upstream n) \<and> by \<noteq> []"
  by (auto simp: readiness_of_def Let_def split: option.splits if_splits)

lemma pending_wave_less:
  assumes "blocked_nodes p \<noteq> []"
  shows "pending_count (fst (cascade_wave p (blocked_nodes p))) < pending_count p"
proof -
  obtain i ids where w: "blocked_nodes p = i # ids"
    using assms by (cases "blocked_nodes p") auto
  then have "i \<in> set (blocked_nodes p)"
    by simp
  then obtain bs where b: "readiness_of p i = Inr (Blocked bs)"
    by (auto simp: blocked_nodes_def is_blocked_iff)
  then obtain n where "node p i = Some n" "status n = Pending"
    using readiness_of_BlockedD by blast
  then have "pending_count (node_mut p i (\<lambda>n. n\<lparr>status := Abandoned (blocked_reason bs)\<rparr>))
      < pending_count p"
    by (rule pending_abandon_less)
  then show ?thesis
    by (simp add: w b Let_def split_beta order_le_less_trans [OF pending_wave_le])
qed

function cascade_loop :: "task_plan \<Rightarrow> node_id list \<Rightarrow> task_plan \<times> node_id list" where
  "cascade_loop p abandoned =
     (if blocked_nodes p = [] then (p, abandoned)
      else cascade_loop (bump_version (fst (cascade_wave p (blocked_nodes p))))
             (abandoned @ snd (cascade_wave p (blocked_nodes p))))"
  by pat_completeness auto
termination
proof (relation "measure (\<lambda>(p, abandoned). pending_count p)", goal_cases)
  case (2 p abandoned)
  have "pending_count (bump_version q) = pending_count q" for q
    by (simp add: pending_count_def plan_nodes_def bump_version_def)
  with pending_wave_less [OF 2] show ?case
    by simp
qed simp

declare cascade_loop.simps [simp del]

definition cascade_blocked :: "task_plan \<Rightarrow> task_plan \<times> node_id list" where
  "cascade_blocked p = cascade_loop p []"

section \<open>Dispatch\<close>

record assignment =
  asg_node :: node_id
  asg_title :: string
  asg_kind :: node_kind
  asg_assignee :: actor_id
  asg_plan_version :: u64
  asg_input :: string

definition earlier_heading :: string where
  "earlier_heading =
     newline @ ''## What earlier tasks established'' @ newline
     @ ''Read this instead of redoing it. If something '' @
     ''here is wrong, say so rather than working around it.'' @ newline @ newline"

text \<open>The handoffs of a node's dependencies, in id order.\<close>

definition upstream_artifacts :: "task_plan \<Rightarrow> task_node \<Rightarrow> (node_id \<times> handoff_artifact) list" where
  "upstream_artifacts p target =
     List.map_filter
       (\<lambda>u. case node p u of None \<Rightarrow> None | Some n \<Rightarrow> map_option (\<lambda>a. (u, a)) (artifact n))
       (upstream target)"

definition up_label :: "task_plan \<Rightarrow> node_id \<Rightarrow> string" where
  "up_label p u =
     (case node p u of None \<Rightarrow> show_node_id u
      | Some n \<Rightarrow> show_node_id (nid n) @ '' '' @ title n)"

definition assemble_input :: "task_plan \<Rightarrow> node_id \<Rightarrow> plan_error + string" where
  "assemble_input p i =
     (case node p i of
        None \<Rightarrow> Inl (UnknownNode i)
      | Some target \<Rightarrow>
          (let out = ''Objective: '' @ objective p @ newline @ newline
                 @ ''Your task ('' @ show_node_id (nid target) @ ''): '' @ title target
                 @ newline @ newline @ trim (prompt target) @ newline;
               ups = upstream_artifacts p target
           in if ups = [] then Inr out
              else Inr (out @ earlier_heading
                     @ concat (map (\<lambda>(u, a). render a (up_label p u) @ newline) ups))))"

definition dispatch ::
  "task_plan \<Rightarrow> node_id \<Rightarrow> actor_id \<Rightarrow> task_plan \<times> (plan_error + assignment)" where
  "dispatch p i who =
     (case readiness_of p i of
        Inl e \<Rightarrow> (p, Inl e)
      | Inr (WaitingOn w) \<Rightarrow> (p, Inl (NotReady i w))
      | Inr (Blocked b) \<Rightarrow> (p, Inl (BlockedBy i b))
      | Inr NotPending \<Rightarrow>
          (case node p i of
             None \<Rightarrow> (p, Inl (UnknownNode i))
           | Some target \<Rightarrow>
               (case assignee target of
                  Some holder \<Rightarrow> (p, Inl (AlreadyAssigned i holder))
                | None \<Rightarrow> (p, Inl (AlreadyTerminal i (status_label (status target))))))
      | Inr Ready \<Rightarrow>
          (case (assemble_input p i, node p i) of
             (Inr input, Some n) \<Rightarrow>
               (let p1 = bump_version (node_mut p i (\<lambda>n. n\<lparr>status := Assigned who\<rparr>))
                in (p1, Inr \<lparr>asg_node = i, asg_title = title n, asg_kind = kind n,
                             asg_assignee = who, asg_plan_version = version p1,
                             asg_input = input\<rparr>))
           | (Inl e, _) \<Rightarrow> (p, Inl e)
           | (Inr _, None) \<Rightarrow> (p, Inl (UnknownNode i))))"

section \<open>Progress\<close>

record plan_progress =
  total :: nat
  prog_complete :: nat
  prog_failed :: nat
  prog_abandoned :: nat
  prog_assigned :: nat
  prog_ready :: nat
  prog_waiting :: nat

definition progress_step :: "task_plan \<Rightarrow> plan_progress \<Rightarrow> task_node \<Rightarrow> plan_progress" where
  "progress_step p out n =
     (case status n of
        Complete \<Rightarrow> out\<lparr>prog_complete := prog_complete out + 1\<rparr>
      | Failed _ \<Rightarrow> out\<lparr>prog_failed := prog_failed out + 1\<rparr>
      | Abandoned _ \<Rightarrow> out\<lparr>prog_abandoned := prog_abandoned out + 1\<rparr>
      | Assigned _ \<Rightarrow> out\<lparr>prog_assigned := prog_assigned out + 1\<rparr>
      | Pending \<Rightarrow>
          (if readiness_of p (nid n) = Inr Ready
           then out\<lparr>prog_ready := prog_ready out + 1\<rparr>
           else out\<lparr>prog_waiting := prog_waiting out + 1\<rparr>))"

definition progress :: "task_plan \<Rightarrow> plan_progress" where
  "progress p =
     foldl (progress_step p)
       \<lparr>total = plan_len p, prog_complete = 0, prog_failed = 0, prog_abandoned = 0,
        prog_assigned = 0, prog_ready = 0, prog_waiting = 0\<rparr> (plan_nodes p)"

end
