(* ===== verification/Swarm_Host.thy ===== *)
theory Swarm_Host
  imports Touches Schedule Session_Host
begin

text \<open>
  \<^verbatim>\<open>crates/localpilot-server/src/registry.rs\<close> and \<^verbatim>\<open>swarm/spawn.rs\<close>: the registry of live
  sessions, and the host that joins it to the swarm registry. A session runtime is what the
  swarm reads and writes of it: its id, its model, its last answer, the prompt parts and the
  messaging view installed on it. A hosted session is its queue of soft interrupts, whether it is
  busy, and the turns started on it; \<open>Session_Host\<close> has the whole of it, and the gate of its queue is
  taken to be open here. The worker factory, the coordinator's directive and the
  text of a UUID are arguments.
\<close>

section \<open>The session registry\<close>

record runtime =
  rt_session :: session_id
  rt_model :: string
  rt_last_text :: "string option"
  rt_prompt :: "string list"
  rt_peers :: "(swarm_id \<times> session_id) option"

datatype registry_error =
    AlreadyPresent session_id
  | NotFound
  | UnknownSessionName string
  | Store string
  | FactoryFailed string

type_synonym session_registry = "(session_id, runtime) btree_map"

definition sess_insert ::
  "session_registry \<Rightarrow> session_id \<Rightarrow> runtime \<Rightarrow> session_registry \<times> (registry_error + session_id)" where
  "sess_insert m i rt =
     (if bt_get m i \<noteq> None then (m, Inl (AlreadyPresent i)) else (bt_insert i rt m, Inr i))"

definition sess_register ::
  "session_registry \<Rightarrow> runtime \<Rightarrow> session_registry \<times> (registry_error + session_id)" where
  "sess_register m rt = sess_insert m (rt_session rt) rt"

text \<open>\<open>create\<close> is what the caller's session factory answers, \<open>load\<close> the replay of an event log.\<close>

definition open_new ::
  "session_registry \<Rightarrow> (registry_error + runtime)
   \<Rightarrow> session_registry \<times> (registry_error + session_id)" where
  "open_new m create =
     (case create of Inl e \<Rightarrow> (m, Inl e) | Inr rt \<Rightarrow> sess_insert m (rt_session rt) rt)"

definition resume_by_id ::
  "session_registry \<Rightarrow> session_id \<Rightarrow> (registry_error + runtime)
   \<Rightarrow> (runtime \<Rightarrow> session_id \<Rightarrow> string + runtime)
   \<Rightarrow> session_registry \<times> (registry_error + session_id)" where
  "resume_by_id m i create load =
     (case create of
        Inl e \<Rightarrow> (m, Inl e)
      | Inr rt \<Rightarrow>
          (case load rt i of
             Inl e \<Rightarrow> (m, Inl (Store e))
           | Inr rt' \<Rightarrow> sess_insert m (rt_session rt') rt'))"

definition resume_by_name ::
  "session_registry \<Rightarrow> string \<Rightarrow> (string \<Rightarrow> string + session_id option)
   \<Rightarrow> (registry_error + runtime) \<Rightarrow> (runtime \<Rightarrow> session_id \<Rightarrow> string + runtime)
   \<Rightarrow> session_registry \<times> (registry_error + session_id)" where
  "resume_by_name m nm find_named create load =
     (case find_named nm of
        Inl e \<Rightarrow> (m, Inl (Store e))
      | Inr None \<Rightarrow> (m, Inl (UnknownSessionName nm))
      | Inr (Some i) \<Rightarrow> resume_by_id m i create load)"

definition sess_get :: "session_registry \<Rightarrow> session_id \<Rightarrow> runtime option" where
  "sess_get m i = bt_get m i"

definition sess_remove :: "session_registry \<Rightarrow> session_id \<Rightarrow> session_registry \<times> runtime option" where
  "sess_remove m i = (bt_remove i m, bt_get m i)"

definition sess_list :: "session_registry \<Rightarrow> session_id list" where
  "sess_list m = bt_keys m"

definition sess_len :: "session_registry \<Rightarrow> nat" where
  "sess_len m = length m"

section \<open>The swarm host\<close>

record hosted =
  inbox :: "soft_interrupt list"
  busy :: bool
  started :: "string list"

definition hosted_new :: hosted where
  "hosted_new = \<lparr>inbox = [], busy = False, started = []\<rparr>"

record swarm_host =
  sessions :: session_registry
  swarms :: registry
  hosts :: "(session_id, hosted) btree_map"
  peer_bindings :: "(session_id, swarm_id \<times> session_id) btree_map"
  touches :: touch_index
  watchers :: "(swarm_id \<times> session_id) list"

record spawn_request =
  sr_swarm :: swarm_id
  sr_parent :: session_id
  sr_name :: string
  sr_task :: string
  sr_key :: "string option"
  sr_model :: "string option"

definition spawn_request_new ::
  "swarm_id \<Rightarrow> session_id \<Rightarrow> string \<Rightarrow> string \<Rightarrow> spawn_request" where
  "spawn_request_new sw parent nm tsk =
     \<lparr>sr_swarm = sw, sr_parent = parent, sr_name = nm, sr_task = tsk, sr_key = None, sr_model = None\<rparr>"

definition with_key :: "spawn_request \<Rightarrow> string \<Rightarrow> spawn_request" where
  "with_key r k = r\<lparr>sr_key := Some k\<rparr>"

definition with_model :: "spawn_request \<Rightarrow> string \<Rightarrow> spawn_request" where
  "with_model r m = r\<lparr>sr_model := Some m\<rparr>"

record worker_factory =
  create :: "spawn_request \<Rightarrow> string + runtime"
  ensure_model_available :: "string \<Rightarrow> string + unit"

definition ADOPTION_ONLY_FACTORY_REFUSAL :: string where
  "ADOPTION_ONLY_FACTORY_REFUSAL = ''this host adopts existing sessions and cannot create workers''"

definition adoption_only_factory :: worker_factory where
  "adoption_only_factory =
     \<lparr>create = (\<lambda>_. Inl ADOPTION_ONLY_FACTORY_REFUSAL),
      ensure_model_available = (\<lambda>_. Inl ADOPTION_ONLY_FACTORY_REFUSAL)\<rparr>"

datatype spawned =
    Started session_id
  | AlreadyStarting
  | Already session_id

datatype spawn_error =
    AdmissionRefused swarm_error
  | Factory string
  | ProviderUnavailable string string
  | ModelMismatch string string
  | RegistryRefused registry_error

definition host_new :: "session_registry \<Rightarrow> registry \<Rightarrow> swarm_host" where
  "host_new ss g =
     \<lparr>sessions = ss, swarms = g, hosts = bt_empty, peer_bindings = bt_empty,
      touches = index_new DEFAULT_TTL, watchers = []\<rparr>"

definition host_of :: "swarm_host \<Rightarrow> session_id \<Rightarrow> hosted option" where
  "host_of h s = bt_get (hosts h) s"

definition inject :: "session_id \<Rightarrow> soft_interrupt \<Rightarrow> swarm_host \<Rightarrow> swarm_host" where
  "inject s i h = h\<lparr>hosts := bt_modify s (\<lambda>x. x\<lparr>inbox := inbox x @ [i]\<rparr>) (hosts h)\<rparr>"

text \<open>The host for a session, made the first time; the flag says whether this call made it.\<close>

definition host_for :: "swarm_host \<Rightarrow> session_id \<Rightarrow> swarm_host \<times> bool" where
  "host_for h s =
     (if bt_get (hosts h) s \<noteq> None then (h, False)
      else (h\<lparr>hosts := bt_insert s hosted_new (hosts h)\<rparr>, True))"

definition modify_session :: "session_id \<Rightarrow> (runtime \<Rightarrow> runtime) \<Rightarrow> swarm_host \<Rightarrow> swarm_host" where
  "modify_session s f h = h\<lparr>sessions := bt_modify s f (sessions h)\<rparr>"

text \<open>
  The view of the swarm a session speaks through: the one already made for it, or a new one for
  this swarm. A handle keeps the view alive, so the weak index entry upgrades.
\<close>

definition bind_peers :: "swarm_host \<Rightarrow> swarm_id \<Rightarrow> session_id \<Rightarrow> swarm_host \<times> (swarm_id \<times> session_id)" where
  "bind_peers h sw s =
     (let view = (case bt_get (peer_bindings h) s of Some v \<Rightarrow> v | None \<Rightarrow> (sw, s));
          h1 = (if bt_get (peer_bindings h) s = None
                then h\<lparr>peer_bindings := bt_insert s (sw, s) (peer_bindings h)\<rparr> else h)
      in (modify_session s (\<lambda>rt. rt\<lparr>rt_peers := Some view\<rparr>) h1, view))"

definition watch_touches :: "swarm_host \<Rightarrow> swarm_id \<Rightarrow> session_id \<Rightarrow> swarm_host" where
  "watch_touches h sw s = h\<lparr>watchers := watchers h @ [(sw, s)]\<rparr>"

text \<open>Hosting, binding and watching, the common end of adoption and spawning.\<close>

definition attach :: "swarm_host \<Rightarrow> swarm_id \<Rightarrow> session_id \<Rightarrow> swarm_host" where
  "attach h sw s =
     (let (h1, inserted) = host_for h s;
          h2 = fst (bind_peers h1 sw s)
      in if inserted then watch_touches h2 sw s else h2)"

definition adopt_root ::
  "(bool \<Rightarrow> string) \<Rightarrow> swarm_host \<Rightarrow> swarm_id \<Rightarrow> session_id \<Rightarrow> string
   \<Rightarrow> swarm_host \<times> (spawn_error + session_id)" where
  "adopt_root directive h sw s nm =
     (case sess_get (sessions h) s of
        None \<Rightarrow> (h, Inl (RegistryRefused NotFound))
      | Some _ \<Rightarrow>
          let (g, r) = join_as_root (swarms h) sw s nm; h1 = h\<lparr>swarms := g\<rparr>
          in case r of
               Inl e \<Rightarrow> (h1, Inl (AdmissionRefused e))
             | Inr _ \<Rightarrow>
                 let deep = (case plan_of g sw of Some p \<Rightarrow> mode p = Deep | None \<Rightarrow> False);
                     h2 = modify_session s (\<lambda>rt. rt\<lparr>rt_prompt := rt_prompt rt @ [directive deep]\<rparr>) h1
                 in (attach h2 sw s, Inr s))"

definition adopt_pair ::
  "swarm_host \<Rightarrow> swarm_id \<Rightarrow> session_id \<times> string \<Rightarrow> session_id \<times> string
   \<Rightarrow> swarm_host \<times> (spawn_error + session_id \<times> session_id)" where
  "adopt_pair h sw a b =
     (if sess_get (sessions h) (fst a) = None \<or> sess_get (sessions h) (fst b) = None
      then (h, Inl (RegistryRefused NotFound))
      else
        let (g, r) = join_as_pair (swarms h) sw a b; h1 = h\<lparr>swarms := g\<rparr>
        in case r of
             Inl e \<Rightarrow> (h1, Inl (AdmissionRefused e))
           | Inr _ \<Rightarrow>
               let (h2, ia) = host_for h1 (fst a); (h3, ib) = host_for h2 (fst b);
                   h4 = fst (bind_peers h3 sw (fst a)); h5 = fst (bind_peers h4 sw (fst b));
                   h6 = (if ia then watch_touches h5 sw (fst a) else h5);
                   h7 = (if ib then watch_touches h6 sw (fst b) else h6)
               in (h7, Inr (fst a, fst b)))"

section \<open>Spawning\<close>

text \<open>The call up to the reservation; other callers may run between it and the rest.\<close>

definition spawn_reserve ::
  "swarm_host \<Rightarrow> spawn_request \<Rightarrow> swarm_host \<times> (spawn_error + swarm_admission)" where
  "spawn_reserve h q =
     (let (g, r) = reserve (swarms h) (sr_swarm q) (sr_key q)
      in (h\<lparr>swarms := g\<rparr>, map_sum AdmissionRefused id r))"

definition give_back :: "swarm_host \<Rightarrow> reservation \<Rightarrow> swarm_host" where
  "give_back h r = h\<lparr>swarms := fst (release (swarms h) r)\<rparr>"

definition built_worker ::
  "worker_factory \<Rightarrow> spawn_request \<Rightarrow> spawn_error + runtime" where
  "built_worker f q =
     (case (case sr_model q of None \<Rightarrow> Inr () | Some m \<Rightarrow> map_sum (Pair m) id (ensure_model_available f m)) of
        Inl (m, why) \<Rightarrow> Inl (ProviderUnavailable m why)
      | Inr _ \<Rightarrow>
          (case create f q of
             Inl why \<Rightarrow> Inl (Factory why)
           | Inr rt \<Rightarrow>
               (case sr_model q of
                  Some m \<Rightarrow> if rt_model rt \<noteq> m then Inl (ModelMismatch m (rt_model rt)) else Inr rt
                | None \<Rightarrow> Inr rt)))"

definition spawn_rest ::
  "worker_factory \<Rightarrow> swarm_host \<Rightarrow> spawn_request \<Rightarrow> reservation \<Rightarrow> swarm_host \<times> (spawn_error + spawned)" where
  "spawn_rest f h q r =
     (case built_worker f q of
        Inl e \<Rightarrow> (give_back h r, Inl e)
      | Inr rt \<Rightarrow>
          let s = rt_session rt; (ss, reg) = sess_register (sessions h) rt
          in case reg of
               Inl e \<Rightarrow> (give_back h r, Inl (RegistryRefused e))
             | Inr _ \<Rightarrow>
                 let h1 = h\<lparr>sessions := ss\<rparr>
                 in case sess_get ss s of
                      None \<Rightarrow> (give_back h1 r, Inl (RegistryRefused NotFound))
                    | Some _ \<Rightarrow>
                        let (g, c) = confirm (swarms h1) r (member_worker s (sr_name q) (sr_parent q));
                            h2 = h1\<lparr>swarms := g\<rparr>
                        in case c of
                             Inl e \<Rightarrow> (h2, Inl (AdmissionRefused e))
                           | Inr _ \<Rightarrow> (attach h2 (sr_swarm q) s, Inr (Started s)))"

definition spawn ::
  "worker_factory \<Rightarrow> swarm_host \<Rightarrow> spawn_request \<Rightarrow> swarm_host \<times> (spawn_error + spawned)" where
  "spawn f h q =
     (let (h1, a) = spawn_reserve h q
      in case a of
           Inl e \<Rightarrow> (h1, Inl e)
         | Inr (Reserved r) \<Rightarrow> spawn_rest f h1 q r
         | Inr InFlight \<Rightarrow> (h1, Inr AlreadyStarting)
         | Inr (Existing s) \<Rightarrow> (h1, Inr (Already s)))"

section \<open>Bounding a report\<close>

text \<open>
  \<open>bound_summary\<close> of \<^verbatim>\<open>crates/localpilot-harness/src/agent_run.rs\<close>. Lengths are in bytes of
  UTF-8; the three bytes of the ellipsis are three dots.
\<close>

text \<open>The longest prefix of at most so many bytes: the cut moved down to a character boundary.\<close>

fun take_bytes :: "nat \<Rightarrow> string \<Rightarrow> string" where
  "take_bytes n [] = []"
| "take_bytes n (c # s) = (if utf8_len c \<le> n then c # take_bytes (n - utf8_len c) s else [])"

text \<open>The text before the last line feed.\<close>

definition before_last_newline :: "string \<Rightarrow> string option" where
  "before_last_newline s =
     (if CHR 0x0A \<in> set s then Some (rev (drop 1 (dropWhile (\<lambda>c. c \<noteq> CHR 0x0A) (rev s)))) else None)"

definition MAX_SUMMARY_BYTES :: nat where "MAX_SUMMARY_BYTES = 4 * 1024"
definition MAX_REPORT_BYTES :: nat where "MAX_REPORT_BYTES = 4 * 1024"

definition truncation_mark :: string where
  "truncation_mark = newline @ ''... [summary truncated]''"

definition bound_summary :: "string \<Rightarrow> nat \<Rightarrow> string \<times> bool" where
  "bound_summary text limit =
     (if byte_len text \<le> limit then (text, False)
      else
        (let head = take_bytes limit text;
             cut = (case before_last_newline head of
                      Some l \<Rightarrow> if MAX_SUMMARY_BYTES div 2 < byte_len l then l else head
                    | None \<Rightarrow> head)
         in (cut @ truncation_mark, True)))"

section \<open>Coming home\<close>

text \<open>Why a turn ended is the harness's own value; the host passes it through.\<close>

record 'stop worker_report =
  wr_session :: session_id
  wr_name :: string
  wr_summary :: string
  wr_truncated :: bool
  wr_stop :: 'stop
  wr_delivered_to :: "session_id option"

definition report_message :: "(session_id \<Rightarrow> string) \<Rightarrow> string \<Rightarrow> session_id \<Rightarrow> string \<Rightarrow> bool \<Rightarrow> string" where
  "report_message show_id nm s summary truncated =
     (let who = (if trim nm = [] then show_id s else nm @ '' ('' @ show_id s @ '')'');
          body = (if trim summary = [] then ''It finished without reporting anything.'' else summary);
          note = (if truncated then newline @ ''[report truncated]'' else [])
      in ''Worker '' @ who @ '' finished.'' @ newline @ newline @ body @ note)"

definition finish ::
  "(session_id \<Rightarrow> string) \<Rightarrow> swarm_host \<Rightarrow> swarm_id \<Rightarrow> session_id \<Rightarrow> 'stop
   \<Rightarrow> swarm_host \<times> 'stop worker_report" where
  "finish show_id h sw s stop =
     (let raw = (case sess_get (sessions h) s of
                   None \<Rightarrow> []
                 | Some rt \<Rightarrow> (case rt_last_text rt of None \<Rightarrow> [] | Some t \<Rightarrow> t));
          (summary, truncated) = bound_summary raw MAX_REPORT_BYTES;
          nm = (case member_of (swarms h) sw s of None \<Rightarrow> [] | Some m \<Rightarrow> mem_name m);
          (g, r) = record_completion (swarms h) sw s summary;
          h1 = h\<lparr>swarms := g\<rparr>;
          owner = (case r of Inl _ \<Rightarrow> None | Inr o' \<Rightarrow> o');
          reached = option_filter (\<lambda>o'. host_of h1 o' \<noteq> None) owner;
          h2 = (case reached of
                  None \<Rightarrow> h1
                | Some o' \<Rightarrow>
                    inject o' \<lparr>si_content = report_message show_id nm s summary truncated,
                              si_source = BackgroundTask, si_urgent = False\<rparr> h1)
      in (h2, \<lparr>wr_session = s, wr_name = nm, wr_summary = summary, wr_truncated = truncated,
               wr_stop = stop, wr_delivered_to = reached\<rparr>))"

text \<open>\<open>drive\<close> is the worker's whole turn: what it leaves of the host and why it stopped.\<close>

definition run_worker ::
  "(session_id \<Rightarrow> string) \<Rightarrow> (session_id \<Rightarrow> string \<Rightarrow> swarm_host \<Rightarrow> swarm_host \<times> 'stop)
   \<Rightarrow> swarm_host \<Rightarrow> swarm_id \<Rightarrow> session_id \<Rightarrow> string
   \<Rightarrow> swarm_host \<times> (spawn_error + 'stop worker_report)" where
  "run_worker show_id drive h sw s tsk =
     (case host_of h s of
        None \<Rightarrow> (h, Inl (RegistryRefused NotFound))
      | Some _ \<Rightarrow>
          let (h1, stop) = drive s tsk h; (h2, rep) = finish show_id h1 sw s stop
          in (h2, Inr rep))"

text \<open>The part of \<open>dispatch\<close> before the turn is handed to a task of its own.\<close>

definition dispatch_worker ::
  "worker_factory \<Rightarrow> swarm_host \<Rightarrow> spawn_request \<Rightarrow> swarm_host \<times> (spawn_error + session_id)" where
  "dispatch_worker f h q =
     (let (h1, r) = spawn f h q
      in case r of
           Inl e \<Rightarrow> (h1, Inl e)
         | Inr AlreadyStarting \<Rightarrow> (h1, Inl (AdmissionRefused StaleReservation))
         | Inr (Started s) \<Rightarrow>
             (h1, if host_of h1 s = None then Inl (RegistryRefused NotFound) else Inr s)
         | Inr (Already s) \<Rightarrow>
             (h1, if host_of h1 s = None then Inl (RegistryRefused NotFound) else Inr s))"

definition unhost :: "swarm_host \<Rightarrow> session_id \<Rightarrow> swarm_host \<times> hosted option" where
  "unhost h s =
     (h\<lparr>touches := forget (touches h) s, peer_bindings := bt_remove s (peer_bindings h),
        hosts := bt_remove s (hosts h)\<rparr>, bt_get (hosts h) s)"

section \<open>Announcing a touch\<close>

definition member_name :: "(session_id \<Rightarrow> string) \<Rightarrow> swarm_host \<Rightarrow> swarm_id \<Rightarrow> session_id \<Rightarrow> string" where
  "member_name show_id h sw s =
     (case member_of (swarms h) sw s of None \<Rightarrow> show_id s | Some m \<Rightarrow> mem_name m)"

definition announce_one ::
  "(session_id \<Rightarrow> string) \<Rightarrow> swarm_id \<Rightarrow> session_id \<Rightarrow> file_touch
   \<Rightarrow> swarm_host \<times> session_id list \<Rightarrow> collision \<Rightarrow> swarm_host \<times> session_id list" where
  "announce_one show_id sw s t acc c =
     (let (h, notified) = acc
      in if host_of h (peer c) = None then (h, notified)
         else
           (let h1 = inject (peer c)
                  \<lparr>si_content = alert (member_name show_id h sw s) t (ft_op (their_touch c)) (overlapping c),
                   si_source = System, si_urgent = False\<rparr> h;
                h2 = (if is_mutation (ft_op (their_touch c)) \<and> host_of h1 s \<noteq> None
                      then inject s
                        \<lparr>si_content = alert (member_name show_id h1 sw (peer c)) (their_touch c)
                                       (ft_op t) (overlapping c),
                         si_source = System, si_urgent = False\<rparr> h1
                      else h1)
            in (h2, notified @ [peer c])))"

definition announce ::
  "bool \<Rightarrow> (session_id \<Rightarrow> string) \<Rightarrow> swarm_host \<Rightarrow> swarm_id \<Rightarrow> session_id \<Rightarrow> file_touch \<Rightarrow> instant
   \<Rightarrow> swarm_host \<times> session_id list" where
  "announce folds show_id h sw s t now =
     (let (ix, cs) = record_touch folds (touches h) s t now
      in foldl (announce_one show_id sw s t) (h\<lparr>touches := ix\<rparr>, []) cs)"

end
