(* ===== verification/Agent_Run.thy ===== *)
theory Agent_Run
  imports Agent_Definition Permission Swarm_Host Touches Rust_Path Ownership
begin

text \<open>
  \<^verbatim>\<open>crates/localpilot-harness/src/agent_run.rs\<close>: a delegation, from the name the model gives to the child
  session that runs, and \<^verbatim>\<open>incognito.rs\<close>, the ledger of what such a session left behind. The child's turn
  is the argument \<open>turn\<close>, a function of the child that is built; the host's part of the prompt is
  \<open>host_prompt\<close>.
\<close>

section \<open>The incognito ledger\<close>

record incognito_ledger =
  il_writes :: "string list"
  il_commands :: "string list"

definition ledger_default :: incognito_ledger where
  "ledger_default = \<lparr>il_writes = [], il_commands = []\<rparr>"

definition path_within :: "string \<Rightarrow> string \<Rightarrow> bool" where
  "path_within p root_path \<longleftrightarrow>
     \<not> is_absolute (components p) \<or> path_starts_with (components p) (components root_path)"

definition push_new :: "'a \<Rightarrow> 'a list \<Rightarrow> 'a list" where
  "push_new x xs = (if x \<in> set xs then xs else xs @ [x])"

definition record_touch_in :: "string \<Rightarrow> file_touch \<Rightarrow> incognito_ledger \<Rightarrow> incognito_ledger" where
  "record_touch_in root_path t l =
     (if \<not> is_mutation (ft_op t) \<or> path_within (ft_path t) root_path then l
      else l\<lparr>il_writes := push_new (ft_path t) (il_writes l)\<rparr>)"

definition record_touches :: "string \<Rightarrow> file_touch list \<Rightarrow> incognito_ledger \<Rightarrow> incognito_ledger" where
  "record_touches root_path ts l = fold (record_touch_in root_path) ts l"

definition record_command :: "string \<Rightarrow> incognito_ledger \<Rightarrow> incognito_ledger" where
  "record_command c l = (if c = [] then l else l\<lparr>il_commands := push_new c (il_commands l)\<rparr>)"

definition merge_ledger :: "incognito_ledger \<Rightarrow> incognito_ledger \<Rightarrow> incognito_ledger" where
  "merge_ledger other l =
     \<lparr>il_writes = fold push_new (il_writes other) (il_writes l),
      il_commands = fold push_new (il_commands other) (il_commands l)\<rparr>"

section \<open>A tool registry\<close>

text \<open>
  The registry of \<^verbatim>\<open>crates/localpilot-tools/src/registry.rs\<close> as far as a delegation uses it: tools with
  their names, each with the source it came from.
\<close>

record 't tool_registry =
  reg_tools :: "(string \<times> 't) list"
  reg_sources :: "string option list"

definition registry_names :: "'t tool_registry \<Rightarrow> string list" where
  "registry_names r = map fst (reg_tools r)"

definition registry_narrowed :: "string list \<Rightarrow> 't tool_registry \<Rightarrow> 't tool_registry" where
  "registry_narrowed keep r =
     (let kept = filter (\<lambda>(t, s). fst t \<in> set keep) (zip (reg_tools r) (reg_sources r))
      in r\<lparr>reg_tools := map fst kept, reg_sources := map snd kept\<rparr>)"

section \<open>Delegation\<close>

definition DEFAULT_MAX_DEPTH :: u32 where
  "DEFAULT_MAX_DEPTH = 1"

datatype spawn_refusal = DepthExceeded u32 u32 | NoTools string

text \<open>The configuration fields that a delegation decides on, and \<open>cfg_rest\<close>, those it copies.\<close>

record 'c child_config =
  cfg_model :: string
  cfg_incognito :: bool
  cfg_marker :: bool
  cfg_rest :: 'c

record ('t, 'l, 'c) agent_context =
  ac_tools :: "'t tool_registry"
  ac_engine :: "'l permission_engine"
  ac_root :: string
  ac_store :: store_backend
  ac_config :: "'c child_config"
  ac_depth :: u32
  ac_max_depth :: u32

text \<open>The child that is built, and what its turn leaves: calls, the last text, how it stopped, its ledger.\<close>

record ('t, 'l, 'c) child_session =
  ch_tools :: "'t tool_registry"
  ch_engine :: "'l permission_engine"
  ch_store :: store_backend
  ch_config :: "'c child_config"
  ch_prompt :: string

record child_end =
  ce_tool_calls :: nat
  ce_text :: "string option"
  ce_stop :: string
  ce_ledger :: incognito_ledger

record agent_outcome =
  ao_summary :: string
  ao_truncated :: bool
  ao_tools :: "string list"
  ao_narrowed :: "string list"
  ao_tool_calls :: nat
  ao_stop :: string
  ao_ledger :: incognito_ledger

definition check_ceilings :: "('t, 'l, 'c) agent_context \<Rightarrow> grants \<Rightarrow> string \<Rightarrow> spawn_refusal + unit" where
  "check_ceilings ctx g agent =
     (if ac_max_depth ctx \<le> ac_depth ctx then Inl (DepthExceeded (ac_depth ctx) (ac_max_depth ctx))
      else if gr_tools g = [] then Inl (NoTools agent)
      else Inr ())"

definition child_prompt ::
  "(string list \<Rightarrow> bool \<Rightarrow> prompt_parts \<Rightarrow> string) \<Rightarrow> agent_definition \<Rightarrow> 't tool_registry \<Rightarrow> bool \<Rightarrow> string \<Rightarrow> string" where
  "child_prompt host_prompt d tools marker root_path =
     (let b = bindings_with ''tools'' (join '', '' (sort (registry_names tools)))
                (bindings_with ''workspace'' root_path (bindings_with ''agent_name'' (ag_name d) bt_empty))
      in host_prompt (registry_names tools) marker (ag_prompt_parts d) @ newline @ newline @
         render_template b (ag_prompt d))"

definition child_of ::
  "(string list \<Rightarrow> bool \<Rightarrow> prompt_parts \<Rightarrow> string) \<Rightarrow> agent_definition \<Rightarrow> grants \<Rightarrow> ('t, 'l, 'c) agent_context
   \<Rightarrow> ('t, 'l, 'c) child_session" where
  "child_of host_prompt d g ctx =
     (let tools = registry_narrowed (gr_tools g) (ac_tools ctx); cfg = ac_config ctx
      in \<lparr>ch_tools = tools,
          ch_engine = with_profile (ac_engine ctx) (profile_of (ac_engine ctx)) [],
          ch_store = (if cfg_incognito cfg then Memory else ac_store ctx),
          ch_config = cfg\<lparr>cfg_model := (case ag_model d of None \<Rightarrow> cfg_model cfg | Some m \<Rightarrow> m)\<rparr>,
          ch_prompt = child_prompt host_prompt d tools (cfg_marker cfg) (ac_root ctx)\<rparr>)"

definition run_agent ::
  "(string list \<Rightarrow> bool \<Rightarrow> prompt_parts \<Rightarrow> string) \<Rightarrow> (('t, 'l, 'c) child_session \<Rightarrow> string \<Rightarrow> child_end)
   \<Rightarrow> agent_definition \<Rightarrow> string \<Rightarrow> grants \<Rightarrow> ('t, 'l, 'c) agent_context \<Rightarrow> spawn_refusal + agent_outcome" where
  "run_agent host_prompt turn d task g ctx =
     (case check_ceilings ctx g (ag_name d) of
        Inl x \<Rightarrow> Inl x
      | Inr _ \<Rightarrow>
          let e = turn (child_of host_prompt d g ctx) task;
              raw = (case ce_text e of None \<Rightarrow> [] | Some t \<Rightarrow> t);
              (summary, truncated) = bound_summary raw MAX_SUMMARY_BYTES
          in Inr \<lparr>ao_summary = summary, ao_truncated = truncated, ao_tools = gr_tools g, ao_narrowed = gr_narrowed g,
                  ao_tool_calls = ce_tool_calls e, ao_stop = ce_stop e, ao_ledger = ce_ledger e\<rparr>)"

text \<open>\<open>AttributedApprover\<close>: the ask that reaches the caller's approver.\<close>

definition attributed :: "string \<Rightarrow> permission_request \<Rightarrow> permission_request" where
  "attributed agent r =
     r\<lparr>detail := (if detail r = [] then ''agent `'' @ agent @ ''`''
                 else ''agent `'' @ agent @ ''`: '' @ detail r)\<rparr>"

section \<open>The session as a delegation host\<close>

datatype run_error = No_agent string | Grant_error agent_error | Refused spawn_refusal

record delegation_tally =
  dt_calls :: nat
  dt_ledger :: incognito_ledger

definition narrowed_note :: "agent_definition \<Rightarrow> agent_outcome \<Rightarrow> string" where
  "narrowed_note d o' =
     (if ao_narrowed o' = [] then []
      else newline @ newline @ ''(note: '' @ ag_name d @ '' asked for '' @ join '', '' (ao_narrowed o') @
           '' this session does not hold, so it ran without them)'')"

definition host_available :: "agent_set \<Rightarrow> (string \<times> string) list" where
  "host_available s =
     map (\<lambda>a. (ag_name (da_definition a), trim (ag_description (da_definition a)))) (agents_of s)"

definition host_run_agent ::
  "(string list \<Rightarrow> bool \<Rightarrow> prompt_parts \<Rightarrow> string) \<Rightarrow> (('t, 'l, 'c) child_session \<Rightarrow> string \<Rightarrow> child_end)
   \<Rightarrow> agent_set \<Rightarrow> string \<Rightarrow> string \<Rightarrow> ('t, 'l, 'c) agent_context \<Rightarrow> delegation_tally
   \<Rightarrow> delegation_tally \<times> (run_error + string)" where
  "host_run_agent host_prompt turn agents agent task ctx0 tally =
     (case agent_get agents agent of
        None \<Rightarrow> (tally, Inl (No_agent agent))
      | Some found \<Rightarrow>
          let d = da_definition found; names = registry_names (ac_tools ctx0);
              ctx = ctx0\<lparr>ac_max_depth := DEFAULT_MAX_DEPTH\<rparr>
          in case resolve_grants d names names of
               Inl e \<Rightarrow> (tally, Inl (Grant_error e))
             | Inr g \<Rightarrow>
                 (case run_agent host_prompt turn d task g ctx of
                    Inl x \<Rightarrow> (tally, Inl (Refused x))
                  | Inr o' \<Rightarrow>
                      (\<lparr>dt_calls = dt_calls tally + ao_tool_calls o',
                        dt_ledger = merge_ledger (ao_ledger o') (dt_ledger tally)\<rparr>,
                       Inr (ao_summary o' @ narrowed_note d o'))))"

section \<open>What a child may do\<close>

lemma registry_narrowed_sub:
  "set (registry_names (registry_narrowed keep r)) \<subseteq> set keep \<inter> set (registry_names r)"
  by (auto simp: registry_narrowed_def registry_names_def Let_def dest!: set_zip_leftD)

lemma registry_narrowed_names:
  assumes "length (reg_sources r) = length (reg_tools r)"
  shows "registry_names (registry_narrowed keep r) = filter (\<lambda>n. n \<in> set keep) (registry_names r)"
proof -
  have "map fst (filter (\<lambda>(t, s). fst t \<in> set keep) (zip ts ss)) = filter (\<lambda>t. fst t \<in> set keep) ts"
    if "length ss = length ts" for ts :: "(string \<times> 'a) list" and ss :: "string option list"
    using that by (induction ts ss rule: list_induct2') auto
  from this [OF assms] show ?thesis
    by (simp add: registry_narrowed_def registry_names_def Let_def filter_map o_def)
qed

text \<open>Without the allow list an engine decides at most as permissively.\<close>

lemma profile_decision_no_list:
  assumes "profile_of e' = profile_of e" "allowlist e' = []"
  shows "profile_decision e' r \<le> profile_decision e r"
proof (cases "profile_of e")
  case Relaxed
  have "base_decision r = Allow \<or> untrusted_floor (base_decision r) (trusted r) (interactivity_of r) \<le>
      untrusted_floor Allow (trusted r) (interactivity_of r)"
    by (intro disjI2 untrusted_floor_mono) (auto simp: base_decision_headless)
  with Relaxed assms show ?thesis by (auto simp: profile_decision_def)
qed (use assms in \<open>auto simp: profile_decision_def\<close>)

lemma resolved_with_profile:
  "profile_of (resolved cur (with_profile e (profile_of e) al)) = profile_of (resolved cur e)"
  by (simp add: resolved_def with_profile_def split: option.splits lease_state.splits)

lemma child_decides_within:
  "decide_command cur (with_profile e (profile_of e) []) r cmd \<le> decide_command cur e r cmd"
proof -
  let ?e = "resolved cur e" and ?c = "resolved cur (with_profile e (profile_of e) [])"
  have v: "vetted cur ?c (req_effect r) cmd = vetted cur ?e (req_effect r) cmd"
    by (simp add: vetted_def allows_command_def resolved_with_profile Let_def split: option.splits effect.splits)
  have le: "profile_decision ?c r \<le> profile_decision ?e r"
    by (rule profile_decision_no_list) (simp_all add: resolved_with_profile)
  have "incognito_floor (profile_decision ?c r) (interactivity_of r) \<le>
      incognito_floor (profile_decision ?e r) (interactivity_of r)"
    by (rule inc.mono [OF le]) (simp add: profile_decision_headless)
  with v le show ?thesis by (simp add: decide_command_def Let_def)
qed

end
