(* ===== verification/Agents_Spec.thy ===== *)
theory Agents_Spec
  imports Agent_Run
begin




lemma byte_len_append [simp]: "byte_len (a @ b) = byte_len a + byte_len b"
  by (simp add: byte_len_def)


section \<open>Delegation\<close>



text \<open>A reviewer agent with a read tool, run by a session that also has a shell.\<close>

definition reviewer :: agent_definition where
  "reviewer =
     \<lparr>ag_format_version = 1, ag_name = ''reviewer'', ag_display_name = None, ag_description = ''reads'', ag_model = None,
      ag_effort = None, ag_tools = [''read_file''], ag_prompt_parts = parts_default, ag_prompt = ''Use {{tools}}.''\<rparr>"





section \<open>Which definition counts\<close>

text \<open>The definitions that load, in the order they are met.\<close>

definition file_candidate ::
  "(string \<Rightarrow> agent_definition option) \<Rightarrow> string \<Rightarrow> agent_scope \<Rightarrow> dir_entry \<Rightarrow> discovered_agent option" where
  "file_candidate parse dir scope f =
     (case (case de_text f of None \<Rightarrow> Inl Agent_io | Some t \<Rightarrow> from_yaml parse t) of
        Inr d \<Rightarrow> Some \<lparr>da_definition = d, da_scope = scope, da_path = (dir, de_name f)\<rparr>
      | Inl _ \<Rightarrow> None)"

definition root_candidates ::
  "(string \<Rightarrow> agent_definition option) \<Rightarrow> (string \<Rightarrow> dir_entry list option) \<Rightarrow> string \<times> agent_scope
   \<Rightarrow> discovered_agent list" where
  "root_candidates parse list_dir rt =
     (case list_dir (fst rt) of
        None \<Rightarrow> []
      | Some es \<Rightarrow>
          List.map_filter (file_candidate parse (fst rt) (snd rt))
            (sort_key de_name (filter (\<lambda>f. de_is_file f \<and> suffix AGENT_SUFFIX (de_name f)) es)))"

definition candidates ::
  "(string \<Rightarrow> agent_definition option) \<Rightarrow> (string \<Rightarrow> dir_entry list option) \<Rightarrow> (string \<times> agent_scope) list
   \<Rightarrow> discovered_agent list" where
  "candidates parse list_dir roots = concat (map (root_candidates parse list_dir) roots)"

definition same_agents :: "agent_set \<Rightarrow> agent_set \<Rightarrow> bool" where
  "same_agents s s' \<longleftrightarrow> as_effective s = as_effective s' \<and> as_shadowed s = as_shadowed s'"

lemma same_agents_insert: "same_agents s s' \<Longrightarrow> same_agents (agent_insert c s) (agent_insert c s')"
  by (auto simp: same_agents_def agent_insert_def split: option.splits)

lemma load_files_same:
  "same_agents s s' \<Longrightarrow> same_agents (fold (load_file parse dir scope) fs s)
     (fold agent_insert (List.map_filter (file_candidate parse dir scope) fs) s')"
proof (induction fs arbitrary: s s')
  case (Cons f fs)
  show ?case
  proof (cases "file_candidate parse dir scope f")
    case None
    with Cons.prems have "same_agents (load_file parse dir scope f s) s'"
      by (auto simp: file_candidate_def load_file_def same_agents_def split: sum.splits)
    from Cons.IH [OF this] None show ?thesis by (simp add: List.map_filter_simps)
  next
    case (Some c)
    with Cons.prems have "same_agents (load_file parse dir scope f s) (agent_insert c s')"
      by (auto simp: file_candidate_def load_file_def same_agents_insert split: sum.splits)
    from Cons.IH [OF this] Some show ?thesis by (simp add: List.map_filter_simps)
  qed
qed (simp add: List.map_filter_simps)

lemma resolve_same:
  "same_agents (agent_set_resolve parse list_dir roots)
     (fold agent_insert (candidates parse list_dir roots) agent_set_default)"
proof -
  have "same_agents s s' \<Longrightarrow> same_agents (fold (load_root parse list_dir) roots s)
      (fold agent_insert (candidates parse list_dir roots) s')" for s s'
  proof (induction roots arbitrary: s s')
    case (Cons r rs)
    have "same_agents (load_root parse list_dir r s) (fold agent_insert (root_candidates parse list_dir r) s')"
      using Cons.prems load_files_same by (auto simp: load_root_def root_candidates_def split: option.splits)
    from Cons.IH [OF this] show ?case by (simp add: candidates_def)
  qed (simp add: candidates_def)
  then show ?thesis by (simp add: agent_set_resolve_def same_agents_def)
qed

lemma winner_snoc:
  "winner n (cs @ [x]) acc =
     (if ag_name (da_definition x) = n \<and> outranks x (winner n cs acc) then Some x else winner n cs acc)"
  by (induction n cs acc rule: winner.induct) auto

lemma winner_first_highest:
  "winner n cs None = Some c \<Longrightarrow>
   \<exists>a b. cs = a @ c # b \<and> ag_name (da_definition c) = n \<and>
     (\<forall>x \<in> set a. ag_name (da_definition x) = n \<longrightarrow> precedence (da_scope x) < precedence (da_scope c)) \<and>
     (\<forall>x \<in> set b. ag_name (da_definition x) = n \<longrightarrow> precedence (da_scope x) \<le> precedence (da_scope c))"
  and winner_none: "winner n cs None = None \<longleftrightarrow> (\<forall>x \<in> set cs. ag_name (da_definition x) \<noteq> n)"
proof (induction cs arbitrary: c rule: rev_induct)
  case (snoc x cs)
  { case 1
    show ?case
    proof (cases "ag_name (da_definition x) = n \<and> outranks x (winner n cs None)")
      case True
      with 1 have c: "c = x" by (simp add: winner_snoc)
      have "precedence (da_scope y) < precedence (da_scope x)"
        if y: "y \<in> set cs" "ag_name (da_definition y) = n" for y
      proof -
        from snoc.IH(2) y obtain w where w: "winner n cs None = Some w" by (cases "winner n cs None") auto
        with True have "precedence (da_scope w) < precedence (da_scope x)" by (simp add: outranks_def)
        moreover from snoc.IH(1) [OF w] y have "precedence (da_scope y) \<le> precedence (da_scope w)"
          by (fastforce intro: less_imp_le)
        ultimately show ?thesis by simp
      qed
      with True c show ?thesis by (intro exI [of _ cs] exI [of _ "[]"]) auto
    next
      case False
      with 1 have w: "winner n cs None = Some c" by (auto simp: winner_snoc split: if_splits)
      from snoc.IH(1) [OF this] obtain a b where ab: "cs = a @ c # b" "ag_name (da_definition c) = n"
        "\<forall>x \<in> set a. ag_name (da_definition x) = n \<longrightarrow> precedence (da_scope x) < precedence (da_scope c)"
        "\<forall>x \<in> set b. ag_name (da_definition x) = n \<longrightarrow> precedence (da_scope x) \<le> precedence (da_scope c)" by blast
      moreover from False w have "ag_name (da_definition x) = n \<longrightarrow> precedence (da_scope x) \<le> precedence (da_scope c)"
        by (auto simp: outranks_def)
      ultimately show ?thesis by (intro exI [of _ a] exI [of _ "b @ [x]"]) auto
    qed }
  { case 2
    show ?case using snoc.IH(2) by (auto simp: winner_snoc outranks_def) }
qed auto

lemma values_insert:
  "bt_inv m \<Longrightarrow> mset (bt_values (bt_insert k v m)) + (case bt_get m k of None \<Rightarrow> {#} | Some y \<Rightarrow> {#y#}) =
     add_mset v (mset (bt_values m))"
proof (induction k v m rule: bt_insert.induct)
  case (2 k v k' v' m)
  have "bt_get m k = None" if "k < k'"
    using that 2(2) by (force simp: bt_inv_def bt_get_def map_of_eq_None_iff)
  with 2 show ?case by (auto simp: bt_inv_def bt_get_def bt_values_def)
qed (simp add: bt_get_def bt_values_def)

lemma agents_accounted:
  assumes "bt_inv (as_effective s)"
  shows "mset (bt_values (as_effective (fold agent_insert cs s))) + mset (as_shadowed (fold agent_insert cs s)) =
    mset (bt_values (as_effective s)) + mset (as_shadowed s) + mset cs"
  using assms
proof (induction cs arbitrary: s)
  case (Cons c cs)
  have "mset (bt_values (as_effective (agent_insert c s))) + mset (as_shadowed (agent_insert c s)) =
      add_mset c (mset (bt_values (as_effective s)) + mset (as_shadowed s))"
    using values_insert [OF Cons.prems, of "ag_name (da_definition c)" c]
    by (auto simp: agent_insert_def split: option.splits)
  with Cons.IH [OF agent_insert_effective(1) [OF Cons.prems, of c]] show ?case by simp
qed simp

text \<open>
  A name stands for the first definition of the highest scope: whatever directories exist and
  whichever files in them are broken, the effective agent of a name is a loaded definition of that name
  which no other outranks, the first such in the order of the roots and of the file names; a name
  nothing loads for has none; and every loaded definition is either effective or listed as shadowed.
\<close>
theorem highest_scope_wins:
  "(case agent_get (agent_set_resolve parse list_dir roots) n of
      None \<Rightarrow> \<forall>x \<in> set (candidates parse list_dir roots). ag_name (da_definition x) \<noteq> n
    | Some c \<Rightarrow> \<exists>a b. candidates parse list_dir roots = a @ c # b \<and> ag_name (da_definition c) = n \<and>
        (\<forall>x \<in> set a. ag_name (da_definition x) = n \<longrightarrow> precedence (da_scope x) < precedence (da_scope c)) \<and>
        (\<forall>x \<in> set b. ag_name (da_definition x) = n \<longrightarrow> precedence (da_scope x) \<le> precedence (da_scope c))) \<and>
    mset (agents_of (agent_set_resolve parse list_dir roots)) +
      mset (as_shadowed (agent_set_resolve parse list_dir roots)) = mset (candidates parse list_dir roots)"
proof -
  define s where "s = agent_set_resolve parse list_dir roots"
  define cs where "cs = candidates parse list_dir roots"
  let ?f = "fold agent_insert cs agent_set_default"
  have eq: "as_effective s = as_effective ?f" "as_shadowed s = as_shadowed ?f"
    using resolve_same by (auto simp: same_agents_def s_def cs_def)
  have "bt_inv (as_effective agent_set_default)" by (simp add: agent_set_default_def)
  from agents_insert_effective(2) [OF this, of cs n] agents_accounted [OF this, of cs] eq
  have "agent_get s n = winner n cs None" "mset (agents_of s) + mset (as_shadowed s) = mset cs"
    by (simp_all add: agent_get_def agents_of_def agent_set_default_def bt_values_def bt_empty_def)
  with winner_first_highest [of n cs] winner_none [of n cs] show ?thesis
    unfolding s_def cs_def by (simp split: option.splits)
qed

theorem highest_scope_wins_witness:
  "\<exists>c. agent_get (agent_set_resolve (\<lambda>_. Some reviewer)
      [''g'' \<mapsto> [\<lparr>de_name = ''a.agent.yaml'', de_is_file = True, de_text = Some []\<rparr>],
       ''p'' \<mapsto> [\<lparr>de_name = ''b.agent.yaml'', de_is_file = True, de_text = Some []\<rparr>]]
      [(''g'', GlobalAgents), (''p'', ProjectAgents)]) ''reviewer'' = Some c \<and> da_scope c = ProjectAgents"
proof -
  let ?dir = "[''g'' \<mapsto> [\<lparr>de_name = ''a.agent.yaml'', de_is_file = True, de_text = Some []\<rparr>],
       ''p'' \<mapsto> [\<lparr>de_name = ''b.agent.yaml'', de_is_file = True, de_text = Some []\<rparr>]]"
  let ?roots = "[(''g'', GlobalAgents), (''p'', ProjectAgents)]"
  have cs: "candidates (\<lambda>_. Some reviewer) ?dir ?roots =
      [\<lparr>da_definition = reviewer, da_scope = GlobalAgents, da_path = (''g'', ''a.agent.yaml'')\<rparr>,
       \<lparr>da_definition = reviewer, da_scope = ProjectAgents, da_path = (''p'', ''b.agent.yaml'')\<rparr>]"
    by code_simp
  have name: "ag_name reviewer = ''reviewer''" by (simp add: reviewer_def)
  from highest_scope_wins [of "\<lambda>_. Some reviewer" ?dir ?roots "''reviewer''"] show ?thesis
    unfolding cs by (auto simp: name Cons_eq_append_conv split: option.splits)
qed

end
