(* ===== verification/Rpc_Frame.thy ===== *)
theory Rpc_Frame
  imports Store_Log
begin

text \<open>
  \<^verbatim>\<open>crates/localpilot-rpc/src/framing.rs\<close>, newline-delimited records over raw bytes, and \<^verbatim>\<open>feed.rs\<close>, the
  numbered ring from which a client that reconnects replays what it missed. The byte source is the list of
  what its reads return; parsing a record is the argument \<open>parse\<close>.
\<close>

section \<open>Framing\<close>

definition DEFAULT_MAX_RECORD_LEN :: nat where
  "DEFAULT_MAX_RECORD_LEN = 16 * 1024 * 1024"

record line_framing =
  lf_buf :: bytes
  lf_max :: nat

definition framing_with_max :: "nat \<Rightarrow> line_framing" where
  "framing_with_max n = \<lparr>lf_buf = [], lf_max = n\<rparr>"

definition framing_default :: line_framing where
  "framing_default = framing_with_max DEFAULT_MAX_RECORD_LEN"

text \<open>The loop of \<open>push\<close>: the complete records of a buffer, and the rest.\<close>

function take_records :: "bytes \<Rightarrow> bytes list \<times> bytes" where
  "take_records buf =
     (if NL \<in> set buf
      then (let (rs, rest) = take_records (tl (dropWhile (\<lambda>b. b \<noteq> NL) buf))
            in (drop_cr (takeWhile (\<lambda>b. b \<noteq> NL) buf) # rs, rest))
      else ([], buf))"
  by pat_completeness auto
termination
proof (relation "measure length")
  fix buf :: bytes
  assume "NL \<in> set buf"
  then obtain a b where "buf = a @ NL # b" "NL \<notin> set a" by (meson split_list_first)
  then have "dropWhile (\<lambda>b. b \<noteq> NL) buf = NL # b" by (auto simp: dropWhile_append)
  with \<open>buf = a @ NL # b\<close> show "(tl (dropWhile (\<lambda>b. b \<noteq> NL) buf), buf) \<in> measure length" by simp
qed simp

declare take_records.simps [simp del]

datatype frame_error = Source_error | Record_too_long

definition framing_push :: "bytes \<Rightarrow> line_framing \<Rightarrow> line_framing \<times> (frame_error + bytes list)" where
  "framing_push bs f =
     (let (rs, rest) = take_records (lf_buf f @ bs); f' = f\<lparr>lf_buf := rest\<rparr>
      in if length rest > lf_max f then (f', Inl Record_too_long) else (f', Inr rs))"

definition remainder :: "line_framing \<Rightarrow> bytes" where
  "remainder f = lf_buf f"

section \<open>The record reader\<close>

text \<open>A read fails or returns some bytes; an exhausted source returns none, which is its end.\<close>

record record_reader =
  rr_source :: "bytes option list"
  rr_framing :: line_framing
  rr_queued :: "bytes list"
  rr_eof :: bool

definition reader_new :: "bytes option list \<Rightarrow> record_reader" where
  "reader_new src = \<lparr>rr_source = src, rr_framing = framing_default, rr_queued = [], rr_eof = False\<rparr>"

definition set_max_record_len :: "nat \<Rightarrow> record_reader \<Rightarrow> record_reader" where
  "set_max_record_len n r = r\<lparr>rr_framing := (rr_framing r)\<lparr>lf_max := n\<rparr>\<rparr>"

function reader_next ::
  "(bytes \<Rightarrow> 'v option) \<Rightarrow> record_reader \<Rightarrow> record_reader \<times> (frame_error + 'v option)" where
  "reader_next parse r =
     (case rr_queued r of
        rec # q \<Rightarrow>
          if length rec > lf_max (rr_framing r) then (r\<lparr>rr_queued := q\<rparr>, Inl Record_too_long)
          else (case parse rec of
                  Some v \<Rightarrow> (r\<lparr>rr_queued := q\<rparr>, Inr (Some v))
                | None \<Rightarrow> reader_next parse (r\<lparr>rr_queued := q\<rparr>))
      | [] \<Rightarrow>
          if rr_eof r then (r, Inr None)
          else case rr_source r of
                 [] \<Rightarrow> reader_next parse (r\<lparr>rr_eof := True\<rparr>)
               | None # src \<Rightarrow> (r\<lparr>rr_source := src\<rparr>, Inl Source_error)
               | Some bs # src \<Rightarrow>
                   if bs = [] then reader_next parse (r\<lparr>rr_source := src, rr_eof := True\<rparr>)
                   else case framing_push bs (rr_framing r) of
                          (f, Inl e) \<Rightarrow> (r\<lparr>rr_source := src, rr_framing := f\<rparr>, Inl e)
                        | (f, Inr rs) \<Rightarrow> reader_next parse (r\<lparr>rr_source := src, rr_framing := f, rr_queued := rs\<rparr>))"
  by pat_completeness auto
termination
  by (relation "measures [\<lambda>(p, r). length (rr_source r) + (if rr_eof r then 0 else 1), \<lambda>(p, r). length (rr_queued r)]")
    auto

declare reader_next.simps [simp del]

section \<open>The ring\<close>

definition USIZE_MAX :: nat where
  "USIZE_MAX = 2 ^ 64 - 1"

record 'a seq_ring =
  sr_entries :: "(u64 \<times> 'a) list"
  sr_sizes :: "nat list"
  sr_capacity :: nat
  sr_max_bytes :: nat
  sr_bytes :: nat
  sr_next_seq :: u64
  sr_dropped :: u64

definition with_byte_budget :: "nat \<Rightarrow> nat \<Rightarrow> 'a seq_ring" where
  "with_byte_budget cap budget =
     \<lparr>sr_entries = [], sr_sizes = [], sr_capacity = max cap 1, sr_max_bytes = budget, sr_bytes = 0,
      sr_next_seq = 1, sr_dropped = 0\<rparr>"

definition ring_new :: "nat \<Rightarrow> 'a seq_ring" where
  "ring_new cap = with_byte_budget cap USIZE_MAX"

definition ring_over :: "'a seq_ring \<Rightarrow> bool" where
  "ring_over r \<longleftrightarrow>
     length (sr_entries r) > sr_capacity r \<or> sr_bytes r > sr_max_bytes r \<and> sr_entries r \<noteq> []"

definition ring_pop :: "'a seq_ring \<Rightarrow> 'a seq_ring" where
  "ring_pop r =
     r\<lparr>sr_entries := tl (sr_entries r), sr_sizes := tl (sr_sizes r),
       sr_bytes := sr_bytes r - (case sr_sizes r of [] \<Rightarrow> 0 | n # _ \<Rightarrow> n), sr_dropped := sr_dropped r + 1\<rparr>"

function ring_trim :: "'a seq_ring \<Rightarrow> 'a seq_ring" where
  "ring_trim r = (if ring_over r then ring_trim (ring_pop r) else r)"
  by pat_completeness auto
termination
  by (relation "measure (length \<circ> sr_entries)") (auto simp: ring_over_def ring_pop_def)

declare ring_trim.simps [simp del]

definition push_sized :: "'a \<Rightarrow> nat \<Rightarrow> 'a seq_ring \<Rightarrow> 'a seq_ring \<times> u64" where
  "push_sized item n r =
     (ring_trim (r\<lparr>sr_next_seq := sr_next_seq r + 1, sr_entries := sr_entries r @ [(sr_next_seq r, item)],
                  sr_sizes := sr_sizes r @ [n], sr_bytes := min (sr_bytes r + n) USIZE_MAX\<rparr>),
      sr_next_seq r)"

definition ring_push :: "'a \<Rightarrow> 'a seq_ring \<Rightarrow> 'a seq_ring \<times> u64" where
  "ring_push item r = push_sized item 0 r"

definition has_byte_budget :: "'a seq_ring \<Rightarrow> bool" where
  "has_byte_budget r \<longleftrightarrow> sr_max_bytes r \<noteq> USIZE_MAX"

definition ring_head :: "'a seq_ring \<Rightarrow> u64" where
  "ring_head r = sr_next_seq r - 1"

definition ring_after :: "u64 \<Rightarrow> 'a seq_ring \<Rightarrow> (u64 \<times> 'a) list" where
  "ring_after cursor r = filter (\<lambda>(seq, _). seq > cursor) (sr_entries r)"

definition complete_after :: "u64 \<Rightarrow> 'a seq_ring \<Rightarrow> (u64 \<times> 'a) list option" where
  "complete_after cursor r =
     (if cursor > ring_head r then None
      else
        let oldest_held = (case sr_entries r of [] \<Rightarrow> sr_next_seq r | (seq, _) # _ \<Rightarrow> seq)
        in if cursor + 1 < oldest_held then None else Some (ring_after cursor r))"

definition ring_clear :: "'a seq_ring \<Rightarrow> 'a seq_ring" where
  "ring_clear r =
     r\<lparr>sr_dropped := sr_dropped r + of_nat (length (sr_entries r)), sr_entries := [], sr_sizes := [], sr_bytes := 0\<rparr>"

section \<open>Records of a stream\<close>

lemma take_records_none: "NL \<notin> set buf \<Longrightarrow> take_records buf = ([], buf)"
  by (simp add: take_records.simps)

lemma take_records_line:
  "NL \<notin> set a \<Longrightarrow> take_records (a @ NL # b) = (drop_cr a # fst (take_records b), snd (take_records b))"
  by (subst take_records.simps) (auto simp: takeWhile_append dropWhile_append case_prod_beta)

lemma take_records_append:
  "take_records (a @ b) =
     (fst (take_records a) @ fst (take_records (snd (take_records a) @ b)),
      snd (take_records (snd (take_records a) @ b)))"
proof (induction a rule: take_records.induct)
  case (1 a)
  show ?case
  proof (cases "NL \<in> set a")
    case True
    then obtain x y where a: "a = x @ NL # y" "NL \<notin> set x" by (meson split_list_first)
    then have "tl (dropWhile (\<lambda>b. b \<noteq> NL) a) = y" by (auto simp: dropWhile_append)
    with 1 [OF True] a show ?thesis by (simp add: take_records_line)
  next
    case False
    then show ?thesis by (simp add: take_records_none)
  qed
qed

lemma take_records_rest: "NL \<notin> set (snd (take_records buf))"
proof (induction buf rule: take_records.induct)
  case (1 buf)
  then show ?case by (subst take_records.simps) (simp add: case_prod_beta)
qed

text \<open>
  The properties of the wire: records survive any chunking of the stream, and the ring answers a
  reconnecting reader exactly as the full log would, or says that it cannot.
\<close>

section \<open>Framing\<close>

definition enc_records :: "bytes list \<Rightarrow> bytes" where
  "enc_records rs = concat (map (\<lambda>r. r @ [NL]) rs)"

text \<open>A record the writer can produce: on one line, not ending in a carriage return, within the cap.\<close>

definition sound_record :: "nat \<Rightarrow> bytes \<Rightarrow> bool" where
  "sound_record n r \<longleftrightarrow> NL \<notin> set r \<and> (r = [] \<or> last r \<noteq> CR) \<and> length r \<le> n"

lemma drop_cr_sound [simp]: "sound_record n r \<Longrightarrow> drop_cr r = r"
  by (auto simp: sound_record_def drop_cr_def)

lemma enc_records_simps [simp]: "enc_records [] = []" "enc_records (r # rs) = r @ NL # enc_records rs"
  by (simp_all add: enc_records_def)

text \<open>What a prefix of the stream delivers, and what it leaves to come.\<close>

lemma take_records_prefix:
  assumes "enc_records rs = a @ b" "\<forall>r \<in> set rs. sound_record n r"
  obtains rs1 rs2 x where "rs = rs1 @ rs2" "take_records a = (rs1, x)" "x @ b = enc_records rs2"
    "length x \<le> n" "NL \<notin> set x"
  using assms
proof (induction rs arbitrary: a thesis)
  case Nil
  from Nil(1) [of "[]" "[]" "[]"] Nil(2) show ?case by (simp add: take_records_none)
next
  case (Cons r rs)
  show ?case
  proof (cases "length a \<le> length r")
    case True
    with Cons.prems(2) obtain c where "r = a @ c"
      by (auto simp: append_eq_append_conv2)
    with Cons.prems show ?thesis
      by (intro Cons.prems(1) [of "[]" "r # rs" a]) (auto simp: sound_record_def take_records_none)
  next
    case False
    with Cons.prems(2) obtain a' where a: "a = r @ NL # a'" "enc_records rs = a' @ b"
      by (auto simp: append_eq_append_conv2 Cons_eq_append_conv)
    from Cons.IH [OF _ a(2)] Cons.prems(3) obtain rs1 rs2 x where "rs = rs1 @ rs2" "take_records a' = (rs1, x)"
      "x @ b = enc_records rs2" "length x \<le> n" "NL \<notin> set x" by auto
    with a Cons.prems(3) show ?thesis
      by (intro Cons.prems(1) [of "r # rs1" rs2 x])
        (auto simp: take_records_line sound_record_def drop_cr_def)
  qed
qed

definition reader_inv :: "nat \<Rightarrow> record_reader \<Rightarrow> bytes list \<Rightarrow> bool" where
  "reader_inv n r rs \<longleftrightarrow>
     lf_max (rr_framing r) = n \<and> (\<forall>x \<in> set (rr_queued r @ rs). sound_record n x) \<and>
     (\<exists>cs. rr_source r = map Some cs \<and> [] \<notin> set cs \<and> lf_buf (rr_framing r) @ concat cs = enc_records rs) \<and>
     NL \<notin> set (lf_buf (rr_framing r)) \<and> (rr_eof r \<longrightarrow> rr_source r = [])"

lemma reader_inv_eof: "reader_inv n r rs \<Longrightarrow> rr_source r = [] \<Longrightarrow> rs = []"
  by (cases rs) (auto simp: reader_inv_def)

lemma reader_inv_push:
  assumes inv: "reader_inv n r rs" and q: "rr_queued r = []" and src: "rr_source r = Some c # src"
  obtains f rs1 rs2 where "framing_push c (rr_framing r) = (f, Inr rs1)" "rs = rs1 @ rs2"
    "reader_inv n (r\<lparr>rr_source := src, rr_framing := f, rr_queued := rs1\<rparr>) rs2"
proof -
  from inv src obtain cs where cs: "src = map Some cs" "[] \<notin> set cs" "c \<noteq> []"
    "enc_records rs = (lf_buf (rr_framing r) @ c) @ concat cs" "\<forall>x \<in> set rs. sound_record n x"
    "lf_max (rr_framing r) = n" "\<not> rr_eof r"
    by (auto simp: reader_inv_def)
  from take_records_prefix [OF cs(4,5)] obtain rs1 rs2 x where t: "rs = rs1 @ rs2"
    "take_records (lf_buf (rr_framing r) @ c) = (rs1, x)" "x @ concat cs = enc_records rs2" "length x \<le> n" "NL \<notin> set x" .
  show thesis
    by (rule that [of "(rr_framing r)\<lparr>lf_buf := x\<rparr>" rs1 rs2])
      (use t cs in \<open>auto simp: framing_push_def reader_inv_def\<close>)
qed

lemma reader_next_steps:
  "rr_queued r = x # q \<Longrightarrow> \<not> length x > lf_max (rr_framing r) \<Longrightarrow> parse x = None \<Longrightarrow>
     reader_next parse r = reader_next parse (r\<lparr>rr_queued := q\<rparr>)"
  "rr_queued r = x # q \<Longrightarrow> \<not> length x > lf_max (rr_framing r) \<Longrightarrow> parse x = Some v \<Longrightarrow>
     reader_next parse r = (r\<lparr>rr_queued := q\<rparr>, Inr (Some v))"
  "rr_queued r = [] \<Longrightarrow> rr_eof r \<Longrightarrow> reader_next parse r = (r, Inr None)"
  "rr_queued r = [] \<Longrightarrow> \<not> rr_eof r \<Longrightarrow> rr_source r = [] \<Longrightarrow>
     reader_next parse r = reader_next parse (r\<lparr>rr_eof := True\<rparr>)"
  "rr_queued r = [] \<Longrightarrow> \<not> rr_eof r \<Longrightarrow> rr_source r = Some c # src \<Longrightarrow> c \<noteq> [] \<Longrightarrow>
     framing_push c (rr_framing r) = (f, Inr rs) \<Longrightarrow>
     reader_next parse r = reader_next parse (r\<lparr>rr_source := src, rr_framing := f, rr_queued := rs\<rparr>)"
  by (subst reader_next.simps, simp)+

lemma reader_next_delivers:
  "reader_inv n r rs \<Longrightarrow>
   (case List.map_filter parse (rr_queued r @ rs) of
      [] \<Rightarrow> \<exists>r'. reader_next parse r = (r', Inr None) \<and> reader_inv n r' [] \<and> rr_queued r' = []
    | v # vs \<Rightarrow> \<exists>r' rs'. reader_next parse r = (r', Inr (Some v)) \<and> reader_inv n r' rs' \<and>
        List.map_filter parse (rr_queued r' @ rs') = vs)"
proof (induction parse r arbitrary: rs rule: reader_next.induct)
  case (1 parse r)
  show ?case
  proof (cases "rr_queued r")
    case (Cons x q)
    have len: "\<not> length x > lf_max (rr_framing r)" using 1(5) Cons by (auto simp: reader_inv_def sound_record_def)
    have inv: "reader_inv n (r\<lparr>rr_queued := q\<rparr>) rs" using 1(5) Cons by (auto simp: reader_inv_def)
    show ?thesis
    proof (cases "parse x")
      case None
      with 1(4) [OF Cons len None inv] Cons show ?thesis
        unfolding reader_next_steps(1) [where parse = parse, OF Cons len None] by (simp add: List.map_filter_simps)
    next
      case (Some v)
      with Cons inv show ?thesis
        unfolding reader_next_steps(2) [where parse = parse, OF Cons len Some]
        by (auto simp: List.map_filter_simps intro!: exI [of _ rs])
    qed
  next
    case Nil
    show ?thesis
    proof (cases "rr_source r")
      case src: Nil
      with 1(5) have rs: "rs = []" by (rule reader_inv_eof)
      have inv: "reader_inv n (r\<lparr>rr_eof := True\<rparr>) []" using 1(5) Nil src rs by (auto simp: reader_inv_def)
      show ?thesis
      proof (cases "rr_eof r")
        case True
        with 1(5) Nil rs show ?thesis unfolding reader_next_steps(3) [OF Nil True] by (simp add: List.map_filter_simps)
      next
        case False
        from 1(1) [OF Nil False src inv] Nil rs show ?thesis
          unfolding reader_next_steps(4) [OF Nil False src] by (simp add: List.map_filter_simps)
      qed
    next
      case (Cons s src)
      with 1(5) obtain c where c: "s = Some c" "c \<noteq> []" "\<not> rr_eof r" by (auto simp: reader_inv_def)
      from reader_inv_push [OF 1(5) Nil Cons [unfolded c(1)]] obtain f rs1 rs2 where
        p: "framing_push c (rr_framing r) = (f, Inr rs1)" "rs = rs1 @ rs2"
        "reader_inv n (r\<lparr>rr_source := src, rr_framing := f, rr_queued := rs1\<rparr>) rs2" .
      from 1(3) [OF Nil c(3) Cons c(1,2) p(1) [symmetric] refl p(3)] Nil p(2) show ?thesis
        unfolding reader_next_steps(5) [OF Nil c(3) Cons [unfolded c(1)] c(2) p(1)] by simp
    qed
  qed
qed

text \<open>Reading up to so many values, until the end or an error.\<close>

fun read_many :: "(bytes \<Rightarrow> 'v option) \<Rightarrow> nat \<Rightarrow> record_reader \<Rightarrow> frame_error + 'v list" where
  "read_many parse 0 r = Inr []"
| "read_many parse (Suc k) r =
     (case reader_next parse r of
        (r', Inl e) \<Rightarrow> Inl e
      | (r', Inr None) \<Rightarrow> Inr []
      | (r', Inr (Some v)) \<Rightarrow> map_sum id ((#) v) (read_many parse k r'))"

lemma read_many_delivers:
  "reader_inv n r rs \<Longrightarrow> length (List.map_filter parse (rr_queued r @ rs)) < k \<Longrightarrow>
   read_many parse k r = Inr (List.map_filter parse (rr_queued r @ rs))"
proof (induction k arbitrary: r rs)
  case (Suc k)
  show ?case
  proof (cases "List.map_filter parse (rr_queued r @ rs)")
    case Nil
    with reader_next_delivers [OF Suc.prems(1), of parse] show ?thesis by auto
  next
    case (Cons v vs)
    with reader_next_delivers [OF Suc.prems(1), of parse] obtain r' rs' where
      "reader_next parse r = (r', Inr (Some v))" "reader_inv n r' rs'" "List.map_filter parse (rr_queued r' @ rs') = vs"
      by auto
    with Suc.IH [of r' rs'] Suc.prems(2) Cons show ?thesis by simp
  qed
qed simp

text \<open>
  However a stream of records is cut into chunks, the reader returns exactly the records that parse,
  in order, and then the end: no record is split, joined or lost at a chunk boundary, and the cap on
  unfinished records refuses nothing that fits it.
\<close>
theorem records_survive_any_chunking:
  assumes "\<forall>r \<in> set rs. sound_record DEFAULT_MAX_RECORD_LEN r"
    and "concat cs = enc_records rs" and "[] \<notin> set cs"
    and "length rs < k"
  shows "read_many parse k (reader_new (map Some cs)) = Inr (List.map_filter parse rs)"
proof -
  have "reader_inv DEFAULT_MAX_RECORD_LEN (reader_new (map Some cs)) rs"
    using assms(1-3) by (auto simp: reader_inv_def reader_new_def framing_default_def framing_with_max_def)
  moreover have "length (List.map_filter parse rs) < k"
    by (simp add: List.map_filter_def) (rule le_less_trans [OF length_filter_le assms(4)])
  ultimately show ?thesis using read_many_delivers [where k = k and parse = parse] by (simp add: reader_new_def)
qed

theorem records_survive_any_chunking_witness:
  "read_many (\<lambda>r. if r = [1] then None else Some r) 4 (reader_new [Some [7], Some [8, NL, 1, NL], Some [9, NL]]) =
     Inr [[7, 8], [9]]"
proof -
  have "\<forall>r \<in> set [[7, 8], [1], [9]]. sound_record DEFAULT_MAX_RECORD_LEN r"
    by (simp add: sound_record_def DEFAULT_MAX_RECORD_LEN_def NL_def CR_def)
  from records_survive_any_chunking [OF this, of "[[7], [8, NL, 1, NL], [9, NL]]" 4 "\<lambda>r. if r = [1] then None else Some r"]
  show ?thesis by (simp add: List.map_filter_simps)
qed

text \<open>What stays buffered is within the cap after every push that succeeds.\<close>

lemma buffer_is_bounded: "framing_push bs f = (f', Inr rs) \<Longrightarrow> length (remainder f') \<le> lf_max f'"
  by (auto simp: framing_push_def remainder_def case_prod_beta Let_def split: if_splits)

section \<open>The ring and the log\<close>

datatype 'a ring_op = Push 'a nat | Clear

fun ring_apply :: "'a ring_op \<Rightarrow> 'a seq_ring \<Rightarrow> 'a seq_ring" where
  "ring_apply (Push x n) r = fst (push_sized x n r)"
| "ring_apply Clear r = ring_clear r"

definition ring_run :: "'a ring_op list \<Rightarrow> 'a seq_ring \<Rightarrow> 'a seq_ring" where
  "ring_run xs r = fold ring_apply xs r"

text \<open>Everything that was ever pushed, numbered from one.\<close>

fun pushed :: "'a ring_op list \<Rightarrow> 'a list" where
  "pushed [] = []"
| "pushed (Push x n # xs) = x # pushed xs"
| "pushed (Clear # xs) = pushed xs"

definition numbered :: "'a list \<Rightarrow> (u64 \<times> 'a) list" where
  "numbered xs = map (\<lambda>(i, x). (of_nat i, x)) (enumerate 1 xs)"

definition ring_ok :: "'a list \<Rightarrow> 'a seq_ring \<Rightarrow> bool" where
  "ring_ok log r \<longleftrightarrow>
     (\<exists>d \<le> length log. sr_entries r = drop d (numbered log) \<and> sr_dropped r = of_nat d) \<and>
     length (sr_sizes r) = length (sr_entries r) \<and> sr_next_seq r = of_nat (Suc (length log)) \<and>
     sr_bytes r = sum_list (sr_sizes r)"

lemma numbered_snoc: "numbered (log @ [x]) = numbered log @ [(of_nat (Suc (length log)), x)]"
  by (simp add: numbered_def enumerate_append_eq)

lemma length_numbered [simp]: "length (numbered log) = length log"
  by (simp add: numbered_def)

lemma ring_pop_ok:
  assumes "ring_ok log r" "sr_entries r \<noteq> []"
  shows "ring_ok log (ring_pop r)"
proof -
  from assms(1) obtain d where d: "d \<le> length log" "sr_entries r = drop d (numbered log)" "sr_dropped r = of_nat d"
    by (auto simp: ring_ok_def)
  with assms(2) have "Suc d \<le> length log" by (simp add: Suc_le_eq)
  with d have "\<exists>d' \<le> length log. tl (sr_entries r) = drop d' (numbered log) \<and> sr_dropped r + 1 = of_nat d'"
    by (intro exI [of _ "Suc d"]) (simp add: drop_Suc tl_drop)
  with assms show ?thesis by (cases "sr_sizes r"; cases "sr_entries r") (simp_all add: ring_ok_def ring_pop_def)
qed

lemma ring_trim_ok: "ring_ok log r \<Longrightarrow> ring_ok log (ring_trim r)"
proof (induction r rule: ring_trim.induct)
  case (1 r)
  show ?case
  proof (cases "ring_over r")
    case True
    then have "sr_entries r \<noteq> []" by (auto simp: ring_over_def)
    with 1 True ring_pop_ok show ?thesis by (subst ring_trim.simps) auto
  qed (use 1 in \<open>subst ring_trim.simps, auto\<close>)
qed

lemma ring_trim_fits: "\<not> ring_over (ring_trim r)"
  by (induction r rule: ring_trim.induct) (subst ring_trim.simps, auto)

lemma ring_trim_bounds: "sr_capacity (ring_trim r) = sr_capacity r \<and> sr_max_bytes (ring_trim r) = sr_max_bytes r"
proof (induction r rule: ring_trim.induct)
  case (1 r)
  then show ?case by (subst (1 2) ring_trim.simps) (auto simp: ring_pop_def)
qed

lemma ring_push_ok:
  assumes ok: "ring_ok log r" and sz: "sr_bytes r + n \<le> USIZE_MAX"
  shows "ring_ok (log @ [x]) (fst (push_sized x n r))"
proof -
  from ok obtain d where d: "d \<le> length log" "sr_entries r = drop d (numbered log)" "sr_dropped r = of_nat d"
    by (auto simp: ring_ok_def)
  then have "\<exists>d' \<le> Suc (length log). sr_entries r @ [(sr_next_seq r, x)] = drop d' (numbered (log @ [x])) \<and>
      sr_dropped r = of_nat d'"
    using ok by (intro exI [of _ d]) (simp add: numbered_snoc ring_ok_def)
  with ok sz show ?thesis
    unfolding push_sized_def fst_conv by (intro ring_trim_ok) (simp add: ring_ok_def)
qed

lemma ring_clear_ok: "ring_ok log r \<Longrightarrow> ring_ok log (ring_clear r)"
  by (auto simp: ring_ok_def ring_clear_def of_nat_diff intro!: exI [of _ "length log"])

definition ring_fits :: "nat \<Rightarrow> nat \<Rightarrow> 'a seq_ring \<Rightarrow> bool" where
  "ring_fits cap budget r \<longleftrightarrow>
     sr_capacity r = cap \<and> sr_max_bytes r = budget \<and> length (sr_entries r) \<le> cap \<and> sr_bytes r \<le> budget"

lemma ring_push_fits:
  assumes fits: "ring_fits cap budget r" and ok: "ring_ok log (fst (push_sized x n r))"
  shows "ring_fits cap budget (fst (push_sized x n r))"
proof -
  let ?r = "fst (push_sized x n r)"
  have bounds: "sr_capacity ?r = cap \<and> sr_max_bytes ?r = budget"
    using fits by (simp add: push_sized_def ring_trim_bounds ring_fits_def)
  have "\<not> ring_over ?r" by (simp add: push_sized_def ring_trim_fits)
  moreover have "sr_bytes ?r = 0" if "sr_entries ?r = []" using ok that by (auto simp: ring_ok_def)
  ultimately show ?thesis using bounds by (cases "sr_entries ?r = []") (simp_all add: ring_fits_def ring_over_def not_less)
qed

lemma ring_run_ok:
  assumes "ring_ok log r" "ring_fits cap budget r" "\<forall>x n. Push x n \<in> set ops \<longrightarrow> n + budget \<le> USIZE_MAX"
  shows "ring_ok (log @ pushed ops) (ring_run ops r) \<and> ring_fits cap budget (ring_run ops r)"
  using assms
proof (induction ops arbitrary: log r rule: pushed.induct)
  case (2 x n xs)
  have "sr_bytes r + n \<le> USIZE_MAX" using 2(3,4) by (force simp: ring_fits_def)
  from ring_push_ok [OF 2(2) this] have ok: "ring_ok (log @ [x]) (fst (push_sized x n r))" .
  from 2(1) [OF ok ring_push_fits [OF 2(3) ok]] 2(4) show ?case by (simp add: ring_run_def)
next
  case (3 xs)
  have "ring_fits cap budget (ring_clear r)" using 3(3) by (simp add: ring_fits_def ring_clear_def)
  from 3(1) [OF ring_clear_ok [OF 3(2)] this] 3(4) show ?case by (simp add: ring_run_def)
qed (simp add: ring_run_def)

lemma nth_numbered: "i < length log \<Longrightarrow> numbered log ! i = (of_nat (Suc i), log ! i)"
  by (simp add: numbered_def nth_enumerate_eq)

lemma filter_numbered:
  assumes "d \<le> unat c" "unat c \<le> length log" "Suc (length log) < 2 ^ 64"
  shows "filter (\<lambda>(s, _). s > c) (drop d (numbered log)) = drop (unat c) (numbered log)"
proof -
  let ?xs = "numbered log"
  have split: "drop d ?xs = take (unat c - d) (drop d ?xs) @ drop (unat c) ?xs"
    using assms(1) by (metis append_take_drop_id drop_drop le_add_diff_inverse2)
  have num: "c < of_nat (Suc i) \<longleftrightarrow> unat c \<le> i" if "i < length log" for i
  proof -
    have "unat (of_nat (Suc i) :: u64) = Suc i"
      using that assms(3) by (subst unat_of_nat) (simp add: take_bit_nat_eq_self del: of_nat_Suc)
    then show ?thesis by (simp add: word_less_nat_alt less_Suc_eq_le del: of_nat_Suc)
  qed
  have "filter (\<lambda>(s, _). s > c) (take (unat c - d) (drop d ?xs)) = []"
    using assms(1,2) num by (fastforce simp: filter_empty_conv in_set_conv_nth nth_numbered simp del: of_nat_Suc)
  moreover have "filter (\<lambda>(s, _). s > c) (drop (unat c) ?xs) = drop (unat c) ?xs"
    using num by (auto simp: filter_id_conv in_set_conv_nth nth_numbered simp del: of_nat_Suc)
  ultimately show ?thesis by (subst split) (simp only: filter_append append_Nil)
qed

lemma unat_of_nat_u64: "n < 2 ^ 64 \<Longrightarrow> unat (of_nat n :: u64) = n"
  by (subst unat_of_nat) (simp add: take_bit_nat_eq_self)

lemma ring_ok_answers:
  assumes ok: "ring_ok log r" and len: "Suc (length log) < 2 ^ 64"
  shows "unat (sr_dropped r) + length (sr_entries r) = length log"
    and "complete_after c r =
      (if unat (sr_dropped r) \<le> unat c \<and> unat c \<le> length log then Some (drop (unat c) (numbered log)) else None)"
proof -
  from ok obtain d where d: "d \<le> length log" "sr_entries r = drop d (numbered log)" "sr_dropped r = of_nat d"
    and nxt: "sr_next_seq r = of_nat (Suc (length log))" by (auto simp: ring_ok_def)
  from d(1) len have ud: "unat (sr_dropped r) = d" unfolding d(3) by (intro unat_of_nat_u64) simp
  show "unat (sr_dropped r) + length (sr_entries r) = length log" using d ud by simp
  have head: "ring_head r = of_nat (length log)" by (simp add: ring_head_def nxt)
  have above_head: "c > ring_head r \<longleftrightarrow> unat c > length log"
    unfolding head word_less_nat_alt using len by (simp add: unat_of_nat_u64)
  have oldest: "(case sr_entries r of [] \<Rightarrow> sr_next_seq r | (seq, _) # _ \<Rightarrow> seq) = of_nat (Suc d)"
  proof (cases "d = length log")
    case False
    with d(1) have "drop d (numbered log) = (of_nat (Suc d), log ! d) # drop (Suc d) (numbered log)"
      by (simp add: Cons_nth_drop_Suc [symmetric] nth_numbered del: of_nat_Suc)
    with d(2) show ?thesis by (simp del: of_nat_Suc)
  qed (use d nxt in simp)
  have gap: "c + 1 < of_nat (Suc d) \<longleftrightarrow> unat c < d" if "unat c \<le> length log"
  proof -
    have "unat (c + 1) = Suc (unat c)" using that len by (subst unat_word_ariths) simp
    moreover have "unat (of_nat (Suc d) :: u64) = Suc d" using d(1) len by (intro unat_of_nat_u64) simp
    ultimately show ?thesis unfolding word_less_nat_alt by simp
  qed
  show "complete_after c r =
      (if unat (sr_dropped r) \<le> unat c \<and> unat c \<le> length log then Some (drop (unat c) (numbered log)) else None)"
  proof (cases "unat c \<le> length log")
    case True
    then show ?thesis
      unfolding complete_after_def Let_def oldest above_head gap [OF True] ud ring_after_def
      unfolding d(2)
      using filter_numbered [of d c log] len by auto
  qed (simp add: complete_after_def above_head)
qed

text \<open>
  C38. Whatever is pushed into a ring and however often it is cleared, what it answers to a reader holding a
  cursor is what the full log of all pushes would answer, or a refusal exactly when an entry the reader
  still needs was dropped or the cursor is ahead of the log; and the ring keeps to its capacity and its
  byte budget, and counts what it dropped. The hypotheses: fewer than \<open>2 ^ 64\<close> entries are pushed, and no size
  added to the budget leaves a \<open>usize\<close>.
\<close>
theorem ring_refines_the_log:
  fixes r :: "'a seq_ring"
  assumes run: "r = ring_run ops (with_byte_budget cap budget)"
    and sizes: "\<forall>x n. Push x n \<in> set ops \<longrightarrow> n + budget \<le> USIZE_MAX"
    and len: "Suc (length (pushed ops)) < 2 ^ 64"
  shows "complete_after c r =
      (if unat (sr_dropped r) \<le> unat c \<and> unat c \<le> length (pushed ops)
       then Some (drop (unat c) (numbered (pushed ops))) else None) \<and>
    unat (sr_dropped r) + length (sr_entries r) = length (pushed ops) \<and>
    length (sr_entries r) \<le> max cap 1 \<and> sum_list (sr_sizes r) \<le> budget"
proof -
  have "ring_ok [] (with_byte_budget cap budget :: 'a seq_ring)"
    and "ring_fits (max cap 1) budget (with_byte_budget cap budget :: 'a seq_ring)"
    by (simp_all add: ring_ok_def ring_fits_def with_byte_budget_def numbered_def)
  from ring_run_ok [OF this sizes] have ok: "ring_ok (pushed ops) r" and fits: "ring_fits (max cap 1) budget r"
    by (simp_all add: run)
  then show ?thesis using ring_ok_answers [OF ok len] by (simp add: ring_fits_def ring_ok_def)
qed

theorem ring_refines_the_log_witness:
  "let r = ring_run [Push ''a'' 3, Push ''b'' 4, Clear, Push ''c'' 2, Push ''d'' 7, Push ''e'' 2] (with_byte_budget 3 10)
   in complete_after 3 r = Some [(4, ''d''), (5, ''e'')] \<and> complete_after 1 r = None \<and>
      unat (sr_dropped r) + length (sr_entries r) = 5"
proof -
  let ?ops = "[Push ''a'' 3, Push ''b'' 4, Clear, Push ''c'' 2, Push ''d'' 7, Push ''e'' 2]"
  let ?r = "ring_run ?ops (with_byte_budget 3 10)"
  have p: "\<forall>x n. Push x n \<in> set ?ops \<longrightarrow> n + 10 \<le> USIZE_MAX" by (simp add: USIZE_MAX_def)
  have q: "Suc (length (pushed ?ops)) < 2 ^ 64" by simp
  have d: "sr_dropped ?r = 3"
    by (simp add: ring_run_def push_sized_def ring_clear_def with_byte_budget_def ring_trim.simps ring_over_def ring_pop_def USIZE_MAX_def)
  show ?thesis
    using ring_refines_the_log [OF refl p q, of 3 3] ring_refines_the_log [OF refl p q, of 1 3]
    by (simp add: d numbered_def Let_def del: One_nat_def)
qed

end
