(* ===== verification/Doc_Str.thy ===== *)
theory Doc_Str
  imports F32
begin

text \<open>
  Lines, prefixes and numbers of the Markdown documents the harness keeps: the functions of \<open>str\<close> they are
  read with, and the lemmas that reading undoes writing on fields that stay on their line.
\<close>

section \<open>Definitions\<close>

definition strip_prefix :: "string \<Rightarrow> string \<Rightarrow> string option" where
  "strip_prefix p s = (if prefix p s then Some (drop (length p) s) else None)"

definition trim_start :: "string \<Rightarrow> string" where
  "trim_start s = dropWhile is_whitespace s"

text \<open>\<open>split_once\<close> with a string for a separator.\<close>

fun split_once_str :: "string \<Rightarrow> string \<Rightarrow> (string \<times> string) option" where
  "split_once_str [] sep = (if sep = [] then Some ([], []) else None)"
| "split_once_str (c # s) sep =
     (if prefix sep (c # s) then Some ([], drop (length sep) (c # s))
      else map_option (\<lambda>(a, b). (c # a, b)) (split_once_str s sep))"

text \<open>\<open>replace("\r\n", "\n")\<close>.\<close>

fun crlf_to_lf :: "string \<Rightarrow> string" where
  "crlf_to_lf (a # b # s) = (if a = CHR 0x0D \<and> b = CHR 0x0A then CHR 0x0A # crlf_to_lf s else a # crlf_to_lf (b # s))"
| "crlf_to_lf s = s"

text \<open>\<open>parse\<close> to an unsigned integer with a largest value.\<close>

definition parse_uint :: "nat \<Rightarrow> string \<Rightarrow> nat option" where
  "parse_uint n s =
     (let ds = (case s of [] \<Rightarrow> [] | c # t \<Rightarrow> if c = CHR ''+'' then t else s)
      in if ds = [] \<or> \<not> list_all is_ascii_digit ds then None
         else if digits_val ds \<le> n then Some (digits_val ds) else None)"

definition u32_max :: nat where
  "u32_max = 2 ^ 32 - 1"

definition u64_max :: nat where
  "u64_max = 2 ^ 64 - 1"

definition unlines :: "string list \<Rightarrow> string" where
  "unlines ls = concat (map (\<lambda>l. l @ newline) ls)"

definition quoted :: "string \<Rightarrow> string" where
  "quoted s = CHR 39 # s @ [CHR 39]"

section \<open>Lines\<close>

definition on_a_line :: "string \<Rightarrow> bool" where
  "on_a_line s \<longleftrightarrow> CHR 0x0A \<notin> set s \<and> CHR 0x0D \<notin> set s"

lemma on_a_line_append [simp]: "on_a_line (a @ b) \<longleftrightarrow> on_a_line a \<and> on_a_line b"
  by (auto simp: on_a_line_def)

lemma on_a_line_Cons [simp]: "on_a_line (c # b) \<longleftrightarrow> c \<noteq> CHR 0x0A \<and> c \<noteq> CHR 0x0D \<and> on_a_line b"
  by (auto simp: on_a_line_def)

lemma on_a_line_Nil [simp]: "on_a_line []"
  by (simp add: on_a_line_def)

lemma split_by_line: "on_a_line l \<Longrightarrow> split_by is_nl (l @ newline @ s) = l # split_by is_nl s"
  by (induction l) (auto simp: on_a_line_def is_nl_def newline_def split: list.splits)

lemma split_by_unlines: "\<forall>l \<in> set ls. on_a_line l \<Longrightarrow> split_by is_nl (unlines ls) = ls @ [[]]"
  by (induction ls) (simp_all add: unlines_def split_by_line)

lemma strip_cr_line: "on_a_line l \<Longrightarrow> strip_cr l = l"
  by (metis last_in_set on_a_line_def strip_cr_def)

lemma str_lines_unlines: "\<forall>l \<in> set ls. on_a_line l \<Longrightarrow> str_lines (unlines ls) = ls"
  by (simp add: str_lines_def split_by_unlines map_idI strip_cr_line)

lemma crlf_to_lf_id: "CHR 0x0D \<notin> set s \<Longrightarrow> crlf_to_lf s = s"
  by (induction s rule: crlf_to_lf.induct) auto

lemma crlf_to_lf_unlines: "\<forall>l \<in> set ls. on_a_line l \<Longrightarrow> crlf_to_lf (unlines ls) = unlines ls"
  by (rule crlf_to_lf_id) (auto simp: unlines_def on_a_line_def newline_def)

section \<open>Trimmed fields\<close>

text \<open>A field that comes back from a line as it was: on one line, with no white space at its ends.\<close>

definition tidy :: "string \<Rightarrow> bool" where
  "tidy s \<longleftrightarrow> on_a_line s \<and> (s = [] \<or> \<not> is_whitespace (hd s) \<and> \<not> is_whitespace (last s))"

lemma trim_start_id: "s = [] \<or> \<not> is_whitespace (hd s) \<Longrightarrow> trim_start s = s"
  by (cases s) (auto simp: trim_start_def)

lemma dropWhile_start: "s = [] \<or> \<not> P (hd s) \<Longrightarrow> dropWhile P s = s"
  by (cases s) auto

lemma trim_ends: "s \<noteq> [] \<Longrightarrow> \<not> is_whitespace (hd s) \<Longrightarrow> \<not> is_whitespace (last s) \<Longrightarrow> trim s = s"
  by (simp add: trim_def trim_matches_def dropWhile_start hd_rev)

lemma tidy_trim [simp]: "tidy s \<Longrightarrow> trim s = s"
  by (cases "s = []") (simp_all add: tidy_def trim_ends, simp add: trim_def trim_matches_def)

lemma is_whitespace_space [simp]: "is_whitespace (CHR '' '')"
  by (simp add: is_whitespace_def)

lemma trim_space [simp]: "trim (CHR '' '' # s) = trim s"
  by (simp add: trim_def trim_matches_def)

lemma trim_start_space [simp]: "trim_start (CHR '' '' # s) = trim_start s"
  by (simp add: trim_start_def)

lemma trim_start_other [simp]: "\<not> is_whitespace c \<Longrightarrow> trim_start (c # s) = c # s"
  by (simp add: trim_start_def)

lemma trim_labelled:
  "tidy s \<Longrightarrow> s \<noteq> [] \<Longrightarrow> p \<noteq> [] \<Longrightarrow> \<not> is_whitespace (hd p) \<Longrightarrow> trim (p @ s) = p @ s"
  by (rule trim_ends) (auto simp: tidy_def hd_append last_append)

lemma strip_prefix_append [simp]: "strip_prefix p (p @ s) = Some s"
  by (simp add: strip_prefix_def)

section \<open>Numbers\<close>

lemma digit_char_digit: "d < 10 \<Longrightarrow> is_ascii_digit (digit_char d)"
  by (auto simp: digit_char_def is_ascii_digit_def less_Suc_eq numeral_eq_Suc)

lemma digit_char_value: "d < 10 \<Longrightarrow> of_char (digit_char d) - (48 :: nat) = d"
  by (auto simp: digit_char_def less_Suc_eq numeral_eq_Suc)

lemma show_nat_digits: "list_all is_ascii_digit (show_nat n)"
proof (induction n rule: show_nat.induct)
  case (1 n)
  then show ?case by (subst show_nat.simps) (simp add: digit_char_digit)
qed

lemma digits_val_snoc: "digits_val (s @ [c]) = 10 * digits_val s + (of_char c - 48)"
  by (simp add: digits_val_def)

lemma digits_val_show_nat: "digits_val (show_nat n) = n"
proof (induction n rule: show_nat.induct)
  case (1 n)
  show ?case
  proof (cases "n < 10")
    case True
    then show ?thesis by (subst show_nat.simps) (simp add: digits_val_def digit_char_value)
  next
    case False
    with 1 show ?thesis
      by (subst show_nat.simps) (simp add: digits_val_snoc digit_char_value)
  qed
qed

lemma digit_not: "is_ascii_digit c \<Longrightarrow> \<not> is_whitespace c \<and> c \<noteq> CHR ''+'' \<and> c \<noteq> CHR ''-'' \<and> c \<noteq> CHR '','' \<and> c \<noteq> CHR ''.'' \<and> c \<noteq> CHR 0x0A \<and> c \<noteq> CHR 0x0D"
  by (auto simp: is_ascii_digit_def is_whitespace_def Let_def)

lemma show_nat_chars: "c \<in> set (show_nat n) \<Longrightarrow> is_ascii_digit c"
  using show_nat_digits [of n] by (simp add: list_all_iff)

lemma tidy_show_nat [simp]: "tidy (show_nat n)"
proof -
  have "c \<in> set (show_nat n) \<Longrightarrow> \<not> is_whitespace c \<and> c \<noteq> CHR 0x0A \<and> c \<noteq> CHR 0x0D" for c
    using digit_not [OF show_nat_chars] by blast
  then show ?thesis by (auto simp: tidy_def on_a_line_def)
qed

lemma parse_uint_show_nat: "n \<le> m \<Longrightarrow> parse_uint m (show_nat n) = Some n"
proof -
  assume n: "n \<le> m"
  obtain c t where ct: "show_nat n = c # t" by (cases "show_nat n") auto
  have "is_ascii_digit c" by (rule show_nat_chars [of _ n]) (simp add: ct)
  then have "c \<noteq> CHR ''+''" using digit_not by blast
  with n ct show ?thesis
    using show_nat_digits [of n] digits_val_show_nat [of n] by (simp add: parse_uint_def)
qed

end
