(* ===== verification/Progress_Doc.thy ===== *)
theory Progress_Doc
  imports Doc_Str
begin

text \<open>
  \<^verbatim>\<open>crates/localpilot-harness/src/progress.rs\<close>: the plan document \<^verbatim>\<open>PROGRESS.md\<close>, with \<open>title_after\<close> of \<^verbatim>\<open>brief.rs\<close>.
  A number is a \<open>usize\<close> of 64 bits, an attempt count a \<open>u32\<close>; both are kept as natural numbers within their range.
\<close>

section \<open>The document\<close>

datatype verification = Verify_command string | Verify_none string

record work_scope =
  ws_files :: nat
  ws_regions :: nat
  ws_decisions :: nat
  ws_changed_lines :: nat

record doc_step =
  st_number :: nat
  st_description :: string
  st_done :: bool
  st_commit :: "string option"
  st_attempts :: nat
  st_sessions :: "string list"
  st_covers :: "nat list option"
  st_verify :: "verification option"
  st_depends :: "nat list option"
  st_scope :: "work_scope option"

record progress_doc =
  pg_name :: string
  pg_branch :: string
  pg_brief_binding :: "string option"
  pg_steps :: "doc_step list"

text \<open>The errors of \<open>HarnessError\<close> that these documents give: the document with what is wrong, or the path that failed.\<close>

datatype harness_error = Malformed_doc string string | Missing_section string string | Io_failed string

definition PROGRESS_DOCUMENT :: string where
  "PROGRESS_DOCUMENT = ''PROGRESS.md''"

abbreviation bad :: "string \<Rightarrow> harness_error + 'a" where
  "bad detail \<equiv> Inl (Malformed_doc PROGRESS_DOCUMENT detail)"

section \<open>Reading\<close>

fun title_line :: "string \<Rightarrow> string list \<Rightarrow> string option" where
  "title_line p [] = None"
| "title_line p (l # ls) = (case strip_prefix p (trim l) of Some s \<Rightarrow> Some (trim s) | None \<Rightarrow> title_line p ls)"

definition title_after :: "string \<Rightarrow> string \<Rightarrow> string option" where
  "title_after doc p =
     (case title_line p (str_lines doc) of Some s \<Rightarrow> if s = [] then None else Some s | None \<Rightarrow> None)"

definition step_new :: "nat \<Rightarrow> string \<Rightarrow> bool \<Rightarrow> doc_step" where
  "step_new n d b =
     \<lparr>st_number = n, st_description = d, st_done = b, st_commit = None, st_attempts = 0, st_sessions = [],
      st_covers = None, st_verify = None, st_depends = None, st_scope = None\<rparr>"

definition parse_step_line :: "string \<Rightarrow> harness_error + doc_step option" where
  "parse_step_line line =
     (case strip_prefix ''- ['' line of
        None \<Rightarrow> Inr None
      | Some [] \<Rightarrow> Inr None
      | Some (mark # rest) \<Rightarrow>
          if mark \<noteq> CHR ''x'' \<and> mark \<noteq> CHR ''X'' \<and> mark \<noteq> CHR '' '' then Inr None
          else (case strip_prefix ''] '' rest of
                  None \<Rightarrow> bad (''malformed step checkbox: '' @ line)
                | Some body \<Rightarrow>
                    (case split_once_str body ''. '' of
                       None \<Rightarrow> bad (''step missing '' @ quoted ''N. description'' @ '': '' @ line)
                     | Some (num, description) \<Rightarrow>
                         (case parse_uint u64_max (trim num) of
                            None \<Rightarrow> bad (''invalid step number '' @ quoted num)
                          | Some n \<Rightarrow> Inr (Some (step_new n (trim description) (mark \<noteq> CHR '' '')))))))"

text \<open>Of a criterion list \<open>part.get(..2)\<close> looks at the first two bytes, which are two characters when they are ASCII.\<close>

definition criterion_digits :: "bool \<Rightarrow> string \<Rightarrow> string" where
  "criterion_digits allow_ac part =
     (if allow_ac \<and> length part \<ge> 2 \<and> eq_ignore_ascii_case (take 2 part) ''ac'' then drop 2 part else part)"

fun parse_parts :: "string \<Rightarrow> string \<Rightarrow> bool \<Rightarrow> string list \<Rightarrow> nat list \<Rightarrow> harness_error + nat list" where
  "parse_parts value expected allow_ac [] out = Inr out"
| "parse_parts value expected allow_ac (p # ps) out =
     (let digits = criterion_digits allow_ac (trim p)
      in if digits = [] \<or> \<not> list_all is_ascii_digit digits then bad (quoted value @ '' is not '' @ expected)
         else case parse_uint u64_max digits of
                None \<Rightarrow> bad (quoted value @ '' is not '' @ expected)
              | Some n \<Rightarrow>
                  if n = 0 then bad (quoted value @ '' contains 0; numbering starts at 1'')
                  else parse_parts value expected allow_ac ps (if n \<in> set out then out else out @ [n]))"

definition parse_numbers :: "string \<Rightarrow> bool \<Rightarrow> harness_error + nat list" where
  "parse_numbers v allow_ac =
     (let value = trim v;
          expected = (if allow_ac then ''a list of criterion numbers like '' @ quoted ''AC1, AC3'' @ '' or '' @ quoted ''1, 3''
                      else ''a list of step numbers like '' @ quoted ''1, 2'')
      in if eq_ignore_ascii_case value ''none'' then Inr []
         else parse_parts value expected allow_ac (split_by (\<lambda>c. c = CHR '','') value) [])"

text \<open>The em dash among the separators is not a character of this model; a byte-wise head is as above.\<close>

definition strip_none_prefix :: "string \<Rightarrow> string option" where
  "strip_none_prefix value =
     (if length value < 4 \<or> \<not> eq_ignore_ascii_case (take 4 value) ''none'' then None
      else
        let rest = drop 4 value
        in case strip_prefix '' - '' rest of
             Some r \<Rightarrow> Some r
           | None \<Rightarrow>
               (case strip_prefix '' -- '' rest of
                  Some r \<Rightarrow> Some r
                | None \<Rightarrow>
                    (case strip_prefix '': '' rest of
                       Some r \<Rightarrow> Some r
                     | None \<Rightarrow> if trim rest = [] then Some [] else None)))"

definition parse_verification :: "string \<Rightarrow> harness_error + verification" where
  "parse_verification v =
     (let value = trim v
      in if value = [] then bad (''empty '' @ quoted ''verify:'' @ '' - name the check, or '' @ quoted ''none - <why>'')
         else case strip_none_prefix value of
                Some reason \<Rightarrow>
                  if trim reason = []
                  then bad (quoted ''verify: none'' @ '' needs a reason - write '' @ quoted ''verify: none - <why>'')
                  else Inr (Verify_none (trim reason))
              | None \<Rightarrow> Inr (Verify_command value))"

definition parse_meta_line :: "string \<Rightarrow> (string \<times> string) option" where
  "parse_meta_line line =
     (case strip_prefix ''- '' line of
        None \<Rightarrow> None
      | Some rest \<Rightarrow>
          (case split_once rest (CHR '':'') of None \<Rightarrow> None | Some (key, value) \<Rightarrow> Some (trim key, trim value)))"

fun all_some :: "'a option list \<Rightarrow> 'a list option" where
  "all_some [] = Some []"
| "all_some (None # xs) = None"
| "all_some (Some x # xs) = map_option ((#) x) (all_some xs)"

definition parse_scope :: "string \<Rightarrow> harness_error + work_scope" where
  "parse_scope value =
     (case all_some (map (\<lambda>p. parse_uint u64_max (trim p)) (split_by (\<lambda>c. c = CHR '','') value)) of
        Some [files, regions, decisions, changed] \<Rightarrow>
          if decisions > 0 \<and> regions \<ge> files
          then Inr \<lparr>ws_files = files, ws_regions = regions, ws_decisions = decisions, ws_changed_lines = changed\<rparr>
          else bad ''scope requires four nonnegative counts: files, regions, decisions (>0), changed_lines; regions must cover files''
      | _ \<Rightarrow> bad ''scope requires four nonnegative counts: files, regions, decisions (>0), changed_lines; regions must cover files'')"

text \<open>What a line of metadata does to the last step.\<close>

definition apply_meta :: "string \<Rightarrow> string \<Rightarrow> doc_step \<Rightarrow> harness_error + doc_step" where
  "apply_meta key value st =
     (if key = ''commit'' then Inr (st\<lparr>st_commit := Some value\<rparr>)
      else if key = ''attempts''
      then (case parse_uint u32_max value of
              None \<Rightarrow> bad (''invalid attempts value '' @ quoted value)
            | Some n \<Rightarrow> Inr (st\<lparr>st_attempts := n\<rparr>))
      else if key = ''sessions''
      then Inr (st\<lparr>st_sessions := st_sessions st @ filter (\<lambda>x. x \<noteq> []) (map trim (split_by (\<lambda>c. c = CHR '','') value))\<rparr>)
      else if key = ''covers'' then map_sum id (\<lambda>ns. st\<lparr>st_covers := Some ns\<rparr>) (parse_numbers value True)
      else if key = ''depends'' then map_sum id (\<lambda>ns. st\<lparr>st_depends := Some ns\<rparr>) (parse_numbers value False)
      else if key = ''verify'' then map_sum id (\<lambda>v. st\<lparr>st_verify := Some v\<rparr>) (parse_verification value)
      else if key = ''scope'' then map_sum id (\<lambda>s. st\<lparr>st_scope := Some s\<rparr>) (parse_scope value)
      else Inr st)"

fun parse_lines :: "string list \<Rightarrow> doc_step list \<Rightarrow> harness_error + doc_step list" where
  "parse_lines [] steps = Inr steps"
| "parse_lines (l # ls) steps =
     (let trimmed = trim_start l
      in case parse_step_line trimmed of
           Inl e \<Rightarrow> Inl e
         | Inr (Some st) \<Rightarrow>
             if st_number st \<in> st_number ` set steps
             then bad (''duplicate step number '' @ show_nat (st_number st))
             else parse_lines ls (steps @ [st])
         | Inr None \<Rightarrow>
             (case parse_meta_line trimmed of
                None \<Rightarrow> parse_lines ls steps
              | Some (key, value) \<Rightarrow>
                  if steps = [] then parse_lines ls steps
                  else (case apply_meta key value (last steps) of
                          Inl e \<Rightarrow> Inl e
                        | Inr st \<Rightarrow> parse_lines ls (butlast steps @ [st]))))"

definition header_bindings :: "string list \<Rightarrow> string list" where
  "header_bindings ls =
     map trim (List.map_filter (\<lambda>l. strip_prefix ''Brief:'' (trim l)) (takeWhile (\<lambda>l. \<not> prefix ''## '' (trim_start l)) ls))"

definition progress_parse :: "string \<Rightarrow> harness_error + progress_doc" where
  "progress_parse doc0 =
     (let doc = crlf_to_lf doc0; ls = str_lines doc
      in case title_after doc ''# Progress:'' of
           None \<Rightarrow> bad (''missing '' @ quoted ''# Progress: <name>'' @ '' title'')
         | Some name \<Rightarrow>
             (case title_after doc ''Branch:'' of
                None \<Rightarrow> bad (''missing '' @ quoted ''Branch:'' @ '' line'')
              | Some branch \<Rightarrow>
                  let bindings = header_bindings ls
                  in if length bindings > 1
                     then bad (show_nat (length bindings) @ '' '' @ quoted ''Brief:'' @ '' lines; a plan records exactly one brief revision'')
                     else if bindings \<noteq> [] \<and> hd bindings = []
                     then bad (''empty '' @ quoted ''Brief:'' @ '' line; a binding records a brief revision'')
                     else map_sum id
                       (\<lambda>steps. \<lparr>pg_name = name, pg_branch = branch,
                          pg_brief_binding = (case bindings of [] \<Rightarrow> None | b # _ \<Rightarrow> Some b), pg_steps = steps\<rparr>)
                       (parse_lines ls [])))"

section \<open>Writing\<close>

definition render_numbers :: "nat list \<Rightarrow> string \<Rightarrow> string" where
  "render_numbers ns pre = (if ns = [] then ''none'' else join '', '' (map (\<lambda>n. pre @ show_nat n) ns))"

definition opt_line :: "string \<Rightarrow> ('a \<Rightarrow> string) \<Rightarrow> 'a option \<Rightarrow> string list" where
  "opt_line label show x = (case x of None \<Rightarrow> [] | Some v \<Rightarrow> [label @ show v])"

fun render_verification :: "verification \<Rightarrow> string" where
  "render_verification (Verify_command c) = c"
| "render_verification (Verify_none r) = ''none - '' @ r"

definition render_scope :: "work_scope \<Rightarrow> string" where
  "render_scope s =
     join '', '' [show_nat (ws_files s), show_nat (ws_regions s), show_nat (ws_decisions s), show_nat (ws_changed_lines s)]"

definition done_lines :: "doc_step \<Rightarrow> string list" where
  "done_lines st =
     (if \<not> st_done st then []
      else opt_line ''  - commit: '' id (st_commit st) @
        (if st_attempts st > 0 then [''  - attempts: '' @ show_nat (st_attempts st)] else []) @
        (if st_sessions st \<noteq> [] then [''  - sessions: '' @ join '', '' (st_sessions st)] else []))"

definition plan_lines :: "doc_step \<Rightarrow> string list" where
  "plan_lines st =
     opt_line ''  - covers: '' (\<lambda>ns. render_numbers ns ''AC'') (st_covers st) @
     opt_line ''  - verify: '' render_verification (st_verify st) @
     opt_line ''  - scope: '' render_scope (st_scope st) @
     opt_line ''  - depends: '' (\<lambda>ns. render_numbers ns []) (st_depends st)"

definition step_title :: "doc_step \<Rightarrow> string" where
  "step_title st =
     ''- ['' @ (if st_done st then ''x'' else '' '') @ ''] '' @ show_nat (st_number st) @ ''. '' @ st_description st"

definition step_lines :: "doc_step \<Rightarrow> string list" where
  "step_lines st = step_title st # done_lines st @ plan_lines st"

definition header_lines :: "progress_doc \<Rightarrow> string list" where
  "header_lines p =
     [''# Progress: '' @ pg_name p, ''Branch: '' @ pg_branch p] @ opt_line ''Brief: '' id (pg_brief_binding p) @
     [[], ''## Steps'', []]"

definition progress_render :: "progress_doc \<Rightarrow> string" where
  "progress_render p = unlines (header_lines p @ concat (map step_lines (pg_steps p)))"

section \<open>Operations\<close>

definition next_incomplete :: "progress_doc \<Rightarrow> doc_step option" where
  "next_incomplete p = find (\<lambda>s. \<not> st_done s) (pg_steps p)"

definition completed_count :: "progress_doc \<Rightarrow> nat" where
  "completed_count p = length (filter st_done (pg_steps p))"

definition step_is_done :: "progress_doc \<Rightarrow> nat \<Rightarrow> bool" where
  "step_is_done p n = list_ex (\<lambda>s. st_number s = n \<and> st_done s) (pg_steps p)"

definition bind_to_brief :: "string \<Rightarrow> progress_doc \<Rightarrow> progress_doc" where
  "bind_to_brief r p = p\<lparr>pg_brief_binding := Some r\<rparr>"

definition append_step :: "string \<Rightarrow> progress_doc \<Rightarrow> progress_doc \<times> nat" where
  "append_step d p =
     (let n = (foldr max (map st_number (pg_steps p)) 0 + 1) mod 2 ^ 64
      in (p\<lparr>pg_steps := pg_steps p @ [step_new n d False]\<rparr>, n))"

fun update_first_step :: "('a \<Rightarrow> bool) \<Rightarrow> ('a \<Rightarrow> 'a) \<Rightarrow> 'a list \<Rightarrow> 'a list option" where
  "update_first_step P f [] = None"
| "update_first_step P f (x # xs) = (if P x then Some (f x # xs) else map_option ((#) x) (update_first_step P f xs))"

definition with_step :: "nat \<Rightarrow> (doc_step \<Rightarrow> doc_step) \<Rightarrow> progress_doc \<Rightarrow> progress_doc \<times> bool" where
  "with_step n f p =
     (case update_first_step (\<lambda>s. st_number s = n) f (pg_steps p) of
        None \<Rightarrow> (p, False)
      | Some steps \<Rightarrow> (p\<lparr>pg_steps := steps\<rparr>, True))"

definition mark_complete :: "nat \<Rightarrow> string option \<Rightarrow> nat \<Rightarrow> progress_doc \<Rightarrow> progress_doc \<times> bool" where
  "mark_complete n commit attempts p =
     with_step n (\<lambda>s. s\<lparr>st_done := True, st_commit := commit, st_attempts := attempts\<rparr>) p"

definition record_sessions :: "nat \<Rightarrow> string list \<Rightarrow> progress_doc \<Rightarrow> progress_doc \<times> bool" where
  "record_sessions n ss p = with_step n (\<lambda>s. s\<lparr>st_sessions := ss\<rparr>) p"

end
