(* ===== verification/Brief_Doc.thy ===== *)
theory Brief_Doc
  imports Progress_Doc "HOL-Library.Word"
begin

text \<open>
  \<^verbatim>\<open>crates/localpilot-harness/src/brief.rs\<close>, the brief a plan is made for, and \<^verbatim>\<open>binding.rs\<close>, the revision of a
  brief that a plan records. The hash is an argument: \<open>sha256_hex\<close> gives the digest as it is printed.
\<close>

section \<open>The brief\<close>

record brief =
  br_name :: string
  br_summary :: string
  br_requirements :: "string list"
  br_constraints :: "string list"
  br_non_goals :: "string list"
  br_acceptance_criteria :: "string list"
  br_risks :: "string list"

definition BRIEF_DOCUMENT :: string where
  "BRIEF_DOCUMENT = ''brief.md''"

definition add_line :: "string \<Rightarrow> (string \<times> string list) list \<Rightarrow> (string \<times> string list) list" where
  "add_line l ss =
     (case strip_prefix ''## '' (trim l) of
        Some h \<Rightarrow> ss @ [(trim h, [])]
      | None \<Rightarrow> if ss = [] then ss else butlast ss @ [(fst (last ss), snd (last ss) @ [l])])"

definition split_sections :: "string \<Rightarrow> (string \<times> string list) list" where
  "split_sections doc = fold add_line (str_lines doc) []"

definition require_section :: "(string \<times> string list) list \<Rightarrow> string \<Rightarrow> harness_error + string list" where
  "require_section ss name =
     (case map_of ss name of None \<Rightarrow> Inl (Missing_section BRIEF_DOCUMENT name) | Some body \<Rightarrow> Inr body)"

definition optional_section :: "(string \<times> string list) list \<Rightarrow> string \<Rightarrow> string list" where
  "optional_section ss name = (case map_of ss name of None \<Rightarrow> [] | Some body \<Rightarrow> body)"

definition bullet_item :: "string \<Rightarrow> string option" where
  "bullet_item l =
     (case strip_prefix ''- '' (trim l) of
        Some s \<Rightarrow> Some (trim s)
      | None \<Rightarrow> map_option trim (strip_prefix ''* '' (trim l)))"

definition bullet_items :: "string list \<Rightarrow> string list" where
  "bullet_items ls = filter (\<lambda>s. s \<noteq> []) (List.map_filter bullet_item ls)"

definition brief_parse :: "string \<Rightarrow> harness_error + brief" where
  "brief_parse doc0 =
     (let doc = crlf_to_lf doc0
      in case title_after doc ''# Brief:'' of
           None \<Rightarrow> Inl (Malformed_doc BRIEF_DOCUMENT (''missing '' @ quoted ''# Brief: <name>'' @ '' title''))
         | Some name \<Rightarrow>
             let ss = split_sections doc
             in (case require_section ss ''Summary'' of Inl e \<Rightarrow> Inl e | Inr summary \<Rightarrow>
                 case require_section ss ''Requirements'' of Inl e \<Rightarrow> Inl e | Inr requirements \<Rightarrow>
                 case require_section ss ''Constraints'' of Inl e \<Rightarrow> Inl e | Inr constraints \<Rightarrow>
                 case require_section ss ''Non-Goals'' of Inl e \<Rightarrow> Inl e | Inr non_goals \<Rightarrow>
                 case require_section ss ''Acceptance Criteria'' of Inl e \<Rightarrow> Inl e | Inr criteria \<Rightarrow>
                   Inr \<lparr>br_name = name, br_summary = trim (join newline summary),
                        br_requirements = bullet_items requirements, br_constraints = bullet_items constraints,
                        br_non_goals = bullet_items non_goals, br_acceptance_criteria = bullet_items criteria,
                        br_risks = bullet_items (optional_section ss ''Risks & Rollback'')\<rparr>))"

definition add_requirement :: "string \<Rightarrow> brief \<Rightarrow> brief" where
  "add_requirement t b = b\<lparr>br_requirements := br_requirements b @ [t]\<rparr>"

definition list_lines :: "string \<Rightarrow> string list \<Rightarrow> string list" where
  "list_lines header items = [''## '' @ header, []] @ map (\<lambda>i. ''- '' @ i) items @ [[]]"

text \<open>The summary is written as it is: its lines, when it has any.\<close>

definition brief_render :: "brief \<Rightarrow> string" where
  "brief_render b =
     unlines [''# Brief: '' @ br_name b, [], ''## Summary'', []] @
     (if br_summary b = [] then [] else br_summary b @ newline @ newline) @
     unlines (list_lines ''Requirements'' (br_requirements b) @ list_lines ''Constraints'' (br_constraints b) @
       list_lines ''Non-Goals'' (br_non_goals b) @ list_lines ''Acceptance Criteria'' (br_acceptance_criteria b) @
       (if br_risks b = [] then [] else list_lines ''Risks & Rollback'' (br_risks b)))"

section \<open>Its revision\<close>

definition TAG_V1 :: string where
  "TAG_V1 = ''sha256-v1''"

datatype binding_support = Current_binding | Stale_binding | Unsupported_binding

definition utf8_char :: "char \<Rightarrow> 8 word list" where
  "utf8_char c =
     (let n = (of_char c :: nat) in if n < 128 then [of_nat n] else [of_nat (192 + n div 64), of_nat (128 + n mod 64)])"

definition utf8_bytes :: "string \<Rightarrow> 8 word list" where
  "utf8_bytes s = concat (map utf8_char s)"

definition to_be_bytes :: "64 word \<Rightarrow> 8 word list" where
  "to_be_bytes w = map (\<lambda>i. ucast (drop_bit (56 - 8 * i) w)) [0..<8]"

definition length_prefixed :: "8 word list \<Rightarrow> 8 word list" where
  "length_prefixed bs = to_be_bytes (of_nat (length bs)) @ bs"

definition brief_field :: "string \<Rightarrow> string list \<Rightarrow> 8 word list" where
  "brief_field tag items =
     length_prefixed (utf8_bytes tag) @ to_be_bytes (of_nat (length items)) @
     concat (map (\<lambda>i. length_prefixed (utf8_bytes (trim i))) items)"

definition canonical_v1 :: "brief \<Rightarrow> 8 word list" where
  "canonical_v1 b =
     brief_field ''name'' [br_name b] @ brief_field ''summary'' [br_summary b] @
     brief_field ''requirements'' (br_requirements b) @ brief_field ''constraints'' (br_constraints b) @
     brief_field ''non_goals'' (br_non_goals b) @ brief_field ''acceptance_criteria'' (br_acceptance_criteria b) @
     brief_field ''risks'' (br_risks b)"

definition brief_revision :: "(8 word list \<Rightarrow> string) \<Rightarrow> brief \<Rightarrow> string" where
  "brief_revision sha256_hex b = TAG_V1 @ '':'' @ sha256_hex (canonical_v1 b)"

definition lower_hex :: "char \<Rightarrow> bool" where
  "lower_hex c \<longleftrightarrow> is_ascii_digit c \<or> CHR ''a'' \<le> c \<and> c \<le> CHR ''f''"

definition binding_classify :: "string \<Rightarrow> string \<Rightarrow> binding_support" where
  "binding_classify revision recorded0 =
     (let recorded = trim recorded0
      in case split_once recorded (CHR '':'') of
           None \<Rightarrow> Unsupported_binding
         | Some (tag, digest) \<Rightarrow>
             if tag \<noteq> TAG_V1 then Unsupported_binding
             else if byte_len digest \<noteq> 64 \<or> \<not> list_all lower_hex digest then Unsupported_binding
             else if recorded = revision then Current_binding else Stale_binding)"

section \<open>The canonical form is unambiguous\<close>

lemma utf8_char_inj: "utf8_char c @ x = utf8_char d @ y \<Longrightarrow> c = d \<and> x = y"
proof -
  assume e: "utf8_char c @ x = utf8_char d @ y"
  let ?m = "of_char c :: nat" and ?n = "of_char d :: nat"
  have lt: "?m < 256" "?n < 256" by simp_all
  have w: "unat (of_nat k :: 8 word) = k" if "k < 256" for k
    using that by (simp add: unat_of_nat take_bit_eq_mod)
  have eq: "k = l" if "(of_nat k :: 8 word) = of_nat l" "k < 256" "l < 256" for k l
    using that w by metis
  have bounds: "192 + ?m div 64 < 256" "128 + ?m mod 64 < 256" "192 + ?n div 64 < 256" "128 + ?n mod 64 < 256"
    using lt by linarith+
  have "?m = ?n \<and> x = y"
  proof (cases "?m < 128"; cases "?n < 128")
    assume "?m < 128" "?n < 128"
    with e have "(of_nat ?m :: 8 word) = of_nat ?n" "x = y"
      by (auto simp only: utf8_char_def Let_def if_True append.simps list.inject)
    with eq lt show ?thesis by blast
  next
    assume a: "\<not> ?m < 128" "\<not> ?n < 128"
    with e have "(of_nat (192 + ?m div 64) :: 8 word) = of_nat (192 + ?n div 64)"
      "(of_nat (128 + ?m mod 64) :: 8 word) = of_nat (128 + ?n mod 64)" "x = y"
      by (auto simp only: utf8_char_def Let_def if_False append.simps list.inject)
    with eq bounds have "?m div 64 = ?n div 64" "?m mod 64 = ?n mod 64" by (metis add_left_cancel)+
    with \<open>x = y\<close> show ?thesis by (metis div_mult_mod_eq)
  next
    assume a: "?m < 128" "\<not> ?n < 128"
    with e have "(of_nat ?m :: 8 word) = of_nat (192 + ?n div 64)"
      by (auto simp only: utf8_char_def Let_def if_True if_False append.simps list.inject)
    with eq [of ?m "192 + ?n div 64"] lt bounds a show ?thesis by auto
  next
    assume a: "\<not> ?m < 128" "?n < 128"
    with e have "(of_nat (192 + ?m div 64) :: 8 word) = of_nat ?n"
      by (auto simp only: utf8_char_def Let_def if_True if_False append.simps list.inject)
    with eq [of "192 + ?m div 64" ?n] lt bounds a show ?thesis by auto
  qed
  then show ?thesis by simp
qed

lemma utf8_bytes_inj: "utf8_bytes s = utf8_bytes t \<Longrightarrow> s = t"
proof (induction s arbitrary: t)
  case Nil
  then show ?case by (cases t) (auto simp: utf8_bytes_def utf8_char_def Let_def split: if_splits)
next
  case (Cons c s)
  then obtain d u where t: "t = d # u" by (cases t) (auto simp: utf8_bytes_def utf8_char_def Let_def split: if_splits)
  with Cons.prems have "utf8_char c @ utf8_bytes s = utf8_char d @ utf8_bytes u" by (simp add: utf8_bytes_def)
  from utf8_char_inj [OF this] Cons.IH t show ?case by simp
qed

lemma length_to_be_bytes [simp]: "length (to_be_bytes w) = 8"
  by (simp add: to_be_bytes_def)

lemma to_be_bytes_inj: "to_be_bytes v = to_be_bytes w \<Longrightarrow> v = w"
proof (rule bit_word_eqI)
  fix n
  assume e: "to_be_bytes v = to_be_bytes w" and n: "n < LENGTH(64)"
  have bits: "bit x n \<longleftrightarrow> bit (to_be_bytes x ! (7 - n div 8)) (n mod 8)" for x :: "64 word"
  proof -
    have "7 - n div 8 < 8" by simp
    then have "to_be_bytes x ! (7 - n div 8) = ucast (drop_bit (56 - 8 * (7 - n div 8)) x)" by (simp add: to_be_bytes_def)
    moreover have "56 - 8 * (7 - n div 8) = 8 * (n div 8)" using n by (simp add: word_size) 
    ultimately show ?thesis by (simp add: bit_ucast_iff bit_drop_bit_eq word_size n)
  qed
  show "bit v n = bit w n" unfolding bits e ..
qed

definition fits_u64 :: "string \<Rightarrow> bool" where
  "fits_u64 s \<longleftrightarrow> length (utf8_bytes (trim s)) < 2 ^ 64"

lemma to_be_length_inj: "to_be_bytes (of_nat k) = to_be_bytes (of_nat l) \<Longrightarrow> k < 2 ^ 64 \<Longrightarrow> l < 2 ^ 64 \<Longrightarrow> k = l"
proof -
  assume "to_be_bytes (of_nat k) = to_be_bytes (of_nat l)" and b: "k < 2 ^ 64" "l < 2 ^ 64"
  then have "unat (of_nat k :: 64 word) = unat (of_nat l :: 64 word)" by (simp only: to_be_bytes_inj [of "of_nat k" "of_nat l"])
  with b show "k = l" by (simp add: unat_of_nat take_bit_nat_eq_self)
qed

lemma length_prefixed_inj:
  assumes "length_prefixed a @ x = length_prefixed b @ y" "length a < 2 ^ 64" "length b < 2 ^ 64"
  shows "a = b \<and> x = y"
proof -
  have "to_be_bytes (of_nat (length a)) = to_be_bytes (of_nat (length b))" and r: "a @ x = b @ y"
    using assms(1) by (simp_all add: length_prefixed_def)
  with assms(2,3) have "length a = length b" by (blast dest: to_be_length_inj)
  with r show ?thesis by simp
qed

text \<open>A field whose items are all shorter than \<open>2 ^ 64\<close> bytes, and fewer than that many of them.\<close>

definition fits_field :: "string list \<Rightarrow> bool" where
  "fits_field items \<longleftrightarrow> length items < 2 ^ 64 \<and> (\<forall>i \<in> set items. fits_u64 i)"

lemma items_inj:
  assumes "concat (map (\<lambda>i. length_prefixed (utf8_bytes (trim i))) xs) @ x =
      concat (map (\<lambda>i. length_prefixed (utf8_bytes (trim i))) ys) @ y"
    "length xs = length ys" "\<forall>i \<in> set xs. fits_u64 i" "\<forall>i \<in> set ys. fits_u64 i"
  shows "map trim xs = map trim ys \<and> x = y"
  using assms(2,1,3,4)
proof (induction xs ys rule: list_induct2)
  case (Cons a xs b ys)
  have "utf8_bytes (trim a) = utf8_bytes (trim b) \<and>
      concat (map (\<lambda>i. length_prefixed (utf8_bytes (trim i))) xs) @ x =
      concat (map (\<lambda>i. length_prefixed (utf8_bytes (trim i))) ys) @ y"
    using Cons.prems by (intro length_prefixed_inj) (simp_all add: fits_u64_def)
  with Cons show ?case by (simp add: utf8_bytes_inj)
qed simp

lemma brief_field_inj:
  assumes "brief_field tag xs @ x = brief_field tag ys @ y" "fits_field xs" "fits_field ys"
  shows "map trim xs = map trim ys \<and> x = y"
proof -
  have n: "to_be_bytes (of_nat (length xs)) = to_be_bytes (of_nat (length ys))"
    and r: "concat (map (\<lambda>i. length_prefixed (utf8_bytes (trim i))) xs) @ x =
      concat (map (\<lambda>i. length_prefixed (utf8_bytes (trim i))) ys) @ y"
    using assms(1) by (simp_all add: brief_field_def)
  have "length xs = length ys" by (rule to_be_length_inj [OF n]) (use assms(2,3) in \<open>simp_all add: fits_field_def\<close>)
  with items_inj [OF r] assms(2,3) show ?thesis by (simp add: fits_field_def)
qed

text \<open>What a brief asks for, with the white space around its items left out.\<close>

definition brief_fields :: "brief \<Rightarrow> string list list" where
  "brief_fields b =
     [[br_name b], [br_summary b], br_requirements b, br_constraints b, br_non_goals b, br_acceptance_criteria b, br_risks b]"

definition same_requirements :: "brief \<Rightarrow> brief \<Rightarrow> bool" where
  "same_requirements a b \<longleftrightarrow> map (map trim) (brief_fields a) = map (map trim) (brief_fields b)"

definition brief_fits :: "brief \<Rightarrow> bool" where
  "brief_fits b \<longleftrightarrow> (\<forall>f \<in> set (brief_fields b). fits_field f)"

lemma brief_field_cong: "map trim xs = map trim ys \<Longrightarrow> brief_field tag xs = brief_field tag ys"
proof -
  assume e: "map trim xs = map trim ys"
  then have "length xs = length ys" by (metis length_map)
  moreover have "map (\<lambda>i. length_prefixed (utf8_bytes (trim i))) xs = map (\<lambda>i. length_prefixed (utf8_bytes (trim i))) ys"
    using arg_cong [OF e, of "map (\<lambda>s. length_prefixed (utf8_bytes s))"] by (simp add: o_def)
  ultimately show ?thesis by (simp only: brief_field_def)
qed

lemma canonical_v1_inj:
  assumes "brief_fits a" "brief_fits b"
  shows "canonical_v1 a = canonical_v1 b \<longleftrightarrow> same_requirements a b"
proof
  assume "same_requirements a b"
  then have f: "map trim [br_name a] = map trim [br_name b]" "map trim [br_summary a] = map trim [br_summary b]"
    "map trim (br_requirements a) = map trim (br_requirements b)" "map trim (br_constraints a) = map trim (br_constraints b)"
    "map trim (br_non_goals a) = map trim (br_non_goals b)"
    "map trim (br_acceptance_criteria a) = map trim (br_acceptance_criteria b)" "map trim (br_risks a) = map trim (br_risks b)"
    by (simp_all add: same_requirements_def brief_fields_def)
  show "canonical_v1 a = canonical_v1 b" unfolding canonical_v1_def by (simp only: f [THEN brief_field_cong])
next
  assume e: "canonical_v1 a = canonical_v1 b"
  have fa: "fits_field [br_name a]" "fits_field [br_summary a]" "fits_field (br_requirements a)" "fits_field (br_constraints a)"
    "fits_field (br_non_goals a)" "fits_field (br_acceptance_criteria a)" "fits_field (br_risks a)"
    using assms(1) by (simp_all add: brief_fits_def brief_fields_def)
  have fb: "fits_field [br_name b]" "fits_field [br_summary b]" "fits_field (br_requirements b)" "fits_field (br_constraints b)"
    "fits_field (br_non_goals b)" "fits_field (br_acceptance_criteria b)" "fits_field (br_risks b)"
    using assms(2) by (simp_all add: brief_fits_def brief_fields_def)
  note s1 = brief_field_inj [OF e [unfolded canonical_v1_def] fa(1) fb(1)]
  note s2 = brief_field_inj [OF s1 [THEN conjunct2] fa(2) fb(2)]
  note s3 = brief_field_inj [OF s2 [THEN conjunct2] fa(3) fb(3)]
  note s4 = brief_field_inj [OF s3 [THEN conjunct2] fa(4) fb(4)]
  note s5 = brief_field_inj [OF s4 [THEN conjunct2] fa(5) fb(5)]
  note s6 = brief_field_inj [OF s5 [THEN conjunct2] fa(6) fb(6)]
  have s7: "brief_field ''risks'' (br_risks a) @ [] = brief_field ''risks'' (br_risks b) @ []"
    using s6 by simp
  note s7 = brief_field_inj [OF s7 fa(7) fb(7)]
  show "same_requirements a b"
    using s1 s2 s3 s4 s5 s6 s7 by (simp add: same_requirements_def brief_fields_def)
qed

text \<open>What the recorded revision of a brief says about the brief on disk.\<close>

lemma lower_hex_not_white: "lower_hex c \<Longrightarrow> \<not> is_whitespace c"
  by (auto simp: lower_hex_def is_whitespace_def is_ascii_digit_def less_eq_char_def Let_def)

lemma trim_revision:
  assumes "list_all lower_hex d" "d \<noteq> []"
  shows "trim (TAG_V1 @ '':'' @ d) = TAG_V1 @ '':'' @ d"
  by (rule trim_ends) (use assms lower_hex_not_white [of "last d"] in \<open>auto simp: TAG_V1_def list_all_iff is_whitespace_def\<close>)

lemma split_once_revision: "split_once (TAG_V1 @ '':'' @ d) (CHR '':'') = Some (TAG_V1, d)"
  by (simp add: TAG_V1_def)

text \<open>
  The revision a plan records of its brief is read back as current exactly when the brief on disk asks for the
  same things up to white space around its items, and as stale otherwise: the form that is hashed keeps every boundary
  between fields and items, so no two briefs that differ can be taken for one another unless the hash itself collides
  on them. The hypotheses on the hash are that it does not, and that it is printed as 64 lower-case hexadecimal digits.
\<close>

theorem binding_tells_current_from_stale:
  assumes "brief_fits a" "brief_fits b"
    and collision_free: "sha256_hex (canonical_v1 a) = sha256_hex (canonical_v1 b) \<Longrightarrow> canonical_v1 a = canonical_v1 b"
    and printed: "byte_len (sha256_hex (canonical_v1 a)) = 64" "list_all lower_hex (sha256_hex (canonical_v1 a))"
  shows "binding_classify (brief_revision sha256_hex b) (brief_revision sha256_hex a) =
    (if same_requirements a b then Current_binding else Stale_binding)"
proof -
  let ?d = "sha256_hex (canonical_v1 a)"
  have "?d \<noteq> []" using printed(1) by (auto simp: byte_len_def)
  from trim_revision [OF printed(2) this] have t: "trim (brief_revision sha256_hex a) = TAG_V1 @ '':'' @ ?d"
    by (simp only: brief_revision_def)
  have "binding_classify (brief_revision sha256_hex b) (brief_revision sha256_hex a) =
      (if ?d = sha256_hex (canonical_v1 b) then Current_binding else Stale_binding)"
    using printed by (simp only: binding_classify_def Let_def t split_once_revision option.case prod.case) (simp add: brief_revision_def)
  also have "?d = sha256_hex (canonical_v1 b) \<longleftrightarrow> same_requirements a b"
    using collision_free canonical_v1_inj [OF assms(1,2)] by auto
  finally show ?thesis .
qed

definition demo_brief :: "string \<Rightarrow> brief" where
  "demo_brief s =
     \<lparr>br_name = ''n'', br_summary = s, br_requirements = [''r''], br_constraints = [], br_non_goals = [],
      br_acceptance_criteria = [''c''], br_risks = []\<rparr>"

definition demo_hash :: "8 word list \<Rightarrow> string" where
  "demo_hash bs = replicate 64 (if bs = canonical_v1 (demo_brief ''a'') then CHR ''0'' else CHR ''f'')"

theorem binding_tells_current_from_stale_witness:
  "binding_classify (brief_revision demo_hash (demo_brief ''b'')) (brief_revision demo_hash (demo_brief ''a'')) = Stale_binding \<and>
   binding_classify (brief_revision demo_hash (demo_brief '' a '')) (brief_revision demo_hash (demo_brief ''a'')) = Current_binding"
proof -
  have fits: "brief_fits (demo_brief s)" if "s \<in> {''a'', ''b'', '' a ''}" for s
    using that by (auto simp: brief_fits_def brief_fields_def demo_brief_def fits_field_def fits_u64_def utf8_bytes_def utf8_char_def
        trim_def trim_matches_def is_whitespace_def Let_def)
  have f: "brief_fits (demo_brief ''a'')" "brief_fits (demo_brief ''b'')" "brief_fits (demo_brief '' a '')"
    by (rule fits, simp)+
  have p: "byte_len (demo_hash x) = 64" "list_all lower_hex (demo_hash x)" for x
  proof -
    have "sum_list (map utf8_len (replicate n c)) = n * utf8_len c" for n c by (induction n) simp_all
    then show "byte_len (demo_hash x) = 64" by (simp add: demo_hash_def byte_len_def utf8_len_def)
    show "list_all lower_hex (demo_hash x)"
      by (simp add: demo_hash_def list_all_iff lower_hex_def is_ascii_digit_def less_eq_char_def)
  qed
  have s: "\<not> same_requirements (demo_brief ''a'') (demo_brief ''b'')" "same_requirements (demo_brief ''a'') (demo_brief '' a '')"
    by (simp_all add: same_requirements_def brief_fields_def demo_brief_def trim_def trim_matches_def is_whitespace_def)
  have c: "canonical_v1 (demo_brief ''a'') \<noteq> canonical_v1 (demo_brief ''b'')"
    "canonical_v1 (demo_brief ''a'') = canonical_v1 (demo_brief '' a '')"
    using canonical_v1_inj [OF f(1,2)] canonical_v1_inj [OF f(1,3)] s by simp_all
  have "demo_hash (canonical_v1 (demo_brief ''a'')) \<noteq> demo_hash (canonical_v1 (demo_brief ''b''))"
    using c(1) by (simp add: demo_hash_def numeral_eq_Suc)
  then show ?thesis
    using binding_tells_current_from_stale [of "demo_brief ''a''" "demo_brief ''b''" demo_hash, OF f(1,2) _ p]
      binding_tells_current_from_stale [of "demo_brief ''a''" "demo_brief '' a ''" demo_hash, OF f(1,3) _ p] s c by simp
qed

end
