(* ===== verification/Plan_Reconcile.thy ===== *)
theory Plan_Reconcile
  imports Brief_Doc
begin

text \<open>
  Replacing a plan: \<^verbatim>\<open>plan_reconcile.rs\<close>, which carries finished work into a new draft, the checks of
  \<^verbatim>\<open>plan_review.rs\<close> a draft passes before it is approved, and \<open>persist_approved_plan\<close> of \<^verbatim>\<open>plan_draft.rs\<close>, which writes
  it, all of \<^verbatim>\<open>crates/localpilot-harness/src\<close>.
\<close>

section \<open>Carrying finished work across a replan\<close>

datatype credit_reason = BriefChanged | BriefUnknown | Widened "nat list"

datatype reconcile_conflict =
    CompletedStepMissing nat string "string option"
  | AmbiguousMatch string "nat list"
  | IndistinctHistory string "nat list"
  | CreditNotVerifiable nat string "nat list" credit_reason
  | CompletedDependsOnPending nat nat

definition step_identity :: "string \<Rightarrow> string" where
  "step_identity d = to_lowercase (join '' '' (split_whitespace d))"

definition same_work :: "string \<Rightarrow> doc_step \<Rightarrow> bool" where
  "same_work key s \<longleftrightarrow> step_identity (st_description s) = key"

definition covers_or_none :: "doc_step \<Rightarrow> nat list" where
  "covers_or_none s = (case st_covers s of None \<Rightarrow> [] | Some ns \<Rightarrow> ns)"

definition credit_problem :: "doc_step \<Rightarrow> doc_step \<Rightarrow> credit_reason option \<Rightarrow> credit_reason option" where
  "credit_problem completed target unverifiable =
     (let claimed = covers_or_none target; was = covers_or_none completed
      in if claimed = [] then None
         else case unverifiable of
                Some r \<Rightarrow> Some r
              | None \<Rightarrow> if list_all (\<lambda>n. n \<in> set was) claimed then None else Some (Widened was))"

definition unverifiable_of :: "progress_doc \<Rightarrow> string \<Rightarrow> credit_reason option" where
  "unverifiable_of old revision =
     (case pg_brief_binding old of
        Some b \<Rightarrow> if b = revision then None else Some BriefChanged
      | None \<Rightarrow> Some BriefUnknown)"

text \<open>The index of each entry with a property.\<close>

definition indices_of :: "('a \<Rightarrow> bool) \<Rightarrow> 'a list \<Rightarrow> nat list" where
  "indices_of P xs = filter (\<lambda>i. P (xs ! i)) [0..<length xs]"

text \<open>One completed step: a conflict, or the index of the draft step it is carried into.\<close>

definition settle_completed ::
  "progress_doc \<Rightarrow> progress_doc \<Rightarrow> credit_reason option \<Rightarrow> doc_step \<Rightarrow> reconcile_conflict + nat \<times> doc_step" where
  "settle_completed old new unverifiable completed =
     (let key = step_identity (st_description completed);
          twins = map st_number (filter (\<lambda>s. st_done s \<and> same_work key s) (pg_steps old));
          candidates = indices_of (same_work key) (pg_steps new)
      in if length twins > 1 then Inl (IndistinctHistory (st_description completed) twins)
         else case candidates of
                [] \<Rightarrow> Inl (CompletedStepMissing (st_number completed) (st_description completed) (st_commit completed))
              | [i] \<Rightarrow>
                  let target = pg_steps new ! i
                  in (case credit_problem completed target unverifiable of
                        Some problem \<Rightarrow>
                          Inl (CreditNotVerifiable (st_number completed) (st_description completed) (covers_or_none target) problem)
                      | None \<Rightarrow> Inr (i, completed))
              | several \<Rightarrow> Inl (AmbiguousMatch (st_description completed) (map (\<lambda>i. st_number (pg_steps new ! i)) several)))"

fun lefts :: "('a + 'b) list \<Rightarrow> 'a list" where
  "lefts [] = []"
| "lefts (Inl x # xs) = x # lefts xs"
| "lefts (Inr y # xs) = lefts xs"

fun rights :: "('a + 'b) list \<Rightarrow> 'b list" where
  "rights [] = []"
| "rights (Inl x # xs) = rights xs"
| "rights (Inr y # xs) = y # rights xs"

text \<open>The numbers of the draft's steps in the new plan: a slot that is empty takes the next number.\<close>

fun number_slots :: "nat option list \<Rightarrow> nat \<Rightarrow> nat list" where
  "number_slots [] n = []"
| "number_slots (Some k # xs) n = k # number_slots xs n"
| "number_slots (None # xs) n = n # number_slots xs ((n + 1) mod 2 ^ 64)"

definition final_numbers :: "nat \<Rightarrow> (nat \<times> doc_step) list \<Rightarrow> nat list" where
  "final_numbers n carried =
     number_slots (fold (\<lambda>(i, c) slots. slots[i := Some (st_number c)]) carried (replicate n None))
       ((foldr max (map (st_number \<circ> snd) carried) 0 + 1) mod 2 ^ 64)"

definition position :: "('a \<Rightarrow> bool) \<Rightarrow> 'a list \<Rightarrow> nat option" where
  "position P xs = (case indices_of P xs of [] \<Rightarrow> None | i # _ \<Rightarrow> Some i)"

definition renumber_draft :: "progress_doc \<Rightarrow> nat list \<Rightarrow> nat list \<Rightarrow> nat list" where
  "renumber_draft new finals ns =
     map (\<lambda>n. case position (\<lambda>s. st_number s = n) (pg_steps new) of None \<Rightarrow> n | Some i \<Rightarrow> finals ! i) ns"

definition renumber_one_old ::
  "progress_doc \<Rightarrow> progress_doc \<Rightarrow> (nat \<times> doc_step) list \<Rightarrow> nat list \<Rightarrow> nat \<Rightarrow> nat option" where
  "renumber_one_old old new carried finals n =
     (case find (\<lambda>s. st_number s = n) (pg_steps old) of
        None \<Rightarrow> None
      | Some referenced \<Rightarrow>
          if st_done referenced
          then (if st_number referenced \<in> set (map (st_number \<circ> snd) carried) then Some (st_number referenced) else None)
          else map_option (\<lambda>i. finals ! i)
                 (position (same_work (step_identity (st_description referenced))) (pg_steps new)))"

definition renumber_old ::
  "progress_doc \<Rightarrow> progress_doc \<Rightarrow> (nat \<times> doc_step) list \<Rightarrow> nat list \<Rightarrow> nat list \<Rightarrow> nat list" where
  "renumber_old old new carried finals ns = List.map_filter (renumber_one_old old new carried finals) ns"

definition history_step ::
  "progress_doc \<Rightarrow> progress_doc \<Rightarrow> (nat \<times> doc_step) list \<Rightarrow> nat list \<Rightarrow> doc_step \<Rightarrow> doc_step option" where
  "history_step old new carried finals c =
     (case find (\<lambda>x. st_number (snd x) = st_number c) carried of
        None \<Rightarrow> None
      | Some (i, _) \<Rightarrow>
          Some (c\<lparr>st_done := True, st_covers := st_covers (pg_steps new ! i),
                  st_depends := map_option (renumber_old old new carried finals) (st_depends c)\<rparr>))"

definition future_step :: "progress_doc \<Rightarrow> nat list \<Rightarrow> nat \<Rightarrow> doc_step" where
  "future_step new finals i =
     (let s = pg_steps new ! i
      in s\<lparr>st_depends := map_option (renumber_draft new finals) (st_depends s), st_number := finals ! i\<rparr>)"

definition check_order :: "progress_doc \<Rightarrow> reconcile_conflict list" where
  "check_order p =
     (let pending = map st_number (filter (\<lambda>s. \<not> st_done s) (pg_steps p))
      in concat (map (\<lambda>s. case st_depends s of
            None \<Rightarrow> []
          | Some ds \<Rightarrow> map (CompletedDependsOnPending (st_number s)) (filter (\<lambda>d. d \<in> set pending) ds))
        (filter st_done (pg_steps p))))"

definition assemble :: "progress_doc \<Rightarrow> progress_doc \<Rightarrow> (nat \<times> doc_step) list \<Rightarrow> progress_doc" where
  "assemble old new carried =
     (let finals = final_numbers (length (pg_steps new)) carried
      in \<lparr>pg_name = pg_name new, pg_branch = pg_branch old, pg_brief_binding = pg_brief_binding new,
          pg_steps =
            List.map_filter (history_step old new carried finals) (filter st_done (pg_steps old)) @
            map (future_step new finals) (filter (\<lambda>i. i \<notin> set (map fst carried)) [0..<length (pg_steps new)])\<rparr>)"

definition reconcile ::
  "progress_doc \<Rightarrow> progress_doc \<Rightarrow> string \<Rightarrow> reconcile_conflict list + progress_doc" where
  "reconcile old new revision =
     (let settled = map (settle_completed old new (unverifiable_of old revision)) (filter st_done (pg_steps old));
          conflicts = lefts settled
      in if conflicts \<noteq> [] then Inl conflicts
         else let p = assemble old new (rights settled)
              in if check_order p = [] then Inr p else Inl (check_order p))"

section \<open>What a plan satisfies before it is approved\<close>

text \<open>The limits of a work profile that a scope is held against; the rest of \<open>WorkProfile\<close> is about reading and writing.\<close>

record work_profile =
  wp_max_files :: nat
  wp_max_regions :: nat
  wp_max_decisions :: nat
  wp_max_changed_lines :: nat

definition accepts_scope :: "work_profile \<Rightarrow> work_scope \<Rightarrow> bool" where
  "accepts_scope w s \<longleftrightarrow>
     ws_files s \<le> wp_max_files w \<and> ws_regions s \<le> wp_max_regions w \<and> ws_decisions s \<le> wp_max_decisions w \<and>
     ws_changed_lines s \<le> wp_max_changed_lines w \<and> ws_files s \<le> ws_regions s \<and> 0 < ws_decisions s"

datatype plan_defect =
    WorkEnvelope nat
  | MissingScope nat
  | MissingMetadata nat string
  | UnknownCriterion nat nat nat
  | OrphanCriterion nat string
  | UnknownDependency nat nat
  | ForwardDependency nat nat

definition check_metadata :: "doc_step \<Rightarrow> plan_defect list" where
  "check_metadata s =
     (if st_done s then []
      else map (\<lambda>x. MissingMetadata (st_number s) (snd x))
             (filter fst [(st_covers s = None, ''covers''), (st_verify s = None, ''verify''), (st_depends s = None, ''depends'')]))"

definition covers_defects :: "nat \<Rightarrow> doc_step \<Rightarrow> plan_defect list" where
  "covers_defects criteria s =
     map (\<lambda>n. UnknownCriterion (st_number s) n criteria) (filter (\<lambda>n. n = 0 \<or> n > criteria) (covers_or_none s))"

definition depends_defects :: "nat list \<Rightarrow> doc_step \<Rightarrow> plan_defect list" where
  "depends_defects numbers s =
     concat (map (\<lambda>d. if d \<notin> set numbers then [UnknownDependency (st_number s) d]
                      else if d \<ge> st_number s then [ForwardDependency (st_number s) d] else [])
       (case st_depends s of None \<Rightarrow> [] | Some ds \<Rightarrow> ds))"

definition orphans_of :: "progress_doc \<Rightarrow> string list \<Rightarrow> plan_defect list" where
  "orphans_of p criteria =
     concat (map (\<lambda>i. if list_ex (\<lambda>s. i + 1 \<in> set (covers_or_none s)) (pg_steps p) then [] else [OrphanCriterion (i + 1) (criteria ! i)])
       [0..<length criteria])"

definition validate_for_approval :: "progress_doc \<Rightarrow> brief \<Rightarrow> plan_defect list + unit" where
  "validate_for_approval p b =
     (let criteria = br_acceptance_criteria b; numbers = map st_number (pg_steps p);
          defects = concat (map (\<lambda>s. check_metadata s @ covers_defects (length criteria) s @ depends_defects numbers s) (pg_steps p)) @
            orphans_of p criteria
      in if defects = [] then Inr () else Inl defects)"

definition scope_defect :: "work_profile \<Rightarrow> doc_step \<Rightarrow> plan_defect option" where
  "scope_defect w s =
     (case st_scope s of
        None \<Rightarrow> Some (MissingScope (st_number s))
      | Some x \<Rightarrow> if accepts_scope w x then None else Some (WorkEnvelope (st_number s)))"

definition validate_work_scope :: "progress_doc \<Rightarrow> work_profile \<Rightarrow> plan_defect list + unit" where
  "validate_work_scope p w =
     (let defects = List.map_filter (scope_defect w) (filter (\<lambda>s. \<not> st_done s) (pg_steps p))
      in if defects = [] then Inr () else Inl defects)"

section \<open>Writing an approved plan\<close>

record plan_draft =
  pd_progress :: progress_doc
  pd_revision :: string
  pd_repo_summary :: string
  pd_revisions :: nat
  pd_work_profile :: "work_profile option"

datatype plan_approval =
    SourceChanged string
  | HistoryChanged
  | NotSatisfied "plan_defect list"
  | NotWritten harness_error

text \<open>What a read of a file answers.\<close>

datatype read_answer = Read_text string | Read_missing | Read_failed

definition read_brief :: "read_answer \<Rightarrow> plan_approval + brief" where
  "read_brief r =
     (case r of
        Read_text t \<Rightarrow> (case brief_parse t of Inl e \<Rightarrow> Inl (NotWritten e) | Inr b \<Rightarrow> Inr b)
      | _ \<Rightarrow> Inl (NotWritten (Io_failed BRIEF_DOCUMENT)))"

definition read_saved :: "read_answer \<Rightarrow> plan_approval + progress_doc option" where
  "read_saved r =
     (case r of
        Read_text t \<Rightarrow> (case progress_parse t of Inl e \<Rightarrow> Inl (NotWritten e) | Inr p \<Rightarrow> Inr (Some p))
      | Read_missing \<Rightarrow> Inr None
      | Read_failed \<Rightarrow> Inl (NotWritten (Io_failed PROGRESS_DOCUMENT)))"

definition recorded_in :: "progress_doc option \<Rightarrow> doc_step \<Rightarrow> bool" where
  "recorded_in saved s =
     (case saved of
        None \<Rightarrow> False
      | Some p \<Rightarrow>
          list_ex (\<lambda>r. st_done r \<and> st_number r = st_number s \<and> st_description r = st_description s \<and>
            st_commit r = st_commit s \<and> st_attempts r = st_attempts s \<and> st_sessions r = st_sessions s \<and> st_verify r = st_verify s)
          (pg_steps p))"

definition history_kept :: "progress_doc option \<Rightarrow> plan_draft \<Rightarrow> bool" where
  "history_kept saved d \<longleftrightarrow>
     list_all (\<lambda>s. st_done s \<longrightarrow> recorded_in saved s) (pg_steps (pd_progress d)) \<and>
     (case saved of
        None \<Rightarrow> True
      | Some p \<Rightarrow> list_ex st_done (pg_steps p) \<longrightarrow> reconcile p (pd_progress d) (pd_revision d) = Inr (pd_progress d))"

text \<open>The answers of the two reads and of the write are arguments; the value is what is written, as \<open>atomic_write\<close> leaves it.\<close>

definition persist_approved_plan ::
  "(8 word list \<Rightarrow> string) \<Rightarrow> read_answer \<Rightarrow> read_answer \<Rightarrow> bool \<Rightarrow> plan_draft \<Rightarrow> brief \<Rightarrow> progress_doc option
   \<Rightarrow> plan_approval + string" where
  "persist_approved_plan sha256_hex brief_file progress_file write_ok d b expected =
     (if brief_revision sha256_hex b \<noteq> pd_revision d then Inl (SourceChanged BRIEF_DOCUMENT)
      else case read_brief brief_file of Inl e \<Rightarrow> Inl e | Inr current \<Rightarrow>
        if brief_revision sha256_hex current \<noteq> pd_revision d then Inl (SourceChanged BRIEF_DOCUMENT)
        else case read_saved progress_file of Inl e \<Rightarrow> Inl e | Inr saved \<Rightarrow>
          if saved \<noteq> expected then Inl (SourceChanged PROGRESS_DOCUMENT)
          else if \<not> history_kept saved d then Inl HistoryChanged
          else case validate_for_approval (pd_progress d) b of Inl ds \<Rightarrow> Inl (NotSatisfied ds) | Inr _ \<Rightarrow>
            case (case pd_work_profile d of None \<Rightarrow> Inr () | Some w \<Rightarrow> validate_work_scope (pd_progress d) w) of
              Inl ds \<Rightarrow> Inl (NotSatisfied ds)
            | Inr _ \<Rightarrow>
                if write_ok then Inr (progress_render (bind_to_brief (pd_revision d) (pd_progress d)))
                else Inl (NotWritten (Io_failed PROGRESS_DOCUMENT)))"

end
