(* ===== verification/Progress_Spec.thy ===== *)
theory Progress_Spec
  imports Progress_Doc
begin

text \<open>The plan document reads back as it was written, and the operations keep it readable.\<close>

declare parse_lines.simps(2) [simp del]

section \<open>Lists in a line\<close>

abbreviation is_comma :: "char \<Rightarrow> bool" where
  "is_comma c \<equiv> c = CHR '',''"

lemma split_by_none: "\<forall>c \<in> set s. \<not> P c \<Longrightarrow> split_by P s = [s]"
  by (induction s) auto

lemma split_by_first: "\<forall>c \<in> set s. \<not> P c \<Longrightarrow> P d \<Longrightarrow> split_by P (s @ d # t) = s # split_by P t"
  by (induction s) auto

lemma split_join:
  assumes "\<forall>x \<in> set xs. CHR '','' \<notin> set x" "xs \<noteq> []"
  shows "split_by is_comma (join '', '' xs) = hd xs # map (\<lambda>x. CHR '' '' # x) (tl xs)"
  using assms
proof (induction xs rule: induct_list012)
  case (2 x)
  then show ?case by (auto intro: split_by_none)
next
  case (3 s t xs)
  have j: "join '', '' (s # t # xs) = s @ CHR '','' # CHR '' '' # join '', '' (t # xs)" by simp
  have rest: "split_by is_comma (join '', '' (t # xs)) = t # map (\<lambda>x. CHR '' '' # x) xs" using 3 by simp
  have "split_by is_comma (s @ CHR '','' # CHR '' '' # join '', '' (t # xs)) = s # split_by is_comma (CHR '' '' # join '', '' (t # xs))"
    by (rule split_by_first) (use 3(3) in auto)
  then show ?case unfolding j by (simp add: rest)
qed simp

lemma trim_split_join:
  assumes "\<forall>x \<in> set xs. CHR '','' \<notin> set x \<and> tidy x" "xs \<noteq> []"
  shows "map trim (split_by is_comma (join '', '' xs)) = xs"
proof -
  have "split_by is_comma (join '', '' xs) = hd xs # map (\<lambda>x. CHR '' '' # x) (tl xs)"
    using assms by (intro split_join) auto
  moreover have "map (trim \<circ> (\<lambda>x. CHR '' '' # x)) (tl xs) = tl xs"
    using assms list.set_sel(2) [of xs] by (intro map_idI) auto
  ultimately show ?thesis using assms by (cases xs) auto
qed

lemma hd_join: "xs \<noteq> [] \<Longrightarrow> hd xs \<noteq> [] \<Longrightarrow> hd (join sep xs) = hd (hd xs) \<and> join sep xs \<noteq> []"
  by (induction sep xs rule: join.induct) auto

lemma last_join: "xs \<noteq> [] \<Longrightarrow> last xs \<noteq> [] \<Longrightarrow> last (join sep xs) = last (last xs) \<and> join sep xs \<noteq> []"
  by (induction sep xs rule: join.induct) auto

lemma line_join: "\<forall>x \<in> set xs. on_a_line x \<Longrightarrow> on_a_line (join '', '' xs)"
  by (induction xs rule: induct_list012) auto

lemma tidy_join:
  assumes "\<forall>x \<in> set xs. tidy x \<and> x \<noteq> []"
  shows "tidy (join '', '' xs)"
proof (cases "xs = []")
  case False
  have "on_a_line (join '', '' xs)" using assms by (auto simp: tidy_def intro: line_join)
  moreover have e: "hd xs \<noteq> []" "last xs \<noteq> []" "\<not> is_whitespace (hd (hd xs))" "\<not> is_whitespace (last (last xs))"
    using bspec [OF assms hd_in_set [OF False]] bspec [OF assms last_in_set [OF False]] by (auto simp: tidy_def)
  ultimately show ?thesis using hd_join [OF False e(1), of "'', ''"] last_join [OF False e(2), of "'', ''"] by (simp add: tidy_def)
qed (simp add: tidy_def)

lemma no_comma_number: "CHR '','' \<notin> set (show_nat n)"
  using digit_not [OF show_nat_chars] by blast

lemma tidy_prefixed: "tidy s \<Longrightarrow> s \<noteq> [] \<Longrightarrow> on_a_line p \<Longrightarrow> p = [] \<or> \<not> is_whitespace (hd p) \<Longrightarrow> tidy (p @ s)"
  by (auto simp: tidy_def hd_append)

definition numbered_ok :: "nat list \<Rightarrow> bool" where
  "numbered_ok ns \<longleftrightarrow> distinct ns \<and> (\<forall>n \<in> set ns. 0 < n \<and> n \<le> u64_max)"

lemma parse_parts_back:
  assumes "map trim ps = map (\<lambda>n. pre @ show_nat n) ns" "distinct (out @ ns)" "\<forall>n \<in> set ns. 0 < n \<and> n \<le> u64_max"
    and "pre = (if allow then ''AC'' else [])"
  shows "parse_parts v e allow ps out = Inr (out @ ns)"
  using assms
proof (induction ps arbitrary: ns out)
  case (Cons p ps)
  then obtain n ms where ns: "ns = n # ms" "trim p = pre @ show_nat n" "map trim ps = map (\<lambda>n. pre @ show_nat n) ms"
    by (auto simp: Cons_eq_map_conv)
  have "criterion_digits allow (trim p) = show_nat n"
    using Cons.prems(4) by (auto simp: ns(2) criterion_digits_def eq_ignore_ascii_case_def to_ascii_lowercase_def is_ascii_upper_def)
  with ns Cons.prems Cons.IH [of ms "out @ [n]"] show ?case
    by (simp add: show_nat_digits parse_uint_show_nat)
qed simp

lemma digit_lower: "is_ascii_digit c \<Longrightarrow> ascii_lower_char c = c \<and> c \<noteq> CHR ''n''"
proof
  assume d: "is_ascii_digit c"
  then have "\<not> is_ascii_upper c" by (simp add: is_ascii_digit_def is_ascii_upper_def Let_def)
  then show "ascii_lower_char c = c" by (cases c) simp
  show "c \<noteq> CHR ''n''" using d by (auto simp: is_ascii_digit_def)
qed

lemma parse_numbers_back:
  assumes ns: "numbered_ok ns" and pre: "pre = (if allow then ''AC'' else [])"
  shows "parse_numbers (render_numbers ns pre) allow = Inr ns"
proof (cases "ns = []")
  case True
  then show ?thesis by (simp add: parse_numbers_def render_numbers_def trim_def trim_matches_def is_whitespace_def eq_ignore_ascii_case_def)
next
  case False
  let ?xs = "map (\<lambda>n. pre @ show_nat n) ns"
  have x: "tidy (pre @ show_nat n) \<and> pre @ show_nat n \<noteq> [] \<and> CHR '','' \<notin> set (pre @ show_nat n)" for n
    using tidy_prefixed [OF tidy_show_nat, of n pre] no_comma_number by (auto simp: pre is_whitespace_def)
  then have j: "tidy (join '', '' ?xs)" "map trim (split_by is_comma (join '', '' ?xs)) = ?xs"
    using False by (auto intro!: tidy_join trim_split_join)
  obtain c cs where c: "show_nat (hd ns) = c # cs" by (cases "show_nat (hd ns)") auto
  then have dig: "is_ascii_digit c" using show_nat_chars [of c "hd ns"] by simp
  have "hd (join '', '' ?xs) = hd (pre @ show_nat (hd ns)) \<and> join '', '' ?xs \<noteq> []"
    using hd_join [of ?xs "'', ''"] False x by (cases ns) auto
  moreover have "ascii_lower_char (hd (pre @ show_nat (hd ns))) \<noteq> CHR ''n''"
    using c digit_lower [OF dig] by (auto simp: pre is_ascii_upper_def)
  ultimately have "\<not> eq_ignore_ascii_case (join '', '' ?xs) ''none''"
    by (cases "join '', '' ?xs") (auto simp: eq_ignore_ascii_case_def to_ascii_lowercase_def)
  with j False parse_parts_back [OF j(2), of "[]" allow] ns pre show ?thesis
    by (simp add: parse_numbers_def render_numbers_def Let_def numbered_ok_def)
qed

section \<open>Lines of a step\<close>

definition verify_ok :: "verification \<Rightarrow> bool" where
  "verify_ok v =
     (case v of
        Verify_command c \<Rightarrow> tidy c \<and> c \<noteq> [] \<and> strip_none_prefix c = None
      | Verify_none r \<Rightarrow> tidy r \<and> r \<noteq> [])"

definition scope_ok :: "work_scope \<Rightarrow> bool" where
  "scope_ok s \<longleftrightarrow>
     ws_files s \<le> u64_max \<and> ws_regions s \<le> u64_max \<and> ws_decisions s \<le> u64_max \<and> ws_changed_lines s \<le> u64_max \<and>
     0 < ws_decisions s \<and> ws_files s \<le> ws_regions s"

text \<open>
  A step that stays what it is on paper: fields on their lines, numbers in range, and the record of a
  completion only on a completed step.
\<close>

definition step_ok :: "doc_step \<Rightarrow> bool" where
  "step_ok st \<longleftrightarrow>
     st_number st \<le> u64_max \<and> tidy (st_description st) \<and> st_attempts st \<le> u32_max \<and>
     (\<not> st_done st \<longrightarrow> st_commit st = None \<and> st_attempts st = 0 \<and> st_sessions st = []) \<and>
     (\<forall>c \<in> set_option (st_commit st). tidy c) \<and>
     (\<forall>x \<in> set (st_sessions st). tidy x \<and> x \<noteq> [] \<and> CHR '','' \<notin> set x) \<and>
     (\<forall>ns \<in> set_option (st_covers st). numbered_ok ns) \<and> (\<forall>ns \<in> set_option (st_depends st). numbered_ok ns) \<and>
     (\<forall>v \<in> set_option (st_verify st). verify_ok v) \<and> (\<forall>s \<in> set_option (st_scope st). scope_ok s)"

lemma parse_verification_back: "verify_ok v \<Longrightarrow> parse_verification (render_verification v) = Inr v"
proof (cases v)
  case (Verify_none r)
  assume ok: "verify_ok v"
  then have r: "tidy r" "r \<noteq> []" by (simp_all add: Verify_none verify_ok_def)
  then have "trim (''none - '' @ r) = ''none - '' @ r" by (intro trim_labelled) (simp_all add: is_whitespace_def)
  moreover have "strip_none_prefix (''none - '' @ r) = Some r"
    by (simp add: strip_none_prefix_def strip_prefix_def eq_ignore_ascii_case_def)
  ultimately show ?thesis using r by (simp add: Verify_none parse_verification_def Let_def)
qed (simp add: verify_ok_def parse_verification_def Let_def)

lemma all_some_map: "(\<forall>x \<in> set xs. f x = Some (g x)) \<Longrightarrow> all_some (map f xs) = Some (map g xs)"
  by (induction xs) auto

lemma all_some_numbers:
  assumes "map trim ps = map show_nat ns" "\<forall>n \<in> set ns. n \<le> u64_max"
  shows "all_some (map (\<lambda>p. parse_uint u64_max (trim p)) ps) = Some ns"
  using assms
proof (induction ps arbitrary: ns)
  case (Cons p ps)
  then obtain n ms where "ns = n # ms" "trim p = show_nat n" "map trim ps = map show_nat ms" by (auto simp: Cons_eq_map_conv)
  with Cons show ?case by (simp add: parse_uint_show_nat)
qed simp

lemma parse_scope_back: "scope_ok s \<Longrightarrow> parse_scope (render_scope s) = Inr s"
proof -
  assume ok: "scope_ok s"
  let ?ns = "[ws_files s, ws_regions s, ws_decisions s, ws_changed_lines s]"
  have r: "render_scope s = join '', '' (map show_nat ?ns)" by (simp add: render_scope_def)
  have "map trim (split_by is_comma (render_scope s)) = map show_nat ?ns"
    unfolding r by (rule trim_split_join) (use no_comma_number in auto)
  then have "all_some (map (\<lambda>p. parse_uint u64_max (trim p)) (split_by is_comma (render_scope s))) = Some ?ns"
    by (rule all_some_numbers) (use ok in \<open>simp add: scope_ok_def\<close>)
  then show ?thesis using ok by (simp add: parse_scope_def scope_ok_def)
qed

lemma sessions_back:
  assumes "\<forall>x \<in> set xs. tidy x \<and> x \<noteq> [] \<and> CHR '','' \<notin> set x" "xs \<noteq> []"
  shows "filter (\<lambda>x. x \<noteq> []) (map trim (split_by is_comma (join '', '' xs))) = xs"
proof -
  have "map trim (split_by is_comma (join '', '' xs)) = xs" using assms by (intro trim_split_join) auto
  moreover have "filter (\<lambda>x. x \<noteq> []) xs = xs" using assms(1) by (simp add: filter_id_conv)
  ultimately show ?thesis by simp
qed

definition meta_line :: "string \<Rightarrow> string \<Rightarrow> string" where
  "meta_line key v = ''  - '' @ key @ '': '' @ v"

text \<open>A metadata line is read as its key and its value, which go to the last step.\<close>

lemma parse_meta_back:
  assumes "CHR '':'' \<notin> set key" "tidy key" "key \<noteq> []" "hd key \<noteq> CHR ''[''"
  shows "parse_lines (meta_line key v # ls) (steps @ [st]) =
     (case apply_meta key (trim v) st of Inl e \<Rightarrow> Inl e | Inr st' \<Rightarrow> parse_lines ls (steps @ [st']))"
proof -
  have t: "trim_start (meta_line key v) = ''- '' @ key @ '': '' @ v"
    by (simp add: meta_line_def is_whitespace_def)
  have "parse_step_line (''- '' @ key @ '': '' @ v) = Inr None"
    using assms(3,4) by (cases key) (auto simp: parse_step_line_def strip_prefix_def)
  moreover have "split_once (key @ '': '' @ v) (CHR '':'') = Some (key, CHR '' '' # v)"
    using assms(1) by (induction key) auto
  then have "parse_meta_line (''- '' @ key @ '': '' @ v) = Some (key, trim v)"
    using assms(2) by (simp add: parse_meta_line_def strip_prefix_def)
  ultimately show ?thesis by (cases "apply_meta key (trim v) st") (simp_all add: parse_lines.simps(2) t)
qed

lemma parse_opt_back:
  assumes "\<And>v. label @ v = meta_line key v" "CHR '':'' \<notin> set key" "tidy key" "key \<noteq> []" "hd key \<noteq> CHR ''[''"
    and "\<And>v. x = Some v \<Longrightarrow> apply_meta key (trim (sh v)) st = Inr (upd v)"
  shows "parse_lines (opt_line label sh x @ ls) (steps @ [st]) =
     parse_lines ls (steps @ [case x of None \<Rightarrow> st | Some v \<Rightarrow> upd v])"
proof (cases x)
  case (Some v)
  then show ?thesis using parse_meta_back [OF assms(2-5), of "sh v" ls steps st] assms(6) [OF Some]
    by (simp add: opt_line_def assms(1))
qed (simp add: opt_line_def)

lemma tidy_key [simp]:
  "tidy ''commit''" "tidy ''attempts''" "tidy ''sessions''" "tidy ''covers''" "tidy ''verify''" "tidy ''scope''" "tidy ''depends''"
  by (simp_all add: tidy_def is_whitespace_def)

lemma tidy_numbers: "numbered_ok ns \<Longrightarrow> pre = ''AC'' \<or> pre = [] \<Longrightarrow> tidy (render_numbers ns pre)"
proof -
  assume pre: "pre = ''AC'' \<or> pre = []"
  have "tidy (pre @ show_nat n) \<and> pre @ show_nat n \<noteq> []" for n
    using pre tidy_prefixed [OF tidy_show_nat, of n pre] by (auto simp: is_whitespace_def)
  then have "tidy (join '', '' (map (\<lambda>n. pre @ show_nat n) ns))" by (intro tidy_join) auto
  then show ?thesis by (simp add: render_numbers_def) (simp add: tidy_def is_whitespace_def)
qed

lemma tidy_verification: "verify_ok v \<Longrightarrow> tidy (render_verification v)"
  by (cases v) (auto simp: verify_ok_def tidy_def is_whitespace_def)

lemma tidy_scope: "tidy (render_scope s)"
  unfolding render_scope_def by (rule tidy_join) auto

lemma parse_done_back:
  assumes "step_ok st" "st_done st" "st_sessions s0 = []" "st_commit s0 = None" "st_attempts s0 = 0"
  shows "parse_lines (done_lines st @ ls) (steps @ [s0]) =
    parse_lines ls (steps @ [s0\<lparr>st_commit := st_commit st, st_attempts := st_attempts st, st_sessions := st_sessions st\<rparr>])"
proof -
  let ?s1 = "s0\<lparr>st_commit := st_commit st\<rparr>"
  let ?s2 = "?s1\<lparr>st_attempts := st_attempts st\<rparr>"
  let ?c = "opt_line ''  - commit: '' id (st_commit st)"
  let ?a = "if st_attempts st > 0 then [''  - attempts: '' @ show_nat (st_attempts st)] else []"
  let ?e = "if st_sessions st \<noteq> [] then [''  - sessions: '' @ join '', '' (st_sessions st)] else []"
  have "parse_lines (?c @ ?a @ ?e @ ls) (steps @ [s0]) = parse_lines (?a @ ?e @ ls) (steps @ [case st_commit st of None \<Rightarrow> s0 | Some c \<Rightarrow> s0\<lparr>st_commit := Some c\<rparr>])"
    by (rule parse_opt_back [where key = "''commit''"]) (use assms(1) in \<open>auto simp: meta_line_def apply_meta_def step_ok_def\<close>)
  also have "(case st_commit st of None \<Rightarrow> s0 | Some c \<Rightarrow> s0\<lparr>st_commit := Some c\<rparr>) = ?s1"
    using assms(4) by (cases "st_commit st") simp_all
  also have "parse_lines (?a @ ?e @ ls) (steps @ [?s1]) = parse_lines (?e @ ls) (steps @ [?s2])"
  proof (cases "st_attempts st > 0")
    case True
    then show ?thesis
      using parse_meta_back [of "''attempts''" "show_nat (st_attempts st)" "?e @ ls" steps ?s1] assms(1)
      by (simp add: meta_line_def apply_meta_def step_ok_def parse_uint_show_nat)
  next
    case False
    then have "?s2 = ?s1" using assms(5) by (cases s0) simp
    with False show ?thesis by (simp only: if_False append_Nil)
  qed
  also have "parse_lines (?e @ ls) (steps @ [?s2]) = parse_lines ls (steps @ [?s2\<lparr>st_sessions := st_sessions st\<rparr>])"
  proof (cases "st_sessions st = []")
    case False
    have "tidy (join '', '' (st_sessions st))" using assms(1) by (intro tidy_join) (simp add: step_ok_def)
    then show ?thesis
      using False parse_meta_back [of "''sessions''" "join '', '' (st_sessions st)" ls steps ?s2] assms(1,3)
        sessions_back [OF _ False]
      by (simp add: meta_line_def apply_meta_def step_ok_def)
  next
    case True
    then have "?s2\<lparr>st_sessions := st_sessions st\<rparr> = ?s2" using assms(3) by (cases s0) simp
    with True show ?thesis by simp
  qed
  finally have "parse_lines (?c @ ?a @ ?e @ ls) (steps @ [s0]) = parse_lines ls (steps @ [?s2\<lparr>st_sessions := st_sessions st\<rparr>])" .
  moreover have "done_lines st = ?c @ ?a @ ?e" using assms(2) by (simp add: done_lines_def)
  ultimately show ?thesis by (simp only: append_assoc)
qed

lemma same_fields:
  "st_covers s = None \<Longrightarrow> s\<lparr>st_covers := None\<rparr> = s" "st_verify s = None \<Longrightarrow> s\<lparr>st_verify := None\<rparr> = s"
  "st_scope s = None \<Longrightarrow> s\<lparr>st_scope := None\<rparr> = s" "st_depends s = None \<Longrightarrow> s\<lparr>st_depends := None\<rparr> = s"
  by (cases s, simp)+

lemma parse_plan_back:
  assumes "step_ok st" "st_covers s0 = None" "st_verify s0 = None" "st_scope s0 = None" "st_depends s0 = None"
  shows "parse_lines (plan_lines st @ ls) (steps @ [s0]) =
    parse_lines ls (steps @ [s0\<lparr>st_covers := st_covers st, st_verify := st_verify st, st_scope := st_scope st, st_depends := st_depends st\<rparr>])"
proof -
  have c: "parse_lines (opt_line ''  - covers: '' (\<lambda>ns. render_numbers ns ''AC'') (st_covers st) @ ls) (steps @ [s]) =
      parse_lines ls (steps @ [s\<lparr>st_covers := st_covers st\<rparr>])" if "st_covers s = None" for s ls
    using that assms(1) by (subst parse_opt_back [where key = "''covers''" and upd = "\<lambda>v. s\<lparr>st_covers := Some v\<rparr>"])
      (auto simp: meta_line_def apply_meta_def step_ok_def parse_numbers_back tidy_numbers same_fields split: option.split)
  have v: "parse_lines (opt_line ''  - verify: '' render_verification (st_verify st) @ ls) (steps @ [s]) =
      parse_lines ls (steps @ [s\<lparr>st_verify := st_verify st\<rparr>])" if "st_verify s = None" for s ls
    using that assms(1) by (subst parse_opt_back [where key = "''verify''" and upd = "\<lambda>v. s\<lparr>st_verify := Some v\<rparr>"])
      (auto simp: meta_line_def apply_meta_def step_ok_def parse_verification_back tidy_verification same_fields split: option.split)
  have o: "parse_lines (opt_line ''  - scope: '' render_scope (st_scope st) @ ls) (steps @ [s]) =
      parse_lines ls (steps @ [s\<lparr>st_scope := st_scope st\<rparr>])" if "st_scope s = None" for s ls
    using that assms(1) by (subst parse_opt_back [where key = "''scope''" and upd = "\<lambda>v. s\<lparr>st_scope := Some v\<rparr>"])
      (auto simp: meta_line_def apply_meta_def step_ok_def parse_scope_back tidy_scope same_fields split: option.split)
  have d: "parse_lines (opt_line ''  - depends: '' (\<lambda>ns. render_numbers ns []) (st_depends st) @ ls) (steps @ [s]) =
      parse_lines ls (steps @ [s\<lparr>st_depends := st_depends st\<rparr>])" if "st_depends s = None" for s ls
    using that assms(1) by (subst parse_opt_back [where key = "''depends''" and upd = "\<lambda>v. s\<lparr>st_depends := Some v\<rparr>"])
      (auto simp: meta_line_def apply_meta_def step_ok_def parse_numbers_back tidy_numbers same_fields split: option.split)
  show ?thesis
    unfolding plan_lines_def append_assoc by (simp add: c v o d assms(2-5))
qed

lemma parse_title_back:
  assumes "step_ok st" "st_number st \<notin> st_number ` set steps"
  shows "parse_lines (step_title st # ls) steps =
    parse_lines ls (steps @ [step_new (st_number st) (st_description st) (st_done st)])"
proof -
  let ?body = "show_nat (st_number st) @ ''. '' @ st_description st"
  have split: "split_once_str (a @ ''. '' @ b) ''. '' = Some (a, b)" if "CHR ''.'' \<notin> set a" for a b
    using that by (induction a) (auto simp: prefix_def)
  have "CHR ''.'' \<notin> set (show_nat (st_number st))" using digit_not [OF show_nat_chars] by blast
  note split [OF this, of "st_description st"]
  moreover have "parse_uint u64_max (show_nat (st_number st)) = Some (st_number st)"
    using assms(1) by (intro parse_uint_show_nat) (simp add: step_ok_def)
  ultimately have "parse_step_line (step_title st) = Inr (Some (step_new (st_number st) (st_description st) (st_done st)))"
    using assms(1) by (simp add: parse_step_line_def step_title_def strip_prefix_def step_ok_def)
  moreover have "trim_start (step_title st) = step_title st" by (simp add: step_title_def is_whitespace_def)
  ultimately show ?thesis using assms(2) by (simp add: parse_lines.simps(2) step_new_def)
qed

lemma parse_step_back:
  assumes "step_ok st" "st_number st \<notin> st_number ` set steps"
  shows "parse_lines (step_lines st @ ls) steps = parse_lines ls (steps @ [st])"
proof -
  let ?s0 = "step_new (st_number st) (st_description st) (st_done st)"
  let ?s1 = "?s0\<lparr>st_commit := st_commit st, st_attempts := st_attempts st, st_sessions := st_sessions st\<rparr>"
  have "parse_lines (done_lines st @ plan_lines st @ ls) (steps @ [?s0]) = parse_lines (plan_lines st @ ls) (steps @ [?s1])"
  proof (cases "st_done st")
    case True
    then show ?thesis by (intro parse_done_back assms(1)) (simp_all add: step_new_def)
  next
    case False
    then have "?s1 = ?s0" using assms(1) by (simp add: step_ok_def step_new_def)
    with False show ?thesis by (simp add: done_lines_def)
  qed
  also have "\<dots> = parse_lines ls (steps @ [?s1\<lparr>st_covers := st_covers st, st_verify := st_verify st, st_scope := st_scope st, st_depends := st_depends st\<rparr>])"
    by (intro parse_plan_back assms(1)) (simp_all add: step_new_def)
  also have "?s1\<lparr>st_covers := st_covers st, st_verify := st_verify st, st_scope := st_scope st, st_depends := st_depends st\<rparr> = st"
    by (cases st) (simp add: step_new_def)
  finally show ?thesis using parse_title_back [OF assms] by (simp add: step_lines_def)
qed

lemma parse_steps_back:
  "\<forall>st \<in> set later. step_ok st \<Longrightarrow> distinct (map st_number (steps @ later)) \<Longrightarrow>
     parse_lines (concat (map step_lines later)) steps = Inr (steps @ later)"
proof (induction later arbitrary: steps)
  case (Cons st later)
  then show ?case using parse_step_back [of st steps "concat (map step_lines later)"] Cons.IH [of "steps @ [st]"] by auto
qed simp

section \<open>The document\<close>

definition progress_ok :: "progress_doc \<Rightarrow> bool" where
  "progress_ok p \<longleftrightarrow>
     tidy (pg_name p) \<and> pg_name p \<noteq> [] \<and> tidy (pg_branch p) \<and> pg_branch p \<noteq> [] \<and>
     (\<forall>b \<in> set_option (pg_brief_binding p). tidy b \<and> b \<noteq> []) \<and>
     (\<forall>st \<in> set (pg_steps p). step_ok st) \<and> distinct (map st_number (pg_steps p))"

lemma opt_line_on_line:
  "l \<in> set (opt_line p f x) \<Longrightarrow> on_a_line p \<Longrightarrow> (\<And>v. x = Some v \<Longrightarrow> tidy (f v)) \<Longrightarrow> on_a_line l"
  by (cases x) (auto simp: opt_line_def tidy_def)

lemma step_lines_on_line:
  assumes "step_ok st" "l \<in> set (step_lines st)"
  shows "on_a_line l"
proof -
  have line: "tidy s \<Longrightarrow> on_a_line s" for s by (simp add: tidy_def)
  have s: "tidy (join '', '' (st_sessions st))" using assms(1) by (intro tidy_join) (simp add: step_ok_def)
  consider "l = step_title st" | "l \<in> set (done_lines st)" | "l \<in> set (plan_lines st)"
    using assms(2) by (auto simp: step_lines_def)
  then show ?thesis
  proof cases
    case 1
    then show ?thesis using assms(1) line [of "st_description st"] line [OF tidy_show_nat]
      by (simp add: step_title_def step_ok_def)
  next
    case 2
    then consider "l \<in> set (opt_line ''  - commit: '' id (st_commit st))" | "l = ''  - attempts: '' @ show_nat (st_attempts st)"
      | "l = ''  - sessions: '' @ join '', '' (st_sessions st)"
      by (auto simp: done_lines_def split: if_splits)
    then show ?thesis
      by cases (use assms(1) line [OF tidy_show_nat] line [OF s] in \<open>auto simp: step_ok_def elim!: opt_line_on_line\<close>)
  next
    case 3
    then show ?thesis using assms(1)
      by (auto simp: plan_lines_def step_ok_def tidy_numbers tidy_verification tidy_scope elim!: opt_line_on_line)
  qed
qed

lemma header_titles:
  assumes "progress_ok p"
  shows "title_line ''# Progress:'' (header_lines p @ ls) = Some (pg_name p)"
    and "title_line ''Branch:'' (header_lines p @ ls) = Some (pg_branch p)"
    and "header_bindings (header_lines p @ ls) = (case pg_brief_binding p of None \<Rightarrow> [] | Some b \<Rightarrow> [b])"
    and "parse_lines (header_lines p @ ls) [] = parse_lines ls []"
proof -
  have n: "trim (''# Progress: '' @ pg_name p) = ''# Progress: '' @ pg_name p"
    and b: "trim (''Branch: '' @ pg_branch p) = ''Branch: '' @ pg_branch p"
    using assms by (intro trim_labelled; simp add: progress_ok_def is_whitespace_def)+
  have r: "trim (''Brief: '' @ s) = ''Brief: '' @ s \<and> trim s = s" if "pg_brief_binding p = Some s" for s
    using that assms trim_labelled [of s "''Brief: ''"] by (simp add: progress_ok_def is_whitespace_def)
  have t: "trim (pg_name p) = pg_name p" "trim (pg_branch p) = pg_branch p" using assms by (simp_all add: progress_ok_def)
  show "title_line ''# Progress:'' (header_lines p @ ls) = Some (pg_name p)"
    using n t by (simp add: header_lines_def strip_prefix_def)
  show "title_line ''Branch:'' (header_lines p @ ls) = Some (pg_branch p)"
    using n b t by (simp add: header_lines_def strip_prefix_def)
  have e: "trim [] = []" by (simp add: trim_def trim_matches_def)
  have w: "\<not> is_whitespace (CHR ''#'')" "\<not> is_whitespace (CHR ''B'')" by (simp_all add: is_whitespace_def)
  show "header_bindings (header_lines p @ ls) = (case pg_brief_binding p of None \<Rightarrow> [] | Some b \<Rightarrow> [b])"
    using n b r w e by (simp add: header_bindings_def header_lines_def opt_line_def strip_prefix_def List.map_filter_simps
        trim_start_id [of "[]"] split: option.split)
  show "parse_lines (header_lines p @ ls) [] = parse_lines ls []"
    using w by (simp add: header_lines_def opt_line_def parse_lines.simps(2) parse_step_line_def parse_meta_line_def strip_prefix_def
        trim_start_id [of "[]"] split: option.split)
qed

lemma document_lines:
  assumes "progress_ok p" and h: "\<And>l. l \<in> set (header_lines p) \<Longrightarrow> on_a_line l"
  shows "\<forall>l \<in> set (header_lines p @ concat (map step_lines (pg_steps p))). on_a_line l"
proof
  fix l assume "l \<in> set (header_lines p @ concat (map step_lines (pg_steps p)))"
  then consider "l \<in> set (header_lines p)" | st where "st \<in> set (pg_steps p)" "l \<in> set (step_lines st)" by auto
  then show "on_a_line l"
  proof cases
    case 2
    with assms(1) have "step_ok st" by (simp add: progress_ok_def)
    then show ?thesis using 2(2) by (rule step_lines_on_line)
  qed (rule h)
qed

lemma progress_reads_back:
  assumes "progress_ok p"
  shows "progress_parse (progress_render p) = Inr p"
proof -
  let ?ls = "header_lines p @ concat (map step_lines (pg_steps p))"
  have "list_all on_a_line (header_lines p)"
    using assms by (simp add: header_lines_def opt_line_def progress_ok_def tidy_def on_a_line_def split: option.split)
  then have "on_a_line l" if "l \<in> set (header_lines p)" for l
    using that by (simp add: list_all_iff)
  then have lines: "\<forall>l \<in> set ?ls. on_a_line l" by (intro document_lines assms)
  note head = header_titles [OF assms, of "concat (map step_lines (pg_steps p))"]
  have "parse_lines ?ls [] = Inr (pg_steps p)"
    unfolding head(4) using assms parse_steps_back [of "pg_steps p" "[]"] by (simp add: progress_ok_def)
  then show ?thesis
    using assms head(1-3) by (cases "pg_brief_binding p")
      (simp_all add: progress_parse_def progress_render_def crlf_to_lf_unlines [OF lines] str_lines_unlines [OF lines]
        title_after_def progress_ok_def Let_def)
qed

text \<open>
  C37. A plan document reads back exactly as it was written: name, branch,
  binding, and every step with its number, description, completion record, criteria, verification, scope
  and dependencies; what is unknown stays unknown. The hypothesis \<open>progress_ok\<close>: every text stays on its line, without white
  space at its ends, and name, branch and binding are not empty; the steps' numbers differ and all numbers are in range;
  criteria and dependencies are from 1 up and not repeated; a session id has no comma, a
  verification command does not begin as the mark for none does, and a scope is one that the reader accepts; and a step that is not done
  has no commit, attempts or sessions, which are not written (\<open>open_step_loses_its_record\<close>).
\<close>

theorem plan_document_round_trips:
  assumes "progress_ok p"
  shows "progress_parse (progress_render p) = Inr p"
  using assms by (rule progress_reads_back)

definition demo_progress :: progress_doc where
  "demo_progress =
     \<lparr>pg_name = ''parser'', pg_branch = ''feature/p'', pg_brief_binding = Some ''r1'',
      pg_steps =
        [(step_new 1 ''read: lines'' True)\<lparr>st_commit := Some ''abc'', st_attempts := 2, st_sessions := [''s1'', ''s2''],
           st_covers := Some [1, 3], st_verify := Some (Verify_command ''cargo test'')\<rparr>,
         (step_new 12 ''docs'' False)\<lparr>st_covers := Some [], st_verify := Some (Verify_none ''prose''), st_depends := Some [1],
           st_scope := Some \<lparr>ws_files = 1, ws_regions = 2, ws_decisions = 1, ws_changed_lines = 40\<rparr>\<rparr>]\<rparr>"

theorem plan_document_round_trips_witness:
  "progress_parse (progress_render demo_progress) = Inr demo_progress"
proof -
  have "progress_ok demo_progress"
    by (simp add: progress_ok_def demo_progress_def step_ok_def step_new_def tidy_def is_whitespace_def numbered_ok_def
        verify_ok_def scope_ok_def u64_max_def u32_max_def strip_none_prefix_def eq_ignore_ascii_case_def to_ascii_lowercase_def is_ascii_upper_def)
  then show ?thesis by (rule plan_document_round_trips)
qed

text \<open>What a step that is not completed has on record of commits, attempts and sessions is not written.\<close>

lemma open_step_loses_its_record:
  "\<not> st_done st \<Longrightarrow> step_lines (st\<lparr>st_commit := c, st_attempts := n, st_sessions := ss\<rparr>) = step_lines st"
  by (simp add: step_lines_def step_title_def done_lines_def plan_lines_def)

section \<open>Operations\<close>

lemma update_first_Some:
  "update_first_step P f xs = Some ys \<Longrightarrow> \<exists>a x b. xs = a @ x # b \<and> ys = a @ f x # b \<and> P x"
proof (induction xs arbitrary: ys)
  case (Cons x xs)
  show ?case
  proof (cases "P x")
    case True
    with Cons.prems show ?thesis by (intro exI [of _ "[]"]) auto
  next
    case False
    with Cons.prems obtain zs where "update_first_step P f xs = Some zs" "ys = x # zs" by auto
    with Cons.IH [of zs] obtain a y b where "xs = a @ y # b" "zs = a @ f y # b" "P y" by blast
    with \<open>ys = x # zs\<close> show ?thesis by (intro exI [of _ "x # a"]) auto
  qed
qed simp

lemma with_step_ok:
  assumes "progress_ok p" "\<And>st. step_ok st \<Longrightarrow> st \<in> set (pg_steps p) \<Longrightarrow> st_number st = n \<Longrightarrow> step_ok (f st) \<and> st_number (f st) = st_number st"
  shows "progress_ok (fst (with_step n f p))"
proof (cases "update_first_step (\<lambda>s. st_number s = n) f (pg_steps p)")
  case (Some ys)
  then obtain a x b where "pg_steps p = a @ x # b" "ys = a @ f x # b" "st_number x = n" using update_first_Some by blast
  with assms Some show ?thesis by (auto simp: with_step_def progress_ok_def)
qed (use assms in \<open>simp add: with_step_def\<close>)

lemma above_all: "x \<in> set xs \<Longrightarrow> (x :: nat) \<le> foldr max xs 0"
  by (induction xs) auto

text \<open>Every operation on the plan leaves a plan that reads back.\<close>

lemma operations_keep_the_plan:
  assumes ok: "progress_ok p"
  shows "tidy r \<Longrightarrow> r \<noteq> [] \<Longrightarrow> progress_ok (bind_to_brief r p)"
    and "tidy d \<Longrightarrow> \<forall>st \<in> set (pg_steps p). st_number st < u64_max \<Longrightarrow> progress_ok (fst (append_step d p))"
    and "\<forall>c \<in> set_option commit. tidy c \<Longrightarrow> k \<le> u32_max \<Longrightarrow> progress_ok (fst (mark_complete n commit k p))"
    and "\<forall>x \<in> set ss. tidy x \<and> x \<noteq> [] \<and> CHR '','' \<notin> set x \<Longrightarrow> step_is_done p n \<Longrightarrow> progress_ok (fst (record_sessions n ss p))"
proof -
  show "tidy r \<Longrightarrow> r \<noteq> [] \<Longrightarrow> progress_ok (bind_to_brief r p)" using ok by (simp add: bind_to_brief_def progress_ok_def)
  show "\<forall>c \<in> set_option commit. tidy c \<Longrightarrow> k \<le> u32_max \<Longrightarrow> progress_ok (fst (mark_complete n commit k p))"
    unfolding mark_complete_def by (rule with_step_ok [OF ok]) (auto simp: step_ok_def)
  show "progress_ok (fst (record_sessions n ss p))" if "\<forall>x \<in> set ss. tidy x \<and> x \<noteq> [] \<and> CHR '','' \<notin> set x" "step_is_done p n"
    unfolding record_sessions_def
  proof (rule with_step_ok [OF ok])
    fix st
    assume st: "step_ok st" "st \<in> set (pg_steps p)" "st_number st = n"
    with that(2) ok have "st_done st"
      by (auto simp: step_is_done_def list_ex_iff progress_ok_def distinct_map inj_on_def)
    with st(1) that(1) show "step_ok (st\<lparr>st_sessions := ss\<rparr>) \<and> st_number (st\<lparr>st_sessions := ss\<rparr>) = st_number st"
      by (simp add: step_ok_def)
  qed
  show "progress_ok (fst (append_step d p))" if "tidy d" "\<forall>st \<in> set (pg_steps p). st_number st < u64_max"
  proof -
    let ?m = "foldr max (map st_number (pg_steps p)) 0"
    have "foldr max xs (0 :: nat) < u64_max" if "\<forall>x \<in> set xs. x < u64_max" for xs
      using that by (induction xs) (auto simp: u64_max_def)
    then have m: "?m < u64_max" using that(2) by simp
    then have "(?m + 1) mod 2 ^ 64 = ?m + 1" by (simp add: u64_max_def)
    moreover have "?m + 1 \<notin> st_number ` set (pg_steps p)"
      using above_all [of _ "map st_number (pg_steps p)"] by fastforce
    moreover have "step_ok (step_new (?m + 1) d False)" using m that(1) by (simp add: step_ok_def step_new_def)
    moreover have "st_number (step_new (?m + 1) d False) = ?m + 1" by (simp add: step_new_def)
    ultimately show ?thesis using ok by (simp add: append_step_def progress_ok_def)
  qed
qed

end
