(* ===== verification/Plan_Spec.thy ===== *)
theory Plan_Spec
  imports Plan_Reconcile Progress_Spec
begin

text \<open>What a replan keeps of the plan it replaces, and what an approved plan is.\<close>

section \<open>Lists of results, positions and slots\<close>

lemma lefts_none: "lefts xs = [] \<longleftrightarrow> (\<forall>x \<in> set xs. \<exists>y. x = Inr y)"
  by (induction xs rule: lefts.induct) auto

lemma rights_map: "(\<And>x. x \<in> set xs \<Longrightarrow> f x = Inr (g x)) \<Longrightarrow> rights (map f xs) = map g xs"
  by (induction xs) auto

lemma indices_single: "indices_of P xs = [i] \<longleftrightarrow> i < length xs \<and> P (xs ! i) \<and> (\<forall>j < length xs. P (xs ! j) \<longrightarrow> j = i)"
proof
  assume e: "indices_of P xs = [i]"
  then have s: "set (indices_of P xs) = {i}" by simp
  then show "i < length xs \<and> P (xs ! i) \<and> (\<forall>j < length xs. P (xs ! j) \<longrightarrow> j = i)"
    by (auto simp: indices_of_def set_eq_iff)
next
  assume u: "i < length xs \<and> P (xs ! i) \<and> (\<forall>j < length xs. P (xs ! j) \<longrightarrow> j = i)"
  have d: "distinct (indices_of P xs)" by (simp add: indices_of_def)
  have "set (indices_of P xs) = {i}" using u by (auto simp: indices_of_def)
  with d have "length (indices_of P xs) = 1" by (metis card.empty card_insert_disjoint distinct_card empty_iff finite.emptyI One_nat_def)
  then obtain k where "indices_of P xs = [k]" by (auto simp: length_Suc_conv)
  with \<open>set (indices_of P xs) = {i}\<close> show "indices_of P xs = [i]" by simp
qed

lemma position_find: "length ks = length xs \<Longrightarrow> map_option ((!) ks) (position P xs) = map_option snd (find (\<lambda>(x, k). P x) (zip xs ks))"
proof (induction xs ks rule: list_induct2')
  case (4 x xs k ks)
  have "indices_of P (x # xs) = (if P x then [0] else []) @ map Suc (indices_of P xs)"
    by (simp add: indices_of_def upt_conv_Cons filter_map o_def del: upt_Suc flip: map_Suc_upt)
  with 4 show ?case
    by (cases "indices_of P xs") (auto simp: position_def)
qed (auto simp: position_def indices_of_def)

lemma position_number:
  assumes "distinct (map f xs)"
  shows "(case position (\<lambda>x. f x = n) xs of None \<Rightarrow> n | Some i \<Rightarrow> map f xs ! i) = n"
proof (cases "indices_of (\<lambda>x. f x = n) xs")
  case (Cons i js)
  then have "i \<in> set (indices_of (\<lambda>x. f x = n) xs)" by simp
  then have "i < length xs" "f (xs ! i) = n" by (auto simp: indices_of_def)
  with Cons show ?thesis by (simp add: position_def)
qed (simp add: position_def)

lemma number_slots_length [simp]: "length (number_slots xs n) = length xs"
  by (induction xs n rule: number_slots.induct) auto

lemma number_slots_nth:
  "i < length xs \<Longrightarrow> n + length xs < 2 ^ 64 \<Longrightarrow>
   number_slots xs n ! i = (case xs ! i of Some k \<Rightarrow> k | None \<Rightarrow> n + length (filter (\<lambda>x. x = None) (take i xs)))"
proof (induction xs n arbitrary: i rule: number_slots.induct)
  case (2 k xs n)
  then show ?case by (cases i) (auto split: option.split)
next
  case (3 xs n)
  then show ?case by (cases i) (auto split: option.split)
qed simp

lemma fold_slots:
  "distinct (map fst cs) \<Longrightarrow> \<forall>x \<in> set cs. fst x < length slots \<Longrightarrow>
   length (fold (\<lambda>(i, c) slots. slots[i := Some (g c)]) cs slots) = length slots \<and>
   (\<forall>(i, c) \<in> set cs. fold (\<lambda>(i, c) slots. slots[i := Some (g c)]) cs slots ! i = Some (g c)) \<and>
   (\<forall>i < length slots. i \<notin> fst ` set cs \<longrightarrow> fold (\<lambda>(i, c) slots. slots[i := Some (g c)]) cs slots ! i = slots ! i)"
proof (induction cs arbitrary: slots)
  case (Cons x cs)
  obtain j c where x: "x = (j, c)" by (cases x)
  have j: "j < length slots" "j \<notin> fst ` set cs" using Cons.prems x by auto
  with Cons.IH [of "slots[j := Some (g c)]"] Cons.prems x show ?case by (auto simp: nth_list_update)
qed simp

section \<open>A draft that matches the finished work\<close>

abbreviation finished :: "progress_doc \<Rightarrow> doc_step list" where
  "finished p \<equiv> filter st_done (pg_steps p)"

abbreviation work_of :: "doc_step \<Rightarrow> string" where
  "work_of s \<equiv> step_identity (st_description s)"

definition counterpart :: "progress_doc \<Rightarrow> doc_step \<Rightarrow> nat" where
  "counterpart new c = hd (indices_of (same_work (work_of c)) (pg_steps new))"

definition carried_into :: "progress_doc \<Rightarrow> progress_doc \<Rightarrow> (nat \<times> doc_step) list" where
  "carried_into old new = map (\<lambda>c. (counterpart new c, c)) (finished old)"

definition matches :: "progress_doc \<Rightarrow> progress_doc \<Rightarrow> string \<Rightarrow> bool" where
  "matches old new revision \<longleftrightarrow>
     (\<forall>c \<in> set (finished old).
        length (filter (\<lambda>s. st_done s \<and> same_work (work_of c) s) (pg_steps old)) \<le> 1 \<and>
        indices_of (same_work (work_of c)) (pg_steps new) = [counterpart new c] \<and>
        credit_problem c (pg_steps new ! counterpart new c) (unverifiable_of old revision) = None)"

lemma settle_matches:
  "(\<exists>y. settle_completed old new u c = Inr y) \<longleftrightarrow>
     length (filter (\<lambda>s. st_done s \<and> same_work (work_of c) s) (pg_steps old)) \<le> 1 \<and>
     indices_of (same_work (work_of c)) (pg_steps new) = [counterpart new c] \<and>
     credit_problem c (pg_steps new ! counterpart new c) u = None"
  "settle_completed old new u c = Inr y \<Longrightarrow> y = (counterpart new c, c)"
  by (auto simp: settle_completed_def counterpart_def Let_def split: list.splits option.splits if_splits)

lemma reconcile_iff:
  "reconcile old new revision = Inr p \<longleftrightarrow>
     matches old new revision \<and> p = assemble old new (carried_into old new) \<and> check_order p = []"
proof -
  let ?f = "settle_completed old new (unverifiable_of old revision)"
  have "lefts (map ?f (finished old)) = [] \<longleftrightarrow> matches old new revision"
    unfolding lefts_none matches_def settle_matches(1) [of old new "unverifiable_of old revision", symmetric] by auto
  moreover have "rights (map ?f (finished old)) = carried_into old new" if "matches old new revision"
    unfolding carried_into_def
  proof (rule rights_map)
    fix c assume "c \<in> set (finished old)"
    with that have "\<exists>y. ?f c = Inr y" unfolding matches_def settle_matches(1) by blast
    then show "?f c = Inr (counterpart new c, c)" using settle_matches(2) by blast
  qed
  ultimately show ?thesis by (auto simp: reconcile_def Let_def)
qed

text \<open>Everything a draft that matches gives: the facts the two properties share.\<close>

lemma finished_distinct:
  assumes "matches old new revision"
  shows "distinct (map work_of (finished old))"
proof -
  have "distinct (map work_of (filter st_done ss))"
    if "\<forall>c \<in> set (filter st_done ss). length (filter (\<lambda>s. st_done s \<and> same_work (work_of c) s) ss) \<le> 1" for ss
    using that
  proof (induction ss)
    case (Cons s ss)
    have "\<forall>c \<in> set (filter st_done ss). length (filter (\<lambda>s. st_done s \<and> same_work (work_of c) s) ss) \<le> 1"
      using Cons.prems by (auto split: if_splits)
    moreover have "work_of s \<notin> work_of ` set (filter st_done ss)" if "st_done s"
    proof
      assume "work_of s \<in> work_of ` set (filter st_done ss)"
      then have "filter (\<lambda>x. st_done x \<and> same_work (work_of s) x) ss \<noteq> []" by (auto simp: filter_empty_conv same_work_def)
      with Cons.prems that show False by (simp add: same_work_def)
    qed
    ultimately show ?case using Cons.IH by auto
  qed simp
  with assms show ?thesis by (simp add: matches_def)
qed

lemma counterpart_facts:
  assumes "matches old new revision" "c \<in> set (finished old)"
  shows "counterpart new c < length (pg_steps new)" "work_of (pg_steps new ! counterpart new c) = work_of c"
    "j < length (pg_steps new) \<Longrightarrow> work_of (pg_steps new ! j) = work_of c \<Longrightarrow> j = counterpart new c"
proof -
  have "indices_of (same_work (work_of c)) (pg_steps new) = [counterpart new c]"
    using assms by (simp add: matches_def)
  then show "counterpart new c < length (pg_steps new)" "work_of (pg_steps new ! counterpart new c) = work_of c"
    "j < length (pg_steps new) \<Longrightarrow> work_of (pg_steps new ! j) = work_of c \<Longrightarrow> j = counterpart new c"
    by (simp_all add: indices_single same_work_def)
qed

lemma carried_indices:
  assumes "matches old new revision"
  shows "distinct (map fst (carried_into old new))"
    "i < length (pg_steps new) \<Longrightarrow> i \<in> set (map fst (carried_into old new)) \<longleftrightarrow> work_of (pg_steps new ! i) \<in> work_of ` set (finished old)"
proof -
  have w: "map (\<lambda>c. work_of (pg_steps new ! counterpart new c)) (finished old) = map work_of (finished old)"
    using counterpart_facts(2) [OF assms] by (intro map_cong) auto
  have "distinct (map (\<lambda>i. work_of (pg_steps new ! i)) (map (counterpart new) (finished old)))"
    using finished_distinct [OF assms] by (simp only: map_map o_def w)
  then have "distinct (map (counterpart new) (finished old))" unfolding distinct_map [of "\<lambda>i. work_of (pg_steps new ! i)"] by blast
  then show "distinct (map fst (carried_into old new))" by (simp add: carried_into_def o_def)
  show "i < length (pg_steps new) \<Longrightarrow> i \<in> set (map fst (carried_into old new)) \<longleftrightarrow> work_of (pg_steps new ! i) \<in> work_of ` set (finished old)"
    using counterpart_facts [OF assms] by (auto simp: carried_into_def image_iff)
qed

section \<open>The numbers of the new plan\<close>

definition top_number :: "progress_doc \<Rightarrow> nat" where
  "top_number old = foldr max (map st_number (finished old)) 0"

definition numbers_fit :: "progress_doc \<Rightarrow> progress_doc \<Rightarrow> bool" where
  "numbers_fit old new \<longleftrightarrow> top_number old + 1 + length (pg_steps new) < 2 ^ 64"

definition numbers_for :: "progress_doc \<Rightarrow> progress_doc \<Rightarrow> nat list" where
  "numbers_for old new = final_numbers (length (pg_steps new)) (carried_into old new)"

text \<open>The draft steps that are not carried, by index.\<close>

definition remaining :: "progress_doc \<Rightarrow> progress_doc \<Rightarrow> nat list" where
  "remaining old new = filter (\<lambda>i. i \<notin> set (map fst (carried_into old new))) [0..<length (pg_steps new)]"

lemma foldr_max_ge: "x \<in> set xs \<Longrightarrow> x \<le> foldr max xs (0 :: nat)"
  by (induction xs) auto

lemma filter_take_upt: "i \<le> length xs \<Longrightarrow> length (filter P (take i xs)) = length (filter (\<lambda>j. P (xs ! j)) [0..<i])"
proof (induction i)
  case (Suc i)
  then have "take (Suc i) xs = take i xs @ [xs ! i]" by (simp add: take_Suc_conv_app_nth)
  with Suc show ?case by simp
qed simp

lemma numbers_for_facts:
  assumes m: "matches old new revision" and fit: "numbers_fit old new"
  shows "length (numbers_for old new) = length (pg_steps new)"
    "c \<in> set (finished old) \<Longrightarrow> numbers_for old new ! counterpart new c = st_number c"
    "i \<in> set (remaining old new) \<Longrightarrow>
       numbers_for old new ! i = top_number old + 1 + length (filter (\<lambda>j. j \<in> set (remaining old new)) [0..<i])"
proof -
  let ?n = "length (pg_steps new)" and ?cs = "carried_into old new"
  define slots where "slots = fold (\<lambda>(i, c) slots. slots[i := Some (st_number c)]) ?cs (replicate ?n None)"
  have range: "\<forall>x \<in> set ?cs. fst x < length (replicate ?n (None :: nat option))"
    using counterpart_facts(1) [OF m] by (auto simp: carried_into_def)
  note slots_facts = fold_slots [OF carried_indices(1) [OF m] range, of st_number, folded slots_def]
  have len: "length slots = ?n" using slots_facts by simp
  have carried: "slots ! counterpart new c = Some (st_number c)" if "c \<in> set (finished old)" for c
    using slots_facts that by (auto simp: carried_into_def)
  have none: "slots ! j = None \<longleftrightarrow> j \<notin> set (map fst ?cs)" if "j < ?n" for j
  proof
    assume "slots ! j = None"
    with carried show "j \<notin> set (map fst ?cs)" by (auto simp: carried_into_def)
  next
    assume "j \<notin> set (map fst ?cs)"
    with slots_facts that show "slots ! j = None" by simp
  qed
  have top: "foldr max (map (st_number \<circ> snd) ?cs) 0 = top_number old" by (simp add: carried_into_def top_number_def o_def)
  have start: "(top_number old + 1) mod 2 ^ 64 = top_number old + 1" using fit by (simp add: numbers_fit_def)
  have nums: "numbers_for old new = number_slots slots (top_number old + 1)"
    unfolding numbers_for_def final_numbers_def top start slots_def ..
  have nth: "numbers_for old new ! i =
      (case slots ! i of Some k \<Rightarrow> k | None \<Rightarrow> top_number old + 1 + length (filter (\<lambda>x. x = None) (take i slots)))" if "i < ?n" for i
    unfolding nums using that len fit by (intro number_slots_nth) (simp_all add: numbers_fit_def)
  show "length (numbers_for old new) = ?n" by (simp add: nums len)
  show "numbers_for old new ! counterpart new c = st_number c" if "c \<in> set (finished old)"
    using nth [OF counterpart_facts(1) [OF m that]] carried [OF that] by simp
  show "numbers_for old new ! i = top_number old + 1 + length (filter (\<lambda>j. j \<in> set (remaining old new)) [0..<i])"
    if i: "i \<in> set (remaining old new)"
  proof -
    have "i < ?n" "slots ! i = None" using i none by (auto simp: remaining_def)
    moreover have "filter (\<lambda>j. slots ! j = None) [0..<i] = filter (\<lambda>j. j \<in> set (remaining old new)) [0..<i]"
      using \<open>i < ?n\<close> none by (intro filter_cong) (auto simp: remaining_def)
    ultimately show ?thesis using nth [of i] filter_take_upt [of i slots "\<lambda>x. x = None"] len by simp
  qed
qed

lemma ranks: "map (\<lambda>i. length (filter Q [0..<i])) (filter Q [0..<n]) = [0..<length (filter Q [0..<n])]"
  by (induction n) simp_all

lemma shifted_upt: "map ((+) k) [0..<n] = [k..<k + n]"
  by (induction n) simp_all

lemma map_filter_all: "\<forall>x \<in> set xs. f x = Some (g x) \<Longrightarrow> List.map_filter f xs = map g xs"
  by (induction xs) (simp_all add: List.map_filter_simps)

lemma remaining_numbers:
  assumes "matches old new revision" "numbers_fit old new"
  shows "map ((!) (numbers_for old new)) (remaining old new) = [top_number old + 1..<top_number old + 1 + length (remaining old new)]"
proof -
  let ?Q = "\<lambda>j. j \<in> set (remaining old new)" and ?n = "length (pg_steps new)"
  have r: "remaining old new = filter ?Q [0..<?n]" by (auto simp: remaining_def intro: filter_cong)
  have "map ((!) (numbers_for old new)) (remaining old new) =
      map (\<lambda>i. top_number old + 1 + length (filter ?Q [0..<i])) (remaining old new)"
    using numbers_for_facts(3) [OF assms] by (intro map_cong refl)
  also have "\<dots> = map ((+) (top_number old + 1)) (map (\<lambda>i. length (filter ?Q [0..<i])) (filter ?Q [0..<?n]))"
    by (subst r) (simp add: o_def)
  also have "\<dots> = map ((+) (top_number old + 1)) [0..<length (remaining old new)]"
    by (subst ranks) (simp only: r [symmetric])
  also have "\<dots> = [top_number old + 1..<top_number old + 1 + length (remaining old new)]"
    by (rule shifted_upt)
  finally show ?thesis .
qed

section \<open>The plan that is put together\<close>

definition kept_step :: "progress_doc \<Rightarrow> progress_doc \<Rightarrow> doc_step \<Rightarrow> doc_step" where
  "kept_step old new c =
     c\<lparr>st_covers := st_covers (pg_steps new ! counterpart new c),
       st_depends := map_option (renumber_old old new (carried_into old new) (numbers_for old new)) (st_depends c)\<rparr>"

lemma find_the_one:
  assumes "distinct (map f xs)" "x \<in> set xs"
  shows "find (\<lambda>y. f y = f x) xs = Some x"
  using assms by (induction xs) auto

lemma assemble_steps:
  assumes "distinct (map st_number (pg_steps old))"
  shows "pg_steps (assemble old new (carried_into old new)) =
    map (kept_step old new) (finished old) @ map (future_step new (numbers_for old new)) (remaining old new)"
proof -
  have d: "distinct (map (st_number \<circ> snd) (carried_into old new))"
    using assms by (simp add: carried_into_def o_def distinct_map_filter)
  have "history_step old new (carried_into old new) (numbers_for old new) c = Some (kept_step old new c)"
    if c: "c \<in> set (finished old)" for c
  proof -
    have "(counterpart new c, c) \<in> set (carried_into old new)" using c by (auto simp: carried_into_def)
    from find_the_one [OF d this]
    have "find (\<lambda>x. st_number (snd x) = st_number c) (carried_into old new) = Some (counterpart new c, c)" by simp
    moreover have "st_done c" using c by simp
    ultimately show ?thesis by (simp add: history_step_def kept_step_def)
  qed
  then have "List.map_filter (history_step old new (carried_into old new) (numbers_for old new)) (finished old) =
      map (kept_step old new) (finished old)"
    by (intro map_filter_all ballI)
  then show ?thesis
    by (simp add: assemble_def Let_def numbers_for_def [symmetric] remaining_def)
qed

lemma assemble_fields:
  "pg_name (assemble old new cs) = pg_name new" "pg_branch (assemble old new cs) = pg_branch old"
  "pg_brief_binding (assemble old new cs) = pg_brief_binding new"
  by (simp_all add: assemble_def Let_def)

text \<open>The plan's numbers: the finished steps' own, and those after the highest of them.\<close>

lemma assembled_numbers:
  assumes "matches old new revision" "numbers_fit old new" "distinct (map st_number (pg_steps old))"
    and p: "p = assemble old new (carried_into old new)"
  shows "map st_number (pg_steps p) =
      map st_number (finished old) @ [top_number old + 1..<top_number old + 1 + length (remaining old new)]"
    and "distinct (map st_number (pg_steps p))"
proof -
  have "map st_number (map (future_step new (numbers_for old new)) (remaining old new)) = map ((!) (numbers_for old new)) (remaining old new)"
    by (simp add: future_step_def Let_def)
  then show e: "map st_number (pg_steps p) =
      map st_number (finished old) @ [top_number old + 1..<top_number old + 1 + length (remaining old new)]"
    unfolding p assemble_steps [OF assms(3)] map_append remaining_numbers [OF assms(1,2)] by (simp add: kept_step_def)
  have "distinct (map st_number (finished old))" using assms(3) by (rule distinct_map_filter)
  moreover have "\<forall>k \<in> set (map st_number (finished old)). k \<le> top_number old" by (auto simp: top_number_def intro: foldr_max_ge)
  ultimately show "distinct (map st_number (pg_steps p))" unfolding e by fastforce
qed

section \<open>Finished work is kept\<close>

text \<open>What is past of a step, and what a draft decides of one: all but its number and how it names the others.\<close>

definition past_of :: "doc_step \<Rightarrow> doc_step" where
  "past_of s = s\<lparr>st_covers := None, st_depends := None\<rparr>"

definition drafted :: "doc_step \<Rightarrow> doc_step" where
  "drafted s = s\<lparr>st_number := 0, st_depends := None\<rparr>"

lemma check_order_none:
  "check_order p = [] \<longleftrightarrow>
     (\<forall>s \<in> set (finished p). \<forall>ds. st_depends s = Some ds \<longrightarrow>
        (\<forall>d \<in> set ds. d \<notin> set (map st_number (filter (\<lambda>x. \<not> st_done x) (pg_steps p)))))"
  by (auto simp: check_order_def Let_def filter_empty_conv split: option.splits)

lemma kept_credit:
  assumes "matches old new revision" "c \<in> set (finished old)"
  shows "set (covers_or_none (kept_step old new c)) \<subseteq>
    (if pg_brief_binding old = Some revision then set (covers_or_none c) else {})"
proof -
  have "credit_problem c (pg_steps new ! counterpart new c) (unverifiable_of old revision) = None"
    using assms by (simp add: matches_def)
  then show ?thesis
    by (auto simp: credit_problem_def covers_or_none_def kept_step_def unverifiable_of_def Let_def list_all_iff
        split: option.splits if_splits)
qed

lemma reconciled_past:
  assumes "reconcile old new revision = Inr p" "distinct (map st_number (pg_steps old))"
  shows "map past_of (take (length (finished old)) (pg_steps p)) = map past_of (finished old)"
proof -
  have "pg_steps p = map (kept_step old new) (finished old) @ map (future_step new (numbers_for old new)) (remaining old new)"
    using assms(1) assemble_steps [OF assms(2)] unfolding reconcile_iff by simp
  then show ?thesis by (simp add: past_of_def kept_step_def)
qed

text \<open>
  C7. A replan that is accepted keeps what is finished: its first steps are the finished steps of the plan it
  replaces, in their order and each with its number, wording, commit, attempts, sessions, check and scope; each is credited with
  no criterion that it was not credited with before, and with none when the brief is another one. The other steps are those
  of the draft that are no finished work, in the draft's order and as drafted but for their numbers and dependencies. No two steps
  share a number, and no finished step depends on one that is not. The hypotheses are that the old plan's numbers
  differ, as in every document that was read, and that counting on stays within 64 bits.
\<close>

theorem replan_keeps_finished_work:
  assumes ok: "reconcile old new revision = Inr p"
    and distinct_numbers: "distinct (map st_number (pg_steps old))" and fit: "numbers_fit old new"
  defines "n \<equiv> length (finished old)"
  shows "map past_of (take n (pg_steps p)) = map past_of (finished old) \<and>
    (\<forall>k < n. set (covers_or_none (pg_steps p ! k)) \<subseteq>
       (if pg_brief_binding old = Some revision then set (covers_or_none (finished old ! k)) else {})) \<and>
    map drafted (drop n (pg_steps p)) =
      map drafted (filter (\<lambda>s. work_of s \<notin> work_of ` set (finished old)) (pg_steps new)) \<and>
    distinct (map st_number (pg_steps p)) \<and>
    (\<forall>s \<in> set (pg_steps p). st_done s \<longrightarrow> (\<forall>ds. st_depends s = Some ds \<longrightarrow>
       (\<forall>d \<in> set ds. \<forall>x \<in> set (pg_steps p). \<not> st_done x \<longrightarrow> st_number x \<noteq> d)))"
proof -
  from ok have m: "matches old new revision" and p: "p = assemble old new (carried_into old new)" and o: "check_order p = []"
    unfolding reconcile_iff by blast+
  have steps: "pg_steps p = map (kept_step old new) (finished old) @ map (future_step new (numbers_for old new)) (remaining old new)"
    unfolding p by (rule assemble_steps [OF distinct_numbers])
  have "map past_of (take n (pg_steps p)) = map past_of (finished old)"
    unfolding n_def by (rule reconciled_past [OF ok distinct_numbers])
  moreover have "\<forall>k < n. set (covers_or_none (pg_steps p ! k)) \<subseteq>
      (if pg_brief_binding old = Some revision then set (covers_or_none (finished old ! k)) else {})"
    using kept_credit [OF m nth_mem] by (simp add: steps n_def nth_append)
  moreover have "map drafted (drop n (pg_steps p)) =
      map drafted (filter (\<lambda>s. work_of s \<notin> work_of ` set (finished old)) (pg_steps new))"
  proof -
    have "map drafted (drop n (pg_steps p)) = map (\<lambda>i. drafted (pg_steps new ! i)) (remaining old new)"
      by (simp add: steps n_def o_def future_step_def drafted_def Let_def)
    also have "remaining old new = filter (\<lambda>i. work_of (pg_steps new ! i) \<notin> work_of ` set (finished old)) [0..<length (pg_steps new)]"
      unfolding remaining_def using carried_indices(2) [OF m] by (intro filter_cong) auto
    also have "map (\<lambda>i. drafted (pg_steps new ! i)) \<dots> =
        map drafted (filter (\<lambda>s. work_of s \<notin> work_of ` set (finished old)) (map ((!) (pg_steps new)) [0..<length (pg_steps new)]))"
      by (simp add: filter_map o_def)
    finally show ?thesis by (simp only: map_nth)
  qed
  moreover have "distinct (map st_number (pg_steps p))" by (rule assembled_numbers(2) [OF m fit distinct_numbers p])
  moreover have "\<forall>s \<in> set (pg_steps p). st_done s \<longrightarrow> (\<forall>ds. st_depends s = Some ds \<longrightarrow>
      (\<forall>d \<in> set ds. \<forall>x \<in> set (pg_steps p). \<not> st_done x \<longrightarrow> st_number x \<noteq> d))"
    using o unfolding check_order_none by auto
  ultimately show ?thesis by blast
qed

section \<open>A plan that was reconciled is reconciled already\<close>

lemma find_append: "find P (xs @ ys) = (case find P xs of None \<Rightarrow> find P ys | Some x \<Rightarrow> Some x)"
  by (induction xs) auto

lemma find_map_conv: "find P (map f xs) = map_option f (find (\<lambda>x. P (f x)) xs)"
  by (induction xs) auto

lemma find_filtered: "(\<And>x. x \<in> set xs \<Longrightarrow> P x \<Longrightarrow> Q x) \<Longrightarrow> find P (filter Q xs) = find P xs"
  by (induction xs) auto

text \<open>Who has a piece of work in the draft has the same number in the plan that is put together.\<close>

lemma same_number_found:
  assumes m: "matches old new revision" and fit: "numbers_fit old new" and d: "distinct (map st_number (pg_steps old))"
    and p: "p = assemble old new (carried_into old new)"
  shows "map_option ((!) (map st_number (pg_steps p))) (position (same_work key) (pg_steps p)) =
    map_option ((!) (numbers_for old new)) (position (same_work key) (pg_steps new))"
proof -
  let ?P = "\<lambda>(x, k :: nat). same_work key x" and ?N = "numbers_for old new"
  have steps: "pg_steps p = map (kept_step old new) (finished old) @ map (future_step new ?N) (remaining old new)"
    unfolding p by (rule assemble_steps [OF d])
  let ?pairs = "zip (pg_steps new) ?N"
  have len: "length ?N = length (pg_steps new)" by (rule numbers_for_facts(1) [OF m fit])
  have pairs: "?pairs = map (\<lambda>i. (pg_steps new ! i, ?N ! i)) [0..<length (pg_steps new)]"
    using len by (intro nth_equalityI) simp_all
  have rhs: "map_option ((!) ?N) (position (same_work key) (pg_steps new)) = map_option snd (find ?P ?pairs)"
    by (rule position_find [OF len])
  have lhs: "map_option ((!) (map st_number (pg_steps p))) (position (same_work key) (pg_steps p)) =
      map_option snd (find ?P (zip (pg_steps p) (map st_number (pg_steps p))))"
    by (rule position_find) simp
  have zp: "zip (pg_steps p) (map st_number (pg_steps p)) =
      map (\<lambda>c. (kept_step old new c, st_number c)) (finished old) @
      map (\<lambda>i. (future_step new ?N i, ?N ! i)) (remaining old new)"
    unfolding zip_map2 steps by (simp add: zip_same_conv_map kept_step_def future_step_def Let_def)
  have works: "same_work key (kept_step old new c) \<longleftrightarrow> work_of c = key"
    "same_work key (future_step new ?N i) \<longleftrightarrow> same_work key (pg_steps new ! i)" for c i
    by (simp_all add: same_work_def kept_step_def future_step_def Let_def)
  show ?thesis
  proof (cases "\<exists>c \<in> set (finished old). work_of c = key")
    case True
    then obtain c where c: "c \<in> set (finished old)" "work_of c = key" by blast
    have "find (\<lambda>x. work_of x = work_of c) (finished old) = Some c"
      by (rule find_the_one [OF finished_distinct [OF m] c(1)])
    then have l: "map_option snd (find ?P (zip (pg_steps p) (map st_number (pg_steps p)))) = Some (st_number c)"
      unfolding zp find_append find_map_conv prod.case works c(2) by simp
    have "indices_of (same_work (work_of c)) (pg_steps new) = [counterpart new c]" using m c(1) by (simp add: matches_def)
    then have "position (same_work key) (pg_steps new) = Some (counterpart new c)" by (simp add: position_def c(2))
    with l show ?thesis unfolding lhs by (simp add: numbers_for_facts(2) [OF m fit c(1)])
  next
    case False
    then have none: "find (\<lambda>x. work_of x = key) (finished old) = None" by (simp add: find_None_iff)
    have "find (\<lambda>i. same_work key (pg_steps new ! i)) (remaining old new) =
        find (\<lambda>i. same_work key (pg_steps new ! i)) [0..<length (pg_steps new)]"
      unfolding remaining_def
    proof (rule find_filtered)
      fix i assume "i \<in> set [0..<length (pg_steps new)]" "same_work key (pg_steps new ! i)"
      with False carried_indices(2) [OF m, of i] show "i \<notin> set (map fst (carried_into old new))"
        by (auto simp: same_work_def)
    qed
    then show ?thesis
      unfolding lhs rhs zp pairs find_append find_map_conv prod.case works none by (simp add: option.map_comp o_def)
  qed
qed

text \<open>The first plan of the two: as many steps as the draft, the finished ones in front.\<close>

lemma remaining_length:
  assumes "matches old new revision"
  shows "length (finished old) + length (remaining old new) = length (pg_steps new)"
proof -
  let ?S = "set (map fst (carried_into old new))" and ?xs = "[0..<length (pg_steps new)]"
  have sub: "?S \<subseteq> set ?xs" using counterpart_facts(1) [OF assms] by (auto simp: carried_into_def)
  have "length (filter (\<lambda>i. i \<in> ?S) ?xs) = card (set (filter (\<lambda>i. i \<in> ?S) ?xs))"
    by (rule distinct_card [symmetric]) simp
  also have "set (filter (\<lambda>i. i \<in> ?S) ?xs) = ?S" using sub by auto
  also have "card ?S = length (finished old)"
    using distinct_card [OF carried_indices(1) [OF assms]] by (simp add: carried_into_def)
  finally show ?thesis using sum_length_filter_compl [of "\<lambda>i. i \<in> ?S" ?xs] by (simp add: remaining_def)
qed

lemma matches_again:
  assumes m: "matches old new revision" and d: "distinct (map st_number (pg_steps old))"
    and p: "p = assemble old new (carried_into old new)"
  shows "matches old p revision" and "k < length (finished old) \<Longrightarrow> counterpart p (finished old ! k) = k"
proof -
  let ?D = "finished old" and ?F = "map (future_step new (numbers_for old new)) (remaining old new)"
  have steps: "pg_steps p = map (kept_step old new) ?D @ ?F" unfolding p by (rule assemble_steps [OF d])
  have single: "indices_of (same_work (work_of (?D ! k))) (pg_steps p) = [k]" if k: "k < length ?D" for k
    unfolding indices_single
  proof (intro conjI allI impI)
    show "k < length (pg_steps p)" "same_work (work_of (?D ! k)) (pg_steps p ! k)"
      using k by (simp_all add: steps nth_append same_work_def kept_step_def)
    fix j assume j: "j < length (pg_steps p)" "same_work (work_of (?D ! k)) (pg_steps p ! j)"
    show "j = k"
    proof (cases "j < length ?D")
      case True
      with j have "map work_of ?D ! j = map work_of ?D ! k" using k by (simp add: steps nth_append same_work_def kept_step_def)
      with True k show ?thesis using nth_eq_iff_index_eq [OF finished_distinct [OF m], of j k] by simp
    next
      case False
      define i where "i = remaining old new ! (j - length ?D)"
      have i: "i \<in> set (remaining old new)" using False j(1) by (auto simp: i_def steps)
      have "pg_steps p ! j = future_step new (numbers_for old new) i" using False j(1) by (simp add: steps nth_append i_def)
      with j(2) have "work_of (pg_steps new ! i) = work_of (?D ! k)" by (simp add: same_work_def future_step_def Let_def)
      with k have "work_of (pg_steps new ! i) \<in> work_of ` set ?D" by (metis imageI nth_mem)
      with i carried_indices(2) [OF m, of i] show ?thesis by (simp add: remaining_def)
    qed
  qed
  show at: "counterpart p (?D ! k) = k" if "k < length ?D" for k
    using single [OF that] by (simp add: counterpart_def)
  show "matches old p revision"
    unfolding matches_def
  proof
    fix c assume c: "c \<in> set ?D"
    then obtain k where k: "k < length ?D" "c = ?D ! k" by (metis in_set_conv_nth)
    have "pg_steps p ! k = kept_step old new c" using k by (simp add: steps nth_append)
    then have "credit_problem c (pg_steps p ! k) u = credit_problem c (pg_steps new ! counterpart new c) u" for u
      by (simp add: credit_problem_def covers_or_none_def kept_step_def)
    with m c single [OF k(1)] at [OF k(1)] k(2)
    show "length (filter (\<lambda>s. st_done s \<and> same_work (work_of c) s) (pg_steps old)) \<le> 1 \<and>
        indices_of (same_work (work_of c)) (pg_steps p) = [counterpart p c] \<and>
        credit_problem c (pg_steps p ! counterpart p c) (unverifiable_of old revision) = None"
      by (simp add: matches_def)
  qed
qed

lemma upt_filter_ge: "filter (\<lambda>i. n \<le> i) [0..<m] = [n..<m]"
  by (induction m) auto

lemma numbers_again:
  assumes m: "matches old new revision" and fit: "numbers_fit old new" and d: "distinct (map st_number (pg_steps old))"
    and p: "p = assemble old new (carried_into old new)"
  shows "remaining old p = [length (finished old)..<length (pg_steps p)]"
    and "numbers_for old p = map st_number (pg_steps p)" and "numbers_fit old p"
proof -
  let ?D = "finished old" and ?n = "length (finished old)"
  note m' = matches_again(1) [OF m d p] and at = matches_again(2) [OF m d p]
  have len: "length (pg_steps p) = length (pg_steps new)"
    unfolding p assemble_steps [OF d] using remaining_length [OF m] by simp
  with fit show fit': "numbers_fit old p" by (simp add: numbers_fit_def)
  have "map fst (carried_into old p) = map (\<lambda>k. counterpart p (?D ! k)) [0..<?n]"
    unfolding carried_into_def by (intro nth_equalityI) simp_all
  also have "\<dots> = map (\<lambda>k. k) [0..<?n]" using at by (intro map_cong refl) simp
  finally have carried: "map fst (carried_into old p) = [0..<?n]" by simp
  show rem: "remaining old p = [?n..<length (pg_steps p)]"
    unfolding remaining_def carried by (simp add: not_less upt_filter_ge)
  have nums: "map st_number (pg_steps p) = map st_number ?D @ [top_number old + 1..<top_number old + 1 + length (remaining old new)]"
    by (rule assembled_numbers(1) [OF m fit d p])
  show "numbers_for old p = map st_number (pg_steps p)"
  proof (rule nth_equalityI)
    show "length (numbers_for old p) = length (map st_number (pg_steps p))" using numbers_for_facts(1) [OF m' fit'] by simp
    fix i assume "i < length (numbers_for old p)"
    then have i: "i < length (pg_steps p)" using numbers_for_facts(1) [OF m' fit'] by simp
    show "numbers_for old p ! i = map st_number (pg_steps p) ! i"
    proof (cases "i < ?n")
      case True
      have "?D ! i \<in> set ?D" using True by (rule nth_mem)
      from numbers_for_facts(2) [OF m' fit' this] True show ?thesis unfolding nums at [OF True] by (simp add: nth_append)
    next
      case False
      then have "i \<in> set (remaining old p)" using i by (simp add: rem)
      from numbers_for_facts(3) [OF m' fit' this]
      have "numbers_for old p ! i = top_number old + 1 + length (filter (\<lambda>j. j \<in> set (remaining old p)) [0..<i])" .
      moreover have "filter (\<lambda>j. j \<in> set (remaining old p)) [0..<i] = filter (\<lambda>j. ?n \<le> j) [0..<i]"
        using i by (intro filter_cong) (auto simp: rem)
      moreover have "i - ?n < length (remaining old new)" using i False len remaining_length [OF m] by linarith
      moreover from this have "[top_number old + 1..<top_number old + 1 + length (remaining old new)] ! (i - ?n) = top_number old + 1 + (i - ?n)"
        by (intro nth_upt) simp
      ultimately show ?thesis unfolding nums using False by (simp add: nth_append upt_filter_ge del: upt_Suc)
    qed
  qed
qed

lemma kept_again:
  assumes m: "matches old new revision" and fit: "numbers_fit old new" and d: "distinct (map st_number (pg_steps old))"
    and p: "p = assemble old new (carried_into old new)" and k: "k < length (finished old)"
  shows "kept_step old p (finished old ! k) = pg_steps p ! k"
proof -
  let ?c = "finished old ! k"
  have pk: "pg_steps p ! k = kept_step old new ?c" using k unfolding p assemble_steps [OF d] by (simp add: nth_append)
  have "renumber_one_old old p (carried_into old p) (numbers_for old p) n =
      renumber_one_old old new (carried_into old new) (numbers_for old new) n" for n
    using same_number_found [OF m fit d p]
    by (simp add: renumber_one_old_def numbers_again(2) [OF m fit d p] carried_into_def o_def split: option.split)
  then have "renumber_one_old old p (carried_into old p) (numbers_for old p) = renumber_one_old old new (carried_into old new) (numbers_for old new)"
    by (rule ext)
  then have "renumber_old old p (carried_into old p) (numbers_for old p) = renumber_old old new (carried_into old new) (numbers_for old new)"
    unfolding renumber_old_def by (simp only:)
  then show ?thesis
    using matches_again(2) [OF m d p k] pk by (simp add: kept_step_def)
qed

lemma future_again:
  assumes m: "matches old new revision" and fit: "numbers_fit old new" and d: "distinct (map st_number (pg_steps old))"
    and p: "p = assemble old new (carried_into old new)" and i: "i < length (pg_steps p)"
  shows "future_step p (numbers_for old p) i = pg_steps p ! i"
proof -
  have "renumber_draft p (map st_number (pg_steps p)) ns = ns" for ns
    using position_number [OF assembled_numbers(2) [OF m fit d p]] by (simp add: renumber_draft_def map_idI)
  then have "renumber_draft p (map st_number (pg_steps p)) = id" by (simp add: fun_eq_iff)
  then show ?thesis using i by (simp add: future_step_def numbers_again(2) [OF m fit d p] Let_def option.map_id)
qed

text \<open>
  Reconciling is settled by being done once: a plan it accepted, taken as a draft again, is accepted and comes back as it is.
  Approval relies on that: it reconciles the draft it is given with the plan on disk and refuses whatever is changed by it,
  so a reviewed draft is never refused for having been reconciled before the review.
\<close>

theorem reconciled_plans_are_stable:
  assumes ok: "reconcile old new revision = Inr p"
    and d: "distinct (map st_number (pg_steps old))" and fit: "numbers_fit old new"
  shows "reconcile old p revision = Inr p"
proof -
  from ok have m: "matches old new revision" and p: "p = assemble old new (carried_into old new)" and o: "check_order p = []"
    unfolding reconcile_iff by blast+
  let ?D = "finished old" and ?n = "length (finished old)"
  have "length ?D \<le> length (pg_steps p)" unfolding p assemble_steps [OF d] by simp
  have "pg_steps (assemble old p (carried_into old p)) =
      map (kept_step old p) ?D @ map (future_step p (numbers_for old p)) [?n..<length (pg_steps p)]"
    unfolding assemble_steps [OF d] numbers_again(1) [OF m fit d p] ..
  also have "map (kept_step old p) ?D = map ((!) (pg_steps p)) [0..<?n]"
    using kept_again [OF m fit d p] by (intro nth_equalityI) simp_all
  also have "map (future_step p (numbers_for old p)) [?n..<length (pg_steps p)] = map ((!) (pg_steps p)) [?n..<length (pg_steps p)]"
    using future_again [OF m fit d p] by (intro map_cong) auto
  also have "map ((!) (pg_steps p)) [0..<?n] @ \<dots> = pg_steps p"
    using \<open>length ?D \<le> length (pg_steps p)\<close> unfolding map_append [symmetric]
    by (metis upt_add_eq_append le_add_diff_inverse map_nth zero_le)
  finally have steps: "pg_steps (assemble old p (carried_into old p)) = pg_steps p" .
  have "pg_branch p = pg_branch old" unfolding p by (rule assemble_fields)
  then have "assemble old p (carried_into old p) = p"
    by (intro progress_doc.equality) (simp_all add: steps assemble_fields)
  with matches_again(1) [OF m d p] o show ?thesis unfolding reconcile_iff by simp
qed

section \<open>What an approval writes\<close>

lemma apply_meta_number: "apply_meta key v s = Inr t \<Longrightarrow> st_number t = st_number s"
  by (auto simp: apply_meta_def map_sum_def split: if_splits option.splits sum.splits)

lemma parse_lines_distinct:
  "parse_lines ls steps = Inr out \<Longrightarrow> distinct (map st_number steps) \<Longrightarrow> distinct (map st_number out)"
proof (induction ls steps rule: parse_lines.induct)
  case (2 l ls steps)
  have again: "map st_number (butlast steps @ [t]) = map st_number steps" if "steps \<noteq> []" "st_number t = st_number (last steps)" for t
    using that by (cases steps rule: rev_cases) auto
  from "2.prems" consider (step) st where "parse_step_line (trim_start l) = Inr (Some st)" "st_number st \<notin> st_number ` set steps"
        "parse_lines ls (steps @ [st]) = Inr out"
    | (skip) "parse_step_line (trim_start l) = Inr None" "parse_meta_line (trim_start l) = None \<or> steps = []" "parse_lines ls steps = Inr out"
    | (meta) key v st where "parse_step_line (trim_start l) = Inr None" "parse_meta_line (trim_start l) = Some (key, v)" "steps \<noteq> []"
        "apply_meta key v (last steps) = Inr st" "parse_lines ls (butlast steps @ [st]) = Inr out"
    by (simp add: Let_def split: sum.splits option.splits if_splits prod.splits)
  then show ?case
  proof cases
    case step
    with "2.IH"(4) "2.prems"(2) show ?thesis by simp
  next
    case skip
    with "2.IH"(1,2) "2.prems"(2) show ?thesis
      by (cases "parse_meta_line (trim_start l)") auto
  next
    case meta
    from again [OF meta(3) apply_meta_number [OF meta(4)]] "2.prems"(2) have "distinct (map st_number (butlast steps @ [st]))" by simp
    with "2.IH"(3) meta show ?thesis by simp
  qed
qed simp

lemma parsed_numbers_differ: "progress_parse doc = Inr p \<Longrightarrow> distinct (map st_number (pg_steps p))"
  by (auto simp: progress_parse_def map_sum_def Let_def split: option.splits if_splits sum.splits dest!: parse_lines_distinct)

lemma no_depends_defects:
  assumes "depends_defects numbers s = []" "st_depends s = Some ds" "d \<in> set ds"
  shows "d < st_number s \<and> d \<in> set numbers"
proof -
  from assms have "(if d \<notin> set numbers then [UnknownDependency (st_number s) d]
      else if d \<ge> st_number s then [ForwardDependency (st_number s) d] else []) = []"
    unfolding depends_defects_def concat_eq_Nil_conv by (simp only: option.case set_map ball_simps(9))
  then show ?thesis by (simp split: if_splits)
qed

lemma validated_plan:
  assumes "validate_for_approval p b = Inr ()"
  shows "\<forall>i < length (br_acceptance_criteria b). \<exists>s \<in> set (pg_steps p). i + 1 \<in> set (covers_or_none s)"
    "\<forall>s \<in> set (pg_steps p). \<forall>ds. st_depends s = Some ds \<longrightarrow> (\<forall>d \<in> set ds. d < st_number s \<and> d \<in> st_number ` set (pg_steps p))"
    "\<forall>s \<in> set (pg_steps p). \<not> st_done s \<longrightarrow> st_covers s \<noteq> None \<and> st_verify s \<noteq> None \<and> st_depends s \<noteq> None"
proof -
  have none: "check_metadata s = [] \<and> depends_defects (map st_number (pg_steps p)) s = []" if "s \<in> set (pg_steps p)" for s
    using assms that by (auto simp: validate_for_approval_def Let_def split: if_splits)
  have "orphans_of p (br_acceptance_criteria b) = []"
    using assms by (auto simp: validate_for_approval_def Let_def split: if_splits)
  then have owned: "\<forall>i \<in> {0..<length (br_acceptance_criteria b)}.
      (if list_ex (\<lambda>s. i + 1 \<in> set (covers_or_none s)) (pg_steps p) then [] else [OrphanCriterion (i + 1) (br_acceptance_criteria b ! i)]) = []"
    unfolding orphans_of_def concat_eq_Nil_conv set_map set_upt by (simp only: ball_simps)
  show "\<forall>i < length (br_acceptance_criteria b). \<exists>s \<in> set (pg_steps p). i + 1 \<in> set (covers_or_none s)"
  proof (intro allI impI)
    fix i assume "i < length (br_acceptance_criteria b)"
    with owned have "(if list_ex (\<lambda>s. i + 1 \<in> set (covers_or_none s)) (pg_steps p) then [] else [OrphanCriterion (i + 1) (br_acceptance_criteria b ! i)]) = []"
      by simp
    then show "\<exists>s \<in> set (pg_steps p). i + 1 \<in> set (covers_or_none s)" by (simp add: list_ex_iff split: if_splits)
  qed
  show "\<forall>s \<in> set (pg_steps p). \<forall>ds. st_depends s = Some ds \<longrightarrow> (\<forall>d \<in> set ds. d < st_number s \<and> d \<in> st_number ` set (pg_steps p))"
  proof (intro ballI allI impI)
    fix s ds d assume s: "s \<in> set (pg_steps p)" "st_depends s = Some ds" "d \<in> set ds"
    with none [OF s(1)] no_depends_defects [OF _ s(2,3), of "map st_number (pg_steps p)"]
    show "d < st_number s \<and> d \<in> st_number ` set (pg_steps p)" by simp
  qed
  show "\<forall>s \<in> set (pg_steps p). \<not> st_done s \<longrightarrow> st_covers s \<noteq> None \<and> st_verify s \<noteq> None \<and> st_depends s \<noteq> None"
  proof (intro ballI impI)
    fix s assume "s \<in> set (pg_steps p)" "\<not> st_done s"
    then show "st_covers s \<noteq> None \<and> st_verify s \<noteq> None \<and> st_depends s \<noteq> None"
      using none [of s] by (simp add: check_metadata_def split: if_splits)
  qed
qed

lemma persisted_plan:
  assumes "persist_approved_plan sha brief_file progress_file write_ok d b expected = Inr doc"
  shows "pd_revision d = brief_revision sha b" "read_saved progress_file = Inr expected" "history_kept expected d"
    "validate_for_approval (pd_progress d) b = Inr ()" "doc = progress_render (bind_to_brief (pd_revision d) (pd_progress d))"
    "\<exists>current. read_brief brief_file = Inr current \<and> brief_revision sha current = brief_revision sha b"
  using assms by (auto simp: persist_approved_plan_def split: if_splits sum.splits)

text \<open>
  When an approval succeeds, the document that is on disk reads back as the approved draft, bound to the brief as it
  is on disk; every acceptance criterion of the brief is owned by a step, every dependency names an earlier step, and
  every step that is to be done says what it covers, how it is verified and what it depends on. Its first steps are
  the finished steps of the plan that was on disk, with the same number, wording, commit, attempts, sessions, check and scope, and
  every step that it calls finished is on record there as finished. The hypothesis is that the draft's fields stay on their lines.
\<close>

theorem approved_plan_is_what_resumes:
  assumes ok: "persist_approved_plan sha256_hex brief_file progress_file write_ok d b expected = Inr doc"
    and printable: "progress_ok (bind_to_brief (pd_revision d) (pd_progress d))"
  shows "\<exists>p. progress_parse doc = Inr p \<and> p = bind_to_brief (brief_revision sha256_hex b) (pd_progress d) \<and>
    (\<exists>current. read_brief brief_file = Inr current \<and> pg_brief_binding p = Some (brief_revision sha256_hex current)) \<and>
    (\<forall>i < length (br_acceptance_criteria b). \<exists>s \<in> set (pg_steps p). i + 1 \<in> set (covers_or_none s)) \<and>
    (\<forall>s \<in> set (pg_steps p). \<forall>ds. st_depends s = Some ds \<longrightarrow> (\<forall>x \<in> set ds. x < st_number s \<and> x \<in> st_number ` set (pg_steps p))) \<and>
    (\<forall>s \<in> set (pg_steps p). \<not> st_done s \<longrightarrow> st_covers s \<noteq> None \<and> st_verify s \<noteq> None \<and> st_depends s \<noteq> None) \<and>
    (\<forall>old. expected = Some old \<longrightarrow>
       map past_of (take (length (finished old)) (pg_steps p)) = map past_of (finished old)) \<and>
    (\<forall>s \<in> set (pg_steps p). st_done s \<longrightarrow> recorded_in expected s)"
proof -
  note f = persisted_plan [OF ok]
  define p where "p = bind_to_brief (pd_revision d) (pd_progress d)"
  have steps: "pg_steps p = pg_steps (pd_progress d)" and binding: "pg_brief_binding p = Some (pd_revision d)"
    by (simp_all add: p_def bind_to_brief_def)
  have again: "progress_parse doc = Inr p" unfolding f(5) p_def by (rule progress_reads_back [OF printable])
  have past: "map past_of (take (length (finished old)) (pg_steps p)) = map past_of (finished old)" if e: "expected = Some old" for old
  proof (cases "finished old = []")
    case False
    then have "list_ex st_done (pg_steps old)" by (auto simp: list_ex_iff filter_empty_conv)
    with f(3) e have r: "reconcile old (pd_progress d) (pd_revision d) = Inr (pd_progress d)" by (simp add: history_kept_def)
    have "distinct (map st_number (pg_steps old))"
      using f(2) e by (auto simp: read_saved_def split: read_answer.splits sum.splits dest: parsed_numbers_differ)
    from reconciled_past [OF r this] show ?thesis by (simp only: steps)
  qed simp
  have recorded: "\<forall>s \<in> set (pg_steps p). st_done s \<longrightarrow> recorded_in expected s"
    using f(3) by (simp add: history_kept_def list_all_iff steps)
  note v = validated_plan [OF f(4), folded steps]
  from f(6) f(1) binding have current: "\<exists>current. read_brief brief_file = Inr current \<and> pg_brief_binding p = Some (brief_revision sha256_hex current)"
    by auto
  show ?thesis
    by (rule exI [of _ p]) (use again current v past recorded f(1) in \<open>simp add: p_def\<close>)
qed

section \<open>Instances\<close>

definition demo_old :: "string \<Rightarrow> progress_doc" where
  "demo_old r =
     \<lparr>pg_name = ''n'', pg_branch = ''b'', pg_brief_binding = Some r,
      pg_steps =
        [(step_new 4 ''x'' True)\<lparr>st_commit := Some ''c'', st_covers := Some [1], st_verify := Some (Verify_command ''t''), st_depends := Some []\<rparr>,
         step_new 6 ''y'' False]\<rparr>"

definition demo_draft :: "string \<Rightarrow> progress_doc" where
  "demo_draft r =
     \<lparr>pg_name = ''n'', pg_branch = ''b'', pg_brief_binding = Some r,
      pg_steps =
        [(step_new 1 ''z'' False)\<lparr>st_covers := Some [1], st_verify := Some (Verify_none ''p''), st_depends := Some []\<rparr>,
         (step_new 2 '' X'' False)\<lparr>st_covers := Some [1]\<rparr>,
         (step_new 3 ''w'' False)\<lparr>st_covers := Some [], st_verify := Some (Verify_none ''p''), st_depends := Some [2, 1]\<rparr>]\<rparr>"

definition demo_replanned :: "string \<Rightarrow> progress_doc" where
  "demo_replanned r =
     \<lparr>pg_name = ''n'', pg_branch = ''b'', pg_brief_binding = Some r,
      pg_steps =
        [(step_new 4 ''x'' True)\<lparr>st_commit := Some ''c'', st_covers := Some [1], st_verify := Some (Verify_command ''t''), st_depends := Some []\<rparr>,
         (step_new 5 ''z'' False)\<lparr>st_covers := Some [1], st_verify := Some (Verify_none ''p''), st_depends := Some []\<rparr>,
         (step_new 6 ''w'' False)\<lparr>st_covers := Some [], st_verify := Some (Verify_none ''p''), st_depends := Some [4, 5]\<rparr>]\<rparr>"

lemmas demo_docs = demo_old_def demo_draft_def demo_replanned_def step_new_def

lemma demo_names [simp]:
  "step_identity ''x'' = ''x''" "step_identity ''y'' = ''y''" "step_identity ''z'' = ''z''" "step_identity ''w'' = ''w''"
  "step_identity '' X'' = ''x''"
  by code_simp+

lemmas demo_settle = settle_completed_def unverifiable_of_def same_work_def indices_of_def upt_rec_numeral credit_problem_def covers_or_none_def
lemmas demo_assemble = history_step_def future_step_def renumber_draft_def renumber_old_def position_def indices_of_def upt_rec_numeral
  List.map_filter_def

lemma demo_replan: "reconcile (demo_old r) (demo_draft r) r = Inr (demo_replanned r)"
proof -
  have s: "map (settle_completed (demo_old r) (demo_draft r) (unverifiable_of (demo_old r) r)) (filter st_done (pg_steps (demo_old r))) =
      [Inr (1, hd (pg_steps (demo_old r)))]"
    by (simp add: demo_settle demo_docs)
  have f: "final_numbers (length (pg_steps (demo_draft r))) [(1, hd (pg_steps (demo_old r)))] = [5, 4, 6]"
    by (simp add: final_numbers_def demo_docs)
  have "assemble (demo_old r) (demo_draft r) [(1, hd (pg_steps (demo_old r)))] = demo_replanned r"
    unfolding assemble_def Let_def f by (simp add: demo_assemble demo_docs)
  moreover have "check_order (demo_replanned r) = []" by (simp add: check_order_def demo_docs)
  ultimately show ?thesis unfolding reconcile_def s by simp
qed

lemma demo_plan_stays: "reconcile (demo_old r) (demo_replanned r) r = Inr (demo_replanned r)"
proof -
  have s: "map (settle_completed (demo_old r) (demo_replanned r) (unverifiable_of (demo_old r) r)) (filter st_done (pg_steps (demo_old r))) =
      [Inr (0, hd (pg_steps (demo_old r)))]"
    by (simp add: demo_settle demo_docs)
  have f: "final_numbers (length (pg_steps (demo_replanned r))) [(0, hd (pg_steps (demo_old r)))] = [4, 5, 6]"
    by (simp add: final_numbers_def demo_docs)
  have "assemble (demo_old r) (demo_replanned r) [(0, hd (pg_steps (demo_old r)))] = demo_replanned r"
    unfolding assemble_def Let_def f by (simp add: demo_assemble demo_docs)
  moreover have "check_order (demo_replanned r) = []" by (simp add: check_order_def demo_docs)
  ultimately show ?thesis unfolding reconcile_def s by simp
qed

lemma demo_old_fits: "distinct (map st_number (pg_steps (demo_old r)))" "numbers_fit (demo_old r) (demo_draft r)"
  by (simp_all add: numbers_fit_def top_number_def demo_docs)

theorem replan_keeps_finished_work_witness:
  "map past_of (take 1 (pg_steps (demo_replanned ''r''))) = map past_of (finished (demo_old ''r'')) \<and>
   map drafted (drop 1 (pg_steps (demo_replanned ''r''))) =
     map drafted (filter (\<lambda>s. work_of s \<notin> work_of ` set (finished (demo_old ''r''))) (pg_steps (demo_draft ''r'')))"
proof -
  have "length (finished (demo_old ''r'')) = 1" by (simp add: demo_docs)
  with replan_keeps_finished_work [OF demo_replan [of "''r''"] demo_old_fits] show ?thesis by simp
qed

theorem reconciled_plans_are_stable_witness:
  "reconcile (demo_old ''r'') (demo_replanned ''r'') ''r'' = Inr (demo_replanned ''r'')"
  by (rule reconciled_plans_are_stable [OF demo_replan demo_old_fits])

definition demo_brief_text :: string where
  "demo_brief_text =
     join newline [''# Brief: n'', ''## Summary'', ''## Requirements'', ''- r'', ''## Constraints'', ''## Non-Goals'',
       ''## Acceptance Criteria'', ''- c'']"

lemma demo_brief_reads: "brief_parse demo_brief_text = Inr (demo_brief '''')"
  by code_simp

definition demo_revision :: string where
  "demo_revision = brief_revision demo_hash (demo_brief '''')"

lemma demo_revision_tidy: "tidy demo_revision" "demo_revision \<noteq> []"
  by (simp_all add: demo_revision_def brief_revision_def demo_hash_def TAG_V1_def tidy_def on_a_line_def is_whitespace_def newline_def)

lemmas demo_ok = progress_ok_def step_ok_def tidy_def is_whitespace_def numbered_ok_def verify_ok_def scope_ok_def u64_max_def u32_max_def
  strip_none_prefix_def eq_ignore_ascii_case_def to_ascii_lowercase_def is_ascii_upper_def

lemma demo_plans_ok: "progress_ok (demo_old demo_revision)" "progress_ok (demo_replanned demo_revision)"
  using demo_revision_tidy by (simp_all add: demo_ok demo_docs)

definition demo_approval :: plan_draft where
  "demo_approval =
     \<lparr>pd_progress = demo_replanned demo_revision, pd_revision = demo_revision, pd_repo_summary = [], pd_revisions = 0, pd_work_profile = None\<rparr>"

theorem approved_plan_is_what_resumes_witness:
  "progress_parse (progress_render (demo_replanned demo_revision)) = Inr (demo_replanned demo_revision) \<and>
   recorded_in (Some (demo_old demo_revision)) (hd (pg_steps (demo_replanned demo_revision)))"
proof -
  let ?old = "demo_old demo_revision" and ?plan = "demo_replanned demo_revision"
  have bound: "bind_to_brief demo_revision ?plan = ?plan" by (simp add: bind_to_brief_def demo_replanned_def)
  have saved: "read_saved (Read_text (progress_render ?old)) = Inr (Some ?old)"
    by (simp add: read_saved_def progress_reads_back [OF demo_plans_ok(1)])
  have kept: "history_kept (Some ?old) demo_approval"
    using demo_plan_stays [of demo_revision] by (simp add: history_kept_def demo_approval_def recorded_in_def demo_docs)
  have valid: "validate_for_approval ?plan (demo_brief '''') = Inr ()"
    by (simp add: validate_for_approval_def check_metadata_def covers_defects_def depends_defects_def orphans_of_def covers_or_none_def
        demo_docs demo_brief_def)
  have "persist_approved_plan demo_hash (Read_text demo_brief_text) (Read_text (progress_render ?old)) True demo_approval (demo_brief '''')
      (Some ?old) = Inr (progress_render ?plan)"
    using saved kept valid bound
    by (simp add: persist_approved_plan_def read_brief_def demo_brief_reads demo_revision_def [symmetric]) (simp add: demo_approval_def)
  from approved_plan_is_what_resumes [OF this] demo_plans_ok(2) bound show ?thesis
    by (simp add: demo_approval_def demo_revision_def [symmetric]) (simp add: demo_docs)
qed

section \<open>A dependency the draft invented\<close>

definition invented_old :: progress_doc where
  "invented_old =
     \<lparr>pg_name = ''n'', pg_branch = ''b'', pg_brief_binding = Some ''r'', pg_steps = [step_new 5 ''x'' True]\<rparr>"

definition invented_draft :: progress_doc where
  "invented_draft =
     \<lparr>pg_name = ''n'', pg_branch = ''b'', pg_brief_binding = Some ''r'',
      pg_steps = [step_new 1 ''x'' False, step_new 2 ''y'' False, (step_new 3 ''z'' False)\<lparr>st_depends := Some [6]\<rparr>]\<rparr>"

text \<open>No step of the draft has the number 6; in the plan that is made of it, the second has, and the third depends on that.\<close>

lemma invented_dependency_names_a_step:
  "reconcile invented_old invented_draft ''r'' =
     Inr (invented_draft\<lparr>pg_steps := [step_new 5 ''x'' True, step_new 6 ''y'' False, (step_new 7 ''z'' False)\<lparr>st_depends := Some [6]\<rparr>]\<rparr>)"
proof -
  note docs = invented_old_def invented_draft_def step_new_def
  have s: "map (settle_completed invented_old invented_draft (unverifiable_of invented_old ''r'')) (filter st_done (pg_steps invented_old)) =
      [Inr (0, step_new 5 ''x'' True)]"
    by (simp add: demo_settle docs)
  have f: "final_numbers (length (pg_steps invented_draft)) [(0, step_new 5 ''x'' True)] = [5, 6, 7]"
    by (simp add: final_numbers_def docs)
  define p where
    "p = invented_draft\<lparr>pg_steps := [step_new 5 ''x'' True, step_new 6 ''y'' False, (step_new 7 ''z'' False)\<lparr>st_depends := Some [6]\<rparr>]\<rparr>"
  have "assemble invented_old invented_draft [(0, step_new 5 ''x'' True)] = p"
    unfolding assemble_def Let_def f p_def by (simp add: demo_assemble docs)
  moreover have "check_order p = []" by (simp add: check_order_def docs p_def)
  ultimately show ?thesis unfolding reconcile_def s p_def [symmetric] by simp
qed

end
