(* ===== verification/Calendar.thy ===== *)
theory Calendar
  imports Doc_Str "HOL-Library.Signed_Division"
begin

text \<open>
  Dates and times on the wire: \<^verbatim>\<open>crates/localpilot-llm-core/src/headers.rs\<close>, which turns the dates of rate-limit headers
  into seconds, and the opposite conversion of \<^verbatim>\<open>crates/localpilot-harness/src/decisions.rs\<close>, which stamps entries. An
  \<open>i64\<close> is an integer kept in its range by \<open>i64\<close> wherever a result may leave it: that is the arithmetic of a
  release build. The compact durations of the headers are in floating point and are not modelled.
\<close>

section \<open>Numbers\<close>

definition i64 :: "int \<Rightarrow> int" where
  "i64 x = signed_take_bit 63 x"

definition in_i64 :: "int \<Rightarrow> bool" where
  "in_i64 x \<longleftrightarrow> - (2 ^ 63) \<le> x \<and> x < 2 ^ 63"

definition checked_i64 :: "int \<Rightarrow> int option" where
  "checked_i64 x = (if in_i64 x then Some x else None)"

definition parse_i64 :: "string \<Rightarrow> int option" where
  "parse_i64 s =
     (case s of
        [] \<Rightarrow> None
      | c # t \<Rightarrow>
          let ds = (if c = CHR ''-'' \<or> c = CHR ''+'' then t else s);
              v = (if c = CHR ''-'' then - int (digits_val ds) else int (digits_val ds))
          in if ds = [] \<or> \<not> list_all is_ascii_digit ds then None else checked_i64 v)"

section \<open>Civil dates to days\<close>

definition days_from_civil :: "int \<Rightarrow> nat \<Rightarrow> nat \<Rightarrow> int option" where
  "days_from_civil year month day =
     (if \<not> (1 \<le> month \<and> month \<le> 12) \<or> \<not> (1 \<le> day \<and> day \<le> 31) then None
      else
        let y = (if month \<le> 2 then i64 (year - 1) else year);
            era = (if y \<ge> 0 then y else i64 (y - 399)) sdiv 400;
            yoe = i64 (y - i64 (era * 400));
            mp = int ((month + 9) mod 12);
            doy = (153 * mp + 2) sdiv 5 + int day - 1;
            doe = i64 (i64 (i64 (i64 (yoe * 365) + yoe sdiv 4) - yoe sdiv 100) + doy)
        in Some (i64 (i64 (i64 (era * 146097) + doe) - 719468)))"

section \<open>Days to civil dates\<close>

definition civil_from_days :: "int \<Rightarrow> int \<times> nat \<times> nat" where
  "civil_from_days days =
     (let shifted = i64 (days + 719468);
          adjusted = (if shifted \<ge> 0 then shifted else i64 (shifted - 146096));
          era = adjusted div 146097;
          day_of_era = i64 (shifted - i64 (era * 146097));
          year_of_era = (day_of_era - day_of_era sdiv 1460 + day_of_era sdiv 36524 - day_of_era sdiv 146096) sdiv 365;
          year = i64 (year_of_era + i64 (era * 400));
          day_of_year = day_of_era - (365 * year_of_era + year_of_era sdiv 4 - year_of_era sdiv 100);
          month_pos = (5 * day_of_year + 2) sdiv 153;
          day = nat ((day_of_year - (153 * month_pos + 2) sdiv 5 + 1) mod 2 ^ 32);
          month = nat ((if month_pos < 10 then month_pos + 3 else month_pos - 9) mod 2 ^ 32)
      in (if month \<le> 2 then i64 (year + 1) else year, month, day))"

section \<open>Dates and times of a header\<close>

definition parse_date :: "string \<Rightarrow> (int \<times> nat \<times> nat) option" where
  "parse_date v =
     (case split_by (\<lambda>c. c = CHR ''-'') v of
        [y, m, d] \<Rightarrow>
          (case (parse_i64 y, parse_uint u32_max m, parse_uint u32_max d) of
             (Some y', Some m', Some d') \<Rightarrow> Some (y', m', d')
           | _ \<Rightarrow> None)
      | _ \<Rightarrow> None)"

definition parse_time :: "string \<Rightarrow> (nat \<times> nat \<times> nat) option" where
  "parse_time v =
     (case split_by (\<lambda>c. c = CHR '':'') v of
        [h, m, s] \<Rightarrow>
          (case (parse_uint u32_max h, parse_uint u32_max m, parse_uint u32_max s) of
             (Some h', Some m', Some s') \<Rightarrow>
               if h' > 23 \<or> m' > 59 \<or> s' > 60 then None else Some (h', m', min s' 59)
           | _ \<Rightarrow> None)
      | _ \<Rightarrow> None)"

definition epoch_of :: "int \<Rightarrow> nat \<times> nat \<times> nat \<Rightarrow> int option" where
  "epoch_of days t =
     (case t of (h, m, s) \<Rightarrow>
        Option.bind (checked_i64 (days * 86400)) (\<lambda>d. checked_i64 (d + (int h * 3600 + int m * 60 + int s))))"

definition u64_of :: "int \<Rightarrow> nat option" where
  "u64_of x = (if 0 \<le> x \<and> x < 2 ^ 64 then Some (nat x) else None)"

definition month_number :: "string \<Rightarrow> nat option" where
  "month_number m =
     map_of (zip [''jan'', ''feb'', ''mar'', ''apr'', ''may'', ''jun'', ''jul'', ''aug'', ''sep'', ''oct'', ''nov'', ''dec'']
       [1..<13]) (to_ascii_lowercase m)"

definition parse_http_date_epoch :: "string \<Rightarrow> nat option" where
  "parse_http_date_epoch value =
     (case split_whitespace value of
        [_, day, month, year, time, zone] \<Rightarrow>
          if \<not> eq_ignore_ascii_case zone ''GMT'' \<and> \<not> eq_ignore_ascii_case zone ''UTC'' then None
          else (case (parse_uint u32_max day, month_number month, parse_i64 year, parse_time time) of
                  (Some d, Some m, Some y, Some t) \<Rightarrow>
                    Option.bind (days_from_civil y m d) (\<lambda>days. Option.bind (epoch_of days t) u64_of)
                | _ \<Rightarrow> None)
      | _ \<Rightarrow> None)"

definition parse_offset :: "string \<Rightarrow> int option" where
  "parse_offset rest =
     (if rest = ''Z'' \<or> rest = ''z'' then Some 0
      else case rest of
             [] \<Rightarrow> None
           | c # t \<Rightarrow>
               if c \<noteq> CHR ''+'' \<and> c \<noteq> CHR ''-'' then None
               else (case split_once t (CHR '':'') of
                       None \<Rightarrow> None
                     | Some (h, m) \<Rightarrow>
                         (case (parse_i64 h, parse_i64 m) of
                            (Some oh, Some om) \<Rightarrow>
                              if oh > 23 \<or> om > 59 then None
                              else Some (i64 ((if c = CHR ''+'' then 1 else - 1) * i64 (i64 (oh * 3600) + i64 (om * 60))))
                          | _ \<Rightarrow> None)))"

text \<open>What is left of the time after its fraction; a point needs a digit.\<close>

definition skip_fraction :: "string \<Rightarrow> string option" where
  "skip_fraction rest =
     (case rest of
        c # t \<Rightarrow>
          if c \<noteq> CHR ''.'' then Some rest
          else if takeWhile is_ascii_digit t = [] then None else Some (dropWhile is_ascii_digit t)
      | [] \<Rightarrow> Some rest)"

definition is_ascii :: "string \<Rightarrow> bool" where
  "is_ascii s \<longleftrightarrow> list_all (\<lambda>c. (of_char c :: nat) < 128) s"

definition parse_rfc3339_epoch :: "string \<Rightarrow> nat option" where
  "parse_rfc3339_epoch v =
     (let value = trim v
      in if byte_len value < 20 \<or> \<not> is_ascii value then None
         else if value ! 10 \<noteq> CHR ''T'' \<and> value ! 10 \<noteq> CHR ''t'' \<and> value ! 10 \<noteq> CHR '' '' then None
         else
           Option.bind (parse_date (take 10 value)) (\<lambda>(year, month, day).
           Option.bind (parse_time (take 8 (drop 11 value))) (\<lambda>t.
           Option.bind (skip_fraction (drop 19 value)) (\<lambda>rest.
           Option.bind (parse_offset rest) (\<lambda>offset.
           Option.bind (days_from_civil year month day) (\<lambda>days.
           Option.bind (epoch_of days t) (\<lambda>local.
           Option.bind (checked_i64 (local - offset)) u64_of)))))))"

text \<open>A delay in seconds, from a number of seconds or from a date and the present second.\<close>

definition parse_retry_after :: "string \<Rightarrow> nat \<Rightarrow> nat option" where
  "parse_retry_after v now =
     (let value = trim v
      in case parse_uint u64_max value of
           Some secs \<Rightarrow> Some secs
         | None \<Rightarrow> map_option (\<lambda>reset. reset - now) (parse_http_date_epoch value))"

text \<open>The two conversions against the calendar itself: counting day by day from 1970-01-01.\<close>

section \<open>The calendar\<close>

definition leap :: "int \<Rightarrow> bool" where
  "leap y \<longleftrightarrow> 4 dvd y \<and> (\<not> 100 dvd y \<or> 400 dvd y)"

definition month_len :: "int \<Rightarrow> nat \<Rightarrow> nat" where
  "month_len y m = (if m = 2 then (if leap y then 29 else 28) else if m \<in> {4, 6, 9, 11} then 30 else 31)"

definition valid_date :: "int \<times> nat \<times> nat \<Rightarrow> bool" where
  "valid_date x = (case x of (y, m, d) \<Rightarrow> 1 \<le> m \<and> m \<le> 12 \<and> 1 \<le> d \<and> d \<le> month_len y m)"

definition next_date :: "int \<times> nat \<times> nat \<Rightarrow> int \<times> nat \<times> nat" where
  "next_date x =
     (case x of (y, m, d) \<Rightarrow>
        if d < month_len y m then (y, m, d + 1) else if m < 12 then (y, m + 1, 1) else (y + 1, 1, 1))"

definition date_after :: "nat \<Rightarrow> int \<times> nat \<times> nat" where
  "date_after k = (next_date ^^ k) (1970, 1, 1)"

section \<open>Arithmetic in range\<close>

lemma i64_id: "- (2 ^ 63) \<le> x \<Longrightarrow> x < 2 ^ 63 \<Longrightarrow> i64 x = x"
  by (simp add: i64_def signed_take_bit_int_eq_self)

lemma sdiv_nonneg: "0 \<le> a \<Longrightarrow> 0 < b \<Longrightarrow> a sdiv b = (a :: int) div b"
  by (cases "a = 0") (simp_all add: signed_divide_int_def)

lemma era_floor: "(if (y :: int) \<ge> 0 then y else y - 399) sdiv 400 = y div 400"
proof (cases "y \<ge> 0")
  case False
  have y: "399 - y = (399 - y mod 400) + (- (y div 400)) * 400" using div_mult_mod_eq [of y 400] by linarith
  have "(399 - y) div 400 = - (y div 400)" unfolding y by (subst div_mult_self1) (simp_all add: div_pos_pos_trivial)
  moreover have "(y - 399) sdiv 400 = - ((399 - y) div 400)" using False by (simp add: signed_divide_int_def)
  ultimately show ?thesis using False by simp
qed (simp add: sdiv_nonneg)

text \<open>Days before the first of March of a year, counted from the year 0.\<close>

definition march_days :: "int \<Rightarrow> int" where
  "march_days y = 365 * y + y div 4 - y div 100 + y div 400"

definition day_of_year :: "nat \<Rightarrow> nat \<Rightarrow> int" where
  "day_of_year m d = (153 * int ((m + 9) mod 12) + 2) div 5 + int d - 1"

definition shifted_year :: "int \<Rightarrow> nat \<Rightarrow> int" where
  "shifted_year y m = (if m \<le> 2 then y - 1 else y)"

lemma march_days_era:
  "march_days y = y div 400 * 146097 + (y mod 400 * 365 + (y mod 400) div 4 - (y mod 400) div 100)"
proof -
  let ?q = "y div 400"
  have y: "y = y mod 400 + ?q * 400" by simp
  have "y div 4 = (y mod 400 + (100 * ?q) * 4) div 4" using y by simp
  then have "y div 4 = 100 * ?q + (y mod 400) div 4" by (simp only: div_mult_self1 zero_neq_numeral not_False_eq_True)
  moreover have "y div 100 = (y mod 400 + (4 * ?q) * 100) div 100" using y by simp
  then have "y div 100 = 4 * ?q + (y mod 400) div 100" by (simp only: div_mult_self1 zero_neq_numeral not_False_eq_True)
  ultimately show ?thesis using y unfolding march_days_def by linarith
qed

lemma day_of_era_in_range:
  assumes "0 \<le> n" "n < 400" "0 \<le> doy" "doy \<le> 400"
  shows "i64 (i64 (i64 (i64 (n * 365) + n sdiv 4) - n sdiv 100) + doy) = n * 365 + n div 4 - n div 100 + doy"
proof -
  have b: "0 \<le> n div 4" "n div 4 \<le> n" "0 \<le> n div 100" "n div 100 \<le> n" using assms(1) by linarith+
  have "i64 (n * 365) = n * 365" using assms by (intro i64_id) auto
  moreover have "i64 (n * 365 + n div 4) = n * 365 + n div 4" using assms b by (intro i64_id) auto
  moreover have "i64 (n * 365 + n div 4 - n div 100) = n * 365 + n div 4 - n div 100" using assms b by (intro i64_id) auto
  moreover have "i64 (n * 365 + n div 4 - n div 100 + doy) = n * 365 + n div 4 - n div 100 + doy"
    using assms b by (intro i64_id) auto
  ultimately show ?thesis using assms(1) by (simp add: sdiv_nonneg)
qed

lemma days_in_range:
  assumes "- (3 * 10 ^ 12) \<le> e" "e \<le> 3 * 10 ^ 12" "0 \<le> x" "x \<le> 160000"
  shows "i64 (i64 (i64 (e * 146097) + x) - 719468) = e * 146097 + x - 719468"
  using assms by (simp add: i64_id)

lemma days_from_civil_eq:
  assumes "1 \<le> m" "m \<le> 12" "1 \<le> d" "d \<le> 31" "\<bar>y\<bar> \<le> 10 ^ 15"
  shows "days_from_civil y m d = Some (march_days (shifted_year y m) + day_of_year m d - 719468)"
proof -
  let ?y = "shifted_year y m"
  have ry: "- (10 ^ 15) - 1 \<le> ?y" "?y \<le> 10 ^ 15" using assms(5) by (auto simp: shifted_year_def)
  have y1: "i64 (y - 1) = y - 1" using assms(5) by (intro i64_id) auto
  have y2: "i64 (?y - 399) = ?y - 399" using ry by (intro i64_id) auto
  have yoe: "0 \<le> ?y mod 400" "?y mod 400 < 400" by auto
  have era: "- (3 * 10 ^ 12) \<le> ?y div 400" "?y div 400 \<le> 3 * 10 ^ 12" using ry by auto
  have sub: "i64 (?y - i64 (?y div 400 * 400)) = ?y mod 400"
    using ry era by (subst (1 2) i64_id) (auto simp: minus_div_mult_eq_mod)
  have doy: "0 \<le> day_of_year m d" "day_of_year m d \<le> 400"
    using assms by (auto simp: day_of_year_def)
  let ?n = "?y mod 400"
  note doe = day_of_era_in_range [OF yoe doy]
  have in_era: "0 \<le> n * 365 + n div 4 - n div 100 + e \<and> n * 365 + n div 4 - n div 100 + e \<le> 160000"
    if "0 \<le> n" "n < 400" "0 \<le> e" "e \<le> 400" for n e :: int
    using that by linarith
  have all: "i64 (i64 (i64 (?y div 400 * 146097) + (?n * 365 + ?n div 4 - ?n div 100 + day_of_year m d)) - 719468) =
      march_days ?y + day_of_year m d - 719468"
    using days_in_range [OF era] in_era [OF yoe doy] by (simp add: march_days_era add.assoc)
  have mp: "(153 * int ((m + 9) mod 12) + 2) sdiv 5 + int d - 1 = day_of_year m d"
    by (simp add: day_of_year_def sdiv_nonneg)
  have yy: "(if m \<le> 2 then i64 (y - 1) else y) = ?y" by (simp add: shifted_year_def y1)
  have e: "(if ?y \<ge> 0 then ?y else i64 (?y - 399)) sdiv 400 = ?y div 400" unfolding y2 by (rule era_floor)
  show ?thesis using assms(1-4) unfolding days_from_civil_def Let_def yy e sub mp doe all by simp
qed

lemma div_step:
  assumes "0 < k"
  shows "(y :: int) div k = (y - 1) div k + (if k dvd y then 1 else 0)"
proof (cases "k dvd y")
  case True
  then obtain q where y: "y = k * q" by auto
  have e: "k * q - 1 = (k - 1) + (q - 1) * k" by (simp add: algebra_simps)
  have "(k * q - 1) div k = q - 1" unfolding e using assms by (subst div_mult_self1) (simp_all add: div_pos_pos_trivial)
  with y assms show ?thesis by simp
next
  case False
  have "y mod k \<noteq> 0" using False by (simp add: dvd_eq_mod_eq_0)
  then have r: "0 \<le> y mod k - 1" "y mod k - 1 < k"
    using pos_mod_sign [OF assms, of y] pos_mod_bound [OF assms, of y] by linarith+
  have e: "y - 1 = (y mod k - 1) + (y div k) * k" using div_mult_mod_eq [of y k] by linarith
  have "((y mod k - 1) + (y div k) * k) div k = y div k"
    using assms r by (subst div_mult_self1) (simp_all add: div_pos_pos_trivial)
  then have "(y - 1) div k = y div k" by (simp only: e [symmetric])
  with False show ?thesis by simp
qed

lemma leap_count:
  fixes a b e :: int
  assumes "C \<Longrightarrow> B" "B \<Longrightarrow> A"
  shows "(a + (if A then 1 else 0)) - (b + (if B then 1 else 0)) + (e + (if C then 1 else 0)) =
    a - b + e + (if A \<and> (\<not> B \<or> C) then 1 else 0)"
  using assms by (cases A; cases B; cases C) simp_all

lemma march_days_step: "march_days y = march_days (y - 1) + 365 + (if leap y then 1 else 0)"
proof -
  have up: "400 dvd y \<Longrightarrow> 100 dvd y" "100 dvd y \<Longrightarrow> 4 dvd y"
    using dvd_trans [of "100 :: int" 400 y] dvd_trans [of "4 :: int" 100 y] by simp_all
  have steps: "y div 4 = (y - 1) div 4 + (if 4 dvd y then 1 else 0)"
    "y div 100 = (y - 1) div 100 + (if 100 dvd y then 1 else 0)"
    "y div 400 = (y - 1) div 400 + (if 400 dvd y then 1 else 0)"
    by (simp_all only: div_step [of 4 y] div_step [of 100 y] div_step [of 400 y] zero_less_numeral)
  have "y div 4 - y div 100 + y div 400 =
      (y - 1) div 4 - (y - 1) div 100 + (y - 1) div 400 + (if leap y then 1 else 0)"
    unfolding steps leap_def by (rule leap_count) (use up in blast)+
  then show ?thesis by (simp add: march_days_def)
qed

text \<open>The day after is one more.\<close>

definition day_number :: "int \<times> nat \<times> nat \<Rightarrow> int" where
  "day_number x = (case x of (y, m, d) \<Rightarrow> march_days (shifted_year y m) + day_of_year m d - 719468)"

lemma month_cases:
  assumes "1 \<le> m" "m \<le> 12"
  shows "m \<in> {1, 2, 3, 4, 5, 6, 7, 8, 9, 10, 11, 12 :: nat}"
  using assms by simp arith

lemma day_number_next: "valid_date x \<Longrightarrow> day_number (next_date x) = day_number x + 1"
proof -
  assume v: "valid_date x"
  obtain y m d where x: "x = (y, m, d)" by (cases x)
  have m: "m \<in> {1, 2, 3, 4, 5, 6, 7, 8, 9, 10, 11, 12}" using v by (intro month_cases) (simp_all add: x valid_date_def)
  show ?thesis
  proof (cases "d < month_len y m")
    case True
    then show ?thesis by (simp add: x next_date_def day_number_def day_of_year_def)
  next
    case False
    then have d: "d = month_len y m" using v by (simp add: x valid_date_def)
    have "day_number (next_date (y, m, d)) = day_number (y, m, d) + 1"
      using m march_days_step [of y]
      by (elim insertE emptyE) (simp_all add: d next_date_def day_number_def day_of_year_def shifted_year_def month_len_def)
    then show ?thesis by (simp add: x)
  qed
qed

lemma next_date_valid: "valid_date x \<Longrightarrow> valid_date (next_date x)"
proof -
  assume "valid_date x"
  moreover obtain y m d where x: "x = (y, m, d)" by (cases x) auto
  moreover have "1 \<le> month_len y' m'" for y' m' by (simp add: month_len_def)
  ultimately show ?thesis by (simp add: valid_date_def next_date_def)
qed

lemma date_after_valid: "valid_date (date_after k)"
  by (induction k) (simp_all add: date_after_def next_date_valid, simp add: valid_date_def month_len_def)

lemma date_after_number: "day_number (date_after k) = int k"
proof (induction k)
  case 0
  then show ?case by (simp add: date_after_def day_number_def march_days_def shifted_year_def day_of_year_def)
next
  case (Suc k)
  have "date_after (Suc k) = next_date (date_after k)" by (simp add: date_after_def)
  with Suc day_number_next [OF date_after_valid, of k] show ?case by simp
qed

lemma date_after_year: "1970 \<le> fst (date_after k) \<and> fst (date_after k) \<le> 1970 + int k"
proof (induction k)
  case (Suc k)
  have "fst (date_after (Suc k)) \<in> {fst (date_after k), fst (date_after k) + 1}"
    by (simp add: date_after_def next_date_def split: prod.splits)
  with Suc show ?case by auto
qed (simp add: date_after_def)

section \<open>Back from a number\<close>

text \<open>A day of the 400 years that begin in March, by century, group of four years, year and day.\<close>

lemma year_of_era_found:
  fixes c k r t :: int
  assumes "0 \<le> c" "c \<le> 3" "0 \<le> k" "k \<le> 24" "0 \<le> r" "r \<le> 3" "0 \<le> t" "t \<le> 365"
    and long: "t = 365 \<Longrightarrow> r = 3 \<and> (k = 24 \<longrightarrow> c = 3)"
  defines "e \<equiv> 36524 * c + 1461 * k + 365 * r + t"
  shows "(e - e div 1460 + e div 36524 - e div 146096) div 365 = 100 * c + 4 * k + r"
proof -
  define g where "g = (if 24 * c + k + 365 * r + t \<ge> 1460 then 1 else 0 :: int)"
  define f where "f = (if k = 24 \<and> r = 3 \<and> t = 365 then 1 else 0 :: int)"
  have g: "e div 1460 = 25 * c + k + g"
  proof (rule int_div_pos_eq)
    show "e = 1460 * (25 * c + k + g) + (24 * c + k + 365 * r + t - 1460 * g)" by (simp add: e_def)
  qed (use assms(1-8) in \<open>auto simp: g_def\<close>)
  have f: "e div 36524 = c + f"
  proof (rule int_div_pos_eq)
    show "e = 36524 * (c + f) + (1461 * k + 365 * r + t - 36524 * f)" by (simp add: e_def)
  qed (use assms(1-8) in \<open>auto simp: f_def\<close>)
  have h: "e div 146096 = f"
  proof (rule int_div_pos_eq)
    show "e = 146096 * f + (e - 146096 * f)" by simp
  qed (use assms(1-8) long in \<open>auto simp: f_def e_def\<close>)
  show ?thesis unfolding g f h
  proof (rule int_div_pos_eq)
    show "e - (25 * c + k + g) + (c + f) - f = 365 * (100 * c + 4 * k + r) + (t - g)" by (simp add: e_def)
  qed (use assms(1-8) long in \<open>cases "t = 365"; auto simp: g_def\<close>)+
qed

text \<open>The last day of a March year is its day 365 only when that year ends in a leap year's February.\<close>

lemma day_of_year_range:
  assumes v: "valid_date (y, m, d)"
  shows "0 \<le> day_of_year m d" "day_of_year m d \<le> 365"
    "day_of_year m d = 365 \<Longrightarrow> leap (shifted_year y m + 1)"
    "(5 * day_of_year m d + 2) div 153 = int ((m + 9) mod 12)"
proof -
  have range: "1 \<le> m" "m \<le> 12" and d: "1 \<le> d" "d \<le> month_len y m" using v by (simp_all add: valid_date_def)
  note m = month_cases [OF range]
  show "0 \<le> day_of_year m d" using d(1) by (simp add: day_of_year_def)
  show "day_of_year m d \<le> 365"
    using m d(2) by (elim insertE emptyE) (simp_all add: day_of_year_def month_len_def split: if_splits)
  show "day_of_year m d = 365 \<Longrightarrow> leap (shifted_year y m + 1)"
    using m d(2) by (elim insertE emptyE) (simp_all add: day_of_year_def month_len_def shifted_year_def split: if_splits)
  show "(5 * day_of_year m d + 2) div 153 = int ((m + 9) mod 12)"
    using m d by (elim insertE emptyE) (simp_all add: day_of_year_def month_len_def split: if_splits)
qed

lemma year_of_era_parts:
  fixes n t :: int
  assumes "0 \<le> n" "n < 400" "0 \<le> t" "t \<le> 365" and long: "t = 365 \<Longrightarrow> leap (n + 1)"
  defines "e \<equiv> n * 365 + n div 4 - n div 100 + t"
  shows "0 \<le> e" "e \<le> 146096" "(e - e div 1460 + e div 36524 - e div 146096) div 365 = n"
proof -
  define c where "c = n div 100"
  define k where "k = n mod 100 div 4"
  define r where "r = n mod 4"
  have ranges: "0 \<le> c" "c \<le> 3" "0 \<le> k" "k \<le> 24" "0 \<le> r" "r \<le> 3"
    using assms(1,2) unfolding c_def k_def r_def by linarith+
  have "n mod 100 mod 4 = r" unfolding r_def by (rule mod_mod_cancel) simp
  then have n: "n = 100 * c + 4 * k + r"
    using div_mult_mod_eq [of n 100] div_mult_mod_eq [of "n mod 100" 4] unfolding c_def k_def by linarith
  have q: "n div 4 = 25 * c + k" using n ranges by linarith
  have "e = n * 365 + n div 4 - c + t" unfolding e_def c_def ..
  then have e: "e = 36524 * c + 1461 * k + 365 * r + t" using n q by linarith
  have lp: "r = 3 \<and> (k = 24 \<longrightarrow> c = 3)" if t: "t = 365"
  proof
    have "4 dvd n + 1" using long [OF t] by (simp add: leap_def)
    then show "r = 3" unfolding r_def by presburger
    show "k = 24 \<longrightarrow> c = 3"
    proof
      assume "k = 24"
      with \<open>r = 3\<close> n have n1: "n + 1 = 100 * (c + 1)" by simp
      with long [OF t] have "400 dvd 100 * (c + 1)" by (simp add: leap_def)
      then obtain q where "100 * (c + 1) = 400 * q" by (auto elim: dvdE)
      then have "c + 1 = 4 * q" by simp
      with ranges show "c = 3" by presburger
    qed
  qed
  have "(k = 24 \<and> r = 3 \<and> c = 3) \<or> 1461 * k + 365 * r + t \<le> 36523 \<or> c \<le> 2" using ranges assms(3,4) lp by linarith
  then show "e \<le> 146096" using ranges assms(3,4) lp unfolding e by auto
  show "0 \<le> e" using ranges assms(3) unfolding e by linarith
  show "(e - e div 1460 + e div 36524 - e div 146096) div 365 = n"
    unfolding e using year_of_era_found [OF ranges assms(3,4) lp] by (simp add: n)
qed

lemma leap_in_era: "leap (y mod 400 + 1) \<longleftrightarrow> leap (y + 1)"
proof -
  have "k dvd y mod 400 + 1 \<longleftrightarrow> k dvd y + 1" if "k dvd 400" for k :: int
    using that by (metis dvd_mod_iff mod_add_left_eq)
  then show ?thesis by (simp add: leap_def)
qed

lemma month_and_day_back:
  assumes "valid_date (y, m, d)"
  shows "nat ((day_of_year m d - (153 * int ((m + 9) mod 12) + 2) sdiv 5 + 1) mod 2 ^ 32) = d"
    "nat ((if int ((m + 9) mod 12) < 10 then int ((m + 9) mod 12) + 3 else int ((m + 9) mod 12) - 9) mod 2 ^ 32) = m"
proof -
  have "1 \<le> m" "m \<le> 12" and d: "d \<le> 31" using assms by (auto simp: valid_date_def month_len_def split: if_splits)
  then have m: "m \<in> {1, 2, 3, 4, 5, 6, 7, 8, 9, 10, 11, 12}" by (intro month_cases)
  have "day_of_year m d - (153 * int ((m + 9) mod 12) + 2) sdiv 5 + 1 = int d"
    by (simp add: day_of_year_def sdiv_nonneg)
  with d show "nat ((day_of_year m d - (153 * int ((m + 9) mod 12) + 2) sdiv 5 + 1) mod 2 ^ 32) = d" by simp
  show "nat ((if int ((m + 9) mod 12) < 10 then int ((m + 9) mod 12) + 3 else int ((m + 9) mod 12) - 9) mod 2 ^ 32) = m"
    using m by (elim insertE emptyE) simp_all
qed

lemma civil_of_day_number:
  assumes v: "valid_date (y, m, d)" and y: "1970 \<le> y" "y \<le> 10 ^ 15"
  shows "civil_from_days (day_number (y, m, d)) = (y, m, d)"
proof -
  let ?y = "shifted_year y m" and ?t = "day_of_year m d"
  define n where "n = ?y mod 400"
  define era where "era = ?y div 400"
  define e where "e = n * 365 + n div 4 - n div 100 + ?t"
  have yb: "1969 \<le> ?y" "?y \<le> 10 ^ 15" using y by (simp_all add: shifted_year_def)
  have nb: "0 \<le> n" "n < 400" by (simp_all add: n_def)
  have eb: "4 \<le> era" "era \<le> 3 * 10 ^ 12" using yb by (simp_all add: era_def)
  have ne: "?y = n + era * 400" by (simp add: n_def era_def)
  have tb: "0 \<le> ?t" "?t \<le> 365" "?t = 365 \<Longrightarrow> leap (n + 1)" and mp: "(5 * ?t + 2) div 153 = int ((m + 9) mod 12)"
    using day_of_year_range [OF v] leap_in_era [of ?y] by (simp_all add: n_def)
  note parts = year_of_era_parts [OF nb tb(1,2,3), folded e_def]
  have num: "day_number (y, m, d) + 719468 = e + era * 146097"
    by (simp add: day_number_def march_days_era n_def [symmetric] era_def [symmetric] e_def)
  have s: "i64 (day_number (y, m, d) + 719468) = e + era * 146097"
    unfolding num using parts(1,2) eb by (intro i64_id) auto
  have ed: "(e + era * 146097) div 146097 = era" using parts(1,2) by (intro int_div_pos_eq [of _ _ _ e]) auto
  have i1: "i64 (era * 146097) = era * 146097" "i64 (era * 400) = era * 400" using eb by (auto intro!: i64_id)
  have i2: "i64 e = e" using parts(1,2) by (intro i64_id) auto
  have i3: "i64 ?y = ?y" "i64 (?y + 1) = ?y + 1" using yb by (auto intro!: i64_id)
  have pos: "(e + era * 146097 \<ge> 0) = True" using parts(1) eb by simp
  have inner: "0 \<le> e - e div 1460 + e div 36524 - e div 146096" using parts(1) by linarith
  have sd: "e sdiv 1460 = e div 1460" "e sdiv 36524 = e div 36524" "e sdiv 146096 = e div 146096"
    "n sdiv 4 = n div 4" "n sdiv 100 = n div 100"
    by (rule sdiv_nonneg; use parts(1) nb in simp)+
  have sn: "(e - e div 1460 + e div 36524 - e div 146096) sdiv 365 = n"
    using sdiv_nonneg [OF inner, of 365] parts(3) by simp
  have t: "e - (365 * n + n div 4 - n div 100) = ?t" by (simp add: e_def)
  have mp': "(5 * ?t + 2) sdiv 153 = int ((m + 9) mod 12)" using tb(1) mp by (simp add: sdiv_nonneg)
  note md = month_and_day_back [OF v]
  have yy: "n + era * 400 = ?y" using ne by simp
  show ?thesis
    unfolding civil_from_days_def Let_def s
    by (simp only: pos if_True ed i1 add_diff_cancel_right' i2 sd sn t mp' yy i3 md) (simp add: shifted_year_def)
qed

section \<open>The property\<close>

text \<open>
  The date that lies k days after 1970-01-01, found by turning the pages of the calendar one by one, is converted
  to the number k, and the number k is converted back to that date, for the first hundred million million days: no
  step of either computation leaves the range of its machine integers, and neither is a day off at the end of a month,
  in a leap year, or at a century that is none.
\<close>

theorem calendar_agrees_with_counting:
  assumes "k \<le> 10 ^ 14" and date: "date_after k = (y, m, d)"
  shows "days_from_civil y m d = Some (int k) \<and> civil_from_days (int k) = (y, m, d)"
proof
  have v: "valid_date (y, m, d)" and n: "day_number (y, m, d) = int k"
    using date_after_valid [of k] date_after_number [of k] by (simp_all add: date)
  have y: "1970 \<le> y" "y \<le> 10 ^ 15" using date_after_year [of k] assms(1) by (simp_all add: date)
  show "civil_from_days (int k) = (y, m, d)" using civil_of_day_number [OF v y] n by simp
  have "1 \<le> m" "m \<le> 12" "1 \<le> d" "d \<le> 31"
    using v by (auto simp: valid_date_def month_len_def split: if_splits)
  then have "days_from_civil y m d = Some (day_number (y, m, d))"
    using y by (subst days_from_civil_eq) (simp_all add: day_number_def)
  then show "days_from_civil y m d = Some (int k)" by (simp add: n)
qed

lemma fifty_nine_days_on: "date_after 59 = (1970, 3, 1)"
  by (simp add: date_after_def eval_nat_numeral next_date_def month_len_def leap_def)

theorem calendar_agrees_with_counting_witness:
  "days_from_civil 1970 3 1 = Some 59 \<and> civil_from_days 59 = (1970, 3, 1)"
  using calendar_agrees_with_counting [of 59, OF _ fifty_nine_days_on] by simp

end
