(* ===== verification/Pair_Protocol.thy ===== *)
theory Pair_Protocol
  imports Rust_Str
begin

text \<open>
  \<^verbatim>\<open>crates/localpilot-server/src/swarm/converge.rs\<close>: two peers exchange proposals of one artifact
  until both agree on the same revision or a bound stops them. The JSON reader and SHA-256 are
  arguments (\<open>decode\<close>, \<open>sha256\<close>), and so is everything behind the endpoint trait: what a
  delivery or a driven turn answers, whether the slot's deadline passed meanwhile, and whether
  the pair has been aborted.
\<close>

section \<open>Envelopes\<close>

definition PROTOCOL_VERSION :: u32 where "PROTOCOL_VERSION = 1"

datatype pair_action =
    Propose string
  | Revise string
  | Agree u64 string

datatype envelope_error =
    UnknownVersion u32 u32
  | Malformed string

fun show_envelope_error :: "envelope_error \<Rightarrow> string" where
  "show_envelope_error (UnknownVersion found expected) =
     ''unsupported convergence protocol version '' @ show_nat (unat found)
     @ ''; this build speaks '' @ show_nat (unat expected)"
| "show_envelope_error (Malformed why) = ''malformed convergence envelope: '' @ why"

text \<open>
  \<open>decode\<close> is \<open>serde_json::from_str::<Envelope>\<close>: the version and the action of a well-formed
  envelope, or the reader's message.
\<close>

definition parse_action ::
  "(string \<Rightarrow> string + u32 \<times> pair_action) \<Rightarrow> string \<Rightarrow> envelope_error + pair_action" where
  "parse_action decode input =
     (case decode input of
        Inl why \<Rightarrow> Inl (Malformed why)
      | Inr (v, a) \<Rightarrow>
          if v \<noteq> PROTOCOL_VERSION then Inl (UnknownVersion v PROTOCOL_VERSION) else Inr a)"

section \<open>The shared candidate\<close>

record candidate =
  revision :: u64
  digest :: string
  artifact :: string

text \<open>\<open>artifact.replace("\r\n", "\n").replace('\r', "\n")\<close>.\<close>

fun replace_crlf :: "string \<Rightarrow> string" where
  "replace_crlf (c # d # s) =
     (if c = CHR 0x0D \<and> d = CHR 0x0A then CHR 0x0A # replace_crlf s
      else c # replace_crlf (d # s))"
| "replace_crlf s = s"

definition canonicalize :: "string \<Rightarrow> string" where
  "canonicalize a = replace_char (CHR 0x0D) (CHR 0x0A) (replace_crlf a)"

datatype transition =
    CandidateInstalled u64
  | AgreementRecorded u64
  | TConverged u64
  | StaleAgreement

datatype pair_state_error = ForeignActor | RevisionExhausted

fun show_state_error :: "pair_state_error \<Rightarrow> string" where
  "show_state_error ForeignActor = ''action from a session that is not one of the pair's two peers''"
| "show_state_error RevisionExhausted = ''the pair's revision space is exhausted''"

record pair_state =
  state_peers :: "session_id \<times> session_id"
  cand :: "candidate option"
  next_revision :: u64
  agreed :: "session_id set"

definition pair_distinct :: "session_id \<Rightarrow> session_id \<Rightarrow> pair_state" where
  "pair_distinct a b = \<lparr>state_peers = (a, b), cand = None, next_revision = 1, agreed = {}\<rparr>"

definition is_peer :: "session_id \<times> session_id \<Rightarrow> session_id \<Rightarrow> bool" where
  "is_peer ps s \<longleftrightarrow> s = fst ps \<or> s = snd ps"

text \<open>The next revision is reserved before the candidate is touched; \<open>checked_add\<close> refuses the last.\<close>

definition install ::
  "(string \<Rightarrow> string) \<Rightarrow> pair_state \<Rightarrow> string \<Rightarrow> pair_state \<times> (pair_state_error + transition)" where
  "install sha256 st a =
     (if next_revision st = - 1 then (st, Inl RevisionExhausted)
      else
        (let c = canonicalize a
         in (st\<lparr>cand := Some \<lparr>revision = next_revision st, digest = sha256 c, artifact = c\<rparr>,
                agreed := {}, next_revision := next_revision st + 1\<rparr>,
             Inr (CandidateInstalled (next_revision st)))))"

definition record_agreement ::
  "pair_state \<Rightarrow> session_id \<Rightarrow> u64 \<Rightarrow> string \<Rightarrow> pair_state \<times> transition" where
  "record_agreement st actor r d =
     (case cand st of
        None \<Rightarrow> (st, StaleAgreement)
      | Some c \<Rightarrow>
          if r \<noteq> revision c \<or> d \<noteq> digest c then (st, StaleAgreement)
          else
            (let st' = st\<lparr>agreed := insert actor (agreed st)\<rparr>
             in (st', if fst (state_peers st) \<in> agreed st' \<and> snd (state_peers st) \<in> agreed st'
                      then TConverged r else AgreementRecorded r)))"

definition pair_apply ::
  "(string \<Rightarrow> string) \<Rightarrow> pair_state \<Rightarrow> session_id \<Rightarrow> pair_action
   \<Rightarrow> pair_state \<times> (pair_state_error + transition)" where
  "pair_apply sha256 st actor act =
     (if \<not> is_peer (state_peers st) actor then (st, Inl ForeignActor)
      else
        (case act of
           Propose a \<Rightarrow> install sha256 st a
         | Revise a \<Rightarrow> install sha256 st a
         | Agree r d \<Rightarrow> (let (st', t) = record_agreement st actor r d in (st', Inr t))))"

section \<open>Outcomes and reports\<close>

datatype pair_outcome =
    Converged u64
  | CapReached nat
  | ProtocolError string
  | Aborted
  | TimedOut
  | PeerFailed string
  | ProviderError string
  | BudgetExceeded
  | NoProgress

record pair_progress =
  completed_rounds :: nat
  progress_max_rounds :: u32
  next_peer :: "session_id option"
  progress_candidate :: "candidate option"
  agreements :: "(session_id \<times> bool) \<times> (session_id \<times> bool)"
  repairing_peer :: "session_id option"

record pair_report =
  report_outcome :: pair_outcome
  report_rounds :: nat
  report_peers :: "session_id \<times> session_id"
  report_raw :: "string option \<times> string option"
  report_candidate :: "candidate option"

text \<open>
  \<open>raw_for\<close>: the envelope at the position of the peer. With two distinct peers the first match
  is the only one.
\<close>

definition raw_for :: "pair_report \<Rightarrow> session_id \<Rightarrow> string option" where
  "raw_for r p =
     (if p = fst (report_peers r) then fst (report_raw r)
      else if p = snd (report_peers r) then snd (report_raw r)
      else None)"

section \<open>The outside world\<close>

datatype endpoint_error = EndPeerFailed string | EndProviderError string

datatype turn_reply =
    Produced string u64
  | TurnCancelled
  | TurnTimedOut
  | TurnBudgetExceeded
  | TurnNoProgress

datatype notify_reply = Delivered | NotifyCancelled

text \<open>
  The endpoints with the pair's cancellation token. \<open>cancelled\<close> is a look at the token; a call
  of \<open>notify\<close> or \<open>drive\<close> also says whether the deadline of the slot passed before it answered
  (the select on the deadline is biased, so a tie counts as passed).
\<close>

record 'e pair_endpoints =
  cancelled :: "'e \<Rightarrow> 'e \<times> bool"
  notify :: "session_id \<Rightarrow> session_id \<Rightarrow> string \<Rightarrow> 'e
     \<Rightarrow> 'e \<times> (endpoint_error + notify_reply) \<times> bool"
  drive :: "session_id \<Rightarrow> string \<Rightarrow> 'e \<Rightarrow> 'e \<times> (endpoint_error + turn_reply) \<times> bool"

fun endpoint_outcome :: "endpoint_error \<Rightarrow> pair_outcome" where
  "endpoint_outcome (EndPeerFailed detail) = PeerFailed detail"
| "endpoint_outcome (EndProviderError detail) = ProviderError detail"

definition cancellation_anomaly :: pair_outcome where
  "cancellation_anomaly = PeerFailed ''endpoint reported cancellation without a driver signal''"

section \<open>The driver\<close>

datatype pair_setup_error = DuplicatePeers | ZeroRoundCap | ZeroSlotTimeout

record pair_bounds =
  max_rounds :: u32
  slot_timeout :: nat
  slot_token_budget :: u64

record pair_driver =
  dstate :: pair_state
  peers :: "session_id \<times> session_id"
  original_task :: string
  bounds :: pair_bounds
  progress_of :: pair_progress

definition driver_new ::
  "session_id \<Rightarrow> session_id \<Rightarrow> string \<Rightarrow> pair_bounds \<Rightarrow> pair_setup_error + pair_driver" where
  "driver_new a b task bs =
     (if max_rounds bs = 0 then Inl ZeroRoundCap
      else if slot_timeout bs = 0 then Inl ZeroSlotTimeout
      else if a = b then Inl DuplicatePeers
      else Inr
        \<lparr>dstate = pair_distinct a b, peers = (a, b), original_task = task, bounds = bs,
         progress_of =
           \<lparr>completed_rounds = 0, progress_max_rounds = max_rounds bs, next_peer = Some a,
            progress_candidate = None, agreements = ((a, False), (b, False)),
            repairing_peer = None\<rparr>\<rparr>)"

definition publish_state ::
  "pair_driver \<Rightarrow> session_id option \<Rightarrow> nat \<Rightarrow> session_id option \<Rightarrow> pair_driver" where
  "publish_state d nxt rounds repairing =
     d\<lparr>progress_of :=
         \<lparr>completed_rounds = rounds, progress_max_rounds = max_rounds (bounds d),
          next_peer = nxt, progress_candidate = cand (dstate d),
          agreements =
            ((fst (peers d), fst (peers d) \<in> agreed (dstate d)),
             (snd (peers d), snd (peers d) \<in> agreed (dstate d))),
          repairing_peer = repairing\<rparr>\<rparr>"

definition publish :: "pair_driver \<Rightarrow> session_id option \<Rightarrow> nat \<Rightarrow> pair_driver" where
  "publish d nxt rounds = publish_state d nxt rounds None"

definition publish_repairing :: "pair_driver \<Rightarrow> session_id \<Rightarrow> nat \<Rightarrow> pair_driver" where
  "publish_repairing d p rounds = publish_state d (Some p) rounds (Some p)"

datatype step_result =
    StepConverged u64
  | Progressed
  | Repairable string
  | Fatal string

text \<open>\<open>PairDriver::step\<close>: parse one envelope, apply it, classify the result.\<close>

definition driver_step ::
  "(string \<Rightarrow> string + u32 \<times> pair_action) \<Rightarrow> (string \<Rightarrow> string) \<Rightarrow> pair_driver
   \<Rightarrow> session_id \<Rightarrow> string \<Rightarrow> pair_driver \<times> step_result" where
  "driver_step decode sha256 d peer envelope =
     (case parse_action decode envelope of
        Inl err \<Rightarrow> (d, Repairable (show_envelope_error err))
      | Inr act \<Rightarrow>
          (let (st, res) = pair_apply sha256 (dstate d) peer act
           in (d\<lparr>dstate := st\<rparr>,
               case res of
                 Inl err \<Rightarrow> Fatal (show_state_error err)
               | Inr (TConverged r) \<Rightarrow> StepConverged r
               | Inr (CandidateInstalled r) \<Rightarrow> Progressed
               | Inr (AgreementRecorded r) \<Rightarrow> Progressed
               | Inr StaleAgreement \<Rightarrow> Repairable ''stale agreement'')))"

definition PAIR_TURN_PROMPT :: string where
  "PAIR_TURN_PROMPT = ''The other peer has shared its current proposal. Review it and reply with your own proposal, a revision of it, or your agreement.''"

definition render_delivery :: "candidate \<Rightarrow> string" where
  "render_delivery c =
     ''The current proposal is revision '' @ show_nat (unat (revision c)) @ '' (digest ''
     @ digest c
     @ ''). To accept it exactly, agree to that revision and digest; otherwise revise it.''
     @ newline @ newline @ artifact c"

text \<open>The dash of the source text is no character of the model; a plain one stands for it.\<close>

definition render_repair :: "string \<Rightarrow> string" where
  "render_repair reason =
     ''Your previous reply could not be used: '' @ reason
     @ ''. Reply with exactly one protocol-version-1 JSON envelope - a proposal, a revision, or an agreement. To agree, name the current proposal's revision and digest exactly as delivered.''"

section \<open>One slot\<close>

text \<open>
  What the loop carries: the driver, each peer's latest raw envelope, the outside world, and for
  the current slot whether its deadline passed and what it has spent.
\<close>

record 'e pair_loop =
  drv :: pair_driver
  raw :: "string option \<times> string option"
  world :: 'e
  deadline_fired :: bool
  slot_spent :: u64

definition stop_precedence ::
  "'e pair_endpoints \<Rightarrow> 'e pair_loop \<Rightarrow> 'e pair_loop \<times> pair_outcome option" where
  "stop_precedence E s =
     (let (w, c) = cancelled E (world s)
      in (s\<lparr>world := w\<rparr>,
          if c then Some Aborted else if deadline_fired s then Some TimedOut else None))"

definition peer_at :: "pair_driver \<Rightarrow> nat \<Rightarrow> session_id" where
  "peer_at d slot = (if even slot then fst (peers d) else snd (peers d))"

definition set_raw ::
  "nat \<Rightarrow> string \<Rightarrow> string option \<times> string option \<Rightarrow> string option \<times> string option" where
  "set_raw slot e r = (if even slot then (Some e, snd r) else (fst r, Some e))"

text \<open>The delivery at the start of a slot; \<open>Some\<close> is the outcome that ends the pair.\<close>

definition deliver ::
  "'e pair_endpoints \<Rightarrow> 'e pair_loop \<Rightarrow> nat \<Rightarrow> string \<Rightarrow> 'e pair_loop \<times> pair_outcome option" where
  "deliver E s slot content =
     (case stop_precedence E s of
        (s1, Some out) \<Rightarrow> (s1, Some out)
      | (s1, None) \<Rightarrow>
          (let (w, reply, late) =
                 notify E (peer_at (drv s1) (slot + 1)) (peer_at (drv s1) slot) content (world s1);
               s2 = s1\<lparr>world := w, deadline_fired := deadline_fired s1 \<or> late\<rparr>
           in case stop_precedence E s2 of
                (s3, Some out) \<Rightarrow> (s3, Some out)
              | (s3, None) \<Rightarrow>
                  (s3, case reply of
                         Inl err \<Rightarrow> Some (endpoint_outcome err)
                       | Inr Delivered \<Rightarrow> None
                       | Inr NotifyCancelled \<Rightarrow> Some cancellation_anomaly)))"

datatype slot_result = SlotStop pair_outcome | SlotDone | SlotRepair string

text \<open>
  A produced envelope: the budget, then the step. A sum of words below one of its terms is what
  \<open>checked_add\<close> refuses.
\<close>

definition settle_turn ::
  "(string \<Rightarrow> string + u32 \<times> pair_action) \<Rightarrow> (string \<Rightarrow> string) \<Rightarrow> 'e pair_loop \<Rightarrow> nat
   \<Rightarrow> string \<Rightarrow> u64 \<Rightarrow> 'e pair_loop \<times> slot_result" where
  "settle_turn decode sha256 s slot envelope cost =
     (if slot_spent s + cost < slot_spent s then (s, SlotStop BudgetExceeded)
      else
        (let s1 = s\<lparr>slot_spent := slot_spent s + cost\<rparr>;
             budget = slot_token_budget (bounds (drv s))
         in if 0 < budget \<and> budget < slot_spent s1 then (s1, SlotStop BudgetExceeded)
            else
              (let (d, r) = driver_step decode sha256 (drv s1) (peer_at (drv s1) slot) envelope
               in (s1\<lparr>drv := d\<rparr>,
                   case r of
                     StepConverged n \<Rightarrow> SlotStop (Converged n)
                   | Progressed \<Rightarrow> SlotDone
                   | Fatal detail \<Rightarrow> SlotStop (ProtocolError detail)
                   | Repairable detail \<Rightarrow> SlotRepair detail))))"

definition drive_turn ::
  "(string \<Rightarrow> string + u32 \<times> pair_action) \<Rightarrow> (string \<Rightarrow> string) \<Rightarrow> 'e pair_endpoints
   \<Rightarrow> 'e pair_loop \<Rightarrow> nat \<Rightarrow> string \<Rightarrow> 'e pair_loop \<times> slot_result" where
  "drive_turn decode sha256 E s slot prompt =
     (case stop_precedence E s of
        (s1, Some out) \<Rightarrow> (s1, SlotStop out)
      | (s1, None) \<Rightarrow>
          (let (w, reply, late) = drive E (peer_at (drv s1) slot) prompt (world s1);
               s2 = s1\<lparr>world := w, deadline_fired := deadline_fired s1 \<or> late,
                       raw := (case reply of
                                 Inr (Produced e cost) \<Rightarrow> set_raw slot e (raw s1)
                               | _ \<Rightarrow> raw s1)\<rparr>
           in case stop_precedence E s2 of
                (s3, Some out) \<Rightarrow> (s3, SlotStop out)
              | (s3, None) \<Rightarrow>
                  (case reply of
                     Inl err \<Rightarrow> (s3, SlotStop (endpoint_outcome err))
                   | Inr (Produced e cost) \<Rightarrow> settle_turn decode sha256 s3 slot e cost
                   | Inr TurnCancelled \<Rightarrow> (s3, SlotStop cancellation_anomaly)
                   | Inr TurnTimedOut \<Rightarrow> (s3, SlotStop TimedOut)
                   | Inr TurnBudgetExceeded \<Rightarrow> (s3, SlotStop BudgetExceeded)
                   | Inr TurnNoProgress \<Rightarrow> (s3, SlotStop NoProgress))))"

text \<open>
  The slot: the delivery when there is a candidate, the drive, and at most one repair drive of
  the same peer. \<open>Some\<close> ends the pair, \<open>None\<close> moves on to the next slot.
\<close>

definition run_slot ::
  "(string \<Rightarrow> string + u32 \<times> pair_action) \<Rightarrow> (string \<Rightarrow> string) \<Rightarrow> 'e pair_endpoints
   \<Rightarrow> 'e pair_loop \<Rightarrow> nat \<Rightarrow> nat \<Rightarrow> 'e pair_loop \<times> pair_outcome option" where
  "run_slot decode sha256 E s slot rounds =
     (let delivery = map_option render_delivery (cand (dstate (drv s)));
          base_prompt = (case delivery of None \<Rightarrow> original_task (drv s) | Some _ \<Rightarrow> PAIR_TURN_PROMPT)
      in case (case delivery of None \<Rightarrow> (s, None) | Some content \<Rightarrow> deliver E s slot content) of
           (s1, Some out) \<Rightarrow> (s1, Some out)
         | (s1, None) \<Rightarrow>
             (case drive_turn decode sha256 E s1 slot base_prompt of
                (s2, SlotStop out) \<Rightarrow> (s2, Some out)
              | (s2, SlotDone) \<Rightarrow> (s2, None)
              | (s2, SlotRepair detail) \<Rightarrow>
                  (case drive_turn decode sha256 E
                          (s2\<lparr>drv := publish_repairing (drv s2) (peer_at (drv s2) slot) rounds\<rparr>)
                          slot (render_repair detail) of
                     (s3, SlotStop out) \<Rightarrow> (s3, Some out)
                   | (s3, SlotDone) \<Rightarrow> (s3, None)
                   | (s3, SlotRepair detail') \<Rightarrow> (s3, Some (ProtocolError detail')))))"

section \<open>The run\<close>

text \<open>
  \<open>run_loop\<close>, with the round cap of the bounds as the argument \<open>cap\<close>. The two counters are
  natural numbers: \<open>rounds\<close> stays at or below the cap, a \<open>u32\<close>.
\<close>

function run_slots ::
  "(string \<Rightarrow> string + u32 \<times> pair_action) \<Rightarrow> (string \<Rightarrow> string) \<Rightarrow> 'e pair_endpoints
   \<Rightarrow> nat \<Rightarrow> 'e pair_loop \<Rightarrow> nat \<Rightarrow> nat \<Rightarrow> 'e pair_loop \<times> nat \<times> pair_outcome" where
  "run_slots decode sha256 E cap s slot rounds =
     (let (w, c) = cancelled E (world s)
      in if c then (s\<lparr>world := w\<rparr>, rounds, Aborted)
         else
           (case run_slot decode sha256 E
                   (s\<lparr>world := w, deadline_fired := False, slot_spent := 0\<rparr>) slot rounds of
              (s1, Some out) \<Rightarrow>
                (s1, (case out of Converged _ \<Rightarrow> if odd slot then rounds + 1 else rounds
                      | _ \<Rightarrow> rounds), out)
            | (s1, None) \<Rightarrow>
                if even (slot + 1)
                then
                  if cap \<le> rounds + 1 then (s1, rounds + 1, CapReached (rounds + 1))
                  else run_slots decode sha256 E cap
                         (s1\<lparr>drv := publish (drv s1) (Some (peer_at (drv s1) (slot + 1)))
                                           (rounds + 1)\<rparr>)
                         (slot + 1) (rounds + 1)
                else run_slots decode sha256 E cap
                       (s1\<lparr>drv := publish (drv s1) (Some (peer_at (drv s1) (slot + 1))) rounds\<rparr>)
                       (slot + 1) rounds))"
  by pat_completeness auto
termination
  by (relation "measure (\<lambda>(decode, sha256, E, cap, s, slot, rounds).
        2 * (cap - rounds) + (if even slot then 2 else 1))") auto

declare run_slots.simps [simp del]

definition pair_run ::
  "(string \<Rightarrow> string + u32 \<times> pair_action) \<Rightarrow> (string \<Rightarrow> string) \<Rightarrow> 'e pair_endpoints
   \<Rightarrow> pair_driver \<Rightarrow> 'e \<Rightarrow> pair_report \<times> 'e" where
  "pair_run decode sha256 E d w =
     (let (s, rounds, out) =
            run_slots decode sha256 E (unat (max_rounds (bounds d)))
              \<lparr>drv = d, raw = (None, None), world = w, deadline_fired = False, slot_spent = 0\<rparr> 0 0;
          d' = publish (drv s) None rounds
      in (\<lparr>report_outcome = out, report_rounds = completed_rounds (progress_of d'),
           report_peers = peers d', report_raw = raw s,
           report_candidate = cand (dstate d')\<rparr>,
          world s))"

end
