(* ===== verification/Pair_Inv.thy ===== *)
theory Pair_Inv
  imports Pair_Protocol
begin

text \<open>
  The invariant of the pair between slots: what the candidate is, who can have agreed to it, and
  that an agreement is backed by that peer's latest envelope. From it: what convergence means,
  how many slots it takes, and how many endpoint calls a run makes.
\<close>

section \<open>Line endings\<close>

lemma replace_crlf_no_cr: "CHR 0x0D \<notin> set s \<Longrightarrow> replace_crlf s = s"
  by (induction s rule: replace_crlf.induct) auto

lemma canonicalize_no_cr: "CHR 0x0D \<notin> set (canonicalize s)"
  by (auto simp: canonicalize_def replace_char_def)

lemma canonicalize_id: "CHR 0x0D \<notin> set s \<Longrightarrow> canonicalize s = s"
  unfolding canonicalize_def replace_char_def
  by (simp add: replace_crlf_no_cr) (rule map_idI, auto)

lemma canonicalize_idem [simp]: "canonicalize (canonicalize s) = canonicalize s"
  by (rule canonicalize_id) (rule canonicalize_no_cr)

text \<open>Text written with Windows line endings, or with the old lone carriage return, canonicalises
  to the same bytes as the text itself.\<close>

definition crlf :: "string \<Rightarrow> string" where
  "crlf s = concat (map (\<lambda>c. if c = CHR 0x0A then [CHR 0x0D, CHR 0x0A] else [c]) s)"

lemma crlf_Cons:
  "crlf (c # s) = (if c = CHR 0x0A then [CHR 0x0D, CHR 0x0A] else [c]) @ crlf s"
  by (simp add: crlf_def)

lemma replace_crlf_Cons: "c \<noteq> CHR 0x0D \<Longrightarrow> replace_crlf (c # s) = c # replace_crlf s"
  by (cases s) simp_all

lemma replace_crlf_crlf: "CHR 0x0D \<notin> set s \<Longrightarrow> replace_crlf (crlf s) = s"
proof (induction s)
  case (Cons c s)
  then show ?case
    by (cases "c = CHR 0x0A") (auto simp: crlf_Cons replace_crlf_Cons)
qed (simp add: crlf_def)

lemma canonicalize_crlf:
  assumes "CHR 0x0D \<notin> set s"
  shows "canonicalize (crlf s) = s"
  using canonicalize_id [OF assms] replace_crlf_crlf [OF assms] replace_crlf_no_cr [OF assms]
  by (simp add: canonicalize_def)

section \<open>The state\<close>

definition wf_candidate :: "(string \<Rightarrow> string) \<Rightarrow> candidate \<Rightarrow> bool" where
  "wf_candidate sha256 c \<longleftrightarrow>
     digest c = sha256 (artifact c) \<and> CHR 0x0D \<notin> set (artifact c)"

definition wf_state :: "(string \<Rightarrow> string) \<Rightarrow> pair_state \<Rightarrow> bool" where
  "wf_state sha256 st \<longleftrightarrow>
     0 < next_revision st
     \<and> (case cand st of
          None \<Rightarrow> agreed st = {}
        | Some c \<Rightarrow> wf_candidate sha256 c \<and> 0 < revision c \<and> revision c < next_revision st)"

lemma wf_distinct: "wf_state sha256 (pair_distinct a b)"
  by (simp add: wf_state_def pair_distinct_def)

lemma u64_succ: "unat (x + 1 :: u64) = (unat x + 1) mod 2 ^ 64"
  by (simp add: unat_word_ariths)

lemma word_succ_pos: "x \<noteq> (- 1 :: u64) \<Longrightarrow> x < x + 1"
proof -
  assume "x \<noteq> - 1"
  then have "x + 1 \<noteq> 0"
    by (metis add.commute add_eq_0_iff)
  then have "(unat x + 1) mod 2 ^ 64 \<noteq> 0"
    by (metis (mono_tags) u64_succ unat_eq_zero)
  moreover have "unat x < 2 ^ 64"
    using unsigned_less [of x] by simp
  ultimately have "unat x + 1 < 2 ^ 64"
    by (metis Suc_eq_plus1 Suc_leI le_neq_implies_less mod_self)
  then show ?thesis
    by (simp add: word_less_nat_alt unat_word_ariths)
qed

lemma wf_install:
  assumes "wf_state sha256 st"
  shows "wf_state sha256 (fst (install sha256 st a))"
proof (cases "next_revision st = - 1")
  case False
  then have "next_revision st < next_revision st + 1"
    by (rule word_succ_pos)
  with assms False show ?thesis
    by (auto simp: install_def Let_def wf_state_def wf_candidate_def canonicalize_no_cr
        intro: order.strict_trans)
qed (use assms in \<open>simp add: install_def\<close>)

lemma wf_agreement:
  "wf_state sha256 st \<Longrightarrow> wf_state sha256 (fst (record_agreement st actor r d))"
  by (auto simp: record_agreement_def wf_state_def Let_def split: option.splits)

lemma wf_apply: "wf_state sha256 st \<Longrightarrow> wf_state sha256 (fst (pair_apply sha256 st actor act))"
  using wf_install wf_agreement
  by (auto simp: pair_apply_def split: pair_action.splits prod.splits)
    (metis fst_conv)+

section \<open>One turn\<close>

definition own_raw :: "nat \<Rightarrow> string option \<times> string option \<Rightarrow> string option" where
  "own_raw slot r = (if even slot then fst r else snd r)"

lemma own_raw_set [simp]:
  "own_raw slot (set_raw slot e r) = Some e"
  "own_raw (Suc slot) (set_raw slot e r) = own_raw (Suc slot) r"
  by (simp_all add: own_raw_def set_raw_def)

text \<open>What no call of the driver changes.\<close>

definition same_setup :: "pair_driver \<Rightarrow> pair_driver \<Rightarrow> bool" where
  "same_setup d d' \<longleftrightarrow> peers d' = peers d \<and> bounds d' = bounds d \<and> original_task d' = original_task d"

lemma same_setup_refl [simp]: "same_setup d d"
  by (simp add: same_setup_def)

lemma same_setup_trans: "same_setup a b \<Longrightarrow> same_setup b c \<Longrightarrow> same_setup a c"
  by (simp add: same_setup_def)

lemma publish_same [simp]:
  "same_setup d (publish_state d' n r x) = same_setup d d'"
  "dstate (publish_state d' n r x) = dstate d'"
  "peers (publish_state d' n r x) = peers d'"
  "bounds (publish_state d' n r x) = bounds d'"
  by (simp_all add: publish_state_def same_setup_def)

lemma peer_at_cong: "peers d = peers d' \<Longrightarrow> peer_at d slot = peer_at d' slot"
  by (simp add: peer_at_def)

lemma driver_step_same: "driver_step decode sha256 d p e = (d', r) \<Longrightarrow> same_setup d d'"
  by (auto simp: driver_step_def same_setup_def split: sum.splits prod.splits)

lemma stop_precedence_same:
  assumes "stop_precedence E s = (s', out)"
  shows "drv s' = drv s" "raw s' = raw s" "slot_spent s' = slot_spent s"
    "out = None \<or> out = Some Aborted \<or> out = Some TimedOut"
  using assms by (auto simp: stop_precedence_def split: prod.splits if_splits)

lemma endpoint_not_converged [simp]:
  "endpoint_outcome err \<noteq> Converged n" "endpoint_outcome err \<noteq> CapReached k"
  by (cases err; simp)+

lemma anomaly_not_converged [simp]:
  "cancellation_anomaly \<noteq> Converged n" "cancellation_anomaly \<noteq> CapReached k"
  by (simp_all add: cancellation_anomaly_def)

lemma deliver_same:
  assumes "deliver E s slot content = (s', out)"
  shows "drv s' = drv s \<and> raw s' = raw s \<and> slot_spent s' = slot_spent s
    \<and> (\<forall>n. out \<noteq> Some (Converged n)) \<and> (\<forall>n. out \<noteq> Some (CapReached n))"
proof -
  obtain s1 o1 where 1: "stop_precedence E s = (s1, o1)"
    by (cases "stop_precedence E s")
  note k1 = stop_precedence_same [OF 1]
  show ?thesis
  proof (cases o1)
    case (Some x)
    with assms 1 k1 show ?thesis
      by (auto simp: deliver_def)
  next
    case None
    obtain w reply late where n:
      "notify E (peer_at (drv s1) (slot + 1)) (peer_at (drv s1) slot) content (world s1)
        = (w, reply, late)"
      by (metis prod_cases3)
    obtain s3 o3 where 3:
      "stop_precedence E (s1\<lparr>world := w, deadline_fired := deadline_fired s1 \<or> late\<rparr>) = (s3, o3)"
      by (cases "stop_precedence E (s1\<lparr>world := w, deadline_fired := deadline_fired s1 \<or> late\<rparr>)")
    note k3 = stop_precedence_same [OF 3]
    have "(s', out) = (s3, case o3 of Some x \<Rightarrow> Some x | None \<Rightarrow>
        (case reply of Inl err \<Rightarrow> Some (endpoint_outcome err)
         | Inr Delivered \<Rightarrow> None | Inr NotifyCancelled \<Rightarrow> Some cancellation_anomaly))"
      using assms 1 None n 3 by (cases o3) (auto simp: deliver_def)
    with k1 k3 show ?thesis
      by (auto split: option.splits sum.splits notify_reply.splits)
  qed
qed

text \<open>
  A turn either leaves the shared state alone, or the peer's latest envelope is the one that was
  applied.
\<close>

definition quiet :: "slot_result \<Rightarrow> bool" where
  "quiet r \<longleftrightarrow> r \<noteq> SlotDone \<and> (\<forall>n. r \<noteq> SlotStop (Converged n))
     \<and> (\<forall>n. r \<noteq> SlotStop (CapReached n))"

definition applied ::
  "(string \<Rightarrow> string + u32 \<times> pair_action) \<Rightarrow> (string \<Rightarrow> string) \<Rightarrow> 'e pair_loop \<Rightarrow> 'e pair_loop
   \<Rightarrow> nat \<Rightarrow> slot_result \<Rightarrow> bool" where
  "applied decode sha256 s s' slot r \<longleftrightarrow>
     (\<exists>e res. own_raw slot (raw s') = Some e
        \<and> driver_step decode sha256 (drv s) (peer_at (drv s) slot) e = (drv s', res)
        \<and> r = (case res of
                 StepConverged n \<Rightarrow> SlotStop (Converged n)
               | Progressed \<Rightarrow> SlotDone
               | Fatal detail \<Rightarrow> SlotStop (ProtocolError detail)
               | Repairable detail \<Rightarrow> SlotRepair detail))"

lemma settle_turn_cases:
  assumes "settle_turn decode sha256 s slot e cost = (s', r)" "own_raw slot (raw s) = Some e"
  shows "raw s' = raw s \<and> (drv s' = drv s \<and> quiet r \<or> applied decode sha256 s s' slot r)"
proof -
  obtain d res where d:
    "driver_step decode sha256 (drv s) (peer_at (drv s) slot) e = (d, res)"
    by (cases "driver_step decode sha256 (drv s) (peer_at (drv s) slot) e")
  show ?thesis
    using assms d
    by (auto simp: settle_turn_def Let_def quiet_def applied_def split: if_splits)
qed

lemma drive_turn_cases:
  assumes "drive_turn decode sha256 E s slot prompt = (s', r)"
  shows "own_raw (Suc slot) (raw s') = own_raw (Suc slot) (raw s)
     \<and> (drv s' = drv s \<and> quiet r \<or> applied decode sha256 s s' slot r)"
proof -
  obtain s1 o1 where 1: "stop_precedence E s = (s1, o1)"
    by (cases "stop_precedence E s")
  note k1 = stop_precedence_same [OF 1]
  show ?thesis
  proof (cases o1)
    case (Some x)
    with assms 1 k1 show ?thesis
      by (auto simp: drive_turn_def quiet_def)
  next
    case None
    obtain w reply late where n: "drive E (peer_at (drv s1) slot) prompt (world s1) = (w, reply, late)"
      by (metis prod_cases3)
    define s2 where "s2 = s1\<lparr>world := w, deadline_fired := deadline_fired s1 \<or> late,
      raw := (case reply of Inr (Produced e cost) \<Rightarrow> set_raw slot e (raw s1) | _ \<Rightarrow> raw s1)\<rparr>"
    have s2: "drv s2 = drv s" "own_raw (Suc slot) (raw s2) = own_raw (Suc slot) (raw s)"
      "\<And>e cost. reply = Inr (Produced e cost) \<Longrightarrow> own_raw slot (raw s2) = Some e"
      using k1 by (auto simp: s2_def split: sum.splits turn_reply.splits)
    obtain s3 o3 where 3: "stop_precedence E s2 = (s3, o3)"
      by (cases "stop_precedence E s2")
    note k3 = stop_precedence_same [OF 3]
    have res: "(s', r) = (case o3 of Some out \<Rightarrow> (s3, SlotStop out) | None \<Rightarrow>
        (case reply of
           Inl err \<Rightarrow> (s3, SlotStop (endpoint_outcome err))
         | Inr (Produced e cost) \<Rightarrow> settle_turn decode sha256 s3 slot e cost
         | Inr TurnCancelled \<Rightarrow> (s3, SlotStop cancellation_anomaly)
         | Inr TurnTimedOut \<Rightarrow> (s3, SlotStop TimedOut)
         | Inr TurnBudgetExceeded \<Rightarrow> (s3, SlotStop BudgetExceeded)
         | Inr TurnNoProgress \<Rightarrow> (s3, SlotStop NoProgress)))"
      using assms 1 None n 3 by (cases o3) (simp_all add: drive_turn_def s2_def)
    show ?thesis
    proof (cases "\<exists>e cost. o3 = None \<and> reply = Inr (Produced e cost)")
      case True
      then obtain e cost where "o3 = None" and reply: "reply = Inr (Produced e cost)"
        by blast
      with res have "settle_turn decode sha256 s3 slot e cost = (s', r)"
        by simp
      from settle_turn_cases [OF this] s2 reply k3 show ?thesis
        by (auto simp: applied_def)
    next
      case False
      then have "s' = s3 \<and> quiet r"
        using res k3(4) by (auto simp: quiet_def split: option.splits sum.splits turn_reply.splits)
      then show ?thesis
        using k3 s2 by simp
    qed
  qed
qed

section \<open>One slot\<close>

definition backed ::
  "(string \<Rightarrow> string + u32 \<times> pair_action) \<Rightarrow> nat \<Rightarrow> 'e pair_loop \<Rightarrow> candidate \<Rightarrow> bool" where
  "backed decode slot s c \<longleftrightarrow>
     (\<exists>e. own_raw slot (raw s) = Some e
        \<and> parse_action decode e = Inr (Agree (revision c) (digest c)))"

definition slot_inv ::
  "(string \<Rightarrow> string + u32 \<times> pair_action) \<Rightarrow> (string \<Rightarrow> string) \<Rightarrow> nat \<Rightarrow> 'e pair_loop \<Rightarrow> bool" where
  "slot_inv decode sha256 n s \<longleftrightarrow>
     state_peers (dstate (drv s)) = peers (drv s)
     \<and> fst (peers (drv s)) \<noteq> snd (peers (drv s))
     \<and> wf_state sha256 (dstate (drv s))
     \<and> (cand (dstate (drv s)) = None \<longleftrightarrow> n = 0)
     \<and> (n \<le> 1 \<longrightarrow> agreed (dstate (drv s)) = {})
     \<and> agreed (dstate (drv s)) \<subseteq> {peer_at (drv s) (Suc n)}
     \<and> (\<forall>c. cand (dstate (drv s)) = Some c \<longrightarrow> agreed (dstate (drv s)) \<noteq> {}
            \<longrightarrow> backed decode (Suc n) s c)"

lemma slot_inv_cong:
  assumes "dstate (drv s') = dstate (drv s)" "peers (drv s') = peers (drv s)"
    "own_raw (Suc n) (raw s') = own_raw (Suc n) (raw s)"
  shows "slot_inv decode sha256 n s' \<longleftrightarrow> slot_inv decode sha256 n s"
  using assms by (simp add: slot_inv_def backed_def peer_at_def)

definition converged_ok ::
  "(string \<Rightarrow> string + u32 \<times> pair_action) \<Rightarrow> (string \<Rightarrow> string) \<Rightarrow> nat \<Rightarrow> 'e pair_loop \<Rightarrow> u64 \<Rightarrow> bool"
where
  "converged_ok decode sha256 n s r \<longleftrightarrow>
     2 \<le> n \<and> (\<exists>c. cand (dstate (drv s)) = Some c \<and> revision c = r \<and> wf_candidate sha256 c
        \<and> backed decode 0 s c \<and> backed decode 1 s c)"

lemma peer_at_other: "fst (peers d) \<noteq> snd (peers d) \<Longrightarrow> peer_at d n \<noteq> peer_at d (Suc n)"
  by (simp add: peer_at_def)

lemma peer_at_Suc_Suc [simp]: "peer_at d (Suc (Suc n)) = peer_at d n"
  by (simp add: peer_at_def)

lemma own_raw_Suc_Suc [simp]: "own_raw (Suc (Suc n)) r = own_raw n r"
  by (simp add: own_raw_def)

lemma backed_Suc_Suc [simp]: "backed decode (Suc (Suc n)) s c = backed decode n s c"
  by (simp add: backed_def)

lemma backed_both: "backed decode n s c \<Longrightarrow> backed decode (Suc n) s c \<Longrightarrow>
    backed decode 0 s c \<and> backed decode 1 s c"
  by (cases "even n") (auto simp: backed_def own_raw_def)

lemma peers_at: "{fst (peers d), snd (peers d)} = {peer_at d n, peer_at d (Suc n)}"
  by (auto simp: peer_at_def)

lemma is_peer_at [simp]: "is_peer (peers d) (peer_at d n)"
  by (simp add: is_peer_def peer_at_def)

lemma wf_candidateD: "wf_state sha256 st \<Longrightarrow> cand st = Some c \<Longrightarrow> wf_candidate sha256 c"
  by (simp add: wf_state_def)

text \<open>One applied action, for the peer whose slot it is.\<close>

lemma apply_in_slot:
  assumes inv: "slot_inv decode sha256 n s"
    and step: "pair_apply sha256 (dstate (drv s)) (peer_at (drv s) n) act = (st, res)"
  shows "(\<forall>err. res = Inl err \<longrightarrow> st = dstate (drv s))
    \<and> (res = Inr StaleAgreement \<longrightarrow> st = dstate (drv s))
    \<and> (\<forall>r. res = Inr (CandidateInstalled r) \<longrightarrow> cand st \<noteq> None \<and> agreed st = {}
          \<and> state_peers st = peers (drv s) \<and> wf_state sha256 st)
    \<and> (\<forall>r. res = Inr (AgreementRecorded r) \<longrightarrow> (\<exists>c. cand st = Some c \<and> act = Agree (revision c) (digest c)
          \<and> agreed st = {peer_at (drv s) n} \<and> state_peers st = peers (drv s) \<and> wf_state sha256 st
          \<and> 0 < n))
    \<and> (\<forall>r. res = Inr (TConverged r) \<longrightarrow> (\<exists>c. cand st = Some c \<and> cand (dstate (drv s)) = Some c
          \<and> act = Agree r (digest c) \<and> revision c = r
          \<and> agreed (dstate (drv s)) \<noteq> {} \<and> 2 \<le> n))"
proof -
  let ?st = "dstate (drv s)"
  have ps: "state_peers ?st = peers (drv s)" and ne: "fst (peers (drv s)) \<noteq> snd (peers (drv s))"
    and wf: "wf_state sha256 ?st" and none: "cand ?st = None \<longleftrightarrow> n = 0"
    and early: "n \<le> 1 \<longrightarrow> agreed ?st = {}"
    and sub: "agreed ?st \<subseteq> {peer_at (drv s) (Suc n)}"
    using inv by (simp_all add: slot_inv_def)
  have wf': "wf_state sha256 st"
    using wf_apply [OF wf, of "peer_at (drv s) n" act] step by simp
  show ?thesis
  proof (cases act)
    case (Agree r d)
    show ?thesis
    proof (cases "cand ?st")
      case None
      with step Agree ps show ?thesis
        by (auto simp: pair_apply_def record_agreement_def)
    next
      case (Some c)
      with none have n: "0 < n"
        by simp
      have all: "fst (state_peers ?st) \<in> insert (peer_at (drv s) n) (agreed ?st)
          \<and> snd (state_peers ?st) \<in> insert (peer_at (drv s) n) (agreed ?st)
          \<longleftrightarrow> agreed ?st \<noteq> {}"
        using sub ps ne by (cases "even n") (auto simp: peer_at_def)
      show ?thesis
        using step Agree Some ps n early sub wf' all
        by (auto simp: pair_apply_def record_agreement_def Let_def split: if_splits)
    qed
  qed (use step ps wf' in \<open>auto simp: pair_apply_def install_def Let_def split: if_splits\<close>)
qed

lemma applied_in_slot:
  assumes inv: "slot_inv decode sha256 n s"
    and keep: "own_raw (Suc n) (raw s') = own_raw (Suc n) (raw s)"
    and app: "applied decode sha256 s s' n r"
  shows "same_setup (drv s) (drv s')
    \<and> (quiet r \<longrightarrow> slot_inv decode sha256 n s')
    \<and> (r = SlotDone \<longrightarrow> slot_inv decode sha256 (Suc n) s')
    \<and> (\<forall>k. r = SlotStop (Converged k) \<longrightarrow> converged_ok decode sha256 n s' k)"
proof -
  from app obtain e res where e: "own_raw n (raw s') = Some e"
    and step: "driver_step decode sha256 (drv s) (peer_at (drv s) n) e = (drv s', res)"
    and r: "r = (case res of StepConverged n \<Rightarrow> SlotStop (Converged n) | Progressed \<Rightarrow> SlotDone
      | Fatal detail \<Rightarrow> SlotStop (ProtocolError detail) | Repairable detail \<Rightarrow> SlotRepair detail)"
    by (auto simp: applied_def)
  have keeps: "same_setup (drv s) (drv s')"
    using driver_step_same [OF step] .
  show ?thesis
  proof (cases "parse_action decode e")
    case (Inl err)
    with step r keeps inv keep slot_inv_cong [of s' s n] show ?thesis
      by (auto simp: driver_step_def same_setup_def)
  next
    case (Inr act)
    obtain st t where ap: "pair_apply sha256 (dstate (drv s)) (peer_at (drv s) n) act = (st, t)"
      by (cases "pair_apply sha256 (dstate (drv s)) (peer_at (drv s) n) act")
    have "drv s' = (drv s)\<lparr>dstate := st\<rparr>"
      and res: "res = (case t of Inl err \<Rightarrow> Fatal (show_state_error err)
         | Inr (TConverged r) \<Rightarrow> StepConverged r | Inr (CandidateInstalled r) \<Rightarrow> Progressed
         | Inr (AgreementRecorded r) \<Rightarrow> Progressed
         | Inr StaleAgreement \<Rightarrow> Repairable ''stale agreement'')"
      using step Inr ap by (auto simp: driver_step_def)
    then have st: "dstate (drv s') = st"
      by simp
    have ps: "peers (drv s') = peers (drv s)"
      using keeps by (simp add: same_setup_def)
    note facts = apply_in_slot [OF inv ap]
    have base: "fst (peers (drv s)) \<noteq> snd (peers (drv s))"
      using inv by (simp add: slot_inv_def)
    have quiet: "slot_inv decode sha256 n s'" if "st = dstate (drv s)"
      using slot_inv_cong [of s' s n] that st ps keep inv by simp
    show ?thesis
    proof (cases t)
      case (Inl err)
      then show ?thesis
        using res r facts quiet keeps by simp
    next
      case t: (Inr tr)
      show ?thesis
      proof (cases tr)
        case (CandidateInstalled k)
        with facts t have "cand st \<noteq> None" "agreed st = {}" "state_peers st = peers (drv s)"
          "wf_state sha256 st"
          by auto
        then have "slot_inv decode sha256 (Suc n) s'"
          using ps st base by (simp add: slot_inv_def)
        with res r t CandidateInstalled keeps show ?thesis
          by (simp add: quiet_def)
      next
        case (AgreementRecorded k)
        with facts t obtain c where c: "cand st = Some c" "act = Agree (revision c) (digest c)"
          "agreed st = {peer_at (drv s) n}" "state_peers st = peers (drv s)" "wf_state sha256 st"
          "0 < n"
          by auto
        have "backed decode n s' c"
          using e Inr c by (simp add: backed_def)
        then have "slot_inv decode sha256 (Suc n) s'"
          using ps st base c by (simp add: slot_inv_def peer_at_def)
        with res r t AgreementRecorded keeps show ?thesis
          by (simp add: quiet_def)
      next
        case (TConverged k)
        with facts t obtain c where c: "cand st = Some c" "cand (dstate (drv s)) = Some c"
          "act = Agree k (digest c)" "revision c = k" "agreed (dstate (drv s)) \<noteq> {}" "2 \<le> n"
          by auto
        have "backed decode n s' c"
          using e Inr c by (simp add: backed_def)
        moreover have "backed decode (Suc n) s' c"
          using inv c keep by (simp add: slot_inv_def backed_def)
        moreover have "wf_candidate sha256 c"
          using inv c wf_candidateD by (auto simp: slot_inv_def)
        ultimately have "converged_ok decode sha256 n s' k"
          using c st backed_both by (auto simp: converged_ok_def)
        with res r t TConverged keeps show ?thesis
          by (simp add: quiet_def)
      next
        case StaleAgreement
        with res r t facts quiet keeps show ?thesis
          by simp
      qed
    qed
  qed
qed

lemma drive_in_slot:
  assumes "slot_inv decode sha256 n s" "drive_turn decode sha256 E s n prompt = (s', r)"
  shows "same_setup (drv s) (drv s')
    \<and> (quiet r \<longrightarrow> slot_inv decode sha256 n s')
    \<and> (r = SlotDone \<longrightarrow> slot_inv decode sha256 (Suc n) s')
    \<and> (\<forall>k. r = SlotStop (Converged k) \<longrightarrow> converged_ok decode sha256 n s' k)"
proof -
  from drive_turn_cases [OF assms(2)]
  have keep: "own_raw (Suc n) (raw s') = own_raw (Suc n) (raw s)"
    and c: "drv s' = drv s \<and> quiet r \<or> applied decode sha256 s s' n r"
    by simp_all
  from c show ?thesis
  proof
    assume "drv s' = drv s \<and> quiet r"
    with keep assms(1) slot_inv_cong [of s' s n] show ?thesis
      by (auto simp: quiet_def)
  qed (rule applied_in_slot [OF assms(1) keep])
qed

lemma run_slot_inv:
  assumes inv: "slot_inv decode sha256 n s"
    and run: "run_slot decode sha256 E s n rounds = (s', out)"
  shows "same_setup (drv s) (drv s')
    \<and> (out = None \<longrightarrow> slot_inv decode sha256 (Suc n) s')
    \<and> (\<forall>k. out = Some (Converged k) \<longrightarrow> converged_ok decode sha256 n s' k)"
proof -
  obtain s1 o1 where 1:
    "(case map_option render_delivery (cand (dstate (drv s))) of
        None \<Rightarrow> (s, None) | Some content \<Rightarrow> deliver E s n content) = (s1, o1)"
    by (metis surj_pair)
  have k1: "drv s1 = drv s" "raw s1 = raw s" "\<And>k. o1 \<noteq> Some (Converged k)"
    using 1 deliver_same [of E s n] by (auto split: option.splits)
  have inv1: "slot_inv decode sha256 n s1"
    using slot_inv_cong [of s1 s n] k1 inv by simp
  obtain s2 r2 where 2: "drive_turn decode sha256 E s1 n
      (case map_option render_delivery (cand (dstate (drv s))) of
         None \<Rightarrow> original_task (drv s) | Some _ \<Rightarrow> PAIR_TURN_PROMPT) = (s2, r2)"
    by (metis surj_pair)
  note k2 = drive_in_slot [OF inv1 2]
  note eqs = run [unfolded run_slot_def Let_def 1 2 prod.case]
  show ?thesis
  proof (cases o1)
    case (Some out1)
    with eqs k1 show ?thesis
      by auto
  next
    case None
    show ?thesis
    proof (cases r2)
      case (SlotRepair detail)
      define s2' where
        "s2' = s2\<lparr>drv := publish_repairing (drv s2) (peer_at (drv s2) n) rounds\<rparr>"
      have su: "same_setup (drv s) (drv s2')"
        using k2 k1 by (simp add: s2'_def publish_repairing_def)
      have "slot_inv decode sha256 n s2"
        using k2 SlotRepair by (simp add: quiet_def)
      then have inv2: "slot_inv decode sha256 n s2'"
        using slot_inv_cong [of s2' s2 n] by (simp add: s2'_def publish_repairing_def)
      obtain s3 r3 where 3: "drive_turn decode sha256 E s2' n (render_repair detail) = (s3, r3)"
        by (metis surj_pair)
      note k3 = drive_in_slot [OF inv2 3]
      show ?thesis
        using eqs None SlotRepair 3 [unfolded s2'_def] k3 same_setup_trans [OF su, of "drv s3"]
        by (cases r3) auto
    qed (use eqs None k2 k1 in auto)
  qed
qed

lemma drive_turn_not_cap:
  "drive_turn decode sha256 E s n prompt = (s', r) \<Longrightarrow> r \<noteq> SlotStop (CapReached k)"
  by (drule drive_turn_cases)
    (auto simp: quiet_def applied_def split: step_result.splits, metis step_result.exhaust)

lemma run_slot_not_cap:
  "run_slot decode sha256 E s n rounds = (s', out) \<Longrightarrow> out \<noteq> Some (CapReached k)"
  by (auto simp: run_slot_def Let_def dest: deliver_same drive_turn_not_cap
      split: option.splits prod.splits slot_result.splits)

section \<open>The run\<close>

lemma slot_inv_reset:
  "slot_inv decode sha256 n (s\<lparr>world := w, deadline_fired := b, slot_spent := x\<rparr>)
   = slot_inv decode sha256 n s"
  by (rule slot_inv_cong) simp_all

lemma slot_inv_publish:
  "slot_inv decode sha256 n (s\<lparr>drv := publish (drv s) p r\<rparr>) = slot_inv decode sha256 n s"
  by (rule slot_inv_cong) (simp_all add: publish_def)

lemma run_slots_inv:
  assumes "run_slots decode sha256 E cap s slot rounds = (s', rounds', out)"
    "slot_inv decode sha256 slot s" "rounds = slot div 2" "rounds < cap"
  shows "same_setup (drv s) (drv s')
    \<and> rounds' \<le> cap
    \<and> (\<forall>k. out = Converged k \<longrightarrow> (\<exists>n. converged_ok decode sha256 n s' k \<and> n < 2 * cap
          \<and> rounds' = (n + 1) div 2))
    \<and> (\<forall>k. out = CapReached k \<longrightarrow> k = cap \<and> rounds' = cap)"
  using assms
proof (induction decode sha256 E cap s slot rounds rule: run_slots.induct)
  case (1 decode sha256 E cap s slot rounds)
  obtain w c where wc: "cancelled E (world s) = (w, c)"
    by (cases "cancelled E (world s)")
  show ?case
  proof (cases c)
    case True
    with "1.prems" wc show ?thesis
      by (auto simp: run_slots.simps [of decode sha256 E cap s])
  next
    case False
    define s0 where "s0 = s\<lparr>world := w, deadline_fired := False, slot_spent := 0\<rparr>"
    obtain s1 o1 where r: "run_slot decode sha256 E s0 slot rounds = (s1, o1)"
      by (cases "run_slot decode sha256 E s0 slot rounds")
    have "slot_inv decode sha256 slot s0"
      using "1.prems"(2) by (simp add: s0_def slot_inv_reset)
    note k = run_slot_inv [OF this r]
    have su: "same_setup (drv s) (drv s1)"
      using k by (simp add: s0_def)
    note eq = "1.prems"(1) [unfolded run_slots.simps [of decode sha256 E cap s] wc Let_def
        prod.case if_not_P [OF False] s0_def [symmetric] r]
    show ?thesis
    proof (cases o1)
      case (Some x)
      then have "s' = s1" "out = x"
        "rounds' = (case x of Converged _ \<Rightarrow> if odd slot then rounds + 1 else rounds | _ \<Rightarrow> rounds)"
        using eq by auto
      moreover have "(if odd slot then rounds + 1 else rounds) = (slot + 1) div 2" "slot < 2 * cap"
        using "1.prems"(3,4) by auto
      moreover have "x \<noteq> CapReached k" for k
        using r Some run_slot_not_cap by blast
      ultimately show ?thesis
        using k Some su "1.prems"(4) by (auto split: pair_outcome.splits)
    next
      case None
      then have inv1: "slot_inv decode sha256 (slot + 1) s1"
        using k by simp
      show ?thesis
      proof (cases "even (slot + 1) \<and> cap \<le> rounds + 1")
        case True
        then show ?thesis
          using eq None su "1.prems"(4) by auto
      next
        case go: False
        let ?r = "if even (slot + 1) then rounds + 1 else rounds"
        let ?s = "s1\<lparr>drv := publish (drv s1) (Some (peer_at (drv s1) (slot + 1))) ?r\<rparr>"
        have rec: "run_slots decode sha256 E cap ?s (slot + 1) ?r = (s', rounds', out)"
          using eq None go by (auto split: if_splits)
        have pre: "slot_inv decode sha256 (slot + 1) ?s" "?r = (slot + 1) div 2" "?r < cap"
          using inv1 go "1.prems"(3,4) by (auto simp: slot_inv_publish)
        have "same_setup (drv s) (drv ?s)"
          using su by (simp add: publish_def)
        moreover have IH: "same_setup (drv ?s) (drv s') \<and> rounds' \<le> cap
          \<and> (\<forall>k. out = Converged k \<longrightarrow> (\<exists>n. converged_ok decode sha256 n s' k \<and> n < 2 * cap
                \<and> rounds' = (n + 1) div 2))
          \<and> (\<forall>k. out = CapReached k \<longrightarrow> k = cap \<and> rounds' = cap)"
        proof (cases "even (slot + 1)")
          case True
          then show ?thesis
            using "1.IH"(1) [OF wc [symmetric] refl False r [symmetric, unfolded s0_def] None] rec pre go
            by simp
        next
          case False
          then show ?thesis
            using "1.IH"(2) [OF wc [symmetric] refl _ r [symmetric, unfolded s0_def] None] rec pre go
              \<open>\<not> c\<close> by simp
        qed
        ultimately show ?thesis
          using same_setup_trans by blast
      qed
    qed
  qed
qed

section \<open>Endpoint calls\<close>

text \<open>
  Any count of the endpoint calls that a look at the token leaves alone and a call raises by at
  most one.
\<close>

locale call_count =
  fixes E :: "'e pair_endpoints" and calls :: "'e \<Rightarrow> nat"
  assumes calls_cancelled: "calls (fst (cancelled E w)) \<le> calls w"
    and calls_notify: "calls (fst (notify E a b m w)) \<le> calls w + 1"
    and calls_drive: "calls (fst (drive E a m w)) \<le> calls w + 1"
begin

lemma calls_stop: "stop_precedence E s = (s', out) \<Longrightarrow> calls (world s') \<le> calls (world s)"
  using calls_cancelled [of "world s"]
  by (auto simp: stop_precedence_def split: prod.splits)

lemma calls_deliver:
  assumes "deliver E s slot m = (s', out)"
  shows "calls (world s') \<le> calls (world s) + 1"
proof -
  obtain s1 o1 where 1: "stop_precedence E s = (s1, o1)"
    by (cases "stop_precedence E s")
  obtain w reply late where n:
    "notify E (peer_at (drv s1) (slot + 1)) (peer_at (drv s1) slot) m (world s1) = (w, reply, late)"
    by (metis prod_cases3)
  obtain s3 o3 where 3:
    "stop_precedence E (s1\<lparr>world := w, deadline_fired := deadline_fired s1 \<or> late\<rparr>) = (s3, o3)"
    by (metis surj_pair)
  have "s' = s1 \<or> s' = s3"
    using assms 1 n 3 by (cases o1; cases o3) (auto simp: deliver_def)
  moreover have "calls w \<le> calls (world s1) + 1"
    using calls_notify [of "peer_at (drv s1) (slot + 1)" "peer_at (drv s1) slot" m "world s1"] n
    by simp
  ultimately show ?thesis
    using calls_stop [OF 1] calls_stop [OF 3] by auto
qed

lemma world_settle: "settle_turn decode sha256 s slot e cost = (s', r) \<Longrightarrow> world s' = world s"
  by (auto simp: settle_turn_def Let_def split: if_splits prod.splits)

lemma calls_drive_turn:
  assumes "drive_turn decode sha256 E s slot prompt = (s', r)"
  shows "calls (world s') \<le> calls (world s) + 1"
proof -
  obtain s1 o1 where 1: "stop_precedence E s = (s1, o1)"
    by (cases "stop_precedence E s")
  obtain w reply late where n: "drive E (peer_at (drv s1) slot) prompt (world s1) = (w, reply, late)"
    by (metis prod_cases3)
  define s2 where "s2 = s1\<lparr>world := w, deadline_fired := deadline_fired s1 \<or> late,
    raw := (case reply of Inr (Produced e cost) \<Rightarrow> set_raw slot e (raw s1) | _ \<Rightarrow> raw s1)\<rparr>"
  obtain s3 o3 where 3: "stop_precedence E s2 = (s3, o3)"
    by (cases "stop_precedence E s2")
  have "world s' = world s1 \<or> world s' = world s3"
  proof (cases "o1 = None \<and> o3 = None")
    case True
    then have "(s', r) = (case reply of
           Inl err \<Rightarrow> (s3, SlotStop (endpoint_outcome err))
         | Inr (Produced e cost) \<Rightarrow> settle_turn decode sha256 s3 slot e cost
         | Inr TurnCancelled \<Rightarrow> (s3, SlotStop cancellation_anomaly)
         | Inr TurnTimedOut \<Rightarrow> (s3, SlotStop TimedOut)
         | Inr TurnBudgetExceeded \<Rightarrow> (s3, SlotStop BudgetExceeded)
         | Inr TurnNoProgress \<Rightarrow> (s3, SlotStop NoProgress))"
      using assms 1 n 3 by (simp add: drive_turn_def s2_def)
    then show ?thesis
      by (auto dest: world_settle [OF sym] split: sum.splits turn_reply.splits)
  next
    case False
    then show ?thesis
      using assms 1 n 3 by (cases o1; cases o3) (auto simp: drive_turn_def s2_def)
  qed
  moreover have "calls (world s2) \<le> calls (world s1) + 1"
    using calls_drive [of "peer_at (drv s1) slot" prompt "world s1"] n by (simp add: s2_def)
  ultimately show ?thesis
    using calls_stop [OF 1] calls_stop [OF 3] by auto
qed

lemma calls_run_slot:
  assumes "run_slot decode sha256 E s slot rounds = (s', out)"
  shows "calls (world s') \<le> calls (world s) + 3"
proof -
  obtain s1 o1 where 1:
    "(case map_option render_delivery (cand (dstate (drv s))) of
        None \<Rightarrow> (s, None) | Some content \<Rightarrow> deliver E s slot content) = (s1, o1)"
    by (metis surj_pair)
  then have c1: "calls (world s1) \<le> calls (world s) + 1"
    using calls_deliver [of s slot] by (force split: option.splits)
  obtain s2 r2 where 2: "drive_turn decode sha256 E s1 slot
      (case map_option render_delivery (cand (dstate (drv s))) of
         None \<Rightarrow> original_task (drv s) | Some _ \<Rightarrow> PAIR_TURN_PROMPT) = (s2, r2)"
    by (metis surj_pair)
  note c2 = calls_drive_turn [OF 2]
  note eqs = assms [unfolded run_slot_def Let_def 1 2 prod.case]
  show ?thesis
  proof (cases "\<exists>detail. o1 = None \<and> r2 = SlotRepair detail")
    case True
    then obtain detail where o1: "o1 = None" and r2: "r2 = SlotRepair detail"
      by blast
    obtain s3 r3 where 3: "drive_turn decode sha256 E
        (s2\<lparr>drv := publish_repairing (drv s2) (peer_at (drv s2) slot) rounds\<rparr>) slot
        (render_repair detail) = (s3, r3)"
      by (metis surj_pair)
    from calls_drive_turn [OF 3] have "calls (world s3) \<le> calls (world s2) + 1"
      by simp
    moreover have "s' = s3"
      using eqs o1 r2 3 by (cases r3) auto
    ultimately show ?thesis
      using c1 c2 by simp
  next
    case False
    then have "s' = s1 \<or> s' = s2"
      using eqs by (cases o1; cases r2) auto
    then show ?thesis
      using c1 c2 by auto
  qed
qed

lemma calls_run_slots:
  assumes "run_slots decode sha256 E cap s slot rounds = (s', rounds', out)"
    "rounds = slot div 2" "rounds < cap"
  shows "calls (world s') \<le> calls (world s) + 3 * (2 * cap - slot)"
  using assms
proof (induction "2 * cap - slot" arbitrary: s slot rounds)
  case 0
  then show ?case
    by linarith
next
  case (Suc k)
  obtain w c where wc: "cancelled E (world s) = (w, c)"
    by (cases "cancelled E (world s)")
  have w: "calls w \<le> calls (world s)"
    using calls_cancelled [of "world s"] wc by simp
  define s0 where "s0 = s\<lparr>world := w, deadline_fired := False, slot_spent := 0\<rparr>"
  obtain s1 o1 where r: "run_slot decode sha256 E s0 slot rounds = (s1, o1)"
    by (cases "run_slot decode sha256 E s0 slot rounds")
  have c1: "calls (world s1) \<le> calls (world s) + 3"
    using calls_run_slot [OF r] w by (simp add: s0_def)
  note eq = Suc.prems(1) [unfolded run_slots.simps [of decode sha256 E cap s] wc Let_def prod.case
      s0_def [symmetric] r]
  have three: "3 \<le> 3 * (2 * cap - slot)"
    using Suc.hyps(2) by linarith
  show ?case
  proof (cases "c \<or> o1 \<noteq> None \<or> (even (slot + 1) \<and> cap \<le> rounds + 1)")
    case True
    then have "world s' = w \<or> s' = s1"
      using eq by (cases o1) (auto split: if_splits)
    then show ?thesis
      using w c1 three by auto
  next
    case False
    let ?r = "if even (slot + 1) then rounds + 1 else rounds"
    let ?s = "s1\<lparr>drv := publish (drv s1) (Some (peer_at (drv s1) (slot + 1))) ?r\<rparr>"
    have rec: "run_slots decode sha256 E cap ?s (slot + 1) ?r = (s', rounds', out)"
      using eq False by (auto split: if_splits)
    have "k = 2 * cap - (slot + 1)" "?r = (slot + 1) div 2" "?r < cap"
      using Suc.hyps(2) Suc.prems(2,3) False by auto
    from Suc.hyps(1) [OF this(1) rec this(2,3)] have "calls (world s') \<le> calls (world s1) + 3 * k"
      using \<open>k = 2 * cap - (slot + 1)\<close> by simp
    then show ?thesis
      using c1 Suc.hyps(2) by linarith
  qed
qed

end

text \<open>The endpoints with a counter beside the world.\<close>

definition counted :: "'e pair_endpoints \<Rightarrow> ('e \<times> nat) pair_endpoints" where
  "counted E =
     \<lparr>cancelled = (\<lambda>(w, n). let (w', c) = cancelled E w in ((w', n), c)),
      notify = (\<lambda>a b m (w, n). let (w', r) = notify E a b m w in ((w', n + 1), r)),
      drive = (\<lambda>a m (w, n). let (w', r) = drive E a m w in ((w', n + 1), r))\<rparr>"

lemma counted_simps [simp]:
  "cancelled (counted E) (w, n) = (let (w', c) = cancelled E w in ((w', n), c))"
  "notify (counted E) a b m (w, n) = (let (w', r) = notify E a b m w in ((w', Suc n), r))"
  "drive (counted E) a m (w, n) = (let (w', r) = drive E a m w in ((w', Suc n), r))"
  by (simp_all add: counted_def)

interpretation cnt: call_count "counted E" snd for E
  by unfold_locales (simp_all add: counted_def split: prod.splits)

text \<open>Counting changes nothing else.\<close>

definition erase :: "('e \<times> nat) pair_loop \<Rightarrow> 'e pair_loop" where
  "erase s =
     \<lparr>drv = drv s, raw = raw s, world = fst (world s), deadline_fired = deadline_fired s,
      slot_spent = slot_spent s\<rparr>"

lemma erase_simps [simp]:
  "drv (erase s) = drv s" "raw (erase s) = raw s" "world (erase s) = fst (world s)"
  "deadline_fired (erase s) = deadline_fired s" "slot_spent (erase s) = slot_spent s"
  "(erase s)\<lparr>drv := d\<rparr> = erase (s\<lparr>drv := d\<rparr>)"
  "(erase s)\<lparr>slot_spent := x\<rparr> = erase (s\<lparr>slot_spent := x\<rparr>)"
  by (simp_all add: erase_def)

lemma erase_stop:
  "stop_precedence E (erase s) = map_prod erase id (stop_precedence (counted E) s)"
  by (cases "world s") (simp add: stop_precedence_def erase_def split: prod.splits)

lemma erase_deliver:
  "deliver E (erase s) slot m = map_prod erase id (deliver (counted E) s slot m)"
proof -
  obtain s1 o1 where 1: "stop_precedence (counted E) s = (s1, o1)"
    by (cases "stop_precedence (counted E) s")
  obtain w n where w: "world s1 = (w, n)"
    by (cases "world s1")
  obtain w' reply late where call:
    "notify E (peer_at (drv s1) (slot + 1)) (peer_at (drv s1) slot) m w = (w', reply, late)"
    by (metis prod_cases3)
  define s2 where
    "s2 = s1\<lparr>world := (w', Suc n), deadline_fired := deadline_fired s1 \<or> late\<rparr>"
  have er: "(erase s1)\<lparr>world := w', deadline_fired := deadline_fired s1 \<or> late\<rparr> = erase s2"
    by (simp add: erase_def s2_def)
  obtain s3 o3 where 3: "stop_precedence (counted E) s2 = (s3, o3)"
    by (cases "stop_precedence (counted E) s2")
  show ?thesis
    using 1 w call 3 er erase_stop [of E s] erase_stop [of E s2]
    by (cases o1; cases o3) (simp_all add: deliver_def s2_def [symmetric])
qed

lemma erase_settle:
  "settle_turn decode sha256 (erase s) slot e cost
   = map_prod erase id (settle_turn decode sha256 s slot e cost)"
  by (simp add: settle_turn_def Let_def split: prod.splits)

lemma erase_drive:
  "drive_turn decode sha256 E (erase s) slot prompt
   = map_prod erase id (drive_turn decode sha256 (counted E) s slot prompt)"
proof -
  obtain s1 o1 where 1: "stop_precedence (counted E) s = (s1, o1)"
    by (cases "stop_precedence (counted E) s")
  obtain w n where w: "world s1 = (w, n)"
    by (cases "world s1")
  obtain w' reply late where call: "drive E (peer_at (drv s1) slot) prompt w = (w', reply, late)"
    by (metis prod_cases3)
  have er: "(erase s1)\<lparr>world := w', deadline_fired := l, raw := rw\<rparr>
      = erase (s1\<lparr>world := (w', Suc n), deadline_fired := l, raw := rw\<rparr>)" for l rw
    by (simp add: erase_def)
  show ?thesis
    using 1 w call
    by (cases o1)
      (simp_all add: drive_turn_def er erase_stop erase_settle
        split: prod.splits option.splits sum.splits turn_reply.splits)
qed

lemma erase_run_slot:
  "run_slot decode sha256 E (erase s) slot rounds
   = map_prod erase id (run_slot decode sha256 (counted E) s slot rounds)"
proof -
  have "(case map_option render_delivery (cand (dstate (drv s))) of
      None \<Rightarrow> (erase s, None) | Some content \<Rightarrow> deliver E (erase s) slot content)
    = map_prod erase id (case map_option render_delivery (cand (dstate (drv s))) of
      None \<Rightarrow> (s, None) | Some content \<Rightarrow> deliver (counted E) s slot content)"
    by (simp add: erase_deliver split: option.splits)
  then show ?thesis
    by (simp add: run_slot_def Let_def erase_drive split: prod.splits option.splits slot_result.splits)
qed

lemma erase_run_slots:
  "run_slots decode sha256 E cap (erase s) slot rounds
   = map_prod erase id (run_slots decode sha256 (counted E) cap s slot rounds)"
proof (induction decode sha256 "counted E" cap s slot rounds rule: run_slots.induct)
  case (1 decode sha256 cap s slot rounds)
  obtain w n where w: "world s = (w, n)"
    by (cases "world s")
  obtain w' c where wc: "cancelled E w = (w', c)"
    by (cases "cancelled E w")
  show ?case
  proof (cases c)
    case True
    then show ?thesis
      by (subst (1 2) run_slots.simps) (simp add: w wc erase_def)
  next
    case False
    define s0 where "s0 = s\<lparr>world := (w', n), deadline_fired := False, slot_spent := 0\<rparr>"
    have er: "(erase s)\<lparr>world := w', deadline_fired := False, slot_spent := 0\<rparr> = erase s0"
      by (simp add: s0_def erase_def)
    obtain s1 o1 where r: "run_slot decode sha256 (counted E) s0 slot rounds = (s1, o1)"
      by (cases "run_slot decode sha256 (counted E) s0 slot rounds")
    have r': "run_slot decode sha256 E (erase s0) slot rounds = (erase s1, o1)"
      using erase_run_slot [of decode sha256 E s0 slot rounds] r by simp
    have call: "cancelled (counted E) (world s) = ((w', n), c)"
      by (simp add: w wc)
    show ?thesis
    proof (cases o1)
      case (Some out)
      with False show ?thesis
        by (subst (1 2) run_slots.simps) (simp add: w wc er s0_def [symmetric] r r')
    next
      case None
      note IH = "1.hyps" [OF call [symmetric] refl False r [symmetric, unfolded s0_def] None]
      show ?thesis
        using False None IH
        by (subst (1 2) run_slots.simps) (simp add: w wc er s0_def [symmetric] r r')
    qed
  qed
qed

lemma counted_report:
  "fst (pair_run decode sha256 (counted E) d (w, n)) = fst (pair_run decode sha256 E d w)"
proof -
  define s where "s = \<lparr>drv = d, raw = (None, None), world = (w, n), deadline_fired = False,
    slot_spent = 0\<rparr>"
  have er: "erase s = \<lparr>drv = d, raw = (None, None), world = w, deadline_fired = False, slot_spent = 0\<rparr>"
    by (simp add: s_def erase_def)
  obtain s' r out where "run_slots decode sha256 (counted E) (unat (max_rounds (bounds d))) s 0 0
      = (s', r, out)"
    by (metis prod_cases3)
  with erase_run_slots [of decode sha256 E "unat (max_rounds (bounds d))" s 0 0]
  show ?thesis
    by (simp add: pair_run_def er s_def [symmetric] Let_def)
qed

end
