(* ===== verification/Pair_Spec.thy ===== *)
theory Pair_Spec
  imports Pair_Inv
begin

text \<open>
  What the pair driver promises, for every reader of envelopes, every digest and every behaviour
  of the endpoints.
\<close>

lemma driver_newD:
  assumes "driver_new a b task bs = Inr d"
  shows "dstate d = pair_distinct a b" "peers d = (a, b)" "bounds d = bs" "a \<noteq> b"
    "0 < unat (max_rounds bs)"
  using assms by (auto simp: driver_new_def unat_gt_0 split: if_splits)

text \<open>A scripted pair: each drive answers with the next reply.\<close>

definition scripted :: "turn_reply list pair_endpoints" where
  "scripted =
     \<lparr>cancelled = (\<lambda>w. (w, False)),
      notify = (\<lambda>a b m w. (w, Inr Delivered, False)),
      drive = (\<lambda>p m w. case w of [] \<Rightarrow> ([], Inr TurnNoProgress, False)
                        | r # rs \<Rightarrow> (rs, Inr r, False))\<rparr>"

definition demo_decode :: "string \<Rightarrow> string + u32 \<times> pair_action" where
  "demo_decode s =
     (if s = ''p'' then Inr (1, Propose ''text'')
      else if s = ''a'' then Inr (1, Agree 1 ''text'')
      else Inl ''expected value'')"

definition demo_pair :: pair_driver where
  "demo_pair =
     \<lparr>dstate = pair_distinct 1 2, peers = (1, 2), original_task = ''task'',
      bounds = \<lparr>max_rounds = 3, slot_timeout = 5, slot_token_budget = 0\<rparr>,
      progress_of =
        \<lparr>completed_rounds = 0, progress_max_rounds = 3, next_peer = Some 1,
         progress_candidate = None, agreements = ((1, False), (2, False)),
         repairing_peer = None\<rparr>\<rparr>"

lemma demo_pair_new:
  "driver_new 1 2 ''task'' \<lparr>max_rounds = 3, slot_timeout = 5, slot_token_budget = 0\<rparr> = Inr demo_pair"
  by (simp add: driver_new_def demo_pair_def)

lemma run_facts:
  assumes "driver_new a b task bs = Inr d" "pair_run decode sha256 E d w = (rep, w')"
  shows "report_peers rep = (a, b) \<and> report_rounds rep \<le> unat (max_rounds bs)
    \<and> (\<forall>k. report_outcome rep = CapReached k \<longrightarrow>
          k = unat (max_rounds bs) \<and> report_rounds rep = unat (max_rounds bs))
    \<and> (\<forall>r. report_outcome rep = Converged r \<longrightarrow>
          2 \<le> unat (max_rounds bs)
          \<and> (\<exists>c e1 e2. report_candidate rep = Some c \<and> revision c = r \<and> wf_candidate sha256 c
              \<and> report_raw rep = (Some e1, Some e2)
              \<and> parse_action decode e1 = Inr (Agree r (digest c))
              \<and> parse_action decode e2 = Inr (Agree r (digest c))))"
proof -
  note d = driver_newD [OF assms(1)]
  define s0 where "s0 = \<lparr>drv = d, raw = (None, None), world = w, deadline_fired = False,
    slot_spent = 0\<rparr>"
  have inv: "slot_inv decode sha256 0 s0"
    using d wf_distinct [of sha256 a b] by (simp add: slot_inv_def s0_def pair_distinct_def)
  obtain s rounds out where run:
    "run_slots decode sha256 E (unat (max_rounds bs)) s0 0 0 = (s, rounds, out)"
    by (metis prod_cases3)
  from run_slots_inv [OF run inv] d have f: "same_setup d (drv s)" "rounds \<le> unat (max_rounds bs)"
    "\<forall>k. out = Converged k \<longrightarrow> (\<exists>n. converged_ok decode sha256 n s k \<and> n < 2 * unat (max_rounds bs)
          \<and> rounds = (n + 1) div 2)"
    "\<forall>k. out = CapReached k \<longrightarrow> k = unat (max_rounds bs) \<and> rounds = unat (max_rounds bs)"
    by (simp_all add: s0_def)
  have rep: "rep = \<lparr>report_outcome = out, report_rounds = rounds, report_peers = peers (drv s),
      report_raw = raw s, report_candidate = cand (dstate (drv s))\<rparr>"
    using assms(2) run d by (simp add: pair_run_def s0_def publish_def publish_state_def)
  have "2 \<le> unat (max_rounds bs)
      \<and> (\<exists>c e1 e2. report_candidate rep = Some c \<and> revision c = r \<and> wf_candidate sha256 c
          \<and> report_raw rep = (Some e1, Some e2)
          \<and> parse_action decode e1 = Inr (Agree r (digest c))
          \<and> parse_action decode e2 = Inr (Agree r (digest c)))" if "out = Converged r" for r
  proof -
    from f(3) that obtain n where n: "converged_ok decode sha256 n s r" "n < 2 * unat (max_rounds bs)"
      by blast
    then have "2 \<le> unat (max_rounds bs)"
      by (auto simp: converged_ok_def)
    moreover from n obtain c e1 e2 where "cand (dstate (drv s)) = Some c" "revision c = r"
      "wf_candidate sha256 c" "raw s = (Some e1, Some e2)"
      "parse_action decode e1 = Inr (Agree r (digest c))"
      "parse_action decode e2 = Inr (Agree r (digest c))"
      by (cases "raw s") (auto simp: converged_ok_def backed_def own_raw_def)
    ultimately show ?thesis
      by (simp add: rep)
  qed
  then show ?thesis
    using f d by (simp add: rep same_setup_def)
qed

text \<open>
  C17. Convergence means agreement. When a pair ends as converged on a revision, the report carries
  the candidate of exactly that revision, its digest is the digest of the reported artifact,
  the artifact has no carriage return, and the last thing each of the two peers said was to
  agree to that revision and digest. A pair whose cap is one round never converges.
\<close>

theorem convergence_means_agreement:
  assumes "driver_new a b task bs = Inr d" "pair_run decode sha256 E d w = (rep, w')"
    and "report_outcome rep = Converged r"
  shows "\<exists>c e1 e2. report_candidate rep = Some c \<and> revision c = r
     \<and> digest c = sha256 (artifact c) \<and> CHR 0x0D \<notin> set (artifact c)
     \<and> raw_for rep a = Some e1 \<and> raw_for rep b = Some e2
     \<and> parse_action decode e1 = Inr (Agree r (digest c))
     \<and> parse_action decode e2 = Inr (Agree r (digest c))
     \<and> 2 \<le> unat (max_rounds bs)"
proof -
  have "a \<noteq> b"
    using driver_newD [OF assms(1)] by simp
  with run_facts [OF assms(1,2)] assms(3) show ?thesis
    by (auto simp: wf_candidate_def raw_for_def)
qed

theorem convergence_means_agreement_witness:
  "\<exists>c e1 e2. report_candidate
       (fst (pair_run demo_decode id scripted demo_pair
          [Produced ''p'' 1, Produced ''a'' 1, Produced ''?'' 1, Produced ''a'' 1])) = Some c
     \<and> revision c = 1 \<and> parse_action demo_decode e1 = Inr (Agree 1 (digest c))
     \<and> parse_action demo_decode e2 = Inr (Agree 1 (digest c))"
proof -
  define script where "script = [Produced ''p'' 1, Produced ''a'' 1, Produced ''?'' 1, Produced ''a'' 1]"
  have "report_outcome (fst (pair_run demo_decode id scripted demo_pair script)) = Converged 1"
    unfolding script_def by code_simp
  from convergence_means_agreement [OF demo_pair_new prod.collapse [symmetric] this]
  show ?thesis
    unfolding script_def by blast
qed

text \<open>
  C36. A pair always ends, and soon: whatever the endpoints answer, a run makes at most six endpoint
  calls for each round of its cap (one delivery and two drives per slot), and reports no more
  rounds than the cap, exactly the cap when the cap stopped it.
\<close>

theorem pair_run_is_bounded:
  assumes "driver_new a b task bs = Inr d" "pair_run decode sha256 E d w = (rep, w')"
  shows "(\<exists>w'' n. pair_run decode sha256 (counted E) d (w, 0) = (rep, w'', n)
        \<and> n \<le> 6 * unat (max_rounds bs))
    \<and> report_rounds rep \<le> unat (max_rounds bs)
    \<and> (\<forall>k. report_outcome rep = CapReached k \<longrightarrow> report_rounds rep = unat (max_rounds bs))"
proof -
  note d = driver_newD [OF assms(1)]
  obtain w'' n where run: "pair_run decode sha256 (counted E) d (w, 0) = (rep, w'', n)"
    using counted_report [of decode sha256 E d w 0] assms(2) by (metis fst_conv surj_pair)
  obtain s rounds out where slots:
    "run_slots decode sha256 (counted E) (unat (max_rounds bs))
       \<lparr>drv = d, raw = (None, None), world = (w, 0), deadline_fired = False, slot_spent = 0\<rparr> 0 0
     = (s, rounds, out)"
    by (metis prod_cases3)
  have "snd (world s) \<le> 6 * unat (max_rounds bs)"
    using cnt.calls_run_slots [OF slots] d by simp
  moreover have "world s = (w'', n)"
    using run slots d by (simp add: pair_run_def Let_def)
  ultimately show ?thesis
    using run run_facts [OF assms] by auto
qed

theorem pair_run_is_bounded_witness:
  "\<exists>w'' n. pair_run demo_decode id (counted scripted) demo_pair ([Produced ''p'' 1], 0)
     = (fst (pair_run demo_decode id scripted demo_pair [Produced ''p'' 1]), w'', n) \<and> n \<le> 18"
  using pair_run_is_bounded [OF demo_pair_new prod.collapse [symmetric],
      of demo_decode id scripted "[Produced ''p'' 1]"]
  by simp

text \<open>
  Line endings do not matter: the same text written with the line ends of Windows installs the
  very same candidate, with the same digest, so two peers on different platforms can agree.
\<close>

theorem line_endings_do_not_matter:
  assumes "CHR 0x0D \<notin> set text"
  shows "install sha256 st (crlf text) = install sha256 st text
    \<and> canonicalize (crlf text) = text \<and> canonicalize text = text"
  using canonicalize_crlf [OF assms] canonicalize_id [OF assms] by (simp add: install_def)

theorem line_endings_do_not_matter_witness:
  "canonicalize (crlf ''a b'') = ''a b''"
  using line_endings_do_not_matter [of "''a b''" id "pair_distinct 1 2"] by simp

text \<open>A pair aborted before it starts calls no endpoint at all.\<close>

lemma aborted_before_start:
  assumes "cancelled E w = (w', True)"
  shows "snd (pair_run decode sha256 E d w) = w'
    \<and> report_outcome (fst (pair_run decode sha256 E d w)) = Aborted
    \<and> report_raw (fst (pair_run decode sha256 E d w)) = (None, None)"
  using assms by (simp add: pair_run_def run_slots.simps Let_def)

end
