(* ===== verification/Host_Inv.thy ===== *)
theory Host_Inv
  imports Session_Host
begin

text \<open>
  Interleavings of the tasks around a session host. A run is a list of actions, each a section that
  the code executes under one lock; an action whose task does not exist or cannot get the runtime
  leaves the host as it is. The labels say what became of a piece of work.
\<close>

section \<open>Actions\<close>

datatype 'e host_action =
    Submit string bool "string option"
  | SetGate
  | CancelTake
  | CancelFire token
  | CancelTurn
  | Task nat nat "'e list" bool
  | OutsideStart
  | OutsideStep nat "'e list"
  | ReserveCommand
  | CommandLock
  | CommandUnlock
  | DropCommand
  | CloseAdmission
  | PushIntervention string string string
  | TryFlush
  | PublishEvent "'e host_event"
  | Inject soft_interrupt
  | Steer string
  | SafePoint
  | HandOver admission

datatype host_label = Accepted follow_up | Begun follow_up | Gone follow_up

definition accepts :: "admit \<Rightarrow> bool" where
  "accepts r \<longleftrightarrow> r = AdmitStarted \<or> r = AdmitQueued"

fun task_labels :: "'e session_host \<Rightarrow> bool \<Rightarrow> loop_task \<Rightarrow> host_label list" where
  "task_labels s allowed (Checking w t) = (if t \<in> sh_cancelled s then [Gone w] else [])"
| "task_labels s allowed (Gating w t) = (if gate_refuses s w allowed then [Gone w] else [])"
| "task_labels s allowed (Driving w t g) = (if g = Published then [Begun w] else [])"
| "task_labels s allowed _ = []"

definition replace_task :: "nat \<Rightarrow> loop_task option \<Rightarrow> loop_task list \<Rightarrow> loop_task list" where
  "replace_task i r ls = (case r of None \<Rightarrow> take i ls @ drop (i + 1) ls | Some l \<Rightarrow> ls[i := l])"

definition act_task ::
  "nat \<Rightarrow> nat \<Rightarrow> 'e list \<Rightarrow> bool \<Rightarrow> 'e session_host \<Rightarrow> 'e session_host \<times> host_label list" where
  "act_task i now emitted allowed s =
     (if length (sh_loops s) \<le> i then (s, [])
      else
        (let (s', r) = task_step now emitted allowed s (sh_loops s ! i)
         in (s'\<lparr>sh_loops := replace_task i r (sh_loops s)\<rparr>, task_labels s allowed (sh_loops s ! i))))"

definition act_outside_start :: "'e session_host \<Rightarrow> 'e session_host" where
  "act_outside_start s =
     (if lock_free s then s\<lparr>sh_outside := Some (sh_next s, Acquired), sh_next := sh_next s + 1\<rparr> else s)"

definition act_outside_step :: "nat \<Rightarrow> 'e list \<Rightarrow> 'e session_host \<Rightarrow> 'e session_host" where
  "act_outside_step now emitted s =
     (case sh_outside s of
        None \<Rightarrow> s
      | Some (t, g) \<Rightarrow>
          (let (s', r) = run_stage now emitted s t g
           in s'\<lparr>sh_outside := map_option (Pair t) r\<rparr>))"

fun host_act :: "'e host_action \<Rightarrow> 'e session_host \<Rightarrow> 'e session_host \<times> host_label list" where
  "host_act (Submit text q origin) s =
     (let (s', r) = submit_from s text q origin
      in (s', if accepts r then [Accepted \<lparr>fu_text = text, fu_origin = origin\<rparr>] else []))"
| "host_act SetGate s = (set_origin_gate s, [])"
| "host_act CancelTake s = (cancel_take s, map Gone (ad_follow_ups (sh_adm s)))"
| "host_act (CancelFire t) s = (if t \<in> set (sh_firing s) then cancel_fire s t else s, [])"
| "host_act CancelTurn s = (cancel_turn s, [])"
| "host_act (Task i now emitted allowed) s = act_task i now emitted allowed s"
| "host_act OutsideStart s = (act_outside_start s, [])"
| "host_act (OutsideStep now emitted) s = (act_outside_step now emitted s, [])"
| "host_act ReserveCommand s = (fst (reserve_command s), [])"
| "host_act CommandLock s =
     (if ad_command (sh_adm s) \<and> lock_free s then s\<lparr>sh_command_lock := True\<rparr> else s, [])"
| "host_act CommandUnlock s = (s\<lparr>sh_command_lock := False\<rparr>, [])"
| "host_act DropCommand s =
     (if ad_command (sh_adm s) \<and> \<not> sh_command_lock s then drop_command s else s, [])"
| "host_act CloseAdmission s = (fst (close_admission s), [])"
| "host_act (PushIntervention a d c) s = (push_intervention s a d c, [])"
| "host_act TryFlush s = (try_flush s, [])"
| "host_act (PublishEvent e) s = (publish_event s e, [])"
| "host_act (Inject i) s = (host_inject s i, [])"
| "host_act (Steer text) s = (steer s text, [])"
| "host_act SafePoint s = (admit_steered s, [])"
| "host_act (HandOver g) s = (s\<lparr>sh_steer := (sh_steer s)\<lparr>sq_gate := g\<rparr>\<rparr>, [])"

fun host_run :: "'e host_action list \<Rightarrow> 'e session_host \<Rightarrow> 'e session_host \<times> host_label list" where
  "host_run [] s = (s, [])"
| "host_run (a # acts) s =
     (let (s1, ls) = host_act a s; (s2, ls') = host_run acts s1 in (s2, ls @ ls'))"

lemma host_run_append:
  "host_run (as @ bs) s =
     (fst (host_run bs (fst (host_run as s))), snd (host_run as s) @ snd (host_run bs (fst (host_run as s))))"
  by (induction as arbitrary: s) (simp_all add: Let_def split_beta)

section \<open>The invariant\<close>

definition lock_holders :: "'e session_host \<Rightarrow> nat" where
  "lock_holders s =
     length (filter task_holds (sh_loops s)) + of_bool (sh_outside s \<noteq> None) + of_bool (sh_command_lock s)"

text \<open>The token of the turn that holds the runtime, once it is published.\<close>

definition token_in :: "(token \<times> stage) option \<Rightarrow> loop_task list \<Rightarrow> token option" where
  "token_in outside loops =
     (case outside of
        Some (t, g) \<Rightarrow> if g = Acquired then None else Some t
      | None \<Rightarrow>
          (case loops of
             [Driving w t g] \<Rightarrow> if g = Acquired then None else Some t
           | _ \<Rightarrow> None))"

definition published_token :: "'e session_host \<Rightarrow> token option" where
  "published_token s = token_in (sh_outside s) (sh_loops s)"

definition host_ok :: "'e session_host \<Rightarrow> bool" where
  "host_ok s \<longleftrightarrow>
     length (sh_loops s) = of_bool (ad_running (sh_adm s))
     \<and> (ad_follow_ups (sh_adm s) \<noteq> [] \<longrightarrow> ad_running (sh_adm s))
     \<and> length (ad_follow_ups (sh_adm s)) \<le> FOLLOW_UP_CAPACITY
     \<and> (ad_command (sh_adm s) \<longrightarrow> \<not> ad_running (sh_adm s) \<and> \<not> ad_closed (sh_adm s))
     \<and> (ad_closed (sh_adm s) \<longrightarrow> \<not> ad_running (sh_adm s))
     \<and> (sh_command_lock s \<longrightarrow> ad_command (sh_adm s))
     \<and> lock_holders s \<le> 1
     \<and> sh_turn_cancel s = published_token s"

lemma host_ok_new: "host_ok (session_host_new g now)"
  by (simp add: host_ok_def session_host_new_def admission_default_def lock_holders_def published_token_def token_in_def)

lemmas host_defs =
  host_ok_def lock_holders_def published_token_def token_in_def lock_free_def FOLLOW_UP_CAPACITY_def

lemmas op_defs =
  submit_from_def spawn_admitted_def set_origin_gate_def cancel_take_def cancel_fire_def cancel_turn_def
  reserve_command_def drop_command_def close_admission_def flush_interventions_def push_intervention_def
  try_flush_def publish_event_def host_inject_def steer_def touch_def set_turn_token_def pop_next_def
  admit_steered_def

text \<open>With at most one task, it is the task at position 0.\<close>

lemma one_task:
  assumes "host_ok s" "i < length (sh_loops s)"
  obtains l where "sh_loops s = [l]" "i = 0" "ad_running (sh_adm s)"
  using assms by (cases "sh_loops s") (auto simp: host_ok_def of_bool_def split: if_splits)

lemma host_ok_submit: "host_ok s \<Longrightarrow> host_ok (fst (submit_from s text q origin))"
  by (auto simp: host_defs op_defs Let_def turn_in_flight_def hd_append split: option.splits list.splits if_splits)

lemma host_ok_task:
  assumes "host_ok s"
  shows "host_ok (fst (act_task i now emitted allowed s))"
proof (cases "i < length (sh_loops s)")
  case True
  then obtain l where l: "sh_loops s = [l]" "i = 0" "ad_running (sh_adm s)"
    using assms by (auto elim: one_task)
  show ?thesis
  proof (cases l)
    case (Driving w t g)
    then show ?thesis
      using assms l
      by (cases g) (auto simp: act_task_def replace_task_def host_defs op_defs Let_def
          split: option.splits)
  qed (use assms l in \<open>auto simp: act_task_def replace_task_def host_defs op_defs Let_def
        split: option.splits list.splits\<close>)
qed (use assms in \<open>simp add: act_task_def\<close>)

lemma host_ok_outside_step:
  assumes "host_ok s"
  shows "host_ok (act_outside_step now emitted s)"
proof (cases "sh_outside s")
  case (Some x)
  obtain t g where x: "x = (t, g)"
    by fastforce
  have "filter task_holds (sh_loops s) = []" "\<not> sh_command_lock s"
    using assms Some by (auto simp: host_ok_def lock_holders_def of_bool_def split: if_splits)
  then show ?thesis
    using assms Some x
    by (cases g) (auto simp: act_outside_step_def host_defs op_defs Let_def filter_empty_conv
        split: option.splits list.splits loop_task.splits)
qed (use assms in \<open>simp add: act_outside_step_def\<close>)

lemma host_ok_outside_start: "host_ok s \<Longrightarrow> host_ok (act_outside_start s)"
  by (auto simp: act_outside_start_def host_defs list_all_iff filter_empty_conv
      split: option.splits list.splits loop_task.splits if_splits)

lemma host_ok_cong:
  assumes "host_ok s" "sh_loops s' = sh_loops s" "sh_outside s' = sh_outside s"
    and "sh_command_lock s' = sh_command_lock s" "sh_turn_cancel s' = sh_turn_cancel s"
    and "sh_adm s' = sh_adm s"
  shows "host_ok s'"
  using assms by (simp add: host_ok_def lock_holders_def published_token_def)

lemma host_ok_cancel:
  assumes "host_ok s"
  shows "host_ok (cancel_take s)" "host_ok (cancel_fire s t)" "host_ok (cancel_turn s)"
proof -
  show "host_ok (cancel_take s)" "host_ok (cancel_fire s t)"
    using assms
    by (simp_all add: host_ok_def lock_holders_def published_token_def cancel_take_def cancel_fire_def)
  show "host_ok (cancel_turn s)"
    by (rule host_ok_cong [OF assms]) (simp_all add: cancel_turn_def split: option.splits)
qed

lemma host_ok_command:
  assumes "host_ok s"
  shows "host_ok (fst (reserve_command s))" "host_ok (fst (close_admission s))"
    and "\<not> sh_command_lock s \<Longrightarrow> host_ok (drop_command s)"
    and "ad_command (sh_adm s) \<Longrightarrow> lock_free s \<Longrightarrow> host_ok (s\<lparr>sh_command_lock := True\<rparr>)"
    and "host_ok (s\<lparr>sh_command_lock := False\<rparr>)"
  using assms
  by (auto simp: host_ok_def lock_holders_def published_token_def lock_free_def reserve_command_def
      close_admission_def drop_command_def turn_in_flight_def Let_def list_all_iff filter_empty_conv)

lemma host_ok_steer:
  assumes "host_ok s"
  shows "host_ok (set_origin_gate s)" "host_ok (push_intervention s a d c)" "host_ok (try_flush s)"
    "host_ok (publish_event s e)" "host_ok (host_inject s i)" "host_ok (steer s x)"
    "host_ok (s\<lparr>sh_steer := q\<rparr>)" "host_ok (admit_steered s)"
  using assms
  by (simp_all add: admit_steered_def host_ok_def lock_holders_def published_token_def set_origin_gate_def
      push_intervention_def try_flush_def flush_interventions_def publish_event_def host_inject_def
      steer_def)

lemmas host_ok_acts =
  host_ok_submit host_ok_task host_ok_outside_step host_ok_outside_start host_ok_cancel host_ok_command
  host_ok_steer

lemma host_ok_act: "host_ok s \<Longrightarrow> host_ok (fst (host_act a s))"
  by (cases a) (simp_all add: host_ok_acts split_beta Let_def)

lemma host_ok_run: "host_ok s \<Longrightarrow> host_ok (fst (host_run acts s))"
  by (induction acts arbitrary: s) (simp_all add: Let_def split_beta host_ok_act)

text \<open>
  What becomes of admitted input, whatever the interleaving: the order it runs in, that none of it is
  lost, that the task drains the queue, and what a cancel reaches.
\<close>

section \<open>Work and its labels\<close>

definition accepted :: "host_label list \<Rightarrow> follow_up list" where
  "accepted ls = List.map_filter (\<lambda>l. case l of Accepted w \<Rightarrow> Some w | _ \<Rightarrow> None) ls"

definition begun :: "host_label list \<Rightarrow> follow_up list" where
  "begun ls = List.map_filter (\<lambda>l. case l of Begun w \<Rightarrow> Some w | _ \<Rightarrow> None) ls"

definition gone :: "host_label list \<Rightarrow> follow_up list" where
  "gone ls = List.map_filter (\<lambda>l. case l of Gone w \<Rightarrow> Some w | _ \<Rightarrow> None) ls"

lemma history_simps [simp]:
  "accepted [] = []" "begun [] = []" "gone [] = []"
  "accepted (ls @ ls') = accepted ls @ accepted ls'" "begun (ls @ ls') = begun ls @ begun ls'"
  "gone (ls @ ls') = gone ls @ gone ls'"
  "accepted [Accepted w] = [w]" "accepted [Begun w] = []" "accepted [Gone w] = []"
  "begun [Accepted w] = []" "begun [Begun w] = [w]" "begun [Gone w] = []"
  "gone [Accepted w] = []" "gone [Begun w] = []" "gone [Gone w] = [w]"
  by (simp_all add: accepted_def begun_def gone_def List.map_filter_def)

lemma history_gone [simp]: "accepted (map Gone ws) = []" "begun (map Gone ws) = []" "gone (map Gone ws) = ws"
  by (induction ws) (simp_all add: accepted_def begun_def gone_def List.map_filter_def)

fun task_work :: "loop_task \<Rightarrow> follow_up list" where
  "task_work (Checking w t) = [w]"
| "task_work (Waiting w t) = [w]"
| "task_work (Gating w t) = [w]"
| "task_work (Driving w t g) = (if g = Acquired \<or> g = Published then [w] else [])"
| "task_work Popping = []"

text \<open>The work that was accepted and has not begun, in the order it will.\<close>

definition pending :: "'e session_host \<Rightarrow> follow_up list" where
  "pending s = concat (map task_work (sh_loops s)) @ ad_follow_ups (sh_adm s)"

definition moves :: "follow_up list \<Rightarrow> host_label list \<Rightarrow> follow_up list \<Rightarrow> bool" where
  "moves p ls p' \<longleftrightarrow>
     (ls = [] \<and> p' = p) \<or> (\<exists>w. ls = [Accepted w] \<and> p' = p @ [w])
     \<or> (\<exists>w. (ls = [Begun w] \<or> ls = [Gone w]) \<and> p = w # p') \<or> (\<exists>ws. ls = map Gone ws \<and> p = p' @ ws)"

lemma moves_refl [simp]: "moves p [] p"
  by (simp add: moves_def)

lemma pending_cong:
  "sh_loops s' = sh_loops s \<Longrightarrow> ad_follow_ups (sh_adm s') = ad_follow_ups (sh_adm s) \<Longrightarrow> pending s' = pending s"
  by (simp add: pending_def)

lemma moves_submit:
  assumes "host_ok s"
  shows "moves (pending s) (if accepts (snd (submit_from s c q origin)) then [Accepted \<lparr>fu_text = c, fu_origin = origin\<rparr>] else [])
    (pending (fst (submit_from s c q origin)))"
proof -
  have "\<not> ad_running (sh_adm s) \<Longrightarrow> sh_loops s = [] \<and> ad_follow_ups (sh_adm s) = []"
    using assms by (auto simp: host_ok_def)
  then show ?thesis
    by (auto simp: submit_from_def spawn_admitted_def accepts_def moves_def pending_def Let_def)
qed

lemma moves_task:
  assumes "host_ok s" "act_task i now emitted allowed s = (s', ls)"
  shows "moves (pending s) ls (pending s')"
proof (cases "i < length (sh_loops s)")
  case True
  then obtain l where l: "sh_loops s = [l]" "i = 0"
    using assms(1) by (auto elim: one_task)
  show ?thesis
  proof (cases l)
    case (Driving w t g)
    then show ?thesis
      using assms(2) l
      by (cases g) (auto simp: act_task_def replace_task_def pending_def moves_def op_defs)
  qed (use assms(2) l in \<open>auto simp: act_task_def replace_task_def pending_def moves_def pop_next_def Let_def
        split: list.splits if_splits\<close>)
qed (use assms(2) in \<open>simp add: act_task_def\<close>)

lemma pending_outside [simp]:
  "pending (act_outside_start s) = pending s" "pending (act_outside_step now emitted s) = pending s"
proof -
  show "pending (act_outside_start s) = pending s"
    by (rule pending_cong) (simp_all add: act_outside_start_def)
  show "pending (act_outside_step now emitted s) = pending s"
  proof (cases "sh_outside s")
    case (Some x)
    obtain t g where "x = (t, g)"
      by fastforce
    with Some show ?thesis
      by (intro pending_cong) (cases g; simp add: act_outside_step_def op_defs)+
  qed (simp add: act_outside_step_def)
qed

lemma moves_act:
  assumes "host_ok s" "host_act a s = (s', ls)"
  shows "moves (pending s) ls (pending s')"
proof (cases a)
  case (Submit c q origin)
  then show ?thesis
    using moves_submit [OF assms(1), of c q origin] assms(2) by (auto simp: Let_def split_beta)
next
  case (Task i now emitted allowed)
  then show ?thesis
    using moves_task [OF assms(1)] assms(2) by simp
next
  case CancelTake
  then show ?thesis
    using assms(2) by (auto simp: moves_def pending_def cancel_take_def)
next
  case OutsideStart
  then show ?thesis
    using assms(2) by auto
next
  case (OutsideStep now emitted)
  then show ?thesis
    using assms(2) by auto
qed (use assms(2) in \<open>auto simp: pending_def op_defs Let_def split: option.splits if_splits\<close>)

lemma moves_history:
  assumes "moves p ls p'" "subseq (b @ p) a"
  shows "subseq ((b @ begun ls) @ p') (a @ accepted ls)"
    and "mset a = mset b + g + mset p \<Longrightarrow>
      mset (a @ accepted ls) = mset (b @ begun ls) + (g + mset (gone ls)) + mset p'"
proof -
  show "subseq ((b @ begun ls) @ p') (a @ accepted ls)"
    using assms
  proof (auto simp: moves_def)
    show "subseq (b @ p @ [w]) (a @ [w])" if "subseq (b @ p) a" for w
      using list_emb_append_mono [OF that, of "[w]" "[w]"] by simp
    show "subseq (b @ p') a" if "subseq (b @ w # p') a" for w
      using that by (meson list_emb_append_mono subseq_Cons' subseq_order.trans subseq_order.refl)
    show "subseq (b @ p') a" if "subseq (b @ p' @ ws) a" for ws
      using that by (metis append.assoc subseq_order.trans subseq_rev_drop_many subseq_order.refl)
  qed
  show "mset (a @ accepted ls) = mset (b @ begun ls) + (g + mset (gone ls)) + mset p'"
    if "mset a = mset b + g + mset p"
    using that assms(1) by (auto simp: moves_def)
qed

lemma history_run:
  assumes "host_ok s" "subseq (b @ pending s) a" "mset a = mset b + g + mset (pending s)"
    and "host_run acts s = (s', ls)"
  shows "subseq ((b @ begun ls) @ pending s') (a @ accepted ls)
    \<and> mset (a @ accepted ls) = mset (b @ begun ls) + (g + mset (gone ls)) + mset (pending s')"
  using assms
proof (induction acts arbitrary: s b a g ls)
  case (Cons act acts)
  obtain s1 l1 where act: "host_act act s = (s1, l1)"
    by fastforce
  obtain l2 where run: "host_run acts s1 = (s', l2)" and ls: "ls = l1 @ l2"
    using Cons.prems(4) act by (cases "host_run acts s1") auto
  note m = moves_act [OF Cons.prems(1) act]
  have "host_ok s1"
    using host_ok_act [OF Cons.prems(1), of act] act by simp
  from Cons.IH [OF this moves_history(1) [OF m Cons.prems(2)] moves_history(2) [OF m Cons.prems(2,3)] run]
  show ?case
    by (simp add: ls ac_simps)
qed simp

section \<open>Draining\<close>

text \<open>Steps the task still has to take, when nobody else holds the runtime.\<close>

fun task_rank :: "loop_task \<Rightarrow> nat" where
  "task_rank (Checking w t) = 8"
| "task_rank (Waiting w t) = 7"
| "task_rank (Gating w t) = 6"
| "task_rank (Driving w t g) = (case g of Acquired \<Rightarrow> 5 | Published \<Rightarrow> 4 | Turning \<Rightarrow> 3 | Ended \<Rightarrow> 2)"
| "task_rank Popping = 1"

definition work_left :: "'e session_host \<Rightarrow> nat" where
  "work_left s = sum_list (map task_rank (sh_loops s)) + 8 * length (ad_follow_ups (sh_adm s))"

definition undisturbed :: "'e session_host \<Rightarrow> bool" where
  "undisturbed s \<longleftrightarrow> sh_outside s = None \<and> \<not> sh_command_lock s"

lemma task_advances:
  assumes "host_ok s" "undisturbed s" "ad_running (sh_adm s)"
  shows "undisturbed (fst (act_task 0 now emitted allowed s))
    \<and> work_left (fst (act_task 0 now emitted allowed s)) < work_left s"
proof -
  obtain l where l: "sh_loops s = [l]"
    using assms(1,3) by (cases "sh_loops s") (auto simp: host_ok_def)
  show ?thesis
  proof (cases l)
    case (Driving w t g)
    then show ?thesis
      using assms(2) l
      by (cases g) (auto simp: act_task_def replace_task_def undisturbed_def work_left_def op_defs)
  qed (use assms(2) l in \<open>auto simp: act_task_def replace_task_def undisturbed_def work_left_def
        pop_next_def lock_free_def Let_def split: list.splits\<close>)
qed

lemma idle_pending: "host_ok s \<Longrightarrow> \<not> ad_running (sh_adm s) \<Longrightarrow> pending s = []"
  by (auto simp: host_ok_def pending_def)

lemma task_drains:
  assumes "host_ok s" "undisturbed s"
  shows "\<exists>n \<le> work_left s. \<not> ad_running (sh_adm (fst (host_run (replicate n (Task 0 now emitted allowed)) s)))"
  using assms
proof (induction s rule: measure_induct_rule [of work_left])
  case (less s)
  let ?s = "fst (act_task 0 now emitted allowed s)"
  show ?case
  proof (cases "ad_running (sh_adm s)")
    case False
    then show ?thesis
      by (intro exI [of _ 0]) simp
  next
    case True
    note adv = task_advances [OF less.prems True, of now emitted allowed]
    have "host_ok ?s"
      using less.prems(1) by (rule host_ok_task)
    then obtain n where "n \<le> work_left ?s"
      "\<not> ad_running (sh_adm (fst (host_run (replicate n (Task 0 now emitted allowed)) ?s)))"
      using less.IH [of ?s] adv by blast
    then show ?thesis
      using adv by (intro exI [of _ "Suc n"]) (simp add: Let_def split_beta)
  qed
qed

section \<open>What a cancel reaches\<close>

fun task_token :: "loop_task \<Rightarrow> token option" where
  "task_token (Checking w t) = Some t"
| "task_token (Waiting w t) = Some t"
| "task_token (Gating w t) = Some t"
| "task_token (Driving w t g) = Some t"
| "task_token Popping = None"

text \<open>Without turns driven from outside, a task's token is always where a cancel finds it.\<close>

definition within_reach :: "'e session_host \<Rightarrow> bool" where
  "within_reach s \<longleftrightarrow> sh_outside s = None
     \<and> (\<forall>l t. sh_loops s = [l] \<longrightarrow> task_token l = Some t \<longrightarrow>
          ad_starting (sh_adm s) = Some t \<or> t \<in> set (sh_firing s) \<or> t \<in> sh_cancelled s
          \<or> sh_turn_cancel s = Some t)"

fun from_outside :: "'e host_action \<Rightarrow> bool" where
  "from_outside OutsideStart = True"
| "from_outside _ = False"

lemma within_reach_task:
  assumes "host_ok s" "within_reach s"
  shows "within_reach (fst (act_task i now emitted allowed s))"
proof (cases "i < length (sh_loops s)")
  case True
  then obtain l where l: "sh_loops s = [l]" "i = 0"
    using assms(1) by (auto elim: one_task)
  show ?thesis
  proof (cases l)
    case (Driving w t g)
    moreover have "sh_turn_cancel s = (if g = Acquired then None else Some t)"
      using assms l Driving by (simp add: host_ok_def published_token_def token_in_def within_reach_def)
    ultimately show ?thesis
      using assms(2) l
      by (cases g) (auto simp: act_task_def replace_task_def within_reach_def op_defs)
  qed (use assms(2) l in \<open>auto simp: act_task_def replace_task_def within_reach_def pop_next_def Let_def
        split: list.splits\<close>)
qed (use assms(2) in \<open>simp add: act_task_def\<close>)

lemma within_reach_act:
  assumes "host_ok s" "within_reach s" "\<not> from_outside a"
  shows "within_reach (fst (host_act a s))"
proof (cases a)
  case (Submit c q origin)
  have "\<not> ad_running (sh_adm s) \<Longrightarrow> sh_loops s = []"
    using assms(1) by (auto simp: host_ok_def)
  then show ?thesis
    using assms(2) Submit
    by (auto simp: within_reach_def submit_from_def spawn_admitted_def Let_def)
next
  case (Task i now emitted allowed)
  then show ?thesis
    using within_reach_task [OF assms(1,2)] by simp
next
  case (CancelFire t)
  then show ?thesis
    using assms(2) by (auto simp: within_reach_def cancel_fire_def)
next
  case (OutsideStep now emitted)
  then show ?thesis
    using assms(2) by (auto simp: within_reach_def act_outside_step_def)
next
  case OutsideStart
  then show ?thesis
    using assms(3) by simp
qed (use assms(2) in \<open>auto simp: within_reach_def op_defs Let_def split: option.splits if_splits\<close>)

lemma within_reach_run:
  assumes "host_ok s" "within_reach s" "list_all (\<lambda>a. \<not> from_outside a) acts"
  shows "within_reach (fst (host_run acts s))"
  using assms
  by (induction acts arbitrary: s) (simp_all add: Let_def split_beta within_reach_act host_ok_act)

end
