(* ===== verification/Host_Spec.thy ===== *)
theory Host_Spec
  imports Host_Inv
begin

text \<open>
  The properties of a session host under every interleaving of its clients, the task that drives
  admitted turns, turns driven from outside, and commands.
\<close>

section \<open>One turn at a time\<close>

text \<open>
  C4. Whatever the interleaving, at most one turn, gate check or command holds the runtime; the slot
  that a cancel reads names the turn that holds it; there is one driving task exactly while admission
  says it runs, so no queued input is without one; the queue stays within its capacity; and a command
  or a closed session excludes admitted work.
\<close>

theorem session_turns_are_exclusive:
  "lock_holders (fst (host_run acts (session_host_new g now))) \<le> 1
   \<and> sh_turn_cancel (fst (host_run acts (session_host_new g now)))
       = published_token (fst (host_run acts (session_host_new g now)))
   \<and> host_ok (fst (host_run acts (session_host_new g now)))"
  using host_ok_run [OF host_ok_new, of acts g now] by (simp add: host_ok_def)

text \<open>
  C26. Admitted input runs in the order it was accepted, and none of it is lost: at any moment each
  accepted piece of work has begun, was dropped by a cancel or refused by the gate, or is still
  pending, exactly once.
\<close>

theorem admitted_work_runs_in_order:
  assumes "host_run acts (session_host_new g now) = (s, ls)"
  shows "subseq (begun ls @ pending s) (accepted ls)
    \<and> mset (accepted ls) = mset (begun ls) + mset (gone ls) + mset (pending s)"
  using history_run [OF host_ok_new _ _ assms, of "[]" "[]" "{#}"]
  by (simp add: pending_def session_host_new_def admission_default_def)

text \<open>Three inputs; the second comes while the first turn runs, the third from a device that lost its rights.\<close>

definition demo_acts :: "unit host_action list" where
  "demo_acts =
     [SetGate, Submit ''a'' False None, Submit ''b'' True None, Submit ''c'' True (Some ''d'')]
     @ replicate 24 (Task 0 1 [] False)"

abbreviation new_host :: "unit session_host" where
  "new_host \<equiv> session_host_new Owned 0"

theorem admitted_work_runs_in_order_witness:
  "map fu_text (begun (snd (host_run demo_acts new_host))) = [''a'', ''b'']
   \<and> subseq (begun (snd (host_run demo_acts new_host))) (accepted (snd (host_run demo_acts new_host)))"
proof -
  have "map fu_text (begun (snd (host_run demo_acts new_host))) = [''a'', ''b'']"
    by code_simp
  moreover have "pending (fst (host_run demo_acts new_host)) = []"
    by code_simp
  ultimately show ?thesis
    using admitted_work_runs_in_order [OF prod.collapse [symmetric], of demo_acts Owned 0] by simp
qed

text \<open>
  C27. Queued input is not left waiting: from any reachable state in which no outside turn and no command
  holds the runtime, the driving task alone, within eight steps for each piece of work, ends with
  nothing running and nothing pending, so everything that was accepted has begun, been refused by the
  gate, or been cancelled.
\<close>

theorem accepted_work_is_settled:
  assumes "host_run acts (session_host_new g now) = (s, ls)" "undisturbed s"
  shows "\<exists>n s' ls'. n \<le> 8 * (1 + length (ad_follow_ups (sh_adm s)))
    \<and> host_run (acts @ replicate n (Task 0 now' emitted allowed)) (session_host_new g now) = (s', ls')
    \<and> \<not> ad_running (sh_adm s') \<and> pending s' = []
    \<and> mset (accepted ls') = mset (begun ls') + mset (gone ls')"
proof -
  have ok: "host_ok s"
    using host_ok_run [OF host_ok_new, of acts g now] assms(1) by simp
  have "sum_list (map task_rank (sh_loops s)) \<le> 8"
  proof (cases "sh_loops s")
    case (Cons l ls')
    with ok have "ls' = []"
      by (auto simp: host_ok_def of_bool_def split: if_splits)
    moreover have "task_rank l \<le> 8"
      by (cases l) (auto split: stage.splits)
    ultimately show ?thesis
      using Cons by simp
  qed simp
  moreover obtain n where n: "n \<le> work_left s"
    "\<not> ad_running (sh_adm (fst (host_run (replicate n (Task 0 now' emitted allowed)) s)))"
    using task_drains [OF ok assms(2)] by blast
  ultimately have bound: "n \<le> 8 * (1 + length (ad_follow_ups (sh_adm s)))"
    by (simp add: work_left_def)
  obtain s' ls' where run:
    "host_run (acts @ replicate n (Task 0 now' emitted allowed)) (session_host_new g now) = (s', ls')"
    by fastforce
  have idle: "\<not> ad_running (sh_adm s')"
    using n(2) run assms(1) by (simp add: host_run_append)
  have "host_ok s'"
    using host_ok_run [OF host_ok_new, of "acts @ replicate n (Task 0 now' emitted allowed)" g now] run by simp
  with idle have "pending s' = []"
    by (simp add: idle_pending)
  moreover have "mset (accepted ls') = mset (begun ls') + mset (gone ls') + mset (pending s')"
    using history_run [OF host_ok_new _ _ run, of "[]" "[]" "{#}"]
    by (simp add: pending_def session_host_new_def admission_default_def)
  ultimately show ?thesis
    using run bound idle by auto
qed

theorem accepted_work_is_settled_witness:
  "\<exists>n s' ls'. n \<le> 8 \<and> host_run ([Submit ''a'' False None] @ replicate n (Task 0 1 [] True)) new_host = (s', ls')
     \<and> pending s' = []"
proof -
  let ?s = "fst (host_run [Submit ''a'' False None] new_host)"
  have "undisturbed ?s" "ad_follow_ups (sh_adm ?s) = []"
    by code_simp+
  then show ?thesis
    using accepted_work_is_settled [OF prod.collapse [symmetric], of "[Submit ''a'' False None]" Owned 0 1 "[]" True]
    by fastforce
qed

section \<open>Stop\<close>

text \<open>
  C28. Stop means stop: when no turn is driven from outside, a cancel leaves the queue empty and reaches
  the token of the work in hand wherever it is, waiting, at the gate or running; it is cancelled now or
  about to be by another cancel.
\<close>

theorem stop_reaches_all_admitted_work:
  assumes "host_run acts (session_host_new g now) = (s, ls)" "list_all (\<lambda>a. \<not> from_outside a) acts"
    and "cancel_all s = (s', r)" "sh_loops s' = [l]" "task_token l = Some t"
  shows "ad_follow_ups (sh_adm s') = [] \<and> t \<in> sh_cancelled s' \<union> set (sh_firing s')"
proof -
  have "within_reach (session_host_new g now :: 'a session_host)"
    by (simp add: within_reach_def session_host_new_def)
  then have reach: "within_reach s"
    using within_reach_run [OF host_ok_new _ assms(2)] assms(1) by (metis fst_conv)
  have "sh_loops s = [l]"
    using assms(3,4)
    by (auto simp: cancel_all_def cancel_take_def cancel_fire_def cancel_turn_def Let_def split: option.splits)
  then have found: "ad_starting (sh_adm s) = Some t \<or> t \<in> set (sh_firing s) \<or> t \<in> sh_cancelled s
      \<or> sh_turn_cancel s = Some t"
    using reach assms(5) by (simp add: within_reach_def)
  have kept: "u = x" if "u \<in> set f" "u \<notin> set (remove1 x (f @ [x]))" for u x :: token and f
    using that by (cases "u = x") simp_all
  show ?thesis
    using found assms(3)
    by (auto simp: cancel_all_def cancel_take_def cancel_fire_def cancel_turn_def Let_def
        split: option.splits dest: kept)
qed

definition stop_host :: "unit session_host" where
  "stop_host = fst (host_run [Submit ''a'' False None, Submit ''b'' True None] new_host)"

theorem stop_reaches_all_admitted_work_witness:
  "0 \<in> sh_cancelled (fst (cancel_all stop_host)) \<and> ad_follow_ups (sh_adm (fst (cancel_all stop_host))) = []"
proof -
  have l: "sh_loops (fst (cancel_all stop_host)) = [Checking \<lparr>fu_text = ''a'', fu_origin = None\<rparr> 0]"
    "sh_firing (fst (cancel_all stop_host)) = []"
    by code_simp+
  have run: "host_run [Submit ''a'' False None, Submit ''b'' True None] new_host
      = (stop_host, snd (host_run [Submit ''a'' False None, Submit ''b'' True None] new_host))"
    by (simp only: stop_host_def prod.collapse)
  from stop_reaches_all_admitted_work [OF run _ prod.collapse [symmetric] l(1)] l(2) show ?thesis
    by simp
qed

text \<open>
  With a turn driven from outside, a cancel can miss admitted work. The outside turn takes the runtime;
  input is admitted before it publishes its token; the turn then clears the token that admission
  names, which is that input's. The cancel stops the outside turn only, and the input starts after it.
\<close>

definition missed_acts :: "unit host_action list" where
  "missed_acts =
     [OutsideStart, Submit ''a'' False None, OutsideStep 1 [], OutsideStep 1 [],
      CancelTake, CancelTurn, OutsideStep 1 [], OutsideStep 1 []]
     @ replicate 5 (Task 0 2 [] True)"

lemma stop_can_miss_admitted_work:
  "sh_cancelled (fst (host_run missed_acts new_host)) = {0}
   \<and> snd (host_run (take 6 missed_acts) new_host) = [Accepted \<lparr>fu_text = ''a'', fu_origin = None\<rparr>]
   \<and> snd (host_run missed_acts new_host)
       = [Accepted \<lparr>fu_text = ''a'', fu_origin = None\<rparr>, Begun \<lparr>fu_text = ''a'', fu_origin = None\<rparr>]
   \<and> sh_turn_cancel (fst (host_run missed_acts new_host)) = Some 1"
  by code_simp

text \<open>
  Work that is cancelled while it waits for the runtime still starts its turn, and a cancel does not
  count it as dropped.
\<close>

lemma cancelled_work_still_starts:
  "can_dropped (snd (cancel_all (fst (host_run [Submit ''a'' False None] new_host)))) = 0
   \<and> snd (host_run ([Submit ''a'' False None, Task 0 1 [] True, CancelTake, CancelFire 0]
        @ replicate 4 (Task 0 1 [] True)) new_host)
     = [Accepted \<lparr>fu_text = ''a'', fu_origin = None\<rparr>, Begun \<lparr>fu_text = ''a'', fu_origin = None\<rparr>]"
  by code_simp

section \<open>Closing and interventions\<close>

text \<open>Once closed, a session admits nothing and starts nothing.\<close>

lemma closed_stays_closed:
  assumes "host_ok s" "ad_closed (sh_adm s)"
  shows "ad_closed (sh_adm (fst (host_act a s))) \<and> snd (host_act a s) = []"
proof -
  have idle: "\<not> ad_running (sh_adm s)" "sh_loops s = []" "ad_follow_ups (sh_adm s) = []"
    using assms by (auto simp: host_ok_def)
  show ?thesis
  proof (cases a)
    case (OutsideStep now emitted)
    show ?thesis
    proof (cases "sh_outside s")
      case (Some x)
      obtain t g where "x = (t, g)"
        by fastforce
      then show ?thesis
        using Some OutsideStep assms(2) by (cases g) (simp_all add: act_outside_step_def op_defs)
    qed (use OutsideStep assms(2) in \<open>simp add: act_outside_step_def\<close>)
  qed (use assms(2) idle in \<open>auto simp: op_defs act_task_def act_outside_start_def accepts_def Let_def
        split: option.splits\<close>)
qed

lemma closed_session_starts_nothing:
  assumes "host_ok s" "ad_closed (sh_adm s)"
  shows "snd (host_run acts s) = []"
  using assms
proof (induction acts arbitrary: s)
  case (Cons a acts)
  then show ?case
    using closed_stays_closed [OF Cons.prems, of a] host_ok_act [OF Cons.prems(1), of a]
    by (simp add: Let_def split_beta)
qed simp

text \<open>Interventions reach the log in the order they were recorded.\<close>

fun recorded_by :: "'e host_action \<Rightarrow> 'e session_host \<Rightarrow> intervention list" where
  "recorded_by (PushIntervention a d c) s =
     [\<lparr>iv_action = a, iv_detail = d, iv_activity = (if is_busy s then Some ''turn running'' else None), iv_client = c\<rparr>]"
| "recorded_by _ s = []"

lemma interventions_are_kept_in_order:
  "sh_log (fst (host_act a s)) @ sh_interventions (fst (host_act a s))
   = (sh_log s @ sh_interventions s) @ recorded_by a s"
proof (cases a)
  case (Task i now emitted allowed)
  show ?thesis
  proof (cases "i < length (sh_loops s)")
    case True
    show ?thesis
    proof (cases "sh_loops s ! i")
      case (Driving w t g)
      then show ?thesis
        using Task True by (cases g) (simp_all add: act_task_def op_defs)
    qed (use Task True in \<open>auto simp: act_task_def pop_next_def Let_def split: list.splits\<close>)
  qed (use Task in \<open>simp add: act_task_def\<close>)
next
  case (OutsideStep now emitted)
  show ?thesis
  proof (cases "sh_outside s")
    case (Some x)
    obtain t g where "x = (t, g)"
      by fastforce
    then show ?thesis
      using Some OutsideStep by (cases g) (simp_all add: act_outside_step_def op_defs)
  qed (use OutsideStep in \<open>simp add: act_outside_step_def\<close>)
qed (auto simp: op_defs act_outside_start_def Let_def split: option.splits)

end
