(* ===== verification/Ownership_Spec.thy ===== *)
theory Ownership_Spec
  imports Ownership_Inv
begin

text \<open>
  The properties of session ownership: writers exclude each other across threads, handles and
  processes, a handle that handed a session over stays out, generations grow, the next owner
  reads what the last one left, and a dead owner's session can be claimed at once.
\<close>

section \<open>Concrete runs\<close>

definition me :: holder where
  "me = \<lparr>hd_instance = ''me'', hd_pid = 7, hd_kind = Tui\<rparr>"

definition own0 :: own_world where
  "own0 = own_world_new (\<lambda>_. Disk) (\<lambda>h. h) (\<lambda>_. No_file)"

definition hand_over :: transfer_record where
  "hand_over = \<lparr>tr_id = ''t'', tr_state = Transfer_committed, tr_tail = Some 5, tr_digest = ''d''\<rparr>"

text \<open>An agent claims a session, and hands it over.\<close>

definition claim_steps :: "agent_id \<Rightarrow> store_handle \<Rightarrow> session_id \<Rightarrow> own_event list" where
  "claim_steps a h s =
     [Act a (Claim_session h s me) False, Act a Proceed False, Act a Proceed False, Act a Proceed False]"

definition release_steps :: "agent_id \<Rightarrow> own_event list" where
  "release_steps a = [Act a (Release hand_over) False, Act a Proceed False]"

lemmas own_eval = own0_def own_world_new_def claim_steps_def release_steps_def own_ops own_prims
  lease_in_def new_claim_def Let_def write_result_def case_prod_beta

section \<open>Properties\<close>

text \<open>
  C3. However threads, store handles and processes interleave on one state directory, at most one
  of them is inside a write to a session's files; while anyone holds a claim of the session, only
  a thread of the claim's own handle can be; and no two hold a claim of it.
\<close>

theorem session_writes_are_exclusive:
  assumes "w = fst (own_run es (own_world_new backend process files))"
  shows "(stage_writes (ow_stage w a) = Some s \<longrightarrow> stage_writes (ow_stage w b) = Some s \<longrightarrow> a = b) \<and>
    (stage_writes (ow_stage w a) = Some s \<longrightarrow> stage_claim (ow_stage w b) = Some c \<longrightarrow>
       cl_session c = s \<longrightarrow> stage_handle (ow_stage w a) = Some (cl_table c)) \<and>
    (stage_claim (ow_stage w a) = Some c \<longrightarrow> stage_claim (ow_stage w b) = Some d \<longrightarrow>
       cl_session c = cl_session d \<longrightarrow> a = b)"
proof -
  have ok: "own_ok w" using own_reach(1) assms by blast
  have "stage_claim st = Some c \<Longrightarrow> stage_lock st = Some (cl_session c)" for st c
    by (cases st) auto
  with own_okD(1) [OF ok] have
    "stage_claim (ow_stage w a) = Some c \<Longrightarrow> ow_lock w (cl_session c) = Some a" for a c by simp
  then have "stage_claim (ow_stage w a) = Some c \<Longrightarrow> stage_claim (ow_stage w b) = Some d \<Longrightarrow>
    cl_session c = cl_session d \<Longrightarrow> a = b"
    by (metis option.inject)
  then show ?thesis
    using writers_unique [OF ok, of a s b] owner_is_writer [OF ok, of a s b c] by blast
qed

definition shared_run :: "own_event list" where
  "shared_run = claim_steps 1 0 9 @ [Act 2 (Write_session 0 9) False, Act 2 Proceed False]"

theorem session_writes_are_exclusive_witness:
  "\<exists>c. stage_claim (ow_stage (fst (own_run shared_run own0)) 1) = Some c \<and>
       stage_writes (ow_stage (fst (own_run shared_run own0)) 2) = Some 9 \<and>
       stage_handle (ow_stage (fst (own_run shared_run own0)) 2) = Some (cl_table c)"
proof -
  have st: "stage_claim (ow_stage (fst (own_run shared_run own0)) 1) =
      Some (new_claim 0 9 me 0 None)"
    "stage_writes (ow_stage (fst (own_run shared_run own0)) 2) = Some 9"
    by (simp_all add: shared_run_def own_eval)
  have "fst (own_run shared_run own0) = fst (own_run shared_run own0)" ..
  from session_writes_are_exclusive [OF this [unfolded own0_def], folded own0_def,
      of 2 9 1 "new_claim 0 9 me 0 None" "new_claim 0 9 me 0 None"] st
  show ?thesis by (auto simp: new_claim_def)
qed

text \<open>
  C29. Once a claim was handed over, no thread of its store handle writes to the session again
  however the run goes on, unless the handle claims it anew or its process ends: every
  further write is refused with \<open>OwnershipLost\<close>. This needs that no thread of the handle is, at
  the hand-over, between looking its lease up and using it with a look-up from before the claim,
  or waiting to claim the session itself.
\<close>

theorem released_handle_stays_out:
  assumes w: "w = fst (own_run es (own_world_new backend process files))"
    and st: "ow_stage w a = Unlocking c" and c: "h = cl_table c" "s = cl_session c"
    and disk: "backend h = Disk"
    and early: "\<forall>b. ow_stage w b \<noteq> Fetched h s None"
    and other: "\<forall>b who. ow_stage w b \<noteq> Claiming h s who"
    and keeps: "\<forall>e \<in> set fs. keeps_fence (process h) h s e"
    and w': "(w', os) = own_run (Act a Proceed False # fs) w"
  shows "Wrote h s \<notin> set os \<and>
    (ow_stage w' b = Elsewhere \<longrightarrow>
       snd (own_run [Act b (Write_session h s) f, Act b x g] w') = [Silent, Failed (OwnershipLost s)])"
proof -
  have ok: "own_ok w" and cl: "own_claims w" using own_reach w by blast+
  have k: "ow_backend w = backend" "ow_process w = process"
    using own_run_const [of es "own_world_new backend process files"] by (simp_all add: w own_world_new_def)
  let ?v = "fst (own_step (Act a Proceed False) w)"
  have "fenced (process h) h s ?v"
    using release_fences [OF ok cl st] early other disk by (simp add: c k)
  with own_run_fenced [OF own_step_ok [OF ok] _ keeps] have
    "fenced (process h) h s (fst (own_run fs ?v))" "Wrote h s \<notin> set (snd (own_run fs ?v))"
    by blast+
  moreover have "w' = fst (own_run fs ?v)" "os = snd (own_step (Act a Proceed False) w) # snd (own_run fs ?v)"
    using w' by (simp_all add: case_prod_beta)
  moreover have "snd (own_step (Act a Proceed False) w) \<noteq> Wrote h s"
    using st by (simp add: release_unlock_def)
  moreover have "own_ok (fst (own_run fs ?v))" by (intro own_run_ok own_step_ok ok)
  ultimately show ?thesis using fenced_write_is_refused by auto
qed

text \<open>The claim of the concrete runs, handed over by a first agent.\<close>

definition released_claim :: session_claim where
  "released_claim =
     (new_claim 0 9 me 0 None)\<lparr>cl_record :=
        with_transfer Transfer_released hand_over (cl_record (new_claim 0 9 me 0 None))\<rparr>"

definition released_world :: own_world where
  "released_world = fst (own_run (claim_steps 1 0 9 @ release_steps 1) own0)"

lemma released_stages: "ow_stage released_world = (\<lambda>_. Elsewhere)(1 := Unlocking released_claim)"
  by (simp add: released_world_def own_eval released_claim_def fun_eq_iff)

lemma released_reached:
  "released_world = fst (own_run (claim_steps 1 0 9 @ release_steps 1)
     (own_world_new (\<lambda>_. Disk) (\<lambda>h. h) (\<lambda>_. No_file)))"
  by (simp only: released_world_def own0_def)

lemma released_claim_sel [simp]: "cl_table released_claim = 0" "cl_session released_claim = 9"
  by (simp_all add: released_claim_def new_claim_def)

theorem released_handle_stays_out_witness:
  "Wrote 0 9 \<notin> set (snd (own_run (Act 1 Proceed False # claim_steps 3 1 9) released_world))"
proof -
  have keeps: "\<forall>e \<in> set (claim_steps 3 1 9). keeps_fence 0 0 9 e" by (simp add: claim_steps_def)
  have st: "ow_stage released_world 1 = Unlocking released_claim"
    "\<forall>b. ow_stage released_world b \<noteq> Fetched 0 9 None"
    "\<forall>b who. ow_stage released_world b \<noteq> Claiming 0 9 who"
    by (simp_all add: released_stages)
  show ?thesis
    by (rule released_handle_stays_out [OF released_reached st(1) _ _ _ st(2,3) keeps
          prod.collapse, THEN conjunct1]) simp_all
qed

text \<open>
  A thread whose look-up is older than the claim gets past the fence: it found no lease, so it
  takes the lock the hand-over just let go and writes after the owner froze the session.
\<close>

lemma early_lookup_writes_after_hand_over:
  "snd (own_run ([Act 2 (Write_session 0 9) False] @ claim_steps 1 0 9 @ release_steps 1 @
      [Act 1 Proceed False, Act 2 Proceed False, Act 2 Proceed False]) own0) =
   [Silent, Silent, Silent, Published 9 (cl_record (new_claim 0 9 me 0 None)), Claimed (new_claim 0 9 me 0 None),
    Silent, Published 9 (cl_record released_claim), Handed_over released_claim, Silent, Wrote 0 9]"
  by (simp add: own_eval released_claim_def)

text \<open>
  As long as the record of a session is not removed, every claim of it is published under a
  strictly larger generation than the one on disk before and than every earlier claim of the run.
\<close>

theorem generations_grow:
  assumes "w = fst (own_run ds (own_world_new backend process files))"
    and "Removed s \<notin> set (snd (own_run es w))"
    and "unat (file_generation w s) + length es \<le> unat (- 1 :: u64)"
  shows "sorted_wrt (<) (file_generation w s # claim_generations s (snd (own_run es w)))"
  using run_generations [OF _ _ assms(2,3)] own_reach assms(1) by auto

theorem generations_grow_witness:
  "claim_generations 9 (snd (own_run (claim_steps 1 0 9 @ release_steps 1 @ [Act 1 Proceed False] @ claim_steps 2 1 9)
     own0)) = [1, 2] \<and> sorted_wrt (<) [0, 1, 2 :: u64]"
proof -
  let ?es = "claim_steps 1 0 9 @ release_steps 1 @ [Act 1 Proceed False] @ claim_steps 2 1 9"
  have g: "claim_generations 9 (snd (own_run ?es own0)) = [1, 2]"
    by (simp add: own_eval with_transfer_def next_generation_def saturating_succ_def record_json_def
        OWNER_RECORD_VERSION_def)
  moreover have "Removed 9 \<notin> set (snd (own_run ?es own0))"
    by (simp add: own_eval with_transfer_def record_json_def OWNER_RECORD_VERSION_def)
  moreover have z: "file_generation own0 9 = 0" by (simp add: own_eval file_generation_def)
  moreover have "unat (file_generation own0 9) + length ?es \<le> unat (- 1 :: u64)"
    by (simp add: z claim_steps_def release_steps_def unsigned_minus_1_eq_mask mask_eq_exp_minus_1)
  ultimately show ?thesis
    using generations_grow [of own0 "[]" "\<lambda>_. Disk" "\<lambda>h. h" "\<lambda>_. No_file" 9 ?es]
    by (simp add: own0_def [symmetric])
qed

text \<open>
  The next owner learns what the last one left: when the record of a session was published
  last as \<open>r\<close> (by a hand-over, a commit or a claim), then whoever claims the session next, from
  any process, holds \<open>r\<close> as the previous record and is one generation on.
\<close>

theorem next_owner_reads_the_last_record:
  assumes w: "w = fst (own_run ds (own_world_new backend process files))"
    and last: "snd (own_step d w) = Published s r"
    and quiet: "\<forall>x \<in> set (snd (own_run es (fst (own_step d w)))). \<not> touches_record s x"
    and v: "v = fst (own_run es (fst (own_step d w)))"
    and claim: "snd (own_step e v) = Published s r'" "or_transfer r' = None"
  shows "\<exists>a c. ow_stage (fst (own_step e v)) a = Armed c \<and> cl_record c = r' \<and>
           cl_previous c = Some r \<and> or_generation r' = saturating_succ (or_generation r)"
proof -
  have ok: "own_ok w" and cl: "own_claims w" using own_reach w by blast+
  have vok: "own_ok v" and vcl: "own_claims v"
    using own_run_inv [OF own_step_ok [OF ok] own_step_claims [OF ok cl]] v by blast+
  from ok cl last have "ow_file (fst (own_step d w)) s = record_json r \<and> or_v r = OWNER_RECORD_VERSION"
    by (cases rule: published_cases) (simp_all add: new_claim_def with_transfer_def)
  with run_file [OF quiet] v have r: "read_record (ow_file v s) = Inr (Some r)" by simp
  from vok vcl claim(1) show ?thesis
  proof (cases rule: published_cases)
    case (claim a h who previous)
    with r have "previous = Some r" by simp
    with claim show ?thesis
      by (intro exI [of _ a]) (simp add: new_claim_def next_generation_def)
  next
    case (transfer c t st)
    with claim(2) show ?thesis by (simp add: with_transfer_def)
  qed
qed

definition before_release :: own_world where
  "before_release = fst (own_run (claim_steps 1 0 9 @ [Act 1 (Release hand_over) False]) own0)"

definition second_claim :: "own_event list" where
  "second_claim = [Act 1 Proceed False, Act 2 (Claim_session 1 9 me) False, Act 2 Proceed False]"

definition second_world :: own_world where
  "second_world = fst (own_run second_claim (fst (own_step (Act 1 Proceed False) before_release)))"

theorem next_owner_reads_the_last_record_witness:
  "\<exists>a c. ow_stage (fst (own_step (Act 2 Proceed False) second_world)) a = Armed c \<and>
     cl_previous c = Some (cl_record released_claim) \<and> or_generation (cl_record c) = 2"
proof -
  let ?r = "cl_record (new_claim 1 9 me 1 (Some (cl_record released_claim)))"
  note eval = own_eval before_release_def second_world_def second_claim_def released_claim_def
    with_transfer_def record_json_def OWNER_RECORD_VERSION_def next_generation_def saturating_succ_def
  have reached: "before_release = fst (own_run (claim_steps 1 0 9 @ [Act 1 (Release hand_over) False])
      (own_world_new (\<lambda>_. Disk) (\<lambda>h. h) (\<lambda>_. No_file)))"
    by (simp only: before_release_def own0_def)
  have first: "snd (own_step (Act 1 Proceed False) before_release) = Published 9 (cl_record released_claim)"
    by (simp add: eval)
  have quiet: "\<forall>x \<in> set (snd (own_run second_claim (fst (own_step (Act 1 Proceed False) before_release)))).
      \<not> touches_record 9 x"
    by (simp add: eval)
  have second: "snd (own_step (Act 2 Proceed False) second_world) = Published 9 ?r" "or_transfer ?r = None"
    by (simp_all add: eval)
  have "saturating_succ (or_generation (cl_record released_claim)) = 2"
    by (simp add: eval)
  with next_owner_reads_the_last_record [OF reached first quiet second_world_def second]
  show ?thesis by metis
qed

text \<open>
  A session whose owner's process died can be claimed at once: the operating system dropped
  the lock, so the first attempt of a thread of any other process takes it and, the record being
  readable and the new one written, becomes the owner.
\<close>

theorem dead_owner_frees_the_session:
  assumes "w = fst (own_run es (own_world_new backend process files))"
    and "ow_lock w s = Some a" and "dies_with p w a"
    and "ow_stage w b = Elsewhere" and "backend h = Disk" and "process h \<noteq> p"
    and "read_record (ow_file w s) = Inr previous"
  shows "snd (own_run [End_process p, Act b (Claim_session h s who) False, Act b Proceed False,
      Act b Proceed False, Act b Proceed False] w) =
    [Silent, Silent, Silent, Published s (cl_record (new_claim h s who (ow_serial w) previous)),
     Claimed (new_claim h s who (ow_serial w) previous)]"
  using own_run_const [of es "own_world_new backend process files"] assms
  by (simp add: own_ops own_prims case_prod_beta Let_def end_process_def own_world_new_def)

theorem dead_owner_frees_the_session_witness:
  "snd (own_run [End_process 0, Act 5 (Claim_session 1 9 me) False, Act 5 Proceed False,
      Act 5 Proceed False, Act 5 Proceed False] released_world) =
    [Silent, Silent, Silent, Published 9 (cl_record (new_claim 1 9 me 1 (Some (cl_record released_claim)))),
     Claimed (new_claim 1 9 me 1 (Some (cl_record released_claim)))]"
proof -
  note eval = own_eval released_world_def released_claim_def with_transfer_def record_json_def
    OWNER_RECORD_VERSION_def
  have "ow_lock released_world 9 = Some 1" "ow_serial released_world = 1"
    "read_record (ow_file released_world 9) = Inr (Some (cl_record released_claim))"
    by (simp_all add: eval)
  moreover have "dies_with 0 released_world 1"
    by (simp add: dies_with_def released_stages) (simp add: eval)
  ultimately show ?thesis
    using dead_owner_frees_the_session [OF released_reached, of 9 1 0 5 1
        "Some (cl_record released_claim)" me]
    by (simp add: released_stages)
qed

end
