(* ===== verification/Store_Index.thy ===== *)
theory Store_Index
  imports Store_Log Rust_Path "HOL-Library.Product_Lexorder"
begin

text \<open>
  The rest of \<^verbatim>\<open>crates/localpilot-store/src/lib.rs\<close>: the files of a state directory, the session index with
  its names, the cache and the tool-output snapshots, and retention. A path of the store is one of a
  few kinds; a key becomes a file name only after \<open>safe_key\<close>. \<open>serde_json\<close> and the secret redactor are
  the fields of a codec, and what the filesystem refuses is an argument of every operation. An operation is one
  step. For the index on disk its lock makes it so; a store in memory takes no lock across a read and the write
  that follows, and pruning none across its reads and removals, so for these what others do in between is not
  modelled, nor are the lock files that pruning leaves.
\<close>

section \<open>Data\<close>

datatype store_path =
    Session_path session_id
  | Events_path session_id
  | Index_path
  | Cache_path string
  | Tool_output_path string
  | Provider_path string
  | Owner_record_path session_id

type_synonym store_files = "store_path \<Rightarrow> bytes option"

record index_entry =
  ie_id :: session_id
  ie_count :: nat
  ie_created :: u64
  ie_updated :: u64
  ie_name :: "string option"

type_synonym session_index = "index_entry list"

record retention_policy =
  rp_max_sessions :: u64
  rp_max_age_days :: u64

record prune_report =
  pr_sessions_removed :: nat
  pr_tool_outputs_removed :: nat

record store_codec =
  sc_parse_index :: "bytes \<Rightarrow> session_index option"
  sc_print_index :: "session_index \<Rightarrow> bytes"
  sc_parse_message :: "bytes \<Rightarrow> message option"
  sc_message_line :: "message \<Rightarrow> bytes"
  sc_redact :: "bytes \<Rightarrow> bytes"
  sc_parse_id :: "string \<Rightarrow> session_id option"
  sc_show_id :: "session_id \<Rightarrow> string"

text \<open>What the operating system does during one operation.\<close>

record store_io =
  si_read_fails :: "store_path \<Rightarrow> bool"
  si_write_fails :: "store_path \<Rightarrow> bool"
  si_remove_fails :: "store_path \<Rightarrow> bool"
  si_append :: append_io
  si_now :: u64

definition is_unbounded :: "retention_policy \<Rightarrow> bool" where
  "is_unbounded p \<longleftrightarrow> rp_max_sessions p = 0 \<and> rp_max_age_days p = 0"

section \<open>Backend primitives\<close>

definition write_bytes ::
  "store_backend \<Rightarrow> store_io \<Rightarrow> store_path \<Rightarrow> bytes \<Rightarrow> store_files \<Rightarrow> store_files \<times> (store_error + unit)" where
  "write_bytes b io p bs fs =
     (case b of
        Disk \<Rightarrow> if si_write_fails io p then (fs, Inl Store_io) else (fs(p \<mapsto> bs), Inr ())
      | Memory \<Rightarrow> (fs(p \<mapsto> bs), Inr ()))"

definition append_path ::
  "store_backend \<Rightarrow> store_io \<Rightarrow> store_path \<Rightarrow> bytes \<Rightarrow> store_files \<Rightarrow> store_files \<times> (store_error + unit)" where
  "append_path b io p line fs =
     (let (f, r) = append_record b (si_append io) line (fs p) in (fs(p := f), r))"

definition read_path :: "store_backend \<Rightarrow> store_io \<Rightarrow> store_files \<Rightarrow> store_path \<Rightarrow> store_error + bytes option" where
  "read_path b io fs p = read_string b (si_read_fails io p) (fs p)"

definition read_bytes :: "store_backend \<Rightarrow> store_io \<Rightarrow> store_files \<Rightarrow> store_path \<Rightarrow> store_error + bytes option" where
  "read_bytes b io fs p =
     (case b of
        Disk \<Rightarrow> if fs p \<noteq> None \<and> si_read_fails io p then Inl Store_io else Inr (fs p)
      | Memory \<Rightarrow> Inr (fs p))"

definition remove_path ::
  "store_backend \<Rightarrow> store_io \<Rightarrow> store_path \<Rightarrow> store_files \<Rightarrow> store_files \<times> (store_error + unit)" where
  "remove_path b io p fs =
     (case b of
        Disk \<Rightarrow> if fs p \<noteq> None \<and> si_remove_fails io p then (fs, Inl Store_io) else (fs(p := None), Inr ())
      | Memory \<Rightarrow> (fs(p := None), Inr ()))"

text \<open>Key by key, stopping at the first that cannot be removed.\<close>

fun remove_paths ::
  "store_backend \<Rightarrow> store_io \<Rightarrow> store_path list \<Rightarrow> store_files \<Rightarrow> store_files \<times> (store_error + unit)" where
  "remove_paths b io [] fs = (fs, Inr ())"
| "remove_paths b io (p # ps) fs =
     (case remove_path b io p fs of
        (fs', Inl e) \<Rightarrow> (fs', Inl e)
      | (fs', Inr _) \<Rightarrow> remove_paths b io ps fs')"

section \<open>Keys\<close>

definition safe_key_char :: "char \<Rightarrow> bool" where
  "safe_key_char c \<longleftrightarrow> is_ascii_alphanumeric c \<or> c = CHR ''.'' \<or> c = CHR ''_'' \<or> c = CHR ''-''"

definition safe_key :: "string \<Rightarrow> store_error + string" where
  "safe_key key =
     (if key \<noteq> [] \<and> list_all safe_key_char key \<and> key \<noteq> ''.'' \<and> key \<noteq> ''..''
      then Inr key else Inl (InvalidKey key))"

definition put_cache ::
  "store_backend \<Rightarrow> store_io \<Rightarrow> string \<Rightarrow> bytes \<Rightarrow> store_files \<Rightarrow> store_files \<times> (store_error + unit)" where
  "put_cache b io key v fs =
     (case safe_key key of Inl e \<Rightarrow> (fs, Inl e) | Inr k \<Rightarrow> write_bytes b io (Cache_path k) v fs)"

definition get_cache :: "store_backend \<Rightarrow> store_io \<Rightarrow> string \<Rightarrow> store_files \<Rightarrow> store_error + bytes option" where
  "get_cache b io key fs =
     (case safe_key key of Inl e \<Rightarrow> Inl e | Inr k \<Rightarrow> read_bytes b io fs (Cache_path k))"

definition delete_cache ::
  "store_backend \<Rightarrow> store_io \<Rightarrow> string \<Rightarrow> store_files \<Rightarrow> store_files \<times> (store_error + unit)" where
  "delete_cache b io key fs =
     (case safe_key key of Inl e \<Rightarrow> (fs, Inl e) | Inr k \<Rightarrow> remove_path b io (Cache_path k) fs)"

definition put_tool_output ::
  "store_codec \<Rightarrow> store_backend \<Rightarrow> store_io \<Rightarrow> string \<Rightarrow> bytes \<Rightarrow> store_files
   \<Rightarrow> store_files \<times> (store_error + unit)" where
  "put_tool_output c b io i out fs =
     (case safe_key i of
        Inl e \<Rightarrow> (fs, Inl e)
      | Inr k \<Rightarrow> write_bytes b io (Tool_output_path k) (sc_redact c out) fs)"

definition get_tool_output :: "store_backend \<Rightarrow> store_io \<Rightarrow> string \<Rightarrow> store_files \<Rightarrow> store_error + bytes option" where
  "get_tool_output b io i fs =
     (case safe_key i of Inl e \<Rightarrow> Inl e | Inr k \<Rightarrow> read_path b io fs (Tool_output_path k))"

definition put_provider_metadata ::
  "store_codec \<Rightarrow> (json \<Rightarrow> bytes) \<Rightarrow> store_backend \<Rightarrow> store_io \<Rightarrow> string \<Rightarrow> json \<Rightarrow> store_files
   \<Rightarrow> store_files \<times> (store_error + unit)" where
  "put_provider_metadata c pretty b io i v fs =
     (case safe_key i of
        Inl e \<Rightarrow> (fs, Inl e)
      | Inr k \<Rightarrow> write_bytes b io (Provider_path k) (sc_redact c (pretty v)) fs)"

definition get_provider_metadata ::
  "(bytes \<Rightarrow> json option) \<Rightarrow> store_backend \<Rightarrow> store_io \<Rightarrow> string \<Rightarrow> store_files \<Rightarrow> store_error + json option" where
  "get_provider_metadata parse b io i fs =
     (case safe_key i of
        Inl e \<Rightarrow> Inl e
      | Inr k \<Rightarrow>
          (case read_path b io fs (Provider_path k) of
             Inl e \<Rightarrow> Inl e
           | Inr None \<Rightarrow> Inr None
           | Inr (Some content) \<Rightarrow> map_sum id Some (ok_or Serde (parse content))))"

section \<open>The index\<close>

definition load_index :: "store_codec \<Rightarrow> store_backend \<Rightarrow> store_io \<Rightarrow> store_files \<Rightarrow> store_error + session_index" where
  "load_index c b io fs =
     (case read_path b io fs Index_path of
        Inl e \<Rightarrow> Inl e
      | Inr None \<Rightarrow> Inr []
      | Inr (Some content) \<Rightarrow>
          if blank_line content then Inr [] else ok_or Serde (sc_parse_index c content))"

definition write_index ::
  "store_codec \<Rightarrow> store_backend \<Rightarrow> store_io \<Rightarrow> session_index \<Rightarrow> store_files \<Rightarrow> store_files \<times> (store_error + unit)" where
  "write_index c b io es fs = write_bytes b io Index_path (sc_print_index c es) fs"

text \<open>\<open>iter_mut().find(..)\<close>: the first entry that fits is changed.\<close>

fun update_first :: "('a \<Rightarrow> bool) \<Rightarrow> ('a \<Rightarrow> 'a) \<Rightarrow> 'a list \<Rightarrow> 'a list" where
  "update_first P f [] = []"
| "update_first P f (x # xs) = (if P x then f x # xs else x # update_first P f xs)"

definition has_entry :: "session_id \<Rightarrow> session_index \<Rightarrow> bool" where
  "has_entry s es \<longleftrightarrow> s \<in> ie_id ` set es"

definition fresh_entry :: "session_id \<Rightarrow> nat \<Rightarrow> u64 \<Rightarrow> string option \<Rightarrow> index_entry" where
  "fresh_entry s count now name =
     \<lparr>ie_id = s, ie_count = count, ie_created = now, ie_updated = now, ie_name = name\<rparr>"

definition touch_entries :: "session_id \<Rightarrow> nat \<Rightarrow> u64 \<Rightarrow> session_index \<Rightarrow> session_index" where
  "touch_entries s count now es =
     (if has_entry s es
      then update_first (\<lambda>e. ie_id e = s) (\<lambda>e. e\<lparr>ie_count := count, ie_updated := now\<rparr>) es
      else es @ [fresh_entry s count now None])"

text \<open>\<open>touch_index_locked\<close>: the transaction run under the index lock.\<close>

definition touch_session_index ::
  "store_codec \<Rightarrow> store_backend \<Rightarrow> store_io \<Rightarrow> session_id \<Rightarrow> nat \<Rightarrow> store_files \<Rightarrow> store_files \<times> (store_error + unit)" where
  "touch_session_index c b io s count fs =
     (case load_index c b io fs of
        Inl e \<Rightarrow> (fs, Inl e)
      | Inr es \<Rightarrow> write_index c b io (touch_entries s count (si_now io) es) fs)"

definition name_matches :: "string option \<Rightarrow> string \<Rightarrow> bool" where
  "name_matches stored query = (case stored of None \<Rightarrow> False | Some n \<Rightarrow> eq_ignore_ascii_case n query)"

definition name_entries :: "session_id \<Rightarrow> string \<Rightarrow> u64 \<Rightarrow> session_index \<Rightarrow> store_error + session_index" where
  "name_entries s name now es =
     (case List.find (\<lambda>e. ie_id e \<noteq> s \<and> name_matches (ie_name e) name) es of
        Some clash \<Rightarrow> Inl (NameTaken name (ie_id clash))
      | None \<Rightarrow>
          Inr (if has_entry s es
               then update_first (\<lambda>e. ie_id e = s) (\<lambda>e. e\<lparr>ie_name := Some name\<rparr>) es
               else es @ [fresh_entry s 0 now (Some name)]))"

definition set_session_name ::
  "store_codec \<Rightarrow> store_backend \<Rightarrow> store_io \<Rightarrow> session_id \<Rightarrow> string \<Rightarrow> store_files \<Rightarrow> store_files \<times> (store_error + unit)" where
  "set_session_name c b io s raw fs =
     (let name = trim raw
      in if name = [] \<or> sc_parse_id c name \<noteq> None then (fs, Inl (InvalidName name))
         else case load_index c b io fs of
                Inl e \<Rightarrow> (fs, Inl e)
              | Inr es \<Rightarrow>
                  (case name_entries s name (si_now io) es of
                     Inl e \<Rightarrow> (fs, Inl e)
                   | Inr es' \<Rightarrow> write_index c b io es' fs))"

definition find_session_by_name ::
  "store_codec \<Rightarrow> store_backend \<Rightarrow> store_io \<Rightarrow> string \<Rightarrow> store_files \<Rightarrow> store_error + index_entry option" where
  "find_session_by_name c b io raw fs =
     map_sum id (List.find (\<lambda>e. name_matches (ie_name e) (trim raw))) (load_index c b io fs)"

text \<open>\<open>max_by_key\<close> keeps the last of equal entries.\<close>

fun latest_entry :: "session_index \<Rightarrow> index_entry option" where
  "latest_entry [] = None"
| "latest_entry (e # es) =
     (case latest_entry es of
        None \<Rightarrow> Some e
      | Some m \<Rightarrow> if ie_updated e > ie_updated m then Some e else Some m)"

definition latest_session ::
  "store_codec \<Rightarrow> store_backend \<Rightarrow> store_io \<Rightarrow> store_files \<Rightarrow> store_error + index_entry option" where
  "latest_session c b io fs = map_sum id latest_entry (load_index c b io fs)"

text \<open>The write of \<open>append_message\<close>, run inside \<open>session_write\<close>: the line, then the index.\<close>

definition append_message ::
  "store_codec \<Rightarrow> store_backend \<Rightarrow> store_io \<Rightarrow> session_id \<Rightarrow> message \<Rightarrow> store_files \<Rightarrow> store_files \<times> (store_error + unit)" where
  "append_message c b io s m fs =
     (case append_path b io (Session_path s) (sc_message_line c m) fs of
        (fs', Inl e) \<Rightarrow> (fs', Inl e)
      | (fs', Inr _) \<Rightarrow>
          (case read_path b io fs' (Session_path s) of
             Inl e \<Rightarrow> (fs', Inl e)
           | Inr content \<Rightarrow>
               touch_session_index c b io s
                 (case content of
                    None \<Rightarrow> 0
                  | Some bs \<Rightarrow> length (filter (\<lambda>l. \<not> blank_line l) (byte_lines bs))) fs'))"

section \<open>Retention\<close>

definition saturating_mul :: "u64 \<Rightarrow> u64 \<Rightarrow> u64" where
  "saturating_mul a b = (if unat a * unat b < 2 ^ 64 then a * b else - 1)"

definition saturating_sub :: "u64 \<Rightarrow> u64 \<Rightarrow> u64" where
  "saturating_sub a b = (if b \<le> a then a - b else 0)"

definition age_cutoff :: "retention_policy \<Rightarrow> u64 \<Rightarrow> u64 option" where
  "age_cutoff p now =
     (if rp_max_age_days p > 0
      then Some (saturating_sub now (saturating_mul (rp_max_age_days p) 86400)) else None)"

text \<open>Most recently updated first, ties by id; the text form of an id orders as its number.\<close>

definition recency_key :: "index_entry \<Rightarrow> int \<times> session_id" where
  "recency_key e = (- uint (ie_updated e), ie_id e)"

definition over_count :: "retention_policy \<Rightarrow> nat \<Rightarrow> bool" where
  "over_count p rank \<longleftrightarrow> rp_max_sessions p > 0 \<and> unat (rp_max_sessions p) \<le> rank"

definition too_old :: "retention_policy \<Rightarrow> u64 \<Rightarrow> index_entry \<Rightarrow> bool" where
  "too_old p now e = (case age_cutoff p now of None \<Rightarrow> False | Some cutoff \<Rightarrow> ie_updated e < cutoff)"

definition sessions_to_remove :: "session_index \<Rightarrow> retention_policy \<Rightarrow> u64 \<Rightarrow> session_id list" where
  "sessions_to_remove es p now =
     remdups (map (\<lambda>(rank, e). ie_id e)
       (filter (\<lambda>(rank, e). over_count p rank \<or> too_old p now e)
          (enumerate 0 (sort_key recency_key es))))"

fun block_keys :: "content_block \<Rightarrow> string list" where
  "block_keys (ToolUse call) = [tc_id call]"
| "block_keys (ToolResult r) = [tr_use_id r]"
| "block_keys _ = []"

definition collect_tool_output_keys :: "message \<Rightarrow> string list" where
  "collect_tool_output_keys m = concat (map block_keys (msg_content m))"

text \<open>The keys the survivors own; an unreadable transcript ends the call.\<close>

fun live_keys ::
  "store_codec \<Rightarrow> store_backend \<Rightarrow> store_io \<Rightarrow> session_id list \<Rightarrow> session_index \<Rightarrow> store_files
   \<Rightarrow> store_error + string list" where
  "live_keys c b io doomed [] fs = Inr []"
| "live_keys c b io doomed (e # es) fs =
     (if ie_id e \<in> set doomed then live_keys c b io doomed es fs
      else case read_transcript (sc_parse_message c) b (si_read_fails io (Session_path (ie_id e)))
                  (fs (Session_path (ie_id e))) of
             Inl err \<Rightarrow> Inl err
           | Inr ms \<Rightarrow>
               map_sum id (\<lambda>ks. (''recovery-'' @ sc_show_id c (ie_id e)) #
                                concat (map collect_tool_output_keys ms) @ ks)
                 (live_keys c b io doomed es fs))"

definition doomed_paths :: "session_id list \<Rightarrow> store_path list" where
  "doomed_paths doomed = concat (map (\<lambda>s. [Session_path s, Events_path s]) doomed)"

text \<open>
  Before anything is removed \<open>prune\<close> takes the lock of every doomed session, and spares those another
  owner holds.
\<close>

datatype hold_result = Lock_taken | Held_elsewhere | Lock_fails

fun hold_doomed :: "(session_id \<Rightarrow> hold_result) \<Rightarrow> session_id list \<Rightarrow> store_error + session_id list" where
  "hold_doomed hold [] = Inr []"
| "hold_doomed hold (s # ss) =
     (case hold s of
        Lock_fails \<Rightarrow> Inl Store_io
      | Held_elsewhere \<Rightarrow> hold_doomed hold ss
      | Lock_taken \<Rightarrow> map_sum id ((#) s) (hold_doomed hold ss))"

definition doomed_sessions ::
  "store_backend \<Rightarrow> (session_id \<Rightarrow> hold_result) \<Rightarrow> session_index \<Rightarrow> retention_policy \<Rightarrow> u64
   \<Rightarrow> store_error + session_id list" where
  "doomed_sessions b hold es p now =
     (case b of
        Disk \<Rightarrow> hold_doomed hold (sessions_to_remove es p now)
      | Memory \<Rightarrow> Inr (sessions_to_remove es p now))"

text \<open>The stems of the \<^verbatim>\<open>.txt\<close> files among the names in \<^verbatim>\<open>tool-output/\<close>.\<close>

definition tool_output_stems :: "string list \<Rightarrow> string list" where
  "tool_output_stems names =
     List.map_filter (\<lambda>n. if file_extension n = Some ''txt'' then file_stem n else None) names"

definition orphans :: "string list \<Rightarrow> string list \<Rightarrow> string list" where
  "orphans keys stems = filter (\<lambda>k. k \<notin> set keys) stems"

definition prune_sessions ::
  "store_codec \<Rightarrow> store_backend \<Rightarrow> store_io \<Rightarrow> session_id list \<Rightarrow> store_files \<Rightarrow> store_files \<times> (store_error + unit)" where
  "prune_sessions c b io doomed fs =
     (case remove_paths b io (doomed_paths doomed) fs of
        (fs1, Inl e) \<Rightarrow> (fs1, Inl e)
      | (fs1, Inr _) \<Rightarrow>
          (case load_index c b io fs1 of
             Inl e \<Rightarrow> (fs1, Inl e)
           | Inr kept \<Rightarrow>
               (case write_index c b io (filter (\<lambda>e. ie_id e \<notin> set doomed) kept) fs1 of
                  (fs2, Inl e) \<Rightarrow> (fs2, Inl e)
                | (fs2, Inr _) \<Rightarrow>
                    (case b of
                       Disk \<Rightarrow> remove_paths b io (map Owner_record_path doomed) fs2
                     | Memory \<Rightarrow> (fs2, Inr ())))))"

definition prune ::
  "store_codec \<Rightarrow> store_backend \<Rightarrow> store_io \<Rightarrow> (session_id \<Rightarrow> hold_result) \<Rightarrow> string list \<Rightarrow> retention_policy \<Rightarrow> u64
   \<Rightarrow> bool \<Rightarrow> store_files \<Rightarrow> store_files \<times> (store_error + prune_report)" where
  "prune c b io hold names p now dry_run fs =
     (case load_index c b io fs of
        Inl e \<Rightarrow> (fs, Inl e)
      | Inr es \<Rightarrow>
          (case doomed_sessions b hold es p now of
             Inl e \<Rightarrow> (fs, Inl e)
           | Inr doomed \<Rightarrow>
               (case live_keys c b io doomed es fs of
                  Inl e \<Rightarrow> (fs, Inl e)
                | Inr keys \<Rightarrow>
                    let gone = orphans keys (tool_output_stems names);
                        report = \<lparr>pr_sessions_removed = length doomed,
                                  pr_tool_outputs_removed = length gone\<rparr>
                    in if dry_run then (fs, Inr report)
                       else case remove_paths b io (map Tool_output_path gone) fs of
                              (fs1, Inl e) \<Rightarrow> (fs1, Inl e)
                            | (fs1, Inr _) \<Rightarrow>
                                if doomed = [] then (fs1, Inr report)
                                else case prune_sessions c b io doomed fs1 of
                                       (fs2, Inl e) \<Rightarrow> (fs2, Inl e)
                                     | (fs2, Inr _) \<Rightarrow> (fs2, Inr report))))"

definition export_session ::
  "store_codec \<Rightarrow> (session_id \<Rightarrow> message list \<Rightarrow> bytes) \<Rightarrow> store_backend \<Rightarrow> store_io \<Rightarrow> session_id \<Rightarrow> store_files
   \<Rightarrow> store_error + bytes" where
  "export_session c bundle b io s fs =
     map_sum id (\<lambda>ms. sc_redact c (bundle s ms))
       (read_transcript (sc_parse_message c) b (si_read_fails io (Session_path s)) (fs (Session_path s)))"

end
