(* ===== verification/Store_Log_Inv.thy ===== *)
theory Store_Log_Inv
  imports Store_Log
begin

text \<open>
  Lemmas on the log: how UTF-8 and lines behave under concatenation, what migration does, and what a
  reader finds after any sequence of appends of which some were torn off.
\<close>

section \<open>Text under concatenation\<close>

lemma utf8_step_append:
  "utf8_step (b # bs) = Some (c, n) \<Longrightarrow> utf8_step (b # bs @ x) = Some (c, n) \<and> n \<le> length bs"
  by (auto split: if_splits list.splits)

lemma from_utf8_append:
  "from_utf8 a = Some cs \<Longrightarrow> from_utf8 (a @ b) = map_option ((@) cs) (from_utf8 b)"
proof (induction a arbitrary: cs rule: from_utf8.induct)
  case 1
  then show ?case by (cases "from_utf8 b") auto
next
  case (2 x xs)
  from "2.prems" obtain c n ds where s: "utf8_step (x # xs) = Some (c, n)"
    and d: "from_utf8 (drop n xs) = Some ds" "cs = c # ds"
    by (auto split: option.splits prod.splits simp del: utf8_step.simps)
  from utf8_step_append [OF s, of b] have t: "utf8_step (x # xs @ b) = Some (c, n)" "n \<le> length xs"
    by blast+
  from "2.IH" [OF s refl d(1)] t d(2) show ?case
    by (cases "from_utf8 b") (simp_all del: utf8_step.simps)
qed

lemma is_str_append: "is_str a \<Longrightarrow> is_str (a @ b) = is_str b"
  by (auto simp: is_str_def from_utf8_append)

lemma is_str_Nil [simp]: "is_str []"
  by (simp add: is_str_def)

lemma is_str_NL [simp]: "is_str (NL # s) = is_str s"
  by (simp add: is_str_def NL_def)

lemma not_cont_NL [simp]: "\<not> utf8_cont NL" "\<not> utf8_second b NL"
  by (simp_all add: utf8_cont_def utf8_second_def NL_def)

text \<open>Bytes that are no text stay so when a line feed follows.\<close>

lemma utf8_step_cut:
  "utf8_step (b # bs) = None \<Longrightarrow> utf8_step (b # bs @ NL # x) = None"
  by (auto split: if_splits list.splits simp: append_eq_Cons_conv)

lemma torn_stays_torn: "\<not> is_str a \<Longrightarrow> \<not> is_str (a @ NL # x)"
proof (induction a rule: from_utf8.induct)
  case (2 b bs)
  show ?case
  proof (cases "utf8_step (b # bs)")
    case None
    with utf8_step_cut [OF None, of x] show ?thesis by (simp add: is_str_def del: utf8_step.simps)
  next
    case (Some p)
    obtain c n where p: "p = (c, n)" by (cases p)
    with Some "2.prems" have "\<not> is_str (drop n bs)" by (simp add: is_str_def del: utf8_step.simps)
    from "2.IH" [OF Some p [symmetric] this] utf8_step_append [OF Some [unfolded p], of "NL # x"] show ?thesis
      by (simp add: is_str_def del: utf8_step.simps)
  qed
qed (simp add: is_str_def)

text \<open>On text the replacing reader changes nothing.\<close>

lemma from_utf8_lossy_id: "is_str s \<Longrightarrow> from_utf8_lossy s = s"
proof (induction s rule: from_utf8_lossy.induct)
  case (2 b bs)
  then obtain c n where s: "utf8_step (b # bs) = Some (c, n)" "is_str (drop n bs)"
    by (auto simp: is_str_def split: option.splits prod.splits simp del: utf8_step.simps)
  with "2.IH"(2) [OF s(1)] show ?case by (simp del: utf8_step.simps)
qed simp

section \<open>Lines under concatenation\<close>

lemma split_nl_ne [simp]: "split_nl s \<noteq> []"
  by (cases s) (simp_all split: list.splits)

lemma split_nl_append: "split_nl (a @ NL # b) = split_nl a @ split_nl b"
  by (induction a) (auto split: list.splits)

lemma split_nl_single: "NL \<notin> set l \<Longrightarrow> split_nl l = [l]"
  by (induction l) auto

lemma split_nl_extend:
  assumes "NL \<notin> set l"
  shows "split_nl (a @ l) = butlast (split_nl a) @ [last (split_nl a) @ l]"
  using assms
proof (induction a)
  case Nil
  then show ?case by (simp add: split_nl_single)
next
  case (Cons c a)
  then have IH: "split_nl (a @ l) = butlast (split_nl a) @ [last (split_nl a) @ l]" by simp
  obtain p ps where p: "split_nl a = p # ps" by (cases "split_nl a") auto
  show ?case using IH by (cases ps) (auto simp: p)
qed

lemma drop_cr_id: "CR \<notin> set l \<Longrightarrow> drop_cr l = l"
  by (auto simp: drop_cr_def dest: last_in_set)

lemma split_nl_sub: "x \<in> set (split_nl s) \<Longrightarrow> set x \<subseteq> set s"
  by (induction s arbitrary: x) (auto split: if_splits list.splits, blast+)

text \<open>Without carriage returns the lines are the pieces, less an empty last one.\<close>

lemma byte_lines_plain:
  assumes "CR \<notin> set s"
  shows "byte_lines s = butlast (split_nl s) @ (if last (split_nl s) = [] then [] else [last (split_nl s)])"
proof -
  have "map drop_cr (butlast (split_nl s)) = butlast (split_nl s)"
    using assms split_nl_sub by (intro map_idI drop_cr_id) (blast dest: in_set_butlastD)
  then show ?thesis by (simp add: byte_lines_def Let_def)
qed

text \<open>Whether the next append has to seal the tail first.\<close>

definition tail_open :: "bytes \<Rightarrow> bool" where
  "tail_open f \<longleftrightarrow> f \<noteq> [] \<and> last f \<noteq> NL"

lemma last_split_nl: "last (split_nl f) = [] \<longleftrightarrow> \<not> tail_open f"
proof (cases f rule: rev_cases)
  case (snoc g c)
  show ?thesis
  proof (cases "c = NL")
    case True
    with snoc split_nl_append [of g "[]"] show ?thesis by (simp add: tail_open_def)
  next
    case False
    with snoc split_nl_extend [of "[c]" g] show ?thesis by (simp add: tail_open_def)
  qed
qed (simp add: tail_open_def)

text \<open>
  A record of which so many bytes were written, the sealing line feed included: the reader gets what
  there is of it as a line of its own, and every earlier line as it was.
\<close>

lemma byte_lines_grow:
  assumes "CR \<notin> set f" "CR \<notin> set l" "NL \<notin> set l" and "l \<noteq> []"
    and piece: "p = take (k - (if tail_open f then 1 else 0)) l"
  shows "byte_lines (f @ take k (append_buffer (tail_open f) l)) =
    byte_lines f @ (if p = [] then [] else [p])"
proof -
  let ?w = "take k (append_buffer (tail_open f) l)"
  have CR: "CR \<noteq> NL" by (simp add: CR_def NL_def)
  have cr: "CR \<notin> set (f @ ?w)"
    using assms(1,2) CR by (auto simp: append_buffer_def dest: in_set_takeD split: if_splits)
  have np: "NL \<notin> set p" using assms(3) piece by (auto dest: in_set_takeD)
  have extend: "NL \<notin> set x \<Longrightarrow> split_nl x = [x]" for x by (rule split_nl_single)
  show ?thesis
  proof (cases "tail_open f")
    case True
    then have lf: "last (split_nl f) \<noteq> []" by (simp add: last_split_nl)
    show ?thesis
    proof (cases k)
      case 0
      with piece show ?thesis by simp
    next
      case (Suc j)
      with True piece have w: "?w = NL # take j (l @ [NL])" "p = take j l"
        by (simp_all add: append_buffer_def)
      have "split_nl (f @ ?w) = split_nl f @ split_nl (take j (l @ [NL]))"
        by (simp add: w split_nl_append)
      moreover have "split_nl (take j (l @ [NL])) = (if length l < j then [l, []] else [p])"
        using assms(3) np split_nl_append [of l "[]"] w(2) extend [of l] extend [of p] by auto
      moreover have "j > length l \<Longrightarrow> p = l" using w(2) by simp
      ultimately show ?thesis
        using lf byte_lines_plain [OF cr] byte_lines_plain [OF assms(1)] assms(4)
        by (auto simp: butlast_append append_butlast_last_id [OF split_nl_ne] split: if_splits)
    qed
  next
    case False
    then have lf: "last (split_nl f) = []" by (simp add: last_split_nl)
    from False piece have w: "?w = take k (l @ [NL])" "p = take k l"
      by (simp_all add: append_buffer_def)
    have "split_nl (f @ ?w) = butlast (split_nl f) @ (if length l < k then [l, []] else [p])"
      using assms(3) np w(2) lf split_nl_extend [of l f] split_nl_extend [of p f] split_nl_append [of "f @ l" "[]"]
      by (auto simp: w(1))
    moreover have "k > length l \<Longrightarrow> p = l" using w(2) by simp
    ultimately show ?thesis
      using lf byte_lines_plain [OF cr] byte_lines_plain [OF assms(1)] assms(4)
      by (auto simp: butlast_append split: if_splits)
  qed
qed

section \<open>Migration\<close>

lemma format_version [simp]: "unat SESSION_EVENT_FORMAT_VERSION = 9"
  by (simp add: SESSION_EVENT_FORMAT_VERSION_def)

text \<open>Migration always succeeds, whatever known version it starts from, and changes the version only.\<close>

lemma migrate_object:
  assumes "n \<le> 9" and "bt_inv kvs"
  shows "\<exists>kvs'. migrate (JObject kvs) n = Inr (JObject kvs') \<and> bt_inv kvs' \<and>
    bt_get kvs' = (if n = 9 then bt_get kvs else (bt_get kvs)(''v'' \<mapsto> JNumber (PosInt 9)))"
  using assms
proof (induction "9 - n" arbitrary: n kvs)
  case 0
  then show ?case by (simp add: migrate.simps [of _ 9])
next
  case (Suc d)
  let ?k = "bt_insert ''v'' (JNumber (PosInt (of_nat (Suc n)))) kvs"
  from Suc have n: "n < 9" by simp
  have inv: "bt_inv ?k" using Suc.prems(2) by (rule bt_inv_insert)
  have "d = 9 - Suc n" "Suc n \<le> 9" using Suc.hyps(2) n by simp_all
  from Suc.hyps(1) [OF this inv] obtain m where
    m: "migrate (JObject ?k) (Suc n) = Inr (JObject m)" "bt_inv m"
      "bt_get m = (if Suc n = 9 then bt_get ?k else (bt_get ?k)(''v'' \<mapsto> JNumber (PosInt 9)))"
    by blast
  have "migrate (JObject kvs) n = Inr (JObject m)"
    using n m(1) by (simp add: migrate.simps [of _ n])
  moreover have "bt_get m = (bt_get kvs)(''v'' \<mapsto> JNumber (PosInt 9))"
    using m(3) n bt_get_insert [OF Suc.prems(2)] by (auto simp: fun_eq_iff split: if_splits)
  ultimately show ?case using m(2) n by auto
qed

lemma migrate_other: "n \<le> 9 \<Longrightarrow> (\<And>kvs. v \<noteq> JObject kvs) \<Longrightarrow> migrate v n = Inr v"
proof (induction "9 - n" arbitrary: n)
  case 0
  then show ?case by (simp add: migrate.simps [of _ 9])
next
  case (Suc d)
  then have "migrate v (Suc n) = Inr v" by simp
  moreover have "stamp_version (Suc n) v = v" using Suc.prems(2) by (cases v) auto
  ultimately show ?case using Suc by (simp add: migrate.simps [of _ n])
qed

section \<open>Logs with torn writes\<close>

text \<open>What is written of a record before the write stops, the sealing line feed not counted.\<close>

definition written_part :: "bytes \<Rightarrow> nat option \<Rightarrow> bytes \<Rightarrow> bytes" where
  "written_part f torn l = (case torn of None \<Rightarrow> l | Some k \<Rightarrow> take (k - (if tail_open f then 1 else 0)) l)"

text \<open>An append that is complete, or cut off after some bytes; every call before the write succeeds.\<close>

definition append_cut :: "bytes \<Rightarrow> nat option \<Rightarrow> bytes \<Rightarrow> bytes" where
  "append_cut l torn f = the (fst (append_disk (append_ok\<lparr>ap_written := torn\<rparr>) l (Some f)))"

text \<open>The file after a sequence of appends, some torn off, and what should be found in it.\<close>

fun log_run :: "('e \<Rightarrow> bytes) \<Rightarrow> ('e \<times> nat option) list \<Rightarrow> bytes \<Rightarrow> bytes" where
  "log_run enc [] f = f"
| "log_run enc ((e, torn) # as) f = log_run enc as (append_cut (enc e) torn f)"

fun log_found :: "('e \<Rightarrow> bytes) \<Rightarrow> ('e \<times> nat option) list \<Rightarrow> bytes \<Rightarrow> 'e list \<times> nat" where
  "log_found enc [] f = ([], 0)"
| "log_found enc ((e, torn) # as) f =
     (let p = written_part f torn (enc e); (es, n) = log_found enc as (append_cut (enc e) torn f)
      in if p = enc e then (e # es, n) else if p = [] then (es, n) else (es, Suc n))"

fun cuts_at_characters :: "('e \<Rightarrow> bytes) \<Rightarrow> ('e \<times> nat option) list \<Rightarrow> bytes \<Rightarrow> bool" where
  "cuts_at_characters enc [] f = True"
| "cuts_at_characters enc ((e, torn) # as) f \<longleftrightarrow>
     is_str (written_part f torn (enc e)) \<and> cuts_at_characters enc as (append_cut (enc e) torn f)"

text \<open>A serialized record: one line of UTF-8 that opens with a brace and no prefix of which parses.\<close>

definition record_line :: "(bytes \<Rightarrow> json option) \<Rightarrow> bytes \<Rightarrow> bool" where
  "record_line parse l \<longleftrightarrow>
     l \<noteq> [] \<and> hd l = 0x7B \<and> NL \<notin> set l \<and> CR \<notin> set l \<and> (\<forall>n < length l. parse (take n l) = None)"

lemma append_cut_eq:
  "append_cut l torn f =
     f @ (case torn of None \<Rightarrow> append_buffer (tail_open f) l | Some k \<Rightarrow> take k (append_buffer (tail_open f) l))"
  by (simp add: append_cut_def append_disk_def append_ok_def ends_with_newline_def tail_open_def Let_def
      split: option.splits)

lemma append_cut_lines:
  assumes "CR \<notin> set f" and "record_line parse l"
  shows "byte_lines (append_cut l torn f) =
    byte_lines f @ (if written_part f torn l = [] then [] else [written_part f torn l])"
proof -
  from assms(2) have l: "CR \<notin> set l" "NL \<notin> set l" "l \<noteq> []" by (simp_all add: record_line_def)
  show ?thesis
  proof (cases torn)
    case None
    let ?n = "length (append_buffer (tail_open f) l)"
    have "take (?n - (if tail_open f then 1 else 0)) l = l" by (simp add: append_buffer_def)
    with byte_lines_grow [OF assms(1) l(1-3) refl, of ?n] l(3) None show ?thesis
      by (simp add: append_cut_eq written_part_def)
  next
    case (Some k)
    with byte_lines_grow [OF assms(1) l(1-3) refl, of k] show ?thesis
      by (simp add: append_cut_eq written_part_def)
  qed
qed

lemma append_cut_CR:
  assumes "CR \<notin> set f" and "record_line parse l"
  shows "CR \<notin> set (append_cut l torn f)"
proof -
  have "CR \<noteq> NL" by (simp add: CR_def NL_def)
  with assms show ?thesis
    by (auto simp: append_cut_eq append_buffer_def record_line_def dest: in_set_takeD split: option.splits if_splits)
qed

lemma written_part_prefix: "\<exists>n. written_part f torn l = take n l"
  by (cases torn) (auto simp: written_part_def intro: exI [of _ "length l"])

lemma append_cut_is_str:
  assumes "is_str f" and "is_str (written_part f torn l)"
  shows "is_str (append_cut l torn f)"
proof -
  have b: "is_str (take j (l @ [NL]))" if "is_str (take j l)" for j
    using that is_str_append [of "take j l" "take (j - length l) [NL]"]
    by (cases "j - length l") simp_all
  have "is_str (take k (append_buffer (tail_open f) l))"
    if "is_str (take (k - (if tail_open f then 1 else 0)) l)" for k
    using that b by (cases k) (auto simp: append_buffer_def)
  moreover have "is_str (append_buffer (tail_open f) l)" if "is_str l"
    using that is_str_append [of l "[NL]"] by (auto simp: append_buffer_def)
  ultimately show ?thesis
    using assms by (auto simp: append_cut_eq is_str_append written_part_def split: option.splits)
qed

lemma brace_not_blank: "\<not> blank_line (0x7B # s)"
  by (auto simp: blank_line_def white_space_def split: option.splits)

lemma recover_lines_snoc:
  "recover_lines rd ls = Inr (es, n) \<Longrightarrow>
   recover_lines rd (ls @ [l]) =
     (case rd l of
        Inr e \<Rightarrow> Inr (es @ [e], n)
      | Inl (UnsupportedFormat v k) \<Rightarrow> Inl (UnsupportedFormat v k)
      | Inl _ \<Rightarrow> Inr (es, Suc n))"
proof (induction ls arbitrary: es n)
  case Nil
  then show ?case by (auto split: sum.splits store_error.splits)
next
  case (Cons x ls)
  from Cons.prems obtain es' n' where r: "recover_lines rd ls = Inr (es', n')"
    by (cases "recover_lines rd ls") (auto split: sum.splits store_error.splits)
  from Cons.IH [OF r] Cons.prems r show ?case
    by (auto split: sum.splits store_error.splits)
qed

lemma from_line_torn:
  assumes "record_line parse l" and "n < length l"
  shows "from_line parse decode (take n l) = Inl Serde"
  using assms by (simp add: record_line_def from_line_def)

text \<open>One more append, cut off or not.\<close>

lemma log_step_found:
  assumes f: "CR \<notin> set f"
    and rd: "recover_lines (from_line parse decode) (filter (\<lambda>l. \<not> blank_line l) (byte_lines f)) = Inr (es, n)"
    and rec: "record_line parse (enc e)" "from_line parse decode (enc e) = Inr e"
  shows "recover_lines (from_line parse decode)
      (filter (\<lambda>l. \<not> blank_line l) (byte_lines (append_cut (enc e) torn f))) =
    (let p = written_part f torn (enc e)
     in Inr (if p = enc e then (es @ [e], n) else if p = [] then (es, n) else (es, Suc n)))"
proof -
  obtain k where k: "written_part f torn (enc e) = take k (enc e)"
    using written_part_prefix by blast
  show ?thesis
  proof (cases "take k (enc e) = []")
    case True
    with rec(1) k rd append_cut_lines [OF f rec(1), of torn] show ?thesis
      by (auto simp: record_line_def)
  next
    case False
    with rec(1) obtain s where "take k (enc e) = 0x7B # s"
      by (cases "enc e"; cases k) (auto simp: record_line_def)
    then have "\<not> blank_line (take k (enc e))" by (simp add: brace_not_blank)
    moreover have "take k (enc e) \<noteq> enc e \<Longrightarrow> from_line parse decode (take k (enc e)) = Inl Serde"
      using from_line_torn [OF rec(1), of k] by (cases "k < length (enc e)") auto
    ultimately show ?thesis
      using False k append_cut_lines [OF f rec(1), of torn] recover_lines_snoc [OF rd, of "take k (enc e)"] rec(2)
      by (auto simp: Let_def)
  qed
qed

lemma log_run_found:
  assumes "CR \<notin> set f" and "is_str f"
    and "recover_lines (from_line parse decode) (filter (\<lambda>l. \<not> blank_line l) (byte_lines f)) = Inr (es, n)"
    and "\<forall>(e, torn) \<in> set as. record_line parse (enc e) \<and> from_line parse decode (enc e) = Inr e"
    and "cuts_at_characters enc as f"
  shows "is_str (log_run enc as f) \<and>
    recover_lines (from_line parse decode) (filter (\<lambda>l. \<not> blank_line l) (byte_lines (log_run enc as f))) =
      Inr (es @ fst (log_found enc as f), n + snd (log_found enc as f))"
  using assms
proof (induction as arbitrary: f es n)
  case (Cons a as)
  obtain e torn where a: "a = (e, torn)" by (cases a)
  with Cons.prems(4) have rec: "record_line parse (enc e)" "from_line parse decode (enc e) = Inr e"
    and rest: "\<forall>(e, torn) \<in> set as. record_line parse (enc e) \<and> from_line parse decode (enc e) = Inr e"
    by auto
  let ?f = "append_cut (enc e) torn f" and ?p = "written_part f torn (enc e)"
  obtain es' n' where new: "(es', n') =
      (if ?p = enc e then (es @ [e], n) else if ?p = [] then (es, n) else (es, Suc n))"
    by (metis surj_pair)
  have rd: "recover_lines (from_line parse decode) (filter (\<lambda>l. \<not> blank_line l) (byte_lines ?f)) = Inr (es', n')"
    using log_step_found [where enc = enc, OF Cons.prems(1,3) rec, of torn] new by (simp add: Let_def)
  have "is_str ?f" "cuts_at_characters enc as ?f"
    using Cons.prems(2,5) a append_cut_is_str by auto
  from Cons.IH [OF append_cut_CR [OF Cons.prems(1) rec(1)] this(1) rd rest this(2)] new show ?case
    by (auto simp: a Let_def case_prod_beta split: if_splits)
qed simp

end
