(* ===== verification/Store_Inv.thy ===== *)
theory Store_Inv
  imports Store_Index Store_Log_Inv
begin

text \<open>
  Lemmas on the session index and on retention: names stay unique under every transaction, the retained
  sessions are exactly the recent ones, and pruning touches nothing of a session it spares.
\<close>

section \<open>The index\<close>

text \<open>Names are compared by their lower-case form.\<close>

definition lname :: "index_entry \<Rightarrow> string option" where
  "lname e = map_option to_ascii_lowercase (ie_name e)"

definition index_ok :: "session_index \<Rightarrow> bool" where
  "index_ok es \<longleftrightarrow>
     distinct (map ie_id es) \<and>
     (\<forall>e f n. e \<in> set es \<longrightarrow> f \<in> set es \<longrightarrow> lname e = Some n \<longrightarrow> lname f = Some n \<longrightarrow> ie_id e = ie_id f)"

lemma name_matches_iff: "name_matches (ie_name e) q \<longleftrightarrow> lname e = Some (to_ascii_lowercase q)"
  by (cases "ie_name e") (auto simp: name_matches_def eq_ignore_ascii_case_def lname_def)

lemma index_okI:
  assumes "distinct (map ie_id es)"
    and "\<And>e f n. e \<in> set es \<Longrightarrow> f \<in> set es \<Longrightarrow> lname e = Some n \<Longrightarrow> lname f = Some n \<Longrightarrow> ie_id e = ie_id f"
  shows "index_ok es"
  using assms unfolding index_ok_def by blast

lemma index_okD:
  assumes "index_ok es"
  shows "distinct (map ie_id es)"
    and "e \<in> set es \<Longrightarrow> f \<in> set es \<Longrightarrow> lname e = Some n \<Longrightarrow> lname f = Some n \<Longrightarrow> ie_id e = ie_id f"
  using assms unfolding index_ok_def by blast+

lemma index_ok_eqI:
  assumes ok: "index_ok es" and "e \<in> set es" and "f \<in> set es" and "lname e = Some n" and "lname f = Some n"
  shows "e = f"
proof -
  have "inj_on ie_id (set es)" using index_okD(1) [OF ok] by (simp add: distinct_map)
  from inj_onD [OF this index_okD(2) [OF assms]] assms(2,3) show ?thesis .
qed

lemma update_first_other: "s \<notin> k ` set xs \<Longrightarrow> map (\<lambda>x. if k x = s then f x else x) xs = xs"
  by (intro map_idI) auto

lemma update_first_map:
  "distinct (map k xs) \<Longrightarrow> update_first (\<lambda>x. k x = s) f xs = map (\<lambda>x. if k x = s then f x else x) xs"
  by (induction xs) (auto simp: update_first_other)

lemma index_ok_Nil [simp]: "index_ok []"
  by (simp add: index_ok_def)

lemma index_ok_filter:
  assumes ok: "index_ok es"
  shows "index_ok (filter P es)"
  by (rule index_okI) (use index_okD [OF ok] in \<open>auto simp: distinct_map_filter\<close>)

lemma index_ok_map:
  assumes ok: "index_ok es" and "\<And>e. ie_id (g e) = ie_id e"
    and nm: "\<And>e f n. e \<in> set es \<Longrightarrow> f \<in> set es \<Longrightarrow> lname (g e) = Some n \<Longrightarrow> lname (g f) = Some n \<Longrightarrow> ie_id e = ie_id f"
  shows "index_ok (map g es)"
proof (rule index_okI)
  have "map ie_id (map g es) = map ie_id es" using assms(2) by simp
  then show "distinct (map ie_id (map g es))" using index_okD(1) [OF ok] by (simp only:)
  fix e f n
  assume ef: "e \<in> set (map g es)" "f \<in> set (map g es)" "lname e = Some n" "lname f = Some n"
  then obtain x y where "x \<in> set es" "e = g x" "y \<in> set es" "f = g y" by auto
  with nm [of x y n] ef(3,4) assms(2) show "ie_id e = ie_id f" by simp
qed

lemma index_ok_snoc:
  assumes ok: "index_ok es" and "\<not> has_entry (ie_id x) es"
    and nm: "\<And>e n. e \<in> set es \<Longrightarrow> lname x = Some n \<Longrightarrow> lname e \<noteq> Some n"
  shows "index_ok (es @ [x])"
proof (rule index_okI)
  show "distinct (map ie_id (es @ [x]))"
    using index_okD(1) [OF ok] assms(2) by (simp add: has_entry_def)
  fix e f n
  assume "e \<in> set (es @ [x])" "f \<in> set (es @ [x])" "lname e = Some n" "lname f = Some n"
  then show "ie_id e = ie_id f" using index_okD(2) [OF ok, of e f n] nm by auto
qed

definition touched :: "session_id \<Rightarrow> nat \<Rightarrow> u64 \<Rightarrow> index_entry \<Rightarrow> index_entry" where
  "touched s count now e = (if ie_id e = s then e\<lparr>ie_count := count, ie_updated := now\<rparr> else e)"

definition renamed :: "session_id \<Rightarrow> string \<Rightarrow> index_entry \<Rightarrow> index_entry" where
  "renamed s name e = (if ie_id e = s then e\<lparr>ie_name := Some name\<rparr> else e)"

lemma entry_update_sel [simp]:
  "ie_id (touched s count now e) = ie_id e" "lname (touched s count now e) = lname e"
  "ie_id (renamed s name e) = ie_id e"
  "lname (renamed s name e) = (if ie_id e = s then Some (to_ascii_lowercase name) else lname e)"
  "ie_id (fresh_entry s count now x) = s"
  "lname (fresh_entry s count now x) = map_option to_ascii_lowercase x"
  by (simp_all add: touched_def renamed_def lname_def fresh_entry_def)

lemma touch_entries_eq:
  "index_ok es \<Longrightarrow> has_entry s es \<Longrightarrow> touch_entries s count now es = map (touched s count now) es"
  using update_first_map [OF index_okD(1)] by (simp add: touch_entries_def touched_def [abs_def])

lemma touch_entries_ok:
  assumes ok: "index_ok es"
  shows "index_ok (touch_entries s count now es)"
proof (cases "has_entry s es")
  case True
  have "index_ok (map (touched s count now) es)"
  proof (rule index_ok_map [OF ok])
    fix e f n
    assume "e \<in> set es" "f \<in> set es" "lname (touched s count now e) = Some n" "lname (touched s count now f) = Some n"
    then show "ie_id e = ie_id f" by (intro index_okD(2) [OF ok, of e f n]) simp_all
  qed simp
  with True ok show ?thesis by (simp add: touch_entries_eq)
next
  case False
  then have "index_ok (es @ [fresh_entry s count now None])"
    by (intro index_ok_snoc [OF ok]) simp_all
  with False show ?thesis by (simp add: touch_entries_def)
qed

lemma name_entries_cases:
  assumes "index_ok es" and "name_entries s name now es = Inr es'"
  shows "e \<in> set es \<Longrightarrow> ie_id e \<noteq> s \<Longrightarrow> lname e \<noteq> Some (to_ascii_lowercase name)"
    and "es' = (if has_entry s es then map (renamed s name) es
                else es @ [fresh_entry s 0 now (Some name)])"
proof -
  have f: "List.find (\<lambda>e. ie_id e \<noteq> s \<and> name_matches (ie_name e) name) es = None"
    using assms(2) by (simp add: name_entries_def split: option.splits)
  then show "e \<in> set es \<Longrightarrow> ie_id e \<noteq> s \<Longrightarrow> lname e \<noteq> Some (to_ascii_lowercase name)"
    by (auto simp: find_None_iff name_matches_iff)
  have "distinct (map ie_id es)" by (rule index_okD(1) [OF assms(1)])
  moreover have "(\<lambda>e. if ie_id e = s then e\<lparr>ie_name := Some name\<rparr> else e) = renamed s name"
    by (simp add: fun_eq_iff renamed_def)
  ultimately have "update_first (\<lambda>e. ie_id e = s) (\<lambda>e. e\<lparr>ie_name := Some name\<rparr>) es = map (renamed s name) es"
    by (simp add: update_first_map)
  with assms(2) f show "es' = (if has_entry s es then map (renamed s name) es
                else es @ [fresh_entry s 0 now (Some name)])"
    by (simp add: name_entries_def split: if_splits)
qed

lemma name_entries_ok:
  assumes ok: "index_ok es" and ne: "name_entries s name now es = Inr es'"
  shows "index_ok es'"
proof (cases "has_entry s es")
  case True
  have "index_ok (map (renamed s name) es)"
  proof (rule index_ok_map [OF ok])
    fix e f n assume ef: "e \<in> set es" "f \<in> set es"
      "lname (renamed s name e) = Some n" "lname (renamed s name f) = Some n"
    show "ie_id e = ie_id f"
      using ef name_entries_cases(1) [OF ok ne, of e] name_entries_cases(1) [OF ok ne, of f]
        index_okD(2) [OF ok ef(1,2)]
      by (cases "ie_id e = s"; cases "ie_id f = s") simp_all
  qed simp
  with True name_entries_cases(2) [OF ok ne] show ?thesis by simp
next
  case False
  then have "ie_id e \<noteq> s" if "e \<in> set es" for e using that by (auto simp: has_entry_def)
  with name_entries_cases(1) [OF ok ne] have "index_ok (es @ [fresh_entry s 0 now (Some name)])"
    using False by (intro index_ok_snoc [OF ok]) auto
  with False name_entries_cases(2) [OF ok ne] show ?thesis by simp
qed

text \<open>The session that took a name is the one the name finds.\<close>

lemma find_unique:
  assumes "index_ok es" and "e \<in> set es" and "lname e = Some (to_ascii_lowercase q)"
  shows "List.find (\<lambda>e. name_matches (ie_name e) q) es = Some e"
proof (cases "List.find (\<lambda>e. name_matches (ie_name e) q) es")
  case None
  with assms(2,3) show ?thesis by (auto simp: find_None_iff name_matches_iff)
next
  case (Some x)
  then have "x \<in> set es" "lname x = Some (to_ascii_lowercase q)"
    by (auto simp: find_Some_iff name_matches_iff)
  with index_ok_eqI [OF assms(1) _ assms(2) _ assms(3)] Some show ?thesis by simp
qed

lemma named_entry_found:
  assumes ok: "index_ok es" and ne: "name_entries s name now es = Inr es'"
    and q: "to_ascii_lowercase q = to_ascii_lowercase name"
  shows "\<exists>e. List.find (\<lambda>e. name_matches (ie_name e) q) es' = Some e \<and> ie_id e = s"
proof -
  obtain e where e: "e \<in> set es'" "ie_id e = s" "lname e = Some (to_ascii_lowercase name)"
  proof (cases "has_entry s es")
    case True
    then obtain x where x: "x \<in> set es" "ie_id x = s" by (auto simp: has_entry_def)
    with True name_entries_cases(2) [OF ok ne] have "renamed s name x \<in> set es'" by simp
    with x that [of "renamed s name x"] show ?thesis by simp
  next
    case False
    with name_entries_cases(2) [OF ok ne] that [of "fresh_entry s 0 now (Some name)"] show ?thesis by simp
  qed
  from find_unique [OF name_entries_ok [OF ok ne] e(1)] e q show ?thesis by auto
qed

section \<open>Retention\<close>

lemma rank_sorted:
  assumes "sorted_wrt (<) (map k xs)" and "i < length xs"
  shows "card {y \<in> set xs. k y < (k (xs ! i) :: 'k::linorder)} = i"
proof -
  have "k (xs ! a) < k (xs ! b) \<longleftrightarrow> a < b" if "a < length xs" "b < length xs" for a b
    using that assms(1) sorted_wrt_nth_less [of "(<)" "map k xs" a b] sorted_wrt_nth_less [of "(<)" "map k xs" b a]
    by (cases a b rule: linorder_cases) auto
  then have "{y \<in> set xs. k y < k (xs ! i)} = (!) xs ` {0..<i}"
    using assms(2) by (auto simp: in_set_conv_nth image_iff) (metis less_trans)+
  then have "{y \<in> set xs. k y < k (xs ! i)} = set (take i xs)"
    using assms(2) by (simp add: nth_image)
  moreover have "distinct xs"
    using assms(1) by (metis distinct_map strict_sorted_iff)
  ultimately show ?thesis using assms(2) by (simp add: distinct_card)
qed

text \<open>How many sessions are more recent than one.\<close>

definition rank_of :: "session_index \<Rightarrow> index_entry \<Rightarrow> nat" where
  "rank_of es e = card {f \<in> set es. recency_key f < recency_key e}"

lemma recency_sorted:
  assumes "distinct (map ie_id es)"
  shows "sorted_wrt (<) (map recency_key (sort_key recency_key es))"
proof -
  have "ie_id e = snd (recency_key e)" for e :: index_entry by (simp add: recency_key_def)
  then have "map ie_id es = map snd (map recency_key es)" by simp
  with assms have "distinct (map recency_key es)" by (metis distinct_map)
  then have "distinct (map recency_key (sort_key recency_key es))" by (simp add: distinct_map)
  then show ?thesis by (simp add: strict_sorted_iff)
qed

definition doomed_by :: "session_index \<Rightarrow> retention_policy \<Rightarrow> u64 \<Rightarrow> index_entry \<Rightarrow> bool" where
  "doomed_by es p now e \<longleftrightarrow> over_count p (rank_of es e) \<or> too_old p now e"

lemma sessions_to_remove_iff:
  assumes d: "distinct (map ie_id es)"
  shows "s \<in> set (sessions_to_remove es p now) \<longleftrightarrow> (\<exists>e \<in> set es. ie_id e = s \<and> doomed_by es p now e)"
proof -
  let ?xs = "sort_key recency_key es"
  have rank: "rank_of es (?xs ! i) = i" if "i < length es" for i
    using rank_sorted [OF recency_sorted [OF d], of i] that by (simp add: rank_of_def)
  have "s \<in> set (sessions_to_remove es p now) \<longleftrightarrow>
      (\<exists>i < length es. ie_id (?xs ! i) = s \<and> (over_count p i \<or> too_old p now (?xs ! i)))"
    by (auto simp: sessions_to_remove_def in_set_enumerate_eq image_iff)
  also have "\<dots> \<longleftrightarrow> (\<exists>i < length es. ie_id (?xs ! i) = s \<and> doomed_by es p now (?xs ! i))"
    using rank by (auto simp: doomed_by_def)
  also have "\<dots> \<longleftrightarrow> (\<exists>e \<in> set ?xs. ie_id e = s \<and> doomed_by es p now e)"
    by (metis in_set_conv_nth length_sort)
  finally show ?thesis by simp
qed

lemma distinct_sessions_to_remove: "distinct (sessions_to_remove es p now)"
  by (simp add: sessions_to_remove_def)

text \<open>With a count limit no more than that many sessions are retained.\<close>

lemma retained_bounded:
  assumes d: "distinct (map ie_id es)" and "rp_max_sessions p > 0"
  shows "card {e \<in> set es. \<not> doomed_by es p now e} \<le> unat (rp_max_sessions p)"
proof -
  let ?n = "unat (rp_max_sessions p)" and ?xs = "sort_key recency_key es"
  have rank: "rank_of es (?xs ! i) = i" if "i < length es" for i
    using rank_sorted [OF recency_sorted [OF d], of i] that by (simp add: rank_of_def)
  have "{e \<in> set es. \<not> doomed_by es p now e} \<subseteq> set (take ?n ?xs)"
  proof
    fix e assume e: "e \<in> {e \<in> set es. \<not> doomed_by es p now e}"
    then obtain i where i: "i < length es" "e = ?xs ! i"
      by (metis (no_types, lifting) in_set_conv_nth length_sort mem_Collect_eq set_sort)
    with e rank have "i < ?n" using assms(2) by (auto simp: doomed_by_def over_count_def)
    with i show "e \<in> set (take ?n ?xs)" by (auto simp: in_set_conv_nth)
  qed
  then have "card {e \<in> set es. \<not> doomed_by es p now e} \<le> card (set (take ?n ?xs))"
    by (intro card_mono) auto
  also have "\<dots> \<le> ?n" using card_length [of "take ?n ?xs"] by simp
  finally show ?thesis .
qed

section \<open>Pruning\<close>

lemma remove_path_frame: "q \<noteq> p \<Longrightarrow> fst (remove_path b io p fs) q = fs q"
  by (auto simp: remove_path_def split: store_backend.splits)

lemma remove_paths_frame: "q \<notin> set ps \<Longrightarrow> fst (remove_paths b io ps fs) q = fs q"
proof (induction ps arbitrary: fs)
  case (Cons p ps)
  then show ?case
    using remove_path_frame [of q p b io fs] by (auto split: prod.splits sum.splits)
qed simp

lemma remove_paths_done: "snd (remove_paths b io ps fs) = Inr u \<Longrightarrow> q \<in> set ps \<Longrightarrow> fst (remove_paths b io ps fs) q = None"
proof (induction ps arbitrary: fs)
  case (Cons p ps)
  obtain fs' r where r: "remove_path b io p fs = (fs', r)" by fastforce
  with Cons.prems(1) obtain v where v: "r = Inr v" "snd (remove_paths b io ps fs') = Inr u"
    by (auto split: sum.splits)
  have gone: "fs' p = None" using r v(1) by (auto simp: remove_path_def split: store_backend.splits if_splits)
  show ?case
  proof (cases "q \<in> set ps")
    case True
    with Cons.IH [OF v(2)] r v(1) show ?thesis by simp
  next
    case False
    with Cons.prems(2) gone remove_paths_frame [of q ps b io fs'] r v(1) show ?thesis by simp
  qed
qed simp

lemma write_index_frame: "q \<noteq> Index_path \<Longrightarrow> fst (write_index c b io es fs) q = fs q"
  by (auto simp: write_index_def write_bytes_def split: store_backend.splits)

lemma prune_sessions_frame:
  assumes "q \<notin> set (doomed_paths doomed)" and "q \<notin> Owner_record_path ` set doomed" and "q \<noteq> Index_path"
  shows "fst (prune_sessions c b io doomed fs) q = fs q"
  using assms remove_paths_frame [of q "doomed_paths doomed" b io fs]
    remove_paths_frame [of q "map Owner_record_path doomed" b io] write_index_frame [of q c b io]
  by (auto simp: prune_sessions_def split: prod.splits sum.splits store_backend.splits) (metis fst_conv)+

lemma hold_doomed_eq: "hold_doomed hold ss = Inr ds \<Longrightarrow> ds = filter (\<lambda>s. hold s = Lock_taken) ss"
proof (induction ss arbitrary: ds)
  case (Cons s ss)
  then show ?case by (cases "hold_doomed hold ss") (auto split: hold_result.splits)
qed simp

lemma doomed_sessions_iff:
  assumes "distinct (map ie_id es)" and "doomed_sessions b hold es p now = Inr ds"
  shows "s \<in> set ds \<longleftrightarrow>
    (\<exists>e \<in> set es. ie_id e = s \<and> doomed_by es p now e) \<and> (b = Disk \<longrightarrow> hold s = Lock_taken)"
  using assms(2) hold_doomed_eq [of hold "sessions_to_remove es p now" ds]
  by (cases b) (auto simp: doomed_sessions_def sessions_to_remove_iff [OF assms(1)])

text \<open>A spared session's transcript was read, and the keys in it are live.\<close>

lemma live_keys_cover:
  assumes "live_keys c b io doomed es fs = Inr keys" and "e \<in> set es" and "ie_id e \<notin> set doomed"
    and "read_transcript (sc_parse_message c) b (si_read_fails io (Session_path (ie_id e)))
      (fs (Session_path (ie_id e))) = Inr ms"
  shows "(''recovery-'' @ sc_show_id c (ie_id e)) \<in> set keys \<and> \<Union> (set ` collect_tool_output_keys ` set ms) \<subseteq> set keys"
  using assms
proof (induction es arbitrary: keys)
  case (Cons x es)
  show ?case
  proof (cases "ie_id x \<in> set doomed")
    case True
    with Cons show ?thesis by auto
  next
    case False
    with Cons.prems(1) obtain ms' ks where
      ms': "read_transcript (sc_parse_message c) b (si_read_fails io (Session_path (ie_id x)))
        (fs (Session_path (ie_id x))) = Inr ms'"
      and ks: "live_keys c b io doomed es fs = Inr ks"
        "keys = (''recovery-'' @ sc_show_id c (ie_id x)) # concat (map collect_tool_output_keys ms') @ ks"
      by (cases "live_keys c b io doomed es fs") (auto split: sum.splits)
    show ?thesis
    proof (cases "e = x")
      case True
      with ms' ks(2) Cons.prems(4) show ?thesis by auto
    next
      case False
      with Cons.IH [OF ks(1) _ Cons.prems(3,4)] Cons.prems(2) ks(2) show ?thesis by auto
    qed
  qed
qed simp

lemma prune_frame:
  assumes "load_index c b io fs = Inr es" and "doomed_sessions b hold es p now = Inr doomed"
    and "live_keys c b io doomed es fs = Inr keys"
    and "q \<notin> Tool_output_path ` set (orphans keys (tool_output_stems names))"
    and "q \<notin> set (doomed_paths doomed)" and "q \<notin> Owner_record_path ` set doomed" and "q \<noteq> Index_path"
  shows "fst (prune c b io hold names p now dry_run fs) q = fs q"
proof -
  let ?gone = "map Tool_output_path (orphans keys (tool_output_stems names))"
  have "fst (remove_paths b io ?gone fs) q = fs q"
    using assms(4) by (intro remove_paths_frame) auto
  moreover have "fst (prune_sessions c b io doomed (fst (remove_paths b io ?gone fs))) q = fs q"
    using prune_sessions_frame [OF assms(5-7)] calculation by simp
  ultimately show ?thesis
    by (auto simp: prune_def assms(1-3) Let_def split: prod.splits sum.splits)
qed

lemma prune_fails_early:
  assumes "load_index c b io fs = Inr es"
    and "\<nexists>doomed keys. doomed_sessions b hold es p now = Inr doomed \<and> live_keys c b io doomed es fs = Inr keys"
  shows "fst (prune c b io hold names p now dry_run fs) = fs"
  using assms by (auto simp: prune_def split: sum.splits)

lemma doomed_paths_iff:
  "q \<in> set (doomed_paths doomed) \<longleftrightarrow> (\<exists>s \<in> set doomed. q = Session_path s \<or> q = Events_path s)"
  by (auto simp: doomed_paths_def)

section \<open>Keys\<close>

lemma split_by_single: "\<forall>c \<in> set s. \<not> P c \<Longrightarrow> split_by P s = [s]"
  by (induction s) auto

lemma safe_chars_no_slash: "list_all safe_key_char k \<Longrightarrow> c \<in> set k \<Longrightarrow> c \<noteq> CHR ''/''"
  by (auto simp: list_all_iff safe_key_char_def is_ascii_alphanumeric_def is_ascii_digit_def is_ascii_upper_def
      is_ascii_lower_def)

lemma one_component:
  assumes "\<forall>c \<in> set s. c \<noteq> CHR ''/''" and "s \<noteq> []" and "s \<noteq> ''.''" and "s \<noteq> ''..''"
  shows "components s = [Normal s]"
proof -
  have "split_by (\<lambda>c. c = CHR ''/'') s = [s]" using assms(1) by (intro split_by_single) auto
  moreover have "\<not> has_root s" using assms(1,2) by (cases s) (auto simp: has_root_def)
  moreover have "seg_comp s = Some (Normal s)" using assms(2-4) by auto
  ultimately show ?thesis using assms(3) by (simp add: components_def List.map_filter_simps)
qed

text \<open>A key that passes is one name inside its directory, with or without the extension.\<close>

lemma safe_key_inside:
  assumes "safe_key key = Inr k"
  shows "k = key" and "components k = [Normal k]" and "components (k @ ''.txt'') = [Normal (k @ ''.txt'')]"
    and "components (k @ ''.json'') = [Normal (k @ ''.json'')]"
proof -
  from assms have k: "k = key" "list_all safe_key_char k" "k \<noteq> []" "k \<noteq> ''.''" "k \<noteq> ''..''"
    by (auto simp: safe_key_def split: if_splits)
  have sl: "\<forall>c \<in> set k. c \<noteq> CHR ''/''" using safe_chars_no_slash [OF k(2)] by blast
  show "k = key" by (rule k)
  show "components k = [Normal k]" using one_component [OF sl] k by blast
  have short: "k @ x \<noteq> ''.'' \<and> k @ x \<noteq> ''..''" if "length x > 2" for x
    using that by (auto dest: arg_cong [where f = length])
  have inside: "components (k @ x) = [Normal (k @ x)]" if "length x > 2" "\<forall>c \<in> set x. c \<noteq> CHR ''/''" for x
    using short [OF that(1)] sl that(2) k(3) by (intro one_component) auto
  show "components (k @ ''.txt'') = [Normal (k @ ''.txt'')]" by (rule inside) simp_all
  show "components (k @ ''.json'') = [Normal (k @ ''.json'')]" by (rule inside) simp_all
qed

text \<open>The snapshot written under a key is the one the sweep knows by that key.\<close>

lemma stem_of_key:
  assumes "safe_key key = Inr k"
  shows "tool_output_stems [k @ ''.txt''] = [k]"
proof -
  have "file_name (k @ ''.txt'') = Some (k @ ''.txt'')"
    using safe_key_inside(3) [OF assms] by (simp add: file_name_def comps_file_name_def)
  moreover have "split_at_dot (k @ ''.txt'') = (k, Some ''txt'')"
    using assms by (auto simp: split_at_dot_def Let_def safe_key_def split: if_splits)
  ultimately show ?thesis
    by (simp add: tool_output_stems_def file_extension_def file_stem_def List.map_filter_simps)
qed

end
