(* ===== verification/Prompt_History.thy ===== *)
theory Prompt_History
  imports Store_Log_Inv
begin

text \<open>
  \<^verbatim>\<open>crates/localpilot-store/src/history.rs\<close>: the prompts the composer can recall, one JSON line each in
  one file that is rewritten with every prompt. Serialization and parsing are arguments, and so is
  whether the file can be written; a directory is known by its text.
\<close>

section \<open>Definitions\<close>

definition HISTORY_FORMAT_VERSION :: u32 where "HISTORY_FORMAT_VERSION = 1"
definition MAX_HISTORY_ENTRIES :: nat where "MAX_HISTORY_ENTRIES = 1000"
definition PASTE_PERSIST_BUDGET :: nat where "PASTE_PERSIST_BUDGET = 64 * 1024"

record history_paste =
  hp_placeholder :: string
  hp_content :: string

record history_entry =
  he_v :: u32
  he_text :: string
  he_cwd :: string
  he_at :: u64
  he_pastes :: "history_paste list"

text \<open>\<open>ph_path\<close> tells whether a location could be resolved.\<close>

record prompt_history =
  ph_enabled :: bool
  ph_path :: bool
  ph_muted :: bool

definition with_store :: "bool \<Rightarrow> prompt_history" where
  "with_store located = \<lparr>ph_enabled = located, ph_path = located, ph_muted = False\<rparr>"

definition set_muted :: "bool \<Rightarrow> prompt_history \<Rightarrow> prompt_history" where
  "set_muted m ph = ph\<lparr>ph_muted := m\<rparr>"

definition history_enabled :: "prompt_history \<Rightarrow> bool" where
  "history_enabled ph \<longleftrightarrow> ph_enabled ph \<and> ph_path ph \<and> \<not> ph_muted ph"

text \<open>The last so many.\<close>

definition keep_last :: "nat \<Rightarrow> 'a list \<Rightarrow> 'a list" where
  "keep_last n xs = drop (length xs - n) xs"

definition read_entries :: "(bytes \<Rightarrow> history_entry option) \<Rightarrow> bool \<Rightarrow> bytes option \<Rightarrow> history_entry list" where
  "read_entries parse io_fails f =
     (case f of
        None \<Rightarrow> []
      | Some content \<Rightarrow>
          if io_fails \<or> \<not> is_str content then []
          else keep_last MAX_HISTORY_ENTRIES
                 (List.map_filter parse (filter (\<lambda>l. \<not> blank_line l) (byte_lines content))))"

definition history_load ::
  "(bytes \<Rightarrow> history_entry option) \<Rightarrow> bool \<Rightarrow> prompt_history \<Rightarrow> bytes option \<Rightarrow> history_entry list" where
  "history_load parse io_fails ph f =
     (if \<not> ph_enabled ph \<or> ph_muted ph then []
      else if ph_path ph then read_entries parse io_fails f else [])"

definition kept_pastes :: "history_paste list \<Rightarrow> history_paste list" where
  "kept_pastes ps =
     (if sum_list (map (\<lambda>p. byte_len (hp_content p)) ps) \<le> PASTE_PERSIST_BUDGET then ps else [])"

definition entry_new :: "string \<Rightarrow> history_paste list \<Rightarrow> string \<Rightarrow> u64 \<Rightarrow> history_entry" where
  "entry_new t ps cwd now =
     \<lparr>he_v = HISTORY_FORMAT_VERSION, he_text = t, he_cwd = cwd, he_at = now, he_pastes = ps\<rparr>"

definition repeats_last :: "history_entry list \<Rightarrow> string \<Rightarrow> history_paste list \<Rightarrow> string \<Rightarrow> bool" where
  "repeats_last es t ps cwd \<longleftrightarrow>
     es \<noteq> [] \<and> he_text (last es) = t \<and> he_pastes (last es) = ps \<and> he_cwd (last es) = cwd"

definition history_body :: "(history_entry \<Rightarrow> bytes) \<Rightarrow> history_entry list \<Rightarrow> bytes" where
  "history_body print es = concat (map (\<lambda>e. print e @ [NL]) es)"

record history_io =
  hi_read_fails :: bool
  hi_write_fails :: bool
  hi_perms_fail :: bool
  hi_now :: u64

definition history_append ::
  "(bytes \<Rightarrow> history_entry option) \<Rightarrow> (history_entry \<Rightarrow> bytes) \<Rightarrow> history_io \<Rightarrow> prompt_history
   \<Rightarrow> string \<Rightarrow> history_paste list \<Rightarrow> string \<Rightarrow> bytes option \<Rightarrow> bytes option \<times> (store_error + unit)" where
  "history_append parse print io ph t pastes cwd f =
     (if \<not> ph_enabled ph \<or> ph_muted ph \<or> trim t = [] then (f, Inr ())
      else if \<not> ph_path ph then (f, Inl NoUserDir)
      else let es = read_entries parse (hi_read_fails io) f; ps = kept_pastes pastes
           in if repeats_last es t ps cwd then (f, Inr ())
              else if hi_write_fails io then (f, Inl Store_io)
              else (Some (history_body print
                            (keep_last MAX_HISTORY_ENTRIES (es @ [entry_new t ps cwd (hi_now io)]))),
                    if hi_perms_fail io then Inl Store_io else Inr ()))"

definition project_entries :: "history_entry list \<Rightarrow> string \<Rightarrow> history_entry list" where
  "project_entries es cwd = filter (\<lambda>e. he_cwd e = cwd) es"

definition project_texts :: "history_entry list \<Rightarrow> string \<Rightarrow> string list" where
  "project_texts es cwd = map he_text (project_entries es cwd)"

definition all_texts :: "history_entry list \<Rightarrow> string list" where
  "all_texts es = map he_text es"

section \<open>Lemmas\<close>

text \<open>What the serialization has to be: one non-blank line of UTF-8 that reads back.\<close>

definition line_codec :: "(bytes \<Rightarrow> 'e option) \<Rightarrow> ('e \<Rightarrow> bytes) \<Rightarrow> bool" where
  "line_codec parse print \<longleftrightarrow>
     (\<forall>e. parse (print e) = Some e \<and> is_str (print e) \<and> \<not> blank_line (print e) \<and>
          NL \<notin> set (print e) \<and> CR \<notin> set (print e))"

lemma length_keep_last [simp]: "length (keep_last n xs) = min n (length xs)"
  by (simp add: keep_last_def)

lemma keep_last_all [simp]: "length xs \<le> n \<Longrightarrow> keep_last n xs = xs"
  by (simp add: keep_last_def)

lemma last_keep_last: "xs \<noteq> [] \<Longrightarrow> n > 0 \<Longrightarrow> last (keep_last n xs) = last xs"
  by (simp add: keep_last_def)

lemma keep_last_snoc: "keep_last n (keep_last n xs @ [x]) = keep_last n (xs @ [x])"
  by (simp add: keep_last_def) (cases "length xs \<le> n"; simp add: min_def Suc_diff_le)

lemma body_lines:
  assumes "line_codec parse print"
  shows "is_str (history_body print es) \<and> CR \<notin> set (history_body print es) \<and>
    split_nl (history_body print es) = map print es @ [[]]"
proof (induction es)
  case Nil
  then show ?case by (simp add: history_body_def)
next
  case (Cons e es)
  have b: "history_body print (e # es) = print e @ NL # history_body print es"
    by (simp add: history_body_def)
  from assms have e: "is_str (print e)" "CR \<notin> set (print e)" "NL \<notin> set (print e)"
    by (auto simp: line_codec_def)
  have "CR \<noteq> NL" by (simp add: CR_def NL_def)
  with Cons e show ?case
    by (simp add: b is_str_append split_nl_append split_nl_single)
qed

lemma body_round_trip:
  assumes c: "line_codec parse print"
  shows "read_entries parse False (Some (history_body print es)) = keep_last MAX_HISTORY_ENTRIES es"
proof -
  have "byte_lines (history_body print es) = map print es"
    using body_lines [OF c, of es] by (simp add: byte_lines_plain)
  moreover have "filter (\<lambda>l. \<not> blank_line l) (map print es) = map print es"
    using c by (intro filter_True) (auto simp: line_codec_def)
  moreover have "List.map_filter parse (map print es) = es"
    using c by (induction es) (auto simp: line_codec_def List.map_filter_simps)
  ultimately show ?thesis using body_lines [OF c, of es] by (simp add: read_entries_def)
qed

lemma length_read_entries: "length (read_entries parse b f) \<le> MAX_HISTORY_ENTRIES"
  by (simp add: read_entries_def split: option.splits)

end
