(* ===== verification/Store_Run.thy ===== *)
theory Store_Run
  imports Store_Inv Store_Log Prompt_History "HOL-Library.Countable"
begin

text \<open>
  Sequences of store operations on one state directory, each with its own filesystem failures, and
  sequences of prompts entered into the history; the invariants they keep. Also a concrete codec.
\<close>

section \<open>Operations on a state directory\<close>

datatype store_op =
    Append_message session_id message
  | Set_name session_id string
  | Prune "session_id \<Rightarrow> hold_result" "string list" retention_policy u64 bool
  | Append_event session_id bytes
  | Put_cache string bytes
  | Delete_cache string
  | Put_tool_output string bytes

fun store_apply :: "store_codec \<Rightarrow> store_backend \<Rightarrow> store_op \<Rightarrow> store_io \<Rightarrow> store_files \<Rightarrow> store_files" where
  "store_apply c b (Append_message s m) io fs = fst (append_message c b io s m fs)"
| "store_apply c b (Set_name s raw) io fs = fst (set_session_name c b io s raw fs)"
| "store_apply c b (Prune hold names p now dry) io fs = fst (prune c b io hold names p now dry fs)"
| "store_apply c b (Append_event s line) io fs = fst (append_path b io (Events_path s) line fs)"
| "store_apply c b (Put_cache k v) io fs = fst (put_cache b io k v fs)"
| "store_apply c b (Delete_cache k) io fs = fst (delete_cache b io k fs)"
| "store_apply c b (Put_tool_output k v) io fs = fst (put_tool_output c b io k v fs)"

definition store_run :: "store_codec \<Rightarrow> store_backend \<Rightarrow> (store_op \<times> store_io) list \<Rightarrow> store_files \<Rightarrow> store_files" where
  "store_run c b ops fs = fold (\<lambda>(op, io). store_apply c b op io) ops fs"

text \<open>What the index on disk says, and what its serialization has to be.\<close>

definition index_on_disk :: "store_codec \<Rightarrow> store_files \<Rightarrow> session_index \<Rightarrow> bool" where
  "index_on_disk c fs es \<longleftrightarrow>
     (case fs Index_path of None \<Rightarrow> es = [] | Some bs \<Rightarrow> bs = sc_print_index c es)"

definition index_codec :: "store_codec \<Rightarrow> bool" where
  "index_codec c \<longleftrightarrow>
     (\<forall>es. sc_parse_index c (sc_print_index c es) = Some es \<and> is_str (sc_print_index c es) \<and>
           \<not> blank_line (sc_print_index c es))"

definition index_sound :: "store_codec \<Rightarrow> store_files \<Rightarrow> bool" where
  "index_sound c fs \<longleftrightarrow> (\<exists>es. index_on_disk c fs es \<and> index_ok es)"

lemma load_index_on_disk:
  assumes "index_codec c" and "index_on_disk c fs es"
  shows "load_index c b io fs = Inr es \<or> (b = Disk \<and> si_read_fails io Index_path \<and> load_index c b io fs = Inl Store_io)"
proof -
  have p: "sc_parse_index c (sc_print_index c es) = Some es" "is_str (sc_print_index c es)"
    "\<not> blank_line (sc_print_index c es)"
    using assms(1) by (simp_all add: index_codec_def)
  from assms(2) p show ?thesis
    by (cases "fs Index_path"; cases b)
      (auto simp: index_on_disk_def load_index_def read_path_def read_string_def from_utf8_lossy_id)
qed

lemma write_index_sound:
  assumes "index_sound c fs" and "index_ok es"
  shows "index_sound c (fst (write_index c b io es fs))"
  using assms
  by (auto simp: write_index_def write_bytes_def index_sound_def index_on_disk_def split: store_backend.splits)

lemma index_sound_frame: "index_sound c fs \<Longrightarrow> fs' Index_path = fs Index_path \<Longrightarrow> index_sound c fs'"
  by (simp add: index_sound_def index_on_disk_def)

lemma index_sound_load:
  assumes "index_codec c" and "index_sound c fs" and "load_index c b io fs = Inr es"
  shows "index_ok es"
proof -
  from assms(2) obtain es' where "index_on_disk c fs es'" "index_ok es'" by (auto simp: index_sound_def)
  with load_index_on_disk [OF assms(1) this(1), of b io] assms(3) show ?thesis by auto
qed

lemma touch_index_sound:
  assumes "index_codec c" and "index_sound c fs"
  shows "index_sound c (fst (touch_session_index c b io s n fs))"
proof (cases "load_index c b io fs")
  case (Inl e)
  with assms show ?thesis by (simp add: touch_session_index_def)
next
  case (Inr es)
  with index_sound_load [OF assms] have "index_ok es" by blast
  with Inr assms(2) show ?thesis by (simp add: touch_session_index_def write_index_sound touch_entries_ok)
qed

lemma append_path_frame: "q \<noteq> p \<Longrightarrow> fst (append_path b io p line fs) q = fs q"
  by (simp add: append_path_def split: prod.splits)

lemma append_message_sound:
  assumes "index_codec c" and "index_sound c fs"
  shows "index_sound c (fst (append_message c b io s m fs))"
proof -
  obtain fs' r where a: "append_path b io (Session_path s) (sc_message_line c m) fs = (fs', r)" by fastforce
  with append_path_frame [of Index_path "Session_path s" b io "sc_message_line c m" fs] have
    "fs' Index_path = fs Index_path" by simp
  then have "index_sound c fs'" by (rule index_sound_frame [OF assms(2)])
  with a touch_index_sound [OF assms(1)] show ?thesis
    by (auto simp: append_message_def split: sum.splits)
qed

lemma set_session_name_sound:
  assumes "index_codec c" and "index_sound c fs"
  shows "index_sound c (fst (set_session_name c b io s raw fs))"
proof (cases "load_index c b io fs")
  case (Inl e)
  with assms show ?thesis by (simp add: set_session_name_def Let_def)
next
  case (Inr es)
  with index_sound_load [OF assms] have ok: "index_ok es" by blast
  show ?thesis
    using Inr assms(2) name_entries_ok [OF ok] write_index_sound [OF assms(2)]
    by (auto simp: set_session_name_def Let_def split: sum.splits)
qed

lemma prune_sessions_sound:
  assumes "index_codec c" and "index_sound c fs"
  shows "index_sound c (fst (prune_sessions c b io doomed fs))"
proof -
  obtain fs1 r where a: "remove_paths b io (doomed_paths doomed) fs = (fs1, r)" by fastforce
  have "Index_path \<notin> set (doomed_paths doomed)" by (auto simp: doomed_paths_iff)
  from remove_paths_frame [OF this, of b io fs] a have s1: "index_sound c fs1"
    by (intro index_sound_frame [OF assms(2)]) simp
  have keep: "index_sound c fs2 \<Longrightarrow> index_sound c (fst (remove_paths b io (map Owner_record_path doomed) fs2))" for fs2
    by (erule index_sound_frame) (simp add: remove_paths_frame image_iff)
  show ?thesis
  proof (cases "load_index c b io fs1")
    case (Inl e)
    with a s1 show ?thesis by (auto simp: prune_sessions_def split: sum.splits)
  next
    case (Inr kept)
    obtain fs2 r2 where w: "write_index c b io (filter (\<lambda>e. ie_id e \<notin> set doomed) kept) fs1 = (fs2, r2)"
      by fastforce
    with write_index_sound [OF s1 index_ok_filter [OF index_sound_load [OF assms(1) s1 Inr]]]
    have s2: "index_sound c fs2" by (metis fst_conv)
    from Inr a w s1 s2 keep [OF s2] show ?thesis
      by (cases r; cases r2; cases b) (simp_all add: prune_sessions_def)
  qed
qed

lemma prune_sound:
  assumes "index_codec c" and "index_sound c fs"
  shows "index_sound c (fst (prune c b io hold names p now dry fs))"
proof -
  have keep: "index_sound c (fst (remove_paths b io (map Tool_output_path ks) fs))" for ks
    by (rule index_sound_frame [OF assms(2)]) (simp add: remove_paths_frame image_iff)
  show ?thesis
    using assms(2) keep prune_sessions_sound [OF assms(1)]
    by (auto simp: prune_def Let_def split: sum.splits prod.splits) (metis fst_conv)+
qed

lemma key_ops_frame:
  "fst (put_cache b io k v fs) Index_path = fs Index_path"
  "fst (delete_cache b io k fs) Index_path = fs Index_path"
  "fst (put_tool_output c b io k v fs) Index_path = fs Index_path"
  by (simp_all add: put_cache_def delete_cache_def put_tool_output_def write_bytes_def remove_path_def
      split: sum.splits store_backend.splits)

lemma store_apply_sound:
  assumes "index_codec c" and "index_sound c fs"
  shows "index_sound c (store_apply c b op io fs)"
  using assms append_message_sound [OF assms] set_session_name_sound [OF assms] prune_sound [OF assms]
  by (cases op) (auto intro: index_sound_frame [OF assms(2)] simp: key_ops_frame append_path_frame)

lemma store_run_sound:
  "index_codec c \<Longrightarrow> index_sound c fs \<Longrightarrow> index_sound c (store_run c b ops fs)"
  by (induction ops arbitrary: fs) (auto simp: store_run_def store_apply_sound)

lemma index_sound_empty: "index_sound c (\<lambda>_. None)"
  by (auto simp: index_sound_def index_on_disk_def)

section \<open>A concrete codec\<close>

text \<open>An index as the length of a run of braces: enough to show that the laws can be met.\<close>

definition name_code :: "string option \<Rightarrow> nat" where
  "name_code x = (case x of None \<Rightarrow> 0 | Some n \<Rightarrow> Suc (list_encode (map of_char n)))"

definition name_decode :: "nat \<Rightarrow> string option" where
  "name_decode n = (case n of 0 \<Rightarrow> None | Suc k \<Rightarrow> Some (map char_of (list_decode k)))"

definition entry_code :: "index_entry \<Rightarrow> nat" where
  "entry_code e = prod_encode (unat (ie_id e), prod_encode (ie_count e, prod_encode (unat (ie_created e),
     prod_encode (unat (ie_updated e), name_code (ie_name e)))))"

definition entry_decode :: "nat \<Rightarrow> index_entry" where
  "entry_decode n =
     (case prod_decode n of (i, n1) \<Rightarrow> case prod_decode n1 of (k, n2) \<Rightarrow> case prod_decode n2 of (c, n3) \<Rightarrow>
      case prod_decode n3 of (u, x) \<Rightarrow>
        \<lparr>ie_id = of_nat i, ie_count = k, ie_created = of_nat c, ie_updated = of_nat u, ie_name = name_decode x\<rparr>)"

definition brace_codec :: store_codec where
  "brace_codec =
     \<lparr>sc_parse_index = (\<lambda>bs. Some (map entry_decode (list_decode (length bs - 1)))),
      sc_print_index = (\<lambda>es. replicate (Suc (list_encode (map entry_code es))) 0x7B),
      sc_parse_message = (\<lambda>_. None), sc_message_line = (\<lambda>_. [0x7B]), sc_redact = id,
      sc_parse_id = (\<lambda>_. None), sc_show_id = (\<lambda>_. [])\<rparr>"

lemma name_code_inverse: "name_decode (name_code x) = x"
  by (cases x) (simp_all add: name_code_def name_decode_def comp_def)

lemma entry_code_inverse: "entry_decode (entry_code e) = e"
  by (simp add: entry_code_def entry_decode_def name_code_inverse)

lemma is_str_braces: "is_str (replicate n 0x7B)"
  by (induction n) (simp_all add: is_str_def)

lemma brace_codec_ok: "index_codec brace_codec"
  by (simp add: index_codec_def brace_codec_def comp_def entry_code_inverse brace_not_blank is_str_braces
      flip: replicate_Suc) (simp add: brace_not_blank)

section \<open>Prompts entered one after the other\<close>

type_synonym prompt = "string \<times> history_paste list \<times> string \<times> u64"

definition quiet_history :: "u64 \<Rightarrow> history_io" where
  "quiet_history now =
     \<lparr>hi_read_fails = False, hi_write_fails = False, hi_perms_fail = False, hi_now = now\<rparr>"

fun enter_prompt ::
  "(bytes \<Rightarrow> history_entry option) \<Rightarrow> (history_entry \<Rightarrow> bytes) \<Rightarrow> prompt_history \<Rightarrow> prompt \<Rightarrow> bytes option \<Rightarrow> bytes option" where
  "enter_prompt parse print ph (t, pastes, cwd, now) f =
     fst (history_append parse print (quiet_history now) ph t pastes cwd f)"

text \<open>What the history is meant to be: the last prompts, blank ones and repetitions left out.\<close>

fun remember :: "prompt \<Rightarrow> history_entry list \<Rightarrow> history_entry list" where
  "remember (t, pastes, cwd, now) es =
     (if trim t = [] \<or> repeats_last es t (kept_pastes pastes) cwd then es
      else keep_last MAX_HISTORY_ENTRIES (es @ [entry_new t (kept_pastes pastes) cwd now]))"

lemma enter_prompt_refines:
  assumes c: "line_codec parse print" and en: "history_enabled ph"
    and f: "read_entries parse False f = es"
  shows "read_entries parse False (enter_prompt parse print ph pr f) = remember pr es"
proof -
  obtain t pastes cwd now where pr: "pr = (t, pastes, cwd, now)" by (metis prod_cases4)
  have "keep_last MAX_HISTORY_ENTRIES (keep_last MAX_HISTORY_ENTRIES xs) = keep_last MAX_HISTORY_ENTRIES xs"
    for xs :: "history_entry list" by (rule keep_last_all) simp
  with en f body_round_trip [OF c] show ?thesis
    by (simp add: pr history_append_def history_enabled_def quiet_history_def Let_def)
qed

lemma enter_prompts_refine:
  assumes "line_codec parse print" and "history_enabled ph"
  shows "read_entries parse False (fold (enter_prompt parse print ph) prs f) =
    fold remember prs (read_entries parse False f)"
  using enter_prompt_refines [OF assms] by (induction prs arbitrary: f) auto

text \<open>A concrete line for an entry, in the same way as for the index.\<close>

definition str_code :: "string \<Rightarrow> nat" where
  "str_code s = list_encode (map of_char s)"

definition str_decode :: "nat \<Rightarrow> string" where
  "str_decode n = map char_of (list_decode n)"

definition paste_code :: "history_paste \<Rightarrow> nat" where
  "paste_code p = prod_encode (str_code (hp_placeholder p), str_code (hp_content p))"

definition paste_decode :: "nat \<Rightarrow> history_paste" where
  "paste_decode n = (case prod_decode n of (a, b) \<Rightarrow> \<lparr>hp_placeholder = str_decode a, hp_content = str_decode b\<rparr>)"

definition prompt_code :: "history_entry \<Rightarrow> nat" where
  "prompt_code e = prod_encode (unat (he_v e), prod_encode (str_code (he_text e), prod_encode (str_code (he_cwd e),
     prod_encode (unat (he_at e), list_encode (map paste_code (he_pastes e))))))"

definition prompt_decode :: "nat \<Rightarrow> history_entry" where
  "prompt_decode n =
     (case prod_decode n of (v, n1) \<Rightarrow> case prod_decode n1 of (t, n2) \<Rightarrow> case prod_decode n2 of (c, n3) \<Rightarrow>
      case prod_decode n3 of (k, ps) \<Rightarrow>
        \<lparr>he_v = of_nat v, he_text = str_decode t, he_cwd = str_decode c, he_at = of_nat k,
         he_pastes = map paste_decode (list_decode ps)\<rparr>)"

definition brace_print :: "history_entry \<Rightarrow> bytes" where
  "brace_print e = replicate (Suc (prompt_code e)) 0x7B"

definition brace_parse :: "bytes \<Rightarrow> history_entry option" where
  "brace_parse bs = Some (prompt_decode (length bs - 1))"

lemma str_code_inverse: "str_decode (str_code s) = s"
  by (simp add: str_code_def str_decode_def comp_def)

lemma paste_code_inverse: "paste_decode (paste_code p) = p"
  by (simp add: paste_code_def paste_decode_def str_code_inverse)

lemma prompt_code_inverse: "prompt_decode (prompt_code e) = e"
  by (simp add: prompt_code_def prompt_decode_def str_code_inverse paste_code_inverse comp_def)

lemma brace_line_codec: "line_codec brace_parse brace_print"
  using is_str_braces brace_not_blank
  by (auto simp: line_codec_def brace_parse_def brace_print_def prompt_code_inverse NL_def CR_def simp flip: replicate_Suc)
    (simp add: brace_not_blank)

end
