(* ===== verification/Store_Spec.thy ===== *)
theory Store_Spec
  imports Store_Run
begin

text \<open>
  The properties of the session store: what survives torn writes, that a name resolves to one
  session, what retention keeps and what pruning spares, whole-file writes, and the prompt history.
\<close>

section \<open>The event log\<close>

text \<open>
  C15. After any sequence of appends to an event log, each complete or cut off after any number of
  bytes by an error or a crash, reading the log succeeds and finds exactly the events whose bytes were
  all written, in order, and counts one skipped line per record written in part: a torn write costs
  its own record and no other. It needs that no cut splits a character, that the size of the file can be
  read before an append (\<open>failed_probe_joins_records\<close>), that a record opens with a brace and has no line break, that no
  part of one parses, and that the codec reads back what it wrote.
\<close>

theorem torn_writes_cost_only_themselves:
  assumes records: "\<forall>(e, torn) \<in> set as. record_line parse (enc e) \<and> from_line parse decode (enc e) = Inr e"
    and cuts: "cuts_at_characters enc as []"
  shows "read_events_recovering (from_line parse decode) Disk False (Some (log_run enc as [])) =
    Inr (log_found enc as [])"
proof -
  have "recover_lines (from_line parse decode) (filter (\<lambda>l. \<not> blank_line l) (byte_lines [])) = Inr ([], 0)"
    by (simp add: byte_lines_def)
  from log_run_found [OF _ _ this records cuts] show ?thesis
    by (simp add: read_events_recovering_def read_string_def)
qed

definition tiny_parse :: "bytes \<Rightarrow> json option" where
  "tiny_parse l = (if l = [0x7B, 0x61, 0x7D] then Some (JObject [(''v'', JNumber (PosInt 9))]) else None)"

theorem torn_writes_cost_only_themselves_witness:
  "read_events_recovering (from_line tiny_parse (\<lambda>_. Some ())) Disk False
     (Some (log_run (\<lambda>_. [0x7B, 0x61, 0x7D]) [((), None), ((), Some 2), ((), None), ((), Some 0), ((), Some 4)] [])) =
   Inr ([(), (), ()], 1)"
proof -
  let ?as = "[((), None), ((), Some 2), ((), None), ((), Some 0), ((), Some 4)] :: (unit \<times> nat option) list"
  have rec: "record_line tiny_parse [0x7B, 0x61, 0x7D]"
    by (auto simp: record_line_def tiny_parse_def NL_def CR_def less_Suc_eq numeral_3_eq_3)
  have v: "(event_version (JObject [(''v'', JNumber (PosInt 9))])) = 9" by (simp add: event_version_def)
  have line: "from_line tiny_parse (\<lambda>_. Some ()) [0x7B, 0x61, 0x7D] = Inr ()"
    by (simp add: from_line_def tiny_parse_def v SESSION_EVENT_FORMAT_VERSION_def migrate.simps Let_def)
  have "log_found (\<lambda>_. [0x7B, 0x61, 0x7D]) ?as [] = ([(), (), ()], 1)"
    "cuts_at_characters (\<lambda>_. [0x7B, 0x61, 0x7D]) ?as []"
    by (simp_all add: append_cut_eq append_buffer_def written_part_def tail_open_def NL_def is_str_def)
  with torn_writes_cost_only_themselves [of ?as tiny_parse "\<lambda>_. [0x7B, 0x61, 0x7D]" "\<lambda>_. Some ()"] rec line
  show ?thesis by simp
qed

text \<open>
  When the size of the file cannot be read, an append does not look for a torn tail: it succeeds, and its record goes
  on the line of the torn one, where neither is read.
\<close>

lemma failed_probe_joins_records:
  "append_disk (append_ok\<lparr>ap_meta_fails := True\<rparr>) l (Some f) = (Some (f @ l @ [NL]), Inr ())"
  by (simp add: append_disk_def append_ok_def append_buffer_def)

text \<open>
  A cut inside a character is different: the file is no text any more, and no later append repairs it.
  Every read of the log fails from then on, whatever was in it.
\<close>

lemma log_run_extends:
  assumes "tail_open f"
  shows "log_run enc as f = f \<or> (\<exists>x. log_run enc as f = f @ NL # x)"
proof (induction as rule: rev_induct)
  case (snoc a as)
  obtain e torn where a: "a = (e, torn)" by (cases a)
  have run: "log_run enc (as @ [a]) f = append_cut (enc e) torn (log_run enc as f)"
    unfolding a by (induction as arbitrary: f) auto
  from snoc.IH show ?case
  proof (elim disjE exE)
    assume "log_run enc as f = f"
    with assms show ?thesis
      by (cases torn) (auto simp: run append_cut_eq append_buffer_def take_Cons split: nat.splits)
  next
    fix x assume "log_run enc as f = f @ NL # x"
    then show ?thesis by (auto simp: run append_cut_eq)
  qed
qed simp

lemma split_character_loses_the_log:
  assumes "\<not> is_str f" and "tail_open f"
  shows "read_events_recovering rd Disk False (Some (log_run enc as f)) = Inl Store_io"
proof -
  have "\<not> is_str (log_run enc as f)"
    using log_run_extends [OF assms(2), of enc as] torn_stays_torn [OF assms(1)] assms(1) by auto
  then show ?thesis by (simp add: read_events_recovering_def read_string_def)
qed

text \<open>
  An event whose redacted text is no JSON any more is gone although its append reported success: the
  next read skips it like a damaged line.
\<close>

lemma unreadable_redaction_loses_the_event:
  assumes f: "f \<noteq> []" "last f = NL" "CR \<notin> set f" "is_str f"
    and rd: "read_events_recovering (from_line parse decode) Disk False (Some f) = Inr (es, n)"
    and l: "l = to_line e" "l \<noteq> []" "hd l = 0x7B" "NL \<notin> set l" "CR \<notin> set l" "is_str l" "parse l = None"
  shows "\<exists>f'. append_event to_line Disk append_ok e (Some f) = (Some f', Inr (se_id e)) \<and>
    read_events_recovering (from_line parse decode) Disk False (Some f') = Inr (es, Suc n)"
proof -
  have open_: "\<not> tail_open f" using f by (simp add: tail_open_def)
  have w: "append_event to_line Disk append_ok e (Some f) = (Some (f @ l @ [NL]), Inr (se_id e))"
    using f by (simp add: append_event_def append_record_def append_disk_def append_ok_def append_buffer_def
        ends_with_newline_def l(1))
  have "byte_lines (f @ l @ [NL]) = byte_lines f @ [l]"
    using byte_lines_grow [OF f(3) l(5,4,2) refl, of "Suc (length l)"] open_ l(2)
    by (simp add: append_buffer_def)
  moreover obtain s where "l = 0x7B # s" using l(2,3) by (cases l) auto
  then have "\<not> blank_line l" using brace_not_blank by simp
  moreover have "is_str (f @ l @ [NL])"
    using f(4) l(6) by (simp add: is_str_append)
  moreover have "from_line parse decode l = Inl Serde" using l(7) by (simp add: from_line_def)
  ultimately show ?thesis
    using w rd f(4) recover_lines_snoc [of "from_line parse decode" "filter (\<lambda>l. \<not> blank_line l) (byte_lines f)" es n l]
    by (simp add: read_events_recovering_def read_string_def)
qed

text \<open>
  Migration of a record of any known format succeeds, stamps the current version and keeps every other
  field; a record of a newer format is refused by its version and never skipped.
\<close>

lemma newer_format_is_an_error:
  assumes "parse l = Some v" and "event_version v > 9" and "\<not> blank_line l"
  shows "recover_lines (from_line parse decode) (l # ls) = Inl (UnsupportedFormat (event_version v) 9)"
proof -
  have "\<not> event_version v \<le> 9" using assms(2) by simp
  with assms(1) show ?thesis by (simp add: from_line_def Let_def SESSION_EVENT_FORMAT_VERSION_def)
qed

section \<open>The index\<close>

text \<open>
  C32. Whatever store operations run on a directory and whichever of their filesystem calls fail,
  no two sessions in the index carry the same name up to case and no session is listed twice; a session
  that took a name is the one that name finds, in any case and with any white space around it.
\<close>

theorem names_resolve_to_one_session:
  assumes codec: "index_codec c" and fs: "fs = store_run c b ops (\<lambda>_. None)"
  shows "(\<exists>es. index_on_disk c fs es \<and> index_ok es) \<and>
    (set_session_name c b io s raw fs = (fs', Inr ()) \<longrightarrow>
     to_ascii_lowercase (trim q) = to_ascii_lowercase (trim raw) \<longrightarrow> \<not> si_read_fails io' Index_path \<longrightarrow>
     (\<exists>e. find_session_by_name c b io' q fs' = Inr (Some e) \<and> ie_id e = s))"
proof (intro conjI impI)
  have sound: "index_sound c fs" using store_run_sound [OF codec index_sound_empty] fs by simp
  then show "\<exists>es. index_on_disk c fs es \<and> index_ok es" by (simp add: index_sound_def)
  assume set_: "set_session_name c b io s raw fs = (fs', Inr ())"
    and q: "to_ascii_lowercase (trim q) = to_ascii_lowercase (trim raw)" and rd: "\<not> si_read_fails io' Index_path"
  from set_ obtain es es' where l: "load_index c b io fs = Inr es"
    and n: "name_entries s (trim raw) (si_now io) es = Inr es'"
    and w: "write_index c b io es' fs = (fs', Inr ())"
    by (auto simp: set_session_name_def Let_def split: if_splits sum.splits)
  from w have "index_on_disk c fs' es'"
    by (auto simp: write_index_def write_bytes_def index_on_disk_def split: store_backend.splits if_splits)
  from load_index_on_disk [OF codec this, of b io'] rd have "load_index c b io' fs' = Inr es'" by blast
  with named_entry_found [OF index_sound_load [OF codec sound l] n q] show
    "\<exists>e. find_session_by_name c b io' q fs' = Inr (Some e) \<and> ie_id e = s"
    by (simp add: find_session_by_name_def)
qed

definition calm_store :: store_io where
  "calm_store = \<lparr>si_read_fails = (\<lambda>_. False), si_write_fails = (\<lambda>_. False), si_remove_fails = (\<lambda>_. False),
              si_append = append_ok, si_now = 5\<rparr>"

definition named_files :: store_files where
  "named_files = (\<lambda>_. None)(Index_path \<mapsto> sc_print_index brace_codec [fresh_entry 1 0 5 (Some ''Demo'')])"

lemma set_name_demo: "set_session_name brace_codec Disk calm_store 1 '' Demo'' (\<lambda>_. None) = (named_files, Inr ())"
  by (simp add: set_session_name_def load_index_def read_path_def read_string_def name_entries_def has_entry_def
      write_index_def write_bytes_def calm_store_def named_files_def brace_codec_def trim_def trim_matches_def
      is_whitespace_def)

theorem names_resolve_to_one_session_witness:
  "\<exists>e. find_session_by_name brace_codec Disk calm_store ''DEMO '' named_files = Inr (Some e) \<and> ie_id e = 1"
proof -
  have "to_ascii_lowercase (trim ''DEMO '') = to_ascii_lowercase (trim '' Demo'')"
    by (simp add: to_ascii_lowercase_def trim_def trim_matches_def is_whitespace_def is_ascii_upper_def)
  moreover have "(\<lambda>_. None) = store_run brace_codec Disk [] (\<lambda>_. None)" by (simp add: store_run_def)
  moreover have "\<not> si_read_fails calm_store Index_path" by (simp add: calm_store_def)
  ultimately show ?thesis
    using names_resolve_to_one_session [OF brace_codec_ok, of "\<lambda>_. None" Disk "[]" calm_store 1 "'' Demo''"
        named_files "''DEMO ''" calm_store] set_name_demo by blast
qed

section \<open>Retention\<close>

text \<open>
  C33. A policy removes a session exactly when it limits the count and at least that many sessions were
  updated more recently (ties by id), or when it limits the age and the session is older than the
  cut-off; a count limit leaves at most that many sessions, and an unbounded policy removes nothing.
\<close>

theorem retention_keeps_exactly_the_recent:
  assumes "distinct (map ie_id es)"
  shows "(s \<in> set (sessions_to_remove es p now) \<longleftrightarrow>
      (\<exists>e \<in> set es. ie_id e = s \<and>
        (rp_max_sessions p > 0 \<and>
           unat (rp_max_sessions p) \<le> card {f \<in> set es. recency_key f < recency_key e} \<or>
         rp_max_age_days p > 0 \<and>
           ie_updated e < saturating_sub now (saturating_mul (rp_max_age_days p) 86400)))) \<and>
    (rp_max_sessions p > 0 \<longrightarrow>
       card {e \<in> set es. ie_id e \<notin> set (sessions_to_remove es p now)} \<le> unat (rp_max_sessions p)) \<and>
    (is_unbounded p \<longrightarrow> sessions_to_remove es p now = [])"
proof (intro conjI impI)
  note iff = sessions_to_remove_iff [OF assms, of _ p now]
  show "s \<in> set (sessions_to_remove es p now) \<longleftrightarrow>
      (\<exists>e \<in> set es. ie_id e = s \<and>
        (rp_max_sessions p > 0 \<and>
           unat (rp_max_sessions p) \<le> card {f \<in> set es. recency_key f < recency_key e} \<or>
         rp_max_age_days p > 0 \<and>
           ie_updated e < saturating_sub now (saturating_mul (rp_max_age_days p) 86400)))"
    unfolding iff by (auto simp: doomed_by_def over_count_def rank_of_def too_old_def age_cutoff_def)
  have "{e \<in> set es. ie_id e \<notin> set (sessions_to_remove es p now)} \<subseteq> {e \<in> set es. \<not> doomed_by es p now e}"
    using iff by auto
  then have "card {e \<in> set es. ie_id e \<notin> set (sessions_to_remove es p now)} \<le>
      card {e \<in> set es. \<not> doomed_by es p now e}"
    by (intro card_mono) auto
  with retained_bounded [OF assms, of p now] show "rp_max_sessions p > 0 \<Longrightarrow>
      card {e \<in> set es. ie_id e \<notin> set (sessions_to_remove es p now)} \<le> unat (rp_max_sessions p)"
    by linarith
  assume "is_unbounded p"
  then have "x \<notin> set (sessions_to_remove es p now)" for x
    unfolding iff by (simp add: is_unbounded_def doomed_by_def over_count_def too_old_def age_cutoff_def)
  then show "sessions_to_remove es p now = []" by (metis list.set_intros(1) neq_Nil_conv)
qed

theorem retention_keeps_exactly_the_recent_witness:
  "card {e \<in> set [fresh_entry 1 0 5 None, fresh_entry 2 0 7 None].
      ie_id e \<notin> set (sessions_to_remove [fresh_entry 1 0 5 None, fresh_entry 2 0 7 None]
        \<lparr>rp_max_sessions = 1, rp_max_age_days = 0\<rparr> 9)} \<le> 1"
  using retention_keeps_exactly_the_recent [of "[fresh_entry 1 0 5 None, fresh_entry 2 0 7 None]" 1
      "\<lparr>rp_max_sessions = 1, rp_max_age_days = 0\<rparr>" 9]
  by (simp add: fresh_entry_def)

text \<open>
  Pruning, whatever fails in the middle of it, leaves the transcript, the event log and the owner
  record of every session it spares as they were, and every tool-output snapshot that session's
  transcript refers to; spared is a session the policy keeps, and on disk any session another owner holds.
  A dry run changes nothing at all.
\<close>

theorem prune_spares_the_living:
  assumes load: "load_index c b io fs = Inr es" and d: "distinct (map ie_id es)" and e: "e \<in> set es"
    and spared: "\<not> doomed_by es p now e \<or> b = Disk \<and> hold (ie_id e) \<noteq> Lock_taken"
    and fs': "fs' = fst (prune c b io hold names p now dry_run fs)"
  shows "fs' (Session_path (ie_id e)) = fs (Session_path (ie_id e)) \<and>
    fs' (Events_path (ie_id e)) = fs (Events_path (ie_id e)) \<and>
    fs' (Owner_record_path (ie_id e)) = fs (Owner_record_path (ie_id e)) \<and>
    (\<forall>ms m k. read_transcript (sc_parse_message c) b (si_read_fails io (Session_path (ie_id e)))
        (fs (Session_path (ie_id e))) = Inr ms \<longrightarrow> m \<in> set ms \<longrightarrow> k \<in> set (collect_tool_output_keys m) \<longrightarrow>
        fs' (Tool_output_path k) = fs (Tool_output_path k)) \<and>
    (dry_run \<longrightarrow> fs' = fs)"
proof (cases "\<exists>doomed keys. doomed_sessions b hold es p now = Inr doomed \<and> live_keys c b io doomed es fs = Inr keys")
  case False
  with prune_fails_early [OF load, where hold = hold and p = p and now = now] fs' show ?thesis by simp
next
  case True
  then obtain doomed keys where dk: "doomed_sessions b hold es p now = Inr doomed"
    "live_keys c b io doomed es fs = Inr keys" by blast
  have "inj_on ie_id (set es)" using d by (simp add: distinct_map)
  with e spared doomed_sessions_iff [OF d dk(1), of "ie_id e"] have safe: "ie_id e \<notin> set doomed"
    by (auto dest: inj_onD)
  note frame = prune_frame [OF load dk, where dry_run = dry_run and names = names]
  have keys: "k \<in> set keys" if "read_transcript (sc_parse_message c) b (si_read_fails io (Session_path (ie_id e)))
      (fs (Session_path (ie_id e))) = Inr ms" "m \<in> set ms" "k \<in> set (collect_tool_output_keys m)" for ms m k
    using live_keys_cover [OF dk(2) e safe that(1)] that(2,3) by blast
  have "dry_run \<Longrightarrow> fs' = fs" by (simp add: fs' prune_def load dk Let_def)
  moreover have "fs' (Session_path (ie_id e)) = fs (Session_path (ie_id e))"
    "fs' (Events_path (ie_id e)) = fs (Events_path (ie_id e))"
    "fs' (Owner_record_path (ie_id e)) = fs (Owner_record_path (ie_id e))"
    unfolding fs' using safe by (auto intro!: frame simp: doomed_paths_iff)
  moreover have "fs' (Tool_output_path k) = fs (Tool_output_path k)" if "k \<in> set keys" for k
    unfolding fs' using that by (intro frame) (auto simp: doomed_paths_iff orphans_def)
  ultimately show ?thesis using keys by blast
qed

definition two_sessions :: session_index where
  "two_sessions = [fresh_entry 1 0 5 None, fresh_entry 2 0 7 None]"

theorem prune_spares_the_living_witness:
  "fst (prune brace_codec Disk calm_store (\<lambda>_. Lock_taken) [] \<lparr>rp_max_sessions = 2, rp_max_age_days = 0\<rparr> 9 False
      ((\<lambda>_. None)(Index_path \<mapsto> sc_print_index brace_codec two_sessions, Events_path 2 \<mapsto> [0x7B])))
    (Events_path 2) = Some [0x7B]"
proof -
  let ?fs = "(\<lambda>_. None)(Index_path \<mapsto> sc_print_index brace_codec two_sessions, Events_path 2 \<mapsto> [0x7B])"
  let ?p = "\<lparr>rp_max_sessions = 2, rp_max_age_days = 0\<rparr>"
  have "index_on_disk brace_codec ?fs two_sessions" by (simp add: index_on_disk_def)
  from load_index_on_disk [OF brace_codec_ok this, of Disk calm_store] have
    load: "load_index brace_codec Disk calm_store ?fs = Inr two_sessions" by (simp add: calm_store_def)
  have d: "distinct (map ie_id two_sessions)" by (simp add: two_sessions_def fresh_entry_def)
  have e: "fresh_entry 2 0 7 None \<in> set two_sessions" by (simp add: two_sessions_def)
  have rank: "{f \<in> set two_sessions. recency_key f < recency_key (fresh_entry 2 0 7 None)} = {}"
    by (auto simp: two_sessions_def recency_key_def fresh_entry_def)
  have "\<not> doomed_by two_sessions ?p 9 (fresh_entry 2 0 7 None)"
    by (simp only: doomed_by_def over_count_def rank_of_def rank) (simp add: too_old_def age_cutoff_def)
  with prune_spares_the_living [OF load d e, of ?p 9 "\<lambda>_. Lock_taken" _ "[]" False, OF _ refl]
  show ?thesis by (simp add: fresh_entry_def)
qed

section \<open>Whole files\<close>

text \<open>
  C16. A whole-file write, stopped at any moment or failing at any call, leaves every file that was in
  the directory as it was except its target, and the target with its old contents or all of the
  new ones. When it reports success the target has the new contents and nothing else changed; when
  it fails or is refused the target is untouched, and nothing is left behind if the temporary file can
  be removed.
\<close>

theorem atomic_write_is_all_or_nothing:
  assumes "atomic_write_if io base bs n d = (ds, r, n')"
  shows "(\<forall>x \<in> set ds. (x base = d base \<or> x base = Some bs) \<and>
             (\<forall>name. d name \<noteq> None \<longrightarrow> name \<noteq> base \<longrightarrow> x name = d name)) \<and>
    (r = Inr True \<longrightarrow> hd ds = d(base \<mapsto> bs)) \<and>
    (r \<noteq> Inr True \<longrightarrow> hd ds base = d base \<and> (\<not> at_remove_fails io \<longrightarrow> hd ds = d))"
proof (cases "at_dir_fails io")
  case True
  with assms show ?thesis by (auto simp: atomic_write_if_def)
next
  case False
  obtain t m where t: "create_temp_sibling io base d TEMP_ATTEMPTS n = (t, m)" by fastforce
  show ?thesis
  proof (cases t)
    case (Inl e)
    with assms False t show ?thesis by (auto simp: atomic_write_if_def)
  next
    case (Inr tmp)
    with create_temp_sibling_fresh t have tmp: "d tmp = None" "tmp \<noteq> base" by blast+
    have undone: "d(tmp := None) = d" using tmp(1) by (simp add: fun_upd_idem)
    have same: "name \<noteq> tmp" if "d name \<noteq> None" for name using tmp(1) that by auto
    show ?thesis
    proof (cases "at_written io")
      case (Some k)
      with assms False t Inr have "ds = [drop_temp io tmp (d(tmp \<mapsto> take k bs)), d(tmp \<mapsto> take k bs), d(tmp \<mapsto> []), d]"
        "r = Inl Store_io"
        by (auto simp: atomic_write_if_def Let_def)
      with tmp undone same show ?thesis by (auto simp: drop_temp_def)
    next
      case None
      with assms False t Inr have "ds = (if rename_retrying io 1 = Inr True then d(tmp := None, base \<mapsto> bs)
            else drop_temp io tmp (d(tmp \<mapsto> bs))) # [d(tmp \<mapsto> bs), d(tmp \<mapsto> []), d]"
        "r = rename_retrying io 1"
        by (auto simp: atomic_write_if_def Let_def split: sum.splits bool.splits)
      with tmp undone same show ?thesis by (auto simp: drop_temp_def)
    qed
  qed
qed

definition plain_io :: atomic_io where
  "plain_io = \<lparr>at_windows = True, at_pid = 7, at_dir_fails = False, at_create_fails = (\<lambda>_. False), at_written = None,
     at_rename = (\<lambda>k. if k < 3 then Sharing_violation else Renamed), at_may_publish = (\<lambda>_. True),
     at_remove_fails = False\<rparr>"

theorem atomic_write_is_all_or_nothing_witness:
  "hd (fst (atomic_write_if plain_io ''index.json'' [1, 2] 0 ((\<lambda>_. None)(''a'' \<mapsto> [9])))) =
     ((\<lambda>_. None)(''a'' \<mapsto> [9]))(''index.json'' \<mapsto> [1, 2])"
proof -
  let ?d = "(\<lambda>_. None)(''a'' \<mapsto> [9]) :: dir"
  obtain ds r n' where w: "atomic_write_if plain_io ''index.json'' [1, 2] 0 ?d = (ds, r, n')"
    by (metis prod_cases3)
  have "rename_retrying plain_io 1 = Inr True"
    by (rule rename_retrying_succeeds [of 3])
      (auto simp: RENAME_ATTEMPTS_def plain_io_def is_transient_rename_error_def)
  moreover have "create_temp_sibling plain_io ''index.json'' ?d TEMP_ATTEMPTS 0 = (Inr (temp_name ''index.json'' 7 0), 1)"
    using create_temp_sibling_finds [of TEMP_ATTEMPTS ?d "''index.json''" plain_io 0]
    by (simp add: TEMP_ATTEMPTS_def plain_io_def temp_name_def)
  ultimately have "r = Inr True" using w by (simp add: atomic_write_if_def Let_def) (simp add: plain_io_def)
  with atomic_write_is_all_or_nothing [OF w] w show ?thesis by simp
qed

section \<open>Prompt history\<close>

text \<open>
  However many prompts are entered, the history file reads back as the last thousand of them in
  order, without blank ones and without a prompt that repeats the one before it in the same directory
  with the same pastes; while the history is off or muted nothing is read and the file is left alone.
\<close>

theorem history_is_the_last_prompts:
  assumes "line_codec parse print"
  shows "(history_enabled ph \<longrightarrow>
      history_load parse False ph (fold (enter_prompt parse print ph) prs None) = fold remember prs []) \<and>
    (\<not> ph_enabled ph \<or> ph_muted ph \<longrightarrow>
      fold (enter_prompt parse print ph) prs f = f \<and> history_load parse False ph f = []) \<and>
    length (history_load parse b ph f) \<le> 1000"
proof (intro conjI impI)
  show "history_enabled ph \<Longrightarrow>
      history_load parse False ph (fold (enter_prompt parse print ph) prs None) = fold remember prs []"
    using enter_prompts_refine [OF assms, of ph prs None]
    by (simp add: history_load_def history_enabled_def read_entries_def)
  assume off: "\<not> ph_enabled ph \<or> ph_muted ph"
  then show "history_load parse False ph f = []" by (simp add: history_load_def)
  from off have "enter_prompt parse print ph pr g = g" for pr g
    by (cases pr) (auto simp: history_append_def)
  then show "fold (enter_prompt parse print ph) prs f = f" by (induction prs) simp_all
next
  show "length (history_load parse b ph f) \<le> 1000"
    using length_read_entries [of parse b f] by (simp add: history_load_def MAX_HISTORY_ENTRIES_def)
qed

theorem history_is_the_last_prompts_witness:
  "history_load brace_parse False (with_store True)
     (fold (enter_prompt brace_parse brace_print (with_store True)) [(''a'', [], ''d'', 1), ('' '', [], ''d'', 2), (''a'', [], ''d'', 3)] None)
   = [entry_new ''a'' [] ''d'' 1]"
proof -
  have "history_enabled (with_store True)" by (simp add: history_enabled_def with_store_def)
  with history_is_the_last_prompts [OF brace_line_codec] have
    "history_load brace_parse False (with_store True)
       (fold (enter_prompt brace_parse brace_print (with_store True)) [(''a'', [], ''d'', 1), ('' '', [], ''d'', 2), (''a'', [], ''d'', 3)] None) =
     fold remember [(''a'', [], ''d'', 1), ('' '', [], ''d'', 2), (''a'', [], ''d'', 3)] []" by blast
  also have "\<dots> = [entry_new ''a'' [] ''d'' 1]"
    by (simp add: trim_def trim_matches_def is_whitespace_def repeats_last_def kept_pastes_def entry_new_def
        MAX_HISTORY_ENTRIES_def)
  finally show ?thesis .
qed

end
