(* ===== verification/Compaction.thy ===== *)
theory Compaction
  imports Core_Message Rust_Str
begin

text \<open>
  \<^verbatim>\<open>crates/localpilot-harness/src/compaction.rs\<close>: a conversation that outgrows the context is cut down by
  dropping its oldest exchanges, splitting the last one, and in the end shortening tool output, with a
  digest of what went. The text of a JSON value (\<open>Value::to_string\<close>) is the argument \<open>js\<close>; a
  \<open>BTreeMap\<close> is an ordered association list and a \<open>BTreeSet\<close> an ordered list.
\<close>

section \<open>Estimates\<close>

definition SUMMARY_TITLE :: string where
  "SUMMARY_TITLE = ''Conversation summary for trimmed history:''"

definition TRUNCATED_OUTPUT_CHARS :: nat where
  "TRUNCATED_OUTPUT_CHARS = 240"

fun block_chars :: "(json \<Rightarrow> string) \<Rightarrow> content_block \<Rightarrow> nat" where
  "block_chars js (Text t) = byte_len t"
| "block_chars js (Reasoning t _ _) = byte_len t"
| "block_chars js (ToolUse call) = byte_len (tc_name call) + byte_len (js (tc_input call))"
| "block_chars js (ToolResult r) =
     byte_len (tr_output r) + (case tr_image r of None \<Rightarrow> 0 | Some im \<Rightarrow> byte_len (ti_data im))"
| "block_chars js (Image _ data) = byte_len data"

definition message_chars :: "(json \<Rightarrow> string) \<Rightarrow> message \<Rightarrow> nat" where
  "message_chars js m = sum_list (map (block_chars js) (msg_content m))"

definition estimate_tokens :: "(json \<Rightarrow> string) \<Rightarrow> message list \<Rightarrow> nat" where
  "estimate_tokens js ms = sum_list (map (message_chars js) ms) div 4"

record tool_spec =
  ts_name :: string
  ts_description :: string
  ts_input_schema :: json

definition estimate_tool_spec_tokens :: "(json \<Rightarrow> string) \<Rightarrow> tool_spec list \<Rightarrow> nat" where
  "estimate_tool_spec_tokens js tools =
     sum_list (map (\<lambda>t. byte_len (ts_name t) + byte_len (ts_description t) + byte_len (js (ts_input_schema t))) tools)
     div 4"

section \<open>Text\<close>

definition truncate_text :: "string \<Rightarrow> nat \<Rightarrow> string" where
  "truncate_text t n = take n t @ (if length t > n then ''...'' else [])"

fun block_text :: "content_block \<Rightarrow> string option" where
  "block_text (Text t) = Some t"
| "block_text _ = None"

fun first_some :: "('a \<Rightarrow> 'b option) \<Rightarrow> 'a list \<Rightarrow> 'b option" where
  "first_some f [] = None"
| "first_some f (x # xs) = (case f x of Some y \<Rightarrow> Some y | None \<Rightarrow> first_some f xs)"

definition first_text :: "message \<Rightarrow> string option" where
  "first_text m = first_some block_text (msg_content m)"

definition is_summary_message :: "message \<Rightarrow> bool" where
  "is_summary_message m = (case first_text m of None \<Rightarrow> False | Some t \<Rightarrow> prefix SUMMARY_TITLE t)"

fun trim_bullets :: "string \<Rightarrow> string" where
  "trim_bullets (a # b # s) = (if a = CHR ''-'' \<and> b = CHR '' '' then trim_bullets s else a # b # s)"
| "trim_bullets s = s"

definition contains_any :: "string \<Rightarrow> string list \<Rightarrow> bool" where
  "contains_any t needles \<longleftrightarrow> (\<exists>n \<in> set needles. str_contains t n)"

definition bset_insert :: "'a::linorder \<Rightarrow> 'a list \<Rightarrow> 'a list" where
  "bset_insert x xs = (if x \<in> set xs then xs else insort x xs)"

definition path_token :: "string \<Rightarrow> string" where
  "path_token t = trim_matches (\<lambda>c. c \<in> set '',;:\"()[]'' \<or> c = CHR 0x27) t"

definition looks_like_path :: "string \<Rightarrow> bool" where
  "looks_like_path t \<longleftrightarrow>
     CHR ''/'' \<in> set t \<or> CHR 0x5C \<in> set t \<or> suffix ''.rs'' t \<or> suffix ''.toml'' t \<or> suffix ''.md'' t \<or>
     suffix ''.json'' t"

text \<open>The tokens that \<open>collect_text_paths\<close> inserts, in the order it meets them.\<close>

definition collect_text_paths :: "string \<Rightarrow> string list" where
  "collect_text_paths t =
     map (\<lambda>p. truncate_text p 160) (filter looks_like_path (map path_token (split_whitespace t)))"

function collect_json_paths :: "json \<Rightarrow> string list" where
  "collect_json_paths (JString t) = collect_text_paths t"
| "collect_json_paths (JArray vs) = concat (map collect_json_paths vs)"
| "collect_json_paths (JObject kvs) =
     concat (map (\<lambda>kv.
       (if fst kv \<in> {''path'', ''file'', ''filename'', ''target''}
        then (case as_str (snd kv) of None \<Rightarrow> [] | Some t \<Rightarrow> collect_text_paths t) else []) @
       collect_json_paths (snd kv)) kvs)"
| "collect_json_paths JNull = []"
| "collect_json_paths (JBool b) = []"
| "collect_json_paths (JNumber n) = []"
  by pat_completeness auto
termination
proof (relation "measure size")
  fix kvs :: "(string \<times> json) list" and kv
  assume "kv \<in> set kvs"
  then have "size (snd kv) < Suc (size_list (size_prod (\<lambda>_. 0) size) kvs)"
    by (induction kvs) auto
  then show "(snd kv, JObject kvs) \<in> measure size" by simp
qed (auto simp: size_list_estimation' less_Suc_eq_le)

definition classify_file_op :: "string \<Rightarrow> string option" where
  "classify_file_op tool =
     (let name = to_ascii_lowercase tool
      in if contains_any name [''delete'', ''remove'', ''unlink'', ''rmdir'', ''rm_''] then Some ''deleted''
         else if contains_any name [''create'', ''new_file'', ''touch'', ''mkdir''] then Some ''created''
         else if contains_any name
                   [''write'', ''edit'', ''modify'', ''replace'', ''patch'', ''append'', ''insert'', ''apply'']
         then Some ''modified''
         else if contains_any name [''read'', ''cat'', ''open'', ''view'', ''show'', ''load''] then Some ''read''
         else None)"

text \<open>The most recent items, each once up to case; and each item at its last place.\<close>

fun first_by :: "('a \<Rightarrow> 'k) \<Rightarrow> 'k set \<Rightarrow> 'a list \<Rightarrow> 'a list" where
  "first_by k seen [] = []"
| "first_by k seen (x # xs) =
     (if k x \<in> seen then first_by k seen xs else x # first_by k (insert (k x) seen) xs)"

definition bounded_unique :: "string list \<Rightarrow> nat \<Rightarrow> string list" where
  "bounded_unique items n = rev (take n (first_by to_ascii_lowercase {} (rev items)))"

definition recency_unique :: "string list \<Rightarrow> string list" where
  "recency_unique items = rev (first_by id {} (rev items))"

section \<open>The digest\<close>

record digest_buckets =
  db_sections :: "section_kind \<Rightarrow> string list"
  db_latest_user_intent :: "string option"
  db_command_counts :: "(string, nat) btree_map"
  db_file_paths :: "string list"
  db_file_ops :: "(string, string list) btree_map"
  db_failures :: "string list"
  db_stale :: "string list"

definition buckets_default :: digest_buckets where
  "buckets_default =
     \<lparr>db_sections = (\<lambda>_. []), db_latest_user_intent = None, db_command_counts = bt_empty, db_file_paths = [],
      db_file_ops = bt_empty, db_failures = [], db_stale = []\<rparr>"

definition push_section :: "section_kind \<Rightarrow> string \<Rightarrow> digest_buckets \<Rightarrow> digest_buckets" where
  "push_section k item b = b\<lparr>db_sections := (db_sections b)(k := db_sections b k @ [item])\<rparr>"

definition push_if :: "bool \<Rightarrow> section_kind \<Rightarrow> string \<Rightarrow> digest_buckets \<Rightarrow> digest_buckets" where
  "push_if p k item b = (if p then push_section k item b else b)"

definition count_command :: "string \<Rightarrow> digest_buckets \<Rightarrow> digest_buckets" where
  "count_command name b =
     b\<lparr>db_command_counts :=
         bt_insert name (Suc (case bt_get (db_command_counts b) name of None \<Rightarrow> 0 | Some n \<Rightarrow> n))
           (db_command_counts b)\<rparr>"

definition strip_dollar :: "string \<Rightarrow> string option" where
  "strip_dollar t = (if prefix ''$ '' t then Some (drop 2 t) else None)"

definition sorted_tokens :: "string list \<Rightarrow> string list" where
  "sorted_tokens ts = fold bset_insert ts []"

definition classify_user :: "string \<Rightarrow> string \<Rightarrow> digest_buckets \<Rightarrow> digest_buckets" where
  "classify_user trimmed lower b =
     (let b1 = b\<lparr>db_latest_user_intent := Some (truncate_text trimmed 120)\<rparr>;
          b2 = push_if (contains_any lower [''prefer'', ''always'', ''never'', ''constraint'', ''require''])
                 Constraints (truncate_text trimmed 140) b1
      in push_if (contains_any lower [''next'', ''todo'', ''pending'', ''after that''])
           NextSteps (truncate_text trimmed 140) b2)"

definition classify_risk :: "string \<Rightarrow> string \<Rightarrow> digest_buckets \<Rightarrow> digest_buckets" where
  "classify_risk trimmed lower b =
     (if contains_any lower [''blocked'', ''risk'', ''unknown'', ''cannot'', ''failed'']
      then (if str_contains lower ''failed'' \<or> str_contains lower ''error''
            then b\<lparr>db_failures := bset_insert (truncate_text trimmed 140) (db_failures b)\<rparr>
            else push_section Risks (truncate_text trimmed 140) b)
      else b)"

definition classify_text :: "role \<Rightarrow> bool \<Rightarrow> string \<Rightarrow> digest_buckets \<Rightarrow> digest_buckets" where
  "classify_text r synthetic t b =
     (let trimmed = trim t; lower = to_ascii_lowercase trimmed
      in if trimmed = [] then b
         else
           let b1 = (if r = User \<and> \<not> synthetic then classify_user trimmed lower b else b);
               b2 = push_if (contains_any lower [''decided'', ''decision'', ''use '', ''switch to'', ''settled''])
                      Decisions (truncate_text trimmed 140) b1;
               b3 = push_if (contains_any lower [''fixed'', ''implemented'', ''changed'', ''added'', ''completed''])
                      Progress (truncate_text trimmed 140) b2;
               b4 = classify_risk trimmed lower b3;
               b5 = (if contains_any lower [''obsolete'', ''stale'', ''superseded'', ''replaced'']
                     then b4\<lparr>db_stale := bset_insert (truncate_text trimmed 140) (db_stale b4)\<rparr> else b4);
               b6 = (case strip_dollar trimmed of
                       None \<Rightarrow> b5
                     | Some command \<Rightarrow> count_command (truncate_text command 120) b5)
           in b6\<lparr>db_file_paths := db_file_paths b6 @ sorted_tokens (collect_text_paths trimmed)\<rparr>)"

definition add_file_op :: "string \<Rightarrow> string \<Rightarrow> digest_buckets \<Rightarrow> digest_buckets" where
  "add_file_op op path b =
     b\<lparr>db_file_ops :=
         bt_insert path (bset_insert op (case bt_get (db_file_ops b) path of None \<Rightarrow> [] | Some xs \<Rightarrow> xs))
           (db_file_ops b)\<rparr>"

definition digest_call :: "tool_call \<Rightarrow> digest_buckets \<Rightarrow> digest_buckets" where
  "digest_call call b =
     (let b1 = count_command (tc_name call) b;
          paths = sorted_tokens (collect_json_paths (tc_input call));
          b2 = (case classify_file_op (tc_name call) of
                  None \<Rightarrow> b1
                | Some op \<Rightarrow> fold (add_file_op op) paths b1)
      in b2\<lparr>db_file_paths := db_file_paths b2 @ paths\<rparr>)"

fun digest_block ::
  "content_block \<Rightarrow> digest_buckets \<times> summary_source list \<Rightarrow> digest_buckets \<times> summary_source list" where
  "digest_block (ToolUse call) (b, so) = (digest_call call b, so @ [source_new ToolCallSource (tc_id call)])"
| "digest_block (ToolResult r) (b, so) =
     (if result_is_error r then b\<lparr>db_failures := bset_insert (truncate_text (tr_output r) 120) (db_failures b)\<rparr> else b,
      so @ [source_new ToolResultSource (tr_use_id r)])"
| "digest_block _ acc = acc"

definition digest_message ::
  "message \<Rightarrow> digest_buckets \<times> summary_source list \<Rightarrow> digest_buckets \<times> summary_source list" where
  "digest_message m acc =
     fold digest_block (msg_content m)
       (case first_text m of
          None \<Rightarrow> acc
        | Some t \<Rightarrow> (classify_text (msg_role m) (is_synthetic m) t (fst acc), snd acc))"

definition digest_exchange ::
  "nat \<times> message list \<Rightarrow> digest_buckets \<times> summary_source list \<Rightarrow> digest_buckets \<times> summary_source list" where
  "digest_exchange ix acc =
     fold digest_message (snd ix)
       (fst acc, snd acc @ [source_new MessageRange (''exchange-'' @ show_nat (fst ix))])"

definition command_item :: "string \<times> nat \<Rightarrow> string" where
  "command_item nc =
     (if snd nc > 1 then fst nc @ '' used '' @ show_nat (snd nc) @ '' time(s)'' else fst nc @ '' used'')"

definition file_label :: "(string, string list) btree_map \<Rightarrow> string \<Rightarrow> string" where
  "file_label file_ops path =
     (case bt_get file_ops path of
        Some ops \<Rightarrow> if ops \<noteq> [] then join ''/'' ops @ '' '' @ path else path
      | None \<Rightarrow> path)"

text \<open>The sections once the goal, the commands, the files, the failures and the stale items are in.\<close>

definition filled_sections :: "digest_buckets \<Rightarrow> section_kind \<Rightarrow> string list" where
  "filled_sections b =
     (let b1 = (case db_latest_user_intent b of None \<Rightarrow> b | Some g \<Rightarrow> push_section Goal g b);
          b2 = fold (\<lambda>nc. push_section CommandOutcomes (command_item nc)) (db_command_counts b) b1;
          b3 = fold (\<lambda>p. push_section RelevantFiles (file_label (db_file_ops b) p))
                 (recency_unique (db_file_paths b)) b2;
          b4 = fold (\<lambda>x. push_section CommandOutcomes (''failure observed: '' @ x)) (db_failures b) b3
      in db_sections (fold (push_section StaleOrSuperseded) (db_stale b) b4))"

definition entry_order :: "section_kind list" where
  "entry_order =
     [Goal, Constraints, Progress, Decisions, NextSteps, CriticalContext, RelevantFiles, CommandOutcomes,
      Risks, StaleOrSuperseded]"

record digest_out =
  sd_entries :: "string list"
  sd_sections :: "summary_section list"
  sd_sources :: "summary_source list"

definition semantic_digest :: "message list list \<Rightarrow> digest_out" where
  "semantic_digest dropped =
     (let (b, sources) = fold digest_exchange (enumerate 0 dropped) (buckets_default, []);
          sec = filled_sections b
      in \<lparr>sd_entries =
            concat (map (\<lambda>k. map (\<lambda>item. section_label k @ '': '' @ item) (bounded_unique (sec k) 4)) entry_order),
          sd_sections =
            map (\<lambda>k. \<lparr>ss_kind = k, ss_items = bounded_unique (sec k) 8\<rparr>) (filter (\<lambda>k. sec k \<noteq> []) entry_order),
          sd_sources =
            sources @ map (\<lambda>p. (source_new FilePath p)\<lparr>so_path := Some p\<rparr>) (recency_unique (db_file_paths b))\<rparr>)"

section \<open>Summaries of dropped exchanges\<close>

fun block_tool :: "content_block \<Rightarrow> string option" where
  "block_tool (ToolUse call) = Some (tc_name call)"
| "block_tool _ = None"

definition summarize_exchange :: "message list \<Rightarrow> nat \<Rightarrow> string option" where
  "summarize_exchange exchange max_user_chars =
     (let user = map_option (\<lambda>t. truncate_text t max_user_chars)
                   (Option.bind (List.find (\<lambda>m. msg_role m = User \<and> \<not> is_synthetic m) exchange) first_text);
          tools = List.map_filter block_tool (concat (map msg_content exchange))
      in case (user, tools = []) of
           (Some u, True) \<Rightarrow> Some (''user asked: '' @ u)
         | (Some u, False) \<Rightarrow> Some (''user asked: '' @ u @ ''; tools used: '' @ join '', '' tools)
         | (None, False) \<Rightarrow> Some (''tools used: '' @ join '', '' tools)
         | (None, True) \<Rightarrow> None)"

definition structured_summary_with :: "message list list \<Rightarrow> nat \<Rightarrow> nat \<Rightarrow> structured_summary option" where
  "structured_summary_with dropped max_exchanges max_user_chars =
     (if dropped = [] then None
      else Some (summary_new SUMMARY_TITLE
             (List.map_filter (\<lambda>x. summarize_exchange x max_user_chars)
                (rev (take max_exchanges (rev dropped))))))"

definition fold_carried :: "string list \<Rightarrow> structured_summary option \<Rightarrow> structured_summary option" where
  "fold_carried carried summary =
     (if carried = [] then summary
      else let entries = carried @ (case summary of None \<Rightarrow> [] | Some s \<Rightarrow> su_entries s)
           in Some (summary_new SUMMARY_TITLE (drop (length entries - 8) entries)))"

definition finalize_summary ::
  "(json \<Rightarrow> string) \<Rightarrow> structured_summary option \<Rightarrow> message list list \<Rightarrow> message list \<Rightarrow> nat \<Rightarrow> nat \<Rightarrow> structured_summary" where
  "finalize_summary js summary dropped output token_limit truncated_tool_results =
     (let base = (case summary of
                    Some s \<Rightarrow> s
                  | None \<Rightarrow> summary_new SUMMARY_TITLE [''older exchanges were trimmed'']);
          carried_entries = su_entries base;
          digest = semantic_digest dropped
      in base\<lparr>su_entries :=
                (if sd_entries digest \<noteq> [] \<or> carried_entries \<noteq> [] then carried_entries @ sd_entries digest
                 else su_entries base),
              su_sections :=
                sd_sections digest @
                (if carried_entries \<noteq> [] then [\<lparr>ss_kind = CriticalContext, ss_items = carried_entries\<rparr>] else []),
              su_sources := sd_sources digest,
              su_budget :=
                \<lparr>sb_estimated_tokens = estimate_tokens js output,
                 sb_original_messages = sum_list (map length dropped) + length output,
                 sb_kept_messages = length output,
                 sb_dropped_messages = sum_list (map length dropped),
                 sb_truncated_tool_results = truncated_tool_results,
                 sb_truncation_reason =
                   (if token_limit \<le> estimate_tokens js output then Some ''context budget pressure'' else None)\<rparr>\<rparr>)"

section \<open>Cutting a conversation down\<close>

datatype compaction_mode = Deterministic | SmartWithFallback

record compaction_metadata =
  cm_requested_mode :: compaction_mode
  cm_used_mode :: compaction_mode
  cm_dropped_exchanges :: nat
  cm_kept_messages :: nat
  cm_dropped_messages :: nat
  cm_digest_estimate_tokens :: nat
  cm_fallback_reason :: "string option"
  cm_truncated_tool_results :: nat

record compaction_result =
  cr_messages :: "message list"
  cr_compacted :: bool
  cr_summary :: "structured_summary option"
  cr_metadata :: compaction_metadata

record compaction_plan =
  cp_result :: compaction_result
  cp_dropped :: "message list list"
  cp_carried :: "string list"

definition starts_exchange :: "message \<Rightarrow> bool" where
  "starts_exchange m \<longleftrightarrow> msg_role m = User \<and> \<not> is_synthetic m"

text \<open>The body grouped by real user turns; what comes before the first one is an exchange too.\<close>

fun group_exchanges :: "message list list \<Rightarrow> message list \<Rightarrow> message list list" where
  "group_exchanges acc [] = acc"
| "group_exchanges acc (m # ms) =
     group_exchanges
       (if starts_exchange m \<or> acc = [] then acc @ [[m]] else butlast acc @ [last acc @ [m]]) ms"

definition carried_lines :: "message list \<Rightarrow> string list" where
  "carried_lines system =
     concat (map (\<lambda>m. case first_text m of
         Some t \<Rightarrow> if prefix SUMMARY_TITLE t then map trim_bullets (drop 1 (str_lines t)) else []
       | None \<Rightarrow> []) system)"

definition build_messages ::
  "message list \<Rightarrow> structured_summary option \<Rightarrow> message list list \<Rightarrow> message list" where
  "build_messages system summary exchanges =
     system @ (case summary of None \<Rightarrow> [] | Some d \<Rightarrow> [message_text System (render_summary d)]) @ concat exchanges"

text \<open>Oldest exchanges go while the rest does not fit; the last one stays.\<close>

fun drop_oldest ::
  "(message list list \<Rightarrow> message list list \<Rightarrow> bool) \<Rightarrow> message list list \<Rightarrow> message list list
   \<Rightarrow> message list list \<times> message list list" where
  "drop_oldest fits dropped (x # y # xs) =
     (if fits dropped (x # y # xs) then (dropped, x # y # xs) else drop_oldest fits (dropped @ [x]) (y # xs))"
| "drop_oldest fits dropped xs = (dropped, xs)"

definition cut_here :: "message list \<Rightarrow> nat \<Rightarrow> bool" where
  "cut_here exchange k \<longleftrightarrow>
     msg_role (exchange ! k) = Assistant \<and>
     (msg_role (exchange ! (k - 1)) = Tool \<or> msg_role (exchange ! (k - 1)) = User)"

definition split_at :: "message list \<Rightarrow> nat \<Rightarrow> nat \<Rightarrow> message list \<times> message list" where
  "split_at exchange anchor k = (drop anchor (take k exchange), take anchor exchange @ drop k exchange)"

definition split_oversized_exchange ::
  "(json \<Rightarrow> string) \<Rightarrow> message list \<Rightarrow> structured_summary option \<Rightarrow> message list \<Rightarrow> nat
   \<Rightarrow> (message list \<times> message list) option" where
  "split_oversized_exchange js system summary exchange token_limit =
     (if exchange = [] \<or> msg_role (hd exchange) \<noteq> User then None
      else
        let anchor = length (takeWhile (\<lambda>m. msg_role m = User) exchange);
            fits = (\<lambda>k. estimate_tokens js (build_messages system summary [snd (split_at exchange anchor k)]) \<le> token_limit)
        in map_option (split_at exchange anchor)
             (List.find (\<lambda>k. cut_here exchange k \<and> fits k) [Suc anchor..<length exchange]))"

fun truncate_block :: "content_block \<Rightarrow> content_block \<times> nat" where
  "truncate_block (ToolResult r) =
     (if length (tr_output r) > TRUNCATED_OUTPUT_CHARS
      then (ToolResult (r\<lparr>tr_output := truncate_text (tr_output r) TRUNCATED_OUTPUT_CHARS @
              newline @ ''[output truncated during context compaction]''\<rparr>), 1)
      else (ToolResult r, 0))"
| "truncate_block b = (b, 0)"

definition truncate_message :: "message \<Rightarrow> message \<times> nat" where
  "truncate_message m =
     (m\<lparr>msg_content := map (fst \<circ> truncate_block) (msg_content m)\<rparr>,
      sum_list (map (snd \<circ> truncate_block) (msg_content m)))"

text \<open>\<open>truncate_oldest_tool_results\<close>: message by message, until the whole fits.\<close>

fun truncate_from ::
  "(json \<Rightarrow> string) \<Rightarrow> nat \<Rightarrow> message list \<Rightarrow> message list \<Rightarrow> nat \<Rightarrow> message list \<times> nat" where
  "truncate_from js limit before [] n = (before, n)"
| "truncate_from js limit before (m # ms) n =
     (if estimate_tokens js (before @ m # ms) \<le> limit then (before @ m # ms, n)
      else truncate_from js limit (before @ [fst (truncate_message m)]) ms (n + snd (truncate_message m)))"

text \<open>Shorter and shorter summaries, then none.\<close>

fun summary_ladder ::
  "(structured_summary option \<Rightarrow> bool) \<Rightarrow> (nat \<times> nat \<Rightarrow> structured_summary option) \<Rightarrow> (nat \<times> nat) list
   \<Rightarrow> structured_summary option \<Rightarrow> structured_summary option" where
  "summary_ladder fits mk [] s = s"
| "summary_ladder fits mk (k # ks) s =
     (if fits (mk k) then mk k else summary_ladder fits mk ks (mk k))"

fun swap_first :: "message \<Rightarrow> message list \<Rightarrow> message list option" where
  "swap_first new [] = None"
| "swap_first new (m # ms) =
     (if is_summary_message m then Some (new # ms) else map_option ((#) m) (swap_first new ms))"

definition swap_summary :: "message list \<Rightarrow> structured_summary \<Rightarrow> message list option" where
  "swap_summary ms smart = swap_first (message_text System (render_summary smart)) ms"

definition conversation_order :: "section_kind list" where
  "conversation_order =
     [Goal, Constraints, Progress, Decisions, NextSteps, RelevantFiles, CommandOutcomes, Risks,
      StaleOrSuperseded, CriticalContext]"

definition prioritized_entries :: "structured_summary \<Rightarrow> string list" where
  "prioritized_entries digest =
     concat (map (\<lambda>k. concat (map section_lines (filter (\<lambda>x. ss_kind x = k) (su_sections digest))))
       conversation_order)"

function inject_loop ::
  "(json \<Rightarrow> string) \<Rightarrow> string \<Rightarrow> string list \<Rightarrow> nat \<Rightarrow> message list \<Rightarrow> nat \<Rightarrow> message list" where
  "inject_loop js title candidates limit ms count =
     (if count = 0 then ms
      else case swap_summary ms (summary_new title (take count candidates)) of
             Some swapped \<Rightarrow>
               if estimate_tokens js swapped \<le> limit then swapped
               else inject_loop js title candidates limit ms (count div 2)
           | None \<Rightarrow> inject_loop js title candidates limit ms (count div 2))"
  by pat_completeness auto
termination by (relation "measure (\<lambda>(js, t, c, l, ms, n). n)") auto

declare inject_loop.simps [simp del]

definition inject_digest :: "(json \<Rightarrow> string) \<Rightarrow> message list \<Rightarrow> structured_summary \<Rightarrow> nat \<Rightarrow> message list" where
  "inject_digest js ms digest limit =
     (let candidates = (if prioritized_entries digest = [] then su_entries digest else prioritized_entries digest)
      in inject_loop js (su_title digest) candidates limit ms (length candidates))"

definition metadata_default :: compaction_metadata where
  "metadata_default =
     \<lparr>cm_requested_mode = Deterministic, cm_used_mode = Deterministic, cm_dropped_exchanges = 0,
      cm_kept_messages = 0, cm_dropped_messages = 0, cm_digest_estimate_tokens = 0, cm_fallback_reason = None,
      cm_truncated_tool_results = 0\<rparr>"

text \<open>
  \<open>compact_plan\<close> in its stages: the exchanges that are dropped, the split of a last one that is too large,
  the summary that goes in, and the conversation before the digest replaces the summary.
\<close>

definition summary_of :: "string list \<Rightarrow> message list list \<Rightarrow> structured_summary option" where
  "summary_of carried dropped = fold_carried carried (structured_summary_with dropped 4 120)"

definition drop_exchanges ::
  "(json \<Rightarrow> string) \<Rightarrow> nat \<Rightarrow> message list \<Rightarrow> string list \<Rightarrow> message list list \<Rightarrow> message list list \<times> message list list" where
  "drop_exchanges js limit system carried exchanges =
     (let (d1, k1) = drop_oldest (\<lambda>_ xs. estimate_tokens js (system @ concat xs) \<le> limit) [] exchanges
      in drop_oldest (\<lambda>d xs. estimate_tokens js (build_messages system (summary_of carried d) xs) \<le> limit) d1 k1)"

definition split_last ::
  "(json \<Rightarrow> string) \<Rightarrow> nat \<Rightarrow> message list \<Rightarrow> string list \<Rightarrow> message list list \<times> message list list
   \<Rightarrow> message list list \<times> message list list" where
  "split_last js limit system carried dk =
     (case dk of
        (dropped, [x]) \<Rightarrow>
          if estimate_tokens js (build_messages system (summary_of carried dropped) [x]) > limit
          then (case split_oversized_exchange js system (summary_of carried dropped) x limit of
                  Some (pre, suf) \<Rightarrow> (dropped @ [pre], [suf])
                | None \<Rightarrow> (dropped, [x]))
          else (dropped, [x])
      | _ \<Rightarrow> dk)"

definition fitted_summary ::
  "(json \<Rightarrow> string) \<Rightarrow> nat \<Rightarrow> message list \<Rightarrow> string list \<Rightarrow> message list list \<Rightarrow> message list list
   \<Rightarrow> structured_summary option" where
  "fitted_summary js limit system carried dropped kept =
     (let fits = (\<lambda>s. estimate_tokens js (build_messages system s kept) \<le> limit);
          first = summary_of carried dropped
      in if fits first \<or> dropped = [] then first
         else let s = summary_ladder fits (\<lambda>(e, u). fold_carried carried (structured_summary_with dropped e u))
                        [(4, 60), (2, 60), (1, 60), (1, 30)] first
              in if fits s then s else None)"

definition compact_plan :: "(json \<Rightarrow> string) \<Rightarrow> message list \<Rightarrow> nat \<Rightarrow> compaction_plan" where
  "compact_plan js messages limit =
     (if estimate_tokens js messages \<le> limit
      then \<lparr>cp_result =
              \<lparr>cr_messages = messages, cr_compacted = False, cr_summary = None,
               cr_metadata = metadata_default\<lparr>cm_kept_messages := length messages\<rparr>\<rparr>,
            cp_dropped = [], cp_carried = []\<rparr>
      else
        let leading = takeWhile (\<lambda>m. msg_role m = System) messages;
            body = dropWhile (\<lambda>m. msg_role m = System) messages;
            carried = carried_lines leading;
            system = filter (\<lambda>m. \<not> is_summary_message m) leading;
            (dropped, kept) = split_last js limit system carried
                                (drop_exchanges js limit system carried (group_exchanges [] body));
            summary = fitted_summary js limit system carried dropped kept;
            out0 = build_messages system summary kept;
            (out1, truncated) = (if estimate_tokens js out0 > limit then truncate_from js limit [] out0 0 else (out0, 0));
            digest0 = finalize_summary js
                        (case summary of Some s \<Rightarrow> Some s | None \<Rightarrow> fold_carried carried None)
                        dropped out1 limit truncated;
            out = inject_digest js out1 digest0 limit;
            final_tokens = estimate_tokens js out;
            digest = digest0\<lparr>su_budget := (su_budget digest0)
                       \<lparr>sb_estimated_tokens := final_tokens,
                        sb_truncation_reason :=
                          (if limit \<le> final_tokens then Some ''context budget pressure'' else None)\<rparr>\<rparr>
        in \<lparr>cp_result =
              \<lparr>cr_messages = out, cr_compacted = True, cr_summary = Some digest,
               cr_metadata =
                 \<lparr>cm_requested_mode = Deterministic, cm_used_mode = Deterministic,
                  cm_dropped_exchanges = length dropped,
                  cm_kept_messages = sum_list (map length kept) + length system,
                  cm_dropped_messages = sum_list (map length dropped),
                  cm_digest_estimate_tokens = byte_len (render_summary digest) div 4,
                  cm_fallback_reason = None, cm_truncated_tool_results = truncated\<rparr>\<rparr>,
            cp_dropped = dropped, cp_carried = carried\<rparr>)"

definition compact_with_summary :: "(json \<Rightarrow> string) \<Rightarrow> message list \<Rightarrow> nat \<Rightarrow> compaction_result" where
  "compact_with_summary js messages limit = cp_result (compact_plan js messages limit)"

definition compact :: "(json \<Rightarrow> string) \<Rightarrow> message list \<Rightarrow> nat \<Rightarrow> message list" where
  "compact js messages limit = cr_messages (compact_with_summary js messages limit)"

definition fall_back :: "string \<Rightarrow> compaction_result \<Rightarrow> compaction_result" where
  "fall_back reason r =
     r\<lparr>cr_metadata := (cr_metadata r)\<lparr>cm_used_mode := Deterministic, cm_fallback_reason := Some reason\<rparr>\<rparr>"

definition apply_smart_digest ::
  "(json \<Rightarrow> string) \<Rightarrow> compaction_result \<Rightarrow> message list list \<Rightarrow> structured_summary \<Rightarrow> nat \<Rightarrow> compaction_result" where
  "apply_smart_digest js r dropped smart limit =
     (case swap_summary (cr_messages r) smart of
        None \<Rightarrow> fall_back ''deterministic summary was dropped; smart digest not applied'' r
      | Some swapped \<Rightarrow>
          if estimate_tokens js swapped > limit then fall_back ''smart summary exceeded budget'' r
          else let d = smart\<lparr>su_budget :=
                         \<lparr>sb_estimated_tokens = estimate_tokens js swapped,
                          sb_original_messages = sum_list (map length dropped) + length swapped,
                          sb_kept_messages = length swapped,
                          sb_dropped_messages = sum_list (map length dropped),
                          sb_truncated_tool_results = cm_truncated_tool_results (cr_metadata r),
                          sb_truncation_reason = None\<rparr>\<rparr>
               in r\<lparr>cr_messages := swapped, cr_summary := Some d,
                    cr_metadata := (cr_metadata r)
                      \<lparr>cm_used_mode := SmartWithFallback,
                       cm_digest_estimate_tokens := byte_len (render_summary d) div 4\<rparr>\<rparr>)"

fun merge_onto :: "message list \<Rightarrow> message list \<Rightarrow> message list" where
  "merge_onto out [] = out"
| "merge_onto out (m # ms) =
     merge_onto
       (if out \<noteq> [] \<and> msg_role (last out) = System \<and> msg_role m = System
        then butlast out @ [(last out)\<lparr>msg_content := msg_content (last out) @ msg_content m\<rparr>]
        else out @ [m]) ms"

definition merge_consecutive_system :: "message list \<Rightarrow> message list" where
  "merge_consecutive_system ms = merge_onto [] ms"

end
