(* ===== verification/Compaction_Inv.thy ===== *)
theory Compaction_Inv
  imports Compaction "HOL-Library.Sublist"
begin

text \<open>
  What compaction keeps: that every tool result answers an open call and every call is answered before
  the next turn, which messages stay, and how large the result can be.
\<close>

section \<open>Calls and their results\<close>

text \<open>The calls still open after some blocks; nothing when a result answers no open call.\<close>

fun block_calls :: "string set \<Rightarrow> content_block list \<Rightarrow> string set option" where
  "block_calls opn [] = Some opn"
| "block_calls opn (ToolUse call # bs) = block_calls (insert (tc_id call) opn) bs"
| "block_calls opn (ToolResult r # bs) =
     (if tr_use_id r \<in> opn then block_calls (opn - {tr_use_id r}) bs else None)"
| "block_calls opn (_ # bs) = block_calls opn bs"

definition turn_boundary :: "message \<Rightarrow> bool" where
  "turn_boundary m \<longleftrightarrow> msg_role m = Assistant \<or> starts_exchange m"

text \<open>A model turn or a real user turn starts only when every call is answered.\<close>

fun calls_run :: "string set \<Rightarrow> message list \<Rightarrow> string set option" where
  "calls_run opn [] = Some opn"
| "calls_run opn (m # ms) =
     (if turn_boundary m \<and> opn \<noteq> {} then None
      else (case block_calls opn (msg_content m) of None \<Rightarrow> None | Some o' \<Rightarrow> calls_run o' ms))"

fun is_call :: "content_block \<Rightarrow> bool" where
  "is_call (ToolUse _) = True"
| "is_call _ = False"

fun is_tool_block :: "content_block \<Rightarrow> bool" where
  "is_tool_block (ToolUse _) = True"
| "is_tool_block (ToolResult _) = True"
| "is_tool_block _ = False"

text \<open>Only the model calls tools, and system messages carry no tool blocks.\<close>

definition message_ok :: "message \<Rightarrow> bool" where
  "message_ok m \<longleftrightarrow>
     (msg_role m \<noteq> Assistant \<longrightarrow> (\<forall>b \<in> set (msg_content m). \<not> is_call b)) \<and>
     (msg_role m = System \<longrightarrow> (\<forall>b \<in> set (msg_content m). \<not> is_tool_block b))"

definition conversation_ok :: "message list \<Rightarrow> bool" where
  "conversation_ok ms \<longleftrightarrow> calls_run {} ms = Some {} \<and> (\<forall>m \<in> set ms. message_ok m)"

lemma calls_run_append:
  "calls_run opn (a @ b) = (case calls_run opn a of None \<Rightarrow> None | Some o' \<Rightarrow> calls_run o' b)"
  by (induction a arbitrary: opn) (auto split: option.splits)

lemma block_calls_plain: "\<forall>b \<in> set bs. \<not> is_tool_block b \<Longrightarrow> block_calls opn bs = Some opn"
  by (induction opn bs rule: block_calls.induct) auto

lemma block_calls_answers: "\<forall>b \<in> set bs. \<not> is_call b \<Longrightarrow> block_calls opn bs = Some o' \<Longrightarrow> o' \<subseteq> opn"
  by (induction opn bs arbitrary: o' rule: block_calls.induct) (auto split: if_splits)

lemma calls_run_system:
  "\<forall>m \<in> set ms. msg_role m = System \<and> message_ok m \<Longrightarrow> calls_run opn ms = Some opn"
  by (induction ms arbitrary: opn)
    (auto simp: turn_boundary_def starts_exchange_def message_ok_def block_calls_plain)

lemma calls_run_answers:
  "\<forall>m \<in> set ms. msg_role m \<noteq> Assistant \<and> message_ok m \<Longrightarrow> calls_run opn ms = Some o' \<Longrightarrow> o' \<subseteq> opn"
proof (induction ms arbitrary: opn)
  case (Cons m ms)
  then obtain o1 where "block_calls opn (msg_content m) = Some o1" "calls_run o1 ms = Some o'"
    by (auto split: if_splits option.splits)
  with Cons block_calls_answers [of "msg_content m" opn o1] show ?case
    by (auto simp: message_ok_def)
qed simp

text \<open>Before a boundary nothing is open.\<close>

lemma calls_run_boundary:
  assumes "calls_run opn (a @ b) = Some r" and "b \<noteq> []" and "turn_boundary (hd b)"
  shows "calls_run opn a = Some {}" and "calls_run {} b = Some r"
proof -
  from assms obtain o' where o: "calls_run opn a = Some o'" "calls_run o' b = Some r"
    by (auto simp: calls_run_append split: option.splits)
  with assms(2,3) have "o' = {}" by (cases b) (auto split: if_splits)
  with o show "calls_run opn a = Some {}" "calls_run {} b = Some r" by simp_all
qed

section \<open>Exchanges\<close>

definition exchanges_ok :: "message list list \<Rightarrow> bool" where
  "exchanges_ok xs \<longleftrightarrow>
     (\<forall>x \<in> set xs. x \<noteq> [] \<and> (\<forall>m \<in> set (tl x). \<not> starts_exchange m)) \<and>
     (\<forall>x \<in> set (tl xs). starts_exchange (hd x))"

lemma group_exchanges_concat: "concat (group_exchanges acc ms) = concat acc @ ms"
proof (induction acc ms rule: group_exchanges.induct)
  case (2 acc m ms)
  have "acc \<noteq> [] \<Longrightarrow> concat (butlast acc) @ last acc = concat acc"
    by (metis append_butlast_last_id concat.simps(1,2) concat_append append_Nil2)
  with 2 show ?case by (auto simp flip: append_assoc)
qed simp

lemma exchanges_ok_snoc:
  "exchanges_ok xs \<Longrightarrow> starts_exchange m \<or> xs = [] \<Longrightarrow> exchanges_ok (xs @ [[m]])"
  by (cases xs) (auto simp: exchanges_ok_def)

lemma exchanges_ok_extend:
  assumes "exchanges_ok xs" and "xs \<noteq> []" and "\<not> starts_exchange m"
  shows "exchanges_ok (butlast xs @ [last xs @ [m]])"
proof -
  obtain ys y where xs: "xs = ys @ [y]" using assms(2) by (metis rev_exhaust)
  with assms(1,3) show ?thesis by (cases ys) (auto simp: exchanges_ok_def)
qed

lemma group_exchanges_ok: "exchanges_ok acc \<Longrightarrow> exchanges_ok (group_exchanges acc ms)"
proof (induction acc ms rule: group_exchanges.induct)
  case (2 acc m ms)
  show ?case
  proof (cases "starts_exchange m \<or> acc = []")
    case True
    with 2 exchanges_ok_snoc [of acc m] show ?thesis by auto
  next
    case False
    with 2 exchanges_ok_extend [of acc m] show ?thesis by auto
  qed
qed simp

lemma exchanges_ok_Nil [simp]: "exchanges_ok []"
  by (simp add: exchanges_ok_def)

text \<open>Dropping takes from the front and never the last exchange.\<close>

lemma drop_oldest_split:
  "drop_oldest fits dropped xs = (d, k) \<Longrightarrow>
   (\<exists>e. d = dropped @ e \<and> xs = e @ k) \<and> (xs \<noteq> [] \<longrightarrow> k \<noteq> []) \<and>
   (length k \<le> 1 \<or> fits d k)"
proof (induction fits dropped xs rule: drop_oldest.induct)
  case (1 fits dropped x y xs)
  then show ?case by (cases "fits dropped (x # y # xs)") auto
qed auto

lemma drop_exchanges_split:
  assumes "drop_exchanges js limit system carried xs = (d, k)"
  shows "xs = d @ k" and "xs \<noteq> [] \<Longrightarrow> k \<noteq> []"
    and "length k \<le> 1 \<or> estimate_tokens js (build_messages system (summary_of carried d) k) \<le> limit"
proof -
  obtain d1 k1 where 1: "drop_oldest (\<lambda>_ xs. estimate_tokens js (system @ concat xs) \<le> limit) [] xs = (d1, k1)"
    by fastforce
  with assms have 2: "drop_oldest (\<lambda>d xs. estimate_tokens js (build_messages system (summary_of carried d) xs) \<le> limit)
      d1 k1 = (d, k)"
    by (simp add: drop_exchanges_def)
  from drop_oldest_split [OF 1] drop_oldest_split [OF 2] show "xs = d @ k" "xs \<noteq> [] \<Longrightarrow> k \<noteq> []"
    "length k \<le> 1 \<or> estimate_tokens js (build_messages system (summary_of carried d) k) \<le> limit"
    by auto
qed

text \<open>A split keeps the leading user messages and everything from an assistant message on.\<close>

lemma split_oversized_exchange_split:
  assumes "split_oversized_exchange js system summary x limit = Some (pre, suf)"
  obtains a k where "a = length (takeWhile (\<lambda>m. msg_role m = User) x)" "a < k" "k < length x" "x \<noteq> []"
    "msg_role (hd x) = User" "msg_role (x ! k) = Assistant" "pre = drop a (take k x)" "suf = take a x @ drop k x"
    "estimate_tokens js (build_messages system summary [suf]) \<le> limit"
proof -
  let ?a = "length (takeWhile (\<lambda>m. msg_role m = User) x)"
  from assms obtain k where k: "List.find (\<lambda>k. cut_here x k \<and>
      estimate_tokens js (build_messages system summary [snd (split_at x ?a k)]) \<le> limit) [Suc ?a..<length x] = Some k"
    "split_at x ?a k = (pre, suf)" "x \<noteq> []" "msg_role (hd x) = User"
    by (auto simp: split_oversized_exchange_def Let_def split: if_splits)
  then have "k \<in> set [Suc ?a..<length x]" "cut_here x k"
    "estimate_tokens js (build_messages system summary [snd (split_at x ?a k)]) \<le> limit"
    by (auto simp: find_Some_iff)
  with k that [of ?a k] show ?thesis by (auto simp: split_at_def cut_here_def)
qed

section \<open>What is kept of the body\<close>

definition last_request :: "message list \<Rightarrow> message option" where
  "last_request ms =
     (if filter starts_exchange ms = [] then None else Some (last (filter starts_exchange ms)))"

lemma no_starts: "(\<forall>m \<in> set ms. \<not> starts_exchange m) \<longleftrightarrow> filter starts_exchange ms = []"
  by (auto simp: filter_empty_conv)

lemma last_request_hd:
  assumes ok: "exchanges_ok (xs @ [x])" and u: "last_request (concat (xs @ [x])) = Some u"
  shows "hd x = u"
proof (cases "starts_exchange (hd x)")
  case True
  from ok have "x \<noteq> []" "filter starts_exchange (tl x) = []"
    by (auto simp: exchanges_ok_def no_starts [symmetric])
  with True have "filter starts_exchange x = [hd x]" by (cases x) auto
  with u show ?thesis by (simp add: last_request_def)
next
  case False
  with ok have "xs = []" by (cases xs) (auto simp: exchanges_ok_def)
  with ok False have "filter starts_exchange (concat (xs @ [x])) = []"
    by (cases x) (auto simp: exchanges_ok_def no_starts [symmetric])
  with u show ?thesis by (simp add: last_request_def)
qed

text \<open>A suffix of the exchanges is a conversation of its own.\<close>

lemma suffix_calls:
  assumes ok: "exchanges_ok (d @ k)" and run: "calls_run {} (concat (d @ k)) = Some {}"
  shows "calls_run {} (concat k) = Some {}"
proof (cases "d = [] \<or> k = []")
  case True
  with run show ?thesis by auto
next
  case False
  then obtain y ys where k: "k = y # ys" by (cases k) auto
  with False ok have "starts_exchange (hd y)" "y \<noteq> []"
    by (cases d; auto simp: exchanges_ok_def)+
  with run k show ?thesis
    using calls_run_boundary(2) [of "{}" "concat d" "concat k" "{}"] by (simp add: turn_boundary_def)
qed

lemma split_calls:
  assumes run: "calls_run {} x = Some {}" and ok: "\<forall>m \<in> set x. message_ok m"
    and k: "k < length x" "msg_role (x ! k) = Assistant"
    and a: "\<forall>m \<in> set (take a x). msg_role m = User"
  shows "calls_run {} (take a x @ drop k x) = Some {}"
proof -
  have hd: "hd (drop k x) = x ! k" "drop k x \<noteq> []" using k(1) by (simp_all add: hd_drop_conv_nth)
  have "calls_run {} (take k x @ drop k x) = Some {}" using run by simp
  from calls_run_boundary(2) [OF this hd(2)] have d: "calls_run {} (drop k x) = Some {}"
    by (simp add: turn_boundary_def hd(1) k(2))
  from run calls_run_append [of "{}" "take a x" "drop a x"]
  obtain o' where o: "calls_run {} (take a x) = Some o'"
    by (auto split: option.splits)
  have "o' \<subseteq> {}"
    by (rule calls_run_answers [OF _ o]) (use a ok in \<open>auto dest: in_set_takeD\<close>)
  with o d show ?thesis by (simp add: calls_run_append)
qed

lemma takeWhile_take: "take (length (takeWhile P xs)) xs = takeWhile P xs"
  by (metis takeWhile_eq_take)

lemma subseq_cut: "a \<le> k \<Longrightarrow> subseq (take a x @ drop k x) x"
proof -
  assume "a \<le> k"
  then have "take a x @ drop k x = take a x @ drop (k - a) (drop a x)" by simp
  moreover have "subseq (drop (k - a) (drop a x)) (drop a x)"
    by (metis append_take_drop_id subseq_drop_many subseq_order.refl)
  ultimately show ?thesis by (metis append_take_drop_id list_emb_append_mono subseq_order.refl)
qed

text \<open>
  The kept exchanges: calls answered, in order, with the last request, and over the limit only when they
  are a single one.
\<close>

lemma kept_exchanges:
  assumes run: "calls_run {} body = Some {}" and ok: "\<forall>m \<in> set body. message_ok m"
    and cut: "split_last js limit system carried (drop_exchanges js limit system carried (group_exchanges [] body)) = (d, k)"
  shows "calls_run {} (concat k) = Some {}" and "subseq (concat k) body"
    and "last_request body = Some u \<Longrightarrow> u \<in> set (concat k)"
    and "length k \<le> 1 \<or> estimate_tokens js (build_messages system (summary_of carried d) k) \<le> limit"
proof -
  let ?xs = "group_exchanges [] body"
  obtain d0 k0 where 0: "drop_exchanges js limit system carried ?xs = (d0, k0)" by fastforce
  have ex: "exchanges_ok ?xs" by (rule group_exchanges_ok) simp
  have body: "concat ?xs = body" by (simp add: group_exchanges_concat)
  note dk = drop_exchanges_split [OF 0]
  have run0: "calls_run {} (concat k0) = Some {}"
    using suffix_calls [of d0 k0] ex run body dk(1) by simp
  have sub0: "subseq (concat k0) body"
    using body dk(1) by (metis concat_append list_emb_append2 subseq_order.refl)
  have last0: "hd (last k0) = u" "k0 \<noteq> []" if u: "last_request body = Some u" for u
  proof -
    have "?xs \<noteq> []" using u body by (auto simp: last_request_def)
    with dk(2) show k0: "k0 \<noteq> []" by blast
    then obtain ys y where y: "k0 = ys @ [y]" by (metis rev_exhaust)
    with last_request_hd [of "d0 @ ys" y u] ex dk(1) u body show "hd (last k0) = u" by simp
  qed
  have hd_in: "\<forall>y \<in> set k0. y \<noteq> []" using ex dk(1) by (auto simp: exchanges_ok_def)
  show "calls_run {} (concat k) = Some {}" "subseq (concat k) body"
    "last_request body = Some u \<Longrightarrow> u \<in> set (concat k)"
    "length k \<le> 1 \<or> estimate_tokens js (build_messages system (summary_of carried d) k) \<le> limit"
  proof -
    have c: "split_last js limit system carried (d0, k0) = (d, k)" using cut 0 by simp
    consider (same) "d = d0" "k = k0" | (halved) x pre suf where "k0 = [x]" "k = [suf]"
      "split_oversized_exchange js system (summary_of carried d0) x limit = Some (pre, suf)"
      using c by (cases k0; cases "tl k0") (auto simp: split_last_def split: if_splits option.splits)
    then have "calls_run {} (concat k) = Some {} \<and> subseq (concat k) body \<and>
      (last_request body = Some u \<longrightarrow> u \<in> set (concat k)) \<and>
      (length k \<le> 1 \<or> estimate_tokens js (build_messages system (summary_of carried d) k) \<le> limit)"
    proof cases
      case same
      have "u \<in> set (concat k0)" if u: "last_request body = Some u"
      proof -
        from last0 [OF u] have "last k0 \<in> set k0" "hd (last k0) = u" by simp_all
        with hd_in show ?thesis by (metis UN_I hd_in_set set_concat)
      qed
      with same run0 sub0 dk(3) show ?thesis by simp
    next
      case (halved x pre suf)
      from halved(3) obtain a j where aj: "a = length (takeWhile (\<lambda>m. msg_role m = User) x)" "a < j" "j < length x"
        "x \<noteq> []" "msg_role (hd x) = User" "msg_role (x ! j) = Assistant" "suf = take a x @ drop j x"
        by (rule split_oversized_exchange_split)
      have okx: "\<forall>m \<in> set x. message_ok m"
        using halved(1) body dk(1) ok by auto
      have "\<forall>m \<in> set (take a x). msg_role m = User"
        unfolding aj(1) takeWhile_take by (auto dest: set_takeWhileD)
      from split_calls [OF _ okx aj(3,6) this] run0 halved(1,2) aj(7)
      have r: "calls_run {} (concat k) = Some {}" by simp
      have "subseq suf x" unfolding aj(7) using aj(2) by (intro subseq_cut) simp
      with sub0 halved(1,2) have q: "subseq (concat k) body" by (auto intro: subseq_order.trans)
      have "hd x \<in> set suf"
        using aj(1,4,5,7) by (cases x) auto
      with last0 [of u] halved(1,2) have "last_request body = Some u \<longrightarrow> u \<in> set (concat k)" by auto
      with r q halved(2) show ?thesis by simp
    qed
    then show "calls_run {} (concat k) = Some {}" "subseq (concat k) body"
      "last_request body = Some u \<Longrightarrow> u \<in> set (concat k)"
      "length k \<le> 1 \<or> estimate_tokens js (build_messages system (summary_of carried d) k) \<le> limit"
      by blast+
  qed
qed

lemma kept_subseq:
  assumes cut: "split_last js limit system carried (drop_exchanges js limit system carried (group_exchanges [] body)) = (d, k)"
  shows "subseq (concat k) body"
proof -
  obtain d0 k0 where 0: "drop_exchanges js limit system carried (group_exchanges [] body) = (d0, k0)" by fastforce
  from drop_exchanges_split(1) [OF 0] have body: "body = concat d0 @ concat k0"
    by (metis concat.simps(1) concat_append group_exchanges_concat append_Nil)
  have sub0: "subseq (concat k0) body" unfolding body by (simp add: list_emb_append2)
  show ?thesis
  proof (cases "k = k0")
    case False
    with cut 0 obtain x pre suf where x: "k0 = [x]" "k = [suf]"
      "split_oversized_exchange js system (summary_of carried d0) x limit = Some (pre, suf)"
      by (cases k0; cases "tl k0") (auto simp: split_last_def split: if_splits option.splits)
    then have "subseq suf x" by (auto elim!: split_oversized_exchange_split intro: subseq_cut)
    with x sub0 show ?thesis by (auto intro: subseq_order.trans)
  qed (simp add: sub0)
qed

lemma kept_over:
  assumes cut: "split_last js limit system carried (drop_exchanges js limit system carried (group_exchanges [] body)) = (d, k)"
  shows "length k \<le> 1 \<or> estimate_tokens js (build_messages system (summary_of carried d) k) \<le> limit"
proof -
  obtain d0 k0 where 0: "drop_exchanges js limit system carried (group_exchanges [] body) = (d0, k0)" by fastforce
  with cut drop_exchanges_split(3) [OF 0] show ?thesis
    by (cases k0; cases "tl k0") (auto simp: split_last_def split: if_splits option.splits)
qed

end
