(* ===== verification/Compaction_Spec.thy ===== *)
theory Compaction_Spec
  imports Compaction_Inv
begin

text \<open>
  The last stages of compaction: shortening tool output keeps every message's place, role and calls, and
  the digest replaces the injected summary and nothing else.
\<close>

section \<open>Shortened tool output\<close>

definition shortened :: "message \<Rightarrow> message \<Rightarrow> bool" where
  "shortened m m' \<longleftrightarrow> m' = m \<or> m' = fst (truncate_message m)"

lemma truncate_from_shortens:
  assumes "truncate_from js limit before ms n = (out, n')"
  shows "\<exists>ms'. out = before @ ms' \<and> list_all2 shortened ms ms'"
    and "estimate_tokens js out \<le> limit \<or> out = before @ map (fst \<circ> truncate_message) ms"
  using assms
proof (induction js limit before ms n arbitrary: rule: truncate_from.induct)
  case (2 js limit before m ms n)
  { case 1
    with 2 show ?case
      by (cases "estimate_tokens js (before @ m # ms) \<le> limit")
        (auto simp: shortened_def list_all2_Cons1 intro: list_all2_refl) }
  { case 2
    with "2.IH"(2) show ?case
      by (cases "estimate_tokens js (before @ m # ms) \<le> limit") auto }
qed auto

lemma truncate_block_cases:
  "fst (truncate_block b) = b \<or>
   (\<exists>r out. b = ToolResult r \<and> fst (truncate_block b) = ToolResult (r\<lparr>tr_output := out\<rparr>))"
  by (cases b) auto

lemma block_calls_truncate: "block_calls opn (map (fst \<circ> truncate_block) bs) = block_calls opn bs"
  by (induction opn bs rule: block_calls.induct) auto

lemma block_text_truncate: "block_text (fst (truncate_block b)) = block_text b"
  by (cases b) auto

lemma first_some_map: "first_some f (map g xs) = first_some (f \<circ> g) xs"
  by (induction xs) (auto split: option.splits)

lemma first_text_truncate [simp]: "first_text (fst (truncate_message m)) = first_text m"
proof -
  have "block_text \<circ> (fst \<circ> truncate_block) = block_text" by (auto simp: block_text_truncate)
  then show ?thesis by (simp add: first_text_def truncate_message_def first_some_map)
qed

lemma is_call_truncate [simp]: "is_call (fst (truncate_block b)) = is_call b"
  by (cases b) auto

lemma is_tool_block_truncate [simp]: "is_tool_block (fst (truncate_block b)) = is_tool_block b"
  by (cases b) auto

lemma truncate_keeps:
  "msg_role (fst (truncate_message m)) = msg_role m"
  "msg_metadata (fst (truncate_message m)) = msg_metadata m"
  "msg_content (fst (truncate_message m)) = map (fst \<circ> truncate_block) (msg_content m)"
  by (simp_all add: truncate_message_def)

lemma shortened_keeps:
  assumes "shortened m m'"
  shows "msg_role m' = msg_role m" and "is_synthetic m' = is_synthetic m"
    and "starts_exchange m' = starts_exchange m" and "turn_boundary m' = turn_boundary m"
    and "is_summary_message m' = is_summary_message m"
    and "block_calls opn (msg_content m') = block_calls opn (msg_content m)"
    and "message_ok m' = message_ok m"
  using assms
  by (auto simp: shortened_def is_synthetic_def starts_exchange_def turn_boundary_def is_summary_message_def
      block_calls_truncate message_ok_def truncate_keeps)

lemma calls_run_shortened: "list_all2 shortened ms ms' \<Longrightarrow> calls_run opn ms' = calls_run opn ms"
  by (induction ms ms' arbitrary: opn rule: list_all2_induct)
    (simp_all add: shortened_keeps split: option.splits)

lemma shortened_plain: "\<forall>b \<in> set (msg_content m). \<not> is_tool_block b \<Longrightarrow> shortened m m' \<Longrightarrow> m' = m"
proof -
  assume p: "\<forall>b \<in> set (msg_content m). \<not> is_tool_block b"
  have "fst (truncate_block b) = b" if "\<not> is_tool_block b" for b using that by (cases b) auto
  with p have "map (fst \<circ> truncate_block) (msg_content m) = msg_content m" by (intro map_idI) auto
  then show "shortened m m' \<Longrightarrow> m' = m" by (auto simp: shortened_def truncate_message_def)
qed

lemma shortened_plain_list:
  "list_all2 shortened ms ms' \<Longrightarrow> \<forall>m \<in> set ms. \<forall>b \<in> set (msg_content m). \<not> is_tool_block b \<Longrightarrow> ms' = ms"
  by (induction ms ms' rule: list_all2_induct) (auto dest: shortened_plain)

text \<open>A shortened output has at most 240 characters of the old one and the note.\<close>

lemma truncated_output_length:
  assumes "ToolResult r \<in> set (msg_content (fst (truncate_message m)))"
  shows "length (tr_output r) \<le> TRUNCATED_OUTPUT_CHARS + 48"
proof -
  from assms obtain b where "b \<in> set (msg_content m)" and b: "ToolResult r = fst (truncate_block b)"
    by (auto simp: truncate_message_def)
  from b show ?thesis
    by (cases b) (auto simp: truncate_text_def newline_def TRUNCATED_OUTPUT_CHARS_def split: if_splits)
qed

section \<open>The digest\<close>

lemma swap_first_split:
  "swap_first new ms = Some ms' \<Longrightarrow>
   \<exists>a m b. ms = a @ m # b \<and> ms' = a @ new # b \<and> is_summary_message m \<and> (\<forall>x \<in> set a. \<not> is_summary_message x)"
proof (induction ms arbitrary: ms')
  case (Cons x ms)
  show ?case
  proof (cases "is_summary_message x")
    case True
    with Cons.prems show ?thesis by (intro exI [of _ "[]"]) auto
  next
    case False
    with Cons.prems obtain ms1 where "swap_first new ms = Some ms1" "ms' = x # ms1" by auto
    with Cons.IH [of ms1] False obtain a m b where "ms = a @ m # b" "ms' = x # a @ new # b" "is_summary_message m"
      "\<forall>x \<in> set a. \<not> is_summary_message x" by auto
    with False show ?thesis by (intro exI [of _ "x # a"]) auto
  qed
qed simp

lemma swap_first_none: "swap_first new ms = None \<longleftrightarrow> (\<forall>m \<in> set ms. \<not> is_summary_message m)"
  by (induction ms) auto

lemma inject_loop_cases:
  "inject_loop js title cs limit ms n = ms \<or>
   (\<exists>smart. swap_summary ms smart = Some (inject_loop js title cs limit ms n) \<and>
      estimate_tokens js (inject_loop js title cs limit ms n) \<le> limit)"
proof (induction js title cs limit ms n rule: inject_loop.induct)
  case (1 js title cs limit ms count)
  then show ?case by (subst (1 2 3) inject_loop.simps) (auto split: option.splits)
qed

text \<open>The messages of a compacted conversation, with the digest or without one.\<close>

lemma inject_digest_replaces:
  assumes sys: "\<forall>m \<in> set (pre @ post). \<not> is_summary_message m" and mid: "length mid \<le> 1"
  obtains mid' where "inject_digest js (pre @ mid @ post) digest limit = pre @ mid' @ post" "length mid' = length mid"
    "mid' = mid \<or> (\<exists>smart. mid' = [message_text System (render_summary smart)])"
    "mid' = mid \<or> estimate_tokens js (pre @ mid' @ post) \<le> limit"
proof -
  let ?out = "inject_digest js (pre @ mid @ post) digest limit"
  consider "?out = pre @ mid @ post" | smart where
    "swap_summary (pre @ mid @ post) smart = Some ?out" "estimate_tokens js ?out \<le> limit"
    unfolding inject_digest_def Let_def using inject_loop_cases by blast
  then show thesis
  proof cases
    case 1
    with that show thesis by blast
  next
    case (2 smart)
    from swap_first_split [OF 2(1) [unfolded swap_summary_def]] obtain a m b where
      amb: "pre @ mid @ post = a @ m # b" "?out = a @ message_text System (render_summary smart) # b" "is_summary_message m"
      by blast
    have "m \<in> set mid" using amb(1,3) sys by (metis Un_iff in_set_conv_decomp set_append)
    with mid obtain "mid = [m]" by (cases mid) auto
    with amb(1,3) sys have "a = pre" "b = post"
      by (auto simp: append_eq_append_conv2 append_eq_Cons_conv Cons_eq_append_conv)
    with amb(2) 2(2) \<open>mid = [m]\<close> show thesis
      by (intro that [of "[message_text System (render_summary smart)]"]) auto
  qed
qed

section \<open>The whole of compaction\<close>

definition system_part :: "message list \<Rightarrow> message list" where
  "system_part ms = filter (\<lambda>m. \<not> is_summary_message m) (takeWhile (\<lambda>m. msg_role m = System) ms)"

definition body_part :: "message list \<Rightarrow> message list" where
  "body_part ms = dropWhile (\<lambda>m. msg_role m = System) ms"

text \<open>The exchanges that go and those that stay.\<close>

definition cut_exchanges :: "(json \<Rightarrow> string) \<Rightarrow> nat \<Rightarrow> message list \<Rightarrow> message list list \<times> message list list" where
  "cut_exchanges js limit ms =
     (let carried = carried_lines (takeWhile (\<lambda>m. msg_role m = System) ms)
      in split_last js limit (system_part ms) carried
           (drop_exchanges js limit (system_part ms) carried (group_exchanges [] (body_part ms))))"

text \<open>A kept exchange is part of one of the exchanges, so it holds one real user turn at most.\<close>

lemma kept_requests:
  assumes cut: "split_last js limit system carried (drop_exchanges js limit system carried (group_exchanges [] body)) = (d, k)"
    and y: "y \<in> set k"
  shows "length (filter starts_exchange y) \<le> 1"
proof -
  let ?xs = "group_exchanges [] body"
  obtain d0 k0 where 0: "drop_exchanges js limit system carried ?xs = (d0, k0)" by fastforce
  have "\<exists>x \<in> set k0. subseq y x"
  proof (cases "k = k0")
    case True
    with y show ?thesis by blast
  next
    case False
    with cut 0 obtain x pre suf where "k0 = [x]" "k = [suf]"
      "split_oversized_exchange js system (summary_of carried d0) x limit = Some (pre, suf)"
      by (cases k0; cases "tl k0") (auto simp: split_last_def split: if_splits option.splits)
    with y show ?thesis by (auto elim!: split_oversized_exchange_split intro: subseq_cut)
  qed
  then obtain x where x: "x \<in> set k0" "subseq y x" ..
  have "exchanges_ok ?xs" by (rule group_exchanges_ok) simp
  with x(1) drop_exchanges_split(1) [OF 0] have "x \<noteq> []" "filter starts_exchange (tl x) = []"
    by (auto simp: exchanges_ok_def no_starts [symmetric])
  then have "length (filter starts_exchange x) \<le> 1" by (cases x) auto
  moreover have "length (filter starts_exchange y) \<le> length (filter starts_exchange x)"
    using list_emb_length [OF subseq_filter [OF x(2)]] .
  ultimately show ?thesis by simp
qed

lemma subseq_set: "subseq xs ys \<Longrightarrow> set xs \<subseteq> set ys"
  by (induction xs ys rule: list_emb.induct) auto

lemma shortened_all:
  "list_all2 shortened ms ms' \<Longrightarrow> (\<And>m m'. shortened m m' \<Longrightarrow> P m \<Longrightarrow> P m') \<Longrightarrow> \<forall>m \<in> set ms. P m \<Longrightarrow> \<forall>m \<in> set ms'. P m"
  by (induction ms ms' rule: list_all2_induct) auto

definition summary_messages :: "structured_summary option \<Rightarrow> message list" where
  "summary_messages s = (case s of None \<Rightarrow> [] | Some d \<Rightarrow> [message_text System (render_summary d)])"

lemma build_messages_parts: "build_messages system s k = system @ summary_messages s @ concat k"
  by (simp add: build_messages_def summary_messages_def)

lemma summary_messages_length: "length (summary_messages s) \<le> 1"
  by (simp add: summary_messages_def split: option.splits)

lemma summary_messages_plain:
  "\<forall>m \<in> set (summary_messages s). msg_role m = System \<and> (\<forall>b \<in> set (msg_content m). \<not> is_tool_block b)"
  by (cases s) (auto simp: summary_messages_def message_text_def message_new_def)

lemma system_part_plain:
  assumes "\<forall>m \<in> set ms. message_ok m" and "m \<in> set (system_part ms)"
  shows "msg_role m = System" and "message_ok m" and "\<not> is_summary_message m" and "m \<in> set ms"
    and "\<forall>b \<in> set (msg_content m). \<not> is_tool_block b"
proof -
  from assms(2) show r: "msg_role m = System" "\<not> is_summary_message m" "m \<in> set ms"
    by (auto simp: system_part_def dest: set_takeWhileD)
  with assms(1) show "message_ok m" "\<forall>b \<in> set (msg_content m). \<not> is_tool_block b"
    by (auto simp: message_ok_def)
qed

lemma fitted_summary_fits:
  "estimate_tokens js (build_messages system (summary_of carried d) k) \<le> limit \<Longrightarrow>
   fitted_summary js limit system carried d k = summary_of carried d"
  by (simp add: fitted_summary_def Let_def)

text \<open>
  What a compacted conversation is made of: the system messages, at most one summary, and the kept
  exchanges with some of their tool output shortened. When it does not fit, all of it is shortened and
  one exchange is left.
\<close>

lemma compact_shape:
  assumes over: "limit < estimate_tokens js ms" and ok: "\<forall>m \<in> set ms. message_ok m"
    and nosum: "\<forall>m \<in> set (body_part ms). \<not> is_summary_message m"
  obtains d k mid kept where
    "cut_exchanges js limit ms = (d, k)"
    "compact js ms limit = system_part ms @ mid @ kept" "length mid \<le> 1"
    "\<forall>m \<in> set mid. msg_role m = System \<and> (\<forall>b \<in> set (msg_content m). \<not> is_tool_block b)"
    "list_all2 shortened (concat k) kept"
    "estimate_tokens js (compact js ms limit) \<le> limit \<or>
       kept = map (fst \<circ> truncate_message) (concat k) \<and> length k \<le> 1"
proof -
  let ?sys = "system_part ms" and ?car = "carried_lines (takeWhile (\<lambda>m. msg_role m = System) ms)"
  obtain d k where cut: "split_last js limit ?sys ?car (drop_exchanges js limit ?sys ?car
      (group_exchanges [] (body_part ms))) = (d, k)" by fastforce
  let ?s = "fitted_summary js limit ?sys ?car d k"
  let ?mid = "summary_messages ?s"
  let ?out0 = "build_messages ?sys ?s k"
  obtain out1 n where out1: "(if estimate_tokens js ?out0 > limit then truncate_from js limit [] ?out0 0 else (?out0, 0)) = (out1, n)"
    by fastforce
  obtain digest where c: "compact js ms limit = inject_digest js out1 digest limit"
    using over cut out1 unfolding system_part_def body_part_def
    by (auto simp: compact_def compact_with_summary_def compact_plan_def Let_def split: prod.splits)
  have "list_all2 shortened ?out0 out1"
    using out1 truncate_from_shortens(1) [of js limit "[]" ?out0 0 out1 n]
    by (auto simp: shortened_def intro: list_all2_refl split: if_splits)
  then obtain sys' mid' kept where parts: "out1 = sys' @ mid' @ kept" "list_all2 shortened ?sys sys'"
    "list_all2 shortened ?mid mid'" "list_all2 shortened (concat k) kept"
    by (auto simp: build_messages_parts list_all2_append1)
  have "sys' = ?sys" by (rule shortened_plain_list [OF parts(2)]) (use system_part_plain(5) [OF ok] in blast)
  moreover have "mid' = ?mid" by (rule shortened_plain_list [OF parts(3)]) (use summary_messages_plain in blast)
  ultimately have o1: "out1 = ?sys @ ?mid @ kept" using parts(1) by simp
  have "subseq (concat k) (body_part ms)" by (rule kept_subseq [OF cut])
  then have nok: "\<forall>m \<in> set (concat k). \<not> is_summary_message m" using nosum subseq_set by blast
  have "\<forall>m \<in> set kept. \<not> is_summary_message m"
    by (rule shortened_all [OF parts(4) _ nok]) (simp add: shortened_keeps(5))
  then have nosum': "\<forall>m \<in> set (?sys @ kept). \<not> is_summary_message m"
    using system_part_plain(3) [OF ok] by auto
  note len = summary_messages_length [of ?s]
  obtain mid2 where
    m2: "inject_digest js out1 digest limit = ?sys @ mid2 @ kept" "length mid2 = length ?mid"
      "mid2 = ?mid \<or> (\<exists>smart. mid2 = [message_text System (render_summary smart)])"
      "mid2 = ?mid \<or> estimate_tokens js (?sys @ mid2 @ kept) \<le> limit"
    unfolding o1 by (rule inject_digest_replaces [OF nosum' len])
  have plain: "\<forall>m \<in> set mid2. msg_role m = System \<and> (\<forall>b \<in> set (msg_content m). \<not> is_tool_block b)"
    using m2(3)
  proof (elim disjE exE)
    assume eq: "mid2 = ?mid"
    show ?thesis unfolding eq by (rule summary_messages_plain)
  next
    fix smart assume "mid2 = [message_text System (render_summary smart)]"
    with summary_messages_plain [of "Some smart"] show ?thesis by (simp add: summary_messages_def)
  qed
  have tight: "estimate_tokens js (compact js ms limit) \<le> limit \<or>
      kept = map (fst \<circ> truncate_message) (concat k) \<and> length k \<le> 1"
  proof (cases "limit < estimate_tokens js ?out0")
    case False
    then have "estimate_tokens js (?sys @ ?mid @ kept) \<le> limit" using out1 o1 by auto
    with m2(1,4) c show ?thesis by auto
  next
    case True
    with fitted_summary_fits [of js ?sys ?car d k limit] kept_over [OF cut] have "length k \<le> 1" by fastforce
    moreover from True out1 have "truncate_from js limit [] ?out0 0 = (out1, n)" by simp
    from truncate_from_shortens(2) [OF this] have "estimate_tokens js out1 \<le> limit \<or>
        kept = map (fst \<circ> truncate_message) (concat k)"
      using o1 parts(4) [THEN list_all2_lengthD] by (auto simp: build_messages_parts append_eq_append_conv)
    ultimately show ?thesis using m2(1,4) c o1 by auto
  qed
  have cut': "cut_exchanges js limit ms = (d, k)" using cut by (simp add: cut_exchanges_def)
  show thesis by (rule that [OF cut' _ _ plain parts(4) tight]) (use c m2(1,2) len in auto)
qed

text \<open>
  The properties of context compaction over whole conversations: the result is still a conversation a
  provider accepts, the request being worked on survives, and the budget is exceeded only when nothing
  more can be cut.
\<close>

lemma compact_small: "estimate_tokens js ms \<le> limit \<Longrightarrow> compact js ms limit = ms"
  by (simp add: compact_def compact_with_summary_def compact_plan_def)

lemma conversation_parts:
  assumes "conversation_ok ms"
  shows "\<forall>m \<in> set ms. message_ok m" and "calls_run {} (body_part ms) = Some {}"
    and "\<forall>m \<in> set (body_part ms). message_ok m"
proof -
  from assms show ok: "\<forall>m \<in> set ms. message_ok m" by (simp add: conversation_ok_def)
  let ?l = "takeWhile (\<lambda>m. msg_role m = System) ms"
  have split: "ms = ?l @ body_part ms" by (simp add: body_part_def)
  have "calls_run {} ?l = Some {}"
    using ok by (intro calls_run_system) (auto dest: set_takeWhileD)
  moreover have "calls_run {} (?l @ body_part ms) = Some {}"
    using assms split by (simp add: conversation_ok_def)
  ultimately show "calls_run {} (body_part ms) = Some {}"
    unfolding calls_run_append by simp
  show "\<forall>m \<in> set (body_part ms). message_ok m"
    using ok by (auto simp: body_part_def dest: set_dropWhileD)
qed

lemma plain_no_call: "\<not> is_tool_block b \<Longrightarrow> \<not> is_call b"
  by (cases b) auto

text \<open>A conversation with a call, its result and a second request.\<close>

definition sample_talk :: "message list" where
  "sample_talk =
     [message_text System ''be brief'', message_text User ''read the file'',
      message_new Assistant [ToolUse \<lparr>tc_id = ''c1'', tc_name = ''read'', tc_input = JNull, tc_metadata = None\<rparr>],
      message_new Tool [ToolResult \<lparr>tr_use_id = ''c1'', tr_output = replicate 60 CHR ''x'', tr_outcome = Ok, tr_image = None\<rparr>],
      message_text Assistant ''read'', message_text User ''now fix it'']"

lemma sample_talk_ok:
  "conversation_ok sample_talk" "\<forall>m \<in> set (body_part sample_talk). \<not> is_summary_message m"
  "10 < estimate_tokens (\<lambda>_. []) sample_talk"
  by code_simp+

text \<open>
  C6. Compaction keeps a conversation well formed: where every tool result answers an open call and every
  call is answered before the next turn, the same holds after compaction to any limit, so no dropped,
  split or shortened exchange leaves an orphaned call or result. The hypothesis: after the leading system messages,
  no message begins with the title of a compaction summary. The digest is put in the place of the first that does, so
  without it the property fails (\<open>titled_call_orphans_its_result\<close>).
\<close>
theorem compaction_keeps_calls_answered:
  assumes ok: "conversation_ok ms" and nosum: "\<forall>m \<in> set (body_part ms). \<not> is_summary_message m"
  shows "conversation_ok (compact js ms limit)"
proof (cases "estimate_tokens js ms \<le> limit")
  case True
  with ok show ?thesis by (simp add: compact_small)
next
  case False
  note parts = conversation_parts [OF ok]
  from False have "limit < estimate_tokens js ms" by simp
  then obtain d k mid kept where c: "cut_exchanges js limit ms = (d, k)"
    "compact js ms limit = system_part ms @ mid @ kept"
    "\<forall>m \<in> set mid. msg_role m = System \<and> (\<forall>b \<in> set (msg_content m). \<not> is_tool_block b)"
    "list_all2 shortened (concat k) kept"
    by (rule compact_shape [OF _ parts(1) nosum])
  note cut = c(1) [unfolded cut_exchanges_def Let_def]
  have "calls_run {} kept = Some {}"
    using calls_run_shortened [OF c(4)] kept_exchanges(1) [OF parts(2,3) cut] by simp
  moreover have mid: "\<forall>m \<in> set mid. msg_role m = System \<and> message_ok m"
    using c(3) plain_no_call by (auto simp: message_ok_def)
  moreover have sys: "\<forall>m \<in> set (system_part ms). msg_role m = System \<and> message_ok m"
    using system_part_plain [OF parts(1)] by blast
  moreover have "\<forall>m \<in> set (concat k). message_ok m"
    using subseq_set [OF kept_subseq [OF cut]] parts(3) by blast
  then have "\<forall>m \<in> set kept. message_ok m"
    by (rule shortened_all [OF c(4), rotated]) (simp add: shortened_keeps(7))
  ultimately show ?thesis
    by (auto simp: conversation_ok_def c(2) calls_run_append calls_run_system)
qed

theorem compaction_keeps_calls_answered_witness:
  "conversation_ok sample_talk \<and> conversation_ok (compact (\<lambda>_. []) sample_talk 10)"
  using sample_talk_ok(1) compaction_keeps_calls_answered [OF sample_talk_ok(1,2)] by blast

text \<open>
  C30. Compaction keeps what the turn is about: the system messages stay in front, at most one summary
  follows them, and then comes a part of the body in its order, each message as it was or with its long
  tool output shortened; the last request of the user is always among them. The hypotheses: every tool result of the
  conversation answers an open call and every call is answered before the next turn, and no message of the body begins with the
  title of a compaction summary; a request that does is replaced (\<open>request_with_the_title_is_replaced\<close>).
\<close>
theorem compaction_keeps_the_request:
  assumes ok: "conversation_ok ms" and nosum: "\<forall>m \<in> set (body_part ms). \<not> is_summary_message m"
    and over: "limit < estimate_tokens js ms"
  shows "\<exists>mid kept kept'. compact js ms limit = system_part ms @ mid @ kept' \<and> length mid \<le> 1 \<and>
           (\<forall>m \<in> set mid. msg_role m = System) \<and> subseq kept (body_part ms) \<and>
           list_all2 shortened kept kept' \<and>
           (\<forall>u. last_request (body_part ms) = Some u \<longrightarrow> u \<in> set kept)"
proof -
  note parts = conversation_parts [OF ok]
  obtain d k mid kept where c: "cut_exchanges js limit ms = (d, k)"
    "compact js ms limit = system_part ms @ mid @ kept" "length mid \<le> 1"
    "\<forall>m \<in> set mid. msg_role m = System \<and> (\<forall>b \<in> set (msg_content m). \<not> is_tool_block b)"
    "list_all2 shortened (concat k) kept"
    by (rule compact_shape [OF over parts(1) nosum])
  note cut = c(1) [unfolded cut_exchanges_def Let_def]
  have "\<forall>u. last_request (body_part ms) = Some u \<longrightarrow> u \<in> set (concat k)"
    using kept_exchanges(3) [OF parts(2,3) cut] by blast
  with c kept_subseq [OF cut] show ?thesis
    by (intro exI [of _ mid] exI [of _ "concat k"] exI [of _ kept]) simp
qed

theorem compaction_keeps_the_request_witness:
  "last_request (body_part sample_talk) = Some (message_text User ''now fix it'') \<and>
   (\<exists>mid kept kept'. compact (\<lambda>_. []) sample_talk 10 = system_part sample_talk @ mid @ kept' \<and>
      list_all2 shortened kept kept' \<and> message_text User ''now fix it'' \<in> set kept)"
proof -
  have "last_request (body_part sample_talk) = Some (message_text User ''now fix it'')" by code_simp
  with compaction_keeps_the_request [OF sample_talk_ok] show ?thesis by blast
qed

text \<open>
  C31. A compacted conversation exceeds the limit only when nothing more can be cut: at most one request of the user is
  left, and every tool output has at most 288 characters. The hypotheses: every tool result of the conversation
  answers an open call and every call is answered before the next turn, and no message after the leading system messages
  begins with the title of a compaction summary.
\<close>
theorem compaction_stays_in_budget:
  assumes ok: "conversation_ok ms" and nosum: "\<forall>m \<in> set (body_part ms). \<not> is_summary_message m"
  shows "estimate_tokens js (compact js ms limit) \<le> limit \<or>
         length (filter starts_exchange (compact js ms limit)) \<le> 1 \<and>
         (\<forall>m \<in> set (compact js ms limit). \<forall>r. ToolResult r \<in> set (msg_content m) \<longrightarrow> length (tr_output r) \<le> 288)"
proof (cases "estimate_tokens js ms \<le> limit \<or> estimate_tokens js (compact js ms limit) \<le> limit")
  case True
  then show ?thesis by (auto simp: compact_small)
next
  case False
  note parts = conversation_parts [OF ok]
  from False have "limit < estimate_tokens js ms" by simp
  then obtain d k mid kept where c: "cut_exchanges js limit ms = (d, k)"
    "compact js ms limit = system_part ms @ mid @ kept"
    "\<forall>m \<in> set mid. msg_role m = System \<and> (\<forall>b \<in> set (msg_content m). \<not> is_tool_block b)"
    "list_all2 shortened (concat k) kept"
    "estimate_tokens js (compact js ms limit) \<le> limit \<or> kept = map (fst \<circ> truncate_message) (concat k) \<and> length k \<le> 1"
    by (rule compact_shape [OF _ parts(1) nosum])
  note cut = c(1) [unfolded cut_exchanges_def Let_def]
  from c(5) have kept: "kept = map (fst \<circ> truncate_message) (concat k)" "length k \<le> 1" using False by blast+
  have plain: "\<not> starts_exchange m" "ToolResult r \<notin> set (msg_content m)" if "m \<in> set (system_part ms @ mid)" for m r
    using that c(3) system_part_plain(1,5) [OF parts(1), of m] by (fastforce simp: starts_exchange_def)+
  have "length (filter starts_exchange (concat k)) \<le> 1"
    using kept(2) kept_requests [OF cut] by (cases k) auto
  moreover have "length (filter starts_exchange kept) = length (filter starts_exchange (concat k))"
    using c(4) by (induction rule: list_all2_induct) (auto simp: shortened_keeps(3))
  moreover have "filter starts_exchange (system_part ms @ mid) = []" using plain(1) by (simp add: filter_empty_conv)
  moreover have "length (tr_output r) \<le> 288" if "m \<in> set kept" "ToolResult r \<in> set (msg_content m)" for m r
    using that truncated_output_length [of r] by (auto simp: kept(1) TRUNCATED_OUTPUT_CHARS_def)
  ultimately show ?thesis using plain(2) unfolding c(2) by (auto simp: filter_append)
qed

theorem compaction_stays_in_budget_witness:
  "conversation_ok sample_talk \<and> estimate_tokens (\<lambda>_. []) (compact (\<lambda>_. []) sample_talk 10) \<le> 10 \<or>
   length (filter starts_exchange (compact (\<lambda>_. []) sample_talk 10)) \<le> 1"
  using sample_talk_ok(1) compaction_stays_in_budget [OF sample_talk_ok(1,2)] by blast

section \<open>The smart digest and the merged prompt\<close>

lemma smart_digest_messages:
  "cr_messages (apply_smart_digest js r dropped smart limit) = cr_messages r \<or>
   (swap_summary (cr_messages r) smart = Some (cr_messages (apply_smart_digest js r dropped smart limit)) \<and>
    estimate_tokens js (cr_messages (apply_smart_digest js r dropped smart limit)) \<le> limit)"
  by (auto simp: apply_smart_digest_def fall_back_def Let_def split: option.splits)

text \<open>A digest from the model never makes a conversation that fits too large, and replaces the summary only.\<close>

lemma smart_digest_stays_in_budget:
  "estimate_tokens js (cr_messages r) \<le> limit \<Longrightarrow>
   estimate_tokens js (cr_messages (apply_smart_digest js r dropped smart limit)) \<le> limit"
  using smart_digest_messages [of js r dropped smart limit] by auto

lemma smart_digest_falls_back:
  "\<forall>m \<in> set (cr_messages r). \<not> is_summary_message m \<Longrightarrow>
   cr_messages (apply_smart_digest js r dropped smart limit) = cr_messages r \<and>
   cm_fallback_reason (cr_metadata (apply_smart_digest js r dropped smart limit)) \<noteq> None"
  using swap_first_none [of "message_text System (render_summary smart)" "cr_messages r"]
  by (simp add: apply_smart_digest_def swap_summary_def fall_back_def)

definition labelled_blocks :: "message list \<Rightarrow> (role \<times> content_block) list" where
  "labelled_blocks ms = concat (map (\<lambda>m. map (Pair (msg_role m)) (msg_content m)) ms)"

fun no_system_pair :: "message list \<Rightarrow> bool" where
  "no_system_pair (a # b # ms) \<longleftrightarrow> \<not> (msg_role a = System \<and> msg_role b = System) \<and> no_system_pair (b # ms)"
| "no_system_pair _ \<longleftrightarrow> True"

lemma no_system_pair_snoc:
  "no_system_pair (xs @ [m]) \<longleftrightarrow> no_system_pair xs \<and> (xs = [] \<or> \<not> (msg_role (last xs) = System \<and> msg_role m = System))"
  by (induction xs rule: no_system_pair.induct) auto

lemma no_system_pair_last: "no_system_pair (xs @ [m]) \<Longrightarrow> msg_role m' = msg_role m \<Longrightarrow> no_system_pair (xs @ [m'])"
  by (simp add: no_system_pair_snoc)

lemma merge_onto_blocks:
  "labelled_blocks (merge_onto out ms) = labelled_blocks out @ labelled_blocks ms \<and>
   (no_system_pair out \<longrightarrow> no_system_pair (merge_onto out ms))"
proof (induction out ms rule: merge_onto.induct)
  case (2 out m ms)
  show ?case
  proof (cases "out \<noteq> [] \<and> msg_role (last out) = System \<and> msg_role m = System")
    case True
    then obtain xs x where out: "out = xs @ [x]" by (metis rev_exhaust)
    with 2 True no_system_pair_last [of xs x] show ?thesis
      by (simp add: labelled_blocks_def)
  next
    case False
    then have "no_system_pair out \<Longrightarrow> no_system_pair (out @ [m])" by (auto simp: no_system_pair_snoc)
    with 2 False show ?thesis by (auto simp: labelled_blocks_def)
  qed
qed (simp add: labelled_blocks_def)

text \<open>Merging leaves every block under its role and in its place, and no two system messages in a row.\<close>

lemma merged_prompt_keeps_every_block:
  "labelled_blocks (merge_consecutive_system ms) = labelled_blocks ms \<and> no_system_pair (merge_consecutive_system ms)"
  using merge_onto_blocks [of "[]" ms] by (simp add: merge_consecutive_system_def labelled_blocks_def)

section \<open>Where the code departs from its comments\<close>

text \<open>
  A message of the user that begins with the summary's title counts as the summary: the digest takes its
  place, and the request is gone from the conversation.
\<close>

definition titled_request :: message where
  "titled_request = message_text User (SUMMARY_TITLE @ replicate 64 CHR ''x'')"

lemma request_with_the_title_is_replaced:
  "let c = compact (\<lambda>_. []) [titled_request] 25 in titled_request \<notin> set c \<and> filter starts_exchange c = []"
  by code_simp

text \<open>
  The same when the message is one of the model's that calls a tool: the call is gone with it, and its result is left
  without one.
\<close>

definition titled_call :: "message list" where
  "titled_call =
     [message_text User ''q'',
      message_new Assistant [Text (SUMMARY_TITLE @ replicate 84 CHR ''x''),
        ToolUse \<lparr>tc_id = ''c1'', tc_name = ''read'', tc_input = JNull, tc_metadata = None\<rparr>],
      message_new Tool [ToolResult \<lparr>tr_use_id = ''c1'', tr_output = ''r'', tr_outcome = Ok, tr_image = None\<rparr>]]"

lemma titled_call_orphans_its_result:
  "conversation_ok titled_call \<and> \<not> conversation_ok (compact (\<lambda>_. []) titled_call 30)"
  by code_simp

text \<open>Shortening an output of a few characters over the limit makes it longer.\<close>

lemma shortening_can_lengthen:
  assumes "240 < length (tr_output r)" and "length (tr_output r) < 288"
    and "fst (truncate_block (ToolResult r)) = ToolResult r'"
  shows "length (tr_output r) < length (tr_output r')"
  using assms by (auto simp: TRUNCATED_OUTPUT_CHARS_def truncate_text_def newline_def)

text \<open>A request that is too large on its own stays as it is: the result is over the budget.\<close>

lemma result_can_exceed_the_budget:
  "1 < estimate_tokens (\<lambda>_. []) (compact (\<lambda>_. []) [message_text User ''a long request''] 1)"
  by code_simp

end
