(* ===== verification/Ops_Inv.thy ===== *)
theory Ops_Inv
  imports Ops
begin

text \<open>
  Every operation of theory \<open>Ops\<close> against the structural invariant: what a batch adds to the
  graph, that the cycle check of an expansion and of a gate's injection never fires on a
  well-formed plan, and that each operation keeps \<open>wf_plan\<close> as long as node ids remain.
\<close>

section \<open>What a batch adds\<close>

text \<open>The node a specification becomes, before its in-batch edges are written.\<close>

definition fresh_node :: "node_spec \<Rightarrow> actor_id \<Rightarrow> node_id list \<Rightarrow> node_id \<Rightarrow> task_node" where
  "fresh_node spec own ups i =
     \<lparr>nid = i, title = spec_title spec, prompt = spec_prompt spec, kind = spec_kind spec,
      owner = own, status = Pending, upstream = sort_dedup ups, artifact = None, reclaims = 0,
      model = spec_model spec\<rparr>"

lemma fresh_node_simps [simp]:
  "nid (fresh_node spec own ups i) = i"
  "kind (fresh_node spec own ups i) = spec_kind spec"
  "owner (fresh_node spec own ups i) = own"
  "status (fresh_node spec own ups i) = Pending"
  "upstream (fresh_node spec own ups i) = sort_dedup ups"
  "artifact (fresh_node spec own ups i) = None"
  by (simp_all add: fresh_node_def)

definition room :: "task_plan \<Rightarrow> nat \<Rightarrow> bool" where
  "room p n \<longleftrightarrow> next_id p + n < 2 ^ 32"

lemma node_plan_insert_fresh:
  "bt_inv (nodes p) \<Longrightarrow>
     node (fst (plan_insert p spec own ups)) j =
       (if j = next_id p then Some (fresh_node spec own ups (next_id p)) else node p j)"
  by (simp add: node_plan_insert fresh_node_def)

lemma insert_all_correct:
  assumes "wf_plan p" "room p (length specs)" "\<forall>u \<in> set inh. node p u \<noteq> None"
    and "insert_all p own inh specs = (q, ids)"
  shows "wf_plan q \<and> ids = [next_id p..<next_id p + length specs]
    \<and> next_id q = next_id p + length specs \<and> mode q = mode p \<and> version q = version p
    \<and> (\<forall>key. replayed_seed q key = replayed_seed p key)
    \<and> (\<forall>j. node q j =
         (if next_id p \<le> j \<and> j < next_id p + length specs
          then Some (fresh_node (specs ! (j - next_id p)) own inh j) else node p j))"
  using assms
proof (induction specs arbitrary: p q ids)
  case Nil
  then show ?case
    by auto
next
  case (Cons s specs)
  define p1 where "p1 = fst (plan_insert p s own inh)"
  obtain ids' where rec: "insert_all p1 own inh specs = (q, ids')" and ids: "ids = next_id p # ids'"
    using Cons.prems(4)
    by (auto simp: p1_def plan_insert_def Let_def split: prod.splits)
  have inv: "bt_inv (nodes p)"
    using Cons.prems(1) by (simp add: wf_planD)
  have wf1: "wf_plan p1"
    unfolding p1_def using Cons.prems(1-3) by (intro wf_plan_insert) (auto simp: room_def)
  have next1: "next_id p1 = next_id p + 1"
    using Cons.prems(2) by (simp add: p1_def plan_simps room_def)
  have n1: "node p1 j = (if j = next_id p then Some (fresh_node s own inh (next_id p)) else node p j)"
    for j
    unfolding p1_def using inv by (rule node_plan_insert_fresh)
  have "room p1 (length specs)"
    using Cons.prems(2) next1 by (simp add: room_def)
  moreover have "\<forall>u \<in> set inh. node p1 u \<noteq> None"
    using Cons.prems(3) n1 by auto
  ultimately have IH: "wf_plan q" "ids' = [next_id p1..<next_id p1 + length specs]"
    "next_id q = next_id p1 + length specs" "mode q = mode p1" "version q = version p1"
    "\<forall>key. replayed_seed q key = replayed_seed p1 key"
    "\<forall>j. node q j = (if next_id p1 \<le> j \<and> j < next_id p1 + length specs
          then Some (fresh_node (specs ! (j - next_id p1)) own inh j) else node p1 j)"
    using Cons.IH [OF wf1 _ _ rec] by blast+
  have node_q: "node q j = (if next_id p \<le> j \<and> j < next_id p + length (s # specs)
          then Some (fresh_node ((s # specs) ! (j - next_id p)) own inh j) else node p j)" for j
  proof (cases "next_id p < j \<and> j < next_id p + length (s # specs)")
    case True
    then have "j - next_id p = Suc (j - next_id p1)"
      using next1 by arith
    with True show ?thesis
      using IH(7) next1 by auto
  next
    case False
    then show ?thesis
      using IH(7) n1 next1 by auto
  qed
  have "ids = [next_id p..<next_id p + length (s # specs)]"
    using ids IH(2) next1 by (simp add: upt_conv_Cons del: upt_Suc)
  with IH node_q next1 show ?case
    by (simp add: p1_def plan_simps)
qed

text \<open>Writing the in-batch edges, one node at a time.\<close>

definition wire_node :: "node_id list \<Rightarrow> node_spec \<Rightarrow> task_node \<Rightarrow> task_node" where
  "wire_node created spec n =
     (let extra = batch_extra created spec (nid n)
      in if extra = [] then n else n\<lparr>upstream := sort_dedup (upstream n @ extra)\<rparr>)"

lemma wire_node_simps [simp]:
  "nid (wire_node c s n) = nid n" "kind (wire_node c s n) = kind n"
  "owner (wire_node c s n) = owner n" "status (wire_node c s n) = status n"
  "artifact (wire_node c s n) = artifact n" "reclaims (wire_node c s n) = reclaims n"
  by (simp_all add: wire_node_def Let_def)

lemma set_upstream_wire_node:
  "set (upstream (wire_node c s n)) = set (upstream n) \<union> set (batch_extra c s (nid n))"
  by (simp add: wire_node_def Let_def)

lemma sorted_upstream_wire_node:
  "sorted_wrt (<) (upstream n) \<Longrightarrow> sorted_wrt (<) (upstream (wire_node c s n))"
  by (simp add: wire_node_def Let_def sorted_sort_dedup)

lemma wire_all_fields:
  "next_id (wire_all p c r) = next_id p \<and> mode (wire_all p c r) = mode p
   \<and> version (wire_all p c r) = version p
   \<and> (bt_inv (nodes p) \<longrightarrow> bt_inv (nodes (wire_all p c r)))
   \<and> bt_inv (applied_seeds (wire_all p c r)) = bt_inv (applied_seeds p)
   \<and> replayed_seed (wire_all p c r) key = replayed_seed p key"
  by (induction p c r rule: wire_all.induct) (auto simp: Let_def plan_simps)

lemma node_wire_all:
  assumes "distinct (map snd r)"
    and "\<forall>(s, i) \<in> set r. \<exists>n. node p i = Some n \<and> nid n = i"
  shows "node (wire_all p c r) j =
    (case map_of (map prod.swap r) j of
       None \<Rightarrow> node p j | Some s \<Rightarrow> map_option (wire_node c s) (node p j))"
  using assms
proof (induction p c r rule: wire_all.induct)
  case (2 p c s i r)
  define p' where "p' = (if batch_extra c s i = [] then p
    else node_mut p i (\<lambda>n. n\<lparr>upstream := sort_dedup (upstream n @ batch_extra c s i)\<rparr>))"
  obtain n where n: "node p i = Some n" "nid n = i"
    using "2.prems"(2) by auto
  have p': "node p' k = (if k = i then Some (wire_node c s n) else node p k)" for k
    using n by (auto simp: p'_def plan_simps wire_node_def Let_def)
  have "\<forall>(s, k) \<in> set r. \<exists>n. node p' k = Some n \<and> nid n = k"
    using "2.prems" p' by force
  with "2.prems"(1) have IH: "node (wire_all p' c r) j =
      (case map_of (map prod.swap r) j of
         None \<Rightarrow> node p' j | Some s \<Rightarrow> map_option (wire_node c s) (node p' j))"
    using "2.IH" [OF refl, folded p'_def] by simp
  have "i \<notin> dom (map_of (map prod.swap r))"
    using "2.prems"(1) by (auto simp: dom_map_of_conv_image_fst image_image)
  then have "map_of (map prod.swap r) i = None"
    by (simp add: domIff)
  with IH p' n show ?case
    by (auto simp: p'_def [symmetric] Let_def split: option.splits)
qed simp

lemma map_swap_zip: "map prod.swap (zip xs ys) = zip ys xs"
  by (induction xs ys rule: list_induct2') simp_all

lemma map_of_zip_upt:
  "length xs = k \<Longrightarrow>
     map_of (map prod.swap (zip xs [m..<m + k])) j =
       (if m \<le> j \<and> j < m + k then Some (xs ! (j - m)) else None)"
proof -
  assume k: "length xs = k"
  have "map prod.swap (zip xs [m..<m + k]) = zip [m..<m + k] xs"
    by (rule map_swap_zip)
  moreover have "map_of (zip [m..<m + k] xs) j =
      (if m \<le> j \<and> j < m + k then Some (xs ! (j - m)) else None)"
  proof (cases "m \<le> j \<and> j < m + k")
    case True
    then have j: "[m..<m + k] ! (j - m) = j" "j - m < length [m..<m + k]"
      by auto
    from map_of_zip_nth [of "[m..<m + k]" xs "j - m"] j k True show ?thesis
      by simp
  next
    case False
    with k show ?thesis
      by (auto simp: map_of_zip_is_None)
  qed
  ultimately show ?thesis
    by simp
qed

text \<open>In-batch dependencies resolve to the ids minted for their positions.\<close>

lemma set_batch_extra:
  assumes "deps_in_range specs" "k < length specs"
  shows "set (batch_extra [m..<m + length specs] (specs ! k) i)
    = {m + d | d. d \<in> set (deps specs k) \<and> m + d \<noteq> i}"
proof -
  have "d < length specs" if "d \<in> set (depends_on_batch (specs ! k))" for d
    using assms that by (auto simp: deps_in_range_def deps_def)
  with assms(2) show ?thesis
    by (auto simp: batch_extra_def deps_def)
qed

definition batch_node ::
  "node_spec list \<Rightarrow> actor_id \<Rightarrow> node_id list \<Rightarrow> nat \<Rightarrow> node_id \<Rightarrow> task_node" where
  "batch_node specs own inh m j =
     wire_node [m..<m + length specs] (specs ! (j - m))
       (fresh_node (specs ! (j - m)) own inh j)"

lemma set_upstream_batch_node:
  assumes "deps_in_range specs" "m \<le> j" "j < m + length specs"
  shows "set (upstream (batch_node specs own inh m j))
    = set inh \<union> {m + d | d. d \<in> set (deps specs (j - m)) \<and> m + d \<noteq> j}"
  using assms by (simp add: batch_node_def set_upstream_wire_node set_batch_extra)

lemma batch_node_simps [simp]:
  "nid (batch_node specs own inh m j) = j"
  "kind (batch_node specs own inh m j) = spec_kind (specs ! (j - m))"
  "owner (batch_node specs own inh m j) = own"
  "status (batch_node specs own inh m j) = Pending"
  "artifact (batch_node specs own inh m j) = None"
  by (simp_all add: batch_node_def)

lemma sorted_upstream_batch_node: "sorted_wrt (<) (upstream (batch_node specs own inh m j))"
  by (simp add: batch_node_def sorted_upstream_wire_node sorted_sort_dedup)

text \<open>The plan after a batch, node by node.\<close>

definition batch_result ::
  "task_plan \<Rightarrow> actor_id \<Rightarrow> node_spec list \<Rightarrow> node_id list \<Rightarrow> task_plan \<Rightarrow> bool" where
  "batch_result p own specs inh q \<longleftrightarrow>
     next_id q = next_id p + length specs \<and> mode q = mode p \<and> version q = version p
     \<and> bt_inv (nodes q) \<and> bt_inv (applied_seeds q)
     \<and> (\<forall>key. replayed_seed q key = replayed_seed p key)
     \<and> (\<forall>j. node q j =
           (if next_id p \<le> j \<and> j < next_id p + length specs
            then Some (batch_node specs own inh (next_id p) j) else node p j))"

lemma insert_batch_result:
  assumes "wf_plan p" "room p (length specs)" "\<forall>u \<in> set inh. node p u \<noteq> None"
  shows "batch_result p own specs inh (fst (insert_batch p own specs inh))"
    and "snd (insert_batch p own specs inh) = [next_id p..<next_id p + length specs]"
proof -
  obtain q ids where q: "insert_all p own inh specs = (q, ids)"
    by (cases "insert_all p own inh specs")
  let ?m = "next_id p" and ?k = "length specs"
  from insert_all_correct [OF assms q] have wfq: "wf_plan q"
    and ids: "ids = [?m..<?m + ?k]"
    and fields: "next_id q = ?m + ?k" "mode q = mode p" "version q = version p"
      "\<And>key. replayed_seed q key = replayed_seed p key"
    and nodes: "\<And>j. node q j = (if ?m \<le> j \<and> j < ?m + ?k
        then Some (fresh_node (specs ! (j - ?m)) own inh j) else node p j)"
    by auto
  show snd: "snd (insert_batch p own specs inh) = [?m..<?m + ?k]"
    by (simp add: insert_batch_def q ids)
  have fst: "fst (insert_batch p own specs inh) = wire_all q ids (zip specs ids)"
    by (simp add: insert_batch_def q)
  have "node (wire_all q ids (zip specs ids)) j =
      (case map_of (map prod.swap (zip specs ids)) j of
         None \<Rightarrow> node q j | Some s \<Rightarrow> map_option (wire_node ids s) (node q j))" for j
  proof (rule node_wire_all)
    show "distinct (map snd (zip specs ids))"
      by (simp add: ids)
    show "\<forall>(s, i) \<in> set (zip specs ids). \<exists>n. node q i = Some n \<and> nid n = i"
      by (auto simp: ids nodes dest!: set_zip_rightD)
  qed
  then have "node (wire_all q ids (zip specs ids)) j =
      (if ?m \<le> j \<and> j < ?m + ?k then Some (batch_node specs own inh ?m j) else node p j)" for j
    by (simp add: ids map_of_zip_upt nodes batch_node_def)
  then show "batch_result p own specs inh (fst (insert_batch p own specs inh))"
    using wfq fields by (simp add: batch_result_def fst wire_all_fields wf_planD)
qed

lemma batch_resultD:
  assumes "batch_result p own specs inh q"
  shows "next_id q = next_id p + length specs" "mode q = mode p" "version q = version p"
    "bt_inv (nodes q)" "bt_inv (applied_seeds q)" "replayed_seed q key = replayed_seed p key"
    "next_id p \<le> j \<Longrightarrow> j < next_id p + length specs \<Longrightarrow>
       node q j = Some (batch_node specs own inh (next_id p) j)"
    "\<not> (next_id p \<le> j \<and> j < next_id p + length specs) \<Longrightarrow> node q j = node p j"
  using assms by (auto simp: batch_result_def)

lemma edges_batch:
  assumes "batch_result p own specs inh q" "deps_in_range specs" "wf_plan p"
  shows "edges q = edges p \<union> {next_id p..<next_id p + length specs} \<times> set inh
    \<union> {(next_id p + k, next_id p + d) | k d. d \<in> set (deps specs k) \<and> d \<noteq> k}"
    (is "_ = _ \<union> ?B \<union> ?N")
proof -
  let ?m = "next_id p"
  have iff: "(a, b) \<in> edges q \<longleftrightarrow> (a, b) \<in> edges p \<union> ?B \<union> ?N" for a b
  proof (cases "?m \<le> a \<and> a < ?m + length specs")
    case True
    then have none: "node p a = None"
      using assms(3) by (simp add: wf_node_fresh)
    from True assms(1) have "(a, b) \<in> edges q \<longleftrightarrow>
        b \<in> set (upstream (batch_node specs own inh ?m a))"
      by (simp add: edges_def batch_resultD(7))
    also have "\<dots> \<longleftrightarrow> b \<in> set inh \<or> (\<exists>d. b = ?m + d \<and> d \<in> set (deps specs (a - ?m)) \<and> ?m + d \<noteq> a)"
      using True by (auto simp: set_upstream_batch_node [OF assms(2)])
    also have "\<dots> \<longleftrightarrow> (a, b) \<in> edges p \<union> ?B \<union> ?N"
      using True none by (force simp: edges_def)
    finally show ?thesis .
  next
    case False
    then have "node q a = node p a"
      using assms(1) by (rule batch_resultD(8) [rotated])
    moreover from False have "(a, b) \<notin> ?N"
      by (auto simp: deps_def split: if_splits)
    ultimately show ?thesis
      using False by (auto simp: edges_def)
  qed
  show ?thesis
    by (rule subset_antisym; rule subrelI) (rule iff [THEN iffD1] iff [THEN iffD2], assumption)+
qed

lemma wf_batch_result:
  assumes br: "batch_result p own specs inh q" and wf: "wf_plan p"
    and rm: "room p (length specs)"
    and inh: "\<forall>u \<in> set inh. node p u \<noteq> None"
    and rng: "deps_in_range specs" and acyc: "acyclic (batch_rel specs)"
  shows "wf_plan q"
proof -
  let ?m = "next_id p" and ?k = "length specs"
  let ?B = "{?m..<?m + ?k} \<times> set inh"
  let ?N = "{(?m + k, ?m + d) | k d. d \<in> set (deps specs k) \<and> d \<noteq> k}"
  have old: "node p j \<noteq> None \<Longrightarrow> j < ?m" for j
    using wf_node_fresh [OF wf, of j] by force
  have "edges p \<subseteq> {..<?m} \<times> {..<?m}"
    using edges_dom [OF wf] old by (fastforce simp: dom_def)
  moreover have "set inh \<subseteq> {..<?m}"
    using old inh by blast
  ultimately have "layered {..<?m} (edges p) ?B ?N"
    by (auto simp: layered_def)
  moreover have "acyclic ?N"
    by (rule acyclic_image [OF acyc, of _ "\<lambda>x. x - ?m"]) (auto simp: batch_rel_def)
  ultimately have ac: "acyclic (edges q)"
    unfolding edges_batch [OF br rng wf] using wf by (intro acyclic_layers) (auto simp: wf_planD)
  have dom: "node q u \<noteq> None" if "node p u \<noteq> None \<or> ?m \<le> u \<and> u < ?m + ?k" for u
    using that batch_resultD(7,8) [OF br, of u] by (cases "?m \<le> u \<and> u < ?m + ?k") auto
  have "wf_node q j n" if n: "node q j = Some n" for j n
  proof (cases "?m \<le> j \<and> j < ?m + ?k")
    case True
    with n br have n: "n = batch_node specs own inh ?m j"
      by (simp add: batch_resultD(7))
    have "node q u \<noteq> None" if "u \<in> set (upstream n)" for u
    proof (rule dom)
      from that True show "node p u \<noteq> None \<or> ?m \<le> u \<and> u < ?m + ?k"
        using inh rng by (auto simp: n set_upstream_batch_node deps_in_range_def)
    qed
    moreover have "0 < j"
      using True wf_planD(3) [OF wf] by simp
    ultimately show ?thesis
      using True n br
      by (auto simp: wf_node_def sorted_upstream_batch_node batch_resultD(1))
  next
    case False
    with n br have "node p j = Some n"
      by (simp add: batch_resultD(8))
    with wf have "wf_node p j n"
      by (simp add: wf_planD)
    then show ?thesis
      by (rule wf_node_cong [rotated 2]) (use dom br in \<open>auto simp: batch_resultD(1)\<close>)
  qed
  then show ?thesis
    using ac br wf rm dom
    by (auto simp: wf_plan_def batch_resultD room_def)
qed

section \<open>Growing a plan\<close>

text \<open>
  \<open>grows p own inh ids q\<close>: \<open>q\<close> is \<open>p\<close> with new pending tasks of \<open>own\<close>, the ids \<open>ids\<close> among
  them, whose only edges into \<open>p\<close> lead to \<open>inh\<close>.
\<close>

definition grows ::
  "task_plan \<Rightarrow> actor_id \<Rightarrow> node_id set \<Rightarrow> node_id set \<Rightarrow> task_plan \<Rightarrow> bool" where
  "grows p own inh ids q \<longleftrightarrow>
     wf_plan q \<and> mode q = mode p \<and> version q = version p
     \<and> (\<forall>key. replayed_seed q key = replayed_seed p key)
     \<and> (\<forall>j. node p j \<noteq> None \<longrightarrow> node q j = node p j)
     \<and> (\<forall>j \<in> ids. node p j = None \<and> node q j \<noteq> None)
     \<and> (\<forall>j n. node p j = None \<and> node q j = Some n \<longrightarrow> status n = Pending \<and> owner n = own)
     \<and> (\<forall>x z. (x, z) \<in> edges q \<and> node p z \<noteq> None \<longrightarrow> (x, z) \<in> edges p \<or> z \<in> inh)"

lemma growsD:
  assumes "grows p own inh ids q"
  shows "wf_plan q" "mode q = mode p" "version q = version p"
    "replayed_seed q key = replayed_seed p key"
    "node p j = Some n \<Longrightarrow> node q j = Some n"
    "j \<in> ids \<Longrightarrow> node p j = None" "j \<in> ids \<Longrightarrow> node q j \<noteq> None"
    "node p j = None \<Longrightarrow> node q j = Some n \<Longrightarrow> status n = Pending \<and> owner n = own"
    "(x, z) \<in> edges q \<Longrightarrow> node p z \<noteq> None \<Longrightarrow> (x, z) \<in> edges p \<or> z \<in> inh"
proof -
  note g = assms [unfolded grows_def]
  show "wf_plan q" "mode q = mode p" "version q = version p"
    "replayed_seed q key = replayed_seed p key"
    using g by simp_all
  show "node p j = Some n \<Longrightarrow> node q j = Some n"
    using g by simp
  show "j \<in> ids \<Longrightarrow> node p j = None" "j \<in> ids \<Longrightarrow> node q j \<noteq> None"
    using g by simp_all
  show "node p j = None \<Longrightarrow> node q j = Some n \<Longrightarrow> status n = Pending \<and> owner n = own"
    using g by simp
  show "(x, z) \<in> edges q \<Longrightarrow> node p z \<noteq> None \<Longrightarrow> (x, z) \<in> edges p \<or> z \<in> inh"
    using g by simp
qed

lemma grows_insert_batch:
  assumes wf: "wf_plan p" and rm: "room p (length specs)"
    and inh: "\<forall>u \<in> set inh. node p u \<noteq> None" and ok: "validate_batch specs = Inr ()"
    and eq: "insert_batch p own specs inh = (q, created)"
  shows "grows p own (set inh) (set created) q"
    and "created = [next_id p..<next_id p + length specs]"
    and "next_id q = next_id p + length specs"
proof -
  let ?m = "next_id p"
  have br: "batch_result p own specs inh q" and
    created: "created = [?m..<?m + length specs]"
    using insert_batch_result [OF wf rm inh, of own] eq by simp_all
  have rng: "deps_in_range specs" and ac: "acyclic (batch_rel specs)"
    using ok by (simp_all add: validate_batch_iff)
  have wfq: "wf_plan q"
    by (rule wf_batch_result [OF br wf rm inh rng ac])
  have old: "node p j \<noteq> None \<Longrightarrow> j < ?m" for j
    using wf_node_fresh [OF wf, of j] by force
  have same: "node p j \<noteq> None \<Longrightarrow> node q j = node p j" for j
    using old [of j] by (intro batch_resultD(8) [OF br]) auto
  have new: "node p j = None" "node q j \<noteq> None" if "j \<in> set created" for j
    using that wf_node_fresh [OF wf, of j] batch_resultD(7) [OF br, of j] by (auto simp: created)
  have pend: "status n = Pending \<and> owner n = own"
    if "node p j = None" "node q j = Some n" for j n
    using that batch_resultD(7,8) [OF br, of j]
    by (cases "?m \<le> j \<and> j < ?m + length specs") auto
  have down: "(x, z) \<in> edges p \<or> z \<in> set inh" if "(x, z) \<in> edges q" "node p z \<noteq> None" for x z
    using that old [of z] by (auto simp: edges_batch [OF br rng wf])
  show "grows p own (set inh) (set created) q"
    unfolding grows_def using wfq br same new pend down by (auto simp: batch_resultD)
  show "created = [?m..<?m + length specs]"
    by (rule created)
  show "next_id q = ?m + length specs"
    using br by (rule batch_resultD(1))
qed

lemma grows_gate_over:
  assumes g: "grows p own inh ids q" and rm: "room q 1"
    and over: "\<forall>u \<in> set over. u \<in> ids"
    and eq: "gate_over q own t pr over = (r, gate)"
  shows "grows p own inh (ids \<union> set_option gate) r"
    and "gate \<noteq> None \<longleftrightarrow> is_deep (mode p)"
proof -
  show deep: "gate \<noteq> None \<longleftrightarrow> is_deep (mode p)"
    using eq growsD(2) [OF g] by (auto simp: gate_over_def Let_def split: if_splits prod.splits)
  show "grows p own inh (ids \<union> set_option gate) r"
  proof (cases "is_deep (mode q)")
    case False
    with eq g show ?thesis
      by (simp add: gate_over_def)
  next
    case True
    let ?g = "next_id q"
    have r: "r = fst (plan_insert q (spec_gate t pr) own over)" and gate: "gate = Some ?g"
      using True eq
      by (auto simp: gate_over_def append_gate_def plan_insert_def Let_def)
    have wfq: "wf_plan q"
      using g by (rule growsD)
    then have inv: "bt_inv (nodes q)"
      by (simp add: wf_planD)
    have fresh: "node q ?g = None"
      using wfq by (simp add: wf_node_fresh)
    then have fresh_p: "node p ?g = None"
      using growsD(5) [OF g, of ?g] by (cases "node p ?g") auto
    have ex: "\<forall>u \<in> set over. node q u \<noteq> None"
      using over growsD(7) [OF g] by blast
    have wfr: "wf_plan r"
      unfolding r using wfq rm ex by (intro wf_plan_insert) (auto simp: room_def)
    have nr: "node r j = (if j = ?g then Some (fresh_node (spec_gate t pr) own over ?g)
        else node q j)" for j
      unfolding r using inv by (rule node_plan_insert_fresh)
    have down: "(x, z) \<in> edges p \<or> z \<in> inh" if "(x, z) \<in> edges r" "node p z \<noteq> None" for x z
    proof (cases "x = ?g")
      case True
      with that(1) over have "z \<in> ids"
        by (auto simp: edges_def nr)
      with growsD(6) [OF g, of z] that(2) show ?thesis
        by simp
    next
      case False
      with that(1) have "(x, z) \<in> edges q"
        by (auto simp: edges_def nr)
      with that(2) show ?thesis
        using growsD(9) [OF g] by blast
    qed
    have same: "node p j \<noteq> None \<Longrightarrow> node r j = node p j" for j
      using fresh_p growsD(5) [OF g, of j] by (auto simp: nr)
    have new: "node p j = None \<and> node r j \<noteq> None" if "j \<in> ids \<union> set_option gate" for j
      using that fresh_p growsD(6,7) [OF g, of j] by (auto simp: nr gate)
    have pend: "status n = Pending \<and> owner n = own" if "node p j = None" "node r j = Some n" for j n
      using that growsD(8) [OF g, of j n] by (auto simp: nr split: if_splits)
    show ?thesis
      unfolding grows_def using wfr same new pend down growsD(2-4) [OF g]
      by (auto simp: r plan_simps)
  qed
qed

text \<open>Nothing new reaches the node whose dependencies the batch inherits.\<close>

lemma grows_no_return:
  assumes g: "grows p own (set (upstream target)) ids q" and wf: "wf_plan p"
    and i: "node p i = Some target" and u: "u \<in> ids"
  shows "(u, i) \<notin> (edges q)\<^sup>*"
proof
  assume "(u, i) \<in> (edges q)\<^sup>*"
  then have "(u, i) \<in> (edges p)\<^sup>* \<and> node p u \<noteq> None"
  proof (induction rule: converse_rtrancl_induct)
    case base
    with i show ?case
      by simp
  next
    case (step x z)
    then have "(x, z) \<in> edges p \<or> z \<in> set (upstream target)"
      using growsD(9) [OF g] by blast
    then show ?case
    proof
      assume "(x, z) \<in> edges p"
      with step.IH show ?thesis
        by (auto intro: converse_rtrancl_into_rtrancl simp: edges_def)
    next
      assume "z \<in> set (upstream target)"
      with i have "(i, z) \<in> edges p"
        by (simp add: edges_Some)
      with step.IH have "(i, i) \<in> (edges p)\<^sup>+"
        by (auto intro: rtrancl_into_trancl2)
      with wf show ?thesis
        by (auto simp: acyclic_def dest: wf_planD(5))
    qed
  qed
  with growsD(6) [OF g u] show False
    by simp
qed

lemma ensure_no_cycles_ok:
  "\<forall>u \<in> set ups. (u, i) \<notin> (edges p)\<^sup>* \<Longrightarrow> ensure_no_cycles p i ups = Inr ()"
  by (induction ups)
    (auto simp: ensure_no_cycle_def depends_transitively_on_iff dest: trancl_into_rtrancl)

section \<open>The outcome of each operation\<close>

lemma require_mutableD:
  "require_mutable p i actor = Inr t \<Longrightarrow>
     node p i = Some t \<and> \<not> node_is_terminal t \<and> (owner t = actor \<or> assignee t = Some actor)"
  by (auto simp: require_mutable_def split: option.splits if_splits)

lemma require_mutable_Inl:
  "require_mutable p i actor = Inl e \<Longrightarrow> \<forall>a b. e \<noteq> WouldCycle a b"
  by (auto simp: require_mutable_def split: option.splits if_splits)

lemma validate_batch_Inl: "validate_batch specs = Inl e \<Longrightarrow> \<forall>a b. e \<noteq> WouldCycle a b"
  by (rule validate_batch_cases [of specs]) auto

text \<open>Every refusal that comes before the plan is touched.\<close>

definition early_refusal :: "plan_error \<Rightarrow> bool" where
  "early_refusal e \<longleftrightarrow> (\<forall>a b. e \<noteq> WouldCycle a b)"

lemma seed_cases:
  assumes wf: "wf_plan p" and rm: "room p (length specs + 1)"
  obtains (refused) e where "seed p actor key specs = (p, Inl e)" "early_refusal e"
  | (replay) ids r where "replayed_seed p key = Some ids"
      "seed p actor key specs = (p, Inr r)" "replayed r"
  | (grown) p2 created gate where
      "replayed_seed p key = None" "specs \<noteq> []" "validate_batch specs = Inr ()"
      "grows p actor {} (set created \<union> set_option gate) p2"
      "created = [next_id p..<next_id p + length specs]"
      "gate \<noteq> None \<longleftrightarrow> is_deep (mode p)"
      "seed p actor key specs =
         (bump_version (record_seed p2 key (created @ (case gate of None \<Rightarrow> [] | Some g \<Rightarrow> [g]))),
          Inr \<lparr>seeded_nodes = created, seeded_gate = gate, replayed = False\<rparr>)"
proof (cases "replayed_seed p key")
  case (Some ids)
  with replay show thesis
    by (auto simp: seed_def)
next
  case None
  show thesis
  proof (cases "specs = [] \<or> (\<exists>e. validate_batch specs = Inl e)")
    case True
    with None validate_batch_Inl [of specs]
    have "\<exists>e. seed p actor key specs = (p, Inl e) \<and> early_refusal e"
      by (cases "specs = []") (auto simp: seed_def early_refusal_def)
    with refused show thesis
      by blast
  next
    case False
    then have ok: "validate_batch specs = Inr ()"
      by (cases "validate_batch specs") auto
    obtain p1 created where ib: "insert_batch p actor specs [] = (p1, created)"
      by fastforce
    obtain p2 gate where go: "gate_over p1 actor ''Plan review'' seed_gate_prompt created
        = (p2, gate)"
      by fastforce
    have "room p (length specs)"
      using rm by (simp add: room_def)
    from grows_insert_batch [OF wf this _ ok ib] have g1: "grows p actor {} (set created) p1"
      and c: "created = [next_id p..<next_id p + length specs]"
      and n1: "next_id p1 = next_id p + length specs"
      by simp_all
    have "room p1 1"
      using rm n1 by (simp add: room_def)
    from grows_gate_over [OF g1 this _ go] have "grows p actor {} (set created \<union> set_option gate) p2"
      and "gate \<noteq> None \<longleftrightarrow> is_deep (mode p)"
      by simp_all
    with None False ok ib go c grown show thesis
      by (simp add: seed_def Let_def)
  qed
qed

lemma expand_node_cases:
  assumes wf: "wf_plan p" and rm: "room p (length specs + 1)"
  obtains (refused) e where "expand_node p i actor specs = (p, Inl e)" "early_refusal e"
  | (grown) target p2 created gate where
      "require_mutable p i actor = Inr target" "specs \<noteq> []" "validate_batch specs = Inr ()"
      "grows p actor (set (upstream target)) (set created \<union> set_option gate) p2"
      "created = [next_id p..<next_id p + length specs]"
      "gate \<noteq> None \<longleftrightarrow> is_deep (mode p)"
      "expand_node p i actor specs =
         (bump_version (node_mut p2 i (\<lambda>n. n\<lparr>upstream :=
            sort_dedup (case gate of None \<Rightarrow> created | Some g \<Rightarrow> [g]), status := Pending\<rparr>)),
          Inr \<lparr>children = created, expanded_gate = gate\<rparr>)"
proof (cases "require_mutable p i actor")
  case (Inl e)
  with require_mutable_Inl refused show thesis
    by (auto simp: expand_node_def early_refusal_def)
next
  case (Inr target)
  show thesis
  proof (cases "specs = [] \<or> (\<exists>e. validate_batch specs = Inl e)")
    case True
    with Inr validate_batch_Inl [of specs]
    have "\<exists>e. expand_node p i actor specs = (p, Inl e) \<and> early_refusal e"
      by (cases "specs = []") (auto simp: expand_node_def early_refusal_def)
    with refused show thesis
      by blast
  next
    case False
    then have ok: "validate_batch specs = Inr ()"
      by (cases "validate_batch specs") auto
    obtain p1 created where ib: "insert_batch p actor specs (upstream target) = (p1, created)"
      by fastforce
    obtain p2 gate where go: "gate_over p1 actor ''Sub-plan review'' expand_gate_prompt created
        = (p2, gate)"
      by fastforce
    have i: "node p i = Some target"
      using Inr by (simp add: require_mutableD)
    have inh: "\<forall>u \<in> set (upstream target). node p u \<noteq> None"
      using wf i by (auto simp: wf_node_def dest!: wf_planD(6))
    have "room p (length specs)"
      using rm by (simp add: room_def)
    from grows_insert_batch [OF wf this inh ok ib]
    have g1: "grows p actor (set (upstream target)) (set created) p1"
      and c: "created = [next_id p..<next_id p + length specs]"
      and n1: "next_id p1 = next_id p + length specs"
      by simp_all
    have "room p1 1"
      using rm n1 by (simp add: room_def)
    from grows_gate_over [OF g1 this _ go]
    have g2: "grows p actor (set (upstream target)) (set created \<union> set_option gate) p2"
      and deep: "gate \<noteq> None \<longleftrightarrow> is_deep (mode p)"
      by simp_all
    have "ensure_no_cycles p2 i (case gate of None \<Rightarrow> created | Some g \<Rightarrow> [g]) = Inr ()"
      using grows_no_return [OF g2 wf i]
      by (intro ensure_no_cycles_ok) (auto split: option.splits)
    with Inr False ok ib go have eq: "expand_node p i actor specs =
         (bump_version (node_mut p2 i (\<lambda>n. n\<lparr>upstream :=
            sort_dedup (case gate of None \<Rightarrow> created | Some g \<Rightarrow> [g]), status := Pending\<rparr>)),
          Inr \<lparr>children = created, expanded_gate = gate\<rparr>)"
      by (simp add: expand_node_def)
    from False have "specs \<noteq> []"
      by simp
    from grown [OF Inr this ok g2 c deep eq] show thesis .
  qed
qed

lemma inject_from_gate_cases:
  assumes wf: "wf_plan p" and rm: "room p (length specs)"
  obtains (refused) e where "inject_from_gate p g actor specs = (p, Inl e)" "early_refusal e"
  | (grown) target p1 injected where
      "require_mutable p g actor = Inr target" "kind target = Gate" "specs \<noteq> []"
      "validate_batch specs = Inr ()"
      "grows p actor (set (upstream target)) (set injected) p1"
      "injected = [next_id p..<next_id p + length specs]"
      "inject_from_gate p g actor specs =
         (bump_version (node_mut p1 g (\<lambda>n. n\<lparr>upstream := sort_dedup (upstream n @ injected),
            status := Pending\<rparr>)), Inr injected)"
proof (cases "require_mutable p g actor")
  case (Inl e)
  with require_mutable_Inl refused show thesis
    by (auto simp: inject_from_gate_def early_refusal_def)
next
  case (Inr target)
  show thesis
  proof (cases "kind target \<noteq> Gate \<or> specs = [] \<or> (\<exists>e. validate_batch specs = Inl e)")
    case True
    with Inr validate_batch_Inl [of specs]
    have "\<exists>e. inject_from_gate p g actor specs = (p, Inl e) \<and> early_refusal e"
      by (cases "kind target = Gate"; cases "specs = []")
        (auto simp: inject_from_gate_def early_refusal_def)
    with refused show thesis
      by blast
  next
    case False
    then have ok: "validate_batch specs = Inr ()"
      by (cases "validate_batch specs") auto
    obtain p1 injected where ib: "insert_batch p actor specs (upstream target) = (p1, injected)"
      by fastforce
    have i: "node p g = Some target"
      using Inr by (simp add: require_mutableD)
    have inh: "\<forall>u \<in> set (upstream target). node p u \<noteq> None"
      using wf i by (auto simp: wf_node_def dest!: wf_planD(6))
    from grows_insert_batch [OF wf rm inh ok ib]
    have g1: "grows p actor (set (upstream target)) (set injected) p1"
      and c: "injected = [next_id p..<next_id p + length specs]"
      by simp_all
    have "ensure_no_cycles p1 g injected = Inr ()"
      using grows_no_return [OF g1 wf i] by (intro ensure_no_cycles_ok) auto
    with Inr False ok ib c g1 grown show thesis
      by (simp add: inject_from_gate_def Let_def)
  qed
qed

section \<open>The invariant is kept\<close>

lemma wf_seed: "wf_plan p \<Longrightarrow> room p (length specs + 1) \<Longrightarrow> wf_plan (fst (seed p actor key specs))"
proof (rule seed_cases [of p specs actor key])
  fix p2 created gate
  assume g: "grows p actor {} (set created \<union> set_option gate) p2"
    and eq: "seed p actor key specs =
         (bump_version (record_seed p2 key (created @ (case gate of None \<Rightarrow> [] | Some g \<Rightarrow> [g]))),
          Inr \<lparr>seeded_nodes = created, seeded_gate = gate, replayed = False\<rparr>)"
  have "wf_plan (record_seed p2 key (created @ (case gate of None \<Rightarrow> [] | Some g \<Rightarrow> [g])))"
    using growsD(1,7) [OF g] by (intro wf_record_seed) (auto split: option.splits)
  then show ?thesis
    by (simp add: eq)
qed auto

lemma wf_after_grow:
  assumes g: "grows p actor (set (upstream target)) ids p2" and wf: "wf_plan p"
    and t: "require_mutable p i actor = Inr target"
    and f: "f target = target\<lparr>upstream := sort_dedup ups, status := Pending\<rparr>"
    and ups: "set ups \<subseteq> ids \<union> set (upstream target)"
  shows "wf_plan (node_mut p2 i f)"
proof (rule wf_node_mut_upstream [of p2 i target f "sort_dedup ups"])
  have i: "node p i = Some target" and nt: "\<not> node_is_terminal target"
    using require_mutableD [OF t] by auto
  show "wf_plan p2"
    using g by (rule growsD)
  show "node p2 i = Some target"
    using growsD(5) [OF g i] .
  have wft: "wf_node p i target"
    using wf i by (rule wf_planD)
  then show "artifact (f target) \<noteq> None \<longleftrightarrow> status (f target) = Complete"
    using nt by (auto simp: f wf_node_def node_is_terminal_def)
  have old: "node p u \<noteq> None" if "u \<in> set (upstream target)" for u
    using that wft by (auto simp: wf_node_def)
  show "\<forall>u \<in> set (sort_dedup ups). node p2 u \<noteq> None"
  proof
    fix u assume "u \<in> set (sort_dedup ups)"
    then consider "u \<in> ids" | "u \<in> set (upstream target)"
      using ups by auto
    then show "node p2 u \<noteq> None"
      using growsD(5) [OF g, of u] growsD(7) [OF g, of u] old [of u] by cases auto
  qed
  show "(u, i) \<notin> (edges p2)\<^sup>*" if "u \<in> set (sort_dedup ups)" for u
  proof (cases "u \<in> ids")
    case True
    then show ?thesis
      by (rule grows_no_return [OF g wf i])
  next
    case False
    with that ups have "u \<in> set (upstream target)"
      by auto
    with \<open>node p2 i = Some target\<close> have "(i, u) \<in> edges p2"
      by (simp add: edges_Some)
    then show ?thesis
      using wf_planD(5) [OF \<open>wf_plan p2\<close>] by (meson acyclic_def rtrancl_into_trancl2)
  qed
qed (simp_all add: f sorted_sort_dedup)

lemma wf_expand_node:
  "wf_plan p \<Longrightarrow> room p (length specs + 1) \<Longrightarrow> wf_plan (fst (expand_node p i actor specs))"
  by (rule expand_node_cases [of p specs i actor])
    (auto intro!: wf_after_grow split: option.splits)

lemma wf_inject_from_gate:
  assumes "wf_plan p" "room p (length specs)"
  shows "wf_plan (fst (inject_from_gate p g actor specs))"
proof (rule inject_from_gate_cases [OF assms, of g actor])
  fix target p1 injected
  assume t: "require_mutable p g actor = Inr target"
    and g1: "grows p actor (set (upstream target)) (set injected) p1"
    and eq: "inject_from_gate p g actor specs =
         (bump_version (node_mut p1 g (\<lambda>n. n\<lparr>upstream := sort_dedup (upstream n @ injected),
            status := Pending\<rparr>)), Inr injected)"
  have "wf_plan (node_mut p1 g (\<lambda>n. n\<lparr>upstream := sort_dedup (upstream n @ injected),
      status := Pending\<rparr>))"
    by (rule wf_after_grow [OF g1 assms(1) t, where ups = "upstream target @ injected"]) auto
  then show ?thesis
    by (simp add: eq)
qed (use assms in auto)

text \<open>The operations that write one node's status.\<close>

lemma wf_status_write:
  assumes "wf_plan p" "node p i = Some t" "\<not> node_is_terminal t"
    and f: "\<And>n. nid (f n) = nid n \<and> upstream (f n) = upstream n \<and> artifact (f n) = artifact n
      \<and> status (f n) \<noteq> Complete"
  shows "wf_plan (bump_version (node_mut p i f))"
  using wf_planD(6) [OF assms(1,2)] assms
  by (auto simp: keeps_shape_def wf_node_def node_is_terminal_def intro!: wf_node_mut_shape)

lemma wf_complete_node: "wf_plan p \<Longrightarrow> wf_plan (fst (complete_node p i actor art))"
  by (auto simp: complete_node_def keeps_shape_def intro!: wf_node_mut_shape
      split: option.splits sum.splits)

lemma wf_fail_node: "wf_plan p \<Longrightarrow> wf_plan (fst (fail_node p i actor reason))"
  by (auto simp: fail_node_def simp del: wf_bump_version intro: wf_status_write
      dest!: require_mutableD split: sum.splits)

lemma wf_abandon_node: "wf_plan p \<Longrightarrow> wf_plan (fst (abandon_node p i actor reason))"
  by (auto simp: abandon_node_def simp del: wf_bump_version intro: wf_status_write
      split: option.splits)

lemma wf_salvage_assignment: "wf_plan p \<Longrightarrow> wf_plan (fst (salvage_assignment p i limit))"
  by (auto simp: salvage_assignment_def Let_def simp del: wf_bump_version
      intro: wf_status_write split: option.splits)

lemma wf_salvage_all: "wf_plan p \<Longrightarrow> wf_plan (fst (salvage_all p limit ids))"
proof (induction ids arbitrary: p)
  case (Cons i ids)
  then show ?case
    using wf_salvage_assignment [of p i limit]
    by (cases "salvage_assignment p i limit") (auto simp: split_beta)
qed simp

lemma wf_salvage_actor: "wf_plan p \<Longrightarrow> wf_plan (fst (salvage_actor p actor limit))"
  by (simp add: salvage_actor_def wf_salvage_all)

end
