(* ===== verification/Schedule_Inv.thy ===== *)
theory Schedule_Inv
  imports Ops_Inv Schedule
begin

text \<open>
  What scheduling guarantees: readiness is the completion of everything upstream, the sweep
  abandons exactly the tasks that can never start, and a well-formed plan with nothing in
  flight and nothing doomed always has a task that can start.
\<close>

section \<open>Readiness\<close>

lemma no_blocks_no_waits:
  "filter (up_blocks p) us = [] \<and> filter (up_waits p) us = []
     \<longleftrightarrow> (\<forall>u \<in> set us. \<exists>m. node p u = Some m \<and> status m = Complete)"
  by (auto simp: filter_empty_conv up_blocks_def up_waits_def split: option.splits)

lemma readiness_Ready_iff:
  "readiness_of p i = Inr Ready \<longleftrightarrow>
     (\<exists>n. node p i = Some n \<and> status n = Pending
        \<and> (\<forall>u \<in> set (upstream n). \<exists>m. node p u = Some m \<and> status m = Complete))"
  unfolding no_blocks_no_waits [symmetric]
  by (auto simp: readiness_of_def Let_def split: option.splits)

lemma readiness_Blocked_iff:
  "is_blocked (readiness_of p i) \<longleftrightarrow>
     (\<exists>n. node p i = Some n \<and> status n = Pending \<and> (\<exists>u \<in> set (upstream n). up_blocks p u))"
  by (auto simp: is_blocked_iff readiness_of_def Let_def filter_empty_conv
      split: option.splits if_splits)

lemma ready_nodes_iff:
  "wf_plan p \<Longrightarrow> i \<in> set (ready_nodes p) \<longleftrightarrow> readiness_of p i = Inr Ready"
  by (force simp: ready_nodes_def plan_nodes_iff readiness_Ready_iff wf_node_def
      dest: wf_planD(6))

lemma blocked_nodes_iff:
  "wf_plan p \<Longrightarrow> i \<in> set (blocked_nodes p) \<longleftrightarrow> is_blocked (readiness_of p i)"
  by (force simp: blocked_nodes_def plan_nodes_iff readiness_Blocked_iff wf_node_def
      dest: wf_planD(6))

lemma sorted_ready_nodes: "wf_plan p \<Longrightarrow> sorted_wrt (<) (ready_nodes p)"
  unfolding ready_nodes_def by (rule sorted_filter_nids)

section \<open>The sweep\<close>

text \<open>A pending task that can never start: something upstream is dead, or doomed itself.\<close>

inductive doomed :: "task_plan \<Rightarrow> node_id \<Rightarrow> bool" for p where
  dead_upstream: "node p i = Some n \<Longrightarrow> status n = Pending \<Longrightarrow> u \<in> set (upstream n) \<Longrightarrow>
    up_blocks p u \<Longrightarrow> doomed p i"
| doomed_upstream: "node p i = Some n \<Longrightarrow> status n = Pending \<Longrightarrow> u \<in> set (upstream n) \<Longrightarrow>
    doomed p u \<Longrightarrow> doomed p i"

inductive_cases doomedE: "doomed p i"

lemma doomed_pending: "doomed p i \<Longrightarrow> \<exists>n. node p i = Some n \<and> status n = Pending"
  by (auto elim: doomedE)

text \<open>\<open>swept p q ids\<close>: \<open>q\<close> is \<open>p\<close> with the pending tasks \<open>ids\<close> abandoned.\<close>

definition swept :: "task_plan \<Rightarrow> task_plan \<Rightarrow> node_id set \<Rightarrow> bool" where
  "swept p q ids \<longleftrightarrow>
     next_id q = next_id p \<and> mode q = mode p
     \<and> (\<forall>key. replayed_seed q key = replayed_seed p key)
     \<and> (\<forall>i. i \<notin> ids \<longrightarrow> node q i = node p i)
     \<and> (\<forall>i \<in> ids. \<exists>n r. node p i = Some n \<and> status n = Pending
           \<and> node q i = Some (n\<lparr>status := Abandoned r\<rparr>))"

lemma sweptD:
  assumes "swept p q ids"
  shows "i \<in> ids \<Longrightarrow> \<exists>n r. node p i = Some n \<and> node q i = Some (n\<lparr>status := Abandoned r\<rparr>)"
    and "i \<notin> ids \<Longrightarrow> node q i = node p i"
proof -
  note sw = assms [unfolded swept_def]
  show "\<exists>n r. node p i = Some n \<and> node q i = Some (n\<lparr>status := Abandoned r\<rparr>)" if "i \<in> ids"
    using sw that by fast
  show "node q i = node p i" if "i \<notin> ids"
    using sw that by simp
qed

lemma swept_refl: "swept p p {}"
  by (simp add: swept_def)

lemma swept_bump: "swept p q ids \<Longrightarrow> swept p (bump_version q) ids"
  by (simp add: swept_def plan_simps)

lemma swept_pending_notin:
  assumes "swept p q ids" "node q i = Some n" "status n = Pending"
  shows "i \<notin> ids" "node p i = Some n"
proof -
  show "i \<notin> ids"
  proof
    assume "i \<in> ids"
    with assms(1) obtain m r where "node q i = Some (m\<lparr>status := Abandoned r\<rparr>)"
      unfolding swept_def by blast
    with assms show False
      by auto
  qed
  with assms show "node p i = Some n"
    by (simp add: swept_def)
qed

lemma swept_abandon:
  assumes "swept p q ids" "node q i = Some n" "status n = Pending"
  shows "swept p (node_mut q i (\<lambda>n. n\<lparr>status := Abandoned r\<rparr>)) (insert i ids)"
proof -
  note i = swept_pending_notin [OF assms]
  with assms show ?thesis
    unfolding swept_def by (auto simp: plan_simps)
qed

lemma swept_blocks:
  "swept p q ids \<Longrightarrow> up_blocks q u \<longleftrightarrow> up_blocks p u \<or> u \<in> ids"
  by (cases "u \<in> ids") (fastforce simp: swept_def up_blocks_def)+

lemma swept_doomed:
  assumes sw: "swept p q ids" and ids: "\<forall>i \<in> ids. doomed p i"
    and b: "is_blocked (readiness_of q i)"
  shows "doomed p i"
proof -
  from b obtain n u where n: "node q i = Some n" "status n = Pending" "u \<in> set (upstream n)"
    "up_blocks q u"
    by (auto simp: readiness_Blocked_iff)
  from swept_pending_notin(2) [OF sw n(1,2)] have "node p i = Some n" .
  with n sw ids show ?thesis
    by (auto simp: swept_blocks intro: doomed.intros)
qed

lemma cascade_wave_skip:
  "\<not> is_blocked (readiness_of q i) \<Longrightarrow> cascade_wave q (i # wave) = cascade_wave q wave"
  by (simp add: is_blocked_def split: sum.splits readiness.splits)

lemma cascade_wave_take:
  "readiness_of q i = Inr (Blocked b) \<Longrightarrow>
     fst (cascade_wave q (i # wave)) =
       fst (cascade_wave (node_mut q i (\<lambda>n. n\<lparr>status := Abandoned (blocked_reason b)\<rparr>)) wave)
     \<and> snd (cascade_wave q (i # wave)) =
       i # snd (cascade_wave (node_mut q i (\<lambda>n. n\<lparr>status := Abandoned (blocked_reason b)\<rparr>)) wave)"
  by (simp add: Let_def split_beta)

lemma cascade_wave_swept:
  assumes "swept p q ids" "\<forall>i \<in> ids. doomed p i"
  shows "swept p (fst (cascade_wave q wave)) (ids \<union> set (snd (cascade_wave q wave)))
    \<and> (\<forall>i \<in> set (snd (cascade_wave q wave)). doomed p i)
    \<and> distinct (snd (cascade_wave q wave)) \<and> ids \<inter> set (snd (cascade_wave q wave)) = {}"
  using assms
proof (induction wave arbitrary: q ids)
  case (Cons i wave)
  show ?case
  proof (cases "is_blocked (readiness_of q i)")
    case False
    with Cons show ?thesis
      by (simp add: cascade_wave_skip del: cascade_wave.simps)
  next
    case True
    then obtain b where b: "readiness_of q i = Inr (Blocked b)"
      by (auto simp: is_blocked_iff)
    then obtain n where n: "node q i = Some n" "status n = Pending"
      using readiness_of_BlockedD by blast
    let ?q1 = "node_mut q i (\<lambda>n. n\<lparr>status := Abandoned (blocked_reason b)\<rparr>)"
    have notin: "i \<notin> ids"
      using swept_pending_notin(1) [OF Cons.prems(1) n] .
    have sw: "swept p ?q1 (insert i ids)"
      using Cons.prems(1) n by (intro swept_abandon)
    have d: "\<forall>j \<in> insert i ids. doomed p j"
      using Cons.prems swept_doomed [OF _ _ True] by auto
    define w where "w = cascade_wave ?q1 wave"
    have "fst (cascade_wave q (i # wave)) = fst w" "snd (cascade_wave q (i # wave)) = i # snd w"
      using cascade_wave_take [OF b, of wave] by (simp_all only: w_def)
    moreover note Cons.IH [OF sw d, folded w_def]
    ultimately show ?thesis
      using d notin by (simp del: cascade_wave.simps)
  qed
qed simp

lemma cascade_loop_swept:
  assumes "swept p q (set ab)" "\<forall>i \<in> set ab. doomed p i" "distinct ab"
  shows "swept p (fst (cascade_loop q ab)) (set (snd (cascade_loop q ab)))
    \<and> (\<forall>i \<in> set (snd (cascade_loop q ab)). doomed p i) \<and> distinct (snd (cascade_loop q ab))
    \<and> blocked_nodes (fst (cascade_loop q ab)) = []"
  using assms
proof (induction q ab rule: cascade_loop.induct)
  case (1 q ab)
  show ?case
  proof (cases "blocked_nodes q = []")
    case True
    with 1 show ?thesis
      by (simp add: cascade_loop.simps [of q ab])
  next
    case False
    let ?w = "cascade_wave q (blocked_nodes q)"
    from cascade_wave_swept [OF "1.prems"(1,2), of "blocked_nodes q"]
    have "swept p (bump_version (fst ?w)) (set (ab @ snd ?w))"
      "\<forall>i \<in> set (ab @ snd ?w). doomed p i" "distinct (ab @ snd ?w)"
      using "1.prems" by (auto intro: swept_bump)
    with "1.IH" [OF False] False show ?thesis
      by (simp add: cascade_loop.simps [of q ab])
  qed
qed

lemma swept_wf:
  assumes sw: "swept p q ids" and wf: "wf_plan p"
    and inv: "bt_inv (nodes q)" "bt_inv (applied_seeds q)"
  shows "wf_plan q"
proof -
  have shape: "\<exists>m. node p i = Some m \<and> upstream n = upstream m \<and> nid n = nid m
      \<and> artifact n = artifact m \<and> (status n = Complete \<longleftrightarrow> status m = Complete)"
    if "node q i = Some n" for i n
    using sw that by (cases "i \<in> ids") (fastforce simp: swept_def)+
  have some: "node q i \<noteq> None \<longleftrightarrow> node p i \<noteq> None" for i
    using sw by (cases "i \<in> ids") (fastforce simp: swept_def)+
  have "edges q \<subseteq> edges p"
    using shape by (fastforce simp: edges_def)
  then have "acyclic (edges q)"
    using wf_planD(5) [OF wf] acyclic_subset by blast
  moreover have "wf_node q i n" if "node q i = Some n" for i n
    using shape [OF that] wf_planD(6) [OF wf] sw some
    by (fastforce simp: wf_node_def swept_def)
  moreover have "next_id q = next_id p" "\<And>key. replayed_seed q key = replayed_seed p key"
    using sw by (auto simp: swept_def)
  ultimately show ?thesis
    using inv wf_planD [OF wf] some unfolding wf_plan_def by metis
qed

lemma cascade_wave_inv:
  "bt_inv (nodes q) \<and> bt_inv (applied_seeds q) \<Longrightarrow>
   bt_inv (nodes (fst (cascade_wave q w))) \<and> bt_inv (applied_seeds (fst (cascade_wave q w)))"
proof (induction w arbitrary: q)
  case (Cons i w)
  show ?case
  proof (cases "is_blocked (readiness_of q i)")
    case False
    then show ?thesis using Cons by (simp add: cascade_wave_skip del: cascade_wave.simps)
  next
    case True
    then obtain b where "readiness_of q i = Inr (Blocked b)" by (auto simp: is_blocked_iff)
    from cascade_wave_take [OF this] Cons show ?thesis by (simp add: plan_simps del: cascade_wave.simps)
  qed
qed simp

lemma cascade_loop_inv:
  "bt_inv (nodes q) \<and> bt_inv (applied_seeds q) \<Longrightarrow>
   bt_inv (nodes (fst (cascade_loop q ab))) \<and> bt_inv (applied_seeds (fst (cascade_loop q ab)))"
proof (induction q ab rule: cascade_loop.induct)
  case (1 q ab)
  then show ?case
    using cascade_wave_inv [of q "blocked_nodes q"]
    by (simp add: cascade_loop.simps [of q ab] plan_simps)
qed

lemma cascade_blocked_swept:
  "swept p (fst (cascade_blocked p)) (set (snd (cascade_blocked p)))"
  "\<forall>i \<in> set (snd (cascade_blocked p)). doomed p i" "distinct (snd (cascade_blocked p))"
  "blocked_nodes (fst (cascade_blocked p)) = []"
  using cascade_loop_swept [of p p "[]"] by (simp_all add: cascade_blocked_def swept_refl)

lemma wf_cascade_blocked: "wf_plan p \<Longrightarrow> wf_plan (fst (cascade_blocked p))"
proof (rule swept_wf [OF cascade_blocked_swept(1)])
  assume "wf_plan p"
  then show "bt_inv (nodes (fst (cascade_blocked p)))"
    "bt_inv (applied_seeds (fst (cascade_blocked p)))"
    using cascade_loop_inv [of p "[]"] by (simp_all add: cascade_blocked_def wf_planD)
qed

text \<open>The sweep abandons exactly the doomed tasks.\<close>

lemma cascade_none_left:
  assumes wf: "wf_plan p" and n: "node p i = Some n" "status n = Pending" "u \<in> set (upstream n)"
    and u: "up_blocks p u \<or> u \<in> set (snd (cascade_blocked p))"
  shows "i \<in> set (snd (cascade_blocked p))"
proof (rule ccontr)
  assume i: "i \<notin> set (snd (cascade_blocked p))"
  let ?q = "fst (cascade_blocked p)"
  from i n(1) have "node ?q i = Some n"
    using cascade_blocked_swept(1) [of p] by (simp add: swept_def)
  with n u swept_blocks [OF cascade_blocked_swept(1) [of p]]
  have "is_blocked (readiness_of ?q i)"
    by (auto simp: readiness_Blocked_iff)
  then have "i \<in> set (blocked_nodes ?q)"
    using wf by (simp add: blocked_nodes_iff wf_cascade_blocked)
  then show False
    by (simp add: cascade_blocked_swept(4))
qed

lemma cascade_complete:
  assumes wf: "wf_plan p" and d: "doomed p i"
  shows "i \<in> set (snd (cascade_blocked p))"
  using d by (induction rule: doomed.induct) (auto intro: cascade_none_left [OF wf])

lemma cascade_blocked_doomed:
  "wf_plan p \<Longrightarrow> set (snd (cascade_blocked p)) = {i. doomed p i}"
  using cascade_blocked_swept(2) [of p] cascade_complete [of p] by blast

section \<open>No deadlock\<close>

text \<open>
  With nothing in flight and nothing blocked, an unsettled plan has a task to start: among
  its open tasks the acyclic edges leave one that waits on no open task.
\<close>

lemma some_ready:
  assumes wf: "wf_plan p" and idle: "\<And>n who. n \<in> set (plan_nodes p) \<Longrightarrow> status n \<noteq> Assigned who"
    and nb: "blocked_nodes p = []" and unset: "\<not> is_settled p"
  shows "ready_nodes p \<noteq> []"
proof -
  let ?S = "{i. \<exists>n. node p i = Some n \<and> \<not> is_terminal (status n)}"
  have ne: "?S \<noteq> {}"
    using unset wf
    by (fastforce simp: is_settled_def list_all_iff plan_nodes_iff node_is_terminal_def)
  obtain i where i: "i \<in> ?S" and sink: "\<And>u. (i, u) \<in> edges p \<Longrightarrow> u \<notin> ?S"
    using acyclic_has_sink [OF wf_planD(5) [OF wf] finite_edges [OF wf] ne] by blast
  from i obtain n where n: "node p i = Some n" "\<not> is_terminal (status n)"
    by blast
  moreover have "n \<in> set (plan_nodes p)"
    using n wf wf_planD(6) [OF wf n(1)] by (simp add: plan_nodes_iff wf_node_def)
  ultimately have pend: "status n = Pending"
    using idle [of n] by (cases "status n") auto
  have "\<exists>m. node p u = Some m \<and> status m = Complete" if u: "u \<in> set (upstream n)" for u
  proof -
    have "\<not> is_blocked (readiness_of p i)"
      using nb blocked_nodes_iff [OF wf, of i] by simp
    with n pend u have "\<not> up_blocks p u"
      by (auto simp: readiness_Blocked_iff)
    moreover have "u \<notin> ?S"
      using sink u n by (simp add: edges_def)
    ultimately show ?thesis
      by (auto simp: up_blocks_def split: option.splits)
  qed
  with n pend have "readiness_of p i = Inr Ready"
    by (auto simp: readiness_Ready_iff)
  then show ?thesis
    using ready_nodes_iff [OF wf, of i] by auto
qed

section \<open>Dispatch\<close>

lemma dispatch_Inr_iff:
  "(\<exists>a. snd (dispatch p i who) = Inr a) \<longleftrightarrow> readiness_of p i = Inr Ready"
  by (auto simp: dispatch_def readiness_of_def assemble_input_def Let_def
      split: option.splits if_splits)

lemma dispatch_Inl: "snd (dispatch p i who) = Inl e \<Longrightarrow> fst (dispatch p i who) = p"
  by (auto simp: dispatch_def readiness_of_def assemble_input_def Let_def
      split: option.splits if_splits sum.splits)

lemma dispatch_Ready:
  "readiness_of p i = Inr Ready \<Longrightarrow>
     fst (dispatch p i who) = bump_version (node_mut p i (\<lambda>n. n\<lparr>status := Assigned who\<rparr>))"
  by (auto simp: dispatch_def readiness_of_def assemble_input_def Let_def
      split: option.splits if_splits sum.splits)

lemma wf_dispatch: 
  assumes wf: "wf_plan p"
  shows "wf_plan (fst (dispatch p i who))"
proof (cases "readiness_of p i = Inr Ready")
  case True
  then obtain n where "node p i = Some n" "status n = Pending"
    by (auto simp: readiness_Ready_iff)
  then show ?thesis
    unfolding dispatch_Ready [OF True]
    by (intro wf_status_write [OF wf]) (auto simp: node_is_terminal_def)
next
  case False
  then obtain e where "snd (dispatch p i who) = Inl e"
    using dispatch_Inr_iff [of p i who] by (cases "snd (dispatch p i who)") auto
  with wf show ?thesis
    by (simp add: dispatch_Inl)
qed

text \<open>The pieces of an assembled input.\<close>

lemma assemble_input_contains:
  assumes n: "node p i = Some n" and i: "assemble_input p i = Inr inp"
  shows "str_contains inp (objective p)" "str_contains inp (trim (prompt n))"
    "u \<in> set (upstream n) \<Longrightarrow> node p u = Some m \<Longrightarrow> artifact m = Some art \<Longrightarrow>
       str_contains inp (render art (up_label p u))"
proof -
  define hd where "hd = ''Objective: '' @ objective p @ newline @ newline
    @ ''Your task ('' @ show_node_id (nid n) @ ''): '' @ title n
    @ newline @ newline @ trim (prompt n) @ newline"
  define tl where "tl = concat (map (\<lambda>(u, a). render a (up_label p u) @ newline) (upstream_artifacts p n))"
  have inp: "inp = (if upstream_artifacts p n = [] then hd else hd @ earlier_heading @ tl)"
    using assms by (auto simp: assemble_input_def Let_def hd_def tl_def)
  have h: "str_contains hd (objective p)" "str_contains hd (trim (prompt n))"
    unfolding hd_def str_contains_iff by (metis append.assoc)+
  then show "str_contains inp (objective p)" "str_contains inp (trim (prompt n))"
    using str_contains_append(1) [OF h(1)] str_contains_append(1) [OF h(2)] by (auto simp: inp)
  assume u: "u \<in> set (upstream n)" "node p u = Some m" "artifact m = Some art"
  then have mem: "(u, art) \<in> set (upstream_artifacts p n)"
    by (auto simp: upstream_artifacts_def map_filter_def image_iff intro!: bexI [of _ u])
  have "str_contains tl (render art (up_label p u))"
    unfolding tl_def
    by (rule str_contains_concat [of "render art (up_label p u) @ newline"])
      (use mem str_contains_mid [of "[]"] in \<open>auto simp: image_iff intro: bexI [OF _ mem]\<close>)
  with mem show "str_contains inp (render art (up_label p u))"
    by (auto simp: inp intro: str_contains_append)
qed

section \<open>Progress\<close>

lemma progress_fold:
  "total (foldl (progress_step p) o0 ns) = total o0
   \<and> prog_complete (foldl (progress_step p) o0 ns) + prog_failed (foldl (progress_step p) o0 ns)
     + prog_abandoned (foldl (progress_step p) o0 ns) + prog_assigned (foldl (progress_step p) o0 ns)
     + prog_ready (foldl (progress_step p) o0 ns) + prog_waiting (foldl (progress_step p) o0 ns)
   = prog_complete o0 + prog_failed o0 + prog_abandoned o0 + prog_assigned o0 + prog_ready o0
     + prog_waiting o0 + length ns"
  by (induction ns arbitrary: o0) (auto simp: progress_step_def split: task_status.splits)

lemma progress_ready_fold:
  "prog_ready (foldl (progress_step p) o0 ns) =
     prog_ready o0 + length (filter (\<lambda>n. readiness_of p (nid n) = Inr Ready) (filter (\<lambda>n. status n = Pending) ns))"
  by (induction ns arbitrary: o0) (auto simp: progress_step_def split: task_status.splits)

end
