(* ===== verification/Plan_Run.thy ===== *)
theory Plan_Run
  imports Schedule_Inv
begin

text \<open>
  The plan as a transition system: every mutation the crate exposes as one operation, what an
  operation may do to a task that is already in the plan, and the invariants of the plans
  that can be reached.
\<close>

section \<open>Operations\<close>

datatype plan_op =
    OpSeed actor_id string "node_spec list"
  | OpExpand node_id actor_id "node_spec list"
  | OpComplete node_id actor_id handoff_artifact
  | OpInject node_id actor_id "node_spec list"
  | OpFail node_id actor_id string
  | OpAbandon node_id actor_id string
  | OpSalvage node_id u32
  | OpSalvageActor actor_id u32
  | OpDispatch node_id actor_id
  | OpCascade
  | OpCoordinator actor_id

fun op_apply :: "task_plan \<Rightarrow> plan_op \<Rightarrow> task_plan" where
  "op_apply p (OpSeed a key specs) = fst (seed p a key specs)"
| "op_apply p (OpExpand i a specs) = fst (expand_node p i a specs)"
| "op_apply p (OpComplete i a art) = fst (complete_node p i a art)"
| "op_apply p (OpInject i a specs) = fst (inject_from_gate p i a specs)"
| "op_apply p (OpFail i a r) = fst (fail_node p i a r)"
| "op_apply p (OpAbandon i a r) = fst (abandon_node p i a r)"
| "op_apply p (OpSalvage i l) = fst (salvage_assignment p i l)"
| "op_apply p (OpSalvageActor a l) = fst (salvage_actor p a l)"
| "op_apply p (OpDispatch i a) = fst (dispatch p i a)"
| "op_apply p OpCascade = fst (cascade_blocked p)"
| "op_apply p (OpCoordinator a) = set_coordinator p a"

text \<open>How many node ids an operation may mint.\<close>

fun mints :: "plan_op \<Rightarrow> nat" where
  "mints (OpSeed _ _ specs) = length specs + 1"
| "mints (OpExpand _ _ specs) = length specs + 1"
| "mints (OpInject _ _ specs) = length specs"
| "mints _ = 0"

inductive plan_step :: "task_plan \<Rightarrow> plan_op \<Rightarrow> task_plan \<Rightarrow> bool" where
  apply_op: "room p (mints op) \<Longrightarrow> plan_step p op (op_apply p op)"

inductive_cases plan_stepE: "plan_step p op q"

inductive reachable_plan :: "task_plan \<Rightarrow> bool" where
  fresh: "reachable_plan (plan_new obj m c)"
| step: "reachable_plan p \<Longrightarrow> plan_step p op q \<Longrightarrow> reachable_plan q"

lemma wf_op_apply:
  assumes wf: "wf_plan p" and rm: "room p (mints op)"
  shows "wf_plan (op_apply p op)"
  using assms
  by (cases op)
    (simp_all add: wf_seed wf_expand_node wf_complete_node wf_inject_from_gate wf_fail_node
      wf_abandon_node wf_salvage_assignment wf_salvage_actor wf_dispatch wf_cascade_blocked
      wf_set_coordinator)

section \<open>What an operation does to a task already in the plan\<close>

definition salvage_write :: "u32 \<Rightarrow> task_node \<Rightarrow> task_node" where
  "salvage_write l n =
     (if node_is_terminal n then n
      else if l \<le> reclaims n then n\<lparr>status := Failed (exhausted_reason (reclaims n) l)\<rparr>
      else n\<lparr>reclaims := reclaims n + 1, status := Pending\<rparr>)"

lemma node_salvage_assignment:
  "node (fst (salvage_assignment p i l)) j =
     (if j = i then map_option (salvage_write l) (node p i) else node p j)"
  by (auto simp: salvage_assignment_def salvage_write_def Let_def plan_simps split: option.splits)

lemma node_salvage_all:
  "distinct ids \<Longrightarrow> node (fst (salvage_all p l ids)) j =
     (if j \<in> set ids then map_option (salvage_write l) (node p j) else node p j)"
  by (induction ids arbitrary: p) (auto simp: split_beta node_salvage_assignment)

lemma in_nids_iff:
  assumes "wf_plan p"
  shows "i \<in> set (map nid (filter P (plan_nodes p))) \<longleftrightarrow> (\<exists>n. node p i = Some n \<and> P n)"
proof -
  have "nid n = i" if "node p i = Some n" for n
    using wf_planD(6) [OF assms that] by (simp add: wf_node_def)
  then show ?thesis
    using assms by (auto simp: plan_nodes_iff image_iff)
qed

lemma stranded_iff:
  "wf_plan p \<Longrightarrow> i \<in> set (stranded p a) \<longleftrightarrow> (\<exists>n. node p i = Some n \<and> assignee n = Some a)"
  unfolding stranded_def
  by (simp only: in_nids_iff)
    (auto simp: node_is_terminal_def assignee_def split: task_status.splits)

lemma distinct_stranded: "wf_plan p \<Longrightarrow> distinct (stranded p a)"
  unfolding stranded_def using sorted_filter_nids strict_sorted_iff by blast

text \<open>The change an operation may make to task \<open>j\<close>, by operation.\<close>

definition may_act :: "task_node \<Rightarrow> actor_id \<Rightarrow> bool" where
  "may_act n a \<longleftrightarrow> owner n = a \<or> assignee n = Some a"

fun changes :: "task_plan \<Rightarrow> node_id \<Rightarrow> task_node \<Rightarrow> plan_op \<Rightarrow> task_node \<Rightarrow> bool" where
  "changes p j n (OpExpand i a specs) m \<longleftrightarrow>
     j = i \<and> may_act n a \<and> (\<exists>ups. m = n\<lparr>upstream := ups, status := Pending\<rparr>)"
| "changes p j n (OpComplete i a art) m \<longleftrightarrow>
     j = i \<and> assignee n = Some a
     \<and> validate_artifact i (kind n) (is_deep (mode p)) art = Inr ()
     \<and> m = n\<lparr>status := Complete, artifact := Some art\<rparr>"
| "changes p j n (OpInject i a specs) m \<longleftrightarrow>
     j = i \<and> kind n = Gate \<and> may_act n a
     \<and> (\<exists>ups. m = n\<lparr>upstream := ups, status := Pending\<rparr>)"
| "changes p j n (OpFail i a r) m \<longleftrightarrow> j = i \<and> may_act n a \<and> m = n\<lparr>status := Failed r\<rparr>"
| "changes p j n (OpAbandon i a r) m \<longleftrightarrow> j = i \<and> owner n = a \<and> m = n\<lparr>status := Abandoned r\<rparr>"
| "changes p j n (OpSalvage i l) m \<longleftrightarrow> j = i \<and> m = salvage_write l n"
| "changes p j n (OpSalvageActor a l) m \<longleftrightarrow> assignee n = Some a \<and> m = salvage_write l n"
| "changes p j n (OpDispatch i a) m \<longleftrightarrow>
     j = i \<and> readiness_of p i = Inr Ready \<and> m = n\<lparr>status := Assigned a\<rparr>"
| "changes p j n OpCascade m \<longleftrightarrow> doomed p j \<and> (\<exists>r. m = n\<lparr>status := Abandoned r\<rparr>)"
| "changes p j n _ m \<longleftrightarrow> False"

definition kept_or_changed :: "task_plan \<Rightarrow> plan_op \<Rightarrow> task_plan \<Rightarrow> bool" where
  "kept_or_changed p op q \<longleftrightarrow>
     mode q = mode p
     \<and> (\<forall>j n. node p j = Some n \<longrightarrow>
          (\<exists>m. node q j = Some m \<and> (m = n \<or> \<not> node_is_terminal n \<and> changes p j n op m)))
     \<and> (\<forall>j m. node p j = None \<longrightarrow> node q j = Some m \<longrightarrow> status m = Pending)"

lemma kept_same: "kept_or_changed p op p"
  by (simp add: kept_or_changed_def)

lemma kept_write:
  assumes "node p i = Some t" "\<not> node_is_terminal t" "changes p i t op (f t)"
  shows "kept_or_changed p op (bump_version (node_mut p i f))"
  using assms by (auto simp: kept_or_changed_def plan_simps)

lemma kept_seed:
  assumes "wf_plan p" "room p (length specs + 1)"
  shows "kept_or_changed p (OpSeed a key specs) (fst (seed p a key specs))"
proof (rule seed_cases [OF assms, of a key])
  fix p2 created gate
  assume g: "grows p a {} (set created \<union> set_option gate) p2"
    and eq: "seed p a key specs =
         (bump_version (record_seed p2 key (created @ (case gate of None \<Rightarrow> [] | Some g \<Rightarrow> [g]))),
          Inr \<lparr>seeded_nodes = created, seeded_gate = gate, replayed = False\<rparr>)"
  show ?thesis
    using growsD(2,5,8) [OF g] by (auto simp: kept_or_changed_def eq plan_simps)
qed (simp_all add: kept_same)

lemma kept_grow:
  assumes g: "grows p a inh ids p2" and t: "require_mutable p i a = Inr t"
    and c: "changes p i t op (f t)"
  shows "kept_or_changed p op (bump_version (node_mut p2 i f))"
  using growsD(2,5,8) [OF g] require_mutableD [OF t] c
  by (auto simp: kept_or_changed_def plan_simps)

lemma kept_expand:
  assumes "wf_plan p" "room p (length specs + 1)"
  shows "kept_or_changed p (OpExpand i a specs) (fst (expand_node p i a specs))"
proof (rule expand_node_cases [OF assms, of i a])
  fix target p2 created gate
  assume t: "require_mutable p i a = Inr target"
    and g: "grows p a (set (upstream target)) (set created \<union> set_option gate) p2"
    and eq: "expand_node p i a specs =
         (bump_version (node_mut p2 i (\<lambda>n. n\<lparr>upstream :=
            sort_dedup (case gate of None \<Rightarrow> created | Some g \<Rightarrow> [g]), status := Pending\<rparr>)),
          Inr \<lparr>children = created, expanded_gate = gate\<rparr>)"
  have "changes p i target (OpExpand i a specs) (target\<lparr>upstream :=
      sort_dedup (case gate of None \<Rightarrow> created | Some g \<Rightarrow> [g]), status := Pending\<rparr>)"
    using require_mutableD [OF t] by (auto simp: may_act_def)
  then show ?thesis
    by (simp add: eq kept_grow [OF g t])
qed (simp_all add: kept_same)

lemma kept_inject:
  assumes "wf_plan p" "room p (length specs)"
  shows "kept_or_changed p (OpInject i a specs) (fst (inject_from_gate p i a specs))"
proof (rule inject_from_gate_cases [OF assms, of i a])
  fix target p1 injected
  assume t: "require_mutable p i a = Inr target" and k: "kind target = Gate"
    and g: "grows p a (set (upstream target)) (set injected) p1"
    and eq: "inject_from_gate p i a specs =
         (bump_version (node_mut p1 i (\<lambda>n. n\<lparr>upstream := sort_dedup (upstream n @ injected),
            status := Pending\<rparr>)), Inr injected)"
  have "changes p i target (OpInject i a specs)
      (target\<lparr>upstream := sort_dedup (upstream target @ injected), status := Pending\<rparr>)"
    using require_mutableD [OF t] k by (auto simp: may_act_def)
  then show ?thesis
    by (simp add: eq kept_grow [OF g t])
qed (simp_all add: kept_same)

lemma kept_complete: "kept_or_changed p (OpComplete i a art) (fst (complete_node p i a art))"
  by (auto simp: complete_node_def kept_same intro!: kept_write split: option.splits sum.splits)

lemma kept_fail: "kept_or_changed p (OpFail i a r) (fst (fail_node p i a r))"
  by (auto simp: fail_node_def kept_same may_act_def intro!: kept_write dest!: require_mutableD
      split: sum.splits)

lemma kept_abandon: "kept_or_changed p (OpAbandon i a r) (fst (abandon_node p i a r))"
  by (auto simp: abandon_node_def kept_same intro!: kept_write split: option.splits)

lemma salvage_write_terminal [simp]: "node_is_terminal n \<Longrightarrow> salvage_write l n = n"
  by (simp add: salvage_write_def)

lemma mode_salvage_assignment: "mode (fst (salvage_assignment p i l)) = mode p"
  by (auto simp: salvage_assignment_def Let_def plan_simps split: option.splits)

lemma mode_salvage_all: "mode (fst (salvage_all p l ids)) = mode p"
  by (induction ids arbitrary: p) (auto simp: split_beta mode_salvage_assignment)

lemma kept_salvage: "kept_or_changed p (OpSalvage i l) (fst (salvage_assignment p i l))"
  using salvage_write_terminal
  by (auto simp: kept_or_changed_def mode_salvage_assignment node_salvage_assignment)

lemma kept_salvage_actor:
  assumes "wf_plan p"
  shows "kept_or_changed p (OpSalvageActor a l) (fst (salvage_actor p a l))"
  using assms stranded_iff [OF assms, of _ a] salvage_write_terminal
  by (auto simp: kept_or_changed_def mode_salvage_all salvage_actor_def node_salvage_all
      distinct_stranded)

lemma kept_dispatch: "kept_or_changed p (OpDispatch i a) (fst (dispatch p i a))"
proof (cases "readiness_of p i = Inr Ready")
  case True
  then obtain n where n: "node p i = Some n" "status n = Pending"
    by (auto simp: readiness_Ready_iff)
  show ?thesis
    unfolding dispatch_Ready [OF True]
    by (rule kept_write [OF n(1)]) (use n True in \<open>auto simp: node_is_terminal_def\<close>)
next
  case False
  then obtain e where "snd (dispatch p i a) = Inl e"
    using dispatch_Inr_iff [of p i a] by (cases "snd (dispatch p i a)") auto
  then show ?thesis
    by (simp add: dispatch_Inl kept_same)
qed

lemma kept_cascade: "kept_or_changed p OpCascade (fst (cascade_blocked p))"
proof -
  note sw = cascade_blocked_swept(1) [of p] and d = cascade_blocked_swept(2) [of p]
  have "\<exists>m. node (fst (cascade_blocked p)) j = Some m
      \<and> (m = n \<or> \<not> node_is_terminal n \<and> changes p j n OpCascade m)"
    if n: "node p j = Some n" for j n
  proof (cases "j \<in> set (snd (cascade_blocked p))")
    case True
    with sw n obtain r where "status n = Pending"
      "node (fst (cascade_blocked p)) j = Some (n\<lparr>status := Abandoned r\<rparr>)"
      unfolding swept_def by fastforce
    with d True show ?thesis
      by (auto simp: node_is_terminal_def)
  next
    case False
    with sw n show ?thesis
      by (simp add: swept_def)
  qed
  moreover have "node (fst (cascade_blocked p)) j = None" if "node p j = None" for j
    using sw that by (cases "j \<in> set (snd (cascade_blocked p))") (auto simp: swept_def)
  moreover have "mode (fst (cascade_blocked p)) = mode p"
    using sw by (simp add: swept_def)
  ultimately show ?thesis
    by (simp add: kept_or_changed_def)
qed

lemma kept_op:
  assumes "wf_plan p" "room p (mints op)"
  shows "kept_or_changed p op (op_apply p op)"
  using assms
  by (cases op)
    (simp_all add: kept_seed kept_expand kept_complete kept_inject kept_fail kept_abandon
      kept_salvage kept_salvage_actor kept_dispatch kept_cascade,
     simp add: kept_or_changed_def set_coordinator_def node_def)

lemma kept_opD:
  assumes "kept_or_changed p op q"
  shows "mode q = mode p"
    "node p j = Some n \<Longrightarrow>
       \<exists>m. node q j = Some m \<and> (m = n \<or> \<not> node_is_terminal n \<and> changes p j n op m)"
    "node p j = None \<Longrightarrow> node q j = Some m \<Longrightarrow> status m = Pending"
  using assms by (simp_all add: kept_or_changed_def)

lemma terminal_kept:
  "kept_or_changed p op q \<Longrightarrow> node p j = Some n \<Longrightarrow> is_terminal (status n) \<Longrightarrow> node q j = Some n"
  using kept_opD(2) [of p op q j n] by (auto simp: node_is_terminal_def)

lemma salvage_write_simps [simp]:
  "kind (salvage_write l n) = kind n" "artifact (salvage_write l n) = artifact n"
  "owner (salvage_write l n) = owner n" "upstream (salvage_write l n) = upstream n"
  by (simp_all add: salvage_write_def)

lemma salvage_write_status:
  "\<not> node_is_terminal n \<Longrightarrow>
     status (salvage_write l n) = Pending \<or> (\<exists>r. status (salvage_write l n) = Failed r)"
  by (simp add: salvage_write_def)

text \<open>What no operation changes of a task.\<close>

lemma changes_fixed:
  "changes p j n op m \<Longrightarrow>
     kind m = kind n \<and> owner m = owner n \<and> (artifact m = artifact n \<or> (\<exists>i a art. op = OpComplete i a art))"
  by (cases op) auto

section \<open>Invariants of reachable plans\<close>

text \<open>Every handoff kept in the plan passed the checks of its kind and of the plan's mode.\<close>

definition honest :: "task_plan \<Rightarrow> bool" where
  "honest p \<longleftrightarrow>
     (\<forall>i n art. node p i = Some n \<longrightarrow> artifact n = Some art \<longrightarrow>
        validate_artifact i (kind n) (is_deep (mode p)) art = Inr ())"

text \<open>A task that is running or done has everything it waits on done.\<close>

definition started :: "task_status \<Rightarrow> bool" where
  "started s \<longleftrightarrow> s = Complete \<or> (\<exists>a. s = Assigned a)"

definition in_order :: "task_plan \<Rightarrow> bool" where
  "in_order p \<longleftrightarrow>
     (\<forall>i n u. node p i = Some n \<longrightarrow> started (status n) \<longrightarrow> u \<in> set (upstream n) \<longrightarrow>
        (\<exists>m. node p u = Some m \<and> status m = Complete))"

lemma honestD:
  "honest p \<Longrightarrow> node p i = Some n \<Longrightarrow> artifact n = Some art \<Longrightarrow>
     validate_artifact i (kind n) (is_deep (mode p)) art = Inr ()"
  by (simp add: honest_def)

lemma honest_step:
  assumes k: "kept_or_changed p op q" and wf: "wf_plan q" and h: "honest p"
  shows "honest q"
  unfolding honest_def
proof (intro allI impI)
  fix i m art
  assume m: "node q i = Some m" and art: "artifact m = Some art"
  show "validate_artifact i (kind m) (is_deep (mode q)) art = Inr ()"
  proof (cases "node p i")
    case None
    with kept_opD(3) [OF k _ m] wf_planD(6) [OF wf m] art show ?thesis
      by (auto simp: wf_node_def)
  next
    case (Some n)
    then consider "m = n" | "changes p i n op m"
      using kept_opD(2) [OF k Some] m by auto
    then show ?thesis
    proof cases
      case 1
      with h Some art show ?thesis
        by (simp add: honest_def kept_opD(1) [OF k])
    next
      case 2
      with art show ?thesis
        using changes_fixed [OF 2] honestD [OF h Some] kept_opD(1) [OF k] by (cases op) auto
    qed
  qed
qed

lemma salvage_not_started: "\<not> node_is_terminal n \<Longrightarrow> \<not> started (status (salvage_write l n))"
  by (simp add: salvage_write_def started_def)

lemma assignee_started: "assignee n = Some a \<Longrightarrow> started (status n)"
  by (simp add: assignee_def started_def split: task_status.splits)

lemma changes_started:
  "changes p j n op m \<Longrightarrow> \<not> node_is_terminal n \<Longrightarrow> started (status m) \<Longrightarrow>
     upstream m = upstream n \<and> (started (status n) \<or> readiness_of p j = Inr Ready)"
  by (cases op) (auto simp: salvage_not_started assignee_started, auto simp: started_def)

lemma in_orderD:
  "in_order p \<Longrightarrow> node p i = Some n \<Longrightarrow> started (status n) \<Longrightarrow> u \<in> set (upstream n) \<Longrightarrow>
     \<exists>m. node p u = Some m \<and> status m = Complete"
  unfolding in_order_def by blast

lemma readyD:
  "readiness_of p i = Inr Ready \<Longrightarrow> node p i = Some n \<Longrightarrow> u \<in> set (upstream n) \<Longrightarrow>
     \<exists>m. node p u = Some m \<and> status m = Complete"
  by (auto simp: readiness_Ready_iff)

lemma in_order_step:
  assumes k: "kept_or_changed p op q" and h: "in_order p"
  shows "in_order q"
  unfolding in_order_def
proof (intro allI impI)
  fix i m u
  assume m: "node q i = Some m" and st: "started (status m)" and u: "u \<in> set (upstream m)"
  have complete: "\<exists>v. node q u = Some v \<and> status v = Complete"
    if "node p u = Some v" "status v = Complete" for v
    using terminal_kept [OF k that(1)] that(2) by auto
  show "\<exists>v. node q u = Some v \<and> status v = Complete"
  proof (cases "node p i")
    case None
    with kept_opD(3) [OF k _ m] st show ?thesis
      by (auto simp: started_def)
  next
    case (Some n)
    then consider "m = n" | "\<not> node_is_terminal n" "changes p i n op m"
      using kept_opD(2) [OF k Some] m by auto
    then have "upstream m = upstream n \<and> (started (status n) \<or> readiness_of p i = Inr Ready)"
      by cases (use st changes_started in auto)
    with Some u have "\<exists>v. node p u = Some v \<and> status v = Complete"
      using in_orderD [OF h Some] readyD [OF _ Some] by metis
    with complete show ?thesis
      by blast
  qed
qed

lemma reachable_inv: "reachable_plan p \<Longrightarrow> wf_plan p \<and> honest p \<and> in_order p"
proof (induction rule: reachable_plan.induct)
  case (fresh obj m c)
  have "node (plan_new obj m c) i = None" for i
    by (simp add: node_def plan_new_def bt_get_def bt_empty_def)
  then show ?case
    by (simp add: wf_plan_new honest_def in_order_def)
next
  case (step p op q)
  then obtain "room p (mints op)" "q = op_apply p op"
    by (auto elim: plan_stepE)
  with step.IH have "kept_or_changed p op q" "wf_plan q"
    by (simp_all add: kept_op wf_op_apply)
  with step.IH show ?case
    by (blast intro: honest_step in_order_step)
qed

section \<open>Salvage\<close>

text \<open>A salvaged task is never put back once its count reached the limit.\<close>

lemma salvage_write_bound:
  "reclaims n \<le> l \<Longrightarrow> reclaims (salvage_write l n) \<le> l"
  by (auto simp: salvage_write_def inc_le not_le)

lemma salvage_actor_frees:
  assumes "wf_plan p" "node (fst (salvage_actor p a l)) j = Some m"
  shows "assignee m \<noteq> Some a"
proof (cases "j \<in> set (stranded p a)")
  case True
  then obtain n where n: "node p j = Some n" "assignee n = Some a"
    using stranded_iff [OF assms(1)] by blast
  with assms True have "m = salvage_write l n"
    by (simp add: salvage_actor_def node_salvage_all distinct_stranded)
  with n show ?thesis
    by (auto simp: salvage_write_def assignee_def node_is_terminal_def
        split: task_status.splits if_splits)
next
  case False
  with assms have "node p j = Some m"
    by (simp add: salvage_actor_def node_salvage_all distinct_stranded)
  with False stranded_iff [OF assms(1)] show ?thesis
    by simp
qed

end
