(* ===== verification/Sim.thy ===== *)
theory Sim
  imports Plan_Run
begin

text \<open>
  \<^verbatim>\<open>crates/localpilot-taskgraph/src/sim.rs\<close>: a whole plan run against a scripted executor. The
  executor is any implementation of the \<open>SimExecutor\<close> trait, so it is an argument here: a
  function of its own state, the assignment and the plan. \<open>usize\<close> counters are naturals; the
  round counter never passes \<open>max_rounds\<close>.
\<close>

section \<open>Data\<close>

datatype sim_action =
    ActComplete handoff_artifact
  | ActExpand "node_spec list"
  | ActInject "node_spec list"
  | ActFail string
  | ActVanish

type_synonym 's sim_executor = "'s \<Rightarrow> assignment \<Rightarrow> task_plan \<Rightarrow> sim_action \<times> 's"

record sim_config =
  concurrency :: nat
  max_rounds :: nat
  reclaim_limit :: u32

definition sim_config_default :: sim_config where
  "sim_config_default = \<lparr>concurrency = 4, max_rounds = 256, reclaim_limit = 2\<rparr>"

datatype sim_event =
    EvDispatched nat node_id actor_id
  | EvCompleted node_id
  | EvExpanded node_id "node_id list"
  | EvInjected node_id "node_id list"
  | EvFailed node_id
  | EvSalvaged node_id salvage
  | EvAbandoned node_id
  | EvRefused node_id plan_error

record sim_report =
  events :: "sim_event list"
  rounds :: nat
  settled :: bool
  exhausted :: bool
  rep_progress :: plan_progress

definition dispatch_order :: "sim_report \<Rightarrow> node_id list" where
  "dispatch_order r =
     List.map_filter (\<lambda>e. case e of EvDispatched _ i _ \<Rightarrow> Some i | _ \<Rightarrow> None) (events r)"

definition event_refusals :: "sim_event list \<Rightarrow> plan_error list" where
  "event_refusals es = List.map_filter (\<lambda>e. case e of EvRefused _ err \<Rightarrow> Some err | _ \<Rightarrow> None) es"

definition refusals :: "sim_report \<Rightarrow> plan_error list" where
  "refusals r = event_refusals (events r)"

section \<open>One round\<close>

definition worker_name :: "nat \<Rightarrow> actor_id" where
  "worker_name slot = ''worker-'' @ show_nat slot"

text \<open>The dispatch loop over the frontier, \<open>slot\<close> counting from the start of it.\<close>

fun dispatch_all ::
  "task_plan \<Rightarrow> nat \<Rightarrow> nat \<Rightarrow> node_id list \<Rightarrow> task_plan \<times> sim_event list \<times> assignment list" where
  "dispatch_all p rnd slot [] = (p, [], [])"
| "dispatch_all p rnd slot (i # ids) =
     (let (p1, r) = dispatch p i (worker_name slot);
          (p2, evs, asgs) = dispatch_all p1 rnd (Suc slot) ids
      in case r of
           Inr a \<Rightarrow> (p2, EvDispatched rnd i (worker_name slot) # evs, a # asgs)
         | Inl e \<Rightarrow> (p2, EvRefused i e # evs, asgs))"

definition sim_apply ::
  "task_plan \<Rightarrow> assignment \<Rightarrow> sim_action \<Rightarrow> u32 \<Rightarrow> task_plan \<times> sim_event" where
  "sim_apply p a act limit =
     (let i = asg_node a; actor = asg_assignee a
      in case act of
           ActComplete art \<Rightarrow>
             (let (q, r) = complete_node p i actor art
              in (q, case r of Inr _ \<Rightarrow> EvCompleted i | Inl e \<Rightarrow> EvRefused i e))
         | ActExpand specs \<Rightarrow>
             (let (q, r) = expand_node p i actor specs
              in (q, case r of Inr x \<Rightarrow> EvExpanded i (children x) | Inl e \<Rightarrow> EvRefused i e))
         | ActInject specs \<Rightarrow>
             (let (q, r) = inject_from_gate p i actor specs
              in (q, case r of Inr added \<Rightarrow> EvInjected i added | Inl e \<Rightarrow> EvRefused i e))
         | ActFail reason \<Rightarrow>
             (let (q, r) = fail_node p i actor reason
              in (q, case r of Inr _ \<Rightarrow> EvFailed i | Inl e \<Rightarrow> EvRefused i e))
         | ActVanish \<Rightarrow>
             (let (q, r) = salvage_assignment p i limit
              in (q, case r of Inr out \<Rightarrow> EvSalvaged i out | Inl e \<Rightarrow> EvRefused i e)))"

fun resolve_all ::
  "'s sim_executor \<Rightarrow> u32 \<Rightarrow> 's \<Rightarrow> task_plan \<Rightarrow> assignment list
   \<Rightarrow> 's \<times> task_plan \<times> sim_event list" where
  "resolve_all exec limit s p [] = (s, p, [])"
| "resolve_all exec limit s p (a # asgs) =
     (let (act, s1) = exec s a p;
          (p1, ev) = sim_apply p a act limit;
          (s2, p2, evs) = resolve_all exec limit s1 p1 asgs
      in (s2, p2, ev # evs))"

section \<open>The loop\<close>

definition sim_round ::
  "'s sim_executor \<Rightarrow> sim_config \<Rightarrow> 's \<Rightarrow> task_plan \<Rightarrow> nat \<Rightarrow> node_id list
   \<Rightarrow> 's \<times> task_plan \<times> sim_event list" where
  "sim_round exec cfg s p rnd frontier =
     (let (p1, devs, asgs) = dispatch_all p rnd 0 frontier;
          (s1, p2, aevs) = resolve_all exec (reclaim_limit cfg) s p1 asgs
      in (s1, p2, devs @ aevs))"

definition frontier_of :: "sim_config \<Rightarrow> task_plan \<Rightarrow> node_id list" where
  "frontier_of cfg p = take (max (concurrency cfg) 1) (ready_nodes p)"

function sim_loop ::
  "'s sim_executor \<Rightarrow> sim_config \<Rightarrow> 's \<Rightarrow> task_plan \<Rightarrow> nat \<Rightarrow> sim_event list
   \<Rightarrow> task_plan \<times> nat \<times> sim_event list" where
  "sim_loop exec cfg s p rnd evs =
     (if rnd < max_rounds cfg
      then (let (p1, dead) = cascade_blocked p;
                evs1 = evs @ map EvAbandoned dead;
                frontier = frontier_of cfg p1
            in if frontier = [] then (p1, rnd, evs1)
               else (let (s1, p2, revs) = sim_round exec cfg s p1 (rnd + 1) frontier
                     in sim_loop exec cfg s1 p2 (rnd + 1) (evs1 @ revs)))
      else (p, rnd, evs))"
  by pat_completeness auto
termination
  by (relation "measure (\<lambda>(exec, cfg, s, p, rnd, evs). max_rounds cfg - rnd)") auto

declare sim_loop.simps [simp del]

definition simulate ::
  "task_plan \<Rightarrow> 's sim_executor \<Rightarrow> 's \<Rightarrow> sim_config \<Rightarrow> task_plan \<times> sim_report" where
  "simulate p exec s cfg =
     (let (p1, rnd, evs) = sim_loop exec cfg s p 0 [];
          (p2, dead) = cascade_blocked p1
      in (p2, \<lparr>events = evs @ map EvAbandoned dead, rounds = rnd, settled = is_settled p2,
               exhausted = max_rounds cfg \<le> rnd, rep_progress = progress p2\<rparr>))"

end
