(* ===== verification/Sim_Live.thy ===== *)
theory Sim_Live
  imports Sim
begin

text \<open>
  What a simulation guarantees: it is a sequence of ordinary plan operations, it mints a
  bounded number of ids, and it stops only on a settled plan unless it was refused something
  or ran out of rounds.
\<close>

section \<open>Refusals\<close>

lemma event_refusals_simps [simp]:
  "event_refusals [] = []"
  "event_refusals (es @ fs) = event_refusals es @ event_refusals fs"
  "event_refusals (map EvAbandoned ids) = []"
  "event_refusals (EvDispatched r i a # es) = event_refusals es"
  "event_refusals (EvRefused i e # es) = e # event_refusals es"
  by (simp_all add: event_refusals_def map_filter_def comp_def filter_map)

definition is_refusal :: "sim_event \<Rightarrow> bool" where
  "is_refusal ev \<longleftrightarrow> (\<exists>i e. ev = EvRefused i e)"

lemma event_refusals_Nil: "event_refusals es = [] \<longleftrightarrow> (\<forall>ev \<in> set es. \<not> is_refusal ev)"
  by (induction es)
    (auto simp: event_refusals_def map_filter_simps is_refusal_def split: sim_event.splits)

section \<open>A round as a sequence of plan operations\<close>

fun action_op :: "assignment \<Rightarrow> u32 \<Rightarrow> sim_action \<Rightarrow> plan_op" where
  "action_op a l (ActComplete art) = OpComplete (asg_node a) (asg_assignee a) art"
| "action_op a l (ActExpand specs) = OpExpand (asg_node a) (asg_assignee a) specs"
| "action_op a l (ActInject specs) = OpInject (asg_node a) (asg_assignee a) specs"
| "action_op a l (ActFail r) = OpFail (asg_node a) (asg_assignee a) r"
| "action_op a l ActVanish = OpSalvage (asg_node a) l"

lemma fst_sim_apply: "fst (sim_apply p a act l) = op_apply p (action_op a l act)"
  by (cases act) (simp_all add: sim_apply_def Let_def split_beta)

text \<open>The ids assigned at a moment.\<close>

definition in_flight :: "task_plan \<Rightarrow> node_id set" where
  "in_flight p = {i. \<exists>n a. node p i = Some n \<and> status n = Assigned a}"

lemma in_flight_step:
  assumes k: "kept_or_changed p op q" and nd: "\<And>i a. op \<noteq> OpDispatch i a"
  shows "in_flight q \<subseteq> in_flight p"
proof
  fix j assume "j \<in> in_flight q"
  then obtain m a where m: "node q j = Some m" "status m = Assigned a"
    by (auto simp: in_flight_def)
  then obtain n where n: "node p j = Some n"
    using kept_opD(3) [OF k, of j m] by (cases "node p j") auto
  then consider "m = n" | "\<not> node_is_terminal n" "changes p j n op m"
    using kept_opD(2) [OF k n] m by auto
  then show "j \<in> in_flight p"
  proof cases
    case 1
    with n m show ?thesis
      by (auto simp: in_flight_def)
  next
    case 2
    have "status (salvage_write l n) \<noteq> Assigned a" for l
      using salvage_not_started [OF 2(1)] by (auto simp: started_def)
    with 2 m nd show ?thesis
      by (cases op) auto
  qed
qed

text \<open>Node ids handed out: an operation mints no more than \<open>mints\<close> says.\<close>

lemma wrap32_le: "wrap32 x \<le> x"
  by (simp add: wrap32_def)

lemma next_id_insert_all: "next_id (fst (insert_all p own inh specs)) \<le> next_id p + length specs"
proof (induction specs arbitrary: p)
  case (Cons s specs)
  let ?q = "fst (plan_insert p s own inh)"
  have "next_id ?q \<le> next_id p + 1"
    by (simp add: plan_simps wrap32_le)
  with Cons [of ?q] show ?case
    by (simp add: split_beta)
qed simp

lemma next_id_insert_batch:
  "next_id (fst (insert_batch p own specs inh)) \<le> next_id p + length specs"
  using next_id_insert_all [of p own inh specs]
  by (simp add: insert_batch_def split_beta wire_all_fields)

lemma next_id_gate_over: "next_id (fst (gate_over p own t pr over)) \<le> next_id p + 1"
  using wrap32_le [of "next_id p + 1"]
  by (simp add: gate_over_def append_gate_def split_beta plan_simps)

lemma next_id_seed: "next_id (fst (seed p a key specs)) \<le> next_id p + (length specs + 1)"
  using next_id_insert_batch [of p a specs "[]"]
    next_id_gate_over [of "fst (insert_batch p a specs [])" a "''Plan review''" seed_gate_prompt
      "snd (insert_batch p a specs [])"]
  by (simp add: seed_def Let_def split_beta plan_simps split: option.splits sum.splits)

lemma next_id_expand: "next_id (fst (expand_node p i a specs)) \<le> next_id p + (length specs + 1)"
proof (cases "require_mutable p i a")
  case (Inr t)
  let ?b = "insert_batch p a specs (upstream t)"
  show ?thesis
    using Inr next_id_insert_batch [of p a specs "upstream t"]
      next_id_gate_over [of "fst ?b" a "''Sub-plan review''" expand_gate_prompt "snd ?b"]
    by (auto simp: expand_node_def Let_def split_beta plan_simps split: sum.splits)
qed (simp add: expand_node_def)

lemma next_id_inject: "next_id (fst (inject_from_gate p i a specs)) \<le> next_id p + length specs"
proof (cases "require_mutable p i a")
  case (Inr t)
  then show ?thesis
    using next_id_insert_batch [of p a specs "upstream t"]
    by (auto simp: inject_from_gate_def Let_def split_beta plan_simps split: sum.splits)
qed (simp add: inject_from_gate_def)

lemma next_id_salvage: "next_id (fst (salvage_assignment p i l)) = next_id p"
  by (simp add: salvage_assignment_def Let_def plan_simps split: option.splits)

lemma next_id_salvage_all: "next_id (fst (salvage_all p l ids)) = next_id p"
  by (induction ids arbitrary: p) (simp_all add: split_beta next_id_salvage)

lemma next_id_dispatch: "next_id (fst (dispatch p i a)) = next_id p"
proof (cases "readiness_of p i = Inr Ready")
  case True
  then show ?thesis
    by (simp add: dispatch_Ready plan_simps)
next
  case False
  then obtain e where "snd (dispatch p i a) = Inl e"
    using dispatch_Inr_iff [of p i a] by (cases "snd (dispatch p i a)") auto
  then show ?thesis
    by (simp add: dispatch_Inl)
qed

lemma next_id_cascade: "next_id (fst (cascade_blocked p)) = next_id p"
  using cascade_blocked_swept(1) [of p] by (simp add: swept_def)

lemma next_id_op: "next_id (op_apply p op) \<le> next_id p + mints op"
proof (cases op)
  case (OpComplete i a art)
  then show ?thesis
    by (simp add: complete_node_def plan_simps split: option.splits sum.splits)
next
  case (OpFail i a r)
  then show ?thesis
    by (simp add: fail_node_def plan_simps split: sum.splits)
next
  case (OpAbandon i a r)
  then show ?thesis
    by (simp add: abandon_node_def plan_simps split: option.splits)
next
  case (OpSeed a key specs)
  then show ?thesis
    using next_id_seed [of p a key specs] by simp
next
  case (OpExpand i a specs)
  then show ?thesis
    using next_id_expand [of p i a specs] by simp
qed (simp_all add: next_id_inject next_id_salvage next_id_salvage_all salvage_actor_def
    next_id_dispatch next_id_cascade set_coordinator_def)

text \<open>
  The simulation loop: how many ids it needs, why it stops only on a settled plan unless
  something was refused or the rounds ran out, and that workers which always finish settle
  every plan in at most as many rounds as it has open tasks.
\<close>

section \<open>Steps\<close>

definition plan_next :: "task_plan \<Rightarrow> task_plan \<Rightarrow> bool" where
  "plan_next p q \<longleftrightarrow> (\<exists>op. plan_step p op q)"

lemma plan_next_op: "room p (mints op) \<Longrightarrow> plan_next p (op_apply p op)"
  unfolding plan_next_def by (blast intro: plan_step.intros)

lemma reachable_steps: "plan_next\<^sup>*\<^sup>* p q \<Longrightarrow> reachable_plan p \<Longrightarrow> reachable_plan q"
  by (induction rule: rtranclp_induct) (auto simp: plan_next_def intro: reachable_plan.step)

lemma wf_steps: "plan_next\<^sup>*\<^sup>* p q \<Longrightarrow> wf_plan p \<Longrightarrow> wf_plan q"
  by (induction rule: rtranclp_induct)
    (auto simp: plan_next_def wf_op_apply elim: plan_stepE)

text \<open>An executor whose batches mint at most \<open>b\<close> ids each.\<close>

definition batches_within :: "nat \<Rightarrow> 's sim_executor \<Rightarrow> bool" where
  "batches_within b exec \<longleftrightarrow> (\<forall>s a p l. mints (action_op a l (fst (exec s a p))) \<le> b)"

definition fits :: "task_plan \<Rightarrow> nat \<Rightarrow> task_plan \<Rightarrow> bool" where
  "fits p k q \<longleftrightarrow> plan_next\<^sup>*\<^sup>* p q \<and> next_id q \<le> next_id p + k"

lemma fits_refl: "fits p k p"
  by (simp add: fits_def)

lemma fits_trans: "fits p k q \<Longrightarrow> fits q l r \<Longrightarrow> fits p (k + l) r"
  by (auto simp: fits_def)

lemma fits_mono: "fits p k q \<Longrightarrow> k \<le> l \<Longrightarrow> fits p l q"
  by (simp add: fits_def)

lemma fits_op: "room p k \<Longrightarrow> mints op \<le> k \<Longrightarrow> fits p k (op_apply p op)"
  using next_id_op [of p op] by (auto simp: fits_def room_def intro!: r_into_rtranclp plan_next_op)

lemma fits_room: "fits p k q \<Longrightarrow> room p (k + l) \<Longrightarrow> room q l"
  by (simp add: fits_def room_def)

lemma fits_wf: "fits p k q \<Longrightarrow> wf_plan p \<Longrightarrow> wf_plan q"
  unfolding fits_def using wf_steps by blast

lemma room_0: "wf_plan p \<Longrightarrow> room p 0"
  using wf_planD(4) by (simp add: room_def)

lemma fits_dispatch: "wf_plan p \<Longrightarrow> fits p 0 (fst (dispatch p i a))"
  using fits_op [of p 0 "OpDispatch i a"] by (simp add: room_0)

lemma fits_cascade: "wf_plan p \<Longrightarrow> fits p 0 (fst (cascade_blocked p))"
  using fits_op [of p 0 OpCascade] by (simp add: room_0)

lemma fits_dispatch_all:
  "wf_plan p \<Longrightarrow> fits p 0 (fst (dispatch_all p rnd slot ids))
     \<and> length (snd (snd (dispatch_all p rnd slot ids))) \<le> length ids"
proof (induction ids arbitrary: p slot)
  case (Cons i ids)
  let ?q = "fst (dispatch p i (worker_name slot))"
  have f: "fits p 0 ?q"
    using Cons.prems by (rule fits_dispatch)
  then have "wf_plan ?q"
    using Cons.prems by (rule fits_wf)
  from Cons.IH [OF this, of "Suc slot"] fits_trans [OF f] show ?case
    by (force simp: Let_def split_beta split: sum.splits)
qed (simp add: fits_refl)

lemma fits_resolve_all:
  assumes "wf_plan p" "batches_within b exec" "room p (length asgs * b)"
  shows "fits p (length asgs * b) (fst (snd (resolve_all exec l s p asgs)))"
  using assms
proof (induction asgs arbitrary: p s)
  case (Cons a asgs)
  let ?act = "fst (exec s a p)"
  let ?q = "fst (sim_apply p a ?act l)"
  have "room p b"
    using Cons.prems(3) by (simp add: room_def)
  then have f: "fits p b ?q"
    using Cons.prems(2) unfolding fst_sim_apply by (auto simp: batches_within_def intro: fits_op)
  with Cons.prems have "wf_plan ?q" "room ?q (length asgs * b)"
    by (auto intro: fits_wf fits_room)
  from fits_trans [OF f Cons.IH [OF this(1) Cons.prems(2) this(2)]] show ?case
    by (simp add: split_beta)
qed (simp add: fits_refl)

lemma fits_sim_round:
  assumes "wf_plan p" "batches_within b exec" "room p (length ids * b)"
  shows "fits p (length ids * b) (fst (snd (sim_round exec cfg s p rnd ids)))"
proof -
  let ?d = "dispatch_all p rnd 0 ids"
  from fits_dispatch_all [OF assms(1), of rnd 0 ids]
  have f: "fits p 0 (fst ?d)" and len: "length (snd (snd ?d)) \<le> length ids"
    by simp_all
  have le: "length (snd (snd ?d)) * b \<le> length ids * b"
    using len by simp
  have "room (fst ?d) (length (snd (snd ?d)) * b)"
    using fits_room [OF f, of "length ids * b"] assms(3) le unfolding room_def by linarith
  from fits_resolve_all [OF fits_wf [OF f assms(1)] assms(2) this]
  have "fits p (length ids * b)
      (fst (snd (resolve_all exec (reclaim_limit cfg) s (fst ?d) (snd (snd ?d)))))"
    using fits_trans [OF f] fits_mono [OF _ le] by fastforce
  then show ?thesis
    by (simp add: sim_round_def split_beta)
qed

section \<open>Nothing is left in flight\<close>

lemma in_flight_dispatch:
  "in_flight (fst (dispatch p i a)) \<subseteq>
     in_flight p \<union> (if \<exists>x. snd (dispatch p i a) = Inr x then {i} else {})"
proof (cases "readiness_of p i = Inr Ready")
  case True
  then show ?thesis
    unfolding dispatch_Inr_iff by (auto simp: dispatch_Ready in_flight_def plan_simps split: if_splits)
next
  case False
  then obtain e where "snd (dispatch p i a) = Inl e"
    using dispatch_Inr_iff [of p i a] by (cases "snd (dispatch p i a)") auto
  then show ?thesis
    by (simp add: dispatch_Inl)
qed

lemma dispatch_asg:
  "snd (dispatch p i a) = Inr x \<Longrightarrow> asg_node x = i \<and> asg_assignee x = a
     \<and> (\<exists>n. node p i = Some n \<and> asg_kind x = kind n)"
  by (auto simp: dispatch_def Let_def split: sum.splits readiness.splits option.splits)

lemma in_flight_dispatch_all:
  "in_flight (fst (dispatch_all p rnd slot ids)) \<subseteq>
     in_flight p \<union> asg_node ` set (snd (snd (dispatch_all p rnd slot ids)))"
proof (induction ids arbitrary: p slot)
  case (Cons i ids)
  let ?d = "dispatch p i (worker_name slot)"
  note IH = Cons.IH [of "fst ?d" "Suc slot"]
  show ?case
  proof (cases "snd ?d")
    case (Inl e)
    with IH in_flight_dispatch [of p i "worker_name slot"] show ?thesis
      by (auto simp: split_beta)
  next
    case (Inr x)
    with IH in_flight_dispatch [of p i "worker_name slot"] dispatch_asg [OF Inr] show ?thesis
      by (auto simp: split_beta)
  qed
qed simp

lemma not_in_flight: "node q i = Some m \<Longrightarrow> status m = s \<Longrightarrow> \<forall>a. s \<noteq> Assigned a \<Longrightarrow> i \<notin> in_flight q"
  by (auto simp: in_flight_def)

lemma complete_node_Inr:
  "snd (complete_node p i a art) = Inr u \<Longrightarrow>
     fst (complete_node p i a art) =
       bump_version (node_mut p i (\<lambda>n. n\<lparr>status := Complete, artifact := Some art\<rparr>))"
  by (auto simp: complete_node_def split: option.splits sum.splits if_splits)

lemma fail_node_Inr:
  "snd (fail_node p i a r) = Inr u \<Longrightarrow>
     fst (fail_node p i a r) = bump_version (node_mut p i (\<lambda>n. n\<lparr>status := Failed r\<rparr>))"
  by (auto simp: fail_node_def split: sum.splits)

lemma salvage_not_in_flight:
  "i \<notin> in_flight (fst (salvage_assignment p i l))"
  by (auto simp: in_flight_def node_salvage_assignment salvage_write_def node_is_terminal_def
      split: if_splits)

lemma sim_apply_frees:
  assumes wf: "wf_plan p" and rm: "room p (mints (action_op a l act))"
    and ok: "\<not> is_refusal (snd (sim_apply p a act l))"
  shows "asg_node a \<notin> in_flight (fst (sim_apply p a act l))"
proof (cases act)
  case (ActComplete art)
  with ok obtain u where "snd (complete_node p (asg_node a) (asg_assignee a) art) = Inr u"
    by (cases "snd (complete_node p (asg_node a) (asg_assignee a) art)")
      (auto simp: sim_apply_def is_refusal_def Let_def split_beta)
  from complete_node_Inr [OF this] ActComplete show ?thesis
    by (auto simp: fst_sim_apply in_flight_def plan_simps)
next
  case (ActExpand specs)
  with rm have "room p (length specs + 1)"
    by simp
  with wf show ?thesis
  proof (rule expand_node_cases [of p specs "asg_node a" "asg_assignee a"])
    fix e assume "expand_node p (asg_node a) (asg_assignee a) specs = (p, Inl e)"
    with ok ActExpand show ?thesis
      by (simp add: sim_apply_def is_refusal_def)
  next
    fix target p2 created gate
    assume "expand_node p (asg_node a) (asg_assignee a) specs =
         (bump_version (node_mut p2 (asg_node a) (\<lambda>n. n\<lparr>upstream :=
            sort_dedup (case gate of None \<Rightarrow> created | Some g \<Rightarrow> [g]), status := Pending\<rparr>)),
          Inr \<lparr>children = created, expanded_gate = gate\<rparr>)"
    with ActExpand show ?thesis
      by (auto simp: fst_sim_apply in_flight_def plan_simps)
  qed
next
  case (ActInject specs)
  with rm have "room p (length specs)"
    by simp
  with wf show ?thesis
  proof (rule inject_from_gate_cases [of p specs "asg_node a" "asg_assignee a"])
    fix e assume "inject_from_gate p (asg_node a) (asg_assignee a) specs = (p, Inl e)"
    with ok ActInject show ?thesis
      by (simp add: sim_apply_def is_refusal_def)
  next
    fix target p1 injected
    assume "inject_from_gate p (asg_node a) (asg_assignee a) specs =
         (bump_version (node_mut p1 (asg_node a) (\<lambda>n. n\<lparr>upstream :=
            sort_dedup (upstream n @ injected), status := Pending\<rparr>)), Inr injected)"
    with ActInject show ?thesis
      by (auto simp: fst_sim_apply in_flight_def plan_simps)
  qed
next
  case (ActFail r)
  with ok obtain u where "snd (fail_node p (asg_node a) (asg_assignee a) r) = Inr u"
    by (cases "snd (fail_node p (asg_node a) (asg_assignee a) r)")
      (auto simp: sim_apply_def is_refusal_def Let_def split_beta)
  from fail_node_Inr [OF this] ActFail show ?thesis
    by (auto simp: fst_sim_apply in_flight_def plan_simps)
next
  case ActVanish
  then show ?thesis
    by (simp add: fst_sim_apply salvage_not_in_flight)
qed

lemma in_flight_sim_apply:
  assumes "wf_plan p" "room p (mints (action_op a l act))"
  shows "in_flight (fst (sim_apply p a act l)) \<subseteq> in_flight p"
  unfolding fst_sim_apply
  by (rule in_flight_step [OF kept_op [OF assms]]) (cases act; simp)

lemma in_flight_resolve_all:
  assumes "wf_plan p" "batches_within b exec" "room p (length asgs * b)"
    and "event_refusals (snd (snd (resolve_all exec l s p asgs))) = []"
    and "in_flight p \<subseteq> asg_node ` set asgs"
  shows "in_flight (fst (snd (resolve_all exec l s p asgs))) = {}"
  using assms
proof (induction asgs arbitrary: p s)
  case (Cons a asgs)
  let ?act = "fst (exec s a p)"
  let ?q = "fst (sim_apply p a ?act l)"
  have m: "mints (action_op a l ?act) \<le> b"
    using Cons.prems(2) by (simp add: batches_within_def)
  have "room p b"
    using Cons.prems(3) by (simp add: room_def)
  then have f: "fits p b ?q" and rm: "room p (mints (action_op a l ?act))"
    using m unfolding fst_sim_apply by (auto simp: room_def intro: fits_op)
  have nr: "\<not> is_refusal (snd (sim_apply p a ?act l))"
    and tl: "event_refusals (snd (snd (resolve_all exec l (snd (exec s a p)) ?q asgs))) = []"
    using Cons.prems(4) by (auto simp: event_refusals_Nil split_beta)
  have "in_flight ?q \<subseteq> asg_node ` set asgs"
    using in_flight_sim_apply [OF Cons.prems(1) rm] sim_apply_frees [OF Cons.prems(1) rm nr]
      Cons.prems(5) by auto
  moreover have "wf_plan ?q" "room ?q (length asgs * b)"
    using f Cons.prems by (auto intro: fits_wf fits_room)
  ultimately show ?case
    using Cons.IH [OF _ Cons.prems(2) _ tl] by (simp add: split_beta)
qed simp

lemma in_flight_sim_round:
  assumes wf: "wf_plan p" and b: "batches_within b exec" and rm: "room p (length ids * b)"
    and nr: "event_refusals (snd (snd (sim_round exec cfg s p rnd ids))) = []"
    and idle: "in_flight p = {}"
  shows "in_flight (fst (snd (sim_round exec cfg s p rnd ids))) = {}"
proof -
  let ?d = "dispatch_all p rnd 0 ids"
  from fits_dispatch_all [OF wf, of rnd 0 ids]
  have f: "fits p 0 (fst ?d)" and len: "length (snd (snd ?d)) * b \<le> length ids * b"
    by simp_all
  have "room (fst ?d) (length (snd (snd ?d)) * b)"
    using fits_room [OF f, of "length ids * b"] rm len unfolding room_def by linarith
  moreover have "in_flight (fst ?d) \<subseteq> asg_node ` set (snd (snd ?d))"
    using in_flight_dispatch_all [of p rnd 0 ids] idle by simp
  moreover have "event_refusals (snd (snd (resolve_all exec (reclaim_limit cfg) s (fst ?d)
      (snd (snd ?d))))) = []"
    using nr by (simp add: sim_round_def split_beta)
  ultimately show ?thesis
    using in_flight_resolve_all [OF fits_wf [OF f wf] b] by (simp add: sim_round_def split_beta)
qed

lemma in_flight_cascade: "in_flight (fst (cascade_blocked p)) \<subseteq> in_flight p"
  by (rule in_flight_step [OF kept_cascade]) simp

section \<open>The loop\<close>

definition sim_cost :: "sim_config \<Rightarrow> nat \<Rightarrow> nat \<Rightarrow> nat" where
  "sim_cost cfg rnd b = (max_rounds cfg - rnd) * (max (concurrency cfg) 1 * b)"

lemma frontier_length: "length (frontier_of cfg p) \<le> max (concurrency cfg) 1"
  by (simp add: frontier_of_def)

lemma sim_cost_step:
  assumes "rnd < max_rounds cfg"
  shows "sim_cost cfg rnd b = max (concurrency cfg) 1 * b + sim_cost cfg (rnd + 1) b"
proof -
  have "max_rounds cfg - rnd = Suc (max_rounds cfg - (rnd + 1))"
    using assms by simp
  then show ?thesis
    unfolding sim_cost_def by (simp only: mult_Suc)
qed

text \<open>What the loop guarantees of the plan \<open>q\<close>, the round count and the events it ends with.\<close>

definition loop_result ::
  "sim_config \<Rightarrow> task_plan \<Rightarrow> nat \<Rightarrow> nat \<Rightarrow> sim_event list \<Rightarrow> task_plan \<times> nat \<times> sim_event list \<Rightarrow> bool"
  where
  "loop_result cfg p k rnd evs res \<longleftrightarrow>
     (case res of (q, r, es) \<Rightarrow>
        fits p k q \<and> rnd \<le> r \<and> r \<le> max rnd (max_rounds cfg)
        \<and> (event_refusals es = [] \<longrightarrow> event_refusals evs = [] \<and>
             (in_flight p = {} \<longrightarrow>
                in_flight q = {} \<and>
                (r < max_rounds cfg \<longrightarrow> blocked_nodes q = [] \<and> ready_nodes q = []))))"

lemma sim_loop_result:
  assumes "wf_plan p" "batches_within b exec" "room p (sim_cost cfg rnd b)"
  shows "loop_result cfg p (sim_cost cfg rnd b) rnd evs (sim_loop exec cfg s p rnd evs)"
  using assms
proof (induction "max_rounds cfg - rnd" arbitrary: s p rnd evs rule: less_induct)
  case less
  let ?p1 = "fst (cascade_blocked p)"
  let ?ids = "frontier_of cfg ?p1"
  let ?evs1 = "evs @ map EvAbandoned (snd (cascade_blocked p))"
  have f1: "fits p 0 ?p1"
    using less.prems(1) by (rule fits_cascade)
  have wf1: "wf_plan ?p1"
    using f1 less.prems(1) by (rule fits_wf)
  have idle: "in_flight p = {} \<Longrightarrow> in_flight ?p1 = {}"
    using in_flight_cascade [of p] by auto
  consider "\<not> rnd < max_rounds cfg" | "rnd < max_rounds cfg" "?ids = []"
    | "rnd < max_rounds cfg" "?ids \<noteq> []"
    by blast
  then show ?case
  proof cases
    case 1
    then show ?thesis
      by (simp add: sim_loop.simps [of exec cfg s p rnd evs] loop_result_def fits_refl)
  next
    case 2
    then have "sim_loop exec cfg s p rnd evs = (?p1, rnd, ?evs1)"
      by (simp add: sim_loop.simps [of exec cfg s p rnd evs] split_beta Let_def)
    moreover have "ready_nodes ?p1 = []"
      using 2(2) by (simp add: frontier_of_def)
    moreover have "fits p (sim_cost cfg rnd b) ?p1"
      using f1 by (rule fits_mono) simp
    ultimately show ?thesis
      using idle 2(1) by (simp add: loop_result_def cascade_blocked_swept(4))
  next
    case 3
    let ?r = "sim_round exec cfg s ?p1 (rnd + 1) ?ids"
    let ?p2 = "fst (snd ?r)" and ?c = "max (concurrency cfg) 1 * b"
    have eq: "sim_loop exec cfg s p rnd evs =
        sim_loop exec cfg (fst ?r) ?p2 (rnd + 1) (?evs1 @ snd (snd ?r))"
      using 3 by (simp add: sim_loop.simps [of exec cfg s p rnd evs] split_beta Let_def)
    have cost: "sim_cost cfg rnd b = ?c + sim_cost cfg (rnd + 1) b"
      using 3(1) by (rule sim_cost_step)
    have room1: "room ?p1 (?c + sim_cost cfg (rnd + 1) b)"
      using fits_room [OF f1] less.prems(3) cost by simp
    have len: "length ?ids * b \<le> ?c"
      using frontier_length [of cfg ?p1] by (simp add: mult_le_mono1)
    then have rid: "room ?p1 (length ?ids * b)"
      using room1 unfolding room_def by linarith
    have f2: "fits ?p1 ?c ?p2"
      using fits_sim_round [OF wf1 less.prems(2) rid] len by (rule fits_mono)
    have wf2: "wf_plan ?p2" and room2: "room ?p2 (sim_cost cfg (rnd + 1) b)"
      using f2 wf1 room1 by (auto intro: fits_wf fits_room)
    have IH: "loop_result cfg ?p2 (sim_cost cfg (rnd + 1) b) (rnd + 1) (?evs1 @ snd (snd ?r))
        (sim_loop exec cfg (fst ?r) ?p2 (rnd + 1) (?evs1 @ snd (snd ?r)))"
      using less.hyps [OF _ wf2 less.prems(2) room2] 3(1) by simp
    have fit: "fits ?p2 (sim_cost cfg (rnd + 1) b) q \<Longrightarrow> fits p (sim_cost cfg rnd b) q" for q
      using fits_trans [OF f1 fits_trans [OF f2]] cost by fastforce
    note idle2 = in_flight_sim_round [OF wf1 less.prems(2) rid, of cfg s "rnd + 1"]
    show ?thesis
      using IH fit idle idle2 3(1) unfolding eq loop_result_def
      by (auto split: prod.splits)
  qed
qed

lemma cascade_nothing: "blocked_nodes p = [] \<Longrightarrow> cascade_blocked p = (p, [])"
  by (simp add: cascade_blocked_def cascade_loop.simps [of p])

lemma idle_settled:
  assumes "wf_plan p" "in_flight p = {}" "blocked_nodes p = []" "ready_nodes p = []"
  shows "is_settled p"
proof (rule ccontr)
  assume "\<not> is_settled p"
  moreover have "status n \<noteq> Assigned a" if "n \<in> set (plan_nodes p)" for n a
    using that assms(1,2) by (auto simp: plan_nodes_iff in_flight_def)
  ultimately show False
    using some_ready [OF assms(1) _ assms(3)] assms(4) by blast
qed

lemma simulate_fits:
  assumes "wf_plan p" "batches_within b exec" "room p (sim_cost cfg 0 b)"
  shows "fits p (sim_cost cfg 0 b) (fst (simulate p exec s cfg))"
proof -
  obtain q r es where l: "sim_loop exec cfg s p 0 [] = (q, r, es)"
    by (cases "sim_loop exec cfg s p 0 []") auto
  with sim_loop_result [OF assms, of "[]" s] have f: "fits p (sim_cost cfg 0 b) q"
    by (simp add: loop_result_def)
  from fits_trans [OF f fits_cascade [OF fits_wf [OF f assms(1)]]] l show ?thesis
    by (simp add: simulate_def split_beta)
qed

lemma simulate_settled:
  assumes "wf_plan p" "batches_within b exec" "room p (sim_cost cfg 0 b)" "in_flight p = {}"
    and "refusals (snd (simulate p exec s cfg)) = []"
    and "\<not> exhausted (snd (simulate p exec s cfg))"
  shows "is_settled (fst (simulate p exec s cfg))"
proof -
  obtain q r es where l: "sim_loop exec cfg s p 0 [] = (q, r, es)"
    by (cases "sim_loop exec cfg s p 0 []") auto
  with sim_loop_result [OF assms(1-3), of "[]" s] have f: "fits p (sim_cost cfg 0 b) q"
    by (simp add: loop_result_def)
  have "event_refusals es = []" "r < max_rounds cfg"
    using assms(5,6) l by (simp_all add: simulate_def refusals_def split_beta)
  with sim_loop_result [OF assms(1-3), of "[]" s] l assms(4)
  have q: "in_flight q = {}" "blocked_nodes q = []" "ready_nodes q = []"
    by (simp_all add: loop_result_def)
  have "is_settled q"
    by (rule idle_settled [OF fits_wf [OF f assms(1)] q])
  with l q(2) show ?thesis
    by (simp add: simulate_def cascade_nothing split_beta)
qed

section \<open>Workers that always finish\<close>

text \<open>An executor that either fails its task or hands off something a deep plan accepts.\<close>

definition finisher :: "'s sim_executor \<Rightarrow> bool" where
  "finisher exec \<longleftrightarrow>
     (\<forall>s a p. case fst (exec s a p) of
        ActFail r \<Rightarrow> True
      | ActComplete art \<Rightarrow> validate_artifact (asg_node a) (asg_kind a) True art = Inr ()
      | _ \<Rightarrow> False)"

definition open_ids :: "task_plan \<Rightarrow> node_id set" where
  "open_ids p = {i. \<exists>n. node p i = Some n \<and> \<not> is_terminal (status n)}"

lemma validate_artifact_deep:
  "validate_artifact i k True art = Inr () \<Longrightarrow> validate_artifact i k d art = Inr ()"
  by (auto simp: validate_artifact_def split: if_splits)

lemma finisherD:
  assumes "finisher exec"
  shows "(\<exists>r. fst (exec s a p) = ActFail r) \<or> (\<exists>art. fst (exec s a p) = ActComplete art
    \<and> validate_artifact (asg_node a) (asg_kind a) True art = Inr ())"
proof -
  have "case fst (exec s a p) of
        ActFail r \<Rightarrow> True
      | ActComplete art \<Rightarrow> validate_artifact (asg_node a) (asg_kind a) True art = Inr ()
      | _ \<Rightarrow> False"
    using assms unfolding finisher_def by blast
  then show ?thesis
    by (cases "fst (exec s a p)") auto
qed

lemma finisher_batches:
  assumes "finisher exec"
  shows "batches_within 0 exec"
  unfolding batches_within_def
proof (intro allI)
  fix s a p l
  show "mints (action_op a l (fst (exec s a p))) \<le> 0"
    using finisherD [OF assms, of s a p] by auto
qed

text \<open>A task held by the worker its assignment names.\<close>

definition holds_asg :: "task_plan \<Rightarrow> assignment \<Rightarrow> bool" where
  "holds_asg p a \<longleftrightarrow>
     (\<exists>n. node p (asg_node a) = Some n \<and> status n = Assigned (asg_assignee a)
        \<and> kind n = asg_kind a)"

lemma finisher_apply:
  fixes s l
  assumes fin: "finisher exec" and h: "holds_asg p a"
  defines "q \<equiv> sim_apply p a (fst (exec s a p)) l"
  shows "\<not> is_refusal (snd q)" "asg_node a \<notin> open_ids (fst q)"
    "j \<noteq> asg_node a \<Longrightarrow> node (fst q) j = node p j"
proof -
  obtain n where n: "node p (asg_node a) = Some n" "status n = Assigned (asg_assignee a)"
    "kind n = asg_kind a"
    using h by (auto simp: holds_asg_def)
  have act: "(\<exists>r. fst (exec s a p) = ActFail r) \<or> (\<exists>art. fst (exec s a p) = ActComplete art
      \<and> validate_artifact (asg_node a) (kind n) (is_deep (mode p)) art = Inr ())"
    using finisherD [OF fin, of s a p] n(3) validate_artifact_deep by auto
  have "\<not> is_refusal (snd q) \<and> asg_node a \<notin> open_ids (fst q)
      \<and> (j \<noteq> asg_node a \<longrightarrow> node (fst q) j = node p j)" for j
    using act
  proof (elim disjE exE conjE)
    fix r assume r: "fst (exec s a p) = ActFail r"
    have "require_mutable p (asg_node a) (asg_assignee a) = Inr n"
      using n by (simp add: require_mutable_def node_is_terminal_def assignee_def)
    then show ?thesis
      unfolding q_def r
      by (auto simp: sim_apply_def fail_node_def is_refusal_def open_ids_def plan_simps Let_def)
  next
    fix art assume art: "fst (exec s a p) = ActComplete art"
      "validate_artifact (asg_node a) (kind n) (is_deep (mode p)) art = Inr ()"
    have "complete_node p (asg_node a) (asg_assignee a) art = (bump_version
        (node_mut p (asg_node a) (\<lambda>n. n\<lparr>status := Complete, artifact := Some art\<rparr>)), Inr ())"
      using n art by (simp add: complete_node_def node_is_terminal_def assignee_def)
    then show ?thesis
      unfolding q_def art
      by (auto simp: sim_apply_def is_refusal_def open_ids_def plan_simps Let_def)
  qed
  then show "\<not> is_refusal (snd q)" "asg_node a \<notin> open_ids (fst q)"
    "j \<noteq> asg_node a \<Longrightarrow> node (fst q) j = node p j"
    by auto
qed

lemma finisher_resolve:
  assumes "finisher exec" "distinct (map asg_node asgs)" "\<forall>a \<in> set asgs. holds_asg p a"
  shows "event_refusals (snd (snd (resolve_all exec l s p asgs))) = []
    \<and> open_ids (fst (snd (resolve_all exec l s p asgs))) = open_ids p - asg_node ` set asgs"
  using assms
proof (induction asgs arbitrary: p s)
  case (Cons a asgs)
  let ?q = "sim_apply p a (fst (exec s a p)) l"
  have "holds_asg p a"
    using Cons.prems(3) by simp
  note q = finisher_apply [OF Cons.prems(1) this, where s = s and l = l]
  have "\<forall>b \<in> set asgs. holds_asg (fst ?q) b"
  proof
    fix b assume b: "b \<in> set asgs"
    then have "asg_node b \<in> set (map asg_node asgs)"
      by simp
    moreover have "asg_node a \<notin> set (map asg_node asgs)"
      using Cons.prems(2) by simp
    ultimately have "asg_node b \<noteq> asg_node a"
      by metis
    with b Cons.prems(3) q(3) show "holds_asg (fst ?q) b"
      by (simp add: holds_asg_def)
  qed
  with Cons have IH: "event_refusals (snd (snd (resolve_all exec l (snd (exec s a p)) (fst ?q) asgs))) = []"
    "open_ids (fst (snd (resolve_all exec l (snd (exec s a p)) (fst ?q) asgs)))
       = open_ids (fst ?q) - asg_node ` set asgs"
    by simp_all
  have "j \<in> open_ids (fst ?q) \<longleftrightarrow> j \<in> open_ids p \<and> j \<noteq> asg_node a" for j
    using q(2) q(3) [of j] by (cases "j = asg_node a") (auto simp: open_ids_def)
  then have "open_ids (fst ?q) = open_ids p - {asg_node a}"
    by blast
  with IH q(1) show ?case
    by (auto simp: split_beta event_refusals_Nil)
qed simp

lemma ready_after_dispatch:
  assumes "readiness_of p j = Inr Ready" "readiness_of p i = Inr Ready" "j \<noteq> i"
  shows "readiness_of (fst (dispatch p i a)) j = Inr Ready"
  using assms unfolding dispatch_Ready [OF assms(2)]
  by (fastforce simp: readiness_Ready_iff plan_simps)

lemma dispatch_all_ready:
  assumes "\<forall>i \<in> set ids. readiness_of p i = Inr Ready" "distinct ids"
  shows "event_refusals (fst (snd (dispatch_all p rnd slot ids))) = []
    \<and> map asg_node (snd (snd (dispatch_all p rnd slot ids))) = ids
    \<and> (\<forall>a \<in> set (snd (snd (dispatch_all p rnd slot ids))).
         holds_asg (fst (dispatch_all p rnd slot ids)) a)
    \<and> open_ids (fst (dispatch_all p rnd slot ids)) = open_ids p
    \<and> (\<forall>j. j \<notin> set ids \<longrightarrow> node (fst (dispatch_all p rnd slot ids)) j = node p j)"
  using assms
proof (induction ids arbitrary: p slot)
  case (Cons i ids)
  let ?w = "worker_name slot"
  let ?q = "fst (dispatch p i ?w)"
  have r: "readiness_of p i = Inr Ready" "i \<notin> set ids"
    using Cons.prems by simp_all
  then obtain x where x: "snd (dispatch p i ?w) = Inr x"
    using dispatch_Inr_iff [of p i ?w] by auto
  obtain n where n: "node p i = Some n" "asg_node x = i" "asg_assignee x = ?w"
    "asg_kind x = kind n" "status n = Pending"
    using dispatch_asg [OF x] r(1) by (auto simp: readiness_Ready_iff)
  have q: "?q = bump_version (node_mut p i (\<lambda>n. n\<lparr>status := Assigned ?w\<rparr>))"
    using r(1) by (rule dispatch_Ready)
  have o1: "open_ids ?q = open_ids p"
    using n by (auto simp: q open_ids_def plan_simps split: if_splits)
  have "\<forall>j \<in> set ids. readiness_of ?q j = Inr Ready"
    using Cons.prems r by (auto intro: ready_after_dispatch)
  note IH = Cons.IH [OF this, of "Suc slot"]
  have "node (fst (dispatch_all ?q rnd (Suc slot) ids)) i = Some (n\<lparr>status := Assigned ?w\<rparr>)"
    using IH r(2) Cons.prems(2) n by (simp add: q plan_simps)
  then have "holds_asg (fst (dispatch_all ?q rnd (Suc slot) ids)) x"
    using n by (simp add: holds_asg_def)
  moreover have "node ?q j = node p j" if "j \<noteq> i" for j
    using that by (simp add: q plan_simps)
  ultimately show ?case
    using IH o1 x n Cons.prems(2) by (simp add: split_beta)
qed simp

lemma finisher_round:
  assumes fin: "finisher exec" and wf: "wf_plan p" and ids: "set ids \<subseteq> set (ready_nodes p)" "distinct ids"
  shows "event_refusals (snd (snd (sim_round exec cfg s p rnd ids))) = []
    \<and> open_ids (fst (snd (sim_round exec cfg s p rnd ids))) = open_ids p - set ids"
proof -
  let ?d = "dispatch_all p rnd 0 ids"
  have "\<forall>i \<in> set ids. readiness_of p i = Inr Ready"
    using ids ready_nodes_iff [OF wf] by blast
  from dispatch_all_ready [OF this ids(2), of rnd 0]
  have d: "event_refusals (fst (snd ?d)) = []" "map asg_node (snd (snd ?d)) = ids"
    "\<forall>a \<in> set (snd (snd ?d)). holds_asg (fst ?d) a" "open_ids (fst ?d) = open_ids p"
    by simp_all
  have "asg_node ` set (snd (snd ?d)) = set ids"
    using d(2) by (metis list.set_map)
  with finisher_resolve [OF fin _ d(3)] d ids(2) show ?thesis
    by (simp add: sim_round_def split_beta)
qed

lemma settled_open: "wf_plan p \<Longrightarrow> is_settled p \<longleftrightarrow> open_ids p = {}"
proof -
  assume wf: "wf_plan p"
  have "is_settled p \<longleftrightarrow> (\<forall>n. node p (nid n) = Some n \<longrightarrow> is_terminal (status n))"
    using plan_nodes_iff [OF wf] by (auto simp: is_settled_def list_all_iff node_is_terminal_def)
  also have "\<dots> \<longleftrightarrow> open_ids p = {}"
    using wf_planD(6) [OF wf] by (fastforce simp: open_ids_def wf_node_def)
  finally show ?thesis .
qed

lemma finite_open: "finite (open_ids p)"
proof (rule finite_subset)
  show "open_ids p \<subseteq> plan_keys p"
    by (auto simp: open_ids_def plan_keys_def node_def bt.set_keys)
qed (simp add: plan_keys_def)

lemma open_cascade: "open_ids (fst (cascade_blocked p)) \<subseteq> open_ids p"
proof
  fix j assume "j \<in> open_ids (fst (cascade_blocked p))"
  then obtain m where m: "node (fst (cascade_blocked p)) j = Some m" "\<not> is_terminal (status m)"
    by (auto simp: open_ids_def)
  show "j \<in> open_ids p"
  proof (cases "j \<in> set (snd (cascade_blocked p))")
    case True
    then obtain n r where "node (fst (cascade_blocked p)) j = Some (n\<lparr>status := Abandoned r\<rparr>)"
      using cascade_blocked_swept(1) [of p] unfolding swept_def by blast
    with m show ?thesis
      by auto
  next
    case False
    then show ?thesis
      using cascade_blocked_swept(1) [of p] m by (simp add: swept_def open_ids_def)
  qed
qed

lemma ready_open:
  assumes "wf_plan p"
  shows "set (ready_nodes p) \<subseteq> open_ids p"
proof
  fix i assume "i \<in> set (ready_nodes p)"
  then have "readiness_of p i = Inr Ready"
    using ready_nodes_iff [OF assms] by blast
  then show "i \<in> open_ids p"
    by (auto simp: readiness_Ready_iff open_ids_def)
qed

lemma finisher_loop:
  assumes fin: "finisher exec" and "wf_plan p" "in_flight p = {}"
    and "card (open_ids p) \<le> max_rounds cfg - rnd"
  shows "event_refusals (snd (snd (sim_loop exec cfg s p rnd evs))) = event_refusals evs
    \<and> is_settled (fst (sim_loop exec cfg s p rnd evs))
    \<and> fst (snd (sim_loop exec cfg s p rnd evs)) \<le> rnd + card (open_ids p)"
  using assms(2-)
proof (induction "max_rounds cfg - rnd" arbitrary: s p rnd evs rule: less_induct)
  case less
  let ?p1 = "fst (cascade_blocked p)"
  let ?ids = "frontier_of cfg ?p1"
  have wf1: "wf_plan ?p1"
    using less.prems(1) by (rule wf_cascade_blocked)
  have idle1: "in_flight ?p1 = {}"
    using in_flight_cascade [of p] less.prems(2) by simp
  consider "\<not> rnd < max_rounds cfg" | "rnd < max_rounds cfg" "?ids = []"
    | "rnd < max_rounds cfg" "?ids \<noteq> []"
    by blast
  then show ?case
  proof cases
    case 1
    then have "open_ids p = {}"
      using less.prems(3) finite_open [of p] by simp
    with 1 less.prems(1) show ?thesis
      by (simp add: sim_loop.simps [of exec cfg s p rnd evs] settled_open)
  next
    case 2
    then have "ready_nodes ?p1 = []"
      by (simp add: frontier_of_def)
    then have "is_settled ?p1"
      by (intro idle_settled [OF wf1 idle1]) (simp_all add: cascade_blocked_swept(4))
    with 2 show ?thesis
      by (simp add: sim_loop.simps [of exec cfg s p rnd evs] split_beta Let_def)
  next
    case 3
    let ?r = "sim_round exec cfg s ?p1 (rnd + 1) ?ids"
    let ?p2 = "fst (snd ?r)"
    have ids: "set ?ids \<subseteq> set (ready_nodes ?p1)" "distinct ?ids"
      using sorted_ready_nodes [OF wf1]
      by (simp_all add: frontier_of_def set_take_subset strict_sorted_iff)
    note rnd = finisher_round [OF fin wf1 ids, of cfg s "rnd + 1"]
    have "fits ?p1 (length ?ids * 0) ?p2"
      using finisher_batches [OF fin] wf1 by (intro fits_sim_round) (simp_all add: room_0)
    then have wf2: "wf_plan ?p2"
      using wf1 by (rule fits_wf)
    have idle2: "in_flight ?p2 = {}"
      using finisher_batches [OF fin] wf1 rnd idle1
      by (intro in_flight_sim_round [where b = 0]) (simp_all add: room_0)
    have "set ?ids \<subseteq> open_ids ?p1"
      using ids(1) ready_open [OF wf1] by blast
    then have "open_ids ?p2 \<subset> open_ids ?p1"
      using rnd 3(2) by (cases ?ids) auto
    then have "card (open_ids ?p2) < card (open_ids p)"
      using open_cascade [of p] finite_open [of p] by (intro psubset_card_mono) auto
    then have card: "card (open_ids ?p2) + 1 \<le> card (open_ids p)"
      by simp
    have "sim_loop exec cfg s p rnd evs = sim_loop exec cfg (fst ?r) ?p2 (rnd + 1)
        ((evs @ map EvAbandoned (snd (cascade_blocked p))) @ snd (snd ?r))"
      using 3 by (simp add: sim_loop.simps [of exec cfg s p rnd evs] split_beta Let_def)
    moreover note less.hyps [OF _ wf2 idle2, of "rnd + 1" "fst ?r"
        "(evs @ map EvAbandoned (snd (cascade_blocked p))) @ snd (snd ?r)"]
    ultimately show ?thesis
      using card less.prems(3) rnd 3(1) by fastforce
  qed
qed

lemma settled_not_blocked:
  assumes "wf_plan p" "is_settled p"
  shows "blocked_nodes p = []"
proof (rule ccontr)
  assume "blocked_nodes p \<noteq> []"
  then obtain i where "i \<in> set (blocked_nodes p)"
    by (cases "blocked_nodes p") auto
  then have "i \<in> open_ids p"
    using blocked_nodes_iff [OF assms(1)] by (auto simp: readiness_Blocked_iff open_ids_def)
  with assms settled_open show False
    by blast
qed

lemma finisher_simulate:
  assumes "finisher exec" "wf_plan p" "in_flight p = {}" "card (open_ids p) \<le> max_rounds cfg"
  shows "is_settled (fst (simulate p exec s cfg))"
    "refusals (snd (simulate p exec s cfg)) = []"
    "rounds (snd (simulate p exec s cfg)) \<le> card (open_ids p)"
proof -
  obtain q r es where l: "sim_loop exec cfg s p 0 [] = (q, r, es)"
    by (cases "sim_loop exec cfg s p 0 []") auto
  with finisher_loop [OF assms(1-3), of cfg 0 s "[]"] assms(4)
  have q: "event_refusals es = []" "is_settled q" "r \<le> card (open_ids p)"
    by simp_all
  have "fits p (sim_cost cfg 0 0) q"
    using sim_loop_result [OF assms(2) finisher_batches [OF assms(1)], of cfg 0 "[]" s] l
      room_0 [OF assms(2)] by (simp add: loop_result_def sim_cost_def)
  then have "wf_plan q"
    using assms(2) by (rule fits_wf)
  then have "cascade_blocked q = (q, [])"
    using q(2) by (intro cascade_nothing settled_not_blocked)
  with l q show "is_settled (fst (simulate p exec s cfg))"
    "refusals (snd (simulate p exec s cfg)) = []"
    "rounds (snd (simulate p exec s cfg)) \<le> card (open_ids p)"
    by (simp_all add: simulate_def refusals_def split_beta)
qed

end
