(* ===== verification/Growth.thy ===== *)
theory Growth
  imports Ops_Inv
begin

text \<open>
  What seeding and expanding leave in the plan, node by node: the ids handed out, the edges
  of the new tasks, the gate over them, and that a repeated seed key answers as the first
  call did.
\<close>

lemma sort_dedup_id: "sorted_wrt (<) xs \<Longrightarrow> sort_dedup xs = xs"
  by (simp add: sort_dedup_def strict_sorted_iff sorted_sort_id remdups_adj_distinct)

section \<open>The gate over a batch\<close>

lemma gate_over_result:
  assumes "bt_inv (nodes p)" "bt_inv (applied_seeds p)" "gate_over p a t pr over = (q, gate)"
  shows "gate = (if is_deep (mode p) then Some (next_id p) else None)"
    "node q j = (if gate = Some j then Some (fresh_node (spec_gate t pr) a over j) else node p j)"
    "bt_inv (applied_seeds q)"
  using assms node_plan_insert_fresh [OF assms(1)]
  by (auto simp: gate_over_def append_gate_def split_beta plan_simps split: if_splits)

section \<open>Seeding twice\<close>

lemma seed_replay_kinds:
  assumes wf: "wf_plan p" and rm: "room p (length specs + 1)" and new: "replayed_seed p key = None"
    and ok: "validate_batch specs = Inr ()" "specs \<noteq> []"
  obtains q created gate where
    "seed p a key specs = (q, Inr \<lparr>seeded_nodes = created, seeded_gate = gate, replayed = False\<rparr>)"
    "replayed_seed q key = Some (created @ (case gate of None \<Rightarrow> [] | Some g \<Rightarrow> [g]))"
    "created = [next_id p..<next_id p + length specs]"
    "\<And>k. k < length specs \<Longrightarrow> is_gate_node q (next_id p + k) \<longleftrightarrow> spec_kind (specs ! k) = Gate"
    "\<And>g. gate = Some g \<Longrightarrow> is_gate_node q g"
proof -
  let ?m = "next_id p"
  have rm1: "room p (length specs)"
    using rm by (simp add: room_def)
  obtain p1 created where ib: "insert_batch p a specs [] = (p1, created)"
    by fastforce
  have br: "batch_result p a specs [] p1" and c: "created = [?m..<?m + length specs]"
    using insert_batch_result [OF wf rm1, of "[]" a] ib by simp_all
  obtain p2 gate where go: "gate_over p1 a ''Plan review'' seed_gate_prompt created = (p2, gate)"
    by fastforce
  let ?prod = "created @ (case gate of None \<Rightarrow> [] | Some g \<Rightarrow> [g])"
  let ?q = "bump_version (record_seed p2 key ?prod)"
  have eq: "seed p a key specs
      = (?q, Inr \<lparr>seeded_nodes = created, seeded_gate = gate, replayed = False\<rparr>)"
    using new ok ib go by (simp add: seed_def)
  have inv1: "bt_inv (nodes p1)" "bt_inv (applied_seeds p1)"
    using br by (simp_all add: batch_resultD)
  note p2 = gate_over_result [OF inv1 go]
  then have rep: "replayed_seed ?q key = Some ?prod"
    by (simp add: plan_simps replayed_record_seed)
  have kinds: "is_gate_node ?q (?m + k) \<longleftrightarrow> spec_kind (specs ! k) = Gate" if "k < length specs" for k
    using that br by (auto simp: is_gate_node_def plan_simps p2 batch_resultD)
  have gk: "is_gate_node ?q x" if "gate = Some x" for x
    using that by (auto simp: is_gate_node_def plan_simps p2(2) spec_gate_def)
  from that [OF eq rep c kinds gk] show thesis .
qed

lemma seed_again:
  assumes wf: "wf_plan p" and rm: "room p (length specs + 1)"
    and fresh: "snd (seed p a key specs) = Inr r" "\<not> replayed r"
    and tasks: "\<forall>s \<in> set specs. spec_kind s = Task"
  shows "seed (fst (seed p a key specs)) b key again
    = (fst (seed p a key specs), Inr (r\<lparr>replayed := True\<rparr>))"
proof -
  have new: "replayed_seed p key = None" and ok: "validate_batch specs = Inr ()" "specs \<noteq> []"
    using fresh by (auto simp: seed_def split: option.splits if_splits sum.splits)
  obtain q created gate where q: "seed p a key specs
      = (q, Inr \<lparr>seeded_nodes = created, seeded_gate = gate, replayed = False\<rparr>)"
    "replayed_seed q key = Some (created @ (case gate of None \<Rightarrow> [] | Some g \<Rightarrow> [g]))"
    "created = [next_id p..<next_id p + length specs]"
    "\<And>k. k < length specs \<Longrightarrow> is_gate_node q (next_id p + k) \<longleftrightarrow> spec_kind (specs ! k) = Gate"
    "\<And>g. gate = Some g \<Longrightarrow> is_gate_node q g"
    using seed_replay_kinds [OF wf rm new ok, of a] by metis
  have "\<not> is_gate_node q j" if "j \<in> set created" for j
  proof -
    from that have "j = next_id p + (j - next_id p)" "j - next_id p < length specs"
      by (auto simp: q(3))
    with q(4) [of "j - next_id p"] tasks show ?thesis
      by (metis node_kind.distinct(1) nth_mem)
  qed
  then have "filter (is_gate_node q) created = []" "filter (\<lambda>i. \<not> is_gate_node q i) created = created"
    by (simp_all add: filter_empty_conv)
  with q fresh show ?thesis
    by (auto simp: seed_def split: option.splits)
qed

section \<open>Expanding a task\<close>

lemma expand_result:
  assumes wf: "wf_plan p" and rm: "room p (length specs + 1)"
    and x: "expand_node p i a specs = (q, Inr x)"
  obtains target where "require_mutable p i a = Inr target"
    "children x = [next_id p..<next_id p + length specs]"
    "expanded_gate x = (if is_deep (mode p) then Some (next_id p + length specs) else None)"
    "node q i = Some (target\<lparr>upstream := (case expanded_gate x of None \<Rightarrow> children x | Some g \<Rightarrow> [g]),
                             status := Pending\<rparr>)"
    "\<And>c. c \<in> set (children x) \<Longrightarrow>
       node q c = Some (batch_node specs a (upstream target) (next_id p) c)"
    "\<And>g. expanded_gate x = Some g \<Longrightarrow>
       node q g = Some (fresh_node (spec_gate ''Sub-plan review'' expand_gate_prompt) a (children x) g)"
proof -
  let ?m = "next_id p"
  from x obtain target where t: "require_mutable p i a = Inr target"
    by (auto simp: expand_node_def split: sum.splits)
  have i: "node p i = Some target"
    using require_mutableD [OF t] by simp
  then have im: "i < ?m"
    using wf_planD(6) [OF wf i] by (simp add: wf_node_def)
  have inh: "\<forall>u \<in> set (upstream target). node p u \<noteq> None"
    using wf i by (auto simp: wf_node_def dest!: wf_planD(6))
  have rm1: "room p (length specs)"
    using rm by (simp add: room_def)
  obtain p1 created where ib: "insert_batch p a specs (upstream target) = (p1, created)"
    by fastforce
  have br: "batch_result p a specs (upstream target) p1" and c: "created = [?m..<?m + length specs]"
    using insert_batch_result [OF wf rm1 inh, of a] ib by simp_all
  obtain p2 gate where
    go: "gate_over p1 a ''Sub-plan review'' expand_gate_prompt created = (p2, gate)"
    by fastforce
  have inv1: "bt_inv (nodes p1)" "bt_inv (applied_seeds p1)" and f1: "mode p1 = mode p"
    "next_id p1 = ?m + length specs"
    using br by (simp_all add: batch_resultD)
  note p2 = gate_over_result [OF inv1 go, unfolded f1]
  let ?w = "case gate of None \<Rightarrow> created | Some g \<Rightarrow> [g]"
  have q: "q = bump_version (node_mut p2 i (\<lambda>n. n\<lparr>upstream := sort_dedup ?w, status := Pending\<rparr>))"
    and xx: "x = \<lparr>children = created, expanded_gate = gate\<rparr>"
    using x t ib go by (auto simp: expand_node_def Let_def split: if_splits sum.splits)
  have "sort_dedup ?w = ?w"
    by (auto simp: c sort_dedup_id split: option.splits)
  moreover have "node p2 i = Some target"
    using i im br p2 by (auto simp: batch_resultD)
  ultimately have "node q i = Some (target\<lparr>upstream := ?w, status := Pending\<rparr>)"
    by (simp add: q plan_simps)
  moreover have "node q j = Some (batch_node specs a (upstream target) ?m j)" if "j \<in> set created" for j
    using that im br p2 by (auto simp: q c plan_simps batch_resultD)
  moreover have "node q g = Some (fresh_node (spec_gate ''Sub-plan review'' expand_gate_prompt) a
      created g)" if "gate = Some g" for g
    using that im p2 by (auto simp: q plan_simps split: if_splits)
  ultimately show thesis
    using that [OF t] c p2(1) by (simp add: xx)
qed

end
