(* ===== verification/Taskgraph_Spec.thy ===== *)
theory Taskgraph_Spec
  imports Sim_Live Growth
begin

text \<open>
  The contract of the task graph crate: what holds of every plan that its operations can
  produce, what each operation may do, and what scheduling and simulation promise. Each
  property is stated over the definitions that model the crate and is followed by an instance
  on a small concrete plan.
\<close>

section \<open>A small plan for the examples\<close>

definition demo_specs :: "node_spec list" where
  "demo_specs = [spec_task ''a'' ''do a'', spec_after (spec_task ''b'' ''do b'') 0]"

definition demo_plan :: task_plan where
  "demo_plan = fst (seed (plan_new ''goal'' Deep ''boss'') ''boss'' ''k1'' demo_specs)"

definition demo_art :: handoff_artifact where
  "demo_art =
     with_validation (with_evidence (with_gap (artifact_new ''f'' confidence_FULL) ''x'') ''e'') ''v''"

definition demo_done :: task_plan where
  "demo_done = fst (complete_node (fst (dispatch demo_plan 1 ''w'')) 1 ''w'' demo_art)"

lemma demo_plan_reachable: "reachable_plan demo_plan"
proof (rule reachable_plan.step [OF reachable_plan.fresh])
  show "plan_step (plan_new ''goal'' Deep ''boss'') (OpSeed ''boss'' ''k1'' demo_specs) demo_plan"
    unfolding demo_plan_def op_apply.simps(1) [symmetric]
    by (rule apply_op) (simp add: room_def plan_new_def demo_specs_def)
qed

lemma demo_next_id: "next_id demo_plan = 4" "next_id demo_done = 4"
  by code_simp+

lemma demo_done_reachable: "reachable_plan demo_done"
proof -
  let ?p = "op_apply demo_plan (OpDispatch 1 ''w'')"
  have "plan_step demo_plan (OpDispatch 1 ''w'') ?p"
    by (rule apply_op) (simp add: room_def demo_next_id)
  moreover have "plan_step ?p (OpComplete 1 ''w'' demo_art) (op_apply ?p (OpComplete 1 ''w'' demo_art))"
    by (rule apply_op) (simp add: room_def demo_next_id next_id_dispatch)
  ultimately show ?thesis
    unfolding demo_done_def using demo_plan_reachable by (auto intro: reachable_plan.step)
qed

lemmas demo_wf = demo_plan_reachable [THEN reachable_inv, THEN conjunct1]
  demo_done_reachable [THEN reachable_inv, THEN conjunct1]

section \<open>Every reachable plan\<close>

text \<open>
  C1. Whatever sequence of operations produced a plan (seed, expand, complete, inject, fail,
  abandon, salvage, dispatch, the sweep, a change of coordinator), its tasks are stored in id
  order under their own ids below the next id to hand out, every dependency names a task of
  the plan, dependencies are listed in order without repeats, a handoff is present exactly on
  completed tasks, recorded seed batches name existing tasks, and the waits-on relation has no
  cycle. The ids an operation mints must still fit in 32 bits.
\<close>

theorem reachable_plan_well_formed: "reachable_plan p \<Longrightarrow> wf_plan p"
  using reachable_inv by blast

theorem reachable_plan_well_formed_witness:
  "reachable_plan demo_done \<and> wf_plan demo_done \<and> ready_nodes demo_done = [2]"
proof -
  have "ready_nodes demo_done = [2]"
    by code_simp
  then show ?thesis
    using demo_done_reachable reachable_plan_well_formed [OF demo_done_reachable] by simp
qed

text \<open>
  C2. In every reachable plan, a task that has been handed to a worker or has completed has
  every task it waits on completed: no operation starts a task early, and none adds a
  dependency to a task while leaving it started.
\<close>

theorem nothing_starts_early:
  assumes "reachable_plan p" "node p i = Some n"
    and "status n = Complete \<or> status n = Assigned w" and "u \<in> set (upstream n)"
  shows "\<exists>m. node p u = Some m \<and> status m = Complete"
proof -
  have "in_order p"
    using assms(1) reachable_inv by blast
  moreover have "started (status n)"
    using assms(3) by (auto simp: started_def)
  ultimately show ?thesis
    using in_orderD assms(2,4) by blast
qed

theorem nothing_starts_early_witness:
  "\<exists>m. node (fst (dispatch demo_done 2 ''w'')) 1 = Some m \<and> status m = Complete"
proof -
  let ?p = "op_apply demo_done (OpDispatch 2 ''w'')"
  have r: "reachable_plan ?p"
    by (rule reachable_plan.step [OF demo_done_reachable apply_op])
      (simp add: room_def demo_next_id)
  have n: "map_option (\<lambda>n. (status n, upstream n)) (node ?p 2) = Some (Assigned ''w'', [1])"
    by code_simp
  then obtain n where "node ?p 2 = Some n" "status n = Assigned ''w''" "1 \<in> set (upstream n)"
    by auto
  from nothing_starts_early [OF r this(1) disjI2 [OF this(2)] this(3)] show ?thesis
    by simp
qed

text \<open>
  C9. In every reachable plan a completed task carries a handoff whose findings are not
  blank, which says what was left unchecked when the plan is deep, and which, on a gate, says
  how the work was validated and cites at least one piece of evidence that is not blank.
\<close>

theorem completed_tasks_are_reported:
  assumes "reachable_plan p" "node p i = Some n" "status n = Complete"
  shows "\<exists>art. artifact n = Some art \<and> trim (findings art) \<noteq> []
    \<and> (mode p = Deep \<longrightarrow> trim (what_i_did_not_check art) \<noteq> [])
    \<and> (kind n = Gate \<longrightarrow> trim (validation art) \<noteq> [] \<and> (\<exists>e \<in> set (evidence art). trim e \<noteq> []))"
proof -
  have "wf_node p i n" "honest p"
    using assms reachable_inv wf_planD(6) by blast+
  then obtain art where art: "artifact n = Some art"
    using assms(3) by (auto simp: wf_node_def)
  then have "validate_artifact i (kind n) (is_deep (mode p)) art = Inr ()"
    using honestD \<open>honest p\<close> assms(2) by blast
  then show ?thesis
    using art by (auto simp: validate_artifact_def list_ex_iff split: if_splits)
qed

theorem completed_tasks_are_reported_witness:
  "\<exists>n art. node demo_done 1 = Some n \<and> artifact n = Some art \<and> trim (findings art) \<noteq> []"
proof -
  have "map_option status (node demo_done 1) = Some Complete"
    by code_simp
  then obtain n where n: "node demo_done 1 = Some n" "status n = Complete"
    by auto
  from completed_tasks_are_reported [OF demo_done_reachable this] n(1) show ?thesis
    by auto
qed

section \<open>What an operation may do\<close>

text \<open>
  C10. A task that completed, failed or was abandoned is never changed again: after any
  operation on a well-formed plan the very same record is stored under its id.
\<close>

theorem terminal_tasks_are_final:
  assumes "wf_plan p" "room p (mints op)" "node p i = Some n" "is_terminal (status n)"
  shows "node (op_apply p op) i = Some n"
  using terminal_kept [OF kept_op [OF assms(1,2)] assms(3,4)] .

theorem terminal_tasks_are_final_witness:
  "\<exists>n. node (op_apply demo_done (OpFail 1 ''boss'' ''late'')) 1 = Some n \<and> status n = Complete"
proof -
  have "map_option status (node demo_done 1) = Some Complete"
    by code_simp
  then obtain n where n: "node demo_done 1 = Some n" "status n = Complete"
    by auto
  have "node (op_apply demo_done (OpFail 1 ''boss'' ''late'')) 1 = Some n"
    by (rule terminal_tasks_are_final [OF demo_wf(2) _ n(1)])
      (simp_all add: room_def demo_next_id n(2))
  with n(2) show ?thesis
    by blast
qed

text \<open>What an actor needs for an operation of its own to change task \<open>j\<close>.\<close>

fun authorised :: "plan_op \<Rightarrow> node_id \<Rightarrow> task_node \<Rightarrow> bool" where
  "authorised (OpSeed a key specs) j n = False"
| "authorised (OpExpand i a specs) j n = (j = i \<and> (owner n = a \<or> status n = Assigned a))"
| "authorised (OpInject i a specs) j n =
     (j = i \<and> kind n = Gate \<and> (owner n = a \<or> status n = Assigned a))"
| "authorised (OpComplete i a art) j n = (j = i \<and> status n = Assigned a)"
| "authorised (OpFail i a r) j n = (j = i \<and> (owner n = a \<or> status n = Assigned a))"
| "authorised (OpAbandon i a r) j n = (j = i \<and> owner n = a)"
| "authorised (OpDispatch i a) j n = (j = i \<and> status n = Pending)"
| "authorised (OpSalvageActor a l) j n = (status n = Assigned a)"
| "authorised (OpSalvage i l) j n = (j = i)"
| "authorised OpCascade j n = (status n = Pending)"
| "authorised (OpCoordinator a) j n = False"

text \<open>
  C11. Authority. When an operation changes a task that was already in the plan, that task was
  not yet terminal and the operation was entitled to it: completing needs the assignment,
  abandoning needs ownership, expanding, injecting and failing need one of the two, injecting
  also needs a gate; dispatch and the sweep touch pending tasks only, salvaging an actor only
  what that actor holds; seeding and a change of coordinator change no existing task at all.
\<close>

theorem only_entitled_changes:
  assumes "wf_plan p" "room p (mints op)" "node p j = Some n" "node (op_apply p op) j \<noteq> Some n"
  shows "\<not> is_terminal (status n) \<and> authorised op j n"
proof -
  have asg: "assignee n = Some a \<Longrightarrow> status n = Assigned a" for a
    by (simp add: assignee_def split: task_status.splits)
  obtain m where t: "\<not> node_is_terminal n" and c: "changes p j n op m"
    using kept_opD(2) [OF kept_op [OF assms(1,2)] assms(3)] assms(4) by auto
  from c assms(3) have "authorised op j n"
    by (cases op) (auto simp: may_act_def asg readiness_Ready_iff dest: doomed_pending)
  with t show ?thesis
    by (simp add: node_is_terminal_def)
qed

theorem only_entitled_changes_witness:
  "\<exists>n. node demo_plan 2 = Some n
     \<and> node (op_apply demo_plan (OpAbandon 2 ''boss'' ''no'')) 2 \<noteq> Some n \<and> owner n = ''boss''"
proof -
  have "map_option status (node demo_plan 2) = Some Pending"
    and after: "map_option status (node (op_apply demo_plan (OpAbandon 2 ''boss'' ''no'')) 2)
      = Some (Abandoned ''no'')"
    by code_simp+
  then obtain n where n: "node demo_plan 2 = Some n" "status n = Pending"
    by auto
  have ch: "node (op_apply demo_plan (OpAbandon 2 ''boss'' ''no'')) 2 \<noteq> Some n"
    using after n(2) by auto
  have "room demo_plan (mints (OpAbandon 2 ''boss'' ''no''))"
    by (simp add: room_def demo_next_id)
  from only_entitled_changes [OF demo_wf(1) this n(1) ch] n(1) ch show ?thesis
    by auto
qed

text \<open>The answer an operation gives, without its payload.\<close>

fun op_result :: "task_plan \<Rightarrow> plan_op \<Rightarrow> plan_error + unit" where
  "op_result p (OpSeed a key specs) = map_sum id (\<lambda>_. ()) (snd (seed p a key specs))"
| "op_result p (OpExpand i a specs) = map_sum id (\<lambda>_. ()) (snd (expand_node p i a specs))"
| "op_result p (OpComplete i a art) = snd (complete_node p i a art)"
| "op_result p (OpInject i a specs) = map_sum id (\<lambda>_. ()) (snd (inject_from_gate p i a specs))"
| "op_result p (OpFail i a r) = snd (fail_node p i a r)"
| "op_result p (OpAbandon i a r) = snd (abandon_node p i a r)"
| "op_result p (OpSalvage i l) = map_sum id (\<lambda>_. ()) (snd (salvage_assignment p i l))"
| "op_result p (OpDispatch i a) = map_sum id (\<lambda>_. ()) (snd (dispatch p i a))"
| "op_result p _ = Inr ()"

text \<open>
  A refused operation leaves the plan exactly as it was, version included, and on a
  well-formed plan the cycle check that guards an expansion and a gate's injection never
  fires: new work is wired so that it cannot close a loop.
\<close>

theorem refusals_leave_the_plan:
  assumes wf: "wf_plan p" and rm: "room p (mints op)" and e: "op_result p op = Inl e"
  shows "op_apply p op = p \<and> (\<forall>a b. e \<noteq> WouldCycle a b)"
proof (cases op)
  case (OpSeed a key specs)
  with rm have "room p (length specs + 1)"
    by simp
  then show ?thesis
    by (rule seed_cases [OF wf, of _ a key]) (use OpSeed e in \<open>simp_all add: early_refusal_def\<close>)
next
  case (OpExpand i a specs)
  with rm have "room p (length specs + 1)"
    by simp
  then show ?thesis
    by (rule expand_node_cases [OF wf, of _ i a]) (use OpExpand e in \<open>simp_all add: early_refusal_def\<close>)
next
  case (OpInject i a specs)
  with rm have "room p (length specs)"
    by simp
  then show ?thesis
    by (rule inject_from_gate_cases [OF wf, of _ i a]) (use OpInject e in \<open>simp_all add: early_refusal_def\<close>)
next
  case (OpComplete i a art)
  with e show ?thesis
    by (auto simp: complete_node_def validate_artifact_def split: option.splits sum.splits if_splits)
next
  case (OpFail i a r)
  with e show ?thesis
    by (auto simp: fail_node_def require_mutable_def split: option.splits sum.splits if_splits)
next
  case (OpAbandon i a r)
  with e show ?thesis
    by (auto simp: abandon_node_def split: option.splits if_splits)
next
  case (OpSalvage i l)
  with e show ?thesis
    by (auto simp: salvage_assignment_def Let_def split: option.splits if_splits)
next
  case (OpDispatch i a)
  with e have "snd (dispatch p i a) = Inl e"
    by (cases "snd (dispatch p i a)") auto
  moreover from this have "\<forall>a b. e \<noteq> WouldCycle a b"
    by (auto simp: dispatch_def readiness_of_def assemble_input_def Let_def
        split: option.splits if_splits)
  ultimately show ?thesis
    using OpDispatch dispatch_Inl by simp
qed (use e in simp_all)

theorem refusals_leave_the_plan_witness:
  "op_apply demo_plan (OpFail 2 ''eve'' ''no'') = demo_plan"
proof -
  have "op_result demo_plan (OpFail 2 ''eve'' ''no'') = Inl (NotOwner 2 ''eve'' ''boss'')"
    by code_simp
  from refusals_leave_the_plan [OF demo_wf(1) _ this] show ?thesis
    by (simp add: room_def demo_next_id)
qed

section \<open>Growing the plan\<close>

text \<open>
  The check on a batch of new tasks decides exactly what it is meant to: it accepts the
  batches in which every named position exists and no chain of in-batch dependencies leads
  back to its start; it reports an index out of range as such, with a position some task
  really names, and otherwise a position that really lies on a loop.
\<close>

theorem validate_batch_exact:
  "case validate_batch specs of
     Inr _ \<Rightarrow> (\<forall>i < length specs. \<forall>j \<in> set (depends_on_batch (specs ! i)). j < length specs)
             \<and> acyclic {(i, j). i < length specs \<and> j \<in> set (depends_on_batch (specs ! i))}
   | Inl (BatchIndexOutOfRange j n) \<Rightarrow>
       n = length specs \<and> n \<le> j \<and> (\<exists>s \<in> set specs. j \<in> set (depends_on_batch s))
   | Inl (BatchCycle j) \<Rightarrow>
       (j, j) \<in> {(i, k). i < length specs \<and> k \<in> set (depends_on_batch (specs ! i))}\<^sup>+
   | Inl _ \<Rightarrow> False"
proof -
  have rel: "{(i, j). i < length specs \<and> j \<in> set (depends_on_batch (specs ! i))} = batch_rel specs"
    by (auto simp: batch_rel_def deps_def split: if_splits)
  show ?thesis
    unfolding rel
    by (rule validate_batch_cases [of specs])
      (auto simp: deps_in_range_def deps_def split: if_splits)
qed

theorem validate_batch_exact_witness:
  "acyclic {(i, j). i < length demo_specs \<and> j \<in> set (depends_on_batch (demo_specs ! i))}"
proof -
  have "validate_batch demo_specs = Inr ()"
    by code_simp
  with validate_batch_exact [of demo_specs] show ?thesis
    by simp
qed

text \<open>
  The worklist search behind the cycle check answers exactly the transitive closure of
  the waits-on relation, on any plan: it terminates, finds every path and invents none.
\<close>

theorem search_is_transitive_closure:
  "depends_transitively_on p a b \<longleftrightarrow>
     (a, b) \<in> {(x, y). \<exists>n. node p x = Some n \<and> y \<in> set (upstream n)}\<^sup>+"
  using depends_transitively_on_iff [of p a b] by (simp add: edges_def)

text \<open>
  Seeding is idempotent per key: after a batch of plain tasks was seeded, a second call
  with the same key, by anyone and with any batch, changes nothing and answers with the same
  tasks and the same gate, marked as a replay.
\<close>

theorem seed_is_idempotent:
  assumes "wf_plan p" "room p (length specs + 1)" "seed p a key specs = (q, Inr r)"
    and "\<not> replayed r" "\<forall>s \<in> set specs. spec_kind s = Task"
  shows "seed q b key again = (q, Inr (r\<lparr>replayed := True\<rparr>))"
  using seed_again [OF assms(1,2) _ assms(4,5), of a key b again] assms(3) by simp

theorem seed_is_idempotent_witness:
  "seed demo_plan ''eve'' ''k1'' [] =
     (demo_plan, Inr \<lparr>seeded_nodes = [1, 2], seeded_gate = Some 3, replayed = True\<rparr>)"
proof -
  let ?p = "plan_new ''goal'' Deep ''boss''"
  have "snd (seed ?p ''boss'' ''k1'' demo_specs)
      = Inr \<lparr>seeded_nodes = [1, 2], seeded_gate = Some 3, replayed = False\<rparr>"
    by code_simp
  then have "seed ?p ''boss'' ''k1'' demo_specs
      = (demo_plan, Inr \<lparr>seeded_nodes = [1, 2], seeded_gate = Some 3, replayed = False\<rparr>)"
    by (simp add: demo_plan_def prod_eq_iff)
  from seed_is_idempotent [OF wf_plan_new _ this, of "''eve''" "[]"] show ?thesis
    by (simp add: room_def plan_new_def demo_specs_def spec_task_def spec_after_def)
qed

text \<open>
  A batch that itself contains a gate is not replayed faithfully: the second call
  reports the batch's own gate as the review gate and leaves it out of the tasks.
\<close>

theorem seed_replay_with_own_gate:
  "\<exists>q r r'. seed (plan_new ''goal'' Light ''boss'') ''boss'' ''k'' [spec_gate ''g'' ''check''] = (q, Inr r)
     \<and> seed q ''boss'' ''k'' [spec_gate ''g'' ''check''] = (q, Inr r')
     \<and> seeded_nodes r = [1] \<and> seeded_gate r = None \<and> seeded_nodes r' = [] \<and> seeded_gate r' = Some 1"
proof -
  let ?s = "seed (plan_new ''goal'' Light ''boss'') ''boss'' ''k'' [spec_gate ''g'' ''check'']"
  have 1: "snd ?s = Inr \<lparr>seeded_nodes = [1], seeded_gate = None, replayed = False\<rparr>"
    by code_simp
  have 2: "snd (seed (fst ?s) ''boss'' ''k'' [spec_gate ''g'' ''check''])
      = Inr \<lparr>seeded_nodes = [], seeded_gate = Some 1, replayed = True\<rparr>"
    by code_simp
  have "fst (seed (fst ?s) ''boss'' ''k'' [spec_gate ''g'' ''check'']) = fst ?s"
    using 2 by (auto simp: seed_def [of "fst ?s"] split: option.splits if_splits sum.splits prod.splits)
  with 2 have 3: "seed (fst ?s) ''boss'' ''k'' [spec_gate ''g'' ''check''] = (fst ?s,
      Inr \<lparr>seeded_nodes = [], seeded_gate = Some 1, replayed = True\<rparr>)"
    by (simp add: prod_eq_iff)
  from 1 have 4: "?s = (fst ?s, Inr \<lparr>seeded_nodes = [1], seeded_gate = None, replayed = False\<rparr>)"
    by (simp add: prod_eq_iff)
  show ?thesis
    by (intro exI conjI, rule 4, rule 3) simp_all
qed

text \<open>
  Expanding a task hands its place in the order down to the children: each child is a
  pending task of the actor that waits on everything the task waited on, a deep plan puts one
  review gate over exactly the children, and the expanded task goes back to pending and waits
  on the gate, or on the children when there is none.
\<close>

theorem expand_hands_work_down:
  assumes "wf_plan p" "room p (length specs + 1)" "expand_node p i a specs = (q, Inr x)"
  shows "\<exists>t. node p i = Some t
    \<and> (\<exists>m. node q i = Some m \<and> status m = Pending
         \<and> upstream m = (case expanded_gate x of None \<Rightarrow> children x | Some g \<Rightarrow> [g]))
    \<and> (\<forall>c \<in> set (children x). \<exists>m. node p c = None \<and> node q c = Some m \<and> status m = Pending
         \<and> owner m = a \<and> set (upstream t) \<subseteq> set (upstream m))
    \<and> (case expanded_gate x of
         None \<Rightarrow> mode p = Light
       | Some g \<Rightarrow> mode p = Deep \<and> (\<exists>m. node q g = Some m \<and> kind m = Gate \<and> upstream m = children x))
    \<and> length (children x) = length specs"
proof (rule expand_result [OF assms])
  fix t
  assume t: "require_mutable p i a = Inr t"
    and c: "children x = [next_id p..<next_id p + length specs]"
    and g: "expanded_gate x = (if is_deep (mode p) then Some (next_id p + length specs) else None)"
    and i: "node q i = Some (t\<lparr>upstream := (case expanded_gate x of None \<Rightarrow> children x
                                          | Some g \<Rightarrow> [g]), status := Pending\<rparr>)"
    and ch: "\<And>c. c \<in> set (children x) \<Longrightarrow>
       node q c = Some (batch_node specs a (upstream t) (next_id p) c)"
    and gt: "\<And>g. expanded_gate x = Some g \<Longrightarrow>
       node q g = Some (fresh_node (spec_gate ''Sub-plan review'' expand_gate_prompt) a (children x) g)"
  have mode: "expanded_gate x = None \<longleftrightarrow> mode p = Light" "mode p = Light \<or> mode p = Deep"
    by (cases "mode p"; simp add: g)+
  have "node p c = None \<and> set (upstream t) \<subseteq> set (upstream (batch_node specs a (upstream t) (next_id p) c))"
    if "c \<in> set (children x)" for c
    using that assms(1) by (auto simp: c wf_node_fresh batch_node_def set_upstream_wire_node)
  moreover have "sort_dedup (children x) = children x"
    by (simp add: c sort_dedup_id)
  ultimately show ?thesis
    unfolding i using require_mutableD [OF t] ch gt mode
    by (intro exI [of _ t]) (auto simp: spec_gate_def c split: option.splits)
qed

theorem expand_hands_work_down_witness:
  "\<exists>q x m. expand_node demo_plan 2 ''boss'' [spec_task ''c'' ''do c''] = (q, Inr x)
     \<and> node q 2 = Some m \<and> upstream m = [5] \<and> status m = Pending"
proof -
  let ?e = "expand_node demo_plan 2 ''boss'' [spec_task ''c'' ''do c'']"
  have "snd ?e = Inr \<lparr>children = [4], expanded_gate = Some 5\<rparr>"
    by code_simp
  then have e: "?e = (fst ?e, Inr \<lparr>children = [4], expanded_gate = Some 5\<rparr>)"
    by (simp add: prod_eq_iff)
  have "room demo_plan (length [spec_task ''c'' ''do c''] + 1)"
    by (simp add: room_def demo_next_id)
  from expand_hands_work_down [OF demo_wf(1) this e] e show ?thesis
    by auto
qed

section \<open>Scheduling\<close>

text \<open>
  Dispatch succeeds exactly for a pending task whose dependencies have all completed; it
  then assigns the task to the worker and advances the version by one, and changes no other
  task.
\<close>

theorem dispatch_exactly_when_ready:
  "if \<exists>n. node p i = Some n \<and> status n = Pending
        \<and> (\<forall>u \<in> set (upstream n). \<exists>m. node p u = Some m \<and> status m = Complete)
   then \<exists>q asg. dispatch p i w = (q, Inr asg)
        \<and> node q i = map_option (\<lambda>n. n\<lparr>status := Assigned w\<rparr>) (node p i)
        \<and> (\<forall>j. j \<noteq> i \<longrightarrow> node q j = node p j) \<and> version q = version p + 1
   else \<exists>e. dispatch p i w = (p, Inl e)"
proof (cases "readiness_of p i = Inr Ready")
  case True
  then obtain asg where "dispatch p i w = (fst (dispatch p i w), Inr asg)"
    using dispatch_Inr_iff [of p i w] by (metis prod.collapse)
  then show ?thesis
    using True unfolding readiness_Ready_iff [symmetric]
    by (simp add: dispatch_Ready plan_simps)
next
  case False
  then obtain e where e: "snd (dispatch p i w) = Inl e"
    using dispatch_Inr_iff [of p i w] by (cases "snd (dispatch p i w)") auto
  then have "dispatch p i w = (p, Inl e)"
    using dispatch_Inl [OF e] by (simp add: prod_eq_iff)
  with False show ?thesis
    unfolding readiness_Ready_iff [symmetric] by simp
qed

theorem dispatch_exactly_when_ready_witness:
  "\<exists>q asg. dispatch demo_plan 1 ''w'' = (q, Inr asg)"
proof -
  have "map_option (\<lambda>n. (status n, upstream n)) (node demo_plan 1) = Some (Pending, [])"
    by code_simp
  then have "\<exists>n. node demo_plan 1 = Some n \<and> status n = Pending
      \<and> (\<forall>u \<in> set (upstream n). \<exists>m. node demo_plan u = Some m \<and> status m = Complete)"
    by auto
  with dispatch_exactly_when_ready [of demo_plan 1 "''w''"] show ?thesis
    by auto
qed

text \<open>
  The sweep terminates and abandons exactly the pending tasks that can never start,
  directly or through a chain of pending tasks, because something they wait on failed, was
  abandoned or is missing; it lists each of them once, leaves every other task alone, and
  afterwards nothing is blocked.
\<close>

theorem sweep_abandons_exactly_the_doomed:
  assumes "wf_plan p" and "cascade_blocked p = (q, ids)"
  shows "set ids = {i. doomed p i} \<and> distinct ids
    \<and> (\<forall>i \<in> set ids. \<exists>n r. node p i = Some n \<and> node q i = Some (n\<lparr>status := Abandoned r\<rparr>))
    \<and> (\<forall>i. i \<notin> set ids \<longrightarrow> node q i = node p i)
    \<and> blocked_nodes q = []"
proof -
  have q: "q = fst (cascade_blocked p)" "ids = snd (cascade_blocked p)"
    using assms(2) by simp_all
  have "set ids = {i. doomed p i}" "distinct ids" "blocked_nodes q = []"
    unfolding q using cascade_blocked_doomed [OF assms(1)] cascade_blocked_swept(3,4) [of p]
    by blast+
  moreover have "\<forall>i \<in> set ids. \<exists>n r. node p i = Some n \<and> node q i = Some (n\<lparr>status := Abandoned r\<rparr>)"
    "\<forall>i. i \<notin> set ids \<longrightarrow> node q i = node p i"
    using sweptD [OF cascade_blocked_swept(1) [of p]] unfolding q by blast+
  ultimately show ?thesis
    by simp
qed

theorem sweep_abandons_exactly_the_doomed_witness:
  "\<exists>q ids. cascade_blocked (op_apply demo_plan (OpFail 1 ''boss'' ''x'')) = (q, ids)
     \<and> ids = [2, 3] \<and> blocked_nodes q = []"
proof -
  let ?p = "op_apply demo_plan (OpFail 1 ''boss'' ''x'')"
  have ids: "snd (cascade_blocked ?p) = [2, 3]"
    by code_simp
  have "wf_plan ?p"
    by (rule wf_op_apply [OF demo_wf(1)]) (simp add: room_def demo_next_id)
  then have "blocked_nodes (fst (cascade_blocked ?p)) = []"
    by (rule sweep_abandons_exactly_the_doomed [OF _ prod.collapse [symmetric], THEN conjunct2,
          THEN conjunct2, THEN conjunct2, THEN conjunct2])
  with ids show ?thesis
    by (metis prod.collapse)
qed

text \<open>
  C34. No deadlock: once the sweep has run on a well-formed plan in which no task is with a
  worker, either every task is terminal or there is a task that can be dispatched now.
\<close>

theorem no_deadlock:
  assumes "wf_plan p" and "\<forall>n \<in> set (plan_nodes p). \<forall>w. status n \<noteq> Assigned w"
  shows "is_settled (fst (cascade_blocked p))
    \<or> (\<exists>i. \<forall>w. \<exists>asg. snd (dispatch (fst (cascade_blocked p)) i w) = Inr asg)"
proof -
  let ?q = "fst (cascade_blocked p)"
  have wf: "wf_plan ?q"
    using assms(1) by (rule wf_cascade_blocked)
  have "in_flight p = {}"
    using assms(2) wf_planD(6) [OF assms(1)] plan_nodes_iff [OF assms(1)]
    by (fastforce simp: in_flight_def wf_node_def)
  then have "in_flight ?q = {}"
    using in_flight_cascade [of p] by simp
  then have "is_settled ?q \<or> ready_nodes ?q \<noteq> []"
    using idle_settled [OF wf] cascade_blocked_swept(4) by blast
  then show ?thesis
    using ready_nodes_iff [OF wf] dispatch_Inr_iff by (metis list.set_intros(1) list.exhaust)
qed

theorem no_deadlock_witness:
  "\<exists>i. \<forall>w. \<exists>asg. snd (dispatch (fst (cascade_blocked demo_plan)) i w) = Inr asg"
proof -
  have "list_all (\<lambda>n. case status n of Assigned w \<Rightarrow> False | _ \<Rightarrow> True) (plan_nodes demo_plan)"
    and s: "\<not> is_settled (fst (cascade_blocked demo_plan))"
    by code_simp+
  then have "\<forall>n \<in> set (plan_nodes demo_plan). \<forall>w. status n \<noteq> Assigned w"
    by (auto simp: list_all_iff split: task_status.splits)
  from no_deadlock [OF demo_wf(1) this] s show ?thesis
    by blast
qed

text \<open>
  A worker is told everything it builds on: the text a dispatch hands out contains the
  objective, the task's own prompt, and for every task it waits on the full rendering of that
  task's handoff.
\<close>

theorem dispatch_input_is_complete:
  assumes "wf_plan p" "dispatch p i w = (q, Inr asg)" "node p i = Some n"
  shows "str_contains (asg_input asg) (objective p)
    \<and> str_contains (asg_input asg) (trim (prompt n))
    \<and> (\<forall>u \<in> set (upstream n). \<exists>m art. node p u = Some m \<and> artifact m = Some art
          \<and> str_contains (asg_input asg) (render art (up_label p u)))"
proof -
  have r: "readiness_of p i = Inr Ready"
    using dispatch_Inr_iff [of p i w] assms(2) by auto
  then have input: "assemble_input p i = Inr (asg_input asg)"
    using assms(2) by (auto simp: dispatch_def Let_def split: sum.splits option.splits)
  have ups: "\<exists>m art. node p u = Some m \<and> artifact m = Some art" if "u \<in> set (upstream n)" for u
    using readyD [OF r assms(3) that] wf_planD(6) [OF assms(1)] by (fastforce simp: wf_node_def)
  show ?thesis
    using assemble_input_contains [OF assms(3) input] ups by metis
qed

theorem dispatch_input_is_complete_witness:
  "\<exists>q asg m art. dispatch demo_done 2 ''w'' = (q, Inr asg) \<and> node demo_done 1 = Some m
     \<and> artifact m = Some art \<and> str_contains (asg_input asg) (render art (up_label demo_done 1))"
proof -
  have "map_option upstream (node demo_done 2) = Some [1]"
    and "case snd (dispatch demo_done 2 ''w'') of Inr _ \<Rightarrow> True | Inl _ \<Rightarrow> False"
    by code_simp+
  then obtain n q asg where n: "node demo_done 2 = Some n" "upstream n = [1]"
    and d: "dispatch demo_done 2 ''w'' = (q, Inr asg)"
    by (cases "dispatch demo_done 2 ''w''") (auto split: sum.splits)
  from dispatch_input_is_complete [OF demo_wf(2) d n(1)] n(2) d show ?thesis
    by auto
qed

text \<open>
  The progress count accounts for every task exactly once: its six buckets add up to
  the number of tasks in the plan, whatever the plan.
\<close>

theorem progress_partitions_the_plan:
  "let g = progress p
   in total g = plan_len p
      \<and> prog_complete g + prog_failed g + prog_abandoned g + prog_assigned g + prog_ready g
        + prog_waiting g = plan_len p"
  using progress_fold [of p "\<lparr>total = plan_len p, prog_complete = 0, prog_failed = 0,
      prog_abandoned = 0, prog_assigned = 0, prog_ready = 0, prog_waiting = 0\<rparr>" "plan_nodes p"]
  by (simp add: progress_def Let_def plan_len_def plan_nodes_def bt_values_def)

section \<open>Salvage\<close>

text \<open>
  Salvaging a lost worker takes back everything it held: afterwards no task is assigned
  to it, and each task it held is either pending again with its reclaim count one higher, the
  count still within the limit, or failed because the count had already reached the limit.
\<close>

theorem salvage_takes_everything_back:
  assumes "wf_plan p" "salvage_actor p a limit = (q, out)"
  shows "(\<forall>j m. node q j = Some m \<longrightarrow> status m \<noteq> Assigned a)
    \<and> (\<forall>j n. node p j = Some n \<and> status n = Assigned a \<longrightarrow>
         (\<exists>m. node q j = Some m
            \<and> (if reclaims n < limit
               then status m = Pending \<and> reclaims m = reclaims n + 1 \<and> reclaims m \<le> limit
               else \<exists>r. status m = Failed r)))"
proof -
  have q: "q = fst (salvage_actor p a limit)"
    using assms(2) by simp
  have "status m \<noteq> Assigned a" if "node q j = Some m" for j m
    using salvage_actor_frees [OF assms(1), of a limit j m] that
    by (auto simp: q assignee_def)
  moreover have "\<exists>m. node q j = Some m
      \<and> (if reclaims n < limit
         then status m = Pending \<and> reclaims m = reclaims n + 1 \<and> reclaims m \<le> limit
         else \<exists>r. status m = Failed r)" if n: "node p j = Some n" "status n = Assigned a" for j n
  proof -
    have "j \<in> set (stranded p a)"
      using n stranded_iff [OF assms(1)] by (simp add: assignee_def)
    then have "node q j = Some (salvage_write limit n)"
      using n assms(1) by (simp add: q salvage_actor_def node_salvage_all distinct_stranded)
    then show ?thesis
      using n by (auto simp: salvage_write_def node_is_terminal_def inc_le not_le)
  qed
  ultimately show ?thesis
    by blast
qed

theorem salvage_takes_everything_back_witness:
  "\<exists>m. node (fst (salvage_actor (fst (dispatch demo_plan 1 ''w'')) ''w'' 2)) 1 = Some m
     \<and> status m = Pending \<and> reclaims m = 1"
proof -
  let ?p = "op_apply demo_plan (OpDispatch 1 ''w'')"
  have wf: "wf_plan ?p"
    by (rule wf_op_apply [OF demo_wf(1)]) (simp add: room_def demo_next_id)
  have "map_option (\<lambda>n. (status n, reclaims n)) (node ?p 1) = Some (Assigned ''w'', 0)"
    by code_simp
  then obtain n where n: "node ?p 1 = Some n" "status n = Assigned ''w''" "reclaims n = 0"
    by auto
  from salvage_takes_everything_back [OF wf prod.collapse [symmetric], of "''w''" 2] n
  show ?thesis
    by force
qed

section \<open>Simulation\<close>

text \<open>
  A simulation of a reachable plan in which nothing is in flight, against any executor
  whose batches stay within \<open>b\<close> ids (and with enough ids left for every round), ends on a
  reachable plan; and if it neither recorded a refusal nor hit its round ceiling, every task
  of that plan is terminal.
\<close>

theorem simulation_settles_or_says_why:
  assumes "reachable_plan p" "batches_within b exec"
    and "next_id p + max_rounds cfg * (max (concurrency cfg) 1 * b) < 2 ^ 32"
    and "\<forall>n \<in> set (plan_nodes p). \<forall>w. status n \<noteq> Assigned w"
    and "simulate p exec s cfg = (q, rep)"
  shows "reachable_plan q
    \<and> (settled rep \<longleftrightarrow> (\<forall>n \<in> set (plan_nodes q). is_terminal (status n)))
    \<and> (refusals rep = [] \<and> \<not> exhausted rep \<longrightarrow> settled rep)"
proof -
  have wf: "wf_plan p"
    using assms(1) reachable_inv by blast
  have rm: "room p (sim_cost cfg 0 b)"
    using assms(3) by (simp add: room_def sim_cost_def)
  have idle: "in_flight p = {}"
    using assms(4) wf_planD(6) [OF wf] plan_nodes_iff [OF wf]
    by (fastforce simp: in_flight_def wf_node_def)
  have "plan_next\<^sup>*\<^sup>* p q"
    using simulate_fits [OF wf assms(2) rm, of s] assms(5) by (simp add: fits_def)
  then have "reachable_plan q"
    using assms(1) by (rule reachable_steps)
  moreover have rep: "settled rep = is_settled q"
    using assms(5) by (auto simp: simulate_def split_beta Let_def)
  moreover have "is_settled q" if "refusals rep = []" "\<not> exhausted rep"
    using simulate_settled [OF wf assms(2) rm idle, of s] assms(5) that by simp
  ultimately show ?thesis
    by (auto simp: is_settled_def list_all_iff node_is_terminal_def)
qed

definition demo_exec :: "unit sim_executor" where
  "demo_exec s a p = (ActComplete demo_art, ())"

lemma demo_finisher: "finisher demo_exec"
  by (simp add: finisher_def demo_exec_def validate_artifact_def demo_art_def with_validation_def
      with_evidence_def with_gap_def artifact_new_def trim_eq_Nil blank_def is_whitespace_def)

lemma demo_idle: "\<forall>n \<in> set (plan_nodes demo_plan). \<forall>w. status n \<noteq> Assigned w"
proof -
  have "list_all (\<lambda>n. case status n of Assigned w \<Rightarrow> False | _ \<Rightarrow> True) (plan_nodes demo_plan)"
    by code_simp
  then show ?thesis
    by (auto simp: list_all_iff split: task_status.splits)
qed

theorem simulation_settles_or_says_why_witness:
  "reachable_plan (fst (simulate demo_plan demo_exec () sim_config_default))"
  using simulation_settles_or_says_why [OF demo_plan_reachable finisher_batches [OF demo_finisher]
      _ demo_idle prod.collapse [symmetric], of sim_config_default "()"]
  by (simp add: demo_next_id)

text \<open>
  C35. Liveness: workers that always finish, by failing their task or by handing off
  something a deep plan accepts, settle any well-formed plan in which nothing is in flight,
  without a single refusal and in at most as many rounds as the plan has open tasks, whatever
  the concurrency, provided the round ceiling is not below that.
\<close>

theorem finishing_workers_settle_the_plan:
  assumes "wf_plan p" "finisher exec"
    and "\<forall>n \<in> set (plan_nodes p). \<forall>w. status n \<noteq> Assigned w"
    and "card {i. \<exists>n. node p i = Some n \<and> \<not> is_terminal (status n)} \<le> max_rounds cfg"
    and "simulate p exec s cfg = (q, rep)"
  shows "(\<forall>n \<in> set (plan_nodes q). is_terminal (status n)) \<and> refusals rep = []
    \<and> rounds rep \<le> card {i. \<exists>n. node p i = Some n \<and> \<not> is_terminal (status n)}"
proof -
  have "in_flight p = {}"
    using assms(3) wf_planD(6) [OF assms(1)] plan_nodes_iff [OF assms(1)]
    by (fastforce simp: in_flight_def wf_node_def)
  from finisher_simulate [OF assms(2,1) this, of cfg s] assms(4,5) show ?thesis
    by (simp add: open_ids_def is_settled_def list_all_iff node_is_terminal_def)
qed

theorem finishing_workers_settle_the_plan_witness:
  "refusals (snd (simulate demo_plan demo_exec () sim_config_default)) = []"
proof -
  have "{i. \<exists>n. node demo_plan i = Some n \<and> \<not> is_terminal (status n)} \<subseteq> {..<4}"
    using wf_planD(6) [OF demo_wf(1)] by (auto simp: wf_node_def demo_next_id)
  from card_mono [OF _ this]
  have "card {i. \<exists>n. node demo_plan i = Some n \<and> \<not> is_terminal (status n)}
      \<le> max_rounds sim_config_default"
    by (simp add: sim_config_default_def)
  from finishing_workers_settle_the_plan [OF demo_wf(1) demo_finisher demo_idle this
      prod.collapse [symmetric], of "()"] show ?thesis
    by simp
qed

section \<open>Confidence\<close>

lemma parse_1e39: "parse_f32 ''1e39'' = Some (F32_Inf False)"
proof -
  have e: "parse_exponent ''e39'' = Some 39"
    by code_simp
  have "takeWhile is_ascii_digit ''1e39'' = ''1''" "dropWhile is_ascii_digit ''1e39'' = ''e39''"
    "digits_val ''1'' = 1"
    by code_simp+
  then have d: "parse_decimal ''1e39'' = Some (pow10 39)"
    by (simp add: parse_decimal_def Let_def e)
  have "round_f32 (pow10 39) = F32_Inf False"
    by (rule round_f32_overflow) (simp add: pow2_def pow10_def)
  then have "parse_unsigned_f32 False ''1e39'' = Some (F32_Inf False)"
    unfolding parse_unsigned_f32_def d by (simp add: to_ascii_lowercase_def) 
  then show ?thesis
    by (simp add: parse_f32_def)
qed

lemma read_nan: "read_numeric ''1e39/1e39'' = Some (Confidence F32_NaN)"
proof -
  have "trim_matches read_numeric_trim ''1e39/1e39'' = ''1e39/1e39''"
    "split_once ''1e39/1e39'' CHR ''/'' = Some (''1e39'', ''1e39'')" "trim ''1e39'' = ''1e39''"
    by code_simp+
  then show ?thesis
    by (simp add: read_numeric_def Let_def parse_1e39 confidence_new_def)
qed

text \<open>
  Reading a self-reported confidence never yields a number outside the unit interval: the
  value is between 0 and 1 or it is not a number at all; a blank report is missing and
  anything else that cannot be read is returned as it was written, trimmed.
\<close>

theorem confidence_is_normalised:
  "case parse_confidence raw of
     Inr c \<Rightarrow> confidence_value c = F32_NaN
             \<or> (\<exists>v. confidence_value c = F32_Fin v \<and> 0 \<le> v \<and> v \<le> 1)
   | Inl Missing \<Rightarrow> list_all is_whitespace raw
   | Inl (Unreadable t) \<Rightarrow> t = trim raw \<and> \<not> list_all is_whitespace raw"
  using parse_confidence_normalised [of raw] parse_confidence_error [of raw]
  by (auto simp: normalised_def in_unit_def blank_def
      split: sum.splits confidence_error.splits f32.splits if_splits)

text \<open>
  The case that is not a number exists: a ratio of two literals that both overflow
  single precision passes the positive-denominator check and divides to NaN, which the clamp
  lets through.
\<close>

theorem confidence_can_be_nan:
  "parse_confidence ''1e39/1e39'' = Inr (Confidence F32_NaN)"
proof -
  have t: "trim ''1e39/1e39'' = ''1e39/1e39''" "to_ascii_lowercase ''1e39/1e39'' = ''1e39/1e39''"
    "remove_char CHR '' '' ''1e39/1e39'' = ''1e39/1e39''"
    by code_simp+
  have "list_all (\<lambda>n. \<not> str_contains ''1e39/1e39'' n) (map fst WORD_SCALE)"
    unfolding WORD_SCALE_def list.map fst_conv by code_simp
  then have "find (\<lambda>(needle, _). str_contains ''1e39/1e39'' needle) WORD_SCALE = None"
    by (auto simp: find_None_iff list_all_iff)
  then show ?thesis
    unfolding parse_confidence_def Let_def t by (simp add: read_nan)
qed

end
