(* ===== verification/Swarm_Inv.thy ===== *)
theory Swarm_Inv
  imports Swarm_Registry
begin

text \<open>
  The invariant of the swarm registry and that every operation keeps it: the session index and
  the memberships say the same, a swarm has one of its two shapes, an idempotency key is in at
  most one of the two tables and in each at most once.
\<close>

section \<open>The invariant\<close>

definition keys_ok :: "swarm \<Rightarrow> bool" where
  "keys_ok e \<longleftrightarrow>
     (\<forall>i j k. bt_get (reservations e) i = Some (Some k)
        \<and> bt_get (reservations e) j = Some (Some k) \<longrightarrow> i = j)
     \<and> (\<forall>i k. bt_get (reservations e) i = Some (Some k) \<longrightarrow> bt_get (settled_keys e) k = None)"

definition maps_ok :: "swarm \<Rightarrow> bool" where
  "maps_ok e \<longleftrightarrow>
     bt_inv (sw_members e) \<and> bt_inv (reservations e) \<and> bt_inv (settled_keys e)
     \<and> bt_inv (heartbeats e)"

definition members_ok :: "swarm \<Rightarrow> bool" where
  "members_ok e \<longleftrightarrow>
     (\<forall>s m. bt_get (sw_members e) s = Some m \<longrightarrow>
        mem_session m = s \<and> (mem_role m = Peer \<longleftrightarrow> topology e = Some PairShape)
        \<and> (topology e = Some PairShape \<longrightarrow> report_back_to m = None))"

definition shape_ok :: "swarm \<Rightarrow> bool" where
  "shape_ok e \<longleftrightarrow>
     (topology e \<noteq> Some Hierarchical \<longrightarrow>
        reservations e = [] \<and> settled_keys e = [] \<and> sw_coordinator e = None \<and> sw_plan e = None)
     \<and> (topology e = None \<longrightarrow> sw_members e = [] \<and> admitted e = 0)
     \<and> (topology e = Some PairShape \<longrightarrow> length (sw_members e) \<le> 2 \<and> admitted e = 2)"

definition wf_swarm :: "swarm \<Rightarrow> bool" where
  "wf_swarm e \<longleftrightarrow> maps_ok e \<and> members_ok e \<and> shape_ok e \<and> keys_ok e"

definition wf_registry :: "registry \<Rightarrow> bool" where
  "wf_registry g \<longleftrightarrow>
     bt_inv (reg_swarms g) \<and> bt_inv (by_session g)
     \<and> (\<forall>sw. wf_swarm (entry_of g sw))
     \<and> (\<forall>s sw. swarm_of g s = Some sw \<longleftrightarrow> s \<in> dom (bt_get (sw_members (entry_of g sw))))"

lemmas wf_swarm_defs = wf_swarm_def maps_ok_def members_ok_def shape_ok_def keys_ok_def

lemma wf_swarm_default [simp]: "wf_swarm swarm_default"
  by (simp add: wf_swarm_defs swarm_default_def bt_empty_def)

lemma sw_members_default [simp]: "sw_members swarm_default = []"
  by (simp add: swarm_default_def bt_empty_def)

lemma wf_registry_new: "wf_registry (with_limits l)"
  by (simp add: wf_registry_def with_limits_def registry_new_def entry_of_def swarm_of_def dom_def)

section \<open>Lookups after a write\<close>

lemma entry_put [simp]:
  "bt_inv (reg_swarms g) \<Longrightarrow> entry_of (put_swarm g sw e) = (entry_of g)(sw := e)"
  by (auto simp: entry_of_def put_swarm_def bt_laws fun_eq_iff)

lemma put_swarm_fields [simp]:
  "by_session (put_swarm g sw e) = by_session g"
  "reg_limits (put_swarm g sw e) = reg_limits g"
  "next_reservation (put_swarm g sw e) = next_reservation g"
  "swarm_of (put_swarm g sw e) = swarm_of g"
  by (simp_all add: put_swarm_def swarm_of_def fun_eq_iff)

lemma bt_inv_put [simp]: "bt_inv (reg_swarms g) \<Longrightarrow> bt_inv (reg_swarms (put_swarm g sw e))"
  by (simp add: put_swarm_def bt_laws)

lemma put_put [simp]:
  "bt_inv (reg_swarms g) \<Longrightarrow> put_swarm (put_swarm g sw e) sw e' = put_swarm g sw e'"
proof -
  have "bt_insert k v (bt_insert k w m) = bt_insert k v m" for k :: string and v w :: swarm and m
    by (induction k w m rule: bt_insert.induct) auto
  then show ?thesis
    by (simp add: put_swarm_def)
qed

lemma map_session_fields [simp]:
  "reg_swarms (map_session g s sw) = reg_swarms g"
  "entry_of (map_session g s sw) = entry_of g"
  "reg_limits (map_session g s sw) = reg_limits g"
  "next_reservation (map_session g s sw) = next_reservation g"
  by (simp_all add: map_session_def entry_of_def fun_eq_iff)

lemma swarm_of_map_session [simp]:
  "bt_inv (by_session g) \<Longrightarrow> swarm_of (map_session g s sw) = (swarm_of g)(s \<mapsto> sw)"
  by (simp add: map_session_def swarm_of_def bt_laws fun_eq_iff)

lemma bt_inv_map_session [simp]:
  "bt_inv (by_session g) \<Longrightarrow> bt_inv (by_session (map_session g s sw))"
  by (simp add: map_session_def bt_laws)

lemma entry_of_Some: "bt_get (reg_swarms g) sw = Some e \<Longrightarrow> entry_of g sw = e"
  by (simp add: entry_of_def)

section \<open>Keeping the registry invariant\<close>

lemma wf_registryD:
  assumes "wf_registry g"
  shows "bt_inv (reg_swarms g)" "bt_inv (by_session g)" "wf_swarm (entry_of g sw)"
    "swarm_of g s = Some sw \<longleftrightarrow> s \<in> dom (bt_get (sw_members (entry_of g sw)))"
  using assms by (auto simp: wf_registry_def)

text \<open>A write that keeps the set of members.\<close>

lemma wf_put_same:
  assumes "wf_registry g" "wf_swarm e"
    and "dom (bt_get (sw_members e)) = dom (bt_get (sw_members (entry_of g sw)))"
  shows "wf_registry (put_swarm g sw e)"
  using assms by (simp add: wf_registry_def)

text \<open>A write that adds a member which no other swarm holds.\<close>

lemma wf_put_add:
  assumes "wf_registry g" "wf_swarm e" "elsewhere g sw s = None"
    and "sw_members e = bt_insert s m (sw_members (entry_of g sw))"
  shows "wf_registry (map_session (put_swarm g sw e) s sw)"
proof -
  have "swarm_of g s = None \<or> swarm_of g s = Some sw"
    using assms(3) by (auto simp: elsewhere_def swarm_of_def split: option.splits if_splits)
  then have "s \<notin> dom (bt_get (sw_members (entry_of g sw')))" if "sw' \<noteq> sw" for sw'
    using wf_registryD(4) [OF assms(1), of s sw'] that by auto
  moreover have "dom (bt_get (sw_members e)) = insert s (dom (bt_get (sw_members (entry_of g sw))))"
    using wf_registryD(3) [OF assms(1), of sw]
    by (simp add: assms(4) wf_swarm_def maps_ok_def bt_laws)
  ultimately show ?thesis
    using assms(1,2) by (auto simp: wf_registry_def)
qed

lemma wf_put_entry:
  assumes "wf_registry g"
  shows "wf_registry (put_swarm g sw (entry_of g sw))"
  using assms by (simp add: wf_put_same wf_registryD)

text \<open>The reading half of an entry does not matter to the invariant.\<close>

lemma wf_registry_next [simp]: "wf_registry (g\<lparr>next_reservation := n\<rparr>) = wf_registry g"
  by (simp add: wf_registry_def entry_of_def swarm_of_def)

lemma entry_next [simp]: "entry_of (g\<lparr>next_reservation := n\<rparr>) = entry_of g"
  by (simp add: entry_of_def fun_eq_iff)

lemma elsewhere_None_iff:
  "elsewhere g sw s = None \<longleftrightarrow> swarm_of g s = None \<or> swarm_of g s = Some sw"
  by (auto simp: elsewhere_def swarm_of_def split: option.splits)

section \<open>Keeping the invariant of one swarm\<close>

lemma wf_swarm_insert:
  assumes "wf_swarm e" "topology e \<noteq> Some PairShape" "mem_session m = s" "mem_role m \<noteq> Peer"
    and "topology e' = Some Hierarchical" "sw_members e' = bt_insert s m (sw_members e)"
    and "reservations e' = reservations e" "settled_keys e' = settled_keys e"
    and "heartbeats e' = heartbeats e"
  shows "wf_swarm e'"
  using assms by (auto simp: wf_swarm_defs bt_laws)

lemma wf_swarm_confirm:
  assumes "wf_swarm e" "topology e = Some Hierarchical" "mem_role m \<noteq> Peer"
    and "bt_get (reservations e) i = Some key"
    and "topology e' = Some Hierarchical"
    and "sw_members e' = bt_insert (mem_session m) m (sw_members e)"
    and "reservations e' = bt_remove i (reservations e)"
    and "settled_keys e' = (case key of None \<Rightarrow> settled_keys e
                            | Some k \<Rightarrow> bt_insert k (mem_session m) (settled_keys e))"
    and "heartbeats e' = heartbeats e"
  shows "wf_swarm e'"
proof -
  have "i' = i" if "bt_get (reservations e) i' = Some (Some k)" "key = Some k" for i' k
    using that assms(1,4) by (auto simp: wf_swarm_def keys_ok_def)
  with assms show ?thesis
    by (auto simp: wf_swarm_defs bt_laws split: option.splits)
qed

lemma wf_swarm_reserve:
  assumes "wf_swarm e" "topology e \<noteq> Some PairShape"
    and "\<And>k. key = Some k \<Longrightarrow> bt_get (settled_keys e) k = None"
    and "\<And>k i. key = Some k \<Longrightarrow> bt_get (reservations e) i \<noteq> Some (Some k)"
  shows "wf_swarm (e\<lparr>topology := Some Hierarchical, reservations := bt_insert i key (reservations e)\<rparr>)"
proof -
  have "bt_inv (reservations e)" "keys_ok e"
    using assms(1) by (simp_all add: wf_swarm_def maps_ok_def)
  with assms have "keys_ok (e\<lparr>topology := Some Hierarchical, reservations := bt_insert i key (reservations e)\<rparr>)"
    by (fastforce simp: keys_ok_def bt_laws)
  with assms(1,2) show ?thesis
    by (auto simp: wf_swarm_def maps_ok_def members_ok_def shape_ok_def bt_laws)
qed

lemma bt_modify_Nil [simp]: "bt_modify k f [] = []"
  by (simp add: bt_modify_def)

lemma bt_remove_Nil [simp]: "bt_remove k [] = []"
  by (simp add: bt_remove_def)

text \<open>A write to one member that keeps its session, and its role and edge in a pair.\<close>

lemma wf_swarm_modify:
  assumes "wf_swarm e"
    and "\<And>m. bt_get (sw_members e) s = Some m \<Longrightarrow>
           mem_session (f m) = mem_session m \<and> (mem_role (f m) = Peer \<longleftrightarrow> mem_role m = Peer)
           \<and> (topology e = Some PairShape \<longrightarrow> report_back_to (f m) = report_back_to m)"
  shows "wf_swarm (modify_member s f e)"
  using assms
  by (auto simp: wf_swarm_defs modify_member_def bt_laws split: if_splits)

lemma modify_member_fields [simp]:
  "topology (modify_member s f e) = topology e"
  "reservations (modify_member s f e) = reservations e"
  "settled_keys (modify_member s f e) = settled_keys e"
  "admitted (modify_member s f e) = admitted e"
  "sw_coordinator (modify_member s f e) = sw_coordinator e"
  "sw_plan (modify_member s f e) = sw_plan e"
  "heartbeats (modify_member s f e) = heartbeats e"
  by (simp_all add: modify_member_def)

lemma get_modify_member:
  "bt_get (sw_members (modify_member s f e))
   = (bt_get (sw_members e))(s := map_option f (bt_get (sw_members e) s))"
  by (simp add: modify_member_def bt_laws)

lemma dom_modify_member [simp]:
  "dom (bt_get (sw_members (modify_member s f e))) = dom (bt_get (sw_members e))"
  by (auto simp: get_modify_member split: if_splits)

section \<open>Every operation keeps the invariant\<close>

lemma wf_join_as_root:
  assumes "wf_registry g"
  shows "wf_registry (fst (join_as_root g sw s nm))"
proof -
  let ?e = "entry_of g sw"
  have e: "wf_swarm ?e" and b: "bt_inv (reg_swarms g)"
    using assms by (simp_all add: wf_registryD)
  show ?thesis
    using assms b e
    by (auto simp: join_as_root_def Let_def wf_put_entry
        split: option.splits sum.splits
        intro!: wf_put_add wf_swarm_insert [where e = ?e and s = s])
qed

lemma wf_pair_swarm:
  assumes "wf_swarm e" "topology e = None" "fst a \<noteq> fst b"
  shows "wf_swarm (e\<lparr>topology := Some PairShape, admitted := 2,
            sw_members := bt_insert (fst b) (peer_member (fst b) (snd b))
              (bt_insert (fst a) (peer_member (fst a) (snd a)) (sw_members e))\<rparr>)"
  using assms by (auto simp: wf_swarm_defs bt_inv_def bt_get_def peer_member_def split: if_splits)

lemma pair_guard_None:
  assumes "pair_guard g sw a b mapped = None"
  shows "\<not> mapped" "topology (entry_of g sw) = None"
  using assms
  by (auto simp: pair_guard_def entry_of_def swarm_default_def
      split: option.splits swarm_topology.splits if_splits)

lemma wf_admit_pair:
  assumes "wf_registry g" "pair_guard g sw a b mapped = None" "fst a \<noteq> fst b"
    and "swarm_of g (fst a) = None" "swarm_of g (fst b) = None"
  shows "wf_registry (admit_pair g sw a b)"
proof -
  let ?e = "entry_of g sw"
  define e' where "e' = ?e\<lparr>topology := Some PairShape, admitted := 2,
            sw_members := bt_insert (fst b) (peer_member (fst b) (snd b))
              (bt_insert (fst a) (peer_member (fst a) (snd a)) (sw_members ?e))\<rparr>"
  have e: "wf_swarm ?e"
    using assms(1) by (rule wf_registryD)
  have we: "wf_swarm e'"
    unfolding e'_def using e pair_guard_None(2) [OF assms(2)] assms(3) by (rule wf_pair_swarm)
  have dom: "dom (bt_get (sw_members e')) = insert (fst b) (insert (fst a) (dom (bt_get (sw_members ?e))))"
    using e by (simp add: e'_def wf_swarm_def maps_ok_def bt_laws)
  have free: "fst x \<notin> dom (bt_get (sw_members (entry_of g sw')))" if "x = a \<or> x = b" for x sw'
    using wf_registryD(4) [OF assms(1), of "fst x" sw'] that assms(4,5) by auto
  have "admit_pair g sw a b = map_session (map_session (put_swarm g sw e') (fst a) sw) (fst b) sw"
    by (simp add: admit_pair_def e'_def Let_def)
  with we dom free [of a] free [of b] show ?thesis
    using assms(1) by (auto simp: wf_registry_def)
qed

lemma wf_join_as_pair:
  assumes "wf_registry g"
  shows "wf_registry (fst (join_as_pair g sw x y))"
proof (cases "fst (join_as_pair g sw x y) = g")
  case False
  let ?a = "(fst x, trim (snd x))" and ?b = "(fst y, trim (snd y))"
  let ?m = "bt_get (by_session g) (fst x) \<noteq> None \<or> bt_get (by_session g) (fst y) \<noteq> None"
  from False have eq: "fst (join_as_pair g sw x y) = admit_pair g sw ?a ?b" and ne: "fst x \<noteq> fst y"
    and guard: "pair_guard g sw ?a ?b ?m = None"
    by (auto simp: join_as_pair_def Let_def split: if_splits option.splits sum.splits)
  from pair_guard_None(1) [OF guard] have "swarm_of g (fst x) = None" "swarm_of g (fst y) = None"
    by (auto simp: swarm_of_def)
  then show ?thesis
    using wf_admit_pair [OF assms guard] ne by (simp add: eq)
qed (simp add: assms)

lemma wf_reserve:
  assumes "wf_registry g"
  shows "wf_registry (fst (reserve g sw key))"
proof -
  let ?e = "entry_of g sw"
  have e: "wf_swarm ?e" and b: "bt_inv (reg_swarms g)" and r: "bt_inv (reservations ?e)"
    using assms wf_registryD(1) wf_registryD(3) [OF assms, of sw]
    by (simp_all add: wf_swarm_def maps_ok_def)
  have "bt_get (reservations ?e) i \<noteq> Some (Some k)" if "Some k \<notin> set (bt_values (reservations ?e))" for i k
    using that bt.vals_iff [OF r, of "Some k"] by blast
  then show ?thesis
    using assms b e
    by (auto simp: reserve_def Let_def wf_put_entry
        split: option.splits sum.splits intro!: wf_put_same wf_swarm_reserve)
qed

lemma wf_confirm:
  assumes "wf_registry g"
  shows "wf_registry (fst (confirm g r m))"
proof -
  let ?e = "entry_of g (res_swarm r)"
  have e: "wf_swarm ?e"
    using assms by (rule wf_registryD)
  show ?thesis
    using assms e
    by (auto simp: confirm_def Let_def entry_of_Some elsewhere_None_iff swarm_of_def
        split: option.splits
        intro!: wf_put_add wf_swarm_confirm [where e = ?e and i = "res_id r" and m = m])
qed

lemma wf_release:
  assumes "wf_registry g"
  shows "wf_registry (fst (release g r))"
proof (cases "bt_get (reg_swarms g) (res_swarm r)")
  case (Some e)
  with wf_registryD(3) [OF assms, of "res_swarm r"] have "wf_swarm e"
    by (simp add: entry_of_Some)
  then have "wf_swarm (e\<lparr>reservations := bt_remove (res_id r) (reservations e)\<rparr>)"
    by (auto simp: wf_swarm_defs bt_laws split: if_splits)
  with assms Some show ?thesis
    by (auto simp: release_def entry_of_Some intro!: wf_put_same)
qed (simp add: release_def assms)

text \<open>A write through \<open>get_mut\<close> to an entry that is there.\<close>

lemma wf_put_Some:
  assumes "wf_registry g" "bt_get (reg_swarms g) sw = Some e"
    and "wf_swarm e \<Longrightarrow> wf_swarm e'"
    and "dom (bt_get (sw_members e')) = dom (bt_get (sw_members e))"
  shows "wf_registry (put_swarm g sw e')"
  using assms wf_registryD(3) [OF assms(1), of sw] by (simp add: entry_of_Some wf_put_same)

lemma modify_swarm_eq:
  assumes "bt_inv (reg_swarms g)"
  shows "modify_swarm g sw f =
    (case bt_get (reg_swarms g) sw of None \<Rightarrow> g | Some e \<Rightarrow> put_swarm g sw (f e))"
proof -
  have *: "bt_inv m \<Longrightarrow> bt_modify k f m = (case bt_get m k of None \<Rightarrow> m | Some e \<Rightarrow> bt_insert k (f e) m)"
    for k :: "string" and m
  proof (induction m)
    case (Cons x m)
    show ?case
    proof (cases "fst x = k")
      case True
      with Cons.prems have "\<And>k' v. (k', v) \<in> set m \<Longrightarrow> k' \<noteq> k"
        by (force simp: bt_inv_def)
      then have "bt_modify k f m = m"
        unfolding bt_modify_def by (intro map_idI) auto
      with True show ?thesis
        by (cases x) (simp add: bt_modify_def bt_get_def)
    next
      case False
      moreover have "bt_get m k = Some e \<Longrightarrow> fst x < k" for e
        using Cons.prems by (force simp: bt_inv_def bt_get_def dest: map_of_SomeD)
      ultimately show ?thesis
        using Cons
        by (cases x) (force simp: bt_modify_def bt_get_def bt_inv_def split: option.splits)
    qed
  qed (simp add: bt_get_def)
  from * [OF assms, of sw] show ?thesis
    by (auto simp: modify_swarm_def put_swarm_def split: option.splits)
qed

lemma wf_heartbeat_at: "wf_registry g \<Longrightarrow> wf_registry (heartbeat_at g sw s t)"
  by (auto simp: heartbeat_at_def modify_swarm_eq wf_registryD wf_swarm_defs bt_laws
      split: option.splits intro!: wf_put_Some)

lemma sort_ConsD:
  fixes x :: "'a::linorder"
  assumes "sort xs = x # ys"
  shows "x \<in> set xs" "y \<in> set xs \<Longrightarrow> x \<le> y"
  using assms set_sort [of "\<lambda>x. x" xs] sorted_sort [of xs] by auto

lemma elect_cases:
  obtains (unchanged) "elect_coordinator g sw = (g, None)"
      "\<And>e. bt_get (reg_swarms g) sw = Some e \<Longrightarrow> topology e \<noteq> Some PairShape \<Longrightarrow>
         seat_filled e \<or> active_members e = []"
  | (elected) e s where "bt_get (reg_swarms g) sw = Some e" "topology e \<noteq> Some PairShape"
      "\<not> seat_filled e" "s \<in> mem_session ` set (active_members e)"
      "\<And>m. m \<in> set (active_members e) \<Longrightarrow> s \<le> mem_session m"
      "elect_coordinator g sw =
         (put_swarm g sw
            (modify_member s (\<lambda>m. m\<lparr>mem_role := Coordinator\<rparr>) (e\<lparr>sw_coordinator := Some s\<rparr>)), Some s)"
proof (cases "bt_get (reg_swarms g) sw")
  case None
  then show ?thesis
    by (intro unchanged) (auto simp: elect_coordinator_def)
next
  case (Some e)
  show ?thesis
  proof (cases "topology e = Some PairShape \<or> seat_filled e \<or> active_members e = []")
    case True
    with Some show ?thesis
      by (intro unchanged) (auto simp: elect_coordinator_def)
  next
    case False
    then obtain s xs where sx: "sort (map mem_session (active_members e)) = s # xs"
      by (metis list.exhaust list.map_disc_iff set_empty set_sort)
    with False Some have "elect_coordinator g sw =
       (put_swarm g sw (modify_member s (\<lambda>m. m\<lparr>mem_role := Coordinator\<rparr>) (e\<lparr>sw_coordinator := Some s\<rparr>)), Some s)"
      by (simp add: elect_coordinator_def)
    with False Some sort_ConsD [OF sx] show ?thesis
      by (intro elected) auto
  qed
qed

lemma active_hierarchical:
  assumes "wf_swarm e" "topology e \<noteq> Some PairShape" "sw_members e \<noteq> []"
  shows "topology e = Some Hierarchical"
  using assms by (cases "topology e"; cases "the (topology e)") (auto simp: wf_swarm_def shape_ok_def)

lemma wf_elect_coordinator:
  assumes "wf_registry g"
  shows "wf_registry (fst (elect_coordinator g sw))"
proof (cases rule: elect_cases [of g sw])
  case (elected e s)
  have w: "wf_swarm e"
    using wf_registryD(3) [OF assms, of sw] elected(1) by (simp add: entry_of_Some)
  have "topology e = Some Hierarchical"
    using w elected(2,4)
    by (intro active_hierarchical) (auto simp: active_members_def bt_values_def)
  with w have "wf_swarm (e\<lparr>sw_coordinator := Some s\<rparr>)"
    by (auto simp: wf_swarm_defs)
  then have "wf_swarm (modify_member s (\<lambda>m. m\<lparr>mem_role := Coordinator\<rparr>) (e\<lparr>sw_coordinator := Some s\<rparr>))"
    using w elected(2) by (intro wf_swarm_modify) (auto simp: wf_swarm_def members_ok_def)
  then show ?thesis
    using wf_put_Some [OF assms elected(1)] by (simp add: elected(6))
qed (simp add: assms)

text \<open>What a run of reparentings leaves: every moved member has the new edge, nothing else changed.\<close>

lemma fold_reparent:
  "bt_get (sw_members (fold (reparent_one np) ss e)) s =
     (if s \<in> set ss
      then map_option (\<lambda>m. m\<lparr>report_back_to := option_filter (\<lambda>p. p \<noteq> s) np\<rparr>) (bt_get (sw_members e) s)
      else bt_get (sw_members e) s)"
  by (induction ss arbitrary: e)
    (auto simp: reparent_one_def get_modify_member option.map_comp comp_def)

lemma fold_reparent_fields [simp]:
  "topology (fold (reparent_one np) ss e) = topology e"
  "reservations (fold (reparent_one np) ss e) = reservations e"
  "settled_keys (fold (reparent_one np) ss e) = settled_keys e"
  "admitted (fold (reparent_one np) ss e) = admitted e"
  "sw_coordinator (fold (reparent_one np) ss e) = sw_coordinator e"
  "sw_plan (fold (reparent_one np) ss e) = sw_plan e"
  "heartbeats (fold (reparent_one np) ss e) = heartbeats e"
  by (induction ss arbitrary: e) (simp_all add: reparent_one_def)

lemma dom_fold_reparent [simp]:
  "dom (bt_get (sw_members (fold (reparent_one np) ss e))) = dom (bt_get (sw_members e))"
  by (auto simp: fold_reparent split: if_splits)

lemma wf_fold_reparent:
  assumes "topology e \<noteq> Some PairShape" "wf_swarm e"
  shows "wf_swarm (fold (reparent_one np) ss e)"
  using assms
proof (induction ss arbitrary: e)
  case (Cons s ss)
  have "wf_swarm (reparent_one np s e)"
    unfolding reparent_one_def using Cons.prems by (intro wf_swarm_modify) auto
  with Cons show ?case
    by (simp add: reparent_one_def)
qed simp

lemma reports_of_iff:
  assumes "wf_swarm e"
  shows "t \<in> set (reports_of e s) \<longleftrightarrow> parent_of e t = Some s"
proof -
  have "bt_inv (sw_members e)" and key: "\<And>s m. bt_get (sw_members e) s = Some m \<Longrightarrow> mem_session m = s"
    using assms by (auto simp: wf_swarm_def maps_ok_def members_ok_def)
  then show ?thesis
    using bt.vals_iff [of "sw_members e"]
    by (fastforce simp: reports_of_def parent_of_def bind_eq_Some_conv)
qed

lemma no_reports_in_pair: "wf_swarm e \<Longrightarrow> topology e = Some PairShape \<Longrightarrow> reports_of e s = []"
  using bt.vals_iff [of "sw_members e"]
  by (auto simp: wf_swarm_def maps_ok_def members_ok_def reports_of_def filter_empty_conv)

lemma wf_reparent_children:
  assumes "wf_registry g"
  shows "wf_registry (fst (reparent_children g sw s))"
proof (cases "bt_get (reg_swarms g) sw")
  case (Some e)
  have "wf_swarm e"
    using wf_registryD(3) [OF assms, of sw] Some by (simp add: entry_of_Some)
  then have "wf_swarm (fold (reparent_one np) (reports_of e s) e)" for np
    using wf_fold_reparent no_reports_in_pair by (cases "topology e = Some PairShape") auto
  with assms Some show ?thesis
    by (simp add: reparent_children_def Let_def wf_put_Some)
qed (simp add: reparent_children_def assms)

lemma wf_with_member:
  assumes "wf_registry g"
    and "\<And>m. mem_session (f m) = mem_session m \<and> mem_role (f m) = mem_role m
           \<and> report_back_to (f m) = report_back_to m"
  shows "wf_registry (fst (with_member g sw s f))"
  using assms
  by (auto simp: with_member_def split: option.splits
      intro!: wf_put_Some [OF _ _ _ dom_modify_member] wf_swarm_modify)

lemma wf_set_status: "wf_registry g \<Longrightarrow> wf_registry (fst (set_status g sw s st))"
  by (simp add: set_status_def wf_with_member)

lemma wf_record_completion: "wf_registry g \<Longrightarrow> wf_registry (fst (record_completion g sw s r))"
  by (simp add: record_completion_def wf_with_member)

lemma wf_set_plan:
  assumes "wf_registry g"
  shows "wf_registry (fst (set_plan g sw p))"
proof -
  have "wf_swarm (entry_of g sw)" "bt_inv (reg_swarms g)"
    using assms by (simp_all add: wf_registryD)
  then show ?thesis
    using assms
    by (auto simp: set_plan_def Let_def wf_put_entry wf_swarm_defs intro!: wf_put_same)
qed

lemma wf_with_plan:
  assumes "wf_registry g"
  shows "wf_registry (fst (with_plan g sw f))"
  using assms
  by (auto simp: with_plan_def Let_def wf_swarm_defs split: option.splits prod.splits
      intro!: wf_put_Some)

lemma wf_remove_member:
  assumes "wf_registry g"
  shows "wf_registry (fst (remove_member g sw s))"
proof (cases "bt_get (reg_swarms g) sw")
  case (Some e)
  show ?thesis
  proof (cases "bt_get (sw_members e) s")
    case m: (Some m)
    have w: "wf_swarm e"
      using wf_registryD(3) [OF assms, of sw] Some by (simp add: entry_of_Some)
    define e' where "e' = e\<lparr>sw_members := bt_remove s (sw_members e),
        sw_coordinator := (if sw_coordinator e = Some s then None else sw_coordinator e)\<rparr>"
    have "length (sw_members e') \<le> length (sw_members e)"
      by (simp add: e'_def bt_remove_def)
    with w have w': "wf_swarm e'"
      by (auto simp: e'_def wf_swarm_defs bt_laws)
    have "s \<notin> dom (bt_get (sw_members (entry_of g sw')))" if "sw' \<noteq> sw" for sw'
      using wf_registryD(4) [OF assms, of s sw'] wf_registryD(4) [OF assms, of s sw] that m Some
      by (auto simp: entry_of_Some)
    with assms w' m Some show ?thesis
      by (auto simp: remove_member_def Let_def e'_def wf_registry_def entry_of_Some bt_laws
          swarm_of_def put_swarm_def entry_of_def)
  qed (simp add: remove_member_def Some assms)
qed (simp add: remove_member_def assms)

lemma restored_fold:
  assumes "bt_inv mp"
  shows "bt_inv (fold (\<lambda>m. bt_insert (mem_session m) m) ms mp)
    \<and> dom (bt_get (fold (\<lambda>m. bt_insert (mem_session m) m) ms mp)) = mem_session ` set ms \<union> dom (bt_get mp)
    \<and> (\<forall>s m. bt_get (fold (\<lambda>m. bt_insert (mem_session m) m) ms mp) s = Some m \<longrightarrow>
          bt_get mp s = Some m \<or> m \<in> set ms \<and> mem_session m = s)"
  using assms
proof (induction ms arbitrary: mp)
  case (Cons m ms)
  from Cons.IH [of "bt_insert (mem_session m) m mp"] Cons.prems show ?case
    by (auto simp: bt_laws split: if_splits)
qed simp

lemma restored_map_props:
  shows "bt_inv (restored_map ms)" "dom (bt_get (restored_map ms)) = mem_session ` set ms"
    and "bt_get (restored_map ms) s = Some m \<Longrightarrow> m \<in> set ms \<and> mem_session m = s"
  using restored_fold [of bt_empty ms] by (auto simp: restored_map_def dom_def)

lemma fold_forget:
  assumes "bt_inv (by_session g)"
  shows "bt_inv (by_session (fold (forget_session sw) ss g))"
    "swarm_of (fold (forget_session sw) ss g) s =
       (if s \<in> set ss \<and> swarm_of g s = Some sw then None else swarm_of g s)"
    "reg_swarms (fold (forget_session sw) ss g) = reg_swarms g"
    "reg_limits (fold (forget_session sw) ss g) = reg_limits g"
    "next_reservation (fold (forget_session sw) ss g) = next_reservation g"
  using assms
  by (induction ss arbitrary: g) (auto simp: forget_session_def swarm_of_def bt_laws)

lemma fold_map_session:
  assumes "bt_inv (by_session g)"
  shows "bt_inv (by_session (fold (\<lambda>s g. map_session g s sw) ss g))"
    "swarm_of (fold (\<lambda>s g. map_session g s sw) ss g) s =
       (if s \<in> set ss then Some sw else swarm_of g s)"
    "reg_swarms (fold (\<lambda>s g. map_session g s sw) ss g) = reg_swarms g"
    "reg_limits (fold (\<lambda>s g. map_session g s sw) ss g) = reg_limits g"
    "next_reservation (fold (\<lambda>s g. map_session g s sw) ss g) = next_reservation g"
  using assms by (induction ss arbitrary: g) auto

lemma entry_of_cong: "reg_swarms g = reg_swarms g' \<Longrightarrow> entry_of g = entry_of g'"
  by (simp add: entry_of_def fun_eq_iff)

lemma restore_conflict_None:
  "restore_conflict g sw ms = None \<Longrightarrow> m \<in> set ms \<Longrightarrow> elsewhere g sw (mem_session m) = None"
  by (force simp: restore_conflict_def filter_empty_conv split: list.splits)

text \<open>What an accepted restore leaves in the registry.\<close>

lemma restore_ok:
  assumes "wf_registry g" "restore g sw ms c p = (g', Inr ())"
  shows "list_all (\<lambda>m. mem_role m \<noteq> Peer) ms" "topology (entry_of g sw) \<noteq> Some PairShape"
    and "restore_conflict g sw ms = None"
    and "entry_of g' = (entry_of g)(sw := (entry_of g sw)
          \<lparr>topology := Some Hierarchical, sw_members := restored_map ms, sw_coordinator := c,
           sw_plan := p, admitted := max (admitted (entry_of g sw)) (length ms)\<rparr>)"
    and "swarm_of g' s = (if s \<in> mem_session ` set ms then Some sw
          else if swarm_of g s = Some sw then None else swarm_of g s)"
    and "bt_inv (reg_swarms g')" "bt_inv (by_session g')" "reg_limits g' = reg_limits g"
proof -
  let ?g1 = "fold (forget_session sw) (bt_keys (sw_members (entry_of g sw))) g"
  let ?g2 = "fold (\<lambda>s g. map_session g s sw) (bt_keys (restored_map ms)) ?g1"
  have b: "bt_inv (reg_swarms g)" "bt_inv (by_session g)"
    using assms(1) by (simp_all add: wf_registryD)
  have r2: "reg_swarms ?g2 = reg_swarms g"
    using b by (simp add: fold_forget fold_map_session)
  then have e2: "entry_of ?g2 = entry_of g"
    by (rule entry_of_cong)
  have ok: "\<not> list_ex (\<lambda>m. mem_role m = Peer) ms" "restore_conflict g sw ms = None"
    "\<And>e. bt_get (reg_swarms g) sw = Some e \<Longrightarrow> topology e \<noteq> Some PairShape"
    and g': "g' = put_swarm ?g2 sw ((entry_of g sw)
          \<lparr>topology := Some Hierarchical, sw_members := restored_map ms, sw_coordinator := c,
           sw_plan := p, admitted := max (admitted (entry_of g sw)) (length ms)\<rparr>)"
    using assms(2)
    by (auto simp: restore_def Let_def e2 split: if_splits option.splits)
  show "restore_conflict g sw ms = None"
    by (rule ok)
  show "list_all (\<lambda>m. mem_role m \<noteq> Peer) ms"
    using ok(1) by (simp add: list_all_iff list_ex_iff)
  show "topology (entry_of g sw) \<noteq> Some PairShape"
    using ok(3) by (auto simp: entry_of_def swarm_default_def split: option.splits)
  show "entry_of g' = (entry_of g)(sw := (entry_of g sw)
          \<lparr>topology := Some Hierarchical, sw_members := restored_map ms, sw_coordinator := c,
           sw_plan := p, admitted := max (admitted (entry_of g sw)) (length ms)\<rparr>)"
    using b by (simp add: g' r2 e2)
  have "set (bt_keys (sw_members (entry_of g sw))) = {s. swarm_of g s = Some sw}"
    using wf_registryD(4) [OF assms(1)] by (auto simp: bt.set_keys)
  then show "swarm_of g' s = (if s \<in> mem_session ` set ms then Some sw
          else if swarm_of g s = Some sw then None else swarm_of g s)"
    using b by (simp add: g' fold_forget fold_map_session bt.set_keys restored_map_props)
  show "bt_inv (reg_swarms g')" "bt_inv (by_session g')" "reg_limits g' = reg_limits g"
    using b by (simp_all add: g' r2 fold_forget fold_map_session)
qed

lemma restore_err: "restore g sw ms c p = (g', Inl err) \<Longrightarrow> g' = g"
  by (auto simp: restore_def Let_def split: if_splits option.splits)

lemma wf_restore:
  assumes "wf_registry g"
  shows "wf_registry (fst (restore g sw ms c p))"
proof (cases "restore g sw ms c p")
  case (Pair g' r)
  show ?thesis
  proof (cases r)
    case (Inr u)
    with Pair have "restore g sw ms c p = (g', Inr ())"
      by simp
    note ok = restore_ok [OF assms this]
    let ?e = "entry_of g sw"
    have "wf_swarm ?e"
      using assms by (rule wf_registryD)
    then have w: "wf_swarm (entry_of g' sw)"
      using ok(1) restored_map_props [of ms]
      by (auto simp: ok(4) wf_swarm_defs list_all_iff)
    have "s \<notin> dom (bt_get (sw_members (entry_of g sw')))" if "s \<in> mem_session ` set ms" "sw' \<noteq> sw" for s sw'
      using that restore_conflict_None [OF ok(3)] wf_registryD(4) [OF assms, of s sw']
      by (fastforce simp: elsewhere_None_iff)
    then have "swarm_of g' s = Some sw' \<longleftrightarrow> s \<in> dom (bt_get (sw_members (entry_of g' sw')))" for s sw'
      using wf_registryD(4) [OF assms, of s sw'] wf_registryD(4) [OF assms, of s sw]
      by (auto simp: ok(4,5) restored_map_props)
    then show ?thesis
      using w assms ok(6-8) by (simp add: Pair wf_registry_def ok(4))
  qed (use Pair restore_err [of g sw ms c p g'] assms in auto)
qed

end
