(* ===== verification/Swarm_Run.thy ===== *)
theory Swarm_Run
  imports Swarm_Inv
begin

text \<open>
  Runs of the registry: any sequence of its operations, from every caller, in the order the
  write lock serialised them. What holds of every run: the invariant; the two caps, as long as
  nothing puts members back; a settled idempotency key, for good; a key in flight, until its
  slot is confirmed or released.
\<close>

section \<open>Operations as data\<close>

datatype reg_op =
    JoinRoot swarm_id session_id string
  | JoinPair swarm_id "session_id \<times> string" "session_id \<times> string"
  | Reserve swarm_id "string option"
  | Confirm reservation swarm_member
  | Release reservation
  | Heartbeat swarm_id session_id instant
  | Elect swarm_id
  | Reparent swarm_id session_id
  | Restore swarm_id "swarm_member list" "session_id option" "task_plan option"
  | SetStatus swarm_id session_id member_status
  | RecordCompletion swarm_id session_id string
  | SetPlan swarm_id task_plan
  | WithPlan swarm_id "task_plan \<Rightarrow> task_plan"
  | RemoveMember swarm_id session_id

fun reg_apply :: "reg_op \<Rightarrow> registry \<Rightarrow> registry" where
  "reg_apply (JoinRoot sw s nm) g = fst (join_as_root g sw s nm)"
| "reg_apply (JoinPair sw x y) g = fst (join_as_pair g sw x y)"
| "reg_apply (Reserve sw k) g = fst (reserve g sw k)"
| "reg_apply (Confirm r m) g = fst (confirm g r m)"
| "reg_apply (Release r) g = fst (release g r)"
| "reg_apply (Heartbeat sw s t) g = heartbeat_at g sw s t"
| "reg_apply (Elect sw) g = fst (elect_coordinator g sw)"
| "reg_apply (Reparent sw s) g = fst (reparent_children g sw s)"
| "reg_apply (Restore sw ms c p) g = fst (restore g sw ms c p)"
| "reg_apply (SetStatus sw s st) g = fst (set_status g sw s st)"
| "reg_apply (RecordCompletion sw s r) g = fst (record_completion g sw s r)"
| "reg_apply (SetPlan sw p) g = fst (set_plan g sw p)"
| "reg_apply (WithPlan sw f) g = fst (with_plan g sw (\<lambda>p. (f p, ())))"
| "reg_apply (RemoveMember sw s) g = fst (remove_member g sw s)"

definition reg_run :: "reg_op list \<Rightarrow> registry \<Rightarrow> registry" where
  "reg_run ops g = fold reg_apply ops g"

lemma wf_reg_apply: "wf_registry g \<Longrightarrow> wf_registry (reg_apply op g)"
  by (cases op)
    (simp_all add: wf_join_as_root wf_join_as_pair wf_reserve wf_confirm wf_release wf_heartbeat_at
      wf_elect_coordinator wf_reparent_children wf_restore wf_set_status wf_record_completion
      wf_set_plan wf_with_plan wf_remove_member)

text \<open>A property every operation of a class keeps, on well-formed registries.\<close>

lemma reg_run_induct:
  assumes "wf_registry g" "P g" "list_all ok ops"
    and "\<And>op g. wf_registry g \<Longrightarrow> ok op \<Longrightarrow> P g \<Longrightarrow> P (reg_apply op g)"
  shows "wf_registry (reg_run ops g) \<and> P (reg_run ops g)"
  using assms(1-3)
  by (induction ops arbitrary: g) (auto simp: reg_run_def wf_reg_apply assms(4))

lemma wf_reg_run: "wf_registry g \<Longrightarrow> wf_registry (reg_run ops g)"
  using reg_run_induct [of g "\<lambda>_. True" "\<lambda>_. True" ops] by (simp add: list_all_iff)

section \<open>What one operation does to one swarm\<close>

text \<open>
  Seen from one swarm, an operation leaves its entry alone or makes one of these moves. The
  entry after the move is described by the fields the capacity and the key arguments read.
\<close>

definition keeps_tables :: "swarm \<Rightarrow> swarm \<Rightarrow> bool" where
  "keeps_tables e e' \<longleftrightarrow>
     reservations e' = reservations e \<and> settled_keys e' = settled_keys e
     \<and> (topology e = Some Hierarchical \<longrightarrow> topology e' = Some Hierarchical)"

lemma keeps_tables_refl [simp]: "keeps_tables e e"
  by (simp add: keeps_tables_def)

lemma tables_join_as_root:
  assumes "wf_registry g"
  shows "keeps_tables (entry_of g sw') (entry_of (fst (join_as_root g sw s nm)) sw')"
  using assms
  by (auto simp: join_as_root_def Let_def keeps_tables_def wf_registryD split: option.splits sum.splits)

lemma tables_join_as_pair:
  assumes "wf_registry g"
  shows "keeps_tables (entry_of g sw') (entry_of (fst (join_as_pair g sw x y)) sw')"
  using assms pair_guard_None(2) [of g sw]
  by (auto simp: join_as_pair_def admit_pair_def Let_def keeps_tables_def wf_registryD
      split: option.splits sum.splits)

lemma heartbeat_entry:
  assumes "wf_registry g"
  shows "\<exists>h. entry_of (heartbeat_at g sw s t) sw' = (entry_of g sw')\<lparr>heartbeats := h\<rparr>"
proof (cases "bt_get (reg_swarms g) sw")
  case None
  then have "entry_of (heartbeat_at g sw s t) sw' = (entry_of g sw')\<lparr>heartbeats := heartbeats (entry_of g sw')\<rparr>"
    using assms by (simp add: heartbeat_at_def modify_swarm_eq wf_registryD)
  then show ?thesis ..
next
  case (Some e)
  then have "entry_of (heartbeat_at g sw s t) sw' = (entry_of g sw')
    \<lparr>heartbeats := (if sw' = sw then bt_insert s t (heartbeats e) else heartbeats (entry_of g sw'))\<rparr>"
    using assms by (simp add: heartbeat_at_def modify_swarm_eq wf_registryD entry_of_Some)
  then show ?thesis ..
qed

lemma tables_heartbeat:
  assumes "wf_registry g"
  shows "keeps_tables (entry_of g sw') (entry_of (heartbeat_at g sw s t) sw')"
  using heartbeat_entry [OF assms, of sw s t sw'] by (auto simp: keeps_tables_def)

lemma tables_elect:
  assumes "wf_registry g"
  shows "keeps_tables (entry_of g sw') (entry_of (fst (elect_coordinator g sw)) sw')"
  by (cases rule: elect_cases [of g sw])
    (auto simp: keeps_tables_def wf_registryD [OF assms] entry_of_Some)

lemma tables_reparent:
  assumes "wf_registry g"
  shows "keeps_tables (entry_of g sw') (entry_of (fst (reparent_children g sw s)) sw')"
  using assms
  by (auto simp: reparent_children_def Let_def keeps_tables_def wf_registryD entry_of_Some
      split: option.splits)

lemma tables_restore:
  assumes "wf_registry g"
  shows "keeps_tables (entry_of g sw') (entry_of (fst (restore g sw ms c p)) sw')"
proof (cases "restore g sw ms c p")
  case (Pair g' r)
  then show ?thesis
    using restore_ok(4) [OF assms, of sw ms c p g'] restore_err [of g sw ms c p g']
    by (cases r) (auto simp: keeps_tables_def)
qed

lemma tables_with_member:
  assumes "wf_registry g"
  shows "keeps_tables (entry_of g sw') (entry_of (fst (with_member g sw s f)) sw')"
  using assms
  by (auto simp: with_member_def keeps_tables_def wf_registryD entry_of_Some split: option.splits)

lemma tables_plan:
  assumes "wf_registry g"
  shows "keeps_tables (entry_of g sw') (entry_of (fst (set_plan g sw p)) sw')"
    "keeps_tables (entry_of g sw') (entry_of (fst (with_plan g sw h)) sw')"
  using assms
  by (auto simp: set_plan_def with_plan_def Let_def keeps_tables_def wf_registryD entry_of_Some
      split: option.splits prod.splits)

lemma remove_member_eq:
  "fst (remove_member g sw s) =
     (case Option.bind (bt_get (reg_swarms g) sw) (\<lambda>e. bt_get (sw_members e) s) of
        None \<Rightarrow> g
      | Some m \<Rightarrow>
          (put_swarm g sw
             ((entry_of g sw)\<lparr>sw_members := bt_remove s (sw_members (entry_of g sw)),
                sw_coordinator := (if sw_coordinator (entry_of g sw) = Some s then None
                                   else sw_coordinator (entry_of g sw))\<rparr>))
            \<lparr>by_session := bt_remove s (by_session g)\<rparr>)"
  by (auto simp: remove_member_def Let_def entry_of_Some split: option.splits)

lemma entry_by_session [simp]: "entry_of (g\<lparr>by_session := b\<rparr>) = entry_of g"
  by (simp add: entry_of_def fun_eq_iff)

lemma tables_remove:
  assumes "wf_registry g"
  shows "keeps_tables (entry_of g sw') (entry_of (fst (remove_member g sw s)) sw')"
  using assms
  by (auto simp: remove_member_eq keeps_tables_def wf_registryD split: option.splits)

text \<open>Only reserving, confirming and releasing touch the two tables.\<close>

fun touches_tables :: "reg_op \<Rightarrow> bool" where
  "touches_tables (Reserve _ _) = True"
| "touches_tables (Confirm _ _) = True"
| "touches_tables (Release _) = True"
| "touches_tables _ = False"

lemma tables_kept:
  assumes "wf_registry g" "\<not> touches_tables op"
  shows "keeps_tables (entry_of g sw) (entry_of (reg_apply op g) sw)"
  using assms
  by (cases op)
    (simp_all add: tables_join_as_root tables_join_as_pair tables_elect tables_reparent
      tables_restore tables_plan tables_remove set_status_def record_completion_def
      tables_with_member tables_heartbeat)

section \<open>Keys\<close>

lemma confirm_cases:
  obtains (refused) err where "confirm g r m = (g, Inl err)"
  | (confirmed) e key where "bt_get (reg_swarms g) (res_swarm r) = Some e"
      "topology e = Some Hierarchical" "bt_get (reservations e) (res_id r) = Some key"
      "mem_role m \<noteq> Peer" "swarm_of g (mem_session m) = None"
      "confirm g r m =
         (map_session (put_swarm g (res_swarm r)
            (e\<lparr>reservations := bt_remove (res_id r) (reservations e),
               settled_keys := (case key of None \<Rightarrow> settled_keys e
                                | Some k \<Rightarrow> bt_insert k (mem_session m) (settled_keys e)),
               admitted := usize_succ (admitted e),
               sw_members := bt_insert (mem_session m) m (sw_members e)\<rparr>))
            (mem_session m) (res_swarm r), Inr ())"
proof (cases "\<exists>err. confirm g r m = (g, Inl err)")
  case False
  then obtain e key where "bt_get (reg_swarms g) (res_swarm r) = Some e"
    "bt_get (by_session g) (mem_session m) = None" "mem_role m \<noteq> Peer"
    "topology e = Some Hierarchical" "bt_get (reservations e) (res_id r) = Some key"
    by (auto simp: confirm_def split: if_splits option.splits)
  then show ?thesis
    by (intro confirmed) (auto simp: confirm_def swarm_of_def Let_def)
qed (use refused in blast)

lemma reserve_cases:
  assumes "wf_registry g"
  obtains (kept) "fst (reserve g sw key) = put_swarm g sw (entry_of g sw)"
      "\<And>r. snd (reserve g sw key) \<noteq> Inr (Reserved r)"
  | (reserved) "check_caps (entry_of g sw) (reg_limits g) 1 = Inr ()"
      "topology (entry_of g sw) \<noteq> Some PairShape"
      "reserve g sw key =
         ((put_swarm g sw ((entry_of g sw)\<lparr>topology := Some Hierarchical,
             reservations := bt_insert (next_reservation g) key (reservations (entry_of g sw))\<rparr>))
            \<lparr>next_reservation := next_reservation g + 1\<rparr>,
          Inr (Reserved \<lparr>res_id = next_reservation g, res_swarm = sw\<rparr>))"
proof (cases "fst (reserve g sw key) = put_swarm g sw (entry_of g sw) \<and> (\<forall>r. snd (reserve g sw key) \<noteq> Inr (Reserved r))")
  case False
  then have "check_caps (entry_of g sw) (reg_limits g) 1 = Inr () \<and> topology (entry_of g sw) \<noteq> Some PairShape
    \<and> reserve g sw key =
         ((put_swarm g sw ((entry_of g sw)\<lparr>topology := Some Hierarchical,
             reservations := bt_insert (next_reservation g) key (reservations (entry_of g sw))\<rparr>))
            \<lparr>next_reservation := next_reservation g + 1\<rparr>,
          Inr (Reserved \<lparr>res_id = next_reservation g, res_swarm = sw\<rparr>))"
    by (simp add: reserve_def Let_def wf_registryD [OF assms] split: option.splits sum.splits if_splits)
  then show ?thesis
    using reserved by blast
qed (use kept in blast)

lemma settled_step:
  assumes "wf_registry g" "bt_get (settled_keys (entry_of g sw)) k = Some s"
  shows "bt_get (settled_keys (entry_of (reg_apply op g) sw)) k = Some s"
proof (cases "touches_tables op")
  case False
  with tables_kept [OF assms(1), of op sw] assms(2) show ?thesis
    by (simp add: keeps_tables_def)
next
  case True
  then consider (res) sw' key where "op = Reserve sw' key" | (conf) r m where "op = Confirm r m"
    | (rel) r where "op = Release r"
    by (cases op) auto
  then show ?thesis
  proof cases
    case res
    then show ?thesis
      using assms by (cases rule: reserve_cases [OF assms(1), of sw' key]) (auto simp: wf_registryD)
  next
    case conf
    show ?thesis
    proof (cases rule: confirm_cases [of g r m])
      case (confirmed e key)
      have "wf_swarm e"
        using wf_registryD(3) [OF assms(1), of "res_swarm r"] confirmed(1) by (simp add: entry_of_Some)
      then show ?thesis
        using assms confirmed
        by (auto simp: conf wf_registryD entry_of_Some wf_swarm_defs bt_laws split: option.splits)
    qed (use conf assms in simp)
  next
    case rel
    then show ?thesis
      using assms by (auto simp: release_def wf_registryD entry_of_Some split: option.splits)
  qed
qed

lemma settled_run:
  assumes "wf_registry g" "bt_get (settled_keys (entry_of g sw)) k = Some s"
  shows "wf_registry (reg_run ops g) \<and> bt_get (settled_keys (entry_of (reg_run ops g) sw)) k = Some s"
  using reg_run_induct [of g "\<lambda>g. bt_get (settled_keys (entry_of g sw)) k = Some s" "\<lambda>_. True" ops]
    assms settled_step by (simp add: list_all_iff)

lemma reserve_settled:
  assumes "wf_registry g" "bt_get (settled_keys (entry_of g sw)) k = Some s"
  shows "snd (reserve g sw (Some k)) = Inr (Existing s)"
proof -
  have "wf_swarm (entry_of g sw)"
    using assms(1) by (rule wf_registryD)
  with assms(2) have "topology (entry_of g sw) \<noteq> Some PairShape"
    by (auto simp: wf_swarm_def shape_ok_def)
  with assms(2) show ?thesis
    by (simp add: reserve_def Let_def)
qed

section \<open>Slots in flight\<close>

lemma next_reservation_other:
  assumes "wf_registry g" "\<And>sw k. op \<noteq> Reserve sw k"
  shows "next_reservation (reg_apply op g) = next_reservation g"
proof (cases op)
  case (JoinPair sw x y)
  then show ?thesis
    by (simp add: join_as_pair_def admit_pair_def Let_def split: option.splits sum.splits)
next
  case (Confirm r m)
  then show ?thesis
    by (cases rule: confirm_cases [of g r m]) simp_all
next
  case (Elect sw)
  then show ?thesis
    by (cases rule: elect_cases [of g sw]) simp_all
next
  case (Restore sw ms c p)
  then show ?thesis
    using wf_registryD [OF assms(1)]
    by (auto simp: restore_def Let_def fold_forget fold_map_session split: option.splits)
next
  case (SetPlan sw p)
  then show ?thesis
    by (simp add: set_plan_def Let_def)
qed (use assms in \<open>auto simp: join_as_root_def Let_def release_def heartbeat_at_def modify_swarm_def
      reparent_children_def set_status_def record_completion_def with_member_def with_plan_def
      remove_member_eq split: option.splits sum.splits\<close>)

text \<open>Whether an operation settles or gives back one slot.\<close>

fun ends_slot :: "reservation \<Rightarrow> reg_op \<Rightarrow> bool" where
  "ends_slot r (Confirm r' _) \<longleftrightarrow> r' = r"
| "ends_slot r (Release r') \<longleftrightarrow> r' = r"
| "ends_slot r _ \<longleftrightarrow> False"

definition holds_slot :: "registry \<Rightarrow> reservation \<Rightarrow> string option \<Rightarrow> bool" where
  "holds_slot g r key \<longleftrightarrow>
     bt_get (reservations (entry_of g (res_swarm r))) (res_id r) = Some key
     \<and> unat (res_id r) < unat (next_reservation g)"

lemma unat_succ_u64: "unat (x :: u64) + 1 < 2 ^ 64 \<Longrightarrow> unat (x + 1) = unat x + 1"
  by (simp add: unat_word_ariths)

lemma reservation_eqI: "res_id r = res_id r' \<Longrightarrow> res_swarm r = res_swarm r' \<Longrightarrow> r = (r' :: reservation)"
  by simp

lemma slot_step:
  assumes "wf_registry g" "holds_slot g r key" "\<not> ends_slot r op"
    and "unat (next_reservation g) + 1 < 2 ^ 64"
  shows "holds_slot (reg_apply op g) r key"
proof (cases "touches_tables op")
  case False
  then have "next_reservation (reg_apply op g) = next_reservation g"
    using assms(1) by (intro next_reservation_other) auto
  with False tables_kept [OF assms(1), of op "res_swarm r"] assms(2) show ?thesis
    by (simp add: holds_slot_def keeps_tables_def)
next
  case True
  then consider (res) sw' k where "op = Reserve sw' k" | (conf) r' m where "op = Confirm r' m"
    | (rel) r' where "op = Release r'"
    by (cases op) auto
  then show ?thesis
  proof cases
    case res
    have "bt_inv (reservations (entry_of g sw'))"
      using wf_registryD(3) [OF assms(1), of sw'] by (simp add: wf_swarm_def maps_ok_def)
    then show ?thesis
      using assms unat_succ_u64 [OF assms(4)]
      by (cases rule: reserve_cases [OF assms(1), of sw' k])
        (auto simp: res holds_slot_def wf_registryD bt_laws)
  next
    case conf
    then have "r' \<noteq> r"
      using assms(3) by auto
    then show ?thesis
      using assms conf
      by (cases rule: confirm_cases [of g r' m])
        (auto simp: holds_slot_def wf_registryD entry_of_Some bt_laws dest: reservation_eqI)
  next
    case rel
    then have "r' \<noteq> r"
      using assms(3) by auto
    then show ?thesis
      using assms rel
      by (auto simp: release_def holds_slot_def wf_registryD entry_of_Some bt_laws
          split: option.splits dest: reservation_eqI)
  qed
qed

lemma next_reservation_step:
  assumes "wf_registry g" "unat (next_reservation g) + 1 < 2 ^ 64"
  shows "unat (next_reservation (reg_apply op g)) \<le> unat (next_reservation g) + 1"
proof (cases "\<exists>sw k. op = Reserve sw k")
  case True
  then obtain sw k where op: "op = Reserve sw k"
    by blast
  show ?thesis
    using unat_succ_u64 [OF assms(2)]
    by (cases rule: reserve_cases [OF assms(1), of sw k]) (simp_all add: op)
next
  case False
  then show ?thesis
    using next_reservation_other [OF assms(1), of op] by simp
qed

lemma slot_run:
  assumes "wf_registry g" "holds_slot g r key" "list_all (\<lambda>op. \<not> ends_slot r op) ops"
    and "unat (next_reservation g) + length ops < 2 ^ 64"
  shows "wf_registry (reg_run ops g) \<and> holds_slot (reg_run ops g) r key"
  using assms
proof (induction ops arbitrary: g)
  case (Cons op ops)
  have n: "unat (next_reservation g) + 1 < 2 ^ 64"
    using Cons.prems(4) by simp
  have "unat (next_reservation (reg_apply op g)) + length ops < 2 ^ 64"
    using next_reservation_step [OF Cons.prems(1) n, of op] Cons.prems(4) by simp
  moreover have "holds_slot (reg_apply op g) r key"
    using Cons.prems n by (intro slot_step) auto
  ultimately show ?case
    using Cons.IH [of "reg_apply op g"] Cons.prems wf_reg_apply by (simp add: reg_run_def)
qed (simp add: reg_run_def)

lemma reserve_in_flight:
  assumes "wf_registry g" "holds_slot g r (Some k)"
  shows "snd (reserve g (res_swarm r) (Some k)) = Inr InFlight"
proof -
  let ?e = "entry_of g (res_swarm r)"
  have w: "wf_swarm ?e"
    using assms(1) by (rule wf_registryD)
  have "bt_get (settled_keys ?e) k = None" "Some k \<in> set (bt_values (reservations ?e))"
    "topology ?e \<noteq> Some PairShape"
    using w assms(2) bt.vals_iff [of "reservations ?e" "Some k"]
    by (auto simp: wf_swarm_defs holds_slot_def)
  then show ?thesis
    by (simp add: reserve_def Let_def)
qed

end
