(* ===== verification/Swarm_Caps.thy ===== *)
theory Swarm_Caps
  imports Swarm_Run
begin

text \<open>
  The two bounds of a swarm over every run: members ever admitted plus slots held, and members
  running plus slots held. Putting members back (a restore, or setting a status to active) is
  outside the caps in the code, so those two are outside the runs here.
\<close>

section \<open>Counting active members\<close>

definition active_set :: "swarm \<Rightarrow> session_id set" where
  "active_set e = {s. \<exists>m. bt_get (sw_members e) s = Some m \<and> is_active (mem_status m)}"

lemma finite_active_set [simp]: "finite (active_set e)"
  by (rule finite_subset [OF _ bt.finite_dom [of "sw_members e"]]) (auto simp: active_set_def)

lemma length_active: "wf_swarm e \<Longrightarrow> length (active_members e) = card (active_set e)"
  by (simp add: active_members_def active_set_def bt.length_filter_vals wf_swarm_def maps_ok_def)

lemma in_use_card: "wf_swarm e \<Longrightarrow> in_use e = card (active_set e) + length (reservations e)"
  by (simp add: in_use_def length_active)

lemma card_active_insert:
  assumes "active_set e' \<subseteq> insert s (active_set e)"
  shows "card (active_set e') \<le> Suc (card (active_set e))"
proof -
  have "card (active_set e') \<le> card (insert s (active_set e))"
    using assms by (intro card_mono) auto
  then show ?thesis
    by (auto simp: card_insert_if split: if_splits)
qed

lemma card_active_le: "card (active_set e) \<le> length (sw_members e)"
proof -
  have "active_set e \<subseteq> fst ` set (sw_members e)"
    by (force simp: active_set_def bt_get_def dest: map_of_SomeD)
  then have "card (active_set e) \<le> card (set (map fst (sw_members e)))"
    by (intro card_mono) auto
  also have "\<dots> \<le> length (sw_members e)"
    using card_length [of "map fst (sw_members e)"] by simp
  finally show ?thesis .
qed

section \<open>The bounds\<close>

definition cap_ok :: "swarm_limits \<Rightarrow> swarm \<Rightarrow> bool" where
  "cap_ok l e \<longleftrightarrow>
     admitted e + length (reservations e) \<le> max_members l
     \<and> card (active_set e) + length (reservations e) \<le> max_active l
     \<and> length (sw_members e) \<le> admitted e"

definition caps_hold :: "swarm_limits \<Rightarrow> registry \<Rightarrow> bool" where
  "caps_hold l g \<longleftrightarrow> reg_limits g = l \<and> (\<forall>sw. cap_ok l (entry_of g sw))"

lemma check_caps_ok:
  assumes "check_caps e l n = Inr u" "wf_swarm e"
  shows "admitted e + length (reservations e) + n \<le> max_members l"
    "card (active_set e) + length (reservations e) + n \<le> max_active l"
    "admitted e + length (reservations e) + n \<le> usize_max"
  using assms
  by (auto simp: check_caps_def checked_add_def exceeds_def in_use_card Let_def split: if_splits)

lemma cap_ok_le:
  assumes "cap_ok l e" "admitted e' = admitted e" "length (reservations e') \<le> length (reservations e)"
    and "active_set e' \<subseteq> active_set e" "length (sw_members e') \<le> length (sw_members e)"
  shows "cap_ok l e'"
  using assms card_mono [OF finite_active_set assms(4)] by (auto simp: cap_ok_def)

lemma caps_put:
  assumes "wf_registry g" "caps_hold l g" "cap_ok l e"
  shows "caps_hold l (put_swarm g sw e)"
  using assms by (simp add: caps_hold_def wf_registryD)

lemma caps_frame [simp]:
  "caps_hold l (map_session g s sw) = caps_hold l g"
  "caps_hold l (g\<lparr>next_reservation := n\<rparr>) = caps_hold l g"
  "caps_hold l (g\<lparr>by_session := b\<rparr>) = caps_hold l g"
  by (simp_all add: caps_hold_def)

lemma caps_put_entry:
  "wf_registry g \<Longrightarrow> caps_hold l g \<Longrightarrow> caps_hold l (put_swarm g sw (entry_of g sw))"
  by (rule caps_put) (auto simp: caps_hold_def)

lemma caps_put_le:
  assumes "wf_registry g" "caps_hold l g" "bt_get (reg_swarms g) sw = Some e"
    and "admitted e' = admitted e" "length (reservations e') \<le> length (reservations e)"
    and "active_set e' \<subseteq> active_set e" "length (sw_members e') \<le> length (sw_members e)"
  shows "caps_hold l (put_swarm g sw e')"
proof (rule caps_put [OF assms(1,2)])
  have "cap_ok l e"
    using assms(2,3) by (auto simp: caps_hold_def entry_of_Some dest: spec [of _ sw])
  then show "cap_ok l e'"
    using assms(4-) by (rule cap_ok_le)
qed

lemma length_bt_insert_le: "length (bt_insert k v m) \<le> Suc (length m)"
  by (induction k v m rule: bt_insert.induct) auto

lemma length_bt_remove_le [simp]: "length (bt_remove k m) \<le> length m"
  by (simp add: bt_remove_def)

lemma length_bt_remove:
  assumes "bt_inv m" "bt_get m k = Some v"
  shows "Suc (length (bt_remove k m)) = length m"
proof -
  have "length (bt_remove k m) = card (dom (bt_get m) - {k})"
    using assms(1) by (simp add: length_bt_card bt_laws)
  moreover have "Suc (card (dom (bt_get m) - {k})) = card (dom (bt_get m))"
    using assms(2) bt.finite_dom by (intro card.remove [symmetric]) auto
  ultimately show ?thesis
    using assms(1) by (simp add: length_bt_card)
qed

lemma usize_succ_small: "n < usize_max \<Longrightarrow> usize_succ n = Suc n"
  by (simp add: usize_succ_def usize_max_def)

lemma cap_ok_admit:
  assumes "check_caps e l 1 = Inr ()" "wf_swarm e" "cap_ok l e"
    and "admitted e' = usize_succ (admitted e)" "reservations e' = reservations e"
    and "sw_members e' = bt_insert s m (sw_members e)"
  shows "cap_ok l e'"
proof -
  have "active_set e' \<subseteq> insert s (active_set e)"
    using assms(2,6) by (auto simp: active_set_def wf_swarm_def maps_ok_def bt_laws split: if_splits)
  then show ?thesis
    using check_caps_ok [OF assms(1,2)] assms card_active_insert [of e' s e]
      length_bt_insert_le [of s m "sw_members e"]
    by (auto simp: cap_ok_def usize_succ_small)
qed

section \<open>Every operation keeps the bounds\<close>

lemma caps_join_as_root:
  assumes "wf_registry g" "caps_hold l g"
  shows "caps_hold l (fst (join_as_root g sw s nm))"
proof -
  have "reg_limits g = l" "cap_ok l (entry_of g sw)"
    using assms(2) by (auto simp: caps_hold_def)
  then show ?thesis
    using assms wf_registryD(1,3) [OF assms(1)]
    by (auto simp: join_as_root_def Let_def caps_put_entry split: option.splits sum.splits
        intro!: caps_put cap_ok_admit [where e = "entry_of g sw"])
qed

lemma caps_join_as_pair:
  assumes "wf_registry g" "caps_hold l g"
  shows "caps_hold l (fst (join_as_pair g sw x y))"
proof (cases "fst (join_as_pair g sw x y) = g")
  case False
  let ?a = "(fst x, trim (snd x))" and ?b = "(fst y, trim (snd y))"
  let ?m = "bt_get (by_session g) (fst x) \<noteq> None \<or> bt_get (by_session g) (fst y) \<noteq> None"
  let ?e = "entry_of g sw"
  have l: "reg_limits g = l"
    using assms(2) by (simp add: caps_hold_def)
  from False have eq: "fst (join_as_pair g sw x y) = admit_pair g sw ?a ?b"
    and guard: "pair_guard g sw ?a ?b ?m = None" and caps: "check_caps ?e l 2 = Inr ()"
    by (auto simp: join_as_pair_def Let_def l split: if_splits option.splits sum.splits)
  have w: "wf_swarm ?e"
    using assms(1) by (rule wf_registryD)
  with pair_guard_None(2) [OF guard] have e: "sw_members ?e = []" "admitted ?e = 0" "reservations ?e = []"
    by (auto simp: wf_swarm_def shape_ok_def)
  define e' where "e' = ?e\<lparr>topology := Some PairShape, admitted := 2,
            sw_members := bt_insert (fst y) (peer_member (fst y) (trim (snd y)))
              (bt_insert (fst x) (peer_member (fst x) (trim (snd x))) [])\<rparr>"
  have "length (sw_members e') \<le> 2"
    by (simp add: e'_def)
  then have "cap_ok l e'"
    using check_caps_ok [OF caps w] e card_active_le [of e'] by (simp add: cap_ok_def e'_def)
  then show ?thesis
    using caps_put [OF assms] e by (simp add: eq admit_pair_def Let_def e'_def)
qed (simp add: assms)

lemma caps_reserve:
  assumes "wf_registry g" "caps_hold l g"
  shows "caps_hold l (fst (reserve g sw key))"
proof (cases rule: reserve_cases [OF assms(1), of sw key])
  case 1
  then show ?thesis
    using assms by (simp add: caps_put_entry)
next
  case 2
  let ?e = "entry_of g sw"
  let ?e' = "?e\<lparr>topology := Some Hierarchical,
             reservations := bt_insert (next_reservation g) key (reservations ?e)\<rparr>"
  have c: "cap_ok l ?e" "reg_limits g = l"
    using assms(2) by (simp_all add: caps_hold_def)
  have "active_set ?e' = active_set ?e"
    by (simp add: active_set_def)
  then have "cap_ok l ?e'"
    using c check_caps_ok [OF 2(1) wf_registryD(3) [OF assms(1)]]
      length_bt_insert_le [of "next_reservation g" key "reservations ?e"]
    by (auto simp: cap_ok_def)
  then show ?thesis
    using caps_put [OF assms] by (simp add: 2(3))
qed

lemma caps_confirm:
  assumes "wf_registry g" "caps_hold l g" "max_members l \<le> usize_max"
  shows "caps_hold l (fst (confirm g r m))"
proof (cases rule: confirm_cases [of g r m])
  case (confirmed e key)
  define e' where "e' = e\<lparr>reservations := bt_remove (res_id r) (reservations e),
               settled_keys := (case key of None \<Rightarrow> settled_keys e
                                | Some k \<Rightarrow> bt_insert k (mem_session m) (settled_keys e)),
               admitted := usize_succ (admitted e),
               sw_members := bt_insert (mem_session m) m (sw_members e)\<rparr>"
  have w: "wf_swarm e" and c: "cap_ok l e"
    using wf_registryD(3) [OF assms(1), of "res_swarm r"] assms(2) confirmed(1)
    by (auto simp: entry_of_Some caps_hold_def dest: spec [of _ "res_swarm r"])
  have r: "Suc (length (reservations e')) = length (reservations e)"
    using w confirmed(3) by (simp add: e'_def length_bt_remove wf_swarm_def maps_ok_def)
  have "active_set e' \<subseteq> insert (mem_session m) (active_set e)"
    using w by (auto simp: e'_def active_set_def wf_swarm_def maps_ok_def bt_laws split: if_splits)
  then have "card (active_set e') \<le> Suc (card (active_set e))"
    by (rule card_active_insert)
  moreover have "admitted e' = Suc (admitted e)"
    using c r assms(3) by (simp add: e'_def cap_ok_def usize_succ_small)
  ultimately have "cap_ok l e'"
    using c r length_bt_insert_le [of "mem_session m" m "sw_members e"]
    by (auto simp: cap_ok_def e'_def)
  then show ?thesis
    using caps_put [OF assms(1,2)] by (simp add: confirmed(6) e'_def)
qed (simp add: assms)

lemma active_set_modify:
  assumes "\<And>m. is_active (mem_status (f m)) \<Longrightarrow> is_active (mem_status m)"
  shows "active_set (modify_member s f e) \<subseteq> active_set e"
  using assms by (auto simp: active_set_def get_modify_member split: if_splits)

lemma length_modify_member [simp]: "length (sw_members (modify_member s f e)) = length (sw_members e)"
  by (simp add: modify_member_def)

lemma caps_elect:
  assumes "wf_registry g" "caps_hold l g"
  shows "caps_hold l (fst (elect_coordinator g sw))"
proof (cases rule: elect_cases [of g sw])
  case (elected e s)
  have "active_set (modify_member s (\<lambda>m. m\<lparr>mem_role := Coordinator\<rparr>) (e\<lparr>sw_coordinator := Some s\<rparr>))
    \<subseteq> active_set (e\<lparr>sw_coordinator := Some s\<rparr>)"
    by (rule active_set_modify) simp
  also have "\<dots> = active_set e"
    by (simp add: active_set_def)
  finally show ?thesis
    using caps_put_le [OF assms elected(1)] by (simp add: elected(6))
qed (simp add: assms)

lemma active_set_reparent: "active_set (fold (reparent_one np) ss e) = active_set e"
  by (auto simp: active_set_def fold_reparent split: if_splits)

lemma length_fold_reparent [simp]:
  "length (sw_members (fold (reparent_one np) ss e)) = length (sw_members e)"
  by (induction ss arbitrary: e) (simp_all add: reparent_one_def)

lemma caps_reparent:
  assumes "wf_registry g" "caps_hold l g"
  shows "caps_hold l (fst (reparent_children g sw s))"
  using assms caps_put_le [OF assms]
  by (auto simp: reparent_children_def Let_def active_set_reparent split: option.splits)

lemma caps_with_member:
  assumes "wf_registry g" "caps_hold l g"
    and "\<And>m. is_active (mem_status (f m)) \<Longrightarrow> is_active (mem_status m)"
  shows "caps_hold l (fst (with_member g sw s f))"
  using assms(1,2) caps_put_le [OF assms(1,2)] active_set_modify [OF assms(3)]
  by (auto simp: with_member_def split: option.splits)

lemma caps_status:
  assumes "wf_registry g" "caps_hold l g"
  shows "st \<noteq> Active \<Longrightarrow> caps_hold l (fst (set_status g sw s st))"
    "caps_hold l (fst (record_completion g sw s r))"
  using assms
  by (auto simp: set_status_def record_completion_def is_active_def intro!: caps_with_member)

lemma caps_heartbeat:
  assumes "wf_registry g" "caps_hold l g"
  shows "caps_hold l (heartbeat_at g sw s t)"
proof -
  have "cap_ok l (entry_of (heartbeat_at g sw s t) sw')" for sw'
    using heartbeat_entry [OF assms(1), of sw s t sw'] assms(2)
    by (auto simp: caps_hold_def cap_ok_def active_set_def)
  then show ?thesis
    using assms(2) by (simp add: caps_hold_def heartbeat_at_def modify_swarm_def)
qed

lemma caps_plan:
  assumes "wf_registry g" "caps_hold l g"
  shows "caps_hold l (fst (set_plan g sw p))" "caps_hold l (fst (with_plan g sw h))"
proof -
  have "cap_ok l (entry_of g sw)"
    using assms(2) by (simp add: caps_hold_def)
  then have "cap_ok l ((entry_of g sw)\<lparr>topology := t, sw_plan := q\<rparr>)" for t q
    by (auto simp: cap_ok_def active_set_def)
  then show "caps_hold l (fst (set_plan g sw p))"
    using assms wf_registryD(1) [OF assms(1)]
    by (auto simp: set_plan_def Let_def caps_put_entry intro: caps_put)
  show "caps_hold l (fst (with_plan g sw h))"
    using assms caps_put_le [OF assms]
    by (auto simp: with_plan_def Let_def active_set_def split: option.splits prod.splits)
qed

lemma caps_remove:
  assumes "wf_registry g" "caps_hold l g"
  shows "caps_hold l (fst (remove_member g sw s))"
  using assms
  by (auto simp: remove_member_def Let_def active_set_def bt_laws split: option.splits if_splits
      intro!: caps_put_le)

lemma caps_release:
  assumes "wf_registry g" "caps_hold l g"
  shows "caps_hold l (fst (release g r))"
  using assms caps_put_le [OF assms]
  by (auto simp: release_def active_set_def split: option.splits)

text \<open>The operations that admit nobody behind the caps' back.\<close>

fun within_caps :: "reg_op \<Rightarrow> bool" where
  "within_caps (Restore _ _ _ _) = False"
| "within_caps (SetStatus _ _ st) = (st \<noteq> Active)"
| "within_caps _ = True"

lemma caps_step:
  assumes "wf_registry g" "caps_hold l g" "within_caps op" "max_members l \<le> usize_max"
  shows "caps_hold l (reg_apply op g)"
  using assms
  by (cases op)
    (simp_all add: caps_join_as_root caps_join_as_pair caps_reserve caps_confirm caps_release
      caps_heartbeat caps_elect caps_reparent caps_status caps_plan caps_remove)

lemma caps_run:
  assumes "max_members l \<le> usize_max" "list_all within_caps ops"
  shows "wf_registry (reg_run ops (with_limits l)) \<and> caps_hold l (reg_run ops (with_limits l))"
proof (rule reg_run_induct [OF _ _ assms(2)])
  show "wf_registry (with_limits l)"
    by (rule wf_registry_new)
  show "caps_hold l (with_limits l)"
    by (simp add: caps_hold_def with_limits_def registry_new_def entry_of_def cap_ok_def
        active_set_def swarm_default_def bt_empty_def)
qed (use assms(1) caps_step in blast)

end
