(* ===== verification/Swarm_Tree.thy ===== *)
theory Swarm_Tree
  imports Swarm_Inv
begin

text \<open>
  The spawn tree is one stored edge per member. The two walks over it, up and down, each visit
  a member at most once whatever the edges are, and agree with the reflexive transitive closure
  of the edge relation: the subtree of a member is everyone who has it as an ancestor.
\<close>

section \<open>The edge relation\<close>

definition reports :: "swarm \<Rightarrow> (session_id \<times> session_id) set" where
  "reports e = {(t, s). parent_of e t = Some s}"

lemma reports_iff [simp]: "(t, s) \<in> reports e \<longleftrightarrow> parent_of e t = Some s"
  by (simp add: reports_def)

section \<open>Walking down\<close>

definition beneath :: "swarm \<Rightarrow> session_id set \<Rightarrow> session_id set" where
  "beneath e S = {t. \<exists>s \<in> S. (t, s) \<in> (reports e)\<^sup>*}"

text \<open>Whoever reports to a visited session is visited or on the stack.\<close>

definition frontier :: "swarm \<Rightarrow> session_id set \<Rightarrow> session_id list \<Rightarrow> bool" where
  "frontier e seen stack \<longleftrightarrow> (\<forall>x \<in> seen. \<forall>t. parent_of e t = Some x \<longrightarrow> t \<in> seen \<union> set stack)"

lemma frontier_cross:
  assumes "(t, s) \<in> (reports e)\<^sup>*" "s \<in> seen" "t \<notin> seen" "frontier e seen stack"
  shows "t \<in> beneath e (set stack)"
  using assms
proof (induction rule: converse_rtrancl_induct)
  case (step t u)
  show ?case
  proof (cases "u \<in> seen")
    case True
    with step have "t \<in> set stack"
      by (auto simp: frontier_def)
    then show ?thesis
      by (auto simp: beneath_def)
  next
    case False
    with step obtain y where "y \<in> set stack" "(u, y) \<in> (reports e)\<^sup>*"
      by (auto simp: beneath_def)
    with step.hyps(1) show ?thesis
      unfolding beneath_def by (blast intro: converse_rtrancl_into_rtrancl)
  qed
qed simp

lemma beneath_Cons_seen:
  assumes "frontier e seen (s # stack)" "s \<in> seen"
  shows "frontier e seen stack" "beneath e (set (s # stack)) - seen = beneath e (set stack) - seen"
proof -
  show f: "frontier e seen stack"
    using assms by (auto simp: frontier_def)
  show "beneath e (set (s # stack)) - seen = beneath e (set stack) - seen"
    using frontier_cross [OF _ assms(2) _ f] by (auto simp: beneath_def)
qed

lemma beneath_Cons_new:
  assumes "wf_swarm e" "s \<notin> seen"
  shows "beneath e (set (s # stack)) - seen =
    insert s (beneath e (set (rev (reports_of e s) @ stack)) - insert s seen)"
proof -
  have "t \<in> beneath e (set (reports_of e s))" if "(t, s) \<in> (reports e)\<^sup>*" "t \<noteq> s" for t
  proof -
    have "(t, s) \<in> (reports e)\<^sup>+"
      using that by (metis rtranclD)
    then obtain u where "(t, u) \<in> (reports e)\<^sup>*" "parent_of e u = Some s"
      by (metis reports_iff tranclD2)
    then show ?thesis
      using reports_of_iff [OF assms(1)] by (auto simp: beneath_def)
  qed
  moreover have "(t, s) \<in> (reports e)\<^sup>*" if "u \<in> set (reports_of e s)" "(t, u) \<in> (reports e)\<^sup>*" for t u
    using that reports_of_iff [OF assms(1)] by (meson reports_iff rtrancl.rtrancl_into_rtrancl)
  ultimately have "beneath e {s} = insert s (beneath e (set (reports_of e s)))"
    by (auto simp: beneath_def)
  moreover have "beneath e (A \<union> B) = beneath e A \<union> beneath e B" for A B
    by (auto simp: beneath_def)
  ultimately show ?thesis
    using assms(2) by (metis (no_types, opaque_lifting) Diff_insert2 Un_insert_left insert_Diff_if
        insert_Diff_single insert_is_Un list.simps(15) set_append set_rev)
qed

lemma frontier_new:
  assumes "wf_swarm e" "frontier e seen (s # stack)"
  shows "frontier e (insert s seen) (rev (reports_of e s) @ stack)"
  using assms reports_of_iff [OF assms(1), of _ s] by (fastforce simp: frontier_def)

lemma sub_loop_set:
  assumes "wf_swarm e" "frontier e seen stack"
  shows "set (sub_loop e seen stack) = (beneath e (set stack) - seen) \<inter> dom (bt_get (sw_members e))"
  using assms
proof (induction e seen stack rule: sub_loop.induct)
  case (2 e seen s stack)
  show ?case
  proof (cases "s \<in> seen")
    case True
    with 2 show ?thesis
      using beneath_Cons_seen [of e seen s stack] by simp
  next
    case False
    have "set (sub_loop e (insert s seen) (rev (reports_of e s) @ stack)) =
      (beneath e (set (rev (reports_of e s) @ stack)) - insert s seen) \<inter> dom (bt_get (sw_members e))"
      using 2 False frontier_new by blast
    then show ?thesis
      unfolding beneath_Cons_new [OF "2.prems"(1) False] using False by auto
  qed
qed (simp add: beneath_def)

lemma sub_loop_distinct:
  "distinct (sub_loop e seen stack) \<and> set (sub_loop e seen stack) \<inter> seen = {}"
  by (induction e seen stack rule: sub_loop.induct) auto

lemma subtree_set:
  assumes "wf_registry g"
  shows "set (subtree g sw s) =
    {t. member_of g sw t \<noteq> None \<and> (t, s) \<in> (reports (entry_of g sw))\<^sup>*}"
proof (cases "bt_get (reg_swarms g) sw")
  case None
  then show ?thesis
    by (simp add: subtree_def member_of_def)
next
  case (Some e)
  have "wf_swarm e"
    using wf_registryD(3) [OF assms, of sw] Some by (simp add: entry_of_Some)
  then have "set (sub_loop e {} [s]) = beneath e {s} \<inter> dom (bt_get (sw_members e))"
    using sub_loop_set [of e "{}" "[s]"] by (simp add: frontier_def)
  then show ?thesis
    using Some by (auto simp: subtree_def member_of_def entry_of_Some beneath_def)
qed

lemma subtree_sorted: "sorted_wrt (<) (subtree g sw s)"
  using sub_loop_distinct
  by (auto simp: subtree_def strict_sorted_iff split: option.splits)

section \<open>Walking up\<close>

definition above_opt :: "swarm \<Rightarrow> session_id option \<Rightarrow> session_id set" where
  "above_opt e cur = (case cur of None \<Rightarrow> {} | Some s \<Rightarrow> {a. (s, a) \<in> (reports e)\<^sup>*})"

text \<open>Whoever a visited session reports to is visited or next.\<close>

definition climbing :: "swarm \<Rightarrow> session_id set \<Rightarrow> session_id option \<Rightarrow> bool" where
  "climbing e seen cur \<longleftrightarrow>
     (\<forall>x \<in> seen. \<forall>p. parent_of e x = Some p \<longrightarrow> p \<in> seen \<or> cur = Some p)"

lemma climbing_closed:
  assumes "climbing e seen (Some s)" "s \<in> seen" "(s, a) \<in> (reports e)\<^sup>*"
  shows "a \<in> seen"
  using assms(3,1,2) by (induction rule: rtrancl_induct) (auto simp: climbing_def)

lemma above_step: "above_opt e (Some s) = insert s (above_opt e (parent_of e s))"
proof -
  have "(s, a) \<in> (reports e)\<^sup>* \<longleftrightarrow> a = s \<or> (\<exists>p. parent_of e s = Some p \<and> (p, a) \<in> (reports e)\<^sup>*)" for a
    using converse_rtranclE [of s a "reports e"] converse_rtrancl_into_rtrancl [of s _ "reports e" a]
    by (metis reports_iff rtrancl.rtrancl_refl)
  then show ?thesis
    by (auto simp: above_opt_def split: option.splits)
qed

lemma anc_loop_set:
  assumes "climbing e seen cur"
  shows "set (anc_loop e seen cur) = above_opt e cur - seen"
  using assms
proof (induction e seen cur rule: anc_loop.induct)
  case (2 e seen s)
  show ?case
  proof (cases "s \<in> seen")
    case True
    then show ?thesis
      using climbing_closed [OF "2.prems" True] by (auto simp: above_opt_def)
  next
    case False
    have "climbing e (insert s seen) (parent_of e s)"
      using "2.prems" by (auto simp: climbing_def)
    with 2 False show ?thesis
      by (auto simp: above_step [of e s])
  qed
qed (simp add: above_opt_def)

lemma anc_loop_distinct:
  "distinct (anc_loop e seen cur) \<and> set (anc_loop e seen cur) \<inter> seen = {}"
  by (induction e seen cur rule: anc_loop.induct) auto

lemma ancestors_set: "set (ancestors g sw s) = {a. (s, a) \<in> (reports (entry_of g sw))\<^sup>+}"
proof -
  have "(s, a) \<in> (reports e)\<^sup>+ \<longleftrightarrow> (\<exists>p. parent_of e s = Some p \<and> (p, a) \<in> (reports e)\<^sup>*)" for a e
    by (metis r_into_trancl' reports_iff rtrancl_into_trancl2 tranclD trancl_rtrancl_trancl)
  then have "set (anc_loop e {} (parent_of e s)) = {a. (s, a) \<in> (reports e)\<^sup>+}" for e
    using anc_loop_set [of e "{}" "parent_of e s"]
    by (auto simp: climbing_def above_opt_def split: option.splits)
  moreover have "reports swarm_default = {}"
    by (auto simp: reports_def parent_of_def)
  ultimately show ?thesis
    by (auto simp: ancestors_def entry_of_def split: option.splits)
qed

lemma ancestors_distinct: "distinct (ancestors g sw s)"
  by (simp add: ancestors_def anc_loop_distinct split: option.splits)

end
