(* ===== verification/Swarm_Messaging.thy ===== *)
theory Swarm_Messaging
  imports Swarm_Host Swarm_Tree
begin

text \<open>
  \<^verbatim>\<open>crates/localpilot-server/src/swarm/messaging.rs\<close>: whom a member may address, and what becomes
  of a message. The text and the parser of a session id are arguments; a refusal is a value
  where the code has its sentence.
\<close>

section \<open>Messages\<close>

datatype audience = One string | Subtree | WholeSwarm

datatype delivery = Notify | Interrupt | Wake

record peer_message =
  audience :: audience
  tldr :: "string option"
  msg_body :: string
  msg_delivery :: delivery

datatype peer_refusal =
    Unresolved swarm_error
  | ThatIsYou
  | NoSuchMember string
  | OnlyCoordinator

record peers =
  peers_swarm :: swarm_id
  me :: session_id

definition lookup_members :: "swarm_host \<Rightarrow> swarm_id \<Rightarrow> session_id list \<Rightarrow> swarm_member list" where
  "lookup_members h sw ids = List.map_filter (member_of (swarms h) sw) ids"

definition recipients ::
  "(string \<Rightarrow> session_id option) \<Rightarrow> swarm_host \<Rightarrow> peers \<Rightarrow> audience
   \<Rightarrow> peer_refusal + swarm_member list" where
  "recipients parse_id h v a =
     (let g = swarms h; sw = peers_swarm v
      in case a of
           One who \<Rightarrow>
             (case (case parse_id who of
                      Some i \<Rightarrow> Inr i
                    | None \<Rightarrow> map_sum Unresolved id (resolve_name g sw who)) of
                Inl e \<Rightarrow> Inl e
              | Inr target \<Rightarrow>
                  if target = me v then Inl ThatIsYou
                  else ok_or (NoSuchMember who) (map_option (\<lambda>m. [m]) (member_of g sw target)))
         | Subtree \<Rightarrow>
             Inr (lookup_members h sw (filter (\<lambda>i. i \<noteq> me v) (subtree g sw (me v))))
         | WholeSwarm \<Rightarrow>
             if \<not> is_coordinator g sw (me v) then Inl OnlyCoordinator
             else Inr (lookup_members h sw
                         (filter (\<lambda>i. i \<noteq> me v) (map mem_session (members_in g sw)))))"

text \<open>The dash of the source text is no character of the model; a plain one stands for it.\<close>

definition render_message :: "string \<Rightarrow> peer_message \<Rightarrow> string" where
  "render_message who m =
     ''Message from '' @ who
     @ (case tldr m of None \<Rightarrow> [] | Some t \<Rightarrow> '' - '' @ trim t)
     @ '':'' @ newline @ newline @ trim (msg_body m)"

definition start_turn :: "session_id \<Rightarrow> string \<Rightarrow> swarm_host \<Rightarrow> swarm_host" where
  "start_turn s body h =
     h\<lparr>hosts := bt_modify s (\<lambda>x. x\<lparr>started := started x @ [body]\<rparr>) (hosts h)\<rparr>"

definition deliver_to ::
  "swarm_member \<Rightarrow> peer_message \<Rightarrow> string \<Rightarrow> swarm_host \<Rightarrow> swarm_host \<times> bool" where
  "deliver_to m msg who h =
     (if \<not> is_active (mem_status m) then (h, False)
      else
        (case host_of h (mem_session m) of
           None \<Rightarrow> (h, False)
         | Some x \<Rightarrow>
             let body = render_message who msg;
                 put = (\<lambda>u. inject (mem_session m) \<lparr>si_content = body, si_source = System, si_urgent = u\<rparr> h)
             in (case msg_delivery msg of
                   Notify \<Rightarrow> put False
                 | Interrupt \<Rightarrow> put True
                 | Wake \<Rightarrow> if busy x then put True else start_turn (mem_session m) body h, True)))"

definition my_name :: "(session_id \<Rightarrow> string) \<Rightarrow> swarm_host \<Rightarrow> peers \<Rightarrow> string" where
  "my_name show_id h v = member_name show_id h (peers_swarm v) (me v)"

record delivered =
  reached :: nat
  reached_names :: "string list"

definition send ::
  "(session_id \<Rightarrow> string) \<Rightarrow> (string \<Rightarrow> session_id option) \<Rightarrow> swarm_host \<Rightarrow> peers \<Rightarrow> peer_message
   \<Rightarrow> swarm_host \<times> (peer_refusal + delivered)" where
  "send show_id parse_id h v msg =
     (case recipients parse_id h v (audience msg) of
        Inl e \<Rightarrow> (h, Inl e)
      | Inr targets \<Rightarrow>
          let who = my_name show_id h v;
              (h', names) = foldl (\<lambda>(h, names) m.
                  let (h', ok) = deliver_to m msg who h in (h', if ok then names @ [mem_name m] else names))
                (h, []) targets
          in (h', Inr \<lparr>reached = length names, reached_names = sort names\<rparr>))"

section \<open>The roster\<close>

record peer_summary =
  ps_session :: string
  ps_name :: string
  ps_role :: string
  ps_status :: string
  in_my_subtree :: bool

fun role_word :: "member_role \<Rightarrow> string" where
  "role_word Coordinator = ''coordinator''"
| "role_word Worker = ''worker''"
| "role_word Peer = ''peer''"

fun status_word :: "member_status \<Rightarrow> string" where
  "status_word Active = ''active''"
| "status_word Finished = ''finished''"
| "status_word Departed = ''gone''"

record swarm_identity =
  id_session :: string
  id_name :: string
  id_coordinator :: bool

definition identity :: "(session_id \<Rightarrow> string) \<Rightarrow> swarm_host \<Rightarrow> peers \<Rightarrow> swarm_identity" where
  "identity show_id h v =
     \<lparr>id_session = show_id (me v), id_name = my_name show_id h v,
      id_coordinator = is_coordinator (swarms h) (peers_swarm v) (me v)\<rparr>"

definition roster :: "(session_id \<Rightarrow> string) \<Rightarrow> swarm_host \<Rightarrow> peers \<Rightarrow> peer_summary list" where
  "roster show_id h v =
     (let mine = set (subtree (swarms h) (peers_swarm v) (me v))
      in map (\<lambda>m. \<lparr>ps_session = show_id (mem_session m), ps_name = mem_name m,
                   ps_role = role_word (mem_role m), ps_status = status_word (mem_status m),
                   in_my_subtree = mem_session m \<in> mine\<rparr>)
           (filter (\<lambda>m. mem_session m \<noteq> me v) (members_in (swarms h) (peers_swarm v))))"

section \<open>Who is reached\<close>

lemma member_of_iff:
  assumes "wf_registry g"
  shows "member_of g sw s = Some m \<longleftrightarrow> bt_get (sw_members (entry_of g sw)) s = Some m"
  by (auto simp: member_of_def entry_of_def bind_eq_Some_conv split: option.splits)

lemma member_session:
  assumes "wf_registry g" "member_of g sw s = Some m"
  shows "mem_session m = s"
  using assms wf_registryD(3) [OF assms(1), of sw]
  by (auto simp: member_of_iff wf_swarm_def members_ok_def)

lemma members_in_iff:
  assumes "wf_registry g"
  shows "m \<in> set (members_in g sw) \<longleftrightarrow> member_of g sw (mem_session m) = Some m"
proof (cases "bt_get (reg_swarms g) sw")
  case (Some e)
  have "wf_swarm e"
    using wf_registryD(3) [OF assms, of sw] Some by (simp add: entry_of_Some)
  then have "m \<in> set (bt_values (sw_members e)) \<longleftrightarrow> bt_get (sw_members e) (mem_session m) = Some m"
    using bt.vals_iff [of "sw_members e" m] by (auto simp: wf_swarm_def maps_ok_def members_ok_def)
  then show ?thesis
    using Some by (simp add: members_in_def member_of_def)
qed (simp add: members_in_def member_of_def)

lemma set_lookup_members:
  "set (lookup_members h sw ids) = {m. \<exists>i \<in> set ids. member_of (swarms h) sw i = Some m}"
  by (force simp: lookup_members_def List.map_filter_def)

lemma set_subtree_recipients:
  assumes "wf_registry (swarms h)"
    and "recipients parse_id h v Subtree = Inr ms"
  shows "m \<in> set ms \<longleftrightarrow>
    member_of (swarms h) (peers_swarm v) (mem_session m) = Some m
    \<and> mem_session m \<noteq> me v \<and> me v \<in> set (ancestors (swarms h) (peers_swarm v) (mem_session m))"
proof -
  let ?g = "swarms h" and ?sw = "peers_swarm v"
  have "m \<in> set ms \<longleftrightarrow> (\<exists>i \<in> set (subtree ?g ?sw (me v)). i \<noteq> me v \<and> member_of ?g ?sw i = Some m)"
    using assms(2) by (auto simp: recipients_def Let_def set_lookup_members)
  also have "\<dots> \<longleftrightarrow> mem_session m \<in> set (subtree ?g ?sw (me v)) \<and> mem_session m \<noteq> me v
      \<and> member_of ?g ?sw (mem_session m) = Some m"
    using member_session [OF assms(1)] by blast
  also have "\<dots> \<longleftrightarrow> member_of ?g ?sw (mem_session m) = Some m \<and> mem_session m \<noteq> me v
      \<and> me v \<in> set (ancestors ?g ?sw (mem_session m))"
    by (auto simp: subtree_set [OF assms(1)] ancestors_set rtrancl_eq_or_trancl)
  finally show ?thesis .
qed

text \<open>
  \<^verbatim>\<open>crates/localpilot-server/src/swarm/lifecycle.rs\<close>, its second half: durable snapshots, one file
  per swarm plus a backup, written through a temporary file. The JSON writer and reader are
  arguments, and so is what the filesystem does: whether each call fails and what a call that
  failed or was cut off leaves behind. A file name is the swarm's key and one of three suffixes.
\<close>

section \<open>Data\<close>

record swarm_snapshot =
  snap_swarm :: swarm_id
  snap_revision :: u64
  snap_members :: "swarm_member list"
  snap_coordinator :: "session_id option"
  snap_plan :: "task_plan option"

datatype snapshot_error = SnapIo string | SnapMalformed string

datatype snap_file = Primary | Backup | Temp

type_synonym 'b files = "string \<times> snap_file \<Rightarrow> 'b option"

definition file_key :: "swarm_id \<Rightarrow> string" where
  "file_key sw =
     map (\<lambda>c. if is_ascii_alphanumeric c \<or> c = CHR ''-'' \<or> c = CHR ''_'' then c else CHR ''_'') sw"

text \<open>What the filesystem does during one save.\<close>

record 'b save_io =
  mkdir_fails :: bool
  backup_left :: "'b option"
  temp_left :: "'b option"
  write_fails :: bool
  rename_fails :: bool

section \<open>Operations\<close>

definition read_file ::
  "('b \<Rightarrow> string + swarm_snapshot) \<Rightarrow> 'b files \<Rightarrow> string \<times> snap_file
   \<Rightarrow> string + swarm_snapshot option" where
  "read_file decode fs path =
     (case fs path of None \<Rightarrow> Inr None | Some body \<Rightarrow> map_sum id Some (decode body))"

text \<open>The write is dropped when the file on disk is as new.\<close>

definition stale_write ::
  "('b \<Rightarrow> string + swarm_snapshot) \<Rightarrow> 'b files \<Rightarrow> swarm_snapshot \<Rightarrow> bool" where
  "stale_write decode fs snap =
     (case read_file decode fs (file_key (snap_swarm snap), Primary) of
        Inr (Some x) \<Rightarrow> snap_revision snap \<le> snap_revision x
      | _ \<Rightarrow> False)"

definition backed_up ::
  "('b \<Rightarrow> string + swarm_snapshot) \<Rightarrow> 'b save_io \<Rightarrow> 'b files \<Rightarrow> swarm_snapshot \<Rightarrow> 'b files" where
  "backed_up decode io fs snap =
     (case read_file decode fs (file_key (snap_swarm snap), Primary) of
        Inr (Some _) \<Rightarrow> fs((file_key (snap_swarm snap), Backup) := backup_left io)
      | _ \<Rightarrow> fs)"

definition save ::
  "(swarm_snapshot \<Rightarrow> string + 'b) \<Rightarrow> ('b \<Rightarrow> string + swarm_snapshot) \<Rightarrow> 'b save_io \<Rightarrow> 'b files
   \<Rightarrow> swarm_snapshot \<Rightarrow> 'b files \<times> (snapshot_error + bool)" where
  "save encode decode io fs snap =
     (let k = file_key (snap_swarm snap)
      in if mkdir_fails io then (fs, Inl (SnapIo k))
         else if stale_write decode fs snap then (fs, Inr False)
         else
           (let fs1 = backed_up decode io fs snap
            in case encode snap of
                 Inl why \<Rightarrow> (fs1, Inl (SnapMalformed why))
               | Inr body \<Rightarrow>
                   if write_fails io then (fs1((k, Temp) := temp_left io), Inl (SnapIo k))
                   else
                     (let fs2 = fs1((k, Temp) := Some body)
                      in if rename_fails io then (fs2, Inl (SnapIo k))
                         else (fs2((k, Primary) := Some body, (k, Temp) := None), Inr True))))"

text \<open>
  The states the process can die in: before anything, with the backup copied so far, with the
  temporary file written so far, before and after the rename.
\<close>

definition crash_points ::
  "(swarm_snapshot \<Rightarrow> string + 'b) \<Rightarrow> ('b \<Rightarrow> string + swarm_snapshot) \<Rightarrow> 'b save_io \<Rightarrow> 'b files
   \<Rightarrow> swarm_snapshot \<Rightarrow> 'b files list" where
  "crash_points encode decode io fs snap =
     (let k = file_key (snap_swarm snap); fs1 = backed_up decode io fs snap
      in if mkdir_fails io \<or> stale_write decode fs snap then [fs]
         else
           [fs, fs1, fs1((k, Temp) := temp_left io)]
           @ (case encode snap of
                Inl _ \<Rightarrow> []
              | Inr body \<Rightarrow>
                  [fs1((k, Temp) := Some body),
                   fs1((k, Temp) := Some body, (k, Primary) := Some body, (k, Temp) := None)]))"

definition load ::
  "('b \<Rightarrow> string + swarm_snapshot) \<Rightarrow> 'b files \<Rightarrow> swarm_id
   \<Rightarrow> snapshot_error + swarm_snapshot option" where
  "load decode fs sw =
     (case read_file decode fs (file_key sw, Primary) of
        Inr (Some x) \<Rightarrow> Inr (Some x)
      | _ \<Rightarrow> map_sum SnapMalformed id (read_file decode fs (file_key sw, Backup)))"

text \<open>
  The members, the coordinator and the plan are read under the lock of the registry one after the other, so the
  registry has a state of its own at each read.
\<close>

definition captured ::
  "('b \<Rightarrow> string + swarm_snapshot) \<Rightarrow> 'b files \<Rightarrow> registry \<Rightarrow> registry \<Rightarrow> registry \<Rightarrow> swarm_id \<Rightarrow> swarm_snapshot" where
  "captured decode fs at_members at_coordinator at_plan sw =
     \<lparr>snap_swarm = sw,
      snap_revision = (case load decode fs sw of Inr (Some x) \<Rightarrow> snap_revision x + 1 | _ \<Rightarrow> 1),
      snap_members = members_in at_members sw, snap_coordinator = swarm_coordinator at_coordinator sw,
      snap_plan = plan_of at_plan sw\<rparr>"

definition capture ::
  "(swarm_snapshot \<Rightarrow> string + 'b) \<Rightarrow> ('b \<Rightarrow> string + swarm_snapshot) \<Rightarrow> 'b save_io \<Rightarrow> 'b files
   \<Rightarrow> registry \<Rightarrow> registry \<Rightarrow> registry \<Rightarrow> swarm_id \<Rightarrow> 'b files \<times> (snapshot_error + swarm_snapshot)" where
  "capture encode decode io fs at_members at_coordinator at_plan sw =
     (let snap = captured decode fs at_members at_coordinator at_plan sw; (fs', r) = save encode decode io fs snap
      in (fs', map_sum id (\<lambda>_. snap) r))"

definition restore_snapshot :: "registry \<Rightarrow> swarm_snapshot \<Rightarrow> registry \<times> (swarm_error + unit)" where
  "restore_snapshot g x = restore g (snap_swarm x) (snap_members x) (snap_coordinator x) (snap_plan x)"

section \<open>Lemmas\<close>

lemma save_ok:
  assumes "encode snap = Inr body" "\<not> mkdir_fails io" "\<not> write_fails io" "\<not> rename_fails io"
    and "\<not> stale_write decode fs snap"
  shows "snd (save encode decode io fs snap) = Inr True"
    "fst (save encode decode io fs snap) (file_key (snap_swarm snap), Primary) = Some body"
  using assms by (simp_all add: save_def Let_def)

lemma load_saved:
  assumes "fs (file_key sw, Primary) = Some body" "decode body = Inr x"
  shows "load decode fs sw = Inr (Some x)"
  using assms by (simp add: load_def read_file_def)

text \<open>A load sees the primary first, so while that is readable the other files do not matter.\<close>

lemma load_cong:
  assumes "fs' (file_key sw, Primary) = fs (file_key sw, Primary)"
    and "read_file decode fs (file_key sw, Primary) = Inr (Some x)
         \<or> fs' (file_key sw, Backup) = fs (file_key sw, Backup)"
  shows "load decode fs' sw = load decode fs sw"
  using assms by (auto simp: load_def read_file_def split: option.splits sum.splits)

lemma load_backed_up:
  "load decode (backed_up decode io fs snap) (snap_swarm snap) = load decode fs (snap_swarm snap)"
  by (cases "\<exists>x. read_file decode fs (file_key (snap_swarm snap), Primary) = Inr (Some x)")
    (auto simp: backed_up_def intro!: load_cong split: sum.splits option.splits)

lemma load_temp [simp]: "load decode (fs((k, Temp) := t)) sw = load decode fs sw"
  by (rule load_cong) auto

lemma load_primary:
  "decode body = Inr x \<Longrightarrow> load decode (fs((file_key sw, Primary) := Some body)) sw = Inr (Some x)"
  by (rule load_saved) auto

lemma crash_points_load:
  assumes "\<And>body. encode snap = Inr body \<Longrightarrow> decode body = Inr snap"
    and "fs' \<in> set (crash_points encode decode io fs snap)"
  shows "load decode fs' (snap_swarm snap) = load decode fs (snap_swarm snap)
    \<or> load decode fs' (snap_swarm snap) = Inr (Some snap)"
  using assms load_backed_up [of decode io fs snap]
  by (auto simp: crash_points_def Let_def load_primary simp del: fun_upd_apply
      split: if_splits sum.splits)

lemma save_ends_at_crash_point:
  "fst (save encode decode io fs snap) \<in> set (crash_points encode decode io fs snap)"
  by (auto simp: save_def crash_points_def Let_def split: sum.splits)

section \<open>A restart\<close>

lemma sorted_members_distinct:
  assumes "wf_registry g"
  shows "inj_on mem_session (set (members_in g sw))"
  using members_in_iff [OF assms] by (intro inj_onI) (metis option.inject)

lemma restored_fold_get:
  assumes "bt_inv mp" "inj_on mem_session (set ms)"
  shows "bt_get (fold (\<lambda>m. bt_insert (mem_session m) m) ms mp) s =
    (case find (\<lambda>m. mem_session m = s) ms of Some m \<Rightarrow> Some m | None \<Rightarrow> bt_get mp s)"
  using assms
proof (induction ms arbitrary: mp)
  case (Cons m ms)
  have "find (\<lambda>m'. mem_session m' = s) ms = Some m' \<Longrightarrow> mem_session m = s \<Longrightarrow> m' = m" for m'
    using Cons.prems(2) by (auto simp: find_Some_iff inj_on_def)
  with Cons show ?case
    by (auto simp: bt_laws inj_on_def split: option.splits)
qed simp

lemma restored_members:
  assumes "wf_registry g"
  shows "bt_get (restored_map (members_in g sw)) s = member_of g sw s"
proof (cases "member_of g sw s")
  case None
  then have "find (\<lambda>m. mem_session m = s) (members_in g sw) = None"
    using members_in_iff [OF assms] by (auto simp: find_None_iff)
  with None show ?thesis
    using restored_fold_get [OF _ sorted_members_distinct [OF assms, of sw], of bt_empty s]
    by (simp add: restored_map_def)
next
  case (Some m)
  then have m: "m \<in> set (members_in g sw)" "mem_session m = s"
    using member_session [OF assms Some] members_in_iff [OF assms] by auto
  then obtain m' where f: "find (\<lambda>m. mem_session m = s) (members_in g sw) = Some m'"
    by (cases "find (\<lambda>m. mem_session m = s) (members_in g sw)") (auto simp: find_None_iff)
  then have "m' \<in> set (members_in g sw)" "mem_session m' = s"
    by (auto simp: find_Some_iff)
  then have "m' = m"
    using m sorted_members_distinct [OF assms, of sw] by (auto simp: inj_on_def)
  with f Some show ?thesis
    using restored_fold_get [OF _ sorted_members_distinct [OF assms, of sw], of bt_empty s]
    by (simp add: restored_map_def)
qed

end
