(* ===== verification/Swarm_Life.thy ===== *)
theory Swarm_Life
  imports Swarm_Messaging Plan_Run
begin

text \<open>
  \<^verbatim>\<open>crates/localpilot-server/src/swarm/lifecycle.rs\<close>, its first half: salvaging a member that
  stopped answering, the sweep that finds such members, and reaping finished ones.
\<close>

section \<open>Salvage\<close>

definition DEFAULT_STALE_AFTER :: nat where "DEFAULT_STALE_AFTER = 90 * 10 ^ 9"
definition DEFAULT_RECLAIM_LIMIT :: u32 where "DEFAULT_RECLAIM_LIMIT = 2"

record salvaged =
  departed :: session_id
  sv_tasks :: "(node_id \<times> salvage) list"
  reparented :: "session_id list"
  new_coordinator :: "session_id option"
  reported_to :: "session_id option"

fun salvage_line :: "node_id \<times> salvage \<Rightarrow> string" where
  "salvage_line (i, Requeued r) =
     ''- '' @ show_node_id i @ '' is back in the queue for someone else (reclaim ''
     @ show_nat (unat r) @ '').'' @ newline"
| "salvage_line (i, Exhausted r limit) =
     ''- '' @ show_node_id i @ '' has now been reclaimed '' @ show_nat (unat r)
     @ '' times (limit '' @ show_nat (unat limit)
     @ '') and has been failed. It is failing, not unlucky - look at the task itself before ''
     @ ''re-creating it.'' @ newline"

text \<open>The dashes of the source text are no characters of the model; plain ones stand for them.\<close>

definition salvage_report ::
  "(session_id \<Rightarrow> string) \<Rightarrow> string \<Rightarrow> session_id \<Rightarrow> (node_id \<times> salvage) list \<Rightarrow> session_id list
   \<Rightarrow> string" where
  "salvage_report show_id nm s tasks moved =
     ''Worker '' @ nm @ '' ('' @ show_id s @ '') stopped responding and was taken off its work.''
     @ (if tasks = [] then '' It held no unfinished tasks.''
        else newline @ newline @ ''Its tasks:'' @ newline @ concat (map salvage_line tasks))
     @ (if moved = [] then []
        else newline @ show_nat (length moved) @ '' agent(s) it had spawned now report to you.'' @ newline)"

definition salvage_member ::
  "(session_id \<Rightarrow> string) \<Rightarrow> swarm_host \<Rightarrow> swarm_id \<Rightarrow> session_id \<Rightarrow> u32 \<Rightarrow> swarm_host \<times> salvaged" where
  "salvage_member show_id h sw s limit =
     (let g = swarms h;
          was_coordinator = is_coordinator g sw s;
          nm = member_name show_id h sw s;
          g1 = fst (set_status g sw s Departed);
          (g2, r) = with_plan g1 sw (\<lambda>p. salvage_actor p (show_id s) limit);
          tasks = (case r of Inl _ \<Rightarrow> [] | Inr ts \<Rightarrow> ts);
          (g3, moved) = reparent_children g2 sw s;
          (g4, elected) = (if was_coordinator then elect_coordinator g3 sw else (g3, None));
          owner = option_filter (\<lambda>o'. o' \<noteq> s)
                    (case elected of Some e \<Rightarrow> Some e | None \<Rightarrow> swarm_coordinator g4 sw);
          h1 = h\<lparr>swarms := g4\<rparr>;
          told = option_filter (\<lambda>o'. host_of h1 o' \<noteq> None) owner;
          h2 = (case told of
                  None \<Rightarrow> h1
                | Some o' \<Rightarrow>
                    inject o' \<lparr>si_content = salvage_report show_id nm s tasks moved,
                              si_source = System, si_urgent = False\<rparr> h1)
      in (h2\<lparr>touches := forget (touches h2) s\<rparr>,
          \<lparr>departed = s, sv_tasks = tasks, reparented = moved, new_coordinator = elected,
           reported_to = told\<rparr>))"

fun salvage_each ::
  "(session_id \<Rightarrow> string) \<Rightarrow> swarm_host \<Rightarrow> swarm_id \<Rightarrow> u32 \<Rightarrow> session_id list
   \<Rightarrow> swarm_host \<times> salvaged list" where
  "salvage_each show_id h sw limit [] = (h, [])"
| "salvage_each show_id h sw limit (s # ss) =
     (let (h1, x) = salvage_member show_id h sw s limit; (h2, xs) = salvage_each show_id h1 sw limit ss
      in (h2, x # xs))"

definition sweep ::
  "(session_id \<Rightarrow> string) \<Rightarrow> swarm_host \<Rightarrow> swarm_id \<Rightarrow> nat \<Rightarrow> u32 \<Rightarrow> instant
   \<Rightarrow> swarm_host \<times> salvaged list" where
  "sweep show_id h sw stale_after limit now =
     salvage_each show_id h sw limit (stale_members (swarms h) sw stale_after now)"

fun reap_each :: "swarm_host \<Rightarrow> swarm_id \<Rightarrow> session_id list \<Rightarrow> swarm_host \<times> session_id list" where
  "reap_each h sw [] = (h, [])"
| "reap_each h sw (s # ss) =
     (if children_of (swarms h) sw s \<noteq> [] then reap_each h sw ss
      else
        (let (h1, x) = unhost h s; (h2, rs) = reap_each h1 sw ss
         in (h2, if x = None then rs else s # rs)))"

definition reap_terminal :: "swarm_host \<Rightarrow> swarm_id \<Rightarrow> swarm_host \<times> session_id list" where
  "reap_terminal h sw = reap_each h sw (terminal_members (swarms h) sw)"

section \<open>The registry half of a salvage\<close>

definition salvage_registry ::
  "(session_id \<Rightarrow> string) \<Rightarrow> registry \<Rightarrow> swarm_id \<Rightarrow> session_id \<Rightarrow> u32 \<Rightarrow> registry" where
  "salvage_registry show_id g sw s limit =
     (let g1 = fst (set_status g sw s Departed);
          g2 = fst (with_plan g1 sw (\<lambda>p. salvage_actor p (show_id s) limit));
          g3 = fst (reparent_children g2 sw s)
      in if is_coordinator g sw s then fst (elect_coordinator g3 sw) else g3)"

lemma swarms_inject [simp]: "swarms (inject s i h) = swarms h"
  by (simp add: inject_def)

lemma swarms_salvage:
  "swarms (fst (salvage_member show_id h sw s limit)) = salvage_registry show_id (swarms h) sw s limit"
  by (simp add: salvage_member_def salvage_registry_def Let_def split_beta split: option.splits)

lemma wf_salvage_registry: "wf_registry g \<Longrightarrow> wf_registry (salvage_registry show_id g sw s limit)"
  by (simp add: salvage_registry_def Let_def wf_set_status wf_with_plan wf_reparent_children
      wf_elect_coordinator)

lemma get_put [simp]:
  "bt_inv (reg_swarms g) \<Longrightarrow> bt_get (reg_swarms (put_swarm g sw e)) = (bt_get (reg_swarms g))(sw \<mapsto> e)"
  by (simp add: put_swarm_def bt_laws)

text \<open>The plan after the corpse's work was taken back.\<close>

definition freed_plan ::
  "(session_id \<Rightarrow> string) \<Rightarrow> session_id \<Rightarrow> u32 \<Rightarrow> swarm \<Rightarrow> task_plan option" where
  "freed_plan show_id s limit e =
     (if topology e = Some PairShape then sw_plan e
      else map_option (\<lambda>p. fst (salvage_actor p (show_id s) limit)) (sw_plan e))"

text \<open>The entry before the election, for a member of a registered swarm.\<close>

definition taken_off ::
  "(session_id \<Rightarrow> string) \<Rightarrow> session_id \<Rightarrow> u32 \<Rightarrow> swarm \<Rightarrow> swarm" where
  "taken_off show_id s limit e =
     (modify_member s (\<lambda>m. m\<lparr>mem_status := Departed\<rparr>) e)\<lparr>sw_plan := freed_plan show_id s limit e\<rparr>"

definition orphaned ::
  "(session_id \<Rightarrow> string) \<Rightarrow> session_id \<Rightarrow> u32 \<Rightarrow> swarm \<Rightarrow> swarm" where
  "orphaned show_id s limit e =
     (let e2 = taken_off show_id s limit e
      in fold (reparent_one (new_parent e2 s)) (reports_of e2 s) e2)"

lemma set_status_member:
  assumes "bt_get (reg_swarms g) sw = Some e" "bt_get (sw_members e) s = Some m"
  shows "fst (set_status g sw s st) = put_swarm g sw (modify_member s (\<lambda>m. m\<lparr>mem_status := st\<rparr>) e)"
  using assms by (simp add: set_status_def with_member_def)

lemma bt_insert_same:
  "bt_inv m \<Longrightarrow> bt_get m k = Some v \<Longrightarrow> bt_insert k v m = m"
proof (induction k v m rule: bt_insert.induct)
  case (2 k v k' v' m)
  then have "\<not> k < k'"
    by (force simp: bt_get_def bt_inv_def split: if_splits dest: map_of_SomeD)
  with 2 show ?case
    by (auto simp: bt_get_def bt_inv_def)
qed simp

lemma put_same: "bt_inv (reg_swarms g) \<Longrightarrow> bt_get (reg_swarms g) sw = Some e \<Longrightarrow> put_swarm g sw e = g"
  by (simp add: put_swarm_def bt_insert_same)

lemma with_plan_entry:
  assumes "bt_inv (reg_swarms g)" "bt_get (reg_swarms g) sw = Some e"
  shows "fst (with_plan g sw f) = put_swarm g sw
    (e\<lparr>sw_plan := (if topology e = Some PairShape then sw_plan e
                   else map_option (\<lambda>p. fst (f p)) (sw_plan e))\<rparr>)"
proof (cases "topology e = Some PairShape \<or> sw_plan e = None")
  case True
  then have same: "e\<lparr>sw_plan := (if topology e = Some PairShape then sw_plan e
                   else map_option (\<lambda>p. fst (f p)) (sw_plan e))\<rparr> = e"
    by auto
  show ?thesis
    unfolding same put_same [OF assms] using True assms(2) by (auto simp: with_plan_def)
next
  case False
  then show ?thesis
    using assms(2) by (auto simp: with_plan_def Let_def split_beta)
qed

lemma reparent_entry:
  assumes "bt_get (reg_swarms g) sw = Some e"
  shows "reparent_children g sw s =
    (put_swarm g sw (fold (reparent_one (new_parent e s)) (reports_of e s) e), sort (reports_of e s))"
  using assms by (simp add: reparent_children_def Let_def)

text \<open>A salvage of a member, before and after the election.\<close>

lemma salvage_registry_entry:
  assumes "wf_registry g" "bt_get (reg_swarms g) sw = Some e" "bt_get (sw_members e) s = Some m"
  shows "salvage_registry show_id g sw s limit =
    (let g3 = put_swarm g sw (orphaned show_id s limit e)
     in if sw_coordinator e = Some s then fst (elect_coordinator g3 sw) else g3)"
proof -
  have b: "bt_inv (reg_swarms g)"
    using assms(1) by (rule wf_registryD)
  have "is_coordinator g sw s \<longleftrightarrow> sw_coordinator e = Some s"
    using assms(2) by (simp add: is_coordinator_def swarm_coordinator_def)
  moreover have "fst (with_plan (fst (set_status g sw s Departed)) sw (\<lambda>p. salvage_actor p (show_id s) limit))
      = put_swarm g sw (taken_off show_id s limit e)"
    using b
    by (subst with_plan_entry [of _ _ "modify_member s (\<lambda>m. m\<lparr>mem_status := Departed\<rparr>) e"])
      (simp_all add: set_status_member [OF assms(2,3)] taken_off_def freed_plan_def)
  moreover have "fst (reparent_children (put_swarm g sw (taken_off show_id s limit e)) sw s)
      = put_swarm g sw (orphaned show_id s limit e)"
    using b by (subst reparent_entry [of _ _ "taken_off show_id s limit e"])
      (simp_all add: orphaned_def Let_def)
  ultimately show ?thesis
    by (simp add: salvage_registry_def Let_def)
qed

section \<open>What a salvage leaves\<close>

lemma taken_off_fields [simp]:
  "topology (taken_off show_id s limit e) = topology e"
  "sw_coordinator (taken_off show_id s limit e) = sw_coordinator e"
  "reservations (taken_off show_id s limit e) = reservations e"
  by (simp_all add: taken_off_def)

lemma wf_taken_off:
  assumes "wf_swarm e"
  shows "wf_swarm (taken_off show_id s limit e)"
proof -
  have "wf_swarm (modify_member s (\<lambda>m. m\<lparr>mem_status := Departed\<rparr>) e)"
    using assms by (intro wf_swarm_modify) auto
  then show ?thesis
    by (auto simp: taken_off_def freed_plan_def wf_swarm_defs)
qed

lemma new_parent_not_departed:
  assumes "wf_swarm e"
  shows "new_parent e s \<noteq> Some s"
  using assms
  by (auto simp: new_parent_def or_else_def option_filter_def wf_swarm_def members_ok_def
      split: option.splits if_splits)

lemma orphaned_fields [simp]:
  "topology (orphaned show_id s limit e) = topology e"
  "sw_coordinator (orphaned show_id s limit e) = sw_coordinator e"
  "sw_plan (orphaned show_id s limit e) = freed_plan show_id s limit e"
  by (simp_all add: orphaned_def Let_def) (simp add: taken_off_def)

lemma orphaned_no_reports:
  assumes "wf_swarm e"
  shows "parent_of (orphaned show_id s limit e) t \<noteq> Some s"
proof -
  let ?e2 = "taken_off show_id s limit e"
  have w: "wf_swarm ?e2"
    using assms by (rule wf_taken_off)
  show ?thesis
  proof (cases "t \<in> set (reports_of ?e2 s)")
    case True
    then show ?thesis
      using new_parent_not_departed [OF w, of s]
      by (auto simp: orphaned_def Let_def parent_of_def fold_reparent option_filter_def
          bind_eq_Some_conv split: option.splits if_splits)
  next
    case False
    then have "parent_of ?e2 t \<noteq> Some s"
      using reports_of_iff [OF w] by blast
    with False show ?thesis
      by (simp add: orphaned_def Let_def parent_of_def fold_reparent)
  qed
qed

lemma orphaned_status:
  assumes "bt_get (sw_members e) s = Some m"
  shows "\<exists>m'. bt_get (sw_members (orphaned show_id s limit e)) s = Some m' \<and> mem_status m' = Departed"
  using assms
  by (auto simp: orphaned_def Let_def fold_reparent taken_off_def get_modify_member)

text \<open>An election changes the seat and one role, nothing else of the members or the plan.\<close>

definition seated :: "session_id \<Rightarrow> swarm \<Rightarrow> swarm" where
  "seated c e = modify_member c (\<lambda>m. m\<lparr>mem_role := Coordinator\<rparr>) (e\<lparr>sw_coordinator := Some c\<rparr>)"

lemma seated_simps [simp]:
  "parent_of (seated c e) t = parent_of e t"
  "sw_plan (seated c e) = sw_plan e"
  "sw_coordinator (seated c e) = Some c"
  by (auto simp: seated_def parent_of_def get_modify_member split: bind_splits)

lemma seated_status:
  "map_option mem_status (bt_get (sw_members (seated c e)) t) = map_option mem_status (bt_get (sw_members e) t)"
  by (simp add: seated_def get_modify_member option.map_comp comp_def)

lemma in_active_iff:
  assumes "wf_swarm e"
  shows "c \<in> mem_session ` set (active_members e) \<longleftrightarrow>
    (\<exists>m. bt_get (sw_members e) c = Some m \<and> is_active (mem_status m))"
proof -
  have "bt_inv (sw_members e)" "\<And>s m. bt_get (sw_members e) s = Some m \<Longrightarrow> mem_session m = s"
    using assms by (auto simp: wf_swarm_def maps_ok_def members_ok_def)
  then show ?thesis
    using bt.vals_iff [of "sw_members e"] by (fastforce simp: active_members_def)
qed

lemma salvage_entry_cases:
  assumes "wf_registry g" "bt_get (reg_swarms g) sw = Some e" "bt_get (sw_members e) s = Some m"
  obtains (kept) "entry_of (salvage_registry show_id g sw s limit) sw = orphaned show_id s limit e"
      "sw_coordinator e = Some s \<Longrightarrow> active_members (orphaned show_id s limit e) = []"
  | (elected) c where "entry_of (salvage_registry show_id g sw s limit) sw = seated c (orphaned show_id s limit e)"
      "\<exists>m. bt_get (sw_members (orphaned show_id s limit e)) c = Some m \<and> is_active (mem_status m)"
proof -
  let ?o = "orphaned show_id s limit e"
  let ?g3 = "put_swarm g sw ?o"
  have b: "bt_inv (reg_swarms g)"
    using assms(1) by (rule wf_registryD)
  have "wf_registry ?g3"
  proof -
    have "wf_registry (fst (reparent_children (fst (with_plan (fst (set_status g sw s Departed)) sw
        (\<lambda>p. salvage_actor p (show_id s) limit))) sw s))"
      using assms(1) by (simp add: wf_set_status wf_with_plan wf_reparent_children)
    moreover have "wf_swarm (taken_off show_id s limit e)"
      using wf_registryD(3) [OF assms(1), of sw] assms(2) by (simp add: entry_of_Some wf_taken_off)
    ultimately show ?thesis
      using b
      by (subst (asm) with_plan_entry [of _ _ "modify_member s (\<lambda>m. m\<lparr>mem_status := Departed\<rparr>) e"],
          simp_all add: set_status_member [OF assms(2,3)])
        (subst (asm) reparent_entry [of _ _ "taken_off show_id s limit e"],
          simp_all add: orphaned_def Let_def taken_off_def freed_plan_def)
  qed
  then have wo: "wf_swarm ?o"
    using wf_registryD(3) [of ?g3 sw] b by simp
  show ?thesis
  proof (cases "sw_coordinator e = Some s")
    case False
    then show ?thesis
      using b salvage_registry_entry [OF assms] by (intro kept) (simp_all add: Let_def)
  next
    case True
    then have r: "salvage_registry show_id g sw s limit = fst (elect_coordinator ?g3 sw)"
      using salvage_registry_entry [OF assms] by (simp add: Let_def)
    obtain m' where "bt_get (sw_members ?o) s = Some m'" "mem_status m' = Departed"
      using orphaned_status [OF assms(3)] by blast
    with True have vacant: "\<not> seat_filled ?o"
      by (simp add: seat_filled_def is_active_def)
    have top: "topology ?o \<noteq> Some PairShape"
      using True wf_registryD(3) [OF assms(1), of sw] assms(2)
      by (auto simp: entry_of_Some wf_swarm_def shape_ok_def)
    show ?thesis
    proof (cases rule: elect_cases [of ?g3 sw])
      case unchanged
      then show ?thesis
        using b vacant top by (intro kept) (auto simp: r)
    next
      case (elected e' c)
      then have "e' = ?o"
        using b by simp
      then show ?thesis
        using elected b in_active_iff [OF wo, of c] by (intro that(2) [of c]) (simp_all add: r seated_def)
    qed
  qed
qed

section \<open>Salvaging twice\<close>

lemma salvage_member_registry:
  assumes "wf_registry g" "member_of g sw s = Some m"
  obtains e where "bt_get (reg_swarms g) sw = Some e" "bt_get (sw_members e) s = Some m"
  using assms(2) by (auto simp: member_of_def bind_eq_Some_conv)

lemma salvage_no_reports:
  assumes "wf_registry g" "member_of g sw s = Some m"
  shows "parent_of (entry_of (salvage_registry show_id g sw s limit) sw) t \<noteq> Some s"
proof -
  obtain e where e: "bt_get (reg_swarms g) sw = Some e" "bt_get (sw_members e) s = Some m"
    using salvage_member_registry [OF assms] by blast
  have "wf_swarm e"
    using wf_registryD(3) [OF assms(1), of sw] e(1) by (simp add: entry_of_Some)
  then show ?thesis
    using orphaned_no_reports
    by (cases rule: salvage_entry_cases [OF assms(1) e, of show_id limit]) auto
qed

lemma salvage_departed:
  assumes "wf_registry g" "member_of g sw s = Some m"
  obtains m' where "member_of (salvage_registry show_id g sw s limit) sw s = Some m'"
    "mem_status m' = Departed"
proof -
  obtain e where e: "bt_get (reg_swarms g) sw = Some e" "bt_get (sw_members e) s = Some m"
    using salvage_member_registry [OF assms] by blast
  have "map_option mem_status (bt_get (sw_members (orphaned show_id s limit e)) s) = Some Departed"
    using orphaned_status [OF e(2)] by auto
  then have "map_option mem_status (bt_get (sw_members (entry_of (salvage_registry show_id g sw s limit) sw)) s)
      = Some Departed"
    by (cases rule: salvage_entry_cases [OF assms(1) e, of show_id limit]) (simp_all add: seated_status)
  then show ?thesis
    using that by (auto simp: member_of_iff [OF wf_salvage_registry [OF assms(1)]])
qed

lemma salvage_plan:
  assumes "wf_registry g" "member_of g sw s = Some m" "plan_of g sw = Some p"
  shows "sw_plan (entry_of (salvage_registry show_id g sw s limit) sw)
    = Some (fst (salvage_actor p (show_id s) limit))"
proof -
  obtain e where e: "bt_get (reg_swarms g) sw = Some e" "bt_get (sw_members e) s = Some m"
    using salvage_member_registry [OF assms(1,2)] by blast
  have p: "sw_plan e = Some p"
    using assms(3) e(1) by (simp add: plan_of_def)
  have "topology e \<noteq> Some PairShape"
    using wf_registryD(3) [OF assms(1), of sw] e(1) p
    by (auto simp: entry_of_Some wf_swarm_def shape_ok_def)
  then have "freed_plan show_id s limit e = Some (fst (salvage_actor p (show_id s) limit))"
    by (simp add: freed_plan_def p)
  then show ?thesis
    by (cases rule: salvage_entry_cases [OF assms(1) e, of show_id limit]) simp_all
qed

text \<open>The seat of a departed coordinator: an active member holds it, or nobody is active.\<close>

lemma salvage_seat:
  assumes "wf_registry g" "member_of g sw s = Some m" "is_coordinator g sw s"
    and "member_of (salvage_registry show_id g sw s limit) sw t = Some n" "is_active (mem_status n)"
  shows "\<exists>c k. swarm_coordinator (salvage_registry show_id g sw s limit) sw = Some c
    \<and> member_of (salvage_registry show_id g sw s limit) sw c = Some k \<and> is_active (mem_status k)"
proof -
  let ?g' = "salvage_registry show_id g sw s limit"
  obtain e where e: "bt_get (reg_swarms g) sw = Some e" "bt_get (sw_members e) s = Some m"
    using salvage_member_registry [OF assms(1,2)] by blast
  have w: "wf_registry ?g'"
    using assms(1) by (rule wf_salvage_registry)
  note mem = member_of_iff [OF w]
  have some: "\<exists>e'. bt_get (reg_swarms ?g') sw = Some e'"
    using assms(4) by (auto simp: member_of_def bind_eq_Some_conv)
  show ?thesis
  proof (cases rule: salvage_entry_cases [OF assms(1) e, of show_id limit])
    case 1
    have "t \<in> mem_session ` set (active_members (entry_of ?g' sw))"
      using in_active_iff [OF wf_registryD(3) [OF w, of sw], of t] assms(4,5) by (simp add: mem)
    then show ?thesis
      using 1 assms(3) e(1) by (simp add: is_coordinator_def swarm_coordinator_def)
  next
    case (2 c)
    have "map_option mem_status (bt_get (sw_members (entry_of ?g' sw)) c) = Some Active"
      using 2 by (auto simp: seated_status is_active_def)
    moreover have "swarm_coordinator ?g' sw = Some c"
      using some 2(1) by (auto simp: swarm_coordinator_def entry_of_Some)
    ultimately show ?thesis
      by (auto simp: mem is_active_def)
  qed
qed

text \<open>A swarm a salvage has nothing left to do in.\<close>

definition at_rest :: "(session_id \<Rightarrow> string) \<Rightarrow> swarm \<Rightarrow> session_id \<Rightarrow> bool" where
  "at_rest show_id e s \<longleftrightarrow>
     (\<exists>m. bt_get (sw_members e) s = Some m \<and> mem_status m = Departed)
     \<and> (\<forall>t. parent_of e t \<noteq> Some s)
     \<and> (\<forall>p. sw_plan e = Some p \<longrightarrow> stranded p (show_id s) = [])
     \<and> (sw_coordinator e = Some s \<longrightarrow> active_members e = [])"

lemma bt_modify_id:
  assumes "bt_inv m" "\<And>v. bt_get m k = Some v \<Longrightarrow> f v = v"
  shows "bt_modify k f m = m"
  unfolding bt_modify_def
proof (rule map_idI)
  fix x
  assume x: "x \<in> set m"
  have "distinct (map fst m)"
    using assms(1) strict_sorted_iff unfolding bt_inv_def by blast
  then have "bt_get m (fst x) = Some (snd x)"
    using x by (simp add: bt_get_def)
  then show "(\<lambda>(k', v). (k', if k' = k then f v else v)) x = x"
    using assms(2) by (auto simp: split_beta prod_eq_iff)
qed

lemma salvage_registry_rest:
  assumes "wf_registry g" "bt_get (reg_swarms g) sw = Some e" "at_rest show_id e s"
  shows "fst (set_status g sw s Departed) = g"
    and "fst (with_plan g sw (\<lambda>p. salvage_actor p (show_id s) limit)) = g
         \<and> (\<forall>ts. snd (with_plan g sw (\<lambda>p. salvage_actor p (show_id s) limit)) = Inr ts \<longrightarrow> ts = [])"
    and "reparent_children g sw s = (g, [])"
    and "is_coordinator g sw s \<Longrightarrow> elect_coordinator g sw = (g, None)"
proof -
  have b: "bt_inv (reg_swarms g)"
    using assms(1) by (rule wf_registryD)
  have w: "wf_swarm e"
    using wf_registryD(3) [OF assms(1), of sw] assms(2) by (simp add: entry_of_Some)
  note same = put_same [OF b assms(2)]
  obtain m where m: "bt_get (sw_members e) s = Some m" "mem_status m = Departed"
    using assms(3) by (auto simp: at_rest_def)
  have "bt_modify s (\<lambda>m. m\<lparr>mem_status := Departed\<rparr>) (sw_members e) = sw_members e"
    using w m by (intro bt_modify_id) (auto simp: wf_swarm_def maps_ok_def)
  then have "modify_member s (\<lambda>m. m\<lparr>mem_status := Departed\<rparr>) e = e"
    by (simp add: modify_member_def)
  then show "fst (set_status g sw s Departed) = g"
    using same by (simp add: set_status_member [OF assms(2) m(1)])
  have "salvage_actor p (show_id s) limit = (p, [])" if "sw_plan e = Some p" for p
    using assms(3) that by (simp add: at_rest_def salvage_actor_def)
  moreover have "put_swarm g sw (e\<lparr>sw_plan := Some p\<rparr>) = g" if "sw_plan e = Some p" for p
  proof -
    have "e\<lparr>sw_plan := Some p\<rparr> = e"
      using that by simp
    then show ?thesis
      using same by (simp only:)
  qed
  ultimately show "fst (with_plan g sw (\<lambda>p. salvage_actor p (show_id s) limit)) = g
         \<and> (\<forall>ts. snd (with_plan g sw (\<lambda>p. salvage_actor p (show_id s) limit)) = Inr ts \<longrightarrow> ts = [])"
    using assms(2) by (auto simp: with_plan_def Let_def split: option.splits)
  have "reports_of e s = []"
    using assms(3) reports_of_iff [OF w] by (metis at_rest_def ex_in_conv set_empty)
  then show "reparent_children g sw s = (g, [])"
    using same by (simp add: reparent_entry [OF assms(2)])
  show "elect_coordinator g sw = (g, None)" if "is_coordinator g sw s"
    using that assms(2,3)
    by (auto simp: is_coordinator_def swarm_coordinator_def at_rest_def elect_coordinator_def)
qed

lemma salvage_at_rest:
  assumes "wf_registry g" "member_of g sw s = Some m" "\<And>p. plan_of g sw = Some p \<Longrightarrow> wf_plan p"
  shows "at_rest show_id (entry_of (salvage_registry show_id g sw s limit) sw) s"
proof -
  let ?g' = "salvage_registry show_id g sw s limit"
  let ?e' = "entry_of ?g' sw"
  obtain e where e: "bt_get (reg_swarms g) sw = Some e" "bt_get (sw_members e) s = Some m"
    using salvage_member_registry [OF assms(1,2)] by blast
  have w: "wf_registry ?g'" "wf_swarm ?e'"
    using assms(1) by (simp_all add: wf_salvage_registry wf_registryD)
  obtain m' where m': "member_of ?g' sw s = Some m'" "mem_status m' = Departed"
    using salvage_departed [OF assms(1,2)] by blast
  have "stranded p (show_id s) = []" if "sw_plan ?e' = Some p" for p
  proof -
    have "freed_plan show_id s limit e = Some p"
      using that by (cases rule: salvage_entry_cases [OF assms(1) e, of show_id limit]) simp_all
    then obtain p0 where p0: "sw_plan e = Some p0" "p = fst (salvage_actor p0 (show_id s) limit) \<or> topology e = Some PairShape"
      by (auto simp: freed_plan_def split: if_splits)
    have "topology e \<noteq> Some PairShape"
      using wf_registryD(3) [OF assms(1), of sw] e(1) p0
      by (auto simp: entry_of_Some wf_swarm_def shape_ok_def)
    with p0 have p: "p = fst (salvage_actor p0 (show_id s) limit)"
      by simp
    have wp: "wf_plan p0"
      using assms(3) p0(1) e(1) by (simp add: plan_of_def)
    then have "wf_plan p"
      by (simp add: p wf_salvage_actor)
    then have "i \<notin> set (stranded p (show_id s))" for i
      using salvage_actor_frees [OF wp, of "show_id s" limit i] stranded_iff [of p i "show_id s"]
      by (auto simp: p)
    then show ?thesis
      by (meson ex_in_conv set_empty)
  qed
  moreover have "active_members ?e' = []" if "sw_coordinator ?e' = Some s"
    using that
  proof (cases rule: salvage_entry_cases [OF assms(1) e, of show_id limit])
    case (2 c)
    with that have "c = s"
      by simp
    with 2(2) orphaned_status [OF e(2), of show_id limit] show ?thesis
      by (auto simp: is_active_def)
  qed simp
  ultimately show ?thesis
    using m' salvage_no_reports [OF assms(1,2)] by (auto simp: at_rest_def member_of_iff [OF w(1)])
qed

lemma salvage_again:
  assumes "wf_registry (swarms h)" "bt_get (reg_swarms (swarms h)) sw = Some e" "at_rest show_id e s"
  shows "swarms (fst (salvage_member show_id h sw s limit)) = swarms h
    \<and> sv_tasks (snd (salvage_member show_id h sw s limit)) = []
    \<and> reparented (snd (salvage_member show_id h sw s limit)) = []
    \<and> new_coordinator (snd (salvage_member show_id h sw s limit)) = None"
  using salvage_registry_rest [OF assms]
  by (auto simp: swarms_salvage salvage_registry_def salvage_member_def Let_def split_beta
      split: option.splits sum.splits)

end
