(* ===== verification/Swarm_Driver.thy ===== *)
theory Swarm_Driver
  imports Swarm_Life
begin

text \<open>
  \<^verbatim>\<open>crates/localpilot-server/src/swarm/driver.rs\<close>: the loop that runs a plan. Which worker
  finishes first, what it answers, whether it ran out of time and what happened to the host
  meanwhile come from an argument (\<open>await\<close>) with a state of its own; so do the worker factory,
  the assignment contract and the text of a session id. Both loops are partial functions: a run
  that never ends is the value \<open>None\<close>.
\<close>

section \<open>Starting and settling one task\<close>

record driver_config =
  concurrency :: nat
  reclaim_limit :: u32
  max_dispatches :: nat
  worker_timeout :: nat

definition driver_default :: driver_config where
  "driver_default =
     \<lparr>concurrency = 4, reclaim_limit = DEFAULT_RECLAIM_LIMIT, max_dispatches = 256,
      worker_timeout = 15 * 60 * 10 ^ 9\<rparr>"

record in_flight_task =
  fl_node :: node_id
  fl_worker :: session_id
  fl_input :: string

record run_env =
  env_factory :: worker_factory
  env_show :: "session_id \<Rightarrow> string"
  env_contract :: "plan_mode \<Rightarrow> string"

definition node_request ::
  "swarm_host \<Rightarrow> swarm_id \<Rightarrow> session_id \<Rightarrow> node_id \<Rightarrow> nat \<Rightarrow> spawn_request" where
  "node_request h sw coord i sequence =
     (let (ttl', md) =
            (case Option.bind (plan_of (swarms h) sw) (\<lambda>p. node p i) of
               None \<Rightarrow> (show_node_id i, None)
             | Some n \<Rightarrow> (title n, model n));
          q = with_key (spawn_request_new sw coord ttl' []) (show_node_id i @ ''#'' @ show_nat sequence)
      in case md of None \<Rightarrow> q | Some m \<Rightarrow> with_model q m)"

definition start_task ::
  "run_env \<Rightarrow> plan_mode \<Rightarrow> swarm_host \<Rightarrow> swarm_id \<Rightarrow> session_id \<Rightarrow> node_id \<Rightarrow> nat
   \<Rightarrow> swarm_host \<times> in_flight_task option" where
  "start_task E depth h sw coord i sequence =
     (let (h1, r) = spawn (env_factory E) h (node_request h sw coord i sequence)
      in case (case r of Inr (Started s) \<Rightarrow> Some s | Inr (Already s) \<Rightarrow> Some s | _ \<Rightarrow> None) of
           None \<Rightarrow> (h1, None)
         | Some worker \<Rightarrow>
             let (g, a) = with_plan (swarms h1) sw (\<lambda>p. dispatch p i (env_show E worker));
                 h2 = h1\<lparr>swarms := g\<rparr>
             in case a of
                  Inr (Inr asg) \<Rightarrow>
                    (h2, Some \<lparr>fl_node = i, fl_worker = worker,
                               fl_input = env_contract E depth @ newline @ newline @ asg_input asg\<rparr>)
                | _ \<Rightarrow> (h2, None))"

definition next_ready :: "swarm_host \<Rightarrow> swarm_id \<Rightarrow> node_id option" where
  "next_ready h sw =
     (case snd (with_plan (swarms h) sw (\<lambda>p. (p, ready_nodes p))) of
        Inr (i # _) \<Rightarrow> Some i
      | _ \<Rightarrow> None)"

text \<open>The dash of the source text is no character of the model; a plain one stands for it.\<close>

definition unstated_gap :: string where
  "unstated_gap =
     ''not stated by the worker - this report was not returned in the structured form, so treat its ''
     @ ''coverage as unknown''"

definition artifact_from :: "string \<Rightarrow> task_plan \<Rightarrow> node_id \<Rightarrow> handoff_artifact" where
  "artifact_from answer p i =
     (let a = with_gap (artifact_new (trim answer) (confidence_new (round_f32 (1 / 2)))) unstated_gap
      in case node p i of
           None \<Rightarrow> a
         | Some n \<Rightarrow>
             if kind n \<noteq> Gate then a
             else
               (let reviewed = map (\<lambda>up. show_node_id (nid up) @ '' '' @ title up)
                                 (List.map_filter (node p) (upstream n))
                in foldl with_evidence
                     (with_validation a
                        (''read the handoffs of '' @ show_nat (length reviewed)
                         @ '' upstream task(s) before answering''))
                     reviewed))"

definition silent :: "string option \<Rightarrow> bool" where
  "silent answer = (case answer of None \<Rightarrow> True | Some t \<Rightarrow> trim t = [])"

definition settle ::
  "run_env \<Rightarrow> swarm_host \<Rightarrow> swarm_id \<Rightarrow> in_flight_task \<Rightarrow> string option \<Rightarrow> bool \<Rightarrow> u32 \<Rightarrow> swarm_host" where
  "settle E h sw x answer timed_out limit =
     (if timed_out \<or> silent answer then fst (salvage_member (env_show E) h sw (fl_worker x) limit)
      else
        (let (g, r) = with_plan (swarms h) sw
               (\<lambda>p. complete_node p (fl_node x) (env_show E (fl_worker x))
                      (artifact_from (the answer) p (fl_node x)));
             h1 = h\<lparr>swarms := g\<rparr>
         in if r = Inr (Inr ()) then h1
            else fst (salvage_member (env_show E) h1 sw (fl_worker x) limit)))"

section \<open>The loop\<close>

record driver_state =
  dr_host :: swarm_host
  in_flight :: "in_flight_task list"
  dispatched :: nat
  peak :: nat
  exhausted :: bool

definition NO_WORKER :: string where
  "NO_WORKER = ''no worker could be started for this task''"

definition fail_unstarted ::
  "run_env \<Rightarrow> swarm_host \<Rightarrow> swarm_id \<Rightarrow> session_id \<Rightarrow> node_id \<Rightarrow> swarm_host" where
  "fail_unstarted E h sw coord i =
     h\<lparr>swarms := fst (with_plan (swarms h) sw (\<lambda>p. fail_node p i (env_show E coord) NO_WORKER))\<rparr>"

partial_function (option) fill ::
  "run_env \<Rightarrow> driver_config \<Rightarrow> plan_mode \<Rightarrow> swarm_id \<Rightarrow> session_id \<Rightarrow> driver_state
   \<Rightarrow> driver_state option" where
  "fill E cfg depth sw coord d =
     (if max (concurrency cfg) 1 \<le> length (in_flight d) then Some d
      else if max_dispatches cfg \<le> dispatched d then Some (d\<lparr>exhausted := True\<rparr>)
      else
        (case next_ready (dr_host d) sw of
           None \<Rightarrow> Some d
         | Some i \<Rightarrow>
             (case start_task E depth (dr_host d) sw coord i (dispatched d) of
                (h, Some x) \<Rightarrow>
                  fill E cfg depth sw coord
                    (d\<lparr>dr_host := h, dispatched := dispatched d + 1,
                       peak := max (peak d) (length (in_flight d) + 1),
                       in_flight := in_flight d @ [x]\<rparr>)
              | (h, None) \<Rightarrow>
                  fill E cfg depth sw coord (d\<lparr>dr_host := fail_unstarted E h sw coord i\<rparr>))))"

text \<open>
  \<open>await\<close>: the position of the worker that finished first, its answer, whether it timed out,
  and the host as everything running meanwhile left it.
\<close>

type_synonym 'w await_fun =
  "'w \<Rightarrow> in_flight_task list \<Rightarrow> swarm_host \<Rightarrow> 'w \<times> nat \<times> string option \<times> bool \<times> swarm_host"

definition take_finished :: "nat \<Rightarrow> 'a list \<Rightarrow> 'a list" where
  "take_finished n xs = take (n mod length xs) xs @ drop (n mod length xs + 1) xs"

definition cascade_host :: "swarm_host \<Rightarrow> swarm_id \<Rightarrow> swarm_host" where
  "cascade_host h sw = h\<lparr>swarms := fst (with_plan (swarms h) sw cascade_blocked)\<rparr>"

partial_function (option) drive_loop ::
  "'w await_fun \<Rightarrow> run_env \<Rightarrow> driver_config \<Rightarrow> plan_mode \<Rightarrow> swarm_id \<Rightarrow> session_id
   \<Rightarrow> 'w \<Rightarrow> driver_state \<Rightarrow> ('w \<times> driver_state) option" where
  "drive_loop await E cfg depth sw coord w d =
     Option.bind (fill E cfg depth sw coord (d\<lparr>dr_host := cascade_host (dr_host d) sw\<rparr>))
       (\<lambda>d1. if in_flight d1 = [] then Some (w, d1)
             else
               (case await w (in_flight d1) (dr_host d1) of
                  (w', n, answer, timed_out, h) \<Rightarrow>
                    drive_loop await E cfg depth sw coord w'
                      (d1\<lparr>in_flight := take_finished n (in_flight d1),
                          dr_host := settle E h sw (in_flight d1 ! (n mod length (in_flight d1)))
                                       answer timed_out (reclaim_limit cfg)\<rparr>)))"

record run_report =
  rr_dispatched :: nat
  rr_completed :: nat
  rr_failed :: nat
  rr_abandoned :: nat
  rr_peak :: nat
  rr_settled :: bool
  rr_exhausted :: bool
  rr_starvation :: "string option"

definition starvation_hint :: "nat \<Rightarrow> nat \<Rightarrow> nat \<Rightarrow> string option" where
  "starvation_hint pk conc n =
     (if conc \<le> 1 \<or> n \<le> 1 \<or> conc \<le> pk * 2 then None
      else Some (''this plan never had more than '' @ show_nat pk
        @ '' task(s) running at once, against a budget of '' @ show_nat conc
        @ ''. The graph is narrower than the budget - the tasks depend on each other in a chain - ''
        @ ''so extra workers cannot make it faster. Decompose into pieces that do not wait on each ''
        @ ''other if you want the parallelism.''))"

definition plan_depth :: "swarm_host \<Rightarrow> swarm_id \<Rightarrow> plan_mode" where
  "plan_depth h sw =
     (case plan_of (swarms h) sw of Some p \<Rightarrow> (if mode p = Deep then Deep else Light) | None \<Rightarrow> Light)"

definition run_plan ::
  "'w await_fun \<Rightarrow> run_env \<Rightarrow> swarm_host \<Rightarrow> swarm_id \<Rightarrow> session_id \<Rightarrow> driver_config \<Rightarrow> 'w
   \<Rightarrow> (swarm_host \<times> run_report) option" where
  "run_plan await E h sw coord cfg w =
     map_option
       (\<lambda>(_, d).
          let counts = (case snd (with_plan (swarms (dr_host d)) sw (\<lambda>p. (p, (progress p, is_settled p)))) of
                          Inr (pr, done') \<Rightarrow> (prog_complete pr, prog_failed pr, prog_abandoned pr, done')
                        | Inl _ \<Rightarrow> (0, 0, 0, False))
          in (fst (reap_terminal (dr_host d) sw),
              \<lparr>rr_dispatched = dispatched d, rr_completed = fst counts,
               rr_failed = fst (snd counts), rr_abandoned = fst (snd (snd counts)),
               rr_peak = peak d, rr_settled = snd (snd (snd counts)), rr_exhausted = exhausted d,
               rr_starvation = starvation_hint (peak d) (max (concurrency cfg) 1) (dispatched d)\<rparr>))
       (drive_loop await E cfg (plan_depth h sw) sw coord w
          \<lparr>dr_host = h, in_flight = [], dispatched = 0, peak = 0, exhausted = False\<rparr>)"

end
