(* ===== verification/Driver_Inv.thy ===== *)
theory Driver_Inv
  imports Swarm_Driver Swarm_Run
begin

text \<open>
  The driver over a plan whose tasks all belong to its coordinator: every pass of either loop
  makes progress, so the run returns, within the dispatch ceiling and the concurrency budget,
  and with nothing ready unless the ceiling stopped it.
\<close>

section \<open>Plans owned by one actor\<close>

definition owned_plan :: "actor_id \<Rightarrow> task_plan \<Rightarrow> bool" where
  "owned_plan a p \<longleftrightarrow> wf_plan p \<and> (\<forall>i n. node p i = Some n \<longrightarrow> owner n = a)"

definition open_tasks :: "task_plan \<Rightarrow> node_id set" where
  "open_tasks p = {i. \<exists>n. node p i = Some n \<and> \<not> node_is_terminal n}"

lemma finite_open_tasks [simp]: "finite (open_tasks p)"
proof (rule finite_subset)
  show "open_tasks p \<subseteq> dom (bt_get (nodes p))"
    by (auto simp: open_tasks_def node_def)
qed (rule bt.finite_dom)

lemma owned_kept:
  assumes "owned_plan a p" "kept_or_changed p op q" "wf_plan q"
    and "\<And>j. node p j = None \<Longrightarrow> node q j = None"
  shows "owned_plan a q"
proof -
  have "owner m = a" if m: "node q j = Some m" for j m
  proof -
    obtain n where n: "node p j = Some n"
      using assms(4) [of j] m by (cases "node p j") auto
    then have "m = n \<or> changes p j n op m"
      using kept_opD(2) [OF assms(2) n] m by auto
    moreover have "changes p j n op m \<Longrightarrow> owner m = owner n"
      by (cases op) auto
    ultimately show ?thesis
      using assms(1) n by (auto simp: owned_plan_def)
  qed
  with assms(3) show ?thesis
    by (simp add: owned_plan_def)
qed

lemma owned_fail: "owned_plan a p \<Longrightarrow> owned_plan a (fst (fail_node p i b r))"
proof (rule owned_kept [OF _ kept_fail])
  show "node (fst (fail_node p i b r)) j = None" if "node p j = None" for j
    using that by (auto simp: fail_node_def plan_simps split: sum.splits)
qed (auto simp: owned_plan_def wf_fail_node)

lemma owned_complete: "owned_plan a p \<Longrightarrow> owned_plan a (fst (complete_node p i b art))"
proof (rule owned_kept [OF _ kept_complete])
  show "node (fst (complete_node p i b art)) j = None" if "node p j = None" for j
    using that by (auto simp: complete_node_def plan_simps split: option.splits sum.splits)
qed (auto simp: owned_plan_def wf_complete_node)

lemma owned_dispatch: "owned_plan a p \<Longrightarrow> owned_plan a (fst (dispatch p i b))"
proof (rule owned_kept [OF _ kept_dispatch])
  show "node (fst (dispatch p i b)) j = None" if "node p j = None" for j
  proof (cases "readiness_of p i = Inr Ready")
    case True
    with that show ?thesis
      by (auto simp: dispatch_Ready plan_simps)
  next
    case False
    then obtain e where "snd (dispatch p i b) = Inl e"
      using dispatch_Inr_iff [of p i b] by (cases "snd (dispatch p i b)") auto
    with that show ?thesis
      by (simp add: dispatch_Inl)
  qed
qed (auto simp: owned_plan_def wf_dispatch)

lemma owned_salvage:
  assumes "owned_plan a p"
  shows "owned_plan a (fst (salvage_actor p b l))"
proof (rule owned_kept [OF assms kept_salvage_actor])
  show "node (fst (salvage_actor p b l)) j = None" if "node p j = None" for j
    using that assms by (simp add: owned_plan_def salvage_actor_def node_salvage_all distinct_stranded)
qed (use assms in \<open>auto simp: owned_plan_def wf_salvage_actor\<close>)

lemma owned_cascade: "owned_plan a p \<Longrightarrow> owned_plan a (fst (cascade_blocked p))"
proof (rule owned_kept [OF _ kept_cascade])
  show "node (fst (cascade_blocked p)) j = None" if "node p j = None" for j
    using that cascade_blocked_swept(1) [of p]
    by (cases "j \<in> set (snd (cascade_blocked p))") (auto simp: swept_def)
qed (auto simp: owned_plan_def wf_cascade_blocked)

text \<open>Failing a ready task closes it.\<close>

lemma fail_closes:
  assumes "node p i = Some n" "\<not> node_is_terminal n" "owner n = a"
  shows "open_tasks (fst (fail_node p i a r)) \<subset> open_tasks p"
proof -
  have "fst (fail_node p i a r) = bump_version (node_mut p i (\<lambda>n. n\<lparr>status := Failed r\<rparr>))"
    using assms by (simp add: fail_node_def require_mutable_def)
  then have "open_tasks (fst (fail_node p i a r)) = open_tasks p - {i}"
    using assms(1) by (auto simp: open_tasks_def plan_simps node_is_terminal_def)
  then show ?thesis
    using assms by (auto simp: open_tasks_def)
qed

section \<open>The host keeps the plan\<close>

abbreviation host_plan :: "swarm_host \<Rightarrow> swarm_id \<Rightarrow> task_plan option" where
  "host_plan h sw \<equiv> sw_plan (entry_of (swarms h) sw)"

lemma plan_of_entry: "plan_of g sw = sw_plan (entry_of g sw)"
  by (auto simp: plan_of_def entry_of_def swarm_default_def split: option.splits)

lemma plan_reserve:
  assumes "wf_registry g"
  shows "sw_plan (entry_of (fst (reserve g sw' key)) sw) = sw_plan (entry_of g sw)"
  by (cases rule: reserve_cases [OF assms, of sw' key]) (auto simp: wf_registryD [OF assms])

lemma plan_confirm:
  assumes "wf_registry g"
  shows "sw_plan (entry_of (fst (confirm g r m)) sw) = sw_plan (entry_of g sw)"
  by (cases rule: confirm_cases [of g r m]) (auto simp: wf_registryD [OF assms] entry_of_Some)

lemma plan_release:
  assumes "wf_registry g"
  shows "sw_plan (entry_of (fst (release g r)) sw) = sw_plan (entry_of g sw)"
  using assms by (auto simp: release_def wf_registryD entry_of_Some split: option.splits)

lemma plan_set_status:
  assumes "wf_registry g"
  shows "sw_plan (entry_of (fst (set_status g sw' s st)) sw) = sw_plan (entry_of g sw)"
  using assms
  by (auto simp: set_status_def with_member_def wf_registryD entry_of_Some split: option.splits)

lemma plan_reparent:
  assumes "wf_registry g"
  shows "sw_plan (entry_of (fst (reparent_children g sw' s)) sw) = sw_plan (entry_of g sw)"
  using assms
  by (auto simp: reparent_children_def Let_def wf_registryD entry_of_Some split: option.splits)

lemma plan_elect:
  assumes "wf_registry g"
  shows "sw_plan (entry_of (fst (elect_coordinator g sw')) sw) = sw_plan (entry_of g sw)"
  by (cases rule: elect_cases [of g sw']) (auto simp: wf_registryD [OF assms] entry_of_Some)

lemma swarms_attach [simp]: "swarms (attach h sw s) = swarms h"
  by (simp add: attach_def host_for_def bind_peers_def modify_session_def watch_touches_def Let_def)

definition keeps_plan :: "swarm_id \<Rightarrow> swarm_host \<Rightarrow> swarm_host \<Rightarrow> bool" where
  "keeps_plan sw h h' \<longleftrightarrow>
     wf_registry (swarms h) \<longrightarrow> wf_registry (swarms h') \<and> host_plan h' sw = host_plan h sw"

lemma keeps_plan_give_back: "keeps_plan sw h (give_back h r)"
  by (simp add: keeps_plan_def give_back_def wf_release plan_release)

lemma keeps_plan_spawn_rest: "keeps_plan sw h (fst (spawn_rest f h q r))"
  using keeps_plan_give_back
  by (auto simp: spawn_rest_def Let_def split_beta keeps_plan_def wf_confirm plan_confirm give_back_def
      split: sum.splits option.splits)

lemma keeps_plan_spawn: "keeps_plan sw h (fst (spawn f h q))"
proof -
  have res: "keeps_plan sw h (fst (spawn_reserve h q))"
    by (simp add: keeps_plan_def spawn_reserve_def split_beta wf_reserve plan_reserve)
  then show ?thesis
    using keeps_plan_spawn_rest [of sw "fst (spawn_reserve h q)" f q]
    by (auto simp: spawn_def Let_def split_beta keeps_plan_def split: sum.splits swarm_admission.splits)
qed

definition owned_host :: "swarm_id \<Rightarrow> actor_id \<Rightarrow> swarm_host \<Rightarrow> bool" where
  "owned_host sw a h \<longleftrightarrow>
     wf_registry (swarms h) \<and> (\<exists>p. host_plan h sw = Some p \<and> owned_plan a p)"

lemma owned_entry:
  assumes "owned_host sw a h"
  obtains e p where "bt_get (reg_swarms (swarms h)) sw = Some e" "topology e \<noteq> Some PairShape"
    "sw_plan e = Some p" "owned_plan a p" "host_plan h sw = Some p"
proof -
  obtain p where p: "host_plan h sw = Some p" "owned_plan a p" and w: "wf_registry (swarms h)"
    using assms by (auto simp: owned_host_def)
  from p(1) obtain e where e: "bt_get (reg_swarms (swarms h)) sw = Some e"
    by (auto simp: entry_of_def swarm_default_def split: option.splits)
  moreover have "topology e \<noteq> Some PairShape"
    using wf_registryD(3) [OF w, of sw] p(1) e
    by (auto simp: entry_of_Some wf_swarm_def shape_ok_def)
  ultimately show ?thesis
    using that p by (simp add: entry_of_Some)
qed

lemma owned_with_plan:
  assumes "owned_host sw a h" "\<And>p. owned_plan a p \<Longrightarrow> owned_plan a (fst (f p))"
  shows "owned_host sw a (h\<lparr>swarms := fst (with_plan (swarms h) sw f)\<rparr>)"
    and "host_plan h sw = Some p \<Longrightarrow>
      host_plan (h\<lparr>swarms := fst (with_plan (swarms h) sw f)\<rparr>) sw = Some (fst (f p))
      \<and> snd (with_plan (swarms h) sw f) = Inr (snd (f p))"
proof -
  obtain e q where e: "bt_get (reg_swarms (swarms h)) sw = Some e" "topology e \<noteq> Some PairShape"
    "sw_plan e = Some q" "owned_plan a q" "host_plan h sw = Some q"
    using assms(1) by (rule owned_entry)
  have w: "wf_registry (swarms h)"
    using assms(1) by (simp add: owned_host_def)
  have p': "entry_of (fst (with_plan (swarms h) sw f)) sw = e\<lparr>sw_plan := Some (fst (f q))\<rparr>"
    using with_plan_entry [OF wf_registryD(1) [OF w] e(1), of f] e wf_registryD(1) [OF w] by simp
  then show "owned_host sw a (h\<lparr>swarms := fst (with_plan (swarms h) sw f)\<rparr>)"
    using w e assms(2) by (auto simp: owned_host_def wf_with_plan)
  show "host_plan h sw = Some p \<Longrightarrow>
      host_plan (h\<lparr>swarms := fst (with_plan (swarms h) sw f)\<rparr>) sw = Some (fst (f p))
      \<and> snd (with_plan (swarms h) sw f) = Inr (snd (f p))"
    using e wf_registryD(1) [OF w] by (auto simp: with_plan_def Let_def split_beta)
qed

lemma owned_keeps: "owned_host sw a h \<Longrightarrow> keeps_plan sw h h' \<Longrightarrow> owned_host sw a h'"
  by (auto simp: owned_host_def keeps_plan_def)

lemma owned_salvage_member:
  assumes "owned_host sw a h"
  shows "owned_host sw a (fst (salvage_member show_id h sw s limit))"
proof -
  let ?g = "swarms h" and ?f = "\<lambda>p. salvage_actor p (show_id s) limit"
  have w: "wf_registry ?g"
    using assms by (simp add: owned_host_def)
  have st: "owned_host sw a (h\<lparr>swarms := fst (set_status ?g sw s Departed)\<rparr>)"
    using assms by (simp add: owned_host_def wf_set_status plan_set_status)
  have "owned_host sw a (h\<lparr>swarms := fst (with_plan (fst (set_status ?g sw s Departed)) sw ?f)\<rparr>)"
    using owned_with_plan(1) [OF st, of ?f] owned_salvage by simp
  then have "owned_host sw a (h\<lparr>swarms := fst (reparent_children
      (fst (with_plan (fst (set_status ?g sw s Departed)) sw ?f)) sw s)\<rparr>)"
    by (simp add: owned_host_def wf_reparent_children plan_reparent)
  moreover have "owned_host sw a (h\<lparr>swarms := fst (elect_coordinator g sw)\<rparr>)"
    if "owned_host sw a (h\<lparr>swarms := g\<rparr>)" for g
    using that by (simp add: owned_host_def wf_elect_coordinator plan_elect)
  ultimately have "owned_host sw a (h\<lparr>swarms := salvage_registry show_id ?g sw s limit\<rparr>)"
    by (simp add: salvage_registry_def Let_def)
  then show ?thesis
    by (simp add: owned_host_def swarms_salvage)
qed

section \<open>One pass of the inner loop\<close>

lemma ready_is_pending:
  assumes "wf_plan p" "i \<in> set (ready_nodes p)"
  obtains n where "node p i = Some n" "status n = Pending"
proof -
  have "readiness_of p i = Inr Ready"
    using assms(2) by (auto simp: ready_nodes_def)
  then show ?thesis
    using that by (auto simp: readiness_Ready_iff)
qed

lemma next_ready_Some:
  assumes "owned_host sw a h" "next_ready h sw = Some i"
  obtains p n where "host_plan h sw = Some p" "owned_plan a p" "node p i = Some n" "status n = Pending"
proof -
  obtain e p where p: "owned_plan a p" "host_plan h sw = Some p"
    using assms(1) by (rule owned_entry)
  have "snd (with_plan (swarms h) sw (\<lambda>p. (p, ready_nodes p))) = Inr (ready_nodes p)"
    using owned_with_plan(2) [OF assms(1) _ p(2), of "\<lambda>p. (p, ready_nodes p)"] by simp
  then have "i \<in> set (ready_nodes p)"
    using assms(2) by (auto simp: next_ready_def split: list.splits)
  then show ?thesis
    using ready_is_pending [of p i] that p by (auto simp: owned_plan_def)
qed

text \<open>A task that was not started leaves the plan as it was.\<close>

lemma start_task_cases:
  assumes "owned_host sw a h" "start_task E depth h sw coord i k = (h', r)"
  shows "owned_host sw a h'" "r = None \<Longrightarrow> host_plan h' sw = host_plan h sw"
proof -
  let ?q = "node_request h sw coord i k"
  let ?h1 = "fst (spawn (env_factory E) h ?q)"
  have k1: "keeps_plan sw h ?h1"
    by (rule keeps_plan_spawn)
  have o1: "owned_host sw a ?h1"
    using assms(1) k1 by (rule owned_keeps)
  have p1: "host_plan ?h1 sw = host_plan h sw"
    using assms(1) k1 unfolding keeps_plan_def owned_host_def by blast
  have d: "owned_host sw a (?h1\<lparr>swarms := fst (with_plan (swarms ?h1) sw (\<lambda>p. dispatch p i b))\<rparr>)" for b
    by (rule owned_with_plan(1) [OF o1 owned_dispatch])
  have same: "host_plan (?h1\<lparr>swarms := fst (with_plan (swarms ?h1) sw (\<lambda>p. dispatch p i b))\<rparr>) sw = host_plan ?h1 sw"
    if no: "\<And>asg. snd (with_plan (swarms ?h1) sw (\<lambda>p. dispatch p i b)) \<noteq> Inr (Inr asg)" for b
  proof -
    obtain e p where "host_plan ?h1 sw = Some p"
      using o1 by (rule owned_entry)
    note wp = owned_with_plan(2) [where f = "\<lambda>p. dispatch p i b", OF o1 owned_dispatch this]
    then obtain e where "snd (dispatch p i b) = Inl e"
      using no by (cases "snd (dispatch p i b)") auto
    with wp show ?thesis
      using dispatch_Inl [of p i b e] \<open>host_plan ?h1 sw = Some p\<close> by simp
  qed
  show "owned_host sw a h'"
    using assms(2) o1 d
    by (auto simp: start_task_def Let_def split_beta split: option.splits sum.splits)
  show "host_plan h' sw = host_plan h sw" if "r = None"
    using assms(2) that p1 same
    by (auto simp: start_task_def Let_def split_beta split: option.splits sum.splits)
qed

section \<open>Both loops return\<close>

definition in_budget :: "driver_config \<Rightarrow> driver_state \<Rightarrow> bool" where
  "in_budget cfg d \<longleftrightarrow>
     length (in_flight d) \<le> max (concurrency cfg) 1 \<and> peak d \<le> max (concurrency cfg) 1
     \<and> dispatched d \<le> max_dispatches cfg"

definition filled :: "driver_config \<Rightarrow> swarm_id \<Rightarrow> actor_id \<Rightarrow> driver_state \<Rightarrow> driver_state \<Rightarrow> bool" where
  "filled cfg sw a d d' \<longleftrightarrow>
     owned_host sw a (dr_host d') \<and> in_budget cfg d' \<and> dispatched d \<le> dispatched d'
     \<and> length (in_flight d') = length (in_flight d) + (dispatched d' - dispatched d)
     \<and> (in_flight d' = [] \<longrightarrow> exhausted d' \<or> next_ready (dr_host d') sw = None)"

definition open_count :: "swarm_id \<Rightarrow> driver_state \<Rightarrow> nat" where
  "open_count sw d =
     (case host_plan (dr_host d) sw of None \<Rightarrow> 0 | Some p \<Rightarrow> card (open_tasks p))"

lemma unstarted_closes:
  assumes "owned_host sw (env_show E coord) h" "next_ready h sw = Some i"
    and "start_task E depth h sw coord i k = (h', None)"
  shows "owned_host sw (env_show E coord) (fail_unstarted E h' sw coord i)"
    and "open_count sw (d\<lparr>dr_host := fail_unstarted E h' sw coord i\<rparr>) < open_count sw (d\<lparr>dr_host := h\<rparr>)"
proof -
  let ?a = "env_show E coord"
  let ?f = "\<lambda>p. fail_node p i ?a NO_WORKER"
  obtain p n where p: "host_plan h sw = Some p" "owned_plan ?a p" "node p i = Some n" "status n = Pending"
    using assms(1,2) by (rule next_ready_Some)
  have o': "owned_host sw ?a h'" and same: "host_plan h' sw = Some p"
    using start_task_cases [OF assms(1,3)] p(1) by simp_all
  show "owned_host sw ?a (fail_unstarted E h' sw coord i)"
    unfolding fail_unstarted_def by (rule owned_with_plan(1) [OF o' owned_fail])
  have "host_plan (fail_unstarted E h' sw coord i) sw = Some (fst (?f p))"
    using owned_with_plan(2) [where f = ?f, OF o' owned_fail same] by (simp add: fail_unstarted_def)
  moreover have "open_tasks (fst (?f p)) \<subset> open_tasks p"
    using p by (intro fail_closes) (auto simp: owned_plan_def node_is_terminal_def)
  ultimately show "open_count sw (d\<lparr>dr_host := fail_unstarted E h' sw coord i\<rparr>)
      < open_count sw (d\<lparr>dr_host := h\<rparr>)"
    using p(1) by (simp add: open_count_def psubset_card_mono)
qed

lemma fill_returns:
  assumes "owned_host sw (env_show E coord) (dr_host d)" "in_budget cfg d"
  shows "\<exists>d'. fill E cfg depth sw coord d = Some d' \<and> filled cfg sw (env_show E coord) d d'"
  using assms
proof (induction d rule: wf_induct_rule [OF wf_measures [of "[\<lambda>d. max_dispatches cfg - dispatched d, open_count sw]"]])
  case (1 d)
  let ?a = "env_show E coord"
  show ?case
  proof (cases "max (concurrency cfg) 1 \<le> length (in_flight d) \<or> max_dispatches cfg \<le> dispatched d
      \<or> next_ready (dr_host d) sw = None")
    case True
    then show ?thesis
      using 1(2,3)
      by (subst fill.simps) (auto simp: filled_def in_budget_def split: option.splits)
  next
    case False
    then obtain i where i: "next_ready (dr_host d) sw = Some i"
      by auto
    obtain h r where st: "start_task E depth (dr_host d) sw coord i (dispatched d) = (h, r)"
      by fastforce
    show ?thesis
    proof (cases r)
      case None
      let ?d = "d\<lparr>dr_host := fail_unstarted E h sw coord i\<rparr>"
      note u = unstarted_closes [OF 1(2) i st [unfolded None]]
      have "open_count sw ?d < open_count sw d"
        using u(2) [of d] by simp
      then obtain d' where "fill E cfg depth sw coord ?d = Some d'" "filled cfg sw ?a ?d d'"
        using 1(1) [of ?d] u(1) 1(3) by (auto simp: in_budget_def)
      with False i st None show ?thesis
        by (subst fill.simps) (auto simp: filled_def)
    next
      case (Some x)
      let ?d = "d\<lparr>dr_host := h, dispatched := dispatched d + 1,
                   peak := max (peak d) (length (in_flight d) + 1), in_flight := in_flight d @ [x]\<rparr>"
      have "dispatched d < max_dispatches cfg"
        using False by auto
      then have "max_dispatches cfg - Suc (dispatched d) < max_dispatches cfg - dispatched d"
        by (simp add: diff_less_mono2)
      moreover have "Suc (length (in_flight d)) \<le> max (concurrency cfg) (Suc 0)"
        using False by auto
      moreover have "owned_host sw ?a h"
        using start_task_cases(1) [OF 1(2) st] .
      ultimately obtain d' where "fill E cfg depth sw coord ?d = Some d'" "filled cfg sw ?a ?d d'"
        using 1(1) [of ?d] 1(3) False by (auto simp: in_budget_def)
      with False i st Some show ?thesis
        by (subst fill.simps) (auto simp: filled_def)
    qed
  qed
qed

lemma owned_settle:
  assumes "owned_host sw a h"
  shows "owned_host sw a (settle E h sw x answer timed_out limit)"
proof -
  let ?f = "\<lambda>p. complete_node p (fl_node x) (env_show E (fl_worker x)) (artifact_from (the answer) p (fl_node x))"
  have c: "owned_host sw a (h\<lparr>swarms := fst (with_plan (swarms h) sw ?f)\<rparr>)"
    by (rule owned_with_plan(1) [OF assms owned_complete])
  show ?thesis
    using owned_salvage_member [OF assms] c owned_salvage_member [OF c]
    by (simp add: settle_def Let_def split_beta)
qed

lemma owned_cascade_host: "owned_host sw a h \<Longrightarrow> owned_host sw a (cascade_host h sw)"
  unfolding cascade_host_def by (rule owned_with_plan(1) [OF _ owned_cascade])

lemma length_take_finished: "xs \<noteq> [] \<Longrightarrow> length (take_finished n xs) = length xs - 1"
proof -
  assume "xs \<noteq> []"
  then have "n mod length xs < length xs"
    by simp
  then show ?thesis
    by (auto simp: take_finished_def min_def)
qed

definition await_keeps :: "'w await_fun \<Rightarrow> swarm_id \<Rightarrow> actor_id \<Rightarrow> bool" where
  "await_keeps await sw a \<longleftrightarrow>
     (\<forall>w fl h w' n ans t h'. owned_host sw a h \<longrightarrow> await w fl h = (w', n, ans, t, h') \<longrightarrow> owned_host sw a h')"

lemma drive_loop_returns:
  assumes "await_keeps await sw (env_show E coord)"
    and "owned_host sw (env_show E coord) (dr_host d)" "in_budget cfg d"
  shows "\<exists>w' d'. drive_loop await E cfg depth sw coord w d = Some (w', d')
    \<and> owned_host sw (env_show E coord) (dr_host d') \<and> in_budget cfg d' \<and> in_flight d' = []
    \<and> (exhausted d' \<or> next_ready (dr_host d') sw = None)"
  using assms(2,3)
proof (induction d arbitrary: w
    rule: measure_induct_rule [of "\<lambda>d. 2 * (max_dispatches cfg - dispatched d) + length (in_flight d)"])
  case (less d)
  let ?a = "env_show E coord"
  let ?d = "d\<lparr>dr_host := cascade_host (dr_host d) sw\<rparr>"
  obtain d1 where d1: "fill E cfg depth sw coord ?d = Some d1" "filled cfg sw ?a ?d d1"
    using fill_returns [of sw E coord ?d cfg depth] less.prems owned_cascade_host
    by (auto simp: in_budget_def)
  show ?case
  proof (cases "in_flight d1 = []")
    case True
    with d1 show ?thesis
      by (subst drive_loop.simps) (auto simp: filled_def)
  next
    case False
    obtain w' n ans t h where aw: "await w (in_flight d1) (dr_host d1) = (w', n, ans, t, h)"
      by (metis surj_pair)
    let ?d2 = "d1\<lparr>in_flight := take_finished n (in_flight d1),
      dr_host := settle E h sw (in_flight d1 ! (n mod length (in_flight d1))) ans t (reclaim_limit cfg)\<rparr>"
    have "owned_host sw ?a h"
      using assms(1) aw d1(2) by (auto simp: await_keeps_def filled_def)
    then have o2: "owned_host sw ?a (dr_host ?d2)"
      by (simp add: owned_settle)
    have b2: "in_budget cfg ?d2"
      using d1(2) length_take_finished [OF False, of n] by (auto simp: filled_def in_budget_def)
    have "\<exists>k. length (in_flight d1) = Suc k"
      using False by (cases "in_flight d1") auto
    then obtain k where k: "length (in_flight d1) = Suc k"
      by blast
    then have "Suc k = length (in_flight d) + (dispatched d1 - dispatched d)"
      "dispatched d \<le> dispatched d1" "dispatched d1 \<le> max_dispatches cfg"
      using d1(2) by (auto simp: filled_def in_budget_def)
    then have "2 * (max_dispatches cfg - dispatched d1) + k
        < 2 * (max_dispatches cfg - dispatched d) + length (in_flight d)"
      by linarith
    then have "2 * (max_dispatches cfg - dispatched ?d2) + length (in_flight ?d2)
        < 2 * (max_dispatches cfg - dispatched d) + length (in_flight d)"
      using length_take_finished [OF False, of n] by (simp add: k)
    from less.IH [OF this o2 b2, of w'] show ?thesis
      using d1(1) aw False by (subst drive_loop.simps) simp
  qed
qed

text \<open>
  The case the inner loop does not end in: no worker can be built, and the ready task belongs to
  somebody other than the coordinator, so failing it is refused and the task stays ready.
\<close>

definition stuck :: "run_env \<Rightarrow> swarm_id \<Rightarrow> session_id \<Rightarrow> task_plan \<Rightarrow> swarm_host \<Rightarrow> bool" where
  "stuck E sw coord p h \<longleftrightarrow>
     wf_registry (swarms h) \<and> host_plan h sw = Some p
     \<and> settled_keys (entry_of (swarms h) sw) = []
     \<and> (\<forall>q. \<exists>why. built_worker (env_factory E) q = Inl why)
     \<and> (\<exists>i rest n. ready_nodes p = i # rest \<and> node p i = Some n \<and> status n = Pending
          \<and> owner n \<noteq> env_show E coord)"

lemma settled_reserve:
  assumes "wf_registry g"
  shows "settled_keys (entry_of (fst (reserve g sw' key)) sw) = settled_keys (entry_of g sw)"
  by (cases rule: reserve_cases [OF assms, of sw' key]) (auto simp: wf_registryD [OF assms])

lemma settled_release:
  assumes "wf_registry g"
  shows "settled_keys (entry_of (fst (release g r)) sw) = settled_keys (entry_of g sw)"
  using assms by (auto simp: release_def wf_registryD entry_of_Some split: option.splits)

lemma stuck_start:
  assumes "stuck E sw coord p h" "start_task E depth h sw coord i k = (h', r)"
  shows "r = None" "stuck E sw coord p h'"
proof -
  let ?q = "node_request h sw coord i k"
  have w: "wf_registry (swarms h)" and se: "settled_keys (entry_of (swarms h) sw) = []"
    using assms(1) by (auto simp: stuck_def)
  have sw: "sr_swarm ?q = sw"
    by (simp add: node_request_def Let_def with_key_def with_model_def spawn_request_new_def
        split: option.splits prod.splits)
  obtain why where why: "built_worker (env_factory E) ?q = Inl why"
    using assms(1) by (auto simp: stuck_def)
  have no: "snd (reserve (swarms h) sw (sr_key ?q)) \<noteq> Inr (Existing s)" for s
    using se by (auto simp: reserve_def Let_def split: option.splits sum.splits)
  have r: "(\<forall>s. snd (spawn (env_factory E) h ?q) \<noteq> Inr (Started s) \<and> snd (spawn (env_factory E) h ?q) \<noteq> Inr (Already s))
      \<and> settled_keys (entry_of (swarms (fst (spawn (env_factory E) h ?q))) sw) = []"
  proof (cases "snd (reserve (swarms h) sw (sr_key ?q))")
    case (Inl e)
    then show ?thesis
      using se settled_reserve [OF w]
      by (simp add: spawn_def spawn_reserve_def Let_def split_beta sw)
  next
    case (Inr a)
    have "settled_keys (entry_of (fst (release (fst (reserve (swarms h) sw (sr_key ?q))) x)) sw) = []" for x
      using se settled_reserve [OF w] settled_release [OF wf_reserve [OF w]] by simp
    then show ?thesis
      using Inr no se settled_reserve [OF w] why
      by (cases a) (simp_all add: spawn_def spawn_reserve_def spawn_rest_def give_back_def Let_def
          split_beta sw)
  qed
  then have st: "start_task E depth h sw coord i k = (fst (spawn (env_factory E) h ?q), None)"
    by (auto simp: start_task_def Let_def split_beta split: option.splits sum.splits spawned.splits)
  then show "r = None"
    using assms(2) by simp
  have "keeps_plan sw h h'"
    using st assms(2) keeps_plan_spawn [of sw h "env_factory E" ?q] by simp
  then show "stuck E sw coord p h'"
    using assms(1) r st assms(2) by (simp add: stuck_def keeps_plan_def)
qed

lemma stuck_entry:
  assumes "stuck E sw coord p h"
  obtains e i n where "bt_get (reg_swarms (swarms h)) sw = Some e" "sw_plan e = Some p"
    "topology e \<noteq> Some PairShape" "next_ready h sw = Some i" "node p i = Some n" "status n = Pending"
    "owner n \<noteq> env_show E coord" "i = hd (ready_nodes p)"
proof -
  have w: "wf_registry (swarms h)" and p: "host_plan h sw = Some p"
    using assms by (auto simp: stuck_def)
  obtain e where e: "bt_get (reg_swarms (swarms h)) sw = Some e" "sw_plan e = Some p"
    using p by (auto simp: entry_of_def swarm_default_def split: option.splits)
  have "topology e \<noteq> Some PairShape"
    using wf_registryD(3) [OF w, of sw] e by (auto simp: entry_of_Some wf_swarm_def shape_ok_def)
  then show ?thesis
    using assms e that by (auto simp: stuck_def next_ready_def with_plan_def Let_def)
qed

lemma stuck_fail:
  assumes "stuck E sw coord p h" "i = hd (ready_nodes p)"
  shows "fail_unstarted E h sw coord i = h"
proof -
  have w: "wf_registry (swarms h)"
    using assms(1) by (simp add: stuck_def)
  obtain e j n where e: "bt_get (reg_swarms (swarms h)) sw = Some e" "sw_plan e = Some p"
    "topology e \<noteq> Some PairShape" and n: "node p j = Some n" "status n = Pending"
    "owner n \<noteq> env_show E coord" "j = hd (ready_nodes p)"
    using assms(1) by (rule stuck_entry)
  have "fst (fail_node p i (env_show E coord) NO_WORKER) = p"
    using n assms(2) by (simp add: fail_node_def require_mutable_def node_is_terminal_def assignee_def)
  then have "fst (with_plan (swarms h) sw (\<lambda>p. fail_node p i (env_show E coord) NO_WORKER))
      = put_swarm (swarms h) sw (e\<lparr>sw_plan := Some p\<rparr>)"
    using e by (simp add: with_plan_def Let_def split_beta)
  then have "fail_unstarted E h sw coord i = h\<lparr>swarms := put_swarm (swarms h) sw (e\<lparr>sw_plan := Some p\<rparr>)\<rparr>"
    by (simp add: fail_unstarted_def)
  moreover have "e\<lparr>sw_plan := Some p\<rparr> = e"
    using e(2) by simp
  moreover have "h\<lparr>swarms := swarms h\<rparr> = h"
    by simp
  ultimately show ?thesis
    using put_same [OF wf_registryD(1) [OF w] e(1)] by (simp only:)
qed

lemma fill_stuck:
  assumes "fill E cfg depth sw coord d = Some y"
  shows "stuck E sw coord p (dr_host d) \<longrightarrow> dispatched d < max_dispatches cfg
    \<longrightarrow> length (in_flight d) < max (concurrency cfg) 1 \<longrightarrow> False"
proof (rule fill.raw_induct [OF _ assms, where P = "\<lambda>E cfg depth sw coord d y.
    stuck E sw coord p (dr_host d) \<longrightarrow> dispatched d < max_dispatches cfg
    \<longrightarrow> length (in_flight d) < max (concurrency cfg) 1 \<longrightarrow> False"], intro impI)
  fix f :: "run_env \<Rightarrow> driver_config \<Rightarrow> plan_mode \<Rightarrow> swarm_id \<Rightarrow> session_id \<Rightarrow> driver_state \<Rightarrow> driver_state option"
    and E cfg depth sw coord d y
  assume IH: "\<And>E cfg depth sw coord d y. f E cfg depth sw coord d = Some y \<Longrightarrow>
      stuck E sw coord p (dr_host d) \<longrightarrow> dispatched d < max_dispatches cfg
      \<longrightarrow> length (in_flight d) < max (concurrency cfg) 1 \<longrightarrow> False"
    and body: "(if max (concurrency cfg) 1 \<le> length (in_flight d) then Some d
      else if max_dispatches cfg \<le> dispatched d then Some (d\<lparr>exhausted := True\<rparr>)
      else case next_ready (dr_host d) sw of None \<Rightarrow> Some d
           | Some i \<Rightarrow>
               case start_task E depth (dr_host d) sw coord i (dispatched d) of
                 (h, None) \<Rightarrow> f E cfg depth sw coord (d\<lparr>dr_host := fail_unstarted E h sw coord i\<rparr>)
               | (h, Some x) \<Rightarrow>
                   f E cfg depth sw coord
                     (d\<lparr>dr_host := h, dispatched := dispatched d + 1,
                        peak := max (peak d) (length (in_flight d) + 1),
                        in_flight := in_flight d @ [x]\<rparr>)) = Some y"
    and st: "stuck E sw coord p (dr_host d)" and room: "dispatched d < max_dispatches cfg"
      "length (in_flight d) < max (concurrency cfg) 1"
  obtain e i n where i: "next_ready (dr_host d) sw = Some i" "i = hd (ready_nodes p)"
    using st by (rule stuck_entry)
  obtain h r where s: "start_task E depth (dr_host d) sw coord i (dispatched d) = (h, r)"
    by fastforce
  have "r = None" "stuck E sw coord p h"
    using stuck_start [OF st s] by simp_all
  moreover have "fail_unstarted E h sw coord i = h"
    using \<open>stuck E sw coord p h\<close> i(2) by (rule stuck_fail)
  ultimately have "f E cfg depth sw coord (d\<lparr>dr_host := h\<rparr>) = Some y"
    using body i(1) s room by (simp split: if_splits)
  from IH [OF this] \<open>stuck E sw coord p h\<close> room show False
    by simp
qed

end
