(* ===== verification/Swarm_Spec.thy ===== *)
theory Swarm_Spec
  imports Swarm_Caps Swarm_Messaging Driver_Inv
begin

text \<open>
  The properties of the swarm: its registry, the tree of who reports to whom, the index of file
  touches, the failure lifecycle, the snapshots and the plan driver; each with a witness on a
  concrete swarm.
\<close>

section \<open>Example data\<close>

definition boss :: session_id where "boss = 1"
definition aide :: session_id where "aide = 2"
definition hand :: session_id where "hand = 3"

definition small_limits :: swarm_limits where
  "small_limits = \<lparr>max_members = 3, max_active = 2\<rparr>"

definition slot0 :: reservation where
  "slot0 = \<lparr>res_id = 0, res_swarm = ''s''\<rparr>"

definition first_ops :: "reg_op list" where
  "first_ops = [JoinRoot ''s'' boss ''lead'', Reserve ''s'' (Some ''k''),
              Confirm slot0 (member_worker aide ''a'' boss)]"

lemmas demo_defs =
  reg_run_def join_as_root_def reserve_def elsewhere_def entry_of_def put_swarm_def map_session_def
  check_caps_def checked_add_def exceeds_def in_use_def active_members_def with_limits_def
  registry_new_def swarm_default_def bt_empty_def bt_get_def bt_values_def usize_max_def
  usize_succ_def small_limits_def boss_def is_active_def Let_def

text \<open>The registry after the first two of these: a coordinator, and a slot held under the key.\<close>

definition held :: registry where
  "held = reg_run [JoinRoot ''s'' boss ''lead'', Reserve ''s'' (Some ''k'')] (with_limits small_limits)"

definition lead :: swarm_member where
  "lead = \<lparr>mem_session = boss, mem_name = ''lead'', mem_role = Coordinator, mem_status = Active,
           report_back_to = None, completion = None\<rparr>"

lemma held_eq:
  "held = \<lparr>reg_swarms = [(''s'', \<lparr>topology = Some Hierarchical, sw_members = [(boss, lead)],
        reservations = [(0, Some ''k'')], settled_keys = [], admitted = 1, sw_coordinator = Some boss,
        sw_plan = None, heartbeats = []\<rparr>)], by_session = [(boss, ''s'')],
      reg_limits = small_limits, next_reservation = 1\<rparr>"
  by (simp add: demo_defs held_def lead_def)

lemma wf_held: "wf_registry held"
  by (simp add: held_def wf_reg_run wf_registry_new)

text \<open>The slot confirmed: a worker under the coordinator.\<close>

definition demo_host :: swarm_host where
  "demo_host = host_new [] (fst (confirm held slot0 (member_worker aide ''a'' boss)))"

lemma wf_demo_host: "wf_registry (swarms demo_host)"
  by (simp add: demo_host_def host_new_def wf_confirm wf_held)

lemma demo_host_swarms:
  "swarms demo_host = \<lparr>reg_swarms = [(''s'', \<lparr>topology = Some Hierarchical,
        sw_members = [(boss, lead), (aide, member_worker aide ''a'' boss)],
        reservations = [], settled_keys = [(''k'', aide)], admitted = 2, sw_coordinator = Some boss,
        sw_plan = None, heartbeats = []\<rparr>)], by_session = [(boss, ''s''), (aide, ''s'')],
      reg_limits = small_limits, next_reservation = 1\<rparr>"
  by (simp add: demo_host_def host_new_def confirm_def held_eq slot0_def member_worker_def bt_get_def
      aide_def boss_def Let_def put_swarm_def map_session_def bt_remove_def usize_succ_def)

section \<open>The registry\<close>

text \<open>
  C12. After any sequence of registry operations, from every caller and in any order, the registry
  is consistent: the session index names a swarm exactly for its members, every member is stored
  under its own session, a swarm is hierarchical or a pair and carries only what its shape
  allows, and no idempotency key is held twice.
\<close>

theorem registry_stays_consistent: "wf_registry (reg_run ops (with_limits l))"
  by (simp add: wf_reg_run wf_registry_new)

text \<open>
  C13. As long as nothing puts members back (a restore, or a status set to active), no sequence of
  operations takes a swarm over its limits: members ever admitted plus slots held stay within the
  member cap, and running members plus slots held within the concurrency budget.
\<close>

theorem swarm_stays_within_its_caps:
  assumes "max_members l \<le> usize_max" "list_all within_caps ops"
  shows "admitted (entry_of (reg_run ops (with_limits l)) sw)
      + length (reservations (entry_of (reg_run ops (with_limits l)) sw)) \<le> max_members l
    \<and> in_use (entry_of (reg_run ops (with_limits l)) sw) \<le> max_active l"
proof -
  let ?e = "entry_of (reg_run ops (with_limits l)) sw"
  have w: "wf_registry (reg_run ops (with_limits l))" and c: "caps_hold l (reg_run ops (with_limits l))"
    using caps_run [OF assms] by simp_all
  have "wf_swarm ?e"
    using w by (rule wf_registryD)
  then show ?thesis
    using c by (simp add: caps_hold_def cap_ok_def in_use_card)
qed

theorem swarm_stays_within_its_caps_witness:
  "admitted (entry_of (reg_run first_ops (with_limits small_limits)) ''s'')
      + length (reservations (entry_of (reg_run first_ops (with_limits small_limits)) ''s'')) \<le> 3
    \<and> in_use (entry_of (reg_run first_ops (with_limits small_limits)) ''s'') \<le> 2"
  using swarm_stays_within_its_caps [of small_limits first_ops "''s''"]
  by (simp add: small_limits_def usize_max_def first_ops_def)

text \<open>
  C14. An idempotency key that has produced a worker answers with that worker for good: whatever
  runs in between, asking for a slot under the key again starts nothing.
\<close>

theorem settled_key_never_spawns_again:
  assumes "wf_registry g" "confirm g r m = (g', Inr ())"
    and "bt_get (reservations (entry_of g (res_swarm r))) (res_id r) = Some (Some k)"
  shows "snd (reserve (reg_run ops g') (res_swarm r) (Some k)) = Inr (Existing (mem_session m))"
proof -
  have w': "wf_registry g'"
    using wf_confirm [OF assms(1), of r m] assms(2) by simp
  have "bt_get (settled_keys (entry_of g' (res_swarm r))) k = Some (mem_session m)"
  proof (cases rule: confirm_cases [of g r m])
    case (confirmed e key)
    have "wf_swarm e"
      using wf_registryD(3) [OF assms(1), of "res_swarm r"] confirmed(1) by (simp add: entry_of_Some)
    then show ?thesis
      using confirmed assms wf_registryD(1) [OF assms(1)]
      by (auto simp: entry_of_Some wf_swarm_def maps_ok_def bt_laws)
  qed (use assms(2) in simp)
  with settled_run [OF w'] show ?thesis
    using reserve_settled by blast
qed

theorem settled_key_never_spawns_again_witness:
  "snd (reserve (reg_run [RemoveMember ''s'' aide] (fst (confirm held slot0 (member_worker aide ''a'' boss))))
     ''s'' (Some ''k'')) = Inr (Existing aide)"
proof -
  let ?m = "member_worker aide ''a'' boss"
  have "confirm held slot0 ?m = (fst (confirm held slot0 ?m), Inr ())"
    by (simp add: confirm_def held_eq slot0_def member_worker_def bt_get_def aide_def boss_def Let_def)
  moreover have "bt_get (reservations (entry_of held (res_swarm slot0))) (res_id slot0) = Some (Some ''k'')"
    by (simp add: held_eq slot0_def entry_of_def bt_get_def)
  ultimately show ?thesis
    using settled_key_never_spawns_again [OF wf_held, of slot0 ?m _ "''k''" "[RemoveMember ''s'' aide]"]
    by (simp add: slot0_def member_worker_def)
qed

text \<open>
  A key whose worker is still being built is answered as in flight, whatever runs in between,
  until its slot is confirmed or given back; as long as the 64-bit slot counter does not wrap.
\<close>

theorem key_in_flight_starts_nothing:
  assumes "wf_registry g" "reserve g sw (Some k) = (g', Inr (Reserved r))"
    and "list_all (\<lambda>op. \<not> ends_slot r op) ops"
    and "unat (next_reservation g) + 1 + length ops < 2 ^ 64"
  shows "snd (reserve (reg_run ops g') sw (Some k)) = Inr InFlight"
proof -
  have w': "wf_registry g'"
    using wf_reserve [OF assms(1), of sw "Some k"] assms(2) by simp
  have "bt_inv (reservations (entry_of g sw))"
    using wf_registryD(3) [OF assms(1), of sw] by (simp add: wf_swarm_def maps_ok_def)
  moreover have n: "unat (next_reservation g + 1) = unat (next_reservation g) + 1"
    using assms(4) by (intro unat_succ_u64) simp
  ultimately have "holds_slot g' r (Some k) \<and> next_reservation g' = next_reservation g + 1 \<and> res_swarm r = sw"
    using assms(2) wf_registryD(1) [OF assms(1)]
    by (cases rule: reserve_cases [OF assms(1), of sw "Some k"]) (auto simp: holds_slot_def bt_laws)
  then show ?thesis
    using slot_run [OF w', of r "Some k" ops] assms(3,4) reserve_in_flight [of "reg_run ops g'" r k] n
    by simp
qed

theorem key_in_flight_starts_nothing_witness:
  "snd (reserve (reg_run [JoinRoot ''s'' aide ''a''] held) ''s'' (Some ''k'')) = Inr InFlight"
proof -
  let ?g = "reg_run [JoinRoot ''s'' boss ''lead''] (with_limits small_limits)"
  have "reserve ?g ''s'' (Some ''k'') = (held, Inr (Reserved slot0))"
    by (simp add: demo_defs held_def slot0_def)
  moreover have "next_reservation ?g = 0"
    by (simp add: demo_defs)
  moreover have "wf_registry ?g"
    by (simp add: wf_reg_run wf_registry_new)
  ultimately show ?thesis
    using key_in_flight_starts_nothing [of ?g "''s''" "''k''" held slot0 "[JoinRoot ''s'' aide ''a'']"]
    by simp
qed

text \<open>
  Admitting a pair is all or nothing: a refusal leaves the registry exactly as it was, and a
  success leaves both sessions members of the swarm, as active peers without a report edge.
\<close>

theorem pair_admission_is_atomic:
  assumes "wf_registry g" "join_as_pair g sw x y = (g', r)"
  shows "(case r of
      Inl _ \<Rightarrow> g' = g
    | Inr _ \<Rightarrow> member_of g' sw (fst x) = Some (peer_member (fst x) (trim (snd x)))
        \<and> member_of g' sw (fst y) = Some (peer_member (fst y) (trim (snd y))))"
proof (cases r)
  case (Inl e)
  then show ?thesis
    using assms(2)
    by (auto simp: join_as_pair_def pair_guard_def Let_def split: if_splits option.splits sum.splits)
next
  case (Inr u)
  let ?a = "(fst x, trim (snd x))" and ?b = "(fst y, trim (snd y))"
  let ?m = "bt_get (by_session g) (fst x) \<noteq> None \<or> bt_get (by_session g) (fst y) \<noteq> None"
  have w': "wf_registry g'"
    using wf_join_as_pair [OF assms(1), of sw x y] assms(2) by simp
  have "fst x \<noteq> fst y"
    and "g' = admit_pair g sw ?a ?b \<or> (g' = g \<and> pair_guard g sw ?a ?b ?m = Some (Inr ()))"
    using assms(2) Inr
    by (auto simp: join_as_pair_def Let_def split: if_splits option.splits sum.splits)
  then show ?thesis
  proof (elim disjE)
    assume ne: "fst x \<noteq> fst y" and g': "g' = admit_pair g sw ?a ?b"
    have "bt_inv (sw_members (entry_of g sw))"
      using wf_registryD(3) [OF assms(1), of sw] by (simp add: wf_swarm_def maps_ok_def)
    then show ?thesis
      using ne wf_registryD(1) [OF assms(1)]
      by (simp add: Inr member_of_iff [OF w']) (simp add: g' admit_pair_def Let_def bt_laws)
  next
    assume same: "g' = g \<and> pair_guard g sw ?a ?b ?m = Some (Inr ())"
    then obtain e where e: "bt_get (reg_swarms g) sw = Some e"
      "pair_member_matches e (fst x) (trim (snd x))" "pair_member_matches e (fst y) (trim (snd y))"
      by (auto simp: pair_guard_def split: option.splits swarm_topology.splits if_splits)
    have "bt_get (sw_members e) s = Some (peer_member s nm)" if "pair_member_matches e s nm" for s nm
      using that wf_registryD(3) [OF assms(1), of sw] e(1)
      by (auto simp: pair_member_matches_def peer_member_def entry_of_Some wf_swarm_def members_ok_def
          split: option.splits)
    then show ?thesis
      using e same by (simp add: Inr member_of_def)
  qed
qed

theorem pair_admission_is_atomic_witness:
  "member_of (fst (join_as_pair (with_limits small_limits) ''p'' (boss, ''ann'') (aide, '' bob ''))) ''p'' aide
     = Some (peer_member aide ''bob'')"
proof -
  let ?g = "with_limits small_limits"
  have "join_as_pair ?g ''p'' (boss, ''ann'') (aide, '' bob '')
      = (fst (join_as_pair ?g ''p'' (boss, ''ann'') (aide, '' bob '')), Inr ())"
    by (simp add: join_as_pair_def pair_guard_def demo_defs aide_def trim_def trim_matches_def
        is_whitespace_def eq_ignore_ascii_case_def to_ascii_lowercase_def is_ascii_upper_def)
  from pair_admission_is_atomic [OF wf_registry_new this] show ?thesis
    by (simp add: trim_def trim_matches_def is_whitespace_def)
qed

section \<open>The spawn tree and its scope\<close>

text \<open>
  The walk down and the walk up agree, whatever edges are stored: the subtree of a session
  lists, each once and in id order, exactly the members that are the session itself or have it
  among their ancestors.
\<close>

theorem subtree_is_everyone_below:
  assumes "wf_registry g"
  shows "sorted_wrt (<) (subtree g sw s)
    \<and> (t \<in> set (subtree g sw s) \<longleftrightarrow>
         member_of g sw t \<noteq> None \<and> (t = s \<or> s \<in> set (ancestors g sw t)))"
  using subtree_sorted [of g sw s] subtree_set [OF assms, of sw s] ancestors_set [of g sw t]
  by (auto simp: rtrancl_eq_or_trancl)

theorem subtree_is_everyone_below_witness:
  "aide \<in> set (subtree (swarms demo_host) ''s'' boss)"
proof -
  have "boss \<in> set (ancestors (swarms demo_host) ''s'' aide)" "member_of (swarms demo_host) ''s'' aide \<noteq> None"
    by (simp_all add: ancestors_def demo_host_swarms bt_get_def parent_of_def member_worker_def lead_def
        boss_def aide_def member_of_def)
  then show ?thesis
    using subtree_is_everyone_below [OF wf_demo_host, of "''s''" boss aide] by blast
qed

text \<open>
  A message to a group reaches only members other than the sender; a broadcast to the
  subtree only those the sender is an ancestor of, and a broadcast to the whole swarm is the
  coordinator's alone.
\<close>

theorem broadcasts_stay_in_scope:
  assumes "wf_registry (swarms h)" "recipients parse_id h v a = Inr ms" "m \<in> set ms"
  shows "mem_session m \<noteq> me v \<and> member_of (swarms h) (peers_swarm v) (mem_session m) = Some m
    \<and> (a = Subtree \<longrightarrow> me v \<in> set (ancestors (swarms h) (peers_swarm v) (mem_session m)))
    \<and> (a = WholeSwarm \<longrightarrow> is_coordinator (swarms h) (peers_swarm v) (me v))"
proof (cases a)
  case (One who)
  with assms(2,3) obtain i where "member_of (swarms h) (peers_swarm v) i = Some m" "i \<noteq> me v"
    by (auto simp: recipients_def Let_def ok_or_def split: option.splits sum.splits if_splits)
  then show ?thesis
    using member_session [OF assms(1)] One by auto
next
  case Subtree
  then show ?thesis
    using set_subtree_recipients [OF assms(1), of parse_id v ms m] assms(2,3) by simp
next
  case WholeSwarm
  with assms(2,3) obtain i where "member_of (swarms h) (peers_swarm v) i = Some m" "i \<noteq> me v"
    "is_coordinator (swarms h) (peers_swarm v) (me v)"
    by (auto simp: recipients_def Let_def set_lookup_members split: if_splits)
  then show ?thesis
    using member_session [OF assms(1)] WholeSwarm by auto
qed

theorem broadcasts_stay_in_scope_witness:
  "\<exists>m. recipients (\<lambda>_. None) demo_host \<lparr>peers_swarm = ''s'', me = boss\<rparr> WholeSwarm = Inr [m]
     \<and> mem_session m \<noteq> boss \<and> is_coordinator (swarms demo_host) ''s'' boss"
proof -
  let ?v = "\<lparr>peers_swarm = ''s'', me = boss\<rparr>" and ?m = "member_worker aide ''a'' boss"
  have "recipients (\<lambda>_. None) demo_host ?v WholeSwarm = Inr [?m]"
    by (simp add: recipients_def Let_def is_coordinator_def swarm_coordinator_def demo_host_swarms
        members_in_def lookup_members_def List.map_filter_def member_of_def bt_get_def bt_values_def
        lead_def boss_def aide_def member_worker_def)
  then show ?thesis
    using broadcasts_stay_in_scope [OF wf_demo_host, of "\<lambda>_. None" ?v WholeSwarm "[?m]" ?m] by auto
qed

text \<open>A single peer can be addressed whatever the tree says.\<close>

lemma one_peer_is_out_of_scope:
  "recipients (\<lambda>_. None) demo_host \<lparr>peers_swarm = ''s'', me = aide\<rparr> (One ''lead'') = Inr [lead]
   \<and> boss \<notin> set (subtree (swarms demo_host) ''s'' aide)"
proof -
  have "parent_of (entry_of (swarms demo_host) ''s'') boss = None"
    by (simp add: parent_of_def entry_of_def demo_host_swarms bt_get_def lead_def boss_def)
  moreover have "boss \<noteq> aide"
    by (simp add: boss_def aide_def)
  ultimately have "(boss, aide) \<notin> (reports (entry_of (swarms demo_host) ''s''))\<^sup>*"
    by (metis converse_rtranclE option.distinct(1) reports_iff)
  then have "boss \<notin> set (subtree (swarms demo_host) ''s'' aide)"
    using subtree_set [OF wf_demo_host, of "''s''" aide] by simp
  moreover have "recipients (\<lambda>_. None) demo_host \<lparr>peers_swarm = ''s'', me = aide\<rparr> (One ''lead'') = Inr [lead]"
    by (simp add: recipients_def Let_def resolve_name_def demo_host_swarms bt_values_def bt_get_def
        eq_ignore_ascii_case_def to_ascii_lowercase_def is_ascii_upper_def member_worker_def lead_def
        boss_def aide_def member_of_def ok_or_def)
  ultimately show ?thesis
    by blast
qed

section \<open>Spawning\<close>

lemma bt_remove_insert: "bt_inv m \<Longrightarrow> bt_get m k = None \<Longrightarrow> bt_remove k (bt_insert k v m) = m"
proof (induction k v m rule: bt_insert.induct)
  case (2 k v k' v' m)
  have "bt_remove k m = m" if "bt_get m k = None" for m :: "('a \<times> 'b) list"
    using that unfolding bt_remove_def bt_get_def
    by (intro filter_True) (force simp: map_of_eq_None_iff)
  with 2 show ?case
    by (auto simp: bt_get_def bt_inv_def bt_remove_def split: if_splits)
qed (simp add: bt_remove_def)

text \<open>
  A spawn that fails after taking its slot, because no provider serves the model, the worker
  cannot be built, it runs on another model or its session is taken, gives the slot back: what the
  swarm holds of slots, members and admissions is as before.
\<close>

theorem failed_spawn_gives_its_slot_back:
  assumes "wf_registry (swarms h)" "spawn f h q = (h', Inl e)" "\<forall>x. e \<noteq> AdmissionRefused x"
    and "bt_get (reservations (entry_of (swarms h) (sr_swarm q))) (next_reservation (swarms h)) = None"
  shows "reservations (entry_of (swarms h') sw) = reservations (entry_of (swarms h) sw)
    \<and> sw_members (entry_of (swarms h') sw) = sw_members (entry_of (swarms h) sw)
    \<and> admitted (entry_of (swarms h') sw) = admitted (entry_of (swarms h) sw)"
proof -
  let ?g = "swarms h" and ?sw = "sr_swarm q"
  let ?g1 = "fst (reserve ?g ?sw (sr_key q))"
  obtain r where r: "snd (reserve ?g ?sw (sr_key q)) = Inr (Reserved r)"
    and rest: "spawn_rest f (h\<lparr>swarms := ?g1\<rparr>) q r = (h', Inl e)"
  proof (cases "snd (reserve ?g ?sw (sr_key q))")
    case (Inl x)
    then show ?thesis
      using assms(2,3) by (auto simp: spawn_def spawn_reserve_def Let_def split_beta)
  next
    case (Inr a)
    then show ?thesis
      using assms(2,3) that by (cases a) (simp_all add: spawn_def spawn_reserve_def Let_def split_beta)
  qed
  have "swarms h' = fst (release ?g1 r)"
    using rest assms(3)
    by (auto simp: spawn_rest_def Let_def split_beta give_back_def split: sum.splits option.splits)
  moreover have b: "bt_inv (reservations (entry_of ?g ?sw))" "bt_inv (reg_swarms ?g)"
    using wf_registryD(1,3) [OF assms(1)] by (auto simp: wf_swarm_def maps_ok_def)
  moreover have "reserve ?g ?sw (sr_key q) =
         ((put_swarm ?g ?sw ((entry_of ?g ?sw)\<lparr>topology := Some Hierarchical,
             reservations := bt_insert (next_reservation ?g) (sr_key q) (reservations (entry_of ?g ?sw))\<rparr>))
            \<lparr>next_reservation := next_reservation ?g + 1\<rparr>,
          Inr (Reserved \<lparr>res_id = next_reservation ?g, res_swarm = ?sw\<rparr>))"
    using r by (cases rule: reserve_cases [OF assms(1), of ?sw "sr_key q"]) auto
  ultimately show ?thesis
    using r bt_remove_insert [OF b(1) assms(4)]
    by (auto simp: release_def put_swarm_def entry_of_def bt_laws)
qed

definition lone_host :: swarm_host where
  "lone_host = host_new [] (reg_run [JoinRoot ''s'' boss ''lead''] (with_limits small_limits))"

lemma wf_lone_host: "wf_registry (swarms lone_host)"
  by (simp add: lone_host_def host_new_def wf_reg_run wf_registry_new)

lemma lone_host_swarms:
  "swarms lone_host = \<lparr>reg_swarms = [(''s'', \<lparr>topology = Some Hierarchical, sw_members = [(boss, lead)],
        reservations = [], settled_keys = [], admitted = 1, sw_coordinator = Some boss,
        sw_plan = None, heartbeats = []\<rparr>)], by_session = [(boss, ''s'')],
      reg_limits = small_limits, next_reservation = 0\<rparr>"
  by (simp add: demo_defs lone_host_def host_new_def lead_def)

definition spawn_demo :: spawn_request where
  "spawn_demo = with_model (spawn_request_new ''s'' boss ''w'' ''t'') ''big''"

theorem failed_spawn_gives_its_slot_back_witness:
  "reservations (entry_of (swarms (fst (spawn adoption_only_factory lone_host spawn_demo))) ''s'') = []"
proof -
  let ?r = "spawn adoption_only_factory lone_host spawn_demo"
  have e: "\<exists>why. snd ?r = Inl (ProviderUnavailable ''big'' why)"
    by (simp add: spawn_def spawn_reserve_def spawn_rest_def built_worker_def adoption_only_factory_def
        spawn_demo_def with_model_def spawn_request_new_def lone_host_swarms reserve_def entry_of_def
        bt_get_def bt_values_def check_caps_def checked_add_def exceeds_def in_use_def active_members_def
        usize_max_def small_limits_def lead_def member_worker_def is_active_def Let_def)
  then obtain why where "?r = (fst ?r, Inl (ProviderUnavailable ''big'' why))"
    by (metis prod.collapse)
  moreover have "bt_get (reservations (entry_of (swarms lone_host) (sr_swarm spawn_demo)))
      (next_reservation (swarms lone_host)) = None"
    "reservations (entry_of (swarms lone_host) ''s'') = []"
    by (simp_all add: lone_host_swarms entry_of_def bt_get_def spawn_demo_def with_model_def
        spawn_request_new_def)
  ultimately show ?thesis
    using failed_spawn_gives_its_slot_back [OF wf_lone_host] by fastforce
qed

text \<open>
  The one exit that keeps the slot: the session was registered but belongs to a swarm already.
\<close>

lemma refused_membership_keeps_the_slot:
  assumes "built_worker f q = Inr rt" "sess_get (sessions h) (rt_session rt) = None"
    and "bt_inv (sessions h)" "swarm_of (swarms h) (rt_session rt) = Some other"
  shows "spawn_rest f h q r =
    (h\<lparr>sessions := bt_insert (rt_session rt) rt (sessions h)\<rparr>,
     Inl (AdmissionRefused (AlreadyInSwarm (rt_session rt) other)))"
  using assms
  by (simp add: spawn_rest_def sess_register_def sess_insert_def sess_get_def bt_laws Let_def
      confirm_def member_worker_def swarm_of_def)

section \<open>File touches\<close>

text \<open>
  C18. The index of file touches refines a plain log of every access: however touches and
  departures interleave, as long as the clock does not run backwards, a change reports exactly
  what a search of the whole log would.
\<close>

theorem touch_index_refines_the_log:
  assumes "clock_ok 0 es" "clock_after 0 es \<le> now"
  shows "snd (record_touch folds (foldl (index_step folds) (index_new window) es) s t now)
    = spec_collisions folds window (foldl log_step [] es) s t now"
proof -
  have "represents folds (foldl (index_step folds) (index_new window) es) (foldl log_step [] es)
      (clock_after 0 es)"
    by (rule represents_run [OF represents_new assms(1)])
  then show ?thesis
    using collisions_represented [OF _ assms(2)] by (simp add: index_new_def)
qed

theorem touch_index_refines_the_log_witness:
  "snd (record_touch False (foldl (index_step False) (index_new 10)
      [Touched boss (touch_whole ''src/a'' TouchRead) 3, Forgot hand]) aide
        (touch_whole ''./src/a'' TouchWrote) 5)
   = spec_collisions False 10 [\<lparr>acc_session = boss, acc_touch = touch_whole ''src/a'' TouchRead, acc_at = 3\<rparr>]
       aide (touch_whole ''./src/a'' TouchWrote) 5"
  using touch_index_refines_the_log
    [of "[Touched boss (touch_whole ''src/a'' TouchRead) 3, Forgot hand]" 5 False 10 aide
      "touch_whole ''./src/a'' TouchWrote"]
  by (simp add: boss_def hand_def)

text \<open>
  A change tells every other session with a live touch in its way, each once and with the
  most recent such touch, and nobody else; a read tells nobody.
\<close>

theorem change_tells_everyone_in_the_way_once:
  "distinct (map peer (spec_collisions folds window l s t now))
   \<and> (c \<in> set (spec_collisions folds window l s t now) \<longleftrightarrow>
        is_mutation (ft_op t) \<and> peer c \<noteq> s
        \<and> (\<exists>a. last_in_way folds t (peer c) (filter (live window now) l) = Some a
               \<and> c = collision_for t a))"
  using collide_run [of "[]" folds s t "rev (filter (live window now) l)"]
  by (auto simp: spec_collisions_def collisions_in_def)

text \<open>
  The reported range covers the change: the lines before it are those of the old text, the
  lines after it are the end of the old text, and the two parts of the old text do not overlap.
\<close>

theorem changed_range_covers_the_change:
  assumes "changed_range before after = Some r" "length (str_lines after) + 1 < 2 ^ 32"
  shows "take (unat (lr_start r) - 1) (str_lines after) = take (unat (lr_start r) - 1) (str_lines before)
    \<and> (\<exists>m. unat (lr_start r) - 1 \<le> m \<and> m \<le> length (str_lines before)
          \<and> drop (unat (lr_end r)) (str_lines after) = drop m (str_lines before))"
proof -
  obtain m where "unat (lr_start r) \<le> m + 1" "m \<le> length (str_lines before)"
    "drop m (str_lines before) = drop (unat (lr_end r)) (str_lines after)"
    using assms by (rule changed_range_tail)
  moreover have "take (unat (lr_start r) - 1) (str_lines after) = take (unat (lr_start r) - 1) (str_lines before)"
    using changed_range_lines(1) [OF assms] agreeing_take [of "str_lines before" "str_lines after"] by simp
  ultimately show ?thesis
    by (auto intro!: exI [of _ m])
qed

theorem changed_range_covers_the_change_witness:
  "\<exists>r. changed_range (''a'' @ newline @ ''b'' @ newline @ ''c'') (''a'' @ newline @ ''x'' @ newline @ ''c'') = Some r
     \<and> take (unat (lr_start r) - 1) (str_lines (''a'' @ newline @ ''x'' @ newline @ ''c''))
       = take (unat (lr_start r) - 1) (str_lines (''a'' @ newline @ ''b'' @ newline @ ''c''))"
proof -
  let ?b = "''a'' @ newline @ ''b'' @ newline @ ''c''" and ?a = "''a'' @ newline @ ''x'' @ newline @ ''c''"
  have b: "str_lines ?b = [''a'', ''b'', ''c'']" and a: "str_lines ?a = [''a'', ''x'', ''c'']"
    by (simp_all add: str_lines_def newline_def is_nl_def strip_cr_def Let_def)
  have r: "changed_range ?b ?a = Some (line_range_new (to_u32 2) (to_u32 2))"
    unfolding changed_range_def a b Let_def by (simp add: newline_def numeral_2_eq_2)
  have "length (str_lines ?a) + 1 < 2 ^ 32"
    unfolding a by simp
  from changed_range_covers_the_change [OF r this] r show ?thesis
    by blast
qed

text \<open>Two spellings of one file that the index keeps apart, and two files it takes for one.\<close>

lemma absolute_path_is_another_file:
  "\<not> same_file False ''/w/src/lib.rs'' ''src/lib.rs'' \<and> same_file False ''../a'' ''a''"
  by (simp add: same_file_def normalise_def is_sep_def normalise_step_def)

end
