(* ===== verification/Life_Spec.thy ===== *)
theory Life_Spec
  imports Taskgraph_Spec Swarm_Spec
begin

text \<open>
  The properties of the swarm's failure lifecycle (salvage), its snapshots and the plan driver;
  each with a witness on the swarm of \<open>Swarm_Spec\<close> running the plan of \<open>Taskgraph_Spec\<close>.
\<close>

section \<open>Example data\<close>

definition show_name :: "session_id \<Rightarrow> string" where
  "show_name s = (if s = boss then ''boss'' else ''w'')"

definition plan_host :: "task_plan \<Rightarrow> swarm_host" where
  "plan_host p = demo_host\<lparr>swarms := fst (set_plan (swarms demo_host) ''s'' p)\<rparr>"

lemma wf_plan_host: "wf_registry (swarms (plan_host p))"
  by (simp add: plan_host_def wf_set_plan wf_demo_host)

lemma plan_host_simps:
  "plan_of (swarms (plan_host p)) ''s'' = Some p" "host_plan (plan_host p) ''s'' = Some p"
  "member_of (swarms (plan_host p)) ''s'' aide = Some (member_worker aide ''a'' boss)"
  by (simp_all add: plan_host_def set_plan_def demo_host_swarms entry_of_def bt_get_def put_swarm_def
      plan_of_def member_of_def boss_def aide_def Let_def)

section \<open>Salvage\<close>

text \<open>
  Salvaging a member leaves nothing with it: it is departed, nobody reports to it, no task of
  the plan is assigned to it when the swarm has one, and if it led the swarm and anyone is still active, an active
  member leads the swarm now. Nothing else happens to the registry meanwhile.
\<close>

theorem salvage_leaves_nothing_behind:
  assumes "wf_registry (swarms h)" "member_of (swarms h) sw s = Some m"
    and "swarms (fst (salvage_member show_id h sw s limit)) = g"
  shows "map_option mem_status (member_of g sw s) = Some Departed
    \<and> parent_of (entry_of g sw) t \<noteq> Some s
    \<and> (\<forall>p. plan_of (swarms h) sw = Some p \<longrightarrow> wf_plan p \<longrightarrow>
        (\<exists>q. plan_of g sw = Some q \<and> (\<forall>i n. node q i = Some n \<longrightarrow> assignee n \<noteq> Some (show_id s))))
    \<and> (is_coordinator (swarms h) sw s \<longrightarrow> member_of g sw t = Some n \<longrightarrow> is_active (mem_status n) \<longrightarrow>
        (\<exists>c k. swarm_coordinator g sw = Some c \<and> member_of g sw c = Some k \<and> is_active (mem_status k)))"
proof -
  have g: "g = salvage_registry show_id (swarms h) sw s limit"
    using assms(3) by (simp add: swarms_salvage)
  obtain m' where "member_of g sw s = Some m'" "mem_status m' = Departed"
    using salvage_departed [OF assms(1,2)] unfolding g by blast
  moreover have "plan_of g sw = Some (fst (salvage_actor p (show_id s) limit))" if "plan_of (swarms h) sw = Some p" for p
    unfolding g plan_of_entry by (rule salvage_plan [OF assms(1,2) that])
  then have "\<forall>p. plan_of (swarms h) sw = Some p \<longrightarrow> wf_plan p \<longrightarrow>
      (\<exists>q. plan_of g sw = Some q \<and> (\<forall>i n. node q i = Some n \<longrightarrow> assignee n \<noteq> Some (show_id s)))"
    using salvage_actor_frees by blast
  ultimately show ?thesis
    using salvage_no_reports [OF assms(1,2)] salvage_seat [OF assms(1,2)] unfolding g by auto
qed

text \<open>
  What a salvage does to the registry is a sequence of the registry's operations, each of which takes the lock for itself;
  a property of every sequence of operations holds when others come in between.
\<close>

lemma with_plan_state: "fst (with_plan g sw f) = fst (with_plan g sw (\<lambda>p. (fst (f p), ())))"
  by (simp add: with_plan_def split_beta split: option.splits)

lemma salvage_is_a_run:
  "swarms (fst (salvage_member show_id h sw s limit)) =
     reg_run ([SetStatus sw s Departed, WithPlan sw (\<lambda>p. fst (salvage_actor p (show_id s) limit)), Reparent sw s] @
       (if is_coordinator (swarms h) sw s then [Elect sw] else [])) (swarms h)"
  by (simp add: swarms_salvage salvage_registry_def reg_run_def Let_def
      with_plan_state [where f = "\<lambda>p. salvage_actor p (show_id s) limit"])

definition busy_plan :: task_plan where
  "busy_plan = fst (dispatch demo_plan 1 ''w'')"

lemma wf_busy_plan: "wf_plan busy_plan"
  by (simp add: busy_plan_def wf_dispatch demo_wf)

theorem salvage_leaves_nothing_behind_witness:
  "\<exists>q. plan_of (swarms (fst (salvage_member show_name (plan_host busy_plan) ''s'' aide 2))) ''s'' = Some q
     \<and> (\<forall>i n. node q i = Some n \<longrightarrow> assignee n \<noteq> Some ''w'')"
  using salvage_leaves_nothing_behind [OF wf_plan_host plan_host_simps(3) refl, where show_id = show_name and limit = 2]
    plan_host_simps(1) [of busy_plan] wf_busy_plan
  by (auto simp: show_name_def boss_def aide_def)

text \<open>
  Salvaging a member again does nothing: no task, no report edge and no seat moves, so a
  salvage that raced another one is harmless.
\<close>

theorem salvaging_twice_changes_nothing:
  assumes "wf_registry (swarms h)" "member_of (swarms h) sw s = Some m"
    and "plan_of (swarms h) sw = Some p" "wf_plan p"
    and "fst (salvage_member show_id h sw s limit) = h1"
  shows "swarms (fst (salvage_member show_id h1 sw s limit')) = swarms h1
    \<and> sv_tasks (snd (salvage_member show_id h1 sw s limit')) = []
    \<and> reparented (snd (salvage_member show_id h1 sw s limit')) = []
    \<and> new_coordinator (snd (salvage_member show_id h1 sw s limit')) = None"
proof -
  have g: "swarms h1 = salvage_registry show_id (swarms h) sw s limit"
    using assms(5) swarms_salvage by blast
  have w: "wf_registry (swarms h1)"
    unfolding g by (rule wf_salvage_registry [OF assms(1)])
  have r: "at_rest show_id (entry_of (swarms h1) sw) s"
    unfolding g using assms(3,4) by (intro salvage_at_rest [OF assms(1,2)]) simp
  then obtain e where "bt_get (reg_swarms (swarms h1)) sw = Some e"
    by (cases "bt_get (reg_swarms (swarms h1)) sw")
      (auto simp: at_rest_def entry_of_def swarm_default_def)
  with salvage_again [OF w this] r show ?thesis
    by (simp add: entry_of_Some)
qed

theorem salvaging_twice_changes_nothing_witness:
  "sv_tasks (snd (salvage_member show_name (fst (salvage_member show_name (plan_host busy_plan) ''s'' aide 2))
     ''s'' aide 2)) = []"
  using salvaging_twice_changes_nothing
    [OF wf_plan_host plan_host_simps(3) plan_host_simps(1) wf_busy_plan refl, of show_name 2 2]
  by blast

section \<open>Snapshots\<close>

lemma member_of_entry: "member_of g sw s = bt_get (sw_members (entry_of g sw)) s"
  by (auto simp: member_of_def entry_of_def swarm_default_def bt_empty_def bt_get_def split: option.splits)

lemma swarm_coordinator_entry: "swarm_coordinator g sw = sw_coordinator (entry_of g sw)"
  by (auto simp: swarm_coordinator_def entry_of_def swarm_default_def split: option.splits)

lemma not_stale_captured:
  assumes "\<And>x. load decode fs sw = Inr (Some x) \<Longrightarrow> unat (snap_revision x) + 1 < 2 ^ 64"
  shows "\<not> stale_write decode fs (captured decode fs gm gc gp sw)"
proof
  assume "stale_write decode fs (captured decode fs gm gc gp sw)"
  then obtain x where x: "read_file decode fs (file_key sw, Primary) = Inr (Some x)"
    "snap_revision (captured decode fs gm gc gp sw) \<le> snap_revision x"
    by (auto simp: stale_write_def captured_def split: sum.splits option.splits)
  then have l: "load decode fs sw = Inr (Some x)"
    by (simp add: load_def)
  then have "snap_revision x + 1 \<le> snap_revision x"
    using x(2) by (simp add: captured_def)
  then show False
    using unat_succ_u64 [of "snap_revision x"] assms [OF l] by (simp add: word_le_nat_alt)
qed

lemma restore_fresh:
  assumes "wf_registry g" "topology (entry_of g sw) \<noteq> Some PairShape"
  obtains g' where "restore (with_limits l) sw (members_in g sw) c p = (g', Inr ())"
proof -
  have "mem_role m \<noteq> Peer" if "m \<in> set (members_in g sw)" for m
  proof -
    have "bt_get (sw_members (entry_of g sw)) (mem_session m) = Some m"
      using that members_in_iff [OF assms(1)] by (simp add: member_of_iff [OF assms(1)])
    then show ?thesis
      using wf_registryD(3) [OF assms(1), of sw] assms(2) by (auto simp: wf_swarm_defs)
  qed
  then have "\<not> list_ex (\<lambda>m. mem_role m = Peer) (members_in g sw)"
    by (auto simp: list_ex_iff)
  moreover have "restore_conflict (with_limits l) sw (members_in g sw) = None"
    by (simp add: restore_conflict_def elsewhere_def with_limits_def registry_new_def bt_empty_def
        bt_get_def)
  ultimately have "snd (restore (with_limits l) sw (members_in g sw) c p) = Inr ()"
    by (simp add: restore_def with_limits_def registry_new_def bt_empty_def bt_get_def Let_def)
  then show ?thesis
    using that by (metis prod.collapse)
qed

text \<open>What JSON can hold of a plan: a confidence that is a number. Any other is written as \<open>null\<close> and not read back.\<close>

definition numeric_confidence :: "confidence \<Rightarrow> bool" where
  "numeric_confidence c \<longleftrightarrow> (case confidence_value c of F32_Fin q \<Rightarrow> 0 \<le> q \<and> q \<le> 1 | _ \<Rightarrow> False)"

definition readable_plan :: "task_plan \<Rightarrow> bool" where
  "readable_plan p \<longleftrightarrow>
     list_all (\<lambda>(_, n). case artifact n of None \<Rightarrow> True | Some a \<Rightarrow> numeric_confidence (confidence_of a)) (nodes p)"

definition readable_snapshot :: "swarm_snapshot \<Rightarrow> bool" where
  "readable_snapshot x \<longleftrightarrow> (case snap_plan x of None \<Rightarrow> True | Some p \<Rightarrow> readable_plan p)"

text \<open>
  C19. A swarm survives a restart: when the writes succeed, a captured snapshot is what the next load returns, and
  restoring it into an empty registry gives every member as it was when the members were read, the coordinator as it
  was when that was read and the plan as it was when that was read, whatever happened to the registry in
  between. The hypotheses: every confidence in the plan is a number (a confidence can be none, and JSON
  does not carry that), and the codec reads back what it wrote of such a snapshot; the swarm is no pair; the
  stored revision is not the largest of the 64-bit ones.
\<close>

theorem snapshot_round_trip:
  assumes "wf_registry gm" "topology (entry_of gm sw) \<noteq> Some PairShape"
    and numeric: "\<And>p. plan_of gp sw = Some p \<Longrightarrow> readable_plan p"
    and codec: "\<And>x. readable_snapshot x \<Longrightarrow> \<exists>body. encode x = Inr body \<and> decode body = Inr x"
    and "\<not> mkdir_fails io" "\<not> write_fails io" "\<not> rename_fails io"
    and fits: "\<And>x. load decode fs sw = Inr (Some x) \<Longrightarrow> unat (snap_revision x) + 1 < 2 ^ 64"
  shows "\<exists>fs' x g'. capture encode decode io fs gm gc gp sw = (fs', Inr x) \<and> load decode fs' sw = Inr (Some x)
    \<and> restore_snapshot (with_limits l) x = (g', Inr ())
    \<and> (\<forall>s. member_of g' sw s = member_of gm sw s)
    \<and> swarm_coordinator g' sw = swarm_coordinator gc sw \<and> plan_of g' sw = plan_of gp sw"
proof -
  let ?x = "captured decode fs gm gc gp sw"
  have x: "snap_swarm ?x = sw" "snap_members ?x = members_in gm sw"
    "snap_coordinator ?x = swarm_coordinator gc sw" "snap_plan ?x = plan_of gp sw"
    by (simp_all add: captured_def)
  have "readable_snapshot ?x" using numeric by (simp add: readable_snapshot_def x split: option.splits)
  then obtain body where body: "encode ?x = Inr body" "decode body = Inr ?x" using codec by blast
  have "\<not> stale_write decode fs ?x"
    using fits by (rule not_stale_captured)
  note ok = save_ok [where encode = encode and decode = decode, OF body(1) assms(5-7) this]
  have c: "capture encode decode io fs gm gc gp sw = (fst (save encode decode io fs ?x), Inr ?x)"
    using ok(1) by (simp add: capture_def Let_def split_beta)
  have ld: "load decode (fst (save encode decode io fs ?x)) sw = Inr (Some ?x)"
    using ok(2) body(2) by (intro load_saved) (simp_all add: x)
  obtain g' where g': "restore (with_limits l) sw (members_in gm sw) (swarm_coordinator gc sw) (plan_of gp sw)
      = (g', Inr ())"
    using restore_fresh [OF assms(1,2)] .
  have e: "entry_of g' sw = (entry_of (with_limits l) sw)
      \<lparr>topology := Some Hierarchical, sw_members := restored_map (members_in gm sw),
       sw_coordinator := swarm_coordinator gc sw, sw_plan := plan_of gp sw,
       admitted := max (admitted (entry_of (with_limits l) sw)) (length (members_in gm sw))\<rparr>"
    using restore_ok(4) [OF wf_registry_new g'] by simp
  have "member_of g' sw s = member_of gm sw s" for s
    using restored_members [OF assms(1)] by (simp add: member_of_entry e)
  moreover have "swarm_coordinator g' sw = swarm_coordinator gc sw" "plan_of g' sw = plan_of gp sw"
    by (simp_all add: swarm_coordinator_entry plan_of_entry e)
  moreover have "restore_snapshot (with_limits l) ?x = (g', Inr ())"
    using g' by (simp add: restore_snapshot_def x)
  ultimately show ?thesis
    using c ld by blast
qed

definition calm_io :: "'b save_io" where
  "calm_io = \<lparr>mkdir_fails = False, backup_left = None, temp_left = None, write_fails = False,
              rename_fails = False\<rparr>"

text \<open>A codec that, like JSON, cannot carry a confidence that is no number.\<close>

definition demo_encode :: "swarm_snapshot \<Rightarrow> string + swarm_snapshot option" where
  "demo_encode x = Inr (if readable_snapshot x then Some x else None)"

definition demo_decode_snapshot :: "swarm_snapshot option \<Rightarrow> string + swarm_snapshot" where
  "demo_decode_snapshot b = (case b of None \<Rightarrow> Inl ''invalid type: null'' | Some x \<Rightarrow> Inr x)"

theorem snapshot_round_trip_witness:
  "\<exists>fs' x g'. capture demo_encode demo_decode_snapshot calm_io (\<lambda>_. None) (swarms demo_host) (swarms demo_host)
        (swarms (plan_host demo_plan)) ''s'' = (fs', Inr x)
     \<and> load demo_decode_snapshot fs' ''s'' = Inr (Some x) \<and> restore_snapshot (with_limits small_limits) x = (g', Inr ())
     \<and> swarm_coordinator g' ''s'' = Some boss \<and> plan_of g' ''s'' = Some demo_plan"
proof -
  have "topology (entry_of (swarms demo_host) ''s'') \<noteq> Some PairShape"
    "swarm_coordinator (swarms demo_host) ''s'' = Some boss"
    by (simp_all add: demo_host_swarms entry_of_def bt_get_def swarm_coordinator_def)
  moreover have "plan_of (swarms (plan_host demo_plan)) ''s'' = Some demo_plan" by (simp add: plan_host_simps)
  moreover have "readable_plan demo_plan" by code_simp
  ultimately show ?thesis
    using snapshot_round_trip [OF wf_demo_host, of "''s''" "swarms (plan_host demo_plan)" demo_encode demo_decode_snapshot
        calm_io "\<lambda>_. None" "swarms demo_host" small_limits]
    by (auto simp: calm_io_def load_def read_file_def demo_encode_def demo_decode_snapshot_def)
qed

text \<open>
  C20. A crash during a save never loses the swarm: whatever the interrupted copy or write left
  behind, the next load returns what it would have returned before the save, or the new snapshot;
  and a save that returned, whichever way, left one of these states.
\<close>

theorem interrupted_save_loses_nothing:
  assumes "\<And>body. encode snap = Inr body \<Longrightarrow> decode body = Inr snap"
  shows "(fs' \<in> set (crash_points encode decode io fs snap) \<longrightarrow>
      load decode fs' (snap_swarm snap) = load decode fs (snap_swarm snap)
      \<or> load decode fs' (snap_swarm snap) = Inr (Some snap))
    \<and> fst (save encode decode io fs snap) \<in> set (crash_points encode decode io fs snap)"
  using crash_points_load [where encode = encode and decode = decode, OF assms] save_ends_at_crash_point
  by blast

definition old_snap :: swarm_snapshot where
  "old_snap = \<lparr>snap_swarm = ''s'', snap_revision = 1, snap_members = [lead],
               snap_coordinator = Some boss, snap_plan = None\<rparr>"

text \<open>The new write was cut off half-way, and so was the copy that backs the old file up.\<close>

theorem interrupted_save_loses_nothing_witness:
  "load (case_option (Inl ''torn'') Inr)
     ((\<lambda>f. if f = (file_key ''s'', Primary) then Some (Some old_snap) else None)
        ((file_key ''s'', Backup) := Some None, (file_key ''s'', Temp) := Some None)) ''s''
   = Inr (Some old_snap)"
proof -
  let ?dec = "case_option (Inl ''torn'') Inr :: swarm_snapshot option \<Rightarrow> string + swarm_snapshot"
  let ?fs = "\<lambda>f. if f = (file_key ''s'', Primary) then Some (Some old_snap) else None"
  let ?fs' = "?fs((file_key ''s'', Backup) := Some None, (file_key ''s'', Temp) := Some None)"
  let ?io = "\<lparr>mkdir_fails = False, backup_left = Some None, temp_left = Some None, write_fails = True,
              rename_fails = False\<rparr>"
  let ?new = "old_snap\<lparr>snap_revision := 2, snap_members := []\<rparr>"
  have "\<not> (2 :: u64) \<le> 1"
    by (simp add: word_le_nat_alt)
  then have "?fs' \<in> set (crash_points (Inr \<circ> Some) ?dec ?io ?fs ?new)"
    by (simp add: crash_points_def Let_def stale_write_def read_file_def backed_up_def old_snap_def)
  then have "load ?dec ?fs' ''s'' = load ?dec ?fs ''s'' \<or> load ?dec ?fs' ''s'' = Inr (Some ?new)"
    using interrupted_save_loses_nothing [of "Inr \<circ> Some" ?new ?dec ?fs' ?io ?fs]
    by (simp add: old_snap_def)
  then show ?thesis
    by (simp add: load_def read_file_def)
qed

text \<open>
  Two swarms whose ids differ only in characters a file name does not keep share one file, and a
  load does not look at whose snapshot it is.
\<close>

lemma swarms_can_share_a_file:
  "file_key ''a/b'' = file_key ''a_b''
   \<and> load Inr (\<lambda>f. if f = (file_key ''a/b'', Primary) then Some old_snap else None) ''a_b''
     = Inr (Some old_snap)"
  by (simp add: file_key_def load_def read_file_def is_ascii_alphanumeric_def is_ascii_digit_def
      is_ascii_upper_def is_ascii_lower_def)

section \<open>The driver\<close>

text \<open>
  C21. Running a plan whose tasks belong to its coordinator returns, whatever the workers answer
  and in whatever order they finish, as long as what happens while the driver waits leaves the
  plan well formed and the coordinator's: at most the dispatch ceiling is started, at most the
  concurrency budget ran at once, and unless the report says the ceiling stopped it, no task is
  left that could have been started.
\<close>

theorem plan_run_returns:
  assumes "await_keeps await sw (env_show E coord)" "owned_host sw (env_show E coord) h"
  shows "\<exists>h' h'' report. run_plan await E h sw coord cfg w = Some (h', report)
    \<and> h' = fst (reap_terminal h'' sw) \<and> rr_dispatched report \<le> max_dispatches cfg
    \<and> rr_peak report \<le> max (concurrency cfg) 1
    \<and> (rr_exhausted report \<or> next_ready h'' sw = None)"
proof -
  let ?d = "\<lparr>dr_host = h, in_flight = [], dispatched = 0, peak = 0, exhausted = False\<rparr>"
  have "in_budget cfg ?d"
    by (simp add: in_budget_def)
  then obtain w' d' where d': "drive_loop await E cfg (plan_depth h sw) sw coord w ?d = Some (w', d')"
    "in_budget cfg d'" "exhausted d' \<or> next_ready (dr_host d') sw = None"
    using drive_loop_returns [OF assms(1), of ?d cfg "plan_depth h sw" w] assms(2) by auto
  then show ?thesis
    by (intro exI [of _ "fst (reap_terminal (dr_host d') sw)"] exI [of _ "dr_host d'"])
      (auto simp: run_plan_def in_budget_def Let_def)
qed

text \<open>No worker can be built here: every task is failed, and the run ends.\<close>

definition quiet_env :: run_env where
  "quiet_env = \<lparr>env_factory = adoption_only_factory, env_show = show_name, env_contract = (\<lambda>_. [])\<rparr>"

definition quiet_await :: "unit await_fun" where
  "quiet_await w fl h = (w, 0, None, True, h)"

lemma owned_demo_plan: "owned_plan ''boss'' demo_plan"
proof -
  have "list_all (\<lambda>x. owner (snd x) = ''boss'') (nodes demo_plan)"
    by code_simp
  then have "owner n = ''boss''" if "node demo_plan i = Some n" for i n
    using that by (auto simp: node_def bt_get_def list_all_iff dest!: map_of_SomeD)
  then show ?thesis
    by (simp add: owned_plan_def demo_wf)
qed

lemma show_boss: "show_name boss = ''boss''"
  by (simp add: show_name_def)

theorem plan_run_returns_witness:
  "\<exists>h' report. run_plan quiet_await quiet_env (plan_host demo_plan) ''s'' boss driver_default ()
     = Some (h', report) \<and> rr_peak report \<le> 4"
proof -
  have "await_keeps quiet_await ''s'' (env_show quiet_env boss)"
    by (simp add: await_keeps_def quiet_await_def)
  moreover have "owned_host ''s'' (env_show quiet_env boss) (plan_host demo_plan)"
    by (simp add: owned_host_def wf_plan_host plan_host_simps owned_demo_plan quiet_env_def show_boss)
  ultimately show ?thesis
    using plan_run_returns [of quiet_await "''s''" quiet_env boss "plan_host demo_plan" driver_default "()"]
    by (auto simp: driver_default_def)
qed

text \<open>
  The plan must be the coordinator's: when no worker can be built and the first ready task belongs
  to somebody else, failing it is refused and the inner loop asks for the same task for ever.
\<close>

lemma foreign_task_spins:
  assumes "stuck E sw coord p h" "0 < max_dispatches cfg" "cascade_host h sw = h"
  shows "run_plan await E h sw coord cfg w = None"
proof -
  let ?d = "\<lparr>dr_host = h, in_flight = [], dispatched = 0, peak = 0, exhausted = False\<rparr>"
  have "fill E cfg depth sw coord ?d = None" for depth
    using fill_stuck [of E cfg depth sw coord ?d _ p] assms(1,2) by (cases "fill E cfg depth sw coord ?d") auto
  then have "drive_loop await E cfg depth sw coord w ?d = None" for depth
    using assms(3) by (subst drive_loop.simps) simp
  then show ?thesis
    by (simp add: run_plan_def)
qed

text \<open>Such a run: the coordinator changed its name, the tasks kept their owner.\<close>

definition foreign_env :: run_env where
  "foreign_env = quiet_env\<lparr>env_show := \<lambda>_. ''w''\<rparr>"

definition foreign_host :: swarm_host where
  "foreign_host = lone_host\<lparr>swarms := fst (set_plan (swarms lone_host) ''s'' demo_plan)\<rparr>"

lemma foreign_host_swarms:
  "swarms foreign_host = put_swarm (swarms lone_host) ''s''
     ((entry_of (swarms lone_host) ''s'')\<lparr>topology := Some Hierarchical, sw_plan := Some demo_plan\<rparr>)"
  by (simp add: foreign_host_def set_plan_def lone_host_swarms entry_of_def bt_get_def put_swarm_def Let_def)

lemma stuck_foreign_host: "stuck foreign_env ''s'' boss demo_plan foreign_host"
proof -
  have "wf_registry (swarms foreign_host)"
    by (simp add: foreign_host_def wf_set_plan wf_lone_host)
  moreover have r: "ready_nodes demo_plan = [1]"
    "map_option (\<lambda>n. (status n, owner n)) (node demo_plan 1) = Some (Pending, ''boss'')"
    by code_simp+
  moreover have "host_plan foreign_host ''s'' = Some demo_plan"
    "settled_keys (entry_of (swarms foreign_host) ''s'') = []"
    by (simp_all add: foreign_host_swarms lone_host_swarms entry_of_def bt_get_def put_swarm_def)
  ultimately show ?thesis
    by (auto simp: stuck_def foreign_env_def quiet_env_def built_worker_def adoption_only_factory_def
        split: option.splits)
qed

lemma foreign_run_never_ends:
  "run_plan quiet_await foreign_env foreign_host ''s'' boss driver_default () = None"
proof (rule foreign_task_spins [OF stuck_foreign_host])
  have "cascade_blocked demo_plan = (demo_plan, [])"
    by code_simp
  then have "fst (with_plan (swarms foreign_host) ''s'' cascade_blocked) = swarms foreign_host"
    by (simp add: with_plan_def foreign_host_swarms lone_host_swarms entry_of_def bt_get_def
        put_swarm_def Let_def)
  then show "cascade_host foreign_host ''s'' = foreign_host"
    by (simp add: cascade_host_def)
qed (simp add: driver_default_def)

section \<open>The tree after a departure\<close>

text \<open>
  Reparenting only keeps a child from becoming its own parent. Here a chain of four loses its
  coordinator, the member at the bottom is elected, and when the member at the top leaves as well
  its child is handed to that coordinator, which is below it: the two end up above each other.
\<close>

definition knot_ops :: "reg_op list" where
  "knot_ops =
    [JoinRoot ''s'' 9 ''lead'',
     Reserve ''s'' None, Confirm \<lparr>res_id = 0, res_swarm = ''s''\<rparr> (member_worker 8 ''d'' 9),
     Reserve ''s'' None, Confirm \<lparr>res_id = 1, res_swarm = ''s''\<rparr> (member_worker 7 ''a'' 8),
     Reserve ''s'' None, Confirm \<lparr>res_id = 2, res_swarm = ''s''\<rparr> (member_worker 1 ''h'' 7),
     SetStatus ''s'' 9 Departed, Reparent ''s'' 9, Elect ''s'',
     SetStatus ''s'' 8 Departed, Reparent ''s'' 8]"

definition knotted :: registry where
  "knotted = reg_run knot_ops (with_limits \<lparr>max_members = 4, max_active = 4\<rparr>)"

lemma reparenting_can_make_a_cycle:
  "parent_of (entry_of knotted ''s'') 7 = Some 1 \<and> parent_of (entry_of knotted ''s'') 1 = Some 7"
  by (simp add: knotted_def knot_ops_def demo_defs confirm_def member_worker_def bt_remove_def
      set_status_def with_member_def reparent_children_def new_parent_def parent_of_def reports_of_def
      reparent_one_def modify_member_def bt_modify_def or_else_def option_filter_def
      elect_coordinator_def seat_filled_def)

text \<open>
  A coordinator that left while nobody else was active keeps its seat, so the next root session to
  join is only a worker and the swarm has no active coordinator.
\<close>

lemma departed_coordinator_keeps_the_seat:
  "fst (elect_coordinator (fst (set_status (swarms lone_host) ''s'' boss Departed)) ''s'')
     = fst (set_status (swarms lone_host) ''s'' boss Departed)
   \<and> snd (join_as_root (fst (set_status (swarms lone_host) ''s'' boss Departed)) ''s'' hand ''h'') = Inr Worker"
  by (simp add: set_status_def with_member_def lone_host_swarms put_swarm_def modify_member_def
      bt_modify_def bt_get_def boss_def hand_def elect_coordinator_def seat_filled_def is_active_def
      active_members_def bt_values_def lead_def join_as_root_def elsewhere_def entry_of_def check_caps_def
      checked_add_def exceeds_def in_use_def usize_max_def small_limits_def Let_def)

end
