(* ===== verification/Workspace_Path.thy ===== *)
theory Workspace_Path
  imports Rust_Path
begin

text \<open>
  \<^verbatim>\<open>crates/localpilot-sandbox/src/secret_path.rs\<close>: whether a path looks like it holds
  credentials, by its file name, its extension or a credential directory on the way.
\<close>

section \<open>Definitions\<close>

definition str_starts_with :: "string \<Rightarrow> string \<Rightarrow> bool" where
  "str_starts_with s p \<longleftrightarrow> take (length p) s = p"

definition SECRET_NAMES :: "string list" where
  "SECRET_NAMES =
     [''id_rsa'', ''id_ed25519'', ''id_ecdsa'', ''id_dsa'', ''.npmrc'', ''.pypirc'', ''.netrc'',
      ''credentials'', ''.git-credentials'', ''.htpasswd'', ''secrets.yaml'', ''secrets.yml'',
      ''secrets.json'', ''kubeconfig'']"

definition SECRET_DIRS :: "string list" where
  "SECRET_DIRS = [''.aws/'', ''.ssh/'', ''.gnupg/'', ''.kube/'', ''.docker/config.json'']"

definition SECRET_EXTENSIONS :: "string list" where
  "SECRET_EXTENSIONS = [''pem'', ''key'', ''p12'', ''pfx'', ''keystore'', ''jks'']"

definition secret_name :: "string \<Rightarrow> string" where
  "secret_name p = to_ascii_lowercase (case file_name p of Some n \<Rightarrow> n | None \<Rightarrow> [])"

definition lossy_path :: "string \<Rightarrow> string" where
  "lossy_path p = to_ascii_lowercase (replace_char (CHR 0x5C) (CHR ''/'') p)"

definition is_secret_like :: "string \<Rightarrow> bool" where
  "is_secret_like p =
     (let name = secret_name p
      in if name = ''.env''
            \<or> str_starts_with name ''.env'' \<and> \<not> str_contains name ''example''
              \<and> \<not> str_contains name ''sample''
         then True
         else if name \<in> set SECRET_NAMES then True
         else if (case file_extension name of
                    Some ext \<Rightarrow> ext \<in> set SECRET_EXTENSIONS | None \<Rightarrow> False) then True
         else list_ex (str_contains (lossy_path p)) SECRET_DIRS)"

section \<open>Lemmas\<close>

lemma str_contains_mono: "str_contains s n \<Longrightarrow> str_contains (a @ s @ b) n"
  unfolding str_contains_iff by (metis append.assoc)

lemma lossy_path_append: "lossy_path (a @ b) = lossy_path a @ lossy_path b"
  by (simp add: lossy_path_def to_ascii_lowercase_def replace_char_def)

lemma secret_dir_anywhere:
  assumes "d \<in> set SECRET_DIRS" "lossy_path m = d"
  shows "is_secret_like (a @ m @ b)"
proof -
  have "str_contains (lossy_path (a @ m @ b)) d"
    using assms(2) by (simp add: lossy_path_append str_contains_mid)
  with assms(1) show ?thesis
    by (auto simp: is_secret_like_def Let_def list_ex_iff)
qed

text \<open>
  \<^verbatim>\<open>crates/localpilot-sandbox/src/path.rs\<close>: workspace containment. The filesystem is an
  argument: which paths exist, what \<open>canonicalize\<close> answers, the temporary directory of the
  host and the creation of a fresh directory by the \<open>tempfile\<close> crate.
\<close>

section \<open>Data\<close>

type_synonym io_error = string

record filesystem =
  fs_exists :: "path \<Rightarrow> bool"
  fs_canonicalize :: "path \<Rightarrow> io_error + path"
  fs_temp_dir :: path
  fs_tempdir_in :: "path \<Rightarrow> string \<Rightarrow> io_error + path"

datatype scratch_root = OsTemp | Disabled | ScratchParent path

datatype sandbox_error =
    OutsideWorkspace string
  | SandboxIo path io_error

record workspace =
  root :: path
  read_roots :: "path list"
  scratch_policy :: scratch_root
  scratch :: "path option"

section \<open>Normalising\<close>

text \<open>
  The loop of \<open>lexically_normalize\<close>; \<open>out\<close> is kept with its last component first.
\<close>

fun lex_loop :: "path \<Rightarrow> path \<Rightarrow> path" where
  "lex_loop out [] = rev out"
| "lex_loop out (CurDir # cs) = lex_loop out cs"
| "lex_loop out (ParentDir # cs) =
     (case out of
        Normal _ # out' \<Rightarrow> lex_loop out' cs
      | _ \<Rightarrow> lex_loop (ParentDir # out) cs)"
| "lex_loop out (c # cs) = lex_loop (c # out) cs"

definition lexically_normalize :: "path \<Rightarrow> path" where
  "lexically_normalize p = lex_loop [] p"

text \<open>
  The loop of \<open>canonicalize_existing_prefix\<close>: \<open>ancestor\<close> shrinks from the end, \<open>tail\<close> collects
  the names that were cut off, innermost last.
\<close>

function canon_loop ::
  "filesystem \<Rightarrow> path \<Rightarrow> path \<Rightarrow> string list \<Rightarrow> io_error + path" where
  "canon_loop fs p ancestor tail =
     (if fs_exists fs ancestor
      then (case fs_canonicalize fs ancestor of
              Inl e \<Rightarrow> Inl e
            | Inr resolved \<Rightarrow> Inr (resolved @ map Normal (rev tail)))
      else (case (comps_file_name ancestor, comps_parent ancestor) of
              (Some name, Some parent) \<Rightarrow> canon_loop fs p parent (tail @ [name])
            | _ \<Rightarrow> Inr p))"
  by pat_completeness auto
termination
  by (relation "measure (\<lambda>(fs, p, ancestor, tail). length ancestor)")
    (auto simp: comps_parent_def comps_file_name_def split: if_splits)

declare canon_loop.simps [simp del]

definition canonicalize_existing_prefix :: "filesystem \<Rightarrow> path \<Rightarrow> io_error + path" where
  "canonicalize_existing_prefix fs p = canon_loop fs p p []"

section \<open>The workspace\<close>

definition workspace_new :: "filesystem \<Rightarrow> path \<Rightarrow> sandbox_error + workspace" where
  "workspace_new fs r =
     (case fs_canonicalize fs r of
        Inl e \<Rightarrow> Inl (SandboxIo r e)
      | Inr c \<Rightarrow> Inr \<lparr>root = c, read_roots = [], scratch_policy = OsTemp, scratch = None\<rparr>)"

definition clear_scratch :: "workspace \<Rightarrow> workspace" where
  "clear_scratch ws = ws\<lparr>scratch := None\<rparr>"

definition set_scratch_root :: "workspace \<Rightarrow> scratch_root \<Rightarrow> workspace" where
  "set_scratch_root ws policy = (clear_scratch ws)\<lparr>scratch_policy := policy\<rparr>"

definition scratch_label :: "string \<Rightarrow> string" where
  "scratch_label session =
     take 80 (filter (\<lambda>c. is_ascii_alphanumeric c \<or> c = CHR ''-'') session)"

definition invalid_parent :: io_error where
  "invalid_parent = ''scratch parent must be an absolute existing directory''"

definition start_scratch :: "filesystem \<Rightarrow> workspace \<Rightarrow> string \<Rightarrow> workspace \<times> (io_error + unit)" where
  "start_scratch fs ws0 session =
     (let ws = clear_scratch ws0;
          create = (\<lambda>parent.
            (case fs_canonicalize fs parent of
               Inl e \<Rightarrow> (ws, Inl e)
             | Inr parent' \<Rightarrow>
                 (case fs_tempdir_in fs parent'
                         (''localpilot-'' @ scratch_label session @ ''-'') of
                    Inl e \<Rightarrow> (ws, Inl e)
                  | Inr owner \<Rightarrow>
                      (case fs_canonicalize fs owner of
                         Inl e \<Rightarrow> (ws, Inl e)
                       | Inr canonical \<Rightarrow> (ws\<lparr>scratch := Some canonical\<rparr>, Inr ())))))
      in case scratch_policy ws of
           Disabled \<Rightarrow> (ws, Inr ())
         | OsTemp \<Rightarrow> create (fs_temp_dir fs)
         | ScratchParent parent \<Rightarrow>
             if is_absolute parent then create parent else (ws, Inl invalid_parent))"

definition scratch_dir :: "workspace \<Rightarrow> path option" where
  "scratch_dir ws = scratch ws"

definition add_read_root :: "filesystem \<Rightarrow> workspace \<Rightarrow> path \<Rightarrow> workspace \<times> (sandbox_error + unit)" where
  "add_read_root fs ws r =
     (case fs_canonicalize fs r of
        Inl e \<Rightarrow> (ws, Inl (SandboxIo r e))
      | Inr c \<Rightarrow> (ws\<lparr>read_roots := read_roots ws @ [c]\<rparr>, Inr ()))"

definition normalize :: "filesystem \<Rightarrow> workspace \<Rightarrow> string \<Rightarrow> sandbox_error + path" where
  "normalize fs ws candidate =
     (let joined = path_join (root ws) (components candidate);
          lexical = lexically_normalize joined
      in case canonicalize_existing_prefix fs lexical of
           Inl e \<Rightarrow> Inl (SandboxIo lexical e)
         | Inr p \<Rightarrow> Inr p)"

definition resolve :: "filesystem \<Rightarrow> workspace \<Rightarrow> string \<Rightarrow> sandbox_error + path" where
  "resolve fs ws candidate =
     (case normalize fs ws candidate of
        Inl e \<Rightarrow> Inl e
      | Inr real \<Rightarrow>
          if path_starts_with real (root ws) then Inr real else Inl (OutsideWorkspace candidate))"

definition contains :: "filesystem \<Rightarrow> workspace \<Rightarrow> string \<Rightarrow> bool" where
  "contains fs ws candidate =
     (case normalize fs ws candidate of
        Inr real \<Rightarrow> path_starts_with real (root ws) | Inl _ \<Rightarrow> False)"

definition read_scoped :: "filesystem \<Rightarrow> workspace \<Rightarrow> string \<Rightarrow> bool" where
  "read_scoped fs ws candidate =
     (case normalize fs ws candidate of
        Inr real \<Rightarrow>
          path_starts_with real (root ws) \<or> list_ex (path_starts_with real) (read_roots ws)
      | Inl _ \<Rightarrow> False)"

definition scratch_contains :: "filesystem \<Rightarrow> workspace \<Rightarrow> string \<Rightarrow> bool" where
  "scratch_contains fs ws candidate =
     (case scratch_dir ws of
        None \<Rightarrow> False
      | Some r \<Rightarrow>
          (case normalize fs ws candidate of
             Inr p \<Rightarrow> path_starts_with p r | Inl _ \<Rightarrow> False))"

section \<open>Lexical normalisation\<close>

text \<open>The canonical form: the root followed by names only.\<close>

definition all_normal :: "path \<Rightarrow> bool" where
  "all_normal cs \<longleftrightarrow> (\<exists>ns. cs = RootDir # map Normal ns)"

text \<open>
  The shape of a normalised absolute path: the root, then what climbs above it, then names.
  \<open>lex_inv\<close> is that shape for the reversed output of the loop.
\<close>

definition climbs_first :: "path \<Rightarrow> bool" where
  "climbs_first cs \<longleftrightarrow> (\<exists>k ns. cs = RootDir # replicate k ParentDir @ map Normal ns)"

definition lex_inv :: "path \<Rightarrow> bool" where
  "lex_inv out \<longleftrightarrow> (\<exists>ns k. out = map Normal ns @ replicate k ParentDir @ [RootDir])"

lemma lex_inv_Root: "lex_inv [RootDir]"
  unfolding lex_inv_def by (rule exI [of _ "[]"], rule exI [of _ 0]) simp

lemma lex_inv_Normal: "lex_inv out \<Longrightarrow> lex_inv (Normal n # out)"
  unfolding lex_inv_def by (metis append_Cons list.simps(9))

lemma lex_inv_pop:
  assumes "lex_inv (Normal n # out)"
  shows "lex_inv out"
proof -
  obtain ns k where e: "Normal n # out = map Normal ns @ replicate k ParentDir @ [RootDir]"
    using assms by (auto simp: lex_inv_def)
  then obtain ns' where "ns = n # ns'"
    by (cases ns; cases k) auto
  with e show ?thesis
    unfolding lex_inv_def by auto
qed

lemma lex_inv_climb:
  "lex_inv out \<Longrightarrow> (\<And>n out'. out \<noteq> Normal n # out') \<Longrightarrow> lex_inv (ParentDir # out)"
proof -
  assume "lex_inv out" and no: "\<And>n out'. out \<noteq> Normal n # out'"
  then obtain ns k where e: "out = map Normal ns @ replicate k ParentDir @ [RootDir]"
    by (auto simp: lex_inv_def)
  then have "ns = []"
    using no by (cases ns) auto
  with e have "ParentDir # out = map Normal [] @ replicate (Suc k) ParentDir @ [RootDir]"
    by simp
  then show ?thesis
    unfolding lex_inv_def by blast
qed

lemma lex_loop_climb:
  "(\<And>n out'. out \<noteq> Normal n # out') \<Longrightarrow>
     lex_loop out (ParentDir # cs) = lex_loop (ParentDir # out) cs"
  by (auto split: list.splits path_comp.splits)

lemma lex_loop_shape:
  "lex_inv out \<Longrightarrow> RootDir \<notin> set cs \<Longrightarrow> climbs_first (lex_loop out cs)"
proof (induction cs arbitrary: out)
  case Nil
  then obtain ns k where "out = map Normal ns @ replicate k ParentDir @ [RootDir]"
    by (auto simp: lex_inv_def)
  then have "rev out = RootDir # replicate k ParentDir @ map Normal (rev ns)"
    by (simp add: rev_map)
  then show ?case
    unfolding climbs_first_def by auto
next
  case (Cons c cs)
  show ?case
  proof (cases c)
    case ParentDir
    show ?thesis
    proof (cases "\<exists>n out'. out = Normal n # out'")
      case True
      with Cons ParentDir show ?thesis
        by (auto dest: lex_inv_pop)
    next
      case False
      then have "lex_inv (ParentDir # out)"
        using Cons.prems(1) by (auto intro: lex_inv_climb)
      with Cons False ParentDir show ?thesis
        by (simp add: lex_loop_climb del: lex_loop.simps)
    qed
  qed (use Cons in \<open>auto intro: lex_inv_Normal\<close>)
qed

lemma lexically_normalize_shape:
  "RootDir \<notin> set cs \<Longrightarrow> climbs_first (lexically_normalize (RootDir # cs))"
  unfolding lexically_normalize_def by (simp add: lex_loop_shape lex_inv_Root)

lemma lex_loop_names: "lex_loop out (map Normal ns) = rev out @ map Normal ns"
  by (induction ns arbitrary: out) simp_all

lemma lex_loop_climbs:
  "(\<And>n out'. out \<noteq> Normal n # out') \<Longrightarrow>
     lex_loop out (replicate k ParentDir @ map Normal ns) = rev out @ replicate k ParentDir @ map Normal ns"
proof (induction k arbitrary: out)
  case 0
  then show ?case
    by (simp add: lex_loop_names)
next
  case (Suc k)
  have "lex_loop out (replicate (Suc k) ParentDir @ map Normal ns)
      = lex_loop (ParentDir # out) (replicate k ParentDir @ map Normal ns)"
    using Suc.prems by (auto split: list.splits path_comp.splits)
  also have "\<dots> = rev (ParentDir # out) @ replicate k ParentDir @ map Normal ns"
    by (rule Suc.IH) simp
  finally show ?case
    by simp
qed

lemma lexically_normalize_fixpoint: "climbs_first p \<Longrightarrow> lexically_normalize p = p"
  using lex_loop_climbs [of "[RootDir]"]
  by (auto simp: climbs_first_def lexically_normalize_def)

section \<open>Resolving through the filesystem\<close>

text \<open>
  What the model relies on of \<open>std::fs::canonicalize\<close>: its answer is absolute and free of
  \<open>.\<close>, \<open>..\<close> components.
\<close>

definition canonical_fs :: "filesystem \<Rightarrow> bool" where
  "canonical_fs fs \<longleftrightarrow> (\<forall>p c. fs_canonicalize fs p = Inr c \<longrightarrow> all_normal c)"

lemma all_normal_append: "all_normal c \<Longrightarrow> all_normal (c @ map Normal ns)"
  unfolding all_normal_def by (metis append_Cons map_append)

text \<open>
  The result: the path itself when no ancestor exists, otherwise the canonical form of an
  existing ancestor followed by the rest of the names.
\<close>

definition from_ancestor :: "filesystem \<Rightarrow> path \<Rightarrow> path \<Rightarrow> bool" where
  "from_ancestor fs p r \<longleftrightarrow>
     (\<exists>anc ns c. p = anc @ map Normal ns \<and> fs_exists fs anc \<and> fs_canonicalize fs anc = Inr c
        \<and> r = c @ map Normal ns
        \<and> (\<forall>ms. ms \<noteq> [] \<and> (\<exists>t. ns = ms @ t) \<longrightarrow> \<not> fs_exists fs (anc @ map Normal ms)))"

lemma canon_loop_result:
  assumes "canon_loop fs p anc tail = Inr r" "p = anc @ map Normal (rev tail)"
    and "\<forall>ms. ms \<noteq> [] \<and> (\<exists>t. rev tail = ms @ t) \<longrightarrow> \<not> fs_exists fs (anc @ map Normal ms)"
  shows "r = p \<or> from_ancestor fs p r"
  using assms
proof (induction fs p anc tail rule: canon_loop.induct)
  case (1 fs p anc tail)
  show ?case
  proof (cases "fs_exists fs anc")
    case True
    then obtain c where "fs_canonicalize fs anc = Inr c" "r = c @ map Normal (rev tail)"
      using "1.prems"(1) by (auto simp: canon_loop.simps [of fs p anc tail] split: sum.splits)
    with True "1.prems" show ?thesis
      unfolding from_ancestor_def by blast
  next
    case False
    show ?thesis
    proof (cases "comps_file_name anc = None \<or> comps_parent anc = None")
      case True
      with False "1.prems"(1) show ?thesis
        by (auto simp: canon_loop.simps [of fs p anc tail] split: option.splits)
    next
      case cut: False
      then obtain n where anc: "anc = butlast anc @ [Normal n]" "comps_file_name anc = Some n"
        "comps_parent anc = Some (butlast anc)"
        by (auto simp: comps_file_name_def comps_parent_def split: if_splits path_comp.splits)
           (metis append_butlast_last_id)
      have rec: "canon_loop fs p (butlast anc) (tail @ [n]) = Inr r"
        using "1.prems"(1) False anc(2,3) by (simp add: canon_loop.simps [of fs p anc tail])
      have "p = butlast anc @ map Normal (rev (tail @ [n]))"
        using "1.prems"(2) anc(1) by (metis append.assoc append_Cons append_Nil list.simps(9) rev.simps(2) rev_append rev_rev_ident)
      moreover have "\<forall>ms. ms \<noteq> [] \<and> (\<exists>t. rev (tail @ [n]) = ms @ t) \<longrightarrow>
          \<not> fs_exists fs (butlast anc @ map Normal ms)"
      proof (intro allI impI)
        fix ms assume "ms \<noteq> [] \<and> (\<exists>t. rev (tail @ [n]) = ms @ t)"
        then obtain ms' t where ms: "ms = n # ms'" "rev tail = ms' @ t"
          by (cases ms) auto
        have eq: "butlast anc @ map Normal ms = anc @ map Normal ms'"
          using anc(1) ms(1) by (metis append.assoc append_Cons append_Nil list.simps(9))
        show "\<not> fs_exists fs (butlast anc @ map Normal ms)"
          unfolding eq using False "1.prems"(3) ms(2) by (cases "ms' = []") auto
      qed
      ultimately show ?thesis
        using "1.IH" [OF False _ anc(2) anc(3)] rec by blast
    qed
  qed
qed

lemma canonicalize_existing_prefix_result:
  "canonicalize_existing_prefix fs p = Inr r \<Longrightarrow> r = p \<or> from_ancestor fs p r"
  unfolding canonicalize_existing_prefix_def by (erule canon_loop_result) auto

lemma canonicalize_existing:
  "fs_exists fs p \<Longrightarrow> canonicalize_existing_prefix fs p = fs_canonicalize fs p"
  by (simp add: canonicalize_existing_prefix_def canon_loop.simps [of fs p p]
      split: sum.splits)

lemma from_ancestor_normal: "canonical_fs fs \<Longrightarrow> from_ancestor fs p r \<Longrightarrow> all_normal r"
  by (auto simp: from_ancestor_def canonical_fs_def intro: all_normal_append)

lemma joined_shape:
  assumes "all_normal r"
  shows "\<exists>cs. path_join r (components s) = RootDir # cs \<and> RootDir \<notin> set cs"
proof (cases "is_absolute (components s)")
  case True
  then obtain cs where cs: "components s = RootDir # cs"
    by (auto simp: is_absolute_def split: list.splits)
  then show ?thesis
    using True components_root_first [of s] by (auto simp: path_join_def)
next
  case False
  then have "RootDir \<notin> set (components s)"
    using components_root_first [of s] by blast
  with False assms show ?thesis
    by (auto simp: path_join_def all_normal_def)
qed

lemma lexical_shape:
  "all_normal (root ws) \<Longrightarrow>
     climbs_first (lexically_normalize (path_join (root ws) (components s)))"
  using joined_shape [of "root ws" s] lexically_normalize_shape by auto

lemma climbs_under_root:
  assumes "climbs_first p" "path_starts_with p r" "all_normal r" "r \<noteq> [RootDir]"
  shows "all_normal p"
proof -
  obtain k ns where p: "p = RootDir # replicate k ParentDir @ map Normal ns"
    using assms(1) by (auto simp: climbs_first_def)
  obtain m ms where r: "r = RootDir # Normal m # map Normal ms"
    using assms(3,4) by (auto simp: all_normal_def) (metis list.exhaust list.simps(8,9))
  have "k = 0"
    using assms(2) p r by (cases k) auto
  with p show ?thesis
    by (auto simp: all_normal_def)
qed

lemma normalize_normal:
  assumes "canonical_fs fs" "all_normal (root ws)" "root ws \<noteq> [RootDir]"
    and "normalize fs ws s = Inr r" "path_starts_with r (root ws)"
  shows "all_normal r"
proof -
  let ?l = "lexically_normalize (path_join (root ws) (components s))"
  have "canonicalize_existing_prefix fs ?l = Inr r"
    using assms(4) by (simp add: normalize_def Let_def split: sum.splits)
  then consider "r = ?l" | "from_ancestor fs ?l r"
    using canonicalize_existing_prefix_result by blast
  then show ?thesis
  proof cases
    case 1
    with lexical_shape [OF assms(2), of s] assms(2,3,5) show ?thesis
      using climbs_under_root by simp
  next
    case 2
    with assms(1) show ?thesis
      by (rule from_ancestor_normal)
  qed
qed

lemma resolve_Inr:
  "resolve fs ws s = Inr r \<longleftrightarrow> normalize fs ws s = Inr r \<and> path_starts_with r (root ws)"
  by (auto simp: resolve_def split: sum.splits if_splits)

lemma contains_iff: "contains fs ws s \<longleftrightarrow> (\<exists>r. resolve fs ws s = Inr r)"
  by (auto simp: contains_def resolve_Inr split: sum.splits)

lemma read_scoped_iff:
  "read_scoped fs ws s \<longleftrightarrow>
     contains fs ws s
     \<or> (\<exists>r. normalize fs ws s = Inr r \<and> (\<exists>g \<in> set (read_roots ws). path_starts_with r g))"
  by (auto simp: read_scoped_def contains_def list_ex_iff split: sum.splits)

lemma normalize_cong: "root ws' = root ws \<Longrightarrow> normalize fs ws' s = normalize fs ws s"
  by (simp add: normalize_def)

lemma workspace_new_root: "canonical_fs fs \<Longrightarrow> workspace_new fs r = Inr ws \<Longrightarrow> all_normal (root ws)"
  by (auto simp: workspace_new_def canonical_fs_def split: sum.splits)

end
