(* ===== verification/Sandbox_Spec.thy ===== *)
theory Sandbox_Spec
  imports Permission Workspace_Path
begin

text \<open>
  The contract of the sandbox crate: what the permission engine can never answer, how its
  profiles compare, which commands run unasked, and what a resolved path guarantees.
\<close>

section \<open>The permission engine\<close>

definition demo_lease :: "bool \<Rightarrow> lease_state" where
  "demo_lease b = (if b then LeaseOwner else LeaseDenied ''held elsewhere'')"

definition demo_request :: "effect \<Rightarrow> interactivity \<Rightarrow> bool \<Rightarrow> permission_request" where
  "demo_request eff i tr =
     \<lparr>tool = ''t'', req_effect = eff, interactivity_of = i, trusted = tr, detail = []\<rparr>"

text \<open>
  The profiles are ordered: for the same request, session flags and lease, an engine under
  read-only never answers more permissively than under default, default never more than
  relaxed, relaxed never more than bypass, bypass never more than unrestricted.
\<close>

theorem profiles_are_ordered:
  assumes "profile_rank p \<le> profile_rank q"
  shows "decide cur (with_profile e p al) r \<le> decide cur (with_profile e q al) r"
proof (cases "\<exists>l why. lease e = Some l \<and> cur l = LeaseDenied why")
  case True
  then have "resolved cur (with_profile e p al) = resolved cur (with_profile e q al)"
    by (auto simp: resolved_def with_profile_def)
  then show ?thesis
    by (simp add: decide_eq)
next
  case False
  define b where "b = (with_profile e p al)\<lparr>lease := None\<rparr>"
  have r: "resolved cur (with_profile e x al) = at_profile b x" for x
    using False
    by (auto simp: resolved_def with_profile_def at_profile_def b_def
        split: option.splits lease_state.splits)
  have le: "profile_decision (at_profile b p) r \<le> profile_decision (at_profile b q) r"
    using assms by (rule profile_mono)
  show ?thesis
    using le inc.mono [OF le, of "interactivity_of r"] profile_decision_headless [of r "at_profile b p"]
    by (simp add: decide_eq r)
qed

theorem profiles_are_ordered_witness:
  "decide demo_lease (with_profile (engine_new Default []) Default [])
       (demo_request (RunCommand Network) NonInteractive True) = Deny
   \<and> decide demo_lease (with_profile (engine_new Default []) Default [])
       (demo_request (RunCommand Network) NonInteractive True)
     \<le> decide demo_lease (with_profile (engine_new Default []) Bypass [])
       (demo_request (RunCommand Network) NonInteractive True)"
proof -
  have "decide demo_lease (with_profile (engine_new Default []) Default [])
      (demo_request (RunCommand Network) NonInteractive True) = Deny"
    by code_simp
  then show ?thesis
    using profiles_are_ordered [of Default Bypass demo_lease "engine_new Default []" "[]"
        "demo_request (RunCommand Network) NonInteractive True"] by simp
qed

text \<open>
  C23. Incognito: in an incognito session no effect that may leave a new file behind is allowed
  silently, whatever the profile, the allowlist, the exact command list, the trust or the
  lease.
\<close>

theorem incognito_never_creates_silently:
  assumes "incognito e" "may_create_files (req_effect r)"
  shows "decide_command cur e r cmd \<noteq> Allow"
  using assms inc.never_allows by (simp add: decide_command_def Let_def)

theorem incognito_never_creates_silently_witness:
  "decide_command demo_lease (with_incognito (engine_new Unrestricted []) True)
     (demo_request (WritePath True False False) Interactive True) None \<noteq> Allow"
  by (rule incognito_never_creates_silently)
    (simp_all add: with_incognito_def engine_new_def demo_request_def)

text \<open>
  A session that cannot prompt is never left hanging on a prompt: without a user the answer
  is always to allow or to deny.
\<close>

theorem headless_never_asks:
  assumes "interactivity_of r = NonInteractive"
  shows "decide_command cur e r cmd \<noteq> Ask"
  using assms
  by (simp add: decide_command_def Let_def inc.no_ask_headless untrusted_floor_no_ask
      profile_decision_headless)

theorem headless_never_asks_witness:
  "decide_command demo_lease (engine_new Default [])
     (demo_request UnscopedCommand NonInteractive False) None \<noteq> Ask"
  by (rule headless_never_asks) (simp add: demo_request_def)

text \<open>
  C24. An untrusted workspace: under the default, relaxed and read-only profiles, and under any
  profile while the lease is denied, no effect at all is allowed silently, not even a command
  on the exact list.
\<close>

theorem untrusted_never_silent:
  assumes "\<not> trusted r"
    and "profile_of e \<in> {Default, Relaxed, ReadOnlyProfile}
      \<or> (\<exists>l why. lease e = Some l \<and> cur l = LeaseDenied why)"
  shows "decide_command cur e r cmd \<noteq> Allow"
proof -
  have p: "profile_of (resolved cur e) \<in> {Default, Relaxed, ReadOnlyProfile}"
    using assms(2) by (auto simp: resolved_def split: option.splits lease_state.splits)
  have "profile_decision (resolved cur e) r \<noteq> Allow"
    using p assms(1) unt.never_allows by (auto simp: profile_decision_def Let_def)
  then show ?thesis
    using assms(1) inc.never_allows unt.never_allows
    by (simp add: decide_command_def Let_def)
qed

theorem untrusted_never_silent_witness:
  "decide_command demo_lease (with_lease (engine_new Bypass []) False)
     (demo_request (ReadPath True False) Interactive False) None \<noteq> Allow"
  by (rule untrusted_never_silent)
    (auto simp: demo_request_def with_lease_def engine_new_def demo_lease_def)

text \<open>Whether the exact command list names the command.\<close>

definition on_exact_list :: "'l permission_engine \<Rightarrow> exact_command option \<Rightarrow> bool" where
  "on_exact_list e cmd \<longleftrightarrow>
     (case cmd of None \<Rightarrow> False | Some c \<Rightarrow> list_ex (\<lambda>entry. allowed_matches entry c) (allowed_commands e))"

text \<open>
  C25. Read-only means read-only: under the read-only profile, with or without a lease, and under every profile while the
  lease is denied, every write inside or outside the workspace and every scratch write is denied
  outright, whatever is listed; and so is a command above read-only or one with uninspectable targets, unless the
  exact command list names that very command.
\<close>

theorem read_only_denies_every_write:
  assumes ro: "profile_of e = ReadOnlyProfile \<or> (\<exists>l why. lease e = Some l \<and> cur l = LeaseDenied why)"
    and eff: "case req_effect r of WritePath _ _ _ \<Rightarrow> True | ScratchPath w _ _ \<Rightarrow> w
      | UnscopedCommand \<Rightarrow> \<not> on_exact_list e cmd | RunCommand class \<Rightarrow> class \<noteq> ReadOnly \<and> \<not> on_exact_list e cmd | _ \<Rightarrow> False"
  shows "decide_command cur e r cmd = Deny"
proof -
  have p: "profile_of (resolved cur e) = ReadOnlyProfile"
    using ro by (auto simp: resolved_def split: option.splits lease_state.splits)
  have "\<not> vetted cur (resolved cur e) (req_effect r) cmd"
  proof
    assume v: "vetted cur (resolved cur e) (req_effect r) cmd"
    then have "on_exact_list e cmd"
      using vetted_listed [of cur "resolved cur e" "req_effect r" cmd] by (auto simp: on_exact_list_def list_ex_iff)
    with v eff show False by (cases "req_effect r") (auto simp: vetted_def split: option.splits)
  qed
  moreover have "read_only_decision r = Deny"
    using eff by (auto simp: read_only_decision_def split: effect.splits)
  then have "profile_decision (resolved cur e) r = Deny"
    using p untrusted_floor_le [of Deny] by (simp add: profile_decision_def Let_def)
  ultimately show ?thesis
    using inc.tightens [of Deny] by (simp add: decide_command_def Let_def)
qed

theorem read_only_denies_every_write_witness:
  "decide_command demo_lease (with_lease (engine_new Unrestricted []) False)
     (demo_request (WritePath True True False) Interactive True) None = Deny"
  by (rule read_only_denies_every_write)
    (auto simp: demo_request_def with_lease_def engine_new_def demo_lease_def)

text \<open>
  The workspace boundary holds under bypass: a path outside the workspace and a secret
  scratch path are never silently allowed, and code with uninspectable targets only when the
  exact command list names it.
\<close>

theorem bypass_keeps_the_boundary:
  assumes "profile_of e = Bypass"
    and "is_outside_workspace (req_effect r) \<or> (\<exists>w ow. req_effect r = ScratchPath w ow True)
      \<or> req_effect r = UnscopedCommand
        \<and> (\<forall>c entry. cmd = Some c \<longrightarrow> entry \<in> set (allowed_commands e) \<longrightarrow> \<not> allowed_matches entry c)"
  shows "decide_command cur e r cmd \<noteq> Allow"
proof -
  have g: "bypass_gated (req_effect r)"
    using assms(2) by (cases "req_effect r") auto
  have p: "profile_of (resolved cur e) \<in> {Bypass, ReadOnlyProfile}"
    using assms(1) by (auto simp: resolved_def split: option.splits lease_state.splits)
  have "profile_decision (at_profile (resolved cur e) x) r \<noteq> Allow"
    if "x \<in> {Bypass, ReadOnlyProfile}" for x
    using that g profile_mono [of ReadOnlyProfile Bypass "resolved cur e" r]
    by (auto simp: profile_decision_def at_profile_def Let_def)
  from this [OF p] have "profile_decision (resolved cur e) r \<noteq> Allow"
    by (simp add: at_profile_def)
  moreover have "\<not> vetted cur (resolved cur e) (req_effect r) cmd"
    using vetted_listed [of cur "resolved cur e" "req_effect r" cmd] assms(2) by auto
  ultimately show ?thesis
    using inc.never_allows by (simp add: decide_command_def Let_def)
qed

theorem bypass_keeps_the_boundary_witness:
  "decide_command demo_lease (engine_new Bypass [])
     (demo_request (WritePath False True False) NonInteractive True) None \<noteq> Allow"
  by (rule bypass_keeps_the_boundary) (simp_all add: demo_request_def engine_new_def)

text \<open>
  The relaxed allowlist is no standing grant: for a destructive, privileged, unknown or
  external-write command, for a secret-like path, for a path outside the workspace and for
  uninspectable code it changes nothing, the answer is the one of the default profile.
\<close>

theorem allowlist_never_lifts_the_risk_floor:
  assumes "case req_effect r of
      RunCommand class \<Rightarrow> class \<in> {Destructive, Privileged, Unknown, ExternalWrite}
    | ReadPath inside secret \<Rightarrow> \<not> inside \<or> secret
    | WritePath inside _ secret \<Rightarrow> \<not> inside \<or> secret
    | ScratchPath _ _ secret \<Rightarrow> secret
    | UnscopedCommand \<Rightarrow> True
    | NetworkEffect \<Rightarrow> False"
  shows "decide cur (with_profile e Relaxed al) r = decide cur (with_profile e Default []) r"
proof -
  have "\<not> allowlist_may_relax (req_effect r)"
    using assms by (cases "req_effect r") auto
  then show ?thesis
    by (simp add: decide_eq resolved_def with_profile_def profile_decision_def Let_def
        read_only_decision_def split: option.splits lease_state.splits)
qed

theorem allowlist_never_lifts_the_risk_floor_witness:
  "decide demo_lease (with_profile (engine_new Default []) Relaxed [''t''])
     (demo_request (RunCommand Destructive) Interactive True) = Ask"
proof -
  have "decide demo_lease (with_profile (engine_new Default []) Default [])
      (demo_request (RunCommand Destructive) Interactive True) = Ask"
    by code_simp
  then show ?thesis
    using allowlist_never_lifts_the_risk_floor
      [of "demo_request (RunCommand Destructive) Interactive True" demo_lease
        "engine_new Default []" "[''t'']"] by (simp add: demo_request_def)
qed

text \<open>
  A profile swap cannot lift a session's floors, and a session being handed over cannot be
  swapped at all: through a gated handle the engine changes only while the gate is owned, and
  whatever profile and allowlist the swap names, an incognito session stays gated for new
  files and a denied lease keeps every write denied.
\<close>

theorem swaps_keep_the_floors:
  assumes "handle_gated h" "handle_set g h (with_profile (handle_snapshot h) p al) = (h', ok)"
  shows "(ok \<longleftrightarrow> g = Owned) \<and> (\<not> ok \<longrightarrow> h' = h)
    \<and> (incognito (handle_snapshot h) \<and> may_create_files (req_effect r) \<longrightarrow>
         decide_command cur (handle_snapshot h') r cmd \<noteq> Allow)
    \<and> (lease (handle_snapshot h) = Some l \<and> cur l = LeaseDenied why
         \<and> req_effect r = WritePath i w s \<longrightarrow>
         decide_command cur (handle_snapshot h') r cmd = Deny)"
proof -
  have g: "gate_admit g = None \<longleftrightarrow> g \<noteq> Owned"
    using gate_admit_iff [of g] by blast
  have ok: "ok \<longleftrightarrow> g = Owned" "\<not> ok \<longrightarrow> h' = h"
    and e: "incognito (handle_snapshot h') = incognito (handle_snapshot h)"
      "lease (handle_snapshot h') = lease (handle_snapshot h)"
    using assms by (auto simp: handle_set_def handle_snapshot_def g split: if_splits)
  have "decide_command cur (handle_snapshot h') r cmd \<noteq> Allow"
    if "incognito (handle_snapshot h)" "may_create_files (req_effect r)"
    using that e(1) inc.never_allows by (simp add: decide_command_def Let_def)
  moreover have "decide_command cur (handle_snapshot h') r cmd = Deny"
    if d: "lease (handle_snapshot h) = Some l" "cur l = LeaseDenied why"
      "req_effect r = WritePath i w s"
  proof -
    have "profile_of (resolved cur (handle_snapshot h')) = ReadOnlyProfile"
      using d e(2) by (simp add: resolved_denied)
    then have "profile_decision (resolved cur (handle_snapshot h')) r = Deny"
      using d(3) untrusted_floor_le [of Deny]
      by (simp add: profile_decision_def read_only_decision_def Let_def)
    then show ?thesis
      using d(3) inc.tightens [of Deny] vetted_listed [of cur _ "req_effect r" cmd]
      by (auto simp: decide_command_def Let_def)
  qed
  ultimately show ?thesis
    using ok by blast
qed

theorem swaps_keep_the_floors_witness:
  "decide_command demo_lease
     (handle_snapshot (fst (handle_set Owned (handle_gate (handle_new (with_incognito (engine_new Default []) True)))
        (with_profile (with_incognito (engine_new Default []) True) Unrestricted []))))
     (demo_request (WritePath True False False) Interactive True) None \<noteq> Allow"
proof -
  let ?h = "handle_gate (handle_new (with_incognito (engine_new Default []) True))
    :: bool engine_handle"
  have s: "handle_snapshot ?h = with_incognito (engine_new Default []) True"
    by (simp add: handle_snapshot_def handle_gate_def handle_new_def)
  have "handle_gated ?h"
    by (simp add: handle_gate_def)
  from swaps_keep_the_floors [OF this prod.collapse [symmetric], of Owned Unrestricted "[]"
      "demo_request (WritePath True False False) Interactive True" demo_lease None] show ?thesis
    by (simp add: s) (simp add: demo_request_def with_incognito_def)
qed

text \<open>
  The exact command list can make the unrestricted profile stricter: in an untrusted
  workspace an uninspectable command that is on the list asks, or is denied without a user,
  while the same command off the list is allowed.
\<close>

theorem exact_list_tightens_unrestricted:
  assumes "profile_of e = Unrestricted" "lease e = None" "\<not> incognito e" "\<not> trusted r"
    and "req_effect r = UnscopedCommand"
  shows "decide_command cur e r (Some c) =
    (if \<exists>entry \<in> set (allowed_commands e). allowed_matches entry c
     then ask_or_deny (interactivity_of r) else Allow)"
  using assms
  by (simp add: decide_command_def vetted_def profile_decision_def untrusted_floor_def list_ex_iff)

theorem exact_list_tightens_unrestricted_witness:
  "decide_command demo_lease
     (with_allowed_commands (engine_new Unrestricted [])
        [\<lparr>allowed_program = ''make'', args_prefix = []\<rparr>])
     (demo_request UnscopedCommand NonInteractive False)
     (Some \<lparr>exact_program = ''make'', exact_args = [''all'']\<rparr>) = Deny
   \<and> decide_command demo_lease (engine_new Unrestricted [])
     (demo_request UnscopedCommand NonInteractive False)
     (Some \<lparr>exact_program = ''make'', exact_args = [''all'']\<rparr>) = Allow"
  by (simp add: exact_list_tightens_unrestricted engine_new_def with_allowed_commands_def
      demo_request_def allowed_matches_def)

section \<open>Commands\<close>

text \<open>
  What runs unasked on POSIX: when the default profile allows a classified command without
  a prompt, its program is a known read-only tool, or git with a read-only subcommand, or sed
  without an in-place argument; it is never a shell or a wrapper, never a privilege escalation
  and never a deletion tool.
\<close>

theorem silent_posix_commands:
  assumes "req_effect r = RunCommand (classify_posix program args)"
    and "decide cur (with_profile e Default []) r = Allow"
  shows "(program_stem program \<in> set read_only_stems
      \<or> program_stem program = ''git'' \<and> git_sub (args_lower args) \<in> set git_read_subs
      \<or> program_stem program = ''sed'' \<and> \<not> sed_in_place (args_lower args))
    \<and> program_stem program \<notin> set wrapper_stems \<union> set destructive_stems
        \<union> {''sudo'', ''doas'', ''su'', ''pkexec''}"
proof -
  have "classify_posix program args = ReadOnly"
    using assms inc.tightens
    by (auto simp: decide_eq profile_decision_def read_only_decision_def base_decision_def
        command_decision_def Let_def resolved_def with_profile_def untrusted_floor_def
        incognito_floor_def
        split: option.splits lease_state.splits if_splits command_class.splits decision.splits)
  then show ?thesis
    using posix_ReadOnly [of program args] posix_privileged [of program args] by auto
qed

theorem silent_posix_commands_witness:
  "decide demo_lease (with_profile (engine_new Default []) Default [])
     (demo_request (RunCommand (classify_posix ''/usr/bin/grep'' [''-R'', ''x''])) NonInteractive True) = Allow
   \<and> program_stem ''/usr/bin/grep'' \<notin> set wrapper_stems"
proof -
  let ?r = "demo_request (RunCommand (classify_posix ''/usr/bin/grep'' [''-R'', ''x''])) NonInteractive True"
  have a: "decide demo_lease (with_profile (engine_new Default []) Default []) ?r = Allow"
    by code_simp
  have "req_effect ?r = RunCommand (classify_posix ''/usr/bin/grep'' [''-R'', ''x''])"
    by (simp add: demo_request_def)
  from silent_posix_commands [OF this a] a show ?thesis
    by simp
qed

text \<open>
  Windows shells are never waved through on their looks: a \<open>cmd\<close> or PowerShell invocation
  with an inline command or script is unknown, and one whose arguments redirect output is
  never read-only.
\<close>

theorem windows_shells_are_not_read_only:
  assumes "program_stem program \<in> {''cmd'', ''powershell'', ''pwsh''}"
  shows "(carries_inline_command (program_stem program) (args_lower args)
      \<longrightarrow> classify_windows program args = Unknown)
    \<and> ((\<exists>a \<in> set args. CHR ''>'' \<in> set a) \<longrightarrow> classify_windows program args \<noteq> ReadOnly)"
  using redirection_floor_redirect [of args] by (simp add: windows_shell [OF assms])

theorem windows_shells_are_not_read_only_witness:
  "classify_windows ''CMD.exe'' [''/C'', ''echo x > f''] = Unknown"
proof -
  have s: "program_stem ''CMD.exe'' = ''cmd''"
    and c: "carries_inline_command (program_stem ''CMD.exe'') (args_lower [''/C'', ''echo x > f''])"
    by code_simp+
  from windows_shells_are_not_read_only [of "''CMD.exe''" "[''/C'', ''echo x > f'']"] s c
  show ?thesis
    by simp
qed

text \<open>
  An in-place edit that names its backup suffix is classified read-only: the check on
  \<open>sed\<close> compares whole arguments, so both spellings of the suffix slip past it.
\<close>

lemma sed_with_suffix_is_read_only:
  "classify_posix ''sed'' [''-i.bak'', ''s/a/b/'', ''f''] = ReadOnly
   \<and> classify_posix ''sed'' [''--in-place=.bak'', ''s/a/b/'', ''f''] = ReadOnly
   \<and> classify_posix ''sed'' [''-i'', ''s/a/b/'', ''f''] = ProjectWrite"
  by code_simp

section \<open>Paths\<close>

text \<open>
  C22. Containment: with a \<open>canonicalize\<close> that answers absolute paths without dots, every path
  that \<open>resolve\<close> hands out for a workspace below the filesystem root is the workspace root
  followed by plain names, however the candidate was spelled: no \<open>..\<close>, no \<open>.\<close>, no second
  root. When the candidate exists, it is the canonical target, so a symbolic link that leaves
  the workspace is refused.
\<close>

theorem resolve_stays_inside:
  assumes "canonical_fs fs" "workspace_new fs dir = Inr ws" "root ws \<noteq> [RootDir]"
    and "resolve fs ws candidate = Inr r"
  shows "(\<exists>names. r = root ws @ map Normal names)
    \<and> (fs_exists fs (lexically_normalize (path_join (root ws) (components candidate))) \<longrightarrow>
       fs_canonicalize fs (lexically_normalize (path_join (root ws) (components candidate))) = Inr r)"
proof -
  have rt: "all_normal (root ws)"
    using assms(1,2) by (rule workspace_new_root)
  have n: "normalize fs ws candidate = Inr r" "path_starts_with r (root ws)"
    using assms(4) by (simp_all add: resolve_Inr)
  have "all_normal r"
    by (rule normalize_normal [OF assms(1) rt assms(3) n])
  with rt n(2) have "\<exists>names. r = root ws @ map Normal names"
    by (auto simp: all_normal_def path_starts_with_iff) (metis map_eq_append_conv)
  moreover have "fs_canonicalize fs (lexically_normalize (path_join (root ws) (components candidate))) = Inr r"
    if "fs_exists fs (lexically_normalize (path_join (root ws) (components candidate)))"
    using n(1) canonicalize_existing [OF that]
    by (simp add: normalize_def Let_def split: sum.splits)
  ultimately show ?thesis
    by blast
qed

text \<open>A filesystem with one symbolic link out of the workspace.\<close>

definition demo_fs :: filesystem where
  "demo_fs =
     \<lparr>fs_exists = (\<lambda>p. p \<in> {[RootDir], [RootDir, Normal ''ws''], [RootDir, Normal ''etc''],
                          [RootDir, Normal ''ws'', Normal ''link'']}),
      fs_canonicalize =
        (\<lambda>p. if p = [RootDir, Normal ''ws'', Normal ''link''] then Inr [RootDir, Normal ''etc'']
             else if p = [RootDir] \<or> p = [RootDir, Normal ''ws''] \<or> p = [RootDir, Normal ''etc'']
             then Inr p else Inl ''no such file''),
      fs_temp_dir = [RootDir], fs_tempdir_in = (\<lambda>_ _. Inl ''refused'')\<rparr>"

lemma demo_fs_canonical: "canonical_fs demo_fs"
proof -
  have "all_normal (RootDir # map Normal ns)" for ns
    by (auto simp: all_normal_def)
  from this [of "[]"] this [of "[''ws'']"] this [of "[''etc'']"] show ?thesis
    by (auto simp: canonical_fs_def demo_fs_def split: if_splits)
qed

theorem resolve_stays_inside_witness:
  "\<exists>ws names. workspace_new demo_fs [RootDir, Normal ''ws''] = Inr ws
     \<and> resolve demo_fs ws ''./a/../b'' = Inr (root ws @ map Normal names)"
proof -
  define ws where "ws = \<lparr>root = [RootDir, Normal ''ws''], read_roots = [],
    scratch_policy = OsTemp, scratch = None\<rparr>"
  have w: "workspace_new demo_fs [RootDir, Normal ''ws''] = Inr ws"
    by (simp add: workspace_new_def demo_fs_def ws_def)
  have r: "resolve demo_fs ws ''./a/../b'' = Inr [RootDir, Normal ''ws'', Normal ''b'']"
    unfolding ws_def by code_simp
  have "root ws \<noteq> [RootDir]"
    by (simp add: ws_def)
  from resolve_stays_inside [OF demo_fs_canonical w this r] w r show ?thesis
    by metis
qed

text \<open>
  Granting a read root widens reading and nothing else: afterwards \<open>resolve\<close> and \<open>contains\<close>
  answer as before on every candidate, whatever was readable stays readable, and what becomes
  readable lies under the granted directory's canonical form.
\<close>

theorem read_roots_only_widen_reading:
  assumes "add_read_root fs ws g = (ws', res)"
  shows "resolve fs ws' s = resolve fs ws s \<and> contains fs ws' s = contains fs ws s
    \<and> (read_scoped fs ws s \<longrightarrow> read_scoped fs ws' s)
    \<and> (read_scoped fs ws' s \<and> \<not> read_scoped fs ws s \<longrightarrow>
         (\<exists>c r. res = Inr () \<and> fs_canonicalize fs g = Inr c \<and> normalize fs ws s = Inr r
            \<and> path_starts_with r c))"
proof -
  have rt: "root ws' = root ws"
    using assms by (auto simp: add_read_root_def split: sum.splits)
  then have n: "normalize fs ws' s = normalize fs ws s"
    by (rule normalize_cong)
  have res: "resolve fs ws' s = resolve fs ws s"
    unfolding resolve_def n rt ..
  moreover from this have "contains fs ws' s = contains fs ws s"
    by (simp add: contains_iff)
  ultimately show ?thesis
    using assms unfolding read_scoped_iff n
    by (auto simp: add_read_root_def split: sum.splits)
qed

theorem read_roots_only_widen_reading_witness:
  "\<exists>ws' res. add_read_root demo_fs \<lparr>root = [RootDir, Normal ''ws''], read_roots = [],
       scratch_policy = OsTemp, scratch = None\<rparr> [RootDir, Normal ''etc''] = (ws', res)
     \<and> read_scoped demo_fs ws' ''/etc/hosts'' \<and> \<not> contains demo_fs ws' ''/etc/hosts''"
proof -
  let ?ws = "\<lparr>root = [RootDir, Normal ''ws''], read_roots = [], scratch_policy = OsTemp,
    scratch = None\<rparr>"
  let ?a = "add_read_root demo_fs ?ws [RootDir, Normal ''etc'']"
  have r: "read_scoped demo_fs (fst ?a) ''/etc/hosts''"
    and c: "\<not> contains demo_fs ?ws ''/etc/hosts''"
    by code_simp+
  from read_roots_only_widen_reading [OF prod.collapse [symmetric],
      of demo_fs ?ws "[RootDir, Normal ''etc'']" "''/etc/hosts''"] c
  have "\<not> contains demo_fs (fst ?a) ''/etc/hosts''"
    by simp
  with r show ?thesis
    by (metis prod.collapse)
qed

text \<open>
  A path that runs through a well-known credential directory is secret-like, wherever the
  directory appears, in whatever case and with whichever slashes it is written.
\<close>

theorem credential_directories_are_secret:
  assumes "to_ascii_lowercase (replace_char (CHR 0x5C) (CHR ''/'') dir)
      \<in> {''.aws/'', ''.ssh/'', ''.gnupg/'', ''.kube/'', ''.docker/config.json''}"
  shows "is_secret_like (before @ dir @ after)"
  using secret_dir_anywhere [of _ dir before after] assms by (auto simp: SECRET_DIRS_def lossy_path_def)

theorem credential_directories_are_secret_witness:
  "is_secret_like (''C:/u/'' @ (''.SSH'' @ [CHR 0x5C]) @ ''known_hosts'')"
proof -
  have "to_ascii_lowercase (replace_char (CHR 0x5C) (CHR ''/'') (''.SSH'' @ [CHR 0x5C])) = ''.ssh/''"
    by code_simp
  then show ?thesis
    by (intro credential_directories_are_secret) simp
qed

end
