(* ===== verification/Quota.thy ===== *)
theory Quota
  imports Prelude
begin

text \<open>
  \<^verbatim>\<open>crates/localpilot-quota/src/lib.rs\<close>: the wait window after a provider limit, the record of a
  paused run, and the gates in front of a resume; with the pause of
  \<^verbatim>\<open>crates/localpilot-harness/src/resume.rs\<close> and the wait loop of
  \<^verbatim>\<open>crates/localpilot-cli/src/harness_cmd.rs\<close>. A \<open>Duration\<close> is its number of nanoseconds. The
  clock is an argument: \<open>now\<close> in Unix seconds and \<open>nanos\<close>, the sub-second part read for the
  jitter.
\<close>

section \<open>Durations\<close>

type_synonym duration = nat

definition NANOS_PER_SEC :: nat where "NANOS_PER_SEC = 1000000000"

definition from_secs :: "u64 \<Rightarrow> duration" where
  "from_secs s = unat s * NANOS_PER_SEC"

definition as_secs :: "duration \<Rightarrow> u64" where
  "as_secs d = of_nat (d div NANOS_PER_SEC)"

definition u64_saturating_sub :: "u64 \<Rightarrow> u64 \<Rightarrow> u64" where
  "u64_saturating_sub a b = (if b \<le> a then a - b else 0)"

definition u32_saturating_add :: "u32 \<Rightarrow> u32 \<Rightarrow> u32" where
  "u32_saturating_add a b = (if unat a + unat b < 2 ^ 32 then a + b else - 1)"

text \<open>
  \<open>half.mul_f64(f)\<close> for \<open>f = k / 65536\<close>: the product is exact in \<open>f64\<close> for the halves that
  occur (7.5 to 450 seconds), so only the conversion to nanoseconds rounds, to the nearest and
  to even on a tie.
\<close>

definition round_half_even :: "nat \<Rightarrow> nat \<Rightarrow> nat" where
  "round_half_even n d =
     (let q = n div d; r = n mod d
      in if 2 * r < d then q else if d < 2 * r then q + 1 else if even q then q else q + 1)"

section \<open>The wait window\<close>

record quota_info =
  retry_after :: "duration option"
  info_reset_at :: "u64 option"
  limit_kind :: "string option"
  info_retryable :: bool
  raw_provider_code :: "string option"

definition quota_info_default :: quota_info where
  "quota_info_default =
     \<lparr>retry_after = None, info_reset_at = None, limit_kind = None, info_retryable = False,
      raw_provider_code = None\<rparr>"

record quota_window =
  wait :: duration
  reset_at :: "u64 option"
  retryable :: bool
  window_reason :: string

definition MIN_BACKOFF :: duration where "MIN_BACKOFF = 15 * NANOS_PER_SEC"
definition MAX_BACKOFF :: duration where "MAX_BACKOFF = 15 * 60 * NANOS_PER_SEC"

definition backoff_base :: "u32 \<Rightarrow> duration" where
  "backoff_base attempt = min (MIN_BACKOFF * 2 ^ min (unat attempt - 1) 16) MAX_BACKOFF"

text \<open>\<open>jitter_fraction\<close> in units of 1/65536.\<close>

definition jitter_fraction :: "nat \<Rightarrow> nat" where
  "jitter_fraction nanos = nanos mod 65536"

definition backoff_with_jitter :: "nat \<Rightarrow> u32 \<Rightarrow> duration" where
  "backoff_with_jitter nanos attempt =
     (let half = backoff_base attempt div 2
      in half + round_half_even (half * jitter_fraction nanos) 65536)"

definition estimate_window :: "u64 \<Rightarrow> nat \<Rightarrow> quota_info \<Rightarrow> u32 \<Rightarrow> quota_window" where
  "estimate_window now nanos info attempt =
     \<lparr>wait =
        (case retry_after info of
           Some d \<Rightarrow> d
         | None \<Rightarrow>
             (case info_reset_at info of
                Some t \<Rightarrow> from_secs (u64_saturating_sub t now)
              | None \<Rightarrow> backoff_with_jitter nanos attempt)),
      reset_at = info_reset_at info,
      retryable = info_retryable info,
      window_reason =
        (case raw_provider_code info of
           Some c \<Rightarrow> c
         | None \<Rightarrow>
             (case limit_kind info of
                Some k \<Rightarrow> k
              | None \<Rightarrow> ''provider quota or rate limit''))\<rparr>"

section \<open>The paused run\<close>

record paused_run =
  paused_at_unix :: u64
  paused_reason :: string
  resume_eligible_unix :: "u64 option"
  step_number :: nat
  provider_id :: string
  attempt :: u32

text \<open>The sum of the clock and the wait is a \<open>u64\<close> addition: a release build wraps.\<close>

definition paused_new :: "u64 \<Rightarrow> nat \<Rightarrow> string \<Rightarrow> quota_window \<Rightarrow> paused_run" where
  "paused_new now step provider w =
     \<lparr>paused_at_unix = now, paused_reason = window_reason w,
      resume_eligible_unix = Some (now + as_secs (wait w)),
      step_number = step, provider_id = provider, attempt = 1\<rparr>"

definition with_attempt :: "paused_run \<Rightarrow> u32 \<Rightarrow> paused_run" where
  "with_attempt p n = p\<lparr>attempt := max n 1\<rparr>"

text \<open>
  The pause at a step boundary after a provider error: the attempt grows from the marker of an
  earlier pause, if there is one. \<open>last_quota\<close> is the provider's metadata, when it sent any.
\<close>

definition pause_attempt :: "paused_run option \<Rightarrow> u32" where
  "pause_attempt prev =
     (case prev of None \<Rightarrow> 1 | Some p \<Rightarrow> u32_saturating_add (attempt p) 1)"

definition pause_run ::
  "u64 \<Rightarrow> nat \<Rightarrow> quota_info option \<Rightarrow> paused_run option \<Rightarrow> nat \<Rightarrow> string \<Rightarrow> paused_run" where
  "pause_run now nanos last_quota prev step provider =
     (let quota = (case last_quota of
                     Some q \<Rightarrow> q
                   | None \<Rightarrow> quota_info_default\<lparr>info_retryable := True\<rparr>);
          n = pause_attempt prev;
          w = estimate_window now nanos quota n
      in with_attempt (paused_new now step provider w) n)"

section \<open>The resume policy\<close>

datatype quota_auto_resume = AutoOff | AutoAsk | AutoRun | AutoGlobal

record quota_config =
  auto_resume :: quota_auto_resume
  max_wait_minutes :: u32
  resume_requires_clean_workspace :: bool
  resume_requires_no_pending_approval :: bool
  resume_only_at_step_boundary :: bool

definition quota_config_default :: quota_config where
  "quota_config_default =
     \<lparr>auto_resume = AutoOff, max_wait_minutes = 360, resume_requires_clean_workspace = True,
      resume_requires_no_pending_approval = True, resume_only_at_step_boundary = True\<rparr>"

datatype resume_mode = ModeOff | ModeAsk | ModeRun | ModeGlobal

fun resume_mode_of :: "quota_auto_resume \<Rightarrow> resume_mode" where
  "resume_mode_of AutoOff = ModeOff"
| "resume_mode_of AutoAsk = ModeAsk"
| "resume_mode_of AutoRun = ModeRun"
| "resume_mode_of AutoGlobal = ModeGlobal"

record resume_policy =
  resume_mode_in :: resume_mode
  max_wait :: duration
  requires_clean_workspace :: bool
  requires_no_pending_approval :: bool
  only_at_step_boundary :: bool

definition policy_of :: "quota_config \<Rightarrow> resume_policy" where
  "policy_of c =
     \<lparr>resume_mode_in = resume_mode_of (auto_resume c),
      max_wait = from_secs (ucast (max_wait_minutes c) * 60),
      requires_clean_workspace = resume_requires_clean_workspace c,
      requires_no_pending_approval = resume_requires_no_pending_approval c,
      only_at_step_boundary = resume_only_at_step_boundary c\<rparr>"

record resume_context =
  window_elapsed :: bool
  at_step_boundary :: bool
  workspace_clean :: bool
  pending_destructive_approval :: bool
  user_cancelled :: bool
  provider_identity_changed :: bool
  waited :: duration

datatype resume_decision = Resume | Wait | AskUser | BlockedBy string

definition decide_resume :: "resume_policy \<Rightarrow> resume_context \<Rightarrow> resume_decision" where
  "decide_resume p ctx =
     (if user_cancelled ctx then BlockedBy ''the run was cancelled by the user''
      else if provider_identity_changed ctx
        then BlockedBy ''the provider configuration changed during the wait''
      else if max_wait p < waited ctx then BlockedBy ''the maximum wait time was exceeded''
      else if \<not> window_elapsed ctx then Wait
      else if only_at_step_boundary p \<and> \<not> at_step_boundary ctx
        then BlockedBy ''not at a harness step boundary''
      else if requires_no_pending_approval p \<and> pending_destructive_approval ctx
        then BlockedBy ''a destructive action is pending approval''
      else if requires_clean_workspace p \<and> \<not> workspace_clean ctx
        then BlockedBy ''the workspace has unrelated uncommitted changes''
      else
        (case resume_mode_in p of
           ModeOff \<Rightarrow> BlockedBy ''auto-resume is off''
         | ModeAsk \<Rightarrow> AskUser
         | ModeRun \<Rightarrow> Resume
         | ModeGlobal \<Rightarrow> Resume))"

section \<open>The wait loop\<close>

definition WAIT_POLL_CAP_SECS :: u64 where "WAIT_POLL_CAP_SECS = 30"

definition wait_nap :: "paused_run \<Rightarrow> resume_policy \<Rightarrow> u64 \<Rightarrow> u64 \<Rightarrow> duration option" where
  "wait_nap p pol now poll_cap =
     (case resume_eligible_unix p of
        None \<Rightarrow> None
      | Some eligible \<Rightarrow>
          if eligible \<le> now then None
          else
            (let already = u64_saturating_sub now (paused_at_unix p);
                 until_max = u64_saturating_sub (as_secs (max_wait pol)) already
             in if until_max = 0 then None
                else Some (from_secs
                       (max (min (min (eligible - now) poll_cap) until_max) 1))))"

text \<open>
  One pass of the loop at \<open>now\<close>: \<open>cancelled\<close> and \<open>dirty\<close> are what the token and \<open>git status\<close>
  answer then, \<open>override\<close> the provider given on the command line. The pass reads the token twice
  with nothing in between but the clock; the model takes both answers to be the same. A token
  cancelled during the nap ends the loop there; here the next pass sees it. What follows a
  \<open>Resume\<close> (the plan check and the resumed step itself) is outside this model.
\<close>

definition wait_context ::
  "paused_run \<Rightarrow> string option \<Rightarrow> u64 \<Rightarrow> bool \<Rightarrow> bool \<Rightarrow> resume_context" where
  "wait_context p override now cancelled dirty =
     \<lparr>window_elapsed = (case resume_eligible_unix p of None \<Rightarrow> True | Some t \<Rightarrow> t \<le> now),
      at_step_boundary = True,
      workspace_clean = (\<not> dirty),
      pending_destructive_approval = False,
      user_cancelled = cancelled,
      provider_identity_changed =
        (case override of None \<Rightarrow> False | Some o' \<Rightarrow> o' \<noteq> provider_id p),
      waited = from_secs (u64_saturating_sub now (paused_at_unix p))\<rparr>"

datatype wait_poll = Cancelled | Ended resume_decision | Nap duration

definition wait_step ::
  "paused_run \<Rightarrow> resume_policy \<Rightarrow> string option \<Rightarrow> u64 \<Rightarrow> bool \<Rightarrow> bool \<Rightarrow> wait_poll" where
  "wait_step p pol override now cancelled dirty =
     (if cancelled then Cancelled
      else
        (case decide_resume pol (wait_context p override now cancelled dirty) of
           Wait \<Rightarrow>
             Nap (case wait_nap p pol now WAIT_POLL_CAP_SECS of
                    None \<Rightarrow> from_secs 1 | Some d \<Rightarrow> d)
         | d \<Rightarrow> Ended d))"

text \<open>
  The loop over the moments at which it wakes up. \<open>None\<close>: the list of wake-ups ended first.
\<close>

fun wait_loop ::
  "paused_run \<Rightarrow> resume_policy \<Rightarrow> string option \<Rightarrow> (u64 \<times> bool \<times> bool) list \<Rightarrow> wait_poll option" where
  "wait_loop p pol override [] = None"
| "wait_loop p pol override ((now, cancelled, dirty) # ts) =
     (case wait_step p pol override now cancelled dirty of
        Nap d \<Rightarrow> wait_loop p pol override ts
      | r \<Rightarrow> Some r)"

end
