(* ===== verification/Quota_Spec.thy ===== *)
theory Quota_Spec
  imports Quota
begin

text \<open>
  What the quota pause guarantees: the back-off stays in its bounds and never shrinks, a resume
  has passed every gate, and the wait loop ends.
\<close>

section \<open>The back-off\<close>

lemma round_half_even_le:
  assumes "0 < d" "n \<le> m * d"
  shows "round_half_even n d \<le> m"
proof -
  have q: "n div d \<le> m"
    using div_le_mono [OF assms(2), of d] assms(1) by simp
  have "n mod d = 0" if "n div d = m"
  proof -
    have "n = m * d + n mod d"
      using that div_mult_mod_eq [of n d] by simp
    with assms(2) show ?thesis
      by linarith
  qed
  with q assms(1) show ?thesis
    by (auto simp: round_half_even_def Let_def le_less)
qed

lemma backoff_base_bounds:
  "15 * NANOS_PER_SEC \<le> backoff_base n" "backoff_base n \<le> 900 * NANOS_PER_SEC"
  by (simp_all add: backoff_base_def MIN_BACKOFF_def MAX_BACKOFF_def NANOS_PER_SEC_def)

lemma backoff_base_mono: "a \<le> b \<Longrightarrow> backoff_base a \<le> backoff_base b"
  unfolding backoff_base_def
  by (intro min.mono mult_left_mono power_increasing diff_le_mono) (simp_all add: word_le_nat_alt)

lemma backoff_base_even: "even (backoff_base n)"
  by (simp add: backoff_base_def MIN_BACKOFF_def MAX_BACKOFF_def NANOS_PER_SEC_def min_def)

lemma backoff_bounds:
  "backoff_base n div 2 \<le> backoff_with_jitter nanos n"
  "backoff_with_jitter nanos n \<le> backoff_base n"
proof -
  have "jitter_fraction nanos \<le> 65536"
    unfolding jitter_fraction_def by (rule order.strict_implies_order, rule mod_less_divisor) simp
  then have "round_half_even (backoff_base n div 2 * jitter_fraction nanos) 65536
      \<le> backoff_base n div 2"
    by (intro round_half_even_le mult_left_mono) simp_all
  moreover have "backoff_base n div 2 + backoff_base n div 2 = backoff_base n"
    using backoff_base_even [of n] by auto
  ultimately show "backoff_with_jitter nanos n \<le> backoff_base n"
    by (simp add: backoff_with_jitter_def Let_def)
qed (simp add: backoff_with_jitter_def Let_def)

text \<open>A run that keeps pausing, with the clock of each pause and no window from the provider.\<close>

fun pauses :: "nat \<Rightarrow> string \<Rightarrow> paused_run option \<Rightarrow> (u64 \<times> nat) list \<Rightarrow> paused_run option" where
  "pauses step provider prev [] = prev"
| "pauses step provider prev ((now, nanos) # cs) =
     pauses step provider (Some (pause_run now nanos None prev step provider)) cs"

lemma pause_attempt_pos: "1 \<le> pause_attempt prev"
proof -
  have "1 \<le> u32_saturating_add a 1" for a
  proof (cases "unat a + 1 < 2 ^ 32")
    case True
    then show ?thesis
      by (simp add: u32_saturating_add_def word_le_nat_alt unat_word_ariths)
  qed (simp add: u32_saturating_add_def)
  then show ?thesis
    by (simp add: pause_attempt_def split: option.splits)
qed

lemma attempt_pause_run [simp]:
  "attempt (pause_run now nanos q prev step provider) = pause_attempt prev"
  using pause_attempt_pos [of prev] by (simp add: pause_run_def Let_def with_attempt_def max_def)

lemma pauses_append:
  "pauses step provider prev (cs @ [(now, nanos)]) =
     Some (pause_run now nanos None (pauses step provider prev cs) step provider)"
  by (induction cs arbitrary: prev) auto

lemma pauses_attempt:
  assumes "length cs + 1 < 2 ^ 32"
  shows "unat (pause_attempt (pauses step provider None cs)) = length cs + 1"
  using assms
proof (induction cs rule: rev_induct)
  case (snoc c cs)
  then show ?case
    by (cases c)
      (simp add: pauses_append pause_attempt_def u32_saturating_add_def unat_word_ariths)
qed (simp add: pause_attempt_def)

definition backoff_secs :: "nat \<Rightarrow> nat" where
  "backoff_secs k = min (15 * 2 ^ k) 900"

lemma backoff_base_secs:
  assumes "unat n = k + 1"
  shows "backoff_base n = backoff_secs k * NANOS_PER_SEC"
proof (cases "k \<le> 16")
  case True
  then show ?thesis
    using assms
    by (simp add: backoff_base_def backoff_secs_def MIN_BACKOFF_def MAX_BACKOFF_def
        NANOS_PER_SEC_def min_def)
next
  case False
  then have "(2::nat) ^ 16 \<le> 2 ^ k"
    by (intro power_increasing) simp_all
  with False show ?thesis
    using assms
    by (simp add: backoff_base_def backoff_secs_def MIN_BACKOFF_def MAX_BACKOFF_def
        NANOS_PER_SEC_def min_def)
qed

lemma as_secs_bounds:
  assumes "b * NANOS_PER_SEC div 2 \<le> d" "d \<le> b * NANOS_PER_SEC" "b \<le> 900"
  shows "b div 2 \<le> unat (as_secs d)" "unat (as_secs d) \<le> b"
proof -
  have "d div NANOS_PER_SEC \<le> b"
    using div_le_mono [OF assms(2), of NANOS_PER_SEC] by (simp add: NANOS_PER_SEC_def)
  moreover from this have "unat (as_secs d) = d div NANOS_PER_SEC"
    using assms(3) by (simp add: as_secs_def unat_of_nat)
  moreover have "b div 2 \<le> d div NANOS_PER_SEC"
    using assms(1) unfolding NANOS_PER_SEC_def by linarith
  ultimately show "b div 2 \<le> unat (as_secs d)" "unat (as_secs d) \<le> b"
    by simp_all
qed

text \<open>
  A run that keeps hitting a limit whose provider states no window backs off: the
  \<open>k + 1\<close>-st pause in a row records attempt \<open>k + 1\<close> and makes the run eligible between half and
  the whole of \<open>15 * 2 ^ k\<close> seconds later, capped at 900 seconds, whatever the jitter.
\<close>

theorem repeated_pauses_back_off:
  assumes "length cs + 1 < 2 ^ 32" "unat now + 900 < 2 ^ 64"
  shows "\<exists>p e. pauses step provider None (cs @ [(now, nanos)]) = Some p
     \<and> unat (attempt p) = length cs + 1
     \<and> resume_eligible_unix p = Some e
     \<and> unat now + backoff_secs (length cs) div 2 \<le> unat e
     \<and> unat e \<le> unat now + backoff_secs (length cs)"
proof -
  define n where "n = pause_attempt (pauses step provider None cs)"
  define d where "d = backoff_with_jitter nanos n"
  define b where "b = backoff_secs (length cs)"
  have n: "unat n = length cs + 1"
    using pauses_attempt [OF assms(1)] by (simp add: n_def)
  have base: "backoff_base n = b * NANOS_PER_SEC"
    unfolding b_def using n by (rule backoff_base_secs)
  have "b \<le> 900"
    by (simp add: b_def backoff_secs_def)
  with backoff_bounds [where n = n and nanos = nanos]
  have secs: "b div 2 \<le> unat (as_secs d)" "unat (as_secs d) \<le> b"
    unfolding d_def base by (blast intro: as_secs_bounds)+
  have e: "unat (now + as_secs d) = unat now + unat (as_secs d)"
    using secs \<open>b \<le> 900\<close> assms(2) by (simp add: unat_word_ariths)
  have el: "resume_eligible_unix (pause_run now nanos None (pauses step provider None cs) step provider)
      = Some (now + as_secs d)"
    by (simp add: pause_run_def Let_def with_attempt_def paused_new_def estimate_window_def
        quota_info_default_def d_def n_def)
  show ?thesis
    using el e secs n by (simp add: pauses_append b_def n_def)
qed

theorem repeated_pauses_back_off_witness:
  "\<exists>p e. pauses 3 ''openai'' None ([(1000, 0), (2000, 500)] @ [(3000, 40000)]) = Some p
     \<and> unat (attempt p) = 3 \<and> resume_eligible_unix p = Some e
     \<and> 3030 \<le> unat e \<and> unat e \<le> 3060"
  using repeated_pauses_back_off [of "[(1000, 0), (2000, 500)]" 3000 3 "''openai''" 40000]
  by (simp add: backoff_secs_def)

section \<open>Resuming\<close>

lemma decide_resume_Resume:
  "decide_resume p ctx = Resume \<longleftrightarrow>
     \<not> user_cancelled ctx \<and> \<not> provider_identity_changed ctx \<and> waited ctx \<le> max_wait p
     \<and> window_elapsed ctx \<and> (at_step_boundary ctx \<or> \<not> only_at_step_boundary p)
     \<and> (\<not> pending_destructive_approval ctx \<or> \<not> requires_no_pending_approval p)
     \<and> (workspace_clean ctx \<or> \<not> requires_clean_workspace p)
     \<and> resume_mode_in p \<in> {ModeRun, ModeGlobal}"
  by (auto simp: decide_resume_def split: resume_mode.splits)

lemma decide_resume_Wait:
  "decide_resume p ctx = Wait \<longleftrightarrow>
     \<not> user_cancelled ctx \<and> \<not> provider_identity_changed ctx \<and> waited ctx \<le> max_wait p
     \<and> \<not> window_elapsed ctx"
  by (auto simp: decide_resume_def split: resume_mode.splits)

lemma wait_step_Nap:
  "wait_step p pol ov now cancelled dirty = Nap d \<longleftrightarrow>
     \<not> cancelled \<and> decide_resume pol (wait_context p ov now cancelled dirty) = Wait
     \<and> d = (case wait_nap p pol now WAIT_POLL_CAP_SECS of None \<Rightarrow> from_secs 1 | Some d \<Rightarrow> d)"
  by (auto simp: wait_step_def split: resume_decision.splits)

lemma wait_step_Ended:
  "wait_step p pol ov now cancelled dirty = Ended r \<longleftrightarrow>
     \<not> cancelled \<and> r \<noteq> Wait \<and> decide_resume pol (wait_context p ov now cancelled dirty) = r"
  by (auto simp: wait_step_def split: resume_decision.splits)

lemma wait_loop_result:
  assumes "wait_loop p pol ov ts = Some r"
  shows "\<exists>pre now cancelled dirty post. ts = pre @ (now, cancelled, dirty) # post
     \<and> wait_step p pol ov now cancelled dirty = r
     \<and> (\<forall>(n, c, g) \<in> set pre. \<exists>d. wait_step p pol ov n c g = Nap d)"
  using assms
proof (induction ts)
  case (Cons t ts)
  obtain now cancelled dirty where t: "t = (now, cancelled, dirty)"
    by (cases t)
  show ?case
  proof (cases "wait_step p pol ov now cancelled dirty")
    case (Nap d)
    with Cons t obtain pre n c g post where ts: "ts = pre @ (n, c, g) # post"
      and "wait_step p pol ov n c g = r"
      "\<forall>(n, c, g) \<in> set pre. \<exists>d. wait_step p pol ov n c g = Nap d"
      by auto
    with Nap t show ?thesis
      by (intro exI [of _ "t # pre"] exI) auto
  qed (use Cons.prems t in \<open>intro exI [of _ "[]"] exI, auto\<close>)+
qed simp

lemma wait_loop_ends:
  assumes "wait_loop p pol ov ts = Some r"
  shows "r \<noteq> Nap d"
  using assms
  by (induction ts) (auto split: wait_poll.splits)

lemmas quota_eval = paused_new_def as_secs_def from_secs_def NANOS_PER_SEC_def policy_of_def
  quota_config_default_def wait_step_def wait_context_def decide_resume_def wait_nap_def
  u64_saturating_sub_def WAIT_POLL_CAP_SECS_def

text \<open>
  When the wait loop resumes the run, it does so at a wake-up at which the run was not
  cancelled, the window had elapsed, the time since the pause was within the configured
  maximum, the provider was the paused one, the policy's clean-workspace gate held and the mode
  allows it; at every earlier wake-up the window was still open and the run not cancelled.
\<close>

theorem resume_passes_every_gate:
  assumes "wait_loop p pol ov ts = Some (Ended Resume)"
  shows "\<exists>pre now dirty post. ts = pre @ (now, False, dirty) # post
     \<and> (\<forall>e. resume_eligible_unix p = Some e \<longrightarrow> e \<le> now)
     \<and> from_secs (u64_saturating_sub now (paused_at_unix p)) \<le> max_wait pol
     \<and> (ov = None \<or> ov = Some (provider_id p))
     \<and> (requires_clean_workspace pol \<longrightarrow> \<not> dirty)
     \<and> resume_mode_in pol \<in> {ModeRun, ModeGlobal}
     \<and> (\<forall>(n, c, g) \<in> set pre. \<not> c \<and> (\<exists>e. resume_eligible_unix p = Some e \<and> n < e))"
proof -
  from wait_loop_result [OF assms] obtain pre now cancelled dirty post
    where ts: "ts = pre @ (now, cancelled, dirty) # post"
      and step: "wait_step p pol ov now cancelled dirty = Ended Resume"
      and naps: "\<forall>(n, c, g) \<in> set pre. \<exists>d. wait_step p pol ov n c g = Nap d"
    by blast
  from step have "decide_resume pol (wait_context p ov now False dirty) = Resume" "\<not> cancelled"
    by (auto simp: wait_step_Ended)
  moreover have "\<forall>(n, c, g) \<in> set pre. \<not> c \<and> (\<exists>e. resume_eligible_unix p = Some e \<and> n < e)"
    using naps
    by (fastforce simp: wait_step_Nap decide_resume_Wait wait_context_def split: option.splits)
  ultimately show ?thesis
    using ts
    by (intro exI [of _ pre] exI [of _ now] exI [of _ dirty] exI [of _ post])
      (auto simp: decide_resume_Resume wait_context_def split: option.splits)
qed

theorem resume_passes_every_gate_witness:
  "\<exists>pre now dirty post.
     [(1000 :: u64, False, True), (1030, False, False)] = pre @ (now, False, dirty) # post
     \<and> 1030 \<le> now"
proof -
  define p where "p = paused_new 1000 3 ''openai''
    \<lparr>wait = from_secs 30, reset_at = None, retryable = True, window_reason = ''limit''\<rparr>"
  define pol where "pol = policy_of (quota_config_default\<lparr>auto_resume := AutoRun\<rparr>)"
  have "wait_loop p pol None [(1000, False, True), (1030, False, False)] = Some (Ended Resume)"
    by (simp add: p_def pol_def quota_eval)
  from resume_passes_every_gate [OF this] have
    "\<exists>pre now dirty post.
       [(1000 :: u64, False, True), (1030, False, False)] = pre @ (now, False, dirty) # post
       \<and> (\<forall>e. resume_eligible_unix p = Some e \<longrightarrow> e \<le> now)"
    by blast
  moreover have "resume_eligible_unix p = Some 1030"
    by (simp add: p_def quota_eval)
  ultimately show ?thesis
    by (simp only: option.inject) blast
qed

section \<open>Waiting ends\<close>

text \<open>
  The moments a waiting loop wakes up at: each at least the nap of the one before after it. The
  operating system may let it sleep longer; the clock is not set back.
\<close>

fun wakes_after_naps ::
  "paused_run \<Rightarrow> resume_policy \<Rightarrow> string option \<Rightarrow> (u64 \<times> bool \<times> bool) list \<Rightarrow> bool" where
  "wakes_after_naps p pol ov ((now, c, g) # (now', c', g') # ts) \<longleftrightarrow>
     (case wait_step p pol ov now c g of
        Nap d \<Rightarrow> unat now * NANOS_PER_SEC + d \<le> unat now' * NANOS_PER_SEC
      | _ \<Rightarrow> True)
     \<and> wakes_after_naps p pol ov ((now', c', g') # ts)"
| "wakes_after_naps p pol ov _ \<longleftrightarrow> True"

lemma unat_one_le: "(1 :: u64) \<le> x \<Longrightarrow> 1 \<le> unat x"
  by (simp add: word_le_nat_alt)

lemma nap_at_least_one:
  "NANOS_PER_SEC \<le> (case wait_nap p pol now cap of None \<Rightarrow> from_secs 1 | Some d \<Rightarrow> d)"
proof -
  have one: "NANOS_PER_SEC \<le> from_secs (max x 1)" for x
    unfolding from_secs_def using unat_one_le [of "max x 1"] by simp
  show ?thesis
    using one by (auto simp: wait_nap_def Let_def from_secs_def split: option.splits)
qed

lemma nap_within_max:
  assumes "wait_step p pol ov now c g = Nap d" "paused_at_unix p \<le> now"
  shows "(unat now - unat (paused_at_unix p)) * NANOS_PER_SEC \<le> max_wait pol"
proof -
  have "from_secs (u64_saturating_sub now (paused_at_unix p)) \<le> max_wait pol"
    using assms(1) by (auto simp: wait_step_Nap decide_resume_Wait wait_context_def)
  with assms(2) show ?thesis
    by (simp add: from_secs_def u64_saturating_sub_def unat_sub)
qed

lemma naps_take_time:
  assumes "wait_loop p pol ov ts = None" "wakes_after_naps p pol ov ts"
    "ts = (now, c, g) # rest" "paused_at_unix p \<le> now"
  shows "(unat now - unat (paused_at_unix p) + length rest) * NANOS_PER_SEC \<le> max_wait pol"
  using assms
proof (induction rest arbitrary: ts now c g)
  case Nil
  then obtain d where "wait_step p pol ov now c g = Nap d"
    by (cases "wait_step p pol ov now c g") auto
  then show ?case
    using Nil.prems nap_within_max by simp
next
  case (Cons t rest)
  obtain now' c' g' where t: "t = (now', c', g')"
    by (cases t)
  from Cons.prems obtain d where nap: "wait_step p pol ov now c g = Nap d"
    by (cases "wait_step p pol ov now c g") auto
  then have "NANOS_PER_SEC \<le> d"
    using nap_at_least_one by (simp add: wait_step_Nap)
  with Cons.prems nap t have "unat now * NANOS_PER_SEC + NANOS_PER_SEC \<le> unat now' * NANOS_PER_SEC"
    by simp
  then have le: "unat now + 1 \<le> unat now'"
    by (simp add: NANOS_PER_SEC_def)
  then have ge: "paused_at_unix p \<le> now'"
    using Cons.prems(4) by (simp add: word_le_nat_alt)
  from Cons.IH [of "(now', c', g') # rest" now' c' g'] Cons.prems nap t ge
  have "(unat now' - unat (paused_at_unix p) + length rest) * NANOS_PER_SEC \<le> max_wait pol"
    by simp
  moreover have "unat now - unat (paused_at_unix p) + length (t # rest)
      \<le> unat now' - unat (paused_at_unix p) + length rest"
    using le Cons.prems(4) by (simp add: word_le_nat_alt)
  ultimately show ?case
    by (meson le_trans mult_le_mono1)
qed

text \<open>
  Waiting ends: from a first look at or after the pause, a loop that wakes up no earlier
  than each nap it asked for has stopped - resumed, blocked, asked or cancelled - once it has
  woken up more than one time more often than the maximum wait has seconds.
\<close>

theorem waiting_ends:
  assumes "wakes_after_naps p pol ov ts" "paused_at_unix p \<le> fst (hd ts)"
    "max_wait pol div NANOS_PER_SEC + 1 < length ts"
  shows "\<exists>r. wait_loop p pol ov ts = Some r \<and> (\<forall>d. r \<noteq> Nap d)"
proof (cases "wait_loop p pol ov ts")
  case None
  obtain now c g rest where ts: "ts = (now, c, g) # rest"
    using assms(3) by (cases ts) auto
  then have "(length rest) * NANOS_PER_SEC \<le> max_wait pol"
    using naps_take_time [OF None assms(1) ts] assms(2)
    by (metis add_leD2 add_mult_distrib fst_conv list.sel(1))
  then have "length rest \<le> max_wait pol div NANOS_PER_SEC"
    by (simp add: less_eq_div_iff_mult_less_eq NANOS_PER_SEC_def)
  with assms(3) ts show ?thesis
    by simp
next
  case (Some r)
  with wait_loop_ends [OF Some] show ?thesis
    by simp
qed

theorem waiting_ends_witness:
  "\<exists>r. wait_loop
        (paused_new 1000 3 ''openai''
          \<lparr>wait = from_secs 500, reset_at = None, retryable = True, window_reason = ''limit''\<rparr>)
        ((policy_of (quota_config_default\<lparr>auto_resume := AutoRun\<rparr>))\<lparr>max_wait := 1\<rparr>) None
        [(1000, False, False), (1001, False, False)] = Some r \<and> (\<forall>d. r \<noteq> Nap d)"
proof (rule waiting_ends)
  show "wakes_after_naps
        (paused_new 1000 3 ''openai''
          \<lparr>wait = from_secs 500, reset_at = None, retryable = True, window_reason = ''limit''\<rparr>)
        ((policy_of (quota_config_default\<lparr>auto_resume := AutoRun\<rparr>))\<lparr>max_wait := 1\<rparr>) None
        [(1000, False, False), (1001, False, False)]"
    by (simp add: quota_eval)
qed (simp_all add: paused_new_def NANOS_PER_SEC_def)

text \<open>
  The eligible time is an unchecked sum: a stated delay near the end of the \<open>u64\<close> range puts it
  before the pause, and the window counts as elapsed at once.
\<close>

lemma huge_retry_after_wraps:
  assumes "0 < now"
  shows "resume_eligible_unix (paused_new now step provider
      (estimate_window now nanos (quota_info_default\<lparr>retry_after := Some (from_secs (- 1))\<rparr>) n))
      = Some (now - 1) \<and> now - 1 < now"
proof -
  have "as_secs (from_secs (- 1)) = - 1"
    by (simp add: as_secs_def from_secs_def NANOS_PER_SEC_def)
  moreover have "now - 1 < now"
  proof -
    have "now \<noteq> 0" "0 < unat now"
      using assms by (auto simp: word_less_nat_alt)
    then show ?thesis
      by (simp add: word_less_nat_alt unat_minus_one)
  qed
  ultimately show ?thesis
    by (simp add: paused_new_def estimate_window_def)
qed

end
