(* ===== verification/Detect.thy ===== *)
theory Detect
  imports Rust_Str
begin

text \<open>
  \<^verbatim>\<open>crates/localpilot-recovery/src/detect.rs\<close>: degenerate assistant output, as a scan over the
  whole text and as the incremental monitor of a live stream; the same-error breaker, the
  repeated-observation guard and the per-turn call budget. \<open>digest\<close> is the standard library's
  hash and an argument of the guard.
\<close>

section \<open>Scanning a whole text\<close>

datatype bad_output_kind =
    EmptyTurn | RepeatedTokenLoop | SlashFlood | MalformedToolCall | MalformedStructuredOutput
  | UnknownKind

definition SLASH_FLOOD_THRESHOLD :: nat where "SLASH_FLOOD_THRESHOLD = 8"
definition SLASH_FLOOD_IN_CODE_THRESHOLD :: nat where "SLASH_FLOOD_IN_CODE_THRESHOLD = 40"
definition REPEATED_TOKEN_THRESHOLD :: nat where "REPEATED_TOKEN_THRESHOLD = 10"

definition is_punct_run_char :: "char \<Rightarrow> bool" where
  "is_punct_run_char c \<longleftrightarrow> c = CHR ''/''"

text \<open>One turn of \<open>longest_repeat_run\<close>: the best, the current run and the previous character.\<close>

fun run_step :: "nat \<times> nat \<times> char option \<Rightarrow> char \<Rightarrow> nat \<times> nat \<times> char option" where
  "run_step (best, cur, prev) c =
     (let cur' = (if is_punct_run_char c \<and> prev = Some c then cur + 1
                  else if is_punct_run_char c then 1 else 0)
      in (max best cur', cur', Some c))"

definition longest_repeat_run :: "string \<Rightarrow> nat" where
  "longest_repeat_run line = fst (foldl run_step (0, 0, None) line)"

definition is_fence_line :: "string \<Rightarrow> bool" where
  "is_fence_line line \<longleftrightarrow> take 3 (dropWhile is_whitespace line) = replicate 3 (CHR 0x60)"

text \<open>One line of \<open>max_punctuation_runs\<close>: the fence flag and both maxima.\<close>

fun fence_step :: "bool \<times> nat \<times> nat \<Rightarrow> string \<Rightarrow> bool \<times> nat \<times> nat" where
  "fence_step (fence, outside, inside) line =
     (if is_fence_line line then (\<not> fence, outside, inside)
      else if fence then (fence, outside, max inside (longest_repeat_run line))
      else (fence, max outside (longest_repeat_run line), inside))"

definition max_punctuation_runs :: "string \<Rightarrow> nat \<times> nat" where
  "max_punctuation_runs s = snd (foldl fence_step (False, 0, 0) (str_lines s))"

definition is_slash_flood :: "string \<Rightarrow> bool" where
  "is_slash_flood s =
     (let (outside, inside) = max_punctuation_runs s
      in SLASH_FLOOD_THRESHOLD \<le> outside \<or> SLASH_FLOOD_IN_CODE_THRESHOLD \<le> inside)"

fun token_step :: "nat \<times> nat \<times> string option \<Rightarrow> string \<Rightarrow> nat \<times> nat \<times> string option" where
  "token_step (best, cur, prev) t =
     (let cur' = (if prev = Some t then cur + 1 else 1) in (max best cur', cur', Some t))"

definition is_repeated_token_loop :: "string \<Rightarrow> bool" where
  "is_repeated_token_loop s \<longleftrightarrow>
     REPEATED_TOKEN_THRESHOLD \<le> fst (foldl token_step (0, 0, None) (split_whitespace s))"

definition detect :: "string \<Rightarrow> bool \<Rightarrow> bad_output_kind option" where
  "detect s has_tool_calls =
     (if trim s = [] \<and> \<not> has_tool_calls then Some EmptyTurn
      else if is_slash_flood s then Some SlashFlood
      else if is_repeated_token_loop s then Some RepeatedTokenLoop
      else None)"

section \<open>The stream monitor\<close>

datatype line_lead = LeadPending | LeadFence | LeadContent

record stream_monitor =
  in_fence :: bool
  line_lead_of :: line_lead
  prev_char :: "char option"
  run :: nat
  line_max_run :: nat
  max_outside :: nat
  max_inside :: nat
  prev_token :: string
  token :: string
  repeat :: nat
  max_repeat :: nat

definition monitor_new :: stream_monitor where
  "monitor_new =
     \<lparr>in_fence = False, line_lead_of = LeadPending, prev_char = None, run = 0,
      line_max_run = 0, max_outside = 0, max_inside = 0, prev_token = [], token = [],
      repeat = 0, max_repeat = 0\<rparr>"

definition close_token :: "stream_monitor \<Rightarrow> stream_monitor" where
  "close_token m =
     (if token m = [] then m
      else
        (let r = (if token m = prev_token m then repeat m + 1 else 1)
         in m\<lparr>repeat := r, max_repeat := max (max_repeat m) r, prev_token := token m,
              token := []\<rparr>))"

definition close_line :: "stream_monitor \<Rightarrow> stream_monitor" where
  "close_line m =
     (let m1 = (if line_lead_of m = LeadFence then m\<lparr>in_fence := \<not> in_fence m\<rparr>
                else if in_fence m then m\<lparr>max_inside := max (max_inside m) (line_max_run m)\<rparr>
                else m\<lparr>max_outside := max (max_outside m) (line_max_run m)\<rparr>)
      in close_token (m1\<lparr>line_lead_of := LeadPending, prev_char := None, run := 0,
                         line_max_run := 0\<rparr>))"

text \<open>The line lead after one character, with the backticks seen so far in this call.\<close>

fun lead_step :: "line_lead \<times> nat \<Rightarrow> char \<Rightarrow> line_lead \<times> nat" where
  "lead_step (LeadPending, b) c =
     (if c = CHR 0x60 then (if b + 1 = 3 then LeadFence else LeadPending, b + 1)
      else if is_whitespace c \<and> b = 0 then (LeadPending, b)
      else (LeadContent, b))"
| "lead_step (l, b) c = (l, b)"

definition push_char :: "stream_monitor \<times> nat \<Rightarrow> char \<Rightarrow> stream_monitor \<times> nat" where
  "push_char st c =
     (let (m, b) = st
      in if is_nl c then (close_line m, 0)
         else
           (let (lead, b') = lead_step (line_lead_of m, b) c;
                m1 = m\<lparr>line_lead_of := lead\<rparr>;
                r = (if is_punct_run_char c \<and> prev_char m = Some c then run m + 1
                     else if is_punct_run_char c then 1 else 0);
                m2 = (if lead \<noteq> LeadFence
                      then m1\<lparr>run := r, line_max_run := max (line_max_run m) r\<rparr> else m1);
                m3 = m2\<lparr>prev_char := Some c\<rparr>
            in (if is_whitespace c then close_token m3 else m3\<lparr>token := token m3 @ [c]\<rparr>, b')))"

definition push :: "stream_monitor \<Rightarrow> string \<Rightarrow> stream_monitor" where
  "push m delta = fst (foldl push_char (m, 0) delta)"

definition detected :: "stream_monitor \<Rightarrow> bool" where
  "detected m =
     (let outside = (if line_lead_of m \<noteq> LeadFence \<and> \<not> in_fence m
                     then max (max_outside m) (line_max_run m) else max_outside m);
          inside = (if line_lead_of m \<noteq> LeadFence \<and> in_fence m
                    then max (max_inside m) (line_max_run m) else max_inside m);
          rep = (if token m = [] then max_repeat m
                 else if token m = prev_token m then max (max_repeat m) (repeat m + 1)
                 else max (max_repeat m) 1)
      in SLASH_FLOOD_THRESHOLD \<le> outside \<or> SLASH_FLOOD_IN_CODE_THRESHOLD \<le> inside
         \<or> REPEATED_TOKEN_THRESHOLD \<le> rep)"

section \<open>Breakers and budgets\<close>

definition SAME_ERROR_THRESHOLD :: nat where "SAME_ERROR_THRESHOLD = 3"

definition error_signature :: "string \<Rightarrow> string" where
  "error_signature err = to_ascii_lowercase (join '' '' (split_whitespace err))"

record error_breaker =
  threshold :: nat
  last_error :: "string option"
  streak :: nat

definition breaker_new :: "nat \<Rightarrow> error_breaker" where
  "breaker_new t = \<lparr>threshold = max t 1, last_error = None, streak = 0\<rparr>"

definition breaker_default :: error_breaker where
  "breaker_default = breaker_new SAME_ERROR_THRESHOLD"

definition breaker_signature :: "string \<Rightarrow> string \<Rightarrow> string" where
  "breaker_signature name err = name @ [CHR 0x1F] @ error_signature err"

definition breaker_observe :: "error_breaker \<Rightarrow> string \<Rightarrow> string \<Rightarrow> error_breaker \<times> bool" where
  "breaker_observe b name err =
     (let sig = breaker_signature name err;
          b1 = (if last_error b = Some sig then b\<lparr>streak := streak b + 1\<rparr>
                else b\<lparr>last_error := Some sig, streak := 1\<rparr>)
      in (b1, streak b1 = threshold b1))"

definition breaker_reset :: "error_breaker \<Rightarrow> error_breaker" where
  "breaker_reset b = b\<lparr>last_error := None, streak := 0\<rparr>"

definition REPEATED_OBSERVATION_NUDGE :: nat where "REPEATED_OBSERVATION_NUDGE = 2"
definition REPEATED_OBSERVATION_STOP :: nat where "REPEATED_OBSERVATION_STOP = 3"

datatype repeated_observation = Fresh | Nudge nat | Stop nat

record observation_guard =
  last_key :: "(u64 \<times> u64) option"
  obs_count :: nat

definition guard_new :: observation_guard where
  "guard_new = \<lparr>last_key = None, obs_count = 0\<rparr>"

definition guard_observe ::
  "(string \<Rightarrow> u64) \<Rightarrow> observation_guard \<Rightarrow> string \<Rightarrow> string
   \<Rightarrow> observation_guard \<times> repeated_observation" where
  "guard_observe digest g call result =
     (let key = (digest call, digest result);
          g1 = (if last_key g = Some key then g\<lparr>obs_count := obs_count g + 1\<rparr>
                else g\<lparr>last_key := Some key, obs_count := 1\<rparr>);
          n = obs_count g1
      in (g1, if REPEATED_OBSERVATION_STOP \<le> n then Stop n
              else if REPEATED_OBSERVATION_NUDGE \<le> n then Nudge n else Fresh))"

definition guard_reset :: "observation_guard \<Rightarrow> observation_guard" where
  "guard_reset g = g\<lparr>last_key := None, obs_count := 0\<rparr>"

datatype budget_decision = Continue | StopNoProgress | StopCostMax

datatype budget_controller = Unlimited | Bounded nat nat \<comment> \<open>\<open>soft_start\<close>, \<open>hard_max\<close>\<close>

fun budget_new :: "nat option \<Rightarrow> nat option \<Rightarrow> budget_controller" where
  "budget_new None None = Unlimited"
| "budget_new (Some soft) (Some hard) = Bounded soft (max hard soft)"
| "budget_new (Some soft) None = Bounded soft soft"
| "budget_new None (Some hard) = Bounded hard hard"

fun budget_decide :: "budget_controller \<Rightarrow> nat \<Rightarrow> bool \<Rightarrow> budget_decision" where
  "budget_decide Unlimited calls_used no_progress = Continue"
| "budget_decide (Bounded soft hard) calls_used no_progress =
     (if hard \<le> calls_used then StopCostMax
      else if no_progress \<and> soft \<le> calls_used then StopNoProgress
      else Continue)"

fun budget_hard_max :: "budget_controller \<Rightarrow> nat option" where
  "budget_hard_max Unlimited = None"
| "budget_hard_max (Bounded _ hard) = Some hard"

fun budget_soft_start :: "budget_controller \<Rightarrow> nat option" where
  "budget_soft_start Unlimited = None"
| "budget_soft_start (Bounded soft _) = Some soft"

end
