(* ===== verification/Recovery.thy ===== *)
theory Recovery
  imports Detect
begin

text \<open>
  \<^verbatim>\<open>crates/localpilot-recovery/src/engine.rs\<close>: the health of the model across turns and the
  ladder of recovery actions. The attempt counter is a \<open>u32\<close> with the wrap-around of a release
  build.
\<close>

fun is_malformed_output :: "bad_output_kind \<Rightarrow> bool" where
  "is_malformed_output MalformedStructuredOutput = True"
| "is_malformed_output MalformedToolCall = True"
| "is_malformed_output _ = False"

datatype model_health = Healthy | Recovering | Degraded

datatype recovery_action =
    AbortStream | SaveDiagnostic | RetryWithRepairPrompt | ReduceContext
  | SummarizeOversizedToolResults | RequestChunkedWrite | RepairToolArguments | LowerImageCount
  | MarkDegraded | StopHarnessProgress

record recovery_diagnostic =
  diag_kind :: bad_output_kind
  diag_attempt :: u32
  diag_health :: model_health
  diag_actions :: "recovery_action list"

record recovery_budget =
  max_repair_attempts :: u32

definition recovery_budget_default :: recovery_budget where
  "recovery_budget_default = \<lparr>max_repair_attempts = 2\<rparr>"

record recovery_engine =
  budget :: recovery_budget
  attempts :: u32
  health :: model_health
  last_turn_clean :: bool

definition recovery_new :: "recovery_budget \<Rightarrow> recovery_engine" where
  "recovery_new b = \<lparr>budget = b, attempts = 0, health = Healthy, last_turn_clean = True\<rparr>"

definition record_clean_turn :: "recovery_engine \<Rightarrow> recovery_engine" where
  "record_clean_turn e =
     (let e1 = e\<lparr>attempts := 0, last_turn_clean := True\<rparr>
      in if health e = Recovering then e1\<lparr>health := Healthy\<rparr> else e1)"

definition record_bad_turn ::
  "recovery_engine \<Rightarrow> bad_output_kind \<Rightarrow> recovery_engine \<times> recovery_diagnostic" where
  "record_bad_turn e kind =
     (let n = attempts e + 1;
          within = n \<le> max_repair_attempts (budget e);
          h = (if within then Recovering else Degraded);
          ladder =
            [AbortStream, SaveDiagnostic] @
            (if within
             then [RetryWithRepairPrompt]
                  @ (if is_malformed_output kind then [RequestChunkedWrite] else [])
                  @ (if 1 < n then [ReduceContext, SummarizeOversizedToolResults] else [])
             else [MarkDegraded, StopHarnessProgress])
      in (e\<lparr>attempts := n, last_turn_clean := False, health := h\<rparr>,
          \<lparr>diag_kind = kind, diag_attempt = n, diag_health = h, diag_actions = ladder\<rparr>))"

definition step_completable :: "recovery_engine \<Rightarrow> bool" where
  "step_completable e \<longleftrightarrow> last_turn_clean e \<and> health e \<noteq> Degraded"

definition tool_input_repair_rung :: "recovery_engine \<Rightarrow> recovery_action" where
  "tool_input_repair_rung e = RepairToolArguments"

definition image_limit_rung :: "recovery_engine \<Rightarrow> nat \<Rightarrow> recovery_action option" where
  "image_limit_rung e image_count = (if 1 < image_count then Some LowerImageCount else None)"

section \<open>Runs of turns\<close>

datatype turn = CleanTurn | BadTurn bad_output_kind

fun record_turn :: "recovery_engine \<Rightarrow> turn \<Rightarrow> recovery_engine" where
  "record_turn e CleanTurn = record_clean_turn e"
| "record_turn e (BadTurn k) = fst (record_bad_turn e k)"

definition run_turns :: "recovery_budget \<Rightarrow> turn list \<Rightarrow> recovery_engine" where
  "run_turns b ts = foldl record_turn (recovery_new b) ts"

lemma run_turns_snoc [simp]: "run_turns b (ts @ [t]) = record_turn (run_turns b ts) t"
  by (simp add: run_turns_def)

lemma run_turns_Nil [simp]: "run_turns b [] = recovery_new b"
  by (simp add: run_turns_def)

text \<open>The bad turns at the end of a run.\<close>

fun bad_streak :: "turn list \<Rightarrow> nat" where
  "bad_streak ts = length (takeWhile (\<lambda>t. t \<noteq> CleanTurn) (rev ts))"

declare bad_streak.simps [simp del]

lemma bad_streak_snoc [simp]:
  "bad_streak (ts @ [CleanTurn]) = 0" "bad_streak (ts @ [BadTurn k]) = bad_streak ts + 1"
  "bad_streak [] = 0"
  by (simp_all add: bad_streak.simps)

lemma bad_streak_le: "bad_streak ts \<le> length ts"
  using length_takeWhile_le [of "\<lambda>t. t \<noteq> CleanTurn" "rev ts"] by (simp add: bad_streak.simps)

text \<open>
  The health a run ends with, from the turns alone: the streak of bad turns that the last bad
  turn ended decides.
\<close>

definition last_streak :: "turn list \<Rightarrow> nat" where
  "last_streak ts = bad_streak (rev (dropWhile (\<lambda>t. t = CleanTurn) (rev ts)))"

lemma last_streak_snoc [simp]:
  "last_streak (ts @ [CleanTurn]) = last_streak ts"
  "last_streak (ts @ [BadTurn k]) = bad_streak ts + 1"
  "last_streak [] = 0"
  by (simp_all add: last_streak_def)

definition health_after :: "recovery_budget \<Rightarrow> turn list \<Rightarrow> model_health" where
  "health_after b ts =
     (if unat (max_repair_attempts b) < last_streak ts then Degraded
      else if 0 < bad_streak ts then Recovering
      else Healthy)"

lemma run_turns_state:
  assumes "length ts < 2 ^ 32"
  shows "budget (run_turns b ts) = b \<and> unat (attempts (run_turns b ts)) = bad_streak ts
     \<and> health (run_turns b ts) = health_after b ts
     \<and> (last_turn_clean (run_turns b ts) \<longleftrightarrow> bad_streak ts = 0)"
  using assms
proof (induction ts rule: rev_induct)
  case Nil
  then show ?case
    by (simp add: recovery_new_def health_after_def)
next
  case (snoc t ts)
  then have IH: "budget (run_turns b ts) = b" "unat (attempts (run_turns b ts)) = bad_streak ts"
    "health (run_turns b ts) = health_after b ts"
    by simp_all
  show ?case
  proof (cases t)
    case CleanTurn
    with IH show ?thesis
      by (simp add: record_clean_turn_def Let_def health_after_def)
  next
    case (BadTurn k)
    have "unat (attempts (run_turns b ts) + 1) = bad_streak ts + 1"
      using IH bad_streak_le [of ts] snoc.prems by (simp add: unat_word_ariths)
    with IH BadTurn show ?thesis
      by (simp add: record_bad_turn_def Let_def health_after_def word_le_nat_alt)
  qed
qed

end
