(* ===== verification/Recovery_Spec.thy ===== *)
theory Recovery_Spec
  imports Detect Recovery
begin

text \<open>
  The incremental monitor against the scan of the whole text: what its fields mean after any
  prefix of a stream that arrives in one piece, and that its verdict is then the scan's.
\<close>

section \<open>Splitting from the right\<close>

lemma split_by_snoc:
  "split_by P (s @ [c]) =
     (if P c then split_by P s @ [[]]
      else butlast (split_by P s) @ [last (split_by P s) @ [c]])"
proof (induction s)
  case (Cons x s)
  obtain p ps where ps: "split_by P s = p # ps"
    by (cases "split_by P s") auto
  show ?case
    using Cons ps by (cases ps) auto
qed simp

section \<open>Tokens\<close>

text \<open>The closed tokens of a prefix and the one still open.\<close>

definition closed_tokens :: "string \<Rightarrow> string list" where
  "closed_tokens s = filter (\<lambda>t. t \<noteq> []) (butlast (split_by is_whitespace s))"

definition open_token :: "string \<Rightarrow> string" where
  "open_token s = last (split_by is_whitespace s)"

lemma split_by_last:
  obtains ps p where "split_by P s = ps @ [p]" "butlast (split_by P s) = ps" "last (split_by P s) = p"
  by (metis append_butlast_last_id split_by_ne)

lemma split_whitespace_open:
  "split_whitespace s = closed_tokens s @ (if open_token s = [] then [] else [open_token s])"
  by (rule split_by_last [of is_whitespace s])
    (simp add: split_whitespace_def closed_tokens_def open_token_def)

lemma tokens_snoc:
  "closed_tokens (s @ [c]) =
     (if is_whitespace c \<and> open_token s \<noteq> [] then closed_tokens s @ [open_token s]
      else closed_tokens s)"
  "open_token (s @ [c]) = (if is_whitespace c then [] else open_token s @ [c])"
proof -
  have "filter (\<lambda>t. t \<noteq> []) (split_by is_whitespace s)
      = closed_tokens s @ (if open_token s = [] then [] else [open_token s])"
    using split_whitespace_open [of s] by (simp add: split_whitespace_def)
  then show "closed_tokens (s @ [c]) =
     (if is_whitespace c \<and> open_token s \<noteq> [] then closed_tokens s @ [open_token s]
      else closed_tokens s)"
    by (simp add: closed_tokens_def split_by_snoc)
  show "open_token (s @ [c]) = (if is_whitespace c then [] else open_token s @ [c])"
    by (simp add: open_token_def split_by_snoc)
qed

text \<open>The monitor's token fields after closing the tokens \<open>ts\<close>.\<close>

definition token_fields :: "stream_monitor \<Rightarrow> string list \<Rightarrow> bool" where
  "token_fields m ts \<longleftrightarrow>
     foldl token_step (0, 0, None) ts
       = (max_repeat m, repeat m, if ts = [] then None else Some (prev_token m))
     \<and> (ts = [] \<longrightarrow> prev_token m = []) \<and> (\<forall>t \<in> set ts. t \<noteq> [])"

lemma close_token_fields:
  assumes "token_fields m ts"
  shows "token_fields (close_token m) (if token m = [] then ts else ts @ [token m])"
    "token (close_token m) = []"
  using assms by (auto simp: token_fields_def close_token_def Let_def)

lemma token_fields_cong:
  "max_repeat m = max_repeat m' \<Longrightarrow> repeat m = repeat m' \<Longrightarrow> prev_token m = prev_token m' \<Longrightarrow>
     token_fields m ts \<longleftrightarrow> token_fields m' ts"
  by (simp add: token_fields_def)

definition token_inv :: "string \<Rightarrow> stream_monitor \<Rightarrow> bool" where
  "token_inv s m \<longleftrightarrow> token_fields m (closed_tokens s) \<and> token m = open_token s"

lemma nl_is_whitespace: "is_nl c \<Longrightarrow> is_whitespace c"
  by (simp add: is_nl_def is_whitespace_def)

lemma token_inv_push:
  assumes "token_inv s m"
  shows "token_inv (s @ [c]) (fst (push_char (m, b) c))"
proof -
  have tf: "token_fields m (closed_tokens s)" and tk: "token m = open_token s"
    using assms by (simp_all add: token_inv_def)
  have step: "token_inv (s @ [c]) (close_token m')"
    if "max_repeat m' = max_repeat m" "repeat m' = repeat m" "prev_token m' = prev_token m"
      "token m' = token m" "is_whitespace c" for m'
  proof -
    have "token_fields m' (closed_tokens s)"
      using tf token_fields_cong [of m' m] that by simp
    from close_token_fields [OF this] that tk show ?thesis
      by (cases "open_token s = []") (simp_all add: token_inv_def tokens_snoc)
  qed
  have keep: "token_inv (s @ [c]) m'"
    if "max_repeat m' = max_repeat m" "repeat m' = repeat m" "prev_token m' = prev_token m"
      "token m' = token m @ [c]" "\<not> is_whitespace c" for m'
    using tf tk that token_fields_cong [of m' m] by (simp add: token_inv_def tokens_snoc)
  show ?thesis
  proof (cases "is_nl c")
    case True
    then show ?thesis
      using nl_is_whitespace [OF True]
      by (auto simp: push_char_def close_line_def Let_def intro!: step)
  next
    case False
    then show ?thesis
      by (cases "is_whitespace c")
        (auto simp: push_char_def Let_def split_beta intro!: step, auto intro!: keep)
  qed
qed

section \<open>Lines\<close>

definition closed_lines :: "string \<Rightarrow> string list" where
  "closed_lines s = butlast (split_by is_nl s)"

definition open_line :: "string \<Rightarrow> string" where
  "open_line s = last (split_by is_nl s)"

lemma lines_snoc:
  "closed_lines (s @ [c]) = (if is_nl c then closed_lines s @ [open_line s] else closed_lines s)"
  "open_line (s @ [c]) = (if is_nl c then [] else open_line s @ [c])"
  by (simp_all add: closed_lines_def open_line_def split_by_snoc)

text \<open>Stripping a carriage return changes neither the fence test nor the longest run.\<close>

lemma run_step_not_punct:
  "\<not> is_punct_run_char c \<Longrightarrow> fst (run_step st c) = fst st"
  by (cases st) simp

lemma longest_run_snoc:
  "longest_repeat_run (l @ [c]) = fst (run_step (foldl run_step (0, 0, None) l) c)"
  by (simp add: longest_repeat_run_def)

lemma strip_cr_run: "longest_repeat_run (strip_cr l) = longest_repeat_run l"
proof (cases "l \<noteq> [] \<and> last l = CHR 0x0D")
  case True
  then have l: "l = butlast l @ [CHR 0x0D]"
    by (metis append_butlast_last_id)
  have "longest_repeat_run (butlast l @ [CHR 0x0D]) = longest_repeat_run (butlast l)"
    by (simp add: longest_run_snoc run_step_not_punct is_punct_run_char_def longest_repeat_run_def)
  with l True show ?thesis
    by (simp add: strip_cr_def)
qed (auto simp: strip_cr_def)

lemma dropWhile_snoc_ws:
  "is_whitespace c \<Longrightarrow>
     dropWhile is_whitespace (l @ [c]) =
       (if list_all is_whitespace l then [] else dropWhile is_whitespace l @ [c])"
  by (induction l) auto

lemma fence_prefix_snoc:
  "c \<noteq> CHR 0x60 \<Longrightarrow> take 3 (x @ [c]) = replicate 3 (CHR 0x60) \<longleftrightarrow> take 3 x = replicate 3 (CHR 0x60)"
proof (cases "3 \<le> length x")
  case False
  assume c: "c \<noteq> CHR 0x60"
  have "take 3 (x @ [c]) = x @ [c]" "take 3 x = x"
    using False by auto
  moreover have "x @ [c] \<noteq> replicate 3 (CHR 0x60)"
    using c by (metis in_set_replicate in_set_conv_decomp)
  moreover have "x \<noteq> replicate 3 (CHR 0x60)"
    using False by auto
  ultimately show ?thesis
    by simp
qed simp

lemma strip_cr_fence: "is_fence_line (strip_cr l) = is_fence_line l"
proof (cases "l \<noteq> [] \<and> last l = CHR 0x0D")
  case True
  then have l: "l = butlast l @ [CHR 0x0D]"
    by (metis append_butlast_last_id)
  have ws: "is_whitespace (CHR 0x0D)"
    by code_simp
  have "is_fence_line (butlast l @ [CHR 0x0D]) = is_fence_line (butlast l)"
  proof (cases "list_all is_whitespace (butlast l)")
    case True
    then have d: "dropWhile is_whitespace (butlast l) = []"
      by (simp add: list_all_iff)
    show ?thesis
      unfolding is_fence_line_def dropWhile_snoc_ws [OF ws] d using True by simp
  next
    case False
    then show ?thesis
      unfolding is_fence_line_def dropWhile_snoc_ws [OF ws] using fence_prefix_snoc by simp
  qed
  with l True show ?thesis
    by (simp add: strip_cr_def)
qed (auto simp: strip_cr_def)

lemma strip_cr_step: "fence_step st (strip_cr l) = fence_step st l"
  by (cases st) (simp add: strip_cr_run strip_cr_fence)

lemma foldl_strip_cr: "foldl fence_step st (map strip_cr ls) = foldl fence_step st ls"
  by (induction ls arbitrary: st) (simp_all add: strip_cr_step)

lemma fence_step_empty: "fence_step st [] = st"
  by (cases st) (simp add: is_fence_line_def longest_repeat_run_def)

lemma max_punctuation_runs_open:
  "max_punctuation_runs s =
     snd (fence_step (foldl fence_step (False, 0, 0) (closed_lines s)) (open_line s))"
  by (simp add: max_punctuation_runs_def str_lines_def Let_def closed_lines_def open_line_def
      foldl_strip_cr fence_step_empty)

subsection \<open>The line lead\<close>

lemma lead_absorb:
  "foldl lead_step (LeadContent, b) s = (LeadContent, b)"
  "foldl lead_step (LeadFence, b) s = (LeadFence, b)"
  by (induction s) simp_all

lemma backtick_not_ws: "\<not> is_whitespace (CHR 0x60)"
  by code_simp

lemma lead_fence: "fst (foldl lead_step (LeadPending, 0) s) = LeadFence \<longleftrightarrow> is_fence_line s"
proof (induction s)
  case (Cons c s)
  show ?case
  proof (cases "is_whitespace c")
    case True
    with Cons backtick_not_ws show ?thesis
      by (auto simp: is_fence_line_def)
  next
    case False
    show ?thesis
    proof (cases "c = CHR 0x60")
      case True
      have "fst (foldl lead_step (LeadPending, 1) s) = LeadFence \<longleftrightarrow> take 2 s = replicate 2 (CHR 0x60)"
      proof (cases s)
        case (Cons d t)
        then show ?thesis
          by (cases t) (auto simp: lead_absorb numeral_2_eq_2)
      qed simp
      with True False show ?thesis
        by (simp add: is_fence_line_def numeral_3_eq_3 numeral_2_eq_2)
    next
      case neq: False
      with False show ?thesis
        by (auto simp: is_fence_line_def lead_absorb numeral_3_eq_3)
    qed
  qed
qed (simp add: is_fence_line_def)

section \<open>The monitor after a prefix\<close>

definition line_inv :: "string \<Rightarrow> stream_monitor \<times> nat \<Rightarrow> bool" where
  "line_inv s st \<longleftrightarrow>
     foldl fence_step (False, 0, 0) (closed_lines s)
       = (in_fence (fst st), max_outside (fst st), max_inside (fst st))
     \<and> foldl lead_step (LeadPending, 0) (open_line s) = (line_lead_of (fst st), snd st)
     \<and> (line_lead_of (fst st) \<noteq> LeadFence \<longrightarrow>
          foldl run_step (0, 0, None) (open_line s)
            = (line_max_run (fst st), run (fst st), prev_char (fst st)))"

lemma close_token_keeps [simp]:
  "in_fence (close_token m) = in_fence m" "max_outside (close_token m) = max_outside m"
  "max_inside (close_token m) = max_inside m" "line_lead_of (close_token m) = line_lead_of m"
  "line_max_run (close_token m) = line_max_run m" "run (close_token m) = run m"
  "prev_char (close_token m) = prev_char m"
  by (simp_all add: close_token_def Let_def)

lemma open_line_fence:
  assumes "line_inv s (m, b)"
  shows "is_fence_line (open_line s) \<longleftrightarrow> line_lead_of m = LeadFence"
    "line_lead_of m \<noteq> LeadFence \<Longrightarrow> longest_repeat_run (open_line s) = line_max_run m"
  using assms lead_fence [of "open_line s"] by (auto simp: line_inv_def longest_repeat_run_def)

lemma open_line_step:
  assumes "line_inv s (m, b)"
  shows "fence_step (foldl fence_step (False, 0, 0) (closed_lines s)) (open_line s) =
     (if line_lead_of m = LeadFence then (\<not> in_fence m, max_outside m, max_inside m)
      else if in_fence m then (True, max_outside m, max (max_inside m) (line_max_run m))
      else (False, max (max_outside m) (line_max_run m), max_inside m))"
  using assms open_line_fence [OF assms] by (simp add: line_inv_def)

lemma line_inv_push:
  assumes inv: "line_inv s (m, b)"
  shows "line_inv (s @ [c]) (push_char (m, b) c)"
proof (cases "is_nl c")
  case True
  then show ?thesis
    using open_line_step [OF inv]
    by (simp add: line_inv_def push_char_def close_line_def Let_def lines_snoc)
next
  case False
  obtain l b' where l: "lead_step (line_lead_of m, b) c = (l, b')"
    by (cases "lead_step (line_lead_of m, b) c")
  have absorb: "line_lead_of m \<noteq> LeadFence" if "l \<noteq> LeadFence"
    using l that by auto
  from False inv absorb show ?thesis
    by (auto simp: line_inv_def push_char_def lines_snoc l Let_def)
qed

lemma monitor_inv:
  "token_inv s (push monitor_new s) \<and> line_inv s (foldl push_char (monitor_new, 0) s)"
proof (induction s rule: rev_induct)
  case Nil
  show ?case
    by (simp add: push_def token_inv_def token_fields_def line_inv_def monitor_new_def
        closed_tokens_def open_token_def closed_lines_def open_line_def)
next
  case (snoc c s)
  obtain m b where m: "foldl push_char (monitor_new, 0) s = (m, b)"
    by (cases "foldl push_char (monitor_new, 0) s")
  with snoc show ?case
    using token_inv_push [of s m c b] line_inv_push [of s m b c] by (simp add: push_def)
qed

lemma flood_of_inv:
  assumes "line_inv s (m, b)"
  shows "is_slash_flood s \<longleftrightarrow>
     SLASH_FLOOD_THRESHOLD \<le> (if line_lead_of m \<noteq> LeadFence \<and> \<not> in_fence m
                             then max (max_outside m) (line_max_run m) else max_outside m)
     \<or> SLASH_FLOOD_IN_CODE_THRESHOLD \<le> (if line_lead_of m \<noteq> LeadFence \<and> in_fence m
                    then max (max_inside m) (line_max_run m) else max_inside m)"
  unfolding is_slash_flood_def max_punctuation_runs_open open_line_step [OF assms] by simp

lemma loop_of_inv:
  assumes "token_inv s m"
  shows "is_repeated_token_loop s \<longleftrightarrow>
     REPEATED_TOKEN_THRESHOLD \<le> (if token m = [] then max_repeat m
                 else if token m = prev_token m then max (max_repeat m) (repeat m + 1)
                 else max (max_repeat m) 1)"
  using assms unfolding is_repeated_token_loop_def split_whitespace_open
  by (auto simp: token_inv_def token_fields_def)

lemma detected_scan:
  "detected (push monitor_new s) \<longleftrightarrow> is_slash_flood s \<or> is_repeated_token_loop s"
proof -
  obtain m b where m: "foldl push_char (monitor_new, 0) s = (m, b)"
    by (cases "foldl push_char (monitor_new, 0) s")
  with monitor_inv [of s] have "line_inv s (m, b)" "token_inv s m"
    by (simp_all add: push_def)
  with m show ?thesis
    by (simp add: push_def detected_def Let_def flood_of_inv loop_of_inv)
qed

text \<open>
  The count of pending backticks lives in one call of \<open>push\<close>, so a chunk boundary is only
  transparent where that count is zero: after a line feed, or while nothing but spaces, or
  other content, opened the line.
\<close>

lemma push_after_nl:
  assumes "a = [] \<or> is_nl (last a)"
  shows "push (push m a) b = push m (a @ b)"
proof (cases a rule: rev_cases)
  case (snoc xs c)
  then have "is_nl c"
    using assms by simp
  with snoc show ?thesis
    by (cases "foldl push_char (m, 0) xs") (simp add: push_def push_char_def)
qed (simp add: push_def)

lemma push_lines:
  assumes "\<forall>d \<in> set ds. d = [] \<or> is_nl (last d)"
  shows "foldl push m ds = push m (concat ds)"
  using assms by (induction ds arbitrary: m) (simp_all add: push_after_nl, simp add: push_def)

text \<open>
  What the recovery crate promises: when a step may complete, that the live monitor agrees with
  the scan, how often the breakers fire and that the budget is a hard cap.
\<close>

section \<open>The recovery engine\<close>

text \<open>
  After any run of turns, a step may complete exactly when the last turn was clean and the
  latest streak of bad turns stayed within the repair budget; and the next bad turn tells the
  harness to stop exactly when it exceeds that budget.
\<close>

theorem steps_complete_only_after_recovery:
  assumes "length ts + 1 < 2 ^ 32"
  shows "(step_completable (run_turns b ts) \<longleftrightarrow>
      bad_streak ts = 0 \<and> last_streak ts \<le> unat (max_repair_attempts b))
    \<and> (StopHarnessProgress \<in> set (diag_actions (snd (record_bad_turn (run_turns b ts) k))) \<longleftrightarrow>
      unat (max_repair_attempts b) < bad_streak ts + 1)"
proof -
  note st = run_turns_state [of ts b]
  have "unat (attempts (run_turns b ts) + 1) = bad_streak ts + 1"
    using st assms bad_streak_le [of ts] by (simp add: unat_word_ariths)
  then show ?thesis
    using st assms
    by (auto simp: step_completable_def health_after_def record_bad_turn_def Let_def
        word_le_nat_alt not_le split: if_splits)
qed

theorem steps_complete_only_after_recovery_witness:
  "step_completable (run_turns recovery_budget_default [BadTurn SlashFlood, CleanTurn])
   \<and> \<not> step_completable (run_turns recovery_budget_default
         [BadTurn SlashFlood, BadTurn EmptyTurn, BadTurn SlashFlood, CleanTurn])"
  using steps_complete_only_after_recovery
      [of "[BadTurn SlashFlood, CleanTurn]" recovery_budget_default EmptyTurn]
    steps_complete_only_after_recovery
      [of "[BadTurn SlashFlood, BadTurn EmptyTurn, BadTurn SlashFlood, CleanTurn]"
        recovery_budget_default EmptyTurn]
  by (simp add: last_streak_def bad_streak.simps recovery_budget_default_def)

text \<open>
  Degraded is not final: one bad turn after a clean one counts as a first attempt again and puts
  the model back on the ladder, so the clean turn that follows makes a step completable.
\<close>

lemma degraded_model_recovers_by_failing:
  assumes "1 \<le> max_repair_attempts b" "length ts + 3 < 2 ^ 32"
  shows "step_completable (run_turns b (ts @ [CleanTurn, BadTurn k, CleanTurn]))"
proof -
  have e: "ts @ [CleanTurn, BadTurn k, CleanTurn] = ((ts @ [CleanTurn]) @ [BadTurn k]) @ [CleanTurn]"
    by simp
  have "last_streak (ts @ [CleanTurn, BadTurn k, CleanTurn]) = 1"
    "bad_streak (ts @ [CleanTurn, BadTurn k, CleanTurn]) = 0"
    unfolding e by (simp_all only: last_streak_snoc bad_streak_snoc)
  then show ?thesis
    using run_turns_state [of "ts @ [CleanTurn, BadTurn k, CleanTurn]" b] assms
    by (simp add: step_completable_def health_after_def word_le_nat_alt)
qed

section \<open>The stream monitor\<close>

text \<open>
  C40. The live monitor agrees with the scan: for a stream whose chunks end at line feeds,
  followed by one more piece of any shape, it reports degenerate output exactly when the
  accumulated text is a slash flood or a token loop.
\<close>

theorem monitor_agrees_with_scan:
  assumes "\<forall>d \<in> set ds. d = [] \<or> is_nl (last d)"
  shows "detected (push (foldl push monitor_new ds) d) \<longleftrightarrow>
     is_slash_flood (concat ds @ d) \<or> is_repeated_token_loop (concat ds @ d)"
proof -
  have "concat ds = [] \<or> is_nl (last (concat ds))"
    using assms by (induction ds rule: rev_induct) (auto simp: last_append)
  then have "push (foldl push monitor_new ds) d = push monitor_new (concat ds @ d)"
    by (simp only: push_lines [OF assms] push_after_nl)
  then show ?thesis
    by (simp only: detected_scan)
qed

theorem monitor_agrees_with_scan_witness:
  "detected (push (foldl push monitor_new [''a'' @ [CHR 0x0A]]) ''b ////////'')
   \<longleftrightarrow> is_slash_flood (''a'' @ [CHR 0x0A] @ ''b ////////'')
       \<or> is_repeated_token_loop (''a'' @ [CHR 0x0A] @ ''b ////////'')"
  using monitor_agrees_with_scan [of "[''a'' @ [CHR 0x0A]]" "''b ////////''"]
  by (simp add: is_nl_def)

text \<open>
  Where a chunk ends inside the three backticks of a fence, the count of backticks is lost: the
  monitor reads the code block as prose and reports a flood the scan does not see.
\<close>

lemma split_fence_is_missed:
  "detected (push (push monitor_new (replicate 2 (CHR 0x60)))
       (CHR 0x60 # CHR 0x0A # replicate 8 (CHR ''/'')))
   \<and> \<not> is_slash_flood (replicate 3 (CHR 0x60) @ CHR 0x0A # replicate 8 (CHR ''/''))
   \<and> \<not> is_repeated_token_loop (replicate 3 (CHR 0x60) @ CHR 0x0A # replicate 8 (CHR ''/''))"
  by code_simp

section \<open>Breakers and the call budget\<close>

lemma breaker_streak:
  assumes "last_error b = Some (breaker_signature name err)"
  shows "snd (breaker_observe b name err) \<longleftrightarrow> streak b + 1 = threshold b"
    "streak (fst (breaker_observe b name err)) = streak b + 1"
    "threshold (fst (breaker_observe b name err)) = threshold b"
    "last_error (fst (breaker_observe b name err)) = Some (breaker_signature name err)"
  using assms by (simp_all add: breaker_observe_def Let_def)

text \<open>In a row of identical failures exactly the one that reaches the threshold fires.\<close>

fun observe_all :: "error_breaker \<Rightarrow> (string \<times> string) list \<Rightarrow> bool list" where
  "observe_all b [] = []"
| "observe_all b ((name, err) # es) =
     (let (b', fires) = breaker_observe b name err in fires # observe_all b' es)"

lemma observe_all_same:
  assumes "last_error b = Some (breaker_signature name err)"
  shows "observe_all b (replicate n (name, err)) = map (\<lambda>i. streak b + i + 1 = threshold b) [0..<n]"
  using assms
proof (induction n arbitrary: b)
  case (Suc n)
  obtain b' f where o: "breaker_observe b name err = (b', f)"
    by (cases "breaker_observe b name err")
  note s = breaker_streak [OF Suc.prems, unfolded o fst_conv snd_conv]
  have "observe_all b (replicate (Suc n) (name, err)) = f # observe_all b' (replicate n (name, err))"
    by (simp add: o)
  also have "\<dots> = f # map (\<lambda>i. streak b' + i + 1 = threshold b') [0..<n]"
    using Suc.IH [of b'] s by simp
  also have "\<dots> = map (\<lambda>i. streak b + i + 1 = threshold b) [0..<Suc n]"
    using s by (simp add: upt_conv_Cons map_Suc_upt [symmetric] del: upt_Suc)
  finally show ?case .
qed simp

lemma breaker_fires_once:
  assumes "last_error b \<noteq> Some (breaker_signature name err)" "1 \<le> threshold b"
  shows "observe_all b (replicate n (name, err)) = map (\<lambda>i. i + 1 = threshold b) [0..<n]"
proof (cases n)
  case (Suc m)
  obtain b' f where o: "breaker_observe b name err = (b', f)"
    by (cases "breaker_observe b name err")
  then have b': "last_error b' = Some (breaker_signature name err)" "streak b' = 1"
    "threshold b' = threshold b" "f \<longleftrightarrow> threshold b = 1"
    using assms by (auto simp: breaker_observe_def Let_def)
  show ?thesis
    using observe_all_same [OF b'(1), of m] o b' Suc
    by (simp add: upt_conv_Cons map_Suc_upt [symmetric] del: upt_Suc) auto
qed simp

lemma budget_is_a_hard_cap:
  assumes "budget_hard_max c = Some hard" "budget_decide c used np = Continue"
  shows "used < hard \<and> (np \<longrightarrow> (\<forall>soft. budget_soft_start c = Some soft \<longrightarrow> used < soft))"
  using assms by (cases c) (auto split: if_splits)

lemma budget_new_ordered:
  assumes "budget_soft_start (budget_new s h) = Some soft" "budget_hard_max (budget_new s h) = Some hard"
  shows "soft \<le> hard"
  using assms by (cases s; cases h) auto

end
