(* ===== verification/No_Progress.thy ===== *)
theory No_Progress
  imports Detect F32
begin

text \<open>
  The no-progress detector of \<^verbatim>\<open>crates/localpilot-recovery/src/detect.rs\<close>: successful calls that get nowhere, from
  counts kept up to date over a sliding window, with one hint and one grace call per turn. The two digests are
  arguments; a \<open>f64\<close> that is no NaN is the rational it denotes, and a quotient is rounded to 53 bits.
\<close>

section \<open>The detector\<close>

definition NO_PROGRESS_WINDOW :: nat where
  "NO_PROGRESS_WINDOW = 12"

definition NO_PROGRESS_DISTINCT_FLOOR :: rat where
  "NO_PROGRESS_DISTINCT_FLOOR = 6124895493223875 / 18014398509481984"

definition NO_PROGRESS_REPEAT_THRESHOLD :: nat where
  "NO_PROGRESS_REPEAT_THRESHOLD = 3"

definition NO_PROGRESS_GRACE_CALLS :: nat where
  "NO_PROGRESS_GRACE_CALLS = 1"

datatype no_progress_signal = No_signal | StuckRepeat nat | NoveltyDecay nat nat

definition signal_is_active :: "no_progress_signal \<Rightarrow> bool" where
  "signal_is_active s \<longleftrightarrow> s \<noteq> No_signal"

record recent_entry =
  re_signature :: u64
  re_pair :: u64

record no_progress_detector =
  np_window :: nat
  np_distinct_floor :: rat
  np_repeat_threshold :: nat
  np_repeats :: "u64 \<Rightarrow> nat option"
  np_recent :: "recent_entry list"
  np_active :: no_progress_signal
  np_tripped_since_reset :: bool
  np_nudged :: bool
  np_grace_remaining :: nat

definition no_progress_new :: "nat \<Rightarrow> rat \<Rightarrow> nat \<Rightarrow> no_progress_detector" where
  "no_progress_new window distinct_floor needed =
     \<lparr>np_window = max window 1, np_distinct_floor = min (max distinct_floor 0) 1, np_repeat_threshold = max needed 1,
      np_repeats = (\<lambda>_. None), np_recent = [], np_active = No_signal, np_tripped_since_reset = False,
      np_nudged = False, np_grace_remaining = 0\<rparr>"

definition no_progress_default :: no_progress_detector where
  "no_progress_default = no_progress_new NO_PROGRESS_WINDOW NO_PROGRESS_DISTINCT_FLOOR NO_PROGRESS_REPEAT_THRESHOLD"

text \<open>A quotient of two \<open>usize\<close> below \<open>2 ^ 53\<close> that is at most one, as a \<open>f64\<close>.\<close>

definition round_f64_nonneg :: "rat \<Rightarrow> rat" where
  "round_f64_nonneg q =
     (case find (\<lambda>e. q < pow2 (53 + e)) [-1074..971] of
        None \<Rightarrow> q
      | Some e \<Rightarrow> of_int (round_half_even (q / pow2 e)) * pow2 e)"

definition distinct_count :: "recent_entry list \<Rightarrow> nat" where
  "distinct_count recent = length (remdups (map re_signature recent))"

definition distinct_ratio :: "recent_entry list \<Rightarrow> rat" where
  "distinct_ratio recent =
     (if recent = [] then 1 else round_f64_nonneg (of_nat (distinct_count recent) / of_nat (length recent)))"

definition count_up :: "u64 \<Rightarrow> (u64 \<Rightarrow> nat option) \<Rightarrow> u64 \<Rightarrow> nat option" where
  "count_up p m = m(p \<mapsto> (case m p of None \<Rightarrow> 0 | Some n \<Rightarrow> n) + 1)"

definition count_down :: "u64 \<Rightarrow> (u64 \<Rightarrow> nat option) \<Rightarrow> u64 \<Rightarrow> nat option" where
  "count_down p m = (case m p of None \<Rightarrow> m | Some n \<Rightarrow> if n - 1 = 0 then m(p := None) else m(p \<mapsto> n - 1))"

fun evict :: "nat \<Rightarrow> recent_entry list \<Rightarrow> (u64 \<Rightarrow> nat option) \<Rightarrow> recent_entry list \<times> (u64 \<Rightarrow> nat option)" where
  "evict window [] m = ([], m)"
| "evict window (e # es) m =
     (if length (e # es) > window then evict window es (count_down (re_pair e) m) else (e # es, m))"

text \<open>The signal of the newest entry: how often its pair is counted, then how many calls of a full window differ.\<close>

definition signal_now :: "nat \<Rightarrow> rat \<Rightarrow> nat \<Rightarrow> nat \<Rightarrow> recent_entry list \<Rightarrow> no_progress_signal" where
  "signal_now window distinct_floor needed stuck recent =
     (if stuck \<ge> needed then StuckRepeat stuck
      else if length recent \<ge> window \<and> distinct_ratio recent < distinct_floor
      then NoveltyDecay (distinct_count recent) (length recent)
      else No_signal)"

definition no_progress_observe ::
  "(string \<Rightarrow> u64) \<Rightarrow> (string \<Rightarrow> string \<Rightarrow> u64) \<Rightarrow> string \<Rightarrow> string \<Rightarrow> no_progress_detector
   \<Rightarrow> no_progress_detector \<times> bool" where
  "no_progress_observe digest digest_pair signature output d =
     (let pair = digest_pair signature output;
          (recent, repeats) =
            evict (np_window d) (np_recent d @ [\<lparr>re_signature = digest signature, re_pair = pair\<rparr>])
              (count_up pair (np_repeats d));
          stuck = (case repeats pair of None \<Rightarrow> 0 | Some n \<Rightarrow> n);
          active = signal_now (np_window d) (np_distinct_floor d) (np_repeat_threshold d) stuck recent;
          crossing = (signal_is_active active \<and> \<not> np_nudged d)
      in (d\<lparr>np_repeats := repeats, np_recent := recent, np_active := active,
            np_tripped_since_reset := np_tripped_since_reset d \<or> signal_is_active active,
            np_nudged := np_nudged d \<or> crossing,
            np_grace_remaining := (if crossing then NO_PROGRESS_GRACE_CALLS else np_grace_remaining d)\<rparr>,
          crossing))"

definition active_signal :: "no_progress_detector \<Rightarrow> no_progress_signal" where
  "active_signal d = np_active d"

definition is_tripped :: "no_progress_detector \<Rightarrow> bool" where
  "is_tripped d = np_tripped_since_reset d"

definition consume_grace :: "no_progress_detector \<Rightarrow> no_progress_detector \<times> bool" where
  "consume_grace d =
     (if np_grace_remaining d > 0 then (d\<lparr>np_grace_remaining := np_grace_remaining d - 1\<rparr>, True) else (d, False))"

definition has_nudged :: "no_progress_detector \<Rightarrow> bool" where
  "has_nudged d = np_nudged d"

definition no_progress_reset :: "no_progress_detector \<Rightarrow> no_progress_detector" where
  "no_progress_reset d =
     d\<lparr>np_repeats := (\<lambda>_. None), np_recent := [], np_active := No_signal, np_tripped_since_reset := False,
       np_grace_remaining := 0\<rparr>"

text \<open>The incremental detector against a look at the last calls themselves, over any turn with steering.\<close>

section \<open>The counts are those of the window\<close>

definition well_counted :: "recent_entry list \<Rightarrow> (u64 \<Rightarrow> nat option) \<Rightarrow> bool" where
  "well_counted es m \<longleftrightarrow>
     (\<forall>p. m p = (let n = count_list (map re_pair es) p in if n = 0 then None else Some n))"

lemma counted_value: "well_counted es m \<Longrightarrow> (case m p of None \<Rightarrow> 0 | Some n \<Rightarrow> n) = count_list (map re_pair es) p"
  by (simp add: well_counted_def Let_def)

lemma count_up_counted: "well_counted es m \<Longrightarrow> well_counted (es @ [e]) (count_up (re_pair e) m)"
  by (auto simp: well_counted_def count_up_def Let_def)

lemma count_down_counted: "well_counted (e # es) m \<Longrightarrow> well_counted es (count_down (re_pair e) m)"
  by (auto simp: well_counted_def count_down_def Let_def split: option.splits if_splits)

lemma evict_window:
  "well_counted es m \<Longrightarrow> \<exists>m'. evict window es m = (drop (length es - window) es, m') \<and> well_counted (drop (length es - window) es) m'"
proof (induction es arbitrary: m)
  case (Cons e es)
  show ?case
  proof (cases "length (e # es) > window")
    case True
    then have "length (e # es) - window = Suc (length es - window)" by simp
    with True Cons.IH [OF count_down_counted [OF Cons.prems]] show ?thesis by simp
  next
    case False
    with Cons.prems show ?thesis by simp
  qed
qed simp

section \<open>A turn\<close>

datatype np_op = Observed string string | Grace | Steered

text \<open>A detector with the hints it gave and the grace calls it let through so far.\<close>

type_synonym np_turn = "no_progress_detector \<times> nat \<times> nat"

fun np_step :: "(string \<Rightarrow> u64) \<Rightarrow> (string \<Rightarrow> string \<Rightarrow> u64) \<Rightarrow> np_op \<Rightarrow> np_turn \<Rightarrow> np_turn" where
  "np_step dg dp (Observed s out) (d, hints, graces) =
     (let (d', hint) = no_progress_observe dg dp s out d in (d', hints + of_bool hint, graces))"
| "np_step dg dp Grace (d, hints, graces) =
     (let (d', granted) = consume_grace d in (d', hints, graces + of_bool granted))"
| "np_step dg dp Steered (d, hints, graces) = (no_progress_reset d, hints, graces)"

definition np_run :: "(string \<Rightarrow> u64) \<Rightarrow> (string \<Rightarrow> string \<Rightarrow> u64) \<Rightarrow> np_op list \<Rightarrow> no_progress_detector \<Rightarrow> np_turn" where
  "np_run dg dp ops d = fold (np_step dg dp) ops (d, 0, 0)"

text \<open>The calls since the last steering.\<close>

fun np_add :: "(string \<Rightarrow> u64) \<Rightarrow> (string \<Rightarrow> string \<Rightarrow> u64) \<Rightarrow> np_op \<Rightarrow> recent_entry list \<Rightarrow> recent_entry list" where
  "np_add dg dp (Observed s out) es = es @ [\<lparr>re_signature = dg s, re_pair = dp s out\<rparr>]"
| "np_add dg dp Grace es = es"
| "np_add dg dp Steered es = []"

definition calls_since :: "(string \<Rightarrow> u64) \<Rightarrow> (string \<Rightarrow> string \<Rightarrow> u64) \<Rightarrow> np_op list \<Rightarrow> recent_entry list" where
  "calls_since dg dp ops = fold (np_add dg dp) ops []"

text \<open>What a look at the last calls says.\<close>

definition window_signal :: "no_progress_detector \<Rightarrow> recent_entry list \<Rightarrow> no_progress_signal" where
  "window_signal d0 es =
     (let w = drop (length es - np_window d0) es
      in if es = [] then No_signal
         else signal_now (np_window d0) (np_distinct_floor d0) (np_repeat_threshold d0)
                (count_list (map re_pair w) (re_pair (last es))) w)"

definition np_stuck :: "no_progress_detector \<Rightarrow> recent_entry list \<Rightarrow> bool" where
  "np_stuck d0 es \<longleftrightarrow> signal_is_active (window_signal d0 es)"

definition np_inv ::
  "(string \<Rightarrow> u64) \<Rightarrow> (string \<Rightarrow> string \<Rightarrow> u64) \<Rightarrow> no_progress_detector \<Rightarrow> np_op list \<Rightarrow> np_turn \<Rightarrow> bool" where
  "np_inv dg dp d0 ops x =
     (case x of (d, hints, graces) \<Rightarrow>
        let es = calls_since dg dp ops; w = drop (length es - np_window d0) es
        in np_window d = np_window d0 \<and> np_distinct_floor d = np_distinct_floor d0 \<and>
           np_repeat_threshold d = np_repeat_threshold d0 \<and>
           np_recent d = w \<and> well_counted w (np_repeats d) \<and> np_active d = window_signal d0 es \<and>
           (np_tripped_since_reset d \<longleftrightarrow> (\<exists>k \<le> length es. np_stuck d0 (take k es))) \<and>
           (np_nudged d \<longleftrightarrow> (\<exists>k \<le> length ops. np_stuck d0 (calls_since dg dp (take k ops)))) \<and>
           hints = of_bool (np_nudged d) \<and> graces + np_grace_remaining d \<le> hints * NO_PROGRESS_GRACE_CALLS)"

lemma calls_since_snoc: "calls_since dg dp (ops @ [p]) = np_add dg dp p (calls_since dg dp ops)"
  by (simp add: calls_since_def)

lemma not_stuck_empty [simp]: "\<not> np_stuck d0 []"
  by (simp add: np_stuck_def window_signal_def signal_is_active_def)

lemma ex_prefix_snoc:
  "(\<exists>k \<le> length (xs @ [x]). P (take k (xs @ [x]))) \<longleftrightarrow> (\<exists>k \<le> length xs. P (take k xs)) \<or> P (xs @ [x])"
proof -
  have "(\<exists>k \<le> Suc (length xs). Q k) \<longleftrightarrow> (\<exists>k \<le> length xs. Q k) \<or> Q (Suc (length xs))" for Q
    by (auto simp: le_Suc_eq)
  moreover have "(\<exists>k \<le> length xs. P (take k (xs @ [x]))) \<longleftrightarrow> (\<exists>k \<le> length xs. P (take k xs))" by auto
  ultimately show ?thesis by simp
qed

lemma window_snoc:
  "drop (length (drop (length es - W) es @ [e]) - W) (drop (length es - W) es @ [e]) = drop (length (es @ [e]) - W) (es @ [e])"
proof (cases "length es < W")
  case False
  then have n: "length (es @ [e]) - W = Suc (length es - W)" by simp
  have "drop (Suc (length es - W)) (es @ [e]) = drop 1 (drop (length es - W) (es @ [e]))" by (simp only: drop_drop) simp
  also have "drop (length es - W) (es @ [e]) = drop (length es - W) es @ [e]" by simp
  finally show ?thesis using False unfolding n by simp
qed simp

lemma np_observe_inv:
  assumes inv: "np_inv dg dp d0 ops (d, hints, graces)" and w0: "0 < np_window d0"
  shows "np_inv dg dp d0 (ops @ [Observed s out]) (np_step dg dp (Observed s out) (d, hints, graces))"
proof -
  let ?es = "calls_since dg dp ops" and ?W = "np_window d0"
  define e where "e = \<lparr>re_signature = dg s, re_pair = dp s out\<rparr>"
  define w where "w = drop (length ?es - ?W) ?es"
  define w' where "w' = drop (length (?es @ [e]) - ?W) (?es @ [e])"
  have old: "np_window d = ?W" "np_distinct_floor d = np_distinct_floor d0" "np_repeat_threshold d = np_repeat_threshold d0"
    "np_recent d = w" "well_counted w (np_repeats d)" "hints = of_bool (np_nudged d)"
    "graces + np_grace_remaining d \<le> hints * NO_PROGRESS_GRACE_CALLS"
    and tripped: "np_tripped_since_reset d \<longleftrightarrow> (\<exists>k \<le> length ?es. np_stuck d0 (take k ?es))"
    and nudged: "np_nudged d \<longleftrightarrow> (\<exists>k \<le> length ops. np_stuck d0 (calls_since dg dp (take k ops)))"
    using inv unfolding np_inv_def w_def Let_def prod.case by blast+
  have es': "calls_since dg dp (ops @ [Observed s out]) = ?es @ [e]" by (simp add: calls_since_snoc e_def)
  have win: "drop (length (w @ [e]) - ?W) (w @ [e]) = w'" unfolding w_def w'_def by (rule window_snoc)
  from evict_window [OF count_up_counted [OF old(5), of e], of ?W] win obtain m where
    ev: "evict ?W (w @ [e]) (count_up (re_pair e) (np_repeats d)) = (w', m)" and m: "well_counted w' m" by metis
  have stuck: "(case m (re_pair e) of None \<Rightarrow> 0 | Some n \<Rightarrow> n) = count_list (map re_pair w') (re_pair e)"
    by (rule counted_value [OF m])
  define a where "a = window_signal d0 (?es @ [e])"
  have a: "signal_now ?W (np_distinct_floor d0) (np_repeat_threshold d0) (count_list (map re_pair w') (re_pair e)) w' = a"
    by (simp add: a_def window_signal_def w'_def Let_def)
  have st: "np_stuck d0 (?es @ [e]) \<longleftrightarrow> signal_is_active a" by (simp add: np_stuck_def a_def)
  let ?hint = "signal_is_active a \<and> \<not> np_nudged d"
  have step: "np_step dg dp (Observed s out) (d, hints, graces) =
      (d\<lparr>np_repeats := m, np_recent := w', np_active := a,
          np_tripped_since_reset := np_tripped_since_reset d \<or> signal_is_active a, np_nudged := np_nudged d \<or> ?hint,
          np_grace_remaining := (if ?hint then NO_PROGRESS_GRACE_CALLS else np_grace_remaining d)\<rparr>,
       hints + of_bool ?hint, graces)"
    using ev stuck a old(1-4) by (simp add: no_progress_observe_def Let_def e_def)
  have tr: "(\<exists>k \<le> length (?es @ [e]). np_stuck d0 (take k (?es @ [e]))) \<longleftrightarrow> np_tripped_since_reset d \<or> signal_is_active a"
    unfolding ex_prefix_snoc tripped st ..
  have nu: "(\<exists>k \<le> length (ops @ [Observed s out]). np_stuck d0 (calls_since dg dp (take k (ops @ [Observed s out])))) \<longleftrightarrow>
      np_nudged d \<or> signal_is_active a"
    unfolding ex_prefix_snoc [where P = "\<lambda>xs. np_stuck d0 (calls_since dg dp xs)"] nudged es' st ..
  have budget: "graces + (if ?hint then NO_PROGRESS_GRACE_CALLS else np_grace_remaining d) \<le>
      (hints + of_bool ?hint) * NO_PROGRESS_GRACE_CALLS"
    using old(6,7) by (cases "np_nudged d") (simp_all add: NO_PROGRESS_GRACE_CALLS_def)
  show ?thesis
    unfolding step np_inv_def es' Let_def prod.case tr nu w'_def [symmetric] a_def [symmetric]
    using old(1-3,6) m budget by (cases "np_nudged d") simp_all
qed

lemma np_grace_inv:
  assumes inv: "np_inv dg dp d0 ops (d, hints, graces)"
  shows "np_inv dg dp d0 (ops @ [Grace]) (np_step dg dp Grace (d, hints, graces))"
proof -
  let ?es = "calls_since dg dp ops"
  have es: "calls_since dg dp (ops @ [Grace]) = ?es" by (simp add: calls_since_snoc)
  have again: "np_stuck d0 ?es \<Longrightarrow> \<exists>k \<le> length ops. np_stuck d0 (calls_since dg dp (take k ops))"
    by (rule exI [of _ "length ops"]) simp
  have nu: "(\<exists>k \<le> length (ops @ [Grace]). np_stuck d0 (calls_since dg dp (take k (ops @ [Grace])))) \<longleftrightarrow>
      (\<exists>k \<le> length ops. np_stuck d0 (calls_since dg dp (take k ops)))"
    unfolding ex_prefix_snoc [where P = "\<lambda>xs. np_stuck d0 (calls_since dg dp xs)"] es using again by blast
  let ?d = "fst (consume_grace d)" and ?g = "graces + of_bool (snd (consume_grace d))"
  obtain d' g where step: "np_step dg dp Grace (d, hints, graces) = (d', hints, g)"
    and same: "g + np_grace_remaining d' = graces + np_grace_remaining d" "np_window d' = np_window d"
      "np_distinct_floor d' = np_distinct_floor d" "np_repeat_threshold d' = np_repeat_threshold d"
      "np_recent d' = np_recent d" "np_repeats d' = np_repeats d" "np_active d' = np_active d"
      "np_tripped_since_reset d' = np_tripped_since_reset d" "np_nudged d' = np_nudged d"
    by (rule that [of ?d ?g]) (simp_all add: consume_grace_def)
  show ?thesis using inv unfolding step np_inv_def es Let_def prod.case nu same .
qed

lemma np_steered_inv:
  assumes inv: "np_inv dg dp d0 ops (d, hints, graces)"
  shows "np_inv dg dp d0 (ops @ [Steered]) (np_step dg dp Steered (d, hints, graces))"
proof -
  have es: "calls_since dg dp (ops @ [Steered]) = []" by (simp add: calls_since_snoc)
  have nu: "(\<exists>k \<le> length (ops @ [Steered]). np_stuck d0 (calls_since dg dp (take k (ops @ [Steered])))) \<longleftrightarrow>
      (\<exists>k \<le> length ops. np_stuck d0 (calls_since dg dp (take k ops)))"
    unfolding ex_prefix_snoc [where P = "\<lambda>xs. np_stuck d0 (calls_since dg dp xs)"] es by simp
  have old: "np_window d = np_window d0 \<and> np_distinct_floor d = np_distinct_floor d0 \<and> np_repeat_threshold d = np_repeat_threshold d0"
    "np_nudged d \<longleftrightarrow> (\<exists>k \<le> length ops. np_stuck d0 (calls_since dg dp (take k ops)))" "hints = of_bool (np_nudged d)"
    "graces + np_grace_remaining d \<le> hints * NO_PROGRESS_GRACE_CALLS"
    using inv unfolding np_inv_def Let_def prod.case by blast+
  have "graces \<le> hints * NO_PROGRESS_GRACE_CALLS" using old(4) by (rule add_leD1)
  then show ?thesis
    unfolding np_step.simps np_inv_def es Let_def prod.case nu
    using old(1,2,3) by (simp add: no_progress_reset_def well_counted_def window_signal_def Let_def)
qed

lemma np_run_inv:
  assumes "0 < np_window d0" "np_inv dg dp d0 [] (d0, 0, 0)"
  shows "np_inv dg dp d0 ops (np_run dg dp ops d0)"
proof (induction ops rule: rev_induct)
  case (snoc p ops)
  obtain d hints graces where x: "np_run dg dp ops d0 = (d, hints, graces)" by (metis prod_cases3)
  have r: "np_run dg dp (ops @ [p]) d0 = np_step dg dp p (d, hints, graces)" using x by (simp add: np_run_def)
  note inv = snoc [unfolded x]
  show ?case unfolding r
    by (cases p) (use np_observe_inv [OF inv assms(1)] np_grace_inv [OF inv] np_steered_inv [OF inv] in simp_all)
qed (use assms(2) in \<open>simp add: np_run_def\<close>)

lemma np_new_inv: "np_inv dg dp (no_progress_new W F T) [] (no_progress_new W F T, 0, 0)"
  by (simp add: np_inv_def no_progress_new_def calls_since_def well_counted_def window_signal_def Let_def)

section \<open>The property\<close>

text \<open>
  C39. However a turn's successful calls, its steering and its grace calls follow each other, the detector that keeps
  its counts up to date says of the last call what a look at the last window of calls since the steering says: how
  often the newest call and output occur in it or, when it is full, that too few of its calls differ. The latched view is set
  exactly when the signal was active at some call since the steering. In the whole turn the hint is given once,
  exactly when the signal was ever active, and at most one call is let through after it.
\<close>

theorem no_progress_looks_at_the_window:
  fixes W T :: nat and F :: rat
  defines "d0 \<equiv> no_progress_new W F T"
  assumes run: "np_run dg dp ops d0 = (d, hints, graces)"
  shows "active_signal d = window_signal d0 (calls_since dg dp ops) \<and>
    (is_tripped d \<longleftrightarrow>
       (\<exists>k \<le> length (calls_since dg dp ops). signal_is_active (window_signal d0 (take k (calls_since dg dp ops))))) \<and>
    hints = of_bool (\<exists>k \<le> length ops. signal_is_active (window_signal d0 (calls_since dg dp (take k ops)))) \<and>
    graces \<le> NO_PROGRESS_GRACE_CALLS"
proof -
  have "0 < np_window d0" by (simp add: d0_def no_progress_new_def)
  from np_run_inv [OF this np_new_inv [of dg dp W F T, folded d0_def], of ops]
  have inv: "np_inv dg dp d0 ops (d, hints, graces)" by (simp only: run)
  then have facts: "np_active d = window_signal d0 (calls_since dg dp ops)"
    "np_tripped_since_reset d \<longleftrightarrow> (\<exists>k \<le> length (calls_since dg dp ops). np_stuck d0 (take k (calls_since dg dp ops)))"
    "np_nudged d \<longleftrightarrow> (\<exists>k \<le> length ops. np_stuck d0 (calls_since dg dp (take k ops)))"
    "hints = of_bool (np_nudged d)" "graces + np_grace_remaining d \<le> hints * NO_PROGRESS_GRACE_CALLS"
    unfolding np_inv_def Let_def prod.case by blast+
  have "hints \<le> 1" using facts(4) by simp
  with facts(5) have "graces \<le> NO_PROGRESS_GRACE_CALLS" by (simp add: NO_PROGRESS_GRACE_CALLS_def)
  then show ?thesis
    unfolding active_signal_def is_tripped_def facts(4) unfolding facts(1-3) np_stuck_def by simp
qed

theorem no_progress_looks_at_the_window_witness:
  "\<exists>d. np_run (\<lambda>s. 1) (\<lambda>s out. 2) [Observed ''a'' ''x'', Observed ''a'' ''x'', Grace, Grace] (no_progress_new 12 0 2) = (d, 1, 1) \<and>
     active_signal d = StuckRepeat 2 \<and> is_tripped d"
proof -
  obtain d h g where r: "np_run (\<lambda>s. 1) (\<lambda>s out. 2) [Observed ''a'' ''x'', Observed ''a'' ''x'', Grace, Grace] (no_progress_new 12 0 2) = (d, h, g)"
    by (metis prod_cases3)
  from no_progress_looks_at_the_window [OF this]
  have "active_signal d = StuckRepeat 2"
    by (simp add: calls_since_def window_signal_def no_progress_new_def signal_now_def Let_def)
  moreover have "h = 1 \<and> g = 1 \<and> is_tripped d"
    using r by (auto simp: np_run_def no_progress_observe_def no_progress_new_def count_up_def signal_now_def
        signal_is_active_def consume_grace_def NO_PROGRESS_GRACE_CALLS_def is_tripped_def Let_def)
  ultimately show ?thesis using r by blast
qed

end
