(* ===== verification/Spec2Isabelle.thy ===== *)
theory Spec2Isabelle
  imports Session_Spec Agents_Spec Rpc_Frame Plan_Spec Calendar Pair_Spec Host_Spec Ownership_Spec Store_Spec
    Compaction_Spec Life_Spec Taskgraph_Spec Sandbox_Spec Quota_Spec Recovery_Spec No_Progress
begin

text \<open>
  \<^bold>\<open>A verification development for LocalPilot\<close>

  LocalPilot is a terminal agent: a harness drives a language model turn by turn, the model asks
  for tool calls, and a sandbox decides which of them run. Work that is too large for one
  session is laid out as a task graph that a swarm of sessions shares: a server hosts them, keeps
  the registry of who works for whom, runs the plan, carries their messages, notices when two of
  them touch the same file, and cleans up after those that stop answering. Each session is kept on
  disk by a store that several processes may open at once, and a conversation that outgrows the
  model's context is cut down before it is sent. The development models
  the decision-making core of that system and leaves the input and output around it out.

  \<^bold>\<open>Parts and where they are modelled\<close>

  \<^item> The task graph, \<^verbatim>\<open>crates/localpilot-taskgraph/src\<close>. \<open>Plan\<close> has the plan as the record
    \<open>task_plan\<close> with its nodes in a \<open>BTreeMap\<close> and the primitive mutations of \<^verbatim>\<open>plan.rs\<close> and
    the refusals of \<^verbatim>\<open>error.rs\<close>; \<open>Artifact\<close> the handoff and the confidence parser of
    \<^verbatim>\<open>artifact.rs\<close> over the single-precision arithmetic of \<open>F32\<close>; \<open>Batch\<close> the validation and
    insertion of a batch and \<open>Ops\<close> the operations of \<^verbatim>\<open>ops.rs\<close>; \<open>Schedule\<close> readiness, the
    sweep over blocked tasks, dispatch and input assembly of \<^verbatim>\<open>schedule.rs\<close>; \<open>Sim\<close> the round
    loop of \<^verbatim>\<open>sim.rs\<close>.
  \<^item> The sandbox, \<^verbatim>\<open>crates/localpilot-sandbox/src\<close>. \<open>Command_Class\<close> classifies a command line
    (\<^verbatim>\<open>command.rs\<close>), \<open>Permission\<close> decides a request (\<^verbatim>\<open>permission.rs\<close>), \<open>Workspace_Path\<close> has
    \<^verbatim>\<open>secret_path.rs\<close> and \<^verbatim>\<open>path.rs\<close> over the POSIX paths of \<open>Rust_Path\<close>.
    \<open>Admission\<close> is the gate of \<^verbatim>\<open>crates/localpilot-core/src/admission.rs\<close> that the engine
    handle goes through.
  \<^item> The swarm, \<^verbatim>\<open>crates/localpilot-server/src/swarm\<close>. \<open>Swarm_Registry\<close> is \<^verbatim>\<open>registry.rs\<close>: swarms
    with their members, slots, idempotency keys, limits, spawn tree, coordinator and plan, one
    definition per operation. \<open>Touches\<close> has \<^verbatim>\<open>crates/localpilot-tools/src/touch.rs\<close> and
    \<^verbatim>\<open>touches.rs\<close>: file touches, the index of them and the alerts. \<open>Swarm_Host\<close> is
    \<^verbatim>\<open>spawn.rs\<close> over the session registry of \<^verbatim>\<open>crates/localpilot-server/src/registry.rs\<close>: adopting,
    spawning, finishing. \<open>Swarm_Messaging\<close> is \<^verbatim>\<open>messaging.rs\<close> and the durable snapshots of
    \<^verbatim>\<open>lifecycle.rs\<close>, \<open>Swarm_Life\<close> its other half, salvage; \<open>Swarm_Driver\<close> is \<^verbatim>\<open>driver.rs\<close>,
    the loop that hands the tasks of a plan (\<open>Schedule\<close>, \<open>Ops\<close>) to spawned workers.
  \<^item> The converging pair, \<^verbatim>\<open>converge.rs\<close> of the same directory, in \<open>Pair_Protocol\<close>: two peers
    propose and agree until both hold the same revision, within rounds, deadlines and budgets.
  \<^item> The session host, \<^verbatim>\<open>crates/localpilot-server/src/host.rs\<close>, in \<open>Session_Host\<close>, with the steer queue
    of \<^verbatim>\<open>crates/localpilot-harness/src/session.rs\<close>: admission of input, the follow-up queue, the task
    that drives admitted work, cancellation, commands and closing. \<open>Host_Inv\<close> has the steps of all
    callers, one per section of code between two locks, and runs of them in any order.
  \<^item> The store, \<^verbatim>\<open>crates/localpilot-store/src\<close>. \<open>Ownership\<close> is \<^verbatim>\<open>ownership.rs\<close> and the fence of
    \<^verbatim>\<open>lib.rs\<close> around session writes, \<open>Ownership_Run\<close> the steps of threads and processes on one
    directory; \<open>Store_Log\<close> is appending to and recovering a log of \<^verbatim>\<open>events.rs\<close> records, byte for byte,
    and the whole-file writes of \<^verbatim>\<open>atomic.rs\<close>; \<open>Store_Index\<close> the rest of \<^verbatim>\<open>lib.rs\<close>, index, names, caches,
    retention and pruning; \<open>Prompt_History\<close> is \<^verbatim>\<open>history.rs\<close>.
  \<^item> The session runtime, \<^verbatim>\<open>session/transfer.rs\<close> and what ownership is about in \<^verbatim>\<open>session.rs\<close> of
    \<^verbatim>\<open>crates/localpilot-harness/src\<close>, in \<open>Session_Runtime\<close>: claims, starting, loading, forking and closing a
    session, incognito, the frozen hand-over, and what only the owner may change. It relies on the store
    through the locale \<open>claim_store\<close>, which \<open>claims\<close> interprets on the model of \<open>Ownership\<close>;
    \<open>Session_System\<close> has runtimes of several processes over one directory.
  \<^item> Plans on disk, in the same directory of the harness. \<open>Progress_Doc\<close> is \<^verbatim>\<open>progress.rs\<close> over the string
    functions of \<open>Doc_Str\<close>, \<open>Brief_Doc\<close> is \<^verbatim>\<open>brief.rs\<close> and \<^verbatim>\<open>binding.rs\<close>, \<open>Plan_Reconcile\<close> is
    \<^verbatim>\<open>plan_reconcile.rs\<close>, the checks of \<^verbatim>\<open>plan_review.rs\<close> and the write of an approved plan in
    \<^verbatim>\<open>plan_draft.rs\<close>.
  \<^item> Delegation. \<open>Agent_Definition\<close> is \<^verbatim>\<open>crates/localpilot-agents/src\<close>: definitions, templates, grants and
    the scopes that are searched; \<open>Agent_Run\<close> is \<^verbatim>\<open>agent_run.rs\<close> and \<^verbatim>\<open>incognito.rs\<close> of the harness, the child
    a definition becomes, over the permission engine and the tool registry.
  \<^item> Streams to a driving process, \<^verbatim>\<open>framing.rs\<close> and \<^verbatim>\<open>feed.rs\<close> of \<^verbatim>\<open>crates/localpilot-rpc/src\<close>, in
    \<open>Rpc_Frame\<close>: cutting bytes into records, and the ring of numbered events.
  \<^item> Dates, in \<open>Calendar\<close>: \<^verbatim>\<open>crates/localpilot-llm-core/src/headers.rs\<close> with its arithmetic of 64 bits, and
    the calendar of \<^verbatim>\<open>decisions.rs\<close> of the harness.
  \<^item> Context compaction, \<^verbatim>\<open>crates/localpilot-harness/src/compaction.rs\<close>, in \<open>Compaction\<close>, over the
    messages, tool results and summaries of \<open>Core_Message\<close> (\<^verbatim>\<open>message.rs\<close>, \<^verbatim>\<open>tool.rs\<close> and \<^verbatim>\<open>summary.rs\<close> of
    \<^verbatim>\<open>crates/localpilot-core/src\<close>).
  \<^item> Quota, \<^verbatim>\<open>crates/localpilot-quota/src/lib.rs\<close>, in \<open>Quota\<close>: the wait window, the paused run
    and the resume gates, with their two callers, the pause in
    \<^verbatim>\<open>crates/localpilot-harness/src/resume.rs\<close> and the wait loop in
    \<^verbatim>\<open>crates/localpilot-cli/src/harness_cmd.rs\<close>.
  \<^item> Recovery, \<^verbatim>\<open>crates/localpilot-recovery/src\<close>. \<open>Detect\<close> has the scan for degenerate output,
    the incremental monitor and the breakers and budgets of \<^verbatim>\<open>detect.rs\<close>, \<open>No_Progress\<close> its
    detector of calls that get nowhere; \<open>Recovery\<close> the engine of \<^verbatim>\<open>engine.rs\<close>.
  \<^item> \<open>Prelude\<close> and \<open>Rust_Str\<close> hold what these crates use of the standard library: ordered maps,
    sorting with deduplication, results, string and character functions.

  \<^bold>\<open>How the model corresponds to the code\<close>

  A struct is a record, an enum a datatype with the source's variants, \<open>Result<T, E>\<close> the sum
  \<open>'e + 'a\<close> with the error on the left. A method that takes \<open>&mut self\<close> returns the new state
  together with its result, so every early return is a branch and a refused operation visibly
  returns a plan of its own. \<open>u32\<close> task ids and versions are natural numbers with the
  wrap-around of a release build written out, \<open>u64\<close> times are 64-bit words, \<open>usize\<close> is \<open>nat\<close>.
  A \<open>char\<close> is a code point below 256.

  What the code calls and this development does not define is an argument: the workers of the
  simulator (the \<open>SimExecutor\<close> trait), the endpoints of a pair, the worker factory of the swarm and
  what its workers answer, the file lease (the \<open>Lease\<close> trait), the file system, the clock and its
  sub-second part, JSON, YAML, redaction, digests and hashes, the answer of \<open>git status\<close>, the turn a host runs. The assumptions on such
  arguments are stated where they are used: \<open>canonical_fs\<close>, that \<open>canonicalize\<close> answers an absolute
  path without dots; that the codec of the index, of a log record and of a history line reads back what
  it wrote, and that of a snapshot where every confidence in it is a number (\<open>readable_snapshot\<close>); and \<open>await_keeps\<close>, that
  what runs while the driver waits leaves the plan well formed and owned by the coordinator.

  A lock of the server is held for one operation at a time, so concurrent callers are sequences of
  operations: \<open>reg_op\<close> in \<open>Swarm_Run\<close> lists those of the registry, \<open>touch_event\<close> in \<open>Touches\<close> those
  of the touch index, and properties hold for every sequence. In the session host and in the store's ownership of
  sessions, where a caller lets a lock go in the
  middle of an operation, the operation is several steps and the caller's place in it is state:
  \<open>loop_task\<close> and \<open>stage\<close> of a session host, \<open>agent_stage\<close> of a thread on the store. A capture reads the
  registry three times and has three registries. Elsewhere a call that takes several locks
  in turn is one step: \<open>spawn\<close>; \<open>salvage_member\<close>, whose changes to the registry are a sequence of its operations
  (\<open>salvage_is_a_run\<close>), so that what holds of every sequence holds when others come in between; \<open>prune\<close>, which
  holds no lock across the files; and an operation of a store in memory. What is shown of these alone is shown
  for when nothing else happens meanwhile. A file system call
  that fails, and a write that stops after some bytes, is a choice given with the step.

  Loops are recursion with a termination proof. The dependency search carries a visited set
  whose complement shrinks; the batch check has the stack of the code and a measure on the
  unfinished positions; the sweep and the simulator are bounded by the number of open tasks
  and by \<open>max_rounds\<close>; the climb to an existing path prefix is bounded by the path; the walks of
  the spawn tree by the members not yet seen; the pair by its rounds. The two loops of the plan
  driver may run for ever, so they are partial functions into \<open>option\<close>: \<open>plan_run_returns\<close> shows when
  they return and \<open>foreign_run_never_ends\<close> shows a run that does not. Nothing in the model has fuel. The wait loop runs over the list of moments at which it wakes up, and
  \<open>waiting_ends\<close> shows how long that list needs to be.

  \<^bold>\<open>What the lemmas show\<close>

  \<^item> \<open>Plan\<close>, \<open>Ops_Inv\<close>, \<open>Schedule_Inv\<close>, \<open>Plan_Run\<close>: the structural invariant of a plan
    (ids, ordered dependencies on existing tasks, artifacts exactly on completed tasks, no
    cycle), that every operation keeps it, and the relation \<open>reachable_plan\<close> over which the
    safety properties are stated. Two side conditions appear there: \<open>room\<close>, that an operation
    does not exhaust the 32-bit ids, and honest use of the coordinator role.
  \<^item> \<open>Sim_Live\<close>: a simulation stays within the reachable plans, and settles when its
    workers finish.
  \<^item> \<open>Growth\<close>: what a seed and an expansion add.
  \<^item> \<open>Taskgraph_Spec\<close> (C1, C2, C9 to C11, C34, C35): well-formedness, ordering, terminal states,
    ownership, refusals, the exactness of the batch check, of the search, of dispatch and of the sweep,
    absence of deadlock, idempotence of seeding, salvage, the simulator and the confidence
    parser.
  \<^item> \<open>Host_Inv\<close> and \<open>Host_Spec\<close> (C4, C26 to C28): the invariant of a host over every interleaving, the
    account of accepted work, that the driving task settles it, and what a Stop reaches.
  \<^item> \<open>Ownership_Inv\<close> and \<open>Ownership_Spec\<close> (C3, C29): exclusive writes and claims, what a released
    handle may do, growing generations, what the next owner reads, and a dead owner's session.
  \<^item> \<open>Store_Log_Inv\<close>, \<open>Store_Inv\<close>, \<open>Store_Run\<close> and \<open>Store_Spec\<close> (C15, C16, C32, C33): what torn writes
    cost, whole-file writes, unique names, retention, pruning and the prompt history.
  \<^item> \<open>Compaction_Inv\<close> and \<open>Compaction_Spec\<close> (C6, C30, C31): calls stay answered, the
    request stays, and what a result over the limit looks like.
  \<^item> \<open>Swarm_Inv\<close>, \<open>Swarm_Run\<close>, \<open>Swarm_Caps\<close>, \<open>Swarm_Tree\<close>: the invariant of the registry, that every
    operation keeps it, the caps over runs of operations, what becomes of a slot and of a key, and
    the spawn tree as a relation.
  \<^item> \<open>Swarm_Spec\<close> (C12 to C14, C18): consistency, caps and idempotency keys over
    any interleaving, atomic pair admission, the two walks of the tree, the scope of messages, slots
    of failed spawns, and the touch index as a refinement of a plain log.
  \<^item> \<open>Driver_Inv\<close> and \<open>Life_Spec\<close> (C19 to C21): salvage leaves nothing behind
    and is idempotent, a snapshot survives a restart and an interrupted save, a plan run returns.
  \<^item> \<open>Pair_Inv\<close> and \<open>Pair_Spec\<close> (C17, C36): convergence means that both peers agreed to the reported
    candidate, and a pair makes a bounded number of calls.
  \<^item> \<open>Permission\<close> and \<open>Sandbox_Spec\<close> (C22 to C25): decisions as a linear order, a locale for the
    floors with an interpretation for each, monotonicity of the profiles, what no profile or list
    can lift, what the command classifiers let through, and path containment.
  \<^item> \<open>Quota_Spec\<close>: a resume has passed every gate, waiting ends, the back-off is bounded.
  \<^item> \<open>Recovery_Spec\<close> (C40): when a step may complete, that the monitor
    agrees with the scan, and how often the breakers fire.
  \<^item> \<open>No_Progress\<close> (C39): the detector's running counts against a look at the window.
  \<^item> \<open>Session_System\<close> and \<open>Session_Spec\<close> (C5): over any run of runtimes in any processes, one runtime has
    a session, and what was frozen is what is handed over.
  \<^item> \<open>Progress_Spec\<close>, \<open>Plan_Spec\<close> and \<open>Brief_Doc\<close> (C7, C37): the plan document reads back as
    written, a replan keeps finished work and is stable, an approved plan is what resumes, and the revision
    of a brief tells changes from white space.
  \<^item> \<open>Agents_Spec\<close> (C8): a delegation never widens, and the highest scope names the agent.
  \<^item> \<open>Rpc_Frame\<close> (C38): records survive any chunking, and the ring refines the full log.
  \<^item> \<open>Calendar\<close>: both conversions agree with counting days.

  \<^bold>\<open>What the code does differently from its comments\<close>

  These places are recorded with a lemma each: the replay of a seed whose batch has a gate of
  its own (\<open>seed_replay_with_own_gate\<close>), a confidence that is not a number
  (\<open>confidence_can_be_nan\<close>), the exact command list under the unrestricted profile
  (\<open>exact_list_tightens_unrestricted\<close>), an in-place \<open>sed\<close> with a suffix
  (\<open>sed_with_suffix_is_read_only\<close>), a fence marker split between two chunks of a stream
  (\<open>split_fence_is_missed\<close>), a degraded model that recovers by failing once more
  (\<open>degraded_model_recovers_by_failing\<close>), a retry delay that overflows
  (\<open>huge_retry_after_wraps\<close>), a spawn that keeps its slot
  (\<open>refused_membership_keeps_the_slot\<close>), a plan run that never ends (\<open>foreign_run_never_ends\<close>), a
  cycle in the spawn tree (\<open>reparenting_can_make_a_cycle\<close>), a departed coordinator in its seat
  (\<open>departed_coordinator_keeps_the_seat\<close>), two swarms in one snapshot file
  (\<open>swarms_can_share_a_file\<close>), a message out of scope (\<open>one_peer_is_out_of_scope\<close>), an absolute
  path that is another file (\<open>absolute_path_is_another_file\<close>), a Stop that misses admitted work
  (\<open>stop_can_miss_admitted_work\<close>), cancelled work that starts (\<open>cancelled_work_still_starts\<close>), a write
  after a hand-over (\<open>early_lookup_writes_after_hand_over\<close>), a log lost to half a character
  (\<open>split_character_loses_the_log\<close>), an event lost to redaction
  (\<open>unreadable_redaction_loses_the_event\<close>), a record on the line of a torn one
  (\<open>failed_probe_joins_records\<close>), a request taken for a summary (\<open>request_with_the_title_is_replaced\<close>), a tool
  result without its call (\<open>titled_call_orphans_its_result\<close>), an output that grows when shortened
  (\<open>shortening_can_lengthen\<close>), a compaction over its budget (\<open>result_can_exceed_the_budget\<close>), a
  misspelt tool beside a wildcard (\<open>wildcard_hides_a_typo\<close>), a child that is never reported as narrowed
  (\<open>own_registry_never_narrows\<close>), a failed way out of incognito (\<open>failed_exit_strands\<close>), a record that an open
  step loses (\<open>open_step_loses_its_record\<close>) and an invented dependency that comes to name a step
  (\<open>invented_dependency_names_a_step\<close>).

  \<^bold>\<open>What is not modelled\<close>

  Serialisation, display texts that no decision depends on, the scheduling of the asynchronous
  runtime, Windows path prefixes, and all input and output. Of the server, scope detection, the adapter
  from hosts to pair endpoints, the daemon and the transport: they read a repository or a socket and call what
  is modelled. Of the harness, the turn loop, the rules and the drafting of plans through the model: asynchronous
  calls of a provider and of tools between the modelled steps. Of \<^verbatim>\<open>localpilot-rpc\<close>, the routing of
  requests. The mailbox protocol of \<^verbatim>\<open>localpilot-mesh\<close> has a lease and a delivery order of its own over the
  files of a directory and would need a model of concurrent directory operations; the layered configuration is
  a merge of TOML that serde does; \<^verbatim>\<open>localpilot-verify\<close> matches JSON against contracts a model writes. The
  duration parser of \<^verbatim>\<open>headers.rs\<close> reads a decimal into binary floating point. Provider adapters, tools,
  terminal and command line are input and output.
\<close>

end
